(* ===== verification/Prelude.thy ===== *)
theory Prelude
  imports Main "HOL-Library.Word" "HOL-Library.Multiset" "HOL-Library.Monad_Syntax"
begin

text \<open>
  Shared vocabulary of the development.

  The theorem collections \<open>c_simps\<close> (reading C characters and strings) and
  \<open>model_simps\<close> (unfolding small operations of the components) are declared here.
  The locale \<open>three_way\<close> states the contract of a C comparison callback, a function that
  answers -1, 0 or 1; \<open>padlex\<close> lifts a comparator to lists that are padded with a
  neutral element, which is how the version comparison treats missing components. The
  locale \<open>sort_callback\<close> adds that only equal elements compare equal, so that a list has
  one sorted arrangement; \<open>sorts\<close> is what the sort macros of the list library promise.
\<close>

named_theorems c_simps
named_theorems model_simps

section \<open>Lists\<close>

lemma length_dropWhile_tl_less [simp]:
  "xs \<noteq> [] \<Longrightarrow> length (dropWhile P (tl xs)) < length xs"
  by (cases xs) (auto simp: le_imp_less_Suc length_dropWhile_le)

lemma length_dropWhile_tl_le [simp]: "length (dropWhile P (tl xs)) \<le> length xs"
  by (rule order_trans [OF length_dropWhile_le]) simp

lemma dropWhile_hd_less: "xs \<noteq> [] \<Longrightarrow> P (hd xs) \<Longrightarrow> length (dropWhile P xs) < length xs"
  by (cases xs) (auto simp: le_imp_less_Suc length_dropWhile_le)

lemma dropWhile_append_tail:
  assumes "t = [] \<or> \<not> P (hd t)"
  shows "dropWhile P (p @ t) = dropWhile P p @ t"
  using assms by (induction p) (cases t; simp)+

lemma takeWhile_append_tail:
  assumes "t = [] \<or> \<not> P (hd t)"
  shows "takeWhile P (p @ t) = takeWhile P p"
  using assms by (induction p) (cases t; simp)+

lemma dropWhile_map_commute:
  assumes "\<And>x. P (f x) = P x"
  shows "dropWhile P (map f xs) = map f (dropWhile P xs)"
  using assms by (simp add: dropWhile_map o_def)

lemma takeWhile_map_commute:
  assumes "\<And>x. P (f x) = P x"
  shows "takeWhile P (map f xs) = map f (takeWhile P xs)"
  using assms by (simp add: takeWhile_map o_def)

lemma find_SomeD: "find P xs = Some x \<Longrightarrow> x \<in> set xs \<and> P x"
  by (induction xs) (auto split: if_splits)

section \<open>Tables\<close>

text \<open>What the users of a hash table rely on: looking up after adding, replacing or deleting a key.\<close>

locale lookup_table =
  fixes get :: "'t \<Rightarrow> 'k \<Rightarrow> 'v option"
    and put :: "'k \<Rightarrow> 'v \<Rightarrow> 't \<Rightarrow> 't"
    and del :: "'k \<Rightarrow> 't \<Rightarrow> 't"
  assumes get_put: "get (put k v t) k' = (if k' = k then Some v else get t k')"
    and get_del: "get (del k t) k' = (if k' = k then None else get t k')"
begin

lemma dom_put: "dom (get (put k v t)) = insert k (dom (get t))"
  by (auto simp: get_put split: if_splits)

lemma dom_del: "dom (get (del k t)) = dom (get t) - {k}"
  by (auto simp: get_del split: if_splits)

lemma get_fold_del: "get (fold del ks t) k = (if k \<in> set ks then None else get t k)"
  by (induction ks arbitrary: t) (auto simp: get_del)

lemma get_move: "get (put k v (del k t)) k' = get (put k v t) k'"
  by (simp add: get_put get_del)

end

section \<open>Comparators\<close>

text \<open>The contract of a three-way comparison: its answers, its symmetry, its transitivity.\<close>

locale three_way =
  fixes cmp :: "'a \<Rightarrow> 'a \<Rightarrow> int"
  assumes range: "cmp x y = -1 \<or> cmp x y = 0 \<or> cmp x y = 1"
    and sym: "cmp y x = - cmp x y"
    and trans: "cmp x y \<le> 0 \<Longrightarrow> cmp y z \<le> 0 \<Longrightarrow> cmp x z \<le> 0"
begin

lemma refl [simp]: "cmp x x = 0"
  using sym [of x x] by simp

lemma total: "cmp x y \<le> 0 \<or> cmp y x \<le> 0"
  using sym [of x y] by linarith

lemma ge_iff: "0 \<le> cmp x y \<longleftrightarrow> cmp y x \<le> 0"
  using sym [of x y] by linarith

lemma less_iff: "cmp x y < 0 \<longleftrightarrow> \<not> cmp y x \<le> 0"
  using sym [of x y] by linarith

lemma less_le_trans: "cmp x y < 0 \<Longrightarrow> cmp y z \<le> 0 \<Longrightarrow> cmp x z < 0"
  using trans [of y z x] by (auto simp: less_iff)

lemma le_less_trans: "cmp x y \<le> 0 \<Longrightarrow> cmp y z < 0 \<Longrightarrow> cmp x z < 0"
  using trans [of z x y] by (auto simp: less_iff)

lemma eq_iff: "cmp x y = 0 \<longleftrightarrow> cmp x y \<le> 0 \<and> cmp y x \<le> 0"
  using sym [of x y] by linarith

lemma eq_cong_left: "cmp x y = 0 \<Longrightarrow> cmp x z = cmp y z"
  using range [of x z] range [of y z] trans [of x y z] trans [of y x z]
    trans [of z x y] trans [of z y x] sym [of x z] sym [of y z] sym [of x y]
  by force

lemma eq_cong_right: "cmp y z = 0 \<Longrightarrow> cmp x y = cmp x z"
  using eq_cong_left [of y z x] sym [of x y] sym [of x z] by simp

lemma less_iff_minus_one: "cmp x y < 0 \<longleftrightarrow> cmp x y = -1"
  using range [of x y] by auto

lemma gt_iff_one: "0 < cmp x y \<longleftrightarrow> cmp x y = 1"
  using range [of x y] by auto

end

text \<open>Comparison by a key inherits the contract, and so does a lexicographic combination.\<close>

definition lex_int :: "int \<Rightarrow> int \<Rightarrow> int" where
  "lex_int a b = (if a \<noteq> 0 then a else b)"

lemma lex_int_0 [simp]: "lex_int 0 b = b"
  by (simp add: lex_int_def)

lemma three_way_key: "three_way c \<Longrightarrow> three_way (\<lambda>x y. c (f x) (f y))"
  unfolding three_way_def by blast

lemma three_way_lex:
  assumes "three_way c" and "three_way d"
  shows "three_way (\<lambda>x y. lex_int (c x y) (d x y))"
proof
  fix x y z
  note cd = three_way.range [OF assms(1)] three_way.range [OF assms(2)]
    three_way.sym [OF assms(1)] three_way.sym [OF assms(2)]
  show "lex_int (c x y) (d x y) = -1 \<or> lex_int (c x y) (d x y) = 0 \<or> lex_int (c x y) (d x y) = 1"
    using cd(1) [of x y] cd(2) [of x y] by (auto simp: lex_int_def)
  show "lex_int (c y x) (d y x) = - lex_int (c x y) (d x y)"
    using cd(3) [of y x] cd(4) [of y x] by (auto simp: lex_int_def)
  assume le: "lex_int (c x y) (d x y) \<le> 0" "lex_int (c y z) (d y z) \<le> 0"
  then have c_le: "c x y \<le> 0" "c y z \<le> 0"
    by (auto simp: lex_int_def split: if_splits)
  then have xz: "c x z \<le> 0" by (rule three_way.trans [OF assms(1)])
  show "lex_int (c x z) (d x z) \<le> 0"
  proof (cases "c x z = 0")
    case True
    then have "c x y = 0" "c y z = 0"
      using c_le three_way.less_le_trans [OF assms(1), of x y z]
        three_way.le_less_trans [OF assms(1), of x y z] by force+
    with le have "d x y \<le> 0" "d y z \<le> 0" by simp_all
    then show ?thesis using True three_way.trans [OF assms(2)] by (simp add: lex_int_def)
  next
    case False
    with xz show ?thesis by (simp add: lex_int_def)
  qed
qed

definition cmp_ord :: "'a::linorder \<Rightarrow> 'a \<Rightarrow> int" where
  "cmp_ord x y = (if x \<noteq> y then (if x < y then -1 else 1) else 0)"

interpretation ord_cmp: three_way "cmp_ord :: 'a::linorder \<Rightarrow> 'a \<Rightarrow> int"
  by unfold_locales (auto simp: cmp_ord_def split: if_splits)

subsection \<open>Padded lexicographic comparison\<close>

fun padlex :: "('a \<Rightarrow> 'a \<Rightarrow> int) \<Rightarrow> 'a \<Rightarrow> 'a list \<Rightarrow> 'a list \<Rightarrow> int" where
  "padlex c z [] [] = 0"
| "padlex c z (x # xs) [] = lex_int (c x z) (padlex c z xs [])"
| "padlex c z [] (y # ys) = lex_int (c z y) (padlex c z [] ys)"
| "padlex c z (x # xs) (y # ys) = lex_int (c x y) (padlex c z xs ys)"

definition hd_pad :: "'a \<Rightarrow> 'a list \<Rightarrow> 'a" where
  "hd_pad z xs = (case xs of [] \<Rightarrow> z | x # _ \<Rightarrow> x)"

lemma padlex_step:
  assumes "c z z = 0"
  shows "padlex c z xs ys = lex_int (c (hd_pad z xs) (hd_pad z ys)) (padlex c z (tl xs) (tl ys))"
  using assms by (cases xs; cases ys) (simp_all add: hd_pad_def)

lemma padlex_refl: "(\<And>x. c x x = 0) \<Longrightarrow> padlex c z xs xs = 0"
  by (induction xs) simp_all

lemma padlex_range:
  "three_way c \<Longrightarrow> padlex c z xs ys = -1 \<or> padlex c z xs ys = 0 \<or> padlex c z xs ys = 1"
proof (induction c z xs ys rule: padlex.induct)
  case (2 c z x xs)
  then show ?case using three_way.range [of c x z] by (auto simp: lex_int_def)
next
  case (3 c z y ys)
  then show ?case using three_way.range [of c z y] by (auto simp: lex_int_def)
next
  case (4 c z x xs y ys)
  then show ?case using three_way.range [of c x y] by (auto simp: lex_int_def)
qed simp

lemma padlex_sym: "three_way c \<Longrightarrow> padlex c z ys xs = - padlex c z xs ys"
proof (induction c z xs ys rule: padlex.induct)
  case (2 c z x xs)
  then show ?case using three_way.sym [of c x z] by (auto simp: lex_int_def)
next
  case (3 c z y ys)
  then show ?case using three_way.sym [of c z y] by (auto simp: lex_int_def)
next
  case (4 c z x xs y ys)
  then show ?case using three_way.sym [of c x y] by (auto simp: lex_int_def)
qed simp

lemma three_way_padlex:
  assumes c: "three_way c"
  shows "three_way (padlex c z)"
proof
  have zz: "c z z = 0" using c by (rule three_way.refl)
  fix xs ys zs
  show "padlex c z xs ys = -1 \<or> padlex c z xs ys = 0 \<or> padlex c z xs ys = 1"
    using c by (rule padlex_range)
  show "padlex c z ys xs = - padlex c z xs ys"
    using c by (rule padlex_sym)
  assume "padlex c z xs ys \<le> 0" "padlex c z ys zs \<le> 0"
  then show "padlex c z xs zs \<le> 0"
  proof (induction "length xs + length ys + length zs" arbitrary: xs ys zs rule: less_induct)
    case less
    let ?h = "hd_pad z"
    show ?case
    proof (cases "xs = [] \<and> ys = [] \<and> zs = []")
      case True then show ?thesis by simp
    next
      case False
      then have dec: "length (tl xs) + length (tl ys) + length (tl zs)
          < length xs + length ys + length zs"
        by (cases xs; cases ys; cases zs) auto
      note st = padlex_step [of c z, OF zz]
      have le: "c (?h xs) (?h ys) \<le> 0" "c (?h ys) (?h zs) \<le> 0"
        using less.prems st [of xs ys] st [of ys zs] by (auto simp: lex_int_def split: if_splits)
      have xz: "c (?h xs) (?h zs) \<le> 0" using le by (rule three_way.trans [OF c])
      show ?thesis
      proof (cases "c (?h xs) (?h zs) = 0")
        case True
        then have eq: "c (?h xs) (?h ys) = 0" "c (?h ys) (?h zs) = 0"
          using le three_way.less_le_trans [OF c] three_way.le_less_trans [OF c] by force+
        then have "padlex c z (tl xs) (tl ys) \<le> 0" "padlex c z (tl ys) (tl zs) \<le> 0"
          using less.prems st [of xs ys] st [of ys zs] by simp_all
        from less.hyps [OF dec this] show ?thesis
          using True st [of xs zs] by simp
      next
        case False
        with xz show ?thesis using st [of xs zs] by (simp add: lex_int_def)
      qed
    qed
  qed
qed

section \<open>Sorting\<close>

text \<open>
  \<^verbatim>\<open>DL_SORT\<close> and \<^verbatim>\<open>LL_SORT\<close> belong to a list library outside the repository; the definitions
  that call them take the sort as an argument, and \<open>sorts\<close> is its documented behaviour.
\<close>

definition sorts :: "(('a \<Rightarrow> 'a \<Rightarrow> int) \<Rightarrow> 'a list \<Rightarrow> 'a list) \<Rightarrow> ('a \<Rightarrow> 'a \<Rightarrow> int) \<Rightarrow> bool" where
  "sorts srt cmp \<longleftrightarrow> (\<forall>xs. mset (srt cmp xs) = mset xs \<and> sorted_wrt (\<lambda>x y. cmp x y \<le> 0) (srt cmp xs))"

text \<open>Insertion sort, an instance.\<close>

fun insert_by :: "('a \<Rightarrow> 'a \<Rightarrow> int) \<Rightarrow> 'a \<Rightarrow> 'a list \<Rightarrow> 'a list" where
  "insert_by cmp x [] = [x]"
| "insert_by cmp x (y # ys) = (if cmp x y \<le> 0 then x # y # ys else y # insert_by cmp x ys)"

definition insertion_sort :: "('a \<Rightarrow> 'a \<Rightarrow> int) \<Rightarrow> 'a list \<Rightarrow> 'a list" where
  "insertion_sort cmp xs = foldr (insert_by cmp) xs []"

lemma mset_insert_by [simp]: "mset (insert_by cmp x ys) = add_mset x (mset ys)"
  by (induction ys) auto

context three_way begin

lemma sorted_insert_by:
  "sorted_wrt (\<lambda>x y. cmp x y \<le> 0) ys \<Longrightarrow> sorted_wrt (\<lambda>x y. cmp x y \<le> 0) (insert_by cmp x ys)"
proof (induction ys)
  case (Cons y ys)
  show ?case
  proof (cases "cmp x y \<le> 0")
    case True
    then show ?thesis using Cons.prems trans by auto
  next
    case False
    then have "cmp y x \<le> 0" using total by blast
    moreover have "set (insert_by cmp x ys) = insert x (set ys)"
      by (metis mset_insert_by set_mset_add_mset_insert set_mset_mset)
    ultimately show ?thesis using False Cons by auto
  qed
qed simp

lemma insertion_sort_sorts: "sorts insertion_sort cmp"
proof -
  have "mset (insertion_sort cmp xs) = mset xs \<and> sorted_wrt (\<lambda>x y. cmp x y \<le> 0) (insertion_sort cmp xs)" for xs
    by (induction xs) (auto simp: insertion_sort_def sorted_insert_by)
  then show ?thesis by (simp add: sorts_def)
qed

end

locale sort_callback = three_way +
  assumes antisym: "cmp x y = 0 \<Longrightarrow> x = y"
begin

lemma sorted_unique:
  assumes "sorted_wrt (\<lambda>x y. cmp x y \<le> 0) xs" "sorted_wrt (\<lambda>x y. cmp x y \<le> 0) ys" "mset xs = mset ys"
  shows "xs = ys"
  using assms
proof (induction xs arbitrary: ys)
  case (Cons x xs)
  then obtain y ys' where ys: "ys = y # ys'" by (cases ys) auto
  have "x \<in> set ys" "y \<in> set (x # xs)"
    using Cons.prems(3) ys by (metis list.set_intros(1) set_mset_mset)+
  then have "cmp x y \<le> 0" "cmp y x \<le> 0" using Cons.prems(1,2) ys by auto
  then have "x = y" using eq_iff antisym by blast
  then show ?case using Cons ys by auto
qed simp

lemma sort_determined:
  "sorts srt cmp \<Longrightarrow> mset xs = mset ys \<Longrightarrow> srt cmp xs = srt cmp ys"
  using sorted_unique by (simp add: sorts_def)

end

end
