(* ===== verification/C_String.thy ===== *)
theory C_String
  imports Prelude
begin

text \<open>
  C strings and the part of the C standard library the sources use on them.

  A string is the list of its characters before the terminating NUL; a pointer into it is
  the suffix it points at, so \<open>*p\<close> on the empty suffix reads the terminator (\<open>deref\<close>) and
  the difference of two pointers is a difference of lengths. Character classes are those
  of the C locale; a byte above 127 belongs to none of them. \<open>long\<close>, \<open>unsigned long\<close> and
  \<open>long long\<close> have 64 bits.
\<close>

section \<open>Characters\<close>

definition code :: "char \<Rightarrow> nat" where
  "code c = of_char c"

definition NUL :: char where
  "NUL = CHR 0x00"

definition isdigit :: "char \<Rightarrow> bool" where
  "isdigit c \<longleftrightarrow> 48 \<le> code c \<and> code c \<le> 57"

definition isupper :: "char \<Rightarrow> bool" where
  "isupper c \<longleftrightarrow> 65 \<le> code c \<and> code c \<le> 90"

definition islower :: "char \<Rightarrow> bool" where
  "islower c \<longleftrightarrow> 97 \<le> code c \<and> code c \<le> 122"

definition isalpha :: "char \<Rightarrow> bool" where
  "isalpha c \<longleftrightarrow> isupper c \<or> islower c"

definition isalnum :: "char \<Rightarrow> bool" where
  "isalnum c \<longleftrightarrow> isalpha c \<or> isdigit c"

definition isspace :: "char \<Rightarrow> bool" where
  "isspace c \<longleftrightarrow> 9 \<le> code c \<and> code c \<le> 13 \<or> code c = 32"

definition isprint :: "char \<Rightarrow> bool" where
  "isprint c \<longleftrightarrow> 32 \<le> code c \<and> code c \<le> 126"

definition tolower :: "char \<Rightarrow> char" where
  "tolower c = (if isupper c then char_of (code c + 32) else c)"

lemmas ctype_defs = isdigit_def isupper_def islower_def isalpha_def isalnum_def isspace_def
  isprint_def

lemma code_less: "code c < 256"
  by (simp add: code_def)

lemma code_inject [simp]: "code c = code d \<longleftrightarrow> c = d"
  by (simp add: code_def)

lemma code_tolower: "code (tolower c) = (if isupper c then code c + 32 else code c)"
  by (auto simp: tolower_def isupper_def code_def of_char_of)

lemma ctype_NUL [simp]:
  "\<not> isdigit NUL" "\<not> isalpha NUL" "\<not> isspace NUL" "\<not> isalnum NUL" "\<not> isprint NUL"
  by (simp_all add: ctype_defs code_def NUL_def)

lemma ctype_tolower [simp]:
  "isdigit (tolower c) = isdigit c" "isalpha (tolower c) = isalpha c"
  "isspace (tolower c) = isspace c"
  by (auto simp: ctype_defs code_tolower)

lemma tolower_tolower [simp]: "tolower (tolower c) = tolower c"
proof -
  have "code (tolower (tolower c)) = code (tolower c)"
    by (subst code_tolower) (auto simp: isupper_def code_tolower)
  then show ?thesis by simp
qed

lemma tolower_eq_nonalpha: "\<not> isalpha d \<Longrightarrow> tolower c = d \<longleftrightarrow> c = d"
proof -
  assume d: "\<not> isalpha d"
  have "code (tolower c) = code d \<longleftrightarrow> code c = code d"
    using d by (auto simp: code_tolower ctype_defs)
  then show ?thesis by simp
qed

section \<open>Reading and searching\<close>

definition deref :: "string \<Rightarrow> char" where
  "deref s = (case s of [] \<Rightarrow> NUL | c # _ \<Rightarrow> c)"

lemma deref_simps [simp, c_simps]: "deref [] = NUL" "deref (c # s) = c"
  by (simp_all add: deref_def)

fun strchr :: "string \<Rightarrow> char \<Rightarrow> string option" where
  "strchr [] c = None"
| "strchr (x # s) c = (if x = c then Some (x # s) else strchr s c)"

fun strrchr :: "string \<Rightarrow> char \<Rightarrow> string option" where
  "strrchr [] c = None"
| "strrchr (x # s) c =
     (case strrchr s c of Some t \<Rightarrow> Some t | None \<Rightarrow> if x = c then Some (x # s) else None)"

lemma strrchr_None: "strrchr s c = None \<longleftrightarrow> c \<notin> set s"
  by (induction s) (auto split: option.splits)

lemma strrchr_Some: "strrchr s c = Some t \<Longrightarrow> \<exists>p u. s = p @ t \<and> t = c # u \<and> c \<notin> set u"
proof (induction s arbitrary: t)
  case (Cons x s)
  show ?case
  proof (cases "strrchr s c")
    case None
    with Cons.prems have "x = c" "t = x # s" by (simp_all split: if_splits)
    moreover have "c \<notin> set s" using None by (simp add: strrchr_None)
    ultimately show ?thesis by (intro exI [of _ "[]"] exI [of _ s]) simp
  next
    case (Some u)
    then obtain p v where "s = p @ u" "u = c # v" "c \<notin> set v" using Cons.IH by blast
    then show ?thesis using Some Cons.prems by (auto intro: exI [of _ "x # p"])
  qed
qed simp

lemma strchr_Some: "strchr s c = Some t \<Longrightarrow> \<exists>p u. s = p @ t \<and> t = c # u \<and> c \<notin> set p"
proof (induction s arbitrary: t)
  case (Cons x s)
  show ?case
  proof (cases "x = c")
    case True
    then show ?thesis using Cons.prems by auto
  next
    case False
    then obtain p u where "s = p @ t" "t = c # u" "c \<notin> set p" using Cons by force
    then show ?thesis using False by (auto intro: exI [of _ "x # p"])
  qed
qed simp

lemma strchr_None: "strchr s c = None \<longleftrightarrow> c \<notin> set s"
  by (induction s) auto

text \<open>\<open>strncasecmp (s, t, n) == 0\<close> and \<open>strcasecmp (s, t) == 0\<close>.\<close>

definition strncaseeq :: "string \<Rightarrow> string \<Rightarrow> nat \<Rightarrow> bool" where
  "strncaseeq s t n \<longleftrightarrow> take n (map tolower s) = take n (map tolower t)"

definition strcaseeq :: "string \<Rightarrow> string \<Rightarrow> bool" where
  "strcaseeq s t \<longleftrightarrow> map tolower s = map tolower t"

text \<open>The sign of \<open>strcmp\<close>, which compares bytes as unsigned characters.\<close>

fun strcmp :: "string \<Rightarrow> string \<Rightarrow> int" where
  "strcmp [] [] = 0"
| "strcmp [] (d # t) = -1"
| "strcmp (c # s) [] = 1"
| "strcmp (c # s) (d # t) = (if code c < code d then -1 else if code d < code c then 1 else strcmp s t)"

interpretation str_cmp: three_way strcmp
proof
  fix s t u
  show "strcmp s t = -1 \<or> strcmp s t = 0 \<or> strcmp s t = 1"
    by (induction s t rule: strcmp.induct) auto
  show "strcmp t s = - strcmp s t"
    by (induction s t rule: strcmp.induct) auto
  assume "strcmp s t \<le> 0" "strcmp t u \<le> 0" then show "strcmp s u \<le> 0"
  proof (induction s t arbitrary: u rule: strcmp.induct)
    case (2 d t)
    then show ?case by (cases u) auto
  next
    case (4 c s d t)
    show ?case
    proof (cases u)
      case Nil
      then show ?thesis using "4.prems" by simp
    next
      case (Cons e v)
      have le: "code c \<le> code d" "code d \<le> code e"
        using "4.prems" Cons by (auto split: if_splits)
      show ?thesis
      proof (cases "code c = code e")
        case True
        then have eq: "c = d" "d = e" using le by (auto simp flip: code_inject)
        then show ?thesis using "4.IH" "4.prems" Cons by simp
      next
        case False
        then have "code c < code e" using le by linarith
        then show ?thesis using Cons by simp
      qed
    qed
  qed simp_all
qed

lemma strcmp_eq_0 [simp]: "strcmp s t = 0 \<longleftrightarrow> s = t"
proof
  assume "strcmp s t = 0" then show "s = t"
  proof (induction s t rule: strcmp.induct)
    case (4 c s d t)
    then have "code c = code d" by (auto split: if_splits)
    then show ?case using 4 by auto
  qed auto
qed simp

section \<open>Numbers\<close>

definition dec_val :: "string \<Rightarrow> int" where
  "dec_val ds = foldl (\<lambda>a c. a * 10 + (int (code c) - 48)) 0 ds"

text \<open>White space and an optional sign, then the digits: \<open>(negative, digits, rest)\<close>.\<close>

definition num_prefix :: "string \<Rightarrow> bool \<times> string \<times> string" where
  "num_prefix s =
     (let s1 = dropWhile isspace s;
          neg = (deref s1 = CHR ''-'');
          s2 = (if deref s1 = CHR ''-'' \<or> deref s1 = CHR ''+'' then tl s1 else s1)
      in (neg, takeWhile isdigit s2, dropWhile isdigit s2))"

text \<open>\<open>strtoul (s, NULL, 10)\<close>: saturates at \<open>ULONG_MAX\<close>; a sign negates modulo 2^64.\<close>

definition strtoul :: "string \<Rightarrow> 64 word" where
  "strtoul s = (let (neg, ds, rest) = num_prefix s; v = dec_val ds
     in if v > 2 ^ 64 - 1 then - 1 else if neg then - of_int v else of_int v)"

text \<open>
  \<open>strtoll (s, &end, 10)\<close>: the value, clamped to the range of \<open>long long\<close>, whether it was
  clamped (\<open>ERANGE\<close>), and \<open>end\<close>, which is \<open>s\<close> when there is no number.
\<close>

definition LLONG_MIN :: int where
  "LLONG_MIN = - (2 ^ 63)"

definition LLONG_MAX :: int where
  "LLONG_MAX = 2 ^ 63 - 1"

definition strtoll :: "string \<Rightarrow> int \<times> bool \<times> string" where
  "strtoll s = (let (neg, ds, rest) = num_prefix s; v = (if neg then - dec_val ds else dec_val ds)
     in if ds = [] then (0, False, s)
        else if v < LLONG_MIN then (LLONG_MIN, True, rest)
        else if v > LLONG_MAX then (LLONG_MAX, True, rest)
        else (v, False, rest))"

lemma dec_val_nonneg:
  assumes "\<forall>c \<in> set ds. isdigit c"
  shows "0 \<le> dec_val ds"
proof -
  have "0 \<le> a \<Longrightarrow> 0 \<le> foldl (\<lambda>a c. a * 10 + (int (code c) - 48)) a ds" for a
    using assms by (induction ds arbitrary: a) (auto simp: isdigit_def)
  then show ?thesis by (simp add: dec_val_def)
qed

lemma dec_val_takeWhile_nonneg [simp]: "0 \<le> dec_val (takeWhile isdigit s)"
  by (intro dec_val_nonneg) (auto dest: set_takeWhileD)

lemma strtoll_at_digit:
  assumes "isdigit (deref s)"
  shows "strtoll s = (min (dec_val (takeWhile isdigit s)) LLONG_MAX,
    dec_val (takeWhile isdigit s) > LLONG_MAX, dropWhile isdigit s)"
proof -
  obtain c r where s: "s = c # r" and c: "isdigit c"
    using assms by (cases s) auto
  have "\<not> isspace c" "c \<noteq> CHR ''-''" "c \<noteq> CHR ''+''"
    using c by (auto simp: ctype_defs code_def)
  then have "num_prefix s = (False, takeWhile isdigit s, dropWhile isdigit s)"
    by (simp add: num_prefix_def s)
  moreover have "takeWhile isdigit s \<noteq> []" using c by (simp add: s)
  moreover have "\<not> dec_val (takeWhile isdigit s) < LLONG_MIN"
  proof -
    have "LLONG_MIN \<le> 0" by (simp add: LLONG_MIN_def)
    then show ?thesis using dec_val_takeWhile_nonneg [of s] by linarith
  qed
  ultimately show ?thesis by (simp add: strtoll_def min_def Let_def)
qed

end
