(* ===== verification/Deps_Formula.thy ===== *)
theory Deps_Formula
  imports C_String
begin

text \<open>
  Dependency formulas, \<^verbatim>\<open>libpkg/pkg_deps.c\<close>: the state machine of
  \<open>pkg_deps_parse_formula\<close>, one step per iteration of its loop, and the printers
  \<open>pkg_deps_formula_tostring\<close> and \<open>pkg_deps_formula_tosql\<close> with their precomputed buffer
  sizes.
\<close>

section \<open>Formulas\<close>

datatype version_op = VERSION_ANY | VERSION_EQ | VERSION_GE | VERSION_LE | VERSION_LT
  | VERSION_GT | VERSION_NOT

record version_item =
  vi_ver :: string
  vi_op :: version_op

record option_item =
  oi_opt :: string
  oi_on :: bool

record formula_item =
  fi_name :: string
  fi_versions :: "version_item list"
  fi_options :: "option_item list"

text \<open>A clause (\<^verbatim>\<open>struct pkg_dep_formula\<close>) is its list of alternatives, a formula a list of clauses.\<close>

type_synonym clause = "formula_item list"

section \<open>The parser\<close>

datatype pstate = Parse_dep_name | Parse_after_name | Parse_ver_op | Parse_after_op
  | Parse_version_number | Parse_after_version | Parse_option_start | Parse_option
  | Parse_after_option | Parse_comma | Parse_or | Skip_spaces | Error

text \<open>
  The locals of the function: positions \<open>p\<close> and \<open>c\<close> are indices into the input, and a NULL
  \<^verbatim>\<open>cur\<close> or \<^verbatim>\<open>cur_item\<close> is \<open>None\<close>. \<open>ps_on\<close> is the flag of the option being parsed.
\<close>

record parser =
  ps_p :: nat
  ps_c :: nat
  ps_state :: pstate
  ps_next :: pstate
  ps_op :: version_op
  ps_on :: bool
  ps_item :: "formula_item option"
  ps_clause :: "clause option"
  ps_res :: "clause list"

datatype presult = Formula "clause list" | Parse_error | Assert_fail

datatype pstep = Go parser | Stop presult

definition char_at :: "string \<Rightarrow> nat \<Rightarrow> char" where
  "char_at s i = (if i < length s then s ! i else NUL)"

definition substring :: "string \<Rightarrow> nat \<Rightarrow> nat \<Rightarrow> string" where
  "substring s c p = take (p - c) (drop c s)"

definition is_op_char :: "char \<Rightarrow> bool" where
  "is_op_char c \<longleftrightarrow> c = CHR ''>'' \<or> c = CHR ''<'' \<or> c = CHR ''='' \<or> c = CHR ''!''"

definition op_of_string :: "string \<Rightarrow> version_op option" where
  "op_of_string s =
     (if s = ''>='' then Some VERSION_GE else if s = ''<='' then Some VERSION_LE
      else if s = ''!='' then Some VERSION_NOT else if s = ''=='' then Some VERSION_EQ
      else if s = ''>'' then Some VERSION_GT else if s = ''<'' then Some VERSION_LT
      else if s = ''!'' then Some VERSION_NOT else if s = ''='' then Some VERSION_EQ
      else None)"

definition is_version_char :: "string \<Rightarrow> nat \<Rightarrow> bool" where
  "is_version_char s p \<longleftrightarrow> (let ch = char_at s p in
     isalnum ch \<or> ch = CHR ''-'' \<or> ch = CHR ''_'' \<or> ch = CHR ''.'' \<or>
     ch = CHR '','' \<and> isdigit (char_at s (p + 1)))"

definition is_option_char :: "char \<Rightarrow> bool" where
  "is_option_char c \<longleftrightarrow> isalnum c \<or> c = CHR ''-'' \<or> c = CHR ''_''"

definition new_item :: "string \<Rightarrow> formula_item" where
  "new_item nm = \<lparr>fi_name = nm, fi_versions = [], fi_options = []\<rparr>"

definition add_version :: "version_item \<Rightarrow> formula_item \<Rightarrow> formula_item" where
  "add_version v f = f\<lparr>fi_versions := fi_versions f @ [v]\<rparr>"

definition add_option :: "option_item \<Rightarrow> formula_item \<Rightarrow> formula_item" where
  "add_option x f = f\<lparr>fi_options := fi_options f @ [x]\<rparr>"

definition step_dep_name :: "string \<Rightarrow> parser \<Rightarrow> pstep" where
  "step_dep_name s q =
     (let ch = char_at s (ps_p q) in
      if isspace ch \<or> ch = NUL then
        if ps_p q = ps_c q then Go (q\<lparr>ps_state := Skip_spaces, ps_next := Parse_dep_name\<rparr>)
        else Go (q\<lparr>ps_state := Skip_spaces, ps_next := Parse_after_name,
                   ps_item := Some (new_item (substring s (ps_c q) (ps_p q)))\<rparr>)
      else if ch = CHR '','' then
        if ps_p q = ps_c q then Go (q\<lparr>ps_state := Error\<rparr>)
        else Go (q\<lparr>ps_state := Parse_after_name, ps_item := Some (new_item (substring s (ps_c q) (ps_p q)))\<rparr>)
      else if \<not> isprint ch then Go (q\<lparr>ps_state := Error\<rparr>)
      else Go (q\<lparr>ps_p := ps_p q + 1\<rparr>))"

text \<open>The shared case of the states after a name, a version and an option.\<close>

definition step_after :: "string \<Rightarrow> parser \<Rightarrow> pstep" where
  "step_after s q =
     (let ch = char_at s (ps_p q) in
      if ch = CHR '','' \<or> ch = NUL then Go (q\<lparr>ps_state := Parse_comma\<rparr>)
      else if ch = CHR ''|'' then Go (q\<lparr>ps_state := Parse_or\<rparr>)
      else if ch = CHR ''+'' \<or> ch = CHR ''-'' then Go (q\<lparr>ps_c := ps_p q, ps_state := Parse_option_start\<rparr>)
      else if is_op_char ch then Go (q\<lparr>ps_c := ps_p q, ps_op := VERSION_ANY, ps_state := Parse_ver_op\<rparr>)
      else Go (q\<lparr>ps_state := Error\<rparr>))"

definition step_ver_op :: "string \<Rightarrow> parser \<Rightarrow> pstep" where
  "step_ver_op s q =
     (if is_op_char (char_at s (ps_p q)) then Go (q\<lparr>ps_p := ps_p q + 1\<rparr>)
      else case op_of_string (substring s (ps_c q) (ps_p q)) of
          Some ver_op \<Rightarrow> Go (q\<lparr>ps_op := ver_op, ps_state := Skip_spaces, ps_next := Parse_after_op\<rparr>)
        | None \<Rightarrow> Go (q\<lparr>ps_state := Error\<rparr>))"

definition step_version_number :: "string \<Rightarrow> parser \<Rightarrow> pstep" where
  "step_version_number s q =
     (if is_version_char s (ps_p q) then Go (q\<lparr>ps_p := ps_p q + 1\<rparr>)
      else if ps_p q > ps_c q then
        (case ps_item q of None \<Rightarrow> Stop Assert_fail
         | Some f \<Rightarrow> Go (q\<lparr>ps_item := Some (add_version \<lparr>vi_ver = substring s (ps_c q) (ps_p q), vi_op = ps_op q\<rparr> f),
                          ps_state := Skip_spaces, ps_next := Parse_after_version\<rparr>))
      else Go (q\<lparr>ps_state := Error\<rparr>))"

definition step_option :: "string \<Rightarrow> parser \<Rightarrow> pstep" where
  "step_option s q =
     (if is_option_char (char_at s (ps_p q)) then Go (q\<lparr>ps_p := ps_p q + 1\<rparr>)
      else if ps_p q > ps_c q then
        (case ps_item q of None \<Rightarrow> Stop Assert_fail
         | Some f \<Rightarrow> Go (q\<lparr>ps_item := Some (add_option \<lparr>oi_opt = substring s (ps_c q) (ps_p q), oi_on = ps_on q\<rparr> f),
                          ps_state := Skip_spaces, ps_next := Parse_after_option\<rparr>))
      else Go (q\<lparr>ps_state := Error\<rparr>))"

text \<open>The alternatives collected so far with the item just ended.\<close>

definition close_item :: "parser \<Rightarrow> formula_item \<Rightarrow> clause" where
  "close_item q f = (case ps_clause q of None \<Rightarrow> [] | Some fs \<Rightarrow> fs) @ [f]"

definition step_comma :: "parser \<Rightarrow> pstep" where
  "step_comma q =
     (case ps_item q of None \<Rightarrow> Stop Assert_fail
      | Some f \<Rightarrow> Go (q\<lparr>ps_res := ps_res q @ [close_item q f], ps_item := None, ps_clause := None,
                       ps_p := ps_p q + 1, ps_state := Skip_spaces, ps_next := Parse_dep_name\<rparr>))"

definition step_or :: "parser \<Rightarrow> pstep" where
  "step_or q =
     (case ps_item q of None \<Rightarrow> Stop Assert_fail
      | Some f \<Rightarrow> Go (q\<lparr>ps_clause := Some (close_item q f), ps_item := None,
                       ps_p := ps_p q + 1, ps_state := Skip_spaces, ps_next := Parse_dep_name\<rparr>))"

definition step_skip_spaces :: "string \<Rightarrow> parser \<Rightarrow> pstep" where
  "step_skip_spaces s q =
     (let ch = char_at s (ps_p q) in
      if isspace ch then Go (q\<lparr>ps_p := ps_p q + 1\<rparr>)
      else if ch = NUL then Go (q\<lparr>ps_state := Parse_comma\<rparr>)
      else Go (q\<lparr>ps_c := ps_p q, ps_state := ps_next q\<rparr>))"

definition formula_step :: "string \<Rightarrow> parser \<Rightarrow> pstep" where
  "formula_step s q =
     (case ps_state q of
        Parse_dep_name \<Rightarrow> step_dep_name s q
      | Parse_after_name \<Rightarrow> step_after s q
      | Parse_after_version \<Rightarrow> step_after s q
      | Parse_after_option \<Rightarrow> step_after s q
      | Parse_ver_op \<Rightarrow> step_ver_op s q
      | Parse_after_op \<Rightarrow>
          if ps_op q = VERSION_ANY then Go (q\<lparr>ps_state := Error\<rparr>) else Go (q\<lparr>ps_state := Parse_version_number\<rparr>)
      | Parse_version_number \<Rightarrow> step_version_number s q
      | Parse_option_start \<Rightarrow>
          Go (q\<lparr>ps_on := (char_at s (ps_p q) = CHR ''+''), ps_p := ps_p q + 1, ps_c := ps_p q + 1, ps_state := Parse_option\<rparr>)
      | Parse_option \<Rightarrow> step_option s q
      | Parse_comma \<Rightarrow> step_comma q
      | Parse_or \<Rightarrow> step_or q
      | Skip_spaces \<Rightarrow> step_skip_spaces s q
      | Error \<Rightarrow> Stop Parse_error)"

definition parser_init :: parser where
  "parser_init = \<lparr>ps_p = 0, ps_c = 0, ps_state = Parse_dep_name, ps_next = Parse_dep_name,
     ps_op = VERSION_ANY, ps_on = False, ps_item = None, ps_clause = None, ps_res = []\<rparr>"


subsection \<open>The loop ends\<close>

text \<open>
  Every step advances \<open>p\<close> or lowers a rank of the state at the character under \<open>p\<close>; the loop
  runs while \<open>p\<close> is at most the end of the input, so it is a total function.
\<close>

definition skips :: "string \<Rightarrow> nat \<Rightarrow> bool" where
  "skips s p \<longleftrightarrow> isspace (char_at s p) \<or> char_at s p = NUL"

fun state_rank :: "string \<Rightarrow> nat \<Rightarrow> pstate \<Rightarrow> nat" where
  "state_rank s p Error = 0"
| "state_rank s p Parse_comma = 1"
| "state_rank s p Parse_or = 1"
| "state_rank s p Parse_option_start = 1"
| "state_rank s p Parse_after_name = 2"
| "state_rank s p Parse_after_version = 2"
| "state_rank s p Parse_after_option = 2"
| "state_rank s p Parse_dep_name = 3"
| "state_rank s p Parse_version_number = 4"
| "state_rank s p Parse_option = 4"
| "state_rank s p Parse_after_op = 5"
| "state_rank s p Parse_ver_op = (if is_op_char (char_at s p) then 1 else 7)"
| "state_rank s p Skip_spaces = 2"

definition parser_rank :: "string \<Rightarrow> parser \<Rightarrow> nat" where
  "parser_rank s q =
     (if ps_state q = Skip_spaces then
        (if skips s (ps_p q) then 2 else Suc (state_rank s (ps_p q) (ps_next q)))
      else state_rank s (ps_p q) (ps_state q))"

text \<open>\<open>next_state\<close> is only ever one of the five states that follow a run of spaces.\<close>

definition next_ok :: "parser \<Rightarrow> bool" where
  "next_ok q \<longleftrightarrow> ps_next q \<in> {Parse_dep_name, Parse_after_name, Parse_after_op,
     Parse_after_version, Parse_after_option}"

definition parser_measure :: "string \<Rightarrow> parser \<Rightarrow> nat" where
  "parser_measure s q = 10 * (length s + 1 - ps_p q) + parser_rank s q"

lemma state_rank_le: "state_rank s p x \<le> 7"
  by (cases x) auto

lemma parser_rank_le: "parser_rank s q \<le> 8"
proof -
  have "state_rank s (ps_p q) (ps_state q) \<le> 8"
    using state_rank_le [of s "ps_p q" "ps_state q"] by simp
  then show ?thesis using state_rank_le [of s "ps_p q" "ps_next q"]
    by (simp add: parser_rank_def)
qed

text \<open>A step ends the run, advances \<open>p\<close>, or keeps \<open>p\<close> and lowers the rank.\<close>

definition progresses :: "string \<Rightarrow> parser \<Rightarrow> pstep \<Rightarrow> bool" where
  "progresses s q r \<longleftrightarrow> (case r of Stop _ \<Rightarrow> True
     | Go q' \<Rightarrow> next_ok q' \<and> (ps_p q' = ps_p q + 1 \<or> ps_p q' = ps_p q \<and> parser_rank s q' < parser_rank s q))"

lemma next_ok_update [simp]:
  "next_ok (q\<lparr>ps_state := a\<rparr>) = next_ok q" "next_ok (q\<lparr>ps_p := n\<rparr>) = next_ok q"
  "next_ok (q\<lparr>ps_c := n\<rparr>) = next_ok q" "next_ok (q\<lparr>ps_op := v\<rparr>) = next_ok q"
  "next_ok (q\<lparr>ps_on := b\<rparr>) = next_ok q" "next_ok (q\<lparr>ps_item := f\<rparr>) = next_ok q"
  "next_ok (q\<lparr>ps_clause := k\<rparr>) = next_ok q" "next_ok (q\<lparr>ps_res := r\<rparr>) = next_ok q"
  "next_ok (q\<lparr>ps_next := Parse_dep_name\<rparr>)" "next_ok (q\<lparr>ps_next := Parse_after_name\<rparr>)"
  "next_ok (q\<lparr>ps_next := Parse_after_op\<rparr>)" "next_ok (q\<lparr>ps_next := Parse_after_version\<rparr>)"
  "next_ok (q\<lparr>ps_next := Parse_after_option\<rparr>)"
  by (simp_all add: next_ok_def)

lemma next_ok_not_skip: "next_ok q \<Longrightarrow> ps_next q \<noteq> Skip_spaces"
  by (auto simp: next_ok_def)

lemmas progress_simps = progresses_def parser_rank_def skips_def Let_def

lemma step_dep_name_progresses:
  "next_ok q \<Longrightarrow> ps_state q = Parse_dep_name \<Longrightarrow> progresses s q (step_dep_name s q)"
  by (simp add: step_dep_name_def progress_simps)

lemma step_after_progresses:
  "next_ok q \<Longrightarrow> ps_state q \<in> {Parse_after_name, Parse_after_version, Parse_after_option} \<Longrightarrow>
    progresses s q (step_after s q)"
  by (elim insertE emptyE) (simp_all add: step_after_def progress_simps)

lemma step_ver_op_progresses:
  "next_ok q \<Longrightarrow> ps_state q = Parse_ver_op \<Longrightarrow> progresses s q (step_ver_op s q)"
  by (simp add: step_ver_op_def progress_simps split: option.split)

lemma step_version_number_progresses:
  "next_ok q \<Longrightarrow> ps_state q = Parse_version_number \<Longrightarrow> progresses s q (step_version_number s q)"
  by (simp add: step_version_number_def progress_simps split: option.split)

lemma step_option_progresses:
  "next_ok q \<Longrightarrow> ps_state q = Parse_option \<Longrightarrow> progresses s q (step_option s q)"
  by (simp add: step_option_def progress_simps split: option.split)

lemma step_skip_spaces_progresses:
  "next_ok q \<Longrightarrow> ps_state q = Skip_spaces \<Longrightarrow> progresses s q (step_skip_spaces s q)"
  by (simp add: step_skip_spaces_def progress_simps next_ok_not_skip)

lemma formula_step_progresses: "next_ok q \<Longrightarrow> progresses s q (formula_step s q)"
proof (cases "ps_state q")
qed (simp_all add: formula_step_def step_dep_name_progresses step_after_progresses
  step_ver_op_progresses step_version_number_progresses step_option_progresses
  step_skip_spaces_progresses, simp_all add: step_comma_def step_or_def progress_simps split: option.split)

lemma formula_step_measure:
  assumes "next_ok q" "formula_step s q = Go q'" "ps_p q \<le> length s"
  shows "next_ok q'" "parser_measure s q' < parser_measure s q"
  using formula_step_progresses [OF assms(1), of s] assms(2,3) parser_rank_le [of s q']
  by (auto simp: progresses_def parser_measure_def)

text \<open>The loop with its exit test; \<open>None\<close> would be a run that does not end.\<close>

partial_function (option) formula_loop :: "string \<Rightarrow> parser \<Rightarrow> presult option" where
  "formula_loop s q =
     (if ps_p q \<le> length s then
        (case formula_step s q of Stop r \<Rightarrow> Some r | Go q' \<Rightarrow> formula_loop s q')
      else if ps_state q \<noteq> Skip_spaces \<and> ps_state q \<noteq> Parse_comma then Some Parse_error
      else Some (Formula (ps_res q)))"

declare formula_loop.simps [code]

definition pkg_deps_parse_formula :: "string \<Rightarrow> presult option" where
  "pkg_deps_parse_formula s = formula_loop s parser_init"

lemma formula_loop_returns: "next_ok q \<Longrightarrow> \<exists>r. formula_loop s q = Some r"
proof (induction "parser_measure s q" arbitrary: q rule: less_induct)
  case less
  show ?case
  proof (cases "ps_p q \<le> length s")
    case True
    then show ?thesis
      using less formula_step_measure [OF less.prems _ True]
      by (cases "formula_step s q") (auto simp: formula_loop.simps [of s q])
  next
    case False
    then show ?thesis by (simp add: formula_loop.simps [of s q])
  qed
qed


section \<open>The printers\<close>

fun pkg_deps_op_tostring :: "version_op \<Rightarrow> string" where
  "pkg_deps_op_tostring VERSION_ANY = ''?''"
| "pkg_deps_op_tostring VERSION_EQ = ''=''"
| "pkg_deps_op_tostring VERSION_LE = ''<=''"
| "pkg_deps_op_tostring VERSION_GE = ''>=''"
| "pkg_deps_op_tostring VERSION_LT = ''<''"
| "pkg_deps_op_tostring VERSION_GT = ''>''"
| "pkg_deps_op_tostring VERSION_NOT = ''!=''"

text \<open>
  The output buffer: \<open>ob_text\<close> is the C string printed so far and \<open>ob_left\<close> the \<^verbatim>\<open>int rlen\<close>
  that is passed to \<^verbatim>\<open>snprintf\<close> as its size. \<^verbatim>\<open>snprintf\<close> stores at most \<open>rlen - 1\<close>
  characters but returns the full length, which the code subtracts; a negative \<open>rlen\<close>
  becomes a huge size and \<open>p\<close> is past the end of the buffer by then, so the call writes out
  of bounds (\<open>Overflow\<close>).
\<close>

record outbuf =
  ob_text :: string
  ob_left :: int

datatype print_result = Null | Str string | Overflow

definition snprintf :: "string \<Rightarrow> outbuf \<Rightarrow> outbuf option" where
  "snprintf t b =
     (if ob_left b < 0 then None
      else Some \<lparr>ob_text = ob_text b @ take (nat (ob_left b - 1)) t, ob_left = ob_left b - int (length t)\<rparr>)"

fun snprintf_all :: "string list \<Rightarrow> outbuf \<Rightarrow> outbuf option" where
  "snprintf_all [] b = Some b"
| "snprintf_all (t # ts) b = (case snprintf t b of None \<Rightarrow> None | Some b' \<Rightarrow> snprintf_all ts b')"

definition print_buffer :: "int \<Rightarrow> string list \<Rightarrow> print_result" where
  "print_buffer rlen ts =
     (if rlen = 0 then Null
      else case snprintf_all ts \<lparr>ob_text = [], ob_left = rlen\<rparr> of None \<Rightarrow> Overflow | Some b \<Rightarrow> Str (ob_text b))"

subsection \<open>\<open>pkg_deps_formula_tostring\<close>\<close>

text \<open>The text of each \<^verbatim>\<open>snprintf\<close> call, in the order of the nested loops.\<close>

definition version_piece :: "version_item \<Rightarrow> string" where
  "version_piece v = '' '' @ pkg_deps_op_tostring (vi_op v) @ '' '' @ vi_ver v"

definition option_piece :: "option_item \<Rightarrow> string" where
  "option_piece x = '' '' @ (if oi_on x then ''+'' else ''-'') @ oi_opt x"

fun clause_pieces :: "clause \<Rightarrow> string list" where
  "clause_pieces [] = []"
| "clause_pieces (f # fs) =
     [fi_name f] @ map version_piece (fi_versions f) @ map option_piece (fi_options f) @
     [if fs \<noteq> [] then '' | '' else []] @ clause_pieces fs"

fun formula_pieces :: "clause list \<Rightarrow> string list" where
  "formula_pieces [] = []"
| "formula_pieces (c # cs) = clause_pieces c @ [if cs \<noteq> [] then '', '' else []] @ formula_pieces cs"

definition item_rlen :: "formula_item \<Rightarrow> nat" where
  "item_rlen f = length (fi_name f) + (\<Sum>v\<leftarrow>fi_versions f. length (vi_ver v) + 4)
     + (\<Sum>x\<leftarrow>fi_options f. length (oi_opt x) + 2) + 2"

definition formula_rlen :: "clause list \<Rightarrow> nat" where
  "formula_rlen cs = (\<Sum>c\<leftarrow>cs. (\<Sum>f\<leftarrow>c. item_rlen f) + 2)"

definition pkg_deps_formula_tostring :: "clause list \<Rightarrow> print_result" where
  "pkg_deps_formula_tostring cs = print_buffer (int (formula_rlen cs)) (formula_pieces cs)"

subsection \<open>\<open>pkg_deps_formula_tosql\<close>\<close>

definition sql_version_piece :: "version_item \<Rightarrow> string" where
  "sql_version_piece v = '' AND vercmp('' @ [CHR 39] @ pkg_deps_op_tostring (vi_op v) @ [CHR 39] @
     '',version,'' @ [CHR 39] @ vi_ver v @ [CHR 39] @ '')''"

fun sql_pieces :: "formula_item list \<Rightarrow> string list" where
  "sql_pieces [] = []"
| "sql_pieces (f # fs) =
     [''(name='' @ [CHR 39] @ fi_name f @ [CHR 39]] @ map sql_version_piece (fi_versions f) @
     ['')'' @ (if fs \<noteq> [] then '' OR '' else [])] @ sql_pieces fs"

text \<open>\<^verbatim>\<open>sizeof\<close> of a literal counts its NUL: 15, 29 and 5 bytes.\<close>

definition sql_item_rlen :: "formula_item \<Rightarrow> nat" where
  "sql_item_rlen f = 15 + length (fi_name f) + (\<Sum>v\<leftarrow>fi_versions f. 29 + length (vi_ver v)) + 5"

definition pkg_deps_formula_tosql :: "formula_item list \<Rightarrow> print_result" where
  "pkg_deps_formula_tosql fs = print_buffer (int (\<Sum>f\<leftarrow>fs. sql_item_rlen f)) (sql_pieces fs)"

text \<open>\<open>pkg_deps_string_toop\<close>; a NULL argument is \<open>None\<close>.\<close>

definition pkg_deps_string_toop :: "string option \<Rightarrow> version_op" where
  "pkg_deps_string_toop s =
     (case s of None \<Rightarrow> VERSION_ANY
      | Some t \<Rightarrow> (case op_of_string t of None \<Rightarrow> VERSION_ANY | Some v \<Rightarrow> v))"

section \<open>What the printers return\<close>

lemma snprintf_all_text:
  assumes "int (length (concat ts)) \<le> ob_left b"
  shows "snprintf_all ts b = Some \<lparr>ob_text = ob_text b @ take (nat (ob_left b - 1)) (concat ts),
    ob_left = ob_left b - int (length (concat ts))\<rparr>"
  using assms
proof (induction ts arbitrary: b)
  case Nil
  then show ?case by simp
next
  case (Cons t ts)
  let ?b = "\<lparr>ob_text = ob_text b @ take (nat (ob_left b - 1)) t, ob_left = ob_left b - int (length t)\<rparr>"
  have "nat (ob_left b - int (length t) - 1) = nat (ob_left b - 1) - length t" by simp
  then have cut: "take (nat (ob_left b - 1)) t @ take (nat (ob_left b - int (length t) - 1)) (concat ts)
      = take (nat (ob_left b - 1)) (t @ concat ts)" by simp
  have "snprintf_all ts ?b = Some \<lparr>ob_text = ob_text ?b @ take (nat (ob_left ?b - 1)) (concat ts),
    ob_left = ob_left ?b - int (length (concat ts))\<rparr>"
    using Cons.prems by (intro Cons.IH) simp
  then show ?case using Cons.prems cut by (simp add: snprintf_def)
qed

lemma snprintf_all_out:
  "int (length (concat ts)) > ob_left b \<Longrightarrow> snprintf_all (ts @ [t]) b = None"
proof (induction ts arbitrary: b)
  case (Cons u ts)
  then show ?case by (simp add: snprintf_def)
qed (simp add: snprintf_def)

text \<open>Whether the whole text arrives, its last character is lost, or the buffer overflows.\<close>

lemma print_buffer_cases:
  assumes "0 < rlen"
  shows "int (length (concat ts)) < rlen \<Longrightarrow> print_buffer rlen ts = Str (concat ts)"
    and "int (length (concat ts)) = rlen \<Longrightarrow> print_buffer rlen ts = Str (butlast (concat ts))"
    and "rlen < int (length (concat ts)) \<Longrightarrow> print_buffer rlen (ts @ [t]) = Overflow"
proof -
  let ?b = "\<lparr>ob_text = [], ob_left = rlen\<rparr>"
  have fits: "int (length (concat ts)) \<le> rlen \<Longrightarrow>
      print_buffer rlen ts = Str (take (nat (rlen - 1)) (concat ts))"
    using snprintf_all_text [of ts ?b] assms by (simp add: print_buffer_def)
  {
    assume "int (length (concat ts)) < rlen"
    moreover from this have "length (concat ts) \<le> nat (rlen - 1)" by linarith
    ultimately show "print_buffer rlen ts = Str (concat ts)" using fits by (simp del: length_concat)
  next
    assume eq: "int (length (concat ts)) = rlen"
    then have "nat (rlen - 1) = length (concat ts) - 1" by linarith
    then show "print_buffer rlen ts = Str (butlast (concat ts))"
      using fits eq by (simp add: butlast_conv_take del: length_concat)
  next
    assume "rlen < int (length (concat ts))"
    then show "print_buffer rlen (ts @ [t]) = Overflow"
      using snprintf_all_out [of ?b ts t] assms by (simp add: print_buffer_def del: length_concat)
  }
qed

subsection \<open>Lengths\<close>

lemma op_tostring_length: "length (pkg_deps_op_tostring v) \<le> 2"
  by (cases v) auto

definition item_text :: "formula_item \<Rightarrow> string" where
  "item_text f = fi_name f @ concat (map version_piece (fi_versions f)) @ concat (map option_piece (fi_options f))"

lemma version_pieces_length:
  "length (concat (map version_piece vs)) \<le> (\<Sum>v\<leftarrow>vs. length (vi_ver v) + 4)"
proof (induction vs)
  case (Cons v vs)
  then show ?case using op_tostring_length [of "vi_op v"] by (simp add: version_piece_def)
qed simp

lemma option_pieces_length:
  "length (concat (map option_piece xs)) = (\<Sum>x\<leftarrow>xs. length (oi_opt x) + 2)"
  by (induction xs) (simp_all add: option_piece_def)

lemma item_text_length: "length (item_text f) + 2 \<le> item_rlen f"
  using version_pieces_length [of "fi_versions f"] option_pieces_length [of "fi_options f"]
  by (simp add: item_text_def item_rlen_def del: length_concat)

text \<open>The text of a clause and of a formula, without the split into calls.\<close>

fun clause_text :: "clause \<Rightarrow> string" where
  "clause_text [] = []"
| "clause_text (f # fs) = item_text f @ (if fs \<noteq> [] then '' | '' else []) @ clause_text fs"

fun formula_text :: "clause list \<Rightarrow> string" where
  "formula_text [] = []"
| "formula_text (c # cs) = clause_text c @ (if cs \<noteq> [] then '', '' else []) @ formula_text cs"

lemma concat_clause_pieces: "concat (clause_pieces fs) = clause_text fs"
  by (induction fs) (auto simp: item_text_def)

lemma concat_formula_pieces: "concat (formula_pieces cs) = formula_text cs"
  by (induction cs) (auto simp: concat_clause_pieces)

lemma clause_text_length:
  "length (clause_text c) + 2 * length c \<le> (\<Sum>f\<leftarrow>c. item_rlen f) + 3 * (length c - 1)"
proof (induction c)
  case (Cons f fs)
  then show ?case using item_text_length [of f] by (cases fs) auto
qed simp

lemma formula_text_length:
  assumes "\<forall>c \<in> set cs. c \<noteq> []"
  shows "length (formula_text cs) + 2 * (\<Sum>c\<leftarrow>cs. length c) + 3 * length cs + 2 * (if cs = [] then 0 else 1)
    \<le> formula_rlen cs + 3 * (\<Sum>c\<leftarrow>cs. length c)"
  using assms
proof (induction cs)
  case (Cons c cs)
  have "1 \<le> length c" using Cons.prems by (cases c) auto
  then show ?case
    using Cons clause_text_length [of c] by (auto simp: formula_rlen_def split: if_splits)
qed (simp add: formula_rlen_def)

lemma formula_pieces_last: "cs \<noteq> [] \<Longrightarrow> \<exists>ts. formula_pieces cs = ts @ [[]]"
proof (induction cs)
  case (Cons c cs)
  show ?case
  proof (cases "cs = []")
    case True
    then show ?thesis by simp
  next
    case False
    then obtain ts where "formula_pieces cs = ts @ [[]]" using Cons.IH by blast
    then show ?thesis using False by simp
  qed
qed simp

lemma tostring_cases:
  assumes "cs \<noteq> []"
  shows "length (formula_text cs) < formula_rlen cs \<Longrightarrow> pkg_deps_formula_tostring cs = Str (formula_text cs)"
    and "length (formula_text cs) = formula_rlen cs \<Longrightarrow> pkg_deps_formula_tostring cs = Str (butlast (formula_text cs))"
    and "formula_rlen cs < length (formula_text cs) \<Longrightarrow> pkg_deps_formula_tostring cs = Overflow"
proof -
  have pos: "0 < int (formula_rlen cs)"
    using assms by (cases cs) (auto simp: formula_rlen_def)
  obtain ts where ts: "formula_pieces cs = ts @ [[]]" using formula_pieces_last [OF assms] by blast
  have len: "length (concat ts) = length (formula_text cs)"
    using concat_formula_pieces [of cs] ts by simp
  note pb = print_buffer_cases [OF pos, of "formula_pieces cs", unfolded concat_formula_pieces]
  show "length (formula_text cs) < formula_rlen cs \<Longrightarrow> pkg_deps_formula_tostring cs = Str (formula_text cs)"
    using pb(1) by (simp add: pkg_deps_formula_tostring_def)
  show "length (formula_text cs) = formula_rlen cs \<Longrightarrow> pkg_deps_formula_tostring cs = Str (butlast (formula_text cs))"
    using pb(2) by (simp add: pkg_deps_formula_tostring_def)
  show "formula_rlen cs < length (formula_text cs) \<Longrightarrow> pkg_deps_formula_tostring cs = Overflow"
    using print_buffer_cases(3) [OF pos, of ts "[]"] len ts by (simp add: pkg_deps_formula_tostring_def)
qed

lemma tostring_fits:
  assumes "cs \<noteq> []" "\<forall>c \<in> set cs. c \<noteq> []" "(\<Sum>c\<leftarrow>cs. length c) \<le> 3 * length cs + 1"
  shows "pkg_deps_formula_tostring cs = Str (formula_text cs)"
  using formula_text_length [OF assms(2)] assms(1,3) by (intro tostring_cases(1)) simp_all

definition plain_item :: "formula_item \<Rightarrow> bool" where
  "plain_item f \<longleftrightarrow> fi_versions f = [] \<and> fi_options f = []"

lemma plain_clause_text_length:
  "list_all plain_item c \<Longrightarrow>
    length (clause_text c) + 2 * length c = (\<Sum>f\<leftarrow>c. item_rlen f) + 3 * (length c - 1)"
proof (induction c)
  case (Cons f fs)
  then show ?case by (cases fs) (auto simp: plain_item_def item_text_def item_rlen_def)
qed simp

lemma tostring_plain_clause:
  assumes "c \<noteq> []" "list_all plain_item c"
  shows "pkg_deps_formula_tostring [c] =
    (if length c \<le> 4 then Str (formula_text [c])
     else if length c = 5 then Str (butlast (formula_text [c])) else Overflow)"
proof -
  have "1 \<le> length c" using assms(1) by (cases c) auto
  then have "length (formula_text [c]) + 5 = formula_rlen [c] + length c"
    using plain_clause_text_length [OF assms(2)] by (simp add: formula_rlen_def)
  then consider "length c \<le> 4" "length (formula_text [c]) < formula_rlen [c]"
    | "length c = 5" "length (formula_text [c]) = formula_rlen [c]"
    | "5 < length c" "formula_rlen [c] < length (formula_text [c])" by linarith
  then show ?thesis
    using tostring_cases [of "[c]"] by cases simp_all
qed

fun sql_text :: "formula_item list \<Rightarrow> string" where
  "sql_text [] = []"
| "sql_text (f # fs) = ''(name='' @ [CHR 39] @ fi_name f @ [CHR 39] @
     concat (map sql_version_piece (fi_versions f)) @ '')'' @ (if fs \<noteq> [] then '' OR '' else []) @ sql_text fs"

lemma concat_sql_pieces: "concat (sql_pieces fs) = sql_text fs"
  by (induction fs) auto

lemma sql_versions_length:
  "length (concat (map sql_version_piece vs)) \<le> (\<Sum>v\<leftarrow>vs. 29 + length (vi_ver v))"
proof (induction vs)
  case (Cons v vs)
  then show ?case using op_tostring_length [of "vi_op v"] by (simp add: sql_version_piece_def)
qed simp

lemma sql_text_length: "length (sql_text fs) + 7 * length fs \<le> (\<Sum>f\<leftarrow>fs. sql_item_rlen f)"
proof (induction fs)
  case (Cons f fs)
  then show ?case using sql_versions_length [of "fi_versions f"]
    by (auto simp: sql_item_rlen_def simp del: length_concat)
qed simp

lemma tosql_complete:
  "pkg_deps_formula_tosql fs = (if fs = [] then Null else Str (sql_text fs))"
proof (cases fs)
  case Nil
  then show ?thesis by (simp add: pkg_deps_formula_tosql_def print_buffer_def)
next
  case (Cons f fs')
  then have "length (sql_text fs) < (\<Sum>f\<leftarrow>fs. sql_item_rlen f)"
    using sql_text_length [of fs] by simp
  then have "int (length (concat (sql_pieces fs))) < int (\<Sum>f\<leftarrow>fs. sql_item_rlen f)"
    by (simp only: concat_sql_pieces of_nat_less_iff)
  then have "print_buffer (int (\<Sum>f\<leftarrow>fs. sql_item_rlen f)) (sql_pieces fs) = Str (concat (sql_pieces fs))"
    by (intro print_buffer_cases(1)) linarith+
  then show ?thesis using Cons by (simp only: pkg_deps_formula_tosql_def concat_sql_pieces) simp
qed

section \<open>Parsing what was printed\<close>

lemma char_at_drop: "char_at s p = deref (drop p s)"
  by (auto simp: char_at_def deref_def Cons_nth_drop_Suc [symmetric])

lemma loop_step:
  "ps_p q \<le> length s \<Longrightarrow> formula_step s q = Go q' \<Longrightarrow> formula_loop s q = formula_loop s q'"
  by (simp add: formula_loop.simps [of s q])

text \<open>A run of steps that only advance \<open>p\<close>.\<close>

lemma loop_scan:
  assumes "\<And>i. i < n \<Longrightarrow> formula_step s (q\<lparr>ps_p := ps_p q + i\<rparr>) = Go (q\<lparr>ps_p := ps_p q + Suc i\<rparr>)"
    and "ps_p q + n \<le> length s"
  shows "formula_loop s q = formula_loop s (q\<lparr>ps_p := ps_p q + n\<rparr>)"
  using assms
proof (induction n)
  case 0
  then show ?case by simp
next
  case (Suc n)
  have "formula_loop s q = formula_loop s (q\<lparr>ps_p := ps_p q + n\<rparr>)"
    using Suc.prems by (intro Suc.IH) simp_all
  also have "\<dots> = formula_loop s (q\<lparr>ps_p := ps_p q + Suc n\<rparr>)"
    using Suc.prems(1) [of n] Suc.prems(2) by (intro loop_step) simp_all
  finally show ?case .
qed

definition name_char :: "char \<Rightarrow> bool" where
  "name_char c \<longleftrightarrow> isprint c \<and> \<not> isspace c \<and> c \<noteq> CHR '',''"

text \<open>A version string: its characters, and every comma followed by a digit inside it.\<close>

fun version_string :: "string \<Rightarrow> bool" where
  "version_string [] \<longleftrightarrow> True"
| "version_string (c # s) \<longleftrightarrow>
     (isalnum c \<or> c = CHR ''-'' \<or> c = CHR ''_'' \<or> c = CHR ''.'' \<or>
      c = CHR '','' \<and> s \<noteq> [] \<and> isdigit (hd s)) \<and> version_string s"

definition item_wf :: "formula_item \<Rightarrow> bool" where
  "item_wf f \<longleftrightarrow> fi_name f \<noteq> [] \<and> list_all name_char (fi_name f) \<and>
     (\<forall>v \<in> set (fi_versions f). vi_op v \<noteq> VERSION_ANY \<and> vi_ver v \<noteq> [] \<and> version_string (vi_ver v)) \<and>
     (\<forall>x \<in> set (fi_options f). oi_opt x \<noteq> [] \<and> list_all is_option_char (oi_opt x))"

definition formula_wf :: "clause list \<Rightarrow> bool" where
  "formula_wf cs \<longleftrightarrow> cs \<noteq> [] \<and> (\<forall>c \<in> set cs. c \<noteq> [] \<and> (\<forall>f \<in> set c. item_wf f))"

subsection \<open>Scanning one token\<close>

lemma scan_at:
  assumes "drop p s = w @ r" "p \<le> length s"
  shows "i < length w \<Longrightarrow> char_at s (p + i) = w ! i" and "char_at s (p + length w) = deref r"
    and "p + length w \<le> length s" and "substring s p (p + length w) = w"
    and "drop (p + length w) s = r"
proof -
  have d: "drop (p + i) s = drop i (w @ r)" for i using assms(1) by (metis add.commute drop_drop)
  show "i < length w \<Longrightarrow> char_at s (p + i) = w ! i"
    by (simp add: char_at_drop d Cons_nth_drop_Suc [symmetric])
  show "char_at s (p + length w) = deref r" by (simp add: char_at_drop d)
  have "length (drop p s) = length w + length r" using assms(1) by simp
  then show "p + length w \<le> length s" using assms(2) by simp
  show "substring s p (p + length w) = w" using assms(1) by (simp add: substring_def)
  show "drop (p + length w) s = r" by (simp add: d)
qed

text \<open>
  Where the parser stands between tokens: \<open>at_name\<close> before the name of an item, \<open>at_item\<close>
  after its name or one of its versions and options; \<open>r\<close> is the input that is left.
\<close>

definition at_name :: "string \<Rightarrow> parser \<Rightarrow> string \<Rightarrow> clause option \<Rightarrow> clause list \<Rightarrow> bool" where
  "at_name s q r cl rs \<longleftrightarrow> ps_state q = Parse_dep_name \<and> ps_c q = ps_p q \<and> drop (ps_p q) s = r \<and>
     ps_p q \<le> length s \<and> ps_clause q = cl \<and> ps_res q = rs"

abbreviation after_states :: "pstate set" where
  "after_states \<equiv> {Parse_after_name, Parse_after_version, Parse_after_option}"

definition at_item :: "string \<Rightarrow> parser \<Rightarrow> formula_item \<Rightarrow> string \<Rightarrow> clause option \<Rightarrow> clause list \<Rightarrow> bool" where
  "at_item s q f r cl rs \<longleftrightarrow>
     (ps_state q = Skip_spaces \<and> ps_next q \<in> after_states \<or> ps_state q \<in> after_states \<and> deref r = CHR '','') \<and>
     ps_item q = Some f \<and> drop (ps_p q) s = r \<and> ps_p q \<le> length s \<and> ps_clause q = cl \<and> ps_res q = rs"

text \<open>A token ends at the end of the input, at a space, or at the comma between clauses.\<close>

definition token_end :: "string \<Rightarrow> bool" where
  "token_end r \<longleftrightarrow> r = [] \<or> hd r = CHR '' '' \<or> (\<exists>r'. r = CHR '','' # CHR '' '' # r')"

lemma space_simps [simp]:
  "isspace (CHR '' '')" "\<not> isspace (CHR '','')" "\<not> isspace (CHR ''|'')" "\<not> isspace (CHR ''+'')"
  "\<not> isspace (CHR ''-'')" "CHR '','' \<noteq> NUL" "CHR '' '' \<noteq> NUL" "CHR ''|'' \<noteq> NUL" "CHR ''+'' \<noteq> NUL" "CHR ''-'' \<noteq> NUL"
  by (simp_all add: isspace_def code_def NUL_def)

lemma token_end_deref:
  "token_end r \<Longrightarrow> deref r = NUL \<or> deref r = CHR '' '' \<or> deref r = CHR '',''"
  by (cases r) (auto simp: token_end_def)

lemma loop_name:
  assumes q: "at_name s q (nm @ r) cl rs" and nm: "nm \<noteq> []" "list_all name_char nm" and r: "token_end r"
  shows "\<exists>q'. formula_loop s q = formula_loop s q' \<and> at_item s q' (new_item nm) r cl rs"
proof -
  let ?p = "ps_p q"
  have st: "ps_state q = Parse_dep_name" "ps_c q = ?p" and d: "drop ?p s = nm @ r" and le: "?p \<le> length s"
    using q by (simp_all add: at_name_def)
  note at = scan_at [OF d le]
  define q1 where "q1 = q\<lparr>ps_p := ?p + length nm\<rparr>"
  have scan: "formula_loop s q = formula_loop s q1"
    unfolding q1_def
  proof (rule loop_scan)
    fix i assume i: "i < length nm"
    then have c: "name_char (nm ! i)" using nm(2) by (simp add: list_all_length)
    then have "nm ! i \<noteq> NUL" by (auto simp: name_char_def)
    then show "formula_step s (q\<lparr>ps_p := ?p + i\<rparr>) = Go (q\<lparr>ps_p := ?p + Suc i\<rparr>)"
      using c at(1) [OF i] st by (simp add: formula_step_def step_dep_name_def name_char_def)
  qed (use at in simp)
  have gt: "?p + length nm \<noteq> ?p" using nm(1) by simp
  define q2 where "q2 = (if deref r = CHR '',''
    then q1\<lparr>ps_state := Parse_after_name, ps_item := Some (new_item nm)\<rparr>
    else q1\<lparr>ps_state := Skip_spaces, ps_next := Parse_after_name, ps_item := Some (new_item nm)\<rparr>)"
  have "formula_step s q1 = Go q2"
    using at gt st token_end_deref [OF r]
    by (auto simp: formula_step_def step_dep_name_def q1_def q2_def Let_def)
  then have "formula_loop s q1 = formula_loop s q2"
    using at by (intro loop_step) (simp_all add: q1_def)
  moreover have "at_item s q2 (new_item nm) r cl rs"
    using q at by (simp add: at_item_def at_name_def q2_def q1_def)
  ultimately show ?thesis using scan by auto
qed

lemma loop_skip_space:
  assumes "ps_state q = Skip_spaces" "drop (ps_p q) s = CHR '' '' # r"
  shows "formula_loop s q = formula_loop s (q\<lparr>ps_p := ps_p q + 1\<rparr>)"
proof (rule loop_step)
  show "ps_p q \<le> length s" using assms(2) by (cases "ps_p q \<le> length s") auto
  show "formula_step s q = Go (q\<lparr>ps_p := ps_p q + 1\<rparr>)"
    using assms by (simp add: formula_step_def step_skip_spaces_def char_at_drop)
qed

lemma loop_skip_done:
  assumes "ps_state q = Skip_spaces" "drop (ps_p q) s = c # r" "\<not> isspace c" "c \<noteq> NUL"
  shows "formula_loop s q = formula_loop s (q\<lparr>ps_c := ps_p q, ps_state := ps_next q\<rparr>)"
proof (rule loop_step)
  show "ps_p q \<le> length s" using assms(2) by (cases "ps_p q \<le> length s") auto
  show "formula_step s q = Go (q\<lparr>ps_c := ps_p q, ps_state := ps_next q\<rparr>)"
    using assms by (simp add: formula_step_def step_skip_spaces_def char_at_drop)
qed

text \<open>One space, then a token: the state after the spaces, with \<open>c\<close> at the token.\<close>

lemma loop_space_token:
  assumes "ps_state q = Skip_spaces" "drop (ps_p q) s = CHR '' '' # c # r" "\<not> isspace c" "c \<noteq> NUL"
  shows "formula_loop s q = formula_loop s (q\<lparr>ps_p := ps_p q + 1, ps_c := ps_p q + 1, ps_state := ps_next q\<rparr>)"
proof -
  have d: "drop (ps_p q + 1) s = c # r" using assms(2) by (metis add.commute drop_drop drop_Suc_Cons drop0 One_nat_def)
  show ?thesis
    using loop_skip_space [OF assms(1,2)] loop_skip_done [of "q\<lparr>ps_p := ps_p q + 1\<rparr>" s c r] assms d
    by simp
qed

lemma op_string_facts:
  assumes "v \<noteq> VERSION_ANY"
  shows "list_all is_op_char (pkg_deps_op_tostring v)" "pkg_deps_op_tostring v \<noteq> []"
    "op_of_string (pkg_deps_op_tostring v) = Some v"
  using assms by (cases v; simp add: is_op_char_def op_of_string_def)+

lemma op_char_facts: "is_op_char c \<Longrightarrow> \<not> isspace c \<and> c \<noteq> NUL \<and> c \<notin> {CHR '','', CHR ''|'', CHR ''+'', CHR ''-''}"
  by (auto simp: is_op_char_def isspace_def code_def NUL_def)

lemma version_string_char:
  "version_string w \<Longrightarrow> i < length w \<Longrightarrow> isalnum (w ! i) \<or> w ! i \<in> {CHR ''-'', CHR ''_'', CHR ''.''} \<or>
     w ! i = CHR '','' \<and> Suc i < length w \<and> isdigit (w ! Suc i)"
proof (induction w arbitrary: i)
  case (Cons c w)
  then show ?case by (cases i; cases w) auto
qed simp

lemma version_string_hd: "version_string w \<Longrightarrow> w \<noteq> [] \<Longrightarrow> \<not> isspace (hd w) \<and> hd w \<noteq> NUL"
  by (cases w) (auto simp: ctype_defs code_def NUL_def)

lemma not_version_char:
  assumes "drop p s = r" "token_end r"
  shows "\<not> is_version_char s p"
proof -
  have d: "char_at s p = deref r" using assms(1) by (simp add: char_at_drop)
  have "drop (p + 1) s = tl r" using assms(1) by (metis add.commute drop_Suc drop_drop plus_1_eq_Suc tl_drop)
  then have "char_at s (p + 1) = deref (tl r)" by (simp add: char_at_drop)
  then show ?thesis using d assms(2)
    by (cases r) (auto simp: is_version_char_def token_end_def ctype_defs code_def NUL_def)
qed

lemma not_option_char: "token_end r \<Longrightarrow> \<not> is_option_char (deref r)"
  by (drule token_end_deref) (auto simp: is_option_char_def ctype_defs code_def NUL_def)

lemma at_item_space:
  assumes "at_item s q f (CHR '' '' # r) cl rs"
  shows "ps_state q = Skip_spaces" "ps_next q \<in> after_states"
  using assms by (auto simp: at_item_def)

text \<open>An operator and its version, each after one space.\<close>

lemma loop_op:
  assumes q: "at_item s q f (CHR '' '' # pkg_deps_op_tostring v @ CHR '' '' # r) cl rs" and v: "v \<noteq> VERSION_ANY"
  shows "\<exists>q'. formula_loop s q = formula_loop s q' \<and> ps_state q' = Skip_spaces \<and> ps_next q' = Parse_after_op \<and>
    ps_op q' = v \<and> ps_item q' = Some f \<and> drop (ps_p q') s = CHR '' '' # r \<and> ps_p q' \<le> length s \<and>
    ps_clause q' = cl \<and> ps_res q' = rs"
proof -
  let ?w = "pkg_deps_op_tostring v" and ?p = "ps_p q + 1"
  note w = op_string_facts [OF v]
  obtain c u where cu: "?w = c # u" using w(2) by (cases ?w) auto
  then have c: "is_op_char c" using w(1) by simp
  have d0: "drop (ps_p q) s = CHR '' '' # c # u @ CHR '' '' # r" and it: "ps_item q = Some f"
    "ps_clause q = cl" "ps_res q = rs" using q cu by (simp_all add: at_item_def)
  note st = at_item_space [OF q]
  have d: "drop ?p s = ?w @ CHR '' '' # r"
    using d0 cu by (metis add.commute append_Cons drop_Suc_Cons drop0 drop_drop One_nat_def)
  then have le: "?p \<le> length s" using cu by (cases "?p \<le> length s") auto
  note at = scan_at [OF d le]
  define q1 where "q1 = q\<lparr>ps_p := ?p, ps_c := ?p, ps_state := ps_next q\<rparr>"
  define q2 where "q2 = q1\<lparr>ps_op := VERSION_ANY, ps_state := Parse_ver_op\<rparr>"
  define q3 where "q3 = q2\<lparr>ps_p := ?p + length ?w\<rparr>"
  define q4 where "q4 = q3\<lparr>ps_op := v, ps_state := Skip_spaces, ps_next := Parse_after_op\<rparr>"
  have "formula_loop s q = formula_loop s q1"
    unfolding q1_def using op_char_facts [OF c] by (intro loop_space_token [OF st(1) d0]) simp_all
  also have "formula_step s q1 = Go q2"
    using st(2) at(1) [of 0] c cu op_char_facts [OF c]
    by (auto simp: formula_step_def step_after_def q1_def q2_def Let_def)
  then have "formula_loop s q1 = formula_loop s q2"
    using le by (intro loop_step) (simp_all add: q1_def)
  also have "formula_loop s q2 = formula_loop s (q2\<lparr>ps_p := ps_p q2 + length ?w\<rparr>)"
  proof (rule loop_scan)
    fix i assume i: "i < length ?w"
    then have "is_op_char (?w ! i)" using w(1) by (simp add: list_all_length)
    then show "formula_step s (q2\<lparr>ps_p := ps_p q2 + i\<rparr>) = Go (q2\<lparr>ps_p := ps_p q2 + Suc i\<rparr>)"
      using at(1) [OF i] by (simp add: formula_step_def step_ver_op_def q1_def q2_def)
  qed (use at in \<open>simp add: q1_def q2_def\<close>)
  also have "q2\<lparr>ps_p := ps_p q2 + length ?w\<rparr> = q3" by (simp add: q3_def q2_def q1_def)
  also have "formula_step s q3 = Go q4"
  proof -
    have "\<not> is_op_char (CHR '' '')" by (simp add: is_op_char_def)
    then show ?thesis
      using at w(3) by (simp add: formula_step_def step_ver_op_def q1_def q2_def q3_def q4_def)
  qed
  then have "formula_loop s q3 = formula_loop s q4"
    using at by (intro loop_step) (simp_all add: q3_def)
  finally show ?thesis
    using at it by (intro exI [of _ q4]) (simp add: q1_def q2_def q3_def q4_def)
qed

lemma loop_version_number:
  assumes q: "ps_state q = Skip_spaces" "ps_next q = Parse_after_op" "ps_op q = v" "ps_item q = Some f"
      "drop (ps_p q) s = CHR '' '' # w @ r" "ps_clause q = cl" "ps_res q = rs"
    and w: "v \<noteq> VERSION_ANY" "w \<noteq> []" "version_string w" and r: "token_end r"
  shows "\<exists>q'. formula_loop s q = formula_loop s q' \<and> at_item s q' (add_version \<lparr>vi_ver = w, vi_op = v\<rparr> f) r cl rs"
proof -
  let ?p = "ps_p q + 1"
  obtain c u where cu: "w = c # u" using w(2) by (cases w) auto
  have d: "drop ?p s = w @ r" using q(5) by (metis add.commute drop_Suc_Cons drop0 drop_drop One_nat_def)
  then have le: "?p \<le> length s" using cu by (cases "?p \<le> length s") auto
  note at = scan_at [OF d le]
  define q1 where "q1 = q\<lparr>ps_p := ?p, ps_c := ?p, ps_state := ps_next q\<rparr>"
  define q2 where "q2 = q1\<lparr>ps_state := Parse_version_number\<rparr>"
  define q3 where "q3 = q2\<lparr>ps_p := ?p + length w\<rparr>"
  define q4 where "q4 = q3\<lparr>ps_item := Some (add_version \<lparr>vi_ver = w, vi_op = v\<rparr> f),
    ps_state := Skip_spaces, ps_next := Parse_after_version\<rparr>"
  have "formula_loop s q = formula_loop s q1"
    unfolding q1_def using version_string_hd [OF w(3,2)] cu
    by (intro loop_space_token [OF q(1), where c = c and r = "u @ r"]) (simp_all add: q)
  also have "formula_step s q1 = Go q2"
    using q w(1) by (simp add: formula_step_def q1_def q2_def)
  then have "formula_loop s q1 = formula_loop s q2"
    using le by (intro loop_step) (simp_all add: q1_def)
  also have "formula_loop s q2 = formula_loop s (q2\<lparr>ps_p := ps_p q2 + length w\<rparr>)"
  proof (rule loop_scan)
    fix i assume i: "i < length w"
    have "is_version_char s (?p + i)"
      using version_string_char [OF w(3) i] at(1) [OF i] at(1) [of "Suc i"]
      by (auto simp: is_version_char_def Let_def)
    then show "formula_step s (q2\<lparr>ps_p := ps_p q2 + i\<rparr>) = Go (q2\<lparr>ps_p := ps_p q2 + Suc i\<rparr>)"
      by (simp add: formula_step_def step_version_number_def q1_def q2_def)
  qed (use at in \<open>simp add: q1_def q2_def\<close>)
  also have "q2\<lparr>ps_p := ps_p q2 + length w\<rparr> = q3" by (simp add: q3_def q2_def q1_def)
  also have "formula_step s q3 = Go q4"
    using at q not_version_char [OF at(5) r] w(2)
    by (simp add: formula_step_def step_version_number_def q1_def q2_def q3_def q4_def)
  then have "formula_loop s q3 = formula_loop s q4"
    using at by (intro loop_step) (simp_all add: q3_def)
  finally show ?thesis
    using at q by (intro exI [of _ q4]) (simp add: at_item_def q1_def q2_def q3_def q4_def)
qed

lemma loop_version:
  assumes "at_item s q f (version_piece v @ r) cl rs" "vi_op v \<noteq> VERSION_ANY" "vi_ver v \<noteq> []"
    "version_string (vi_ver v)" "token_end r"
  shows "\<exists>q'. formula_loop s q = formula_loop s q' \<and> at_item s q' (add_version v f) r cl rs"
proof -
  have "at_item s q f (CHR '' '' # pkg_deps_op_tostring (vi_op v) @ CHR '' '' # vi_ver v @ r) cl rs"
    using assms(1) by (simp add: version_piece_def)
  from loop_op [OF this assms(2)] obtain q1 where q1: "formula_loop s q = formula_loop s q1"
    "ps_state q1 = Skip_spaces" "ps_next q1 = Parse_after_op" "ps_op q1 = vi_op v" "ps_item q1 = Some f"
    "drop (ps_p q1) s = CHR '' '' # vi_ver v @ r" "ps_clause q1 = cl" "ps_res q1 = rs" by blast
  have "\<lparr>vi_ver = vi_ver v, vi_op = vi_op v\<rparr> = v" by simp
  then show ?thesis
    using loop_version_number [OF q1(2-8) assms(2-5)] unfolding q1(1) by metis
qed

lemma loop_option:
  assumes q: "at_item s q f (option_piece x @ r) cl rs" and w: "oi_opt x \<noteq> []" "list_all is_option_char (oi_opt x)"
    and r: "token_end r"
  shows "\<exists>q'. formula_loop s q = formula_loop s q' \<and> at_item s q' (add_option x f) r cl rs"
proof -
  let ?sign = "if oi_on x then CHR ''+'' else CHR ''-''" and ?w = "oi_opt x" and ?p = "ps_p q + 2"
  have d0: "drop (ps_p q) s = CHR '' '' # ?sign # ?w @ r" and it: "ps_item q = Some f" "ps_clause q = cl" "ps_res q = rs"
    using q by (auto simp: at_item_def option_piece_def)
  have q': "at_item s q f (CHR '' '' # ?sign # ?w @ r) cl rs"
    using q by (cases "oi_on x") (simp_all add: option_piece_def)
  note sp = at_item_space [OF q']
  have d1: "drop (ps_p q + 1) s = ?sign # ?w @ r"
    using d0 by (metis add.commute drop_Suc_Cons drop0 drop_drop One_nat_def)
  have d: "drop ?p s = ?w @ r"
    using d0 by (metis add.commute drop_Suc_Cons drop0 drop_drop numeral_2_eq_2)
  have le: "?p \<le> length s" using d w(1) by (cases "?p \<le> length s") auto
  note at = scan_at [OF d le]
  define q1 where "q1 = q\<lparr>ps_p := ps_p q + 1, ps_c := ps_p q + 1, ps_state := ps_next q\<rparr>"
  define q2 where "q2 = q1\<lparr>ps_c := ps_p q1, ps_state := Parse_option_start\<rparr>"
  define q3 where "q3 = q2\<lparr>ps_on := oi_on x, ps_p := ?p, ps_c := ?p, ps_state := Parse_option\<rparr>"
  define q4 where "q4 = q3\<lparr>ps_p := ?p + length ?w\<rparr>"
  define q5 where "q5 = q4\<lparr>ps_item := Some (add_option x f),
    ps_state := Skip_spaces, ps_next := Parse_after_option\<rparr>"
  have ch: "char_at s (ps_p q + 1) = ?sign" using d1 by (simp add: char_at_drop)
  have x: "\<lparr>oi_opt = ?w, oi_on = oi_on x\<rparr> = x" by simp
  have "formula_loop s q = formula_loop s q1"
    unfolding q1_def by (intro loop_space_token [OF sp(1) d0]) simp_all
  also have "formula_step s q1 = Go q2"
    using sp(2) ch by (auto simp: formula_step_def step_after_def q1_def q2_def Let_def)
  then have "formula_loop s q1 = formula_loop s q2"
    using le by (intro loop_step) (simp_all add: q1_def)
  also have "formula_step s q2 = Go q3"
    using ch by (simp add: formula_step_def q1_def q2_def q3_def)
  then have "formula_loop s q2 = formula_loop s q3"
    using le by (intro loop_step) (simp_all add: q1_def q2_def)
  also have "formula_loop s q3 = formula_loop s (q3\<lparr>ps_p := ps_p q3 + length ?w\<rparr>)"
  proof (rule loop_scan)
    fix i assume i: "i < length ?w"
    then have "is_option_char (?w ! i)" using w(2) by (simp add: list_all_length)
    then show "formula_step s (q3\<lparr>ps_p := ps_p q3 + i\<rparr>) = Go (q3\<lparr>ps_p := ps_p q3 + Suc i\<rparr>)"
      using at(1) [OF i] by (simp add: formula_step_def step_option_def q1_def q2_def q3_def)
  qed (use at in \<open>simp add: q3_def\<close>)
  also have "q3\<lparr>ps_p := ps_p q3 + length ?w\<rparr> = q4" by (simp add: q4_def q3_def q2_def q1_def)
  also have "formula_step s q4 = Go q5"
    using at it not_option_char [OF r] w(1)
    by (simp add: x formula_step_def step_option_def q1_def q2_def q3_def q4_def q5_def)
  then have "formula_loop s q4 = formula_loop s q5"
    using at by (intro loop_step) (simp_all add: q4_def)
  finally show ?thesis
    using at it by (intro exI [of _ q5]) (simp add: at_item_def q1_def q2_def q3_def q4_def q5_def)
qed

subsection \<open>Items, clauses and formulas\<close>

lemma token_end_space [simp]: "token_end (CHR '' '' # r)"
  by (simp add: token_end_def)

lemma version_pieces_end: "token_end r \<Longrightarrow> token_end (concat (map version_piece vs) @ r)"
  by (cases vs) (simp_all add: version_piece_def)

lemma option_pieces_end: "token_end r \<Longrightarrow> token_end (concat (map option_piece xs) @ r)"
  by (cases xs) (simp_all add: option_piece_def)

lemma loop_versions:
  assumes "at_item s q f (concat (map version_piece vs) @ r) cl rs" "token_end r"
    and "\<forall>v \<in> set vs. vi_op v \<noteq> VERSION_ANY \<and> vi_ver v \<noteq> [] \<and> version_string (vi_ver v)"
  shows "\<exists>q'. formula_loop s q = formula_loop s q' \<and>
    at_item s q' (f\<lparr>fi_versions := fi_versions f @ vs\<rparr>) r cl rs"
  using assms
proof (induction vs arbitrary: q f)
  case Nil
  then show ?case by auto
next
  case (Cons v vs)
  from loop_version [of s q f v "concat (map version_piece vs) @ r" cl rs] Cons.prems
  obtain q1 where q1: "formula_loop s q = formula_loop s q1"
    "at_item s q1 (add_version v f) (concat (map version_piece vs) @ r) cl rs"
    by (auto simp: version_pieces_end)
  from Cons.IH [OF q1(2)] Cons.prems q1(1) show ?case by (simp add: add_version_def)
qed

lemma loop_options:
  assumes "at_item s q f (concat (map option_piece xs) @ r) cl rs" "token_end r"
    and "\<forall>x \<in> set xs. oi_opt x \<noteq> [] \<and> list_all is_option_char (oi_opt x)"
  shows "\<exists>q'. formula_loop s q = formula_loop s q' \<and>
    at_item s q' (f\<lparr>fi_options := fi_options f @ xs\<rparr>) r cl rs"
  using assms
proof (induction xs arbitrary: q f)
  case Nil
  then show ?case by auto
next
  case (Cons x xs)
  from loop_option [of s q f x "concat (map option_piece xs) @ r" cl rs] Cons.prems
  obtain q1 where q1: "formula_loop s q = formula_loop s q1"
    "at_item s q1 (add_option x f) (concat (map option_piece xs) @ r) cl rs"
    by (auto simp: option_pieces_end)
  from Cons.IH [OF q1(2)] Cons.prems q1(1) show ?case by (simp add: add_option_def)
qed

lemma loop_item:
  assumes q: "at_name s q (item_text f @ r) cl rs" and f: "item_wf f" and r: "token_end r"
  shows "\<exists>q'. formula_loop s q = formula_loop s q' \<and> at_item s q' f r cl rs"
proof -
  let ?o = "concat (map option_piece (fi_options f)) @ r"
  let ?vo = "concat (map version_piece (fi_versions f)) @ ?o"
  have "at_name s q (fi_name f @ ?vo) cl rs" using q by (simp add: item_text_def)
  from loop_name [OF this] f r obtain q1 where q1: "formula_loop s q = formula_loop s q1"
    "at_item s q1 (new_item (fi_name f)) ?vo cl rs"
    by (auto simp: item_wf_def version_pieces_end option_pieces_end)
  from loop_versions [OF q1(2)] f r obtain q2 where q2: "formula_loop s q1 = formula_loop s q2"
    "at_item s q2 ((new_item (fi_name f))\<lparr>fi_versions := fi_versions f\<rparr>) ?o cl rs"
    by (auto simp: item_wf_def option_pieces_end new_item_def)
  from loop_options [OF q2(2)] f r obtain q3 where q3: "formula_loop s q2 = formula_loop s q3"
    "at_item s q3 ((new_item (fi_name f))\<lparr>fi_versions := fi_versions f, fi_options := fi_options f\<rparr>) r cl rs"
    by (auto simp: item_wf_def new_item_def)
  have "(new_item (fi_name f))\<lparr>fi_versions := fi_versions f, fi_options := fi_options f\<rparr> = f"
    by (simp add: new_item_def)
  with q1(1) q2(1) q3 show ?thesis by metis
qed

subsection \<open>Separators\<close>

text \<open>The first character of what follows a separator.\<close>

definition name_start :: "string \<Rightarrow> bool" where
  "name_start r \<longleftrightarrow> (\<exists>c r'. r = c # r' \<and> name_char c)"

lemma item_text_start: "item_wf f \<Longrightarrow> name_start (item_text f @ r)"
  by (cases "fi_name f") (auto simp: item_wf_def item_text_def name_start_def)

lemma clause_text_start: "c \<noteq> [] \<Longrightarrow> \<forall>f \<in> set c. item_wf f \<Longrightarrow> name_start (clause_text c @ r)"
  by (cases c) (auto simp: item_text_start)

lemma loop_separated:
  assumes "ps_state q = Skip_spaces" "ps_next q = Parse_dep_name" "drop (ps_p q) s = CHR '' '' # r" "name_start r"
  shows "\<exists>q'. formula_loop s q = formula_loop s q' \<and> at_name s q' r (ps_clause q) (ps_res q)"
proof -
  obtain c r' where r: "r = c # r'" "name_char c" using assms(4) by (auto simp: name_start_def)
  then have c: "\<not> isspace c" "c \<noteq> NUL" by (auto simp: name_char_def)
  have d: "drop (ps_p q + 1) s = r" using assms(3) by (metis add.commute drop_Suc_Cons drop0 drop_drop One_nat_def)
  have "ps_p q + 1 \<le> length s" using d r(1) by (cases "ps_p q + 1 \<le> length s") auto
  then show ?thesis
    using loop_space_token [OF assms(1) _ c, of s r'] assms d r(1) by (fastforce simp: at_name_def)
qed

lemma loop_comma:
  assumes q: "ps_state q = Parse_comma" "ps_item q = Some f" "ps_p q \<le> length s"
  shows "formula_loop s q = formula_loop s (q\<lparr>ps_res := ps_res q @ [close_item q f], ps_item := None,
    ps_clause := None, ps_p := ps_p q + 1, ps_state := Skip_spaces, ps_next := Parse_dep_name\<rparr>)"
  by (rule loop_step [OF q(3)]) (simp add: formula_step_def step_comma_def q)

definition closed :: "clause option \<Rightarrow> formula_item \<Rightarrow> clause" where
  "closed cl f = (case cl of None \<Rightarrow> [] | Some fs \<Rightarrow> fs) @ [f]"

lemma close_item_closed: "close_item q f = closed (ps_clause q) f"
  by (simp add: close_item_def closed_def)

lemma loop_end:
  assumes q: "at_item s q f [] cl rs"
  shows "formula_loop s q = Some (Formula (rs @ [closed cl f]))"
proof -
  have st: "ps_state q = Skip_spaces" "ps_item q = Some f" "ps_clause q = cl" "ps_res q = rs" and p: "ps_p q = length s"
    using q by (auto simp: at_item_def NUL_def)
  have "formula_loop s q = formula_loop s (q\<lparr>ps_state := Parse_comma\<rparr>)"
    using st p by (intro loop_step) (simp_all add: formula_step_def step_skip_spaces_def char_at_def)
  also have "\<dots> = Some (Formula (rs @ [closed cl f]))"
    using st p by (subst loop_comma) (simp_all add: formula_loop.simps close_item_closed)
  finally show ?thesis .
qed

lemma loop_next_clause:
  assumes q: "at_item s q f ('', '' @ r) cl rs" and r: "name_start r"
  shows "\<exists>q'. formula_loop s q = formula_loop s q' \<and> at_name s q' r None (rs @ [closed cl f])"
proof -
  have d: "drop (ps_p q) s = CHR '','' # CHR '' '' # r" and it: "ps_item q = Some f" "ps_clause q = cl" "ps_res q = rs"
    "ps_p q \<le> length s" using q by (simp_all add: at_item_def)
  define q1 where "q1 = (if ps_state q = Skip_spaces then q\<lparr>ps_c := ps_p q, ps_state := ps_next q\<rparr> else q)"
  define q2 where "q2 = q1\<lparr>ps_state := Parse_comma\<rparr>"
  define q3 where "q3 = q2\<lparr>ps_res := ps_res q2 @ [close_item q2 f], ps_item := None,
    ps_clause := None, ps_p := ps_p q2 + 1, ps_state := Skip_spaces, ps_next := Parse_dep_name\<rparr>"
  have "formula_loop s q = formula_loop s q1"
    unfolding q1_def using loop_skip_done [OF _ d] by simp
  also have "formula_step s q1 = Go q2"
    using q d by (auto simp: at_item_def formula_step_def step_after_def q1_def q2_def char_at_drop)
  then have "formula_loop s q1 = formula_loop s q2"
    using it by (intro loop_step) (simp_all add: q1_def)
  also have "\<dots> = formula_loop s q3"
    unfolding q3_def using it by (intro loop_comma) (auto simp: q2_def q1_def)
  finally have loop: "formula_loop s q = formula_loop s q3" .
  have "drop (ps_p q + 1) s = CHR '' '' # r"
    using d by (metis add.commute drop_Suc_Cons drop0 drop_drop One_nat_def)
  then show ?thesis
    using loop_separated [of q3 s r] r loop it by (simp add: q3_def q2_def q1_def close_item_closed split: if_splits)
qed

lemma loop_next_item:
  assumes q: "at_item s q f ('' | '' @ r) cl rs" and r: "name_start r"
  shows "\<exists>q'. formula_loop s q = formula_loop s q' \<and> at_name s q' r (Some (closed cl f)) rs"
proof -
  have d0: "drop (ps_p q) s = CHR '' '' # CHR ''|'' # CHR '' '' # r" and it: "ps_item q = Some f" "ps_clause q = cl"
    "ps_res q = rs" using q by (simp_all add: at_item_def)
  have q': "at_item s q f (CHR '' '' # CHR ''|'' # CHR '' '' # r) cl rs" using q by simp
  note sp = at_item_space [OF q']
  have d: "drop (ps_p q + 1) s = CHR ''|'' # CHR '' '' # r"
    using d0 by (metis add.commute drop_Suc_Cons drop0 drop_drop One_nat_def)
  have le: "ps_p q + 1 \<le> length s" using d by (cases "ps_p q + 1 \<le> length s") auto
  define q1 where "q1 = q\<lparr>ps_p := ps_p q + 1, ps_c := ps_p q + 1, ps_state := ps_next q\<rparr>"
  define q2 where "q2 = q1\<lparr>ps_state := Parse_or\<rparr>"
  define q3 where "q3 = q2\<lparr>ps_clause := Some (close_item q2 f), ps_item := None,
    ps_p := ps_p q2 + 1, ps_state := Skip_spaces, ps_next := Parse_dep_name\<rparr>"
  have "formula_loop s q = formula_loop s q1"
    unfolding q1_def by (intro loop_space_token [OF sp(1) d0]) simp_all
  also have "formula_step s q1 = Go q2"
    using sp(2) d by (auto simp: formula_step_def step_after_def q1_def q2_def char_at_drop)
  then have "formula_loop s q1 = formula_loop s q2"
    using le by (intro loop_step) (simp_all add: q1_def)
  also have "formula_step s q2 = Go q3"
    using it by (simp add: formula_step_def step_or_def q1_def q2_def q3_def)
  then have "formula_loop s q2 = formula_loop s q3"
    using le by (intro loop_step) (simp_all add: q1_def q2_def)
  finally have loop: "formula_loop s q = formula_loop s q3" .
  have "drop (ps_p q + 1 + 1) s = CHR '' '' # r"
    using d by (metis add.commute drop_Suc_Cons drop0 drop_drop One_nat_def)
  then show ?thesis
    using loop_separated [of q3 s r] r loop it by (simp add: q3_def q2_def q1_def close_item_closed)
qed

subsection \<open>The round trip\<close>

definition clause_so_far :: "clause option \<Rightarrow> clause" where
  "clause_so_far cl = (case cl of None \<Rightarrow> [] | Some fs \<Rightarrow> fs)"

lemma closed_so_far: "closed cl f = clause_so_far cl @ [f]" "clause_so_far (Some fs) = fs"
  by (simp_all add: closed_def clause_so_far_def)

text \<open>A whole clause: the parser reads up to its last item.\<close>

lemma loop_clause:
  assumes "at_name s q (clause_text c @ r) cl rs" "c \<noteq> []" "\<forall>f \<in> set c. item_wf f" "token_end r"
  shows "\<exists>q' f cl'. formula_loop s q = formula_loop s q' \<and> at_item s q' f r cl' rs \<and>
    closed cl' f = clause_so_far cl @ c"
  using assms
proof (induction c arbitrary: q cl)
  case (Cons f fs)
  show ?case
  proof (cases "fs = []")
    case True
    then show ?thesis using loop_item [of s q f r cl rs] Cons.prems by (auto simp: closed_so_far)
  next
    case False
    let ?r = "'' | '' @ clause_text fs @ r"
    from loop_item [of s q f ?r cl rs] Cons.prems False obtain q1 where
      q1: "formula_loop s q = formula_loop s q1" "at_item s q1 f ?r cl rs" by auto
    have "name_start (clause_text fs @ r)" using clause_text_start False Cons.prems by simp
    from loop_next_item [OF q1(2) this] obtain q2 where
      q2: "formula_loop s q1 = formula_loop s q2" "at_name s q2 (clause_text fs @ r) (Some (closed cl f)) rs" by blast
    from Cons.IH [OF q2(2) False] Cons.prems q1(1) q2(1) show ?thesis by (simp add: closed_so_far)
  qed
qed simp

lemma loop_formula:
  assumes "at_name s q (formula_text cs) None rs" "cs \<noteq> []" "\<forall>c \<in> set cs. c \<noteq> [] \<and> (\<forall>f \<in> set c. item_wf f)"
  shows "formula_loop s q = Some (Formula (rs @ cs))"
  using assms
proof (induction cs arbitrary: q rs)
  case (Cons c cs)
  show ?case
  proof (cases "cs = []")
    case True
    from loop_clause [of s q c "[]" None rs] Cons.prems True obtain q1 f cl where
      q1: "formula_loop s q = formula_loop s q1" "at_item s q1 f [] cl rs" "closed cl f = c"
      by (auto simp: token_end_def clause_so_far_def)
    then show ?thesis using loop_end [OF q1(2)] True by simp
  next
    case False
    let ?r = "'', '' @ formula_text cs"
    from loop_clause [of s q c ?r None rs] Cons.prems False obtain q1 f cl where
      q1: "formula_loop s q = formula_loop s q1" "at_item s q1 f ?r cl rs" "closed cl f = c"
      by (auto simp: token_end_def clause_so_far_def)
    obtain c' cs' where cs: "cs = c' # cs'" using False by (cases cs) auto
    have "name_start (formula_text cs)" using clause_text_start [of c'] Cons.prems(3) cs by simp
    from loop_next_clause [OF q1(2) this] obtain q2 where
      q2: "formula_loop s q1 = formula_loop s q2" "at_name s q2 (formula_text cs) None (rs @ [closed cl f])" by blast
    from Cons.IH [OF q2(2) False] Cons.prems q1 q2(1) show ?thesis by simp
  qed
qed simp

lemma parse_formula_text:
  assumes "formula_wf cs"
  shows "pkg_deps_parse_formula (formula_text cs) = Some (Formula cs)"
proof -
  have "at_name (formula_text cs) parser_init (formula_text cs) None []"
    by (simp add: at_name_def parser_init_def)
  from loop_formula [OF this] assms show ?thesis
    by (simp add: pkg_deps_parse_formula_def formula_wf_def)
qed

section \<open>Properties\<close>

text \<open>The parser returns on every input: the loop over states and characters ends.\<close>

theorem parse_formula_returns: "\<exists>r. pkg_deps_parse_formula s = Some r"
  unfolding pkg_deps_parse_formula_def
  by (rule formula_loop_returns) (simp add: parser_init_def next_ok_def)

text \<open>C13. Parsing the printed form of a well-formed formula gives the formula back, for every
  formula with at most three alternatives per clause on average (one more in total), for which
  the printer's buffer is large enough.\<close>

theorem parse_tostring_roundtrip:
  assumes "formula_wf cs" "(\<Sum>c\<leftarrow>cs. length c) \<le> 3 * length cs + 1"
  shows "\<exists>t. pkg_deps_formula_tostring cs = Str t \<and> pkg_deps_parse_formula t = Some (Formula cs)"
proof -
  have "pkg_deps_formula_tostring cs = Str (formula_text cs)"
    using assms by (intro tostring_fits) (simp_all add: formula_wf_def)
  then show ?thesis using parse_formula_text [OF assms(1)] by blast
qed

definition sample_formula :: "clause list" where
  "sample_formula =
    [[\<lparr>fi_name = ''perl5'', fi_versions = [\<lparr>vi_ver = ''5.24,1'', vi_op = VERSION_GE\<rparr>, \<lparr>vi_ver = ''5.30'', vi_op = VERSION_LT\<rparr>],
        fi_options = [\<lparr>oi_opt = ''THREADS'', oi_on = True\<rparr>]\<rparr>, new_item ''perl4''],
     [new_item ''gmake'']]"

lemma sample_formula_wf: "formula_wf sample_formula"
  by code_simp

theorem parse_tostring_roundtrip_witness:
  "\<exists>t. pkg_deps_formula_tostring sample_formula = Str t \<and>
     pkg_deps_parse_formula t = Some (Formula sample_formula)"
  by (rule parse_tostring_roundtrip [OF sample_formula_wf]) code_simp

text \<open>A clause of plain names separated by \<open>|\<close> is printed whole up to four alternatives;
  with five the last character is lost, and from six on the printer writes past the buffer it
  allocated: \<^verbatim>\<open>rlen\<close> counts two bytes for the three characters of the separator.\<close>

theorem tostring_alternatives:
  assumes "c \<noteq> []" "list_all plain_item c"
  shows "pkg_deps_formula_tostring [c] =
    (if length c \<le> 4 then Str (formula_text [c])
     else if length c = 5 then Str (butlast (formula_text [c])) else Overflow)"
  by (rule tostring_plain_clause [OF assms])

theorem tostring_alternatives_witness:
  "pkg_deps_formula_tostring [replicate 6 (new_item ''a'')] = Overflow \<and>
   pkg_deps_formula_tostring [replicate 4 (new_item ''a'')] = Str ''a | a | a | a''"
proof -
  have p: "list_all plain_item (replicate n (new_item ''a''))" for n
    by (simp add: list_all_length plain_item_def new_item_def)
  have "formula_text [replicate 4 (new_item ''a'')] = ''a | a | a | a''" by code_simp
  then show ?thesis
    using tostring_alternatives [of "replicate 6 (new_item ''a'')"] tostring_alternatives [of "replicate 4 (new_item ''a'')"] p
    by simp
qed

text \<open>The SQL condition is never cut: the buffer holds it for every list of items.\<close>

theorem tosql_never_cut:
  "pkg_deps_formula_tosql fs = (if fs = [] then Null else Str (sql_text fs))"
  by (rule tosql_complete)

lemma blank_loop:
  assumes "ps_state q = Skip_spaces" "ps_item q = None" "list_all isspace (drop (ps_p q) s)" "ps_p q \<le> length s"
  shows "formula_loop s q = Some Assert_fail"
proof -
  let ?n = "length s - ps_p q"
  let ?q = "q\<lparr>ps_p := length s\<rparr>"
  have "formula_loop s q = formula_loop s (q\<lparr>ps_p := ps_p q + ?n\<rparr>)"
  proof (rule loop_scan)
    fix i assume i: "i < ?n"
    then have "char_at s (ps_p q + i) = drop (ps_p q) s ! i"
      using less_diff_conv [of i "length s" "ps_p q"] by (simp add: char_at_def add.commute)
    then have "isspace (char_at s (ps_p q + i))" using assms(3) i by (simp add: list_all_length)
    then show "formula_step s (q\<lparr>ps_p := ps_p q + i\<rparr>) = Go (q\<lparr>ps_p := ps_p q + Suc i\<rparr>)"
      using assms(1) by (simp add: formula_step_def step_skip_spaces_def)
  qed (use assms(4) in simp)
  also have "q\<lparr>ps_p := ps_p q + ?n\<rparr> = ?q" using assms(4) by simp
  also have "formula_loop s ?q = formula_loop s (?q\<lparr>ps_state := Parse_comma\<rparr>)"
    using assms(1) by (intro loop_step) (simp_all add: formula_step_def step_skip_spaces_def char_at_def)
  also have "\<dots> = Some Assert_fail"
    using assms(2) by (simp add: formula_loop.simps [of s "?q\<lparr>ps_state := Parse_comma\<rparr>"] formula_step_def step_comma_def)
  finally show ?thesis .
qed

text \<open>A formula that holds nothing but blanks is not rejected as a syntax error: it reaches the
  comma state without an item, where the function asserts that there is one.\<close>

theorem parse_blank_asserts:
  assumes "list_all isspace s"
  shows "pkg_deps_parse_formula s = Some Assert_fail"
proof -
  let ?q = "parser_init\<lparr>ps_state := Skip_spaces\<rparr>"
  have "isspace (char_at s 0) \<or> char_at s 0 = NUL"
    using assms by (cases s) (auto simp: char_at_def)
  then have "formula_step s parser_init = Go ?q"
    by (auto simp: formula_step_def step_dep_name_def parser_init_def)
  then have "formula_loop s parser_init = formula_loop s ?q"
    by (intro loop_step) (simp_all add: parser_init_def)
  then show ?thesis
    using blank_loop [of ?q s] assms by (simp add: pkg_deps_parse_formula_def parser_init_def)
qed

theorem parse_blank_asserts_witness: "pkg_deps_parse_formula ''  '' = Some Assert_fail"
  by (rule parse_blank_asserts) (simp add: isspace_def code_def)

end
