(* ===== verification/Pkg_Types.thy ===== *)
theory Pkg_Types
  imports C_String
begin

text \<open>
  The package object of \<^verbatim>\<open>libpkg/private/pkg.h\<close> and the enumerations of
  \<^verbatim>\<open>libpkg/pkg.h.in\<close> that the modelled components share. Nullable strings are options.
  The intrusive lists and the hash tables of a package are lists, in the order in which
  the sources iterate them; fields that no modelled component reads are left out.
\<close>

datatype pkg_type = PKG_NONE | PKG_FILE | PKG_STREAM | PKG_REMOTE | PKG_INSTALLED | PKG_OLD_FILE

datatype epkg = EPKG_OK | EPKG_END | EPKG_WARN | EPKG_FATAL | EPKG_REQUIRED | EPKG_INSTALLED
  | EPKG_DEPENDENCY | EPKG_LOCKED | EPKG_ENODB | EPKG_UPTODATE | EPKG_UNKNOWN | EPKG_REPOSCHEMA
  | EPKG_ENOACCESS | EPKG_INSECURE | EPKG_CONFLICT | EPKG_AGAIN | EPKG_NOTINSTALLED | EPKG_VITAL

datatype pkg_change = PKG_DOWNGRADE | PKG_REINSTALL | PKG_UPGRADE

datatype pkg_jobs_type = PKG_JOBS_INSTALL | PKG_JOBS_DEINSTALL | PKG_JOBS_FETCH
  | PKG_JOBS_AUTOREMOVE | PKG_JOBS_UPGRADE

datatype pkg_solved_type = PKG_SOLVED_INSTALL | PKG_SOLVED_DELETE | PKG_SOLVED_UPGRADE
  | PKG_SOLVED_UPGRADE_REMOVE | PKG_SOLVED_FETCH | PKG_SOLVED_UPGRADE_INSTALL

datatype pkg_conflict_type = PKG_CONFLICT_ALL | PKG_CONFLICT_REMOTE_LOCAL
  | PKG_CONFLICT_REMOTE_REMOTE | PKG_CONFLICT_LOCAL_LOCAL

text \<open>
  A dependency; \<open>dep_alts\<close> holds the uids of the alternatives chained to it by
  \<^verbatim>\<open>alt_next\<close>, which is all the solver reads of them.
\<close>

record pkg_dep =
  dep_origin :: string
  dep_name :: string
  dep_version :: string
  dep_uid :: string
  dep_alts :: "string list"

record pkg_conflict =
  conflict_uid :: string
  conflict_digest :: "string option"
  conflict_type :: pkg_conflict_type

record pkg_option =
  opt_key :: string
  opt_value :: string

record pkg =
  pkg_locked :: bool
  pkg_automatic :: bool
  pkg_vital :: bool
  pkg_name :: string
  pkg_origin :: string
  pkg_version :: string
  pkg_old_version :: "string option"
  pkg_arch :: string
  pkg_uid :: string
  pkg_digest :: "string option"
  pkg_reponame :: "string option"
  pkg_reason :: "string option"
  pkg_depends :: "pkg_dep list"
  pkg_rdepends :: "pkg_dep list"
  pkg_files :: "string list"
  pkg_dirs :: "string list"
  pkg_options :: "pkg_option list"
  pkg_shlibs_required :: "string list"
  pkg_shlibs_provided :: "string list"
  pkg_conflicts :: "pkg_conflict list"
  pkg_provides :: "string list"
  pkg_requires :: "string list"
  pkg_users :: "string list"
  pkg_groups :: "string list"
  pkg_annotations :: "(string \<times> string) list"
  pkg_kind :: pkg_type

abbreviation installed :: "pkg \<Rightarrow> bool" where
  "installed p \<equiv> pkg_kind p = PKG_INSTALLED"

text \<open>A package with every list empty, for concrete instances.\<close>

definition blank_pkg :: pkg where
  "blank_pkg = \<lparr>pkg_locked = False, pkg_automatic = False, pkg_vital = False, pkg_name = [],
     pkg_origin = [], pkg_version = [], pkg_old_version = None, pkg_arch = [], pkg_uid = [],
     pkg_digest = None, pkg_reponame = None, pkg_reason = None, pkg_depends = [],
     pkg_rdepends = [], pkg_files = [], pkg_dirs = [], pkg_options = [],
     pkg_shlibs_required = [], pkg_shlibs_provided = [], pkg_conflicts = [],
     pkg_provides = [], pkg_requires = [], pkg_users = [], pkg_groups = [], pkg_annotations = [], pkg_kind = PKG_REMOTE\<rparr>"

end
