(* ===== verification/Pkg_Version.thy ===== *)
theory Pkg_Version
  imports Pkg_Types
begin

text \<open>
  Version comparison, \<^verbatim>\<open>libpkg/pkg_version.c\<close>: \<open>split_version\<close> cuts a package name into
  version, revision and epoch, \<open>get_component\<close> parses one component of a version, and
  \<open>pkg_version_cmp\<close> compares two of them. The loop over the components is proved equal to
  a comparison of parsed keys (\<open>version_key\<close>), from which the laws of an order follow.
\<close>

section \<open>Splitting\<close>

text \<open>
  A pointer into the name is the suffix it points at; \<open>sv_end\<close> is the length of the suffix
  at \<^verbatim>\<open>*endname\<close>, so the version proper is what \<open>sv_version\<close> has before it.
\<close>

record split =
  sv_version :: string
  sv_end :: nat
  sv_epoch :: "64 word"
  sv_revision :: "64 word"

definition split_version :: "string \<Rightarrow> split" where
  "split_version pkgname =
     (let versionstr = (case strrchr pkgname CHR ''-'' of Some ch \<Rightarrow> tl ch | None \<Rightarrow> pkgname);
          ch1 = strrchr versionstr CHR ''_'';
          revision = (case ch1 of Some ch \<Rightarrow> strtoul (tl ch) | None \<Rightarrow> 0);
          ch2 = strrchr (case ch1 of Some e \<Rightarrow> tl e | None \<Rightarrow> versionstr) CHR '','';
          epoch = (case ch2 of Some ch \<Rightarrow> strtoul (tl ch) | None \<Rightarrow> 0);
          endversionstr = (case ch1 of Some e \<Rightarrow> Some e | None \<Rightarrow> ch2)
      in \<lparr>sv_version = versionstr,
          sv_end = (case endversionstr of Some e \<Rightarrow> length e | None \<Rightarrow> 0),
          sv_epoch = epoch, sv_revision = revision\<rparr>)"

section \<open>One component\<close>

record version_component =
  vc_n :: int
  vc_pl :: int
  vc_a :: int

definition zero_component :: version_component where
  "zero_component = \<lparr>vc_n = 0, vc_pl = 0, vc_a = 0\<rparr>"

definition stage :: "(string \<times> int) list" where
  "stage = [(''pl'', 0), (''alpha'', 1), (''beta'', 2), (''pre'', 16), (''rc'', 18)]"

definition stage_matches :: "string \<Rightarrow> string \<times> int \<Rightarrow> bool" where
  "stage_matches pos st \<longleftrightarrow> strncaseeq pos (fst st) (length (fst st))
     \<and> \<not> isalpha (deref (drop (length (fst st)) pos))"

definition stage_at :: "string \<Rightarrow> (string \<times> int) option" where
  "stage_at pos = (if isalpha (deref (tl pos)) then find (stage_matches pos) stage else None)"

definition is_separator :: "char \<Rightarrow> bool" where
  "is_separator c \<longleftrightarrow> \<not> isdigit c \<and> \<not> isalpha c \<and> c \<noteq> CHR ''+'' \<and> c \<noteq> CHR ''*''"

text \<open>The version number: its value, whether it was missing (\<open>hasstage\<close>), and the rest.\<close>

definition component_number :: "string \<Rightarrow> int \<times> bool \<times> string" where
  "component_number pos =
     (if isdigit (deref pos) then (case strtoll pos of (n, _, endptr) \<Rightarrow> (n, False, endptr))
      else if deref pos = CHR ''*'' then (-2, False, dropWhile (\<lambda>c. c \<noteq> CHR ''+'') (tl pos))
      else (-1, True, pos))"

text \<open>The letter: its value, whether a patch level may follow, and the rest.\<close>

definition component_letter :: "bool \<Rightarrow> string \<Rightarrow> int \<times> bool \<times> string" where
  "component_letter hasstage pos =
     (if isalpha (deref pos) then
        (case stage_at pos of
           Some (nm, v) \<Rightarrow> if hasstage then (v, True, drop (length nm) pos) else (0, False, pos)
         | None \<Rightarrow> (int (code (tolower (deref pos))) - 97 + 1, True, dropWhile isalpha (tl pos)))
      else (0, False, pos))"

definition component_patch :: "bool \<Rightarrow> string \<Rightarrow> int \<times> string" where
  "component_patch haspatchlevel pos =
     (if haspatchlevel then
        if isdigit (deref pos) then (case strtoll pos of (n, _, endptr) \<Rightarrow> (n, endptr))
        else (-1, pos)
      else (0, pos))"

definition get_component :: "string \<Rightarrow> version_component \<times> string" where
  "get_component position =
     (let (n, hasstage, pos1) = component_number position;
          (a, haspatchlevel, pos2) = component_letter hasstage pos1;
          (pl, pos3) = component_patch haspatchlevel pos2
      in (\<lparr>vc_n = n, vc_pl = pl, vc_a = a\<rparr>, dropWhile is_separator pos3))"


subsection \<open>It consumes input\<close>

lemma component_number_length:
  "length (snd (snd (component_number pos))) \<le> length pos"
  by (auto simp: component_number_def strtoll_at_digit length_dropWhile_le)

lemma component_letter_length:
  "length (snd (snd (component_letter h pos))) \<le> length pos"
proof (cases "stage_at pos")
  case None
  then show ?thesis by (simp add: component_letter_def)
next
  case (Some st)
  then show ?thesis by (cases st) (simp add: component_letter_def)
qed

lemma component_patch_length: "length (snd (component_patch h pos)) \<le> length pos"
  by (auto simp: component_patch_def strtoll_at_digit length_dropWhile_le)

lemma component_number_progress:
  assumes "pos \<noteq> []" "isdigit (deref pos) \<or> deref pos = CHR ''*''"
  shows "length (snd (snd (component_number pos))) < length pos"
  using assms by (cases pos)
    (auto simp: component_number_def strtoll_at_digit le_imp_less_Suc length_dropWhile_le)

lemma stage_nonempty: "st \<in> set stage \<Longrightarrow> fst st \<noteq> []"
  by (auto simp: stage_def)

lemma find_in_set: "find P xs = Some x \<Longrightarrow> x \<in> set xs \<and> P x"
  by (induction xs) (auto split: if_splits)

lemma stage_at_in: "stage_at pos = Some st \<Longrightarrow> st \<in> set stage"
  by (auto simp: stage_at_def dest: find_in_set split: if_splits)

lemma component_letter_progress:
  assumes "isalpha (deref pos)"
  shows "length (snd (snd (component_letter True pos))) < length pos"
proof (cases "stage_at pos")
  case None
  moreover have "pos \<noteq> []" using assms by (cases pos) auto
  ultimately show ?thesis using assms by (simp add: component_letter_def)
next
  case (Some st)
  then have "fst st \<noteq> []" using stage_at_in stage_nonempty by blast
  moreover have "pos \<noteq> []" using assms by (cases pos) auto
  ultimately show ?thesis using assms Some by (cases st) (simp add: component_letter_def)
qed

lemma get_component_progress:
  assumes "pos \<noteq> []" "deref pos \<noteq> CHR ''+''"
  shows "length (snd (get_component pos)) < length pos"
proof -
  obtain n h pos1 where n: "component_number pos = (n, h, pos1)" by (metis prod_cases3)
  obtain a hp pos2 where a: "component_letter h pos1 = (a, hp, pos2)" by (metis prod_cases3)
  obtain pl pos3 where pl: "component_patch hp pos2 = (pl, pos3)" by (metis prod.exhaust)
  have le: "length pos1 \<le> length pos" "length pos2 \<le> length pos1" "length pos3 \<le> length pos2"
    using component_number_length [of pos] component_letter_length [of h pos1]
      component_patch_length [of hp pos2] n a pl by simp_all
  have gc: "snd (get_component pos) = dropWhile is_separator pos3"
    by (simp add: get_component_def n a pl)
  have drop_le: "length (dropWhile is_separator pos3) \<le> length pos3"
    by (rule length_dropWhile_le)
  consider "isdigit (deref pos) \<or> deref pos = CHR ''*''" | "isalpha (deref pos)"
    | "is_separator (deref pos)" "\<not> isdigit (deref pos)" "deref pos \<noteq> CHR ''*''" "\<not> isalpha (deref pos)"
    using assms(2) by (auto simp: is_separator_def)
  then show ?thesis
  proof cases
    case 1
    then show ?thesis using component_number_progress [OF assms(1)] n gc le drop_le by simp
  next
    case 2
    then have "h" "pos1 = pos"
      using n by (auto simp: component_number_def ctype_defs code_def split: if_splits)
    then show ?thesis using component_letter_progress [OF 2] a gc le drop_le by simp
  next
    case 3
    then have "pos3 = pos"
      using n a pl by (auto simp: component_number_def component_letter_def component_patch_def)
    then have "length (dropWhile is_separator pos3) < length pos"
      using 3 assms(1) by (cases pos) (auto intro: le_imp_less_Suc length_dropWhile_le)
    then show ?thesis using gc by simp
  qed
qed

section \<open>The comparison\<close>

text \<open>The sign of a component difference, in the order of the code's chain of tests.\<close>

definition component_cmp :: "version_component \<Rightarrow> version_component \<Rightarrow> int" where
  "component_cmp vc1 vc2 =
     (if vc_n vc1 \<noteq> vc_n vc2 then (if vc_n vc1 < vc_n vc2 then -1 else 1)
      else if vc_a vc1 \<noteq> vc_a vc2 then (if vc_a vc1 < vc_a vc2 then -1 else 1)
      else if vc_pl vc1 \<noteq> vc_pl vc2 then (if vc_pl vc1 < vc_pl vc2 then -1 else 1)
      else 0)"

text \<open>
  The loop of \<open>pkg_version_cmp\<close>; \<open>l1\<close> and \<open>l2\<close> are the lengths at \<open>ve1\<close> and \<open>ve2\<close>, so
  \<open>v1 < ve1\<close> is \<open>l1 < length v1\<close>. A block ends at a plus sign or at \<open>ve\<close>; the comparison
  goes on to the next block when both have ended.
\<close>

definition in_block :: "string \<Rightarrow> nat \<Rightarrow> bool" where
  "in_block v l \<longleftrightarrow> l < length v \<and> deref v \<noteq> CHR ''+''"

definition next_component :: "string \<Rightarrow> nat \<Rightarrow> version_component \<times> string" where
  "next_component v l = (if in_block v l then get_component v else (zero_component, v))"

lemma next_component_le: "length (snd (next_component v l)) \<le> length v"
  using get_component_progress [of v] by (cases v) (auto simp: next_component_def in_block_def)

lemma next_component_less: "in_block v l \<Longrightarrow> length (snd (next_component v l)) < length v"
  using get_component_progress [of v] by (cases v) (auto simp: next_component_def in_block_def)

function version_loop :: "string \<Rightarrow> nat \<Rightarrow> string \<Rightarrow> nat \<Rightarrow> int" where
  "version_loop v1 l1 v2 l2 =
     (if l1 < length v1 \<or> l2 < length v2 then
        if \<not> in_block v1 l1 \<and> \<not> in_block v2 l2 then
          version_loop (if l1 < length v1 then tl v1 else v1) l1
                       (if l2 < length v2 then tl v2 else v2) l2
        else
          let (vc1, v1') = next_component v1 l1; (vc2, v2') = next_component v2 l2;
              result = component_cmp vc1 vc2
          in if result \<noteq> 0 then result else version_loop v1' l1 v2' l2
      else 0)"
  by pat_completeness auto
termination
proof (relation "measure (\<lambda>(v1, l1, v2, l2). length v1 + length v2)", goal_cases)
  case (3 v1 l1 v2 l2 x1 vc1 v1' x2 vc2 v2' r)
  then have "length v1' \<le> length v1" "length v2' \<le> length v2"
    "length v1' < length v1 \<or> length v2' < length v2"
    using next_component_le [of v1 l1] next_component_le [of v2 l2]
      next_component_less [of v1 l1] next_component_less [of v2 l2] by (metis snd_conv)+
  then show ?case by auto
qed auto

declare version_loop.simps [simp del]

definition pkg_version_cmp :: "string \<Rightarrow> string \<Rightarrow> int" where
  "pkg_version_cmp pkg1 pkg2 =
     (let s1 = split_version pkg1; s2 = split_version pkg2;
          v1 = sv_version s1; l1 = sv_end s1; v2 = sv_version s2; l2 = sv_end s2;
          e1 = sv_epoch s1; e2 = sv_epoch s2; r1 = sv_revision s1; r2 = sv_revision s2;
          result = (if e1 \<noteq> e2 then (if e1 < e2 then -1 else 1) else 0);
          result' = (if result = 0 \<and>
              (length v1 - l1 \<noteq> length v2 - l2 \<or> \<not> strncaseeq v1 v2 (length v1 - l1))
            then version_loop v1 l1 v2 l2 else result)
      in if result' = 0 \<and> r1 \<noteq> r2 then (if r1 < r2 then -1 else 1) else result')"


section \<open>The key of a version\<close>

text \<open>
  A version is a list of blocks, the parts between plus signs, and a block is a list of
  components. Missing components compare as zero and missing blocks as empty, so the
  specification compares padded lists of padded lists.
\<close>

function parse_blocks :: "string \<Rightarrow> nat \<Rightarrow> version_component list list" where
  "parse_blocks v l =
     (if length v \<le> l then [[]]
      else if deref v = CHR ''+'' then [] # parse_blocks (tl v) l
      else case parse_blocks (snd (get_component v)) l of
          [] \<Rightarrow> [[fst (get_component v)]]
        | b # bs \<Rightarrow> (fst (get_component v) # b) # bs)"
  by pat_completeness auto
termination
proof (relation "measure (\<lambda>(v, l). length v)", goal_cases)
  case (3 v l)
  then show ?case using get_component_progress [of v] by (cases v) auto
qed auto

declare parse_blocks.simps [simp del]

definition block_cmp :: "version_component list \<Rightarrow> version_component list \<Rightarrow> int" where
  "block_cmp = padlex component_cmp zero_component"

definition blocks_cmp :: "version_component list list \<Rightarrow> version_component list list \<Rightarrow> int" where
  "blocks_cmp = padlex block_cmp []"

definition version_proper :: "string \<Rightarrow> string" where
  "version_proper pkgname =
     (let s = split_version pkgname in take (length (sv_version s) - sv_end s) (sv_version s))"

definition version_blocks :: "string \<Rightarrow> version_component list list" where
  "version_blocks pkgname = parse_blocks (version_proper pkgname) 0"

definition version_key_cmp :: "string \<Rightarrow> string \<Rightarrow> int" where
  "version_key_cmp p q =
     lex_int (cmp_ord (sv_epoch (split_version p)) (sv_epoch (split_version q)))
       (lex_int (blocks_cmp (version_blocks p) (version_blocks q))
         (cmp_ord (sv_revision (split_version p)) (sv_revision (split_version q))))"

lemma component_cmp_lex:
  "component_cmp = (\<lambda>x y. lex_int (cmp_ord (vc_n x) (vc_n y))
     (lex_int (cmp_ord (vc_a x) (vc_a y)) (cmp_ord (vc_pl x) (vc_pl y))))"
  by (intro ext) (simp add: component_cmp_def lex_int_def cmp_ord_def)

lemma three_way_ord_key: "three_way (\<lambda>x y. cmp_ord (f x) (f y))"
  by (rule three_way_key [OF ord_cmp.three_way_axioms])

interpretation component: three_way component_cmp
  unfolding component_cmp_lex
  by (rule three_way_lex [OF three_way_ord_key three_way_lex [OF three_way_ord_key three_way_ord_key]])

interpretation block: three_way block_cmp
  unfolding block_cmp_def by (rule three_way_padlex [OF component.three_way_axioms])

interpretation blocks: three_way blocks_cmp
  unfolding blocks_cmp_def by (rule three_way_padlex [OF block.three_way_axioms])

lemma version_key_cmp_lex:
  "version_key_cmp = (\<lambda>p q. lex_int (cmp_ord (sv_epoch (split_version p)) (sv_epoch (split_version q)))
     (lex_int (blocks_cmp (version_blocks p) (version_blocks q))
       (cmp_ord (sv_revision (split_version p)) (sv_revision (split_version q)))))"
  by (intro ext) (simp add: version_key_cmp_def)

interpretation version_key: three_way version_key_cmp
  unfolding version_key_cmp_lex
  by (rule three_way_lex [OF three_way_ord_key
        three_way_lex [OF three_way_key [OF blocks.three_way_axioms] three_way_ord_key]])

subsection \<open>The loop compares the parsed blocks\<close>

lemma parse_blocks_Cons: "\<exists>b bs. parse_blocks v l = b # bs"
  by (subst parse_blocks.simps) (auto split: list.splits)

lemma parse_blocks_ended: "length v \<le> l \<Longrightarrow> parse_blocks v l = [[]]"
  by (simp add: parse_blocks.simps [of v l])

lemma parse_blocks_next:
  assumes "parse_blocks v l = b # bs"
  shows "fst (next_component v l) = hd_pad zero_component b"
    and "parse_blocks (snd (next_component v l)) l = tl b # bs"
proof -
  have "fst (next_component v l) = hd_pad zero_component b \<and>
      parse_blocks (snd (next_component v l)) l = tl b # bs"
  proof (cases "in_block v l")
    case True
    obtain b' bs' where "parse_blocks (snd (get_component v)) l = b' # bs'"
      using parse_blocks_Cons by blast
    then show ?thesis using True assms
      by (auto simp: parse_blocks.simps [of v l] next_component_def in_block_def hd_pad_def)
  next
    case False
    then have "b = []"
      using assms by (auto simp: parse_blocks.simps [of v l] in_block_def split: if_splits)
    then show ?thesis using False assms by (simp add: next_component_def hd_pad_def)
  qed
  then show "fst (next_component v l) = hd_pad zero_component b"
    and "parse_blocks (snd (next_component v l)) l = tl b # bs" by simp_all
qed

lemma padlex_pad:
  "c z z = 0 \<Longrightarrow> padlex c z [z] ys = padlex c z [] ys"
  "c z z = 0 \<Longrightarrow> padlex c z ys [z] = padlex c z ys []"
  using padlex_step [of c z "[z]" ys] padlex_step [of c z "[]" ys]
    padlex_step [of c z ys "[z]"] padlex_step [of c z ys "[]"]
  by (simp_all add: hd_pad_def)

lemma blocks_cmp_pad: "blocks_cmp [[]] bs = blocks_cmp [] bs" "blocks_cmp bs [[]] = blocks_cmp bs []"
  by (simp_all add: blocks_cmp_def padlex_pad)

lemma blocks_cmp_step:
  "blocks_cmp (b # bs) (d # ds) = lex_int (component_cmp (hd_pad zero_component b) (hd_pad zero_component d))
     (blocks_cmp (tl b # bs) (tl d # ds))"
  using padlex_step [of component_cmp zero_component b d]
  by (simp add: blocks_cmp_def block_cmp_def lex_int_def)

lemma blocks_cmp_Nil_heads: "blocks_cmp ([] # bs) ([] # ds) = blocks_cmp bs ds"
  by (simp add: blocks_cmp_def block_cmp_def)

lemma parse_blocks_boundary:
  assumes "\<not> in_block v l" and "parse_blocks v l = b # bs"
  shows "b = []" and "blocks_cmp (parse_blocks (if l < length v then tl v else v) l) ds = blocks_cmp bs ds"
    and "blocks_cmp ds (parse_blocks (if l < length v then tl v else v) l) = blocks_cmp ds bs"
  using assms by (auto simp: parse_blocks.simps [of v l] in_block_def blocks_cmp_pad split: if_splits)

lemma version_loop_blocks:
  "version_loop v1 l1 v2 l2 = blocks_cmp (parse_blocks v1 l1) (parse_blocks v2 l2)"
proof (induction v1 l1 v2 l2 rule: version_loop.induct)
  case (1 v1 l1 v2 l2)
  obtain b bs d ds where p: "parse_blocks v1 l1 = b # bs" "parse_blocks v2 l2 = d # ds"
    using parse_blocks_Cons by metis
  consider (ended) "length v1 \<le> l1" "length v2 \<le> l2"
    | (boundary) "l1 < length v1 \<or> l2 < length v2" "\<not> in_block v1 l1" "\<not> in_block v2 l2"
    | (component) "l1 < length v1 \<or> l2 < length v2" "in_block v1 l1 \<or> in_block v2 l2"
    by linarith
  then show ?case
  proof cases
    case ended
    then show ?thesis by (simp add: version_loop.simps [of v1] parse_blocks_ended)
  next
    case boundary
    let ?w1 = "if l1 < length v1 then tl v1 else v1" and ?w2 = "if l2 < length v2 then tl v2 else v2"
    have "version_loop v1 l1 v2 l2 = version_loop ?w1 l1 ?w2 l2"
      using boundary by (subst version_loop.simps) simp
    also have "\<dots> = blocks_cmp (parse_blocks ?w1 l1) (parse_blocks ?w2 l2)"
      using boundary by (intro "1.IH"(1)) simp_all
    also have "\<dots> = blocks_cmp bs ds"
      using parse_blocks_boundary [OF boundary(2) p(1)] parse_blocks_boundary [OF boundary(3) p(2)]
      by simp
    also have "\<dots> = blocks_cmp (b # bs) (d # ds)"
      using parse_blocks_boundary(1) [OF boundary(2) p(1)] parse_blocks_boundary(1) [OF boundary(3) p(2)]
      by (simp add: blocks_cmp_Nil_heads)
    finally show ?thesis using p by simp
  next
    case component
    obtain vc1 v1' where n1: "next_component v1 l1 = (vc1, v1')" by (metis prod.exhaust)
    obtain vc2 v2' where n2: "next_component v2 l2 = (vc2, v2')" by (metis prod.exhaust)
    note pn = parse_blocks_next [OF p(1)] parse_blocks_next [OF p(2)]
    have nb: "\<not> (\<not> in_block v1 l1 \<and> \<not> in_block v2 l2)" using component by blast
    have "version_loop v1 l1 v2 l2 = lex_int (component_cmp vc1 vc2) (version_loop v1' l1 v2' l2)"
      by (subst version_loop.simps)
        (simp only: component(1) nb n1 n2 Let_def prod.case lex_int_def if_True if_False)
    also have "\<dots> = lex_int (component_cmp vc1 vc2) (blocks_cmp (tl b # bs) (tl d # ds))"
    proof (cases "component_cmp vc1 vc2 = 0")
      case True
      have "version_loop v1' l1 v2' l2 = blocks_cmp (parse_blocks v1' l1) (parse_blocks v2' l2)"
        using "1.IH"(2) [OF component(1) nb] n1 n2 True by simp
      then show ?thesis using pn n1 n2 by simp
    qed (simp add: lex_int_def)
    also have "\<dots> = blocks_cmp (b # bs) (d # ds)"
      using pn n1 n2 blocks_cmp_step [of b bs d ds] by simp
    finally show ?thesis using p by simp
  qed
qed


subsection \<open>Parsing sees the lower-cased version proper only\<close>

text \<open>
  The loop reads the whole rest of the name, past \<open>ve\<close>. What follows \<open>ve\<close> starts with an
  underscore or a comma, where every scan of \<open>get_component\<close> stops or is skipped over, so
  the components are those of the version proper; and letters are compared in lower case.
\<close>

definition sep_tail :: "string \<Rightarrow> bool" where
  "sep_tail t \<longleftrightarrow> t = [] \<or> hd t = CHR ''_'' \<or> hd t = CHR '',''"

text \<open>How the rest of a scan of \<open>p @ t\<close> relates to the rest of the scan of \<open>p\<close>.\<close>

definition tail_rel :: "string \<Rightarrow> string \<Rightarrow> string \<Rightarrow> bool" where
  "tail_rel t r r' \<longleftrightarrow> r = r' @ t \<or>
     r' = [] \<and> length r \<le> length t \<and> (r = [] \<or> hd r = CHR ''+'')"

lemma sep_tail_classes:
  "sep_tail t \<Longrightarrow> t = [] \<or> \<not> isdigit (hd t)" "sep_tail t \<Longrightarrow> t = [] \<or> \<not> isalpha (hd t)"
  by (auto simp: sep_tail_def ctype_defs code_def)

lemma deref_append: "deref (p @ t) = (if p = [] then deref t else deref p)"
  by (cases p) auto

lemma deref_class:
  "deref t = (if t = [] then NUL else hd t)"
  by (cases t) auto

lemma sep_tail_deref:
  "sep_tail t \<Longrightarrow> \<not> isdigit (deref t)" "sep_tail t \<Longrightarrow> \<not> isalpha (deref t)"
  using sep_tail_classes [of t] by (auto simp: deref_class)

lemma plus_tail_deref:
  assumes "r = [] \<or> hd r = CHR ''+''"
  shows "\<not> isdigit (deref r)" "\<not> isalpha (deref r)"
  using assms by (auto simp: deref_class ctype_defs code_def NUL_def)

lemma component_number_tail:
  assumes "sep_tail t" "p \<noteq> []"
  shows "fst (component_number (p @ t)) = fst (component_number p)"
    "fst (snd (component_number (p @ t))) = fst (snd (component_number p))"
    "tail_rel t (snd (snd (component_number (p @ t)))) (snd (snd (component_number p)))"
proof -
  have d: "deref (p @ t) = deref p" using assms(2) by (simp add: deref_append)
  have tw: "takeWhile isdigit (p @ t) = takeWhile isdigit p"
      "dropWhile isdigit (p @ t) = dropWhile isdigit p @ t"
    using sep_tail_classes(1) [OF assms(1)] takeWhile_append_tail dropWhile_append_tail by blast+
  let ?nplus = "\<lambda>c. c \<noteq> CHR ''+''"
  have star: "tail_rel t (dropWhile ?nplus (tl (p @ t))) (dropWhile ?nplus (tl p))"
  proof (cases "CHR ''+'' \<in> set (tl p)")
    case True
    then have "dropWhile ?nplus (tl p @ t) = dropWhile ?nplus (tl p) @ t"
      by (intro dropWhile_append1) auto
    then show ?thesis using assms(2) by (simp add: tail_rel_def)
  next
    case False
    then have "dropWhile ?nplus (tl p) = []" and "dropWhile ?nplus (tl p @ t) = dropWhile ?nplus t"
      by (auto simp: dropWhile_eq_Nil_conv intro: dropWhile_append2)
    moreover have "dropWhile ?nplus t = [] \<or> hd (dropWhile ?nplus t) = CHR ''+''"
      using hd_dropWhile [of ?nplus t] by blast
    ultimately show ?thesis
      using assms(2) by (simp add: tail_rel_def length_dropWhile_le)
  qed
  show "fst (component_number (p @ t)) = fst (component_number p)"
    "fst (snd (component_number (p @ t))) = fst (snd (component_number p))"
    by (simp_all add: component_number_def d strtoll_at_digit tw)
  show "tail_rel t (snd (snd (component_number (p @ t)))) (snd (snd (component_number p)))"
    using star by (simp add: component_number_def d strtoll_at_digit tw) (simp add: tail_rel_def)
qed

lemma stage_matches_tail:
  assumes "sep_tail t" "st \<in> set stage"
  shows "stage_matches (p @ t) st = stage_matches p st"
proof -
  obtain nm v where st: "st = (nm, v)" by (cases st)
  have nm: "\<forall>c \<in> set nm. isalpha c"
    using assms(2) st by (auto simp: stage_def ctype_defs code_def)
  show ?thesis
  proof (cases "length nm \<le> length p")
    case True
    then show ?thesis using sep_tail_deref(2) [OF assms(1)]
      by (auto simp: stage_matches_def st strncaseeq_def deref_append)
  next
    case False
    have "\<not> strncaseeq p nm (length nm)"
      using False by (auto simp: strncaseeq_def dest!: arg_cong [where f = length])
    moreover have "\<not> strncaseeq (p @ t) nm (length nm)"
    proof
      assume eq: "strncaseeq (p @ t) nm (length nm)"
      then have "length nm \<le> length (p @ t)"
        by (auto simp: strncaseeq_def dest!: arg_cong [where f = length])
      then have i: "length p < length (p @ t)" "t \<noteq> []" using False by auto
      have "map tolower (p @ t) ! length p = map tolower nm ! length p"
        using eq False by (metis linorder_not_le nth_take strncaseeq_def)
      then have "tolower (hd t) = tolower (nm ! length p)"
        using i False by (simp add: nth_append hd_conv_nth)
      then have "isalpha (hd t)" using nm False by (metis ctype_tolower(2) linorder_not_le nth_mem)
      then show False using sep_tail_classes(2) [OF assms(1)] i(2) by simp
    qed
    ultimately show ?thesis by (simp add: stage_matches_def st)
  qed
qed

lemma find_cong_set: "(\<And>x. x \<in> set xs \<Longrightarrow> P x = Q x) \<Longrightarrow> find P xs = find Q xs"
  by (induction xs) auto

lemma stage_at_tail:
  assumes "sep_tail t" "isalpha (deref p)"
  shows "stage_at (p @ t) = stage_at p"
proof -
  obtain c q where p: "p = c # q" using assms(2) by (cases p) auto
  have "isalpha (deref (q @ t)) = isalpha (deref q)"
    using sep_tail_deref(2) [OF assms(1)] by (simp add: deref_append)
  moreover have "find (stage_matches (p @ t)) stage = find (stage_matches p) stage"
    using stage_matches_tail [OF assms(1)] by (intro find_cong_set) blast
  ultimately show ?thesis by (simp add: stage_at_def p)
qed

lemma stage_at_length: "stage_at p = Some (nm, v) \<Longrightarrow> length nm \<le> length p"
  by (auto simp: stage_at_def stage_matches_def strncaseeq_def split: if_splits
      dest!: find_in_set arg_cong [where f = length])


lemma component_letter_tail:
  assumes "sep_tail t" "tail_rel t r r'"
  shows "fst (component_letter h r) = fst (component_letter h r')"
    "fst (snd (component_letter h r)) = fst (snd (component_letter h r'))"
    "tail_rel t (snd (snd (component_letter h r))) (snd (snd (component_letter h r')))"
proof -
  have "fst (component_letter h r) = fst (component_letter h r')
    \<and> fst (snd (component_letter h r)) = fst (snd (component_letter h r'))
    \<and> tail_rel t (snd (snd (component_letter h r))) (snd (snd (component_letter h r')))"
  proof (cases "r = r' @ t")
    case False
    then have r: "r' = []" "r = [] \<or> hd r = CHR ''+''" using assms(2) by (auto simp: tail_rel_def)
    then have "\<not> isalpha (deref r)" using plus_tail_deref by blast
    then show ?thesis using r assms(2) by (simp add: component_letter_def)
  next
    case r: True
    show ?thesis
    proof (cases "isalpha (deref r')")
      case False
      then have "\<not> isalpha (deref (r' @ t))" using sep_tail_deref(2) [OF assms(1)]
        by (simp add: deref_append)
      then show ?thesis using False r by (simp add: component_letter_def tail_rel_def)
    next
      case True
      then obtain c q where q: "r' = c # q" by (cases r') auto
      have dw: "dropWhile isalpha (q @ t) = dropWhile isalpha q @ t"
        using sep_tail_classes(2) [OF assms(1)] by (rule dropWhile_append_tail)
      note st = stage_at_tail [OF assms(1) True]
      show ?thesis
      proof (cases "stage_at r'")
        case None
        then show ?thesis using True st dw r q by (simp add: component_letter_def tail_rel_def)
      next
        case (Some nv)
        obtain nm v where nv: "nv = (nm, v)" by (cases nv)
        have "drop (length nm) (r' @ t) = drop (length nm) r' @ t"
          using stage_at_length Some nv by simp
        moreover have "isalpha (deref (r' @ t))" using True q by simp
        ultimately show ?thesis using True st Some r nv
          by (simp add: component_letter_def tail_rel_def)
      qed
    qed
  qed
  then show "fst (component_letter h r) = fst (component_letter h r')"
    "fst (snd (component_letter h r)) = fst (snd (component_letter h r'))"
    "tail_rel t (snd (snd (component_letter h r))) (snd (snd (component_letter h r')))"
    by simp_all
qed

lemma component_patch_tail:
  assumes "sep_tail t" "tail_rel t r r'"
  shows "fst (component_patch h r) = fst (component_patch h r')
    \<and> tail_rel t (snd (component_patch h r)) (snd (component_patch h r'))"
proof (cases "r = r' @ t")
  case False
  then have r: "r' = []" "r = [] \<or> hd r = CHR ''+''" using assms(2) by (auto simp: tail_rel_def)
  then show ?thesis using plus_tail_deref(1) [OF r(2)] assms(2) by (simp add: component_patch_def)
next
  case True
  have "takeWhile isdigit (r' @ t) = takeWhile isdigit r'"
      "dropWhile isdigit (r' @ t) = dropWhile isdigit r' @ t"
    using sep_tail_classes(1) [OF assms(1)] takeWhile_append_tail dropWhile_append_tail by blast+
  moreover have "isdigit (deref (r' @ t)) = isdigit (deref r')"
    using sep_tail_deref(1) [OF assms(1)] by (simp add: deref_append)
  ultimately show ?thesis using True
    by (simp add: component_patch_def strtoll_at_digit tail_rel_def)
qed

lemma get_component_tail:
  assumes "sep_tail t" "p \<noteq> []"
  shows "fst (get_component (p @ t)) = fst (get_component p)"
    and "snd (get_component (p @ t)) = snd (get_component p) @ t
      \<or> snd (get_component p) = [] \<and> length (snd (get_component (p @ t))) \<le> length t"
proof -
  let ?num = "component_number" and ?let = "component_letter" and ?pat = "component_patch"
  obtain n h r1 where a: "?num (p @ t) = (n, h, r1)" by (metis prod_cases3)
  obtain n' h' r1' where a': "?num p = (n', h', r1')" by (metis prod_cases3)
  have e1: "n' = n" "h' = h" and t1: "tail_rel t r1 r1'"
    using component_number_tail [OF assms] by (simp_all add: a a')
  obtain l hp r2 where b: "?let h r1 = (l, hp, r2)" by (metis prod_cases3)
  obtain l' hp' r2' where b': "?let h r1' = (l', hp', r2')" by (metis prod_cases3)
  have e2: "l' = l" "hp' = hp" and t2: "tail_rel t r2 r2'"
    using component_letter_tail [OF assms(1) t1, of h] by (simp_all add: b b')
  obtain pl r3 where c: "?pat hp r2 = (pl, r3)" by (metis prod.exhaust)
  obtain pl' r3' where c': "?pat hp r2' = (pl', r3')" by (metis prod.exhaust)
  have e3: "pl' = pl" and t3: "tail_rel t r3 r3'"
    using component_patch_tail [OF assms(1) t2, of hp] by (simp_all add: c c')
  note steps = a a' [unfolded e1] b b' [unfolded e2] c c' [unfolded e3]
  show "fst (get_component (p @ t)) = fst (get_component p)"
    by (simp add: get_component_def steps)
  have s: "snd (get_component (p @ t)) = dropWhile is_separator r3"
    "snd (get_component p) = dropWhile is_separator r3'"
    by (simp_all add: get_component_def steps)
  show "snd (get_component (p @ t)) = snd (get_component p) @ t
      \<or> snd (get_component p) = [] \<and> length (snd (get_component (p @ t))) \<le> length t"
  proof (cases "r3 = r3' @ t")
    case True
    show ?thesis
    proof (cases "dropWhile is_separator r3' = []")
      case True
      then have "dropWhile is_separator (r3' @ t) = dropWhile is_separator t"
        by (simp add: dropWhile_append)
      then show ?thesis using s \<open>r3 = r3' @ t\<close> True by (simp add: length_dropWhile_le)
    next
      case False
      then have "dropWhile is_separator (r3' @ t) = dropWhile is_separator r3' @ t"
        by (auto simp: dropWhile_append)
      then show ?thesis using s \<open>r3 = r3' @ t\<close> by simp
    qed
  next
    case False
    then show ?thesis using s t3 length_dropWhile_le [of is_separator r3]
      by (auto simp: tail_rel_def)
  qed
qed

lemma parse_blocks_tail:
  assumes "sep_tail t"
  shows "parse_blocks (p @ t) (length t) = parse_blocks p 0"
proof (induction "length p" arbitrary: p rule: less_induct)
  case less
  show ?case
  proof (cases "p = []")
    case True
    then show ?thesis by (simp add: parse_blocks.simps [of t] parse_blocks.simps [of "[]"])
  next
    case ne: False
    have d: "deref (p @ t) = deref p" using ne by (simp add: deref_append)
    show ?thesis
    proof (cases "deref p = CHR ''+''")
      case True
      have "parse_blocks (tl p @ t) (length t) = parse_blocks (tl p) 0"
        using less.hyps [of "tl p"] ne by simp
      then show ?thesis
        using ne True d by (simp add: parse_blocks.simps [of "p @ t"] parse_blocks.simps [of p])
    next
      case False
      note tail = get_component_tail [OF assms ne]
      have "parse_blocks (snd (get_component (p @ t))) (length t) = parse_blocks (snd (get_component p)) 0"
      proof (cases "snd (get_component (p @ t)) = snd (get_component p) @ t")
        case True
        then show ?thesis using less.hyps get_component_progress [OF ne False] by simp
      next
        case False
        then show ?thesis using tail(2) by (simp add: parse_blocks_ended)
      qed
      then show ?thesis using ne False d tail(1)
        by (simp add: parse_blocks.simps [of "p @ t"] parse_blocks.simps [of p] split: list.split)
    qed
  qed
qed


lemma deref_lower: "deref (map tolower p) = tolower (deref p)"
  by (cases p) (auto simp: tolower_def isupper_def NUL_def code_def)

lemma char_lower:
  "tolower c = CHR ''+'' \<longleftrightarrow> c = CHR ''+''" "tolower c = CHR ''*'' \<longleftrightarrow> c = CHR ''*''"
  by (rule tolower_eq_nonalpha, simp add: ctype_defs code_def)+

lemma scan_lower:
  "dropWhile isdigit (map tolower p) = map tolower (dropWhile isdigit p)"
  "dropWhile isalpha (map tolower p) = map tolower (dropWhile isalpha p)"
  "dropWhile (\<lambda>c. c \<noteq> CHR ''+'') (map tolower p) = map tolower (dropWhile (\<lambda>c. c \<noteq> CHR ''+'') p)"
  "dropWhile is_separator (map tolower p) = map tolower (dropWhile is_separator p)"
  by (rule dropWhile_map_commute, simp add: is_separator_def char_lower)+

lemma digits_lower: "takeWhile isdigit (map tolower p) = takeWhile isdigit p"
proof -
  have "map tolower (takeWhile isdigit p) = takeWhile isdigit p"
    by (rule map_idI) (auto dest!: set_takeWhileD simp: tolower_def ctype_defs)
  then show ?thesis by (simp add: takeWhile_map_commute)
qed

lemma stage_at_lower: "stage_at (map tolower p) = stage_at p"
proof -
  have m: "stage_matches (map tolower p) = stage_matches p"
    by (intro ext) (simp add: stage_matches_def strncaseeq_def drop_map deref_lower o_def)
  show ?thesis unfolding stage_at_def m by (simp add: deref_lower flip: map_tl)
qed

lemma component_letter_lower:
  "component_letter h (map tolower p) =
    (case component_letter h p of (a, hp, r) \<Rightarrow> (a, hp, map tolower r))"
proof (cases "isalpha (deref p)")
  case True
  then show ?thesis
    by (cases "stage_at p")
      (auto simp: component_letter_def deref_lower stage_at_lower scan_lower drop_map simp flip: map_tl)
qed (simp add: component_letter_def deref_lower)

lemma get_component_lower:
  "get_component (map tolower p) =
    (fst (get_component p), map tolower (snd (get_component p)))"
proof -
  have num: "component_number (map tolower p) =
      (case component_number p of (n, h, r) \<Rightarrow> (n, h, map tolower r))"
    by (simp add: component_number_def deref_lower strtoll_at_digit digits_lower scan_lower char_lower
        flip: map_tl)
  have pat: "component_patch h (map tolower r) =
      (case component_patch h r of (n, r') \<Rightarrow> (n, map tolower r'))" for h r
    by (simp add: component_patch_def deref_lower strtoll_at_digit digits_lower scan_lower)
  obtain n h r1 where a: "component_number p = (n, h, r1)" by (metis prod_cases3)
  obtain l hp r2 where b: "component_letter h r1 = (l, hp, r2)" by (metis prod_cases3)
  obtain pl r3 where c: "component_patch hp r2 = (pl, r3)" by (metis prod.exhaust)
  show ?thesis
    by (simp add: get_component_def num pat component_letter_lower a b c scan_lower)
qed

lemma parse_blocks_lower: "parse_blocks (map tolower v) l = parse_blocks v l"
proof (induction v l rule: parse_blocks.induct)
  case (1 v l)
  have d: "deref (map tolower v) = CHR ''+'' \<longleftrightarrow> deref v = CHR ''+''"
    by (simp add: deref_lower char_lower)
  consider "length v \<le> l" | "l < length v" "deref v = CHR ''+''" | "l < length v" "deref v \<noteq> CHR ''+''"
    by linarith
  then show ?case
  proof cases
    case 1 then show ?thesis by (simp add: parse_blocks_ended)
  next
    case 2
    then show ?thesis using "1.IH"(1) d
      by (simp add: parse_blocks.simps [of v] parse_blocks.simps [of "map tolower v"] flip: map_tl)
  next
    case 3
    then show ?thesis using "1.IH"(2) d
      by (simp add: parse_blocks.simps [of v] parse_blocks.simps [of "map tolower v"]
          get_component_lower split: list.split)
  qed
qed

section \<open>The comparison is the comparison of keys\<close>

lemma split_version_proper:
  "\<exists>t. sv_version (split_version p) = version_proper p @ t \<and>
    length t = sv_end (split_version p) \<and> sep_tail t"
proof -
  define s where "s = split_version p"
  define v where "v = sv_version s"
  have "\<exists>u t. v = u @ t \<and> length t = sv_end s \<and> sep_tail t"
  proof (cases "strrchr v CHR ''_''")
    case (Some e)
    then have "sv_end s = length e" by (simp add: s_def v_def split_version_def Let_def)
    moreover obtain u w where "v = u @ e" "e = CHR ''_'' # w" using strrchr_Some [OF Some] by blast
    ultimately show ?thesis by (intro exI [of _ u] exI [of _ e]) (simp add: sep_tail_def)
  next
    case None
    show ?thesis
    proof (cases "strrchr v CHR '',''")
      case (Some e)
      then have "sv_end s = length e" using None by (simp add: s_def v_def split_version_def Let_def)
      moreover obtain u w where "v = u @ e" "e = CHR '','' # w" using strrchr_Some [OF Some] by blast
      ultimately show ?thesis by (intro exI [of _ u] exI [of _ e]) (simp add: sep_tail_def)
    next
      case none: None
      then have "sv_end s = 0" using None by (simp add: s_def v_def split_version_def Let_def)
      then show ?thesis by (auto simp: sep_tail_def)
    qed
  qed
  then obtain u t where ut: "v = u @ t" "length t = sv_end s" "sep_tail t" by blast
  then have "version_proper p = u"
    by (simp add: version_proper_def s_def [symmetric] v_def [symmetric] Let_def)
  then show ?thesis using ut by (auto simp: s_def v_def)
qed

lemma version_blocks_loop:
  "version_loop (sv_version (split_version p)) (sv_end (split_version p))
     (sv_version (split_version q)) (sv_end (split_version q))
   = blocks_cmp (version_blocks p) (version_blocks q)"
  using split_version_proper [of p] split_version_proper [of q] parse_blocks_tail
  by (auto simp: version_loop_blocks version_blocks_def) metis

lemma version_shortcut:
  assumes "length (sv_version (split_version p)) - sv_end (split_version p)
      = length (sv_version (split_version q)) - sv_end (split_version q)"
    and "strncaseeq (sv_version (split_version p)) (sv_version (split_version q))
      (length (sv_version (split_version p)) - sv_end (split_version p))"
  shows "version_blocks p = version_blocks q"
proof -
  have "map tolower (version_proper p) = map tolower (version_proper q)"
    using assms by (simp add: version_proper_def Let_def strncaseeq_def take_map)
  then show ?thesis
    by (metis parse_blocks_lower version_blocks_def)
qed

lemma pkg_version_cmp_eq: "pkg_version_cmp p q = version_key_cmp p q"
proof -
  let ?s = "split_version p" and ?t = "split_version q"
  have "(if length (sv_version ?s) - sv_end ?s \<noteq> length (sv_version ?t) - sv_end ?t \<or>
        \<not> strncaseeq (sv_version ?s) (sv_version ?t) (length (sv_version ?s) - sv_end ?s)
      then version_loop (sv_version ?s) (sv_end ?s) (sv_version ?t) (sv_end ?t) else 0)
    = blocks_cmp (version_blocks p) (version_blocks q)"
    using version_shortcut [of p q] by (auto simp: version_blocks_loop)
  then show ?thesis
    by (auto simp: pkg_version_cmp_def version_key_cmp_def lex_int_def cmp_ord_def Let_def)
qed

interpretation version: three_way pkg_version_cmp
proof -
  have "pkg_version_cmp = version_key_cmp" by (intro ext) (rule pkg_version_cmp_eq)
  then show "three_way pkg_version_cmp" using version_key.three_way_axioms by simp
qed


section \<open>Kinds of change\<close>

definition change_of_cmp :: "int \<Rightarrow> pkg_change" where
  "change_of_cmp r = (if r = -1 then PKG_UPGRADE else if r = 1 then PKG_DOWNGRADE else PKG_REINSTALL)"

definition pkg_version_change :: "pkg \<Rightarrow> pkg_change" where
  "pkg_version_change p =
     (case pkg_old_version p of None \<Rightarrow> PKG_REINSTALL
      | Some old \<Rightarrow> change_of_cmp (pkg_version_cmp old (pkg_version p)))"

definition pkg_version_change_between :: "pkg \<Rightarrow> pkg option \<Rightarrow> pkg_change" where
  "pkg_version_change_between pkg1 pkg2 =
     (case pkg2 of None \<Rightarrow> PKG_REINSTALL
      | Some p2 \<Rightarrow> change_of_cmp (pkg_version_cmp (pkg_version p2) (pkg_version pkg1)))"

lemma change_of_cmp_simps [simp]:
  "change_of_cmp (pkg_version_cmp v w) = PKG_UPGRADE \<longleftrightarrow> pkg_version_cmp v w < 0"
  "change_of_cmp (pkg_version_cmp v w) = PKG_DOWNGRADE \<longleftrightarrow> 0 < pkg_version_cmp v w"
  "change_of_cmp (pkg_version_cmp v w) = PKG_REINSTALL \<longleftrightarrow> pkg_version_cmp v w = 0"
  using version.range [of v w] by (auto simp: change_of_cmp_def)

lemma change_between_simps:
  "pkg_version_change_between p (Some q) = PKG_UPGRADE \<longleftrightarrow> pkg_version_cmp (pkg_version q) (pkg_version p) < 0"
  "pkg_version_change_between p (Some q) = PKG_DOWNGRADE \<longleftrightarrow> 0 < pkg_version_cmp (pkg_version q) (pkg_version p)"
  "pkg_version_change_between p (Some q) = PKG_REINSTALL \<longleftrightarrow> pkg_version_cmp (pkg_version q) (pkg_version p) = 0"
  by (simp_all add: pkg_version_change_between_def)

section \<open>Properties\<close>

text \<open>C10. \<open>pkg_version_cmp\<close>, which walks both names with pointers past the end of the version
  and takes a shortcut on equal versions, computes exactly the comparison of parsed keys:
  epoch first, then the blocks of components padded with zero components, then the revision.
\<close>

theorem pkg_version_cmp_key: "pkg_version_cmp p q = version_key_cmp p q"
  by (rule pkg_version_cmp_eq)

text \<open>\<open>pkg_version_cmp\<close> is a total preorder on arbitrary strings: it answers -1, 0 or 1,
  exchanging the arguments negates the answer, and it is transitive.
\<close>

theorem pkg_version_cmp_preorder:
  assumes "pkg_version_cmp p q \<le> 0" and "pkg_version_cmp q r \<le> 0"
  shows "pkg_version_cmp p r \<le> 0 \<and> pkg_version_cmp q p = - pkg_version_cmp p q
    \<and> pkg_version_cmp p q \<in> {-1, 0} \<and> (pkg_version_cmp p r = 0 \<longrightarrow> pkg_version_cmp p q = 0)"
proof -
  have "pkg_version_cmp p r \<le> 0" using assms by (rule version.trans)
  moreover have "pkg_version_cmp p q \<in> {-1, 0}" using version.range [of p q] assms(1) by auto
  moreover have "pkg_version_cmp p r = 0 \<longrightarrow> pkg_version_cmp p q = 0"
    using version.less_le_trans [of p q r] assms by force
  ultimately show ?thesis using version.sym [of q p] by simp
qed

lemma pkg_version_cmp_instances:
  "pkg_version_cmp ''1.a'' ''1'' = -1" "pkg_version_cmp ''1'' ''2'' = -1"
  by code_simp+

theorem pkg_version_cmp_preorder_witness:
  "pkg_version_cmp ''1.a'' ''2'' \<le> 0 \<and> pkg_version_cmp ''1'' ''1.a'' = 1"
  using pkg_version_cmp_preorder [of "''1.a''" "''1''" "''2''"] pkg_version_cmp_instances by simp

text \<open>The component \<open>*\<close> is smaller than every component that does not start with \<open>*\<close>, as
  the comment above \<open>get_component\<close> guarantees.
\<close>

theorem star_component_smallest:
  assumes "deref pos \<noteq> CHR ''*''"
  shows "component_cmp (fst (get_component (CHR ''*'' # s))) (fst (get_component pos)) = -1"
proof -
  have star: "vc_n (fst (get_component (CHR ''*'' # s))) = -2"
    by (simp add: get_component_def component_number_def isdigit_def code_def split: prod.split)
  have "-1 \<le> fst (component_number pos)"
  proof (cases "isdigit (deref pos)")
    case True
    have "0 \<le> LLONG_MAX" by (simp add: LLONG_MAX_def)
    then have "0 \<le> fst (strtoll pos)"
      using dec_val_takeWhile_nonneg [of pos] by (simp add: strtoll_at_digit [OF True])
    then show ?thesis using True by (cases "strtoll pos") (simp add: component_number_def)
  qed (simp add: component_number_def assms)
  then have "-1 \<le> vc_n (fst (get_component pos))"
    by (cases "component_number pos") (auto simp: get_component_def split: prod.split)
  then show ?thesis using star by (simp add: component_cmp_def)
qed

theorem star_component_smallest_witness:
  "component_cmp (fst (get_component ''*'')) (fst (get_component ''pl1'')) = -1"
  using star_component_smallest [of "''pl1''" "[]"] by simp

text \<open>Swapping the packages turns an upgrade into a downgrade and back, a reinstallation
  is the absence of both, and upgrades compose.
\<close>

theorem version_change_between_dual:
  assumes "pkg_version_change_between p (Some q) = PKG_UPGRADE"
    and "pkg_version_change_between q (Some r) \<noteq> PKG_DOWNGRADE"
  shows "pkg_version_change_between q (Some p) = PKG_DOWNGRADE
    \<and> pkg_version_change_between p (Some r) = PKG_UPGRADE"
proof -
  have qp: "pkg_version_cmp (pkg_version q) (pkg_version p) < 0"
    using assms(1) by (simp add: change_between_simps)
  have rq: "pkg_version_cmp (pkg_version r) (pkg_version q) \<le> 0"
    using assms(2) by (simp add: change_between_simps)
  from rq qp have "pkg_version_cmp (pkg_version r) (pkg_version p) < 0"
    by (rule version.le_less_trans)
  moreover have "0 < pkg_version_cmp (pkg_version p) (pkg_version q)"
    using qp version.sym [of "pkg_version q" "pkg_version p"] by linarith
  ultimately show ?thesis by (simp add: change_between_simps)
qed

theorem version_change_between_dual_witness:
  "pkg_version_change_between (blank_pkg\<lparr>pkg_version := ''1''\<rparr>) (Some (blank_pkg\<lparr>pkg_version := ''1.a''\<rparr>))
     = PKG_UPGRADE \<and>
   pkg_version_change_between (blank_pkg\<lparr>pkg_version := ''1.a''\<rparr>) (Some (blank_pkg\<lparr>pkg_version := ''1''\<rparr>))
     = PKG_DOWNGRADE"
  using version_change_between_dual [of "blank_pkg\<lparr>pkg_version := ''1''\<rparr>"
      "blank_pkg\<lparr>pkg_version := ''1.a''\<rparr>" "blank_pkg\<lparr>pkg_version := ''1.a''\<rparr>"]
    pkg_version_cmp_instances
  by (simp add: change_between_simps)

end
