(* ===== verification/Upgrade.thy ===== *)
theory Upgrade
  imports Pkg_Version
begin

text \<open>
  \<open>pkg_jobs_need_upgrade\<close> of \<^verbatim>\<open>libpkg/pkg_jobs.c\<close>: whether a remote package replaces a local
  one, and the reason it records in the remote package.
\<close>

text \<open>
  Two lists walked in step: \<open>gone\<close> names an element only the local package has, \<open>added\<close> one
  only the remote has, \<open>diff\<close> compares two at the same place.
\<close>

fun walk :: "('a \<Rightarrow> 'a \<Rightarrow> string option) \<Rightarrow> ('a \<Rightarrow> string) \<Rightarrow> ('a \<Rightarrow> string) \<Rightarrow> 'a list \<Rightarrow> 'a list \<Rightarrow> string option" where
  "walk diff gone added [] [] = None"
| "walk diff gone added [] (l # ls) = Some (gone l)"
| "walk diff gone added (r # rs) [] = Some (added r)"
| "walk diff gone added (r # rs) (l # ls) =
     (case diff r l of Some reason \<Rightarrow> Some reason | None \<Rightarrow> walk diff gone added rs ls)"

definition options_reason :: "pkg \<Rightarrow> pkg \<Rightarrow> string option" where
  "options_reason rp lp =
     walk (\<lambda>ro lo. if opt_key lo \<noteq> opt_key ro \<or> opt_value lo \<noteq> opt_value ro then Some ''options changed'' else None)
       (\<lambda>lo. ''option removed: '' @ opt_key lo) (\<lambda>ro. ''option added: '' @ opt_key ro)
       (pkg_options rp) (pkg_options lp)"

definition deps_reason :: "pkg \<Rightarrow> pkg \<Rightarrow> string option" where
  "deps_reason rp lp =
     walk (\<lambda>rd ld. if dep_name rd \<noteq> dep_name ld \<or> dep_origin rd \<noteq> dep_origin ld
                    then Some (''direct dependency changed: '' @ dep_name rd) else None)
       (\<lambda>ld. ''direct dependency removed: '' @ dep_name ld) (\<lambda>rd. ''direct dependency added: '' @ dep_name rd)
       (pkg_depends rp) (pkg_depends lp)"

definition strings_reason :: "string \<Rightarrow> string list \<Rightarrow> string list \<Rightarrow> string option" where
  "strings_reason reason rs ls = walk (\<lambda>r l. if r \<noteq> l then Some reason else None) (\<lambda>_. reason) (\<lambda>_. reason) rs ls"

definition conflicts_reason :: "pkg \<Rightarrow> pkg \<Rightarrow> string option" where
  "conflicts_reason rp lp =
     strings_reason ''direct conflict changed'' (map conflict_uid (pkg_conflicts rp)) (map conflict_uid (pkg_conflicts lp))"

definition arch_reason :: "pkg \<Rightarrow> pkg \<Rightarrow> string option" where
  "arch_reason rp lp =
     (if pkg_arch lp \<noteq> pkg_arch rp
      then Some (''ABI changed: '' @ [CHR 39] @ pkg_arch lp @ [CHR 39] @ '' -> '' @ [CHR 39] @ pkg_arch rp @ [CHR 39])
      else None)"

text \<open>The comparisons after the versions were found equal, in their order.\<close>

definition change_reasons :: "pkg \<Rightarrow> pkg \<Rightarrow> string option list" where
  "change_reasons rp lp =
     [arch_reason rp lp, options_reason rp lp, deps_reason rp lp, conflicts_reason rp lp,
      strings_reason ''provides changed'' (pkg_provides rp) (pkg_provides lp),
      strings_reason ''requires changed'' (pkg_requires rp) (pkg_requires lp),
      strings_reason ''provided shared library changed'' (pkg_shlibs_provided rp) (pkg_shlibs_provided lp),
      strings_reason ''needed shared library changed'' (pkg_shlibs_required rp) (pkg_shlibs_required lp)]"

fun first_some :: "'a option list \<Rightarrow> 'a option" where
  "first_some [] = None"
| "first_some (None # xs) = first_some xs"
| "first_some (Some x # xs) = Some x"

definition same_digest :: "pkg \<Rightarrow> pkg \<Rightarrow> bool" where
  "same_digest p q \<longleftrightarrow> (case (pkg_digest p, pkg_digest q) of (Some d, Some e) \<Rightarrow> d = e | _ \<Rightarrow> False)"

text \<open>The answer, and the remote package with its \<open>reason\<close> updated.\<close>

definition pkg_jobs_need_upgrade :: "pkg \<Rightarrow> pkg option \<Rightarrow> bool \<times> pkg" where
  "pkg_jobs_need_upgrade rp lp =
     (case lp of
        None \<Rightarrow> (True, rp)
      | Some l \<Rightarrow>
          if pkg_locked l then (False, rp)
          else if same_digest l rp then (False, rp)
          else (let ret = pkg_version_cmp (pkg_version l) (pkg_version rp) in
            if ret > 0 then (False, rp)
            else if ret < 0 then (True, rp)
            else (case first_some (change_reasons rp l) of
                    Some reason \<Rightarrow> (True, rp\<lparr>pkg_reason := Some reason\<rparr>)
                  | None \<Rightarrow> (False, rp))))"

definition need_upgrade :: "pkg \<Rightarrow> pkg option \<Rightarrow> bool" where
  "need_upgrade rp lp = fst (pkg_jobs_need_upgrade rp lp)"

section \<open>What is compared\<close>

text \<open>What two packages of the same version may differ in.\<close>

definition fingerprint :: "pkg \<Rightarrow> string \<times> (string \<times> string) list \<times> (string \<times> string) list \<times> string list list" where
  "fingerprint p = (pkg_arch p, map (\<lambda>x. (opt_key x, opt_value x)) (pkg_options p),
     map (\<lambda>d. (dep_name d, dep_origin d)) (pkg_depends p),
     [map conflict_uid (pkg_conflicts p), pkg_provides p, pkg_requires p, pkg_shlibs_provided p, pkg_shlibs_required p])"

lemma walk_None:
  assumes "\<And>r l. diff r l = None \<longleftrightarrow> key r = key l"
  shows "walk diff gone added rs ls = None \<longleftrightarrow> map key rs = map key ls"
  using assms by (induction diff gone added rs ls rule: walk.induct) (auto split: option.split, metis option.distinct(1))

lemma strings_reason_None: "strings_reason reason rs ls = None \<longleftrightarrow> rs = ls"
  unfolding strings_reason_def by (subst walk_None [where key = "\<lambda>x. x"]) auto

lemma first_some_None: "first_some xs = None \<longleftrightarrow> (\<forall>x \<in> set xs. x = None)"
  by (induction xs rule: first_some.induct) auto

lemma no_change_reason: "first_some (change_reasons rp lp) = None \<longleftrightarrow> fingerprint rp = fingerprint lp"
proof -
  have opt: "options_reason rp lp = None \<longleftrightarrow>
      map (\<lambda>x. (opt_key x, opt_value x)) (pkg_options rp) = map (\<lambda>x. (opt_key x, opt_value x)) (pkg_options lp)"
    unfolding options_reason_def by (rule walk_None) auto
  have dep: "deps_reason rp lp = None \<longleftrightarrow>
      map (\<lambda>d. (dep_name d, dep_origin d)) (pkg_depends rp) = map (\<lambda>d. (dep_name d, dep_origin d)) (pkg_depends lp)"
    unfolding deps_reason_def by (rule walk_None) auto
  show ?thesis
    by (auto simp: first_some_None change_reasons_def fingerprint_def opt dep strings_reason_None
        conflicts_reason_def arch_reason_def)
qed

lemma need_upgrade_some:
  "need_upgrade rp (Some lp) \<longleftrightarrow> \<not> pkg_locked lp \<and> \<not> same_digest lp rp \<and>
    (pkg_version_cmp (pkg_version lp) (pkg_version rp) < 0 \<or>
     pkg_version_cmp (pkg_version lp) (pkg_version rp) = 0 \<and> fingerprint rp \<noteq> fingerprint lp)"
  using no_change_reason [of rp lp]
  by (auto simp: need_upgrade_def pkg_jobs_need_upgrade_def Let_def split: option.splits)

section \<open>Properties\<close>

text \<open>C25. A remote package replaces a local one exactly when the local one is not locked, the
  digests are not known to be equal, and the remote version is newer, or equal with a change in
  the architecture, options, direct dependencies, conflicts, provides, requires or libraries.\<close>

theorem need_upgrade_iff:
  "need_upgrade rp (Some lp) \<longleftrightarrow> \<not> pkg_locked lp \<and> \<not> same_digest lp rp \<and>
    (pkg_version_cmp (pkg_version lp) (pkg_version rp) < 0 \<or>
     pkg_version_cmp (pkg_version lp) (pkg_version rp) = 0 \<and> fingerprint rp \<noteq> fingerprint lp)"
  by (rule need_upgrade_some)

text \<open>Upgrading settles: of two unlocked packages at most one replaces the other when their
  versions differ, and an upgrade never goes back to an older version, also through a chain.\<close>

theorem need_upgrade_no_downgrade:
  assumes "need_upgrade q (Some p)" "need_upgrade r (Some q)"
  shows "pkg_version_cmp (pkg_version p) (pkg_version r) \<le> 0 \<and>
    (pkg_version_cmp (pkg_version p) (pkg_version r) = 0 \<longrightarrow>
      fingerprint p \<noteq> fingerprint q \<and> fingerprint q \<noteq> fingerprint r)"
proof -
  have pq: "pkg_version_cmp (pkg_version p) (pkg_version q) \<le> 0" and qr: "pkg_version_cmp (pkg_version q) (pkg_version r) \<le> 0"
    using assms by (auto simp: need_upgrade_some)
  moreover have "pkg_version_cmp (pkg_version p) (pkg_version r) < 0"
    if "pkg_version_cmp (pkg_version p) (pkg_version q) < 0 \<or> pkg_version_cmp (pkg_version q) (pkg_version r) < 0"
    using that version.less_le_trans [OF _ qr] version.le_less_trans [OF pq] by blast
  ultimately show ?thesis
    using version.trans [OF pq qr] assms by (auto simp: need_upgrade_some)
qed

theorem need_upgrade_no_downgrade_witness:
  "pkg_version_cmp ''1.a'' ''2'' \<le> 0"
proof -
  have "need_upgrade (blank_pkg\<lparr>pkg_version := ''1''\<rparr>) (Some (blank_pkg\<lparr>pkg_version := ''1.a''\<rparr>))"
    "need_upgrade (blank_pkg\<lparr>pkg_version := ''2''\<rparr>) (Some (blank_pkg\<lparr>pkg_version := ''1''\<rparr>))"
    by (simp_all add: need_upgrade_some pkg_version_cmp_instances blank_pkg_def same_digest_def)
  from need_upgrade_no_downgrade [OF this] show ?thesis by simp
qed

end
