(* ===== verification/Sha256.thy ===== *)
theory Sha256
  imports "HOL-Library.Word" Prelude
begin

text \<open>
  SHA-256, \<^verbatim>\<open>libpkg/sha256.c\<close>: the streaming implementation with its 64-byte buffer, on
  32-bit words, and the specification it refines: the compression function folded over the
  blocks of the padded message.
\<close>

unbundle bit_operations_syntax

type_synonym byte = "8 word"
type_synonym word32 = "32 word"

section \<open>The compression function\<close>

definition ROTRIGHT :: "word32 \<Rightarrow> nat \<Rightarrow> word32" where
  "ROTRIGHT a b = drop_bit b a OR push_bit (32 - b) a"

definition CH :: "word32 \<Rightarrow> word32 \<Rightarrow> word32 \<Rightarrow> word32" where
  "CH x y z = (x AND y) XOR (NOT x AND z)"

definition MAJ :: "word32 \<Rightarrow> word32 \<Rightarrow> word32 \<Rightarrow> word32" where
  "MAJ x y z = (x AND y) XOR (x AND z) XOR (y AND z)"

definition EP0 :: "word32 \<Rightarrow> word32" where
  "EP0 x = ROTRIGHT x 2 XOR ROTRIGHT x 13 XOR ROTRIGHT x 22"

definition EP1 :: "word32 \<Rightarrow> word32" where
  "EP1 x = ROTRIGHT x 6 XOR ROTRIGHT x 11 XOR ROTRIGHT x 25"

definition SIG0 :: "word32 \<Rightarrow> word32" where
  "SIG0 x = ROTRIGHT x 7 XOR ROTRIGHT x 18 XOR drop_bit 3 x"

definition SIG1 :: "word32 \<Rightarrow> word32" where
  "SIG1 x = ROTRIGHT x 17 XOR ROTRIGHT x 19 XOR drop_bit 10 x"

text \<open>The table of round constants, in decimal.\<close>

definition k :: "word32 list" where
  "k = [1116352408, 1899447441, 3049323471, 3921009573, 961987163, 1508970993,
        2453635748, 2870763221, 3624381080, 310598401, 607225278, 1426881987,
        1925078388, 2162078206, 2614888103, 3248222580, 3835390401, 4022224774,
        264347078, 604807628, 770255983, 1249150122, 1555081692, 1996064986,
        2554220882, 2821834349, 2952996808, 3210313671, 3336571891, 3584528711,
        113926993, 338241895, 666307205, 773529912, 1294757372, 1396182291,
        1695183700, 1986661051, 2177026350, 2456956037, 2730485921, 2820302411,
        3259730800, 3345764771, 3516065817, 3600352804, 4094571909, 275423344,
        430227734, 506948616, 659060556, 883997877, 958139571, 1322822218,
        1537002063, 1747873779, 1955562222, 2024104815, 2227730452, 2361852424,
        2428436474, 2756734187, 3204031479, 3329325298]"

text \<open>The eight words of \<^verbatim>\<open>ctx->state\<close>, and the working variables \<^verbatim>\<open>a\<close> to \<^verbatim>\<open>h\<close>.\<close>

record hash_state =
  st_a :: word32
  st_b :: word32
  st_c :: word32
  st_d :: word32
  st_e :: word32
  st_f :: word32
  st_g :: word32
  st_h :: word32

definition load_word :: "byte list \<Rightarrow> nat \<Rightarrow> word32" where
  "load_word data i = push_bit 24 (ucast (data ! (4 * i))) OR push_bit 16 (ucast (data ! (4 * i + 1)))
     OR push_bit 8 (ucast (data ! (4 * i + 2))) OR ucast (data ! (4 * i + 3))"

definition schedule_step :: "word32 list \<Rightarrow> nat \<Rightarrow> word32 list" where
  "schedule_step m i = m @ [SIG1 (m ! (i - 2)) + m ! (i - 7) + SIG0 (m ! (i - 15)) + m ! (i - 16)]"

definition schedule :: "byte list \<Rightarrow> word32 list" where
  "schedule data = foldl schedule_step (map (load_word data) [0..<16]) [16..<64]"

definition sha256_round :: "word32 list \<Rightarrow> hash_state \<Rightarrow> nat \<Rightarrow> hash_state" where
  "sha256_round m s i =
     (let t1 = st_h s + EP1 (st_e s) + CH (st_e s) (st_f s) (st_g s) + k ! i + m ! i;
          t2 = EP0 (st_a s) + MAJ (st_a s) (st_b s) (st_c s)
      in \<lparr>st_a = t1 + t2, st_b = st_a s, st_c = st_b s, st_d = st_c s, st_e = st_d s + t1,
          st_f = st_e s, st_g = st_f s, st_h = st_g s\<rparr>)"

definition add_state :: "hash_state \<Rightarrow> hash_state \<Rightarrow> hash_state" where
  "add_state s r = \<lparr>st_a = st_a s + st_a r, st_b = st_b s + st_b r, st_c = st_c s + st_c r,
     st_d = st_d s + st_d r, st_e = st_e s + st_e r, st_f = st_f s + st_f r,
     st_g = st_g s + st_g r, st_h = st_h s + st_h r\<rparr>"

definition sha256_transform :: "hash_state \<Rightarrow> byte list \<Rightarrow> hash_state" where
  "sha256_transform s data = add_state s (foldl (sha256_round (schedule data)) s [0..<64])"

section \<open>The streaming interface\<close>

text \<open>\<open>ctx_data\<close> has 64 bytes; \<open>sha256_init\<close> leaves what was there before.\<close>

record sha256_ctx =
  ctx_data :: "byte list"
  ctx_datalen :: nat
  ctx_bitlen :: "64 word"
  ctx_state :: hash_state

definition initial_state :: hash_state where
  "initial_state = \<lparr>st_a = 0x6a09e667, st_b = 0xbb67ae85, st_c = 0x3c6ef372, st_d = 0xa54ff53a,
     st_e = 0x510e527f, st_f = 0x9b05688c, st_g = 0x1f83d9ab, st_h = 0x5be0cd19\<rparr>"

definition sha256_init :: "byte list \<Rightarrow> sha256_ctx" where
  "sha256_init d = \<lparr>ctx_data = d, ctx_datalen = 0, ctx_bitlen = 0, ctx_state = initial_state\<rparr>"

definition update_byte :: "sha256_ctx \<Rightarrow> byte \<Rightarrow> sha256_ctx" where
  "update_byte ctx b =
     (let data = (ctx_data ctx)[ctx_datalen ctx := b];
          datalen = ctx_datalen ctx + 1
      in if datalen = 64
         then \<lparr>ctx_data = data, ctx_datalen = 0, ctx_bitlen = ctx_bitlen ctx + 512,
               ctx_state = sha256_transform (ctx_state ctx) data\<rparr>
         else ctx\<lparr>ctx_data := data, ctx_datalen := datalen\<rparr>)"

text \<open>
  The loop counter is a 32-bit \<^verbatim>\<open>WORD\<close>: from \<open>2 ^ 32\<close> bytes on the loop never ends, which is
  \<open>None\<close>.
\<close>

definition sha256_update :: "sha256_ctx \<Rightarrow> byte list \<Rightarrow> sha256_ctx option" where
  "sha256_update ctx data = (if int (length data) < 2 ^ 32 then Some (foldl update_byte ctx data) else None)"

text \<open>\<^verbatim>\<open>data[i] = 0\<close> for every \<open>i\<close> from \<open>a\<close> below \<open>b\<close>.\<close>

definition zero_fill :: "nat \<Rightarrow> nat \<Rightarrow> byte list \<Rightarrow> byte list" where
  "zero_fill a b data = foldl (\<lambda>d i. d[i := 0]) data [a..<b]"

definition put_bitlen :: "64 word \<Rightarrow> byte list \<Rightarrow> byte list" where
  "put_bitlen n data = data[63 := ucast n, 62 := ucast (drop_bit 8 n), 61 := ucast (drop_bit 16 n),
     60 := ucast (drop_bit 24 n), 59 := ucast (drop_bit 32 n), 58 := ucast (drop_bit 40 n),
     57 := ucast (drop_bit 48 n), 56 := ucast (drop_bit 56 n)]"

definition word_bytes :: "word32 \<Rightarrow> byte list" where
  "word_bytes w = map (\<lambda>i. ucast (drop_bit (24 - i * 8) w AND 0xff)) [0..<4]"

definition state_bytes :: "hash_state \<Rightarrow> byte list" where
  "state_bytes s = concat (map word_bytes [st_a s, st_b s, st_c s, st_d s, st_e s, st_f s, st_g s, st_h s])"

definition sha256_final :: "sha256_ctx \<Rightarrow> byte list" where
  "sha256_final ctx =
     (let n = ctx_datalen ctx;
          padded = (ctx_data ctx)[n := 0x80];
          (data, s) = (if n < 56 then (zero_fill (n + 1) 56 padded, ctx_state ctx)
                       else let d = zero_fill (n + 1) 64 padded
                            in (zero_fill 0 56 d, sha256_transform (ctx_state ctx) d));
          bitlen = ctx_bitlen ctx + of_nat n * 8
      in state_bytes (sha256_transform s (put_bitlen bitlen data)))"

text \<open>The bulk use of the three calls, as in \<open>pkg_checksum_hash_sha256_bulk\<close>.\<close>

definition sha256_bulk :: "byte list \<Rightarrow> byte list \<Rightarrow> byte list option" where
  "sha256_bulk d msg = (case sha256_update (sha256_init d) msg of None \<Rightarrow> None | Some ctx \<Rightarrow> Some (sha256_final ctx))"

section \<open>The specification\<close>

function blocks :: "byte list \<Rightarrow> byte list list" where
  "blocks xs = (if length xs < 64 then [] else take 64 xs # blocks (drop 64 xs))"
  by auto
termination by (relation "measure length") auto

declare blocks.simps [simp del]

definition be64 :: "64 word \<Rightarrow> byte list" where
  "be64 n = map (\<lambda>i. ucast (drop_bit (56 - 8 * i) n)) [0..<8]"

definition sha_pad :: "byte list \<Rightarrow> byte list" where
  "sha_pad msg = msg @ 0x80 # replicate ((119 - length msg mod 64) mod 64) 0 @ be64 (8 * of_nat (length msg))"

text \<open>The message schedule by its recurrence.\<close>

fun W :: "byte list \<Rightarrow> nat \<Rightarrow> word32" where
  "W data t = (if t < 16 then load_word data t
     else SIG1 (W data (t - 2)) + W data (t - 7) + SIG0 (W data (t - 15)) + W data (t - 16))"

declare W.simps [simp del]

definition sha256_spec :: "byte list \<Rightarrow> byte list" where
  "sha256_spec msg = state_bytes (foldl sha256_transform initial_state (blocks (sha_pad msg)))"

section \<open>The implementation refines it\<close>

lemma schedule_prefix:
  "n \<le> 48 \<Longrightarrow> foldl schedule_step (map (load_word data) [0..<16]) [16..<16 + n] = map (W data) [0..<16 + n]"
proof (induction n)
  case 0
  then show ?case by (auto simp: W.simps)
next
  case (Suc n)
  have up: "[m..<16 + Suc n] = [m..<16 + n] @ [16 + n]" if "m \<le> 16" for m
    using upt_Suc_append [of m "16 + n"] that by simp
  have "foldl schedule_step (map (load_word data) [0..<16]) [16..<16 + Suc n]
      = schedule_step (map (W data) [0..<16 + n]) (16 + n)"
    unfolding up [OF order_refl] using Suc by (simp del: upt_Suc)
  also have "\<dots> = map (W data) [0..<16 + n] @ [W data (16 + n)]"
    by (simp add: schedule_step_def W.simps [of data "16 + n"])
  finally show ?case unfolding up [OF le0] by (simp del: upt_Suc)
qed

lemma schedule_W: "schedule data = map (W data) [0..<64]"
  using schedule_prefix [of 48 data] by (simp add: schedule_def)

lemma zero_fill_eq: "a \<le> b \<Longrightarrow> b \<le> length d \<Longrightarrow> zero_fill a b d = take a d @ replicate (b - a) 0 @ drop b d"
proof (induction b)
  case 0
  then show ?case by (simp add: zero_fill_def)
next
  case (Suc b)
  show ?case
  proof (cases "a = Suc b")
    case True
    then show ?thesis by (simp add: zero_fill_def)
  next
    case False
    then have ab: "a \<le> b" "b < length d" using Suc.prems by simp_all
    then have "zero_fill a (Suc b) d = (zero_fill a b d)[b := 0]" by (simp add: zero_fill_def)
    also have "\<dots> = (take a d @ replicate (b - a) 0 @ drop b d)[b := 0]" using ab Suc by simp
    also have "\<dots> = take a d @ replicate (Suc b - a) 0 @ drop (Suc b) d"
      using ab by (simp add: list_update_append Cons_nth_drop_Suc [symmetric] Suc_diff_le replicate_append_same)
    finally show ?thesis .
  qed
qed

lemma length_zero_fill [simp]: "length (zero_fill a b d) = length d"
proof -
  have "length (foldl (\<lambda>d i. d[i := 0]) d xs) = length d" for xs :: "nat list"
    by (induction xs arbitrary: d) auto
  then show ?thesis by (simp add: zero_fill_def)
qed

lemma blocks_short: "length xs < 64 \<Longrightarrow> blocks xs = []"
  by (simp add: blocks.simps)

lemma blocks_one: "length xs = 64 \<Longrightarrow> blocks (xs @ ys) = xs # blocks ys"
  by (subst blocks.simps) simp

lemma blocks_append: "64 dvd length xs \<Longrightarrow> blocks (xs @ ys) = blocks xs @ blocks ys"
proof (induction xs rule: blocks.induct)
  case (1 xs)
  show ?case
  proof (cases "xs = []")
    case True
    then show ?thesis by (simp add: blocks_short)
  next
    case False
    then have len: "64 \<le> length xs" using 1(2) dvd_imp_le [of 64 "length xs"] by simp
    then have "64 dvd length (drop 64 xs)" using 1(2) by (simp add: dvd_diff_nat)
    then have "blocks (drop 64 xs @ ys) = blocks (drop 64 xs) @ blocks ys"
      using 1(1) len by simp
    then show ?thesis using len by (simp add: blocks.simps [of xs] blocks.simps [of "xs @ ys"])
  qed
qed

text \<open>What the context holds after the bytes \<open>msg\<close>.\<close>

definition ctx_inv :: "sha256_ctx \<Rightarrow> byte list \<Rightarrow> bool" where
  "ctx_inv ctx msg \<longleftrightarrow> length (ctx_data ctx) = 64 \<and>
     (\<exists>a t. msg = a @ t \<and> 64 dvd length a \<and> length t < 64 \<and> ctx_datalen ctx = length t \<and>
        take (length t) (ctx_data ctx) = t \<and> ctx_state ctx = foldl sha256_transform initial_state (blocks a) \<and>
        ctx_bitlen ctx = 8 * of_nat (length a))"

lemma ctx_inv_init: "length d = 64 \<Longrightarrow> ctx_inv (sha256_init d) []"
  by (simp add: ctx_inv_def sha256_init_def blocks_short)

lemma ctx_inv_update_byte:
  assumes "ctx_inv ctx msg"
  shows "ctx_inv (update_byte ctx b) (msg @ [b])"
proof -
  from assms obtain a t where at: "msg = a @ t" "64 dvd length a" "length t < 64" "ctx_datalen ctx = length t"
    "take (length t) (ctx_data ctx) = t" "ctx_state ctx = foldl sha256_transform initial_state (blocks a)"
    "ctx_bitlen ctx = 8 * of_nat (length a)" and len: "length (ctx_data ctx) = 64"
    by (auto simp: ctx_inv_def)
  let ?data = "(ctx_data ctx)[length t := b]"
  have tk: "take (Suc (length t)) ?data = t @ [b]"
    using at(3,5) len by (simp add: take_Suc_conv_app_nth)
  show ?thesis
  proof (cases "Suc (length t) = 64")
    case True
    then have "?data = t @ [b]" using tk len by simp
    moreover have "blocks (a @ t @ [b]) = blocks a @ [t @ [b]]"
      using blocks_append [OF at(2)] blocks_one [of "t @ [b]" "[]"] True by (simp add: blocks_short)
    moreover have "64 dvd length (a @ t @ [b])" using at(2) True by simp
    moreover have "length a + Suc (length t) = length a + 64" using True by simp
    moreover have "8 * (of_nat (length a) + 64) = 8 * of_nat (length a) + (512 :: 64 word)" by simp
    ultimately show ?thesis using at len True
      unfolding ctx_inv_def
      by (intro conjI exI [of _ "a @ t @ [b]"] exI [of _ "[]"]) (simp_all add: update_byte_def Let_def algebra_simps)
  next
    case False
    then show ?thesis using at len tk
      unfolding ctx_inv_def by (intro conjI exI [of _ a] exI [of _ "t @ [b]"]) (simp_all add: update_byte_def)
  qed
qed

lemma ctx_inv_update:
  "ctx_inv ctx msg \<Longrightarrow> sha256_update ctx data = Some ctx' \<Longrightarrow> ctx_inv ctx' (msg @ data)"
proof -
  have "ctx_inv (foldl update_byte ctx data) (msg @ data)" if "ctx_inv ctx msg" for ctx msg
    using that
  proof (induction data arbitrary: ctx msg)
    case (Cons b data)
    then show ?case using Cons.IH [OF ctx_inv_update_byte [OF Cons.prems, of b]] by simp
  qed simp
  then show "ctx_inv ctx msg \<Longrightarrow> sha256_update ctx data = Some ctx' \<Longrightarrow> ctx_inv ctx' (msg @ data)"
    by (auto simp: sha256_update_def split: if_splits)
qed

lemma put_bitlen_eq: "length d = 64 \<Longrightarrow> put_bitlen n d = take 56 d @ be64 n"
proof -
  assume d: "length d = 64"
  have be: "be64 n = [ucast (drop_bit 56 n), ucast (drop_bit 48 n), ucast (drop_bit 40 n), ucast (drop_bit 32 n),
     ucast (drop_bit 24 n), ucast (drop_bit 16 n), ucast (drop_bit 8 n), ucast n]"
    by (simp add: be64_def upt_rec)
  show ?thesis
  proof (rule nth_equalityI)
    show "length (put_bitlen n d) = length (take 56 d @ be64 n)" using d by (simp add: put_bitlen_def be)
    fix i assume "i < length (put_bitlen n d)"
    then have "i < 64" using d by (simp add: put_bitlen_def)
    then consider "i < 56" | "i = 56" | "i = 57" | "i = 58" | "i = 59" | "i = 60" | "i = 61" | "i = 62" | "i = 63"
      by linarith
    then show "put_bitlen n d ! i = (take 56 d @ be64 n) ! i"
      using d by cases (simp_all add: put_bitlen_def be nth_append)
  qed
qed

lemma be64_length [simp]: "length (be64 n) = 8"
  by (simp add: be64_def)

lemma final_spec:
  assumes "ctx_inv ctx msg"
  shows "sha256_final ctx = sha256_spec msg"
proof -
  from assms obtain a t where at: "msg = a @ t" "64 dvd length a" "length t < 64" "ctx_datalen ctx = length t"
    "take (length t) (ctx_data ctx) = t" "ctx_state ctx = foldl sha256_transform initial_state (blocks a)"
    "ctx_bitlen ctx = 8 * of_nat (length a)" and len: "length (ctx_data ctx) = 64"
    by (auto simp: ctx_inv_def)
  let ?n = "length t"
  let ?p = "(ctx_data ctx)[?n := 0x80]"
  let ?be = "be64 (8 * of_nat (length msg))"
  have bl: "ctx_bitlen ctx + of_nat ?n * 8 = 8 * of_nat (length msg)"
    using at by (simp add: algebra_simps)
  have m: "length msg mod 64 = ?n" using at(1-3) by auto
  have tp: "take (Suc ?n) ?p = t @ [0x80]"
    using at(3,5) len by (simp add: take_Suc_conv_app_nth)
  show ?thesis
  proof (cases "?n < 56")
    case True
    let ?b = "t @ [0x80] @ replicate (55 - ?n) 0"
    have "zero_fill (?n + 1) 56 ?p = ?b @ drop 56 ?p"
      using zero_fill_eq [of "?n + 1" 56 ?p] True len tp by simp
    moreover have "length ?b = 56" using True by simp
    ultimately have "take 56 (zero_fill (?n + 1) 56 ?p) = ?b" by (metis append_eq_conv_conj)
    then have "put_bitlen n (zero_fill (?n + 1) 56 ?p) = t @ [0x80] @ replicate (55 - ?n) 0 @ be64 n" for n
      using len by (simp add: put_bitlen_eq)
    moreover have "(119 - ?n) mod 64 = 55 - ?n"
    proof -
      have "(119 - ?n) mod 64 = (64 + (55 - ?n)) mod 64" using True by simp
      also have "\<dots> = (55 - ?n) mod 64" by (rule mod_add_self1)
      also have "\<dots> = 55 - ?n" by (intro mod_less) simp
      finally show ?thesis .
    qed
    moreover have "blocks (t @ [0x80] @ replicate (55 - ?n) 0 @ ?be) = [t @ [0x80] @ replicate (55 - ?n) 0 @ ?be]"
      using True blocks_one [of "t @ [0x80] @ replicate (55 - ?n) 0 @ ?be" "[]"] by (simp add: blocks_short)
    ultimately show ?thesis
      using True at m bl blocks_append [OF at(2)]
      by (simp add: sha256_final_def sha256_spec_def sha_pad_def Let_def mult.commute)
  next
    case False
    let ?d1 = "t @ [0x80] @ replicate (63 - ?n) 0"
    have d1: "zero_fill (?n + 1) 64 ?p = ?d1"
      using zero_fill_eq [of "?n + 1" 64 ?p] at(3) len tp by simp
    have put: "put_bitlen n (zero_fill 0 56 ?d1) = replicate 56 0 @ be64 n" for n
      using zero_fill_eq [of 0 56 ?d1] at(3) False by (simp add: put_bitlen_eq)
    have fin: "sha256_final ctx = state_bytes (sha256_transform (sha256_transform (ctx_state ctx) ?d1) (replicate 56 0 @ ?be))"
      unfolding sha256_final_def at(4) Let_def using False d1 put bl by simp
    have n: "(119 - ?n) mod 64 = (63 - ?n) + 56" using False at(3) by simp
    have pad: "sha_pad msg = a @ ?d1 @ replicate 56 0 @ ?be"
      unfolding sha_pad_def m n replicate_add using at(1) by simp
    have "blocks (?d1 @ replicate 56 0 @ ?be) = [?d1, replicate 56 0 @ ?be]"
      using at(3) False blocks_one [of ?d1 "replicate 56 0 @ ?be"] blocks_one [of "replicate 56 0 @ ?be" "[]"]
      by (simp add: blocks_short)
    then have "blocks (sha_pad msg) = blocks a @ [?d1, replicate 56 0 @ ?be]"
      using blocks_append [OF at(2)] pad by simp
    then show ?thesis unfolding fin sha256_spec_def using at(6) by simp
  qed
qed

section \<open>Properties\<close>

text \<open>C14. The streaming implementation computes SHA-256 of the concatenation of what it was
  given, whatever the split into updates and whatever the buffer held before.\<close>

theorem sha256_stream_spec:
  assumes "length d = 64" "sha256_update (sha256_init d) m1 = Some c1" "sha256_update c1 m2 = Some c2"
  shows "sha256_final c2 = sha256_spec (m1 @ m2)"
  using final_spec ctx_inv_update [OF ctx_inv_update [OF ctx_inv_init [OF assms(1)] assms(2)] assms(3)] by simp

theorem sha256_stream_spec_witness:
  "\<exists>c1 c2. sha256_update (sha256_init (replicate 64 0)) [0x61] = Some c1 \<and>
     sha256_update c1 [0x62, 0x63] = Some c2 \<and> sha256_final c2 = sha256_spec [0x61, 0x62, 0x63]"
proof -
  let ?c0 = "sha256_init (replicate 64 0)"
  let ?c1 = "foldl update_byte ?c0 [0x61]"
  let ?c2 = "foldl update_byte ?c1 [0x62, 0x63]"
  have u: "sha256_update ?c0 [0x61] = Some ?c1" "sha256_update ?c1 [0x62, 0x63] = Some ?c2"
    by (simp_all add: sha256_update_def)
  then show ?thesis
    using sha256_stream_spec [OF _ u] by (intro exI [of _ ?c1] exI [of _ ?c2]) simp
qed

text \<open>The message schedule built by appending to an array is the recurrence of the standard.\<close>

theorem schedule_recurrence:
  assumes "t < 64"
  shows "schedule data ! t = (if t < 16 then load_word data t
    else SIG1 (schedule data ! (t - 2)) + schedule data ! (t - 7) + SIG0 (schedule data ! (t - 15)) + schedule data ! (t - 16))"
  using assms by (simp add: schedule_W W.simps [of data t])

theorem schedule_recurrence_witness:
  "schedule (replicate 64 0) ! 16 = SIG1 (schedule (replicate 64 0) ! 14) + schedule (replicate 64 0) ! 9
     + SIG0 (schedule (replicate 64 0) ! 1) + schedule (replicate 64 0) ! 0"
  using schedule_recurrence [of 16 "replicate 64 0"] by simp

end
