(* ===== verification/Checksum.thy ===== *)
theory Checksum
  imports Sha256 Pkg_Types
begin

text \<open>
  Checksums, \<^verbatim>\<open>libpkg/pkg_checksum.c\<close>: the table of checksum types, the base32 and hex
  encodings with the sizes of their buffers, the digest of a package over its sorted
  entries, the parsing of stored checksums, and the checksums of files. The BLAKE2 functions
  and the sort macro are not in the repository and are arguments; the file system is an
  argument too.
\<close>

section \<open>Types of checksums\<close>

datatype checksum_type = SHA256_BASE32 | SHA256_HEX | BLAKE2_BASE32 | SHA256_RAW | BLAKE2_RAW
  | BLAKE2S_BASE32 | BLAKE2S_RAW | UNKNOWN

text \<open>The enumeration in order, so that a number is an index.\<close>

definition checksum_type_enum :: "checksum_type list" where
  "checksum_type_enum = [SHA256_BASE32, SHA256_HEX, BLAKE2_BASE32, SHA256_RAW, BLAKE2_RAW,
     BLAKE2S_BASE32, BLAKE2S_RAW, UNKNOWN]"

fun type_number :: "checksum_type \<Rightarrow> nat" where
  "type_number SHA256_BASE32 = 0"
| "type_number SHA256_HEX = 1"
| "type_number BLAKE2_BASE32 = 2"
| "type_number SHA256_RAW = 3"
| "type_number BLAKE2_RAW = 4"
| "type_number BLAKE2S_BASE32 = 5"
| "type_number BLAKE2S_RAW = 6"
| "type_number UNKNOWN = 7"

datatype hash_function = Sha256_hash | Blake2b_hash | Blake2s_hash

datatype encoder = Base32 | Hex

record cksum_type =
  ct_name :: string
  ct_hlen :: nat
  ct_hash :: hash_function
  ct_encoder :: "encoder option"

text \<open>The rows of \<^verbatim>\<open>checksum_types\<close>; \<open>UNKNOWN\<close>, whose row is NULL pointers, has none.\<close>

fun checksum_types :: "checksum_type \<Rightarrow> cksum_type option" where
  "checksum_types SHA256_BASE32 = Some \<lparr>ct_name = ''sha256_base32'', ct_hlen = 65, ct_hash = Sha256_hash, ct_encoder = Some Base32\<rparr>"
| "checksum_types SHA256_HEX = Some \<lparr>ct_name = ''sha256_hex'', ct_hlen = 65, ct_hash = Sha256_hash, ct_encoder = Some Hex\<rparr>"
| "checksum_types BLAKE2_BASE32 = Some \<lparr>ct_name = ''blake2_base32'', ct_hlen = 112, ct_hash = Blake2b_hash, ct_encoder = Some Base32\<rparr>"
| "checksum_types SHA256_RAW = Some \<lparr>ct_name = ''sha256_raw'', ct_hlen = 32, ct_hash = Sha256_hash, ct_encoder = None\<rparr>"
| "checksum_types BLAKE2_RAW = Some \<lparr>ct_name = ''blake2_raw'', ct_hlen = 64, ct_hash = Blake2b_hash, ct_encoder = None\<rparr>"
| "checksum_types BLAKE2S_BASE32 = Some \<lparr>ct_name = ''blake2s_base32'', ct_hlen = 61, ct_hash = Blake2s_hash, ct_encoder = Some Base32\<rparr>"
| "checksum_types BLAKE2S_RAW = Some \<lparr>ct_name = ''blake2_raw'', ct_hlen = 32, ct_hash = Blake2s_hash, ct_encoder = None\<rparr>"
| "checksum_types UNKNOWN = None"

definition pkg_checksum_type_from_string :: "string \<Rightarrow> checksum_type" where
  "pkg_checksum_type_from_string name =
     (case find (\<lambda>t. case checksum_types t of None \<Rightarrow> False | Some ct \<Rightarrow> strcaseeq name (ct_name ct)) checksum_type_enum of
        Some t \<Rightarrow> t | None \<Rightarrow> UNKNOWN)"

definition pkg_checksum_type_to_string :: "checksum_type \<Rightarrow> string option" where
  "pkg_checksum_type_to_string t = map_option ct_name (checksum_types t)"

text \<open>The size of \<open>UNKNOWN\<close> is \<^verbatim>\<open>(size_t)-1\<close>.\<close>

definition pkg_checksum_type_size :: "checksum_type \<Rightarrow> int" where
  "pkg_checksum_type_size t = (case checksum_types t of Some ct \<Rightarrow> int (ct_hlen ct) | None \<Rightarrow> 2 ^ 64 - 1)"

section \<open>Encodings\<close>

definition b32 :: string where
  "b32 = ''ybndrfg8ejkmcpqxot1uwisza345h769''"

text \<open>
  The digits of \<open>pkg_checksum_encode_base32\<close>: \<open>i\<close> is the loop counter and \<open>remain\<close> the bits
  carried over, \<open>None\<close> for -1.
\<close>

fun b32_digits :: "nat \<Rightarrow> nat option \<Rightarrow> nat list \<Rightarrow> nat list" where
  "b32_digits i remain [] = (case remain of None \<Rightarrow> [] | Some r \<Rightarrow> [r])"
| "b32_digits i remain (b # bs) =
     (let r = (case remain of None \<Rightarrow> 0 | Some r \<Rightarrow> r) in
      if i mod 5 = 0 then
        [take_bit 5 b] @ b32_digits (Suc i) (Some (drop_bit 5 b)) bs
      else if i mod 5 = 1 then
        (let x = or r (push_bit 3 b)
         in [take_bit 5 x, take_bit 5 (drop_bit 5 x)] @ b32_digits (Suc i) (Some (drop_bit 10 x)) bs)
      else if i mod 5 = 2 then
        (let x = or r (push_bit 1 b)
         in [take_bit 5 x] @ b32_digits (Suc i) (Some (drop_bit 5 x)) bs)
      else if i mod 5 = 3 then
        (let x = or r (push_bit 4 b)
         in [take_bit 5 x, take_bit 5 (drop_bit 5 x)] @ b32_digits (Suc i) (Some (take_bit 2 (drop_bit 10 x))) bs)
      else
        (let x = or r (push_bit 2 b)
         in [take_bit 5 x, take_bit 5 (drop_bit 5 x)] @ b32_digits (Suc i) None bs))"

text \<open>
  What an encoder does to its output buffer of \<open>outlen\<close> bytes: nothing after reporting that
  the buffer is too small, a C string, or a write past the end of the buffer.
\<close>

datatype encoded = Unchanged | Encoded string | Out_of_bounds

definition store_string :: "nat \<Rightarrow> string \<Rightarrow> encoded" where
  "store_string outlen s = (if length s < outlen then Encoded s else Out_of_bounds)"

definition base32_text :: "byte list \<Rightarrow> string" where
  "base32_text bs = map ((!) b32) (b32_digits 0 None (map unat bs))"

definition pkg_checksum_encode_base32 :: "byte list \<Rightarrow> nat \<Rightarrow> encoded" where
  "pkg_checksum_encode_base32 bs outlen =
     (if outlen < length bs * 8 div 5 then Unchanged else store_string outlen (base32_text bs))"

definition hex_digit :: "nat \<Rightarrow> char" where
  "hex_digit n = ''0123456789abcdef'' ! n"

definition hex_text :: "byte list \<Rightarrow> string" where
  "hex_text bs = concat (map (\<lambda>b. [hex_digit (unat b div 16), hex_digit (unat b mod 16)]) bs)"

definition pkg_checksum_encode_hex :: "byte list \<Rightarrow> nat \<Rightarrow> encoded" where
  "pkg_checksum_encode_hex bs outlen =
     (if outlen < length bs * 2 then Unchanged else store_string outlen (hex_text bs))"

fun encode :: "encoder \<Rightarrow> byte list \<Rightarrow> nat \<Rightarrow> encoded" where
  "encode Base32 = pkg_checksum_encode_base32"
| "encode Hex = pkg_checksum_encode_hex"

section \<open>The digest of a package\<close>

record checksum_entry =
  ce_field :: string
  ce_value :: string

definition entry :: "string \<Rightarrow> string \<Rightarrow> checksum_entry" where
  "entry f v = \<lparr>ce_field = f, ce_value = v\<rparr>"

definition pkg_checksum_entry_cmp :: "checksum_entry \<Rightarrow> checksum_entry \<Rightarrow> int" where
  "pkg_checksum_entry_cmp e1 e2 =
     (let r = strcmp (ce_field e1) (ce_field e2)
      in if r \<noteq> 0 then r else strcmp (ce_value e1) (ce_value e2))"

definition checksum_entries :: "pkg \<Rightarrow> checksum_entry list" where
  "checksum_entries p =
     [entry ''name'' (pkg_name p), entry ''origin'' (pkg_origin p), entry ''version'' (pkg_version p),
      entry ''arch'' (pkg_arch p)] @
     map (\<lambda>x. entry (opt_key x) (opt_value x)) (pkg_options p) @
     map (entry ''required_shlib'') (pkg_shlibs_required p) @
     map (entry ''provided_shlib'') (pkg_shlibs_provided p) @
     map (entry ''user'') (pkg_users p) @
     map (entry ''group'') (pkg_groups p) @
     map (\<lambda>d. entry ''depend'' (dep_name d @ ''~'' @ dep_origin d)) (pkg_depends p) @
     map (entry ''provide'') (pkg_provides p) @
     map (entry ''require'') (pkg_requires p)"

definition byte_of :: "char \<Rightarrow> byte" where
  "byte_of c = of_char c"

definition bytes :: "string \<Rightarrow> byte list" where
  "bytes s = map byte_of s"

definition chars :: "byte list \<Rightarrow> string" where
  "chars bs = map (\<lambda>b. char_of (unat b)) bs"

text \<open>BLAKE2b and BLAKE2s of a whole message.\<close>

record blake2 =
  blake2b :: "byte list \<Rightarrow> byte list"
  blake2s :: "byte list \<Rightarrow> byte list"

text \<open>
  SHA-256 is streamed, two updates per entry or one per block of a file, into a context on
  the stack; \<open>None\<close> is an update that does not return.
\<close>

fun sha256_updates :: "sha256_ctx \<Rightarrow> byte list list \<Rightarrow> sha256_ctx option" where
  "sha256_updates ctx [] = Some ctx"
| "sha256_updates ctx (m # ms) = (case sha256_update ctx m of None \<Rightarrow> None | Some ctx' \<Rightarrow> sha256_updates ctx' ms)"

definition stack_ctx :: sha256_ctx where
  "stack_ctx = sha256_init (replicate 64 0)"

definition hash_parts :: "blake2 \<Rightarrow> hash_function \<Rightarrow> byte list list \<Rightarrow> byte list option" where
  "hash_parts h f ms =
     (case f of
        Sha256_hash \<Rightarrow> map_option sha256_final (sha256_updates stack_ctx ms)
      | Blake2b_hash \<Rightarrow> Some (blake2b h (concat ms))
      | Blake2s_hash \<Rightarrow> Some (blake2s h (concat ms)))"

definition entry_parts :: "checksum_entry list \<Rightarrow> byte list list" where
  "entry_parts es = concat (map (\<lambda>e. [bytes (ce_field e), bytes (ce_value e)]) es)"

type_synonym entry_sort = "(checksum_entry \<Rightarrow> checksum_entry \<Rightarrow> int) \<Rightarrow> checksum_entry list \<Rightarrow> checksum_entry list"

text \<open>\<^verbatim>\<open>"%d%c%d%c"\<close> with the current version 2 and the type, a single digit.\<close>

definition digit :: "nat \<Rightarrow> char" where
  "digit n = char_of (48 + n)"

definition digest_prefix :: "checksum_type \<Rightarrow> string" where
  "digest_prefix t = [digit 2, CHR ''$'', digit (type_number t), CHR ''$'']"

text \<open>
  \<open>pkg_checksum_generate\<close>: \<open>Inl\<close> an error code, \<open>Inr\<close> the contents of \<^verbatim>\<open>dest\<close>, or \<open>None\<close> for a
  run that does not return (an assertion, an overrun of \<^verbatim>\<open>dest\<close>, an update that loops).
\<close>

definition pkg_checksum_generate ::
  "blake2 \<Rightarrow> entry_sort \<Rightarrow> pkg option \<Rightarrow> int \<Rightarrow> checksum_type \<Rightarrow> (epkg + string) option" where
  "pkg_checksum_generate h srt pkg destlen t =
     (case (pkg, checksum_types t) of
        (Some p, Some ct) \<Rightarrow>
          if destlen < int (ct_hlen ct) then Some (Inl EPKG_FATAL)
          else (case hash_parts h (ct_hash ct) (entry_parts (srt pkg_checksum_entry_cmp (checksum_entries p))) of
                  None \<Rightarrow> None
                | Some bdigest \<Rightarrow>
                    if bdigest = [] then Some (Inl EPKG_FATAL)
                    else (case ct_encoder ct of
                        Some enc \<Rightarrow>
                          (let pre = digest_prefix t in
                           if int (length pre) < destlen then
                             (case encode enc bdigest (nat destlen - length pre) of
                                Unchanged \<Rightarrow> Some (Inr pre)
                              | Encoded s \<Rightarrow> Some (Inr (pre @ s))
                              | Out_of_bounds \<Rightarrow> None)
                           else None)
                      | None \<Rightarrow> if int (length bdigest) \<le> destlen then Some (Inr (chars bdigest)) else None))
      | _ \<Rightarrow> Some (Inl EPKG_FATAL))"

section \<open>Stored checksums\<close>

definition strtoul_uint :: "string \<Rightarrow> 32 word" where
  "strtoul_uint s = ucast (strtoul s)"

definition type_of_number :: "32 word \<Rightarrow> checksum_type" where
  "type_of_number v = (if v < 7 then checksum_type_enum ! unat v else UNKNOWN)"

definition pkg_checksum_is_valid :: "string \<Rightarrow> bool" where
  "pkg_checksum_is_valid cksum =
     (if length cksum < 4 then False
      else case strchr cksum CHR ''$'' of
          None \<Rightarrow> False
        | Some sep \<Rightarrow>
            if strtoul_uint cksum \<noteq> 2 then False
            else (case strchr (tl sep) CHR ''$'' of
                    None \<Rightarrow> False
                  | Some _ \<Rightarrow> strtoul_uint (tl sep) < 7))"

definition pkg_checksum_file_get_type :: "string \<Rightarrow> checksum_type" where
  "pkg_checksum_file_get_type cksum =
     (if strchr cksum CHR ''$'' = None then UNKNOWN else type_of_number (strtoul_uint cksum))"

definition pkg_checksum_get_type :: "string \<Rightarrow> checksum_type" where
  "pkg_checksum_get_type cksum =
     (case strchr cksum CHR ''$'' of None \<Rightarrow> UNKNOWN | Some sep \<Rightarrow> type_of_number (strtoul_uint (tl sep)))"

text \<open>
  \<open>pkg_checksum_calculate\<close> on a 64-bit machine, where the default type is BLAKE2b;
  \<open>repo_format\<close> is the digest format of a repository, \<open>None\<close> if \<open>pkg_repo_find\<close> knows no such
  repository. The new digest is stored in the package. For \<open>UNKNOWN\<close> the allocation of
  \<^verbatim>\<open>SIZE_MAX\<close> bytes aborts.
\<close>

definition digest_type :: "(string \<Rightarrow> checksum_type option) \<Rightarrow> pkg \<Rightarrow> checksum_type" where
  "digest_type repo_format p =
     (case pkg_reponame p of
        None \<Rightarrow> BLAKE2_BASE32
      | Some r \<Rightarrow> (case repo_format r of None \<Rightarrow> BLAKE2_BASE32 | Some t \<Rightarrow> t))"

definition pkg_checksum_calculate ::
  "blake2 \<Rightarrow> entry_sort \<Rightarrow> (string \<Rightarrow> checksum_type option) \<Rightarrow> pkg \<Rightarrow> (epkg \<times> pkg) option" where
  "pkg_checksum_calculate h srt repo_format p =
     (let t = digest_type repo_format p in
      if t = UNKNOWN then None
      else case pkg_checksum_generate h srt (Some p) (pkg_checksum_type_size t) t of
        None \<Rightarrow> None
      | Some (Inl _) \<Rightarrow> Some (EPKG_FATAL, p)
      | Some (Inr d) \<Rightarrow> Some (EPKG_OK, p\<lparr>pkg_digest := Some d\<rparr>))"

section \<open>Checksums of data and of files\<close>

text \<open>The encoded digest in a buffer of the size the table gives.\<close>

definition encode_digest :: "cksum_type \<Rightarrow> byte list \<Rightarrow> string option" where
  "encode_digest ct d =
     (case ct_encoder ct of
        None \<Rightarrow> Some (chars d)
      | Some enc \<Rightarrow> (case encode enc d (ct_hlen ct) of Encoded s \<Rightarrow> Some s | _ \<Rightarrow> None))"

text \<open>
  In the functions below the outer \<open>None\<close> is a run that does not return properly and the inner
  one the NULL pointer. \<open>pkg_checksum_data\<close> reads \<open>inlen\<close> bytes of a C string, of which the
  terminator is the last that may be read.
\<close>

definition pkg_checksum_data :: "blake2 \<Rightarrow> string option \<Rightarrow> nat \<Rightarrow> checksum_type \<Rightarrow> string option option" where
  "pkg_checksum_data h inp inlen t =
     (case (inp, checksum_types t) of
        (Some s, Some ct) \<Rightarrow>
          (let n = (if inlen = 0 then length s else inlen) in
           if n \<le> length s + 1 then
             (case hash_parts h (ct_hash ct) [take n (bytes s @ [0])] of
                None \<Rightarrow> None | Some d \<Rightarrow> map_option Some (encode_digest ct d))
           else None)
      | _ \<Rightarrow> Some None)"

text \<open>
  A file system: \<^verbatim>\<open>lstat\<close> answers an error number or whether the path is a symbolic link; an
  opened file answers the blocks its reads return and whether the last read failed; and
  \<^verbatim>\<open>readlink\<close> the target. \<^verbatim>\<open>size_t r = read (...)\<close> takes the -1 of a failed read for a length.
\<close>

record filesystem =
  fs_lstat :: "string \<Rightarrow> int + bool"
  fs_read :: "string \<Rightarrow> (byte list list \<times> bool) option"
  fs_readlink :: "string \<Rightarrow> string option"

definition pkg_checksum_fd :: "blake2 \<Rightarrow> byte list list \<times> bool \<Rightarrow> checksum_type \<Rightarrow> string option option" where
  "pkg_checksum_fd h fd t =
     (case checksum_types t of
        None \<Rightarrow> Some None
      | Some ct \<Rightarrow>
          if snd fd then None
          else (case hash_parts h (ct_hash ct) (fst fd) of
                  None \<Rightarrow> None | Some d \<Rightarrow> map_option Some (encode_digest ct d)))"

definition pkg_checksum_file :: "blake2 \<Rightarrow> filesystem \<Rightarrow> string \<Rightarrow> checksum_type \<Rightarrow> string option option" where
  "pkg_checksum_file h fs path t =
     (case fs_read fs path of None \<Rightarrow> Some None | Some fd \<Rightarrow> pkg_checksum_fd h fd t)"

definition MAXPATHLEN :: nat where
  "MAXPATHLEN = 1024"

definition relative_path :: "string \<Rightarrow> string" where
  "relative_path p = (if deref p = CHR ''/'' then tl p else p)"

text \<open>The leading slash is dropped but not counted off the length, so the terminator is hashed.\<close>

definition pkg_checksum_symlink_readlink :: "blake2 \<Rightarrow> string \<Rightarrow> checksum_type \<Rightarrow> string option option" where
  "pkg_checksum_symlink_readlink h link t = pkg_checksum_data h (Some (relative_path link)) (length link) t"

definition pkg_checksum_symlink :: "blake2 \<Rightarrow> filesystem \<Rightarrow> string \<Rightarrow> checksum_type \<Rightarrow> string option option" where
  "pkg_checksum_symlink h fs path t =
     (case fs_readlink fs path of
        None \<Rightarrow> Some None
      | Some link \<Rightarrow> pkg_checksum_symlink_readlink h (take (MAXPATHLEN - 1) link) t)"

definition checksum_of_path :: "blake2 \<Rightarrow> filesystem \<Rightarrow> bool \<Rightarrow> string \<Rightarrow> checksum_type \<Rightarrow> string option option" where
  "checksum_of_path h fs is_link path t =
     (if is_link then pkg_checksum_symlink h fs path t else pkg_checksum_file h fs path t)"

text \<open>
  A raw digest has no terminator: as a C string it ends at its first zero byte, and without one
  \<^verbatim>\<open>printf\<close> reads past its end, and so does \<^verbatim>\<open>strcmp\<close> when the other string starts with it.
\<close>

definition unterminated :: "checksum_type \<Rightarrow> string \<Rightarrow> bool" where
  "unterminated t s \<longleftrightarrow> NUL \<notin> set s \<and> (case checksum_types t of None \<Rightarrow> False | Some ct \<Rightarrow> ct_encoder ct = None)"

definition c_text :: "string \<Rightarrow> string" where
  "c_text s = takeWhile (\<lambda>c. c \<noteq> NUL) s"

definition pkg_checksum_validate_file :: "blake2 \<Rightarrow> filesystem \<Rightarrow> string \<Rightarrow> string \<Rightarrow> int option" where
  "pkg_checksum_validate_file h fs path cksum =
     (let t = pkg_checksum_file_get_type cksum;
          t' = (if t = UNKNOWN then SHA256_HEX else t);
          expected = (if t = UNKNOWN then cksum
                      else case strchr cksum CHR ''$'' of Some s \<Rightarrow> tl s | None \<Rightarrow> [])
      in case fs_lstat fs path of
           Inl errno \<Rightarrow> Some errno
         | Inr is_link \<Rightarrow>
             (case checksum_of_path h fs is_link path t' of
                None \<Rightarrow> None
              | Some None \<Rightarrow> Some (-1)
              | Some (Some newsum) \<Rightarrow>
                  if unterminated t' newsum \<and> take (length newsum) expected = newsum then None
                  else Some (if strcmp expected (c_text newsum) \<noteq> 0 then -1 else 0)))"

text \<open>\<^verbatim>\<open>xasprintf ("%d%c%s")\<close>.\<close>

definition pkg_checksum_generate_file :: "blake2 \<Rightarrow> filesystem \<Rightarrow> string \<Rightarrow> checksum_type \<Rightarrow> string option option" where
  "pkg_checksum_generate_file h fs path t =
     (case fs_lstat fs path of
        Inl _ \<Rightarrow> Some None
      | Inr is_link \<Rightarrow>
          (case checksum_of_path h fs is_link path t of
             None \<Rightarrow> None
           | Some None \<Rightarrow> Some None
           | Some (Some newsum) \<Rightarrow>
               if unterminated t newsum then None
               else Some (Some ([digit (type_number t), CHR ''$''] @ c_text newsum))))"

text \<open>The variants relative to an open directory see the file system from that directory.\<close>

definition pkg_checksum_fileat :: "blake2 \<Rightarrow> (int \<Rightarrow> filesystem) \<Rightarrow> int \<Rightarrow> string \<Rightarrow> checksum_type \<Rightarrow> string option option" where
  "pkg_checksum_fileat h at rootfd path t = pkg_checksum_file h (at rootfd) path t"

definition pkg_checksum_symlinkat :: "blake2 \<Rightarrow> (int \<Rightarrow> filesystem) \<Rightarrow> int \<Rightarrow> string \<Rightarrow> checksum_type \<Rightarrow> string option option" where
  "pkg_checksum_symlinkat h at rootfd path t = pkg_checksum_symlink h (at rootfd) path t"

definition pkg_checksum_validate_fileat :: "blake2 \<Rightarrow> (int \<Rightarrow> filesystem) \<Rightarrow> int \<Rightarrow> string \<Rightarrow> string \<Rightarrow> int option" where
  "pkg_checksum_validate_fileat h at rootfd path cksum = pkg_checksum_validate_file h (at rootfd) path cksum"

definition pkg_checksum_generate_fileat :: "blake2 \<Rightarrow> (int \<Rightarrow> filesystem) \<Rightarrow> int \<Rightarrow> string \<Rightarrow> checksum_type \<Rightarrow> string option option" where
  "pkg_checksum_generate_fileat h at rootfd path t = pkg_checksum_generate_file h (at rootfd) path t"

section \<open>The encodings are injective\<close>

lemma or_push: "r < 2 ^ n \<Longrightarrow> or r (push_bit n b) = r + push_bit n (b::nat)"
proof (subst disjunctive_add_eq_or)
  assume r: "r < 2 ^ n"
  have "\<not> bit r m" if "n \<le> m" for m
  proof -
    have "(2::nat) ^ n \<le> 2 ^ m" using that by (intro power_increasing) simp_all
    then have "r < 2 ^ m" using r by linarith
    then show ?thesis by (simp add: bit_iff_odd)
  qed
  then show "and r (push_bit n b) = 0"
    by (intro bit_eqI) (auto simp: bit_and_iff bit_push_bit_iff)
qed simp

fun le_val :: "nat \<Rightarrow> nat list \<Rightarrow> nat" where
  "le_val B [] = 0"
| "le_val B (d # ds) = d + B * le_val B ds"

definition carry_bits :: "nat \<Rightarrow> nat" where
  "carry_bits i = [0, 3, 1, 4, 2] ! (i mod 5)"

lemma mod_split: "(x::nat) mod 32 + 32 * (x div 32 mod 32 + 32 * (x div 1024 + z)) = x + 1024 * z"
  "(x::nat) mod 32 + 32 * (x div 32 + z) = x + 32 * z"
proof -
  have "x div 1024 = x div 32 div 32" by (simp add: div_mult2_eq [symmetric])
  then show "x mod 32 + 32 * (x div 32 mod 32 + 32 * (x div 1024 + z)) = x + 1024 * z"
    using mod_mult_div_eq [of x 32] mod_mult_div_eq [of "x div 32" 32] by (simp add: algebra_simps)
  show "x mod 32 + 32 * (x div 32 + z) = x + 32 * z"
    using mod_mult_div_eq [of x 32] by (simp add: algebra_simps)
qed

lemma b32_digits_value:
  assumes "r < 2 ^ carry_bits i" "\<forall>b \<in> set bs. b < 256"
  shows "le_val 32 (b32_digits i (if i mod 5 = 0 then None else Some r) bs) =
      (if i mod 5 = 0 then 0 else r) + 2 ^ carry_bits i * le_val 256 bs"
  using assms
proof (induction bs arbitrary: i r)
  case Nil
  then show ?case by simp
next
  case (Cons b bs)
  have b: "b < 256" "\<forall>b \<in> set bs. b < 256" using Cons.prems(2) by simp_all
  have "i mod 5 < 5" by simp
  then consider "i mod 5 = 0" | "i mod 5 = 1" | "i mod 5 = 2" | "i mod 5 = 3" | "i mod 5 = 4" by linarith
  then show ?case
  proof cases
    case 1
    then have s: "Suc i mod 5 = 1" by (simp add: mod_Suc)
    have "b div 32 < 2 ^ carry_bits (Suc i)" using b s by (simp add: carry_bits_def)
    from Cons.IH [OF this b(2)] show ?thesis
      using 1 s by (simp add: carry_bits_def take_bit_eq_mod drop_bit_eq_div mod_split Let_def)
  next
    case 2
    then have s: "Suc i mod 5 = 2" by (simp add: mod_Suc)
    have r: "r < 8" using Cons.prems(1) 2 by (simp add: carry_bits_def)
    then have x: "or r (push_bit 3 b) = r + 8 * b" using or_push [of r 3 b] by (simp add: push_bit_eq_mult)
    have "(r + 8 * b) div 1024 < 2 ^ carry_bits (Suc i)" using b r s by (simp add: carry_bits_def div_less_iff_less_mult)
    from Cons.IH [OF this b(2)] show ?thesis
      using 2 s x mod_split(1) [of "r + 8 * b" "2 * le_val 256 bs"]
      by (simp add: carry_bits_def take_bit_eq_mod drop_bit_eq_div Let_def)
  next
    case 3
    then have s: "Suc i mod 5 = 3" by (simp add: mod_Suc)
    have r: "r < 2" using Cons.prems(1) 3 by (simp add: carry_bits_def)
    then have x: "or r (push_bit 1 b) = r + 2 * b" using or_push [of r 1 b] by (simp add: push_bit_eq_mult)
    have "(r + 2 * b) div 32 < 2 ^ carry_bits (Suc i)" using b r s by (simp add: carry_bits_def div_less_iff_less_mult)
    from Cons.IH [OF this b(2)] show ?thesis
      using 3 s x mod_split(2) [of "r + 2 * b" "16 * le_val 256 bs"]
      by (simp add: carry_bits_def take_bit_eq_mod drop_bit_eq_div Let_def)
  next
    case 4
    then have s: "Suc i mod 5 = 4" by (simp add: mod_Suc)
    have r: "r < 16" using Cons.prems(1) 4 by (simp add: carry_bits_def)
    then have x: "or r (push_bit 4 b) = r + 16 * b" using or_push [of r 4 b] by (simp add: push_bit_eq_mult)
    have lt: "(r + 16 * b) div 1024 < 4" using b r by (simp add: div_less_iff_less_mult)
    then have "(r + 16 * b) div 1024 < 2 ^ carry_bits (Suc i)" using s by (simp add: carry_bits_def)
    from Cons.IH [OF this b(2)] show ?thesis
      using 4 s x lt mod_split(1) [of "r + 16 * b" "4 * le_val 256 bs"]
      by (simp add: carry_bits_def take_bit_eq_mod drop_bit_eq_div Let_def)
  next
    case 5
    then have s: "Suc i mod 5 = 0" by (simp add: mod_Suc)
    have r: "r < 4" using Cons.prems(1) 5 by (simp add: carry_bits_def)
    then have x: "or r (push_bit 2 b) = r + 4 * b" using or_push [of r 2 b] by (simp add: push_bit_eq_mult)
    have lt: "(r + 4 * b) div 1024 = 0" using b r by simp
    have "0 < (2::nat) ^ carry_bits (Suc i)" by simp
    from Cons.IH [OF this b(2)] show ?thesis
      using 5 s x lt mod_split(1) [of "r + 4 * b" "le_val 256 bs"]
      by (simp add: carry_bits_def take_bit_eq_mod drop_bit_eq_div Let_def)
  qed
qed

lemma le_val_inject:
  assumes "le_val B xs = le_val B ys" "length xs = length ys" "\<forall>x \<in> set xs. x < B" "\<forall>y \<in> set ys. y < B"
  shows "xs = ys"
  using assms
proof (induction xs arbitrary: ys)
  case (Cons x xs)
  then obtain y ys' where ys: "ys = y # ys'" by (cases ys) auto
  have lt: "x < B" "y < B" and eq: "x + B * le_val B xs = y + B * le_val B ys'" using Cons.prems ys by simp_all
  have "x = (x + B * le_val B xs) mod B" using lt by simp
  also have "\<dots> = y" using eq lt by simp
  finally have "x = y" .
  moreover have "le_val B xs = le_val B ys'" using eq \<open>x = y\<close> lt by simp
  ultimately show ?case using Cons ys by simp
qed simp

lemma b32_digits_shape:
  assumes "\<forall>b \<in> set bs. b < 256" "r < 2 ^ carry_bits i"
  shows "length (b32_digits i (if i mod 5 = 0 then None else Some r) bs) = (8 * length bs + carry_bits i + 4) div 5"
    and "\<forall>d \<in> set (b32_digits i (if i mod 5 = 0 then None else Some r) bs). d < 32"
proof -
  have "length (b32_digits i (if i mod 5 = 0 then None else Some r) bs) = (8 * length bs + carry_bits i + 4) div 5 \<and>
    (\<forall>d \<in> set (b32_digits i (if i mod 5 = 0 then None else Some r) bs). d < 32)"
    using assms
  proof (induction bs arbitrary: i r)
    case Nil
    have "i mod 5 < 5" by simp
    then consider "i mod 5 = 0" | "i mod 5 = 1" | "i mod 5 = 2" | "i mod 5 = 3" | "i mod 5 = 4" by linarith
    then show ?case using Nil by cases (simp_all add: carry_bits_def)
  next
    case (Cons b bs)
    have b: "b < 256" "\<forall>b \<in> set bs. b < 256" using Cons.prems(1) by simp_all
    note r = Cons.prems(2)
    have "i mod 5 < 5" by simp
    then consider "i mod 5 = 0" | "i mod 5 = 1" | "i mod 5 = 2" | "i mod 5 = 3" | "i mod 5 = 4" by linarith
    then show ?case
    proof cases
      case 1
      then have s: "Suc i mod 5 = 1" by (simp add: mod_Suc)
      have "b div 32 < 2 ^ carry_bits (Suc i)" using b s by (simp add: carry_bits_def)
      from Cons.IH [OF b(2) this] show ?thesis
        using 1 s by (simp add: carry_bits_def take_bit_eq_mod drop_bit_eq_div)
    next
      case 2
      then have s: "Suc i mod 5 = 2" by (simp add: mod_Suc)
      have r8: "r < 8" using r 2 by (simp add: carry_bits_def)
      then have x: "or r (push_bit 3 b) = r + 8 * b" using or_push [of r 3 b] by (simp add: push_bit_eq_mult)
      have "(r + 8 * b) div 1024 < 2 ^ carry_bits (Suc i)" using b r8 s by (simp add: carry_bits_def div_less_iff_less_mult)
      from Cons.IH [OF b(2) this] show ?thesis
        using 2 s x by (simp add: carry_bits_def take_bit_eq_mod drop_bit_eq_div Let_def)
    next
      case 3
      then have s: "Suc i mod 5 = 3" by (simp add: mod_Suc)
      have r2: "r < 2" using r 3 by (simp add: carry_bits_def)
      then have x: "or r (push_bit 1 b) = r + 2 * b" using or_push [of r 1 b] by (simp add: push_bit_eq_mult)
      have "(r + 2 * b) div 32 < 2 ^ carry_bits (Suc i)" using b r2 s by (simp add: carry_bits_def div_less_iff_less_mult)
      from Cons.IH [OF b(2) this] show ?thesis
        using 3 s x by (simp add: carry_bits_def take_bit_eq_mod drop_bit_eq_div Let_def)
    next
      case 4
      then have s: "Suc i mod 5 = 4" by (simp add: mod_Suc)
      have r16: "r < 16" using r 4 by (simp add: carry_bits_def)
      then have x: "or r (push_bit 4 b) = r + 16 * b" using or_push [of r 4 b] by (simp add: push_bit_eq_mult)
      have lt: "(r + 16 * b) div 1024 < 4" using b r16 by (simp add: div_less_iff_less_mult)
      then have "(r + 16 * b) div 1024 < 2 ^ carry_bits (Suc i)" using s by (simp add: carry_bits_def)
      from Cons.IH [OF b(2) this] show ?thesis
        using 4 s x lt by (simp add: carry_bits_def take_bit_eq_mod drop_bit_eq_div Let_def)
    next
      case 5
      then have s: "Suc i mod 5 = 0" by (simp add: mod_Suc)
      have r4: "r < 4" using r 5 by (simp add: carry_bits_def)
      then have x: "or r (push_bit 2 b) = r + 4 * b" using or_push [of r 2 b] by (simp add: push_bit_eq_mult)
      have "0 < (2::nat) ^ carry_bits (Suc i)" by simp
      from Cons.IH [OF b(2) this] show ?thesis
        using 5 s x by (simp add: carry_bits_def take_bit_eq_mod drop_bit_eq_div Let_def)
    qed
  qed
  then show "length (b32_digits i (if i mod 5 = 0 then None else Some r) bs) = (8 * length bs + carry_bits i + 4) div 5"
    "\<forall>d \<in> set (b32_digits i (if i mod 5 = 0 then None else Some r) bs). d < 32" by blast+
qed

lemma unat_bytes: "\<forall>b \<in> set (map unat (bs :: byte list)). b < 256"
proof -
  have "unat b < 256" for b :: byte using unsigned_less [of b] by simp
  then show ?thesis by simp
qed

lemma b32_start:
  fixes bs :: "byte list"
  shows "length (b32_digits 0 None (map unat bs)) = (8 * length bs + 4) div 5"
    "\<forall>d \<in> set (b32_digits 0 None (map unat bs)). d < 32"
    "le_val 32 (b32_digits 0 None (map unat bs)) = le_val 256 (map unat bs)"
  using b32_digits_shape [OF unat_bytes, of 0 0 bs] b32_digits_value [of 0 0, OF _ unat_bytes, of bs]
  by (simp_all add: carry_bits_def)

lemma base32_text_length: "length (base32_text bs) = (8 * length bs + 4) div 5"
  by (simp add: base32_text_def b32_start)

lemma distinct_b32: "distinct b32" "length b32 = 32"
  by (simp_all add: b32_def)

lemma base32_text_inject: "base32_text a = base32_text b \<longleftrightarrow> a = b"
proof
  assume eq: "base32_text a = base32_text b"
  then have "(8 * length a + 4) div 5 = (8 * length b + 4) div 5" by (metis base32_text_length)
  then have len: "length a = length b" by arith
  have "inj_on ((!) b32) {..<32}" using distinct_b32 by (simp add: inj_on_nth)
  then have "inj_on ((!) b32) (set (b32_digits 0 None (map unat a)) \<union> set (b32_digits 0 None (map unat b)))"
    by (rule inj_on_subset) (use b32_start(2) in auto)
  then have "b32_digits 0 None (map unat a) = b32_digits 0 None (map unat b)"
    using eq unfolding base32_text_def by (metis map_inj_on)
  then have "le_val 256 (map unat a) = le_val 256 (map unat b)" by (metis b32_start(3))
  then have "map unat a = map unat b"
    using len by (intro le_val_inject [OF _ _ unat_bytes unat_bytes]) simp_all
  then show "a = b" by (metis inj_map_eq_map inj_unsigned)
qed simp

lemma hex_text_length: "length (hex_text bs) = 2 * length bs"
  by (induction bs) (simp_all add: hex_text_def)

lemma hex_digit_inject: "m < 16 \<Longrightarrow> n < 16 \<Longrightarrow> hex_digit m = hex_digit n \<longleftrightarrow> m = n"
  unfolding hex_digit_def by (subst nth_eq_iff_index_eq) simp_all

lemma hex_text_inject: "hex_text a = hex_text b \<longleftrightarrow> a = b"
proof
  assume "hex_text a = hex_text b" then show "a = b"
  proof (induction a arbitrary: b)
    case Nil
    then show ?case by (cases b) (simp_all add: hex_text_def)
  next
    case (Cons x a)
    then obtain y b' where b: "b = y # b'" by (cases b) (simp_all add: hex_text_def)
    have lt: "unat z div 16 < 16" for z :: byte
      using unsigned_less [of z] by (simp add: div_less_iff_less_mult)
    have "unat x div 16 = unat y div 16" "unat x mod 16 = unat y mod 16"
      using Cons.prems b lt by (simp_all add: hex_text_def hex_digit_inject)
    then have "unat x = unat y" by (metis div_mult_mod_eq)
    then have "x = y" by (rule unsigned_word_eqI)
    then show ?case using Cons b by (simp add: hex_text_def)
  qed
qed simp

section \<open>Buffers\<close>

text \<open>The table's sizes hold every digest of the right length with its terminator.\<close>

fun hash_length :: "hash_function \<Rightarrow> nat" where
  "hash_length Sha256_hash = 32"
| "hash_length Blake2b_hash = 64"
| "hash_length Blake2s_hash = 32"

fun encoder_text :: "encoder \<Rightarrow> byte list \<Rightarrow> string" where
  "encoder_text Base32 = base32_text"
| "encoder_text Hex = hex_text"

lemma encoder_text_inject: "encoder_text e a = encoder_text e b \<longleftrightarrow> a = b"
  by (cases e) (simp_all add: base32_text_inject hex_text_inject)

lemma encode_digest_text:
  assumes "checksum_types t = Some ct" "ct_encoder ct = Some e" "length d = hash_length (ct_hash ct)"
  shows "encode_digest ct d = Some (encoder_text e d)"
  using assms
  by (cases t) (auto simp: encode_digest_def pkg_checksum_encode_base32_def pkg_checksum_encode_hex_def
      store_string_def base32_text_length hex_text_length)

text \<open>BLAKE2 answers as many bytes as it is asked for.\<close>

definition blake2_ok :: "blake2 \<Rightarrow> bool" where
  "blake2_ok h \<longleftrightarrow> (\<forall>m. length (blake2b h m) = 64) \<and> (\<forall>m. length (blake2s h m) = 32)"

lemma state_bytes_length: "length (state_bytes s) = 32"
  by (simp add: state_bytes_def word_bytes_def)

lemma sha256_final_length: "length (sha256_final c) = 32"
  by (simp add: sha256_final_def state_bytes_length split_beta Let_def)

lemma hash_parts_length:
  "blake2_ok h \<Longrightarrow> hash_parts h f ms = Some d \<Longrightarrow> length d = hash_length f"
  by (cases f) (auto simp: hash_parts_def blake2_ok_def sha256_final_length)

lemma sha256_updates_inv:
  "ctx_inv ctx m \<Longrightarrow> \<forall>x \<in> set ms. int (length x) < 2 ^ 32 \<Longrightarrow>
    \<exists>ctx'. sha256_updates ctx ms = Some ctx' \<and> ctx_inv ctx' (m @ concat ms)"
proof (induction ms arbitrary: ctx m)
  case (Cons x ms)
  then obtain c where c: "sha256_update ctx x = Some c" by (auto simp: sha256_update_def)
  from Cons.IH [OF ctx_inv_update [OF Cons.prems(1) c]] Cons.prems(2) show ?case by (simp add: c)
qed auto

text \<open>Hashing in parts is hashing the concatenation.\<close>

fun hash_message :: "blake2 \<Rightarrow> hash_function \<Rightarrow> byte list \<Rightarrow> byte list" where
  "hash_message h Sha256_hash m = sha256_spec m"
| "hash_message h Blake2b_hash m = blake2b h m"
| "hash_message h Blake2s_hash m = blake2s h m"

lemma hash_parts_message:
  assumes "\<forall>x \<in> set ms. int (length x) < 2 ^ 32"
  shows "hash_parts h f ms = Some (hash_message h f (concat ms))"
proof (cases f)
  case Sha256_hash
  have "ctx_inv stack_ctx []" by (simp add: stack_ctx_def ctx_inv_init)
  from sha256_updates_inv [OF this assms] show ?thesis
    using Sha256_hash by (auto simp: hash_parts_def final_spec)
qed (simp_all add: hash_parts_def)

section \<open>The sort order of the entries\<close>

interpretation entry_cmp: sort_callback pkg_checksum_entry_cmp
proof -
  have eq: "pkg_checksum_entry_cmp = (\<lambda>x y. lex_int (strcmp (ce_field x) (ce_field y)) (strcmp (ce_value x) (ce_value y)))"
    by (intro ext) (simp add: pkg_checksum_entry_cmp_def lex_int_def Let_def)
  have t: "three_way pkg_checksum_entry_cmp"
    unfolding eq by (rule three_way_lex; rule three_way_key [OF str_cmp.three_way_axioms])
  have "x = y" if "pkg_checksum_entry_cmp x y = 0" for x y
    using that by (auto simp: eq lex_int_def split: if_splits)
  then show "sort_callback pkg_checksum_entry_cmp"
    using t by (intro sort_callback.intro sort_callback_axioms.intro)
qed

section \<open>Stored checksums are read back\<close>

lemma strtoul_digit:
  assumes "n < 10"
  shows "strtoul_uint (digit n # CHR ''$'' # s) = of_nat n"
proof -
  have c: "code (digit n) = 48 + n" using assms by (simp add: digit_def code_def of_char_of)
  have d: "isdigit (digit n)" "\<not> isspace (digit n)" "\<not> isdigit (CHR ''$'')"
    using assms c by (simp_all add: ctype_defs) (simp_all add: code_def)
  have ne: "digit n \<noteq> CHR ''-''" "digit n \<noteq> CHR ''+''"
    using c by (auto simp: code_def)
  have "num_prefix (digit n # CHR ''$'' # s) = (False, [digit n], CHR ''$'' # s)"
    using d ne by (simp add: num_prefix_def)
  then have "strtoul (digit n # CHR ''$'' # s) = of_int (int n)"
    using c assms by (simp add: strtoul_def dec_val_def)
  then have "strtoul (digit n # CHR ''$'' # s) = of_nat n" by simp
  then show ?thesis
    using assms by (simp add: strtoul_uint_def unsigned_of_nat take_bit_nat_eq_self)
qed

lemma digit_not_dollar: "n < 10 \<Longrightarrow> digit n \<noteq> CHR ''$''"
proof -
  assume "n < 10"
  then have "code (digit n) \<noteq> code (CHR ''$'')" by (simp add: digit_def code_def of_char_of)
  then show ?thesis by auto
qed

lemma type_number_bound: "type_number t < 10" "t \<noteq> UNKNOWN \<Longrightarrow> type_number t < 7"
  by (cases t; simp)+

lemma type_of_type_number: "type_of_number (of_nat (type_number t)) = t"
  by (cases t) (simp_all add: type_of_number_def checksum_type_enum_def)

lemma file_get_type_digit: "pkg_checksum_file_get_type (digit (type_number t) # CHR ''$'' # s) = t"
  by (simp add: pkg_checksum_file_get_type_def strtoul_digit type_number_bound type_of_type_number)

lemma prefix_valid:
  assumes "t \<noteq> UNKNOWN"
  shows "pkg_checksum_is_valid (digest_prefix t @ s)" "pkg_checksum_get_type (digest_prefix t @ s) = t"
proof -
  note b = type_number_bound(1) [of t] type_number_bound(2) [OF assms]
  have "(of_nat (type_number t) :: 32 word) < 7" using assms by (cases t) simp_all
  then show "pkg_checksum_is_valid (digest_prefix t @ s)"
    using b by (simp add: pkg_checksum_is_valid_def digest_prefix_def digit_not_dollar strtoul_digit)
  show "pkg_checksum_get_type (digest_prefix t @ s) = t"
    using b by (simp add: pkg_checksum_get_type_def digest_prefix_def digit_not_dollar strtoul_digit type_of_type_number)
qed

section \<open>Digests of packages\<close>

definition entries_short :: "pkg \<Rightarrow> bool" where
  "entries_short p \<longleftrightarrow> (\<forall>e \<in> set (checksum_entries p). int (length (ce_field e)) < 2 ^ 32 \<and> int (length (ce_value e)) < 2 ^ 32)"

text \<open>The message that is hashed: fields and values of the sorted entries, without separators.\<close>

definition digest_message :: "entry_sort \<Rightarrow> pkg \<Rightarrow> byte list" where
  "digest_message srt p = concat (entry_parts (srt pkg_checksum_entry_cmp (checksum_entries p)))"

lemma hash_entries:
  assumes "sorts srt pkg_checksum_entry_cmp" "entries_short p"
  shows "hash_parts h f (entry_parts (srt pkg_checksum_entry_cmp (checksum_entries p))) = Some (hash_message h f (digest_message srt p))"
proof -
  have "set (srt pkg_checksum_entry_cmp (checksum_entries p)) = set (checksum_entries p)"
    using assms(1) unfolding sorts_def by (metis set_mset_mset)
  then have "\<forall>m \<in> set (entry_parts (srt pkg_checksum_entry_cmp (checksum_entries p))). int (length m) < 2 ^ 32"
    using assms(2) by (auto simp: entry_parts_def entries_short_def bytes_def)
  then show ?thesis by (simp add: hash_parts_message digest_message_def)
qed

lemma hash_message_length: "blake2_ok h \<Longrightarrow> length (hash_message h f m) = hash_length f"
  by (cases f) (simp_all add: blake2_ok_def sha256_spec_def state_bytes_length)

lemma digest_prefix_length [simp]: "length (digest_prefix t) = 4"
  by (simp add: digest_prefix_def)

lemma generate_base32:
  assumes "sorts srt pkg_checksum_entry_cmp" "entries_short p" "blake2_ok h"
    and "checksum_types t = Some ct" "ct_encoder ct = Some Base32"
  shows "pkg_checksum_generate h srt (Some p) (pkg_checksum_type_size t) t =
    Some (Inr (digest_prefix t @ base32_text (hash_message h (ct_hash ct) (digest_message srt p))))"
proof -
  let ?d = "hash_message h (ct_hash ct) (digest_message srt p)"
  have len: "length ?d = hash_length (ct_hash ct)" by (rule hash_message_length [OF assms(3)])
  then have "?d \<noteq> []" by (cases "ct_hash ct") auto
  moreover have "encode Base32 ?d (ct_hlen ct - 4) = Encoded (base32_text ?d)"
    using assms(4,5) len by (cases t) (auto simp: pkg_checksum_encode_base32_def store_string_def base32_text_length)
  moreover have "4 < ct_hlen ct" using assms(4) by (cases t) auto
  ultimately show ?thesis
    using assms(4,5) hash_entries [OF assms(1,2)]
    by (simp add: pkg_checksum_generate_def pkg_checksum_type_size_def Let_def)
qed

lemma generate_hex:
  assumes "sorts srt pkg_checksum_entry_cmp" "entries_short p" "blake2_ok h"
  shows "pkg_checksum_generate h srt (Some p) (pkg_checksum_type_size SHA256_HEX) SHA256_HEX = Some (Inr ''2$1$'')"
proof -
  let ?d = "hash_message h Sha256_hash (digest_message srt p)"
  have len: "length ?d = 32" using hash_message_length [OF assms(3), of Sha256_hash] by simp
  then have "?d \<noteq> []" by auto
  moreover have "encode Hex ?d 61 = Unchanged" using len by (simp add: pkg_checksum_encode_hex_def)
  moreover have "digest_prefix SHA256_HEX = ''2$1$''" by code_simp
  ultimately show ?thesis
    using hash_entries [OF assms(1,2)]
    by (simp add: pkg_checksum_generate_def pkg_checksum_type_size_def Let_def)
qed

section \<open>Checksums of files\<close>

lemma base32_text_set: "set (base32_text d) \<subseteq> set b32"
proof -
  have "b32 ! n \<in> set b32" if "n < 32" for n using that distinct_b32(2) by simp
  then show ?thesis using b32_start(2) [of d] by (auto simp: base32_text_def)
qed

lemma hex_text_set: "set (hex_text d) \<subseteq> set ''0123456789abcdef''"
proof -
  have "hex_digit n \<in> set ''0123456789abcdef''" if "n < 16" for n
    using that unfolding hex_digit_def by (intro nth_mem) simp
  moreover have "\<exists>n < 16. x = hex_digit n" if "x \<in> set (hex_text d)" for x
  proof -
    have lt: "unat z div 16 < 16" for z :: byte
      using unsigned_less [of z] by (simp add: div_less_iff_less_mult)
    then show ?thesis
      using that mod_less_divisor [of 16] unfolding hex_text_def by (auto; metis zero_less_numeral)
  qed
  ultimately show ?thesis by blast
qed

lemma encoder_text_no_NUL: "NUL \<notin> set (encoder_text e d)"
  using base32_text_set [of d] hex_text_set [of d]
  by (cases e) (auto simp: b32_def NUL_def)

lemma c_text_encoder [simp]: "c_text (encoder_text e d) = encoder_text e d"
  using encoder_text_no_NUL [of e d] by (auto simp: c_text_def intro: takeWhile_eq_all_conv [THEN iffD2])

text \<open>A regular file whose reads succeed, in blocks of the size of the buffer.\<close>

definition reads_file :: "filesystem \<Rightarrow> string \<Rightarrow> byte list list \<Rightarrow> bool" where
  "reads_file fs path ms \<longleftrightarrow> fs_lstat fs path = Inr False \<and> fs_read fs path = Some (ms, False) \<and>
     (\<forall>m \<in> set ms. length m \<le> 8192)"

lemma path_digest:
  assumes "reads_file fs path ms" "blake2_ok h" "checksum_types t = Some ct" "ct_encoder ct = Some e"
  shows "checksum_of_path h fs False path t = Some (Some (encoder_text e (hash_message h (ct_hash ct) (concat ms))))"
proof -
  have short: "\<forall>m \<in> set ms. int (length m) < 2 ^ 32" using assms(1) by (auto simp: reads_file_def)
  show ?thesis
    using assms encode_digest_text [OF assms(3,4) hash_message_length [OF assms(2)]] hash_parts_message [OF short]
    by (simp add: checksum_of_path_def pkg_checksum_file_def pkg_checksum_fd_def reads_file_def)
qed

section \<open>Properties\<close>

text \<open>C20. A checksum written for a file is accepted for a file with the same contents, and
  rejected for any contents whose digest differs, whatever the blocks the two reads returned.\<close>

theorem file_checksum_detects:
  assumes "blake2_ok h" "checksum_types t = Some ct" "ct_encoder ct = Some e"
    and "reads_file fs path ms" "reads_file fs' path ms'"
  shows "\<exists>c. pkg_checksum_generate_file h fs path t = Some (Some c) \<and>
    pkg_checksum_validate_file h fs' path c =
      Some (if hash_message h (ct_hash ct) (concat ms) = hash_message h (ct_hash ct) (concat ms') then 0 else -1)"
proof -
  let ?x = "encoder_text e (hash_message h (ct_hash ct) (concat ms))"
  let ?y = "encoder_text e (hash_message h (ct_hash ct) (concat ms'))"
  let ?c = "digit (type_number t) # CHR ''$'' # ?x"
  have t: "t \<noteq> UNKNOWN" using assms(2) by auto
  have u: "\<not> unterminated t s" for s using assms(2,3) by (simp add: unterminated_def)
  have "pkg_checksum_generate_file h fs path t = Some (Some ?c)"
    using assms(4) path_digest [OF assms(4,1-3)] u by (simp add: pkg_checksum_generate_file_def reads_file_def)
  moreover have "pkg_checksum_validate_file h fs' path ?c = Some (if ?x = ?y then 0 else -1)"
    using assms(5) path_digest [OF assms(5,1-3)] u t digit_not_dollar [OF type_number_bound(1) [of t]]
    by (simp add: pkg_checksum_validate_file_def reads_file_def file_get_type_digit Let_def)
  ultimately show ?thesis by (simp add: encoder_text_inject)
qed

definition sample_blake2 :: blake2 where
  "sample_blake2 = \<lparr>blake2b = (\<lambda>m. replicate 64 (of_nat (length m))), blake2s = (\<lambda>m. replicate 32 (of_nat (length m)))\<rparr>"

definition sample_file :: "byte list list \<Rightarrow> filesystem" where
  "sample_file ms = \<lparr>fs_lstat = (\<lambda>_. Inr False), fs_read = (\<lambda>_. Some (ms, False)), fs_readlink = (\<lambda>_. None)\<rparr>"

lemma sample_blake2_ok: "blake2_ok sample_blake2"
  by (simp add: blake2_ok_def sample_blake2_def)

theorem file_checksum_detects_witness:
  "\<exists>c. pkg_checksum_generate_file sample_blake2 (sample_file [[1, 2], [3]]) ''f'' BLAKE2_BASE32 = Some (Some c) \<and>
    pkg_checksum_validate_file sample_blake2 (sample_file [[1, 2, 3, 4]]) ''f'' c = Some (-1)"
proof -
  obtain ct where ct: "checksum_types BLAKE2_BASE32 = Some ct" "ct_encoder ct = Some Base32" "ct_hash ct = Blake2b_hash"
    by simp
  have r: "reads_file (sample_file ms) ''f'' ms" if "\<forall>m \<in> set ms. length m \<le> 8192" for ms
    using that by (simp add: reads_file_def sample_file_def)
  have "replicate 64 (3 :: byte) \<noteq> replicate 64 4" by simp
  then show ?thesis
    using file_checksum_detects [OF sample_blake2_ok ct(1,2) r [of "[[1, 2], [3]]"] r [of "[[1, 2, 3, 4]]"]] ct(3)
    by (simp add: sample_blake2_def)
qed

text \<open>The digest of a package in a base32 format: it is the prefix with version and type and
  the encoding of the hash of the sorted entries, it fits its buffer, is valid, names its type,
  and two packages have the same digest exactly when their hashes agree.\<close>

theorem package_digest_base32:
  assumes "sorts srt pkg_checksum_entry_cmp" "blake2_ok h" "entries_short p" "entries_short q"
    and "checksum_types t = Some ct" "ct_encoder ct = Some Base32"
  shows "\<exists>d e. pkg_checksum_generate h srt (Some p) (pkg_checksum_type_size t) t = Some (Inr d) \<and>
    pkg_checksum_generate h srt (Some q) (pkg_checksum_type_size t) t = Some (Inr e) \<and>
    pkg_checksum_is_valid d \<and> pkg_checksum_get_type d = t \<and>
    (d = e \<longleftrightarrow> hash_message h (ct_hash ct) (digest_message srt p) = hash_message h (ct_hash ct) (digest_message srt q))"
proof -
  have t: "t \<noteq> UNKNOWN" using assms(5) by auto
  show ?thesis
    using generate_base32 [OF assms(1,3,2,5,6)] generate_base32 [OF assms(1,4,2,5,6)] prefix_valid [OF t]
    by (simp add: base32_text_inject)
qed

definition sample_pkg :: "pkg_option list \<Rightarrow> pkg" where
  "sample_pkg os = blank_pkg\<lparr>pkg_name := ''zsh'', pkg_origin := ''shells/zsh'', pkg_version := ''5.8'',
     pkg_arch := ''FreeBSD:13:amd64'', pkg_options := os\<rparr>"

lemma sample_pkg_short:
  "\<forall>x \<in> set os. length (opt_key x) < 100 \<and> length (opt_value x) < 100 \<Longrightarrow> entries_short (sample_pkg os)"
  by (auto simp: entries_short_def checksum_entries_def sample_pkg_def blank_pkg_def entry_def)

theorem package_digest_base32_witness:
  "\<exists>d e. pkg_checksum_generate sample_blake2 insertion_sort (Some (sample_pkg [])) 112 BLAKE2_BASE32 = Some (Inr d) \<and>
    pkg_checksum_generate sample_blake2 insertion_sort (Some (sample_pkg [\<lparr>opt_key = ''NLS'', opt_value = ''on''\<rparr>])) 112 BLAKE2_BASE32 = Some (Inr e) \<and>
    pkg_checksum_is_valid d"
proof -
  obtain ct where ct: "checksum_types BLAKE2_BASE32 = Some ct" "ct_encoder ct = Some Base32" by simp
  have n: "pkg_checksum_type_size BLAKE2_BASE32 = 112" by (simp add: pkg_checksum_type_size_def)
  have "entries_short (sample_pkg [])" "entries_short (sample_pkg [\<lparr>opt_key = ''NLS'', opt_value = ''on''\<rparr>])"
    by (rule sample_pkg_short; simp)+
  from package_digest_base32 [OF entry_cmp.insertion_sort_sorts sample_blake2_ok this ct] show ?thesis
    unfolding n by blast
qed

text \<open>The digest does not depend on the order in which options, libraries, users, groups,
  dependencies, provides and requires are listed: packages with the same entries, counted with
  multiplicity, get the same result for every type and every buffer.\<close>

theorem digest_order_independent:
  assumes "sorts srt pkg_checksum_entry_cmp" "mset (checksum_entries p) = mset (checksum_entries q)"
  shows "pkg_checksum_generate h srt (Some p) n t = pkg_checksum_generate h srt (Some q) n t"
  by (simp add: pkg_checksum_generate_def entry_cmp.sort_determined [OF assms] split: option.split)

theorem digest_order_independent_witness:
  "\<forall>h n t.
     pkg_checksum_generate h insertion_sort (Some (sample_pkg [\<lparr>opt_key = ''NLS'', opt_value = ''on''\<rparr>, \<lparr>opt_key = ''DOCS'', opt_value = ''off''\<rparr>])) n t =
     pkg_checksum_generate h insertion_sort (Some (sample_pkg [\<lparr>opt_key = ''DOCS'', opt_value = ''off''\<rparr>, \<lparr>opt_key = ''NLS'', opt_value = ''on''\<rparr>])) n t"
  by (intro allI digest_order_independent [OF entry_cmp.insertion_sort_sorts])
    (simp add: checksum_entries_def sample_pkg_def blank_pkg_def)

text \<open>In the format \<open>sha256_hex\<close> the digest of every package is the bare prefix: the table's
  65 bytes hold the 64 hex digits, but not after the four characters of the prefix, so the
  encoder gives up, the error is dropped and success is returned.\<close>

theorem sha256_hex_digest_empty:
  assumes "sorts srt pkg_checksum_entry_cmp" "blake2_ok h" "entries_short p"
  shows "pkg_checksum_generate h srt (Some p) (pkg_checksum_type_size SHA256_HEX) SHA256_HEX = Some (Inr ''2$1$'')"
  by (rule generate_hex [OF assms(1,3,2)])

theorem sha256_hex_digest_empty_witness:
  "pkg_checksum_generate sample_blake2 insertion_sort (Some (sample_pkg [])) 65 SHA256_HEX = Some (Inr ''2$1$'')"
proof -
  have n: "pkg_checksum_type_size SHA256_HEX = 65" by (simp add: pkg_checksum_type_size_def)
  have "entries_short (sample_pkg [])" by (rule sample_pkg_short) simp
  from sha256_hex_digest_empty [OF entry_cmp.insertion_sort_sorts sample_blake2_ok this] show ?thesis
    unfolding n .
qed

text \<open>The base32 encoding writes the number whose little-endian bytes it is given with the
  fewest base32 digits that hold that many bytes, and no two byte strings share an encoding.\<close>

theorem base32_injective_length:
  "length (base32_text a) = (8 * length a + 4) div 5 \<and> (base32_text a = base32_text b \<longleftrightarrow> a = b)"
  by (simp add: base32_text_length base32_text_inject)

text \<open>The name of a checksum type is read back as the type, except that the name in the row of
  \<open>BLAKE2S_RAW\<close> is that of \<open>BLAKE2_RAW\<close>.\<close>

theorem type_name_roundtrip:
  "pkg_checksum_type_to_string t = Some s \<Longrightarrow>
    pkg_checksum_type_from_string s = (if t = BLAKE2S_RAW then BLAKE2_RAW else t)"
proof -
  have "pkg_checksum_type_from_string ''sha256_base32'' = SHA256_BASE32 \<and>
    pkg_checksum_type_from_string ''sha256_hex'' = SHA256_HEX \<and>
    pkg_checksum_type_from_string ''blake2_base32'' = BLAKE2_BASE32 \<and>
    pkg_checksum_type_from_string ''sha256_raw'' = SHA256_RAW \<and>
    pkg_checksum_type_from_string ''blake2_raw'' = BLAKE2_RAW \<and>
    pkg_checksum_type_from_string ''blake2s_base32'' = BLAKE2S_BASE32"
    by code_simp
  then show "pkg_checksum_type_to_string t = Some s \<Longrightarrow>
    pkg_checksum_type_from_string s = (if t = BLAKE2S_RAW then BLAKE2_RAW else t)"
    by (cases t) (auto simp: pkg_checksum_type_to_string_def)
qed

theorem type_name_roundtrip_witness:
  "pkg_checksum_type_from_string ''sha256_raw'' = SHA256_RAW"
  using type_name_roundtrip [of SHA256_RAW "''sha256_raw''"] by (simp add: pkg_checksum_type_to_string_def)

end
