(* ===== verification/Universe.thy ===== *)
theory Universe
  imports Upgrade Checksum
begin

text \<open>
  The universe of a job, \<^verbatim>\<open>libpkg/pkg_jobs_universe.c\<close>: the packages a request may involve,
  collected from the local database and the repositories by following dependencies, reverse
  dependencies, required libraries and required features.

  Items are numbered in the order of their allocation. The hash table \<open>items\<close>, which maps a
  uid to the head of a chain of items, is an association list from uids to the numbers in
  the chain, in insertion order; \<open>seen\<close> maps a digest to the first item with it. A run that
  does not return, by an assertion, a null pointer or for want of fuel, is \<open>None\<close>.
\<close>

section \<open>State\<close>

record universe_item =
  ui_pkg :: pkg
  ui_priority :: int
  ui_processed :: bool

record job_provide =
  pr_un :: "nat option"
  pr_is_shlib :: bool

record universe =
  u_items :: "universe_item list"
  u_chains :: "(string \<times> nat list) list"
  u_seen :: "(string \<times> nat) list"
  u_provides :: "(string \<times> job_provide list) list"
  u_replaces :: "(string \<times> string) list"
  u_nitems :: nat

definition pkg_jobs_universe_new :: universe where
  "pkg_jobs_universe_new = \<lparr>u_items = [], u_chains = [], u_seen = [], u_provides = [], u_replaces = [], u_nitems = 0\<rparr>"

text \<open>
  What the universe asks of the job and of the databases: the type and flags of the job, the
  packages that the queries return, whether \<open>pkgdb_ensure_loaded\<close> succeeds on a package, and
  what a checksum needs. The iterators hand out fully loaded packages, a new one each time.
\<close>

record job_env =
  je_type :: pkg_jobs_type
  je_recursive :: bool
  je_force_missing :: bool
  je_force :: bool
  je_local :: "string \<Rightarrow> pkg option"
  je_remote :: "string \<Rightarrow> pkg list"
  je_shlib_local :: "string \<Rightarrow> pkg list"
  je_shlib_remote :: "string \<Rightarrow> pkg list"
  je_provide_local :: "string \<Rightarrow> pkg list"
  je_provide_remote :: "string \<Rightarrow> pkg list"
  je_loads :: "pkg \<Rightarrow> bool"
  je_blake2 :: blake2
  je_sort :: entry_sort
  je_repo_format :: "string \<Rightarrow> checksum_type option"

definition item_pkg :: "universe \<Rightarrow> nat \<Rightarrow> pkg" where
  "item_pkg u i = ui_pkg (u_items u ! i)"

definition pkg_jobs_universe_find :: "universe \<Rightarrow> string \<Rightarrow> nat list option" where
  "pkg_jobs_universe_find u uid = map_of (u_chains u) uid"

fun chain_append :: "string \<Rightarrow> nat \<Rightarrow> (string \<times> nat list) list \<Rightarrow> (string \<times> nat list) list" where
  "chain_append uid i [] = [(uid, [i])]"
| "chain_append uid i ((v, c) # cs) = (if v = uid then (v, c @ [i]) # cs else (v, c) # chain_append uid i cs)"

section \<open>Adding a package\<close>

definition checksum_calculate :: "job_env \<Rightarrow> pkg \<Rightarrow> (epkg \<times> pkg) option" where
  "checksum_calculate env p = pkg_checksum_calculate (je_blake2 env) (je_sort env) (je_repo_format env) p"

text \<open>
  \<open>pkg_validate\<close> of \<^verbatim>\<open>libpkg/pkg.c\<close>. \<^verbatim>\<open>pkgdb_ensure_loaded\<close> answers \<^verbatim>\<open>EPKG_OK\<close>, which is 0, on
  success, and its answer is used as a truth value.
\<close>

definition pkg_validate :: "job_env \<Rightarrow> pkg \<Rightarrow> (epkg \<times> pkg) option" where
  "pkg_validate env p =
     (if (case pkg_digest p of None \<Rightarrow> True | Some d \<Rightarrow> \<not> pkg_checksum_is_valid d)
      then if \<not> je_loads env p then checksum_calculate env p else Some (EPKG_FATAL, p)
      else Some (EPKG_OK, p))"

text \<open>
  The search through the chain from the item that \<open>seen\<close> gives: whether an item stands for the
  same package. \<^verbatim>\<open>strcmp\<close> fails on a package without a repository name.
\<close>

fun same_package :: "pkg list \<Rightarrow> pkg \<Rightarrow> bool option" where
  "same_package [] p = Some False"
| "same_package (t # ts) p =
     (if pkg_kind t = pkg_kind p \<and> pkg_digest t = pkg_digest p then
        (case pkg_reponame t of
           None \<Rightarrow> Some True
         | Some r \<Rightarrow> (case pkg_reponame p of None \<Rightarrow> None
                      | Some r' \<Rightarrow> if r = r' then Some True else same_package ts p))
      else same_package ts p)"

definition chain_from :: "universe \<Rightarrow> nat \<Rightarrow> nat list" where
  "chain_from u i =
     (case find (\<lambda>(_, c). i \<in> set c) (u_chains u) of None \<Rightarrow> [i] | Some (_, c) \<Rightarrow> dropWhile (\<lambda>j. j \<noteq> i) c)"

definition new_item :: "pkg \<Rightarrow> universe_item" where
  "new_item p = \<lparr>ui_pkg = p, ui_priority = 0, ui_processed = False\<rparr>"

definition add_item :: "universe \<Rightarrow> pkg \<Rightarrow> string \<Rightarrow> universe" where
  "add_item u p d =
     u\<lparr>u_items := u_items u @ [new_item p],
       u_chains := chain_append (pkg_uid p) (length (u_items u)) (u_chains u),
       u_seen := (if map_of (u_seen u) d = None then u_seen u @ [(d, length (u_items u))] else u_seen u),
       u_nitems := u_nitems u + 1\<rparr>"

text \<open>\<open>pkg_jobs_universe_add_pkg\<close>: the code, the item found, the package with its digest, the universe.\<close>

definition pkg_jobs_universe_add_pkg ::
  "job_env \<Rightarrow> universe \<Rightarrow> pkg \<Rightarrow> (epkg \<times> nat option \<times> pkg \<times> universe) option" where
  "pkg_jobs_universe_add_pkg env u p0 =
     (case pkg_validate env p0 of
        None \<Rightarrow> None
      | Some (_, p1) \<Rightarrow>
          (case (if pkg_digest p1 = None then checksum_calculate env p1 else Some (EPKG_OK, p1)) of
             None \<Rightarrow> None
           | Some (rc, p) \<Rightarrow>
               if rc \<noteq> EPKG_OK then Some (EPKG_FATAL, None, p, u)
               else (case pkg_digest p of
                  None \<Rightarrow> None
                | Some d \<Rightarrow>
                    (let seen = map_of (u_seen u) d in
                     case (case seen of None \<Rightarrow> Some False
                           | Some s \<Rightarrow> same_package (map (item_pkg u) (chain_from u s)) p) of
                       None \<Rightarrow> None
                     | Some True \<Rightarrow> Some (EPKG_END, seen, p, u)
                     | Some False \<Rightarrow>
                         if pkg_locked p then Some (EPKG_LOCKED, None, p, u)
                         else Some (EPKG_OK, Some (length (u_items u)), p, add_item u p d)))))"

section \<open>Following dependencies\<close>

record deps_flags =
  df_reverse :: bool
  df_mirror :: bool
  df_force_local :: bool
  df_force_missing :: bool

definition no_flags :: deps_flags where
  "no_flags = \<lparr>df_reverse = False, df_mirror = False, df_force_local = False, df_force_missing = False\<rparr>"

text \<open>
  The local package of a uid: the head of its chain when the chain has an installed package,
  and else the answer of the database.
\<close>

definition pkg_jobs_universe_get_local :: "job_env \<Rightarrow> universe \<Rightarrow> string \<Rightarrow> pkg option" where
  "pkg_jobs_universe_get_local env u uid =
     (case pkg_jobs_universe_find u uid of
        Some c \<Rightarrow> if \<exists>i \<in> set c. installed (item_pkg u i) then Some (item_pkg u (hd c)) else je_local env uid
      | None \<Rightarrow> je_local env uid)"

text \<open>The remote packages of a uid, each prepended to the result; an empty answer is NULL.\<close>

definition pkg_jobs_universe_get_remote :: "job_env \<Rightarrow> universe \<Rightarrow> string \<Rightarrow> pkg list option" where
  "pkg_jobs_universe_get_remote env u uid =
     (case pkg_jobs_universe_find u uid of
        Some c \<Rightarrow> if \<not> installed (item_pkg u (hd c)) then None
                  else (case rev (je_remote env uid) of [] \<Rightarrow> None | rs \<Rightarrow> Some rs)
      | None \<Rightarrow> (case rev (je_remote env uid) of [] \<Rightarrow> None | rs \<Rightarrow> Some rs))"

text \<open>
  The functions that call \<open>pkg_jobs_universe_process_item\<close> take it as their argument \<open>rec\<close>; it
  answers the code, the item, the package and the universe.
\<close>

type_synonym process = "universe \<Rightarrow> pkg \<Rightarrow> (epkg \<times> nat option \<times> pkg \<times> universe) option"

text \<open>The remote candidates of one dependency; \<open>Some rc\<close> is an early return of the caller.\<close>

fun process_remotes :: "process \<Rightarrow> pkg option \<Rightarrow> pkg list \<Rightarrow> universe \<Rightarrow> (epkg option \<times> universe) option" where
  "process_remotes rec npkg [] u = Some (None, u)"
| "process_remotes rec npkg (r # rs) u =
     (case npkg of
        Some n \<Rightarrow>
          (case pkg_jobs_need_upgrade r (Some n) of
             (False, _) \<Rightarrow> process_remotes rec npkg rs u
           | (True, r') \<Rightarrow>
               (case rec u (r'\<lparr>pkg_automatic := pkg_automatic n\<rparr>) of
                  None \<Rightarrow> None
                | Some (_, _, _, u') \<Rightarrow> process_remotes rec npkg rs u'))
      | None \<Rightarrow>
          (case rec u r of
             None \<Rightarrow> None
           | Some (rc, _, _, u') \<Rightarrow> if rc \<noteq> EPKG_OK then Some (Some rc, u') else process_remotes rec npkg rs u'))"

definition same_repo :: "pkg \<Rightarrow> pkg \<Rightarrow> bool" where
  "same_repo p r \<longleftrightarrow> (case (pkg_reponame p, pkg_reponame r) of (Some a, Some b) \<Rightarrow> a = b | _ \<Rightarrow> False)"

definition dep_candidates :: "pkg \<Rightarrow> pkg list \<Rightarrow> pkg list" where
  "dep_candidates p rs = (case find (same_repo p) rs of Some r \<Rightarrow> [r] | None \<Rightarrow> rs)"

text \<open>One dependency; again \<open>Some rc\<close> is an early return.\<close>

definition process_dep ::
  "process \<Rightarrow> job_env \<Rightarrow> deps_flags \<Rightarrow> pkg \<Rightarrow> universe \<Rightarrow> pkg_dep \<Rightarrow> (epkg option \<times> universe) option" where
  "process_dep rec env flags p u d =
     (if pkg_jobs_universe_find u (dep_uid d) \<noteq> None then Some (None, u)
      else
        (let npkg = (if df_mirror flags then None else pkg_jobs_universe_get_local env u (dep_uid d));
             rpkgs = (if df_force_local flags then None else pkg_jobs_universe_get_remote env u (dep_uid d))
         in if npkg = None \<and> rpkgs = None
            then Some (if df_force_missing flags then None else Some EPKG_FATAL, u)
            else (case npkg of
                None \<Rightarrow> (case rpkgs of None \<Rightarrow> Some (None, u)
                          | Some rs \<Rightarrow> process_remotes rec None (dep_candidates p rs) u)
              | Some n \<Rightarrow>
                  (case rec u n of
                     None \<Rightarrow> None
                   | Some (rc, _, n', u') \<Rightarrow>
                       if rc \<noteq> EPKG_OK then Some (None, u')
                       else (case rpkgs of None \<Rightarrow> Some (None, u')
                             | Some rs \<Rightarrow> process_remotes rec (Some n') (dep_candidates p rs) u')))))"

fun process_dep_list ::
  "process \<Rightarrow> job_env \<Rightarrow> deps_flags \<Rightarrow> pkg \<Rightarrow> pkg_dep list \<Rightarrow> universe \<Rightarrow> (epkg \<times> universe) option" where
  "process_dep_list rec env flags p [] u = Some (EPKG_OK, u)"
| "process_dep_list rec env flags p (d # ds) u =
     (case process_dep rec env flags p u d of
        None \<Rightarrow> None
      | Some (Some rc, u') \<Rightarrow> Some (rc, u')
      | Some (None, u') \<Rightarrow> process_dep_list rec env flags p ds u')"

definition pkg_jobs_universe_process_deps ::
  "process \<Rightarrow> job_env \<Rightarrow> deps_flags \<Rightarrow> pkg \<Rightarrow> universe \<Rightarrow> (epkg \<times> universe) option" where
  "pkg_jobs_universe_process_deps rec env flags p u =
     process_dep_list rec env flags p (if df_reverse flags then pkg_rdepends p else pkg_depends p) u"

section \<open>Libraries and features\<close>

text \<open>
  \<open>HASH_FIND_STR (provides)\<close> as a position in the table; \<open>prhead\<close> is read once, before the
  loop, so an entry that a nested call adds meanwhile is not seen.
\<close>

fun find_provide :: "string \<Rightarrow> (string \<times> job_provide list) list \<Rightarrow> nat option" where
  "find_provide nm [] = None"
| "find_provide nm ((n, _) # ps) =
     (case find_provide nm ps of Some i \<Rightarrow> Some (Suc i) | None \<Rightarrow> if n = nm then Some 0 else None)"

definition add_provide ::
  "string \<Rightarrow> bool \<Rightarrow> nat option \<Rightarrow> nat option \<Rightarrow> universe \<Rightarrow> nat option \<times> universe" where
  "add_provide nm is_shlib unit prhead u =
     (let pr = \<lparr>pr_un = unit, pr_is_shlib = is_shlib\<rparr> in
      case prhead of
        None \<Rightarrow> (Some (length (u_provides u)), u\<lparr>u_provides := u_provides u @ [(nm, [pr])]\<rparr>)
      | Some i \<Rightarrow>
          (let (n, prs) = u_provides u ! i
           in (Some i, u\<lparr>u_provides := (u_provides u)[i := (n, prs @ [pr])]\<rparr>)))"

text \<open>
  One package of the iterator. The outcome: skip it, return from the function with a code, or
  go on to register the provide of an item.
\<close>

datatype provide_outcome = Skip | Return epkg | Register "nat option"

definition provide_unit :: "process \<Rightarrow> job_env \<Rightarrow> universe \<Rightarrow> pkg \<Rightarrow> (provide_outcome \<times> universe) option" where
  "provide_unit rec env u rpkg =
     (if pkg_jobs_universe_find u (pkg_uid rpkg) \<noteq> None then
        (case rec u rpkg of
           None \<Rightarrow> None
         | Some (rc, unit, _, u') \<Rightarrow> Some (if rc \<noteq> EPKG_OK then Skip else Register unit, u'))
      else
        (case pkg_jobs_universe_get_local env u (pkg_uid rpkg) of
           Some npkg \<Rightarrow>
             (case rec u npkg of
                None \<Rightarrow> None
              | Some (rc, _, _, u') \<Rightarrow>
                  if rc \<noteq> EPKG_OK then Some (Return EPKG_FATAL, u')
                  else (case rec u' rpkg of
                          None \<Rightarrow> None
                        | Some (rc', unit, _, u'') \<Rightarrow> Some (if rc' \<noteq> EPKG_OK then Skip else Register unit, u'')))
         | None \<Rightarrow>
             (case (if pkg_digest rpkg = None then checksum_calculate env rpkg else Some (EPKG_OK, rpkg)) of
                None \<Rightarrow> None
              | Some (rc0, rpkg') \<Rightarrow>
                  if rc0 \<noteq> EPKG_OK then Some (Return EPKG_FATAL, u)
                  else (case rec u rpkg' of
                          None \<Rightarrow> None
                        | Some (rc, unit, _, u') \<Rightarrow> Some (if rc \<noteq> EPKG_OK then Return rc else Register unit, u')))))"

fun provide_loop ::
  "process \<Rightarrow> job_env \<Rightarrow> string \<Rightarrow> bool \<Rightarrow> nat option \<Rightarrow> pkg list \<Rightarrow> universe \<Rightarrow> (epkg \<times> universe) option" where
  "provide_loop rec env nm is_shlib prhead [] u = Some (EPKG_OK, u)"
| "provide_loop rec env nm is_shlib prhead (r # rs) u =
     (case provide_unit rec env u r of
        None \<Rightarrow> None
      | Some (Skip, u') \<Rightarrow> provide_loop rec env nm is_shlib prhead rs u'
      | Some (Return rc, u') \<Rightarrow> Some (rc, u')
      | Some (Register unit, u') \<Rightarrow>
          (let (prhead', u'') = add_provide nm is_shlib unit prhead u'
           in provide_loop rec env nm is_shlib prhead' rs u''))"

definition pkg_jobs_universe_handle_provide ::
  "process \<Rightarrow> job_env \<Rightarrow> string \<Rightarrow> bool \<Rightarrow> pkg list \<Rightarrow> universe \<Rightarrow> (epkg \<times> universe) option" where
  "pkg_jobs_universe_handle_provide rec env nm is_shlib rs u =
     provide_loop rec env nm is_shlib (find_provide nm (u_provides u)) rs u"

fun process_shlib_list :: "process \<Rightarrow> job_env \<Rightarrow> string list \<Rightarrow> universe \<Rightarrow> (epkg \<times> universe) option" where
  "process_shlib_list rec env [] u = Some (EPKG_OK, u)"
| "process_shlib_list rec env (b # bs) u =
     (if find_provide b (u_provides u) \<noteq> None then process_shlib_list rec env bs u
      else (case pkg_jobs_universe_handle_provide rec env b True (je_shlib_local env b) u of
              None \<Rightarrow> None
            | Some (_, u1) \<Rightarrow>
                (case pkg_jobs_universe_handle_provide rec env b True (je_shlib_remote env b) u1 of
                   None \<Rightarrow> None
                 | Some (_, u2) \<Rightarrow> process_shlib_list rec env bs u2)))"

definition pkg_jobs_universe_process_shlibs :: "process \<Rightarrow> job_env \<Rightarrow> pkg \<Rightarrow> universe \<Rightarrow> (epkg \<times> universe) option" where
  "pkg_jobs_universe_process_shlibs rec env p u = process_shlib_list rec env (pkg_shlibs_required p) u"

fun process_require_list :: "process \<Rightarrow> job_env \<Rightarrow> string list \<Rightarrow> universe \<Rightarrow> (epkg \<times> universe) option" where
  "process_require_list rec env [] u = Some (EPKG_OK, u)"
| "process_require_list rec env (b # bs) u =
     (if find_provide b (u_provides u) \<noteq> None then process_require_list rec env bs u
      else (case pkg_jobs_universe_handle_provide rec env b False (je_provide_local env b) u of
              None \<Rightarrow> None
            | Some (_, u1) \<Rightarrow>
                (case pkg_jobs_universe_handle_provide rec env b False (je_provide_remote env b) u1 of
                   None \<Rightarrow> None
                 | Some (rc, u2) \<Rightarrow> if rc \<noteq> EPKG_OK then Some (rc, u2) else process_require_list rec env bs u2)))"

definition pkg_jobs_universe_process_provides_requires ::
  "process \<Rightarrow> job_env \<Rightarrow> pkg \<Rightarrow> universe \<Rightarrow> (epkg \<times> universe) option" where
  "pkg_jobs_universe_process_provides_requires rec env p u = process_require_list rec env (pkg_requires p) u"

section \<open>Processing an item\<close>

definition mark_processed :: "nat \<Rightarrow> universe \<Rightarrow> universe" where
  "mark_processed i u = u\<lparr>u_items := (u_items u)[i := (u_items u ! i)\<lparr>ui_processed := True\<rparr>]\<rparr>"

text \<open>Run the next step of a sequence if the one before returned \<open>EPKG_OK\<close>.\<close>

definition and_then :: "(epkg \<times> universe) option \<Rightarrow> (universe \<Rightarrow> (epkg \<times> universe) option) \<Rightarrow> (epkg \<times> universe) option" where
  "and_then x f = (case x of None \<Rightarrow> None | Some (rc, u) \<Rightarrow> if rc \<noteq> EPKG_OK then Some (rc, u) else f u)"

text \<open>
  The \<^verbatim>\<open>switch\<close> on the type of the job. \<open>rc\<close> is what adding the package answered, \<open>EPKG_END\<close> for one
  that was known but not yet processed; the types without dependencies to follow return it as it is.
\<close>

definition process_by_type :: "process \<Rightarrow> job_env \<Rightarrow> epkg \<Rightarrow> pkg \<Rightarrow> universe \<Rightarrow> (epkg \<times> universe) option" where
  "process_by_type rec env rc p u =
     (let flags = no_flags\<lparr>df_force_missing := je_force_missing env\<rparr> in
      case je_type env of
        PKG_JOBS_FETCH \<Rightarrow>
          if je_recursive env then pkg_jobs_universe_process_deps rec env (flags\<lparr>df_mirror := True\<rparr>) p u
          else Some (rc, u)
      | PKG_JOBS_INSTALL \<Rightarrow>
          and_then (and_then (and_then (pkg_jobs_universe_process_deps rec env flags p u)
            (pkg_jobs_universe_process_deps rec env (flags\<lparr>df_reverse := True\<rparr>) p))
            (pkg_jobs_universe_process_shlibs rec env p))
            (pkg_jobs_universe_process_provides_requires rec env p)
      | PKG_JOBS_UPGRADE \<Rightarrow>
          and_then (and_then (and_then (pkg_jobs_universe_process_deps rec env flags p u)
            (pkg_jobs_universe_process_deps rec env (flags\<lparr>df_reverse := True\<rparr>) p))
            (pkg_jobs_universe_process_shlibs rec env p))
            (pkg_jobs_universe_process_provides_requires rec env p)
      | PKG_JOBS_AUTOREMOVE \<Rightarrow> Some (rc, u)
      | PKG_JOBS_DEINSTALL \<Rightarrow>
          if je_recursive env
          then pkg_jobs_universe_process_deps rec env (flags\<lparr>df_reverse := True, df_force_local := True\<rparr>) p u
          else Some (rc, u))"

text \<open>The recursion of the C functions, bounded by the fuel.\<close>

fun pkg_jobs_universe_process_item :: "job_env \<Rightarrow> nat \<Rightarrow> process" where
  "pkg_jobs_universe_process_item env 0 u p = None"
| "pkg_jobs_universe_process_item env (Suc n) u p =
     (case pkg_jobs_universe_add_pkg env u p of
        None \<Rightarrow> None
      | Some (rc, found, p', u') \<Rightarrow>
          if rc = EPKG_OK \<or> rc = EPKG_END then
            (case found of
               None \<Rightarrow> None
             | Some i \<Rightarrow>
                 if rc = EPKG_END \<and> ui_processed (u_items u' ! i) then Some (EPKG_OK, found, p', u')
                 else (case process_by_type (pkg_jobs_universe_process_item env n) env rc p' (mark_processed i u') of
                         None \<Rightarrow> None
                       | Some (rc', u'') \<Rightarrow> Some (rc', found, p', u'')))
          else Some (rc, found, p', u'))"

definition pkg_jobs_universe_process :: "job_env \<Rightarrow> nat \<Rightarrow> universe \<Rightarrow> pkg \<Rightarrow> (epkg \<times> universe) option" where
  "pkg_jobs_universe_process env n u p =
     (case pkg_jobs_universe_process_item env n u p of None \<Rightarrow> None | Some (rc, _, _, u') \<Rightarrow> Some (rc, u'))"

section \<open>Upgrade candidates\<close>

text \<open>
  The loop over the remote packages of \<open>pkg_jobs_universe_get_upgrade_candidates\<close>: the package
  \<open>selected\<close> so far (\<open>None\<close> while it is \<open>lp\<close>) and the candidates, each prepended.
\<close>

fun collect_candidates ::
  "bool \<Rightarrow> string option \<Rightarrow> pkg option \<Rightarrow> pkg list \<Rightarrow> pkg option \<Rightarrow> pkg list \<Rightarrow> pkg option \<times> pkg list" where
  "collect_candidates force version lp [] selected cands = (selected, cands)"
| "collect_candidates force version lp (p # ps) selected cands =
     (if (case version of None \<Rightarrow> False | Some v \<Rightarrow> pkg_version p \<noteq> v)
      then collect_candidates force version lp ps selected cands
      else if force then collect_candidates force version lp ps (Some p) (p # cands)
      else
        (case selected of
           None \<Rightarrow>
             (case pkg_jobs_need_upgrade p lp of
                (True, p') \<Rightarrow> collect_candidates force version lp ps (Some p') (p' # cands)
              | (False, p') \<Rightarrow>
                  (let sel = (if pkg_version_change_between p' lp = PKG_UPGRADE then Some p' else None)
                   in collect_candidates force version lp ps sel (p' # cands)))
         | Some s \<Rightarrow>
             (let sel = (if pkg_version_change_between p (Some s) = PKG_UPGRADE then p else s)
              in collect_candidates force version lp ps (Some sel) (p # cands))))"

text \<open>
  Adding without a place for the item found: a package whose checksum cannot be calculated makes
  the function store through the null pointer.
\<close>

definition add_pkg_null :: "job_env \<Rightarrow> universe \<Rightarrow> pkg \<Rightarrow> universe option" where
  "add_pkg_null env u p =
     (case pkg_jobs_universe_add_pkg env u p of
        None \<Rightarrow> None
      | Some (rc, _, _, u') \<Rightarrow> if rc = EPKG_FATAL then None else Some u')"

fun add_all :: "job_env \<Rightarrow> pkg list \<Rightarrow> universe \<Rightarrow> universe option" where
  "add_all env [] u = Some u"
| "add_all env (p # ps) u = (case add_pkg_null env u p of None \<Rightarrow> None | Some u' \<Rightarrow> add_all env ps u')"

text \<open>The query of the repositories and what is added of it.\<close>

definition upgrade_query ::
  "job_env \<Rightarrow> universe \<Rightarrow> string \<Rightarrow> pkg option \<Rightarrow> bool \<Rightarrow> string option \<Rightarrow> (nat list option \<times> universe) option" where
  "upgrade_query env u uid lp force version =
     (let (selected, cands) = collect_candidates force version lp (je_remote env uid) None [] in
      case (case lp of None \<Rightarrow> Some u | Some l \<Rightarrow> add_pkg_null env u l) of
        None \<Rightarrow> None
      | Some u1 \<Rightarrow>
          if selected = None then Some (None, u1)
          else (case add_all env cands u1 of
                  None \<Rightarrow> None
                | Some u2 \<Rightarrow> Some (pkg_jobs_universe_find u2 uid, u2)))"

text \<open>The chain returned, \<open>None\<close> for NULL, and the universe.\<close>

definition pkg_jobs_universe_get_upgrade_candidates ::
  "job_env \<Rightarrow> universe \<Rightarrow> string \<Rightarrow> pkg option \<Rightarrow> bool \<Rightarrow> string option \<Rightarrow> (nat list option \<times> universe) option" where
  "pkg_jobs_universe_get_upgrade_candidates env u uid lp force version =
     (case pkg_jobs_universe_find u uid of
        Some c \<Rightarrow>
          if \<not> force \<or> (\<exists>i \<in> set c. \<not> installed (item_pkg u i)) then Some (Some c, u)
          else upgrade_query env u uid lp force version
      | None \<Rightarrow> upgrade_query env u uid lp force version)"

section \<open>Selecting among the candidates of a chain\<close>

text \<open>
  A chain is the list of its items, \<open>pk\<close> the package of an item. \<open>pkg_repo_find\<close> looks a
  repository up by its name, so the pointers it returns are compared as names.
\<close>

record repo =
  rp_name :: string
  rp_priority :: nat

type_synonym repo_find = "string \<Rightarrow> repo option"

definition max_ver_step :: "(nat \<Rightarrow> pkg) \<Rightarrow> nat option \<times> bool \<Rightarrow> nat \<Rightarrow> nat option \<times> bool" where
  "max_ver_step pk st cur =
     (if installed (pk cur) then st
      else (case fst st of
              None \<Rightarrow> (Some cur, snd st)
            | Some res \<Rightarrow>
                (let r = pkg_version_change_between (pk cur) (Some (pk res)) in
                 if r = PKG_UPGRADE then (Some cur, True)
                 else if r \<noteq> PKG_REINSTALL then (Some res, True)
                 else st)))"

definition pkg_jobs_universe_select_max_ver :: "(nat \<Rightarrow> pkg) \<Rightarrow> nat list \<Rightarrow> nat option" where
  "pkg_jobs_universe_select_max_ver pk chain =
     (let (res, found) = foldl (max_ver_step pk) (None, False) chain in if found then res else None)"

definition pkg_priority :: "repo_find \<Rightarrow> pkg \<Rightarrow> nat option" where
  "pkg_priority repos p = (case pkg_reponame p of None \<Rightarrow> None | Some r \<Rightarrow> map_option rp_priority (repos r))"

definition max_prio_step :: "repo_find \<Rightarrow> (nat \<Rightarrow> pkg) \<Rightarrow> nat option \<times> nat \<Rightarrow> nat \<Rightarrow> nat option \<times> nat" where
  "max_prio_step repos pk st cur =
     (if installed (pk cur) then st
      else (case pkg_priority repos (pk cur) of
              None \<Rightarrow> st
            | Some pri \<Rightarrow> if pri > snd st then (Some cur, pri) else st))"

definition pkg_jobs_universe_select_max_prio :: "repo_find \<Rightarrow> (nat \<Rightarrow> pkg) \<Rightarrow> nat list \<Rightarrow> nat option" where
  "pkg_jobs_universe_select_max_prio repos pk chain = fst (foldl (max_prio_step repos pk) (None, 0) chain)"

definition local_repo :: "repo_find \<Rightarrow> (nat \<Rightarrow> pkg) \<Rightarrow> nat option \<Rightarrow> string option \<Rightarrow> repo option" where
  "local_repo repos pk local assumed =
     (case local of
        None \<Rightarrow> (case assumed of None \<Rightarrow> None | Some r \<Rightarrow> repos r)
      | Some l \<Rightarrow>
          (case pkg_reponame (pk l) of
             Some r \<Rightarrow> repos r
           | None \<Rightarrow> (case map_of (pkg_annotations (pk l)) ''repository'' of None \<Rightarrow> None | Some r \<Rightarrow> repos r)))"

definition from_repo :: "repo_find \<Rightarrow> (nat \<Rightarrow> pkg) \<Rightarrow> repo \<Rightarrow> nat \<Rightarrow> bool" where
  "from_repo repos pk lr cur \<longleftrightarrow> \<not> installed (pk cur) \<and>
     (case pkg_reponame (pk cur) of None \<Rightarrow> False
      | Some r \<Rightarrow> (case repos r of None \<Rightarrow> False | Some rp \<Rightarrow> rp_name rp = rp_name lr))"

definition pkg_jobs_universe_select_same_repo ::
  "repo_find \<Rightarrow> (nat \<Rightarrow> pkg) \<Rightarrow> nat list \<Rightarrow> nat option \<Rightarrow> string option \<Rightarrow> nat option" where
  "pkg_jobs_universe_select_same_repo repos pk chain local assumed =
     (case local_repo repos pk local assumed of
        None \<Rightarrow> None
      | Some lr \<Rightarrow> find (from_repo repos pk lr) chain)"

fun or_else :: "'a option \<Rightarrow> 'a option \<Rightarrow> 'a option" where
  "or_else (Some x) y = Some x"
| "or_else None y = y"

text \<open>\<open>pkg_jobs_universe_select_candidate\<close>; the head of the chain is the fallback.\<close>

definition pkg_jobs_universe_select_candidate ::
  "repo_find \<Rightarrow> (nat \<Rightarrow> pkg) \<Rightarrow> nat list \<Rightarrow> nat option \<Rightarrow> bool \<Rightarrow> string option \<Rightarrow> bool \<Rightarrow> nat" where
  "pkg_jobs_universe_select_candidate repos pk chain local conservative reponame pinning =
     (let same = (if pinning \<and> (local \<noteq> None \<or> reponame \<noteq> None)
                  then pkg_jobs_universe_select_same_repo repos pk chain local reponame else None);
          ver = pkg_jobs_universe_select_max_ver pk chain;
          prio = pkg_jobs_universe_select_max_prio repos pk chain;
          res = or_else same (if conservative then or_else prio ver else or_else ver prio)
      in case res of Some i \<Rightarrow> i | None \<Rightarrow> hd chain)"

subsection \<open>What is selected\<close>

definition remotes :: "(nat \<Rightarrow> pkg) \<Rightarrow> nat list \<Rightarrow> nat list" where
  "remotes pk chain = filter (\<lambda>i. \<not> installed (pk i)) chain"

abbreviation ver_cmp :: "(nat \<Rightarrow> pkg) \<Rightarrow> nat \<Rightarrow> nat \<Rightarrow> int" where
  "ver_cmp pk i j \<equiv> pkg_version_cmp (pkg_version (pk i)) (pkg_version (pk j))"

text \<open>What the fold knows: the best remote item so far, and whether two differed.\<close>

definition max_ver_inv :: "(nat \<Rightarrow> pkg) \<Rightarrow> nat list \<Rightarrow> nat option \<times> bool \<Rightarrow> bool" where
  "max_ver_inv pk seen st \<longleftrightarrow>
     (case fst st of
        None \<Rightarrow> remotes pk seen = [] \<and> \<not> snd st
      | Some res \<Rightarrow> res \<in> set (remotes pk seen) \<and> (\<forall>i \<in> set (remotes pk seen). ver_cmp pk i res \<le> 0) \<and>
          (snd st \<longleftrightarrow> (\<exists>i \<in> set (remotes pk seen). ver_cmp pk i res < 0)))"

lemma max_ver_step_inv:
  assumes "max_ver_inv pk seen st"
  shows "max_ver_inv pk (seen @ [cur]) (max_ver_step pk st cur)"
proof (cases "installed (pk cur)")
  case True
  then have "remotes pk (seen @ [cur]) = remotes pk seen" "max_ver_step pk st cur = st"
    by (simp_all add: remotes_def max_ver_step_def)
  then show ?thesis using assms by (simp add: max_ver_inv_def split: option.splits)
next
  case False
  then have rem: "remotes pk (seen @ [cur]) = remotes pk seen @ [cur]" by (simp add: remotes_def)
  show ?thesis
  proof (cases "fst st")
    case None
    then show ?thesis using assms False rem by (simp add: max_ver_step_def max_ver_inv_def)
  next
    case (Some res)
    then have best: "\<forall>i \<in> set (remotes pk seen). ver_cmp pk i res \<le> 0" "res \<in> set (remotes pk seen)"
      and fl: "snd st \<longleftrightarrow> (\<exists>i \<in> set (remotes pk seen). ver_cmp pk i res < 0)"
      using assms by (simp_all add: max_ver_inv_def)
    consider "ver_cmp pk res cur < 0" | "ver_cmp pk res cur = 0" | "ver_cmp pk res cur > 0" by linarith
    then show ?thesis
    proof cases
      case 1
      then have step: "max_ver_step pk st cur = (Some cur, True)"
        using False Some by (simp add: max_ver_step_def change_between_simps)
      have "\<forall>i \<in> set (remotes pk seen). ver_cmp pk i cur < 0"
        using best(1) 1 version.le_less_trans by blast
      then show ?thesis using step rem best(2) by (auto simp: max_ver_inv_def)
    next
      case 2
      then have step: "max_ver_step pk st cur = st"
        using False Some by (simp add: max_ver_step_def change_between_simps)
      have "ver_cmp pk cur res = 0" using 2 version.sym [of "pkg_version (pk res)" "pkg_version (pk cur)"] by simp
      then show ?thesis using step rem best fl Some by (auto simp: max_ver_inv_def)
    next
      case 3
      then have step: "max_ver_step pk st cur = (Some res, True)"
        using False Some by (simp add: max_ver_step_def change_between_simps)
      have "ver_cmp pk cur res < 0" using 3 version.sym [of "pkg_version (pk res)" "pkg_version (pk cur)"] by simp
      then show ?thesis using step rem best by (auto simp: max_ver_inv_def)
    qed
  qed
qed

lemma max_ver_fold: "max_ver_inv pk seen st \<Longrightarrow> max_ver_inv pk (seen @ chain) (foldl (max_ver_step pk) st chain)"
proof (induction chain arbitrary: seen st)
  case (Cons cur chain)
  from Cons.IH [OF max_ver_step_inv [OF Cons.prems, of cur]] show ?case by simp
qed simp

lemma max_ver_result: "max_ver_inv pk chain (foldl (max_ver_step pk) (None, False) chain)"
  using max_ver_fold [of pk "[]" "(None, False)" chain] by (simp add: max_ver_inv_def remotes_def)

lemma select_max_ver_Some:
  assumes "pkg_jobs_universe_select_max_ver pk chain = Some r"
  shows "r \<in> set (remotes pk chain)" "\<forall>i \<in> set (remotes pk chain). ver_cmp pk i r \<le> 0"
    "\<exists>i \<in> set (remotes pk chain). ver_cmp pk i r < 0"
  using max_ver_result [of pk chain] assms
  by (cases "foldl (max_ver_step pk) (None, False) chain";
      auto simp: pkg_jobs_universe_select_max_ver_def max_ver_inv_def split: if_splits)+

lemma select_max_ver_None:
  assumes "pkg_jobs_universe_select_max_ver pk chain = None" "i \<in> set (remotes pk chain)" "j \<in> set (remotes pk chain)"
  shows "ver_cmp pk i j = 0"
proof -
  obtain res found where f: "foldl (max_ver_step pk) (None, False) chain = (res, found)" by fastforce
  note inv = max_ver_result [of pk chain, unfolded f]
  show ?thesis
  proof (cases res)
    case None
    then show ?thesis using inv assms(2) by (simp add: max_ver_inv_def)
  next
    case (Some r)
    then have "\<not> found" using assms(1) f by (auto simp: pkg_jobs_universe_select_max_ver_def)
    then have "\<forall>k \<in> set (remotes pk chain). ver_cmp pk k r = 0"
      using inv Some by (force simp: max_ver_inv_def)
    then have "ver_cmp pk i r = 0" "ver_cmp pk j r = 0" using assms(2,3) by auto
    then show ?thesis using version.eq_cong_right [of "pkg_version (pk j)" "pkg_version (pk r)" "pkg_version (pk i)"] by simp
  qed
qed

lemma max_prio_member:
  "fst (foldl (max_prio_step repos pk) st chain) = Some x \<Longrightarrow> fst st = Some x \<or> x \<in> set chain"
proof (induction chain arbitrary: st)
  case (Cons c chain)
  then have "fst (max_prio_step repos pk st c) = Some x \<or> x \<in> set chain" by simp
  then show ?case by (auto simp: max_prio_step_def split: if_splits option.splits)
qed simp

lemma select_max_prio_member: "pkg_jobs_universe_select_max_prio repos pk chain = Some x \<Longrightarrow> x \<in> set chain"
  unfolding pkg_jobs_universe_select_max_prio_def by (drule max_prio_member) simp

end
