(* ===== verification/Universe_Facts.thy ===== *)
theory Universe_Facts
  imports Universe
begin

text \<open>
  Facts about the universe: the invariant that relates the chains and the table of digests to
  the items, its preservation by every operation, and the end of the recursion over the
  packages of finite databases.
\<close>

section \<open>The invariant\<close>

type_synonym pkg_id = "string \<times> string \<times> pkg_type \<times> string option"

definition pkg_key :: "pkg \<Rightarrow> string option \<times> pkg_type \<times> string option" where
  "pkg_key p = (pkg_digest p, pkg_kind p, pkg_reponame p)"

text \<open>The packages the databases may return: those with an identity in \<open>K\<close> and a valid digest.\<close>

definition admissible :: "pkg_id set \<Rightarrow> pkg \<Rightarrow> bool" where
  "admissible K p \<longleftrightarrow> (\<exists>d. pkg_digest p = Some d \<and> pkg_checksum_is_valid d \<and>
     (pkg_uid p, d, pkg_kind p, pkg_reponame p) \<in> K)"

text \<open>
  Digests tell packages with different uids apart, and of two packages with the same digest and
  type both or none name a repository.
\<close>

definition consistent :: "pkg_id set \<Rightarrow> bool" where
  "consistent K \<longleftrightarrow> finite K \<and> (\<forall>uid d k r uid' k' r'. (uid, d, k, r) \<in> K \<longrightarrow> (uid', d, k', r') \<in> K \<longrightarrow>
     uid = uid' \<and> (k = k' \<longrightarrow> (r = None \<longleftrightarrow> r' = None)))"

definition uid_ids :: "universe \<Rightarrow> string \<Rightarrow> nat list" where
  "uid_ids u uid = filter (\<lambda>i. pkg_uid (item_pkg u i) = uid) [0..<length (u_items u)]"

definition digest_ids :: "universe \<Rightarrow> string \<Rightarrow> nat list" where
  "digest_ids u d = filter (\<lambda>i. pkg_digest (item_pkg u i) = Some d) [0..<length (u_items u)]"

definition universe_ok :: "pkg_id set \<Rightarrow> universe \<Rightarrow> bool" where
  "universe_ok K u \<longleftrightarrow> u_nitems u = length (u_items u) \<and>
     (\<forall>i < length (u_items u). admissible K (item_pkg u i)) \<and>
     (\<forall>i < length (u_items u). \<forall>j < length (u_items u). pkg_key (item_pkg u i) = pkg_key (item_pkg u j) \<longrightarrow> i = j) \<and>
     distinct (map fst (u_chains u)) \<and>
     (\<forall>uid. map_of (u_chains u) uid = (if uid_ids u uid = [] then None else Some (uid_ids u uid))) \<and>
     (\<forall>d. map_of (u_seen u) d = (if digest_ids u d = [] then None else Some (hd (digest_ids u d))))"

text \<open>Later states keep the items, and what was processed stays processed.\<close>

definition extends :: "universe \<Rightarrow> universe \<Rightarrow> bool" where
  "extends u u' \<longleftrightarrow> length (u_items u) \<le> length (u_items u') \<and>
     (\<forall>i < length (u_items u). item_pkg u' i = item_pkg u i \<and>
        (ui_processed (u_items u ! i) \<longrightarrow> ui_processed (u_items u' ! i)))"

lemma extends_refl [simp]: "extends u u"
  by (simp add: extends_def)

lemma extends_trans: "extends u v \<Longrightarrow> extends v w \<Longrightarrow> extends u w"
  unfolding extends_def by (metis order_less_le_trans order_trans)

definition processed :: "universe \<Rightarrow> nat set" where
  "processed u = {i. i < length (u_items u) \<and> ui_processed (u_items u ! i)}"

lemma finite_processed [simp]: "finite (processed u)"
  by (simp add: processed_def)

lemma extends_processed: "extends u u' \<Longrightarrow> processed u \<subseteq> processed u'"
  by (auto simp: extends_def processed_def)

lemma extends_card: "extends u u' \<Longrightarrow> card (processed u) \<le> card (processed u')"
  by (intro card_mono extends_processed) simp_all

lemma universe_ok_new: "universe_ok K pkg_jobs_universe_new"
  by (simp add: universe_ok_def pkg_jobs_universe_new_def uid_ids_def digest_ids_def)

lemma items_bound:
  assumes "universe_ok K u" "finite K"
  shows "length (u_items u) \<le> card K"
proof -
  let ?f = "\<lambda>i. (pkg_uid (item_pkg u i), the (pkg_digest (item_pkg u i)), pkg_kind (item_pkg u i), pkg_reponame (item_pkg u i))"
  let ?I = "{..<length (u_items u)}"
  have adm: "admissible K (item_pkg u i)" if "i \<in> ?I" for i using assms(1) that by (simp add: universe_ok_def)
  have "inj_on ?f ?I"
  proof (rule inj_onI)
    fix i j assume ij: "i \<in> ?I" "j \<in> ?I" "?f i = ?f j"
    then have "pkg_key (item_pkg u i) = pkg_key (item_pkg u j)"
      using adm [of i] adm [of j] by (auto simp: admissible_def pkg_key_def)
    then show "i = j" using assms(1) ij by (auto simp: universe_ok_def)
  qed
  moreover have "?f ` ?I \<subseteq> K"
    using adm by (force simp: admissible_def)
  ultimately show ?thesis using card_inj_on_le [of ?f ?I K] assms(2) by simp
qed

lemma processed_bound: "universe_ok K u \<Longrightarrow> finite K \<Longrightarrow> card (processed u) \<le> card K"
proof -
  have "processed u \<subseteq> {..<length (u_items u)}" by (auto simp: processed_def)
  then have "card (processed u) \<le> length (u_items u)" using card_mono [of "{..<length (u_items u)}"] by simp
  then show "universe_ok K u \<Longrightarrow> finite K \<Longrightarrow> ?thesis" using items_bound by (metis order_trans)
qed

lemma consistentD:
  assumes "consistent K" "admissible K p" "admissible K q" "pkg_digest p = pkg_digest q"
  shows "pkg_uid p = pkg_uid q" "pkg_kind p = pkg_kind q \<Longrightarrow> pkg_reponame p = None \<longleftrightarrow> pkg_reponame q = None"
  using assms unfolding consistent_def admissible_def by (metis option.inject)+

section \<open>Adding a package\<close>

lemma same_package_key:
  assumes "consistent K" "admissible K p" "\<forall>t \<in> set ts. admissible K t"
  shows "same_package ts p = Some (\<exists>t \<in> set ts. pkg_key t = pkg_key p)"
  using assms(3)
proof (induction ts)
  case (Cons t ts)
  show ?case
  proof (cases "pkg_kind t = pkg_kind p \<and> pkg_digest t = pkg_digest p")
    case True
    have "pkg_reponame t = None \<longleftrightarrow> pkg_reponame p = None"
      using consistentD(2) [OF assms(1) _ assms(2), of t] Cons.prems True by simp
    then show ?thesis
      using Cons True by (auto simp: pkg_key_def split: option.split)
  next
    case False
    then show ?thesis using Cons by (auto simp: pkg_key_def)
  qed
qed simp

lemma dropWhile_filter_upt:
  "P s \<Longrightarrow> s < n \<Longrightarrow> dropWhile (\<lambda>j. j \<noteq> s) (filter P [0..<n]) = filter P [s..<n]"
proof -
  assume s: "P s" "s < n"
  have split: "[0..<n] = [0..<s] @ [s..<n]" 
    using upt_add_eq_append [of 0 s "n - s"] s(2) by simp
  have "dropWhile (\<lambda>j. j \<noteq> s) (filter P [0..<s] @ filter P [s..<n]) = dropWhile (\<lambda>j. j \<noteq> s) (filter P [s..<n])"
    by (intro dropWhile_append2) simp
  also have "filter P [s..<n] = s # filter P [Suc s..<n]" using s by (simp add: upt_conv_Cons)
  finally show ?thesis using split s by (simp add: upt_conv_Cons)
qed

lemma chain_from_eq:
  assumes "universe_ok K u" "s < length (u_items u)"
  shows "chain_from u s = filter (\<lambda>i. pkg_uid (item_pkg u i) = pkg_uid (item_pkg u s)) [s..<length (u_items u)]"
proof -
  let ?uid = "pkg_uid (item_pkg u s)"
  have chains: "map_of (u_chains u) v = (if uid_ids u v = [] then None else Some (uid_ids u v))" for v
    using assms(1) by (simp add: universe_ok_def)
  have in_s: "s \<in> set (uid_ids u ?uid)" using assms(2) by (simp add: uid_ids_def)
  have entry: "c = uid_ids u v" if "(v, c) \<in> set (u_chains u)" for v c
  proof -
    have "distinct (map fst (u_chains u))" using assms(1) by (simp add: universe_ok_def)
    then have "map_of (u_chains u) v = Some c" using that by (rule map_of_is_SomeI)
    then show ?thesis using chains [of v] by (simp split: if_splits)
  qed
  have "\<exists>x. find (\<lambda>(_, c). s \<in> set c) (u_chains u) = Some x"
  proof -
    have "uid_ids u ?uid \<noteq> []" using in_s by auto
    then have "map_of (u_chains u) ?uid = Some (uid_ids u ?uid)" by (simp add: chains)
    then have "(?uid, uid_ids u ?uid) \<in> set (u_chains u)" by (rule map_of_SomeD)
    then show ?thesis using in_s by (metis (mono_tags, lifting) case_prodI find_None_iff2 not_None_eq)
  qed
  then obtain v c where f: "find (\<lambda>(_, c). s \<in> set c) (u_chains u) = Some (v, c)" by auto
  then have "(v, c) \<in> set (u_chains u)" "s \<in> set c" using find_SomeD [OF f] by simp_all
  then have "c = uid_ids u ?uid" using entry [of v c] by (auto simp: uid_ids_def)
  then show ?thesis
    using f assms(2) dropWhile_filter_upt [of "\<lambda>i. pkg_uid (item_pkg u i) = ?uid" s "length (u_items u)"]
    by (simp add: chain_from_def uid_ids_def)
qed

lemma seen_covers:
  assumes "universe_ok K u" "consistent K" "map_of (u_seen u) d = Some s"
  shows "s < length (u_items u)" "pkg_digest (item_pkg u s) = Some d"
    "i < length (u_items u) \<Longrightarrow> pkg_digest (item_pkg u i) = Some d \<Longrightarrow> i \<in> set (chain_from u s)"
proof -
  have ids: "digest_ids u d \<noteq> []" "s = hd (digest_ids u d)"
    using assms(1,3) by (auto simp: universe_ok_def split: if_splits)
  then have "s \<in> set (digest_ids u d)" by simp
  then show s: "s < length (u_items u)" "pkg_digest (item_pkg u s) = Some d" by (simp_all add: digest_ids_def)
  assume i: "i < length (u_items u)" "pkg_digest (item_pkg u i) = Some d"
  have adm: "admissible K (item_pkg u j)" if "j < length (u_items u)" for j using assms(1) that by (simp add: universe_ok_def)
  have uid: "pkg_uid (item_pkg u i) = pkg_uid (item_pkg u s)"
    using consistentD(1) [OF assms(2) adm [OF i(1)] adm [OF s(1)]] i(2) s(2) by simp
  have "sorted (digest_ids u d)" unfolding digest_ids_def by (intro sorted_wrt_filter) simp
  moreover have "i \<in> set (digest_ids u d)" using i by (simp add: digest_ids_def)
  ultimately have "s \<le> i" using ids by (cases "digest_ids u d") auto
  then show "i \<in> set (chain_from u s)" using chain_from_eq [OF assms(1) s(1)] i(1) uid by simp
qed

lemma chain_append_map:
  "map_of (chain_append uid i cs) v =
    (if v = uid then Some ((case map_of cs uid of None \<Rightarrow> [] | Some c \<Rightarrow> c) @ [i]) else map_of cs v)"
  by (induction uid i cs rule: chain_append.induct) auto

lemma chain_append_keys: "set (map fst (chain_append uid i cs)) = insert uid (set (map fst cs))"
  by (induction uid i cs rule: chain_append.induct) auto

lemma chain_append_distinct: "distinct (map fst cs) \<Longrightarrow> distinct (map fst (chain_append uid i cs))"
proof (induction uid i cs rule: chain_append.induct)
  case (2 uid i v c cs)
  then show ?case using chain_append_keys [of uid i cs] by auto
qed simp

lemma item_pkg_add_item:
  "item_pkg (add_item u p d) i = (if i < length (u_items u) then item_pkg u i else if i = length (u_items u) then p else item_pkg (add_item u p d) i)"
  by (simp add: item_pkg_def add_item_def nth_append new_item_def)

lemma add_item_length [simp]: "length (u_items (add_item u p d)) = Suc (length (u_items u))"
  by (simp add: add_item_def)

lemma add_item_tables:
  "u_chains (add_item u p d) = chain_append (pkg_uid p) (length (u_items u)) (u_chains u)"
  "u_seen (add_item u p d) = (if map_of (u_seen u) d = None then u_seen u @ [(d, length (u_items u))] else u_seen u)"
  "u_nitems (add_item u p d) = u_nitems u + 1"
  by (simp_all add: add_item_def)

lemma uid_ids_add_item:
  "uid_ids (add_item u p d) uid = uid_ids u uid @ (if pkg_uid p = uid then [length (u_items u)] else [])"
proof -
  have "filter (\<lambda>i. pkg_uid (item_pkg (add_item u p d) i) = uid) [0..<length (u_items u)] = uid_ids u uid"
    unfolding uid_ids_def by (intro filter_cong) (simp_all add: item_pkg_add_item)
  then show ?thesis by (simp add: uid_ids_def item_pkg_add_item)
qed

lemma digest_ids_add_item:
  "digest_ids (add_item u p d) e = digest_ids u e @ (if pkg_digest p = Some e then [length (u_items u)] else [])"
proof -
  have "filter (\<lambda>i. pkg_digest (item_pkg (add_item u p d) i) = Some e) [0..<length (u_items u)] = digest_ids u e"
    unfolding digest_ids_def by (intro filter_cong) (simp_all add: item_pkg_add_item)
  then show ?thesis by (simp add: digest_ids_def item_pkg_add_item)
qed

lemma extends_add_item: "extends u (add_item u p d)"
  by (simp add: extends_def item_pkg_add_item) (simp add: add_item_def nth_append)

lemma seen_add_item:
  "map_of (u_seen (add_item u p d)) e =
    (if e = d \<and> map_of (u_seen u) e = None then Some (length (u_items u)) else map_of (u_seen u) e)"
  by (auto simp: add_item_tables map_add_def split: option.split)

lemma universe_ok_add_item:
  assumes ok: "universe_ok K u" and p: "admissible K p" "pkg_digest p = Some d"
    and new: "\<forall>i < length (u_items u). pkg_key (item_pkg u i) \<noteq> pkg_key p"
  shows "universe_ok K (add_item u p d)"
proof -
  let ?u = "add_item u p d" and ?n = "length (u_items u)"
  have adm: "admissible K (item_pkg ?u i)" if "i < Suc ?n" for i
    using that ok p(1) by (cases "i = ?n") (simp_all add: item_pkg_add_item universe_ok_def)
  have key: "i = j" if ij: "i < Suc ?n" "j < Suc ?n" "pkg_key (item_pkg ?u i) = pkg_key (item_pkg ?u j)" for i j
  proof -
    consider "i < ?n" "j < ?n" | "i = ?n" "j < ?n" | "i < ?n" "j = ?n" | "i = ?n" "j = ?n" using ij by linarith
    then show ?thesis
    proof cases
      case 1
      then show ?thesis using ij(3) ok by (simp add: item_pkg_add_item universe_ok_def)
    next
      case 2
      then have "pkg_key p = pkg_key (item_pkg u j)" using ij(3) by (simp add: item_pkg_add_item)
      then show ?thesis using new 2 by metis
    next
      case 3
      then have "pkg_key (item_pkg u i) = pkg_key p" using ij(3) by (simp add: item_pkg_add_item)
      then show ?thesis using new 3 by metis
    qed simp
  qed
  have chains: "map_of (u_chains ?u) uid = (if uid_ids ?u uid = [] then None else Some (uid_ids ?u uid))" for uid
    using ok by (simp add: uid_ids_add_item add_item_tables chain_append_map universe_ok_def)
  have seen: "map_of (u_seen ?u) e = (if digest_ids ?u e = [] then None else Some (hd (digest_ids ?u e)))" for e
    using ok p(2) by (auto simp: digest_ids_add_item seen_add_item universe_ok_def)
  have "distinct (map fst (u_chains ?u))"
    using ok by (simp add: universe_ok_def add_item_tables chain_append_distinct)
  moreover have "u_nitems ?u = length (u_items ?u)" using ok by (simp add: universe_ok_def add_item_tables)
  ultimately show ?thesis
    unfolding universe_ok_def using adm key chains seen by auto
qed

lemma validate_admissible:
  "admissible K p \<Longrightarrow> pkg_validate env p = Some (EPKG_OK, p)"
  by (auto simp: admissible_def pkg_validate_def)

text \<open>\<open>add_pkg\<close> on the packages of consistent databases: found, refused, or added.\<close>

lemma add_pkg_cases:
  assumes ok: "universe_ok K u" and K: "consistent K" and p: "admissible K p"
  shows "(\<exists>i < length (u_items u). pkg_key (item_pkg u i) = pkg_key p) \<and>
      (\<exists>s < length (u_items u). pkg_jobs_universe_add_pkg env u p = Some (EPKG_END, Some s, p, u)) \<or>
    (\<forall>i < length (u_items u). pkg_key (item_pkg u i) \<noteq> pkg_key p) \<and> pkg_locked p \<and>
      pkg_jobs_universe_add_pkg env u p = Some (EPKG_LOCKED, None, p, u) \<or>
    (\<forall>i < length (u_items u). pkg_key (item_pkg u i) \<noteq> pkg_key p) \<and> \<not> pkg_locked p \<and>
      (\<exists>d. pkg_digest p = Some d \<and>
        pkg_jobs_universe_add_pkg env u p = Some (EPKG_OK, Some (length (u_items u)), p, add_item u p d))"
proof -
  obtain d where d: "pkg_digest p = Some d" using p by (auto simp: admissible_def)
  have adm: "admissible K (item_pkg u j)" if "j < length (u_items u)" for j using ok that by (simp add: universe_ok_def)
  show ?thesis
  proof (cases "map_of (u_seen u) d")
    case None
    then have "digest_ids u d = []" using ok by (simp add: universe_ok_def split: if_splits)
    then have "\<forall>i < length (u_items u). pkg_digest (item_pkg u i) \<noteq> Some d"
      by (simp add: digest_ids_def filter_empty_conv)
    then have "\<forall>i < length (u_items u). pkg_key (item_pkg u i) \<noteq> pkg_key p" using d by (auto simp: pkg_key_def)
    then show ?thesis using None d validate_admissible [OF p] by (auto simp: pkg_jobs_universe_add_pkg_def)
  next
    case (Some s)
    note cov = seen_covers [OF ok K Some]
    let ?c = "chain_from u s"
    have sub: "\<forall>i \<in> set ?c. i < length (u_items u)" using chain_from_eq [OF ok cov(1)] by auto
    have "same_package (map (item_pkg u) ?c) p = Some (\<exists>t \<in> set (map (item_pkg u) ?c). pkg_key t = pkg_key p)"
      using same_package_key [OF K p] sub adm by simp
    also have "(\<exists>t \<in> set (map (item_pkg u) ?c). pkg_key t = pkg_key p) \<longleftrightarrow> (\<exists>i < length (u_items u). pkg_key (item_pkg u i) = pkg_key p)"
      using sub cov(3) d by (auto simp: pkg_key_def)
    finally have same: "same_package (map (item_pkg u) ?c) p = Some (\<exists>i < length (u_items u). pkg_key (item_pkg u i) = pkg_key p)" .
    show ?thesis
    proof (cases "\<exists>i < length (u_items u). pkg_key (item_pkg u i) = pkg_key p")
      case True
      then have "pkg_jobs_universe_add_pkg env u p = Some (EPKG_END, Some s, p, u)"
        using same Some d validate_admissible [OF p]
        by (simp add: pkg_jobs_universe_add_pkg_def)
      then show ?thesis using True cov(1) by blast
    next
      case False
      then have "same_package (map (item_pkg u) ?c) p = Some False" unfolding same by simp
      then show ?thesis using False Some d validate_admissible [OF p]
        by (cases "pkg_locked p") (auto simp: pkg_jobs_universe_add_pkg_def)
    qed
  qed
qed

section \<open>The recursion ends\<close>

text \<open>The databases: every answer is admissible, and a query for a uid answers packages with it.\<close>

definition env_ok :: "pkg_id set \<Rightarrow> job_env \<Rightarrow> bool" where
  "env_ok K env \<longleftrightarrow> consistent K \<and>
     (\<forall>uid p. je_local env uid = Some p \<longrightarrow> admissible K p \<and> pkg_uid p = uid) \<and>
     (\<forall>uid. \<forall>p \<in> set (je_remote env uid). admissible K p \<and> pkg_uid p = uid) \<and>
     (\<forall>n. \<forall>p \<in> set (je_shlib_local env n) \<union> set (je_shlib_remote env n) \<union>
        set (je_provide_local env n) \<union> set (je_provide_remote env n). admissible K p)"

text \<open>A run that returns in a state that is well-formed and extends the one it started in.\<close>

definition runs :: "pkg_id set \<Rightarrow> universe \<Rightarrow> ('a \<times> universe) option \<Rightarrow> bool" where
  "runs K u x \<longleftrightarrow> (\<exists>a u'. x = Some (a, u') \<and> universe_ok K u' \<and> extends u u')"

lemma runsI: "x = Some (a, u') \<Longrightarrow> universe_ok K u' \<Longrightarrow> extends u u' \<Longrightarrow> runs K u x"
  by (auto simp: runs_def)

lemma runs_extends: "extends u v \<Longrightarrow> runs K v x \<Longrightarrow> runs K u x"
  unfolding runs_def using extends_trans by blast

text \<open>What the callers need of the recursive call, from \<open>m\<close> processed items on.\<close>

definition process_ok :: "pkg_id set \<Rightarrow> nat \<Rightarrow> process \<Rightarrow> bool" where
  "process_ok K m rec \<longleftrightarrow> (\<forall>u p. universe_ok K u \<longrightarrow> admissible K p \<longrightarrow> m \<le> card (processed u) \<longrightarrow>
     (\<exists>rc f u'. rec u p = Some (rc, f, p, u') \<and> universe_ok K u' \<and> extends u u'))"

lemma process_okE:
  assumes "process_ok K m rec" "universe_ok K u" "admissible K p" "m \<le> card (processed u)"
  obtains rc f u' where "rec u p = Some (rc, f, p, u')" "universe_ok K u'" "extends u u'" "m \<le> card (processed u')"
  using assms unfolding process_ok_def by (meson extends_card le_trans)

lemma admissible_update [simp]:
  "admissible K (p\<lparr>pkg_reason := r\<rparr>) = admissible K p" "admissible K (p\<lparr>pkg_automatic := b\<rparr>) = admissible K p"
  by (simp_all add: admissible_def)

lemma need_upgrade_admissible:
  "pkg_jobs_need_upgrade r n = (b, r') \<Longrightarrow> admissible K r \<Longrightarrow> admissible K r'"
  by (auto simp: pkg_jobs_need_upgrade_def Let_def split: option.splits if_splits)

lemma process_remotes_runs:
  assumes rec: "process_ok K m rec"
  shows "universe_ok K u \<Longrightarrow> m \<le> card (processed u) \<Longrightarrow> \<forall>r \<in> set rs. admissible K r \<Longrightarrow>
    runs K u (process_remotes rec npkg rs u)"
proof (induction rs arbitrary: u)
  case Nil
  then show ?case by (auto intro: runsI)
next
  case (Cons r rs)
  show ?case
  proof (cases npkg)
    case None
    obtain rc f u' where u': "rec u r = Some (rc, f, r, u')" "universe_ok K u'" "extends u u'" "m \<le> card (processed u')"
      using process_okE [OF rec Cons.prems(1) _ Cons.prems(2), of r] Cons.prems(3) by auto
    then show ?thesis
      using None Cons.IH [of u'] Cons.prems(3) by (auto intro: runsI runs_extends)
  next
    case (Some n)
    obtain b r' where nu: "pkg_jobs_need_upgrade r (Some n) = (b, r')" by fastforce
    show ?thesis
    proof (cases b)
      case True
      let ?r = "r'\<lparr>pkg_automatic := pkg_automatic n\<rparr>"
      have "admissible K ?r" using need_upgrade_admissible [OF nu] Cons.prems(3) by simp
      from process_okE [OF rec Cons.prems(1) this Cons.prems(2)] obtain rc f u' where
        u': "rec u ?r = Some (rc, f, ?r, u')" "universe_ok K u'" "extends u u'" "m \<le> card (processed u')" by blast
      then show ?thesis
        using Some nu True Cons.IH [of u'] Cons.prems(3) by (auto intro: runs_extends)
    next
      case False
      then show ?thesis using Some nu Cons by simp
    qed
  qed
qed

lemma dep_candidates_set: "set (dep_candidates p rs) \<subseteq> set rs"
  by (auto simp: dep_candidates_def split: option.split dest: find_SomeD)

lemma get_remote_set: "pkg_jobs_universe_get_remote env u uid = Some rs \<Longrightarrow> set rs = set (je_remote env uid) \<and> rs \<noteq> []"
proof (cases "rev (je_remote env uid)")
  case (Cons r ys)
  then have "set (je_remote env uid) = set (r # ys)" by (metis set_rev)
  then show "pkg_jobs_universe_get_remote env u uid = Some rs \<Longrightarrow> ?thesis"
    using Cons by (auto simp: pkg_jobs_universe_get_remote_def split: option.splits if_splits)
qed (auto simp: pkg_jobs_universe_get_remote_def split: option.splits if_splits)

lemma get_remote_admissible:
  "env_ok K env \<Longrightarrow> pkg_jobs_universe_get_remote env u uid = Some rs \<Longrightarrow> \<forall>r \<in> set rs. admissible K r \<and> pkg_uid r = uid"
  using get_remote_set [of env u uid rs] by (simp add: env_ok_def)

lemma get_local_admissible:
  assumes "universe_ok K u" "env_ok K env" "pkg_jobs_universe_get_local env u uid = Some p"
  shows "admissible K p"
proof (cases "pkg_jobs_universe_find u uid")
  case None
  then show ?thesis using assms by (auto simp: pkg_jobs_universe_get_local_def env_ok_def)
next
  case (Some c)
  then have c: "c = uid_ids u uid" "c \<noteq> []"
    using assms(1) by (auto simp: pkg_jobs_universe_find_def universe_ok_def split: if_splits)
  then have "hd c \<in> set (uid_ids u uid)" by simp
  then have "admissible K (item_pkg u (hd c))" using assms(1) by (simp add: uid_ids_def universe_ok_def)
  then show ?thesis
    using assms(2,3) Some by (auto simp: pkg_jobs_universe_get_local_def env_ok_def split: if_splits)
qed

lemma process_dep_runs:
  assumes rec: "process_ok K m rec" and env: "env_ok K env" and ok: "universe_ok K u" and m: "m \<le> card (processed u)"
  shows "runs K u (process_dep rec env flags p u d)"
proof (cases "pkg_jobs_universe_find u (dep_uid d)")
  case (Some c)
  then show ?thesis using ok by (auto simp: process_dep_def intro: runsI)
next
  case None
  define L where "L = (if df_mirror flags then None else pkg_jobs_universe_get_local env u (dep_uid d))"
  define R where "R = (if df_force_local flags then None else pkg_jobs_universe_get_remote env u (dep_uid d))"
  have r: "\<forall>x \<in> set (dep_candidates p rs). admissible K x" if "R = Some rs" for rs
    using get_remote_admissible [OF env] dep_candidates_set [of p rs] that by (auto simp: R_def split: if_splits)
  show ?thesis
  proof (cases L)
    case L: None
    then show ?thesis
      using None process_remotes_runs [OF rec ok m r] ok
      by (cases R) (auto simp: process_dep_def L_def [symmetric] R_def [symmetric] intro: runsI)
  next
    case L: (Some n)
    then have "admissible K n" using get_local_admissible [OF ok env] by (auto simp: L_def split: if_splits)
    from process_okE [OF rec ok this m] obtain rc f u' where
      u': "rec u n = Some (rc, f, n, u')" "universe_ok K u'" "extends u u'" "m \<le> card (processed u')" by blast
    have "runs K u (process_remotes rec (Some n) (dep_candidates p rs) u')" if "R = Some rs" for rs
      using process_remotes_runs [OF rec u'(2,4) r [OF that]] by (rule runs_extends [OF u'(3)])
    then show ?thesis
      using None L u'
      by (cases R) (auto simp: process_dep_def L_def [symmetric] R_def [symmetric] intro: runsI)
  qed
qed

lemma process_dep_list_runs:
  assumes rec: "process_ok K m rec" and env: "env_ok K env"
  shows "universe_ok K u \<Longrightarrow> m \<le> card (processed u) \<Longrightarrow> runs K u (process_dep_list rec env flags p ds u)"
proof (induction ds arbitrary: u)
  case Nil
  then show ?case by (auto intro: runsI)
next
  case (Cons d ds)
  from process_dep_runs [OF rec env Cons.prems] obtain a u' where
    u': "process_dep rec env flags p u d = Some (a, u')" "universe_ok K u'" "extends u u'" unfolding runs_def by blast
  moreover have "m \<le> card (processed u')" using u' Cons.prems(2) extends_card le_trans by blast
  ultimately show ?case using Cons.IH [of u'] by (auto intro: runsI runs_extends split: option.split)
qed

lemma provides_irrelevant:
  "universe_ok K (u\<lparr>u_provides := x\<rparr>) = universe_ok K u" "extends v (u\<lparr>u_provides := x\<rparr>) = extends v u"
  by (simp_all add: universe_ok_def uid_ids_def digest_ids_def item_pkg_def extends_def)

lemma add_provide_keeps:
  "universe_ok K u \<Longrightarrow> extends v u \<Longrightarrow> universe_ok K (snd (add_provide nm b i h u)) \<and> extends v (snd (add_provide nm b i h u))"
  by (auto simp: add_provide_def Let_def provides_irrelevant split: option.split prod.split)

lemma provide_unit_runs:
  assumes rec: "process_ok K m rec" and env: "env_ok K env" and ok: "universe_ok K u" and m: "m \<le> card (processed u)"
    and r: "admissible K r"
  shows "runs K u (provide_unit rec env u r)"
proof (cases "pkg_jobs_universe_find u (pkg_uid r) \<noteq> None")
  case True
  from process_okE [OF rec ok r m] obtain rc f u' where
    "rec u r = Some (rc, f, r, u')" "universe_ok K u'" "extends u u'" by blast
  then show ?thesis using True by (auto simp: provide_unit_def intro: runsI)
next
  case find: False
  show ?thesis
  proof (cases "pkg_jobs_universe_get_local env u (pkg_uid r)")
    case None
    have "pkg_digest r \<noteq> None" using r by (auto simp: admissible_def)
    moreover from process_okE [OF rec ok r m] obtain rc f u' where
      "rec u r = Some (rc, f, r, u')" "universe_ok K u'" "extends u u'" by blast
    ultimately show ?thesis using find None by (auto simp: provide_unit_def intro: runsI)
  next
    case (Some n)
    from process_okE [OF rec ok get_local_admissible [OF ok env Some] m] obtain rc f u' where
      u': "rec u n = Some (rc, f, n, u')" "universe_ok K u'" "extends u u'" "m \<le> card (processed u')" by blast
    from process_okE [OF rec u'(2) r u'(4)] obtain rc' f' u'' where
      u'': "rec u' r = Some (rc', f', r, u'')" "universe_ok K u''" "extends u' u''" by blast
    then show ?thesis
      using find Some u' extends_trans [OF u'(3) u''(3)] by (auto simp: provide_unit_def intro: runsI)
  qed
qed

lemma provide_loop_runs:
  assumes rec: "process_ok K m rec" and env: "env_ok K env"
  shows "universe_ok K u \<Longrightarrow> m \<le> card (processed u) \<Longrightarrow> \<forall>r \<in> set rs. admissible K r \<Longrightarrow>
    runs K u (provide_loop rec env nm b h rs u)"
proof (induction rs arbitrary: u h)
  case Nil
  then show ?case by (auto intro: runsI)
next
  case (Cons r rs)
  from provide_unit_runs [OF rec env Cons.prems(1,2)] Cons.prems(3) obtain a u' where
    u': "provide_unit rec env u r = Some (a, u')" "universe_ok K u'" "extends u u'" unfolding runs_def by fastforce
  have m: "m \<le> card (processed v)" if "extends u v" for v using that Cons.prems(2) extends_card le_trans by blast
  show ?case
  proof (cases a)
    case Skip
    then show ?thesis using u' Cons.IH [of u' h] Cons.prems(3) m by (auto intro: runs_extends)
  next
    case (Return rc)
    then show ?thesis using u' by (auto intro: runsI)
  next
    case (Register i)
    obtain h' v where v: "add_provide nm b i h u' = (h', v)" by fastforce
    then have "universe_ok K v" "extends u v" using add_provide_keeps [OF u'(2,3), of nm b i h] by simp_all
    then show ?thesis
      using Register u'(1) v Cons.IH [of v h'] Cons.prems(3) m by (auto intro: runs_extends)
  qed
qed

lemma handle_provide_runs:
  assumes "process_ok K m rec" "env_ok K env" "universe_ok K u" "m \<le> card (processed u)"
    "\<forall>r \<in> set rs. admissible K r"
  shows "runs K u (pkg_jobs_universe_handle_provide rec env nm b rs u)"
  unfolding pkg_jobs_universe_handle_provide_def by (rule provide_loop_runs [OF assms])

text \<open>Two provide searches, for the local packages and for the repositories.\<close>

lemma two_provides:
  assumes "process_ok K m rec" "env_ok K env" "universe_ok K u" "m \<le> card (processed u)"
    "\<forall>r \<in> set rs. admissible K r" "\<forall>r \<in> set rs'. admissible K r"
  obtains rc1 u1 rc2 u2 where "pkg_jobs_universe_handle_provide rec env nm b rs u = Some (rc1, u1)"
    "pkg_jobs_universe_handle_provide rec env nm b rs' u1 = Some (rc2, u2)"
    "universe_ok K u2" "extends u u2" "m \<le> card (processed u2)"
proof -
  from handle_provide_runs [OF assms(1-5)] obtain rc1 u1 where
    u1: "pkg_jobs_universe_handle_provide rec env nm b rs u = Some (rc1, u1)" "universe_ok K u1" "extends u u1"
    unfolding runs_def by blast
  have m1: "m \<le> card (processed u1)" using u1(3) assms(4) extends_card le_trans by blast
  from handle_provide_runs [OF assms(1,2) u1(2) m1 assms(6)] obtain rc2 u2 where
    u2: "pkg_jobs_universe_handle_provide rec env nm b rs' u1 = Some (rc2, u2)" "universe_ok K u2" "extends u1 u2"
    unfolding runs_def by blast
  have "m \<le> card (processed u2)" using u2(3) m1 extends_card le_trans by blast
  then show thesis using that u1 u2 extends_trans by blast
qed

lemma process_shlib_list_runs:
  assumes rec: "process_ok K m rec" and env: "env_ok K env"
  shows "universe_ok K u \<Longrightarrow> m \<le> card (processed u) \<Longrightarrow> runs K u (process_shlib_list rec env bs u)"
proof (induction bs arbitrary: u)
  case Nil
  then show ?case by (auto intro: runsI)
next
  case (Cons b bs)
  have adm: "\<forall>r \<in> set (je_shlib_local env b). admissible K r" "\<forall>r \<in> set (je_shlib_remote env b). admissible K r"
    using env by (auto simp: env_ok_def)
  from two_provides [OF rec env Cons.prems adm, where nm = b and b = True] obtain rc1 u1 rc2 u2 where
    u: "pkg_jobs_universe_handle_provide rec env b True (je_shlib_local env b) u = Some (rc1, u1)"
      "pkg_jobs_universe_handle_provide rec env b True (je_shlib_remote env b) u1 = Some (rc2, u2)"
      "universe_ok K u2" "extends u u2" "m \<le> card (processed u2)" .
  from Cons.IH [OF u(3,5)] Cons.IH [OF Cons.prems] show ?case
    using u by (auto intro: runs_extends)
qed

lemma process_require_list_runs:
  assumes rec: "process_ok K m rec" and env: "env_ok K env"
  shows "universe_ok K u \<Longrightarrow> m \<le> card (processed u) \<Longrightarrow> runs K u (process_require_list rec env bs u)"
proof (induction bs arbitrary: u)
  case Nil
  then show ?case by (auto intro: runsI)
next
  case (Cons b bs)
  have adm: "\<forall>r \<in> set (je_provide_local env b). admissible K r" "\<forall>r \<in> set (je_provide_remote env b). admissible K r"
    using env by (auto simp: env_ok_def)
  from two_provides [OF rec env Cons.prems adm, where nm = b and b = False] obtain rc1 u1 rc2 u2 where
    u: "pkg_jobs_universe_handle_provide rec env b False (je_provide_local env b) u = Some (rc1, u1)"
      "pkg_jobs_universe_handle_provide rec env b False (je_provide_remote env b) u1 = Some (rc2, u2)"
      "universe_ok K u2" "extends u u2" "m \<le> card (processed u2)" .
  from Cons.IH [OF u(3,5)] Cons.IH [OF Cons.prems] show ?case
    using u by (auto intro: runsI runs_extends)
qed

lemma and_then_runs:
  assumes "runs K u x" "\<And>v. universe_ok K v \<Longrightarrow> extends u v \<Longrightarrow> runs K v (f v)"
  shows "runs K u (and_then x f)"
proof -
  from assms(1) obtain rc v where v: "x = Some (rc, v)" "universe_ok K v" "extends u v" unfolding runs_def by blast
  show ?thesis using v assms(2) [OF v(2,3)] by (auto simp: and_then_def intro: runsI runs_extends)
qed

lemma process_by_type_runs:
  assumes rec: "process_ok K m rec" and env: "env_ok K env" and ok: "universe_ok K u" and m: "m \<le> card (processed u)"
  shows "runs K u (process_by_type rec env rc0 p u)"
proof -
  have mv: "m \<le> card (processed v)" if "extends u v" for v using that m extends_card le_trans by blast
  have deps: "runs K v (pkg_jobs_universe_process_deps rec env flags p v)" if "universe_ok K v" "extends u v" for flags v
    unfolding pkg_jobs_universe_process_deps_def by (rule process_dep_list_runs [OF rec env that(1) mv [OF that(2)]])
  have "runs K v (pkg_jobs_universe_process_shlibs rec env p v)" if "universe_ok K v" "extends u v" for v
    unfolding pkg_jobs_universe_process_shlibs_def by (rule process_shlib_list_runs [OF rec env that(1) mv [OF that(2)]])
  moreover have "runs K v (pkg_jobs_universe_process_provides_requires rec env p v)" if "universe_ok K v" "extends u v" for v
    unfolding pkg_jobs_universe_process_provides_requires_def
    by (rule process_require_list_runs [OF rec env that(1) mv [OF that(2)]])
  ultimately have "runs K u (and_then (and_then (and_then (pkg_jobs_universe_process_deps rec env fl p u)
      (pkg_jobs_universe_process_deps rec env fl' p)) (pkg_jobs_universe_process_shlibs rec env p))
      (pkg_jobs_universe_process_provides_requires rec env p))" for fl fl'
    using deps [OF ok extends_refl] deps by (intro and_then_runs) simp_all
  then show ?thesis
    using deps [OF ok extends_refl] ok by (auto simp: process_by_type_def Let_def intro: runsI split: pkg_jobs_type.split)
qed

lemma mark_processed_keeps:
  assumes "i < length (u_items u)"
  shows "universe_ok K (mark_processed i u) = universe_ok K u" "extends u (mark_processed i u)"
    "processed (mark_processed i u) = insert i (processed u)"
proof -
  have pkg: "item_pkg (mark_processed i u) j = item_pkg u j" for j
    using assms by (simp add: item_pkg_def mark_processed_def nth_list_update)
  have len: "length (u_items (mark_processed i u)) = length (u_items u)" by (simp add: mark_processed_def)
  show "universe_ok K (mark_processed i u) = universe_ok K u"
    by (simp add: universe_ok_def uid_ids_def digest_ids_def pkg len) (simp add: mark_processed_def)
  show "extends u (mark_processed i u)" "processed (mark_processed i u) = insert i (processed u)"
    using assms pkg len by (auto simp: extends_def processed_def mark_processed_def nth_list_update)
qed

lemma process_item_ok:
  assumes env: "env_ok K env"
  shows "process_ok K (card K + 1 - n) (pkg_jobs_universe_process_item env n)"
proof (induction n)
  case 0
  have "finite K" using env by (simp add: env_ok_def consistent_def)
  then show ?case unfolding process_ok_def by (auto dest: processed_bound)
next
  case (Suc n)
  have K: "consistent K" using env by (simp add: env_ok_def)
  show ?case
    unfolding process_ok_def
  proof (intro allI impI)
    fix u p assume ok: "universe_ok K u" and p: "admissible K p" and m: "card K + 1 - Suc n \<le> card (processed u)"
    let ?run = "pkg_jobs_universe_process_item env (Suc n) u p"
    have go: "\<exists>rc u''. process_by_type (pkg_jobs_universe_process_item env n) env rc0 p (mark_processed i v) = Some (rc, u'')
        \<and> universe_ok K u'' \<and> extends v u''"
      if "universe_ok K v" "extends u v" "i < length (u_items v)" "\<not> ui_processed (u_items v ! i)" for rc0 v i
    proof -
      have "i \<notin> processed v" using that(4) by (simp add: processed_def)
      then have "card (processed (mark_processed i v)) = Suc (card (processed v))"
        using mark_processed_keeps(3) [OF that(3)] by simp
      moreover have "card (processed u) \<le> card (processed v)" using that(2) by (rule extends_card)
      ultimately have "card K + 1 - n \<le> card (processed (mark_processed i v))" using m by linarith
      from process_by_type_runs [OF Suc.IH env _ this] mark_processed_keeps(1,2) [OF that(3)] that(1)
      show ?thesis unfolding runs_def using extends_trans by blast
    qed
    from add_pkg_cases [OF ok K p, of env] consider
      (seen) s where "s < length (u_items u)" "pkg_jobs_universe_add_pkg env u p = Some (EPKG_END, Some s, p, u)"
      | (locked) "pkg_jobs_universe_add_pkg env u p = Some (EPKG_LOCKED, None, p, u)"
      | (added) d where "\<forall>i < length (u_items u). pkg_key (item_pkg u i) \<noteq> pkg_key p" "pkg_digest p = Some d"
          "pkg_jobs_universe_add_pkg env u p = Some (EPKG_OK, Some (length (u_items u)), p, add_item u p d)"
      by blast
    then show "\<exists>rc f u'. ?run = Some (rc, f, p, u') \<and> universe_ok K u' \<and> extends u u'"
    proof cases
      case seen
      then show ?thesis using ok go [where ?rc0.0 = EPKG_END, OF ok extends_refl seen(1)] by auto
    next
      case locked
      then show ?thesis using ok by auto
    next
      case added
      have "\<not> ui_processed (u_items (add_item u p d) ! length (u_items u))"
        by (simp add: add_item_def new_item_def)
      then show ?thesis
        using go [where i = "length (u_items u)" and ?rc0.0 = EPKG_OK, OF universe_ok_add_item [OF ok p added(2,1)] extends_add_item] added(3)
          extends_trans [OF extends_add_item] by auto
    qed
  qed
qed

section \<open>Dependencies are collected\<close>

definition has_uid :: "universe \<Rightarrow> string \<Rightarrow> bool" where
  "has_uid u uid \<longleftrightarrow> (\<exists>i < length (u_items u). pkg_uid (item_pkg u i) = uid)"

lemma find_has_uid: "universe_ok K u \<Longrightarrow> pkg_jobs_universe_find u uid \<noteq> None \<longleftrightarrow> has_uid u uid"
  by (auto simp: universe_ok_def pkg_jobs_universe_find_def has_uid_def uid_ids_def filter_empty_conv)

lemma has_uid_extends: "has_uid u uid \<Longrightarrow> extends u u' \<Longrightarrow> has_uid u' uid"
  unfolding has_uid_def extends_def by (metis order_less_le_trans)

text \<open>An unlocked package that is processed has its uid in the universe, whatever the outcome.\<close>

definition process_adds :: "pkg_id set \<Rightarrow> nat \<Rightarrow> process \<Rightarrow> bool" where
  "process_adds K m rec \<longleftrightarrow> (\<forall>u p rc f p' u'. universe_ok K u \<longrightarrow> admissible K p \<longrightarrow> \<not> pkg_locked p \<longrightarrow>
     m \<le> card (processed u) \<longrightarrow> rec u p = Some (rc, f, p', u') \<longrightarrow> has_uid u' (pkg_uid p))"

definition nothing_locked :: "job_env \<Rightarrow> bool" where
  "nothing_locked env \<longleftrightarrow> (\<forall>uid p. je_local env uid = Some p \<longrightarrow> \<not> pkg_locked p) \<and>
     (\<forall>uid. \<forall>p \<in> set (je_remote env uid). \<not> pkg_locked p)"

lemma process_item_adds:
  assumes env: "env_ok K env"
  shows "process_adds K (card K + 1 - n) (pkg_jobs_universe_process_item env n)"
  unfolding process_adds_def
proof (intro allI impI)
  fix u p rc f p' u'
  assume ok: "universe_ok K u" and p: "admissible K p" "\<not> pkg_locked p" and m: "card K + 1 - n \<le> card (processed u)"
    and run: "pkg_jobs_universe_process_item env n u p = Some (rc, f, p', u')"
  have K: "consistent K" using env by (simp add: env_ok_def)
  have finK: "finite K" using K by (simp add: consistent_def)
  have n: "n \<noteq> 0" using run by (cases n) auto
  then obtain k where k: "n = Suc k" by (cases n) auto
  have go: "has_uid u' (pkg_uid p)"
    if "universe_ok K v" "i < length (u_items v)" "has_uid v (pkg_uid p)" "extends u v" "\<not> ui_processed (u_items v ! i)"
      "process_by_type (pkg_jobs_universe_process_item env k) env rc0 p (mark_processed i v) = Some (rc, u')" for rc0 v i
  proof -
    have "i \<notin> processed v" using that(5) by (simp add: processed_def)
    then have "card (processed (mark_processed i v)) = Suc (card (processed v))"
      using mark_processed_keeps(3) [OF that(2)] by simp
    moreover have "card (processed u) \<le> card (processed v)" using that(4) by (rule extends_card)
    ultimately have "card K + 1 - k \<le> card (processed (mark_processed i v))" using m k by linarith
    from process_by_type_runs [OF process_item_ok [OF env] env _ this, of rc0 p] mark_processed_keeps(1,2) [OF that(2)] that(1,6)
    have "extends v u'" unfolding runs_def using extends_trans by fastforce
    then show ?thesis using that(3) has_uid_extends by blast
  qed
  from add_pkg_cases [OF ok K p(1), of env] p(2) consider
    (seen) s i where "s < length (u_items u)" "pkg_jobs_universe_add_pkg env u p = Some (EPKG_END, Some s, p, u)"
      "i < length (u_items u)" "pkg_key (item_pkg u i) = pkg_key p"
    | (added) d where "\<forall>i < length (u_items u). pkg_key (item_pkg u i) \<noteq> pkg_key p" "pkg_digest p = Some d"
        "pkg_jobs_universe_add_pkg env u p = Some (EPKG_OK, Some (length (u_items u)), p, add_item u p d)"
    by blast
  then show "has_uid u' (pkg_uid p)"
  proof cases
    case seen
    have "admissible K (item_pkg u i)" using ok seen(3) by (simp add: universe_ok_def)
    then have "pkg_uid (item_pkg u i) = pkg_uid p"
      using consistentD(1) [OF K _ p(1)] seen(4) by (simp add: pkg_key_def)
    then have has: "has_uid u (pkg_uid p)" using seen(3) by (auto simp: has_uid_def)
    show ?thesis
      using run k seen(2) has go [OF ok seen(1) has extends_refl] by (auto split: if_splits option.splits)
  next
    case added
    have new: "\<not> ui_processed (u_items (add_item u p d) ! length (u_items u))" by (simp add: add_item_def new_item_def)
    have "has_uid (add_item u p d) (pkg_uid p)"
      unfolding has_uid_def by (intro exI [of _ "length (u_items u)"]) (simp add: item_pkg_add_item)
    from go [OF universe_ok_add_item [OF ok p(1) added(2,1)] _ this extends_add_item new] show ?thesis
      using run k added(3) by (auto split: option.splits)
  qed
qed

lemma process_remotes_adds:
  assumes rec: "process_ok K m rec" and adds: "process_adds K m rec" and ok: "universe_ok K u" and m: "m \<le> card (processed u)"
    and rs: "\<forall>r \<in> set rs. admissible K r \<and> \<not> pkg_locked r \<and> pkg_uid r = uid" "rs \<noteq> []"
    and run: "process_remotes rec None rs u = Some (None, u')"
  shows "has_uid u' uid"
proof -
  obtain r rs' where r: "rs = r # rs'" using rs(2) by (cases rs) auto
  from process_okE [OF rec ok _ m, of r] rs(1) r obtain rc f v where
    v: "rec u r = Some (rc, f, r, v)" "universe_ok K v" "extends u v" "m \<le> card (processed v)" by auto
  have "pkg_uid r = uid" "\<not> pkg_locked r" "admissible K r" using rs(1) r by auto
  then have "has_uid v uid" using adds ok m v(1) unfolding process_adds_def by blast
  moreover have "rc = EPKG_OK" using run r v(1) by (simp split: if_splits)
  then have "process_remotes rec None rs' v = Some (None, u')" using run r v(1) by simp
  then have "extends v u'"
    using process_remotes_runs [OF rec v(2,4), of rs' None] rs(1) r by (auto simp: runs_def)
  ultimately show ?thesis by (rule has_uid_extends)
qed

lemma process_dep_adds:
  assumes rec: "process_ok K m rec" and adds: "process_adds K m rec" and env: "env_ok K env" and nl: "nothing_locked env"
    and ok: "universe_ok K u" and m: "m \<le> card (processed u)" and fm: "\<not> df_force_missing flags"
    and run: "process_dep rec env flags p u d = Some (None, u')"
  shows "has_uid u' (dep_uid d)"
proof (cases "pkg_jobs_universe_find u (dep_uid d)")
  case (Some c)
  then have "has_uid u (dep_uid d)" using find_has_uid [OF ok, of "dep_uid d"] by simp
  then show ?thesis using run Some by (simp add: process_dep_def)
next
  case None
  let ?uid = "dep_uid d"
  define L where "L = (if df_mirror flags then None else pkg_jobs_universe_get_local env u ?uid)"
  define R where "R = (if df_force_local flags then None else pkg_jobs_universe_get_remote env u ?uid)"
  have r: "\<forall>x \<in> set (dep_candidates p rs). admissible K x \<and> \<not> pkg_locked x \<and> pkg_uid x = ?uid" "dep_candidates p rs \<noteq> []"
    if "R = Some rs" for rs
  proof -
    have g: "pkg_jobs_universe_get_remote env u ?uid = Some rs" using that by (simp add: R_def split: if_splits)
    have s: "set (dep_candidates p rs) \<subseteq> set (je_remote env ?uid)"
      using get_remote_set [OF g] dep_candidates_set [of p rs] by blast
    then show "\<forall>x \<in> set (dep_candidates p rs). admissible K x \<and> \<not> pkg_locked x \<and> pkg_uid x = ?uid"
      using env nl by (auto simp: env_ok_def nothing_locked_def)
    show "dep_candidates p rs \<noteq> []"
      using get_remote_set [OF g] by (auto simp: dep_candidates_def split: option.split)
  qed
  have run': "process_dep rec env flags p u d =
      (if L = None \<and> R = None then Some (Some EPKG_FATAL, u)
       else (case L of None \<Rightarrow> (case R of None \<Rightarrow> Some (None, u) | Some rs \<Rightarrow> process_remotes rec None (dep_candidates p rs) u)
         | Some n \<Rightarrow> (case rec u n of None \<Rightarrow> None | Some (rc, _, n', u') \<Rightarrow>
             if rc \<noteq> EPKG_OK then Some (None, u')
             else (case R of None \<Rightarrow> Some (None, u') | Some rs \<Rightarrow> process_remotes rec (Some n') (dep_candidates p rs) u'))))"
    using None fm by (simp add: process_dep_def L_def [symmetric] R_def [symmetric])
  show ?thesis
  proof (cases L)
    case L: None
    then obtain rs where "R = Some rs" using run run' by (cases R) auto
    then show ?thesis
      using process_remotes_adds [OF rec adds ok m r [OF \<open>R = Some rs\<close>]] run run' L by simp
  next
    case L: (Some n)
    then have "je_local env ?uid = Some n"
      using None by (simp add: L_def pkg_jobs_universe_get_local_def split: if_splits)
    then have n: "admissible K n" "\<not> pkg_locked n" "pkg_uid n = ?uid" using env nl by (auto simp: env_ok_def nothing_locked_def)
    from process_okE [OF rec ok n(1) m] obtain rc f v where
      v: "rec u n = Some (rc, f, n, v)" "universe_ok K v" "extends u v" "m \<le> card (processed v)" by blast
    have "has_uid v ?uid" using adds ok m v(1) n unfolding process_adds_def by metis
    moreover have "extends v u'"
    proof (cases "rc = EPKG_OK")
      case False
      then show ?thesis using run run' L v(1) by simp
    next
      case True
      show ?thesis
      proof (cases R)
        case None
        then show ?thesis using True run run' L v(1) by simp
      next
        case (Some rs)
        then have "process_remotes rec (Some n) (dep_candidates p rs) v = Some (None, u')"
          using True run run' L v(1) by simp
        then show ?thesis
          using process_remotes_runs [OF rec v(2,4), of "dep_candidates p rs" "Some n"] r(1) [OF Some] by (auto simp: runs_def)
      qed
    qed
    ultimately show ?thesis by (rule has_uid_extends)
  qed
qed

lemma process_remotes_early: "process_remotes rec npkg rs u = Some (Some rc, u') \<Longrightarrow> rc \<noteq> EPKG_OK"
  by (induction rec npkg rs u rule: process_remotes.induct) (auto split: option.splits prod.splits bool.splits if_splits)

lemma process_dep_early: "process_dep rec env flags p u d = Some (Some rc, u') \<Longrightarrow> rc \<noteq> EPKG_OK"
  by (auto simp: process_dep_def Let_def dest: process_remotes_early split: option.splits prod.splits if_splits)

lemma process_dep_list_adds:
  assumes rec: "process_ok K m rec" and adds: "process_adds K m rec" and env: "env_ok K env" and nl: "nothing_locked env"
    and fm: "\<not> df_force_missing flags"
  shows "universe_ok K u \<Longrightarrow> m \<le> card (processed u) \<Longrightarrow> process_dep_list rec env flags p ds u = Some (EPKG_OK, u') \<Longrightarrow>
    \<forall>d \<in> set ds. has_uid u' (dep_uid d)"
proof (induction ds arbitrary: u)
  case (Cons d ds)
  from process_dep_runs [OF rec env Cons.prems(1,2)] obtain a v where
    v: "process_dep rec env flags p u d = Some (a, v)" "universe_ok K v" "extends u v" unfolding runs_def by blast
  have m: "m \<le> card (processed v)" using v(3) Cons.prems(2) extends_card le_trans by blast
  have a: "a = None"
  proof (rule ccontr)
    assume "a \<noteq> None"
    then obtain rc where rc: "a = Some rc" by auto
    then have "rc \<noteq> EPKG_OK" using v(1) process_dep_early by blast
    then show False using Cons.prems(3) v(1) rc by simp
  qed
  then have rest: "process_dep_list rec env flags p ds v = Some (EPKG_OK, u')" using Cons.prems(3) v(1) by simp
  have "extends v u'" using process_dep_list_runs [OF rec env v(2) m, of flags p ds] rest by (auto simp: runs_def)
  moreover have "has_uid v (dep_uid d)" using process_dep_adds [OF rec adds env nl Cons.prems(1,2) fm] v(1) a by blast
  ultimately show ?case using Cons.IH [OF v(2) m rest] has_uid_extends by auto
qed simp

text \<open>The sequence of an install job: dependencies, reverse dependencies, libraries, features.\<close>

lemma and_then_OK: "and_then x f = Some (EPKG_OK, z) \<Longrightarrow> \<exists>w. x = Some (EPKG_OK, w) \<and> f w = Some (EPKG_OK, z)"
  by (auto simp: and_then_def split: option.splits if_splits)

lemma install_sequence:
  assumes "process_by_type rec env rc0 p v = Some (EPKG_OK, u')" "je_type env = PKG_JOBS_INSTALL \<or> je_type env = PKG_JOBS_UPGRADE"
  obtains w1 w2 w3 fl fr where
    "process_dep_list rec env fl p (pkg_depends p) v = Some (EPKG_OK, w1)"
    "process_dep_list rec env fr p (pkg_rdepends p) w1 = Some (EPKG_OK, w2)"
    "process_shlib_list rec env (pkg_shlibs_required p) w2 = Some (EPKG_OK, w3)"
    "process_require_list rec env (pkg_requires p) w3 = Some (EPKG_OK, u')"
    "df_force_missing fl = je_force_missing env" "df_force_missing fr = je_force_missing env"
proof -
  let ?fl = "no_flags\<lparr>df_force_missing := je_force_missing env\<rparr>"
  let ?fr = "?fl\<lparr>df_reverse := True\<rparr>"
  have "and_then (and_then (and_then (pkg_jobs_universe_process_deps rec env ?fl p v)
      (pkg_jobs_universe_process_deps rec env ?fr p)) (pkg_jobs_universe_process_shlibs rec env p))
      (pkg_jobs_universe_process_provides_requires rec env p) = Some (EPKG_OK, u')"
    using assms by (auto simp: process_by_type_def Let_def)
  then obtain w1 w2 w3 where "pkg_jobs_universe_process_deps rec env ?fl p v = Some (EPKG_OK, w1)"
    "pkg_jobs_universe_process_deps rec env ?fr p w1 = Some (EPKG_OK, w2)"
    "pkg_jobs_universe_process_shlibs rec env p w2 = Some (EPKG_OK, w3)"
    "pkg_jobs_universe_process_provides_requires rec env p w3 = Some (EPKG_OK, u')"
    by (blast dest: and_then_OK)
  then show thesis
    by (intro that [of ?fl w1 ?fr w2 w3])
      (simp_all add: pkg_jobs_universe_process_deps_def pkg_jobs_universe_process_shlibs_def
        pkg_jobs_universe_process_provides_requires_def no_flags_def)
qed

lemma install_collects_deps:
  assumes rec: "process_ok K m rec" "process_adds K m rec" and env: "env_ok K env" and "nothing_locked env" "\<not> je_force_missing env"
    and type: "je_type env = PKG_JOBS_INSTALL \<or> je_type env = PKG_JOBS_UPGRADE"
    and v: "universe_ok K v" "m \<le> card (processed v)" and run: "process_by_type rec env rc0 p v = Some (EPKG_OK, u')"
  shows "\<forall>d \<in> set (pkg_depends p) \<union> set (pkg_rdepends p). has_uid u' (dep_uid d)"
proof -
  from install_sequence [OF run type] obtain w1 w2 w3 fl fr where
    w: "process_dep_list rec env fl p (pkg_depends p) v = Some (EPKG_OK, w1)"
    "process_dep_list rec env fr p (pkg_rdepends p) w1 = Some (EPKG_OK, w2)"
    "process_shlib_list rec env (pkg_shlibs_required p) w2 = Some (EPKG_OK, w3)"
    "process_require_list rec env (pkg_requires p) w3 = Some (EPKG_OK, u')"
    and fl: "df_force_missing fl = je_force_missing env" "df_force_missing fr = je_force_missing env" .
  have m: "m \<le> card (processed w)" if "extends v w" for w using that v(2) extends_card le_trans by blast
  have o1: "universe_ok K w1 \<and> extends v w1"
    using process_dep_list_runs [OF rec(1) env v, of fl p "pkg_depends p"] w(1) by (auto simp: runs_def)
  then have o2: "universe_ok K w2 \<and> extends w1 w2 \<and> extends v w2"
    using process_dep_list_runs [OF rec(1) env _ m, of w1 fr p "pkg_rdepends p"] w(2) extends_trans by (auto simp: runs_def)
  then have o3: "universe_ok K w3 \<and> extends w2 w3 \<and> extends v w3"
    using process_shlib_list_runs [OF rec(1) env _ m, of w2 "pkg_shlibs_required p"] w(3) extends_trans by (auto simp: runs_def)
  then have o4: "extends w3 u'"
    using process_require_list_runs [OF rec(1) env _ m, of w3 "pkg_requires p"] w(4) by (auto simp: runs_def)
  have "\<forall>d \<in> set (pkg_depends p). has_uid w1 (dep_uid d)"
    using process_dep_list_adds [OF rec env assms(4) _ v w(1)] fl(1) assms(5) by simp
  moreover have "\<forall>d \<in> set (pkg_rdepends p). has_uid w2 (dep_uid d)"
    using process_dep_list_adds [OF rec env assms(4) _ _ m w(2)] fl(2) assms(5) o1 by simp
  moreover have "extends w1 u'" "extends w2 u'" using o2 o3 o4 extends_trans by blast+
  ultimately show ?thesis using has_uid_extends by blast
qed

section \<open>Properties\<close>

text \<open>C12. Processing a package returns for all finite, consistent databases: the recursion through
  dependencies, reverse dependencies, libraries and features is at most one deeper than the
  number of packages, and it keeps the invariant of the universe: no package twice, the chains
  and the table of digests exactly the items, items never lost.\<close>

theorem universe_process_returns:
  assumes "env_ok K env" "universe_ok K u" "admissible K p"
  shows "\<exists>rc f u'. pkg_jobs_universe_process_item env (card K + 1) u p = Some (rc, f, p, u') \<and>
    universe_ok K u' \<and> extends u u'"
  using process_item_ok [OF assms(1), of "card K + 1"] assms(2,3) unfolding process_ok_def by simp

definition sample_dep :: "string \<Rightarrow> pkg_dep" where
  "sample_dep n = \<lparr>dep_origin = n, dep_name = n, dep_version = ''1'', dep_uid = n, dep_alts = []\<rparr>"

definition repo_pkg :: "string \<Rightarrow> string \<Rightarrow> string list \<Rightarrow> string list \<Rightarrow> pkg" where
  "repo_pkg n v ds rs = blank_pkg\<lparr>pkg_name := n, pkg_uid := n, pkg_version := v, pkg_digest := Some (''2$2$'' @ n @ v),
     pkg_reponame := Some ''main'', pkg_depends := map sample_dep ds, pkg_rdepends := map sample_dep rs\<rparr>"

text \<open>Two packages that depend on each other in a circle.\<close>

definition zsh :: pkg where "zsh = repo_pkg ''zsh'' ''5'' [''pcre''] []"
definition pcre :: pkg where "pcre = repo_pkg ''pcre'' ''8'' [''zsh''] [''zsh'']"

definition sample_ids :: "pkg_id set" where
  "sample_ids = {(''zsh'', ''2$2$zsh5'', PKG_REMOTE, Some ''main''), (''pcre'', ''2$2$pcre8'', PKG_REMOTE, Some ''main'')}"

definition sample_env :: "pkg_jobs_type \<Rightarrow> job_env" where
  "sample_env t = \<lparr>je_type = t, je_recursive = True, je_force_missing = False, je_force = False,
     je_local = (\<lambda>_. None), je_remote = (\<lambda>n. if n = ''zsh'' then [zsh] else if n = ''pcre'' then [pcre] else []),
     je_shlib_local = (\<lambda>_. []), je_shlib_remote = (\<lambda>_. []), je_provide_local = (\<lambda>_. []), je_provide_remote = (\<lambda>_. []),
     je_loads = (\<lambda>_. True), je_blake2 = sample_blake2, je_sort = insertion_sort, je_repo_format = (\<lambda>_. None)\<rparr>"

lemma sample_digests: "pkg_checksum_is_valid ''2$2$zsh5''" "pkg_checksum_is_valid ''2$2$pcre8''"
  by code_simp+

lemma sample_admissible: "admissible sample_ids zsh" "admissible sample_ids pcre"
  using sample_digests by (simp_all add: admissible_def sample_ids_def zsh_def pcre_def repo_pkg_def blank_pkg_def)

lemma sample_env_ok: "env_ok sample_ids (sample_env t)"
proof -
  have "consistent sample_ids" by (auto simp: consistent_def sample_ids_def)
  then show ?thesis
    using sample_admissible by (auto simp: env_ok_def sample_env_def zsh_def pcre_def repo_pkg_def blank_pkg_def)
qed

theorem universe_process_returns_witness:
  "\<exists>rc f u'. pkg_jobs_universe_process_item (sample_env PKG_JOBS_INSTALL) 3 pkg_jobs_universe_new zsh = Some (rc, f, zsh, u')"
proof -
  have n: "card sample_ids + 1 = 3" by (simp add: sample_ids_def)
  from universe_process_returns [OF sample_env_ok universe_ok_new sample_admissible(1), of PKG_JOBS_INSTALL]
  show ?thesis unfolding n by blast
qed

text \<open>C11. An install or upgrade job that processes a new package successfully has collected all its
  direct dependencies and reverse dependencies, unless missing ones were to be ignored or a
  candidate is locked.\<close>

theorem universe_closed_under_dependencies:
  assumes env: "env_ok K env" and "nothing_locked env" "\<not> je_force_missing env"
    and type: "je_type env = PKG_JOBS_INSTALL \<or> je_type env = PKG_JOBS_UPGRADE"
    and ok: "universe_ok K u" and p: "admissible K p"
    and new: "\<forall>i < length (u_items u). pkg_key (item_pkg u i) \<noteq> pkg_key p"
    and run: "pkg_jobs_universe_process_item env (card K + 1) u p = Some (EPKG_OK, f, p', u')"
  shows "\<forall>d \<in> set (pkg_depends p) \<union> set (pkg_rdepends p). has_uid u' (dep_uid d)"
proof -
  let ?rec = "pkg_jobs_universe_process_item env (card K)"
  have K: "consistent K" using env by (simp add: env_ok_def)
  have rec: "process_ok K 1 ?rec" "process_adds K 1 ?rec"
    using process_item_ok [OF env, of "card K"] process_item_adds [OF env, of "card K"] by simp_all
  from add_pkg_cases [OF ok K p, of env] new run obtain d where d: "\<not> pkg_locked p" "pkg_digest p = Some d"
    "pkg_jobs_universe_add_pkg env u p = Some (EPKG_OK, Some (length (u_items u)), p, add_item u p d)"
    by (auto split: option.splits)
  let ?v = "mark_processed (length (u_items u)) (add_item u p d)"
  have lt: "length (u_items u) < length (u_items (add_item u p d))" by simp
  have "universe_ok K ?v" using universe_ok_add_item [OF ok p d(2) new] mark_processed_keeps(1) [OF lt] by simp
  moreover have "1 \<le> card (processed ?v)"
    unfolding mark_processed_keeps(3) [OF lt] using card_gt_0_iff [of "insert (length (u_items u)) (processed (add_item u p d))"] by simp
  moreover have "process_by_type ?rec env EPKG_OK p ?v = Some (EPKG_OK, u')"
    using run d(3) by (auto split: option.splits)
  ultimately show ?thesis using install_collects_deps [OF rec env assms(2,3) type] by blast
qed

theorem universe_closed_under_dependencies_witness:
  "\<exists>f p' u'. pkg_jobs_universe_process_item (sample_env PKG_JOBS_INSTALL) 3 pkg_jobs_universe_new zsh = Some (EPKG_OK, f, p', u') \<and>
     has_uid u' ''pcre''"
proof -
  have n: "card sample_ids + 1 = 3" by (simp add: sample_ids_def)
  have "map_option fst (pkg_jobs_universe_process_item (sample_env PKG_JOBS_INSTALL) 3 pkg_jobs_universe_new zsh) = Some EPKG_OK"
    by code_simp
  then obtain f p' u' where run: "pkg_jobs_universe_process_item (sample_env PKG_JOBS_INSTALL) 3 pkg_jobs_universe_new zsh = Some (EPKG_OK, f, p', u')"
    by auto
  have nl: "nothing_locked (sample_env PKG_JOBS_INSTALL)"
    by (auto simp: nothing_locked_def sample_env_def zsh_def pcre_def repo_pkg_def blank_pkg_def)
  have "\<forall>d \<in> set (pkg_depends zsh) \<union> set (pkg_rdepends zsh). has_uid u' (dep_uid d)"
    by (rule universe_closed_under_dependencies [OF sample_env_ok nl _ _ universe_ok_new sample_admissible(1) _ run [folded n]])
      (simp_all add: sample_env_def pkg_jobs_universe_new_def)
  then have "has_uid u' ''pcre''" by (simp add: zsh_def repo_pkg_def sample_dep_def)
  then show ?thesis using run by blast
qed

text \<open>The candidate selected from a chain is an item of the chain. When no repository is pinned
  and versions decide first, and the remote packages are not all of the same version, it is a
  remote package of the highest version.\<close>

theorem select_candidate_max_version:
  assumes "chain \<noteq> []" "i \<in> set (remotes pk chain)" "j \<in> set (remotes pk chain)" "ver_cmp pk i j \<noteq> 0"
  shows "pkg_jobs_universe_select_candidate repos pk chain local cons reponame pin \<in> set chain \<and>
    (let s = pkg_jobs_universe_select_candidate repos pk chain local False reponame False
     in s \<in> set (remotes pk chain) \<and> (\<forall>k \<in> set (remotes pk chain). ver_cmp pk k s \<le> 0))"
proof -
  obtain r where r: "pkg_jobs_universe_select_max_ver pk chain = Some r"
    using select_max_ver_None [of pk chain i j] assms(2-4) by fastforce
  have same: "x \<in> set chain" if "pkg_jobs_universe_select_same_repo repos pk chain local reponame = Some x" for x
    using that by (auto simp: pkg_jobs_universe_select_same_repo_def split: option.splits dest: find_SomeD)
  have prio: "x \<in> set chain" if "pkg_jobs_universe_select_max_prio repos pk chain = Some x" for x
    using that select_max_prio_member by blast
  have "r \<in> set chain" using select_max_ver_Some(1) [OF r] by (simp add: remotes_def)
  then have "pkg_jobs_universe_select_candidate repos pk chain local cons reponame pin \<in> set chain"
    using r same prio
    by (cases "pkg_jobs_universe_select_max_prio repos pk chain"; cases "pkg_jobs_universe_select_same_repo repos pk chain local reponame")
      (auto simp: pkg_jobs_universe_select_candidate_def Let_def)
  moreover have "pkg_jobs_universe_select_candidate repos pk chain local False reponame False = r"
    using r by (simp add: pkg_jobs_universe_select_candidate_def)
  ultimately show ?thesis using select_max_ver_Some [OF r] by simp
qed

theorem select_candidate_max_version_witness:
  "pkg_jobs_universe_select_candidate (\<lambda>_. None) (\<lambda>i. blank_pkg\<lparr>pkg_version := if i = 0 then ''1.a'' else ''1''\<rparr>) [0, 1] None False None False = 1"
proof -
  let ?pk = "\<lambda>i::nat. blank_pkg\<lparr>pkg_version := if i = 0 then ''1.a'' else ''1''\<rparr>"
  have rem: "remotes ?pk [0, 1] = [0, 1]" by (simp add: remotes_def blank_pkg_def)
  have "pkg_version_cmp ''1'' ''1.a'' = 1" using pkg_version_cmp_instances(1) version.sym [of "''1.a''" "''1''"] by simp
  then show ?thesis
    using select_candidate_max_version [of "[0, 1]" 0 ?pk 1 "\<lambda>_. None" None False None False] rem pkg_version_cmp_instances(1)
    by (auto simp: Let_def)
qed

end
