(* ===== verification/Request.thy ===== *)
theory Request
  imports Universe_Facts
begin

text \<open>
  Requests of \<^verbatim>\<open>libpkg/pkg_jobs.c\<close>: the packages that the user asked for, by uid, each with the
  items of the universe that may answer the request. The tables \<open>request_add\<close> and
  \<open>request_delete\<close> are association lists in insertion order. The package of a request item is
  the one of its unit, so an item is the number of the unit.
\<close>

record job_request =
  rq_items :: "nat list"
  rq_skip :: bool
  rq_automatic :: bool

type_synonym requests = "(string \<times> job_request) list"

definition find_request :: "requests \<Rightarrow> string \<Rightarrow> job_request option" where
  "find_request head uid = map_of head uid"

fun set_request :: "string \<Rightarrow> job_request \<Rightarrow> requests \<Rightarrow> requests" where
  "set_request uid r [] = [(uid, r)]"
| "set_request uid r ((v, q) # head) = (if v = uid then (v, r) # head else (v, q) # set_request uid r head)"

definition delete_request :: "string \<Rightarrow> requests \<Rightarrow> requests" where
  "delete_request uid head = filter (\<lambda>(v, _). v \<noteq> uid) head"

lemma find_set_request: "find_request (set_request uid r head) v = (if v = uid then Some r else find_request head v)"
  unfolding find_request_def by (induction uid r head rule: set_request.induct) auto

lemma find_delete_request: "find_request (delete_request uid head) v = (if v = uid then None else find_request head v)"
  unfolding find_request_def delete_request_def by (induction head) auto

interpretation requests: lookup_table find_request set_request delete_request
  by unfold_locales (fact find_set_request find_delete_request)+

definition new_request :: "bool \<Rightarrow> job_request" where
  "new_request automatic = \<lparr>rq_items = [], rq_skip = False, rq_automatic = automatic\<rparr>"

text \<open>
  The request item returned (NULL is \<open>None\<close>) and the table. A request without a suitable item is
  not stored.
\<close>

definition pkg_jobs_add_req_from_universe ::
  "universe \<Rightarrow> requests \<Rightarrow> nat \<Rightarrow> bool \<Rightarrow> bool \<Rightarrow> nat option \<times> requests" where
  "pkg_jobs_add_req_from_universe u head un local automatic =
     (let uid = pkg_uid (item_pkg u un);
          nits = filter (\<lambda>uit. installed (item_pkg u uit) \<longleftrightarrow> local) (chain_from u un)
      in case find_request head uid of
           None \<Rightarrow> (case nits of
               [] \<Rightarrow> (None, head)
             | nit # _ \<Rightarrow> (Some nit, set_request uid ((new_request automatic)\<lparr>rq_items := nits\<rparr>) head))
         | Some req \<Rightarrow>
             if hd (rq_items req) = un then (Some un, head)
             else (Some (hd (rq_items req @ nits)), set_request uid (req\<lparr>rq_items := rq_items req @ nits\<rparr>) head))"

text \<open>
  \<open>pkg_jobs_add_req\<close> on the table that the type of the job selects; \<open>None\<close> is a failed
  assertion on the kind of the package.
\<close>

definition append_request :: "requests \<Rightarrow> string \<Rightarrow> nat \<Rightarrow> requests" where
  "append_request head uid nit =
     (let req = (case find_request head uid of None \<Rightarrow> new_request False | Some r \<Rightarrow> r)
      in set_request uid (req\<lparr>rq_items := rq_items req @ [nit]\<rparr>) head)"

definition pkg_jobs_add_req ::
  "job_env \<Rightarrow> universe \<Rightarrow> requests \<Rightarrow> pkg \<Rightarrow> (nat option \<times> requests \<times> universe) option" where
  "pkg_jobs_add_req env u head p =
     (let delete = (je_type env = PKG_JOBS_DEINSTALL \<or> je_type env = PKG_JOBS_AUTOREMOVE) in
      if installed p \<noteq> delete then None
      else (case pkg_jobs_universe_add_pkg env u p of
          None \<Rightarrow> None
        | Some (rc, un, p', u') \<Rightarrow>
            (case un of
               None \<Rightarrow> if rc = EPKG_FATAL \<or> pkg_locked p' then Some (None, head, u') else None
             | Some i \<Rightarrow>
                 if rc = EPKG_END then
                   (case find_request head (pkg_uid p') of
                      Some req \<Rightarrow> Some (if i \<in> set (rq_items req) then Some i else None, head, u')
                    | None \<Rightarrow>
                        (case pkg_jobs_add_req_from_universe u' head i delete False of
                           (r, head') \<Rightarrow> Some (r, head', u')))
                 else if pkg_locked p' then Some (None, head, u')
                 else Some (Some i, append_request head (pkg_uid p') i, u'))))"

end
