(* ===== verification/Jobs_Delete.thy ===== *)
theory Jobs_Delete
  imports Request
begin

text \<open>
  \<open>pkg_jobs_process_delete_request\<close> of \<^verbatim>\<open>libpkg/pkg_jobs.c\<close>: unless the job is forced, the packages
  that depend on a package to delete are deleted with it.
\<close>

section \<open>The rounds\<close>

text \<open>The local packages that depend on a requested one and are not requested yet.\<close>

definition missing_rdeps :: "job_env \<Rightarrow> universe \<Rightarrow> requests \<Rightarrow> pkg list" where
  "missing_rdeps env u reqs =
     concat (map (\<lambda>(uid, req). List.map_filter
       (\<lambda>d. if find_request reqs (dep_uid d) \<noteq> None then None else pkg_jobs_universe_get_local env u (dep_uid d))
       (pkg_rdepends (item_pkg u (hd (rq_items req))))) reqs)"

text \<open>Requests for all of them; the answer is \<open>False\<close> if one is refused.\<close>

fun add_requests :: "job_env \<Rightarrow> pkg list \<Rightarrow> requests \<Rightarrow> universe \<Rightarrow> (bool \<times> requests \<times> universe) option" where
  "add_requests env [] reqs u = Some (True, reqs, u)"
| "add_requests env (lp # lps) reqs u =
     (case pkg_jobs_add_req env u reqs lp of
        None \<Rightarrow> None
      | Some (None, reqs', u') \<Rightarrow> Some (False, reqs', u')
      | Some (Some i, reqs', u') \<Rightarrow> add_requests env lps reqs' u')"

fun pkg_jobs_process_delete_request ::
  "nat \<Rightarrow> job_env \<Rightarrow> requests \<Rightarrow> universe \<Rightarrow> (epkg \<times> requests \<times> universe) option" where
  "pkg_jobs_process_delete_request 0 env reqs u = None"
| "pkg_jobs_process_delete_request (Suc n) env reqs u =
     (if je_force env then Some (EPKG_OK, reqs, u)
      else
        (let lps = missing_rdeps env u reqs in
         if \<exists>lp \<in> set lps. pkg_locked lp then Some (EPKG_FATAL, reqs, u)
         else (case add_requests env lps reqs u of
                 None \<Rightarrow> None
               | Some (False, reqs', u') \<Rightarrow> Some (EPKG_FATAL, reqs', u')
               | Some (True, reqs', u') \<Rightarrow>
                   if lps = [] then Some (EPKG_OK, reqs', u')
                   else pkg_jobs_process_delete_request n env reqs' u')))"

section \<open>Requests are kept\<close>

lemma set_request_map: "map_of (set_request uid r head) v = (if v = uid then Some r else map_of head v)"
  using requests.get_put [of uid r head v] by (simp add: find_request_def)

lemma add_req_keys:
  assumes "pkg_jobs_add_req env u reqs p = Some (r, reqs', u')"
  shows "dom (map_of reqs) \<subseteq> dom (map_of reqs')"
  using assms
  by (auto simp: pkg_jobs_add_req_def pkg_jobs_add_req_from_universe_def append_request_def set_request_map Let_def
      split: if_splits option.splits list.splits prod.splits)

lemma add_requests_keys:
  "add_requests env lps reqs u = Some (b, reqs', u') \<Longrightarrow> dom (map_of reqs) \<subseteq> dom (map_of reqs')"
proof (induction env lps reqs u rule: add_requests.induct)
  case (2 env lp lps reqs u)
  then obtain r reqs1 u1 where 1: "pkg_jobs_add_req env u reqs lp = Some (r, reqs1, u1)" by (auto split: option.splits)
  show ?case
  proof (cases r)
    case (Some i)
    then show ?thesis using 2(1) [OF 1 refl Some refl] 2(2) 1 add_req_keys [OF 1] by auto
  qed (use 1 2(2) add_req_keys [OF 1] in auto)
qed simp

lemma missing_rdeps_set:
  "lp \<in> set (missing_rdeps env u reqs) \<longleftrightarrow> (\<exists>(uid, req) \<in> set reqs. \<exists>d \<in> set (pkg_rdepends (item_pkg u (hd (rq_items req)))).
     find_request reqs (dep_uid d) = None \<and> pkg_jobs_universe_get_local env u (dep_uid d) = Some lp)"
proof -
  have "lp \<in> set (List.map_filter f xs) \<longleftrightarrow> (\<exists>x \<in> set xs. f x = Some lp)" for f and xs :: "pkg_dep list"
    by (force simp: List.map_filter_def)
  then show ?thesis by (simp add: missing_rdeps_def case_prod_beta if_distrib [where f = "\<lambda>x. x = Some lp"] cong: conj_cong)
qed

lemma delete_closed:
  assumes "pkg_jobs_process_delete_request n env reqs u = Some (EPKG_OK, reqs', u')" "\<not> je_force env"
  shows "(\<forall>(uid, req) \<in> set reqs'. \<forall>d \<in> set (pkg_rdepends (item_pkg u' (hd (rq_items req)))).
      find_request reqs' (dep_uid d) \<noteq> None \<or> pkg_jobs_universe_get_local env u' (dep_uid d) = None) \<and>
    dom (map_of reqs) \<subseteq> dom (map_of reqs')"
  using assms
proof (induction n env reqs u rule: pkg_jobs_process_delete_request.induct)
  case (2 n env reqs u)
  let ?lps = "missing_rdeps env u reqs"
  have nl: "\<not> (\<exists>lp \<in> set ?lps. pkg_locked lp)" using 2(2,3) by (auto simp: Let_def split: if_splits)
  obtain b reqs1 u1 where a: "add_requests env ?lps reqs u = Some (b, reqs1, u1)"
    using 2(2,3) nl by (auto simp: Let_def split: option.splits)
  have b: "b" using 2(2,3) nl a by (cases b) (auto simp: Let_def)
  show ?case
  proof (cases "?lps = []")
    case True
    then have "reqs' = reqs" "u' = u" using 2(2,3) nl a b by (auto simp: Let_def)
    moreover have "find_request reqs (dep_uid d) \<noteq> None \<or> pkg_jobs_universe_get_local env u (dep_uid d) = None"
      if "(uid, req) \<in> set reqs" "d \<in> set (pkg_rdepends (item_pkg u (hd (rq_items req))))" for uid req d
    proof (rule ccontr)
      assume "\<not> ?thesis"
      then obtain lp where "find_request reqs (dep_uid d) = None" "pkg_jobs_universe_get_local env u (dep_uid d) = Some lp" by auto
      then have "lp \<in> set ?lps" using that unfolding missing_rdeps_set by blast
      then show False using True by simp
    qed
    ultimately show ?thesis by fastforce
  next
    case False
    then have "pkg_jobs_process_delete_request n env reqs1 u1 = Some (EPKG_OK, reqs', u')"
      using 2(2,3) nl a b by (simp add: Let_def)
    then show ?thesis using 2(1) [OF 2(3) refl nl a refl] b False 2(3) order_trans [OF add_requests_keys [OF a]] by simp
  qed
qed simp

section \<open>The rounds end\<close>

text \<open>A universe of installed packages, and a local database that answers installed packages.\<close>

definition local_only :: "pkg_id set \<Rightarrow> job_env \<Rightarrow> universe \<Rightarrow> bool" where
  "local_only K env u \<longleftrightarrow> env_ok K env \<and> universe_ok K u \<and> (\<forall>i < length (u_items u). installed (item_pkg u i)) \<and>
     (\<forall>uid p. je_local env uid = Some p \<longrightarrow> installed p) \<and> je_type env \<in> {PKG_JOBS_DEINSTALL, PKG_JOBS_AUTOREMOVE}"

lemma add_pkg_END_uid:
  assumes "pkg_jobs_universe_add_pkg env u p = Some (EPKG_END, Some s, p', u')" "universe_ok K u" "consistent K" "admissible K p"
  shows "pkg_uid (item_pkg u s) = pkg_uid p" "p' = p" "u' = u" "s < length (u_items u)"
proof -
  obtain d where d: "pkg_digest p = Some d" using assms(4) by (auto simp: admissible_def)
  have r: "map_of (u_seen u) d = Some s" "p' = p" "u' = u"
    using assms(1) d validate_admissible [OF assms(4)]
    by (auto simp: pkg_jobs_universe_add_pkg_def Let_def split: option.splits if_splits bool.splits)
  note c = seen_covers [OF assms(2,3) r(1)]
  have "admissible K (item_pkg u s)" using assms(2) c(1) by (simp add: universe_ok_def)
  then show "pkg_uid (item_pkg u s) = pkg_uid p" "p' = p" "u' = u" "s < length (u_items u)"
    using consistentD(1) [OF assms(3) _ assms(4)] c r d by auto
qed

lemma chain_from_member: "universe_ok K u \<Longrightarrow> s < length (u_items u) \<Longrightarrow> s \<in> set (chain_from u s)"
  by (simp add: chain_from_eq)

lemma add_req_local:
  assumes lo: "local_only K env u" and p: "admissible K p" "installed p"
  shows "\<exists>r reqs' u'. pkg_jobs_add_req env u reqs p = Some (r, reqs', u') \<and> local_only K env u' \<and>
    (r \<noteq> None \<longrightarrow> pkg_uid p \<in> dom (map_of reqs'))"
proof -
  have ok: "universe_ok K u" and K: "consistent K" and del: "je_type env = PKG_JOBS_DEINSTALL \<or> je_type env = PKG_JOBS_AUTOREMOVE"
    using lo by (simp_all add: local_only_def env_ok_def)
  from add_pkg_cases [OF ok K p(1), of env] consider
    (found) s where "pkg_jobs_universe_add_pkg env u p = Some (EPKG_END, Some s, p, u)"
  | (locked) "pkg_locked p" "pkg_jobs_universe_add_pkg env u p = Some (EPKG_LOCKED, None, p, u)"
  | (new) d where "\<forall>i < length (u_items u). pkg_key (item_pkg u i) \<noteq> pkg_key p" "\<not> pkg_locked p" "pkg_digest p = Some d"
      "pkg_jobs_universe_add_pkg env u p = Some (EPKG_OK, Some (length (u_items u)), p, add_item u p d)" by blast
  then show ?thesis
  proof cases
    case found
    note s = add_pkg_END_uid [OF found ok K p(1)]
    show ?thesis
    proof (cases "find_request reqs (pkg_uid p)")
      case None
      have "s \<in> set (filter (\<lambda>uit. installed (item_pkg u uit) \<longleftrightarrow> True) (chain_from u s))"
        using chain_from_member [OF ok s(4)] lo s(4) by (simp add: local_only_def)
      then obtain i js where "filter (\<lambda>uit. installed (item_pkg u uit) \<longleftrightarrow> True) (chain_from u s) = i # js"
        by (metis list.exhaust list.set(1) empty_iff)
      then show ?thesis using found None s lo del p(2)
        by (simp add: pkg_jobs_add_req_def pkg_jobs_add_req_from_universe_def Let_def set_request_map domIff)
    next
      case (Some req)
      then show ?thesis using found lo del p(2)
        by (auto simp: pkg_jobs_add_req_def Let_def find_request_def)
    qed
  next
    case locked
    then show ?thesis using lo del p(2) by (simp add: pkg_jobs_add_req_def Let_def)
  next
    case new
    have "installed (item_pkg (add_item u p d) i)" if "i < Suc (length (u_items u))" for i
      using that lo p(2) item_pkg_add_item [of u p d i] by (auto simp: local_only_def less_Suc_eq)
    then have "local_only K env (add_item u p d)"
      using lo universe_ok_add_item [OF ok p(1) new(3,1)] by (simp add: local_only_def)
    moreover have "pkg_jobs_add_req env u reqs p =
        Some (Some (length (u_items u)), append_request reqs (pkg_uid p) (length (u_items u)), add_item u p d)"
      using new(2,4) del p(2) by (auto simp: pkg_jobs_add_req_def Let_def)
    moreover have "pkg_uid p \<in> dom (map_of (append_request reqs (pkg_uid p) j))" for j
      by (simp add: append_request_def Let_def set_request_map domIff)
    ultimately show ?thesis by blast
  qed
qed

lemma add_requests_local:
  assumes "local_only K env u" "\<forall>p \<in> set lps. admissible K p \<and> installed p"
  shows "\<exists>b reqs' u'. add_requests env lps reqs u = Some (b, reqs', u') \<and> local_only K env u' \<and>
    (b \<longrightarrow> pkg_uid ` set lps \<subseteq> dom (map_of reqs'))"
  using assms
proof (induction lps arbitrary: reqs u)
  case (Cons p lps)
  then obtain r reqs1 u1 where 1: "pkg_jobs_add_req env u reqs p = Some (r, reqs1, u1)" "local_only K env u1"
    "r \<noteq> None \<longrightarrow> pkg_uid p \<in> dom (map_of reqs1)" using add_req_local [OF Cons.prems(1), of p reqs] by auto
  show ?case
  proof (cases r)
    case (Some i)
    from Cons.IH [OF 1(2), of reqs1] Cons.prems(2) obtain b reqs' u' where
      2: "add_requests env lps reqs1 u1 = Some (b, reqs', u')" "local_only K env u'" "b \<longrightarrow> pkg_uid ` set lps \<subseteq> dom (map_of reqs')" by auto
    then show ?thesis using 1 Some add_requests_keys [OF 2(1)] by auto
  qed (use 1 in auto)
qed auto

lemma get_local_local:
  assumes "local_only K env u" "pkg_jobs_universe_get_local env u uid = Some p"
  shows "admissible K p \<and> installed p \<and> pkg_uid p = uid"
proof -
  have ok: "universe_ok K u" using assms(1) by (simp add: local_only_def)
  show ?thesis
  proof (cases "\<exists>c. pkg_jobs_universe_find u uid = Some c \<and> (\<exists>i \<in> set c. installed (item_pkg u i))")
    case True
    then obtain c i where c: "map_of (u_chains u) uid = Some c" "i \<in> set c" "installed (item_pkg u i)"
      by (auto simp: pkg_jobs_universe_find_def)
    then have "p = item_pkg u (hd c)" "hd c \<in> set c"
      using assms(2) by (auto simp: pkg_jobs_universe_get_local_def pkg_jobs_universe_find_def intro: hd_in_set split: if_splits)
    moreover have "j < length (u_items u) \<and> pkg_uid (item_pkg u j) = uid" if "j \<in> set c" for j
      using ok c(1) that by (auto simp: universe_ok_def uid_ids_def split: if_splits)
    ultimately show ?thesis using assms(1) ok by (auto simp: local_only_def universe_ok_def)
  next
    case False
    then have "je_local env uid = Some p"
      using assms(2) by (auto simp: pkg_jobs_universe_get_local_def split: option.splits if_splits)
    then show ?thesis using assms(1) by (auto simp: local_only_def env_ok_def)
  qed
qed

lemma missing_rdeps_uid:
  "lp \<in> set (missing_rdeps env u reqs) \<Longrightarrow> \<exists>uid. pkg_jobs_universe_get_local env u uid = Some lp \<and> uid \<notin> dom (map_of reqs)"
  by (auto simp: missing_rdeps_set find_request_def domIff)

definition known_uids :: "pkg_id set \<Rightarrow> string set" where
  "known_uids K = fst ` K"

lemma delete_rounds:
  assumes "local_only K env u" "card (known_uids K - dom (map_of reqs)) < n"
  shows "\<exists>rc reqs' u'. pkg_jobs_process_delete_request n env reqs u = Some (rc, reqs', u') \<and> local_only K env u' \<and>
    (rc = EPKG_OK \<or> rc = EPKG_FATAL)"
  using assms
proof (induction n arbitrary: reqs u)
  case (Suc n)
  let ?lps = "missing_rdeps env u reqs"
  have lps: "admissible K lp \<and> installed lp \<and> pkg_uid lp \<notin> dom (map_of reqs)" if "lp \<in> set ?lps" for lp
    using missing_rdeps_uid [OF that] get_local_local [OF Suc.prems(1)] by auto
  then obtain b reqs1 u1 where a: "add_requests env ?lps reqs u = Some (b, reqs1, u1)" "local_only K env u1"
    "b \<longrightarrow> pkg_uid ` set ?lps \<subseteq> dom (map_of reqs1)"
    using add_requests_local [OF Suc.prems(1), of ?lps reqs] by blast
  show ?case
  proof (cases "je_force env \<or> (\<exists>lp \<in> set ?lps. pkg_locked lp) \<or> \<not> b \<or> ?lps = []")
    case True
    then show ?thesis using a Suc.prems(1) by (cases b) (auto simp: Let_def)
  next
    case False
    then obtain lp where lp: "lp \<in> set ?lps" by (metis list.set_intros(1) neq_Nil_conv)
    have fin: "finite (known_uids K)" using Suc.prems(1) by (simp add: local_only_def env_ok_def consistent_def known_uids_def)
    have "pkg_uid lp \<in> known_uids K" using lps [OF lp] by (force simp: admissible_def known_uids_def)
    moreover have "pkg_uid lp \<in> dom (map_of reqs1)" using a(3) False lp by blast
    ultimately have "known_uids K - dom (map_of reqs1) \<subset> known_uids K - dom (map_of reqs)"
      using lps [OF lp] add_requests_keys [OF a(1)] by blast
    then have "card (known_uids K - dom (map_of reqs1)) < card (known_uids K - dom (map_of reqs))"
      using fin by (intro psubset_card_mono) auto
    then have "card (known_uids K - dom (map_of reqs1)) < n" using Suc.prems(2) by linarith
    then show ?thesis using Suc.IH [OF a(2)] False a(1) by (simp add: Let_def)
  qed
qed simp

text \<open>C8. When the request of a job to delete packages is accepted and the job is not forced, the packages
  it deletes are closed under reverse dependencies: every package that depends on one of them is
  requested too, or is not installed. No request is lost.\<close>

theorem delete_request_closed:
  assumes "pkg_jobs_process_delete_request n env reqs u = Some (EPKG_OK, reqs', u')" "\<not> je_force env"
  shows "(\<forall>(uid, req) \<in> set reqs'. \<forall>d \<in> set (pkg_rdepends (item_pkg u' (hd (rq_items req)))).
      find_request reqs' (dep_uid d) \<noteq> None \<or> pkg_jobs_universe_get_local env u' (dep_uid d) = None) \<and>
    dom (map_of reqs) \<subseteq> dom (map_of reqs')"
  by (rule delete_closed [OF assms])

text \<open>The rounds of a delete request end: in a universe of installed packages over consistent
  databases, as many rounds as there are uids are enough.\<close>

theorem delete_request_returns:
  assumes "local_only K env u" "card (known_uids K - dom (map_of reqs)) < n"
  shows "\<exists>rc reqs' u'. pkg_jobs_process_delete_request n env reqs u = Some (rc, reqs', u') \<and> local_only K env u' \<and>
    (rc = EPKG_OK \<or> rc = EPKG_FATAL)"
  by (rule delete_rounds [OF assms])

section \<open>An instance\<close>

text \<open>Both packages of the sample installed; the first one is to be deleted.\<close>

definition local_ids :: "pkg_id set" where
  "local_ids = {(''zsh'', ''2$2$zsh5'', PKG_INSTALLED, None), (''pcre'', ''2$2$pcre8'', PKG_INSTALLED, None)}"

definition local_zsh :: pkg where
  "local_zsh = zsh\<lparr>pkg_kind := PKG_INSTALLED, pkg_reponame := None\<rparr>"

definition local_pcre :: pkg where
  "local_pcre = pcre\<lparr>pkg_kind := PKG_INSTALLED, pkg_reponame := None\<rparr>"

definition local_env :: job_env where
  "local_env = (sample_env PKG_JOBS_DEINSTALL)\<lparr>
     je_local := (\<lambda>n. if n = ''zsh'' then Some local_zsh else if n = ''pcre'' then Some local_pcre else None), je_remote := (\<lambda>_. [])\<rparr>"

definition pcre_requested :: requests where
  "pcre_requested = [(''pcre'', \<lparr>rq_items = [0], rq_skip = False, rq_automatic = False\<rparr>)]"

definition pcre_universe :: universe where
  "pcre_universe = add_item pkg_jobs_universe_new local_pcre ''2$2$pcre8''"

lemma local_admissible: "admissible local_ids local_zsh" "admissible local_ids local_pcre"
  using sample_digests by (simp_all add: admissible_def local_ids_def local_zsh_def local_pcre_def zsh_def pcre_def repo_pkg_def blank_pkg_def)

lemma local_only_instance: "local_only local_ids local_env pcre_universe"
proof -
  have c: "consistent local_ids" by (auto simp: consistent_def local_ids_def)
  have e: "env_ok local_ids local_env"
    using c local_admissible
    by (auto simp: env_ok_def local_env_def sample_env_def local_zsh_def local_pcre_def zsh_def pcre_def repo_pkg_def blank_pkg_def)
  have d: "pkg_digest local_pcre = Some ''2$2$pcre8''" by (simp add: local_pcre_def pcre_def repo_pkg_def)
  have "universe_ok local_ids pcre_universe"
    unfolding pcre_universe_def
    by (rule universe_ok_add_item [OF universe_ok_new local_admissible(2) d]) (simp add: pkg_jobs_universe_new_def)
  then show ?thesis
    using e by (auto simp: local_only_def pcre_universe_def item_pkg_def add_item_def new_item_def pkg_jobs_universe_new_def
        local_env_def sample_env_def local_zsh_def local_pcre_def zsh_def pcre_def repo_pkg_def blank_pkg_def)
qed

theorem delete_request_returns_witness:
  "\<exists>rc reqs' u'. pkg_jobs_process_delete_request 3 local_env pcre_requested pcre_universe = Some (rc, reqs', u')"
proof -
  have "card (known_uids local_ids - dom (map_of pcre_requested)) < 3"
    by (simp add: known_uids_def local_ids_def pcre_requested_def insert_Diff_if)
  then show ?thesis using delete_request_returns [OF local_only_instance] by blast
qed

theorem delete_request_closed_witness:
  "\<exists>reqs' u'. pkg_jobs_process_delete_request 3 local_env pcre_requested pcre_universe = Some (EPKG_OK, reqs', u') \<and>
     map fst reqs' = [''pcre'', ''zsh''] \<and> ''pcre'' \<in> dom (map_of reqs')"
proof -
  have "map_option (\<lambda>(rc, reqs, u). (rc, map fst reqs)) (pkg_jobs_process_delete_request 3 local_env pcre_requested pcre_universe) =
      Some (EPKG_OK, [''pcre'', ''zsh''])" by code_simp
  then obtain reqs' u' where r: "pkg_jobs_process_delete_request 3 local_env pcre_requested pcre_universe = Some (EPKG_OK, reqs', u')"
    and m: "map fst reqs' = [''pcre'', ''zsh'']" by (auto simp: map_option_case split: option.splits)
  have "\<not> je_force local_env" by (simp add: local_env_def sample_env_def)
  from delete_request_closed [OF r this] have "''pcre'' \<in> dom (map_of reqs')" by (auto simp: pcre_requested_def)
  then show ?thesis using r m by (intro exI conjI)
qed

end
