(* ===== verification/C_Format.thy ===== *)
theory C_Format
  imports C_String
begin

text \<open>
  Decimal output as \<^verbatim>\<open>printf\<close> does it for \<open>%d\<close>, \<open>%ld\<close> and \<open>%zu\<close>, the splitting of a line at
  delimiters of \<^verbatim>\<open>libpkg/port_strsep.c\<close>, and that the number read back is the number printed.
\<close>

section \<open>Decimal numbers\<close>

fun dec_digits :: "nat \<Rightarrow> string" where
  "dec_digits n = (if n < 10 then [char_of (48 + n)] else dec_digits (n div 10) @ [char_of (48 + n mod 10)])"

declare dec_digits.simps [simp del]

definition format_d :: "int \<Rightarrow> string" where
  "format_d i = (if i < 0 then CHR ''-'' # dec_digits (nat (- i)) else dec_digits (nat i))"

lemma code_digit: "n < 10 \<Longrightarrow> code (char_of (48 + n)) = 48 + n"
  by (simp add: code_def)

lemma isdigit_dec_digits: "c \<in> set (dec_digits n) \<Longrightarrow> isdigit c"
proof (induction n rule: dec_digits.induct)
  case (1 n)
  then show ?case
    by (subst (asm) (2) dec_digits.simps) (auto simp: isdigit_def code_digit split: if_splits)
qed

lemma dec_digits_not_Nil [simp]: "dec_digits n \<noteq> []"
  by (subst dec_digits.simps) simp

lemma dec_val_snoc: "dec_val (ds @ [c]) = dec_val ds * 10 + (int (code c) - 48)"
  by (simp add: dec_val_def)

lemma dec_val_dec_digits [simp]: "dec_val (dec_digits n) = int n"
proof (induction n rule: dec_digits.induct)
  case (1 n)
  show ?case
  proof (cases "n < 10")
    case True
    then show ?thesis by (subst dec_digits.simps) (simp add: dec_val_def code_digit)
  next
    case False
    then have "dec_val (dec_digits n) = int (n div 10) * 10 + int (n mod 10)"
      using 1 by (subst dec_digits.simps) (simp add: dec_val_snoc code_digit)
    then show ?thesis by (simp add: zdiv_int zmod_int)
  qed
qed

lemma hd_dec_digits: "isdigit (hd (dec_digits n))"
  using isdigit_dec_digits hd_in_set dec_digits_not_Nil by blast

text \<open>\<^verbatim>\<open>strtol\<close> stops at the character that ended the number, and reads what was printed.\<close>

lemma strtoll_format_d:
  assumes "LLONG_MIN \<le> i" "i \<le> LLONG_MAX" "\<not> isdigit (deref rest)"
  shows "strtoll (format_d i @ rest) = (i, False, rest)"
proof -
  let ?ds = "dec_digits (nat (abs i))"
  obtain c cs where c: "?ds = c # cs" by (cases ?ds) auto
  have cd: "isdigit c" using hd_dec_digits [of "nat (abs i)"] c by simp
  then have n: "\<not> isspace c" "c \<noteq> CHR ''-''" "c \<noteq> CHR ''+''"
    by (auto simp: ctype_defs code_def)
  have tw: "takeWhile isdigit (?ds @ rest) = ?ds" "dropWhile isdigit (?ds @ rest) = rest"
    using isdigit_dec_digits assms(3)
    by (cases rest; auto simp: takeWhile_append dropWhile_append)+
  have f: "format_d i = (if i < 0 then CHR ''-'' # ?ds else ?ds)" by (simp add: format_d_def)
  have "num_prefix (format_d i @ rest) = (i < 0, ?ds, rest)"
  proof (cases "i < 0")
    case True
    then show ?thesis using tw by (simp add: num_prefix_def f isspace_def code_def)
  next
    case False
    then show ?thesis using tw n c by (simp add: num_prefix_def f)
  qed
  then show ?thesis using assms by (simp add: strtoll_def)
qed

text \<open>\<^verbatim>\<open>%s\<close> prints NULL as glibc does.\<close>

definition percent_s :: "string option \<Rightarrow> string" where
  "percent_s s = (case s of None \<Rightarrow> ''(null)'' | Some t \<Rightarrow> t)"

section \<open>Tokens\<close>

text \<open>
  \<open>port_strsep\<close>: the token up to a delimiter, and what follows the delimiter, NULL at the end of
  the string.
\<close>

fun port_strsep :: "string \<Rightarrow> string \<Rightarrow> string \<times> string option" where
  "port_strsep delim [] = ([], None)"
| "port_strsep delim (c # s) =
     (if c \<in> set delim then ([], Some s)
      else (case port_strsep delim s of (tok, rest) \<Rightarrow> (c # tok, rest)))"

lemma port_strsep_less: "snd (port_strsep delim s) = Some r \<Longrightarrow> length r < length s"
proof (induction s)
  case (Cons c s)
  then show ?case by (cases "port_strsep delim s") (auto split: if_splits)
qed simp

lemma port_strsep_less': "(tok, Some r) = port_strsep delim s \<Longrightarrow> length r < length s"
  by (rule port_strsep_less [of delim]) (metis snd_conv)

text \<open>The tokens of the loop \<^verbatim>\<open>do { port_strsep (&begin, delim) } while (begin != NULL)\<close>.\<close>

function tokens :: "string \<Rightarrow> string \<Rightarrow> string list" where
  "tokens delim s =
     (case port_strsep delim s of (tok, None) \<Rightarrow> [tok] | (tok, Some rest) \<Rightarrow> tok # tokens delim rest)"
  by pat_completeness auto
termination
  by (relation "measure (\<lambda>(d, s). length s)") (auto dest: port_strsep_less')

declare tokens.simps [simp del]

lemma port_strsep_none: "set s \<inter> set delim = {} \<Longrightarrow> port_strsep delim s = (s, None)"
  by (induction s) auto

lemma port_strsep_some:
  "set s \<inter> set delim = {} \<Longrightarrow> c \<in> set delim \<Longrightarrow> port_strsep delim (s @ c # r) = (s, Some r)"
  by (induction s) auto

lemma tokens_last: "set s \<inter> set delim = {} \<Longrightarrow> tokens delim s = [s]"
  by (subst tokens.simps) (simp add: port_strsep_none)

lemma tokens_step:
  "set s \<inter> set delim = {} \<Longrightarrow> c \<in> set delim \<Longrightarrow> tokens delim (s @ c # r) = s # tokens delim r"
  by (subst tokens.simps) (simp add: port_strsep_some)

text \<open>No token contains a delimiter.\<close>

lemma port_strsep_token: "set (fst (port_strsep delim s)) \<inter> set delim = {}"
  by (induction s) (auto split: prod.split)

lemma tokens_no_delim: "t \<in> set (tokens delim s) \<Longrightarrow> set t \<inter> set delim = {}"
proof (induction delim s rule: tokens.induct)
  case (1 delim s)
  obtain tok r where sp: "port_strsep delim s = (tok, r)" by fastforce
  then have "set tok \<inter> set delim = {}" using port_strsep_token [of delim s] by simp
  then show ?case
    using 1 sp by (cases r) (auto simp: tokens.simps [of delim s])
qed

end
