(* ===== verification/Solver.thy ===== *)
theory Solver
  imports Request C_Format
begin

text \<open>
  \<^verbatim>\<open>libpkg/pkg_solve.c\<close>: the job as a satisfiability problem, the loop around the solver, and the
  solution as a list of jobs. A variable is its index in the array \<^verbatim>\<open>problem->variables\<close>, a chain
  of variables the list of their indices; \<open>sp_by_uid\<close> is the table \<^verbatim>\<open>variables_by_uid\<close>. What was
  asked of PicoSAT is kept as the history of the calls, from which its answers are computed.
\<close>

section \<open>The problem\<close>

datatype rule_type = PKG_RULE_DEPEND | PKG_RULE_UPGRADE_CONFLICT | PKG_RULE_EXPLICIT_CONFLICT
  | PKG_RULE_REQUEST_CONFLICT | PKG_RULE_REQUEST | PKG_RULE_REQUIRE

text \<open>The flags of a variable are the five bits of \<^verbatim>\<open>enum pkg_solve_variable_flags\<close>.\<close>

record solve_variable =
  sv_unit :: nat
  sv_install :: bool
  sv_top :: bool
  sv_failed :: bool
  sv_assumed :: bool
  sv_assumed_true :: bool
  sv_order :: nat
  sv_digest :: "string option"
  sv_uid :: string
  sv_reponame :: "string option"

type_synonym solve_item = "nat \<times> int"

record solve_rule =
  sr_reason :: rule_type
  sr_items :: "solve_item list"

datatype picosat_call = Add int | Assume int | Default_phase int int | More_important int
  | Less_important int | Reset_phases | Reset_scores | Sat

record problem =
  sp_universe :: universe
  sp_vars :: "solve_variable list"
  sp_by_uid :: "(string \<times> nat list) list"
  sp_rules :: "solve_rule list"
  sp_sat :: "picosat_call list"

text \<open>What the solver reads of the job, and the configured \<^verbatim>\<open>CONSERVATIVE_UPGRADE\<close>.\<close>

record solve_env =
  se_type :: pkg_jobs_type
  se_conservative :: bool
  se_repos :: repo_find
  se_request_add :: requests
  se_request_delete :: requests

definition var_pkg :: "problem \<Rightarrow> nat \<Rightarrow> pkg" where
  "var_pkg p v = item_pkg (sp_universe p) (sv_unit (sp_vars p ! v))"

definition update_var :: "nat \<Rightarrow> (solve_variable \<Rightarrow> solve_variable) \<Rightarrow> problem \<Rightarrow> problem" where
  "update_var v f p = p\<lparr>sp_vars := (sp_vars p)[v := f (sp_vars p ! v)]\<rparr>"

definition call :: "picosat_call \<Rightarrow> problem \<Rightarrow> problem" where
  "call c p = p\<lparr>sp_sat := sp_sat p @ [c]\<rparr>"

text \<open>\<open>kv_prepend\<close>\<close>

definition add_rule :: "rule_type \<Rightarrow> solve_item list \<Rightarrow> problem \<Rightarrow> problem" where
  "add_rule r its p = p\<lparr>sp_rules := \<lparr>sr_reason = r, sr_items = its\<rparr> # sp_rules p\<rparr>"

text \<open>The chain of variables that contains a variable, and its part from the variable on.\<close>

definition var_chain :: "problem \<Rightarrow> nat \<Rightarrow> nat list" where
  "var_chain p v = (case find (\<lambda>(_, c). v \<in> set c) (sp_by_uid p) of None \<Rightarrow> [v] | Some (_, c) \<Rightarrow> c)"

definition var_from :: "problem \<Rightarrow> nat \<Rightarrow> nat list" where
  "var_from p v = dropWhile (\<lambda>w. w \<noteq> v) (var_chain p v)"

definition chain_of :: "universe \<Rightarrow> nat \<Rightarrow> nat list" where
  "chain_of u i = (case find (\<lambda>(_, c). i \<in> set c) (u_chains u) of None \<Rightarrow> [i] | Some (_, c) \<Rightarrow> c)"

section \<open>Rules\<close>

text \<open>\<^verbatim>\<open>if (curvar->assumed_reponame == NULL) curvar->assumed_reponame = reponame\<close>\<close>

definition assume_repo :: "string option \<Rightarrow> nat \<Rightarrow> problem \<Rightarrow> problem" where
  "assume_repo r v = update_var v (\<lambda>x. if sv_reponame x = None then x\<lparr>sv_reponame := r\<rparr> else x)"

text \<open>
  \<open>pkg_solve_handle_provide\<close>: the literals of the variables in the chain of the provider that
  provide the requirement; \<open>None\<close> follows the null pointer of a provide without a unit.
\<close>

definition provides_it :: "bool \<Rightarrow> string \<Rightarrow> pkg \<Rightarrow> pkg \<Rightarrow> bool" where
  "provides_it is_shlib name orig p \<longleftrightarrow>
     (if is_shlib then name \<in> set (pkg_shlibs_provided p) \<and> pkg_arch p = pkg_arch orig
      else name \<in> set (pkg_provides p))"

fun provide_items :: "bool \<Rightarrow> string \<Rightarrow> pkg \<Rightarrow> string option \<Rightarrow> nat list \<Rightarrow> problem \<Rightarrow> solve_item list \<times> problem" where
  "provide_items is_shlib name orig r [] p = ([], p)"
| "provide_items is_shlib name orig r (v # vs) p =
     (if provides_it is_shlib name orig (var_pkg p v)
      then (case provide_items is_shlib name orig r vs (assume_repo r v p) of (its, p') \<Rightarrow> ((v, 1) # its, p'))
      else provide_items is_shlib name orig r vs p)"

definition pkg_solve_handle_provide ::
  "job_provide \<Rightarrow> string \<Rightarrow> pkg \<Rightarrow> string option \<Rightarrow> problem \<Rightarrow> (solve_item list \<times> problem) option" where
  "pkg_solve_handle_provide pr name orig r p =
     (case pr_un pr of
        None \<Rightarrow> None
      | Some un \<Rightarrow>
          (case map_of (sp_by_uid p) (pkg_uid (item_pkg (sp_universe p) (hd (chain_of (sp_universe p) un)))) of
             None \<Rightarrow> Some ([], p)
           | Some vs \<Rightarrow> Some (provide_items (pr_is_shlib pr) name orig r vs p)))"

fun provides_items :: "job_provide list \<Rightarrow> string \<Rightarrow> pkg \<Rightarrow> string option \<Rightarrow> problem \<Rightarrow> (solve_item list \<times> problem) option" where
  "provides_items [] name orig r p = Some ([], p)"
| "provides_items (pr # prs) name orig r p =
     (case pkg_solve_handle_provide pr name orig r p of
        None \<Rightarrow> None
      | Some (its, p1) \<Rightarrow>
          (case provides_items prs name orig r p1 of
             None \<Rightarrow> None
           | Some (its', p2) \<Rightarrow> Some (its @ its', p2)))"

text \<open>The alternatives of a dependency: the literals, and whether one of the uids is known.\<close>

fun depend_items :: "string list \<Rightarrow> string option \<Rightarrow> problem \<Rightarrow> solve_item list \<times> problem" where
  "depend_items [] r p = ([], p)"
| "depend_items (uid # uids) r p =
     (case map_of (sp_by_uid p) uid of
        None \<Rightarrow> depend_items uids r p
      | Some vs \<Rightarrow>
          (case depend_items uids r (fold (assume_repo r) vs p) of
             (its, p') \<Rightarrow> (map (\<lambda>v. (v, 1)) vs @ its, p')))"

definition dep_uids :: "pkg_dep \<Rightarrow> string list" where
  "dep_uids d = dep_uid d # dep_alts d"

definition pkg_solve_add_depend_rule :: "nat \<Rightarrow> pkg_dep \<Rightarrow> string option \<Rightarrow> problem \<Rightarrow> problem" where
  "pkg_solve_add_depend_rule v d r p =
     (if \<forall>uid \<in> set (dep_uids d). map_of (sp_by_uid p) uid = None then p
      else (case depend_items (dep_uids d) r p of
              (its, p') \<Rightarrow> add_rule PKG_RULE_DEPEND ((v, -1) # its) p'))"

text \<open>Whether a conflict concerns a package; \<^verbatim>\<open>strcmp\<close> fails on a package without a digest.\<close>

definition conflict_applies :: "pkg \<Rightarrow> pkg_conflict \<Rightarrow> pkg \<Rightarrow> bool option" where
  "conflict_applies p c other =
     (if conflict_type c = PKG_CONFLICT_REMOTE_LOCAL \<and> (installed p \<longleftrightarrow> installed other) then Some False
      else if conflict_type c = PKG_CONFLICT_REMOTE_REMOTE \<and> (installed p \<or> installed other) then Some False
      else (case conflict_digest c of
              None \<Rightarrow> Some True
            | Some d \<Rightarrow> map_option (\<lambda>e. d = e) (pkg_digest other)))"

definition conflict_rule :: "rule_type \<Rightarrow> nat \<Rightarrow> nat \<Rightarrow> problem \<Rightarrow> problem" where
  "conflict_rule r v w = add_rule r [(v, -1), (w, -1)]"

fun conflict_rules :: "pkg \<Rightarrow> nat \<Rightarrow> pkg_conflict \<Rightarrow> nat list \<Rightarrow> problem \<Rightarrow> problem option" where
  "conflict_rules pk v c [] p = Some p"
| "conflict_rules pk v c (w # ws) p =
     (case conflict_applies pk c (var_pkg p w) of
        None \<Rightarrow> None
      | Some b \<Rightarrow> conflict_rules pk v c ws (if b then conflict_rule PKG_RULE_EXPLICIT_CONFLICT v w p else p))"

definition pkg_solve_add_conflict_rule :: "pkg \<Rightarrow> nat \<Rightarrow> pkg_conflict \<Rightarrow> problem \<Rightarrow> problem option" where
  "pkg_solve_add_conflict_rule pk v c p =
     (case map_of (sp_by_uid p) (conflict_uid c) of
        None \<Rightarrow> Some p
      | Some vs \<Rightarrow> conflict_rules pk v c vs p)"

definition pkg_solve_add_require_rule :: "nat \<Rightarrow> string \<Rightarrow> string option \<Rightarrow> problem \<Rightarrow> problem option" where
  "pkg_solve_add_require_rule v requirement r p =
     (case map_of (u_provides (sp_universe p)) requirement of
        None \<Rightarrow> Some p
      | Some prs \<Rightarrow>
          (case provides_items prs requirement (var_pkg p v) r p of
             None \<Rightarrow> None
           | Some (its, p') \<Rightarrow> Some (if its = [] then p' else add_rule PKG_RULE_REQUIRE ((v, -1) # its) p')))"

definition pkg_solve_find_var_in_chain :: "problem \<Rightarrow> nat list \<Rightarrow> nat \<Rightarrow> nat option" where
  "pkg_solve_find_var_in_chain p vs unit = find (\<lambda>v. sv_unit (sp_vars p ! v) = unit) vs"

text \<open>
  \<open>pkg_solve_add_request_rule\<close>. The search for the other candidates starts at the variable of the
  first one, so a candidate in front of it in the chain fails an assertion. The clause is only
  added if the unit of the first candidate is the one that the table of the universe holds.
\<close>

definition hashed :: "universe \<Rightarrow> nat \<Rightarrow> bool" where
  "hashed u i \<longleftrightarrow> (\<exists>(uid, c) \<in> set (u_chains u). uid \<noteq> [] \<and> c \<noteq> [] \<and> hd c = i)"

fun find_all :: "('a \<Rightarrow> 'b option) \<Rightarrow> 'a list \<Rightarrow> 'b list option" where
  "find_all f [] = Some []"
| "find_all f (x # xs) =
     (case f x of None \<Rightarrow> None | Some y \<Rightarrow> map_option ((#) y) (find_all f xs))"

definition mark_top :: "int \<Rightarrow> nat \<Rightarrow> problem \<Rightarrow> problem" where
  "mark_top sg v =
     update_var v (\<lambda>x. x\<lparr>sv_top := True, sv_install := sv_install x \<or> sg > 0\<rparr>)"

fun pair_rules :: "rule_type \<Rightarrow> nat list \<Rightarrow> problem \<Rightarrow> problem" where
  "pair_rules r [] p = p"
| "pair_rules r (v # vs) p = pair_rules r vs (fold (conflict_rule r v) vs p)"

definition pkg_solve_add_request_rule :: "job_request \<Rightarrow> int \<Rightarrow> problem \<Rightarrow> problem option" where
  "pkg_solve_add_request_rule req sg p =
     (let unit = hd (rq_items req) in
      case map_of (sp_by_uid p) (pkg_uid (item_pkg (sp_universe p) unit)) of
        None \<Rightarrow> None
      | Some vs \<Rightarrow>
          (case pkg_solve_find_var_in_chain p vs unit of
             None \<Rightarrow> None
           | Some v \<Rightarrow>
               (let from = dropWhile (\<lambda>w. w \<noteq> v) vs;
                    p1 = call (Assume (int (sv_order (sp_vars p ! v)) * sg)) p
                in case find_all (pkg_solve_find_var_in_chain p from) (rq_items req) of
                     None \<Rightarrow> None
                   | Some cvs \<Rightarrow>
                       (let p2 = fold (mark_top sg) cvs p1 in
                        if length cvs > 1 \<and> hashed (sp_universe p) (sv_unit (sp_vars p ! v)) then
                          if distinct cvs then
                            Some (mark_top sg v (pair_rules PKG_RULE_REQUEST_CONFLICT cvs
                              (add_rule PKG_RULE_REQUEST (map (\<lambda>w. (w, sg)) cvs) p2)))
                          else None
                        else Some (mark_top sg v p2)))))"

text \<open>Every two variables of a chain exclude each other.\<close>

definition pkg_solve_add_chain_rule :: "nat \<Rightarrow> problem \<Rightarrow> problem" where
  "pkg_solve_add_chain_rule v p = pair_rules PKG_RULE_UPGRADE_CONFLICT (var_chain p v) p"

section \<open>From the universe to the problem\<close>

fun fold_option :: "('a \<Rightarrow> 'b \<Rightarrow> 'b option) \<Rightarrow> 'a list \<Rightarrow> 'b \<Rightarrow> 'b option" where
  "fold_option f [] s = Some s"
| "fold_option f (x # xs) s = (case f x s of None \<Rightarrow> None | Some s' \<Rightarrow> fold_option f xs s')"

text \<open>
  The requests for a variable; \<open>jreq\<close> is the local of the same name, whether the last lookup in
  the table of deletions found a request, which a variable that is already marked keeps from the
  variable before it.
\<close>

definition optional_request :: "job_request option \<Rightarrow> int \<Rightarrow> problem \<Rightarrow> problem option" where
  "optional_request r sg p = (case r of None \<Rightarrow> Some p | Some req \<Rightarrow> pkg_solve_add_request_rule req sg p)"

definition request_rules :: "solve_env \<Rightarrow> nat \<Rightarrow> bool \<Rightarrow> problem \<Rightarrow> (bool \<times> problem) option" where
  "request_rules env v jreq p =
     (if sv_top (sp_vars p ! v) then Some (jreq, p)
      else (let uid = sv_uid (sp_vars p ! v); del = find_request (se_request_delete env) uid in
        case optional_request (find_request (se_request_add env) uid) 1 p of
          None \<Rightarrow> None
        | Some p1 \<Rightarrow> map_option (Pair (del \<noteq> None)) (optional_request del (-1) p1)))"

definition package_rules :: "nat \<Rightarrow> problem \<Rightarrow> problem option" where
  "package_rules v p =
     (let pk = var_pkg p v;
          repo = (\<lambda>p. sv_reponame (sp_vars p ! v));
          p1 = fold (\<lambda>d p. pkg_solve_add_depend_rule v d (repo p) p) (pkg_depends pk) p
      in case fold_option (pkg_solve_add_conflict_rule pk v) (pkg_conflicts pk) p1 of
           None \<Rightarrow> None
         | Some p2 \<Rightarrow>
             fold_option (\<lambda>b p. pkg_solve_add_require_rule v b (repo p) p)
               (pkg_shlibs_required pk @ pkg_requires pk) p2)"

fun process_variables :: "solve_env \<Rightarrow> nat list \<Rightarrow> nat list \<Rightarrow> bool \<Rightarrow> bool \<Rightarrow> problem \<Rightarrow> problem option" where
  "process_variables env chain [] jreq chain_added p = Some p"
| "process_variables env chain (v # vs) jreq chain_added p =
     (case request_rules env v jreq p of
        None \<Rightarrow> None
      | Some (jreq', p1) \<Rightarrow>
          (let p2 = (if jreq' then update_var v (\<lambda>x. x\<lparr>sv_reponame := pkg_reponame (var_pkg p1 v)\<rparr>) p1 else p1) in
           case package_rules v p2 of
             None \<Rightarrow> None
           | Some p3 \<Rightarrow>
               if \<not> chain_added \<and> length chain > 1
               then process_variables env chain vs jreq' True (pkg_solve_add_chain_rule v p3)
               else process_variables env chain vs jreq' chain_added p3))"

definition pkg_solve_process_universe_variable :: "solve_env \<Rightarrow> nat list \<Rightarrow> problem \<Rightarrow> problem option" where
  "pkg_solve_process_universe_variable env chain p = process_variables env chain chain False False p"

text \<open>The new variables of a chain of the universe; \<open>None\<close> if the array is too short.\<close>

definition new_variable :: "universe \<Rightarrow> nat \<Rightarrow> nat \<Rightarrow> solve_variable" where
  "new_variable u n i =
     \<lparr>sv_unit = i, sv_install = False, sv_top = False, sv_failed = False, sv_assumed = False,
      sv_assumed_true = False, sv_order = n + 1, sv_digest = pkg_digest (item_pkg u i),
      sv_uid = pkg_uid (item_pkg u i), sv_reponame = None\<rparr>"

definition pkg_solve_add_variable :: "nat list \<Rightarrow> problem \<Rightarrow> problem option" where
  "pkg_solve_add_variable chain p =
     (let u = sp_universe p; n = length (sp_vars p) in
      if n + length chain \<le> u_nitems u
      then Some (p\<lparr>sp_vars := sp_vars p @ map2 (new_variable u) [n..<n + length chain] chain,
                   sp_by_uid := sp_by_uid p @ [(pkg_uid (item_pkg u (hd chain)), [n..<n + length chain])]\<rparr>)
      else None)"

text \<open>
  \<open>pkg_solve_jobs_to_sat\<close>; the outer \<open>None\<close> is a failed assertion and the inner one the NULL
  that reports an unknown variable. The initialisation of PicoSAT is taken to succeed.
\<close>

definition empty_problem :: "universe \<Rightarrow> problem" where
  "empty_problem u = \<lparr>sp_universe = u, sp_vars = [], sp_by_uid = [], sp_rules = [], sp_sat = []\<rparr>"

fun process_chains :: "solve_env \<Rightarrow> nat list list \<Rightarrow> problem \<Rightarrow> problem option option" where
  "process_chains env [] p = Some (Some p)"
| "process_chains env (c # cs) p =
     (case map_of (sp_by_uid p) (pkg_uid (item_pkg (sp_universe p) (hd c))) of
        None \<Rightarrow> Some None
      | Some vs \<Rightarrow>
          (case pkg_solve_process_universe_variable env vs p of
             None \<Rightarrow> None
           | Some p' \<Rightarrow> process_chains env cs p'))"

definition pkg_solve_jobs_to_sat :: "solve_env \<Rightarrow> universe \<Rightarrow> problem option option" where
  "pkg_solve_jobs_to_sat env u =
     (case fold_option pkg_solve_add_variable (map snd (u_chains u)) (empty_problem u) of
        None \<Rightarrow> None
      | Some p \<Rightarrow> process_chains env (map snd (u_chains u)) p)"

section \<open>Printing\<close>

fun rule_reason :: "rule_type \<Rightarrow> string" where
  "rule_reason PKG_RULE_DEPEND = ''dependency''"
| "rule_reason PKG_RULE_UPGRADE_CONFLICT = ''upgrade''"
| "rule_reason PKG_RULE_REQUEST_CONFLICT = ''candidates''"
| "rule_reason PKG_RULE_EXPLICIT_CONFLICT = ''conflict''"
| "rule_reason PKG_RULE_REQUEST = ''request''"
| "rule_reason PKG_RULE_REQUIRE = ''require''"

definition side :: "pkg \<Rightarrow> string" where
  "side p = (if installed p then ''(l)'' else ''(r)'')"

text \<open>The first negative literal of a rule and the others, in their order.\<close>

definition key_elt :: "solve_item list \<Rightarrow> nat option" where
  "key_elt its = map_option fst (find (\<lambda>it. snd it = -1) its)"

fun other_elts :: "solve_item list \<Rightarrow> nat list" where
  "other_elts [] = []"
| "other_elts (it # its) = (if snd it = -1 then map fst its else fst it # other_elts its)"

fun separated :: "string list \<Rightarrow> string" where
  "separated [] = []"
| "separated [s] = s"
| "separated (s # t # ss) = s @ '', '' @ separated (t # ss)"

definition uid_version :: "problem \<Rightarrow> nat \<Rightarrow> string" where
  "uid_version p v = sv_uid (sp_vars p ! v) @ ''-'' @ pkg_version (var_pkg p v)"

definition depend_text :: "problem \<Rightarrow> string \<Rightarrow> solve_item list \<Rightarrow> string" where
  "depend_text p what its =
     (case key_elt its of
        None \<Rightarrow> []
      | Some e \<Rightarrow> ''package '' @ sv_uid (sp_vars p ! e) @ side (var_pkg p e) @ what) @
     concat (map (\<lambda>v. sv_uid (sp_vars p ! v) @ side (var_pkg p v)) (other_elts its))"

text \<open>\<open>pkg_print_rule_buf\<close>; a rule \<^verbatim>\<open>upgrade\<close> has two items.\<close>

definition pkg_print_rule_buf :: "problem \<Rightarrow> solve_rule \<Rightarrow> string" where
  "pkg_print_rule_buf p r =
     (let its = sr_items r; vs = map fst its in
      rule_reason (sr_reason r) @ '' rule: '' @
      (case sr_reason r of
         PKG_RULE_DEPEND \<Rightarrow> depend_text p '' depends on: '' its
       | PKG_RULE_UPGRADE_CONFLICT \<Rightarrow>
           ''upgrade local '' @ uid_version p (vs ! 0) @ '' to remote '' @ uid_version p (vs ! 1)
       | PKG_RULE_EXPLICIT_CONFLICT \<Rightarrow>
           ''The following packages conflict with each other: '' @
           separated (map (\<lambda>v. pkg_uid (var_pkg p v) @ ''-'' @ pkg_version (var_pkg p v) @ side (var_pkg p v)) vs)
       | PKG_RULE_REQUIRE \<Rightarrow> depend_text p '' depends on a requirement provided by: '' its
       | PKG_RULE_REQUEST_CONFLICT \<Rightarrow>
           ''The following packages in request are candidates for installation: '' @
           separated (map (uid_version p) vs)
       | PKG_RULE_REQUEST \<Rightarrow> []))"

section \<open>PicoSAT\<close>

text \<open>
  Its answers after a history of calls: whether \<^verbatim>\<open>picosat_sat\<close> returned \<^verbatim>\<open>PICOSAT_SATISFIABLE\<close>, the
  value of a variable, and the failed assumptions before the terminating zero.
\<close>

record picosat =
  ps_sat :: "picosat_call list \<Rightarrow> bool"
  ps_deref :: "picosat_call list \<Rightarrow> int \<Rightarrow> int"
  ps_failed_assumptions :: "picosat_call list \<Rightarrow> int list"

section \<open>Initial assumptions\<close>

definition set_item_pkg :: "nat \<Rightarrow> pkg \<Rightarrow> problem \<Rightarrow> problem" where
  "set_item_pkg i pk p =
     p\<lparr>sp_universe := (sp_universe p)\<lparr>u_items := (u_items (sp_universe p))[i := (u_items (sp_universe p) ! i)\<lparr>ui_pkg := pk\<rparr>]\<rparr>\<rparr>"

text \<open>
  The package assumed for a chain with an installed package \<open>local\<close>; the comparison records the
  reason of an upgrade in the package. \<open>None\<close> is \<^verbatim>\<open>strcmp\<close> on a package without a digest.
\<close>

definition keep_local :: "nat \<Rightarrow> nat \<Rightarrow> problem \<Rightarrow> (nat \<times> problem) option" where
  "keep_local selected local p =
     (let u = sp_universe p in
      case (pkg_digest (item_pkg u selected), pkg_digest (item_pkg u local)) of
        (Some d, Some e) \<Rightarrow>
          if d = e then Some (local, p)
          else (case pkg_jobs_need_upgrade (item_pkg u selected) (Some (item_pkg u local)) of
                  (yes, rp) \<Rightarrow> Some (if yes then selected else local, set_item_pkg selected rp p))
      | _ \<Rightarrow> None)"

definition assume_var :: "nat \<Rightarrow> nat \<Rightarrow> problem \<Rightarrow> problem" where
  "assume_var selected v p =
     (let x = sp_vars p ! v in
      if sv_unit x = selected
      then update_var v (\<lambda>x. x\<lparr>sv_assumed_true := True, sv_assumed := True\<rparr>) (call (Default_phase (int (sv_order x)) 1) p)
      else update_var v (\<lambda>x. x\<lparr>sv_assumed := True\<rparr>) (call (Default_phase (int (sv_order x)) (-1)) p))"

definition assume_chain :: "solve_env \<Rightarrow> string option \<Rightarrow> nat \<Rightarrow> problem \<Rightarrow> problem option" where
  "assume_chain env reponame w p =
     (let u = sp_universe p;
          install = (se_type env = PKG_JOBS_INSTALL);
          chain = chain_of u (sv_unit (sp_vars p ! w));
          vars = var_chain p w;
          local = find (\<lambda>i. installed (item_pkg u i)) chain;
          candidate = pkg_jobs_universe_select_candidate (se_repos env) (item_pkg u) chain local
            (install \<or> se_conservative env) reponame True
      in if \<exists>v \<in> set vars. sv_assumed (sp_vars p ! v) then Some p
         else (case (case local of
                       None \<Rightarrow> Some (candidate, p)
                     | Some l \<Rightarrow> if install then Some (l, p) else keep_local candidate l p) of
                 None \<Rightarrow> None
               | Some (selected, p') \<Rightarrow> Some (fold (assume_var selected) vars p')))"

definition pkg_solve_set_initial_assumption :: "solve_env \<Rightarrow> solve_rule \<Rightarrow> problem \<Rightarrow> problem option" where
  "pkg_solve_set_initial_assumption env r p =
     (case sr_reason r of
        PKG_RULE_DEPEND \<Rightarrow>
          (case sr_items r of
             (v, _) # its \<Rightarrow>
               (let x = sp_vars p ! v in
                if \<not> sv_top x \<and> \<not> sv_assumed_true x then Some p
                else (case its of [] \<Rightarrow> None | (w, _) # _ \<Rightarrow> assume_chain env (sv_reponame x) w p))
           | [] \<Rightarrow> None)
      | _ \<Rightarrow> Some p)"

section \<open>The loop around the solver\<close>

text \<open>The clauses, a zero after each.\<close>

definition rule_lits :: "problem \<Rightarrow> solve_rule \<Rightarrow> int list" where
  "rule_lits p r = map (\<lambda>(v, sg). int (sv_order (sp_vars p ! v)) * sg) (sr_items r)"

definition add_clauses :: "problem \<Rightarrow> problem" where
  "add_clauses p = fold (\<lambda>r p. fold (\<lambda>l. call (Add l)) (rule_lits p r @ [0]) p) (sp_rules p) p"

text \<open>The guess for the variable at an index, \<open>pkg_solve_picosat_iter\<close>.\<close>

definition guess_var :: "nat \<Rightarrow> problem \<Rightarrow> problem" where
  "guess_var i p =
     (let x = sp_vars p ! i; n = int i + 1;
          prefer = (\<lambda>p. call (More_important n) (call (Default_phase n 1) p));
          avoid = (\<lambda>p. call (Less_important n) (call (Default_phase n (-1)) p))
      in if sv_top x then p
         else if \<not> sv_failed x \<and> \<not> sv_assumed x then
           if \<exists>v \<in> set (var_from p i). installed (var_pkg p v) then prefer p
           else if var_chain p i = [i] then avoid p
           else p
         else if sv_failed x then
           update_var i (\<lambda>x. x\<lparr>sv_failed := False\<rparr>) (if installed (var_pkg p i) then avoid p else prefer p)
         else p)"

definition pkg_solve_picosat_iter :: "problem \<Rightarrow> problem" where
  "pkg_solve_picosat_iter p =
     call Sat (fold guess_var [0..<length (sp_vars p)] (call Reset_scores (call Reset_phases p)))"

text \<open>The assignment read back after \<^verbatim>\<open>PICOSAT_SATISFIABLE\<close>.\<close>

definition assign_var :: "(int \<Rightarrow> int) \<Rightarrow> nat \<Rightarrow> problem \<Rightarrow> problem" where
  "assign_var val i = update_var i (\<lambda>x. x\<lparr>sv_install := val (int i + 1) > 0\<rparr>)"

definition assign_vars :: "(int \<Rightarrow> int) \<Rightarrow> problem \<Rightarrow> problem" where
  "assign_vars val p = fold (assign_var val) [0..<length (sp_vars p)] p"

text \<open>A chain from a variable on of which nothing is installed, though something was.\<close>

definition deletes_local :: "problem \<Rightarrow> nat \<Rightarrow> bool" where
  "deletes_local p i \<longleftrightarrow> (\<forall>v \<in> set (var_from p i). \<not> sv_install (sp_vars p ! v)) \<and>
     (\<exists>v \<in> set (var_from p i). installed (var_pkg p v))"

definition mark_failed :: "nat \<Rightarrow> problem \<Rightarrow> problem" where
  "mark_failed v = update_var v (\<lambda>x. x\<lparr>sv_failed := True\<rparr>)"

definition check_deletion :: "nat \<Rightarrow> bool \<times> problem \<Rightarrow> bool \<times> problem" where
  "check_deletion i st =
     (if deletes_local (snd st) i then (True, fold mark_failed (var_from (snd st) i) (snd st)) else st)"

definition check_deletions :: "solve_env \<Rightarrow> nat \<Rightarrow> problem \<Rightarrow> bool \<times> problem" where
  "check_deletions env iter p =
     (if (se_type env = PKG_JOBS_INSTALL \<or> se_type env = PKG_JOBS_UPGRADE) \<and> iter = 0
      then fold check_deletion [0..<length (sp_vars p)] (False, p) else (False, p))"

text \<open>Top-level assumptions are made again, those that failed the other way round.\<close>

definition restore_var :: "nat \<Rightarrow> problem \<Rightarrow> problem" where
  "restore_var i p =
     (if sv_top (sp_vars p ! i) then
        (let p' = (if sv_failed (sp_vars p ! i)
                   then update_var i (\<lambda>x. x\<lparr>sv_install := \<not> sv_install x, sv_failed := False\<rparr>) p else p);
             x = sp_vars p' ! i
         in call (Assume (int (sv_order x) * (if sv_install x then 1 else -1))) p')
      else p)"

definition restore_assumptions :: "problem \<Rightarrow> problem" where
  "restore_assumptions p = fold restore_var [0..<length (sp_vars p)] p"

text \<open>
  The variable of the last failed assumption. Without failed assumptions the loop steps in front
  of the array, and a literal out of range leaves the array of variables: \<open>None\<close>.
\<close>

definition failed_var :: "problem \<Rightarrow> int list \<Rightarrow> nat option" where
  "failed_var p fs =
     (if fs = [] then None
      else let l = abs (last fs) in
        if 1 \<le> l \<and> l \<le> int (length (sp_vars p)) then Some (nat l - 1) else None)"

definition question :: "problem \<Rightarrow> nat \<Rightarrow> string" where
  "question p v =
     concat (map (\<lambda>r. pkg_print_rule_buf p r @ [CHR 10])
       (filter (\<lambda>r. sr_reason r \<noteq> PKG_RULE_DEPEND \<and> v \<in> set (map fst (sr_items r))) (sp_rules p))) @
     ''cannot '' @ (if sv_install (sp_vars p ! v) then ''install'' else ''remove'') @ '' package '' @
     sv_uid (sp_vars p ! v) @ '', remove it from request? ''"

text \<open>
  The iterations; \<open>ask\<close> answers the question to the user at an attempt. The loop has no bound, so
  it is given fuel.
\<close>

fun solve_loop ::
  "nat \<Rightarrow> solve_env \<Rightarrow> picosat \<Rightarrow> (nat \<Rightarrow> string \<Rightarrow> bool) \<Rightarrow> nat \<Rightarrow> nat \<Rightarrow> problem \<Rightarrow> problem option" where
  "solve_loop 0 env ps ask iter attempt p = None"
| "solve_loop (Suc n) env ps ask iter attempt p =
     (let p1 = pkg_solve_picosat_iter p; h = sp_sat p1 in
      if ps_sat ps h then
        (case check_deletions env iter (assign_vars (ps_deref ps h) p1) of
           (again, p2) \<Rightarrow>
             if again then solve_loop n env ps ask (iter + 1) attempt (restore_assumptions p2) else Some p2)
      else
        (case failed_var p1 (ps_failed_assumptions ps h) of
           None \<Rightarrow> None
         | Some v \<Rightarrow>
             (let p2 = (if attempt + 1 < 10 \<or> ask (attempt + 1) (question p1 v) then mark_failed v p1 else p1)
              in solve_loop n env ps ask (iter + 1) (attempt + 1) (restore_assumptions p2))))"

text \<open>
  \<open>pkg_solve_sat_problem\<close>, which always answers \<open>EPKG_OK\<close>; variables that were allocated but not
  set have no unit.
\<close>

definition pkg_solve_sat_problem ::
  "nat \<Rightarrow> solve_env \<Rightarrow> picosat \<Rightarrow> (nat \<Rightarrow> string \<Rightarrow> bool) \<Rightarrow> problem \<Rightarrow> problem option" where
  "pkg_solve_sat_problem n env ps ask p =
     (case fold_option (pkg_solve_set_initial_assumption env) (sp_rules p) (add_clauses p) of
        None \<Rightarrow> None
      | Some p1 \<Rightarrow>
          if length (sp_vars p1) < u_nitems (sp_universe p1) then None
          else solve_loop n env ps ask 0 0 p1)"

section \<open>From the solution to jobs\<close>

record solved =
  sl_type :: pkg_solved_type
  sl_item :: nat
  sl_old :: "nat option"
  sl_already_deleted :: bool

definition solved_job :: "pkg_solved_type \<Rightarrow> nat \<Rightarrow> nat option \<Rightarrow> solved" where
  "solved_job t i old = \<lparr>sl_type = t, sl_item = i, sl_old = old, sl_already_deleted = False\<rparr>"

definition to_add :: "problem \<Rightarrow> nat \<Rightarrow> bool" where
  "to_add p v \<longleftrightarrow> sv_install (sp_vars p ! v) \<and> \<not> installed (var_pkg p v)"

definition to_delete :: "problem \<Rightarrow> nat \<Rightarrow> bool" where
  "to_delete p v \<longleftrightarrow> \<not> sv_install (sp_vars p ! v) \<and> installed (var_pkg p v)"

text \<open>
  The jobs that \<open>pkg_solve_insert_res_job\<close> appends for a chain of variables; \<open>last\<close> because the
  loop overwrites \<^verbatim>\<open>add_var\<close> and \<^verbatim>\<open>del_var\<close>.
\<close>

definition pkg_solve_insert_res_job :: "pkg_jobs_type \<Rightarrow> problem \<Rightarrow> nat list \<Rightarrow> solved list" where
  "pkg_solve_insert_res_job t p vs =
     (let adds = filter (to_add p) vs; dels = filter (to_delete p) vs;
          unit = (\<lambda>v. sv_unit (sp_vars p ! v));
          delete = (\<lambda>v. solved_job PKG_SOLVED_DELETE (unit v) None)
      in if length adds > 1 then []
         else if adds \<noteq> [] then
           (if dels = [] then [solved_job (if t = PKG_JOBS_FETCH then PKG_SOLVED_FETCH else PKG_SOLVED_INSTALL) (unit (last adds)) None]
            else [solved_job PKG_SOLVED_UPGRADE (unit (last adds)) (Some (unit (last dels)))]) @
           map delete (filter (\<lambda>v. v \<noteq> last dels) dels)
         else map delete dels)"

definition pkg_solve_sat_to_jobs :: "pkg_jobs_type \<Rightarrow> problem \<Rightarrow> solved list" where
  "pkg_solve_sat_to_jobs t p = concat (map (\<lambda>(uid, vs). pkg_solve_insert_res_job t p vs) (sp_by_uid p))"

section \<open>External solvers\<close>

definition dimacs_item :: "problem \<Rightarrow> solve_item \<Rightarrow> string" where
  "dimacs_item p it =
     (if fst it < length (sp_vars p) then format_d ((int (fst it) + 1) * snd it) @ '' '' else [])"

definition pkg_solve_dimacs_export :: "problem \<Rightarrow> string" where
  "pkg_solve_dimacs_export p =
     ''p cnf '' @ format_d (int (length (sp_vars p))) @ '' '' @ format_d (int (length (sp_rules p))) @ [CHR 10] @
     concat (map (\<lambda>r. concat (map (dimacs_item p) (sr_items r)) @ ''0'' @ [CHR 10]) (sp_rules p))"

definition dot_node :: "problem \<Rightarrow> solve_variable \<Rightarrow> string" where
  "dot_node p x =
     [CHR 9] @ ''p'' @ format_d (int (sv_order x)) @ '' [shape='' @
     (if installed (item_pkg (sp_universe p) (sv_unit x)) then ''ellipse'' else ''octagon'') @
     '' label='' @ [CHR 34] @ sv_uid x @ ''-'' @ pkg_version (item_pkg (sp_universe p) (sv_unit x)) @ [CHR 34] @ '']'' @ [CHR 10]"

definition dot_edge :: "problem \<Rightarrow> string \<Rightarrow> nat \<Rightarrow> nat \<Rightarrow> string" where
  "dot_edge p attr v w =
     [CHR 9] @ ''p'' @ format_d (int (sv_order (sp_vars p ! v))) @ '' -> p'' @
     format_d (int (sv_order (sp_vars p ! w))) @ attr @ '';'' @ [CHR 10]"

text \<open>A dependency without a negative literal fails an assertion.\<close>

definition dot_rule :: "problem \<Rightarrow> solve_rule \<Rightarrow> string option" where
  "dot_rule p r =
     (let its = sr_items r; vs = map fst its;
          from_key = (\<lambda>attr. map_option (\<lambda>e. concat (map (dot_edge p attr e) (other_elts its))) (key_elt its))
      in case sr_reason r of
           PKG_RULE_DEPEND \<Rightarrow> from_key []
         | PKG_RULE_REQUIRE \<Rightarrow> from_key ''[arrowhead=diamond]''
         | PKG_RULE_REQUEST \<Rightarrow> Some []
         | _ \<Rightarrow> Some (dot_edge p '' [arrowhead=none,color=red]'' (vs ! 0) (vs ! 1)))"

definition pkg_solve_dot_export :: "problem \<Rightarrow> string option" where
  "pkg_solve_dot_export p =
     map_option (\<lambda>rs. ''digraph {'' @ [CHR 10] @ concat (map (dot_node p) (sp_vars p)) @ concat rs @ ''}'' @ [CHR 10])
       (find_all (dot_rule p) (sp_rules p))"

text \<open>
  The answer of an external solver, as the lines that \<open>port_getline\<close> returns. A number sets its
  variable, zero ends the assignment.
\<close>

definition pkg_solve_parse_sat_output_store :: "string \<Rightarrow> problem \<Rightarrow> bool \<times> problem" where
  "pkg_solve_parse_sat_output_store var_str p =
     (let order = fst (strtoll var_str); i = nat (abs order - 1) in
      if order = 0 then (True, p)
      else (False, if abs order \<le> int (length (sp_vars p)) then update_var i (\<lambda>x. x\<lparr>sv_install := order > 0\<rparr>) p else p))"

definition parse_token :: "string \<Rightarrow> bool \<times> problem \<Rightarrow> bool \<times> problem" where
  "parse_token t st =
     (if \<not> isdigit (deref t) \<and> deref t \<noteq> CHR ''-'' then st
      else (case pkg_solve_parse_sat_output_store t (snd st) of (d, p) \<Rightarrow> (fst st \<or> d, p)))"

definition parse_tokens :: "string \<Rightarrow> bool \<times> problem \<Rightarrow> bool \<times> problem" where
  "parse_tokens s st = fold parse_token (tokens ('' '' @ [CHR 9]) s) st"

definition parse_line :: "string \<Rightarrow> bool \<times> bool \<times> problem \<Rightarrow> bool \<times> bool \<times> problem" where
  "parse_line line st =
     (case st of (got_sat, rest) \<Rightarrow>
        if take 3 line = ''SAT'' then (True, rest)
        else if got_sat then (True, parse_tokens line rest)
        else if take 2 line = ''v '' then (False, parse_tokens (drop 2 line) rest)
        else (False, rest))"

definition pkg_solve_parse_sat_output :: "pkg_jobs_type \<Rightarrow> string list \<Rightarrow> problem \<Rightarrow> epkg \<times> solved list \<times> problem" where
  "pkg_solve_parse_sat_output t lines p =
     (case fold parse_line lines (False, False, p) of
        (_, done, p') \<Rightarrow> if done then (EPKG_OK, pkg_solve_sat_to_jobs t p', p') else (EPKG_FATAL, [], p'))"

end
