(* ===== verification/Solver_Rules.thy ===== *)
theory Solver_Rules
  imports Solver
begin

text \<open>
  The rules of a problem: what building them changes, that the rules of every package and every
  chain are added, and how variables correspond to the items of the universe.
\<close>

section \<open>What building the rules changes\<close>

text \<open>The literals that a history of calls has added to clauses.\<close>

fun adds :: "picosat_call list \<Rightarrow> int list" where
  "adds [] = []"
| "adds (Add l # h) = l # adds h"
| "adds (c # h) = adds h"

lemma adds_append [simp]: "adds (h @ g) = adds h @ adds g"
  by (induction h rule: adds.induct) auto

text \<open>
  Rules are only added, and not yet passed on; of the variables only flags and repository names
  change.
\<close>

definition grows :: "problem \<Rightarrow> problem \<Rightarrow> bool" where
  "grows p p' \<longleftrightarrow> sp_universe p' = sp_universe p \<and> sp_by_uid p' = sp_by_uid p \<and>
     map sv_unit (sp_vars p') = map sv_unit (sp_vars p) \<and> map sv_order (sp_vars p') = map sv_order (sp_vars p) \<and>
     adds (sp_sat p') = adds (sp_sat p) \<and> set (sp_rules p) \<subseteq> set (sp_rules p')"

lemma grows_refl [simp]: "grows p p"
  by (simp add: grows_def)

lemma grows_trans [trans]: "grows p q \<Longrightarrow> grows q r \<Longrightarrow> grows p r"
  by (auto simp: grows_def)

named_theorems grows_simps

lemma grows_length: "grows p q \<Longrightarrow> length (sp_vars q) = length (sp_vars p)"
  unfolding grows_def by (metis length_map)

lemma unit_nth: "map sv_unit vs = map sv_unit ws \<Longrightarrow> v < length vs \<Longrightarrow> sv_unit (vs ! v) = sv_unit (ws ! v)"
  by (metis length_map nth_map)

lemma map_update_same:
  assumes "\<And>x. f (g x) = f x"
  shows "map f (xs[i := g (xs ! i)]) = map f xs"
  by (cases "i < length xs") (auto simp: assms map_update map_update [symmetric] list_update_same_conv)

lemma grows_update_var [grows_simps]:
  "(\<And>x. sv_unit (f x) = sv_unit x) \<Longrightarrow> (\<And>x. sv_order (f x) = sv_order x) \<Longrightarrow> grows p (update_var v f p)"
  by (simp add: grows_def update_var_def map_update_same)

lemma grows_assume [grows_simps]: "grows p (call (Assume l) p)"
  by (simp add: grows_def call_def)

lemma grows_add_rule [grows_simps]: "grows p (add_rule r its p)"
  by (auto simp: grows_def add_rule_def)

lemma grows_assume_repo [grows_simps]: "grows p (assume_repo r v p)"
  by (simp add: assume_repo_def grows_simps)

lemma grows_mark_top [grows_simps]: "grows p (mark_top sg v p)"
  by (simp add: mark_top_def grows_simps)

lemma grows_conflict_rule [grows_simps]: "grows p (conflict_rule r v w p)"
  by (simp add: conflict_rule_def grows_simps)

lemma grows_fold: "(\<And>x p. grows p (f x p)) \<Longrightarrow> grows p (fold f xs p)"
  by (induction xs arbitrary: p) (auto intro: grows_trans)

lemma grows_fold_option:
  "(\<And>x p p'. f x p = Some p' \<Longrightarrow> grows p p') \<Longrightarrow> fold_option f xs p = Some p' \<Longrightarrow> grows p p'"
  by (induction xs arbitrary: p) (auto split: option.splits, metis grows_trans)

lemma grows_pair_rules [grows_simps]: "grows p (pair_rules r vs p)"
  by (induction r vs p rule: pair_rules.induct) (simp, metis grows_fold grows_conflict_rule grows_trans pair_rules.simps(2))

lemma var_pkg_grows: "grows p q \<Longrightarrow> v < length (sp_vars p) \<Longrightarrow> var_pkg q v = var_pkg p v"
  unfolding grows_def var_pkg_def by (metis length_map unit_nth)

section \<open>What the rules say\<close>

text \<open>The literals in terms of the tables, independent of the order in which they were built.\<close>

definition positive :: "nat list \<Rightarrow> solve_item list" where
  "positive vs = map (\<lambda>v. (v, 1)) vs"

definition uid_vars :: "problem \<Rightarrow> string \<Rightarrow> nat list" where
  "uid_vars p uid = (case map_of (sp_by_uid p) uid of None \<Rightarrow> [] | Some vs \<Rightarrow> vs)"

definition dep_vars :: "problem \<Rightarrow> pkg_dep \<Rightarrow> nat list" where
  "dep_vars p d = concat (map (uid_vars p) (dep_uids d))"

definition provider_vars :: "problem \<Rightarrow> string \<Rightarrow> pkg \<Rightarrow> job_provide \<Rightarrow> nat list" where
  "provider_vars p name orig pr =
     (case pr_un pr of None \<Rightarrow> []
      | Some un \<Rightarrow>
          filter (\<lambda>v. provides_it (pr_is_shlib pr) name orig (var_pkg p v))
            (uid_vars p (pkg_uid (item_pkg (sp_universe p) (hd (chain_of (sp_universe p) un))))))"

definition require_vars :: "problem \<Rightarrow> string \<Rightarrow> pkg \<Rightarrow> nat list" where
  "require_vars p name orig =
     (case map_of (u_provides (sp_universe p)) name of None \<Rightarrow> []
      | Some prs \<Rightarrow> concat (map (provider_vars p name orig) prs))"

definition has_rule :: "problem \<Rightarrow> rule_type \<Rightarrow> solve_item list \<Rightarrow> bool" where
  "has_rule p r its \<longleftrightarrow> \<lparr>sr_reason = r, sr_items = its\<rparr> \<in> set (sp_rules p)"

definition known_dep :: "problem \<Rightarrow> pkg_dep \<Rightarrow> bool" where
  "known_dep p d \<longleftrightarrow> (\<exists>uid \<in> set (dep_uids d). map_of (sp_by_uid p) uid \<noteq> None)"

definition package_rules_in :: "nat \<Rightarrow> problem \<Rightarrow> bool" where
  "package_rules_in v p \<longleftrightarrow>
     (\<forall>d \<in> set (pkg_depends (var_pkg p v)). known_dep p d \<longrightarrow> has_rule p PKG_RULE_DEPEND ((v, -1) # positive (dep_vars p d))) \<and>
     (\<forall>c \<in> set (pkg_conflicts (var_pkg p v)). \<forall>w \<in> set (uid_vars p (conflict_uid c)).
        conflict_applies (var_pkg p v) c (var_pkg p w) = Some True \<longrightarrow> has_rule p PKG_RULE_EXPLICIT_CONFLICT [(v, -1), (w, -1)]) \<and>
     (\<forall>b \<in> set (pkg_shlibs_required (var_pkg p v)) \<union> set (pkg_requires (var_pkg p v)).
        require_vars p b (var_pkg p v) \<noteq> [] \<longrightarrow> has_rule p PKG_RULE_REQUIRE ((v, -1) # positive (require_vars p b (var_pkg p v))))"

text \<open>All variables named by the table exist.\<close>

definition vars_in :: "problem \<Rightarrow> bool" where
  "vars_in p \<longleftrightarrow> (\<forall>uid vs. (uid, vs) \<in> set (sp_by_uid p) \<longrightarrow> (\<forall>v \<in> set vs. v < length (sp_vars p)))"

lemma vars_in_grows: "grows p q \<Longrightarrow> vars_in p \<Longrightarrow> vars_in q"
  using grows_length by (auto simp: vars_in_def grows_def)

lemma uid_vars_less: "vars_in p \<Longrightarrow> v \<in> set (uid_vars p uid) \<Longrightarrow> v < length (sp_vars p)"
  by (cases "map_of (sp_by_uid p) uid") (auto simp: vars_in_def uid_vars_def dest: map_of_SomeD)

lemma has_rule_grows: "grows p q \<Longrightarrow> has_rule p r its \<Longrightarrow> has_rule q r its"
  by (auto simp: grows_def has_rule_def)

lemma tables_grows:
  assumes "grows p q"
  shows "uid_vars q = uid_vars p" "dep_vars q = dep_vars p" "known_dep q = known_dep p"
proof -
  show u: "uid_vars q = uid_vars p" using assms by (simp add: grows_def uid_vars_def fun_eq_iff)
  show "dep_vars q = dep_vars p" by (rule ext) (simp add: dep_vars_def u)
  show "known_dep q = known_dep p" using assms by (simp add: grows_def known_dep_def fun_eq_iff)
qed

lemma provider_vars_grows:
  assumes "grows p q" "vars_in p"
  shows "provider_vars q name orig pr = provider_vars p name orig pr"
proof -
  have "filter (\<lambda>v. provides_it s name orig (var_pkg q v)) (uid_vars p uid) =
      filter (\<lambda>v. provides_it s name orig (var_pkg p v)) (uid_vars p uid)" for s uid
    using uid_vars_less [OF assms(2)] var_pkg_grows [OF assms(1)] by (intro filter_cong) auto
  moreover have "sp_universe q = sp_universe p" using assms(1) by (simp add: grows_def)
  ultimately show ?thesis
    using tables_grows(1) [OF assms(1)] by (simp add: provider_vars_def split: option.split)
qed

lemma require_vars_grows: "grows p q \<Longrightarrow> vars_in p \<Longrightarrow> require_vars q name orig = require_vars p name orig"
  using provider_vars_grows [of p q name orig] unfolding grows_def require_vars_def
  by (auto split: option.split intro!: arg_cong [where f = concat])

lemma package_rules_in_grows:
  assumes g: "grows p q" and "vars_in p" "v < length (sp_vars p)" "package_rules_in v p"
  shows "package_rules_in v q"
proof -
  have "conflict_applies pk c (var_pkg q w) = conflict_applies pk c (var_pkg p w)" if "w \<in> set (uid_vars p uid)" for pk c w uid
    using var_pkg_grows [OF g] uid_vars_less [OF assms(2) that] by simp
  then show ?thesis
    using assms var_pkg_grows [OF g assms(3)] tables_grows [OF g] require_vars_grows [OF g assms(2)] has_rule_grows [OF g]
    by (simp add: package_rules_in_def)
qed

section \<open>Every rule is added\<close>

lemma depend_items_eq:
  "depend_items uids r p =
     (positive (concat (map (uid_vars p) uids)), snd (depend_items uids r p)) \<and> grows p (snd (depend_items uids r p))"
proof (induction uids arbitrary: p)
  case (Cons uid uids)
  show ?case
  proof (cases "map_of (sp_by_uid p) uid")
    case None
    then show ?thesis using Cons [of p] by (simp add: uid_vars_def)
  next
    case (Some vs)
    let ?q = "fold (assume_repo r) vs p"
    have g: "grows p ?q" by (rule grows_fold) (rule grows_assume_repo)
    then have "uid_vars ?q = uid_vars p" by (rule tables_grows)
    then show ?thesis
      using Cons [of ?q] Some grows_trans [OF g] by (auto simp: uid_vars_def positive_def split: prod.split)
  qed
qed (simp add: positive_def)

lemma depend_rule:
  defines "q \<equiv> \<lambda>v d r p. pkg_solve_add_depend_rule v d r p"
  shows "grows p (q v d r p)"
    and "known_dep p d \<Longrightarrow> has_rule (q v d r p) PKG_RULE_DEPEND ((v, -1) # positive (dep_vars p d))"
proof -
  have d: "depend_items (dep_uids d) r p = (positive (dep_vars p d), snd (depend_items (dep_uids d) r p))"
    "grows p (snd (depend_items (dep_uids d) r p))"
    using depend_items_eq by (simp_all add: dep_vars_def)
  show "grows p (q v d r p)"
    using grows_trans [OF d(2) grows_add_rule] d(1)
    by (auto simp: q_def pkg_solve_add_depend_rule_def split: prod.split)
  show "known_dep p d \<Longrightarrow> has_rule (q v d r p) PKG_RULE_DEPEND ((v, -1) # positive (dep_vars p d))"
    by (subst q_def, subst pkg_solve_add_depend_rule_def, subst d(1)) (auto simp: known_dep_def has_rule_def add_rule_def)
qed

lemma conflict_rules_eq:
  assumes "conflict_rules pk v c ws p = Some p'" "vars_in p" "\<forall>w \<in> set ws. w < length (sp_vars p)"
  shows "grows p p' \<and> (\<forall>w \<in> set ws. conflict_applies pk c (var_pkg p w) = Some True \<longrightarrow>
    has_rule p' PKG_RULE_EXPLICIT_CONFLICT [(v, -1), (w, -1)])"
  using assms
proof (induction ws arbitrary: p)
  case (Cons w ws)
  obtain b where b: "conflict_applies pk c (var_pkg p w) = Some b" using Cons.prems by (auto split: option.splits)
  let ?q = "if b then conflict_rule PKG_RULE_EXPLICIT_CONFLICT v w p else p"
  have g: "grows p ?q" by (simp add: grows_conflict_rule)
  have r: "conflict_rules pk v c ws ?q = Some p'" using Cons.prems b by simp
  have ih: "grows ?q p'" "\<forall>x \<in> set ws. conflict_applies pk c (var_pkg ?q x) = Some True \<longrightarrow>
      has_rule p' PKG_RULE_EXPLICIT_CONFLICT [(v, -1), (x, -1)]"
    using Cons.IH [OF r] vars_in_grows [OF g] grows_length [OF g] Cons.prems by auto
  have "b \<Longrightarrow> has_rule ?q PKG_RULE_EXPLICIT_CONFLICT [(v, -1), (w, -1)]"
    by (simp add: has_rule_def conflict_rule_def add_rule_def)
  then have "b \<Longrightarrow> has_rule p' PKG_RULE_EXPLICIT_CONFLICT [(v, -1), (w, -1)]" by (rule has_rule_grows [OF ih(1)])
  then show ?case
    using grows_trans [OF g ih(1)] ih(2) b var_pkg_grows [OF g] Cons.prems(3) by auto
qed simp

lemma conflict_rule_in:
  assumes "pkg_solve_add_conflict_rule pk v c p = Some p'" "vars_in p"
  shows "grows p p'" "\<forall>w \<in> set (uid_vars p (conflict_uid c)). conflict_applies pk c (var_pkg p w) = Some True \<longrightarrow>
    has_rule p' PKG_RULE_EXPLICIT_CONFLICT [(v, -1), (w, -1)]"
proof -
  have "grows p p' \<and> (\<forall>w \<in> set (uid_vars p (conflict_uid c)). conflict_applies pk c (var_pkg p w) = Some True \<longrightarrow>
    has_rule p' PKG_RULE_EXPLICIT_CONFLICT [(v, -1), (w, -1)])"
  proof (cases "map_of (sp_by_uid p) (conflict_uid c)")
    case None
    then show ?thesis using assms by (simp add: pkg_solve_add_conflict_rule_def uid_vars_def)
  next
    case (Some vs)
    then have u: "uid_vars p (conflict_uid c) = vs" by (simp add: uid_vars_def)
    have "\<forall>w \<in> set vs. w < length (sp_vars p)" using uid_vars_less [OF assms(2), of _ "conflict_uid c"] u by simp
    then show ?thesis
      using conflict_rules_eq [of pk v c vs p p'] assms Some by (simp add: pkg_solve_add_conflict_rule_def u)
  qed
  then show "grows p p'" "\<forall>w \<in> set (uid_vars p (conflict_uid c)). conflict_applies pk c (var_pkg p w) = Some True \<longrightarrow>
    has_rule p' PKG_RULE_EXPLICIT_CONFLICT [(v, -1), (w, -1)]" by simp_all
qed

lemma provide_items_eq:
  assumes "\<forall>v \<in> set vs. v < length (sp_vars p)"
  shows "provide_items s name orig r vs p =
      (positive (filter (\<lambda>v. provides_it s name orig (var_pkg p v)) vs), snd (provide_items s name orig r vs p)) \<and>
    grows p (snd (provide_items s name orig r vs p))"
  using assms
proof (induction vs arbitrary: p)
  case (Cons v vs)
  let ?q = "assume_repo r v p"
  have g: "grows p ?q" by (rule grows_assume_repo)
  have "filter (\<lambda>v. provides_it s name orig (var_pkg ?q v)) vs = filter (\<lambda>v. provides_it s name orig (var_pkg p v)) vs"
    using var_pkg_grows [OF g] Cons.prems by (intro filter_cong) auto
  then show ?case
    using Cons.IH [of p] Cons.IH [of ?q] Cons.prems grows_trans [OF g] grows_length [OF g]
    by (auto simp: positive_def split: prod.split)
qed (simp add: positive_def)

lemma handle_provide_eq:
  assumes "pkg_solve_handle_provide pr name orig r p = Some (its, p')" "vars_in p"
  shows "its = positive (provider_vars p name orig pr) \<and> grows p p'"
proof (cases "pr_un pr")
  case (Some un)
  let ?uid = "pkg_uid (item_pkg (sp_universe p) (hd (chain_of (sp_universe p) un)))"
  show ?thesis
  proof (cases "map_of (sp_by_uid p) ?uid")
    case None
    then show ?thesis
      using assms Some by (simp add: pkg_solve_handle_provide_def provider_vars_def uid_vars_def positive_def)
  next
    case vs: (Some vs)
    then have "uid_vars p ?uid = vs" by (simp add: uid_vars_def)
    then show ?thesis
      using provide_items_eq [of vs p "pr_is_shlib pr" name orig r] uid_vars_less [OF assms(2), of _ ?uid] assms(1) vs Some
      by (simp add: pkg_solve_handle_provide_def provider_vars_def)
  qed
qed (use assms in \<open>simp add: pkg_solve_handle_provide_def\<close>)

lemma provides_items_eq:
  assumes "provides_items prs name orig r p = Some (its, p')" "vars_in p"
  shows "its = positive (concat (map (provider_vars p name orig) prs)) \<and> grows p p'"
  using assms
proof (induction prs arbitrary: p its)
  case (Cons pr prs)
  from Cons.prems obtain i1 p1 i2 where 1: "pkg_solve_handle_provide pr name orig r p = Some (i1, p1)"
    and 2: "provides_items prs name orig r p1 = Some (i2, p')" and its: "its = i1 @ i2"
    by (auto split: option.splits)
  have h: "i1 = positive (provider_vars p name orig pr)" "grows p p1" using handle_provide_eq [OF 1] Cons.prems by auto
  have "i2 = positive (concat (map (provider_vars p1 name orig) prs))" "grows p1 p'"
    using Cons.IH [OF 2] vars_in_grows [OF h(2)] Cons.prems by auto
  moreover have "provider_vars p1 name orig = provider_vars p name orig"
    by (rule ext) (rule provider_vars_grows [OF h(2) Cons.prems(2)])
  ultimately show ?case using its h grows_trans [OF h(2)] by (simp add: positive_def)
qed (simp add: positive_def)

lemma require_rule_in:
  assumes "pkg_solve_add_require_rule v b r p = Some p'" "vars_in p"
  shows "grows p p'" "require_vars p b (var_pkg p v) \<noteq> [] \<Longrightarrow>
    has_rule p' PKG_RULE_REQUIRE ((v, -1) # positive (require_vars p b (var_pkg p v)))"
proof -
  have "grows p p' \<and> (require_vars p b (var_pkg p v) \<noteq> [] \<longrightarrow>
    has_rule p' PKG_RULE_REQUIRE ((v, -1) # positive (require_vars p b (var_pkg p v))))"
  proof (cases "map_of (u_provides (sp_universe p)) b")
    case None
    then show ?thesis using assms by (simp add: pkg_solve_add_require_rule_def require_vars_def)
  next
    case (Some prs)
    from assms Some obtain its q where q: "provides_items prs b (var_pkg p v) r p = Some (its, q)"
      "p' = (if its = [] then q else add_rule PKG_RULE_REQUIRE ((v, -1) # its) q)"
      by (auto simp: pkg_solve_add_require_rule_def split: option.splits)
    with provides_items_eq [OF q(1) assms(2)] have "its = positive (require_vars p b (var_pkg p v))" "grows p q"
      using Some by (simp_all add: require_vars_def)
    then show ?thesis
      using q(2) grows_trans [OF _ grows_add_rule] by (auto simp: has_rule_def add_rule_def positive_def)
  qed
  then show "grows p p'" "require_vars p b (var_pkg p v) \<noteq> [] \<Longrightarrow>
    has_rule p' PKG_RULE_REQUIRE ((v, -1) # positive (require_vars p b (var_pkg p v)))" by simp_all
qed

lemma fold_establishes:
  assumes "\<And>x p. grows p (f x p)" "\<And>x p. Q x (f x p)" "\<And>x p q. grows p q \<Longrightarrow> Q x p \<Longrightarrow> Q x q"
  shows "\<forall>x \<in> set xs. Q x (fold f xs p)"
  using assms by (induction xs arbitrary: p) (auto, metis grows_fold)

lemma fold_option_establishes:
  assumes g: "\<And>x p p'. f x p = Some p' \<Longrightarrow> I p \<Longrightarrow> grows p p'"
    and q: "\<And>x p p'. f x p = Some p' \<Longrightarrow> I p \<Longrightarrow> Q x p'"
    and s: "\<And>x p p'. grows p p' \<Longrightarrow> I p \<Longrightarrow> Q x p \<Longrightarrow> Q x p'" and i: "\<And>p p'. grows p p' \<Longrightarrow> I p \<Longrightarrow> I p'"
    and "fold_option f xs p = Some p'" "I p"
  shows "grows p p' \<and> (\<forall>x \<in> set xs. Q x p')"
  using assms(5,6)
proof (induction xs arbitrary: p)
  case (Cons x xs)
  then obtain p1 where 1: "f x p = Some p1" "fold_option f xs p1 = Some p'" by (auto split: option.splits)
  have a: "grows p p1" "Q x p1" "I p1" using g [OF 1(1) Cons.prems(2)] q [OF 1(1) Cons.prems(2)] i [OF _ Cons.prems(2)] by auto
  with Cons.IH [OF 1(2)] show ?case using grows_trans s by auto
qed simp

lemma grows_request:
  assumes "pkg_solve_add_request_rule req sg p = Some p'"
  shows "grows p p'"
proof -
  have m: "grows q (fold (mark_top sg) xs q)" for q xs by (rule grows_fold) (rule grows_mark_top)
  have "grows p (mark_top sg v (pair_rules r cvs (add_rule s its (fold (mark_top sg) cvs (call (Assume l) p)))))" for v r cvs s its l
    using grows_assume [of p l] m grows_add_rule grows_pair_rules grows_mark_top grows_trans by meson
  moreover have "grows p (mark_top sg v (fold (mark_top sg) cvs (call (Assume l) p)))" for v cvs l
    using grows_assume [of p l] m grows_mark_top grows_trans by meson
  ultimately show ?thesis
    using assms by (auto simp: pkg_solve_add_request_rule_def Let_def split: option.splits if_splits)
qed

lemma grows_request_rules: "request_rules env v jreq p = Some (b, p') \<Longrightarrow> grows p p'"
  by (auto simp: request_rules_def optional_request_def Let_def split: if_splits option.splits
      dest!: grows_request intro: grows_trans)

lemma package_rules_eq:
  assumes r: "package_rules v p = Some p'" and vi: "vars_in p" and v: "v < length (sp_vars p)"
  shows "grows p p' \<and> package_rules_in v p'"
proof -
  let ?pk = "var_pkg p v"
  let ?dep = "\<lambda>d p. pkg_solve_add_depend_rule v d (sv_reponame (sp_vars p ! v)) p"
  let ?req = "\<lambda>b p. pkg_solve_add_require_rule v b (sv_reponame (sp_vars p ! v)) p"
  let ?D = "\<lambda>d p. known_dep p d \<longrightarrow> has_rule p PKG_RULE_DEPEND ((v, -1) # positive (dep_vars p d))"
  let ?C = "\<lambda>c p. \<forall>w \<in> set (uid_vars p (conflict_uid c)). conflict_applies ?pk c (var_pkg p w) = Some True \<longrightarrow>
    has_rule p PKG_RULE_EXPLICIT_CONFLICT [(v, -1), (w, -1)]"
  let ?R = "\<lambda>b p. require_vars p b ?pk \<noteq> [] \<longrightarrow> has_rule p PKG_RULE_REQUIRE ((v, -1) # positive (require_vars p b ?pk))"
  let ?I = "\<lambda>q. vars_in q \<and> grows p q"
  let ?p1 = "fold ?dep (pkg_depends ?pk) p"
  from r obtain p2 where 2: "fold_option (pkg_solve_add_conflict_rule ?pk v) (pkg_conflicts ?pk) ?p1 = Some p2"
    and 3: "fold_option ?req (pkg_shlibs_required ?pk @ pkg_requires ?pk) p2 = Some p'"
    by (auto simp: package_rules_def Let_def split: option.splits)
  have D: "?D d q \<Longrightarrow> ?D d q'" if "grows q q'" for d q q'
    using tables_grows [OF that] has_rule_grows [OF that] by simp
  have C: "?C c q \<Longrightarrow> ?C c q'" if "grows q q'" "?I q" for c q q'
    using tables_grows [OF that(1)] has_rule_grows [OF that(1)] var_pkg_grows [OF that(1)] uid_vars_less that(2) by auto
  have R: "?R c q \<Longrightarrow> ?R c q'" if "grows q q'" "?I q" for c q q'
    using require_vars_grows [OF that(1)] has_rule_grows [OF that(1)] that(2) by simp
  have pk: "var_pkg q v = ?pk" if "grows p q" for q using var_pkg_grows [OF that v] .
  have I: "?I q'" if "grows q q'" "?I q" for q q' using that grows_trans vars_in_grows by blast
  have dep: "grows q (?dep d q)" "?D d (?dep d q)" for d q
  proof -
    show g: "grows q (?dep d q)" by (rule depend_rule)
    show "?D d (?dep d q)" using depend_rule(2) [of q d v] tables_grows [OF g] by simp
  qed
  have d: "grows p ?p1" "\<forall>d \<in> set (pkg_depends ?pk). ?D d ?p1"
    using grows_fold [of ?dep] fold_establishes [of ?dep ?D] dep D by blast+
  have I1: "?I ?p1" using d(1) vi vars_in_grows by blast
  have conf: "?C c q'" if "pkg_solve_add_conflict_rule ?pk v c q = Some q'" "?I q" for c q q'
    using conflict_rule_in [OF that(1)] that(2) tables_grows(1) var_pkg_grows uid_vars_less by (metis (no_types, lifting))
  have c: "grows ?p1 p2 \<and> (\<forall>c \<in> set (pkg_conflicts ?pk). ?C c p2)"
    by (rule fold_option_establishes [where f = "pkg_solve_add_conflict_rule ?pk v" and I = ?I and Q = ?C, OF _ conf C I 2 I1])
      (use conflict_rule_in(1) in blast)+
  have I2: "?I p2" using I c I1 by blast
  have req: "?R b q'" if "?req b q = Some q'" "?I q" for b q q'
    using require_rule_in [OF that(1)] pk [of q] that(2) require_vars_grows by (metis (no_types, lifting))
  have q: "grows p2 p' \<and> (\<forall>b \<in> set (pkg_shlibs_required ?pk @ pkg_requires ?pk). ?R b p')"
    by (rule fold_option_establishes [where f = ?req and I = ?I and Q = ?R, OF _ req R I 3 I2])
      (use require_rule_in(1) in blast)+
  have "grows p p'" "grows ?p1 p'" using d(1) c q grows_trans by blast+
  moreover have "\<forall>d \<in> set (pkg_depends ?pk). ?D d p'" using d(2) D \<open>grows ?p1 p'\<close> by blast
  moreover have "\<forall>c \<in> set (pkg_conflicts ?pk). ?C c p'" using c C q I2 by blast
  ultimately show ?thesis using q pk [of p'] by (auto simp: package_rules_in_def)
qed

text \<open>The exclusion of the variables of a chain.\<close>

definition exclusive :: "problem \<Rightarrow> nat list \<Rightarrow> bool" where
  "exclusive p vs \<longleftrightarrow> (\<forall>i j. i < j \<longrightarrow> j < length vs \<longrightarrow>
     has_rule p PKG_RULE_UPGRADE_CONFLICT [(vs ! i, -1), (vs ! j, -1)])"

lemma exclusive_grows: "grows p q \<Longrightarrow> exclusive p vs \<Longrightarrow> exclusive q vs"
  using has_rule_grows by (auto simp: exclusive_def)

lemma pair_rules_exclusive:
  "\<forall>i j. i < j \<longrightarrow> j < length vs \<longrightarrow> has_rule (pair_rules r vs p) r [(vs ! i, -1), (vs ! j, -1)]"
proof (induction r vs p rule: pair_rules.induct)
  case (2 r v vs p)
  let ?q = "fold (conflict_rule r v) vs p"
  have "\<forall>w \<in> set vs. has_rule ?q r [(v, -1), (w, -1)]"
    by (rule fold_establishes)
      (auto simp: grows_conflict_rule has_rule_grows, auto simp: has_rule_def conflict_rule_def add_rule_def)
  then have "\<forall>j < length vs. has_rule (pair_rules r vs ?q) r [(v, -1), (vs ! j, -1)]"
    using has_rule_grows [OF grows_pair_rules] by auto
  then show ?case
    using 2 by (auto simp: nth_Cons split: nat.splits)
qed simp

lemma chain_rule_exclusive: "exclusive (pkg_solve_add_chain_rule v p) (var_chain p v)"
  using pair_rules_exclusive by (simp add: exclusive_def pkg_solve_add_chain_rule_def)

lemma grows_chain_rule: "grows p (pkg_solve_add_chain_rule v p)"
  by (simp add: pkg_solve_add_chain_rule_def grows_simps)

lemma var_chain_grows: "grows p q \<Longrightarrow> var_chain q v = var_chain p v"
  by (simp add: grows_def var_chain_def)

lemma process_variables_rules:
  assumes "process_variables env chain vs jreq added p = Some p'" "vars_in p" "\<forall>v \<in> set vs. v < length (sp_vars p)"
    and "\<forall>v \<in> set vs. var_chain p v = chain"
  shows "grows p p' \<and> (\<forall>v \<in> set vs. package_rules_in v p') \<and>
    (vs \<noteq> [] \<longrightarrow> \<not> added \<longrightarrow> length chain > 1 \<longrightarrow> exclusive p' chain)"
  using assms
proof (induction env chain vs jreq added p rule: process_variables.induct)
  case (2 env chain v vs jreq added p)
  from 2(3) obtain b p1 where 1: "request_rules env v jreq p = Some (b, p1)" by (auto split: option.splits)
  let ?p2 = "if b then update_var v (\<lambda>x. x\<lparr>sv_reponame := pkg_reponame (var_pkg p1 v)\<rparr>) p1 else p1"
  from 2(3) 1 obtain p3 where 3: "package_rules v ?p2 = Some p3" by (auto simp: Let_def split: option.splits)
  let ?c = "\<not> added \<and> 1 < length chain"
  let ?p4 = "if ?c then pkg_solve_add_chain_rule v p3 else p3"
  have r: "process_variables env chain vs b (added \<or> ?c) ?p4 = Some p'"
    using 2(3) 1 3 by (auto simp: Let_def split: if_splits)
  have g2: "grows p ?p2" using grows_request_rules [OF 1] grows_trans [OF _ grows_update_var] by auto
  have g3: "grows ?p2 p3" "package_rules_in v p3"
    using package_rules_eq [OF 3] vars_in_grows [OF g2] grows_length [OF g2] 2(4,5) by auto
  have g4: "grows p3 ?p4" by (simp add: grows_chain_rule)
  have g: "grows p ?p4" using g2 g3(1) g4 grows_trans by blast
  have ih: "grows ?p4 p' \<and> (\<forall>v \<in> set vs. package_rules_in v p') \<and>
      (vs \<noteq> [] \<longrightarrow> \<not> (added \<or> ?c) \<longrightarrow> 1 < length chain \<longrightarrow> exclusive p' chain)"
  proof (cases ?c)
    case True
    show ?thesis
      using 2(1) [OF 1 refl refl 3 True] r True vars_in_grows [OF g 2(4)] grows_length [OF g] var_chain_grows [OF g] 2(5,6)
      by simp
  next
    case False
    then have c: "(added \<or> ?c) = added" "?p4 = p3" by auto
    show ?thesis
      using 2(2) [OF 1 refl refl 3 False] r vars_in_grows [OF g 2(4)] grows_length [OF g] var_chain_grows [OF g] 2(5,6)
      unfolding c by simp
  qed
  have "package_rules_in v p'"
    using package_rules_in_grows [OF _ _ _ g3(2)] ih g4 grows_trans vars_in_grows grows_length g 2(4,5) g2 g3(1)
    by (metis (no_types, lifting) list.set_intros(1))
  moreover have "exclusive p' chain" if ?c
  proof -
    have "var_chain p3 v = chain" using var_chain_grows [OF grows_trans [OF g2 g3(1)]] 2(6) by simp
    then have "exclusive ?p4 chain" using chain_rule_exclusive [of v p3] that by simp
    then show ?thesis using exclusive_grows ih by blast
  qed
  ultimately show ?case using ih grows_trans [OF g] by auto
qed simp

section \<open>Variables and items\<close>

text \<open>The chains of a universe partition its items by uid.\<close>

definition chains_wf :: "universe \<Rightarrow> bool" where
  "chains_wf u \<longleftrightarrow> u_nitems u = length (u_items u) \<and> distinct (map fst (u_chains u)) \<and>
     distinct (concat (map snd (u_chains u))) \<and> set (concat (map snd (u_chains u))) = {..<length (u_items u)} \<and>
     (\<forall>(uid, c) \<in> set (u_chains u). c \<noteq> [] \<and> (\<forall>i \<in> set c. pkg_uid (item_pkg u i) = uid))"

lemma universe_ok_chain:
  assumes "universe_ok K u" "(uid, c) \<in> set (u_chains u)"
  shows "c = uid_ids u uid" "c \<noteq> []"
proof -
  have "map_of (u_chains u) uid = Some c" using assms by (intro map_of_is_SomeI) (simp_all add: universe_ok_def)
  then show "c = uid_ids u uid" "c \<noteq> []" using assms(1) by (auto simp: universe_ok_def split: if_splits)
qed

lemma distinct_concat_chains:
  assumes "distinct (map fst cs)" "\<forall>(uid, c) \<in> set cs. distinct c \<and> (\<forall>i \<in> set c. f i = uid)"
  shows "distinct (concat (map snd cs))"
  using assms
proof (induction cs)
  case (Cons x cs)
  obtain uid c where x: "x = (uid, c)" by fastforce
  have "set c \<inter> set d = {}" if "(v, d) \<in> set cs" for v d
  proof -
    have "uid \<noteq> v" using Cons.prems(1) that x by force
    then show ?thesis using Cons.prems(2) that x by fastforce
  qed
  then show ?case using Cons x by auto blast
qed simp

lemma universe_ok_chains_wf:
  assumes "universe_ok K u"
  shows "chains_wf u"
proof -
  have u: "u_nitems u = length (u_items u)" "distinct (map fst (u_chains u))" using assms by (simp_all add: universe_ok_def)
  have c: "distinct c \<and> (\<forall>i \<in> set c. pkg_uid (item_pkg u i) = uid \<and> i < length (u_items u))" if "(uid, c) \<in> set (u_chains u)" for uid c
    using universe_ok_chain [OF assms that] by (simp add: uid_ids_def)
  have "distinct (concat (map snd (u_chains u)))"
    by (rule distinct_concat_chains [where f = "\<lambda>i. pkg_uid (item_pkg u i)"]) (use u c in auto)
  moreover have "i \<in> set (concat (map snd (u_chains u)))" if "i < length (u_items u)" for i
  proof -
    let ?uid = "pkg_uid (item_pkg u i)"
    have i: "i \<in> set (uid_ids u ?uid)" using that by (simp add: uid_ids_def)
    then have "uid_ids u ?uid \<noteq> []" by auto
    then have "map_of (u_chains u) ?uid = Some (uid_ids u ?uid)" using assms by (simp add: universe_ok_def)
    then show ?thesis using i map_of_SomeD by force
  qed
  ultimately show ?thesis
    using u c universe_ok_chain(2) [OF assms] by (fastforce simp: chains_wf_def)
qed

lemma chains_wf_length:
  assumes "chains_wf u"
  shows "length (concat (map snd (u_chains u))) = length (u_items u)"
  using assms distinct_card [of "concat (map snd (u_chains u))"] by (simp add: chains_wf_def)

fun index_chains :: "nat \<Rightarrow> nat list list \<Rightarrow> nat list list" where
  "index_chains n [] = []"
| "index_chains n (c # cs) = [n..<n + length c] # index_chains (n + length c) cs"

lemma length_index_chains [simp]: "length (index_chains n cs) = length cs"
  by (induction n cs rule: index_chains.induct) auto

lemma concat_index_chains: "concat (index_chains n cs) = [n..<n + length (concat cs)]"
proof (induction n cs rule: index_chains.induct)
  case (2 n c cs)
  then show ?case using upt_add_eq_append [of n "n + length c" "length (concat cs)"] by (simp add: add.assoc)
qed simp

lemma map_nth_index_chains: "map (map ((!) (ys @ concat cs))) (index_chains (length ys) cs) = cs"
proof (induction cs arbitrary: ys)
  case (Cons c cs)
  have "map ((!) (ys @ c @ concat cs)) [length ys..<length ys + length c] = c"
    by (rule nth_equalityI) (simp_all add: nth_append)
  then show ?case using Cons.IH [of "ys @ c"] by simp
qed simp

text \<open>The variables of a problem stand for the items of a universe, chain by chain.\<close>

definition linked :: "universe \<Rightarrow> problem \<Rightarrow> bool" where
  "linked u p \<longleftrightarrow> sp_universe p = u \<and>
     sp_by_uid p = zip (map fst (u_chains u)) (index_chains 0 (map snd (u_chains u))) \<and>
     map sv_unit (sp_vars p) = concat (map snd (u_chains u)) \<and>
     map sv_order (sp_vars p) = map Suc [0..<length (sp_vars p)]"

lemma linked_grows: "linked u p \<Longrightarrow> grows p q \<Longrightarrow> linked u q"
  using grows_length [of p q] unfolding linked_def grows_def by (elim conjE) simp

lemma map2_upt_append:
  "map2 f [n..<n + length xs] xs @ map2 f [n + length xs..<n + length xs + length ys] ys =
   map2 f [n..<n + (length xs + length ys)] (xs @ ys)"
proof -
  have "[n..<n + (length xs + length ys)] = [n..<n + length xs] @ [n + length xs..<n + length xs + length ys]"
    using upt_add_eq_append [of n "n + length xs" "length ys"] by (simp add: add.assoc)
  then show ?thesis by simp
qed

lemma add_variables:
  assumes "length (sp_vars p) + length (concat cs) \<le> u_nitems (sp_universe p)"
  shows "fold_option pkg_solve_add_variable cs p =
    Some (p\<lparr>sp_vars := sp_vars p @ map2 (new_variable (sp_universe p)) [length (sp_vars p)..<length (sp_vars p) + length (concat cs)] (concat cs),
            sp_by_uid := sp_by_uid p @ zip (map (\<lambda>c. pkg_uid (item_pkg (sp_universe p) (hd c))) cs) (index_chains (length (sp_vars p)) cs)\<rparr>)"
  using assms
proof (induction cs arbitrary: p)
  case (Cons c cs)
  let ?n = "length (sp_vars p)" and ?u = "sp_universe p"
  let ?q = "p\<lparr>sp_vars := sp_vars p @ map2 (new_variable ?u) [?n..<?n + length c] c,
              sp_by_uid := sp_by_uid p @ [(pkg_uid (item_pkg ?u (hd c)), [?n..<?n + length c])]\<rparr>"
  have s: "pkg_solve_add_variable c p = Some ?q" using Cons.prems by (simp add: pkg_solve_add_variable_def Let_def)
  show ?case
    using Cons.IH [of ?q] Cons.prems s map2_upt_append [of "new_variable ?u" ?n c "concat cs"] by (simp add: add.assoc)
qed simp

lemma initial_problem:
  assumes "chains_wf u"
  obtains p where "fold_option pkg_solve_add_variable (map snd (u_chains u)) (empty_problem u) = Some p" "linked u p"
proof -
  let ?cs = "map snd (u_chains u)"
  have n: "length (concat ?cs) = u_nitems u" using chains_wf_length [OF assms] assms by (simp add: chains_wf_def)
  have k: "map (\<lambda>c. pkg_uid (item_pkg u (hd c))) ?cs = map fst (u_chains u)"
    using assms by (fastforce simp: chains_wf_def)
  have l: "map sv_unit (map2 (new_variable u) [0..<length xs] xs) = xs" "map sv_order (map2 (new_variable u) [0..<length xs] xs) = map Suc [0..<length xs]"
    for xs by (rule nth_equalityI; simp add: new_variable_def)+
  show ?thesis
    using that [of "\<lparr>sp_universe = u, sp_vars = map2 (new_variable u) [0..<length (concat ?cs)] (concat ?cs),
        sp_by_uid = zip (map fst (u_chains u)) (index_chains 0 ?cs), sp_rules = [], sp_sat = []\<rparr>"]
      add_variables [of "empty_problem u" ?cs] n k l [of "concat ?cs"]
    by (simp add: empty_problem_def linked_def del: map_map)
qed

lemma linked_length: "chains_wf u \<Longrightarrow> linked u p \<Longrightarrow> length (sp_vars p) = length (u_items u)"
  using chains_wf_length unfolding linked_def by (metis length_map)

lemma linked_order: "linked u p \<Longrightarrow> v < length (sp_vars p) \<Longrightarrow> sv_order (sp_vars p ! v) = v + 1"
  unfolding linked_def by (metis Suc_eq_plus1 add.left_neutral diff_zero length_map length_upt nth_map nth_upt)

lemma linked_units:
  assumes wf: "chains_wf u" and li: "linked u p"
  shows "map (map (\<lambda>v. sv_unit (sp_vars p ! v))) (map snd (sp_by_uid p)) = map snd (u_chains u)"
proof -
  have "map snd (sp_by_uid p) = index_chains 0 (map snd (u_chains u))" using li by (simp add: linked_def)
  moreover have "map (\<lambda>v. sv_unit (sp_vars p ! v)) vs = map ((!) (concat (map snd (u_chains u)))) vs"
    if vs: "vs \<in> set (index_chains 0 (map snd (u_chains u)))" for vs
  proof (rule map_cong [OF refl])
    fix v assume "v \<in> set vs"
    then have "v \<in> set (concat (index_chains 0 (map snd (u_chains u))))" using vs by auto
    then have "v < length (sp_vars p)"
      using linked_length [OF wf li] chains_wf_length [OF wf] by (simp add: concat_index_chains)
    then show "sv_unit (sp_vars p ! v) = concat (map snd (u_chains u)) ! v"
      using li unfolding linked_def by (metis nth_map)
  qed
  ultimately show ?thesis
    using map_nth_index_chains [of "[]" "map snd (u_chains u)"] by (simp cong: map_cong)
qed

lemma find_in_partition:
  assumes "distinct (concat (map snd xs))" "(uid, c) \<in> set xs" "v \<in> set c"
  shows "find (\<lambda>(_, c). v \<in> set c) xs = Some (uid, c)"
  using assms
proof (induction xs)
  case (Cons x xs)
  obtain k d where x: "x = (k, d)" by fastforce
  show ?case
  proof (cases "x = (uid, c)")
    case False
    then have "(uid, c) \<in> set xs" using Cons.prems by auto
    then have "v \<notin> set d" using Cons.prems x by fastforce
    then show ?thesis using Cons x \<open>(uid, c) \<in> set xs\<close> by simp
  qed (use Cons.prems in simp)
qed simp

lemma linked_concat:
  assumes "chains_wf u" "linked u p"
  shows "concat (map snd (sp_by_uid p)) = [0..<length (sp_vars p)]"
  using linked_length [OF assms] chains_wf_length [OF assms(1)] assms(2)
  by (simp add: linked_def concat_index_chains)

lemma linked_var_chain:
  assumes "chains_wf u" "linked u p" "(uid, vs) \<in> set (sp_by_uid p)" "v \<in> set vs"
  shows "var_chain p v = vs"
  using find_in_partition [OF _ assms(3,4)] linked_concat [OF assms(1,2)] by (simp add: var_chain_def)

lemma chains_wf_chain_of:
  assumes "chains_wf u" "(uid, c) \<in> set (u_chains u)" "i \<in> set c"
  shows "chain_of u i = c"
  using find_in_partition [OF _ assms(2,3)] assms(1) by (simp add: chain_of_def chains_wf_def)

lemma linked_vars_in:
  assumes "chains_wf u" "linked u p"
  shows "vars_in p"
proof -
  have "v < length (sp_vars p)" if "(uid, vs) \<in> set (sp_by_uid p)" "v \<in> set vs" for uid vs v
  proof -
    have "v \<in> set (concat (map snd (sp_by_uid p)))" using that by force
    then show ?thesis using linked_concat [OF assms] by simp
  qed
  then show ?thesis by (auto simp: vars_in_def)
qed

lemma linked_chains:
  assumes "chains_wf u" "linked u p"
  shows "map (\<lambda>(uid, vs). (uid, map (\<lambda>v. sv_unit (sp_vars p ! v)) vs)) (sp_by_uid p) = u_chains u"
proof -
  have "map fst (sp_by_uid p) = map fst (u_chains u)" using assms(2) by (simp add: linked_def)
  then show ?thesis
    using linked_units [OF assms] by (intro pair_list_eqI) (simp_all add: case_prod_beta comp_def)
qed

lemma linked_find:
  assumes "chains_wf u" "linked u p"
  shows "map_of (u_chains u) uid = map_option (map (\<lambda>v. sv_unit (sp_vars p ! v))) (map_of (sp_by_uid p) uid)"
  by (subst linked_chains [OF assms, symmetric]) (simp add: map_of_map)

lemma linked_unit_inj:
  assumes "chains_wf u" "linked u p" "v < length (sp_vars p)" "w < length (sp_vars p)"
    and "sv_unit (sp_vars p ! v) = sv_unit (sp_vars p ! w)"
  shows "v = w"
proof -
  have "distinct (map sv_unit (sp_vars p))" using assms(1,2) by (simp add: linked_def chains_wf_def)
  then show ?thesis using assms(3-5) by (metis length_map nth_eq_iff_index_eq nth_map)
qed

lemma process_chains_rules:
  assumes "process_chains env cs p = Some (Some p')" "chains_wf u" "linked u p"
  shows "grows p p' \<and> (\<forall>c \<in> set cs. \<exists>vs. map_of (sp_by_uid p) (pkg_uid (item_pkg u (hd c))) = Some vs \<and>
    (\<forall>v \<in> set vs. package_rules_in v p') \<and> exclusive p' vs)"
  using assms
proof (induction env cs p rule: process_chains.induct)
  case (2 env c cs p)
  have u: "sp_universe p = u" using 2 by (simp add: linked_def)
  from 2(2) u obtain vs p1 where vs: "map_of (sp_by_uid p) (pkg_uid (item_pkg u (hd c))) = Some vs"
    and 1: "pkg_solve_process_universe_variable env vs p = Some p1" "process_chains env cs p1 = Some (Some p')"
    by (auto split: option.splits)
  have m: "(pkg_uid (item_pkg u (hd c)), vs) \<in> set (sp_by_uid p)" using vs by (rule map_of_SomeD)
  have vi: "vars_in p" using 2 linked_vars_in by blast
  have r: "grows p p1 \<and> (\<forall>v \<in> set vs. package_rules_in v p1) \<and> (vs \<noteq> [] \<longrightarrow> \<not> False \<longrightarrow> length vs > 1 \<longrightarrow> exclusive p1 vs)"
    by (rule process_variables_rules [OF 1(1) [unfolded pkg_solve_process_universe_variable_def] vi])
      (use vi m 2(3,4) linked_var_chain in \<open>auto simp: vars_in_def\<close>)
  then have "exclusive p1 vs" by (cases "length vs > 1") (auto simp: exclusive_def)
  have ih: "grows p1 p' \<and> (\<forall>c \<in> set cs. \<exists>vs. map_of (sp_by_uid p1) (pkg_uid (item_pkg u (hd c))) = Some vs \<and>
      (\<forall>v \<in> set vs. package_rules_in v p') \<and> exclusive p' vs)"
    using 2(1) [OF _ 1(1,2)] vs u linked_grows r 2(3,4) by simp
  have "\<forall>v \<in> set vs. package_rules_in v p'"
    using package_rules_in_grows [OF conjunct1 [OF ih]] r vi vars_in_grows grows_length m by (auto simp: vars_in_def)
  moreover have "exclusive p' vs" using exclusive_grows [OF conjunct1 [OF ih] \<open>exclusive p1 vs\<close>] .
  moreover have "sp_by_uid p1 = sp_by_uid p" using r by (simp add: grows_def)
  ultimately show ?case using vs ih r grows_trans by auto
qed simp

text \<open>The problem of a job has all the rules.\<close>

definition complete :: "universe \<Rightarrow> problem \<Rightarrow> bool" where
  "complete u p \<longleftrightarrow> linked u p \<and> (\<forall>v < length (sp_vars p). package_rules_in v p) \<and>
     (\<forall>(uid, vs) \<in> set (sp_by_uid p). exclusive p vs)"

lemma jobs_to_sat_complete:
  assumes wf: "chains_wf u" and r: "pkg_solve_jobs_to_sat env u = Some (Some p)"
  shows "complete u p"
proof -
  obtain p0 where p0: "fold_option pkg_solve_add_variable (map snd (u_chains u)) (empty_problem u) = Some p0" "linked u p0"
    using initial_problem [OF wf] .
  from r p0 have "process_chains env (map snd (u_chains u)) p0 = Some (Some p)" by (simp add: pkg_solve_jobs_to_sat_def)
  from process_chains_rules [OF this wf p0(2)] have g: "grows p0 p"
    and c: "\<forall>c \<in> set (map snd (u_chains u)). \<exists>vs. map_of (sp_by_uid p0) (pkg_uid (item_pkg u (hd c))) = Some vs \<and>
      (\<forall>v \<in> set vs. package_rules_in v p) \<and> exclusive p vs" by blast+
  have li: "linked u p" using linked_grows [OF p0(2) g] .
  have b: "sp_by_uid p = sp_by_uid p0" using g by (simp add: grows_def)
  have all: "(\<forall>v \<in> set vs. package_rules_in v p) \<and> exclusive p vs" if m: "(uid, vs) \<in> set (sp_by_uid p)" for uid vs
  proof -
    let ?c = "map (\<lambda>v. sv_unit (sp_vars p ! v)) vs"
    have mc: "(uid, ?c) \<in> set (u_chains u)"
      using m unfolding linked_chains [OF wf li, symmetric] by force
    then have "?c \<noteq> []" "\<forall>i \<in> set ?c. pkg_uid (item_pkg u i) = uid"
      using wf unfolding chains_wf_def by blast+
    then have ch: "?c \<in> set (map snd (u_chains u))" "pkg_uid (item_pkg u (hd ?c)) = uid"
      using mc by (force, metis hd_in_set)
    have "map_of (sp_by_uid p) uid = Some vs"
      using m li wf by (intro map_of_is_SomeI) (simp_all add: linked_def chains_wf_def)
    then show ?thesis using c ch b by (metis option.inject)
  qed
  have "package_rules_in v p" if "v < length (sp_vars p)" for v
  proof -
    have "v \<in> set (concat (map snd (sp_by_uid p)))" using linked_concat [OF wf li] that by simp
    then show ?thesis using all by auto
  qed
  then show ?thesis using li all by (auto simp: complete_def)
qed

end
