(* ===== verification/Solver_Plan.thy ===== *)
theory Solver_Plan
  imports Solver_Rules
begin

text \<open>
  What a solution is worth: an assignment that the loop returns satisfies the rules, so the
  chosen packages form a consistent plan, and the jobs lead from the installed packages to
  exactly the chosen ones.
\<close>

section \<open>Well-formed rules\<close>

definition item_wf :: "problem \<Rightarrow> solve_item \<Rightarrow> bool" where
  "item_wf p it \<longleftrightarrow> fst it < length (sp_vars p) \<and> (snd it = 1 \<or> snd it = -1)"

definition rules_wf :: "problem \<Rightarrow> bool" where
  "rules_wf p \<longleftrightarrow> (\<forall>r \<in> set (sp_rules p). \<forall>it \<in> set (sr_items r). item_wf p it)"

lemma rules_wf_update_var [simp]: "rules_wf (update_var v f p) = rules_wf p"
  by (simp add: rules_wf_def item_wf_def update_var_def)

lemma rules_wf_call [simp]: "rules_wf (call c p) = rules_wf p"
  by (simp add: rules_wf_def item_wf_def call_def)

lemma rules_wf_add_rule [simp]: "rules_wf (add_rule r its p) \<longleftrightarrow> rules_wf p \<and> (\<forall>it \<in> set its. item_wf p it)"
  by (auto simp: rules_wf_def item_wf_def add_rule_def)

lemma item_wf_literal [simp]: "item_wf p (v, -1) \<longleftrightarrow> v < length (sp_vars p)" "item_wf p (v, 1) \<longleftrightarrow> v < length (sp_vars p)"
  by (simp_all add: item_wf_def)

lemma item_wf_update_var [simp]: "item_wf (update_var v f p) = item_wf p"
  by (simp add: item_wf_def update_var_def fun_eq_iff)

lemma item_wf_add_rule [simp]: "item_wf (add_rule r its p) = item_wf p"
  by (simp add: item_wf_def add_rule_def fun_eq_iff)

lemma item_wf_call [simp]: "item_wf (call c p) = item_wf p"
  by (simp add: item_wf_def call_def fun_eq_iff)

lemma item_wf_grows: "grows p q \<Longrightarrow> item_wf q = item_wf p"
  using grows_length [of p q] by (simp add: item_wf_def fun_eq_iff)

lemma rules_wf_conflict_rule [simp]:
  "rules_wf (conflict_rule r v w p) \<longleftrightarrow> rules_wf p \<and> v < length (sp_vars p) \<and> w < length (sp_vars p)"
  by (auto simp: conflict_rule_def item_wf_def)

lemma length_add_rule [simp]: "length (sp_vars (add_rule r its p)) = length (sp_vars p)"
  by (simp add: add_rule_def)

lemma length_conflict_rule [simp]: "length (sp_vars (conflict_rule r v w p)) = length (sp_vars p)"
  by (simp add: conflict_rule_def)

lemma rules_wf_assume_repo [simp]: "rules_wf (assume_repo r v p) = rules_wf p"
  by (simp add: assume_repo_def)

lemma rules_wf_mark_top [simp]: "rules_wf (mark_top sg v p) = rules_wf p"
  by (simp add: mark_top_def)

lemma rules_wf_fold: "(\<And>x p. rules_wf (f x p) = rules_wf p) \<Longrightarrow> rules_wf (fold f xs p) = rules_wf p"
  by (induction xs arbitrary: p) auto

lemma item_wf_positive [simp]: "(\<forall>it \<in> set (positive vs). item_wf p it) \<longleftrightarrow> (\<forall>v \<in> set vs. v < length (sp_vars p))"
  by (auto simp: positive_def item_wf_def)

lemma rules_wf_depend_items: "rules_wf (snd (depend_items uids r p)) = rules_wf p"
  by (induction uids arbitrary: p) (auto split: option.split simp: rules_wf_fold case_prod_beta)

lemma rules_wf_depend_rule:
  assumes "rules_wf p" "vars_in p" "v < length (sp_vars p)"
  shows "rules_wf (pkg_solve_add_depend_rule v d r p)"
proof -
  let ?q = "snd (depend_items (dep_uids d) r p)"
  have e: "depend_items (dep_uids d) r p = (positive (dep_vars p d), ?q)" "grows p ?q"
    using depend_items_eq by (simp_all add: dep_vars_def)
  have "\<forall>w \<in> set (dep_vars p d). w < length (sp_vars p)"
    using uid_vars_less [OF assms(2)] by (auto simp: dep_vars_def)
  then have "rules_wf (add_rule PKG_RULE_DEPEND ((v, -1) # positive (dep_vars p d)) ?q)"
    using assms rules_wf_depend_items [of "dep_uids d" r p] item_wf_grows [OF e(2)] by simp
  then show ?thesis
    using assms by (subst pkg_solve_add_depend_rule_def, subst e(1)) simp
qed

lemma rules_wf_conflict_rules:
  assumes "conflict_rules pk v c ws p = Some p'" "rules_wf p" "v < length (sp_vars p)" "\<forall>w \<in> set ws. w < length (sp_vars p)"
  shows "rules_wf p'"
  using assms
  by (induction pk v c ws p rule: conflict_rules.induct) (auto split: option.splits if_splits)

lemma rules_wf_add_conflict_rule:
  assumes "pkg_solve_add_conflict_rule pk v c p = Some p'" "rules_wf p" "vars_in p" "v < length (sp_vars p)"
  shows "rules_wf p'"
proof (cases "map_of (sp_by_uid p) (conflict_uid c)")
  case (Some vs)
  then have "\<forall>w \<in> set vs. w < length (sp_vars p)" using assms(3) by (auto simp: vars_in_def dest: map_of_SomeD)
  then show ?thesis using rules_wf_conflict_rules assms Some by (auto simp: pkg_solve_add_conflict_rule_def)
qed (use assms in \<open>simp add: pkg_solve_add_conflict_rule_def\<close>)

lemma rules_wf_provide_items: "rules_wf (snd (provide_items s name orig r vs p)) = rules_wf p"
  by (induction s name orig r vs p rule: provide_items.induct) (simp_all add: case_prod_beta)

lemma rules_wf_provides_items: "provides_items prs name orig r p = Some (its, p') \<Longrightarrow> rules_wf p' = rules_wf p"
proof (induction prs arbitrary: p its)
  case (Cons pr prs)
  from Cons.prems obtain i1 p1 i2 where 1: "pkg_solve_handle_provide pr name orig r p = Some (i1, p1)"
    and 2: "provides_items prs name orig r p1 = Some (i2, p')" by (auto split: option.splits)
  have "rules_wf p1 = rules_wf p"
    using 1 rules_wf_provide_items by (auto simp: pkg_solve_handle_provide_def split: option.splits) (metis snd_conv)+
  then show ?case using Cons.IH [OF 2] by simp
qed simp

lemma require_vars_less: "vars_in p \<Longrightarrow> v \<in> set (require_vars p b orig) \<Longrightarrow> v < length (sp_vars p)"
  using uid_vars_less by (auto simp: require_vars_def provider_vars_def split: option.splits)

lemma rules_wf_add_require_rule:
  assumes "pkg_solve_add_require_rule v b r p = Some p'" "rules_wf p" "vars_in p" "v < length (sp_vars p)"
  shows "rules_wf p'"
proof (cases "map_of (u_provides (sp_universe p)) b")
  case (Some prs)
  from assms Some obtain its q where q: "provides_items prs b (var_pkg p v) r p = Some (its, q)"
    "p' = (if its = [] then q else add_rule PKG_RULE_REQUIRE ((v, -1) # its) q)"
    by (auto simp: pkg_solve_add_require_rule_def split: option.splits)
  with provides_items_eq [OF q(1) assms(3)] have "its = positive (require_vars p b (var_pkg p v))" "grows p q"
    using Some by (simp_all add: require_vars_def)
  then show ?thesis
    using q(2) rules_wf_provides_items [OF q(1)] require_vars_less [OF assms(3)] item_wf_grows assms
    by simp
qed (use assms in \<open>simp add: pkg_solve_add_require_rule_def\<close>)

lemma rules_wf_pair_rules:
  "rules_wf p \<Longrightarrow> \<forall>v \<in> set vs. v < length (sp_vars p) \<Longrightarrow> rules_wf (pair_rules r vs p)"
proof (induction r vs p rule: pair_rules.induct)
  case (2 r v vs p)
  have "rules_wf q \<Longrightarrow> length (sp_vars q) = length (sp_vars p) \<Longrightarrow> \<forall>w \<in> set ws. w < length (sp_vars p) \<Longrightarrow>
      rules_wf (fold (conflict_rule r v) ws q)" for ws q
    using 2(3) by (induction ws arbitrary: q) auto
  then have "rules_wf (fold (conflict_rule r v) vs p)" using 2 by simp
  moreover have "length (sp_vars (fold (conflict_rule r v) vs p)) = length (sp_vars p)"
    by (rule grows_length) (rule grows_fold, rule grows_conflict_rule)
  ultimately show ?case using 2 by simp
qed simp

lemma find_all_set: "find_all f xs = Some ys \<Longrightarrow> y \<in> set ys \<Longrightarrow> \<exists>x \<in> set xs. f x = Some y"
  by (induction xs arbitrary: ys) (auto split: option.splits)

lemma rules_wf_request:
  assumes r: "pkg_solve_add_request_rule req sg p = Some p'" and "rules_wf p" "vars_in p" and sg: "sg = 1 \<or> sg = -1"
  shows "rules_wf p'"
proof -
  from r obtain vs v cvs where vs: "map_of (sp_by_uid p) (pkg_uid (item_pkg (sp_universe p) (hd (rq_items req)))) = Some vs"
    and c: "find_all (pkg_solve_find_var_in_chain p (dropWhile (\<lambda>w. w \<noteq> v) vs)) (rq_items req) = Some cvs"
    and p': "\<exists>l b. p' = mark_top sg v (if b then pair_rules PKG_RULE_REQUEST_CONFLICT cvs
      (add_rule PKG_RULE_REQUEST (map (\<lambda>w. (w, sg)) cvs) (fold (mark_top sg) cvs (call (Assume l) p))) else fold (mark_top sg) cvs (call (Assume l) p))"
    by (auto simp: pkg_solve_add_request_rule_def Let_def split: option.splits if_splits; fastforce)
  have "w < length (sp_vars p)" if "w \<in> set cvs" for w
  proof -
    from find_all_set [OF c that] have "w \<in> set vs"
      by (auto simp: pkg_solve_find_var_in_chain_def dest!: find_SomeD set_dropWhileD)
    then show ?thesis using assms(3) map_of_SomeD [OF vs] by (auto simp: vars_in_def)
  qed
  moreover have "length (sp_vars (fold (mark_top sg) cvs (call (Assume l) p))) = length (sp_vars p)" for l
    by (rule grows_length, rule grows_trans [OF grows_assume grows_fold]) (rule grows_mark_top)
  moreover have "rules_wf (fold (mark_top sg) cvs (call (Assume l) p))" for l
    using assms(2) rules_wf_fold [of "mark_top sg"] by simp
  ultimately show ?thesis
    using p' sg by (auto intro!: rules_wf_pair_rules)
qed

text \<open>The invariant of the construction: rules and table refer to the \<open>n\<close> variables.\<close>

definition built :: "nat \<Rightarrow> problem \<Rightarrow> bool" where
  "built n p \<longleftrightarrow> rules_wf p \<and> vars_in p \<and> length (sp_vars p) = n \<and> adds (sp_sat p) = []"

lemma built_grows: "built n p \<Longrightarrow> grows p q \<Longrightarrow> rules_wf q \<Longrightarrow> built n q"
  using vars_in_grows grows_length unfolding built_def by (metis grows_def)

lemma fold_inv: "(\<And>x s. I s \<Longrightarrow> I (f x s)) \<Longrightarrow> I s \<Longrightarrow> I (fold f xs s)"
  by (induction xs arbitrary: s) auto

lemma fold_option_inv: "(\<And>x s s'. f x s = Some s' \<Longrightarrow> I s \<Longrightarrow> I s') \<Longrightarrow> fold_option f xs s = Some s' \<Longrightarrow> I s \<Longrightarrow> I s'"
  by (induction xs arbitrary: s) (auto split: option.splits)

lemma built_request_rules:
  assumes "request_rules env v jreq p = Some (b, p')" "built n p"
  shows "built n p'"
proof -
  have "built n q'" if "optional_request r sg q = Some q'" "built n q" "sg = 1 \<or> sg = -1" for r sg q q'
    using that grows_request rules_wf_request built_grows
    by (cases r) (auto simp: optional_request_def, (metis built_def)+)
  then show ?thesis
    using assms by (auto simp: request_rules_def Let_def split: if_splits option.splits)
qed

lemma built_package_rules:
  assumes "package_rules v p = Some p'" "built n p" "v < n"
  shows "built n p'"
proof -
  let ?pk = "var_pkg p v"
  let ?p1 = "fold (\<lambda>d p. pkg_solve_add_depend_rule v d (sv_reponame (sp_vars p ! v)) p) (pkg_depends ?pk) p"
  have 1: "built n ?p1"
    by (rule fold_inv [where I = "built n", OF _ assms(2)]) (use depend_rule(1) rules_wf_depend_rule assms(3) built_grows in \<open>metis built_def\<close>)
  from assms(1) obtain p2 where 2: "fold_option (pkg_solve_add_conflict_rule ?pk v) (pkg_conflicts ?pk) ?p1 = Some p2"
    and 3: "fold_option (\<lambda>b p. pkg_solve_add_require_rule v b (sv_reponame (sp_vars p ! v)) p) (pkg_shlibs_required ?pk @ pkg_requires ?pk) p2 = Some p'"
    by (auto simp: package_rules_def Let_def split: option.splits)
  have b2: "built n p2"
    by (rule fold_option_inv [where I = "built n", OF _ 2 1]) (use conflict_rule_in(1) rules_wf_add_conflict_rule assms(3) built_grows in \<open>metis built_def\<close>)
  show ?thesis
    by (rule fold_option_inv [where I = "built n", OF _ 3 b2]) (use require_rule_in(1) rules_wf_add_require_rule assms(3) built_grows in \<open>metis built_def\<close>)
qed

lemma built_process_variables:
  assumes "process_variables env chain vs jreq added p = Some p'" "built n p" "\<forall>v \<in> set vs \<union> set chain. v < n"
    and "\<forall>v \<in> set vs. var_chain p v = chain"
  shows "built n p'"
  using assms
proof (induction env chain vs jreq added p rule: process_variables.induct)
  case (2 env chain v vs jreq added p)
  from 2(3) obtain b p1 where 1: "request_rules env v jreq p = Some (b, p1)" by (auto split: option.splits)
  let ?p2 = "if b then update_var v (\<lambda>x. x\<lparr>sv_reponame := pkg_reponame (var_pkg p1 v)\<rparr>) p1 else p1"
  from 2(3) 1 obtain p3 where 3: "package_rules v ?p2 = Some p3" by (auto simp: Let_def split: option.splits)
  let ?c = "\<not> added \<and> 1 < length chain"
  let ?p4 = "if ?c then pkg_solve_add_chain_rule v p3 else p3"
  have g12: "grows p ?p2" using grows_request_rules [OF 1] grows_trans [OF _ grows_update_var] by auto
  have b1: "built n p1" using built_request_rules [OF 1 2(4)] .
  then have b2: "built n ?p2" using built_grows [OF b1 grows_update_var] by (auto simp: built_def)
  have b3: "built n p3" using built_package_rules [OF 3 b2] 2(5) by simp
  have g3: "grows ?p2 p3" using package_rules_eq [OF 3] b2 2(5) by (simp add: built_def)
  have ch: "var_chain p3 v = chain" using var_chain_grows [OF grows_trans [OF g12 g3]] 2(6) by simp
  have b4: "built n ?p4"
  proof (cases ?c)
    case True
    have "rules_wf (pkg_solve_add_chain_rule v p3)"
      unfolding pkg_solve_add_chain_rule_def ch using b3 2(5) by (intro rules_wf_pair_rules) (auto simp: built_def)
    then show ?thesis using built_grows [OF b3 grows_chain_rule] True by simp
  qed (use b3 in auto)
  have g4: "var_chain ?p4 = var_chain p"
    using var_chain_grows [OF grows_trans [OF g12 g3]] var_chain_grows [OF grows_chain_rule] by (auto simp: fun_eq_iff)
  show ?case
  proof (cases ?c)
    case True
    then show ?thesis using 2(1) [OF 1 refl refl 3 True] 2(3,5,6) 1 3 b4 g4 by (simp add: Let_def)
  next
    case False
    then have "?p4 = p3" "(added \<or> ?c) = added" by auto
    then show ?thesis using 2(2) [OF 1 refl refl 3 False] 2(3,5,6) 1 3 b4 g4 False by (auto simp: Let_def)
  qed
qed simp

lemma built_process_chains:
  assumes "process_chains env cs p = Some (Some p')" "chains_wf u" "linked u p" "built n p"
  shows "built n p'"
  using assms
proof (induction env cs p rule: process_chains.induct)
  case (2 env c cs p)
  from 2(2) obtain vs p1 where vs: "map_of (sp_by_uid p) (pkg_uid (item_pkg (sp_universe p) (hd c))) = Some vs"
    and 1: "pkg_solve_process_universe_variable env vs p = Some p1" "process_chains env cs p1 = Some (Some p')"
    by (auto split: option.splits)
  have m: "(pkg_uid (item_pkg (sp_universe p) (hd c)), vs) \<in> set (sp_by_uid p)" using vs by (rule map_of_SomeD)
  have v: "\<forall>v \<in> set vs. v < n \<and> var_chain p v = vs"
    using m 2(5) linked_var_chain [OF 2(3,4) m] by (auto simp: built_def vars_in_def)
  then have "built n p1"
    using built_process_variables [OF 1(1) [unfolded pkg_solve_process_universe_variable_def] 2(5)] by simp
  moreover have "grows p p1"
    using process_variables_rules [OF 1(1) [unfolded pkg_solve_process_universe_variable_def]] v 2(5) by (simp add: built_def)
  ultimately show ?case using 2(1) [OF vs 1(1)] 1(2) 2(3) linked_grows [OF 2(4)] by simp
qed simp

lemma jobs_to_sat_built:
  assumes wf: "chains_wf u" and r: "pkg_solve_jobs_to_sat env u = Some (Some p)"
  shows "built (length (u_items u)) p"
proof -
  obtain p0 where p0: "fold_option pkg_solve_add_variable (map snd (u_chains u)) (empty_problem u) = Some p0" "linked u p0"
    using initial_problem [OF wf] .
  have "sp_rules p0 = [] \<and> sp_sat p0 = []"
    by (rule fold_option_inv [where I = "\<lambda>p. sp_rules p = [] \<and> sp_sat p = []", OF _ p0(1)])
      (auto simp: pkg_solve_add_variable_def empty_problem_def Let_def split: if_splits)
  then have "built (length (u_items u)) p0"
    using linked_vars_in [OF wf p0(2)] linked_length [OF wf p0(2)] by (simp add: built_def rules_wf_def)
  then show ?thesis using built_process_chains [OF _ wf p0(2)] r p0(1) by (simp add: pkg_solve_jobs_to_sat_def)
qed

section \<open>The contract of PicoSAT\<close>

text \<open>The added literals up to each zero are the clauses.\<close>

fun clauses_from :: "int list \<Rightarrow> int list \<Rightarrow> int list list" where
  "clauses_from c [] = []"
| "clauses_from c (l # ls) = (if l = 0 then rev c # clauses_from [] ls else clauses_from (l # c) ls)"

definition clauses :: "picosat_call list \<Rightarrow> int list list" where
  "clauses h = clauses_from [] (adds h)"

text \<open>The assumptions since the last call of \<^verbatim>\<open>picosat_sat\<close> but the one that ends the history.\<close>

fun assumed :: "picosat_call list \<Rightarrow> int list" where
  "assumed [] = []"
| "assumed (Assume l # h) = l # assumed h"
| "assumed (c # h) = assumed h"

definition assumptions :: "picosat_call list \<Rightarrow> int list" where
  "assumptions h = assumed (takeWhile (\<lambda>c. c \<noteq> Sat) (tl (rev h)))"

text \<open>
  After \<^verbatim>\<open>PICOSAT_SATISFIABLE\<close> the values make every clause and every assumption true, and the value
  of a negated literal is the negated value; otherwise the failed assumptions are among the
  assumptions.
\<close>

definition picosat_ok :: "picosat \<Rightarrow> bool" where
  "picosat_ok ps \<longleftrightarrow> (\<forall>h.
     (ps_sat ps h \<longrightarrow> (\<forall>c \<in> set (clauses h). \<exists>l \<in> set c. ps_deref ps h l > 0) \<and>
        (\<forall>l \<in> set (assumptions h). ps_deref ps h l > 0) \<and> (\<forall>l. ps_deref ps h (- l) = - ps_deref ps h l)) \<and>
     (\<not> ps_sat ps h \<longrightarrow> set (ps_failed_assumptions ps h) \<subseteq> set (assumptions h)))"

lemma clauses_from_block: "0 \<notin> set c \<Longrightarrow> clauses_from d (c @ 0 # ls) = (rev d @ c) # clauses_from [] ls"
  by (induction c arbitrary: d) auto

lemma clauses_from_concat:
  "\<forall>c \<in> set cs. 0 \<notin> set c \<Longrightarrow> clauses_from [] (concat (map (\<lambda>c. c @ [0]) cs)) = cs"
  by (induction cs) (simp_all add: clauses_from_block)

section \<open>What the loop changes\<close>

text \<open>Flags, phases and the reasons recorded in packages.\<close>

definition same_pkg :: "pkg \<Rightarrow> pkg \<Rightarrow> bool" where
  "same_pkg p q \<longleftrightarrow> p\<lparr>pkg_reason := None\<rparr> = q\<lparr>pkg_reason := None\<rparr>"

definition same_problem :: "problem \<Rightarrow> problem \<Rightarrow> bool" where
  "same_problem p q \<longleftrightarrow> sp_rules q = sp_rules p \<and> sp_by_uid q = sp_by_uid p \<and>
     map sv_unit (sp_vars q) = map sv_unit (sp_vars p) \<and> map sv_order (sp_vars q) = map sv_order (sp_vars p) \<and>
     adds (sp_sat q) = adds (sp_sat p) \<and> length (u_items (sp_universe q)) = length (u_items (sp_universe p)) \<and>
     (\<forall>i < length (u_items (sp_universe p)). same_pkg (item_pkg (sp_universe p) i) (item_pkg (sp_universe q) i))"

lemma same_problem_refl [simp]: "same_problem p p"
  by (simp add: same_problem_def same_pkg_def)

lemma same_problem_trans [trans]: "same_problem p q \<Longrightarrow> same_problem q r \<Longrightarrow> same_problem p r"
  by (simp add: same_problem_def same_pkg_def)

lemma same_problem_length: "same_problem p q \<Longrightarrow> length (sp_vars q) = length (sp_vars p)"
  unfolding same_problem_def by (metis length_map)

named_theorems same_problem_intros

lemma same_problem_update_var [same_problem_intros]:
  "(\<And>x. sv_unit (f x) = sv_unit x) \<Longrightarrow> (\<And>x. sv_order (f x) = sv_order x) \<Longrightarrow> same_problem p (update_var v f p)"
  by (simp add: same_problem_def update_var_def map_update_same same_pkg_def)

lemma same_problem_call [same_problem_intros]: "adds [c] = [] \<Longrightarrow> same_problem p (call c p)"
  by (simp add: same_problem_def call_def same_pkg_def)

lemma same_problem_fold: "(\<And>x p. same_problem p (f x p)) \<Longrightarrow> same_problem p (fold f xs p)"
  by (induction xs arbitrary: p) (auto intro: same_problem_trans)

lemma same_problem_set_item_pkg:
  "same_pkg (item_pkg (sp_universe p) i) pk \<Longrightarrow> same_problem p (set_item_pkg i pk p)"
  by (cases "i < length (u_items (sp_universe p))")
    (auto simp: same_problem_def set_item_pkg_def item_pkg_def nth_list_update same_pkg_def)

lemma same_pkg_need_upgrade: "same_pkg rp (snd (pkg_jobs_need_upgrade rp lp))"
  by (simp add: pkg_jobs_need_upgrade_def same_pkg_def Let_def split: option.split)

lemma same_problem_keep_local: "keep_local s l p = Some (i, q) \<Longrightarrow> same_problem p q"
proof -
  let ?n = "pkg_jobs_need_upgrade (item_pkg (sp_universe p) s) (Some (item_pkg (sp_universe p) l))"
  have "same_problem p (set_item_pkg s (snd ?n) p)"
    by (rule same_problem_set_item_pkg) (rule same_pkg_need_upgrade)
  then show "keep_local s l p = Some (i, q) \<Longrightarrow> same_problem p q"
    by (auto simp: keep_local_def Let_def split: option.splits if_splits prod.splits)
qed

lemma same_problem_assume_var: "same_problem p (assume_var s v p)"
  unfolding assume_var_def Let_def
  by (auto intro!: same_problem_trans [OF same_problem_call same_problem_update_var])

lemma same_problem_initial:
  assumes "pkg_solve_set_initial_assumption env r p = Some q"
  shows "same_problem p q"
proof -
  have a: "same_problem p (fold (assume_var s) vs p)" for s vs p
    by (rule same_problem_fold) (rule same_problem_assume_var)
  have "same_problem p q" if "assume_chain env reponame w p = Some q" for reponame w
    using that a same_problem_trans [OF same_problem_keep_local a]
    by (auto simp: assume_chain_def Let_def split: if_splits option.splits)
  then show ?thesis
    using assms by (auto simp: pkg_solve_set_initial_assumption_def Let_def split: rule_type.splits list.splits if_splits)
qed

lemma same_problem_initials:
  "fold_option (pkg_solve_set_initial_assumption env) rs p = Some q \<Longrightarrow> same_problem p q"
  by (induction rs arbitrary: p) (auto split: option.splits dest!: same_problem_initial intro: same_problem_trans)

lemma same_problem_guess: "same_problem p (guess_var i p)"
proof -
  have c: "same_problem q (call (Default_phase a b) q)" "same_problem q (call (More_important a) q)"
    "same_problem q (call (Less_important a) q)" for a b q
    by (rule same_problem_call, simp)+
  then have "same_problem p (call (More_important a) (call (Default_phase b d) p))"
    "same_problem p (call (Less_important a) (call (Default_phase b d) p))" for a b d
    using same_problem_trans by blast+
  moreover have "same_problem q (update_var i (\<lambda>x. x\<lparr>sv_failed := False\<rparr>) q)" for q
    by (rule same_problem_update_var) simp_all
  ultimately show ?thesis
    using same_problem_trans by (auto simp: guess_var_def Let_def) blast+
qed

lemma same_problem_iter: "same_problem p (pkg_solve_picosat_iter p)"
proof -
  have "same_problem p (call Reset_scores (call Reset_phases p))"
    using same_problem_trans [OF same_problem_call same_problem_call] by simp
  moreover have "same_problem q (fold guess_var xs q)" for q xs by (rule same_problem_fold) (rule same_problem_guess)
  moreover have "same_problem q (call Sat q)" for q by (rule same_problem_call) simp
  ultimately show ?thesis unfolding pkg_solve_picosat_iter_def using same_problem_trans by blast
qed

lemma same_problem_assign: "same_problem p (assign_vars val p)"
  unfolding assign_vars_def assign_var_def by (intro same_problem_fold same_problem_update_var) simp_all

lemma same_problem_mark_failed: "same_problem p (mark_failed v p)"
  unfolding mark_failed_def by (rule same_problem_update_var) simp_all

lemma same_problem_check: "same_problem p (snd (check_deletions env iter p))"
proof -
  have "same_problem p (snd (fold check_deletion xs (b, p)))" for xs b
  proof (induction xs arbitrary: b p)
    case (Cons x xs)
    have "same_problem p (snd (check_deletion x (b, p)))"
      by (auto simp: check_deletion_def intro: same_problem_fold same_problem_mark_failed)
    then show ?case using Cons.IH [of "snd (check_deletion x (b, p))" "fst (check_deletion x (b, p))"] same_problem_trans by auto
  qed simp
  then show ?thesis by (simp add: check_deletions_def)
qed

lemma same_problem_restore: "same_problem p (restore_assumptions p)"
proof -
  have "same_problem q (call (Assume l) q)" for q l by (rule same_problem_call) simp
  moreover have "same_problem q (update_var i (\<lambda>x. x\<lparr>sv_install := \<not> sv_install x, sv_failed := False\<rparr>) q)" for q i
    by (rule same_problem_update_var) simp_all
  ultimately have "same_problem q (restore_var i q)" for q i
    using same_problem_trans by (auto simp: restore_var_def Let_def) blast+
  then show ?thesis unfolding restore_assumptions_def by (rule same_problem_fold)
qed

lemma check_deletions_False:
  assumes "check_deletions env iter p = (False, q)"
  shows "q = p"
proof -
  have t: "fst (fold check_deletion ys (True, r))" for ys r
  proof (induction ys arbitrary: r)
    case (Cons y ys)
    then show ?case by (cases "deletes_local r y") (simp_all add: check_deletion_def)
  qed simp
  have "\<not> fst (fold check_deletion xs st) \<Longrightarrow> fold check_deletion xs st = st" for xs st
  proof (induction xs arbitrary: st)
    case (Cons x xs)
    have "check_deletion x st = st"
    proof (rule ccontr)
      assume "check_deletion x st \<noteq> st"
      then obtain r where "check_deletion x st = (True, r)" by (auto simp: check_deletion_def split: if_splits)
      then show False using Cons.prems t by simp
    qed
    then show ?case using Cons by simp
  qed simp
  then show ?thesis using assms by (auto simp: check_deletions_def split: if_splits) (metis fst_conv prod.inject)+
qed

text \<open>What the loop returns is an assignment after a satisfiable answer.\<close>

lemma solve_loop_result:
  assumes "solve_loop n env ps ask iter attempt p = Some q"
  shows "\<exists>r. same_problem p r \<and> ps_sat ps (sp_sat r) \<and> q = assign_vars (ps_deref ps (sp_sat r)) r"
  using assms
proof (induction n env ps ask iter attempt p rule: solve_loop.induct)
  case (2 n env ps ask iter attempt p)
  let ?p1 = "pkg_solve_picosat_iter p"
  let ?h = "sp_sat ?p1"
  note i = same_problem_iter [of p]
  show ?case
  proof (cases "ps_sat ps ?h")
    case True
    obtain again p2 where c: "check_deletions env iter (assign_vars (ps_deref ps ?h) ?p1) = (again, p2)" by fastforce
    show ?thesis
    proof (cases again)
      case True
      have "same_problem p (restore_assumptions p2)"
        using i same_problem_assign same_problem_check [of "assign_vars (ps_deref ps ?h) ?p1" env iter] c same_problem_restore
          same_problem_trans by (metis snd_conv)
      moreover obtain r where "same_problem (restore_assumptions p2) r" "ps_sat ps (sp_sat r)" "q = assign_vars (ps_deref ps (sp_sat r)) r"
        using 2(1) [OF refl refl \<open>ps_sat ps ?h\<close> c [symmetric] True] 2(3) \<open>ps_sat ps ?h\<close> c True by (auto simp: Let_def)
      ultimately show ?thesis using same_problem_trans by blast
    next
      case False
      then have "q = assign_vars (ps_deref ps ?h) ?p1"
        using 2(3) \<open>ps_sat ps ?h\<close> c check_deletions_False [of env iter _ p2] by (auto simp: Let_def)
      then show ?thesis using i \<open>ps_sat ps ?h\<close> by blast
    qed
  next
    case False
    from 2(3) False obtain v where v: "failed_var ?p1 (ps_failed_assumptions ps ?h) = Some v"
      by (auto simp: Let_def split: option.splits)
    let ?p2 = "if attempt + 1 < 10 \<or> ask (attempt + 1) (question ?p1 v) then mark_failed v ?p1 else ?p1"
    have "same_problem p (restore_assumptions ?p2)"
      using i same_problem_mark_failed [of ?p1 v] same_problem_restore [of ?p2] same_problem_trans by (smt (verit))
    moreover obtain r where "same_problem (restore_assumptions ?p2) r" "ps_sat ps (sp_sat r)" "q = assign_vars (ps_deref ps (sp_sat r)) r"
      using 2(2) [OF refl refl False v refl] 2(3) False v by (auto simp: Let_def)
    ultimately show ?thesis using same_problem_trans by blast
  qed
qed simp

section \<open>The assignment satisfies the rules\<close>

definition literal_holds :: "problem \<Rightarrow> solve_item \<Rightarrow> bool" where
  "literal_holds p it \<longleftrightarrow> (if snd it = 1 then sv_install (sp_vars p ! fst it) else \<not> sv_install (sp_vars p ! fst it))"

definition rule_holds :: "problem \<Rightarrow> solve_rule \<Rightarrow> bool" where
  "rule_holds p r \<longleftrightarrow> (\<exists>it \<in> set (sr_items r). literal_holds p it)"

lemma update_var_nth:
  "v < length (sp_vars p) \<Longrightarrow> sp_vars (update_var w f p) ! v = (if v = w then f (sp_vars p ! v) else sp_vars p ! v)"
  by (auto simp: update_var_def nth_list_update)

lemma assign_vars_nth:
  assumes "v < length (sp_vars p)"
  shows "sv_install (sp_vars (assign_vars val p) ! v) \<longleftrightarrow> val (int v + 1) > 0"
proof -
  have a: "sp_vars (assign_var val w q) ! v = (if v = w then (sp_vars q ! v)\<lparr>sv_install := val (int w + 1) > 0\<rparr> else sp_vars q ! v)"
    if "v < length (sp_vars q)" for w q using that by (simp add: assign_var_def update_var_nth)
  have l: "length (sp_vars (fold (assign_var val) xs q)) = length (sp_vars q)" for xs q
    by (induction xs arbitrary: q) (simp_all add: assign_var_def update_var_def)
  have k: "sp_vars (fold (assign_var val) xs q) ! v = sp_vars q ! v" if "v \<notin> set xs" "v < length (sp_vars q)" for xs q
    using that
  proof (induction xs arbitrary: q)
    case (Cons x xs)
    then show ?case using l [of "[x]" q] by (simp add: a)
  qed simp
  have "sv_install (sp_vars (fold (assign_var val) xs q) ! v) \<longleftrightarrow> val (int v + 1) > 0"
    if "v \<in> set xs" "v < length (sp_vars q)" for xs q
    using that
  proof (induction xs arbitrary: q)
    case (Cons x xs)
    show ?case
    proof (cases "v \<in> set xs")
      case True
      then show ?thesis using Cons l [of "[x]" q] by simp
    next
      case False
      then have "x = v" using Cons.prems by simp
      then show ?thesis
        using k [OF False, of "assign_var val x q"] Cons.prems l [of "[x]" q] by (simp add: a)
    qed
  qed simp
  then show ?thesis using assms by (simp add: assign_vars_def)
qed

lemma add_clauses_adds:
  "\<exists>h. adds h = concat (map (\<lambda>r. rule_lits p r @ [0]) rs) \<and>
    fold (\<lambda>r q. fold (\<lambda>l. call (Add l)) (rule_lits p r @ [0]) q) rs q = q\<lparr>sp_sat := sp_sat q @ h\<rparr>"
proof (induction rs arbitrary: q)
  case (Cons r rs)
  have l: "\<exists>h. adds h = ls \<and> fold (\<lambda>l. call (Add l)) ls q = q\<lparr>sp_sat := sp_sat q @ h\<rparr>" for ls q
  proof (induction ls arbitrary: q)
    case (Cons l ls)
    then obtain h where h: "adds h = ls" "fold (\<lambda>l. call (Add l)) ls (call (Add l) q) = (call (Add l) q)\<lparr>sp_sat := sp_sat (call (Add l) q) @ h\<rparr>"
      by blast
    have c: "call (Add l) q = q\<lparr>sp_sat := sp_sat q @ [Add l]\<rparr>" by (simp add: call_def)
    show ?case by (rule exI [of _ "Add l # h"]) (use h in \<open>simp add: c\<close>)
  qed (auto intro: exI [of _ "[]"])
  obtain h where h: "adds h = rule_lits p r @ [0]"
    "fold (\<lambda>l. call (Add l)) (rule_lits p r @ [0]) q = q\<lparr>sp_sat := sp_sat q @ h\<rparr>" using l by blast
  obtain g where g: "adds g = concat (map (\<lambda>r. rule_lits p r @ [0]) rs)"
    "fold (\<lambda>r q. fold (\<lambda>l. call (Add l)) (rule_lits p r @ [0]) q) rs (q\<lparr>sp_sat := sp_sat q @ h\<rparr>) =
      (q\<lparr>sp_sat := sp_sat q @ h\<rparr>)\<lparr>sp_sat := sp_sat (q\<lparr>sp_sat := sp_sat q @ h\<rparr>) @ g\<rparr>"
    using Cons.IH by blast
  show ?case by (rule exI [of _ "h @ g"]) (use h g in simp)
qed (auto intro: exI [of _ "[]"])

lemma rule_lits_cong: "sp_vars q = sp_vars p \<Longrightarrow> rule_lits q = rule_lits p"
  by (simp add: rule_lits_def fun_eq_iff)

lemma add_clauses_eq:
  obtains h where "add_clauses p = p\<lparr>sp_sat := sp_sat p @ h\<rparr>" "adds h = concat (map (\<lambda>c. c @ [0]) (map (rule_lits p) (sp_rules p)))"
proof -
  have e: "fold (\<lambda>r q. fold (\<lambda>l. call (Add l)) (rule_lits q r @ [0]) q) rs q =
      fold (\<lambda>r q. fold (\<lambda>l. call (Add l)) (rule_lits p r @ [0]) q) rs q" if "sp_vars q = sp_vars p" for rs q
    using that
  proof (induction rs arbitrary: q)
    case (Cons r rs)
    have "sp_vars (fold (\<lambda>l. call (Add l)) ls q) = sp_vars q" for ls
      by (induction ls arbitrary: q) (simp_all add: call_def)
    then show ?case using Cons rule_lits_cong [OF Cons.prems] by (simp del: fold_append)
  qed simp
  from add_clauses_adds [of p "sp_rules p" p] obtain h where
    "adds h = concat (map (\<lambda>r. rule_lits p r @ [0]) (sp_rules p))" "add_clauses p = p\<lparr>sp_sat := sp_sat p @ h\<rparr>"
    unfolding add_clauses_def e [OF refl] by blast
  then show ?thesis using that [of h] by (simp add: comp_def)
qed

text \<open>Solving a problem to which nothing was added yet.\<close>

lemma solution_satisfies:
  assumes ok: "picosat_ok ps" and wf: "rules_wf p" and order: "\<forall>v < length (sp_vars p). sv_order (sp_vars p ! v) = v + 1"
    and fresh: "adds (sp_sat p) = []" and run: "pkg_solve_sat_problem n env ps ask p = Some q"
  shows "(\<forall>r \<in> set (sp_rules p). rule_holds q r) \<and> sp_rules q = sp_rules p \<and> sp_by_uid q = sp_by_uid p \<and>
    map sv_unit (sp_vars q) = map sv_unit (sp_vars p) \<and>
    length (u_items (sp_universe q)) = length (u_items (sp_universe p)) \<and>
    (\<forall>i < length (u_items (sp_universe p)). same_pkg (item_pkg (sp_universe p) i) (item_pkg (sp_universe q) i))"
proof -
  obtain h where h: "add_clauses p = p\<lparr>sp_sat := sp_sat p @ h\<rparr>"
    "adds h = concat (map (\<lambda>c. c @ [0]) (map (rule_lits p) (sp_rules p)))" by (rule add_clauses_eq)
  from run obtain p1 where p1: "fold_option (pkg_solve_set_initial_assumption env) (sp_rules p) (add_clauses p) = Some p1"
    "solve_loop n env ps ask 0 0 p1 = Some q" by (auto simp: pkg_solve_sat_problem_def split: option.splits if_splits)
  from solve_loop_result [OF p1(2)] obtain r where r: "same_problem p1 r" "ps_sat ps (sp_sat r)"
    "q = assign_vars (ps_deref ps (sp_sat r)) r" by blast
  have s: "same_problem (add_clauses p) r" using same_problem_initials [OF p1(1)] r(1) same_problem_trans by blast
  then have adds: "adds (sp_sat r) = adds h" using h fresh by (simp add: same_problem_def)
  let ?val = "ps_deref ps (sp_sat r)"
  have lit: "int (sv_order (sp_vars p ! fst it)) * snd it = (int (fst it) + 1) * snd it" "(int (fst it) + 1) * snd it \<noteq> 0"
    if "item_wf p it" for it using that order by (auto simp: item_wf_def)
  have nz: "\<forall>c \<in> set (map (rule_lits p) (sp_rules p)). 0 \<notin> set c"
  proof clarsimp
    fix r assume "r \<in> set (sp_rules p)" "0 \<in> set (rule_lits p r)"
    then obtain it where "it \<in> set (sr_items r)" "int (sv_order (sp_vars p ! fst it)) * snd it = 0" by (auto simp: rule_lits_def)
    then show False using lit wf \<open>r \<in> set (sp_rules p)\<close> by (metis rules_wf_def)
  qed
  have cl: "clauses (sp_sat r) = map (rule_lits p) (sp_rules p)"
    unfolding clauses_def adds h(2) by (rule clauses_from_concat [OF nz])
  have len: "length (sp_vars r) = length (sp_vars p)" using same_problem_length [OF s] h(1) by simp
  have "rule_holds q rl" if rl: "rl \<in> set (sp_rules p)" for rl
  proof -
    have "\<exists>l \<in> set (rule_lits p rl). ?val l > 0" using ok r(2) cl rl by (auto simp: picosat_ok_def)
    then obtain it where it: "it \<in> set (sr_items rl)" "?val (int (sv_order (sp_vars p ! fst it)) * snd it) > 0"
      by (auto simp: rule_lits_def)
    have w: "item_wf p it" using wf rl it(1) by (auto simp: rules_wf_def)
    have v: "?val ((int (fst it) + 1) * snd it) > 0" using it(2) lit(1) [OF w] by simp
    have neg: "?val (- l) = - ?val l" for l using ok r(2) by (auto simp: picosat_ok_def)
    have "sv_install (sp_vars q ! fst it) \<longleftrightarrow> ?val (int (fst it) + 1) > 0"
      unfolding r(3) using assign_vars_nth w len by (simp add: item_wf_def)
    moreover have "?val (int (fst it) + 1) < 0" if "snd it = -1"
      using v neg [of "int (fst it) + 1"] that by simp
    ultimately have "literal_holds q it" using w v by (auto simp: item_wf_def literal_holds_def)
    then show ?thesis using it(1) by (auto simp: rule_holds_def)
  qed
  moreover have "same_problem (add_clauses p) q"
    using same_problem_trans [OF s same_problem_assign] r(3) by simp
  ultimately show ?thesis using h(1) by (simp add: same_problem_def)
qed

section \<open>Consistent plans\<close>

text \<open>The items of a universe that provide a requirement, as the table of provides registers them.\<close>

definition providers :: "universe \<Rightarrow> string \<Rightarrow> pkg \<Rightarrow> nat set" where
  "providers u b orig =
     {j. \<exists>prs pr un c. map_of (u_provides u) b = Some prs \<and> pr \<in> set prs \<and> pr_un pr = Some un \<and>
        pkg_jobs_universe_find u (pkg_uid (item_pkg u (hd (chain_of u un)))) = Some c \<and> j \<in> set c \<and>
        provides_it (pr_is_shlib pr) b orig (item_pkg u j)}"

definition dep_met :: "universe \<Rightarrow> nat set \<Rightarrow> pkg_dep \<Rightarrow> bool" where
  "dep_met u S d \<longleftrightarrow> (\<forall>uid \<in> set (dep_uids d). pkg_jobs_universe_find u uid = None) \<or>
     (\<exists>uid \<in> set (dep_uids d). \<exists>c. pkg_jobs_universe_find u uid = Some c \<and> S \<inter> set c \<noteq> {})"

definition conflict_free :: "universe \<Rightarrow> nat set \<Rightarrow> pkg \<Rightarrow> pkg_conflict \<Rightarrow> bool" where
  "conflict_free u S p c \<longleftrightarrow> (\<forall>ch j. pkg_jobs_universe_find u (conflict_uid c) = Some ch \<longrightarrow> j \<in> set ch \<inter> S \<longrightarrow>
     conflict_applies p c (item_pkg u j) \<noteq> Some True)"

text \<open>
  A set of items is a plan if no two of them have the same uid and every one has its
  dependencies and requirements, as far as the universe knows a candidate, and no conflict.
\<close>

definition plan_ok :: "universe \<Rightarrow> nat set \<Rightarrow> bool" where
  "plan_ok u S \<longleftrightarrow> S \<subseteq> {..<length (u_items u)} \<and>
     (\<forall>i \<in> S. \<forall>j \<in> S. pkg_uid (item_pkg u i) = pkg_uid (item_pkg u j) \<longrightarrow> i = j) \<and>
     (\<forall>i \<in> S. (\<forall>d \<in> set (pkg_depends (item_pkg u i)). dep_met u S d) \<and>
        (\<forall>c \<in> set (pkg_conflicts (item_pkg u i)). conflict_free u S (item_pkg u i) c) \<and>
        (\<forall>b \<in> set (pkg_shlibs_required (item_pkg u i)) \<union> set (pkg_requires (item_pkg u i)).
           providers u b (item_pkg u i) \<noteq> {} \<longrightarrow> S \<inter> providers u b (item_pkg u i) \<noteq> {}))"

definition selected :: "problem \<Rightarrow> nat set" where
  "selected p = {sv_unit (sp_vars p ! v) |v. v < length (sp_vars p) \<and> sv_install (sp_vars p ! v)}"

text \<open>A problem \<open>q\<close> with the flags of a solution of the complete problem \<open>p\<close>.\<close>

definition solves :: "universe \<Rightarrow> problem \<Rightarrow> problem \<Rightarrow> bool" where
  "solves u p q \<longleftrightarrow> complete u p \<and> rules_wf p \<and> (\<forall>r \<in> set (sp_rules p). rule_holds q r) \<and>
     sp_by_uid q = sp_by_uid p \<and> map sv_unit (sp_vars q) = map sv_unit (sp_vars p) \<and>
     length (u_items (sp_universe q)) = length (u_items u) \<and>
     (\<forall>i < length (u_items u). same_pkg (item_pkg u i) (item_pkg (sp_universe q) i))"

lemma positive_holds:
  assumes "\<exists>it \<in> set ((v, -1) # positive ws). literal_holds q it" "sv_install (sp_vars q ! v)"
  obtains w where "w \<in> set ws" "sv_install (sp_vars q ! w)"
  using assms by (auto simp: positive_def literal_holds_def)

lemma plan_vars:
  assumes s: "solves u p q" and wf: "chains_wf u" and v: "v < length (sp_vars p)" "sv_install (sp_vars q ! v)"
  shows "\<And>d. d \<in> set (pkg_depends (var_pkg p v)) \<Longrightarrow> known_dep p d \<Longrightarrow> \<exists>w \<in> set (dep_vars p d). sv_install (sp_vars q ! w)"
    and "\<And>c w. c \<in> set (pkg_conflicts (var_pkg p v)) \<Longrightarrow> w \<in> set (uid_vars p (conflict_uid c)) \<Longrightarrow> sv_install (sp_vars q ! w) \<Longrightarrow>
      conflict_applies (var_pkg p v) c (var_pkg p w) \<noteq> Some True"
    and "\<And>b. b \<in> set (pkg_shlibs_required (var_pkg p v)) \<union> set (pkg_requires (var_pkg p v)) \<Longrightarrow>
      require_vars p b (var_pkg p v) \<noteq> [] \<Longrightarrow> \<exists>w \<in> set (require_vars p b (var_pkg p v)). sv_install (sp_vars q ! w)"
proof -
  have r: "package_rules_in v p" using s v(1) by (simp add: solves_def complete_def)
  have h: "\<exists>it \<in> set its. literal_holds q it" if "has_rule p t its" for t its
    using s that by (fastforce simp: solves_def has_rule_def rule_holds_def)
  show "\<exists>w \<in> set (dep_vars p d). sv_install (sp_vars q ! w)" if "d \<in> set (pkg_depends (var_pkg p v))" "known_dep p d" for d
    using positive_holds [OF h v(2)] r that by (metis package_rules_in_def)
  show "conflict_applies (var_pkg p v) c (var_pkg p w) \<noteq> Some True"
    if "c \<in> set (pkg_conflicts (var_pkg p v))" "w \<in> set (uid_vars p (conflict_uid c))" "sv_install (sp_vars q ! w)" for c w
  proof
    assume "conflict_applies (var_pkg p v) c (var_pkg p w) = Some True"
    then have "has_rule p PKG_RULE_EXPLICIT_CONFLICT [(v, -1), (w, -1)]" using r that by (simp add: package_rules_in_def)
    from h [OF this] show False using v(2) that(3) by (auto simp: literal_holds_def)
  qed
  show "\<exists>w \<in> set (require_vars p b (var_pkg p v)). sv_install (sp_vars q ! w)"
    if "b \<in> set (pkg_shlibs_required (var_pkg p v)) \<union> set (pkg_requires (var_pkg p v))" "require_vars p b (var_pkg p v) \<noteq> []" for b
    using positive_holds [OF h v(2)] r that by (metis package_rules_in_def)
qed

lemma chain_exclusive:
  assumes s: "solves u p q" and m: "(uid, vs) \<in> set (sp_by_uid p)" and ij: "i < length vs" "j < length vs"
    and "sv_install (sp_vars q ! (vs ! i))" "sv_install (sp_vars q ! (vs ! j))"
  shows "i = j"
proof -
  have ex: "exclusive p vs" using s m by (auto simp: solves_def complete_def)
  have "False" if lt: "a < b" "b < length vs" "sv_install (sp_vars q ! (vs ! a))" "sv_install (sp_vars q ! (vs ! b))" for a b
  proof -
    have "has_rule p PKG_RULE_UPGRADE_CONFLICT [(vs ! a, -1), (vs ! b, -1)]" using ex lt by (simp add: exclusive_def)
    then have "rule_holds q \<lparr>sr_reason = PKG_RULE_UPGRADE_CONFLICT, sr_items = [(vs ! a, -1), (vs ! b, -1)]\<rparr>"
      using s by (simp add: solves_def has_rule_def)
    then show False using lt by (auto simp: rule_holds_def literal_holds_def)
  qed
  then show ?thesis using assms by (metis linorder_neqE_nat)
qed

lemma uid_vars_units:
  assumes "chains_wf u" "linked u p"
  shows "pkg_jobs_universe_find u uid = Some c \<Longrightarrow> c = map (\<lambda>v. sv_unit (sp_vars p ! v)) (uid_vars p uid)"
    and "pkg_jobs_universe_find u uid = None \<longleftrightarrow> map_of (sp_by_uid p) uid = None"
    and "v \<in> set (uid_vars p uid) \<Longrightarrow> pkg_jobs_universe_find u uid \<noteq> None"
  using linked_find [OF assms, of uid]
  by (cases "map_of (sp_by_uid p) uid"; auto simp: pkg_jobs_universe_find_def uid_vars_def)+

lemma providers_vars:
  assumes wf: "chains_wf u" and li: "linked u p"
  shows "providers u b orig = (\<lambda>w. sv_unit (sp_vars p ! w)) ` set (require_vars p b orig)"
proof (cases "map_of (u_provides u) b")
  case None
  then show ?thesis using li by (simp add: providers_def require_vars_def linked_def)
next
  case (Some prs)
  have u: "sp_universe p = u" using li by (simp add: linked_def)
  have e: "{j. \<exists>un c. pr_un pr = Some un \<and> pkg_jobs_universe_find u (pkg_uid (item_pkg u (hd (chain_of u un)))) = Some c \<and>
      j \<in> set c \<and> provides_it (pr_is_shlib pr) b orig (item_pkg u j)} =
    (\<lambda>w. sv_unit (sp_vars p ! w)) ` set (provider_vars p b orig pr)" for pr
  proof (cases "pr_un pr")
    case (Some un)
    let ?uid = "pkg_uid (item_pkg u (hd (chain_of u un)))"
    have "set c = (\<lambda>w. sv_unit (sp_vars p ! w)) ` set (uid_vars p ?uid)" if "pkg_jobs_universe_find u ?uid = Some c" for c
      using uid_vars_units(1) [OF wf li that] by simp
    moreover have "uid_vars p ?uid = []" if "pkg_jobs_universe_find u ?uid = None"
      using uid_vars_units(2) [OF wf li] that by (simp add: uid_vars_def)
    ultimately show ?thesis
      using Some u by (cases "pkg_jobs_universe_find u ?uid") (auto simp: provider_vars_def var_pkg_def)
  qed (simp add: provider_vars_def)
  have "providers u b orig = (\<Union>pr \<in> set prs. {j. \<exists>un c. pr_un pr = Some un \<and>
      pkg_jobs_universe_find u (pkg_uid (item_pkg u (hd (chain_of u un)))) = Some c \<and>
      j \<in> set c \<and> provides_it (pr_is_shlib pr) b orig (item_pkg u j)})"
    using Some by (auto simp: providers_def)
  then have "providers u b orig = (\<Union>pr \<in> set prs. (\<lambda>w. sv_unit (sp_vars p ! w)) ` set (provider_vars p b orig pr))"
    unfolding e .
  then show ?thesis using Some u by (simp add: require_vars_def image_UN)
qed

lemma solves_plan_ok:
  assumes s: "solves u p q" and wf: "chains_wf u"
  shows "plan_ok u (selected q)"
proof -
  have li: "linked u p" using s by (simp add: solves_def complete_def)
  have len: "length (sp_vars q) = length (sp_vars p)" using s unfolding solves_def by (metis length_map)
  have unit: "sv_unit (sp_vars q ! v) = sv_unit (sp_vars p ! v)" if "v < length (sp_vars p)" for v
    using s that len unfolding solves_def by (metis nth_map)
  have u: "sp_universe p = u" using li by (simp add: linked_def)
  have pk: "var_pkg p v = item_pkg u (sv_unit (sp_vars p ! v))" for v using u by (simp add: var_pkg_def)
  have vi: "vars_in p" by (rule linked_vars_in [OF wf li])
  have sel: "sv_unit (sp_vars p ! w) \<in> selected q" if "w < length (sp_vars p)" "sv_install (sp_vars q ! w)" for w
    using that len unit unfolding selected_def by (intro CollectI exI [of _ w]) simp
  have selE: "\<exists>v < length (sp_vars p). i = sv_unit (sp_vars p ! v) \<and> sv_install (sp_vars q ! v)" if "i \<in> selected q" for i
    using that len unit by (auto simp: selected_def)
  have inv: "sv_install (sp_vars q ! w)" if "w < length (sp_vars p)" "sv_unit (sp_vars p ! w) \<in> selected q" for w
    using selE [OF that(2)] linked_unit_inj [OF wf li that(1)] by auto
  have units: "sv_unit (sp_vars p ! v) \<in> set (concat (map snd (u_chains u)))" if "v < length (sp_vars p)" for v
    using li that unfolding linked_def by (metis length_map nth_map nth_mem)
  have "selected q \<subseteq> {..<length (u_items u)}"
    using selE units wf by (fastforce simp: chains_wf_def)
  moreover have "i = j" if ij: "i \<in> selected q" "j \<in> selected q" "pkg_uid (item_pkg u i) = pkg_uid (item_pkg u j)" for i j
  proof -
    obtain v w where v: "v < length (sp_vars p)" "i = sv_unit (sp_vars p ! v)" "sv_install (sp_vars q ! v)"
      and w: "w < length (sp_vars p)" "j = sv_unit (sp_vars p ! w)" "sv_install (sp_vars q ! w)"
      using selE ij(1,2) by blast
    have uv: "x \<in> set (uid_vars p (pkg_uid (item_pkg u (sv_unit (sp_vars p ! x))))) \<and>
        (pkg_uid (item_pkg u (sv_unit (sp_vars p ! x))), uid_vars p (pkg_uid (item_pkg u (sv_unit (sp_vars p ! x))))) \<in> set (sp_by_uid p)"
      if "x < length (sp_vars p)" for x
    proof -
      have "x \<in> set (concat (map snd (sp_by_uid p)))" using linked_concat [OF wf li] that by simp
      then obtain uid vs where m: "(uid, vs) \<in> set (sp_by_uid p)" "x \<in> set vs" by auto
      have "(uid, map (\<lambda>v. sv_unit (sp_vars p ! v)) vs) \<in> set (u_chains u)"
        using m unfolding linked_chains [OF wf li, symmetric] by force
      then have "pkg_uid (item_pkg u (sv_unit (sp_vars p ! x))) = uid" using wf m(2) by (fastforce simp: chains_wf_def)
      moreover have "map_of (sp_by_uid p) uid = Some vs"
        using m li wf by (intro map_of_is_SomeI) (simp_all add: linked_def chains_wf_def)
      ultimately show ?thesis using m by (simp add: uid_vars_def)
    qed
    let ?vs = "uid_vars p (pkg_uid (item_pkg u i))"
    have "v \<in> set ?vs" "w \<in> set ?vs" "(pkg_uid (item_pkg u i), ?vs) \<in> set (sp_by_uid p)"
      using uv [OF v(1)] uv [OF w(1)] v(2) w(2) ij(3) by simp_all
    then have "v = w" using chain_exclusive [OF s] v(3) w(3) by (metis in_set_conv_nth)
    then show "i = j" using v w by simp
  qed
  moreover have "(\<forall>d \<in> set (pkg_depends (item_pkg u i)). dep_met u (selected q) d) \<and>
        (\<forall>c \<in> set (pkg_conflicts (item_pkg u i)). conflict_free u (selected q) (item_pkg u i) c) \<and>
        (\<forall>b \<in> set (pkg_shlibs_required (item_pkg u i)) \<union> set (pkg_requires (item_pkg u i)).
           providers u b (item_pkg u i) \<noteq> {} \<longrightarrow> selected q \<inter> providers u b (item_pkg u i) \<noteq> {})"
    if i: "i \<in> selected q" for i
  proof (intro conjI ballI impI)
    obtain v where v: "v < length (sp_vars p)" "i = sv_unit (sp_vars p ! v)" "sv_install (sp_vars q ! v)" using selE [OF i] by blast
    note rules = plan_vars [OF s wf v(1,3), unfolded pk, folded v(2)]
    fix d assume d: "d \<in> set (pkg_depends (item_pkg u i))"
    show "dep_met u (selected q) d"
    proof (cases "known_dep p d")
      case True
      then obtain w uid where w: "w \<in> set (uid_vars p uid)" "uid \<in> set (dep_uids d)" "sv_install (sp_vars q ! w)"
        using rules(1) [OF d] by (auto simp: dep_vars_def)
      obtain c where c: "pkg_jobs_universe_find u uid = Some c" using uid_vars_units(3) [OF wf li w(1)] by blast
      have "sv_unit (sp_vars p ! w) \<in> set c \<inter> selected q"
        using uid_vars_units(1) [OF wf li c] w sel uid_vars_less [OF vi w(1)] by simp
      then show ?thesis using c w(2) by (auto simp: dep_met_def)
    next
      case False
      then show ?thesis using uid_vars_units(2) [OF wf li] by (auto simp: dep_met_def known_dep_def)
    qed
  next
    obtain v where v: "v < length (sp_vars p)" "i = sv_unit (sp_vars p ! v)" "sv_install (sp_vars q ! v)" using selE [OF i] by blast
    note rules = plan_vars [OF s wf v(1,3), unfolded pk, folded v(2)]
    fix c assume c: "c \<in> set (pkg_conflicts (item_pkg u i))"
    show "conflict_free u (selected q) (item_pkg u i) c"
    proof (unfold conflict_free_def, intro allI impI)
      fix ch j assume ch: "pkg_jobs_universe_find u (conflict_uid c) = Some ch" "j \<in> set ch \<inter> selected q"
      then obtain w where w: "w \<in> set (uid_vars p (conflict_uid c))" "j = sv_unit (sp_vars p ! w)"
        using uid_vars_units(1) [OF wf li ch(1)] by auto
      then have "sv_install (sp_vars q ! w)" using inv uid_vars_less [OF vi w(1)] ch(2) by simp
      then show "conflict_applies (item_pkg u i) c (item_pkg u j) \<noteq> Some True" using rules(2) [OF c w(1)] w(2) by simp
    qed
  next
    obtain v where v: "v < length (sp_vars p)" "i = sv_unit (sp_vars p ! v)" "sv_install (sp_vars q ! v)" using selE [OF i] by blast
    note rules = plan_vars [OF s wf v(1,3), unfolded pk, folded v(2)]
    fix b assume b: "b \<in> set (pkg_shlibs_required (item_pkg u i)) \<union> set (pkg_requires (item_pkg u i))"
      and ne: "providers u b (item_pkg u i) \<noteq> {}"
    have pr: "providers u b (item_pkg u i) = (\<lambda>w. sv_unit (sp_vars p ! w)) ` set (require_vars p b (item_pkg u i))"
      by (rule providers_vars [OF wf li])
    then have "require_vars p b (item_pkg u i) \<noteq> []" using ne by auto
    then obtain w where w: "w \<in> set (require_vars p b (item_pkg u i))" "sv_install (sp_vars q ! w)" using rules(3) [OF b] by blast
    then show "selected q \<inter> providers u b (item_pkg u i) \<noteq> {}"
      using pr sel require_vars_less [OF vi w(1)] by blast
  qed
  ultimately show ?thesis by (auto simp: plan_ok_def)
qed

end
