(* ===== verification/Solver_Jobs.thy ===== *)
theory Solver_Jobs
  imports Solver_Plan
begin

text \<open>
  The jobs read off a solution and what executing them does to the set of installed packages;
  the properties of the solver and their concrete instances.
\<close>

section \<open>Executing jobs\<close>

text \<open>
  What a job does to the installed items: an upgrade replaces the old package, a fetch leaves the
  system alone. The two halves of a split upgrade act like an installation and a removal.
\<close>

definition apply_job :: "solved \<Rightarrow> nat set \<Rightarrow> nat set" where
  "apply_job s S =
     (case sl_type s of
        PKG_SOLVED_INSTALL \<Rightarrow> insert (sl_item s) S
      | PKG_SOLVED_UPGRADE_INSTALL \<Rightarrow> insert (sl_item s) S
      | PKG_SOLVED_UPGRADE \<Rightarrow> insert (sl_item s) (S - set_option (sl_old s))
      | PKG_SOLVED_DELETE \<Rightarrow> S - {sl_item s}
      | PKG_SOLVED_UPGRADE_REMOVE \<Rightarrow> S - {sl_item s}
      | PKG_SOLVED_FETCH \<Rightarrow> S)"

definition apply_jobs :: "solved list \<Rightarrow> nat set \<Rightarrow> nat set" where
  "apply_jobs js S = fold apply_job js S"

definition installed_items :: "universe \<Rightarrow> nat set" where
  "installed_items u = {i. i < length (u_items u) \<and> installed (item_pkg u i)}"

lemma apply_jobs_simps [simp]:
  "apply_jobs [] S = S" "apply_jobs (s # js) S = apply_jobs js (apply_job s S)"
  "apply_jobs (js @ ks) S = apply_jobs ks (apply_jobs js S)"
  by (simp_all add: apply_jobs_def)

lemma apply_deletes: "apply_jobs (map (\<lambda>v. solved_job PKG_SOLVED_DELETE (f v) None) vs) S = S - f ` set vs"
  by (induction vs arbitrary: S) (auto simp: apply_job_def solved_job_def)

lemma apply_chain_jobs:
  assumes one: "length (filter (to_add p) vs) \<le> 1" and t: "t \<noteq> PKG_JOBS_FETCH"
    and inj: "inj_on (\<lambda>v. sv_unit (sp_vars p ! v)) (set vs)"
  shows "apply_jobs (pkg_solve_insert_res_job t p vs) S =
    (S - (\<lambda>v. sv_unit (sp_vars p ! v)) ` set (filter (to_delete p) vs)) \<union>
      (\<lambda>v. sv_unit (sp_vars p ! v)) ` set (filter (to_add p) vs)"
proof -
  let ?unit = "\<lambda>v. sv_unit (sp_vars p ! v)"
  let ?adds = "filter (to_add p) vs" and ?dels = "filter (to_delete p) vs"
  show ?thesis
  proof (cases ?adds)
    case Nil
    then show ?thesis by (simp add: pkg_solve_insert_res_job_def Let_def apply_deletes)
  next
    case (Cons a as)
    then have a: "?adds = [a]" using one by simp
    have "a \<in> set (filter (to_add p) vs)" using a by simp
    then have "to_add p a" "a \<in> set vs" by simp_all
    then have d: "?unit a \<notin> ?unit ` set ?dels"
      using inj by (auto simp: to_add_def to_delete_def inj_on_def)
    show ?thesis
    proof (cases "?dels = []")
      case True
      then show ?thesis using a t
        by (simp add: pkg_solve_insert_res_job_def Let_def apply_job_def solved_job_def)
    next
      case False
      let ?l = "last ?dels"
      have "?l \<in> set ?dels" using False by (rule last_in_set)
      then have "insert ?l (set (filter (\<lambda>v. v \<noteq> ?l) ?dels)) = set ?dels" by auto
      then have "?unit ` set ?dels = insert (?unit ?l) (?unit ` set (filter (\<lambda>v. v \<noteq> ?l) ?dels))" by (metis image_insert)
      moreover have "pkg_solve_insert_res_job t p vs = solved_job PKG_SOLVED_UPGRADE (?unit a) (Some (?unit ?l)) #
          map (\<lambda>v. solved_job PKG_SOLVED_DELETE (?unit v) None) (filter (\<lambda>v. v \<noteq> ?l) ?dels)"
        unfolding pkg_solve_insert_res_job_def Let_def a using False by (simp del: filter_filter)
      then have "apply_jobs (pkg_solve_insert_res_job t p vs) S =
          insert (?unit a) (S - {?unit ?l}) - ?unit ` set (filter (\<lambda>v. v \<noteq> ?l) ?dels)"
        by (simp only: apply_jobs_simps apply_deletes) (simp add: apply_job_def solved_job_def)
      ultimately show ?thesis using d a by auto
    qed
  qed
qed

lemma apply_all_jobs:
  assumes "\<forall>(uid, vs) \<in> set xs. length (filter (to_add p) vs) \<le> 1" and t: "t \<noteq> PKG_JOBS_FETCH"
    and inj: "inj_on (\<lambda>v. sv_unit (sp_vars p ! v)) V" and "\<forall>(uid, vs) \<in> set xs. set vs \<subseteq> V"
  shows "apply_jobs (concat (map (\<lambda>(uid, vs). pkg_solve_insert_res_job t p vs) xs)) S =
    (S - (\<lambda>v. sv_unit (sp_vars p ! v)) ` {v \<in> set (concat (map snd xs)). to_delete p v}) \<union>
      (\<lambda>v. sv_unit (sp_vars p ! v)) ` {v \<in> set (concat (map snd xs)). to_add p v}"
  using assms(1,4)
proof (induction xs arbitrary: S)
  case (Cons x xs)
  obtain uid vs where x: "x = (uid, vs)" by fastforce
  let ?unit = "\<lambda>v. sv_unit (sp_vars p ! v)"
  let ?W = "set (concat (map snd xs))"
  have sub: "set vs \<subseteq> V" "?W \<subseteq> V" using Cons.prems x by fastforce+
  have one: "apply_jobs (pkg_solve_insert_res_job t p vs) S =
      (S - ?unit ` set (filter (to_delete p) vs)) \<union> ?unit ` set (filter (to_add p) vs)"
    using Cons.prems x t inj_on_subset [OF inj sub(1)] by (intro apply_chain_jobs) auto
  have dis: "?unit ` set (filter (to_add p) vs) \<inter> ?unit ` {v \<in> ?W. to_delete p v} = {}"
    using sub inj by (auto simp: to_add_def to_delete_def inj_on_def)
  have ih: "apply_jobs (concat (map (\<lambda>(uid, vs). pkg_solve_insert_res_job t p vs) xs)) T =
    (T - ?unit ` {v \<in> ?W. to_delete p v}) \<union> ?unit ` {v \<in> ?W. to_add p v}" for T
    using Cons by simp
  have split: "{v \<in> set (concat (map snd (x # xs))). P v} = set (filter P vs) \<union> {v \<in> ?W. P v}" for P
    using x by auto
  show ?case unfolding split image_Un using dis by (simp add: x ih one del: set_filter) blast
qed simp

lemma solves_apply_jobs:
  assumes s: "solves u p q" and wf: "chains_wf u" and t: "t \<noteq> PKG_JOBS_FETCH"
  shows "apply_jobs (pkg_solve_sat_to_jobs t q) (installed_items u) = selected q"
proof -
  let ?unit = "\<lambda>v. sv_unit (sp_vars q ! v)"
  have li: "linked u p" using s by (simp add: solves_def complete_def)
  have len: "length (sp_vars q) = length (sp_vars p)" using s unfolding solves_def by (metis length_map)
  have unit: "?unit v = sv_unit (sp_vars p ! v)" if "v < length (sp_vars p)" for v
    using s that len unfolding solves_def by (metis nth_map)
  have bu: "sp_by_uid q = sp_by_uid p" using s by (simp add: solves_def)
  have all: "concat (map snd (sp_by_uid q)) = [0..<length (sp_vars p)]" using linked_concat [OF wf li] bu by simp
  have inj: "inj_on ?unit {..<length (sp_vars p)}"
    using linked_unit_inj [OF wf li] unit by (auto simp: inj_on_def)
  have units: "map sv_unit (sp_vars p) = concat (map snd (u_chains u))" using li by (simp add: linked_def)
  have less: "?unit v < length (u_items u)" if "v < length (sp_vars p)" for v
  proof -
    have "sv_unit (sp_vars p ! v) \<in> set (concat (map snd (u_chains u)))" unfolding units [symmetric] using that by simp
    then have "sv_unit (sp_vars p ! v) \<in> {..<length (u_items u)}" using wf unfolding chains_wf_def by blast
    then show ?thesis using unit [OF that] by simp
  qed
  then have kind: "installed (var_pkg q v) = installed (item_pkg u (?unit v))" if "v < length (sp_vars p)" for v
    using s that by (simp add: solves_def same_pkg_def var_pkg_def pkg.ext_inject) (metis pkg.select_convs(26) pkg.surjective pkg.update_convs(12))
  have onto: "\<exists>v < length (sp_vars p). i = ?unit v" if "i < length (u_items u)" for i
  proof -
    have "i \<in> set (map sv_unit (sp_vars p))" unfolding units using wf that by (simp add: chains_wf_def)
    then obtain v where "v < length (sp_vars p)" "i = sv_unit (sp_vars p ! v)" by (auto simp: in_set_conv_nth)
    then show ?thesis using unit by (intro exI [of _ v]) simp
  qed
  have one: "length (filter (to_add q) vs) \<le> 1" if "(uid, vs) \<in> set (sp_by_uid q)" for uid vs
  proof -
    have "distinct (concat (map snd (sp_by_uid q)))" unfolding all by simp
    then have "distinct vs" using that by (metis distinct_concat_iff in_set_conv_decomp map_append list.simps(9) snd_conv distinct_append append_Cons)
    have "v = w" if "v \<in> set (filter (to_add q) vs)" "w \<in> set (filter (to_add q) vs)" for v w
      using that chain_exclusive [OF s \<open>(uid, vs) \<in> set (sp_by_uid q)\<close> [unfolded bu]] by (auto simp: to_add_def in_set_conv_nth)
    then have "card (set (filter (to_add q) vs)) \<le> Suc 0" by (subst card_le_Suc0_iff_eq) auto
    then show ?thesis using distinct_card [OF distinct_filter [OF \<open>distinct vs\<close>]] by simp
  qed
  have "apply_jobs (pkg_solve_sat_to_jobs t q) (installed_items u) =
      (installed_items u - ?unit ` {v \<in> {..<length (sp_vars p)}. to_delete q v}) \<union> ?unit ` {v \<in> {..<length (sp_vars p)}. to_add q v}"
  proof -
    have "\<forall>(uid, vs) \<in> set (sp_by_uid q). set vs \<subseteq> {..<length (sp_vars p)}"
      using linked_vars_in [OF wf li] bu by (auto simp: vars_in_def)
    then show ?thesis
      using apply_all_jobs [OF _ t inj, of "sp_by_uid q" "installed_items u"] one all
      by (auto simp: pkg_solve_sat_to_jobs_def)
  qed
  also have "\<dots> = selected q"
  proof (rule set_eqI)
    fix i
    let ?V = "{..<length (sp_vars p)}"
    let ?jobs = "(installed_items u - ?unit ` {v \<in> ?V. to_delete q v}) \<union> ?unit ` {v \<in> ?V. to_add q v}"
    show "i \<in> ?jobs \<longleftrightarrow> i \<in> selected q"
    proof (cases "i < length (u_items u)")
      case True
      then obtain v where v: "v \<in> ?V" "i = ?unit v" using onto by blast
      have m: "i \<in> ?unit ` {w \<in> ?V. P w} \<longleftrightarrow> P v" for P
        unfolding v(2) by (subst inj_on_image_mem_iff [OF inj v(1)]) (use v(1) in auto)
      have sel: "selected q = ?unit ` {w \<in> ?V. sv_install (sp_vars q ! w)}" by (auto simp: selected_def len)
      have inst: "i \<in> installed_items u \<longleftrightarrow> installed (var_pkg q v)"
        using kind v True by (simp add: installed_items_def)
      show ?thesis unfolding Un_iff Diff_iff sel m inst by (auto simp: to_add_def to_delete_def)
    next
      case False
      then have "i \<notin> ?unit ` {w \<in> ?V. P w}" for P using less by auto
      moreover have "selected q = ?unit ` {w \<in> ?V. sv_install (sp_vars q ! w)}" by (auto simp: selected_def len)
      ultimately show ?thesis using False by (simp add: installed_items_def)
    qed
  qed
  finally show ?thesis .
qed

section \<open>An instance\<close>

text \<open>
  A solver that knows one assignment: it answers satisfiable if the assignment makes every clause
  and assumption true, and otherwise blames the assumptions that it makes false.
\<close>

definition fixed_value :: "int list \<Rightarrow> int \<Rightarrow> int" where
  "fixed_value ts l = sgn l * (if abs l \<in> set ts then 1 else -1)"

definition fixed_solver :: "int list \<Rightarrow> picosat" where
  "fixed_solver ts =
     \<lparr>ps_sat = \<lambda>h. (\<forall>c \<in> set (clauses h). \<exists>l \<in> set c. fixed_value ts l > 0) \<and> (\<forall>l \<in> set (assumptions h). fixed_value ts l > 0),
      ps_deref = \<lambda>h. fixed_value ts,
      ps_failed_assumptions = \<lambda>h. filter (\<lambda>l. fixed_value ts l \<le> 0) (assumptions h)\<rparr>"

lemma fixed_solver_ok: "picosat_ok (fixed_solver ts)"
  by (auto simp: picosat_ok_def fixed_solver_def fixed_value_def)

text \<open>A version of \<^verbatim>\<open>a\<close> is installed, its successor needs \<^verbatim>\<open>b\<close>.\<close>

definition demo_pkg :: "string \<Rightarrow> string \<Rightarrow> pkg_type \<Rightarrow> string \<Rightarrow> pkg" where
  "demo_pkg uid v kd d = blank_pkg\<lparr>pkg_uid := uid, pkg_name := uid, pkg_version := v, pkg_kind := kd, pkg_digest := Some d\<rparr>"

definition demo_dep :: pkg_dep where
  "demo_dep = \<lparr>dep_origin = ''b'', dep_name = ''b'', dep_version = ''1'', dep_uid = ''b'', dep_alts = []\<rparr>"

definition demo_universe :: universe where
  "demo_universe = \<lparr>u_items = map (\<lambda>p. \<lparr>ui_pkg = p, ui_priority = 0, ui_processed = True\<rparr>)
       [demo_pkg ''a'' ''1'' PKG_INSTALLED ''x'', (demo_pkg ''a'' ''2'' PKG_REMOTE ''y'')\<lparr>pkg_depends := [demo_dep]\<rparr>,
        demo_pkg ''b'' ''1'' PKG_REMOTE ''z''],
     u_chains = [(''a'', [0, 1]), (''b'', [2])], u_seen = [], u_provides = [], u_replaces = [], u_nitems = 3\<rparr>"

definition demo_env :: solve_env where
  "demo_env = \<lparr>se_type = PKG_JOBS_UPGRADE, se_conservative = False, se_repos = \<lambda>_. None,
     se_request_add = [(''a'', \<lparr>rq_items = [1], rq_skip = False, rq_automatic = False\<rparr>)], se_request_delete = []\<rparr>"

lemma demo_chains_wf: "chains_wf demo_universe"
proof -
  have "{0, 1, 2} = {..<3::nat}" by auto
  then show ?thesis by (simp add: chains_wf_def demo_universe_def item_pkg_def demo_pkg_def blank_pkg_def less_Suc_eq)
qed

definition demo_problem :: problem where
  "demo_problem = the (the (pkg_solve_jobs_to_sat demo_env demo_universe))"

lemma demo_jobs_to_sat: "pkg_solve_jobs_to_sat demo_env demo_universe = Some (Some demo_problem)"
proof -
  have "map_option (\<lambda>p. p \<noteq> None) (pkg_solve_jobs_to_sat demo_env demo_universe) = Some True" by code_simp
  then show ?thesis by (auto simp: demo_problem_def)
qed

definition demo_solution :: problem where
  "demo_solution = the (pkg_solve_sat_problem 2 demo_env (fixed_solver [2, 3]) (\<lambda>_ _. False) demo_problem)"

lemma demo_run: "pkg_solve_sat_problem 2 demo_env (fixed_solver [2, 3]) (\<lambda>_ _. False) demo_problem = Some demo_solution"
proof -
  have "pkg_solve_sat_problem 2 demo_env (fixed_solver [2, 3]) (\<lambda>_ _. False) demo_problem \<noteq> None" by code_simp
  then show ?thesis by (auto simp: demo_solution_def)
qed

lemma demo_flags: "map sv_install (sp_vars demo_solution) = [False, True, True]" by code_simp


section \<open>Properties\<close>

text \<open>C23. The problem of a job is well-formed: every literal of a rule is a variable of the array
  with the sign 1 or -1, the order of a variable is its index plus one, the table of variables by
  uid partitions the array along the chains of the universe, and every unit of the universe has
  exactly one variable.\<close>

theorem jobs_to_sat_type:
  assumes "chains_wf u" "pkg_solve_jobs_to_sat env u = Some (Some p)"
  shows "(\<forall>r \<in> set (sp_rules p). \<forall>(v, sg) \<in> set (sr_items r). v < length (sp_vars p) \<and> (sg = 1 \<or> sg = -1)) \<and>
    map sv_order (sp_vars p) = map Suc [0..<length (u_items u)] \<and>
    concat (map snd (sp_by_uid p)) = [0..<length (u_items u)] \<and>
    map (\<lambda>(uid, vs). (uid, map (\<lambda>v. sv_unit (sp_vars p ! v)) vs)) (sp_by_uid p) = u_chains u"
proof -
  have li: "linked u p" using jobs_to_sat_complete [OF assms] by (simp add: complete_def)
  have "rules_wf p" using jobs_to_sat_built [OF assms] by (simp add: built_def)
  then have "\<forall>r \<in> set (sp_rules p). \<forall>(v, sg) \<in> set (sr_items r). v < length (sp_vars p) \<and> (sg = 1 \<or> sg = -1)"
    by (force simp: rules_wf_def item_wf_def)
  moreover have "map sv_order (sp_vars p) = map Suc [0..<length (u_items u)]"
    using li linked_length [OF assms(1) li] by (simp add: linked_def)
  moreover have "concat (map snd (sp_by_uid p)) = [0..<length (u_items u)]"
    using linked_concat [OF assms(1) li] linked_length [OF assms(1) li] by simp
  ultimately show ?thesis using linked_chains [OF assms(1) li] by blast
qed

theorem jobs_to_sat_type_witness: "map sv_order (sp_vars demo_problem) = [1, 2, 3]"
  using jobs_to_sat_type [OF demo_chains_wf demo_jobs_to_sat] by (simp add: demo_universe_def upt_rec)

lemma solution_solves:
  assumes "chains_wf u" "pkg_solve_jobs_to_sat env u = Some (Some p)" "picosat_ok ps"
    "pkg_solve_sat_problem n env' ps ask p = Some q"
  shows "solves u p q"
proof -
  have c: "complete u p" by (rule jobs_to_sat_complete [OF assms(1,2)])
  then have li: "linked u p" by (simp add: complete_def)
  have b: "rules_wf p" "adds (sp_sat p) = []" using jobs_to_sat_built [OF assms(1,2)] by (simp_all add: built_def)
  have u: "sp_universe p = u" using li by (simp add: linked_def)
  show ?thesis
    using solution_satisfies [OF assms(3) b(1) _ b(2) assms(4)] linked_order [OF li] c b(1) u
    by (simp add: solves_def)
qed

text \<open>C1. Whatever assignment the loop around the solver returns, the packages that it selects form a
  consistent plan: no two of them have the same uid, and each one has, among the selected
  packages, an alternative of every dependency that the universe knows and a provider of every
  requirement that has one, and no package it conflicts with.\<close>

theorem solution_consistent:
  assumes "chains_wf u" "pkg_solve_jobs_to_sat env u = Some (Some p)" "picosat_ok ps"
    "pkg_solve_sat_problem n env ps ask p = Some q"
  shows "plan_ok u (selected q)"
  using solves_plan_ok [OF solution_solves [OF assms] assms(1)] .

theorem solution_consistent_witness: "plan_ok demo_universe {1, 2}"
proof -
  have "selected demo_solution = {1, 2}"
  proof -
    have "map (\<lambda>x. (sv_unit x, sv_install x)) (sp_vars demo_solution) = [(0, False), (1, True), (2, True)]" by code_simp
    moreover have "selected demo_solution = fst ` set (filter snd (map (\<lambda>x. (sv_unit x, sv_install x)) (sp_vars demo_solution)))"
      by (force simp: selected_def in_set_conv_nth)
    ultimately show ?thesis by simp
  qed
  then show ?thesis
    using solution_consistent [OF demo_chains_wf demo_jobs_to_sat fixed_solver_ok demo_run] by simp
qed

text \<open>Executing the jobs of a solution turns the installed packages into exactly the selected
  ones.\<close>

theorem jobs_reach_selection:
  assumes "chains_wf u" "pkg_solve_jobs_to_sat env u = Some (Some p)" "picosat_ok ps"
    "pkg_solve_sat_problem n env ps ask p = Some q" "se_type env \<noteq> PKG_JOBS_FETCH"
  shows "apply_jobs (pkg_solve_sat_to_jobs (se_type env) q) (installed_items u) = selected q"
  using solves_apply_jobs [OF solution_solves [OF assms(1-4)] assms(1,5)] .

theorem jobs_reach_selection_witness:
  "\<exists>js. map (\<lambda>s. (sl_type s, sl_item s, sl_old s)) js = [(PKG_SOLVED_UPGRADE, 1, Some 0), (PKG_SOLVED_INSTALL, 2, None)] \<and>
     apply_jobs js (installed_items demo_universe) = selected demo_solution"
proof -
  have e: "se_type demo_env \<noteq> PKG_JOBS_FETCH" by (simp add: demo_env_def)
  have "map (\<lambda>s. (sl_type s, sl_item s, sl_old s)) (pkg_solve_sat_to_jobs (se_type demo_env) demo_solution) =
      [(PKG_SOLVED_UPGRADE, 1, Some 0), (PKG_SOLVED_INSTALL, 2, None)]" by code_simp
  then show ?thesis
    using jobs_reach_selection [OF demo_chains_wf demo_jobs_to_sat fixed_solver_ok demo_run e] by (intro exI conjI)
qed

text \<open>If the solver never finds an assignment, the loop never returns: declining the question
  whether to drop the failed package does not end it, and the tenth attempt is not the last.\<close>

theorem unsatisfiable_never_returns:
  assumes "\<And>h. \<not> ps_sat ps h"
  shows "solve_loop n env ps ask iter attempt p = None"
  using assms
  by (induction n env ps ask iter attempt p rule: solve_loop.induct) (simp_all add: Let_def split: option.split)

theorem unsatisfiable_never_returns_witness:
  "solve_loop 3 demo_env \<lparr>ps_sat = \<lambda>_. False, ps_deref = \<lambda>_ _. 0, ps_failed_assumptions = \<lambda>_. [2]\<rparr> (\<lambda>_ _. False) 0 9 demo_problem = None"
  by (rule unsatisfiable_never_returns) simp

section \<open>External solvers\<close>

text \<open>The numbers of a line.\<close>

definition read_numbers :: "string \<Rightarrow> int list" where
  "read_numbers s = map (\<lambda>t. fst (strtoll t)) (tokens '' '' s)"

lemma format_d_clean: "set (format_d i) \<inter> {CHR '' '', CHR 9, CHR 10} = {}"
proof -
  have "c \<noteq> CHR '' '' \<and> c \<noteq> CHR 9 \<and> c \<noteq> CHR 10" if "c \<in> set (dec_digits n)" for c n
    using isdigit_dec_digits [OF that] by (auto simp: isdigit_def code_def)
  then show ?thesis by (auto simp: format_d_def)
qed

lemma format_d_read [simp]: "LLONG_MIN \<le> i \<Longrightarrow> i \<le> LLONG_MAX \<Longrightarrow> fst (strtoll (format_d i)) = i"
proof -
  have "\<not> isdigit (deref [])" by code_simp
  then show "LLONG_MIN \<le> i \<Longrightarrow> i \<le> LLONG_MAX \<Longrightarrow> fst (strtoll (format_d i)) = i"
    using strtoll_format_d [of i "[]"] by simp
qed

lemma tokens_spaced:
  assumes "CHR '' '' \<in> set d" "set d \<subseteq> {CHR '' '', CHR 9, CHR 10}" "set t \<inter> set d = {}"
  shows "tokens d (concat (map (\<lambda>l. format_d l @ '' '') ls) @ t) = map format_d ls @ [t]"
proof (induction ls)
  case (Cons l ls)
  have "set (format_d l) \<inter> set d = {}" using format_d_clean [of l] assms(2) by blast
  then show ?case using tokens_step [OF _ assms(1)] Cons by simp
qed (simp add: tokens_last assms(3))

lemma tokens_lines:
  assumes "\<forall>l \<in> set ls. CHR 10 \<notin> set l"
  shows "tokens [CHR 10] (concat (map (\<lambda>l. l @ [CHR 10]) ls)) = ls @ [[]]"
  using assms by (induction ls) (simp_all add: tokens_step tokens_last)

text \<open>C24. The DIMACS file of a problem generated for a job describes the same clauses that are given to
  PicoSAT: after the header, its lines read back as the literals of the rules, each ended by zero.
  The universe has proper chains and not more items than the numbers that are read allow.
\<close>

theorem dimacs_same_clauses:
  assumes "chains_wf u" "pkg_solve_jobs_to_sat env u = Some (Some p)" "int (length (u_items u)) \<le> LLONG_MAX"
  shows "map read_numbers (butlast (tl (tokens [CHR 10] (pkg_solve_dimacs_export p)))) = map (\<lambda>r. rule_lits p r @ [0]) (sp_rules p)"
proof -
  have li: "linked u p" using jobs_to_sat_complete [OF assms(1,2)] by (simp add: complete_def)
  have wf: "rules_wf p" using jobs_to_sat_built [OF assms(1,2)] by (simp add: built_def)
  have len: "length (sp_vars p) = length (u_items u)" by (rule linked_length [OF assms(1) li])
  let ?line = "\<lambda>r. concat (map (\<lambda>l. format_d l @ '' '') (rule_lits p r)) @ ''0''"
  have item: "dimacs_item p it = format_d (int (sv_order (sp_vars p ! fst it)) * snd it) @ '' ''"
    if "r \<in> set (sp_rules p)" "it \<in> set (sr_items r)" for r it
    using wf that linked_order [OF li, of "fst it"] by (simp add: rules_wf_def item_wf_def dimacs_item_def add.commute)
  have line: "concat (map (dimacs_item p) (sr_items r)) @ ''0'' @ [CHR 10] = ?line r @ [CHR 10]"
    if r: "r \<in> set (sp_rules p)" for r
  proof -
    have "map (dimacs_item p) (sr_items r) = map (\<lambda>l. format_d l @ '' '') (rule_lits p r)"
      using item [OF r] by (simp add: rule_lits_def case_prod_beta)
    then show ?thesis by simp
  qed
  let ?head = "''p cnf '' @ format_d (int (length (sp_vars p))) @ '' '' @ format_d (int (length (sp_rules p)))"
  have no_newline: "CHR 10 \<notin> set (format_d i)" for i using format_d_clean [of i] by blast
  have nl: "CHR 10 \<notin> set ?head" "\<forall>l \<in> set (map ?line (sp_rules p)). CHR 10 \<notin> set l"
    using no_newline by auto
  have ex: "pkg_solve_dimacs_export p = concat (map (\<lambda>l. l @ [CHR 10]) (?head # map ?line (sp_rules p)))"
    using line by (simp add: pkg_solve_dimacs_export_def comp_def cong: map_cong)
  have "tokens [CHR 10] (pkg_solve_dimacs_export p) = (?head # map ?line (sp_rules p)) @ [[]]"
    unfolding ex by (rule tokens_lines) (use nl in auto)
  then have t: "butlast (tl (tokens [CHR 10] (pkg_solve_dimacs_export p))) = map ?line (sp_rules p)" by simp
  have "read_numbers (?line r) = rule_lits p r @ [0]" if r: "r \<in> set (sp_rules p)" for r
  proof -
    have "LLONG_MIN \<le> l \<and> l \<le> LLONG_MAX" if l: "l \<in> set (rule_lits p r)" for l
    proof -
      obtain it where it: "it \<in> set (sr_items r)" "l = int (sv_order (sp_vars p ! fst it)) * snd it"
        using l by (auto simp: rule_lits_def)
      then have "fst it < length (sp_vars p)" "snd it = 1 \<or> snd it = -1" using wf r by (auto simp: rules_wf_def item_wf_def)
      then show ?thesis using it(2) linked_order [OF li] assms(3) len by (auto simp: LLONG_MIN_def LLONG_MAX_def)
    qed
    then have "map (\<lambda>l. fst (strtoll (format_d l))) (rule_lits p r) = rule_lits p r"
      by (simp add: map_idI)
    moreover have "tokens '' '' (?line r) = map format_d (rule_lits p r) @ [''0'']" by (rule tokens_spaced) auto
    moreover have "fst (strtoll ''0'') = 0" by code_simp
    ultimately show ?thesis by (simp add: read_numbers_def comp_def)
  qed
  then show ?thesis unfolding t by simp
qed

theorem dimacs_same_clauses_witness:
  "map read_numbers (butlast (tl (tokens [CHR 10] (pkg_solve_dimacs_export demo_problem)))) =
     map (\<lambda>r. rule_lits demo_problem r @ [0]) (sp_rules demo_problem) \<and> length (sp_rules demo_problem) = 2"
proof -
  have "length (sp_rules demo_problem) = 2" by code_simp
  moreover have "int (length (u_items demo_universe)) \<le> LLONG_MAX" by (simp add: demo_universe_def LLONG_MAX_def)
  ultimately show ?thesis using dimacs_same_clauses [OF demo_chains_wf demo_jobs_to_sat] by simp
qed

text \<open>
  What an external solver prints for an assignment: the literals, and a zero at the end, on one
  line or several. MiniSat writes them below a line \<^verbatim>\<open>SAT\<close>, a solver of the competitions on lines
  that start with \<^verbatim>\<open>v\<close>, among lines with comments and with the answer.
\<close>

definition value_literal :: "bool list \<Rightarrow> nat \<Rightarrow> int" where
  "value_literal bs i = (if bs ! i then int i + 1 else - (int i + 1))"

definition says :: "bool list \<Rightarrow> int list list \<Rightarrow> bool" where
  "says bs lss \<longleftrightarrow> concat lss = map (value_literal bs) [0..<length bs] @ [0] \<and> [] \<notin> set lss"

definition literal_line :: "int list \<Rightarrow> string" where
  "literal_line ls = concat (map (\<lambda>l. format_d l @ '' '') (butlast ls)) @ format_d (last ls) @ [CHR 10]"

definition minisat_output :: "int list list \<Rightarrow> string list" where
  "minisat_output lss = (''SAT'' @ [CHR 10]) # map literal_line lss"

definition competition_output :: "(string list \<times> int list) list \<Rightarrow> string list \<Rightarrow> string list" where
  "competition_output css rest = concat (map (\<lambda>(cs, ls). cs @ [''v '' @ literal_line ls]) css) @ rest"

text \<open>Lines that the reader of a competition output passes over.\<close>

definition remark :: "string \<Rightarrow> bool" where
  "remark c \<longleftrightarrow> take 3 c \<noteq> ''SAT'' \<and> take 2 c \<noteq> ''v ''"

definition set_flag :: "bool list \<Rightarrow> nat \<Rightarrow> problem \<Rightarrow> problem" where
  "set_flag bs i = update_var i (\<lambda>x. x\<lparr>sv_install := bs ! i\<rparr>)"

lemma parse_literal:
  assumes "i < length (sp_vars p)" "int i + 1 \<le> LLONG_MAX"
  shows "parse_token (format_d (value_literal bs i)) (d, p) = (d, set_flag bs i p)"
proof -
  let ?l = "value_literal bs i"
  have l: "LLONG_MIN \<le> ?l" "?l \<le> LLONG_MAX" "?l \<noteq> 0" "nat (abs ?l - 1) = i" "abs ?l \<le> int (length (sp_vars p))" "?l > 0 \<longleftrightarrow> bs ! i"
    using assms by (auto simp: value_literal_def LLONG_MIN_def LLONG_MAX_def)
  have "isdigit (hd (dec_digits (nat (abs ?l))))" by (rule hd_dec_digits)
  then have "isdigit (deref (format_d ?l)) \<or> deref (format_d ?l) = CHR ''-''"
    by (cases "dec_digits (nat (abs ?l))") (auto simp: format_d_def)
  then show ?thesis
    using l by (auto simp: parse_token_def pkg_solve_parse_sat_output_store_def Let_def set_flag_def)
qed

lemma set_flag_length [simp]: "length (sp_vars (set_flag bs i p)) = length (sp_vars p)"
  by (simp add: set_flag_def update_var_def)

lemma parse_literals:
  assumes "\<forall>i \<in> set is. i < length (sp_vars p) \<and> int i + 1 \<le> LLONG_MAX"
  shows "fold parse_token (map format_d (map (value_literal bs) is)) (d, p) = (d, fold (set_flag bs) is p)"
  using assms by (induction "is" arbitrary: p) (simp_all add: parse_literal)

lemma set_flags:
  assumes "n \<le> length (sp_vars p)"
  shows "fold (set_flag bs) [0..<n] p =
    p\<lparr>sp_vars := map (\<lambda>i. (sp_vars p ! i)\<lparr>sv_install := if i < n then bs ! i else sv_install (sp_vars p ! i)\<rparr>) [0..<length (sp_vars p)]\<rparr>"
  using assms
proof (induction n)
  case 0
  then show ?case by (simp add: map_nth)
next
  case (Suc n)
  then show ?case
    by (simp add: set_flag_def update_var_def)
      (rule arg_cong [where f = "\<lambda>vs. p\<lparr>sp_vars := vs\<rparr>"], auto intro!: nth_equalityI simp: nth_list_update)
qed

text \<open>A number means the same with and without the end of its line.\<close>

lemma parse_token_line:
  assumes "LLONG_MIN \<le> l" "l \<le> LLONG_MAX"
  shows "parse_token (format_d l @ [CHR 10]) st = parse_token (format_d l) st"
proof -
  have "strtoll (format_d l @ [CHR 10]) = (l, False, [CHR 10])" "strtoll (format_d l) = (l, False, [])"
    using strtoll_format_d [OF assms, of "[CHR 10]"] strtoll_format_d [OF assms, of "[]"] by (simp_all add: isdigit_def code_def NUL_def)
  moreover have "deref (format_d l @ [CHR 10]) = deref (format_d l)"
    using hd_dec_digits [of "nat (abs l)"] by (cases "dec_digits (nat (abs l))") (auto simp: format_d_def)
  ultimately show ?thesis by (simp add: parse_token_def pkg_solve_parse_sat_output_store_def)
qed

lemma parse_literal_line:
  assumes "ls \<noteq> []" "\<forall>l \<in> set ls. LLONG_MIN \<le> l \<and> l \<le> LLONG_MAX"
  shows "parse_tokens (literal_line ls) st = fold (\<lambda>l. parse_token (format_d l)) ls st"
proof -
  let ?t = "format_d (last ls) @ [CHR 10]"
  have "set ?t \<inter> set ('' '' @ [CHR 9]) = {}" using format_d_clean [of "last ls"] by auto
  then have "tokens ('' '' @ [CHR 9]) (literal_line ls) = map format_d (butlast ls) @ [?t]"
    unfolding literal_line_def by (intro tokens_spaced) auto
  then have "parse_tokens (literal_line ls) st = parse_token ?t (fold parse_token (map format_d (butlast ls)) st)"
    by (simp add: parse_tokens_def)
  also have "\<dots> = parse_token (format_d (last ls)) (fold (\<lambda>l. parse_token (format_d l)) (butlast ls) st)"
    using parse_token_line [of "last ls"] assms by (simp add: fold_map comp_def)
  also have "\<dots> = fold (\<lambda>l. parse_token (format_d l)) (butlast ls @ [last ls]) st" by simp
  finally show ?thesis using assms(1) by simp
qed

lemma literal_line_start: "ls \<noteq> [] \<Longrightarrow> take 3 (literal_line ls) \<noteq> ''SAT''"
proof -
  have "deref (format_d l @ s) \<noteq> CHR ''S''" for l s
    using hd_dec_digits [of "nat (abs l)"]
    by (cases "dec_digits (nat (abs l))") (auto simp: format_d_def isdigit_def code_def)
  moreover have "\<exists>l s. literal_line ls = format_d l @ s" by (cases "butlast ls") (auto simp: literal_line_def)
  moreover have "take 3 x = ''SAT'' \<Longrightarrow> deref x = CHR ''S''" for x by (cases x) auto
  ultimately show ?thesis by metis
qed

abbreviation in_range :: "int list list \<Rightarrow> bool" where
  "in_range lss \<equiv> \<forall>ls \<in> set lss. ls \<noteq> [] \<and> (\<forall>l \<in> set ls. LLONG_MIN \<le> l \<and> l \<le> LLONG_MAX)"

lemma minisat_lines:
  "in_range lss \<Longrightarrow> fold parse_line (map literal_line lss) (True, st) = (True, fold (\<lambda>l. parse_token (format_d l)) (concat lss) st)"
  by (induction lss arbitrary: st) (simp_all add: parse_line_def literal_line_start parse_literal_line)

lemma remarks_passed: "\<forall>c \<in> set cs. remark c \<Longrightarrow> fold parse_line cs (False, st) = (False, st)"
  by (induction cs) (simp_all add: parse_line_def remark_def)

lemma competition_lines:
  "in_range (map snd css) \<Longrightarrow> \<forall>(cs, ls) \<in> set css. \<forall>c \<in> set cs. remark c \<Longrightarrow>
    fold parse_line (concat (map (\<lambda>(cs, ls). cs @ [''v '' @ literal_line ls]) css)) (False, st) =
      (False, fold (\<lambda>l. parse_token (format_d l)) (concat (map snd css)) st)"
proof (induction css arbitrary: st)
  case (Cons x css)
  obtain cs ls where x: "x = (cs, ls)" by (cases x)
  have "parse_line (''v '' @ literal_line ls) (False, st) = (False, fold (\<lambda>l. parse_token (format_d l)) ls st)"
    using Cons.prems x by (simp add: parse_line_def parse_literal_line)
  then show ?case using Cons x remarks_passed [of cs] by simp
qed simp

text \<open>C21. What an external solver prints for an assignment is read back as this assignment, and the jobs
  are those of the assignment: in the format of MiniSat, below its line \<^verbatim>\<open>SAT\<close>, and in the format of
  the competitions, on the lines that start with \<^verbatim>\<open>v\<close>, among others that start with neither word.
  The literals stand on one line or on several and end with a zero.
\<close>

theorem external_solution_read:
  assumes "length bs = length (sp_vars p)" "int (length bs) \<le> LLONG_MAX" "says bs (map snd css)"
    "\<forall>(cs, ls) \<in> set css. \<forall>c \<in> set cs. remark c" "\<forall>c \<in> set rest. remark c"
  shows "(let q = p\<lparr>sp_vars := map2 (\<lambda>x b. x\<lparr>sv_install := b\<rparr>) (sp_vars p) bs\<rparr>; answer = (EPKG_OK, pkg_solve_sat_to_jobs t q, q)
    in pkg_solve_parse_sat_output t (minisat_output (map snd css)) p = answer \<and>
      pkg_solve_parse_sat_output t (competition_output css rest) p = answer)"
proof -
  let ?lss = "map snd css" and ?q = "fold (set_flag bs) [0..<length bs] p"
  have q: "?q = p\<lparr>sp_vars := map2 (\<lambda>x b. x\<lparr>sv_install := b\<rparr>) (sp_vars p) bs\<rparr>"
    unfolding set_flags [OF eq_refl [OF assms(1)]]
    by (rule arg_cong [where f = "\<lambda>vs. p\<lparr>sp_vars := vs\<rparr>"]) (use assms(1) in \<open>auto intro!: nth_equalityI\<close>)
  have c: "concat ?lss = map (value_literal bs) [0..<length bs] @ [0]" "[] \<notin> set ?lss" using assms(3) by (simp_all add: says_def)
  have "LLONG_MIN \<le> l \<and> l \<le> LLONG_MAX" if "l \<in> set (concat ?lss)" for l
    using that assms(2) unfolding c(1) by (auto simp: value_literal_def LLONG_MIN_def LLONG_MAX_def)
  then have r: "in_range ?lss" using c(2) by (metis UN_I set_concat)
  have z: "parse_token (format_d 0) (False, ?q) = (True, ?q)"
  proof -
    have "format_d 0 = ''0''" "strtoll ''0'' = (0, False, [])" "isdigit CHR ''0''" by code_simp+
    then show ?thesis by (simp add: parse_token_def pkg_solve_parse_sat_output_store_def)
  qed
  have "fold parse_token (map format_d (map (value_literal bs) [0..<length bs])) (False, p) = (False, ?q)"
    by (rule parse_literals) (use assms in auto)
  then have f: "fold (\<lambda>l. parse_token (format_d l)) (concat ?lss) (False, p) = (True, ?q)"
    unfolding c(1) using z by (simp add: fold_map comp_def)
  have "fold parse_line (minisat_output ?lss) (False, False, p) = (True, True, ?q)"
    using minisat_lines [OF r] f by (simp add: minisat_output_def parse_line_def)
  moreover have "fold parse_line (competition_output css rest) (False, False, p) = (False, True, ?q)"
    unfolding competition_output_def fold_append comp_def using competition_lines [OF r assms(4)] remarks_passed [OF assms(5)] f by simp
  ultimately show ?thesis unfolding q [symmetric] Let_def by (simp add: pkg_solve_parse_sat_output_def)
qed

definition demo_answer :: "(string list \<times> int list) list" where
  "demo_answer = [([''c a comment'', ''s SATISFIABLE''], [-1, 2]), ([], [3, 0])]"

theorem external_solution_read_witness:
  "competition_output demo_answer [] = [''c a comment'', ''s SATISFIABLE'', ''v -1 2'' @ [CHR 10], ''v 3 0'' @ [CHR 10]] \<and>
   map sv_install (sp_vars (snd (snd (pkg_solve_parse_sat_output PKG_JOBS_UPGRADE (minisat_output [[-1, 2], [3, 0]]) demo_problem)))) =
     [False, True, True] \<and>
   map sv_install (sp_vars (snd (snd (pkg_solve_parse_sat_output PKG_JOBS_UPGRADE (competition_output demo_answer []) demo_problem)))) =
     [False, True, True]"
proof -
  let ?bs = "[False, True, True]"
  have n: "length ?bs = length (sp_vars demo_problem)" by code_simp
  have i: "int (length ?bs) \<le> LLONG_MAX" by (simp add: LLONG_MAX_def)
  have s: "says ?bs (map snd demo_answer)" by code_simp
  have c: "\<forall>(cs, ls) \<in> set demo_answer. \<forall>c \<in> set cs. remark c" by code_simp
  have e: "\<forall>c \<in> set ([] :: string list). remark c" by simp
  have "map sv_install (map2 (\<lambda>x b. x\<lparr>sv_install := b\<rparr>) (sp_vars demo_problem) ?bs) = ?bs" by code_simp
  moreover have "map snd demo_answer = [[-1, 2], [3, 0]]" by (simp add: demo_answer_def)
  moreover have "competition_output demo_answer [] = [''c a comment'', ''s SATISFIABLE'', ''v -1 2'' @ [CHR 10], ''v 3 0'' @ [CHR 10]]"
    by code_simp
  ultimately show ?thesis using external_solution_read [OF n i s c e, of PKG_JOBS_UPGRADE] by (simp add: Let_def)
qed

end
