(* ===== verification/Priority.thy ===== *)
theory Priority
  imports Universe_Facts
begin

text \<open>
  Priorities of the items of a universe, \<open>pkg_jobs_update_universe_item_priority\<close> and its
  callers in \<^verbatim>\<open>libpkg/pkg_jobs_universe.c\<close>: the order in which a job installs and removes
  packages. The recursion follows dependencies with the priority raised by one and gives up
  at \<open>RECURSION_LIMIT\<close>.
\<close>

datatype priority_update = Update_request | Update_universe | Update_conflict | Update_delete

definition RECURSION_LIMIT :: int where
  "RECURSION_LIMIT = 1024"

definition prio :: "universe \<Rightarrow> nat \<Rightarrow> int" where
  "prio u i = ui_priority (u_items u ! i)"

definition set_prio :: "nat \<Rightarrow> int \<Rightarrow> universe \<Rightarrow> universe" where
  "set_prio i p u = u\<lparr>u_items := (u_items u)[i := (u_items u ! i)\<lparr>ui_priority := p\<rparr>]\<rparr>"

text \<open>
  The recursive call on an item, given as the part of its chain that starts at the item,
  because the loop \<^verbatim>\<open>LL_FOREACH (item, it)\<close> runs from the item to the end of its chain.
\<close>

type_synonym update = "universe \<Rightarrow> nat list \<Rightarrow> int \<Rightarrow> priority_update \<Rightarrow> universe option"

fun raise_chain :: "update \<Rightarrow> int \<Rightarrow> priority_update \<Rightarrow> nat list \<Rightarrow> universe \<Rightarrow> universe option" where
  "raise_chain rec p t [] u = Some u"
| "raise_chain rec p t (c # cs) u =
     (if prio u c < p then (case rec u (c # cs) p t of None \<Rightarrow> None | Some u' \<Rightarrow> raise_chain rec p t cs u')
      else raise_chain rec p t cs u)"

fun raise_deps :: "update \<Rightarrow> int \<Rightarrow> priority_update \<Rightarrow> pkg_dep list \<Rightarrow> universe \<Rightarrow> universe option" where
  "raise_deps rec p t [] u = Some u"
| "raise_deps rec p t (d # ds) u =
     (case pkg_jobs_universe_find u (dep_uid d) of
        None \<Rightarrow> raise_deps rec p t ds u
      | Some c \<Rightarrow> (case raise_chain rec p t c u of None \<Rightarrow> None | Some u' \<Rightarrow> raise_deps rec p t ds u'))"

text \<open>The priority that the packages depending on the item ask for.\<close>

definition max_over_chain :: "universe \<Rightarrow> int \<Rightarrow> nat list \<Rightarrow> int" where
  "max_over_chain u m c = foldl (\<lambda>m cur. if prio u cur \<ge> m then prio u cur + 1 else m) m c"

definition max_over_deps :: "universe \<Rightarrow> int \<Rightarrow> pkg_dep list \<Rightarrow> int" where
  "max_over_deps u m ds =
     foldl (\<lambda>m d. case pkg_jobs_universe_find u (dep_uid d) of None \<Rightarrow> m | Some c \<Rightarrow> max_over_chain u m c) m ds"

fun raise_conflict_chain :: "update \<Rightarrow> nat \<Rightarrow> nat list \<Rightarrow> universe \<Rightarrow> universe option" where
  "raise_conflict_chain rec it [] u = Some u"
| "raise_conflict_chain rec it (c # cs) u =
     (if installed (item_pkg u c) \<and> prio u c \<le> prio u it
      then (case rec u (c # cs) (prio u it + 1) Update_conflict of None \<Rightarrow> None | Some u' \<Rightarrow> raise_conflict_chain rec it cs u')
      else raise_conflict_chain rec it cs u)"

fun raise_conflicts :: "update \<Rightarrow> nat \<Rightarrow> pkg_conflict list \<Rightarrow> universe \<Rightarrow> universe option" where
  "raise_conflicts rec it [] u = Some u"
| "raise_conflicts rec it (x # xs) u =
     (case pkg_jobs_universe_find u (conflict_uid x) of
        None \<Rightarrow> raise_conflicts rec it xs u
      | Some c \<Rightarrow> (case raise_conflict_chain rec it c u of None \<Rightarrow> None | Some u' \<Rightarrow> raise_conflicts rec it xs u'))"

text \<open>
  The loop over the chain. \<^verbatim>\<open>item->prev\<close> is never NULL in a doubly linked list of the library, so
  the test for other members of the chain always succeeds.
\<close>

fun update_chain :: "update \<Rightarrow> int \<Rightarrow> priority_update \<Rightarrow> nat list \<Rightarrow> universe \<Rightarrow> universe option" where
  "update_chain rec p t [] u = Some u"
| "update_chain rec p t (it # its) u =
     (if \<not> installed (item_pkg u it) \<and> (t = Update_conflict \<or> t = Update_delete) then update_chain rec p t its u
      else if prio u it > p then update_chain rec p t its u
      else
        (let pk = item_pkg u it;
             ds = (if t = Update_delete then pkg_rdepends pk else pkg_depends pk);
             rs = (if t = Update_delete then pkg_depends pk else pkg_rdepends pk)
         in case raise_deps rec (p + 1) t ds (set_prio it p u) of
              None \<Rightarrow> None
            | Some u1 \<Rightarrow>
                (let m = max_over_deps u1 p rs in
                 if m \<noteq> p then rec u1 (it # its) m t
                 else if installed (item_pkg u1 it) then update_chain rec p t its u1
                 else (case raise_conflicts rec it (pkg_conflicts pk) u1 of
                         None \<Rightarrow> None | Some u2 \<Rightarrow> update_chain rec p t its u2))))"

fun pkg_jobs_update_universe_item_priority :: "nat \<Rightarrow> update" where
  "pkg_jobs_update_universe_item_priority 0 u its p t = None"
| "pkg_jobs_update_universe_item_priority (Suc n) u its p t =
     (if p > RECURSION_LIMIT then Some u
      else update_chain (pkg_jobs_update_universe_item_priority n) p t its u)"

text \<open>The part of its chain that starts at an item.\<close>

definition pkg_jobs_update_universe_priority :: "nat \<Rightarrow> universe \<Rightarrow> nat \<Rightarrow> priority_update \<Rightarrow> universe option" where
  "pkg_jobs_update_universe_priority n u i t = pkg_jobs_update_universe_item_priority n u (chain_from u i) 0 t"

text \<open>
  \<open>pkg_jobs_update_conflict_priority\<close> on the two items of a solved request, the remote and the
  local one. A conflict outside the universe, or without a remote package, is an assertion.
\<close>

fun update_conflicts :: "nat \<Rightarrow> nat \<Rightarrow> nat \<Rightarrow> pkg_conflict list \<Rightarrow> universe \<Rightarrow> universe option" where
  "update_conflicts n i0 i1 [] u = Some u"
| "update_conflicts n i0 i1 (x # xs) u =
     (case pkg_jobs_universe_find u (conflict_uid x) of
        None \<Rightarrow> None
      | Some c \<Rightarrow>
          (case find (\<lambda>i. \<not> installed (item_pkg u i)) c of
             None \<Rightarrow> None
           | Some r \<Rightarrow>
               if prio u r \<ge> prio u i1 then
                 (case pkg_jobs_update_universe_item_priority n u (chain_from u i1) (prio u r + 1) Update_conflict of
                    None \<Rightarrow> None
                  | Some u1 \<Rightarrow>
                      (case pkg_jobs_update_universe_item_priority n u1 (chain_from u1 i0) (prio u1 i0) Update_request of
                         None \<Rightarrow> None
                       | Some u2 \<Rightarrow> update_conflicts n i0 i1 xs u2))
               else update_conflicts n i0 i1 xs u))"

definition pkg_jobs_update_conflict_priority :: "nat \<Rightarrow> universe \<Rightarrow> nat \<Rightarrow> nat \<Rightarrow> universe option" where
  "pkg_jobs_update_conflict_priority n u i0 i1 = update_conflicts n i0 i1 (pkg_conflicts (item_pkg u i1)) u"

section \<open>What an update changes\<close>

text \<open>Only priorities change; they only grow, and to at most the limit.\<close>

definition raised :: "universe \<Rightarrow> universe \<Rightarrow> bool" where
  "raised u v \<longleftrightarrow> length (u_items v) = length (u_items u) \<and> u_chains v = u_chains u \<and> u_seen v = u_seen u \<and>
     u_provides v = u_provides u \<and> u_nitems v = u_nitems u \<and>
     (\<forall>i < length (u_items u). item_pkg v i = item_pkg u i \<and> ui_processed (u_items v ! i) = ui_processed (u_items u ! i) \<and>
        prio u i \<le> prio v i \<and> (prio v i = prio u i \<or> prio v i \<le> RECURSION_LIMIT))"

lemma raised_refl [simp]: "raised u u"
  by (simp add: raised_def)

lemma raised_trans: "raised u v \<Longrightarrow> raised v w \<Longrightarrow> raised u w"
  by (auto simp: raised_def) (metis order_trans)+

lemma raised_prio: "raised u v \<Longrightarrow> i < length (u_items u) \<Longrightarrow> prio u i \<le> prio v i"
  by (simp add: raised_def)

definition ids_ok :: "universe \<Rightarrow> nat list \<Rightarrow> bool" where
  "ids_ok u c \<longleftrightarrow> (\<forall>i \<in> set c. i < length (u_items u))"

definition chains_ok :: "universe \<Rightarrow> bool" where
  "chains_ok u \<longleftrightarrow> (\<forall>uid c. pkg_jobs_universe_find u uid = Some c \<longrightarrow> ids_ok u c)"

lemma universe_chains_ok: "universe_ok K u \<Longrightarrow> chains_ok u"
  by (auto simp: chains_ok_def ids_ok_def pkg_jobs_universe_find_def universe_ok_def uid_ids_def split: if_splits)

lemma raised_ok: "raised u v \<Longrightarrow> ids_ok v c = ids_ok u c" "raised u v \<Longrightarrow> chains_ok v = chains_ok u"
  by (simp_all add: raised_def ids_ok_def chains_ok_def pkg_jobs_universe_find_def)

lemma raised_set_prio:
  "i < length (u_items u) \<Longrightarrow> prio u i \<le> p \<Longrightarrow> p \<le> RECURSION_LIMIT \<Longrightarrow> raised u (set_prio i p u)"
  by (auto simp: raised_def set_prio_def item_pkg_def prio_def nth_list_update)

lemma length_set_prio [simp]: "length (u_items (set_prio i p u)) = length (u_items u)"
  by (simp add: set_prio_def)

lemma prio_set_prio [simp]: "i < length (u_items u) \<Longrightarrow> prio (set_prio i p u) i = p"
  by (simp add: prio_def set_prio_def)

text \<open>What a recursive call from the priority \<open>q\<close> on must do.\<close>

definition update_ok :: "int \<Rightarrow> update \<Rightarrow> bool" where
  "update_ok q rec \<longleftrightarrow> (\<forall>u its p t. chains_ok u \<longrightarrow> ids_ok u its \<longrightarrow> q \<le> p \<longrightarrow> (\<exists>v. rec u its p t = Some v \<and> raised u v))"

lemma update_okE:
  assumes "update_ok q rec" "chains_ok u" "ids_ok u its" "q \<le> p"
  obtains v where "rec u its p t = Some v" "raised u v"
  using assms unfolding update_ok_def by blast

lemma raise_chain_ok:
  "update_ok q rec \<Longrightarrow> q \<le> p \<Longrightarrow> chains_ok u \<Longrightarrow> ids_ok u c \<Longrightarrow> \<exists>v. raise_chain rec p t c u = Some v \<and> raised u v"
proof (induction c arbitrary: u)
  case (Cons i c)
  have c: "ids_ok u c" using Cons.prems(4) by (simp add: ids_ok_def)
  show ?case
  proof (cases "prio u i < p")
    case True
    obtain v where v: "rec u (i # c) p t = Some v" "raised u v"
      using update_okE [OF Cons.prems(1,3,4,2)] .
    from Cons.IH [of v] Cons.prems(1-3) c v(2) obtain w where "raise_chain rec p t c v = Some w" "raised v w"
      by (auto simp: raised_ok)
    then show ?thesis using True v raised_trans by auto
  next
    case False
    then show ?thesis using Cons.IH [of u] Cons.prems c by simp
  qed
qed simp

lemma raise_deps_ok:
  "update_ok q rec \<Longrightarrow> q \<le> p \<Longrightarrow> chains_ok u \<Longrightarrow> \<exists>v. raise_deps rec p t ds u = Some v \<and> raised u v"
proof (induction ds arbitrary: u)
  case (Cons d ds)
  show ?case
  proof (cases "pkg_jobs_universe_find u (dep_uid d)")
    case (Some c)
    then obtain v where v: "raise_chain rec p t c u = Some v" "raised u v"
      using raise_chain_ok [OF Cons.prems, of c t] Cons.prems(3) by (auto simp: chains_ok_def)
    from Cons.IH [of v] Cons.prems v(2) obtain w where "raise_deps rec p t ds v = Some w" "raised v w"
      by (auto simp: raised_ok)
    then show ?thesis using Some v raised_trans by auto
  qed (use Cons in simp)
qed simp

lemma raise_conflict_chain_ok:
  "update_ok q rec \<Longrightarrow> q \<le> prio u it + 1 \<Longrightarrow> it < length (u_items u) \<Longrightarrow> chains_ok u \<Longrightarrow> ids_ok u c \<Longrightarrow>
    \<exists>v. raise_conflict_chain rec it c u = Some v \<and> raised u v"
proof (induction c arbitrary: u)
  case (Cons i c)
  have c: "ids_ok u c" using Cons.prems(5) by (simp add: ids_ok_def)
  show ?case
  proof (cases "installed (item_pkg u i) \<and> prio u i \<le> prio u it")
    case True
    obtain v where v: "rec u (i # c) (prio u it + 1) Update_conflict = Some v" "raised u v"
      using update_okE [OF Cons.prems(1,4,5,2)] .
    have "q \<le> prio v it + 1" "it < length (u_items v)"
      using raised_prio [OF v(2) Cons.prems(3)] Cons.prems(2,3) v(2) by (auto simp: raised_def)
    from Cons.IH [OF Cons.prems(1) this] Cons.prems(4) c v(2) obtain w where
      "raise_conflict_chain rec it c v = Some w" "raised v w" by (auto simp: raised_ok)
    then show ?thesis using True v raised_trans by auto
  next
    case False
    then show ?thesis using Cons.IH [of u] Cons.prems c by auto
  qed
qed simp

lemma raise_conflicts_ok:
  "update_ok q rec \<Longrightarrow> q \<le> prio u it + 1 \<Longrightarrow> it < length (u_items u) \<Longrightarrow> chains_ok u \<Longrightarrow>
    \<exists>v. raise_conflicts rec it xs u = Some v \<and> raised u v"
proof (induction xs arbitrary: u)
  case (Cons x xs)
  show ?case
  proof (cases "pkg_jobs_universe_find u (conflict_uid x)")
    case (Some c)
    then obtain v where v: "raise_conflict_chain rec it c u = Some v" "raised u v"
      using raise_conflict_chain_ok [OF Cons.prems, of c] Cons.prems(4) by (auto simp: chains_ok_def)
    have "q \<le> prio v it + 1" "it < length (u_items v)"
      using raised_prio [OF v(2) Cons.prems(3)] Cons.prems(2,3) v(2) by (auto simp: raised_def)
    from Cons.IH [OF Cons.prems(1) this] Cons.prems(4) v(2) obtain w where
      "raise_conflicts rec it xs v = Some w" "raised v w" by (auto simp: raised_ok)
    then show ?thesis using Some v raised_trans by auto
  qed (use Cons in simp)
qed simp

lemma max_over_chain_ge: "m \<le> max_over_chain u m c"
  unfolding max_over_chain_def
proof (induction c arbitrary: m)
  case (Cons i c)
  show ?case using Cons [of "if prio u i \<ge> m then prio u i + 1 else m"] by (simp split: if_splits)
qed simp

lemma max_over_deps_ge: "m \<le> max_over_deps u m ds"
  unfolding max_over_deps_def
proof (induction ds arbitrary: m)
  case (Cons d ds)
  let ?m = "case pkg_jobs_universe_find u (dep_uid d) of None \<Rightarrow> m | Some c \<Rightarrow> max_over_chain u m c"
  have "m \<le> ?m" using max_over_chain_ge by (simp split: option.split)
  then show ?case using Cons [of ?m] by simp
qed simp

lemma update_chain_ok:
  assumes rec: "update_ok (p + 1) rec" and p: "p \<le> RECURSION_LIMIT"
  shows "chains_ok u \<Longrightarrow> ids_ok u its \<Longrightarrow> \<exists>v. update_chain rec p t its u = Some v \<and> raised u v"
proof (induction its arbitrary: u)
  case (Cons it its)
  have it: "it < length (u_items u)" and its: "ids_ok u its" using Cons.prems(2) by (simp_all add: ids_ok_def)
  show ?case
  proof (cases "\<not> installed (item_pkg u it) \<and> (t = Update_conflict \<or> t = Update_delete) \<or> prio u it > p")
    case True
    then show ?thesis using Cons.IH [OF Cons.prems(1) its] by auto
  next
    case False
    let ?u = "set_prio it p u" and ?pk = "item_pkg u it"
    let ?ds = "if t = Update_delete then pkg_rdepends ?pk else pkg_depends ?pk"
    let ?rs = "if t = Update_delete then pkg_depends ?pk else pkg_rdepends ?pk"
    have r0: "raised u ?u" using False it p by (intro raised_set_prio) auto
    then have "chains_ok ?u" using Cons.prems(1) by (simp add: raised_ok)
    from raise_deps_ok [OF rec order_refl this, of t ?ds] obtain u1 where
      u1: "raise_deps rec (p + 1) t ?ds ?u = Some u1" "raised ?u u1" by blast
    have r1: "raised u u1" using raised_trans [OF r0 u1(2)] .
    have ok1: "chains_ok u1" "ids_ok u1 (it # its)" "ids_ok u1 its" "it < length (u_items u1)"
      using r1 Cons.prems its it by (simp_all add: raised_ok) (simp add: raised_def)
    have pu1: "p \<le> prio u1 it" using raised_prio [OF u1(2), of it] it by simp
    let ?m = "max_over_deps u1 p ?rs"
    show ?thesis
    proof (cases "?m = p")
      case False: False
      then have "p + 1 \<le> ?m" using max_over_deps_ge [of p u1 ?rs] by simp
      from update_okE [OF rec ok1(1,2) this] obtain v where "rec u1 (it # its) ?m t = Some v" "raised u1 v" .
      then show ?thesis
        using \<open>\<not> (\<not> installed (item_pkg u it) \<and> (t = Update_conflict \<or> t = Update_delete) \<or> prio u it > p)\<close>
          u1(1) False raised_trans [OF r1] by (auto simp: Let_def)
    next
      case m: True
      from raise_conflicts_ok [OF rec _ ok1(4,1), where xs = "pkg_conflicts ?pk"] pu1 obtain u2 where
        u2: "raise_conflicts rec it (pkg_conflicts ?pk) u1 = Some u2" "raised u1 u2" by auto
      have "chains_ok u2" "ids_ok u2 its" using u2(2) ok1 by (simp_all add: raised_ok)
      from Cons.IH [OF this] Cons.IH [OF ok1(1,3)] show ?thesis
        using False u1(1) m u2 raised_trans [OF r1] raised_trans [OF raised_trans [OF r1 u2(2)]] by (auto simp: Let_def)
    qed
  qed
qed simp

lemma update_item_priority_ok:
  "update_ok (RECURSION_LIMIT + 2 - int n) (pkg_jobs_update_universe_item_priority n)
    \<or> n = 0"
proof (induction n)
  case (Suc n)
  show ?case
    unfolding update_ok_def
  proof (intro disjI1 allI impI)
    fix u its p t assume u: "chains_ok u" "ids_ok u its" and p: "RECURSION_LIMIT + 2 - int (Suc n) \<le> p"
    show "\<exists>v. pkg_jobs_update_universe_item_priority (Suc n) u its p t = Some v \<and> raised u v"
    proof (cases "p > RECURSION_LIMIT")
      case False
      then have "n \<noteq> 0" using p by auto
      then have "update_ok (RECURSION_LIMIT + 2 - int n) (pkg_jobs_update_universe_item_priority n)" using Suc by simp
      then have "update_ok (p + 1) (pkg_jobs_update_universe_item_priority n)"
        using p unfolding update_ok_def by force
      then show ?thesis using update_chain_ok [OF _ _ u, of p _ t] False by simp
    qed simp
  qed
qed simp

section \<open>Properties\<close>

text \<open>C15. An update of priorities returns, with a recursion at most two deeper than the limit, on every
  universe and also when the dependencies are circular. It changes nothing but priorities,
  raises them only, and sets none above the limit.\<close>

theorem update_priority_returns:
  assumes "universe_ok K u" "i < length (u_items u)"
  shows "\<exists>v. pkg_jobs_update_universe_priority 1026 u i t = Some v \<and> raised u v"
proof -
  have "ids_ok u (chain_from u i)" using chain_from_eq [OF assms] by (simp add: ids_ok_def)
  then show ?thesis
    using update_item_priority_ok [of 1026] universe_chains_ok [OF assms(1)]
    unfolding pkg_jobs_update_universe_priority_def update_ok_def RECURSION_LIMIT_def by force
qed

text \<open>The circle of the two sample packages, both in the universe.\<close>

definition circle :: universe where
  "circle = add_item (add_item pkg_jobs_universe_new zsh ''2$2$zsh5'') pcre ''2$2$pcre8''"

lemma circle_ok: "universe_ok sample_ids circle"
proof -
  have "universe_ok sample_ids (add_item pkg_jobs_universe_new zsh ''2$2$zsh5'')"
    by (rule universe_ok_add_item [OF universe_ok_new sample_admissible(1)])
      (simp_all add: zsh_def repo_pkg_def pkg_jobs_universe_new_def)
  then show ?thesis
    unfolding circle_def
    by (rule universe_ok_add_item [OF _ sample_admissible(2)])
      (auto simp: pcre_def repo_pkg_def pkg_jobs_universe_new_def item_pkg_add_item pkg_key_def zsh_def)
qed

theorem update_priority_returns_witness:
  "\<exists>v. pkg_jobs_update_universe_priority 1026 circle 0 Update_request = Some v \<and> raised circle v"
  by (rule update_priority_returns [OF circle_ok]) (simp add: circle_def)

end
