(* ===== verification/Jobs_Flags.thy ===== *)
theory Jobs_Flags
  imports Jobs_Delete Solver_Jobs Priority
begin

text \<open>
  What \<^verbatim>\<open>libpkg/pkg_jobs.c\<close> and \<^verbatim>\<open>pkg_jobs_universe.c\<close> decide about a collected universe before and
  after it is solved: which of several candidates a request keeps, which packages count as
  automatic, and why a package is deleted.
\<close>

section \<open>Upgrade chains\<close>

text \<open>
  What else the job holds: its repositories and whether it is conservative, pins repositories or is
  forced.
\<close>

record chain_env =
  ce_repos :: repo_find
  ce_conservative :: bool
  ce_pinning :: bool
  ce_force :: bool

text \<open>The last installed package of a chain, and the request without the candidates not selected.\<close>

definition chain_local :: "universe \<Rightarrow> nat list \<Rightarrow> nat option" where
  "chain_local u c = foldl (\<lambda>l cur. if installed (item_pkg u cur) then Some cur else l) None c"

definition keep_selected :: "nat list \<Rightarrow> nat \<Rightarrow> job_request \<Rightarrow> job_request" where
  "keep_selected c sel req =
     (let its = filter (\<lambda>i. \<not> (i \<in> set c \<and> i \<noteq> sel)) (rq_items req)
      in req\<lparr>rq_items := if its = [] then [sel] else its\<rparr>)"

text \<open>
  One chain. \<open>None\<close> is a null pointer: the message about a locked package reads the cursor behind
  the end of the chain, and \<^verbatim>\<open>strcmp\<close> wants both digests.
\<close>

definition upgrade_chain :: "chain_env \<Rightarrow> universe \<Rightarrow> string \<Rightarrow> nat list \<Rightarrow> requests \<Rightarrow> requests option" where
  "upgrade_chain env u uid c reqs =
     (case find_request reqs uid of
        None \<Rightarrow> Some reqs
      | Some req \<Rightarrow>
          (let local = chain_local u c in
           if (case local of None \<Rightarrow> False | Some l \<Rightarrow> pkg_locked (item_pkg u l)) then None
           else if length c \<le> 1 then Some reqs
           else if local = None \<or> length c > 2 then
             (let sel = pkg_jobs_universe_select_candidate (ce_repos env) (item_pkg u) c local (ce_conservative env) None (ce_pinning env);
                moved = delete_request uid reqs @ [(pkg_uid (item_pkg u sel), keep_selected c sel req)]
              in case local of
                   None \<Rightarrow> Some moved
                 | Some l \<Rightarrow>
                     (case (pkg_digest (item_pkg u l), pkg_digest (item_pkg u sel)) of
                        (Some d, Some e) \<Rightarrow> Some (if d = e \<and> \<not> ce_force env then delete_request uid reqs else moved)
                      | _ \<Rightarrow> None))
           else Some reqs))"

definition pkg_jobs_universe_process_upgrade_chains :: "chain_env \<Rightarrow> universe \<Rightarrow> requests \<Rightarrow> requests option" where
  "pkg_jobs_universe_process_upgrade_chains env u reqs =
     fold_option (\<lambda>(uid, c). upgrade_chain env u (pkg_uid (item_pkg u (hd c))) c) (u_chains u) reqs"

section \<open>Automatic packages\<close>

definition set_automatic :: "bool \<Rightarrow> nat \<Rightarrow> universe \<Rightarrow> universe" where
  "set_automatic b i u =
     u\<lparr>u_items := (u_items u)[i := (u_items u ! i)\<lparr>ui_pkg := (item_pkg u i)\<lparr>pkg_automatic := b\<rparr>\<rparr>]\<rparr>"

definition not_obviously_requested :: "requests \<Rightarrow> string \<Rightarrow> bool" where
  "not_obviously_requested reqs uid \<longleftrightarrow> (case find_request reqs uid of None \<Rightarrow> True | Some req \<Rightarrow> rq_automatic req)"

definition propagate_chain :: "pkg_jobs_type \<Rightarrow> requests \<Rightarrow> nat list \<Rightarrow> universe \<Rightarrow> universe" where
  "propagate_chain type reqs c u =
     (let unit = hd c; free = not_obviously_requested reqs (pkg_uid (item_pkg u unit)) in
      if tl c = [] then
        (if free \<and> \<not> installed (item_pkg u unit) then set_automatic True unit u
         else if type = PKG_JOBS_INSTALL then set_automatic False unit u
         else u)
      else (case find (\<lambda>i. installed (item_pkg u i)) c of
              Some local \<Rightarrow>
                fold (\<lambda>cur v. if installed (item_pkg v cur) then v else set_automatic (pkg_automatic (item_pkg u local)) cur v) c u
            | None \<Rightarrow> if free then fold (set_automatic True) c u else u))"

definition pkg_jobs_propagate_automatic :: "pkg_jobs_type \<Rightarrow> requests \<Rightarrow> universe \<Rightarrow> universe" where
  "pkg_jobs_propagate_automatic type reqs u = fold (\<lambda>(uid, c). propagate_chain type reqs c) (u_chains u) u"

section \<open>Reasons to delete\<close>

fun first_found :: "('a \<Rightarrow> 'b option) \<Rightarrow> 'a list \<Rightarrow> 'b option" where
  "first_found f [] = None"
| "first_found f (x # xs) = (case f x of None \<Rightarrow> first_found f xs | Some y \<Rightarrow> Some y)"

lemma first_found_cong [fundef_cong]:
  "xs = ys \<Longrightarrow> (\<And>x. x \<in> set ys \<Longrightarrow> f x = g x) \<Longrightarrow> first_found f xs = first_found g ys"
  by (induction xs arbitrary: ys) (auto split: option.split)

function pkg_jobs_find_deinstall_request :: "universe \<Rightarrow> requests \<Rightarrow> nat \<Rightarrow> nat \<Rightarrow> job_request option" where
  "pkg_jobs_find_deinstall_request u reqs i rec_level =
     (if rec_level > 128 then None
      else (case find_request reqs (pkg_uid (item_pkg u i)) of
              Some req \<Rightarrow> Some req
            | None \<Rightarrow>
                first_found (\<lambda>d. case pkg_jobs_universe_find u (dep_uid d) of
                    None \<Rightarrow> None
                  | Some c \<Rightarrow> pkg_jobs_find_deinstall_request u reqs (hd c) (rec_level + 1))
                  (pkg_depends (item_pkg u i))))"
  by pat_completeness auto
termination
  by (relation "measure (\<lambda>(u, reqs, i, rec_level). 129 - rec_level)") auto

declare pkg_jobs_find_deinstall_request.simps [simp del]

definition set_reason :: "string \<Rightarrow> nat \<Rightarrow> universe \<Rightarrow> universe" where
  "set_reason r i u =
     u\<lparr>u_items := (u_items u)[i := (u_items u ! i)\<lparr>ui_pkg := (item_pkg u i)\<lparr>pkg_reason := Some r\<rparr>\<rparr>]\<rparr>"

text \<open>The text of \<^verbatim>\<open>"depends on %n-%v"\<close>.\<close>

definition depends_on :: "pkg \<Rightarrow> string" where
  "depends_on p = ''depends on '' @ pkg_name p @ ''-'' @ pkg_version p"

definition deinstall_reason :: "requests \<Rightarrow> solved \<Rightarrow> universe \<Rightarrow> universe" where
  "deinstall_reason reqs s u =
     (case pkg_jobs_find_deinstall_request u reqs (sl_item s) 0 of
        None \<Rightarrow> u
      | Some req \<Rightarrow>
          if hd (rq_items req) \<noteq> sl_item s then set_reason (depends_on (item_pkg u (hd (rq_items req)))) (sl_item s) u else u)"

definition pkg_jobs_set_deinstall_reasons :: "requests \<Rightarrow> solved list \<Rightarrow> universe \<Rightarrow> universe" where
  "pkg_jobs_set_deinstall_reasons reqs js u = fold (deinstall_reason reqs) js u"

section \<open>What a request keeps\<close>

definition ambiguous :: "universe \<Rightarrow> nat list \<Rightarrow> bool" where
  "ambiguous u c \<longleftrightarrow> length c > 1 \<and> (chain_local u c = None \<or> length c > 2)"

definition selected_of :: "chain_env \<Rightarrow> universe \<Rightarrow> nat list \<Rightarrow> nat" where
  "selected_of env u c =
     pkg_jobs_universe_select_candidate (ce_repos env) (item_pkg u) c (chain_local u c) (ce_conservative env) None (ce_pinning env)"

text \<open>The installed package of the chain is the one selected, and reinstalling it was not forced.\<close>

definition up_to_date :: "chain_env \<Rightarrow> universe \<Rightarrow> nat list \<Rightarrow> bool" where
  "up_to_date env u c \<longleftrightarrow> \<not> ce_force env \<and>
     (case chain_local u c of None \<Rightarrow> False
      | Some l \<Rightarrow> pkg_digest (item_pkg u l) = pkg_digest (item_pkg u (selected_of env u c)))"

text \<open>What becomes of the request for the uid of a chain.\<close>

definition chain_request :: "chain_env \<Rightarrow> universe \<Rightarrow> nat list \<Rightarrow> job_request option \<Rightarrow> job_request option" where
  "chain_request env u c r =
     (case r of
        None \<Rightarrow> None
      | Some req \<Rightarrow>
          if \<not> ambiguous u c then Some req
          else if up_to_date env u c then None
          else Some (keep_selected c (selected_of env u c) req))"

lemma chain_local_member:
  "foldl (\<lambda>l cur. if installed (item_pkg u cur) then Some cur else l) s c = Some x \<Longrightarrow> s = Some x \<or> (x \<in> set c \<and> installed (item_pkg u x))"
proof (induction c arbitrary: s)
  case (Cons i c)
  then have "(if installed (item_pkg u i) then Some i else s) = Some x \<or> x \<in> set c \<and> installed (item_pkg u x)" by simp
  then show ?case by (auto split: if_splits)
qed simp

lemma chain_localD: "chain_local u c = Some x \<Longrightarrow> x \<in> set c \<and> installed (item_pkg u x)"
  using chain_local_member [of u None c x] by (simp add: chain_local_def)

lemma same_repo_member: "pkg_jobs_universe_select_same_repo repos pk c l r = Some x \<Longrightarrow> x \<in> set c"
  by (auto simp: pkg_jobs_universe_select_same_repo_def dest: find_SomeD split: option.splits)

lemma or_else_Some: "or_else a b = Some x \<longleftrightarrow> a = Some x \<or> (a = None \<and> b = Some x)"
  by (cases a) auto

lemma select_candidate_member:
  assumes "c \<noteq> []"
  shows "pkg_jobs_universe_select_candidate repos pk c l cons r pin \<in> set c"
proof -
  have "x \<in> set c" if "pkg_jobs_universe_select_max_ver pk c = Some x" for x
    using select_max_ver_Some(1) [OF that] by (simp add: remotes_def)
  then show ?thesis
    using assms same_repo_member [of repos pk c l r] select_max_prio_member [of repos pk c] hd_in_set [OF assms]
    by (auto simp: pkg_jobs_universe_select_candidate_def Let_def or_else_Some split: option.split if_splits)
qed

definition no_locked :: "universe \<Rightarrow> bool" where
  "no_locked u \<longleftrightarrow> (\<forall>i < length (u_items u). \<not> pkg_locked (item_pkg u i) \<and> pkg_digest (item_pkg u i) \<noteq> None)"

lemma chain_wfD:
  assumes "chains_wf u" "(uid, c) \<in> set (u_chains u)"
  shows "c \<noteq> []" "i \<in> set c \<Longrightarrow> i < length (u_items u)" "i \<in> set c \<Longrightarrow> pkg_uid (item_pkg u i) = uid"
proof -
  have "set c \<subseteq> set (concat (map snd (u_chains u)))" using assms(2) by force
  also have "\<dots> = {..<length (u_items u)}" using assms(1) unfolding chains_wf_def by blast
  finally show "i \<in> set c \<Longrightarrow> i < length (u_items u)" by auto
qed (use assms in \<open>auto simp: chains_wf_def\<close>)

definition digests_known :: "universe \<Rightarrow> bool" where
  "digests_known u \<longleftrightarrow> (\<forall>i < length (u_items u). pkg_digest (item_pkg u i) \<noteq> None)"

text \<open>The request for the uid of a chain whose installed package is locked follows a null pointer.\<close>

definition locked_request :: "universe \<Rightarrow> nat list \<Rightarrow> job_request option \<Rightarrow> bool" where
  "locked_request u c r \<longleftrightarrow> r \<noteq> None \<and> (\<exists>l. chain_local u c = Some l \<and> pkg_locked (item_pkg u l))"

lemma upgrade_chain_locked:
  assumes wf: "chains_wf u" "(uid, c) \<in> set (u_chains u)" and dg: "digests_known u"
  shows "upgrade_chain env u uid c reqs = None \<longleftrightarrow> locked_request u c (find_request reqs uid)"
proof -
  note c = chain_wfD [OF wf]
  have "selected_of env u c \<in> set c" using select_candidate_member [OF c(1)] by (simp add: selected_of_def)
  then have "\<exists>d. pkg_digest (item_pkg u (selected_of env u c)) = Some d" using dg c(2) by (auto simp: digests_known_def)
  moreover have "\<exists>d. pkg_digest (item_pkg u l) = Some d" if "chain_local u c = Some l" for l
    using dg c(2) chain_localD [OF that] by (auto simp: digests_known_def)
  ultimately show ?thesis
    by (auto simp: upgrade_chain_def locked_request_def selected_of_def Let_def split: option.splits if_splits)
qed

lemma upgrade_chain_some:
  assumes wf: "chains_wf u" "(uid, c) \<in> set (u_chains u)" and run: "upgrade_chain env u uid c reqs = Some reqs'"
  shows "find_request reqs' uid = chain_request env u c (find_request reqs uid) \<and>
    (\<forall>v. v \<noteq> uid \<longrightarrow> find_request reqs' v = find_request reqs v)"
proof (cases "find_request reqs uid")
  case None
  then show ?thesis using run by (simp add: upgrade_chain_def chain_request_def)
next
  case (Some req)
  note c = chain_wfD [OF wf]
  have sel: "selected_of env u c \<in> set c" using select_candidate_member [OF c(1)] by (simp add: selected_of_def)
  have m: "find_request (delete_request uid reqs @ [(uid, r)]) v = (if v = uid then Some r else find_request reqs v)" for r v
    using find_delete_request [of uid reqs v] by (auto simp: find_request_def map_add_def split: option.split)
  show ?thesis
    using run Some m c(3) [OF sel] find_delete_request [of uid reqs]
    by (cases "chain_local u c")
      (auto simp: upgrade_chain_def chain_request_def ambiguous_def up_to_date_def selected_of_def Let_def split: option.splits if_splits)
qed

lemma no_lockedD: "no_locked u \<Longrightarrow> digests_known u"
  by (simp add: no_locked_def digests_known_def)

lemma upgrade_chain_result:
  assumes wf: "chains_wf u" "(uid, c) \<in> set (u_chains u)" and nl: "no_locked u"
  shows "\<exists>reqs'. upgrade_chain env u uid c reqs = Some reqs' \<and> find_request reqs' uid = chain_request env u c (find_request reqs uid) \<and>
    (\<forall>v. v \<noteq> uid \<longrightarrow> find_request reqs' v = find_request reqs v)"
proof -
  have "\<not> locked_request u c r" for r
    using nl chain_wfD(2) [OF wf] by (auto simp: locked_request_def no_locked_def dest!: chain_localD)
  then obtain reqs' where "upgrade_chain env u uid c reqs = Some reqs'"
    using upgrade_chain_locked [OF wf no_lockedD [OF nl], of env reqs] by auto
  then show ?thesis using upgrade_chain_some [OF wf] by blast
qed

text \<open>All chains, one after the other; each only looks at the request of its own uid.\<close>

lemma upgrade_chains_fold:
  assumes wf: "chains_wf u" and dg: "digests_known u"
  shows "set cs \<subseteq> set (u_chains u) \<Longrightarrow> distinct (map fst cs) \<Longrightarrow>
    (case fold_option (\<lambda>(uid, c). upgrade_chain env u (pkg_uid (item_pkg u (hd c))) c) cs reqs of
       None \<Rightarrow> \<exists>(v, d) \<in> set cs. locked_request u d (find_request reqs v)
     | Some reqs' \<Rightarrow>
         (\<forall>(v, d) \<in> set cs. \<not> locked_request u d (find_request reqs v) \<and>
            find_request reqs' v = chain_request env u d (find_request reqs v)) \<and>
         (\<forall>v. v \<notin> fst ` set cs \<longrightarrow> find_request reqs' v = find_request reqs v))"
proof (induction cs arbitrary: reqs)
  case (Cons x cs)
  obtain v d where x: "x = (v, d)" by (cases x)
  then have vd: "(v, d) \<in> set (u_chains u)" using Cons.prems by simp
  have h: "pkg_uid (item_pkg u (hd d)) = v" using chain_wfD(3) [OF wf vd] chain_wfD(1) [OF wf vd] by simp
  have cs: "set cs \<subseteq> set (u_chains u)" "distinct (map fst cs)" "v \<notin> fst ` set cs" using Cons.prems x by auto
  show ?case
  proof (cases "upgrade_chain env u v d reqs")
    case None
    then show ?thesis using upgrade_chain_locked [OF wf vd dg, of env reqs] x h by simp
  next
    case (Some r)
    note r = upgrade_chain_some [OF wf vd Some]
    have nl: "\<not> locked_request u d (find_request reqs v)" using upgrade_chain_locked [OF wf vd dg, of env reqs] Some by simp
    have other: "find_request r w = find_request reqs w" if "(w, e) \<in> set cs" for w e
    proof -
      have "w \<noteq> v" using that cs(3) by force
      then show ?thesis using conjunct2 [OF r] by blast
    qed
    let ?rest = "fold_option (\<lambda>(uid, c). upgrade_chain env u (pkg_uid (item_pkg u (hd c))) c) cs r"
    have eq: "fold_option (\<lambda>(uid, c). upgrade_chain env u (pkg_uid (item_pkg u (hd c))) c) (x # cs) reqs = ?rest"
      using Some x h by simp
    show ?thesis
    proof (cases ?rest)
      case None
      then obtain w e where we: "(w, e) \<in> set cs" "locked_request u e (find_request r w)" using Cons.IH [OF cs(1,2), of r] by auto
      then have "locked_request u e (find_request reqs w)" using other by simp
      then show ?thesis unfolding eq None using we(1) by auto
    next
      case rest: (Some reqs')
      have ih: "\<forall>(w, e) \<in> set cs. \<not> locked_request u e (find_request r w) \<and> find_request reqs' w = chain_request env u e (find_request r w)"
        "\<forall>w. w \<notin> fst ` set cs \<longrightarrow> find_request reqs' w = find_request r w" using Cons.IH [OF cs(1,2), of r] unfolding rest by simp_all
      have "\<forall>(w, e) \<in> set cs. \<not> locked_request u e (find_request reqs w) \<and> find_request reqs' w = chain_request env u e (find_request reqs w)"
        using ih(1) other by auto
      moreover have "find_request reqs' v = chain_request env u d (find_request reqs v)" using ih(2) r cs(3) by simp
      moreover have "find_request reqs' w = find_request reqs w" if "w \<notin> fst ` set (x # cs)" for w using that ih(2) r x by simp
      ultimately show ?thesis unfolding eq rest option.case using nl x by auto
    qed
  qed
qed simp

section \<open>Which candidate is the selected one\<close>

definition last_installed :: "universe \<Rightarrow> nat list \<Rightarrow> nat option" where
  "last_installed u c =
     (let is = filter (\<lambda>i. installed (item_pkg u i)) c in if is = [] then None else Some (last is))"

text \<open>The repository that an installed package came from, and whether a candidate comes from it.\<close>

definition origin_repo :: "chain_env \<Rightarrow> pkg \<Rightarrow> string option" where
  "origin_repo env p = Option.bind (if pkg_reponame p = None then map_of (pkg_annotations p) ''repository'' else pkg_reponame p)
     (\<lambda>r. map_option rp_name (ce_repos env r))"

definition pinned :: "chain_env \<Rightarrow> universe \<Rightarrow> nat list \<Rightarrow> nat \<Rightarrow> bool" where
  "pinned env u c i \<longleftrightarrow> ce_pinning env \<and> i \<in> set c \<and> \<not> installed (item_pkg u i) \<and>
     (\<exists>l name r rp. last_installed u c = Some l \<and> origin_repo env (item_pkg u l) = Some name \<and>
        pkg_reponame (item_pkg u i) = Some r \<and> ce_repos env r = Some rp \<and> rp_name rp = name)"

definition candidate :: "universe \<Rightarrow> nat list \<Rightarrow> nat \<Rightarrow> bool" where
  "candidate u c i \<longleftrightarrow> i \<in> set c \<and> \<not> installed (item_pkg u i)"

text \<open>The priority of the repository of a candidate, 0 if it is not known.\<close>

definition rank_of :: "chain_env \<Rightarrow> universe \<Rightarrow> nat \<Rightarrow> nat" where
  "rank_of env u i = (case pkg_reponame (item_pkg u i) of None \<Rightarrow> 0
     | Some r \<Rightarrow> (case ce_repos env r of None \<Rightarrow> 0 | Some rp \<Rightarrow> rp_priority rp))"

definition newest :: "universe \<Rightarrow> nat list \<Rightarrow> nat \<Rightarrow> bool" where
  "newest u c s \<longleftrightarrow> candidate u c s \<and> (\<forall>i. candidate u c i \<longrightarrow> ver_cmp (item_pkg u) i s \<le> 0)"

definition top_ranked :: "chain_env \<Rightarrow> universe \<Rightarrow> nat list \<Rightarrow> nat \<Rightarrow> bool" where
  "top_ranked env u c s \<longleftrightarrow> candidate u c s \<and> (\<forall>i. candidate u c i \<longrightarrow> rank_of env u i \<le> rank_of env u s)"

definition versions_differ :: "universe \<Rightarrow> nat list \<Rightarrow> bool" where
  "versions_differ u c \<longleftrightarrow> (\<exists>i j. candidate u c i \<and> candidate u c j \<and> ver_cmp (item_pkg u) i j \<noteq> 0)"

definition ranks_known :: "chain_env \<Rightarrow> universe \<Rightarrow> nat list \<Rightarrow> bool" where
  "ranks_known env u c \<longleftrightarrow> (\<exists>i. candidate u c i \<and> rank_of env u i > 0)"

text \<open>
  A package of the pinned repository comes first; then the versions and the priorities decide, the
  priorities first in a conservative job; the head of the chain is taken if neither tells the
  candidates apart.
\<close>

definition preferred :: "chain_env \<Rightarrow> universe \<Rightarrow> nat list \<Rightarrow> nat \<Rightarrow> bool" where
  "preferred env u c s \<longleftrightarrow>
     (if \<exists>i. pinned env u c i then pinned env u c s
      else if ce_conservative env \<and> ranks_known env u c then top_ranked env u c s
      else if versions_differ u c then newest u c s
      else if ranks_known env u c then top_ranked env u c s
      else s = hd c)"

lemma chain_local_last: "chain_local u c = last_installed u c"
proof -
  have "foldl (\<lambda>l cur. if installed (item_pkg u cur) then Some cur else l) l c =
      (if filter (\<lambda>i. installed (item_pkg u i)) c = [] then l else Some (last (filter (\<lambda>i. installed (item_pkg u i)) c)))" for l
    by (induction c arbitrary: l) auto
  then show ?thesis by (simp add: chain_local_def last_installed_def Let_def)
qed

lemma origin_local_repo: "origin_repo env (item_pkg u l) = map_option rp_name (local_repo (ce_repos env) (item_pkg u) (Some l) None)"
  by (simp add: origin_repo_def local_repo_def split: option.split)

lemma pinned_iff:
  assumes "ce_pinning env" "last_installed u c = Some l"
  shows "pinned env u c i \<longleftrightarrow> i \<in> set c \<and>
    (\<exists>lr. local_repo (ce_repos env) (item_pkg u) (Some l) None = Some lr \<and> from_repo (ce_repos env) (item_pkg u) lr i)"
  using assms
  by (cases "pkg_reponame (item_pkg u i)"; cases "ce_repos env (the (pkg_reponame (item_pkg u i)))")
    (auto simp: pinned_def origin_local_repo from_repo_def)

lemma pinned_found:
  assumes "ce_pinning env" "last_installed u c \<noteq> None"
  shows "case pkg_jobs_universe_select_same_repo (ce_repos env) (item_pkg u) c (last_installed u c) None of
       None \<Rightarrow> \<not> (\<exists>i. pinned env u c i) | Some s \<Rightarrow> pinned env u c s"
proof -
  obtain l where l: "last_installed u c = Some l" using assms(2) by blast
  note p = pinned_iff [OF assms(1) l]
  show ?thesis
  proof (cases "local_repo (ce_repos env) (item_pkg u) (Some l) None")
    case None
    then show ?thesis by (simp add: pkg_jobs_universe_select_same_repo_def l p)
  next
    case (Some lr)
    show ?thesis
    proof (cases "find (from_repo (ce_repos env) (item_pkg u) lr) c")
      case None
      then have "\<forall>x \<in> set c. \<not> from_repo (ce_repos env) (item_pkg u) lr x" by (simp add: find_None_iff)
      then have "\<not> (\<exists>i. pinned env u c i)" unfolding p using Some by auto
      then show ?thesis using None unfolding pkg_jobs_universe_select_same_repo_def l Some option.case by simp
    next
      case found: (Some s)
      then show ?thesis using Some find_SomeD [OF found] by (simp add: pkg_jobs_universe_select_same_repo_def l p)
    qed
  qed
qed

lemma max_ver_newest:
  "(case pkg_jobs_universe_select_max_ver (item_pkg u) c of
      None \<Rightarrow> \<not> versions_differ u c | Some s \<Rightarrow> versions_differ u c \<and> newest u c s)"
proof (cases "pkg_jobs_universe_select_max_ver (item_pkg u) c")
  case None
  then show ?thesis using select_max_ver_None [OF None] by (auto simp: versions_differ_def candidate_def remotes_def)
next
  case (Some s)
  from select_max_ver_Some [OF Some] have s: "candidate u c s" "\<forall>i. candidate u c i \<longrightarrow> ver_cmp (item_pkg u) i s \<le> 0"
    "\<exists>i. candidate u c i \<and> ver_cmp (item_pkg u) i s < 0" by (auto simp: candidate_def remotes_def)
  then have "versions_differ u c" unfolding versions_differ_def by (metis less_irrefl)
  then show ?thesis using Some s(1,2) by (simp add: newest_def)
qed

lemma max_prio_top:
  "(case pkg_jobs_universe_select_max_prio (ce_repos env) (item_pkg u) c of
      None \<Rightarrow> \<not> ranks_known env u c | Some s \<Rightarrow> ranks_known env u c \<and> top_ranked env u c s)"
proof -
  let ?ok = "\<lambda>xs st. case fst st of None \<Rightarrow> snd st = 0 \<and> (\<forall>i. candidate u xs i \<longrightarrow> rank_of env u i = 0)
    | Some s \<Rightarrow> candidate u xs s \<and> rank_of env u s = snd st \<and> snd st > 0 \<and> (\<forall>i. candidate u xs i \<longrightarrow> rank_of env u i \<le> snd st)"
  have step: "?ok (xs @ [x]) (max_prio_step (ce_repos env) (item_pkg u) st x)" if "?ok xs st" for xs st x
    using that by (cases st) (auto simp: max_prio_step_def candidate_def rank_of_def pkg_priority_def split: option.splits)
  have "?ok (xs @ ys) (foldl (max_prio_step (ce_repos env) (item_pkg u)) st ys)" if "?ok xs st" for xs ys st
    using that
  proof (induction ys arbitrary: xs st)
    case (Cons y ys)
    from Cons.IH [OF step [OF Cons.prems, of y]] show ?case by (simp only: foldl.simps append_assoc append_Cons append_Nil)
  qed (simp only: foldl.simps append_Nil2)
  from this [where xs = "[]" and st = "(None, 0)" and ys = c] show ?thesis
    by (auto simp: pkg_jobs_universe_select_max_prio_def ranks_known_def top_ranked_def candidate_def split: option.splits)
qed

lemma selected_preferred: "preferred env u c (selected_of env u c)"
proof -
  let ?same = "pkg_jobs_universe_select_same_repo (ce_repos env) (item_pkg u) c (last_installed u c) None"
  let ?m = "if ce_pinning env \<and> last_installed u c \<noteq> None then ?same else None"
  have same: "case ?m of None \<Rightarrow> \<not> (\<exists>i. pinned env u c i) | Some s \<Rightarrow> pinned env u c s"
    using pinned_found [of env u c] by (auto simp: pinned_def)
  show ?thesis
    using same max_ver_newest [of u c] max_prio_top [of env u c]
    unfolding preferred_def selected_of_def chain_local_last pkg_jobs_universe_select_candidate_def Let_def
    by (cases ?m; cases "pkg_jobs_universe_select_max_ver (item_pkg u) c";
        cases "pkg_jobs_universe_select_max_prio (ce_repos env) (item_pkg u) c") auto
qed

text \<open>C27. Before a job is solved, its requests are cut down. That fails, by a null pointer, exactly when a
  package is requested whose installed version is locked. Otherwise a request keeps its items
  unless its uid has several candidates: more than one package and none of them installed, or more
  than two. Such a request is left with the preferred candidate alone, or it is dropped when that
  one has the digest of the installed package and reinstalling is not forced. Preferred is, with
  pinning, a package of the repository that the installed one came from; else
  the newest or, first of all in a conservative job, one of the repository of the highest priority;
  and the head of the chain, possibly the installed package itself, when the candidates differ in
  neither. The digests are known and the items of a request are items of the chain of its uid.
\<close>

theorem upgrade_chains_select:
  assumes "chains_wf u" "digests_known u"
  shows "case pkg_jobs_universe_process_upgrade_chains env u reqs of
      None \<Rightarrow> \<exists>(uid, c) \<in> set (u_chains u). find_request reqs uid \<noteq> None \<and>
        (\<exists>l. last_installed u c = Some l \<and> pkg_locked (item_pkg u l))
    | Some reqs' \<Rightarrow> \<forall>(uid, c) \<in> set (u_chains u). \<forall>req. find_request reqs uid = Some req \<longrightarrow>
        (\<forall>l. last_installed u c = Some l \<longrightarrow> \<not> pkg_locked (item_pkg u l)) \<and>
        (if length c \<le> (if last_installed u c = None then 1 else 2) then find_request reqs' uid = Some req
         else \<exists>s. preferred env u c s \<and> s \<in> set c \<and>
           (if \<not> ce_force env \<and> (\<exists>l. last_installed u c = Some l \<and> pkg_digest (item_pkg u l) = pkg_digest (item_pkg u s))
            then find_request reqs' uid = None
            else set (rq_items req) \<subseteq> set c \<longrightarrow> (\<exists>req'. find_request reqs' uid = Some req' \<and> set (rq_items req') = {s} \<and>
              rq_automatic req' = rq_automatic req)))"
proof -
  have d: "distinct (map fst (u_chains u))" using assms(1) by (simp add: chains_wf_def)
  have one: "if length c \<le> (if last_installed u c = None then 1 else 2) then r = Some req
      else \<exists>s. preferred env u c s \<and> s \<in> set c \<and>
        (if \<not> ce_force env \<and> (\<exists>l. last_installed u c = Some l \<and> pkg_digest (item_pkg u l) = pkg_digest (item_pkg u s))
         then r = None
         else set (rq_items req) \<subseteq> set c \<longrightarrow> (\<exists>req'. r = Some req' \<and> set (rq_items req') = {s} \<and>
           rq_automatic req' = rq_automatic req))"
    if "(uid, c) \<in> set (u_chains u)" "r = chain_request env u c (Some req)" for uid c req r
  proof (cases "length c \<le> (if last_installed u c = None then 1 else 2)")
    case True
    then show ?thesis using that(2) by (auto simp: chain_request_def ambiguous_def chain_local_last split: if_splits)
  next
    case False
    then have a: "ambiguous u c" by (auto simp: ambiguous_def chain_local_last split: if_splits)
    let ?s = "selected_of env u c"
    have s: "preferred env u c ?s" "?s \<in> set c"
      using selected_preferred select_candidate_member [OF chain_wfD(1) [OF assms(1) that(1)]] by (simp_all add: selected_of_def)
    have k: "set (rq_items (keep_selected c ?s req)) = {?s} \<and> rq_automatic (keep_selected c ?s req) = rq_automatic req"
      if "set (rq_items req) \<subseteq> set c"
      using that by (auto simp: keep_selected_def Let_def filter_empty_conv)
    have u: "up_to_date env u c \<longleftrightarrow> \<not> ce_force env \<and> (\<exists>l. last_installed u c = Some l \<and> pkg_digest (item_pkg u l) = pkg_digest (item_pkg u ?s))"
      by (auto simp: up_to_date_def chain_local_last split: option.splits)
    show ?thesis
    proof (cases "up_to_date env u c")
      case True
      then have "r = None" using that(2) a by (simp add: chain_request_def)
      then show ?thesis unfolding if_not_P [OF False] using True [unfolded u] s by (intro exI [of _ ?s]) simp
    next
      case no: False
      then have "r = Some (keep_selected c ?s req)" using that(2) a by (simp add: chain_request_def)
      then show ?thesis unfolding if_not_P [OF False] using s k no [unfolded u] by (intro exI [of _ ?s]) auto
    qed
  qed
  show ?thesis
  proof (cases "pkg_jobs_universe_process_upgrade_chains env u reqs")
    case None
    then show ?thesis
      using upgrade_chains_fold [where env = env and reqs = reqs, OF assms subset_refl d]
      unfolding pkg_jobs_universe_process_upgrade_chains_def locked_request_def chain_local_last by simp
  next
    case (Some reqs')
    then have "\<forall>(v, d) \<in> set (u_chains u). \<not> locked_request u d (find_request reqs v) \<and>
        find_request reqs' v = chain_request env u d (find_request reqs v)"
      using upgrade_chains_fold [where env = env and reqs = reqs, OF assms subset_refl d]
      unfolding pkg_jobs_universe_process_upgrade_chains_def by simp
    then have f: "(\<forall>l. last_installed u c = Some l \<longrightarrow> \<not> pkg_locked (item_pkg u l)) \<and>
        find_request reqs' uid = chain_request env u c (Some req)"
      if "(uid, c) \<in> set (u_chains u)" "find_request reqs uid = Some req" for uid c req
      using that unfolding locked_request_def chain_local_last by fastforce
    show ?thesis unfolding Some option.case using f one by blast
  qed
qed

text \<open>
  A request for a package whose installed version is locked would follow a null pointer in the
  message that it is dropped: the cursor has run off the end of the chain.
\<close>

lemma locked_request_crashes:
  "chain_local u c = Some l \<Longrightarrow> pkg_locked (item_pkg u l) \<Longrightarrow> find_request reqs uid \<noteq> None \<Longrightarrow> upgrade_chain env u uid c reqs = None"
  by (auto simp: upgrade_chain_def)

section \<open>Why a package is deleted\<close>

definition dep_item :: "universe \<Rightarrow> nat \<Rightarrow> nat \<Rightarrow> bool" where
  "dep_item u i j \<longleftrightarrow> (\<exists>d \<in> set (pkg_depends (item_pkg u i)). \<exists>c. pkg_jobs_universe_find u (dep_uid d) = Some c \<and> j = hd c)"

lemma first_found_None: "first_found f xs = None \<longleftrightarrow> (\<forall>x \<in> set xs. f x = None)"
  by (induction xs) (auto split: option.splits)

lemma first_found_Some: "first_found f xs = Some y \<Longrightarrow> \<exists>x \<in> set xs. f x = Some y"
  by (induction xs) (auto split: option.splits)

lemma find_deinstall_Some:
  "pkg_jobs_find_deinstall_request u reqs i lvl = Some req \<Longrightarrow>
    \<exists>n j. n + lvl \<le> 128 \<and> (dep_item u ^^ n) i j \<and> find_request reqs (pkg_uid (item_pkg u j)) = Some req"
proof (induction u reqs i lvl rule: pkg_jobs_find_deinstall_request.induct)
  case (1 u reqs i lvl)
  have lvl: "lvl \<le> 128" using 1(2) by (subst (asm) pkg_jobs_find_deinstall_request.simps) (simp split: if_splits)
  show ?case
  proof (cases "find_request reqs (pkg_uid (item_pkg u i))")
    case None
    then obtain d where d: "d \<in> set (pkg_depends (item_pkg u i))"
      "(case pkg_jobs_universe_find u (dep_uid d) of None \<Rightarrow> None
        | Some c \<Rightarrow> pkg_jobs_find_deinstall_request u reqs (hd c) (lvl + 1)) = Some req"
      using 1(2) lvl by (subst (asm) pkg_jobs_find_deinstall_request.simps) (auto dest!: first_found_Some)
    then obtain c where c: "pkg_jobs_universe_find u (dep_uid d) = Some c"
      "pkg_jobs_find_deinstall_request u reqs (hd c) (lvl + 1) = Some req" by (auto split: option.splits)
    from 1(1) [OF _ None d(1) c] lvl obtain n j where
      n: "n + (lvl + 1) \<le> 128" "(dep_item u ^^ n) (hd c) j" "find_request reqs (pkg_uid (item_pkg u j)) = Some req" by auto
    have "dep_item u i (hd c)" using d(1) c(1) unfolding dep_item_def by blast
    then have "(dep_item u ^^ Suc n) i j" using n(2) by (rule relpowp_Suc_I2)
    then show ?thesis using n by (intro exI [of _ "Suc n"] exI [of _ j]) simp
  next
    case (Some r)
    then have "r = req" using 1(2) lvl by (subst (asm) pkg_jobs_find_deinstall_request.simps) simp
    then show ?thesis using Some lvl by (intro exI [of _ 0] exI [of _ i]) simp
  qed
qed

lemma find_deinstall_complete:
  "(dep_item u ^^ n) i j \<Longrightarrow> n + lvl \<le> 128 \<Longrightarrow> find_request reqs (pkg_uid (item_pkg u j)) \<noteq> None \<Longrightarrow>
    pkg_jobs_find_deinstall_request u reqs i lvl \<noteq> None"
proof (induction n arbitrary: i lvl)
  case 0
  then show ?case by (subst pkg_jobs_find_deinstall_request.simps) auto
next
  case (Suc n)
  from relpowp_Suc_D2 [OF Suc.prems(1)] obtain i' where i': "dep_item u i i'" "(dep_item u ^^ n) i' j" by blast
  then obtain d c where d: "d \<in> set (pkg_depends (item_pkg u i))" "pkg_jobs_universe_find u (dep_uid d) = Some c" "i' = hd c"
    unfolding dep_item_def by blast
  have r: "pkg_jobs_find_deinstall_request u reqs (hd c) (lvl + 1) \<noteq> None"
    using Suc.IH [OF i'(2), of "lvl + 1"] Suc.prems(2,3) d(3) by simp
  let ?f = "\<lambda>d. case pkg_jobs_universe_find u (dep_uid d) of None \<Rightarrow> None
      | Some c \<Rightarrow> pkg_jobs_find_deinstall_request u reqs (hd c) (lvl + 1)"
  have "first_found ?f (pkg_depends (item_pkg u i)) \<noteq> None"
    using r d unfolding first_found_None by fastforce
  then show ?case using Suc.prems(2) by (subst pkg_jobs_find_deinstall_request.simps) (simp split: option.split)
qed

lemma item_pkg_set_reason:
  "item_pkg (set_reason r i u) j = (if i = j \<and> i < length (u_items u) then (item_pkg u j)\<lparr>pkg_reason := Some r\<rparr> else item_pkg u j)"
  by (cases "i < length (u_items u)") (auto simp: item_pkg_def set_reason_def nth_list_update list_update_beyond not_less)

lemma set_reason_find [simp]: "pkg_jobs_universe_find (set_reason r i u) = pkg_jobs_universe_find u"
  by (simp add: fun_eq_iff pkg_jobs_universe_find_def set_reason_def)

lemma set_reason_fields [simp]:
  "pkg_uid (item_pkg (set_reason r i u) j) = pkg_uid (item_pkg u j)"
  "pkg_depends (item_pkg (set_reason r i u) j) = pkg_depends (item_pkg u j)"
  "pkg_name (item_pkg (set_reason r i u) j) = pkg_name (item_pkg u j)"
  "pkg_version (item_pkg (set_reason r i u) j) = pkg_version (item_pkg u j)"
  "length (u_items (set_reason r i u)) = length (u_items u)"
  by (simp_all add: item_pkg_set_reason) (simp add: set_reason_def)

lemma find_deinstall_set_reason:
  "pkg_jobs_find_deinstall_request (set_reason r j u) reqs i lvl = pkg_jobs_find_deinstall_request u reqs i lvl"
proof (induction u reqs i lvl rule: pkg_jobs_find_deinstall_request.induct)
  case (1 u reqs i lvl)
  show ?case
    using 1 by (subst (1 2) pkg_jobs_find_deinstall_request.simps)
      (auto intro!: first_found_cong split: option.split)
qed

text \<open>The reason that a search gives for deleting an item.\<close>

definition reason_of :: "universe \<Rightarrow> requests \<Rightarrow> nat \<Rightarrow> string option" where
  "reason_of u reqs i =
     (case pkg_jobs_find_deinstall_request u reqs i 0 of
        None \<Rightarrow> None
      | Some req \<Rightarrow> if hd (rq_items req) \<noteq> i then Some (depends_on (item_pkg u (hd (rq_items req)))) else None)"

lemma deinstall_reason_eq:
  "deinstall_reason reqs s u = (case reason_of u reqs (sl_item s) of None \<Rightarrow> u | Some r \<Rightarrow> set_reason r (sl_item s) u)"
  by (simp add: deinstall_reason_def reason_of_def split: option.split)

lemma reason_of_set_reason: "reason_of (set_reason r j u) reqs i = reason_of u reqs i"
  by (simp add: reason_of_def find_deinstall_set_reason depends_on_def split: option.split)

lemma set_reasons_result:
  "i < length (u_items u) \<Longrightarrow> pkg_reason (item_pkg (pkg_jobs_set_deinstall_reasons reqs js u) i) =
    (if i \<in> sl_item ` set js \<and> reason_of u reqs i \<noteq> None then reason_of u reqs i else pkg_reason (item_pkg u i))"
  unfolding pkg_jobs_set_deinstall_reasons_def
proof (induction js arbitrary: u)
  case (Cons s js)
  show ?case
  proof (cases "reason_of u reqs (sl_item s)")
    case None
    then show ?thesis using Cons by (auto simp: deinstall_reason_eq)
  next
    case (Some r)
    then show ?thesis using Cons.IH [of "set_reason r (sl_item s) u"] Cons.prems
      by (auto simp: deinstall_reason_eq reason_of_set_reason item_pkg_set_reason)
  qed
qed simp

text \<open>Each package that a deinstall job deletes is given the reason that it depends on a requested
  package exactly when there is a chain of at most 128 dependencies from it to one; the requested
  package it names is one of those, and a package that is itself the one named keeps its reason.
\<close>

theorem deinstall_reasons:
  assumes "i < length (u_items u)" "i \<in> sl_item ` set js"
  shows "let f = pkg_jobs_find_deinstall_request u reqs i 0 in (f = None \<longleftrightarrow> \<not> (\<exists>n \<le> 128. \<exists>j. (dep_item u ^^ n) i j \<and> find_request reqs (pkg_uid (item_pkg u j)) \<noteq> None)) \<and>
    (\<forall>req. f = Some req \<longrightarrow> (\<exists>n \<le> 128. \<exists>j. (dep_item u ^^ n) i j \<and> find_request reqs (pkg_uid (item_pkg u j)) = Some req)) \<and>
    pkg_reason (item_pkg (pkg_jobs_set_deinstall_reasons reqs js u) i) =
      (case f of
         Some req \<Rightarrow> if hd (rq_items req) \<noteq> i then Some (depends_on (item_pkg u (hd (rq_items req)))) else pkg_reason (item_pkg u i)
       | None \<Rightarrow> pkg_reason (item_pkg u i))"
  unfolding Let_def
proof (intro conjI allI impI)
  show "pkg_jobs_find_deinstall_request u reqs i 0 = None \<longleftrightarrow>
      \<not> (\<exists>n \<le> 128. \<exists>j. (dep_item u ^^ n) i j \<and> find_request reqs (pkg_uid (item_pkg u j)) \<noteq> None)"
  proof
    show "\<not> (\<exists>n \<le> 128. \<exists>j. (dep_item u ^^ n) i j \<and> find_request reqs (pkg_uid (item_pkg u j)) \<noteq> None)"
      if "pkg_jobs_find_deinstall_request u reqs i 0 = None"
      using find_deinstall_complete [of _ u i _ 0 reqs] that unfolding add_0_right by blast
    show "pkg_jobs_find_deinstall_request u reqs i 0 = None"
      if no: "\<not> (\<exists>n \<le> 128. \<exists>j. (dep_item u ^^ n) i j \<and> find_request reqs (pkg_uid (item_pkg u j)) \<noteq> None)"
    proof (rule ccontr)
      assume "pkg_jobs_find_deinstall_request u reqs i 0 \<noteq> None"
      then obtain req where "pkg_jobs_find_deinstall_request u reqs i 0 = Some req" by blast
      from find_deinstall_Some [OF this] no show False unfolding add_0_right by (metis option.distinct(1))
    qed
  qed
  show "\<exists>n \<le> 128. \<exists>j. (dep_item u ^^ n) i j \<and> find_request reqs (pkg_uid (item_pkg u j)) = Some req"
    if "pkg_jobs_find_deinstall_request u reqs i 0 = Some req" for req
    using find_deinstall_Some [OF that] by auto
  show "pkg_reason (item_pkg (pkg_jobs_set_deinstall_reasons reqs js u) i) =
      (case pkg_jobs_find_deinstall_request u reqs i 0 of
         Some req \<Rightarrow> if hd (rq_items req) \<noteq> i then Some (depends_on (item_pkg u (hd (rq_items req)))) else pkg_reason (item_pkg u i)
       | None \<Rightarrow> pkg_reason (item_pkg u i))"
    using set_reasons_result [OF assms(1)] assms(2) by (simp add: reason_of_def split: option.split)
qed

section \<open>Which packages are automatic\<close>

lemma item_pkg_set_automatic:
  "item_pkg (set_automatic b i u) j = (if i = j \<and> i < length (u_items u) then (item_pkg u j)\<lparr>pkg_automatic := b\<rparr> else item_pkg u j)"
  by (cases "i < length (u_items u)") (auto simp: item_pkg_def set_automatic_def nth_list_update list_update_beyond not_less)

lemma set_automatic_fields [simp]:
  "pkg_kind (item_pkg (set_automatic b i u) j) = pkg_kind (item_pkg u j)"
  "pkg_uid (item_pkg (set_automatic b i u) j) = pkg_uid (item_pkg u j)"
  "length (u_items (set_automatic b i u)) = length (u_items u)"
  by (simp_all add: item_pkg_set_automatic) (simp add: set_automatic_def)

lemma fold_set_automatic:
  "\<forall>i \<in> set c. i < length (u_items u) \<Longrightarrow> pkg_automatic (item_pkg (fold (set_automatic b) c u) j) =
    (if j \<in> set c then b else pkg_automatic (item_pkg u j))"
  by (induction c arbitrary: u) (auto simp: item_pkg_set_automatic)

lemma fold_set_remote_automatic:
  "\<forall>i \<in> set c. i < length (u_items u) \<Longrightarrow>
    pkg_automatic (item_pkg (fold (\<lambda>cur v. if installed (item_pkg v cur) then v else set_automatic b cur v) c u) j) =
    (if j \<in> set c \<and> \<not> installed (item_pkg u j) then b else pkg_automatic (item_pkg u j))"
proof (induction c arbitrary: u)
  case (Cons i c)
  then show ?case by (cases "installed (item_pkg u i)") (auto simp: item_pkg_set_automatic)
qed simp

text \<open>What a propagation leaves alone.\<close>

definition flags_only :: "universe \<Rightarrow> universe \<Rightarrow> bool" where
  "flags_only u v \<longleftrightarrow> length (u_items v) = length (u_items u) \<and>
     (\<forall>i. (item_pkg v i)\<lparr>pkg_automatic := False\<rparr> = (item_pkg u i)\<lparr>pkg_automatic := False\<rparr>)"

lemma flags_only_refl [simp]: "flags_only u u"
  by (simp add: flags_only_def)

lemma flags_only_trans: "flags_only u v \<Longrightarrow> flags_only v w \<Longrightarrow> flags_only u w"
  by (simp add: flags_only_def)

lemma flags_only_set: "flags_only u (set_automatic b i u)"
  by (auto simp: flags_only_def item_pkg_set_automatic)

lemma flags_only_fold: "(\<And>x v. flags_only v (f x v)) \<Longrightarrow> flags_only u (fold f xs u)"
  by (induction xs arbitrary: u) (auto intro: flags_only_trans)

lemma flags_onlyD:
  assumes "flags_only u v"
  shows "length (u_items v) = length (u_items u)" "pkg_uid (item_pkg v i) = pkg_uid (item_pkg u i)" "pkg_kind (item_pkg v i) = pkg_kind (item_pkg u i)"
proof -
  have "(item_pkg v i)\<lparr>pkg_automatic := False\<rparr> = (item_pkg u i)\<lparr>pkg_automatic := False\<rparr>" using assms by (simp add: flags_only_def)
  from arg_cong [OF this, of pkg_uid] arg_cong [OF this, of pkg_kind]
  show "length (u_items v) = length (u_items u)" "pkg_uid (item_pkg v i) = pkg_uid (item_pkg u i)" "pkg_kind (item_pkg v i) = pkg_kind (item_pkg u i)"
    using assms by (simp_all add: flags_only_def)
qed

lemma propagate_chain_flags: "flags_only u (propagate_chain type reqs c u)"
  by (auto simp: propagate_chain_def Let_def flags_only_set intro!: flags_only_fold split: option.split)

lemma propagate_chain_other:
  "\<forall>i \<in> set c. i < length (u_items u) \<Longrightarrow> c \<noteq> [] \<Longrightarrow> j \<notin> set c \<Longrightarrow>
    pkg_automatic (item_pkg (propagate_chain type reqs c u) j) = pkg_automatic (item_pkg u j)"
  by (auto simp: propagate_chain_def Let_def item_pkg_set_automatic fold_set_automatic fold_set_remote_automatic split: option.split)

text \<open>The flag of a package that is not installed, given that repositories do not set it.\<close>

definition inherited :: "requests \<Rightarrow> universe \<Rightarrow> string \<Rightarrow> nat list \<Rightarrow> bool" where
  "inherited reqs u uid c =
     (case find (\<lambda>i. installed (item_pkg u i)) c of
        Some local \<Rightarrow> pkg_automatic (item_pkg u local)
      | None \<Rightarrow> not_obviously_requested reqs uid)"

lemma propagate_chain_remote:
  assumes "\<forall>i \<in> set c. i < length (u_items u) \<and> pkg_uid (item_pkg u i) = uid" "j \<in> set c"
    "\<not> installed (item_pkg u j)" "\<not> pkg_automatic (item_pkg u j)"
  shows "pkg_automatic (item_pkg (propagate_chain type reqs c u) j) = inherited reqs u uid c"
proof (cases "tl c = []")
  case True
  then have "c = [j]" using assms(2) by (cases c) auto
  then show ?thesis using assms by (simp add: propagate_chain_def inherited_def item_pkg_set_automatic)
next
  case False
  have "hd c \<in> set c" using assms(2) by (cases c) auto
  then have "pkg_uid (item_pkg u (hd c)) = uid" "\<forall>i \<in> set c. i < length (u_items u)" using assms(1) by auto
  then show ?thesis using False assms
    by (simp add: propagate_chain_def inherited_def fold_set_automatic fold_set_remote_automatic split: option.split)
qed

text \<open>C28. Once the requests are resolved, a package that would be installed, and that its repository does
  not call automatic, counts as automatic exactly when the first installed package of its uid is
  automatic, or, if there is none, when there is no request for the uid or only an automatic one. Nothing but this flag of any
  package changes.
\<close>

theorem propagate_automatic_flags:
  assumes "chains_wf u" "(uid, c) \<in> set (u_chains u)" "j \<in> set c" "\<not> installed (item_pkg u j)" "\<not> pkg_automatic (item_pkg u j)"
  shows "pkg_automatic (item_pkg (pkg_jobs_propagate_automatic type reqs u) j) = inherited reqs u uid c \<and>
    flags_only u (pkg_jobs_propagate_automatic type reqs u)"
proof -
  let ?f = "\<lambda>(uid, c). propagate_chain type reqs c"
  obtain before after where split: "u_chains u = before @ (uid, c) # after" using split_list [OF assms(2)] by blast
  have dist: "distinct (concat (map snd (u_chains u)))" using assms(1) by (simp add: chains_wf_def)
  have cs: "e \<noteq> []" "\<forall>i \<in> set e. i < length (u_items u)" if "(v, e) \<in> set (u_chains u)" for v e
    using chain_wfD [OF assms(1) that] by auto
  have disj: "i \<notin> set e" if "(v, e) \<in> set before \<union> set after" "i \<in> set c" for v e i
    using dist that unfolding split by force
  have flags: "flags_only v (fold ?f xs v)" for xs v
    by (rule flags_only_fold) (auto simp: propagate_chain_flags)
  have other: "pkg_automatic (item_pkg (fold ?f xs v) i) = pkg_automatic (item_pkg v i)"
    if "set xs \<subseteq> set (u_chains u)" "\<forall>(w, e) \<in> set xs. i \<notin> set e" "length (u_items v) = length (u_items u)" for xs v i
    using that
  proof (induction xs arbitrary: v)
    case (Cons x xs)
    obtain w e where x: "x = (w, e)" by (cases x)
    then have e: "e \<noteq> []" "\<forall>i \<in> set e. i < length (u_items v)" "i \<notin> set e" using Cons.prems cs [of w e] by auto
    have "length (u_items (propagate_chain type reqs e v)) = length (u_items u)"
      using flags_onlyD(1) [OF propagate_chain_flags] Cons.prems(3) by simp
    then have "pkg_automatic (item_pkg (fold ?f xs (propagate_chain type reqs e v)) i) = pkg_automatic (item_pkg (propagate_chain type reqs e v) i)"
      using Cons.IH Cons.prems by simp
    then show ?case using propagate_chain_other [OF e(2,1,3)] x by simp
  qed simp
  let ?v = "fold ?f before u"
  have sub: "set before \<subseteq> set (u_chains u)" "set after \<subseteq> set (u_chains u)" unfolding split by auto
  have keep: "pkg_automatic (item_pkg ?v i) = pkg_automatic (item_pkg u i)" if "i \<in> set c" for i
    using that disj by (intro other sub) auto
  have inh: "inherited reqs ?v uid c = inherited reqs u uid c"
  proof -
    have "find (\<lambda>i. installed (item_pkg ?v i)) c = find (\<lambda>i. installed (item_pkg u i)) c"
      using flags_onlyD(3) [OF flags [of u before]] by simp
    then show ?thesis using keep by (auto simp: inherited_def dest: find_SomeD split: option.split)
  qed
  have "pkg_automatic (item_pkg (propagate_chain type reqs c ?v) j) = inherited reqs u uid c"
    unfolding inh [symmetric]
    by (rule propagate_chain_remote)
      (use assms keep flags_onlyD [OF flags [of u before]] chain_wfD [OF assms(1,2)] in auto)
  moreover have "pkg_automatic (item_pkg (fold ?f after (propagate_chain type reqs c ?v)) j) =
      pkg_automatic (item_pkg (propagate_chain type reqs c ?v) j)"
  proof (rule other [OF sub(2)])
    show "\<forall>(w, e) \<in> set after. j \<notin> set e" using disj assms(3) by blast
    show "length (u_items (propagate_chain type reqs c ?v)) = length (u_items u)"
      using flags_onlyD(1) [OF propagate_chain_flags] flags_onlyD(1) [OF flags [of u before]] by simp
  qed
  ultimately show ?thesis
    using flags [of u "u_chains u"] unfolding pkg_jobs_propagate_automatic_def split by simp
qed

section \<open>Instances\<close>

text \<open>A package installed in version 1 and offered in versions 1 and 2.\<close>

definition offered :: "pkg_type \<Rightarrow> string \<Rightarrow> string \<Rightarrow> pkg" where
  "offered type v d = blank_pkg\<lparr>pkg_uid := ''a'', pkg_name := ''a'', pkg_version := v, pkg_digest := Some d, pkg_kind := type\<rparr>"

definition offers :: universe where
  "offers = \<lparr>u_items = map (\<lambda>p. \<lparr>ui_pkg = p, ui_priority = 0, ui_processed = True\<rparr>)
      [offered PKG_INSTALLED ''1'' ''d1'', offered PKG_REMOTE ''1'' ''d2'', offered PKG_REMOTE ''2'' ''d3''],
    u_chains = [(''a'', [0, 1, 2])], u_seen = [], u_provides = [], u_replaces = [], u_nitems = 3\<rparr>"

definition no_repos :: chain_env where
  "no_repos = \<lparr>ce_repos = (\<lambda>_. None), ce_conservative = False, ce_pinning = False, ce_force = False\<rparr>"

lemma offers_ok: "chains_wf offers" "no_locked offers"
  by (auto simp: chains_wf_def no_locked_def offers_def item_pkg_def offered_def blank_pkg_def less_Suc_eq numeral_eq_Suc)

definition both_requested :: requests where
  "both_requested = [(''a'', (new_request False)\<lparr>rq_items := [1, 2]\<rparr>)]"

lemma offers_cut: "map_option (map (\<lambda>(uid, req). (uid, rq_items req))) (pkg_jobs_universe_process_upgrade_chains no_repos offers both_requested) =
    Some [(''a'', [2])]"
  by code_simp

theorem upgrade_chains_select_witness:
  "\<exists>reqs' req' s. pkg_jobs_universe_process_upgrade_chains no_repos offers both_requested = Some reqs' \<and>
    find_request reqs' ''a'' = Some req' \<and> preferred no_repos offers [0, 1, 2] s \<and> set (rq_items req') = {s}"
proof -
  obtain reqs' where r: "pkg_jobs_universe_process_upgrade_chains no_repos offers both_requested = Some reqs'" using offers_cut by auto
  let ?req = "(new_request False)\<lparr>rq_items := [1, 2]\<rparr>"
  have c: "(''a'', [0, 1, 2]) \<in> set (u_chains offers)" "find_request both_requested ''a'' = Some ?req"
    "last_installed offers [0, 1, 2] = Some 0" "\<not> ce_force no_repos"
    by (simp_all add: offers_def both_requested_def find_request_def last_installed_def item_pkg_def offered_def blank_pkg_def no_repos_def)
  have "find_request reqs' ''a'' \<noteq> None" using r offers_cut by (auto simp: find_request_def)
  moreover from upgrade_chains_select [where env = no_repos and reqs = both_requested, OF offers_ok(1) no_lockedD [OF offers_ok(2)], unfolded r option.case] c(1,2)
  have "if length [0::nat, 1, 2] \<le> (if last_installed offers [0, 1, 2] = None then 1 else 2) then find_request reqs' ''a'' = Some ?req
      else \<exists>s. preferred no_repos offers [0, 1, 2] s \<and> s \<in> set [0, 1, 2] \<and>
        (if \<not> ce_force no_repos \<and> (\<exists>l. last_installed offers [0, 1, 2] = Some l \<and> pkg_digest (item_pkg offers l) = pkg_digest (item_pkg offers s))
         then find_request reqs' ''a'' = None
         else set (rq_items ?req) \<subseteq> set [0, 1, 2] \<longrightarrow> (\<exists>req'. find_request reqs' ''a'' = Some req' \<and> set (rq_items req') = {s} \<and>
           rq_automatic req' = rq_automatic ?req))" by fastforce
  ultimately show ?thesis using r c(3) by (auto split: if_splits)
qed

text \<open>
  A package of version 1 is installed and two repositories of priority 0 offer version 2. Neither
  the versions nor the priorities tell the candidates apart, so the head of the chain is selected,
  which is the installed package itself, and the request to upgrade is dropped.
\<close>

definition twins :: universe where
  "twins = offers\<lparr>u_items := map (\<lambda>p. \<lparr>ui_pkg = p, ui_priority = 0, ui_processed = True\<rparr>)
     [offered PKG_INSTALLED ''1'' ''d1'', offered PKG_REMOTE ''2'' ''d2'', offered PKG_REMOTE ''2'' ''d3'']\<rparr>"

lemma twins_not_upgraded: "pkg_jobs_universe_process_upgrade_chains no_repos twins both_requested = Some []"
  by code_simp

text \<open>Two installed packages; the one that the other depends on is to be deleted.\<close>

definition installed_pair :: universe where
  "installed_pair = \<lparr>u_items = map (\<lambda>p. \<lparr>ui_pkg = p, ui_priority = 0, ui_processed = True\<rparr>) [local_zsh, local_pcre],
    u_chains = [(''zsh'', [0]), (''pcre'', [1])], u_seen = [], u_provides = [], u_replaces = [], u_nitems = 2\<rparr>"

definition delete_pcre :: requests where
  "delete_pcre = [(''pcre'', (new_request False)\<lparr>rq_items := [1]\<rparr>)]"

definition delete_jobs :: "solved list" where
  "delete_jobs = [solved_job PKG_SOLVED_DELETE 0 None, solved_job PKG_SOLVED_DELETE 1 None]"

theorem deinstall_reasons_witness:
  "pkg_reason (item_pkg (pkg_jobs_set_deinstall_reasons delete_pcre delete_jobs installed_pair) 0) = Some ''depends on pcre-8''"
proof -
  have i: "0 < length (u_items installed_pair)" "0 \<in> sl_item ` set delete_jobs"
    by (simp_all add: installed_pair_def delete_jobs_def solved_job_def)
  have f: "map_option rq_items (pkg_jobs_find_deinstall_request installed_pair delete_pcre 0 0) = Some [1]" by code_simp
  then obtain req where req: "pkg_jobs_find_deinstall_request installed_pair delete_pcre 0 0 = Some req" "rq_items req = [1]" by auto
  have "depends_on (item_pkg installed_pair 1) = ''depends on pcre-8''" by code_simp
  then show ?thesis using deinstall_reasons [OF i, of delete_pcre] req by (simp add: Let_def)
qed

text \<open>Both offered by the repositories; one of them is asked for.\<close>

definition zsh_requested :: requests where
  "zsh_requested = [(''zsh'', (new_request False)\<lparr>rq_items := [0]\<rparr>)]"

theorem propagate_automatic_flags_witness:
  "pkg_automatic (item_pkg (pkg_jobs_propagate_automatic PKG_JOBS_INSTALL zsh_requested circle) 1) \<and>
   \<not> pkg_automatic (item_pkg (pkg_jobs_propagate_automatic PKG_JOBS_INSTALL zsh_requested circle) 0)"
proof -
  have wf: "chains_wf circle" using universe_ok_chains_wf [OF circle_ok] .
  have p: "item_pkg circle 0 = zsh" "item_pkg circle 1 = pcre" by (simp_all add: circle_def item_pkg_def add_item_def new_item_def pkg_jobs_universe_new_def)
  have q: "\<not> installed zsh" "\<not> installed pcre" "\<not> pkg_automatic zsh" "\<not> pkg_automatic pcre"
    by (simp_all add: zsh_def pcre_def repo_pkg_def blank_pkg_def)
  have c: "(''zsh'', [0]) \<in> set (u_chains circle)" "(''pcre'', [1]) \<in> set (u_chains circle)"
    by (simp_all add: circle_def add_item_def pkg_jobs_universe_new_def zsh_def pcre_def repo_pkg_def blank_pkg_def)
  have "inherited zsh_requested circle ''pcre'' [1]" "\<not> inherited zsh_requested circle ''zsh'' [0]"
    using p q by (simp_all add: inherited_def not_obviously_requested_def zsh_requested_def find_request_def new_request_def)
  then show ?thesis
    using propagate_automatic_flags [OF wf c(1), of 0 PKG_JOBS_INSTALL zsh_requested]
      propagate_automatic_flags [OF wf c(2), of 1 PKG_JOBS_INSTALL zsh_requested] p q by simp
qed

end
