(* ===== verification/Conflicts.thy ===== *)
theory Conflicts
  imports Solver_Rules
begin

text \<open>
  \<^verbatim>\<open>libpkg/pkg_jobs_conflicts.c\<close>: which of several conflicting requests survives, and the search
  for packages that install the same file. A chain of requests is the list of their uids in the
  table of requests, the hash table of conflicts of a package is the list of its conflicts.
\<close>

section \<open>Conflicting requests\<close>

definition skipped :: "requests \<Rightarrow> string \<Rightarrow> bool" where
  "skipped reqs uid = (case map_of reqs uid of None \<Rightarrow> False | Some r \<Rightarrow> rq_skip r)"

definition request_pkg :: "universe \<Rightarrow> requests \<Rightarrow> string \<Rightarrow> pkg" where
  "request_pkg u reqs uid = item_pkg u (hd (rq_items (the (map_of reqs uid))))"

definition pkg_conflicts_chain_cmp_cb :: "universe \<Rightarrow> requests \<Rightarrow> string \<Rightarrow> string \<Rightarrow> int" where
  "pkg_conflicts_chain_cmp_cb u reqs a b =
     (if skipped reqs a \<or> skipped reqs b then of_bool (skipped reqs a) - of_bool (skipped reqs b)
      else pkg_version_cmp (pkg_version (request_pkg u reqs a)) (pkg_version (request_pkg u reqs b)))"

text \<open>\<^verbatim>\<open>strrchr (origin, '/') + 1\<close>\<close>

fun after_last_slash :: "string \<Rightarrow> string option" where
  "after_last_slash [] = None"
| "after_last_slash (c # s) = (case after_last_slash s of Some t \<Rightarrow> Some t | None \<Rightarrow> if c = CHR ''/'' then Some s else None)"

definition pure_origin :: "universe \<Rightarrow> requests \<Rightarrow> string \<Rightarrow> string \<Rightarrow> bool" where
  "pure_origin u reqs name uid \<longleftrightarrow> after_last_slash (pkg_origin (request_pkg u reqs uid)) = Some name"

fun set_skip :: "string \<Rightarrow> requests \<Rightarrow> requests" where
  "set_skip uid [] = []"
| "set_skip uid ((v, r) # reqs) = (if v = uid then (v, r\<lparr>rq_skip := True\<rparr>) # reqs else (v, r) # set_skip uid reqs)"

text \<open>
  The chosen element of the chain and the others. Elements of the chain are told apart by their
  position, so a request that is in the chain twice may lose against itself.
\<close>

type_synonym chain_sort = "(string \<Rightarrow> string \<Rightarrow> int) \<Rightarrow> string list \<Rightarrow> string list"

definition pick :: "chain_sort \<Rightarrow> universe \<Rightarrow> requests \<Rightarrow> string \<Rightarrow> string list \<Rightarrow> string \<times> string list" where
  "pick srt u reqs name chain =
     (case dropWhile (\<lambda>uid. \<not> pure_origin u reqs name uid) chain of
        uid # rest \<Rightarrow> (uid, takeWhile (\<lambda>uid. \<not> pure_origin u reqs name uid) chain @ rest)
      | [] \<Rightarrow> (let c = srt (pkg_conflicts_chain_cmp_cb u reqs) chain in (hd c, tl c)))"

definition pkg_conflicts_request_resolve_chain ::
  "chain_sort \<Rightarrow> universe \<Rightarrow> string \<Rightarrow> string list \<Rightarrow> requests \<Rightarrow> requests" where
  "pkg_conflicts_request_resolve_chain srt u name chain reqs = fold set_skip (snd (pick srt u reqs name chain)) reqs"

text \<open>The requests that a request conflicts with, as \<^verbatim>\<open>LL_PREPEND\<close> collects them.\<close>

definition conflict_chain :: "universe \<Rightarrow> requests \<Rightarrow> string \<Rightarrow> string list" where
  "conflict_chain u reqs uid =
     rev (List.map_filter (\<lambda>c. case pkg_jobs_universe_find u (conflict_uid c) of
         None \<Rightarrow> None
       | Some ch \<Rightarrow> (let v = pkg_uid (item_pkg u (hd ch)) in
           if find_request reqs v \<noteq> None \<and> \<not> skipped reqs v then Some v else None))
       (pkg_conflicts (request_pkg u reqs uid)))"

definition resolve_request :: "chain_sort \<Rightarrow> universe \<Rightarrow> string \<Rightarrow> requests \<Rightarrow> requests" where
  "resolve_request srt u uid reqs =
     (if skipped reqs uid then reqs
      else (let chain = conflict_chain u reqs uid in
        if chain = [] then reqs
        else pkg_conflicts_request_resolve_chain srt u (pkg_name (request_pkg u reqs uid)) (uid # chain) reqs))"

definition pkg_conflicts_request_resolve :: "chain_sort \<Rightarrow> universe \<Rightarrow> requests \<Rightarrow> requests" where
  "pkg_conflicts_request_resolve srt u reqs = fold (resolve_request srt u) (map fst reqs) reqs"

section \<open>Registering conflicts\<close>

definition has_conflict :: "pkg \<Rightarrow> string \<Rightarrow> bool" where
  "has_conflict p uid \<longleftrightarrow> uid \<in> conflict_uid ` set (pkg_conflicts p)"

definition add_conflict :: "string \<Rightarrow> pkg_conflict_type \<Rightarrow> string option \<Rightarrow> pkg \<Rightarrow> pkg" where
  "add_conflict uid t d p =
     (if has_conflict p uid then p
      else p\<lparr>pkg_conflicts := pkg_conflicts p @ [\<lparr>conflict_uid = uid, conflict_digest = d, conflict_type = t\<rparr>]\<rparr>)"

definition pkg_conflicts_register :: "pkg \<Rightarrow> pkg \<Rightarrow> pkg_conflict_type \<Rightarrow> pkg \<times> pkg" where
  "pkg_conflicts_register p1 p2 t = (add_conflict (pkg_uid p2) t None p1, add_conflict (pkg_uid p1) t None p2)"

definition pkg_conflicts_need_conflict :: "job_env \<Rightarrow> pkg \<Rightarrow> pkg \<Rightarrow> bool" where
  "pkg_conflicts_need_conflict env p1 p2 \<longleftrightarrow>
     je_loads env p1 \<and> je_loads env p2 \<and>
     \<not> (has_conflict p1 (pkg_uid p2) \<and> has_conflict p2 (pkg_uid p1)) \<and>
     (\<exists>f \<in> set (pkg_files p1). f \<in> set (pkg_files p2) \<or> f \<in> set (pkg_dirs p2))"

text \<open>
  On two different packages, with their digests; \<open>None\<close> is \<^verbatim>\<open>xstrdup\<close> of a missing digest.
\<close>

definition pkg_conflicts_register_unsafe :: "pkg_conflict_type \<Rightarrow> pkg \<Rightarrow> pkg \<Rightarrow> (pkg \<times> pkg) option" where
  "pkg_conflicts_register_unsafe t p1 p2 =
     (if \<not> has_conflict p1 (pkg_uid p2) \<and> pkg_digest p2 = None \<or> \<not> has_conflict p2 (pkg_uid p1) \<and> pkg_digest p1 = None
      then None
      else Some (add_conflict (pkg_uid p2) t (pkg_digest p2) p1, add_conflict (pkg_uid p1) t (pkg_digest p1) p2))"

definition put_pkg :: "nat \<Rightarrow> pkg \<Rightarrow> universe \<Rightarrow> universe" where
  "put_pkg i p u = u\<lparr>u_items := (u_items u)[i := (u_items u ! i)\<lparr>ui_pkg := p\<rparr>]\<rparr>"

text \<open>A chain backwards from an item, round to the item after it: \<^verbatim>\<open>prev\<close> of the head is the tail.\<close>

definition chain_back :: "universe \<Rightarrow> nat \<Rightarrow> nat list" where
  "chain_back u i =
     (let c = chain_of u i in i # rev (takeWhile (\<lambda>j. j \<noteq> i) c) @ rev (tl (dropWhile (\<lambda>j. j \<noteq> i) c)))"

text \<open>One pair of items; the number counts \<^verbatim>\<open>conflicts_registered\<close>.\<close>

definition register_pair :: "job_env \<Rightarrow> nat \<times> nat \<Rightarrow> universe \<times> nat \<Rightarrow> (universe \<times> nat) option" where
  "register_pair env pair st =
     (case (pair, st) of ((i, j), u, n) \<Rightarrow>
        (let p1 = item_pkg u i; p2 = item_pkg u j in
         if installed p1 \<and> installed p2 \<or> \<not> pkg_conflicts_need_conflict env p1 p2 then Some (u, n)
         else map_option (\<lambda>(q1, q2). (put_pkg j q2 (put_pkg i q1 u), n + 1))
           (pkg_conflicts_register_unsafe
              (if installed p1 \<or> installed p2 then PKG_CONFLICT_REMOTE_LOCAL else PKG_CONFLICT_REMOTE_REMOTE) p1 p2)))"

definition pkg_conflicts_register_chain :: "job_env \<Rightarrow> nat \<Rightarrow> nat \<Rightarrow> universe \<Rightarrow> (nat \<times> universe) option" where
  "pkg_conflicts_register_chain env u1 u2 u =
     map_option (\<lambda>(v, n). (n, v))
       (fold_option (register_pair env) (List.product (chain_back u u1) (chain_back u u2)) (u, 0))"

section \<open>Paths\<close>

text \<open>
  The tree of paths that were seen, as a map from hash values; the hash function belongs to a
  library, as the key it takes the two words \<^verbatim>\<open>k[0]\<close> and \<^verbatim>\<open>k[1]\<close>. The state also counts the
  registered conflicts.
\<close>

type_synonym sipkey = "64 word \<times> 64 word"
type_synonym path_hash = "sipkey \<Rightarrow> string \<Rightarrow> 64 word"

record conflict_state =
  cs_universe :: universe
  cs_items :: "64 word \<Rightarrow> nat option"
  cs_registered :: nat

definition next_key :: "sipkey \<Rightarrow> sipkey" where
  "next_key ks = (fst ks + 1, snd ks)"

fun pkg_conflicts_check_all_paths ::
  "nat \<Rightarrow> job_env \<Rightarrow> path_hash \<Rightarrow> string \<Rightarrow> nat \<Rightarrow> sipkey \<Rightarrow> conflict_state \<Rightarrow> (nat option \<times> conflict_state) option" where
  "pkg_conflicts_check_all_paths 0 env hash path it key st = None"
| "pkg_conflicts_check_all_paths (Suc n) env hash path it key st =
     (let hv = hash key path; u = cs_universe st in
      case cs_items st hv of
        None \<Rightarrow> Some (None, st\<lparr>cs_items := (cs_items st)(hv \<mapsto> it)\<rparr>)
      | Some cit \<Rightarrow>
          if cit = it then Some (None, st)
          else
            (let uid1 = pkg_uid (item_pkg u it); uid2 = pkg_uid (item_pkg u cit) in
             if uid1 = uid2 then Some (None, st\<lparr>cs_items := (cs_items st)(hv \<mapsto> it)\<rparr>)
             else if has_conflict (item_pkg u it) uid2 then pkg_conflicts_check_all_paths n env hash path it (next_key key) st
             else (case pkg_conflicts_register_chain env it cit u of
                     None \<Rightarrow> None
                   | Some (r, v) \<Rightarrow>
                       (let st' = st\<lparr>cs_universe := v, cs_registered := cs_registered st + r\<rparr> in
                        if r = 0 then pkg_conflicts_check_all_paths n env hash path it (next_key key) st'
                        else Some (Some cit, st')))))"

text \<open>
  The name of the local package that owns a path is the answer of the database; the inner \<open>None\<close>
  is NULL, the outer one a failed assertion.
\<close>

definition pkg_conflicts_check_local_path ::
  "job_env \<Rightarrow> (string \<Rightarrow> string option) \<Rightarrow> string \<Rightarrow> string \<Rightarrow> universe \<Rightarrow> pkg option option" where
  "pkg_conflicts_check_local_path env owner path uid u =
     (case owner path of
        None \<Rightarrow> Some None
      | Some uid_local \<Rightarrow>
          (case pkg_jobs_universe_get_local env u uid_local of
             None \<Rightarrow> None
           | Some p \<Rightarrow>
               if uid = pkg_uid p then None
               else Some (if has_conflict p uid then None else Some p)))"

definition check_path ::
  "nat \<Rightarrow> job_env \<Rightarrow> path_hash \<Rightarrow> sipkey \<Rightarrow> (string \<Rightarrow> string option) \<Rightarrow> nat \<Rightarrow> nat option \<Rightarrow> string \<Rightarrow> conflict_state \<Rightarrow> conflict_state option" where
  "check_path n env hash key owner it local path st =
     (case pkg_conflicts_check_all_paths n env hash path it key st of
        None \<Rightarrow> None
      | Some (_, st1) \<Rightarrow>
          (let u = cs_universe st1 in
           if (case local of None \<Rightarrow> False | Some l \<Rightarrow> path \<in> set (pkg_files (item_pkg u l))) then Some st1
           else (case pkg_conflicts_check_local_path env owner path (pkg_uid (item_pkg u it)) u of
                   None \<Rightarrow> None
                 | Some None \<Rightarrow> Some st1
                 | Some (Some p) \<Rightarrow>
                     (case pkg_jobs_universe_process_item env n u p of
                        None \<Rightarrow> None
                      | Some (rc, found, _, v) \<Rightarrow>
                          if rc \<noteq> EPKG_OK then Some (st1\<lparr>cs_universe := v\<rparr>)
                          else (case found of
                                  None \<Rightarrow> None
                                | Some cun \<Rightarrow>
                                    map_option (\<lambda>(r, w). st1\<lparr>cs_universe := w, cs_registered := cs_registered st1 + r\<rparr>)
                                      (pkg_conflicts_register_chain env it cun v))))))"

definition pkg_conflicts_check_chain_conflict ::
  "nat \<Rightarrow> job_env \<Rightarrow> path_hash \<Rightarrow> sipkey \<Rightarrow> (string \<Rightarrow> string option) \<Rightarrow> nat option \<Rightarrow> nat \<Rightarrow> conflict_state \<Rightarrow> conflict_state option" where
  "pkg_conflicts_check_chain_conflict n env hash key owner local it st =
     fold_option (check_path n env hash key owner it local) (pkg_files (item_pkg (cs_universe st) it)) st"

text \<open>The loop over the chain follows \<^verbatim>\<open>prev\<close> in the universe as it is, to which packages may be added.\<close>

definition chain_prev :: "universe \<Rightarrow> nat \<Rightarrow> nat" where
  "chain_prev u i = hd (tl (chain_back u i) @ [i])"

definition append_item ::
  "nat \<Rightarrow> job_env \<Rightarrow> path_hash \<Rightarrow> sipkey \<Rightarrow> (string \<Rightarrow> string option) \<Rightarrow> nat option \<Rightarrow> nat \<Rightarrow> conflict_state \<Rightarrow> conflict_state option" where
  "append_item n env hash key owner local i st =
     (if local = Some i \<or> \<not> je_loads env (item_pkg (cs_universe st) i) then Some st
      else pkg_conflicts_check_chain_conflict n env hash key owner local i st)"

fun append_loop ::
  "nat \<Rightarrow> (nat \<Rightarrow> conflict_state \<Rightarrow> conflict_state option) \<Rightarrow> nat \<Rightarrow> nat \<Rightarrow> conflict_state \<Rightarrow> conflict_state option" where
  "append_loop 0 visit it cur st = None"
| "append_loop (Suc m) visit it cur st =
     (case visit cur st of
        None \<Rightarrow> None
      | Some st' \<Rightarrow>
          (let prev = chain_prev (cs_universe st') cur in
           if prev = it then Some st' else append_loop m visit it prev st'))"

definition pkg_conflicts_append_chain ::
  "nat \<Rightarrow> job_env \<Rightarrow> path_hash \<Rightarrow> sipkey \<Rightarrow> (string \<Rightarrow> string option) \<Rightarrow> nat \<Rightarrow> conflict_state \<Rightarrow> (epkg \<times> conflict_state) option" where
  "pkg_conflicts_append_chain n env hash key owner it st =
     (let u = cs_universe st; local = find (\<lambda>i. installed (item_pkg u i)) (tl (chain_back u it)) in
      if (case local of None \<Rightarrow> False | Some l \<Rightarrow> \<not> je_loads env (item_pkg u l)) then Some (EPKG_FATAL, st)
      else map_option (Pair EPKG_OK) (append_loop n (append_item n env hash key owner local) it it st))"

section \<open>The order of a chain\<close>

text \<open>Requests that are skipped come last, the others by rising version.\<close>

interpretation chain_cmp: three_way "pkg_conflicts_chain_cmp_cb u reqs" for u reqs
proof -
  let ?v = "\<lambda>a. if skipped reqs a then [] else pkg_version (request_pkg u reqs a)"
  have "pkg_conflicts_chain_cmp_cb u reqs a b =
      lex_int (cmp_ord (of_bool (skipped reqs a) :: nat) (of_bool (skipped reqs b))) (pkg_version_cmp (?v a) (?v b))" for a b
    by (auto simp: pkg_conflicts_chain_cmp_cb_def lex_int_def cmp_ord_def)
  then have e: "pkg_conflicts_chain_cmp_cb u reqs = (\<lambda>a b.
      lex_int (cmp_ord (of_bool (skipped reqs a) :: nat) (of_bool (skipped reqs b))) (pkg_version_cmp (?v a) (?v b)))"
    by (intro ext)
  show "three_way (pkg_conflicts_chain_cmp_cb u reqs)"
    unfolding e by (rule three_way_lex [OF three_way_key [OF ord_cmp.three_way_axioms] three_way_key [OF version.three_way_axioms]])
qed

section \<open>The surviving request\<close>

lemma set_skip_map: "map_of (set_skip uid reqs) v = (if v = uid then map_option (\<lambda>r. r\<lparr>rq_skip := True\<rparr>) (map_of reqs uid) else map_of reqs v)"
  by (induction uid reqs rule: set_skip.induct) auto

lemma set_skip_skipped: "skipped (set_skip uid reqs) v \<longleftrightarrow> skipped reqs v \<or> (v = uid \<and> uid \<in> dom (map_of reqs))"
  by (auto simp: skipped_def set_skip_map split: option.split)

lemma set_skip_dom [simp]: "dom (map_of (set_skip uid reqs)) = dom (map_of reqs)"
  by (auto simp: set_skip_map split: if_splits)

lemma set_skip_pkg [simp]: "uid \<in> dom (map_of reqs) \<Longrightarrow> request_pkg u (set_skip v reqs) uid = request_pkg u reqs uid"
  by (auto simp: request_pkg_def set_skip_map)

lemma set_skips:
  "dom (map_of (fold set_skip us reqs)) = dom (map_of reqs)"
  "skipped (fold set_skip us reqs) v \<longleftrightarrow> skipped reqs v \<or> (v \<in> set us \<and> v \<in> dom (map_of reqs))"
  "v \<in> dom (map_of reqs) \<Longrightarrow> request_pkg u (fold set_skip us reqs) v = request_pkg u reqs v"
  by (induction us arbitrary: reqs) (auto simp: set_skip_skipped)

lemma pick_sorted:
  assumes "sorts srt (pkg_conflicts_chain_cmp_cb u reqs)" "chain \<noteq> []" "pick srt u reqs name chain = (w, losers)"
    "dropWhile (\<lambda>uid. \<not> pure_origin u reqs name uid) chain = []"
  shows "w # losers = srt (pkg_conflicts_chain_cmp_cb u reqs) chain"
proof -
  have "srt (pkg_conflicts_chain_cmp_cb u reqs) chain \<noteq> []" using assms(1,2) unfolding sorts_def by (metis mset_zero_iff)
  then show ?thesis using assms(3,4) by (auto simp: pick_def Let_def)
qed

lemma pick_mset:
  assumes "sorts srt (pkg_conflicts_chain_cmp_cb u reqs)" "chain \<noteq> []" "pick srt u reqs name chain = (w, losers)"
  shows "mset (w # losers) = mset chain"
proof (cases "dropWhile (\<lambda>uid. \<not> pure_origin u reqs name uid) chain")
  case Nil
  then show ?thesis using pick_sorted [OF assms] assms(1) by (simp only: sorts_def)
next
  case (Cons uid r)
  have "chain = takeWhile (\<lambda>uid. \<not> pure_origin u reqs name uid) chain @ uid # r" using Cons by (metis takeWhile_dropWhile_id)
  then have "mset chain = mset (uid # takeWhile (\<lambda>uid. \<not> pure_origin u reqs name uid) chain @ r)"
    by (metis mset.simps(2) mset_append union_mset_add_mset_right)
  then show ?thesis using assms(3) Cons by (auto simp: pick_def)
qed

text \<open>Of a chain of conflicting requests exactly one survives. It is one whose origin ends in the name
  of the request if there is any, and otherwise one of the lowest version.\<close>

theorem resolve_chain_keeps_one:
  assumes "sorts srt (pkg_conflicts_chain_cmp_cb u reqs)" "distinct chain" "chain \<noteq> []"
    "\<forall>uid \<in> set chain. uid \<in> dom (map_of reqs) \<and> \<not> skipped reqs uid"
  shows "\<exists>w \<in> set chain. {uid \<in> set chain. \<not> skipped (pkg_conflicts_request_resolve_chain srt u name chain reqs) uid} = {w} \<and>
    (if \<exists>uid \<in> set chain. pure_origin u reqs name uid then pure_origin u reqs name w
     else \<forall>uid \<in> set chain. pkg_version_cmp (pkg_version (request_pkg u reqs w)) (pkg_version (request_pkg u reqs uid)) \<le> 0)"
proof -
  obtain w losers where p: "pick srt u reqs name chain = (w, losers)" by fastforce
  have m: "mset (w # losers) = mset chain" by (rule pick_mset [OF assms(1,3) p])
  then have set: "set chain = insert w (set losers)" "w \<notin> set losers"
    using assms(2) by (metis list.simps(15) set_mset_mset, metis distinct.simps(2) mset_eq_imp_distinct_iff)
  have sk: "{uid \<in> set chain. \<not> skipped (pkg_conflicts_request_resolve_chain srt u name chain reqs) uid} = {w}"
    using assms(4) set by (auto simp: pkg_conflicts_request_resolve_chain_def p set_skips)
  have best: "if \<exists>uid \<in> set chain. pure_origin u reqs name uid then pure_origin u reqs name w
     else \<forall>uid \<in> set chain. pkg_version_cmp (pkg_version (request_pkg u reqs w)) (pkg_version (request_pkg u reqs uid)) \<le> 0"
  proof (cases "dropWhile (\<lambda>uid. \<not> pure_origin u reqs name uid) chain")
    case Nil
    have s: "sorted_wrt (\<lambda>x y. pkg_conflicts_chain_cmp_cb u reqs x y \<le> 0) (w # losers)"
      unfolding pick_sorted [OF assms(1,3) p Nil] using assms(1) by (simp add: sorts_def)
    have "pkg_version_cmp (pkg_version (request_pkg u reqs w)) (pkg_version (request_pkg u reqs uid)) \<le> 0" if "uid \<in> set chain" for uid
    proof (cases "uid = w")
      case False
      then have "pkg_conflicts_chain_cmp_cb u reqs w uid \<le> 0" using s that set by auto
      moreover have "\<not> skipped reqs uid" "\<not> skipped reqs w" using assms(4) that set by auto
      ultimately show ?thesis by (simp add: pkg_conflicts_chain_cmp_cb_def)
    qed simp
    moreover have "\<not> (\<exists>uid \<in> set chain. pure_origin u reqs name uid)" using Nil by (simp add: dropWhile_eq_Nil_conv)
    ultimately show ?thesis by simp
  next
    case (Cons uid r)
    then have "w = uid" using p by (simp add: pick_def)
    moreover have "pure_origin u reqs name uid" using Cons by (simp add: dropWhile_eq_Cons_conv)
    ultimately have "pure_origin u reqs name w" by simp
    then show ?thesis using set(1) by auto
  qed
  show ?thesis using sk best set(1) by blast
qed

lemma resolve_request_facts:
  fixes srt u reqs v
  shows "dom (map_of (resolve_request srt u v reqs)) = dom (map_of reqs)"
    "skipped reqs uid \<Longrightarrow> skipped (resolve_request srt u v reqs) uid"
    "uid \<in> dom (map_of reqs) \<Longrightarrow> request_pkg u (resolve_request srt u v reqs) uid = request_pkg u reqs uid"
  by (auto simp: resolve_request_def pkg_conflicts_request_resolve_chain_def Let_def set_skips)

lemma resolve_requests_facts:
  "dom (map_of (fold (resolve_request srt u) us reqs)) = dom (map_of reqs)"
  "skipped reqs uid \<Longrightarrow> skipped (fold (resolve_request srt u) us reqs) uid"
  "uid \<in> dom (map_of reqs) \<Longrightarrow> request_pkg u (fold (resolve_request srt u) us reqs) uid = request_pkg u reqs uid"
  by (induction us arbitrary: reqs) (auto simp: resolve_request_facts)

text \<open>Whether a package of a request has a conflict with the package of another uid.\<close>

definition clashes :: "universe \<Rightarrow> requests \<Rightarrow> string \<Rightarrow> string \<Rightarrow> bool" where
  "clashes u reqs a b \<longleftrightarrow> (\<exists>c \<in> set (pkg_conflicts (request_pkg u reqs a)).
     \<exists>ch. pkg_jobs_universe_find u (conflict_uid c) = Some ch \<and> pkg_uid (item_pkg u (hd ch)) = b)"

lemma conflict_chain_member:
  "v \<in> set (conflict_chain u reqs uid) \<longleftrightarrow> clashes u reqs uid v \<and> v \<in> dom (map_of reqs) \<and> \<not> skipped reqs v"
proof -
  have "x \<in> set (List.map_filter f xs) \<longleftrightarrow> (\<exists>y \<in> set xs. f y = Some x)" for f and x :: string and xs :: "pkg_conflict list"
    by (force simp: List.map_filter_def)
  then show ?thesis
    by (auto simp: conflict_chain_def clashes_def find_request_def Let_def domIff split: option.splits if_splits) (blast | force)+
qed

text \<open>The sort of the chain may depend on the requests that are skipped already.\<close>

definition sorts_chains :: "chain_sort \<Rightarrow> universe \<Rightarrow> bool" where
  "sorts_chains srt u \<longleftrightarrow> (\<forall>reqs. sorts srt (pkg_conflicts_chain_cmp_cb u reqs))"

lemma insertion_sort_chains: "sorts_chains insertion_sort u"
  by (simp add: sorts_chains_def chain_cmp.insertion_sort_sorts)

lemma resolve_request_separates:
  assumes srt: "sorts_chains srt u" and a: "a \<in> dom (map_of reqs)" "\<not> skipped reqs a"
    and b: "b \<in> dom (map_of reqs)" "clashes u reqs a b" "a \<noteq> b"
  shows "skipped (resolve_request srt u a reqs) a \<or> skipped (resolve_request srt u a reqs) b"
proof (cases "skipped reqs b")
  case True
  then show ?thesis using resolve_request_facts(2) by blast
next
  case False
  then have m: "b \<in> set (conflict_chain u reqs a)" using b conflict_chain_member by blast
  let ?chain = "a # conflict_chain u reqs a"
  let ?name = "pkg_name (request_pkg u reqs a)"
  obtain w losers where p: "pick srt u reqs ?name ?chain = (w, losers)" by fastforce
  have "mset (w # losers) = mset ?chain" using pick_mset [OF _ _ p] srt by (simp add: sorts_chains_def)
  then have "insert w (set losers) = set ?chain" by (metis list.simps(15) set_mset_mset)
  then have "a \<in> set losers \<or> b \<in> set losers" using m b(3) by (metis insertE insertI1 insert_is_Un list.simps(15) list.set_intros(2))
  moreover have "resolve_request srt u a reqs = fold set_skip losers reqs"
    using a(2) m p by (auto simp: resolve_request_def Let_def pkg_conflicts_request_resolve_chain_def)
  ultimately show ?thesis using a(1) b(1) by (auto simp: set_skips)
qed

text \<open>C6. After the conflicts among the requests are resolved, no request that is left conflicts with
  another one that is left.\<close>

theorem request_resolve_separates:
  assumes "sorts_chains srt u" "reqs' = pkg_conflicts_request_resolve srt u reqs"
    "a \<in> dom (map_of reqs)" "b \<in> dom (map_of reqs)" "a \<noteq> b" "\<not> skipped reqs' a" "\<not> skipped reqs' b"
  shows "\<not> clashes u reqs a b"
proof
  assume cl: "clashes u reqs a b"
  have "a \<in> set (map fst reqs)" using assms(3) by (simp add: dom_map_of_conv_image_fst)
  then obtain us vs where s: "map fst reqs = us @ a # vs" by (meson split_list)
  let ?r1 = "fold (resolve_request srt u) us reqs"
  let ?r2 = "resolve_request srt u a ?r1"
  have e: "reqs' = fold (resolve_request srt u) vs ?r2" using assms(2) s by (simp add: pkg_conflicts_request_resolve_def)
  have n2: "\<not> skipped ?r2 a" "\<not> skipped ?r2 b" using assms(6,7) resolve_requests_facts(2) unfolding e by blast+
  then have n1: "\<not> skipped ?r1 a" using resolve_request_facts(2) by blast
  have "clashes u ?r1 a b" using cl resolve_requests_facts(3) [OF assms(3)] by (simp add: clashes_def)
  moreover have "a \<in> dom (map_of ?r1)" "b \<in> dom (map_of ?r1)" using assms(3,4) by (simp_all add: resolve_requests_facts(1))
  ultimately have "skipped ?r2 a \<or> skipped ?r2 b"
    using resolve_request_separates [OF assms(1) _ n1] assms(5) by blast
  then show False using n2 by blast
qed

section \<open>Registered conflicts\<close>

text \<open>Registering only appends conflicts.\<close>

definition more_conflicts :: "universe \<Rightarrow> universe \<Rightarrow> bool" where
  "more_conflicts u v \<longleftrightarrow> length (u_items v) = length (u_items u) \<and> u_chains v = u_chains u \<and>
     (\<forall>i < length (u_items u). \<exists>cs. item_pkg v i = (item_pkg u i)\<lparr>pkg_conflicts := pkg_conflicts (item_pkg u i) @ cs\<rparr>)"

lemma append_no_conflicts: "p\<lparr>pkg_conflicts := pkg_conflicts p @ []\<rparr> = p"
  by simp

lemma more_conflicts_refl: "more_conflicts u u"
  unfolding more_conflicts_def using append_no_conflicts by metis

lemma more_conflicts_trans: "more_conflicts u v \<Longrightarrow> more_conflicts v w \<Longrightarrow> more_conflicts u w"
  by (force simp: more_conflicts_def)

lemma more_conflictsD:
  assumes "more_conflicts u v" "i < length (u_items u)"
  shows "pkg_uid (item_pkg v i) = pkg_uid (item_pkg u i)" "pkg_files (item_pkg v i) = pkg_files (item_pkg u i)"
    "pkg_dirs (item_pkg v i) = pkg_dirs (item_pkg u i)" "installed (item_pkg v i) = installed (item_pkg u i)"
    "has_conflict (item_pkg u i) uid \<Longrightarrow> has_conflict (item_pkg v i) uid"
proof -
  obtain cs where "item_pkg v i = (item_pkg u i)\<lparr>pkg_conflicts := pkg_conflicts (item_pkg u i) @ cs\<rparr>"
    using assms by (auto simp: more_conflicts_def)
  then show "pkg_uid (item_pkg v i) = pkg_uid (item_pkg u i)" "pkg_files (item_pkg v i) = pkg_files (item_pkg u i)"
    "pkg_dirs (item_pkg v i) = pkg_dirs (item_pkg u i)" "installed (item_pkg v i) = installed (item_pkg u i)"
    "has_conflict (item_pkg u i) uid \<Longrightarrow> has_conflict (item_pkg v i) uid" by (auto simp: has_conflict_def)
qed

lemma add_conflict_appends: "\<exists>cs. add_conflict uid t d p = p\<lparr>pkg_conflicts := pkg_conflicts p @ cs\<rparr>"
  unfolding add_conflict_def using append_no_conflicts by metis

lemma add_conflict_has: "has_conflict (add_conflict uid t d p) uid" "pkg_uid (add_conflict uid t d p) = pkg_uid p"
  by (auto simp: add_conflict_def has_conflict_def)

lemma put_pkg_item: "item_pkg (put_pkg i p u) j = (if j = i \<and> i < length (u_items u) then p else item_pkg u j)"
  by (cases "i < length (u_items u)") (auto simp: put_pkg_def item_pkg_def nth_list_update list_update_beyond)

lemma put_pkg_same [simp]: "length (u_items (put_pkg i p u)) = length (u_items u)" "u_chains (put_pkg i p u) = u_chains u"
  by (simp_all add: put_pkg_def)

text \<open>Whether two packages must exclude each other: one is remote and they share a path.\<close>

definition share_path :: "pkg \<Rightarrow> pkg \<Rightarrow> bool" where
  "share_path p q \<longleftrightarrow> \<not> (installed p \<and> installed q) \<and> (\<exists>f \<in> set (pkg_files p). f \<in> set (pkg_files q) \<or> f \<in> set (pkg_dirs q))"

definition known_to_conflict :: "universe \<Rightarrow> nat \<times> nat \<Rightarrow> bool" where
  "known_to_conflict u pair \<longleftrightarrow> has_conflict (item_pkg u (fst pair)) (pkg_uid (item_pkg u (snd pair))) \<and>
     has_conflict (item_pkg u (snd pair)) (pkg_uid (item_pkg u (fst pair)))"

lemma known_to_conflict_mono:
  "more_conflicts u v \<Longrightarrow> fst pair < length (u_items u) \<Longrightarrow> snd pair < length (u_items u) \<Longrightarrow>
     known_to_conflict u pair \<Longrightarrow> known_to_conflict v pair"
  by (simp add: known_to_conflict_def more_conflictsD)

lemma register_pair_facts:
  assumes r: "register_pair env (i, j) (u, n) = Some (v, m)" and b: "i < length (u_items u)" "j < length (u_items u)" "i \<noteq> j"
    and loads: "\<forall>p. je_loads env p"
  shows "more_conflicts u v \<and> n \<le> m \<and> (share_path (item_pkg u i) (item_pkg u j) \<longrightarrow> known_to_conflict v (i, j))"
proof (cases "installed (item_pkg u i) \<and> installed (item_pkg u j) \<or> \<not> pkg_conflicts_need_conflict env (item_pkg u i) (item_pkg u j)")
  case True
  then have "v = u" "m = n" using r by (simp_all add: register_pair_def Let_def)
  then show ?thesis
    using True loads more_conflicts_refl by (auto simp: share_path_def pkg_conflicts_need_conflict_def known_to_conflict_def)
next
  case False
  let ?p1 = "item_pkg u i" and ?p2 = "item_pkg u j"
  obtain t where v: "v = put_pkg j (add_conflict (pkg_uid ?p1) t (pkg_digest ?p1) ?p2)
      (put_pkg i (add_conflict (pkg_uid ?p2) t (pkg_digest ?p2) ?p1) u)" and m: "m = n + 1"
    using r False by (auto simp: register_pair_def Let_def pkg_conflicts_register_unsafe_def split: if_splits)
  have item: "item_pkg v x = (if x = j then add_conflict (pkg_uid ?p1) t (pkg_digest ?p1) ?p2
      else if x = i then add_conflict (pkg_uid ?p2) t (pkg_digest ?p2) ?p1 else item_pkg u x)" for x
    using b by (simp add: v put_pkg_item)
  have "more_conflicts u v"
    unfolding more_conflicts_def item
  proof (intro conjI allI impI)
    fix x
    show "\<exists>cs. (if x = j then add_conflict (pkg_uid ?p1) t (pkg_digest ?p1) ?p2
        else if x = i then add_conflict (pkg_uid ?p2) t (pkg_digest ?p2) ?p1 else item_pkg u x) =
      (item_pkg u x)\<lparr>pkg_conflicts := pkg_conflicts (item_pkg u x) @ cs\<rparr>"
    proof (cases "x = j \<or> x = i")
      case True
      then show ?thesis using add_conflict_appends b(3) by auto
    next
      case False
      then show ?thesis by (intro exI [of _ "[]"]) simp
    qed
  qed (simp_all add: v)
  moreover have "known_to_conflict v (i, j)"
    using b(3) by (simp add: known_to_conflict_def item add_conflict_has)
  ultimately show ?thesis using m by simp
qed

text \<open>C22. Registering the conflicts of two chains leaves no pair of packages that share a path, one of
  them remote, unaware of the other: each one lists the uid of the other.\<close>

theorem register_chain_complete:
  assumes "pkg_conflicts_register_chain env i j u = Some (n, v)" "\<forall>p. je_loads env p"
    "set (chain_back u i) \<union> set (chain_back u j) \<subseteq> {..<length (u_items u)}" "set (chain_back u i) \<inter> set (chain_back u j) = {}"
    "a \<in> set (chain_back u i)" "b \<in> set (chain_back u j)" "share_path (item_pkg u a) (item_pkg u b)"
  shows "has_conflict (item_pkg v a) (pkg_uid (item_pkg v b)) \<and> has_conflict (item_pkg v b) (pkg_uid (item_pkg v a))"
proof -
  let ?N = "{..<length (u_items u)}"
  have f: "more_conflicts w (fst st') \<and> (\<forall>pr \<in> set prs. share_path (item_pkg w (fst pr)) (item_pkg w (snd pr)) \<longrightarrow> known_to_conflict (fst st') pr)"
    if "fold_option (register_pair env) prs (w, k') = Some st'" "\<forall>pr \<in> set prs. fst pr \<in> ?N \<and> snd pr \<in> ?N \<and> fst pr \<noteq> snd pr"
      "length (u_items w) = length (u_items u)" for prs w k' st'
    using that
  proof (induction prs arbitrary: w k')
    case (Cons pr prs)
    obtain x y where pr: "pr = (x, y)" by fastforce
    from Cons.prems(1) obtain w1 k1 where 1: "register_pair env (x, y) (w, k') = Some (w1, k1)"
      "fold_option (register_pair env) prs (w1, k1) = Some st'" using pr by (auto split: option.splits)
    have xy: "x < length (u_items w)" "y < length (u_items w)" "x \<noteq> y" using Cons.prems(2,3) pr by auto
    note st = register_pair_facts [OF 1(1) xy assms(2)]
    have len: "length (u_items w1) = length (u_items u)" using st Cons.prems(3) by (simp add: more_conflicts_def)
    have ih: "more_conflicts w1 (fst st') \<and> (\<forall>pr \<in> set prs. share_path (item_pkg w1 (fst pr)) (item_pkg w1 (snd pr)) \<longrightarrow> known_to_conflict (fst st') pr)"
      using Cons.IH [OF 1(2)] Cons.prems(2) len by simp
    have same: "share_path (item_pkg w1 (fst p)) (item_pkg w1 (snd p)) = share_path (item_pkg w (fst p)) (item_pkg w (snd p))"
      if "p \<in> set prs" for p
      using st more_conflictsD [of w w1] Cons.prems(2,3) that by (simp add: share_path_def)
    have "known_to_conflict (fst st') (x, y)" if "share_path (item_pkg w x) (item_pkg w y)"
      using known_to_conflict_mono [of w1 "fst st'" "(x, y)"] ih st that xy len Cons.prems(3) by simp
    then show ?case using ih st same more_conflicts_trans pr by auto
  qed (auto simp: more_conflicts_refl)
  obtain st where st: "fold_option (register_pair env) (List.product (chain_back u i) (chain_back u j)) (u, 0) = Some st" "v = fst st"
    using assms(1) by (auto simp: pkg_conflicts_register_chain_def)
  have "\<forall>pr \<in> set (List.product (chain_back u i) (chain_back u j)). fst pr \<in> ?N \<and> snd pr \<in> ?N \<and> fst pr \<noteq> snd pr"
    using assms(3,4) by auto
  from f [OF st(1) this refl] have "known_to_conflict v (a, b)" using assms(5-7) st(2) by auto
  then show ?thesis by (simp add: known_to_conflict_def)
qed

section \<open>The search ends\<close>

definition digests :: "universe \<Rightarrow> bool" where
  "digests u \<longleftrightarrow> (\<forall>i < length (u_items u). pkg_digest (item_pkg u i) \<noteq> None)"

lemma chain_back_member:
  assumes "chains_wf u" "i < length (u_items u)" "j \<in> set (chain_back u i)"
  shows "j < length (u_items u) \<and> pkg_uid (item_pkg u j) = pkg_uid (item_pkg u i)"
proof -
  have "i \<in> set (concat (map snd (u_chains u)))" using assms(1,2) by (simp add: chains_wf_def)
  then obtain uid c where c: "(uid, c) \<in> set (u_chains u)" "i \<in> set c" by auto
  have e: "chain_of u i = c" by (rule chains_wf_chain_of [OF assms(1) c])
  have "set (dropWhile (\<lambda>j. j \<noteq> i) c) \<subseteq> set c" "set (takeWhile (\<lambda>j. j \<noteq> i) c) \<subseteq> set c"
    by (auto dest: set_dropWhileD set_takeWhileD)
  moreover have "set (tl xs) \<subseteq> set xs" for xs :: "nat list" by (cases xs) auto
  ultimately have "j \<in> set c" using assms(3) c(2) unfolding chain_back_def e Let_def
    by auto
  moreover have "x < length (u_items u) \<and> pkg_uid (item_pkg u x) = uid" if "x \<in> set c" for x
    using assms(1) c(1) that unfolding chains_wf_def by fastforce
  ultimately show ?thesis using c(2) by auto
qed

lemma more_conflicts_keeps:
  assumes "more_conflicts u v" "chains_wf u" "u_nitems v = u_nitems u"
  shows "chains_wf v" "digests u \<Longrightarrow> digests v"
proof -
  have "i < length (u_items u)" if "(uid, c) \<in> set (u_chains u)" "i \<in> set c" for uid c i
  proof -
    have "i \<in> set (concat (map snd (u_chains u)))" using that by force
    moreover have "set (concat (map snd (u_chains u))) = {..<length (u_items u)}" using assms(2) unfolding chains_wf_def by blast
    ultimately show ?thesis by blast
  qed
  then show "chains_wf v"
    using assms more_conflictsD(1) [OF assms(1)] unfolding chains_wf_def more_conflicts_def by simp fastforce
  show "digests u \<Longrightarrow> digests v"
    using assms(1) by (auto simp: digests_def more_conflicts_def)
qed

lemma register_pair_returns:
  assumes "digests u" "i < length (u_items u)" "j < length (u_items u)"
  shows "\<exists>v m. register_pair env (i, j) (u, n) = Some (v, m) \<and> u_nitems v = u_nitems u"
  using assms by (auto simp: register_pair_def Let_def digests_def pkg_conflicts_register_unsafe_def put_pkg_def)

lemma register_chain_returns:
  assumes wf: "chains_wf u" "digests u" and ij: "i < length (u_items u)" "j < length (u_items u)"
    and ne: "pkg_uid (item_pkg u i) \<noteq> pkg_uid (item_pkg u j)" and loads: "\<forall>p. je_loads env p"
  shows "\<exists>n v. pkg_conflicts_register_chain env i j u = Some (n, v) \<and> more_conflicts u v \<and> u_nitems v = u_nitems u"
proof -
  have f: "\<exists>v n. fold_option (register_pair env) prs (w, m) = Some (v, n) \<and> more_conflicts u v \<and> u_nitems v = u_nitems u"
    if "\<forall>(x, y) \<in> set prs. x < length (u_items u) \<and> y < length (u_items u) \<and> x \<noteq> y" "more_conflicts u w" "u_nitems w = u_nitems u" for prs w m
    using that
  proof (induction prs arbitrary: w m)
    case (Cons pr prs)
    obtain x y where pr: "pr = (x, y)" by fastforce
    have len: "length (u_items w) = length (u_items u)" using Cons.prems(2) by (simp add: more_conflicts_def)
    have xy: "x < length (u_items w)" "y < length (u_items w)" "x \<noteq> y" using Cons.prems(1) pr len by auto
    have "digests w" using more_conflicts_keeps(2) [OF Cons.prems(2) wf(1) Cons.prems(3) wf(2)] .
    then obtain w1 m1 where 1: "register_pair env (x, y) (w, m) = Some (w1, m1)" "u_nitems w1 = u_nitems w"
      using register_pair_returns xy by blast
    have "more_conflicts u w1" using register_pair_facts [OF 1(1) xy loads] Cons.prems(2) more_conflicts_trans by blast
    then show ?case using Cons.IH [of w1 m1] Cons.prems 1 pr by simp
  qed simp
  have "\<forall>(x, y) \<in> set (List.product (chain_back u i) (chain_back u j)). x < length (u_items u) \<and> y < length (u_items u) \<and> x \<noteq> y"
    using chain_back_member [OF wf(1) ij(1)] chain_back_member [OF wf(1) ij(2)] ne by (auto; metis)
  from f [OF this more_conflicts_refl refl, of 0] show ?thesis by (auto simp: pkg_conflicts_register_chain_def)
qed

declare pkg_conflicts_check_all_paths.simps(2) [simp del]

text \<open>The search for a free place in the tree of paths ends, if one of the next \<open>m\<close> keys gives a
  hash value that is not in the tree.\<close>

theorem check_all_paths_returns:
  assumes "chains_wf (cs_universe st)" "digests (cs_universe st)" "\<forall>p. je_loads env p"
    "it < length (u_items (cs_universe st))" "\<forall>i \<in> ran (cs_items st). i < length (u_items (cs_universe st))"
    "cs_items st (hash ((next_key ^^ m) key) path) = None"
  shows "\<exists>found st'. pkg_conflicts_check_all_paths (Suc m) env hash path it key st = Some (found, st')"
  using assms
proof (induction m arbitrary: key st)
  case (Suc m)
  let ?u = "cs_universe st"
  note step = pkg_conflicts_check_all_paths.simps(2) [of "Suc m" env hash path it key st, unfolded Let_def]
  show ?case
  proof (cases "cs_items st (hash key path)")
    case (Some cit)
    then have cit: "cit < length (u_items ?u)" using Suc.prems(5) by (auto simp: ran_def)
    have free: "cs_items st (hash ((next_key ^^ m) (next_key key)) path) = None"
      using Suc.prems(6) by (simp add: funpow_Suc_right del: funpow.simps)
    show ?thesis
    proof (cases "cit = it \<or> pkg_uid (item_pkg ?u it) = pkg_uid (item_pkg ?u cit) \<or> has_conflict (item_pkg ?u it) (pkg_uid (item_pkg ?u cit))")
      case True
      obtain found st' where "pkg_conflicts_check_all_paths (Suc m) env hash path it (next_key key) st = Some (found, st')"
        using Suc.IH [OF Suc.prems(1-5) free] by blast
      then show ?thesis using True Some by (auto simp: step)
    next
      case False
      then obtain n v where r: "pkg_conflicts_register_chain env it cit ?u = Some (n, v)" "more_conflicts ?u v" "u_nitems v = u_nitems ?u"
        using register_chain_returns [OF Suc.prems(1,2,4) cit _ Suc.prems(3)] by blast
      let ?st = "st\<lparr>cs_universe := v, cs_registered := cs_registered st + n\<rparr>"
      have len: "length (u_items v) = length (u_items ?u)" using r(2) by (simp add: more_conflicts_def)
      have "\<exists>found st'. pkg_conflicts_check_all_paths (Suc m) env hash path it (next_key key) ?st = Some (found, st')"
        by (rule Suc.IH) (use Suc.prems more_conflicts_keeps [OF r(2) Suc.prems(1) r(3)] len free in simp_all)
      then obtain found st' where "pkg_conflicts_check_all_paths (Suc m) env hash path it (next_key key) ?st = Some (found, st')" by blast
      then show ?thesis using Some False r(1) by (cases "n = 0") (simp_all add: step)
    qed
  qed (simp add: step)
qed (simp add: pkg_conflicts_check_all_paths.simps(2) Let_def)

declare pkg_conflicts_check_all_paths.simps(2) [simp]

section \<open>Instances\<close>

text \<open>Two requested packages that conflict, the second one of the lower version.\<close>

definition rival :: "string \<Rightarrow> string \<Rightarrow> string \<Rightarrow> pkg" where
  "rival uid v other = blank_pkg\<lparr>pkg_uid := uid, pkg_name := uid, pkg_version := v, pkg_digest := Some uid,
     pkg_conflicts := [\<lparr>conflict_uid = other, conflict_digest = None, conflict_type = PKG_CONFLICT_ALL\<rparr>]\<rparr>"

definition rivals :: universe where
  "rivals = \<lparr>u_items = map (\<lambda>p. \<lparr>ui_pkg = p, ui_priority = 0, ui_processed = True\<rparr>) [rival ''a'' ''2'' ''b'', rival ''b'' ''1'' ''a''],
     u_chains = [(''a'', [0]), (''b'', [1])], u_seen = [], u_provides = [], u_replaces = [], u_nitems = 2\<rparr>"

definition rival_requests :: requests where
  "rival_requests = [(''a'', (new_request False)\<lparr>rq_items := [0]\<rparr>), (''b'', (new_request False)\<lparr>rq_items := [1]\<rparr>)]"

lemma rival_versions:
  "pkg_version (request_pkg rivals rival_requests ''a'') = ''2''" "pkg_version (request_pkg rivals rival_requests ''b'') = ''1''"
  by code_simp+

theorem resolve_chain_keeps_one_witness:
  "{uid \<in> {''a'', ''b''}. \<not> skipped (pkg_conflicts_request_resolve_chain insertion_sort rivals ''a'' [''a'', ''b''] rival_requests) uid} = {''b''}"
proof -
  have d: "distinct [''a'', ''b'']" "[''a'', ''b''] \<noteq> []" by simp_all
  have m: "\<forall>uid \<in> set [''a'', ''b'']. uid \<in> dom (map_of rival_requests) \<and> \<not> skipped rival_requests uid" by code_simp
  have np: "\<not> (\<exists>uid \<in> set [''a'', ''b'']. pure_origin rivals rival_requests ''a'' uid)" by code_simp
  from resolve_chain_keeps_one [where name = "''a''" and u = rivals, OF chain_cmp.insertion_sort_sorts d m, unfolded if_not_P [OF np]] obtain w where
    w: "w \<in> set [''a'', ''b'']"
      "{uid \<in> set [''a'', ''b'']. \<not> skipped (pkg_conflicts_request_resolve_chain insertion_sort rivals ''a'' [''a'', ''b''] rival_requests) uid} = {w}"
      "\<forall>uid \<in> set [''a'', ''b'']. pkg_version_cmp (pkg_version (request_pkg rivals rival_requests w)) (pkg_version (request_pkg rivals rival_requests uid)) \<le> 0"
    by blast
  have "\<not> pkg_version_cmp ''2'' ''1'' \<le> 0" by code_simp
  then have "w \<noteq> ''a''" using w(3) rival_versions by auto
  then show ?thesis using w(1,2) by auto
qed

theorem request_resolve_separates_witness:
  "skipped (pkg_conflicts_request_resolve insertion_sort rivals rival_requests) ''a'' \<or>
   skipped (pkg_conflicts_request_resolve insertion_sort rivals rival_requests) ''b''"
proof -
  have d: "''a'' \<in> dom (map_of rival_requests)" "''b'' \<in> dom (map_of rival_requests)" "''a'' \<noteq> ''b''" by code_simp+
  have "clashes rivals rival_requests ''a'' ''b''"
    by (simp add: clashes_def rivals_def rival_requests_def request_pkg_def rival_def item_pkg_def pkg_jobs_universe_find_def new_request_def)
  then show ?thesis using request_resolve_separates [OF insertion_sort_chains refl d] by blast
qed

text \<open>Two remote chains of two versions each, and all of them install the same file.\<close>

definition owner_pkg :: "string \<Rightarrow> string \<Rightarrow> pkg" where
  "owner_pkg uid d = blank_pkg\<lparr>pkg_uid := uid, pkg_name := uid, pkg_digest := Some d, pkg_files := [''/f'']\<rparr>"

definition owners :: universe where
  "owners = \<lparr>u_items = map (\<lambda>p. \<lparr>ui_pkg = p, ui_priority = 0, ui_processed = True\<rparr>)
       [owner_pkg ''a'' ''a1'', owner_pkg ''a'' ''a2'', owner_pkg ''b'' ''b1'', owner_pkg ''b'' ''b2''],
     u_chains = [(''a'', [0, 1]), (''b'', [2, 3])], u_seen = [], u_provides = [], u_replaces = [], u_nitems = 4\<rparr>"

definition owners_after :: universe where
  "owners_after = snd (the (pkg_conflicts_register_chain (sample_env PKG_JOBS_INSTALL) 0 2 owners))"

lemma owners_run: "pkg_conflicts_register_chain (sample_env PKG_JOBS_INSTALL) 0 2 owners = Some (3, owners_after)"
proof -
  have "map_option fst (pkg_conflicts_register_chain (sample_env PKG_JOBS_INSTALL) 0 2 owners) = Some 3" by code_simp
  then show ?thesis by (auto simp: owners_after_def)
qed

theorem register_chain_complete_witness:
  "has_conflict (item_pkg owners_after 1) ''b'' \<and> has_conflict (item_pkg owners_after 3) ''a''"
proof -
  have c: "chain_back owners 0 = [0, 1]" "chain_back owners 2 = [2, 3]" "pkg_uid (item_pkg owners_after 1) = ''a''"
    "pkg_uid (item_pkg owners_after 3) = ''b''" "length (u_items owners) = 4" "share_path (item_pkg owners 1) (item_pkg owners 3)"
    by code_simp+
  have l: "\<forall>p. je_loads (sample_env PKG_JOBS_INSTALL) p" by (simp add: sample_env_def)
  show ?thesis
    using register_chain_complete [OF owners_run l, of 1 3] c by auto
qed

text \<open>The digest of a conflict is only recorded for the first package of a uid, so the rules of the
  solver do not exclude the second versions of two chains, though they install the same file.\<close>

theorem register_chain_misses_pair:
  "pkg_conflicts_register_chain (sample_env PKG_JOBS_INSTALL) 0 2 owners = Some (3, owners_after) \<and>
   share_path (item_pkg owners_after 1) (item_pkg owners_after 3) \<and>
   filter (\<lambda>c. conflict_applies (item_pkg owners_after 1) c (item_pkg owners_after 3) = Some True) (pkg_conflicts (item_pkg owners_after 1)) = [] \<and>
   filter (\<lambda>c. conflict_applies (item_pkg owners_after 3) c (item_pkg owners_after 1) = Some True) (pkg_conflicts (item_pkg owners_after 3)) = []"
proof -
  have "share_path (item_pkg owners_after 1) (item_pkg owners_after 3)"
    "filter (\<lambda>c. conflict_applies (item_pkg owners_after 1) c (item_pkg owners_after 3) = Some True) (pkg_conflicts (item_pkg owners_after 1)) = []"
    "filter (\<lambda>c. conflict_applies (item_pkg owners_after 3) c (item_pkg owners_after 1) = Some True) (pkg_conflicts (item_pkg owners_after 3)) = []"
    by code_simp+
  then show ?thesis using owners_run by blast
qed

theorem check_all_paths_returns_witness:
  "\<exists>found st'. pkg_conflicts_check_all_paths 2 (sample_env PKG_JOBS_INSTALL) (\<lambda>ks p. fst ks) ''/f'' 1 (0, 0)
     \<lparr>cs_universe = owners, cs_items = [0 \<mapsto> 2], cs_registered = 0\<rparr> = Some (found, st')"
proof -
  let ?st = "\<lparr>cs_universe = owners, cs_items = [0 \<mapsto> 2], cs_registered = 0\<rparr>"
  have s: "{0, 1, 2, 3} = {..<4::nat}" by auto
  have wf: "chains_wf (cs_universe ?st)"
    using s by (simp add: chains_wf_def owners_def item_pkg_def owner_pkg_def blank_pkg_def)
  have d: "digests (cs_universe ?st)"
    by (simp add: digests_def owners_def item_pkg_def owner_pkg_def less_Suc_eq numeral_eq_Suc)
  have l: "\<forall>p. je_loads (sample_env PKG_JOBS_INSTALL) p" by (simp add: sample_env_def)
  have i: "1 < length (u_items (cs_universe ?st))" "\<forall>i \<in> ran (cs_items ?st). i < length (u_items (cs_universe ?st))"
    by (simp_all add: owners_def)
  have f: "cs_items ?st ((\<lambda>ks p. fst ks) ((next_key ^^ 1) (0, 0)) ''/f'') = None" by (simp add: next_key_def)
  show ?thesis
    using check_all_paths_returns [where hash = "\<lambda>ks p. fst ks" and m = 1 and key = "(0, 0)" and path = "''/f''", OF wf d l i f]
    by (simp only: numeral_2_eq_2 One_nat_def)
qed

end
