(* ===== verification/Jobs_Install.thy ===== *)
theory Jobs_Install
  imports Jobs_Flags Conflicts
begin

text \<open>
  Install, upgrade and fetch jobs of \<^verbatim>\<open>libpkg/pkg_jobs.c\<close>: from the patterns of the user to a
  universe and a table of requests that the solver can work on.
\<close>

section \<open>State and environment\<close>

datatype match = MATCH_ALL | MATCH_EXACT | MATCH_GLOB | MATCH_REGEX | MATCH_CONDITION

record job_pattern =
  jp_pattern :: "string option"
  jp_path :: string
  jp_match :: match
  jp_file :: bool

text \<open>
  The queries of the repositories and of the local database, among them the one for the row of a
  package, \<open>None\<close> when one fails; the answers
  of the user; the packages in files; and the flags and settings of the job.
\<close>

record install_env =
  ie_env :: job_env
  ie_repo_query :: "string option \<Rightarrow> match \<Rightarrow> pkg list option"
  ie_query :: "string option \<Rightarrow> match \<Rightarrow> pkg list option"
  ie_by_id :: "pkg \<Rightarrow> pkg list option"
  ie_yesno :: "string \<Rightarrow> bool"
  ie_open :: "string \<Rightarrow> pkg option"
  ie_vulnerable :: bool
  ie_chain_sort :: chain_sort
  ie_chains :: chain_env
  ie_patterns :: "job_pattern list"
  ie_version_test :: bool
  ie_skip_install :: bool
  ie_upgrades_for_installed :: bool

record job_state =
  js_universe :: universe
  js_add :: requests

definition with_universe :: "job_state \<Rightarrow> universe \<Rightarrow> job_state" where
  "with_universe st u = st\<lparr>js_universe := u\<rparr>"

section \<open>One remote package\<close>

definition set_reasons :: "string \<Rightarrow> nat list \<Rightarrow> universe \<Rightarrow> universe" where
  "set_reasons r c u = fold (\<lambda>i v. if installed (item_pkg v i) then v else set_reason r i v) c u"

type_synonym remote_step = "job_state \<Rightarrow> pkg \<Rightarrow> (epkg \<times> job_state) option"

text \<open>The packages that depend on a vulnerable one are processed as well, whatever the outcome.\<close>

fun process_rdeps :: "remote_step \<Rightarrow> job_env \<Rightarrow> pkg_dep list \<Rightarrow> job_state \<Rightarrow> job_state option" where
  "process_rdeps rec env [] st = Some st"
| "process_rdeps rec env (d # ds) st =
     (case pkg_jobs_universe_get_local env (js_universe st) (dep_uid d) of
        None \<Rightarrow> process_rdeps rec env ds st
      | Some lp \<Rightarrow> (case rec st lp of None \<Rightarrow> None | Some (_, st') \<Rightarrow> process_rdeps rec env ds st'))"

text \<open>
  \<open>pkg_jobs_process_remote_pkg\<close>; a chain in the universe has a head. \<open>None\<close> is also the request
  item that the treatment of vulnerable packages takes for granted.
\<close>

definition remote_digest :: "job_env \<Rightarrow> pkg \<Rightarrow> (epkg \<times> pkg) option" where
  "remote_digest env rp = (if pkg_digest rp = None then checksum_calculate env rp else Some (EPKG_OK, rp))"

fun pkg_jobs_process_remote_pkg :: "nat \<Rightarrow> install_env \<Rightarrow> job_state \<Rightarrow> pkg \<Rightarrow> bool \<Rightarrow> (epkg \<times> job_state) option" where
  "pkg_jobs_process_remote_pkg 0 ienv st rp with_version = None"
| "pkg_jobs_process_remote_pkg (Suc n) ienv st rp with_version =
     (let env = ie_env ienv; u = js_universe st in
      case remote_digest env rp of
        None \<Rightarrow> None
      | Some (rc, rp') \<Rightarrow>
          if rc \<noteq> EPKG_OK then Some (EPKG_FATAL, st)
          else
            (let lp = (if je_type env \<noteq> PKG_JOBS_FETCH then pkg_jobs_universe_get_local env u (pkg_uid rp') else None) in
             if (case lp of None \<Rightarrow> False | Some l \<Rightarrow> pkg_locked l) then Some (EPKG_LOCKED, st)
             else
               (case pkg_jobs_universe_get_upgrade_candidates env u (pkg_uid rp') lp (je_force env)
                   (if with_version then Some (pkg_version rp') else None) of
                  None \<Rightarrow> None
                | Some (None, u') \<Rightarrow>
                    Some (if lp \<noteq> None then EPKG_INSTALLED else EPKG_FATAL, with_universe st u')
                | Some (Some nit, u') \<Rightarrow>
                    (case pkg_jobs_add_req_from_universe u' (js_add st) (hd nit) False False of
                       (nrit, reqs) \<Rightarrow>
                         (let st' = st\<lparr>js_universe := u', js_add := reqs\<rparr> in
                          if \<not> ie_vulnerable ienv
                          then Some (if nrit \<noteq> None then EPKG_OK else if lp \<noteq> None then EPKG_INSTALLED else EPKG_FATAL, st')
                          else
                            (case nrit of
                               None \<Rightarrow> None
                             | Some i \<Rightarrow>
                                 map_option (Pair EPKG_OK)
                                   (process_rdeps (\<lambda>s lp. pkg_jobs_process_remote_pkg n ienv s lp False) env (pkg_rdepends (item_pkg u' i))
                                     (with_universe st' (set_reasons ''vulnerability found'' nit u'))))))))) "

section \<open>Packages that changed their name\<close>

definition pkg_jobs_has_replacement :: "universe \<Rightarrow> string \<Rightarrow> bool" where
  "pkg_jobs_has_replacement u uid \<longleftrightarrow> uid \<in> snd ` set (u_replaces u)"

definition set_uid :: "string \<Rightarrow> nat \<Rightarrow> universe \<Rightarrow> universe" where
  "set_uid uid i u = u\<lparr>u_items := (u_items u)[i := (u_items u ! i)\<lparr>ui_pkg := (item_pkg u i)\<lparr>pkg_uid := uid\<rparr>\<rparr>]\<rparr>"

fun append_to_chain :: "string \<Rightarrow> nat \<Rightarrow> (string \<times> nat list) list \<Rightarrow> (string \<times> nat list) list" where
  "append_to_chain uid i [] = []"
| "append_to_chain uid i ((v, c) # cs) = (if v = uid then (v, c @ [i]) # cs else (v, c) # append_to_chain uid i cs)"

text \<open>
  \<open>pkg_jobs_universe_change_uid\<close> without an update of the reverse dependencies, as it is called:
  the unit leaves its table entry and joins the chain of its new uid. If there is such a chain,
  the rest of the old chain is no longer in the table.
\<close>

definition pkg_jobs_universe_change_uid :: "universe \<Rightarrow> string \<Rightarrow> nat list \<Rightarrow> string \<Rightarrow> universe" where
  "pkg_jobs_universe_change_uid u key chain new_uid =
     (let unit = hd chain; old = pkg_uid (item_pkg u unit); cs = filter (\<lambda>(v, _). v \<noteq> key) (u_chains u) in
      (set_uid new_uid unit u)\<lparr>u_replaces := (old, new_uid) # u_replaces u,
        u_chains := if map_of cs new_uid \<noteq> None then append_to_chain new_uid unit cs else cs @ [(new_uid, chain)]\<rparr>)"

text \<open>Text for a user: the question whether to replace a package.\<close>

definition change_question :: "string \<Rightarrow> string \<Rightarrow> string" where
  "change_question uid new_uid = uid @ '' has no direct installation candidates, change it to '' @ new_uid @ ''? ''"

fun try_candidates :: "nat \<Rightarrow> install_env \<Rightarrow> string \<Rightarrow> pkg list \<Rightarrow> job_state \<Rightarrow> (epkg \<times> job_state) option" where
  "try_candidates n ienv uid [] st = Some (EPKG_FATAL, st)"
| "try_candidates n ienv uid (p # ps) st =
     (if pkg_jobs_has_replacement (js_universe st) (pkg_uid p) then try_candidates n ienv uid ps st
      else if ie_yesno ienv (change_question uid (pkg_uid p)) then
        (case pkg_validate (ie_env ienv) p of
           None \<Rightarrow> None
         | Some (_, p') \<Rightarrow>
             (case pkg_jobs_universe_find (js_universe st) uid of
                None \<Rightarrow> None
              | Some c \<Rightarrow>
                  map_option (\<lambda>(rc, st'). (EPKG_OK, st'))
                    (pkg_jobs_process_remote_pkg n ienv
                      (with_universe st (pkg_jobs_universe_change_uid (js_universe st) uid c (pkg_uid p'))) p' False)))
      else try_candidates n ienv uid ps st)"

definition pkg_jobs_try_remote_candidate ::
  "nat \<Rightarrow> install_env \<Rightarrow> job_state \<Rightarrow> string \<Rightarrow> string \<Rightarrow> match \<Rightarrow> (epkg \<times> job_state) option" where
  "pkg_jobs_try_remote_candidate n ienv st pattern uid m =
     (case ie_repo_query ienv (Some pattern) m of
        None \<Rightarrow> Some (EPKG_FATAL, st)
      | Some ps \<Rightarrow> try_candidates n ienv uid ps st)"

text \<open>The condition that \<^verbatim>\<open>sqlite3_mprintf\<close> builds; \<^verbatim>\<open>%Q\<close> puts quotes around a text and doubles those in it.\<close>

definition sql_quote :: "string \<Rightarrow> string" where
  "sql_quote s = CHR 0x27 # concat (map (\<lambda>c. if c = CHR 0x27 then [c, c] else [c]) s) @ [CHR 0x27]"

definition name_condition :: "string \<Rightarrow> string" where
  "name_condition s = '' WHERE name REGEXP ('' @ sql_quote ''^'' @ '' || '' @ sql_quote s @ '' || '' @ sql_quote ''[0-9.]*$'' @ '')''"

definition strip_digits :: "string \<Rightarrow> string" where
  "strip_digits s = rev (dropWhile (\<lambda>c. isdigit c \<or> c = CHR ''.'') (rev s))"

text \<open>The name behind the first slash, unless it is empty.\<close>

definition after_slash :: "string \<Rightarrow> string option" where
  "after_slash pattern = (case strchr pattern CHR ''/'' of Some (_ # c # s) \<Rightarrow> Some (c # s) | _ \<Rightarrow> None)"

definition guess_without_numbers ::
  "nat \<Rightarrow> install_env \<Rightarrow> job_state \<Rightarrow> string \<Rightarrow> string \<Rightarrow> (epkg \<times> job_state) option" where
  "guess_without_numbers n ienv st pos pattern =
     (let stem = strip_digits pos in
      if stem = pos then Some (EPKG_FATAL, st)
      else (case pkg_jobs_try_remote_candidate n ienv st stem pattern MATCH_EXACT of
              None \<Rightarrow> None
            | Some (rc, st') \<Rightarrow>
                if rc = EPKG_OK then Some (EPKG_OK, st')
                else pkg_jobs_try_remote_candidate n ienv st' (name_condition stem) pattern MATCH_CONDITION))"

definition pkg_jobs_guess_upgrade_candidate ::
  "nat \<Rightarrow> install_env \<Rightarrow> job_state \<Rightarrow> string \<Rightarrow> (epkg \<times> job_state) option" where
  "pkg_jobs_guess_upgrade_candidate n ienv st pattern =
     (case after_slash pattern of
        None \<Rightarrow> guess_without_numbers n ienv st pattern pattern
      | Some pos \<Rightarrow>
          (case pkg_jobs_try_remote_candidate n ienv st pos pattern MATCH_EXACT of
             None \<Rightarrow> None
           | Some (rc, st') \<Rightarrow> if rc = EPKG_OK then Some (EPKG_OK, st') else guess_without_numbers n ienv st' pos pattern))"

section \<open>Searching for upgrades\<close>

text \<open>The packages that the repositories answer: the last code, whether one was \<open>EPKG_OK\<close>, the state.\<close>

fun upgrade_loop ::
  "nat \<Rightarrow> install_env \<Rightarrow> string option \<Rightarrow> pkg list \<Rightarrow> epkg \<Rightarrow> bool \<Rightarrow> job_state \<Rightarrow> (epkg \<times> bool \<times> job_state) option" where
  "upgrade_loop n ienv pattern [] rc found st = Some (rc, found, st)"
| "upgrade_loop n ienv pattern (p # ps) rc found st =
     (case pkg_jobs_process_remote_pkg n ienv st p (case pattern of None \<Rightarrow> False | Some s \<Rightarrow> pkg_name p \<noteq> s) of
        None \<Rightarrow> None
      | Some (rc', st') \<Rightarrow>
          if rc' = EPKG_FATAL then Some (rc', found, st')
          else upgrade_loop n ienv pattern ps rc' (found \<or> rc' = EPKG_OK) st')"

text \<open>
  A package that no repository offers: unless an installed package needs it, it is added to the
  universe and a package of a similar name may replace it. \<open>None\<close> is also the null pattern, which
  the table of the universe is asked for.
\<close>

definition find_replacement :: "nat \<Rightarrow> install_env \<Rightarrow> job_state \<Rightarrow> string option \<Rightarrow> (epkg \<times> job_state) option" where
  "find_replacement n ienv st pattern =
     (let env = ie_env ienv; u = js_universe st in
      case pattern of
        None \<Rightarrow> None
      | Some s \<Rightarrow>
          (case pkg_jobs_universe_get_local env u s of
             None \<Rightarrow> Some (EPKG_FATAL, st)
           | Some p \<Rightarrow>
               if \<exists>d \<in> set (pkg_rdepends p). pkg_jobs_universe_get_local env u (dep_uid d) \<noteq> None then Some (EPKG_END, st)
               else (case pkg_jobs_universe_add_pkg env u p of
                       None \<Rightarrow> None
                     | Some (rc, _, _, u') \<Rightarrow>
                         if rc = EPKG_OK then pkg_jobs_guess_upgrade_candidate n ienv (with_universe st u') s
                         else Some (rc, with_universe st u'))))"

definition pkg_jobs_find_upgrade ::
  "nat \<Rightarrow> install_env \<Rightarrow> job_state \<Rightarrow> string option \<Rightarrow> match \<Rightarrow> (epkg \<times> job_state) option" where
  "pkg_jobs_find_upgrade n ienv st pattern m =
     (case upgrade_loop n ienv pattern (case ie_repo_query ienv pattern m of None \<Rightarrow> [] | Some ps \<Rightarrow> ps) EPKG_FATAL False st of
        None \<Rightarrow> None
      | Some (rc, found, st') \<Rightarrow>
          if \<not> found \<and> rc \<noteq> EPKG_INSTALLED then find_replacement n ienv st' pattern else Some (rc, st'))"

definition pkg_jobs_check_local_pkg :: "install_env \<Rightarrow> string option \<Rightarrow> match \<Rightarrow> epkg" where
  "pkg_jobs_check_local_pkg ienv pattern m =
     (case ie_query ienv pattern m of None \<Rightarrow> EPKG_FATAL | Some [] \<Rightarrow> EPKG_FATAL | Some _ \<Rightarrow> EPKG_OK)"

text \<open>A pattern names a package of the repositories, or a file whose package is requested itself.\<close>

definition file_pattern :: "install_env \<Rightarrow> job_state \<Rightarrow> job_pattern \<Rightarrow> (epkg \<times> job_state) option" where
  "file_pattern ienv st jp =
     (let env = ie_env ienv in
      case ie_open ienv (jp_path jp) of
        None \<Rightarrow> Some (EPKG_FATAL, st)
      | Some p \<Rightarrow>
          (case pkg_validate env p of
             None \<Rightarrow> None
           | Some (rc, p') \<Rightarrow>
               if rc \<noteq> EPKG_OK then Some (EPKG_FATAL, st)
               else if je_type env = PKG_JOBS_UPGRADE \<and> pkg_jobs_check_local_pkg ienv (Some (pkg_name p')) MATCH_EXACT \<noteq> EPKG_OK
               then Some (EPKG_NOTINSTALLED, st)
               else map_option (\<lambda>(_, reqs, u). (EPKG_OK, st\<lparr>js_universe := u, js_add := reqs\<rparr>))
                 (pkg_jobs_add_req env (js_universe st) (js_add st) (p'\<lparr>pkg_kind := PKG_FILE\<rparr>))))"

definition pkg_jobs_find_remote_pattern :: "nat \<Rightarrow> install_env \<Rightarrow> job_state \<Rightarrow> job_pattern \<Rightarrow> (epkg \<times> job_state) option" where
  "pkg_jobs_find_remote_pattern n ienv st jp =
     (if jp_file jp then file_pattern ienv st jp
      else if je_type (ie_env ienv) = PKG_JOBS_UPGRADE \<and> pkg_jobs_check_local_pkg ienv (jp_pattern jp) (jp_match jp) \<noteq> EPKG_OK
      then Some (EPKG_NOTINSTALLED, st)
      else pkg_jobs_find_upgrade n ienv st (jp_pattern jp) (jp_match jp))"

text \<open>
  The installed packages that differ from what the repositories offer under their uid; a package
  of a repository without a digest is a null pointer. The list is built from its end.
\<close>

definition pkg_jobs_check_remote_candidate :: "install_env \<Rightarrow> pkg \<Rightarrow> bool option" where
  "pkg_jobs_check_remote_candidate ienv p =
     (case pkg_digest p of
        None \<Rightarrow> Some True
      | Some d \<Rightarrow>
          (case ie_repo_query ienv (Some (pkg_uid p)) MATCH_EXACT of
             None \<Rightarrow> Some True
           | Some ps \<Rightarrow>
               if \<exists>q \<in> set ps. pkg_digest q = None then None
               else Some (\<exists>q \<in> set ps. pkg_digest q \<noteq> Some d)))"

fun pkg_jobs_find_install_candidates :: "install_env \<Rightarrow> pkg list \<Rightarrow> pkg list \<Rightarrow> pkg list option" where
  "pkg_jobs_find_install_candidates ienv [] cands = Some cands"
| "pkg_jobs_find_install_candidates ienv (p # ps) cands =
     (if je_force (ie_env ienv) then pkg_jobs_find_install_candidates ienv ps (p # cands)
      else (case pkg_jobs_check_remote_candidate ienv p of
              None \<Rightarrow> None
            | Some b \<Rightarrow> pkg_jobs_find_install_candidates ienv ps (if b then p # cands else cands)))"

section \<open>A new version of the package manager\<close>

text \<open>The search runs without \<^verbatim>\<open>PKG_FLAG_FORCE\<close> and \<^verbatim>\<open>PKG_FLAG_RECURSIVE\<close>.\<close>

definition unforced :: "install_env \<Rightarrow> install_env" where
  "unforced ienv = ienv\<lparr>ie_env := (ie_env ienv)\<lparr>je_force := False, je_recursive := False\<rparr>\<rparr>"

definition new_pkg_version :: "nat \<Rightarrow> install_env \<Rightarrow> job_state \<Rightarrow> (bool \<times> job_state) option" where
  "new_pkg_version n ienv st =
     (let uid = ''ravensw:standard''; jenv = unforced ienv in
      case pkg_jobs_universe_get_local (ie_env jenv) (js_universe st) uid of
        None \<Rightarrow> Some (False, st)
      | Some p \<Rightarrow>
          (case pkg_jobs_find_upgrade n jenv st (Some uid) MATCH_EXACT of
             None \<Rightarrow> None
           | Some (rc, st') \<Rightarrow>
               (case pkg_jobs_universe_find (js_universe st') uid of
                  Some c \<Rightarrow>
                    Some (rc = EPKG_OK \<and>
                      (\<exists>i \<in> set c. pkg_version_change_between (item_pkg (js_universe st') i) (Some p) = PKG_UPGRADE), st')
                | None \<Rightarrow> Some (False, st'))))"

section \<open>The job\<close>

text \<open>Each requested package is processed with what it needs, whatever the outcome.\<close>

fun process_requests :: "nat \<Rightarrow> job_env \<Rightarrow> requests \<Rightarrow> universe \<Rightarrow> universe option" where
  "process_requests n env [] u = Some u"
| "process_requests n env ((uid, req) # reqs) u =
     (case pkg_jobs_universe_process env n u (item_pkg u (hd (rq_items req))) of
        None \<Rightarrow> None
      | Some (_, u') \<Rightarrow> process_requests n env reqs u')"

text \<open>The candidates for upgrades, found again by their row of the local database.\<close>

fun find_upgrades :: "nat \<Rightarrow> install_env \<Rightarrow> pkg list \<Rightarrow> job_state \<Rightarrow> job_state option" where
  "find_upgrades n ienv [] st = Some st"
| "find_upgrades n ienv (p # ps) st =
     (case pkg_jobs_find_upgrade n ienv st (Some (pkg_uid p)) MATCH_EXACT of
        None \<Rightarrow> None
      | Some (_, st') \<Rightarrow> find_upgrades n ienv ps st')"

fun candidates_loop :: "nat \<Rightarrow> install_env \<Rightarrow> pkg list \<Rightarrow> job_state \<Rightarrow> (epkg \<times> job_state) option" where
  "candidates_loop n ienv [] st = Some (EPKG_OK, st)"
| "candidates_loop n ienv (p # ps) st =
     (case ie_by_id ienv p of
        None \<Rightarrow> Some (EPKG_FATAL, st)
      | Some qs \<Rightarrow> (case find_upgrades n ienv qs st of None \<Rightarrow> None | Some st' \<Rightarrow> candidates_loop n ienv ps st'))"

fun patterns_loop :: "nat \<Rightarrow> install_env \<Rightarrow> job_pattern list \<Rightarrow> job_state \<Rightarrow> (epkg \<times> job_state) option" where
  "patterns_loop n ienv [] st = Some (EPKG_OK, st)"
| "patterns_loop n ienv (jp # jps) st =
     (case pkg_jobs_find_remote_pattern n ienv st jp of
        None \<Rightarrow> None
      | Some (rc, st') \<Rightarrow>
          if rc = EPKG_FATAL \<and> \<not> ie_vulnerable ienv then Some (rc, st')
          else if rc = EPKG_LOCKED then Some (rc, st')
          else patterns_loop n ienv jps st')"

definition cut_requests :: "install_env \<Rightarrow> job_state \<Rightarrow> job_state option" where
  "cut_requests ienv st =
     map_option (\<lambda>reqs. st\<lparr>js_add := reqs\<rparr>) (pkg_jobs_universe_process_upgrade_chains (ie_chains ienv) (js_universe st) (js_add st))"

definition process_all :: "nat \<Rightarrow> install_env \<Rightarrow> job_state \<Rightarrow> job_state option" where
  "process_all n ienv st = map_option (with_universe st) (process_requests n (ie_env ienv) (js_add st) (js_universe st))"

text \<open>What a first attempt collects: upgrades of everything, or what the patterns ask for.\<close>

definition collect :: "nat \<Rightarrow> install_env \<Rightarrow> job_state \<Rightarrow> (epkg \<times> job_state) option" where
  "collect n ienv st =
     (if ie_patterns ienv = [] then
        (case pkg_jobs_find_install_candidates ienv (case ie_query ienv None MATCH_ALL of None \<Rightarrow> [] | Some ps \<Rightarrow> ps) [] of
           None \<Rightarrow> None
         | Some cands \<Rightarrow>
             (case candidates_loop n ienv cands st of
                None \<Rightarrow> None
              | Some (rc, st1) \<Rightarrow>
                  if rc \<noteq> EPKG_OK then Some (rc, st1)
                  else (case process_all n ienv st1 of
                          None \<Rightarrow> None
                        | Some st2 \<Rightarrow> map_option (Pair EPKG_OK) (cut_requests ienv st2))))
      else
        (case patterns_loop n ienv (ie_patterns ienv) st of
           None \<Rightarrow> None
         | Some (rc, st1) \<Rightarrow>
             if rc \<noteq> EPKG_OK then Some (rc, st1)
             else (case cut_requests ienv st1 of
                     None \<Rightarrow> None
                   | Some st2 \<Rightarrow> map_option (Pair EPKG_OK) (process_all n ienv st2))))"

definition resolve_and_flag :: "install_env \<Rightarrow> job_state \<Rightarrow> job_state" where
  "resolve_and_flag ienv st =
     (let reqs = pkg_conflicts_request_resolve (ie_chain_sort ienv) (js_universe st) (js_add st)
      in \<lparr>js_universe = pkg_jobs_propagate_automatic (je_type (ie_env ienv)) reqs (js_universe st), js_add = reqs\<rparr>)"

text \<open>
  \<open>jobs_solve_install_upgrade\<close> of a job solved \<open>solved\<close> times; the inner boolean tells that a new
  version of the package manager was found, which ends the job's conservative mode and pinning.
\<close>

definition jobs_solve_install_upgrade ::
  "nat \<Rightarrow> install_env \<Rightarrow> nat \<Rightarrow> job_state \<Rightarrow> (epkg \<times> bool \<times> nat \<times> job_state) option" where
  "jobs_solve_install_upgrade n ienv solved st =
     (case (if \<not> ie_skip_install ienv \<and> ie_version_test ienv then new_pkg_version n ienv st else Some (False, st)) of
        None \<Rightarrow> None
      | Some (True, st0) \<Rightarrow> Some (EPKG_OK, True, solved + 1, st0)
      | Some (False, st0) \<Rightarrow>
          if ie_patterns ienv = [] \<and> je_type (ie_env ienv) = PKG_JOBS_INSTALL then Some (EPKG_FATAL, False, solved, st0)
          else
            (case (if solved = 0 then collect n ienv st0 else map_option (Pair EPKG_OK) (process_all n ienv st0)) of
               None \<Rightarrow> None
             | Some (rc, st1) \<Rightarrow>
                 if rc \<noteq> EPKG_OK then Some (rc, False, solved, st1)
                 else Some (EPKG_OK, False, solved + 1, resolve_and_flag ienv st1)))"

text \<open>Fetch jobs.\<close>

fun fetch_patterns :: "nat \<Rightarrow> install_env \<Rightarrow> job_pattern list \<Rightarrow> job_state \<Rightarrow> job_state option" where
  "fetch_patterns n ienv [] st = Some st"
| "fetch_patterns n ienv (jp # jps) st =
     (case pkg_jobs_find_upgrade n ienv st (jp_pattern jp) (jp_match jp) of
        None \<Rightarrow> None
      | Some (_, st') \<Rightarrow> fetch_patterns n ienv jps st')"

definition jobs_solve_fetch :: "nat \<Rightarrow> install_env \<Rightarrow> nat \<Rightarrow> job_state \<Rightarrow> (epkg \<times> nat \<times> job_state) option" where
  "jobs_solve_fetch n ienv solved st =
     (if ie_upgrades_for_installed ienv then
        (case ie_query ienv None MATCH_ALL of
           None \<Rightarrow> Some (EPKG_FATAL, solved, st)
         | Some ps \<Rightarrow> map_option (\<lambda>st'. (EPKG_OK, solved + 1, st')) (find_upgrades n ienv (filter (\<lambda>p. \<not> pkg_locked p) ps) st))
      else
        (case fetch_patterns n ienv (ie_patterns ienv) st of
           None \<Rightarrow> None
         | Some st1 \<Rightarrow> map_option (\<lambda>st'. (EPKG_OK, solved + 1, st')) (process_all n ienv st1)))"

end
