(* ===== verification/Universe_Invariant.thy ===== *)
theory Universe_Invariant
  imports Universe_Facts
begin

text \<open>
  Invariants of the universe. Every operation of \<^verbatim>\<open>pkg_jobs_universe.c\<close> changes the universe only by
  adding a package, marking an item as processed and registering a provide, so a property that
  these three keep holds in every later universe.
\<close>

definition keeps :: "(universe \<Rightarrow> bool) \<Rightarrow> process \<Rightarrow> bool" where
  "keeps I rec \<longleftrightarrow> (\<forall>u p rc f p' u'. I u \<longrightarrow> rec u p = Some (rc, f, p', u') \<longrightarrow> I u')"

lemma keepsD: "rec u p = Some (rc, f, p', u') \<Longrightarrow> keeps I rec \<Longrightarrow> I u \<Longrightarrow> I u'"
  unfolding keeps_def by blast

locale universe_invariant =
  fixes env :: job_env and I :: "universe \<Rightarrow> bool"
  assumes add_pkg: "pkg_jobs_universe_add_pkg env u p = Some (rc, f, p', u') \<Longrightarrow> I u \<Longrightarrow> I u'"
    and mark: "I u \<Longrightarrow> I (mark_processed i u)"
    and provide: "I u \<Longrightarrow> I (snd (add_provide nm b unit h u))"
begin

lemma remotes:
  assumes rec: "keeps I rec"
  shows "process_remotes rec npkg rs u = Some (x, u') \<Longrightarrow> I u \<Longrightarrow> I u'"
proof (induction rs arbitrary: u)
  case (Cons r rs)
  then show ?case
    by (cases npkg) (auto split: option.splits prod.splits bool.splits if_splits, (blast intro: keepsD [OF _ rec])+)
qed simp

lemma dep:
  assumes rec: "keeps I rec"
  shows "process_dep rec env flags p u d = Some (x, u') \<Longrightarrow> I u \<Longrightarrow> I u'"
  by (auto simp: process_dep_def Let_def split: option.splits if_splits) (blast intro: keepsD [OF _ rec] remotes [OF rec])+

lemma dep_list:
  assumes rec: "keeps I rec"
  shows "process_dep_list rec env flags p ds u = Some (x, u') \<Longrightarrow> I u \<Longrightarrow> I u'"
  by (induction ds arbitrary: u) (auto split: option.splits, (blast intro: dep [OF rec])+)

lemma unit:
  assumes rec: "keeps I rec"
  shows "provide_unit rec env u r = Some (x, u') \<Longrightarrow> I u \<Longrightarrow> I u'"
  by (auto simp: provide_unit_def split: option.splits if_splits) (blast intro: keepsD [OF _ rec])+

lemma loop:
  assumes rec: "keeps I rec"
  shows "provide_loop rec env nm b h rs u = Some (x, u') \<Longrightarrow> I u \<Longrightarrow> I u'"
proof (induction rs arbitrary: u h)
  case (Cons r rs)
  obtain o1 u1 where o: "provide_unit rec env u r = Some (o1, u1)" using Cons.prems(1) by (auto split: option.splits)
  then have 1: "I u1" using unit [OF rec] Cons.prems(2) by blast
  show ?case
  proof (cases o1)
    case (Register un)
    obtain h2 u2 where "add_provide nm b un h u1 = (h2, u2)" by fastforce
    then show ?thesis using Cons o Register provide [OF 1, of nm b un h] by simp
  qed (use Cons o 1 in auto)
qed simp

lemma handle:
  assumes rec: "keeps I rec"
  shows "pkg_jobs_universe_handle_provide rec env nm b rs u = Some (x, u') \<Longrightarrow> I u \<Longrightarrow> I u'"
  unfolding pkg_jobs_universe_handle_provide_def by (rule loop [OF rec])

lemma shlibs:
  assumes rec: "keeps I rec"
  shows "process_shlib_list rec env bs u = Some (x, u') \<Longrightarrow> I u \<Longrightarrow> I u'"
  by (induction bs arbitrary: u) (auto split: option.splits if_splits, (blast intro: handle [OF rec])+)

lemma requires:
  assumes rec: "keeps I rec"
  shows "process_require_list rec env bs u = Some (x, u') \<Longrightarrow> I u \<Longrightarrow> I u'"
  by (induction bs arbitrary: u) (auto split: option.splits if_splits, (blast intro: handle [OF rec])+)

lemma sequence:
  "(\<And>rc v. x = Some (rc, v) \<Longrightarrow> I v) \<Longrightarrow> (\<And>v rc w. I v \<Longrightarrow> f v = Some (rc, w) \<Longrightarrow> I w) \<Longrightarrow> and_then x f = Some (rc, w) \<Longrightarrow> I w"
  by (auto simp: and_then_def split: option.splits if_splits)

lemma by_type:
  assumes rec: "keeps I rec"
    and u: "I u" and run: "process_by_type rec env rc0 p u = Some (x, u')"
  shows "I u'"
proof -
  have deps: "I w" if "I v" "pkg_jobs_universe_process_deps rec env fl p v = Some (rc, w)" for fl v rc w
    using dep_list [OF rec] that unfolding pkg_jobs_universe_process_deps_def by blast
  have libs: "I w" if "I v" "pkg_jobs_universe_process_shlibs rec env p v = Some (rc, w)" for v rc w
    using shlibs [OF rec] that unfolding pkg_jobs_universe_process_shlibs_def by blast
  have reqs: "I w" if "I v" "pkg_jobs_universe_process_provides_requires rec env p v = Some (rc, w)" for v rc w
    using requires [OF rec] that unfolding pkg_jobs_universe_process_provides_requires_def by blast
  have all: "I w" if "and_then (and_then (and_then (pkg_jobs_universe_process_deps rec env fl p u)
      (pkg_jobs_universe_process_deps rec env fr p)) (pkg_jobs_universe_process_shlibs rec env p))
      (pkg_jobs_universe_process_provides_requires rec env p) = Some (rc, w)" for fl fr rc w
    using that by (elim sequence [rotated 2]) (use deps libs reqs u in blast)+
  show ?thesis using run deps [OF u] all u by (auto simp: process_by_type_def Let_def split: pkg_jobs_type.splits if_splits)
qed

lemma process_item: "pkg_jobs_universe_process_item env n u p = Some (rc, f, p', u') \<Longrightarrow> I u \<Longrightarrow> I u'"
proof (induction n arbitrary: u p rc f p' u')
  case (Suc n)
  obtain rc0 f0 p0 u0 where a: "pkg_jobs_universe_add_pkg env u p = Some (rc0, f0, p0, u0)"
    using Suc.prems(1) by (auto split: option.splits)
  note 0 = add_pkg [OF a Suc.prems(2)]
  have t: "I w" if "process_by_type (pkg_jobs_universe_process_item env n) env r0 q (mark_processed i u0) = Some (rc, w)" for i r0 rc w q
    using by_type [OF _ mark [OF 0] that] Suc.IH unfolding keeps_def by blast
  show ?case using Suc.prems(1) a 0 by (auto split: if_splits option.splits) (blast intro: t)+
qed simp

lemma process: "pkg_jobs_universe_process env n u p = Some (rc, u') \<Longrightarrow> I u \<Longrightarrow> I u'"
  by (auto simp: pkg_jobs_universe_process_def split: option.splits dest: process_item)

lemma add_null: "add_pkg_null env u p = Some u' \<Longrightarrow> I u \<Longrightarrow> I u'"
  by (auto simp: add_pkg_null_def split: option.splits if_splits dest: add_pkg)

lemma all: "add_all env ps u = Some u' \<Longrightarrow> I u \<Longrightarrow> I u'"
  by (induction ps arbitrary: u) (auto split: option.splits dest: add_null)

lemma upgrade_candidates:
  "pkg_jobs_universe_get_upgrade_candidates env u uid lp force version = Some (c, u') \<Longrightarrow> I u \<Longrightarrow> I u'"
  by (auto simp: pkg_jobs_universe_get_upgrade_candidates_def upgrade_query_def Let_def
      split: option.splits prod.splits if_splits dest: add_null all)

end

section \<open>No item is locked\<close>

definition unlocked :: "universe \<Rightarrow> bool" where
  "unlocked u \<longleftrightarrow> (\<forall>i < length (u_items u). \<not> pkg_locked (item_pkg u i))"

lemma unlocked_add_item:
  assumes "unlocked u" "\<not> pkg_locked p"
  shows "unlocked (add_item u p d)"
proof -
  have "item_pkg (add_item u p d) i = (if i < length (u_items u) then item_pkg u i else p)" if "i < Suc (length (u_items u))" for i
    using that item_pkg_add_item [of u p d i] by (cases "i < length (u_items u)") (simp_all add: less_Suc_eq)
  then show ?thesis using assms by (simp add: unlocked_def)
qed

interpretation unlocked: universe_invariant env unlocked for env
proof
  show "unlocked u'" if "unlocked u" "pkg_jobs_universe_add_pkg env u p = Some (rc, f, p', u')" for u p rc f p' u'
    using that unlocked_add_item by (auto simp: pkg_jobs_universe_add_pkg_def Let_def split: option.splits if_splits bool.splits)
  show "unlocked (mark_processed i u)" if "unlocked u" for u i
    using that by (cases "i < length (u_items u)")
      (auto simp: unlocked_def mark_processed_def item_pkg_def nth_list_update list_update_beyond not_less)
  show "unlocked (snd (add_provide nm b unit h u))" if "unlocked u" for nm b unit h u
    using that by (auto simp: unlocked_def add_provide_def item_pkg_def Let_def split: option.split prod.split)
qed

end
