(* ===== verification/Install_Facts.thy ===== *)
theory Install_Facts
  imports Jobs_Install Universe_Invariant
begin

text \<open>
  Install and upgrade jobs end, and hand the solver a universe and requests that it can work on,
  for consistent databases and a user who accepts no replacement of a package by another one.
\<close>

section \<open>The state\<close>

definition requests_ok :: "universe \<Rightarrow> requests \<Rightarrow> bool" where
  "requests_ok u reqs \<longleftrightarrow> (\<forall>(uid, req) \<in> set reqs. rq_items req \<noteq> [] \<and>
     (\<forall>i \<in> set (rq_items req). i < length (u_items u) \<and> pkg_uid (item_pkg u i) = uid))"

definition state_ok :: "pkg_id set \<Rightarrow> job_state \<Rightarrow> bool" where
  "state_ok K st \<longleftrightarrow> universe_ok K (js_universe st) \<and> unlocked (js_universe st) \<and> requests_ok (js_universe st) (js_add st)"

lemma requests_ok_extends: "requests_ok u reqs \<Longrightarrow> extends u v \<Longrightarrow> requests_ok v reqs"
  unfolding requests_ok_def extends_def by fastforce

lemma requests_ok_set:
  "requests_ok u reqs \<Longrightarrow> rq_items r \<noteq> [] \<Longrightarrow> \<forall>i \<in> set (rq_items r). i < length (u_items u) \<and> pkg_uid (item_pkg u i) = uid \<Longrightarrow>
    requests_ok u (set_request uid r reqs)"
  unfolding requests_ok_def by (induction uid r reqs rule: set_request.induct) auto

lemma requests_okD:
  "requests_ok u reqs \<Longrightarrow> find_request reqs uid = Some req \<Longrightarrow>
    rq_items req \<noteq> [] \<and> (\<forall>i \<in> set (rq_items req). i < length (u_items u) \<and> pkg_uid (item_pkg u i) = uid)"
  unfolding requests_ok_def find_request_def by (auto dest: map_of_SomeD)

section \<open>Candidates\<close>

lemma add_pkg_total:
  assumes "universe_ok K u" "consistent K" "admissible K p"
  shows "\<exists>rc f u'. pkg_jobs_universe_add_pkg env u p = Some (rc, f, p, u') \<and> rc \<noteq> EPKG_FATAL \<and> universe_ok K u' \<and> extends u u' \<and>
    (f = None \<longrightarrow> rc = EPKG_LOCKED \<and> pkg_locked p)"
  using add_pkg_cases [OF assms, of env]
proof (elim disjE conjE exE)
  fix d assume n: "\<forall>i < length (u_items u). pkg_key (item_pkg u i) \<noteq> pkg_key p" "\<not> pkg_locked p" "pkg_digest p = Some d"
    "pkg_jobs_universe_add_pkg env u p = Some (EPKG_OK, Some (length (u_items u)), p, add_item u p d)"
  then show ?thesis using universe_ok_add_item [OF assms(1,3) n(3,1)] extends_add_item by simp
qed (use assms(1) in auto)

lemma add_null_total:
  assumes "universe_ok K u" "consistent K" "admissible K p"
  shows "\<exists>u'. add_pkg_null env u p = Some u' \<and> universe_ok K u' \<and> extends u u'"
  using add_pkg_total [OF assms, of env] by (auto simp: add_pkg_null_def)

lemma add_all_total:
  "universe_ok K u \<Longrightarrow> consistent K \<Longrightarrow> \<forall>p \<in> set ps. admissible K p \<Longrightarrow>
    \<exists>u'. add_all env ps u = Some u' \<and> universe_ok K u' \<and> extends u u'"
proof (induction ps arbitrary: u)
  case (Cons p ps)
  from add_null_total [OF Cons.prems(1,2), of p env] Cons.prems(3) obtain v where
    v: "add_pkg_null env u p = Some v" "universe_ok K v" "extends u v" by auto
  from Cons.IH [OF v(2) Cons.prems(2)] Cons.prems(3) obtain w where "add_all env ps v = Some w" "universe_ok K w" "extends v w" by auto
  then show ?case using v extends_trans [of u v w] by auto
qed simp

lemma collect_admissible:
  "collect_candidates force version lp ps sel cands = (sel', cands') \<Longrightarrow>
    \<forall>p \<in> set ps \<union> set cands. admissible K p \<Longrightarrow> \<forall>p \<in> set cands'. admissible K p"
proof (induction force version lp ps sel cands rule: collect_candidates.induct)
  case (2 force version lp p ps sel cands)
  have n: "admissible K p'" if "pkg_jobs_need_upgrade p lp = (b, p')" for b p'
    using need_upgrade_admissible [OF that] 2(7) by simp
  show ?case
    using 2 n by (auto simp: Let_def split: if_splits option.splits prod.splits bool.splits)
qed simp

lemma upgrade_query_total:
  assumes "universe_ok K u" "env_ok K env" "\<forall>l. lp = Some l \<longrightarrow> admissible K l"
  shows "\<exists>c u'. upgrade_query env u uid lp force version = Some (c, u') \<and> universe_ok K u' \<and> extends u u' \<and>
    (\<forall>nit. c = Some nit \<longrightarrow> pkg_jobs_universe_find u' uid = Some nit)"
proof -
  have K: "consistent K" using assms(2) by (simp add: env_ok_def)
  obtain sel cands where c: "collect_candidates force version lp (je_remote env uid) None [] = (sel, cands)" by fastforce
  have cands: "\<forall>p \<in> set cands. admissible K p" using collect_admissible [OF c] assms(2) by (simp add: env_ok_def)
  obtain v where v: "(case lp of None \<Rightarrow> Some u | Some l \<Rightarrow> add_pkg_null env u l) = Some v" "universe_ok K v" "extends u v"
    using assms(1,3) add_null_total [OF assms(1) K, of _ env] by (cases lp) auto
  obtain w where w: "add_all env cands v = Some w" "universe_ok K w" "extends v w" using add_all_total [OF v(2) K cands] by blast
  show ?thesis
  proof (cases "sel = None")
    case True
    then show ?thesis using v c by (simp add: upgrade_query_def)
  next
    case False
    then show ?thesis using v c w extends_trans [OF v(3) w(3)] by (simp add: upgrade_query_def)
  qed
qed

lemma upgrade_candidates_total:
  assumes "universe_ok K u" "env_ok K env" "\<forall>l. lp = Some l \<longrightarrow> admissible K l"
  shows "\<exists>c u'. pkg_jobs_universe_get_upgrade_candidates env u uid lp force version = Some (c, u') \<and> universe_ok K u' \<and> extends u u' \<and>
    (\<forall>nit. c = Some nit \<longrightarrow> pkg_jobs_universe_find u' uid = Some nit)"
  using upgrade_query_total [OF assms] assms(1)
  by (auto simp: pkg_jobs_universe_get_upgrade_candidates_def split: option.split)

section \<open>Requests\<close>

lemma add_req_from_universe_ok:
  assumes "universe_ok K u" "requests_ok u reqs" "un < length (u_items u)"
    and run: "pkg_jobs_add_req_from_universe u reqs un local automatic = (r, reqs')"
  shows "requests_ok u reqs'"
proof -
  let ?uid = "pkg_uid (item_pkg u un)"
  let ?nits = "filter (\<lambda>uit. installed (item_pkg u uit) \<longleftrightarrow> local) (chain_from u un)"
  have nits: "i < length (u_items u) \<and> pkg_uid (item_pkg u i) = ?uid" if "i \<in> set ?nits" for i
    using that chain_from_eq [OF assms(1,3)] by simp
  show ?thesis
  proof (cases "find_request reqs ?uid")
    case None
    show ?thesis
    proof (cases ?nits)
      case Nil
      then show ?thesis using run None assms(2) by (simp add: pkg_jobs_add_req_from_universe_def Let_def)
    next
      case (Cons i js)
      then have "reqs' = set_request ?uid ((new_request automatic)\<lparr>rq_items := ?nits\<rparr>) reqs"
        using run None by (simp add: pkg_jobs_add_req_from_universe_def Let_def)
      then show ?thesis using requests_ok_set [OF assms(2)] nits Cons by simp
    qed
  next
    case (Some req)
    note q = requests_okD [OF assms(2) Some]
    have "reqs' = reqs \<or> reqs' = set_request ?uid (req\<lparr>rq_items := rq_items req @ ?nits\<rparr>) reqs"
      using run Some by (auto simp: pkg_jobs_add_req_from_universe_def Let_def split: if_splits)
    moreover have "requests_ok u (set_request ?uid (req\<lparr>rq_items := rq_items req @ ?nits\<rparr>) reqs)"
      by (rule requests_ok_set [OF assms(2)]) (use q nits in auto)
    ultimately show ?thesis using assms(2) by blast
  qed
qed

text \<open>The databases and answers that an install job relies on.\<close>

definition install_ok :: "pkg_id set \<Rightarrow> install_env \<Rightarrow> bool" where
  "install_ok K ienv \<longleftrightarrow> env_ok K (ie_env ienv) \<and>
     (je_type (ie_env ienv) = PKG_JOBS_INSTALL \<or> je_type (ie_env ienv) = PKG_JOBS_UPGRADE) \<and>
     (\<forall>pat m ps. ie_repo_query ienv pat m = Some ps \<longrightarrow> (\<forall>p \<in> set ps. admissible K p)) \<and>
     (\<forall>path p. ie_open ienv path = Some p \<longrightarrow> admissible K p \<and> admissible K (p\<lparr>pkg_kind := PKG_FILE\<rparr>)) \<and>
     (\<forall>q. \<not> ie_yesno ienv q) \<and> \<not> ie_vulnerable ienv \<and> (\<forall>jp \<in> set (ie_patterns ienv). jp_pattern jp \<noteq> None)"

lemma install_okD:
  assumes "install_ok K ienv"
  shows "env_ok K (ie_env ienv)" "consistent K" "\<not> ie_yesno ienv q" "\<not> ie_vulnerable ienv"
    "ie_repo_query ienv pat m = Some ps \<Longrightarrow> p \<in> set ps \<Longrightarrow> admissible K p"
    "ie_open ienv path = Some p \<Longrightarrow> admissible K p \<and> admissible K (p\<lparr>pkg_kind := PKG_FILE\<rparr>)"
    "je_type (ie_env ienv) \<noteq> PKG_JOBS_FETCH" "je_type (ie_env ienv) \<noteq> PKG_JOBS_DEINSTALL"
    "je_type (ie_env ienv) \<noteq> PKG_JOBS_AUTOREMOVE"
  using assms unfolding install_ok_def env_ok_def by auto

text \<open>A run that returns, in a state that is as good as the one it started in.\<close>

definition good_run :: "pkg_id set \<Rightarrow> ('a \<times> job_state) option \<Rightarrow> bool" where
  "good_run K x \<longleftrightarrow> (\<exists>a st. x = Some (a, st) \<and> state_ok K st)"

lemma good_runE:
  assumes "good_run K x"
  obtains a st where "x = Some (a, st)" "state_ok K st"
  using assms unfolding good_run_def by blast

lemma state_ok_universe:
  assumes "state_ok K st" "universe_ok K u" "extends (js_universe st) u" "unlocked u"
  shows "state_ok K (with_universe st u)"
  using assms requests_ok_extends [of "js_universe st" "js_add st" u] by (simp add: state_ok_def with_universe_def)

lemma get_local_ok:
  "state_ok K st \<Longrightarrow> install_ok K ienv \<Longrightarrow> pkg_jobs_universe_get_local (ie_env ienv) (js_universe st) uid = Some p \<Longrightarrow> admissible K p"
  using get_local_admissible [OF _ install_okD(1)] by (auto simp: state_ok_def)

lemma process_remote_good:
  assumes st: "state_ok K st" and ok: "install_ok K ienv" and rp: "admissible K rp"
  shows "good_run K (pkg_jobs_process_remote_pkg (Suc n) ienv st rp wv)"
proof -
  let ?env = "ie_env ienv" and ?u = "js_universe st"
  let ?lp = "pkg_jobs_universe_get_local ?env ?u (pkg_uid rp)"
  have d: "remote_digest ?env rp = Some (EPKG_OK, rp)" using rp by (auto simp: remote_digest_def admissible_def)
  have u: "universe_ok K ?u" "unlocked ?u" "requests_ok ?u (js_add st)" using st by (simp_all add: state_ok_def)
  show ?thesis
  proof (cases "case ?lp of None \<Rightarrow> False | Some l \<Rightarrow> pkg_locked l")
    case True
    then show ?thesis using st install_okD [OF ok] by (simp add: good_run_def d)
  next
    case False
    have "\<forall>l. ?lp = Some l \<longrightarrow> admissible K l" using get_local_ok [OF st ok] by blast
    from upgrade_candidates_total [OF u(1) install_okD(1) [OF ok] this] obtain c u' where
      c: "pkg_jobs_universe_get_upgrade_candidates ?env ?u (pkg_uid rp) ?lp (je_force ?env) (if wv then Some (pkg_version rp) else None) = Some (c, u')"
        "universe_ok K u'" "extends ?u u'" "\<forall>nit. c = Some nit \<longrightarrow> pkg_jobs_universe_find u' (pkg_uid rp) = Some nit" by blast
    have ul: "unlocked u'" using unlocked.upgrade_candidates [OF c(1) u(2)] .
    show ?thesis
    proof (cases c)
      case None
      then show ?thesis using c d False install_okD [OF ok] state_ok_universe [OF st c(2,3) ul] by (simp add: good_run_def)
    next
      case (Some nit)
      have nit: "nit = uid_ids u' (pkg_uid rp)" "nit \<noteq> []"
        using c(2,4) Some by (auto simp: universe_ok_def pkg_jobs_universe_find_def split: if_splits)
      then have h: "hd nit < length (u_items u')" using hd_in_set [of nit] by (auto simp: uid_ids_def)
      obtain r reqs where r: "pkg_jobs_add_req_from_universe u' (js_add st) (hd nit) False False = (r, reqs)" by fastforce
      have "requests_ok u' reqs" using add_req_from_universe_ok [OF c(2) requests_ok_extends [OF u(3) c(3)] h r] .
      then have "state_ok K (st\<lparr>js_universe := u', js_add := reqs\<rparr>)" using c(2) ul by (simp add: state_ok_def)
      then show ?thesis using c(1) d False Some r install_okD [OF ok] by (simp add: good_run_def)
    qed
  qed
qed

section \<open>Searching\<close>

lemma upgrade_loop_good:
  assumes ok: "install_ok K ienv"
  shows "state_ok K st \<Longrightarrow> \<forall>p \<in> set ps. admissible K p \<Longrightarrow> good_run K (map_option (\<lambda>(rc, f, st). ((rc, f), st)) (upgrade_loop (Suc n) ienv pat ps rc found st))"
proof (induction ps arbitrary: rc found st)
  case (Cons p ps)
  let ?wv = "case pat of None \<Rightarrow> False | Some s \<Rightarrow> pkg_name p \<noteq> s"
  from process_remote_good [OF Cons.prems(1) ok, of p n ?wv] Cons.prems(2) obtain a st' where
    a: "pkg_jobs_process_remote_pkg (Suc n) ienv st p ?wv = Some (a, st')" "state_ok K st'" by (auto elim: good_runE)
  have ps: "\<forall>p \<in> set ps. admissible K p" using Cons.prems(2) by simp
  show ?case using a Cons.IH [OF a(2) ps] by (simp only: upgrade_loop.simps) (simp add: good_run_def)
qed (simp add: good_run_def)

lemma try_candidates_no: "\<forall>q. \<not> ie_yesno ienv q \<Longrightarrow> try_candidates n ienv uid ps st = Some (EPKG_FATAL, st)"
  by (induction ps) auto

lemma guess_no:
  assumes "\<forall>q. \<not> ie_yesno ienv q"
  shows "pkg_jobs_guess_upgrade_candidate n ienv st pat = Some (EPKG_FATAL, st)"
proof -
  have t: "pkg_jobs_try_remote_candidate n ienv st p uid m = Some (EPKG_FATAL, st)" for p uid m
    using try_candidates_no [OF assms] by (simp add: pkg_jobs_try_remote_candidate_def split: option.split)
  have g: "guess_without_numbers n ienv st pos p = Some (EPKG_FATAL, st)" for pos p
    by (simp add: guess_without_numbers_def t Let_def)
  show ?thesis by (simp add: pkg_jobs_guess_upgrade_candidate_def t g split: option.split)
qed

lemma find_replacement_good:
  assumes ok: "install_ok K ienv" and st: "state_ok K st"
  shows "good_run K (find_replacement n ienv st (Some s))"
proof (cases "pkg_jobs_universe_get_local (ie_env ienv) (js_universe st) s")
  case None
  then show ?thesis using st by (simp add: find_replacement_def good_run_def)
next
  case (Some p)
  have u: "universe_ok K (js_universe st)" "unlocked (js_universe st)" using st by (simp_all add: state_ok_def)
  from add_pkg_total [OF u(1) install_okD(2) [OF ok] get_local_ok [OF st ok Some], of "ie_env ienv"] obtain rc f u' where
    a: "pkg_jobs_universe_add_pkg (ie_env ienv) (js_universe st) p = Some (rc, f, p, u')" "universe_ok K u'" "extends (js_universe st) u'" by blast
  have "state_ok K (with_universe st u')" using state_ok_universe [OF st a(2,3)] unlocked.add_pkg [OF a(1) u(2)] by blast
  then show ?thesis using Some a(1) st guess_no [of ienv] install_okD(3) [OF ok]
    by (cases "rc = EPKG_OK") (auto simp: find_replacement_def good_run_def Let_def)
qed

lemma find_upgrade_good:
  assumes ok: "install_ok K ienv" and st: "state_ok K st"
  shows "good_run K (pkg_jobs_find_upgrade (Suc n) ienv st (Some s) m)"
proof -
  let ?ps = "case ie_repo_query ienv (Some s) m of None \<Rightarrow> [] | Some ps \<Rightarrow> ps"
  have "\<forall>p \<in> set ?ps. admissible K p"
    using install_okD(5) [OF ok, of "Some s" m] by (cases "ie_repo_query ienv (Some s) m") auto
  from upgrade_loop_good [OF ok st this] obtain rc found st' where
    l: "upgrade_loop (Suc n) ienv (Some s) ?ps EPKG_FATAL False st = Some (rc, found, st')" "state_ok K st'"
    unfolding good_run_def by fastforce
  then show ?thesis using find_replacement_good [OF ok l(2), of "Suc n" s] by (auto simp: pkg_jobs_find_upgrade_def good_run_def)
qed

lemma file_pattern_good:
  assumes ok: "install_ok K ienv" and st: "state_ok K st"
  shows "good_run K (file_pattern ienv st jp)"
proof (cases "ie_open ienv (jp_path jp)")
  case None
  then show ?thesis using st by (simp add: file_pattern_def good_run_def)
next
  case (Some p)
  let ?p = "p\<lparr>pkg_kind := PKG_FILE\<rparr>" and ?env = "ie_env ienv" and ?u = "js_universe st"
  have adm: "admissible K p" "admissible K ?p" using install_okD(6) [OF ok Some] by simp_all
  have u: "universe_ok K ?u" "unlocked ?u" "requests_ok ?u (js_add st)" using st by (simp_all add: state_ok_def)
  note nd = install_okD(7,8,9) [OF ok]
  from add_pkg_total [OF u(1) install_okD(2) [OF ok] adm(2), of ?env] obtain rc f u' where
    a: "pkg_jobs_universe_add_pkg ?env ?u ?p = Some (rc, f, ?p, u')" "rc \<noteq> EPKG_FATAL" "universe_ok K u'" "extends ?u u'"
      "f = None \<longrightarrow> rc = EPKG_LOCKED \<and> pkg_locked ?p" by blast
  have ul: "unlocked u'" using unlocked.add_pkg [OF a(1) u(2)] .
  have ro: "requests_ok u' (js_add st)" using requests_ok_extends [OF u(3) a(4)] .
  have "\<exists>r reqs. pkg_jobs_add_req ?env ?u (js_add st) ?p = Some (r, reqs, u') \<and> requests_ok u' reqs"
  proof -
    from add_pkg_cases [OF u(1) install_okD(2) [OF ok] adm(2), of ?env] consider
      (found) s where "s < length (u_items ?u)" "rc = EPKG_END" "f = Some s" "u' = ?u"
    | (locked) "pkg_locked ?p" "rc = EPKG_LOCKED" "f = None" "u' = ?u"
    | (new) d where "\<not> pkg_locked ?p" "rc = EPKG_OK" "f = Some (length (u_items ?u))" "u' = add_item ?u ?p d"
      using a(1) by auto
    then show ?thesis
    proof cases
      case found
      obtain r reqs where r: "pkg_jobs_add_req_from_universe u' (js_add st) s False False = (r, reqs)" by fastforce
      have "requests_ok u' reqs" using add_req_from_universe_ok [OF a(3) ro _ r] found by simp
      then show ?thesis using a(1) found nd r ro by (auto simp: pkg_jobs_add_req_def Let_def split: option.split)
    next
      case locked
      then show ?thesis using a(1) nd ro by (simp add: pkg_jobs_add_req_def Let_def)
    next
      case new
      let ?j = "length (u_items ?u)"
      have j: "?j < length (u_items u')" "pkg_uid (item_pkg u' ?j) = pkg_uid ?p"
        using new(4) item_pkg_add_item [of ?u ?p d ?j] by simp_all
      have "requests_ok u' (append_request (js_add st) (pkg_uid ?p) ?j)"
        unfolding append_request_def Let_def
        by (rule requests_ok_set [OF ro]) (use j requests_okD [OF ro] in \<open>auto split: option.splits simp: new_request_def\<close>)
      then show ?thesis using a(1) new nd by (auto simp: pkg_jobs_add_req_def Let_def)
    qed
  qed
  then obtain r reqs where r: "pkg_jobs_add_req ?env ?u (js_add st) ?p = Some (r, reqs, u')" "requests_ok u' reqs" by blast
  have "state_ok K (st\<lparr>js_universe := u', js_add := reqs\<rparr>)" using a(3) ul r(2) by (simp add: state_ok_def)
  then show ?thesis using Some r(1) st validate_admissible [OF adm(1), of ?env]
    by (cases "je_type ?env = PKG_JOBS_UPGRADE \<and> pkg_jobs_check_local_pkg ienv (Some (pkg_name p)) MATCH_EXACT \<noteq> EPKG_OK")
      (auto simp: file_pattern_def good_run_def Let_def)
qed

section \<open>Processing what is requested\<close>

lemma process_total:
  assumes "env_ok K env" "universe_ok K u" "admissible K p" "card K < n"
  shows "\<exists>rc u'. pkg_jobs_universe_process env n u p = Some (rc, u') \<and> universe_ok K u' \<and> extends u u'"
proof -
  have "card K + 1 - n = 0" using assms(4) by simp
  then have "process_ok K 0 (pkg_jobs_universe_process_item env n)" using process_item_ok [OF assms(1), of n] by simp
  from process_okE [OF this assms(2,3)] show ?thesis unfolding pkg_jobs_universe_process_def by (metis (no_types, lifting) le0 old.prod.case option.simps(5))
qed

lemma process_requests_total:
  assumes "env_ok K env" "card K < n"
  shows "universe_ok K u \<Longrightarrow> unlocked u \<Longrightarrow> requests_ok u reqs \<Longrightarrow>
    \<exists>u'. process_requests n env reqs u = Some u' \<and> universe_ok K u' \<and> unlocked u' \<and> extends u u'"
proof (induction reqs arbitrary: u)
  case (Cons x reqs)
  obtain uid req where x: "x = (uid, req)" by (cases x)
  let ?p = "item_pkg u (hd (rq_items req))"
  have "hd (rq_items req) < length (u_items u)" using Cons.prems(3) x by (simp add: requests_ok_def)
  then have "admissible K ?p" using Cons.prems(1) by (simp add: universe_ok_def)
  from process_total [OF assms(1) Cons.prems(1) this assms(2)] obtain rc v where
    v: "pkg_jobs_universe_process env n u ?p = Some (rc, v)" "universe_ok K v" "extends u v" by blast
  have "requests_ok u reqs" using Cons.prems(3) by (simp add: requests_ok_def)
  then have "requests_ok v reqs" using v(3) by (rule requests_ok_extends)
  from Cons.IH [OF v(2) unlocked.process [OF v(1) Cons.prems(2)] this] obtain w where
    w: "process_requests n env reqs v = Some w" "universe_ok K w" "unlocked w" "extends v w" by blast
  then show ?case using v x extends_trans [OF v(3) w(4)] by simp
qed simp

lemma process_all_good:
  assumes ok: "install_ok K ienv" and st: "state_ok K st" and n: "card K < n"
  shows "\<exists>st'. process_all n ienv st = Some st' \<and> state_ok K st'"
proof -
  from process_requests_total [OF install_okD(1) [OF ok] n] st obtain u where
    u: "process_requests n (ie_env ienv) (js_add st) (js_universe st) = Some u" "universe_ok K u" "unlocked u" "extends (js_universe st) u"
    unfolding state_ok_def by blast
  then show ?thesis using state_ok_universe [OF st u(2,4,3)] by (simp add: process_all_def)
qed

lemma no_lockedI: "universe_ok K u \<Longrightarrow> unlocked u \<Longrightarrow> no_locked u"
  by (auto simp: no_locked_def unlocked_def universe_ok_def admissible_def)

lemma requests_ok_delete: "requests_ok u reqs \<Longrightarrow> requests_ok u (delete_request uid reqs)"
  by (auto simp: requests_ok_def delete_request_def)

lemma upgrade_chain_ok:
  assumes wf: "chains_wf u" "(uid, c) \<in> set (u_chains u)" and r: "requests_ok u reqs"
    and run: "upgrade_chain env u uid c reqs = Some reqs'"
  shows "requests_ok u reqs'"
proof (cases "find_request reqs uid")
  case None
  then show ?thesis using run r by (simp add: upgrade_chain_def)
next
  case (Some req)
  note c = chain_wfD [OF wf]
  let ?s = "selected_of env u c"
  have s: "?s \<in> set c" using select_candidate_member [OF c(1)] by (simp add: selected_of_def)
  have "requests_ok u (delete_request uid reqs @ [(pkg_uid (item_pkg u ?s), keep_selected c ?s req)])"
    using requests_ok_delete [OF r, of uid] requests_okD [OF r Some] c(2,3) [OF s]
    by (auto simp: requests_ok_def keep_selected_def Let_def)
  moreover have "reqs' = reqs \<or> reqs' = delete_request uid reqs \<or>
      reqs' = delete_request uid reqs @ [(pkg_uid (item_pkg u ?s), keep_selected c ?s req)]"
    using run Some by (auto simp: upgrade_chain_def selected_of_def Let_def split: if_splits option.splits)
  ultimately show ?thesis using r requests_ok_delete by blast
qed

lemma cut_good:
  assumes st: "state_ok K st"
  shows "\<exists>st'. cut_requests ienv st = Some st' \<and> state_ok K st' \<and> js_universe st' = js_universe st"
proof -
  let ?u = "js_universe st" and ?env = "ie_chains ienv"
  have u: "universe_ok K ?u" "unlocked ?u" "requests_ok ?u (js_add st)" using st by (simp_all add: state_ok_def)
  note wf = universe_ok_chains_wf [OF u(1)]
  have "\<exists>reqs'. fold_option (\<lambda>(uid, c). upgrade_chain ?env ?u (pkg_uid (item_pkg ?u (hd c))) c) cs reqs = Some reqs' \<and> requests_ok ?u reqs'"
    if "set cs \<subseteq> set (u_chains ?u)" "requests_ok ?u reqs" for cs reqs
    using that
  proof (induction cs arbitrary: reqs)
    case (Cons x cs)
    obtain v d where x: "x = (v, d)" by (cases x)
    then have vd: "(v, d) \<in> set (u_chains ?u)" using Cons.prems by simp
    have h: "pkg_uid (item_pkg ?u (hd d)) = v" using chain_wfD(1,3) [OF wf vd] by simp
    from upgrade_chain_result [OF wf vd no_lockedI [OF u(1,2)], of ?env reqs] obtain r where
      r: "upgrade_chain ?env ?u v d reqs = Some r" by blast
    have "requests_ok ?u r" using upgrade_chain_ok [OF wf vd Cons.prems(2) r] .
    then show ?case using Cons.IH [of r] Cons.prems(1) r x h by simp
  qed simp
  from this [OF subset_refl u(3)] obtain reqs where
    "pkg_jobs_universe_process_upgrade_chains ?env ?u (js_add st) = Some reqs" "requests_ok ?u reqs"
    unfolding pkg_jobs_universe_process_upgrade_chains_def by blast
  then show ?thesis using u by (simp add: cut_requests_def state_ok_def)
qed

section \<open>Conflicts and flags\<close>

lemma set_skip_requests_ok: "requests_ok u reqs \<Longrightarrow> requests_ok u (set_skip uid reqs)"
  unfolding requests_ok_def by (induction uid reqs rule: set_skip.induct) auto

lemma resolve_requests_ok: "requests_ok u reqs \<Longrightarrow> requests_ok u (pkg_conflicts_request_resolve srt u reqs)"
proof -
  have skips: "requests_ok u (fold set_skip us rs)" if "requests_ok u rs" for us rs
    using that by (induction us arbitrary: rs) (auto intro: set_skip_requests_ok)
  have "requests_ok u (resolve_request srt u uid rs)" if "requests_ok u rs" for uid rs
    using that skips by (auto simp: resolve_request_def pkg_conflicts_request_resolve_chain_def Let_def)
  then have "requests_ok u (fold (resolve_request srt u) uids rs)" if "requests_ok u rs" for uids rs
    using that by (induction uids arbitrary: rs) auto
  then show "requests_ok u reqs \<Longrightarrow> ?thesis" unfolding pkg_conflicts_request_resolve_def by blast
qed

definition same_tables :: "universe \<Rightarrow> universe \<Rightarrow> bool" where
  "same_tables u v \<longleftrightarrow> flags_only u v \<and> u_chains v = u_chains u \<and> u_seen v = u_seen u \<and> u_nitems v = u_nitems u \<and> u_provides v = u_provides u"

lemma same_tables_refl [simp]: "same_tables u u"
  by (simp add: same_tables_def)

lemma same_tables_trans: "same_tables u v \<Longrightarrow> same_tables v w \<Longrightarrow> same_tables u w"
  unfolding same_tables_def using flags_only_trans by metis

lemma same_tables_set: "same_tables u (set_automatic b i u)"
  using flags_only_set [of u b i] by (simp add: same_tables_def set_automatic_def)

lemma same_tables_fold: "(\<And>x v. same_tables v (f x v)) \<Longrightarrow> same_tables u (fold f xs u)"
  by (induction xs arbitrary: u) (auto intro: same_tables_trans)

lemma propagate_same_tables: "same_tables u (pkg_jobs_propagate_automatic type reqs u)"
  unfolding pkg_jobs_propagate_automatic_def
  by (rule same_tables_fold)
    (auto simp: propagate_chain_def Let_def same_tables_set intro!: same_tables_fold split: option.split)

lemma flags_only_fields:
  assumes "flags_only u v"
  shows "pkg_digest (item_pkg v i) = pkg_digest (item_pkg u i)" "pkg_locked (item_pkg v i) = pkg_locked (item_pkg u i)"
    "pkg_reponame (item_pkg v i) = pkg_reponame (item_pkg u i)"
proof -
  have e: "(item_pkg v i)\<lparr>pkg_automatic := False\<rparr> = (item_pkg u i)\<lparr>pkg_automatic := False\<rparr>" using assms by (simp add: flags_only_def)
  from arg_cong [OF e, of pkg_digest] arg_cong [OF e, of pkg_locked] arg_cong [OF e, of pkg_reponame]
  show "pkg_digest (item_pkg v i) = pkg_digest (item_pkg u i)" "pkg_locked (item_pkg v i) = pkg_locked (item_pkg u i)"
    "pkg_reponame (item_pkg v i) = pkg_reponame (item_pkg u i)" by simp_all
qed

lemma same_tables_ok:
  assumes "same_tables u v"
  shows "universe_ok K v = universe_ok K u" "unlocked v = unlocked u" "requests_ok v reqs = requests_ok u reqs"
proof -
  have f: "flags_only u v" using assms by (simp add: same_tables_def)
  note fs = flags_onlyD [OF f] flags_only_fields [OF f]
  have ids: "uid_ids v = uid_ids u" "digest_ids v = digest_ids u" by (auto simp: uid_ids_def digest_ids_def fs)
  have adm: "admissible K (item_pkg v i) = admissible K (item_pkg u i)" for i by (simp add: admissible_def fs)
  have key: "pkg_key (item_pkg v i) = pkg_key (item_pkg u i)" for i by (simp add: pkg_key_def fs)
  show "universe_ok K v = universe_ok K u" using assms by (simp add: universe_ok_def ids adm key fs(1) same_tables_def)
  show "unlocked v = unlocked u" by (simp add: unlocked_def fs)
  show "requests_ok v reqs = requests_ok u reqs" by (simp add: requests_ok_def fs)
qed

lemma resolve_and_flag_good: "state_ok K st \<Longrightarrow> state_ok K (resolve_and_flag ienv st)"
  using same_tables_ok [OF propagate_same_tables] resolve_requests_ok
  by (simp add: state_ok_def resolve_and_flag_def Let_def)

section \<open>The job ends\<close>

lemma find_upgrades_good:
  assumes ok: "install_ok K ienv"
  shows "state_ok K st \<Longrightarrow> \<exists>st'. find_upgrades (Suc n) ienv ps st = Some st' \<and> state_ok K st'"
proof (induction ps arbitrary: st)
  case (Cons p ps)
  from find_upgrade_good [OF ok Cons.prems, of n "pkg_uid p" MATCH_EXACT] obtain rc st1 where
    1: "pkg_jobs_find_upgrade (Suc n) ienv st (Some (pkg_uid p)) MATCH_EXACT = Some (rc, st1)" "state_ok K st1" by (elim good_runE)
  then show ?case using Cons.IH [OF 1(2)] by (simp only: find_upgrades.simps) simp
qed simp

lemma candidates_loop_good:
  assumes ok: "install_ok K ienv"
  shows "state_ok K st \<Longrightarrow> good_run K (candidates_loop (Suc n) ienv ps st)"
proof (induction ps arbitrary: st)
  case (Cons p ps)
  show ?case
  proof (cases "ie_by_id ienv p")
    case None
    then show ?thesis using Cons.prems by (simp add: good_run_def)
  next
    case (Some qs)
    from find_upgrades_good [OF ok Cons.prems, of n qs] obtain st1 where
      1: "find_upgrades (Suc n) ienv qs st = Some st1" "state_ok K st1" by blast
    then show ?thesis using Cons.IH [OF 1(2)] Some by (simp only: candidates_loop.simps) simp
  qed
qed (simp add: good_run_def)

lemma install_candidates_total:
  assumes ok: "install_ok K ienv"
  shows "\<exists>cs'. pkg_jobs_find_install_candidates ienv ps cs = Some cs'"
proof (induction ps arbitrary: cs)
  case (Cons p ps)
  have "pkg_digest q \<noteq> None" if "ie_repo_query ienv pat m = Some qs" "q \<in> set qs" for pat m qs q
    using install_okD(5) [OF ok that] by (auto simp: admissible_def)
  then have "pkg_jobs_check_remote_candidate ienv p \<noteq> None"
    unfolding pkg_jobs_check_remote_candidate_def by (auto split: option.split) (metis option.distinct(1))+
  then show ?case using Cons by auto
qed simp

lemma patterns_loop_good:
  assumes ok: "install_ok K ienv"
  shows "set jps \<subseteq> set (ie_patterns ienv) \<Longrightarrow> state_ok K st \<Longrightarrow> good_run K (patterns_loop (Suc n) ienv jps st)"
proof (induction jps arbitrary: st)
  case (Cons jp jps)
  have "jp_pattern jp \<noteq> None" using ok Cons.prems(1) by (auto simp: install_ok_def)
  then obtain s where s: "jp_pattern jp = Some s" by blast
  have "good_run K (pkg_jobs_find_remote_pattern (Suc n) ienv st jp)"
    unfolding pkg_jobs_find_remote_pattern_def s
    using file_pattern_good [OF ok Cons.prems(2), of jp] find_upgrade_good [OF ok Cons.prems(2), of n s "jp_match jp"] Cons.prems(2)
    by (simp add: good_run_def)
  then obtain rc st1 where 1: "pkg_jobs_find_remote_pattern (Suc n) ienv st jp = Some (rc, st1)" "state_ok K st1" by (elim good_runE)
  then show ?case using Cons.IH [OF _ 1(2)] Cons.prems(1) by (auto simp: good_run_def)
qed (simp add: good_run_def)

lemma collect_good:
  assumes ok: "install_ok K ienv" and st: "state_ok K st" and n: "card K < Suc n"
  shows "good_run K (collect (Suc n) ienv st)"
proof (cases "ie_patterns ienv = []")
  case True
  from install_candidates_total [OF ok] obtain cs where
    c: "pkg_jobs_find_install_candidates ienv (case ie_query ienv None MATCH_ALL of None \<Rightarrow> [] | Some ps \<Rightarrow> ps) [] = Some cs" by blast
  from candidates_loop_good [OF ok st, of n cs] obtain rc st1 where
    1: "candidates_loop (Suc n) ienv cs st = Some (rc, st1)" "state_ok K st1" by (elim good_runE)
  from process_all_good [OF ok 1(2) n] obtain st2 where 2: "process_all (Suc n) ienv st1 = Some st2" "state_ok K st2" by blast
  from cut_good [OF 2(2)] obtain st3 where 3: "cut_requests ienv st2 = Some st3" "state_ok K st3" by blast
  show ?thesis unfolding collect_def using True c 1 2 3 by (simp add: good_run_def)
next
  case False
  from patterns_loop_good [OF ok subset_refl st, of n] obtain rc st1 where
    1: "patterns_loop (Suc n) ienv (ie_patterns ienv) st = Some (rc, st1)" "state_ok K st1" by (elim good_runE)
  from cut_good [OF 1(2)] obtain st2 where 2: "cut_requests ienv st1 = Some st2" "state_ok K st2" by blast
  from process_all_good [OF ok 2(2) n] obtain st3 where 3: "process_all (Suc n) ienv st2 = Some st3" "state_ok K st3" by blast
  show ?thesis unfolding collect_def using False 1 2 3 by (simp add: good_run_def)
qed

lemma unforced_ok: "install_ok K ienv \<Longrightarrow> install_ok K (unforced ienv)"
  by (simp add: install_ok_def unforced_def env_ok_def)

lemma new_pkg_version_good:
  assumes ok: "install_ok K ienv" and st: "state_ok K st"
  shows "good_run K (new_pkg_version (Suc n) ienv st)"
proof (cases "pkg_jobs_universe_get_local (ie_env (unforced ienv)) (js_universe st) ''ravensw:standard''")
  case None
  then show ?thesis using st unfolding new_pkg_version_def Let_def by (auto simp: good_run_def)
next
  case (Some p)
  from find_upgrade_good [OF unforced_ok [OF ok] st, of n "''ravensw:standard''" MATCH_EXACT] obtain rc st1 where
    "pkg_jobs_find_upgrade (Suc n) (unforced ienv) st (Some ''ravensw:standard'') MATCH_EXACT = Some (rc, st1)" "state_ok K st1"
    by (elim good_runE)
  then show ?thesis using Some unfolding new_pkg_version_def Let_def by (auto simp: good_run_def split: option.split)
qed

lemma install_good:
  assumes ok: "install_ok K ienv" and st: "state_ok K st" and n: "card K < n"
  shows "\<exists>rc b s st'. jobs_solve_install_upgrade n ienv solved st = Some (rc, b, s, st') \<and> state_ok K st'"
proof -
  obtain m where m: "n = Suc m" using n by (cases n) auto
  have v: "good_run K (if \<not> ie_skip_install ienv \<and> ie_version_test ienv then new_pkg_version n ienv st else Some (False, st))"
    using new_pkg_version_good [OF ok st, of m] st m by (auto simp: good_run_def)
  then obtain b st0 where
    0: "(if \<not> ie_skip_install ienv \<and> ie_version_test ienv then new_pkg_version n ienv st else Some (False, st)) = Some (b, st0)" "state_ok K st0"
    by (elim good_runE)
  have "good_run K (if solved = 0 then collect n ienv st0 else map_option (Pair EPKG_OK) (process_all n ienv st0))"
    using collect_good [OF ok 0(2), of m] process_all_good [OF ok 0(2) n] n m by (auto simp: good_run_def)
  then obtain rc st1 where
    1: "(if solved = 0 then collect n ienv st0 else map_option (Pair EPKG_OK) (process_all n ienv st0)) = Some (rc, st1)" "state_ok K st1"
    by (elim good_runE)
  show ?thesis
  proof (cases b)
    case True
    show ?thesis
      unfolding jobs_solve_install_upgrade_def 0(1) option.case prod.case
      using True 0(2) by auto
  next
    case False
    show ?thesis
      unfolding jobs_solve_install_upgrade_def 0(1) option.case prod.case 1(1)
      using False 0(2) 1(2) resolve_and_flag_good [OF 1(2), of ienv] by auto
  qed
qed

section \<open>The property\<close>

text \<open>C5. An install or upgrade job, first attempt or a later one, returns, whatever it answers,
  and it leaves a universe whose chains are proper and requests that name items of the universe, at
  least one and all of the uid that they are kept for. This is for runs in which
  \<^item> the user declines every replacement of a package by another one, so that the uid of an item is
    never changed (\<open>pkg_jobs_universe_change_uid\<close> breaks the chains),
  \<^item> vulnerable packages are not what is asked for, and each entry of the job has its pattern,
  \<^item> every package of the databases, of a query or of a file has a valid digest, no two uids share
    one, and the database of installed packages and the repositories answer a uid with packages of it,
  \<^item> no item collected before is locked, and the requests and chains from before are proper,
  \<^item> the depth allowed for the recursion exceeds the number of different packages.
\<close>

theorem install_ready:
  assumes "install_ok K ienv" "state_ok K st" "card K < n"
  shows "\<exists>rc b s st'. jobs_solve_install_upgrade n ienv solved st = Some (rc, b, s, st') \<and>
    state_ok K st' \<and> chains_wf (js_universe st')"
  using install_good [OF assms] universe_ok_chains_wf by (fastforce simp: state_ok_def)

definition zsh_job :: install_env where
  "zsh_job = \<lparr>ie_env = sample_env PKG_JOBS_INSTALL, ie_repo_query = (\<lambda>pat m. if pat = Some ''zsh'' then Some [zsh] else None),
     ie_query = (\<lambda>_ _. None), ie_by_id = (\<lambda>_. None), ie_yesno = (\<lambda>_. False), ie_open = (\<lambda>_. None), ie_vulnerable = False,
     ie_chain_sort = insertion_sort, ie_chains = no_repos,
     ie_patterns = [\<lparr>jp_pattern = Some ''zsh'', jp_path = [], jp_match = MATCH_EXACT, jp_file = False\<rparr>],
     ie_version_test = False, ie_skip_install = False, ie_upgrades_for_installed = False\<rparr>"

definition fresh_state :: job_state where
  "fresh_state = \<lparr>js_universe = pkg_jobs_universe_new, js_add = []\<rparr>"

lemma zsh_job_ok: "install_ok sample_ids zsh_job"
  using sample_env_ok [of PKG_JOBS_INSTALL] sample_admissible
  by (auto simp: install_ok_def zsh_job_def sample_env_def)

lemma fresh_state_ok: "state_ok K fresh_state"
  using universe_ok_new [of K]
  by (auto simp: state_ok_def fresh_state_def unlocked_def requests_ok_def pkg_jobs_universe_new_def)

lemma zsh_job_run:
  "map_option (\<lambda>(rc, b, s, st). (rc, map fst (js_add st), map fst (u_chains (js_universe st)))) (jobs_solve_install_upgrade 3 zsh_job 0 fresh_state) =
    Some (EPKG_OK, [''zsh''], [''zsh'', ''pcre''])"
  by code_simp

theorem install_ready_witness:
  "\<exists>rc b s st'. jobs_solve_install_upgrade 3 zsh_job 0 fresh_state = Some (rc, b, s, st') \<and> chains_wf (js_universe st') \<and>
    rc = EPKG_OK \<and> map fst (js_add st') = [''zsh''] \<and> map fst (u_chains (js_universe st')) = [''zsh'', ''pcre'']"
proof -
  have "card sample_ids < 3" by (simp add: sample_ids_def)
  from install_ready [OF zsh_job_ok fresh_state_ok this, of 0] obtain rc b s st' where
    r: "jobs_solve_install_upgrade 3 zsh_job 0 fresh_state = Some (rc, b, s, st')" "chains_wf (js_universe st')" by blast
  moreover from r(1) have "rc = EPKG_OK" "map fst (js_add st') = [''zsh'']"
    "map fst (u_chains (js_universe st')) = [''zsh'', ''pcre'']" using zsh_job_run by auto
  ultimately show ?thesis by (intro exI conjI)
qed

end
