(* ===== verification/Jobs_Auto.thy ===== *)
theory Jobs_Auto
  imports Jobs_Delete
begin

text \<open>
  Autoremoval and deinstallation, \<^verbatim>\<open>libpkg/pkg_jobs.c\<close>: which packages a job of these types requests
  to delete. Neither type follows dependencies while it adds packages to the universe, so one unit
  of fuel is enough for \<open>pkg_jobs_universe_process\<close>.
\<close>

section \<open>Automatic packages\<close>

text \<open>
  The package that depends on the tested one, added to the universe if need be; an inner \<open>None\<close>
  is a \<^verbatim>\<open>return (false)\<close>.
\<close>

definition automatic_rdep :: "job_env \<Rightarrow> universe \<Rightarrow> string \<Rightarrow> (pkg option \<times> universe) option" where
  "automatic_rdep env u uid =
     (case pkg_jobs_universe_find u uid of
        Some c \<Rightarrow> Some (if pkg_automatic (item_pkg u (hd c)) then Some (item_pkg u (hd c)) else None, u)
      | None \<Rightarrow>
          (case pkg_jobs_universe_get_local env u uid of
             None \<Rightarrow> Some (None, u)
           | Some npkg \<Rightarrow>
               if \<not> pkg_automatic npkg then Some (None, u)
               else map_option (\<lambda>(rc, u'). (if rc = EPKG_OK then Some npkg else None, u'))
                 (pkg_jobs_universe_process env 1 u npkg)))"

type_synonym test = "universe \<Rightarrow> pkg \<Rightarrow> (bool \<times> universe) option"

fun test_rdeps :: "test \<Rightarrow> job_env \<Rightarrow> pkg_dep list \<Rightarrow> universe \<Rightarrow> (bool \<times> universe) option" where
  "test_rdeps rec env [] u = Some (True, u)"
| "test_rdeps rec env (d # ds) u =
     (case automatic_rdep env u (dep_uid d) of
        None \<Rightarrow> None
      | Some (None, u') \<Rightarrow> Some (False, u')
      | Some (Some npkg, u') \<Rightarrow>
          (case rec u' npkg of
             None \<Rightarrow> None
           | Some (ret, u'') \<Rightarrow> if ret then test_rdeps rec env ds u'' else Some (False, u'')))"

fun pkg_jobs_test_automatic :: "job_env \<Rightarrow> nat \<Rightarrow> test" where
  "pkg_jobs_test_automatic env 0 u p = None"
| "pkg_jobs_test_automatic env (Suc n) u p = test_rdeps (pkg_jobs_test_automatic env n) env (pkg_rdepends p) u"

section \<open>Autoremove\<close>

text \<open>The packages that the query for automatic packages answers, one by one; \<open>assert\<close> wants a request.\<close>

fun autoremove_loop :: "nat \<Rightarrow> job_env \<Rightarrow> pkg list \<Rightarrow> requests \<Rightarrow> universe \<Rightarrow> (requests \<times> universe) option" where
  "autoremove_loop n env [] reqs u = Some (reqs, u)"
| "autoremove_loop n env (p # ps) reqs u =
     (if pkg_locked p then autoremove_loop n env ps reqs u
      else (case pkg_jobs_test_automatic env n u p of
              None \<Rightarrow> None
            | Some (False, u') \<Rightarrow> autoremove_loop n env ps reqs u'
            | Some (True, u') \<Rightarrow>
                (case pkg_jobs_add_req env u' reqs p of
                   Some (Some i, reqs', u'') \<Rightarrow> autoremove_loop n env ps reqs' u''
                 | _ \<Rightarrow> None)))"

text \<open>A failed query is \<open>None\<close>. The answer of \<open>pkg_jobs_process_delete_request\<close> is ignored.\<close>

definition jobs_solve_autoremove ::
  "nat \<Rightarrow> job_env \<Rightarrow> pkg list option \<Rightarrow> requests \<Rightarrow> universe \<Rightarrow> (epkg \<times> requests \<times> universe) option" where
  "jobs_solve_autoremove n env query reqs u =
     (case query of
        None \<Rightarrow> Some (EPKG_FATAL, reqs, u)
      | Some ps \<Rightarrow>
          (case autoremove_loop n env ps reqs u of
             None \<Rightarrow> None
           | Some (reqs', u') \<Rightarrow>
               map_option (\<lambda>(rc, r, v). (EPKG_OK, r, v)) (pkg_jobs_process_delete_request n env reqs' u')))"

section \<open>Deinstall\<close>

text \<open>The tree of locked packages, keyed by the name.\<close>

definition insert_locked :: "pkg \<Rightarrow> pkg list \<Rightarrow> pkg list" where
  "insert_locked p ls = (if pkg_name p \<in> pkg_name ` List.set ls then ls else ls @ [p])"

fun deinstall_matches ::
  "job_env \<Rightarrow> pkg list \<Rightarrow> pkg list \<Rightarrow> requests \<Rightarrow> universe \<Rightarrow> (pkg list \<times> requests \<times> universe) option" where
  "deinstall_matches env [] ls reqs u = Some (ls, reqs, u)"
| "deinstall_matches env (p # ps) ls reqs u =
     (if pkg_locked p then deinstall_matches env ps (insert_locked p ls) reqs u
      else (case pkg_jobs_add_req env u reqs p of
              None \<Rightarrow> None
            | Some (_, reqs', u') \<Rightarrow> deinstall_matches env ps ls reqs' u'))"

text \<open>\<open>query\<close> answers the packages that match a pattern, \<open>None\<close> when it fails; the flag is \<^verbatim>\<open>j->solved\<close>.\<close>

fun jobs_solve_deinstall ::
  "nat \<Rightarrow> job_env \<Rightarrow> ('p \<Rightarrow> pkg list option) \<Rightarrow> 'p list \<Rightarrow> pkg list \<Rightarrow> requests \<Rightarrow> universe \<Rightarrow>
    (epkg \<times> bool \<times> pkg list \<times> requests \<times> universe) option" where
  "jobs_solve_deinstall n env query [] ls reqs u =
     map_option (\<lambda>(rc, r, v). (rc, True, ls, r, v)) (pkg_jobs_process_delete_request n env reqs u)"
| "jobs_solve_deinstall n env query (jp # jps) ls reqs u =
     (case query jp of
        None \<Rightarrow> Some (EPKG_FATAL, False, ls, reqs, u)
      | Some ps \<Rightarrow>
          (case deinstall_matches env ps ls reqs u of
             None \<Rightarrow> None
           | Some (ls', reqs', u') \<Rightarrow> jobs_solve_deinstall n env query jps ls' reqs' u'))"

section \<open>The local database\<close>

text \<open>
  A universe of what the local database answers. The package found for a uid is then always the
  answer of the database, before and after the package has been added.
\<close>

definition local_view :: "pkg_id set \<Rightarrow> job_env \<Rightarrow> universe \<Rightarrow> bool" where
  "local_view K env u \<longleftrightarrow> local_only K env u \<and>
     (\<forall>i < length (u_items u). je_local env (pkg_uid (item_pkg u i)) = Some (item_pkg u i))"

definition rdep :: "job_env \<Rightarrow> pkg \<Rightarrow> pkg \<Rightarrow> bool" where
  "rdep env p q \<longleftrightarrow> (\<exists>d \<in> set (pkg_rdepends p). je_local env (dep_uid d) = Some q)"

lemma chain_head:
  assumes "local_view K env u" "pkg_jobs_universe_find u uid = Some c"
  shows "hd c < length (u_items u)" "je_local env uid = Some (item_pkg u (hd c))" "c \<noteq> []"
proof -
  have c: "c = uid_ids u uid" "c \<noteq> []"
    using assms by (auto simp: local_view_def local_only_def universe_ok_def pkg_jobs_universe_find_def split: if_splits)
  then have "hd c \<in> set (uid_ids u uid)" using hd_in_set [of c] by simp
  then have "hd c < length (u_items u)" "pkg_uid (item_pkg u (hd c)) = uid" by (simp_all add: uid_ids_def)
  then show "hd c < length (u_items u)" "je_local env uid = Some (item_pkg u (hd c))" "c \<noteq> []"
    using assms(1) c(2) by (auto simp: local_view_def)
qed

lemma get_local_view:
  assumes "local_view K env u"
  shows "pkg_jobs_universe_get_local env u uid = je_local env uid"
  using chain_head [OF assms] by (auto simp: pkg_jobs_universe_get_local_def split: option.split)

lemma local_view_answer:
  assumes "local_view K env u" "je_local env uid = Some p"
  shows "admissible K p" "installed p" "pkg_uid p = uid"
  using assms by (auto simp: local_view_def local_only_def env_ok_def)

lemma local_view_add_item:
  assumes v: "local_view K env u" and p: "je_local env (pkg_uid p) = Some p" "pkg_digest p = Some d"
    and new: "\<forall>i < length (u_items u). pkg_key (item_pkg u i) \<noteq> pkg_key p"
  shows "local_view K env (add_item u p d)"
proof -
  note q = local_view_answer [OF v p(1)]
  have "installed (item_pkg (add_item u p d) i) \<and> je_local env (pkg_uid (item_pkg (add_item u p d) i)) = Some (item_pkg (add_item u p d) i)"
    if "i < Suc (length (u_items u))" for i
    using that v p(1) q item_pkg_add_item [of u p d i] by (auto simp: local_view_def local_only_def less_Suc_eq)
  then show ?thesis
    using v universe_ok_add_item [OF _ q(1) p(2) new] by (simp add: local_view_def local_only_def)
qed

lemma local_view_mark:
  assumes "local_view K env u" "i < length (u_items u)"
  shows "local_view K env (mark_processed i u)"
  using assms mark_processed_keeps(1,2) [OF assms(2)]
  by (auto simp: local_view_def local_only_def extends_def) (simp_all add: mark_processed_def)

text \<open>Adding what the database answers.\<close>

lemma process_local:
  assumes v: "local_view K env u" and a: "je_type env = PKG_JOBS_AUTOREMOVE" and p: "je_local env uid = Some p" and n: "pkg_jobs_universe_find u uid = None"
  shows "\<exists>rc u'. pkg_jobs_universe_process env 1 u p = Some (rc, u') \<and> local_view K env u' \<and> extends u u' \<and>
    (\<not> pkg_locked p \<longrightarrow> rc = EPKG_OK)"
proof -
  note q = local_view_answer [OF v p]
  have ok: "universe_ok K u" "consistent K" using v by (simp_all add: local_view_def local_only_def env_ok_def)
  have t: "process_by_type r env rc0 p' w = Some (rc0, w)" for r rc0 p' w using a by (simp add: process_by_type_def Let_def)
  from add_pkg_cases [OF ok q(1), of env] consider
    (found) i where "i < length (u_items u)" "pkg_key (item_pkg u i) = pkg_key p"
  | (locked) "pkg_locked p" "pkg_jobs_universe_add_pkg env u p = Some (EPKG_LOCKED, None, p, u)"
  | (new) d where "\<forall>i < length (u_items u). pkg_key (item_pkg u i) \<noteq> pkg_key p" "pkg_digest p = Some d"
      "pkg_jobs_universe_add_pkg env u p = Some (EPKG_OK, Some (length (u_items u)), p, add_item u p d)" by blast
  then show ?thesis
  proof cases
    case found
    have "admissible K (item_pkg u i)" using ok(1) found(1) by (simp add: universe_ok_def)
    then have "pkg_uid (item_pkg u i) = uid"
      using consistentD(1) [OF ok(2) _ q(1)] found(2) q(3) by (simp add: pkg_key_def)
    then have "has_uid u uid" using found(1) unfolding has_uid_def by blast
    then have False using find_has_uid [OF ok(1), of uid] n by simp
    then show ?thesis ..
  next
    case locked
    then show ?thesis using v by (simp add: pkg_jobs_universe_process_def)
  next
    case new
    have "local_view K env (add_item u p d)" using local_view_add_item [OF v _ new(2,1)] p q(3) by simp
    then have "local_view K env (mark_processed (length (u_items u)) (add_item u p d))" by (rule local_view_mark) simp
    moreover have "extends u (mark_processed (length (u_items u)) (add_item u p d))"
      using extends_trans [OF extends_add_item mark_processed_keeps(2)] by simp
    ultimately show ?thesis using new(3) t by (simp add: pkg_jobs_universe_process_def)
  qed
qed

lemma automatic_rdep_view:
  assumes v: "local_view K env u" and a: "je_type env = PKG_JOBS_AUTOREMOVE"
  shows "\<exists>r u'. automatic_rdep env u uid = Some (r, u') \<and> local_view K env u' \<and> extends u u' \<and>
    (\<forall>q. r = Some q \<longrightarrow> je_local env uid = Some q \<and> pkg_automatic q) \<and>
    (\<forall>q. je_local env uid = Some q \<and> pkg_automatic q \<and> \<not> pkg_locked q \<longrightarrow> r = Some q)"
proof (cases "pkg_jobs_universe_find u uid")
  case None
  show ?thesis
  proof (cases "je_local env uid")
    case (Some q)
    from process_local [OF v a Some None] obtain rc u' where
      "pkg_jobs_universe_process env 1 u q = Some (rc, u')" "local_view K env u'" "extends u u'" "\<not> pkg_locked q \<longrightarrow> rc = EPKG_OK" by blast
    then show ?thesis using None Some v get_local_view [OF v] by (auto simp: automatic_rdep_def)
  qed (use None v get_local_view [OF v] in \<open>auto simp: automatic_rdep_def\<close>)
next
  case (Some c)
  then show ?thesis using chain_head [OF v Some] v by (auto simp: automatic_rdep_def)
qed

section \<open>What the test decides\<close>

text \<open>Everything that needs the package, directly or not, is installed and automatic.\<close>

definition only_automatic :: "job_env \<Rightarrow> pkg \<Rightarrow> bool" where
  "only_automatic env p \<longleftrightarrow> (\<forall>q. (rdep env)\<^sup>*\<^sup>* p q \<longrightarrow>
     (\<forall>d \<in> set (pkg_rdepends q). \<exists>r. je_local env (dep_uid d) = Some r \<and> pkg_automatic r))"

lemma only_automatic_step:
  "only_automatic env p \<longleftrightarrow>
     (\<forall>d \<in> set (pkg_rdepends p). \<exists>q. je_local env (dep_uid d) = Some q \<and> pkg_automatic q \<and> only_automatic env q)"
proof
  assume p: "only_automatic env p"
  show "\<forall>d \<in> set (pkg_rdepends p). \<exists>q. je_local env (dep_uid d) = Some q \<and> pkg_automatic q \<and> only_automatic env q"
  proof
    fix d assume d: "d \<in> set (pkg_rdepends p)"
    then obtain q where q: "je_local env (dep_uid d) = Some q" "pkg_automatic q" using p unfolding only_automatic_def by blast
    then have "rdep env p q" using d unfolding rdep_def by blast
    then have "only_automatic env q" using p unfolding only_automatic_def by (metis converse_rtranclp_into_rtranclp)
    then show "\<exists>q. je_local env (dep_uid d) = Some q \<and> pkg_automatic q \<and> only_automatic env q" using q by blast
  qed
next
  assume s: "\<forall>d \<in> set (pkg_rdepends p). \<exists>q. je_local env (dep_uid d) = Some q \<and> pkg_automatic q \<and> only_automatic env q"
  show "only_automatic env p"
    unfolding only_automatic_def
  proof (intro allI impI)
    fix q assume "(rdep env)\<^sup>*\<^sup>* p q"
    then consider "q = p" | p' where "rdep env p p'" "(rdep env)\<^sup>*\<^sup>* p' q" by (metis converse_rtranclpE)
    then show "\<forall>d \<in> set (pkg_rdepends q). \<exists>r. je_local env (dep_uid d) = Some r \<and> pkg_automatic r"
    proof cases
      case 2
      then have "only_automatic env p'" using s unfolding rdep_def by auto
      then show ?thesis using 2(2) unfolding only_automatic_def by blast
    qed (use s in blast)
  qed
qed

lemma only_automatic_rdep: "only_automatic env p \<Longrightarrow> rdep env p q \<Longrightarrow> pkg_automatic q \<and> only_automatic env q"
  unfolding rdep_def by (subst (asm) only_automatic_step) auto

definition none_locked :: "job_env \<Rightarrow> bool" where
  "none_locked env \<longleftrightarrow> (\<forall>uid q. je_local env uid = Some q \<longrightarrow> \<not> pkg_locked q)"

definition test_ok :: "pkg_id set \<Rightarrow> job_env \<Rightarrow> universe \<Rightarrow> bool \<Rightarrow> (bool \<times> universe) option \<Rightarrow> bool" where
  "test_ok K env u b x \<longleftrightarrow> (\<forall>r u'. x = Some (r, u') \<longrightarrow> local_view K env u' \<and> (r \<longrightarrow> b) \<and> (none_locked env \<longrightarrow> r = b))"

lemma test_rdeps_ok:
  assumes a: "je_type env = PKG_JOBS_AUTOREMOVE"
    and rec: "\<And>v q. local_view K env v \<Longrightarrow> test_ok K env v (only_automatic env q) (rec v q)"
  shows "local_view K env u \<Longrightarrow>
    test_ok K env u (\<forall>d \<in> set ds. \<exists>q. je_local env (dep_uid d) = Some q \<and> pkg_automatic q \<and> only_automatic env q)
      (test_rdeps rec env ds u)"
proof (induction ds arbitrary: u)
  case (Cons d ds)
  from automatic_rdep_view [OF Cons.prems a, of "dep_uid d"] obtain r v where
    r: "automatic_rdep env u (dep_uid d) = Some (r, v)" "local_view K env v"
      "\<forall>q. r = Some q \<longrightarrow> je_local env (dep_uid d) = Some q \<and> pkg_automatic q"
      "\<forall>q. je_local env (dep_uid d) = Some q \<and> pkg_automatic q \<and> \<not> pkg_locked q \<longrightarrow> r = Some q" by blast
  show ?case
  proof (cases r)
    case None
    then have n: "pkg_locked q" if "je_local env (dep_uid d) = Some q" "pkg_automatic q" for q using r(4) that by auto
    have "\<not> (none_locked env \<and> (\<exists>q. je_local env (dep_uid d) = Some q \<and> pkg_automatic q))"
      using n unfolding none_locked_def by blast
    then show ?thesis using r(1,2) None by (auto simp: test_ok_def)
  next
    case (Some q)
    show ?thesis
    proof (cases "rec v q")
      case None
      then show ?thesis using r(1) Some by (simp add: test_ok_def)
    next
      case rc: (Some x)
      obtain b w where x: "x = (b, w)" by (cases x)
      have q: "local_view K env w" "b \<longrightarrow> only_automatic env q" "none_locked env \<longrightarrow> b = only_automatic env q"
        using rec [OF r(2), of q] rc x by (simp_all add: test_ok_def)
      have d: "je_local env (dep_uid d) = Some q" "pkg_automatic q" using r(3) Some by simp_all
      show ?thesis
      proof (cases b)
        case True
        then have "only_automatic env q" using q(2) by simp
        then show ?thesis using r(1) Some rc x d True Cons.IH [OF q(1)] by (simp add: test_ok_def)
      next
        case False
        then show ?thesis using r(1) Some rc x d q by (simp add: test_ok_def)
      qed
    qed
  qed
qed (simp add: test_ok_def)

lemma test_automatic_ok:
  assumes a: "je_type env = PKG_JOBS_AUTOREMOVE"
  shows "local_view K env u \<Longrightarrow> test_ok K env u (only_automatic env p) (pkg_jobs_test_automatic env n u p)"
proof (induction n arbitrary: u p)
  case (Suc n)
  show ?case using test_rdeps_ok [OF a Suc.IH Suc.prems, of "pkg_rdepends p"] by (simp add: only_automatic_step [symmetric])
qed (simp add: test_ok_def)

lemma test_rdeps_returns:
  assumes a: "je_type env = PKG_JOBS_AUTOREMOVE"
    and rec: "\<And>v q. local_view K env v \<Longrightarrow> \<exists>d \<in> set ds. je_local env (dep_uid d) = Some q \<Longrightarrow>
      \<exists>b w. rec v q = Some (b, w) \<and> local_view K env w \<and> extends v w"
  shows "local_view K env u \<Longrightarrow> \<exists>b w. test_rdeps rec env ds u = Some (b, w) \<and> local_view K env w \<and> extends u w"
  using rec
proof (induction ds arbitrary: u)
  case (Cons d ds)
  from automatic_rdep_view [OF Cons.prems(1) a, of "dep_uid d"] obtain r v where
    r: "automatic_rdep env u (dep_uid d) = Some (r, v)" "local_view K env v" "extends u v" "\<forall>q. r = Some q \<longrightarrow> je_local env (dep_uid d) = Some q \<and> pkg_automatic q"
    "\<forall>q. je_local env (dep_uid d) = Some q \<and> pkg_automatic q \<and> \<not> pkg_locked q \<longrightarrow> r = Some q" by blast
  show ?case
  proof (cases r)
    case (Some q)
    then have d: "je_local env (dep_uid d) = Some q" using r(4) by simp
    then obtain b w where w: "rec v q = Some (b, w)" "local_view K env w" "extends v w" using Cons.prems(2) [OF r(2), of q] by auto
    have "\<exists>b w'. test_rdeps rec env ds w = Some (b, w') \<and> local_view K env w' \<and> extends w w'"
      using Cons.prems(2) by (intro Cons.IH w(2)) simp
    then show ?thesis using r(1) Some w(1,2) extends_trans [OF r(3) w(3)] extends_trans [OF extends_trans [OF r(3) w(3)]]
      by (cases b) auto
  next
    case None
    then show ?thesis using r(1-3) by auto
  qed
qed auto

lemma test_rank:
  fixes rank :: "pkg \<Rightarrow> nat"
  assumes "local_view K env u" "je_type env = PKG_JOBS_AUTOREMOVE" "none_locked env"
    and "\<And>p q. rdep env p q \<Longrightarrow> rank q < rank p" "rank p < n"
  shows "\<exists>u'. pkg_jobs_test_automatic env n u p = Some (only_automatic env p, u') \<and> local_view K env u' \<and> extends u u'"
proof -
  have "\<exists>b u'. pkg_jobs_test_automatic env n u p = Some (b, u') \<and> local_view K env u' \<and> extends u u'"
    using assms(1,5)
  proof (induction n arbitrary: u p)
    case (Suc n)
    have "\<exists>b w. pkg_jobs_test_automatic env n v q = Some (b, w) \<and> local_view K env w \<and> extends v w"
      if "local_view K env v" "\<exists>d \<in> set (pkg_rdepends p). je_local env (dep_uid d) = Some q" for v q
    proof -
      have "rdep env p q" using that(2) by (simp add: rdep_def)
      from assms(4) [OF this] have "rank q < n" using Suc.prems(2) by simp
      then show ?thesis by (rule Suc.IH [OF that(1)])
    qed
    then show ?case using test_rdeps_returns [OF assms(2) _ Suc.prems(1)] by simp
  qed simp
  then obtain b u' where t: "pkg_jobs_test_automatic env n u p = Some (b, u')" "local_view K env u'" "extends u u'" by blast
  then have "b = only_automatic env p"
    using test_automatic_ok [OF assms(2,1), of p n] assms(3) by (simp add: test_ok_def)
  then show ?thesis using t by blast
qed

text \<open>There is no guard against a circle: when each of some automatic packages is needed first by
  another of them, the test recurses without end.
\<close>

theorem test_automatic_circular:
  assumes "local_view K env u" "je_type env = PKG_JOBS_AUTOREMOVE" "none_locked env"
    and "\<And>p. p \<in> C \<Longrightarrow> \<exists>d ds q. pkg_rdepends p = d # ds \<and> je_local env (dep_uid d) = Some q \<and> pkg_automatic q \<and> q \<in> C"
    and "p \<in> C"
  shows "pkg_jobs_test_automatic env n u p = None"
  using assms(1,5)
proof (induction n arbitrary: u p)
  case (Suc n)
  obtain d ds q where q: "pkg_rdepends p = d # ds" "je_local env (dep_uid d) = Some q" "pkg_automatic q" "q \<in> C"
    using assms(4) [OF Suc.prems(2)] by blast
  moreover have "\<not> pkg_locked q" using assms(3) q(2) by (auto simp: none_locked_def)
  moreover obtain r v where "automatic_rdep env u (dep_uid d) = Some (r, v)" "local_view K env v"
      "\<forall>q. je_local env (dep_uid d) = Some q \<and> pkg_automatic q \<and> \<not> pkg_locked q \<longrightarrow> r = Some q"
    using automatic_rdep_view [OF Suc.prems(1) assms(2), of "dep_uid d"] by blast
  ultimately have "automatic_rdep env u (dep_uid d) = Some (Some q, v)" "local_view K env v" by simp_all
  then show ?case using Suc.IH [of v q] q by simp
qed simp

section \<open>What is requested\<close>

text \<open>The first package of every request is not locked and has a given property.\<close>

definition requested :: "(pkg \<Rightarrow> bool) \<Rightarrow> universe \<Rightarrow> requests \<Rightarrow> bool" where
  "requested P u reqs \<longleftrightarrow> (\<forall>(uid, req) \<in> set reqs. rq_items req \<noteq> [] \<and> hd (rq_items req) < length (u_items u) \<and>
     (let p = item_pkg u (hd (rq_items req)) in pkg_uid p = uid \<and> \<not> pkg_locked p \<and> P p))"

lemma set_request_set: "set (set_request uid r head) \<subseteq> insert (uid, r) (set head)"
  by (induction uid r head rule: set_request.induct) auto

lemma requested_set_request:
  assumes "requested P u reqs" "rq_items r \<noteq> []" "hd (rq_items r) < length (u_items u)"
    "item_pkg u (hd (rq_items r)) = p" "pkg_uid p = uid" "\<not> pkg_locked p" "P p"
  shows "requested P u (set_request uid r reqs)"
  using assms set_request_set [of uid r reqs] unfolding requested_def Let_def by blast

lemma requested_extends:
  "requested P u reqs \<Longrightarrow> extends u v \<Longrightarrow> requested P v reqs"
  unfolding requested_def extends_def Let_def by (fastforce split: prod.splits)

lemma dom_set_request: "dom (map_of (set_request uid r head)) = insert uid (dom (map_of head))"
  using requests.dom_put [of uid r head] by (simp add: dom_def find_request_def)

lemma local_view_unique:
  assumes "local_view K env u" "i < length (u_items u)" "j < length (u_items u)" "pkg_uid (item_pkg u i) = pkg_uid (item_pkg u j)"
  shows "i = j"
proof -
  have "item_pkg u i = item_pkg u j" using assms unfolding local_view_def by (metis option.inject)
  then show ?thesis using assms unfolding local_view_def local_only_def universe_ok_def by metis
qed

text \<open>A request for an installed package is accepted, whatever was requested before.\<close>

lemma add_req_view:
  assumes v: "local_view K env u" and p: "je_local env uid = Some p" "\<not> pkg_locked p"
    and auto: "P p" "requested P u reqs"
  shows "\<exists>i reqs' u'. pkg_jobs_add_req env u reqs p = Some (Some i, reqs', u') \<and> local_view K env u' \<and>
    requested P u' reqs' \<and> dom (map_of reqs') = insert uid (dom (map_of reqs))"
proof -
  note q = local_view_answer [OF v p(1)]
  have ok: "universe_ok K u" "consistent K" and del: "je_type env = PKG_JOBS_DEINSTALL \<or> je_type env = PKG_JOBS_AUTOREMOVE"
    using v by (auto simp: local_view_def local_only_def env_ok_def)
  from add_pkg_cases [OF ok q(1), of env] consider
    (found) s where "pkg_jobs_universe_add_pkg env u p = Some (EPKG_END, Some s, p, u)"
  | (new) d where "\<forall>i < length (u_items u). pkg_key (item_pkg u i) \<noteq> pkg_key p" "pkg_digest p = Some d"
      "pkg_jobs_universe_add_pkg env u p = Some (EPKG_OK, Some (length (u_items u)), p, add_item u p d)" using p(2) by blast
  then show ?thesis
  proof cases
    case found
    note s = add_pkg_END_uid [OF found ok q(1)]
    have sp: "item_pkg u s = p" using v s(1,4) p(1) q(3) by (auto simp: local_view_def)
    show ?thesis
    proof (cases "find_request reqs uid")
      case None
      have "chain_from u s = s # filter (\<lambda>i. pkg_uid (item_pkg u i) = pkg_uid (item_pkg u s)) [Suc s..<length (u_items u)]"
        using chain_from_eq [OF ok(1) s(4)] s(4) by (simp add: upt_conv_Cons)
      then obtain js where f: "filter (\<lambda>uit. installed (item_pkg u uit) \<longleftrightarrow> True) (chain_from u s) = s # js"
        using q(2) sp by simp
      have "pkg_jobs_add_req env u reqs p = Some (Some s, set_request uid ((new_request False)\<lparr>rq_items := s # js\<rparr>) reqs, u)"
        using found None del q f by (simp add: pkg_jobs_add_req_def pkg_jobs_add_req_from_universe_def Let_def sp)
      moreover have "requested P u (set_request uid ((new_request False)\<lparr>rq_items := s # js\<rparr>) reqs)"
        by (rule requested_set_request [OF auto(2), where p = p]) (use s(4) sp q(3) p(2) auto in simp_all)
      ultimately show ?thesis using v dom_set_request [of uid _ reqs] by blast
    next
      case (Some req)
      then have "(uid, req) \<in> set reqs" by (simp add: find_request_def map_of_SomeD)
      then have h: "rq_items req \<noteq> []" "hd (rq_items req) < length (u_items u)" "pkg_uid (item_pkg u (hd (rq_items req))) = uid"
        using auto(2) by (auto simp: requested_def Let_def)
      then have "hd (rq_items req) = s" using local_view_unique [OF v _ s(4)] s(1) q(3) by simp
      then have "s \<in> set (rq_items req)" using h(1) hd_in_set by blast
      then have "pkg_jobs_add_req env u reqs p = Some (Some s, reqs, u)"
        using found Some del q by (simp add: pkg_jobs_add_req_def Let_def)
      moreover have "uid \<in> dom (map_of reqs)" using Some by (simp add: find_request_def domIff)
      ultimately show ?thesis using v auto(2) by (auto simp: insert_absorb)
    qed
  next
    case new
    let ?j = "length (u_items u)" and ?u = "add_item u p d"
    have j: "item_pkg ?u ?j = p" "?j < length (u_items ?u)" using item_pkg_add_item [of u p d ?j] by simp_all
    have v': "local_view K env ?u" using local_view_add_item [OF v _ new(2,1)] p(1) q(3) by simp
    have r: "requested P ?u reqs" using requested_extends [OF auto(2) extends_add_item] .
    have "requested P ?u (append_request reqs uid ?j)"
    proof (cases "find_request reqs uid")
      case None
      then show ?thesis unfolding append_request_def Let_def option.case
        by (intro requested_set_request [OF r, where p = p]) (use j q(3) p(2) auto in \<open>simp_all add: new_request_def\<close>)
    next
      case (Some req)
      then have "(uid, req) \<in> set reqs" by (simp add: find_request_def map_of_SomeD)
      then have h: "rq_items req \<noteq> []" "hd (rq_items req) < length (u_items ?u)" "pkg_uid (item_pkg ?u (hd (rq_items req))) = uid"
        using r by (auto simp: requested_def Let_def)
      then have "hd (rq_items req) = ?j" using local_view_unique [OF v' _ j(2)] j(1) q(3) by simp
      moreover have "hd (rq_items req) < ?j" using auto(2) \<open>(uid, req) \<in> set reqs\<close> by (auto simp: requested_def Let_def)
      ultimately show ?thesis by simp
    qed
    moreover have "pkg_jobs_add_req env u reqs p = Some (Some ?j, append_request reqs uid ?j, ?u)"
      using new(3) p(2) del q by (auto simp: pkg_jobs_add_req_def Let_def)
    ultimately show ?thesis using v' dom_set_request [of uid _ reqs] by (auto simp: append_request_def Let_def)
  qed
qed

lemma add_requests_view:
  assumes "local_view K env u" "requested P u reqs"
    "\<forall>p \<in> set ps. je_local env (pkg_uid p) = Some p \<and> \<not> pkg_locked p \<and> P p"
  shows "\<exists>reqs' u'. add_requests env ps reqs u = Some (True, reqs', u') \<and> local_view K env u' \<and>
    requested P u' reqs' \<and> dom (map_of reqs') = pkg_uid ` set ps \<union> dom (map_of reqs)"
  using assms
proof (induction ps arbitrary: reqs u)
  case (Cons p ps)
  have p: "je_local env (pkg_uid p) = Some p" "\<not> pkg_locked p" "P p"
    and ps: "\<forall>p \<in> set ps. je_local env (pkg_uid p) = Some p \<and> \<not> pkg_locked p \<and> P p"
    using Cons.prems(3) by simp_all
  from add_req_view [OF Cons.prems(1) p Cons.prems(2)] obtain i reqs1 u1 where
    1: "pkg_jobs_add_req env u reqs p = Some (Some i, reqs1, u1)" "local_view K env u1" "requested P u1 reqs1"
      "dom (map_of reqs1) = insert (pkg_uid p) (dom (map_of reqs))" by blast
  from Cons.IH [OF 1(2,3) ps] obtain reqs' u' where
    2: "add_requests env ps reqs1 u1 = Some (True, reqs', u')" "local_view K env u'" "requested P u' reqs'"
      "dom (map_of reqs') = pkg_uid ` set ps \<union> dom (map_of reqs1)" by blast
  then have "add_requests env (p # ps) reqs u = Some (True, reqs', u')" using 1(1) by simp
  moreover have "dom (map_of reqs') = pkg_uid ` set (p # ps) \<union> dom (map_of reqs)" using 1(4) 2(4) by simp
  ultimately show ?case using 2(2,3) by blast
qed simp

lemma delete_request_view:
  assumes closed: "\<And>p q. P p \<Longrightarrow> rdep env p q \<Longrightarrow> P q"
    and "local_view K env u" "requested P u reqs" "pkg_jobs_process_delete_request n env reqs u = Some (rc, reqs', u')"
  shows "local_view K env u' \<and> requested P u' reqs' \<and> dom (map_of reqs) \<subseteq> dom (map_of reqs')"
  using assms(2-)
proof (induction n arbitrary: reqs u)
  case (Suc n)
  let ?lps = "missing_rdeps env u reqs"
  show ?case
  proof (cases "je_force env \<or> (\<exists>lp \<in> set ?lps. pkg_locked lp)")
    case True
    then have "reqs' = reqs" "u' = u" using Suc.prems(3) by (simp_all add: Let_def split: if_splits)
    then show ?thesis using Suc.prems(1,2) by simp
  next
    case False
    have "je_local env (pkg_uid lp) = Some lp \<and> \<not> pkg_locked lp \<and> P lp"
      if lp: "lp \<in> set ?lps" for lp
    proof -
      obtain uid req d where r: "(uid, req) \<in> set reqs" "d \<in> set (pkg_rdepends (item_pkg u (hd (rq_items req))))"
        "pkg_jobs_universe_get_local env u (dep_uid d) = Some lp" using lp unfolding missing_rdeps_set by blast
      then have l: "je_local env (dep_uid d) = Some lp" using get_local_view [OF Suc.prems(1)] by simp
      then have "rdep env (item_pkg u (hd (rq_items req))) lp" using r(2) by (auto simp: rdep_def)
      moreover have "P (item_pkg u (hd (rq_items req)))"
        using Suc.prems(2) r(1) by (auto simp: requested_def Let_def)
      ultimately show ?thesis
        using closed [of _ lp] local_view_answer(3) [OF Suc.prems(1) l] l lp False by auto
    qed
    then obtain reqs1 u1 where a: "add_requests env ?lps reqs u = Some (True, reqs1, u1)" "local_view K env u1"
      "requested P u1 reqs1" "dom (map_of reqs1) = pkg_uid ` set ?lps \<union> dom (map_of reqs)"
      using add_requests_view [OF Suc.prems(1,2), of ?lps] by blast
    show ?thesis
    proof (cases "?lps = []")
      case True
      then show ?thesis using Suc.prems False a by (simp add: Let_def)
    next
      case nonempty: False
      then have "pkg_jobs_process_delete_request n env reqs1 u1 = Some (rc, reqs', u')"
        using Suc.prems(3) False a(1) by (simp add: Let_def)
      from Suc.IH [OF a(2,3) this] a(4) show ?thesis by blast
    qed
  qed
qed simp

text \<open>The packages that a query answers are answers of the local database.\<close>

definition answers :: "job_env \<Rightarrow> pkg list \<Rightarrow> bool" where
  "answers env ps \<longleftrightarrow> (\<forall>p \<in> set ps. je_local env (pkg_uid p) = Some p)"

definition requested_automatic :: "job_env \<Rightarrow> universe \<Rightarrow> requests \<Rightarrow> bool" where
  "requested_automatic env = requested (\<lambda>p. pkg_automatic p \<and> only_automatic env p)"

lemma autoremove_loop_ok:
  fixes rank :: "pkg \<Rightarrow> nat"
  assumes a: "je_type env = PKG_JOBS_AUTOREMOVE" "none_locked env"
    and rank: "\<And>p q. rdep env p q \<Longrightarrow> rank q < rank p"
  shows "local_view K env u \<Longrightarrow> requested_automatic env u reqs \<Longrightarrow> answers env ps \<Longrightarrow>
    \<forall>p \<in> set ps. pkg_automatic p \<and> rank p < n \<Longrightarrow>
    \<exists>reqs' u'. autoremove_loop n env ps reqs u = Some (reqs', u') \<and> local_view K env u' \<and> requested_automatic env u' reqs' \<and>
      dom (map_of reqs') = pkg_uid ` {p \<in> set ps. only_automatic env p} \<union> dom (map_of reqs)"
proof (induction ps arbitrary: reqs u)
  case (Cons p ps)
  have p: "je_local env (pkg_uid p) = Some p" "\<not> pkg_locked p" "pkg_automatic p" "rank p < n"
    using Cons.prems(3,4) a(2) unfolding answers_def none_locked_def by auto
  have ps: "answers env ps" "\<forall>p \<in> set ps. pkg_automatic p \<and> rank p < n"
    using Cons.prems(3,4) by (simp_all add: answers_def)
  from test_rank [where rank = rank, OF Cons.prems(1) a rank p(4)] obtain v where
    t: "pkg_jobs_test_automatic env n u p = Some (only_automatic env p, v)" "local_view K env v" "requested_automatic env v reqs"
    using requested_extends Cons.prems(2) unfolding requested_automatic_def by blast
  show ?case
  proof (cases "only_automatic env p")
    case True
    from add_req_view [where P = "\<lambda>p. pkg_automatic p \<and> only_automatic env p", OF t(2) p(1,2) _ t(3) [unfolded requested_automatic_def]] p(3) True obtain i reqs1 u1 where
      1: "pkg_jobs_add_req env v reqs p = Some (Some i, reqs1, u1)" "local_view K env u1" "requested_automatic env u1 reqs1"
        "dom (map_of reqs1) = insert (pkg_uid p) (dom (map_of reqs))" unfolding requested_automatic_def by blast
    have s: "{x \<in> set (p # ps). only_automatic env x} = insert p {x \<in> set ps. only_automatic env x}" using True by auto
    from Cons.IH [OF 1(2,3) ps] show ?thesis using t(1) 1(1,4) p(2) True unfolding s by simp
  next
    case False
    have s: "{x \<in> set (p # ps). only_automatic env x} = {x \<in> set ps. only_automatic env x}" using False by auto
    from Cons.IH [OF t(2,3) ps] show ?thesis using t(1) p(2) False unfolding s by simp
  qed
qed simp

text \<open>C7. Autoremove over the automatic packages of the local database ends, and of the packages that the
  query answers it requests exactly those that only automatic packages need. Whatever else it
  requests to delete was installed automatically and is needed by automatic packages only. The
  conditions: packages do not need each other in a circle (\<open>rank\<close> decreases along the reverse
  dependencies; circular automatic packages make the test recurse for ever, see
  \<open>test_automatic_circular\<close>), no installed package is locked, what the query answers and what the
  universe holds are what the local database says of the uid, and the depth allowed for the
  recursion exceeds the ranks and the number of known uids.
\<close>

theorem autoremove_exact:
  fixes rank :: "pkg \<Rightarrow> nat"
  assumes "local_view K env u" "je_type env = PKG_JOBS_AUTOREMOVE" "none_locked env"
    and "\<And>p q. rdep env p q \<Longrightarrow> rank q < rank p"
    and "answers env ps" "\<forall>p \<in> set ps. pkg_automatic p \<and> rank p < n" "card (known_uids K) < n"
  shows "\<exists>reqs u'. jobs_solve_autoremove n env (Some ps) [] u = Some (EPKG_OK, reqs, u') \<and>
    requested_automatic env u' reqs \<and> (\<forall>p \<in> set ps. pkg_uid p \<in> dom (map_of reqs) \<longleftrightarrow> only_automatic env p)"
proof -
  have "requested_automatic env u []" by (simp add: requested_automatic_def requested_def)
  from autoremove_loop_ok [where rank = rank, OF assms(2,3,4) assms(1) this assms(5,6)] obtain reqs1 u1 where
    1: "autoremove_loop n env ps [] u = Some (reqs1, u1)" "local_view K env u1" "requested_automatic env u1 reqs1"
      "dom (map_of reqs1) = pkg_uid ` {p \<in> set ps. only_automatic env p}" by auto
  have lo: "local_only K env u1" using 1(2) unfolding local_view_def by blast
  then have "finite K" unfolding local_only_def env_ok_def consistent_def by blast
  then have fin: "finite (known_uids K)" by (simp add: known_uids_def)
  have "card (known_uids K - dom (map_of reqs1)) \<le> card (known_uids K)" using fin by (intro card_mono) auto
  then have "card (known_uids K - dom (map_of reqs1)) < n" using assms(7) by simp
  from delete_rounds [OF lo this] obtain rc reqs2 u2 where
    2: "pkg_jobs_process_delete_request n env reqs1 u1 = Some (rc, reqs2, u2)" by blast
  have closed: "pkg_automatic q \<and> only_automatic env q" if "pkg_automatic p \<and> only_automatic env p" "rdep env p q" for p q
    using only_automatic_rdep that by blast
  from delete_request_view [where P = "\<lambda>p. pkg_automatic p \<and> only_automatic env p", OF _ 1(2) 1(3) [unfolded requested_automatic_def] 2] closed
  have 3: "local_view K env u2" "requested_automatic env u2 reqs2" "dom (map_of reqs1) \<subseteq> dom (map_of reqs2)"
    unfolding requested_automatic_def by blast+
  have "pkg_uid p \<in> dom (map_of reqs2) \<longleftrightarrow> only_automatic env p" if p: "p \<in> set ps" for p
  proof
    assume "pkg_uid p \<in> dom (map_of reqs2)"
    then obtain req where r: "(pkg_uid p, req) \<in> set reqs2" by (auto dest: map_of_SomeD)
    let ?q = "item_pkg u2 (hd (rq_items req))"
    have q: "hd (rq_items req) < length (u_items u2)" "pkg_uid ?q = pkg_uid p" "only_automatic env ?q"
      using 3(2) r by (auto simp: requested_automatic_def requested_def Let_def)
    then have "je_local env (pkg_uid p) = Some ?q" using 3(1) by (auto simp: local_view_def)
    moreover have "je_local env (pkg_uid p) = Some p" using assms(5) p by (simp add: answers_def)
    ultimately show "only_automatic env p" using q(3) by simp
  next
    assume "only_automatic env p"
    then show "pkg_uid p \<in> dom (map_of reqs2)" using 1(4) 3(3) p by auto
  qed
  moreover have "jobs_solve_autoremove n env (Some ps) [] u = Some (EPKG_OK, reqs2, u2)"
    using 1(1) 2 by (simp add: jobs_solve_autoremove_def)
  ultimately show ?thesis using 3(2) by blast
qed

text \<open>The packages that match the patterns of a deinstall job.\<close>

lemma deinstall_matches_ok:
  assumes "local_view K env u" "requested (\<lambda>_. True) u reqs" "answers env ps"
  shows "\<exists>ls' reqs' u'. deinstall_matches env ps ls reqs u = Some (ls', reqs', u') \<and> local_view K env u' \<and>
    requested (\<lambda>_. True) u' reqs' \<and> dom (map_of reqs') = pkg_uid ` {p \<in> set ps. \<not> pkg_locked p} \<union> dom (map_of reqs) \<and>
    pkg_name ` set ls' = pkg_name ` {p \<in> set ps. pkg_locked p} \<union> pkg_name ` set ls"
  using assms
proof (induction ps arbitrary: ls reqs u)
  case (Cons p ps)
  have p: "je_local env (pkg_uid p) = Some p" and ps: "answers env ps" using Cons.prems(3) by (simp_all add: answers_def)
  show ?case
  proof (cases "pkg_locked p")
    case True
    have s: "{x \<in> set (p # ps). \<not> pkg_locked x} = {x \<in> set ps. \<not> pkg_locked x}"
      "{x \<in> set (p # ps). pkg_locked x} = insert p {x \<in> set ps. pkg_locked x}" using True by auto
    have "pkg_name ` set (insert_locked p ls) = insert (pkg_name p) (pkg_name ` set ls)" by (auto simp: insert_locked_def)
    with Cons.IH [OF Cons.prems(1,2) ps, of "insert_locked p ls"] True show ?thesis unfolding s by simp
  next
    case False
    from add_req_view [where P = "\<lambda>_. True", OF Cons.prems(1) p False _ Cons.prems(2)] obtain i reqs1 u1 where
      1: "pkg_jobs_add_req env u reqs p = Some (Some i, reqs1, u1)" "local_view K env u1" "requested (\<lambda>_. True) u1 reqs1"
        "dom (map_of reqs1) = insert (pkg_uid p) (dom (map_of reqs))" by blast
    have s: "{x \<in> set (p # ps). \<not> pkg_locked x} = insert p {x \<in> set ps. \<not> pkg_locked x}"
      "{x \<in> set (p # ps). pkg_locked x} = {x \<in> set ps. pkg_locked x}" using False by auto
    from Cons.IH [OF 1(2,3) ps, of ls] 1(1,4) False show ?thesis unfolding s by simp
  qed
qed simp

definition accounted :: "pkg list \<Rightarrow> pkg list \<Rightarrow> requests \<Rightarrow> bool" where
  "accounted ps ls reqs \<longleftrightarrow>
     (\<forall>p \<in> set ps. if pkg_locked p then pkg_name p \<in> pkg_name ` set ls else pkg_uid p \<in> dom (map_of reqs))"

lemma deinstall_ok:
  assumes "\<forall>jp \<in> set jps. \<exists>ps. query jp = Some ps \<and> answers env ps" "card (known_uids K) < n"
  shows "local_view K env u \<Longrightarrow> requested (\<lambda>_. True) u reqs \<Longrightarrow>
    \<exists>rc ls' reqs1 u1 reqs' u'. jobs_solve_deinstall n env query jps ls reqs u = Some (rc, True, ls', reqs', u') \<and>
      pkg_jobs_process_delete_request n env reqs1 u1 = Some (rc, reqs', u') \<and> local_view K env u1 \<and> requested (\<lambda>_. True) u1 reqs1 \<and>
      dom (map_of reqs) \<subseteq> dom (map_of reqs1) \<and> pkg_name ` set ls \<subseteq> pkg_name ` set ls' \<and>
      (\<forall>jp \<in> set jps. accounted (the (query jp)) ls' reqs1)"
  using assms(1)
proof (induction jps arbitrary: ls reqs u)
  case Nil
  have lo: "local_only K env u" using Nil(1) unfolding local_view_def by blast
  then have "finite K" unfolding local_only_def env_ok_def consistent_def by blast
  then have "card (known_uids K - dom (map_of reqs)) \<le> card (known_uids K)" by (intro card_mono) (auto simp: known_uids_def)
  then have "card (known_uids K - dom (map_of reqs)) < n" using assms(2) by simp
  from delete_rounds [OF lo this] obtain rc reqs' u' where
    "pkg_jobs_process_delete_request n env reqs u = Some (rc, reqs', u')" by blast
  then show ?case using Nil by (intro exI [of _ rc] exI [of _ ls] exI [of _ reqs] exI [of _ u] exI [of _ reqs'] exI [of _ u']) simp
next
  case (Cons jp jps)
  from Cons.prems(3) obtain ps where q: "query jp = Some ps" "answers env ps"
    and jps: "\<forall>jp \<in> set jps. \<exists>ps. query jp = Some ps \<and> answers env ps" by auto
  from deinstall_matches_ok [OF Cons.prems(1,2) q(2), of ls] obtain ls2 reqs2 u2 where
    m: "deinstall_matches env ps ls reqs u = Some (ls2, reqs2, u2)" "local_view K env u2" "requested (\<lambda>_. True) u2 reqs2"
      "dom (map_of reqs2) = pkg_uid ` {p \<in> set ps. \<not> pkg_locked p} \<union> dom (map_of reqs)"
      "pkg_name ` set ls2 = pkg_name ` {p \<in> set ps. pkg_locked p} \<union> pkg_name ` set ls"
    by (elim exE conjE) (rule that)
  from Cons.IH [OF m(2,3) jps, of ls2] obtain rc ls' reqs1 u1 reqs' u' where
    r: "jobs_solve_deinstall n env query jps ls2 reqs2 u2 = Some (rc, True, ls', reqs', u')"
      "pkg_jobs_process_delete_request n env reqs1 u1 = Some (rc, reqs', u')" "local_view K env u1" "requested (\<lambda>_. True) u1 reqs1"
      "dom (map_of reqs2) \<subseteq> dom (map_of reqs1)" "pkg_name ` set ls2 \<subseteq> pkg_name ` set ls'"
      "\<forall>jp \<in> set jps. accounted (the (query jp)) ls' reqs1"
    by (elim exE conjE) (rule that)
  have "accounted ps ls' reqs1"
    unfolding accounted_def
  proof
    fix p assume p: "p \<in> set ps"
    show "if pkg_locked p then pkg_name p \<in> pkg_name ` set ls' else pkg_uid p \<in> dom (map_of reqs1)"
    proof (cases "pkg_locked p")
    case True
    then have "pkg_name p \<in> pkg_name ` set ls2" unfolding m(5) using p by blast
    then show ?thesis using True r(6) by auto
  next
    case False
    then have "pkg_uid p \<in> dom (map_of reqs2)" unfolding m(4) using p by blast
    then show ?thesis using False r(5) by auto
    qed
  qed
  then have "\<forall>x \<in> set (jp # jps). accounted (the (query x)) ls' reqs1" using r(7) q(1) by simp
  moreover have "jobs_solve_deinstall n env query (jp # jps) ls reqs u = Some (rc, True, ls', reqs', u')"
    using q(1) m(1) r(1) by simp
  moreover have "dom (map_of reqs) \<subseteq> dom (map_of reqs1)" "pkg_name ` set ls \<subseteq> pkg_name ` set ls'"
    using m(4,5) r(5,6) by auto
  ultimately show ?case using r(2,3,4) by blast
qed

text \<open>A job to deinstall packages ends. Each package that matches a pattern is requested, or put aside
  by its name if it is locked; and when the job is accepted and not forced, what it requests is
  closed: an installed package that needs a requested one is requested.
\<close>

theorem deinstall_complete:
  assumes "local_view K env u" "\<not> je_force env" "card (known_uids K) < n"
    and "\<forall>jp \<in> set jps. \<exists>ps. query jp = Some ps \<and> answers env ps"
  shows "\<exists>rc ls reqs u'. jobs_solve_deinstall n env query jps [] [] u = Some (rc, True, ls, reqs, u') \<and>
    (\<forall>jp \<in> set jps. accounted (the (query jp)) ls reqs) \<and>
    (rc = EPKG_OK \<longrightarrow> (\<forall>(uid, req) \<in> set reqs. \<forall>p. rdep env (item_pkg u' (hd (rq_items req))) p \<longrightarrow> pkg_uid p \<in> dom (map_of reqs)))"
proof -
  have n: "requested (\<lambda>_. True) u []" by (simp add: requested_def)
  from deinstall_ok [OF assms(4,3,1) n, of "[]"] obtain rc ls reqs1 u1 reqs u' where
    r: "jobs_solve_deinstall n env query jps [] [] u = Some (rc, True, ls, reqs, u')"
      "pkg_jobs_process_delete_request n env reqs1 u1 = Some (rc, reqs, u')" "local_view K env u1" "requested (\<lambda>_. True) u1 reqs1"
      "\<forall>jp \<in> set jps. accounted (the (query jp)) ls reqs1" by (elim exE conjE) (rule that)
  from delete_request_view [where P = "\<lambda>_. True", OF _ r(3,4,2)] have
    d: "local_view K env u'" "dom (map_of reqs1) \<subseteq> dom (map_of reqs)" by blast+
  have "pkg_uid p \<in> dom (map_of reqs)"
    if ok: "rc = EPKG_OK" "(uid, req) \<in> set reqs" and dep: "rdep env (item_pkg u' (hd (rq_items req))) p" for uid req p
  proof -
    obtain x where x: "x \<in> set (pkg_rdepends (item_pkg u' (hd (rq_items req))))" "je_local env (dep_uid x) = Some p"
      using dep by (auto simp: rdep_def)
    have "find_request reqs (dep_uid x) \<noteq> None \<or> pkg_jobs_universe_get_local env u' (dep_uid x) = None"
      using bspec [OF conjunct1 [OF delete_closed [OF r(2) [unfolded ok(1)] assms(2)]] ok(2), unfolded prod.case] x(1)
      by (rule bspec)
    then have "find_request reqs (dep_uid x) \<noteq> None" unfolding get_local_view [OF d(1)] x(2) by simp
    then show ?thesis unfolding local_view_answer(3) [OF d(1) x(2)] find_request_def by (simp add: domIff)
  qed
  moreover have "\<forall>jp \<in> set jps. accounted (the (query jp)) ls reqs"
    using r(5) d(2) unfolding accounted_def by (meson subsetD)
  ultimately show ?thesis using r(1) by blast
qed

section \<open>Instances\<close>

text \<open>Both packages installed automatically; with \<open>circle\<close> each needs the other.\<close>

definition auto_zsh :: "bool \<Rightarrow> pkg" where
  "auto_zsh circle = local_zsh\<lparr>pkg_automatic := True, pkg_rdepends := if circle then [sample_dep ''pcre''] else []\<rparr>"

definition auto_pcre :: pkg where
  "auto_pcre = local_pcre\<lparr>pkg_automatic := True\<rparr>"

definition auto_env :: "bool \<Rightarrow> job_env" where
  "auto_env circle = local_env\<lparr>je_type := PKG_JOBS_AUTOREMOVE,
     je_local := (\<lambda>n. if n = ''zsh'' then Some (auto_zsh circle) else if n = ''pcre'' then Some auto_pcre else None)\<rparr>"

lemma local_view_new:
  assumes "env_ok K env" "\<And>uid p. je_local env uid = Some p \<Longrightarrow> installed p"
    "je_type env = PKG_JOBS_DEINSTALL \<or> je_type env = PKG_JOBS_AUTOREMOVE"
  shows "local_view K env pkg_jobs_universe_new"
  using assms universe_ok_new [of K] by (auto simp: local_view_def local_only_def pkg_jobs_universe_new_def)

lemma auto_pkgs:
  "admissible local_ids (auto_zsh b)" "admissible local_ids auto_pcre" "installed (auto_zsh b)" "installed auto_pcre"
  "pkg_uid (auto_zsh b) = ''zsh''" "pkg_uid auto_pcre = ''pcre''"
  "\<not> pkg_locked (auto_zsh b)" "\<not> pkg_locked auto_pcre" "pkg_automatic (auto_zsh b)" "pkg_automatic auto_pcre"
  "pkg_rdepends (auto_zsh b) = (if b then [sample_dep ''pcre''] else [])" "pkg_rdepends auto_pcre = [sample_dep ''zsh'']"
  using local_admissible
  by (simp_all add: admissible_def auto_zsh_def auto_pcre_def local_zsh_def local_pcre_def zsh_def pcre_def repo_pkg_def blank_pkg_def)

lemma local_ids_consistent: "consistent local_ids"
  by (auto simp: consistent_def local_ids_def)

lemma auto_view: "local_view local_ids (auto_env b) pkg_jobs_universe_new"
proof (rule local_view_new)
  show "env_ok local_ids (auto_env b)"
    using local_ids_consistent auto_pkgs by (auto simp: env_ok_def auto_env_def local_env_def sample_env_def)
qed (use auto_pkgs in \<open>auto simp: auto_env_def split: if_splits\<close>)

lemma auto_unlocked: "none_locked (auto_env b)" "je_type (auto_env b) = PKG_JOBS_AUTOREMOVE"
  using auto_pkgs by (auto simp: none_locked_def auto_env_def split: if_splits)

definition auto_rank :: "pkg \<Rightarrow> nat" where
  "auto_rank p = (if p = auto_zsh False then 0 else if p = auto_pcre then 1 else 2)"

lemma auto_rdep:
  assumes "rdep (auto_env False) p q"
  shows "auto_rank q < auto_rank p"
proof -
  have ne: "auto_pcre \<noteq> auto_zsh False" using auto_pkgs(5) [of False] auto_pkgs(6) by auto
  obtain d where d: "d \<in> set (pkg_rdepends p)" "je_local (auto_env False) (dep_uid d) = Some q" using assms by (auto simp: rdep_def)
  then have "p \<noteq> auto_zsh False" using auto_pkgs(11) [of False] by auto
  moreover have "q = auto_zsh False" if "p = auto_pcre"
    using d that auto_pkgs(12) by (simp add: auto_env_def sample_dep_def)
  moreover have "q = auto_zsh False \<or> q = auto_pcre" using d(2) by (auto simp: auto_env_def split: if_splits)
  ultimately show ?thesis using ne by (auto simp: auto_rank_def)
qed

theorem test_automatic_circular_witness:
  "pkg_jobs_test_automatic (auto_env True) 1000000 pkg_jobs_universe_new auto_pcre = None"
proof (rule test_automatic_circular [OF auto_view auto_unlocked(2,1), where C = "{auto_zsh True, auto_pcre}"])
  show "\<exists>d ds q. pkg_rdepends p = d # ds \<and> je_local (auto_env True) (dep_uid d) = Some q \<and> pkg_automatic q \<and> q \<in> {auto_zsh True, auto_pcre}"
    if "p \<in> {auto_zsh True, auto_pcre}" for p
    using that auto_pkgs by (auto simp: auto_env_def sample_dep_def)
qed simp

lemma auto_rank_less: "auto_rank p < 3"
  by (simp add: auto_rank_def)

lemma known_local: "card (known_uids local_ids) < 3"
  by (simp add: known_uids_def local_ids_def)

theorem autoremove_exact_witness:
  "\<exists>reqs u'. jobs_solve_autoremove 3 (auto_env False) (Some [auto_zsh False, auto_pcre]) [] pkg_jobs_universe_new = Some (EPKG_OK, reqs, u') \<and>
    map fst reqs = [''zsh'', ''pcre''] \<and> only_automatic (auto_env False) auto_pcre"
proof -
  have a: "answers (auto_env False) [auto_zsh False, auto_pcre]" using auto_pkgs by (simp add: answers_def auto_env_def)
  have r: "\<forall>p \<in> set [auto_zsh False, auto_pcre]. pkg_automatic p \<and> auto_rank p < 3" using auto_pkgs by (simp add: auto_rank_def)
  have "map_option (\<lambda>(rc, reqs, u). map fst reqs)
      (jobs_solve_autoremove 3 (auto_env False) (Some [auto_zsh False, auto_pcre]) [] pkg_jobs_universe_new) = Some [''zsh'', ''pcre'']"
    by code_simp
  moreover obtain reqs u' where x: "jobs_solve_autoremove 3 (auto_env False) (Some [auto_zsh False, auto_pcre]) [] pkg_jobs_universe_new = Some (EPKG_OK, reqs, u')"
    "\<forall>p \<in> set [auto_zsh False, auto_pcre]. pkg_uid p \<in> dom (map_of reqs) \<longleftrightarrow> only_automatic (auto_env False) p"
    using autoremove_exact [where rank = auto_rank, OF auto_view auto_unlocked(2,1) auto_rdep a r known_local] by blast
  ultimately have m: "map fst reqs = [''zsh'', ''pcre'']" by simp
  then have "''pcre'' \<in> dom (map_of reqs)" by (simp add: dom_map_of_conv_image_fst flip: set_map)
  then have "only_automatic (auto_env False) auto_pcre" using x(2) auto_pkgs by simp
  with x(1) m show ?thesis by (intro exI conjI)
qed

theorem deinstall_complete_witness:
  "\<exists>rc ls reqs u'. jobs_solve_deinstall 3 local_env (\<lambda>n. Some [local_pcre]) [''pcre''] [] [] pkg_jobs_universe_new = Some (rc, True, ls, reqs, u') \<and>
    ''pcre'' \<in> dom (map_of reqs)"
proof -
  have p: "pkg_uid local_pcre = ''pcre''" "\<not> pkg_locked local_pcre"
    by (simp_all add: local_pcre_def pcre_def repo_pkg_def blank_pkg_def)
  have f: "\<not> je_force local_env" by (simp add: local_env_def sample_env_def)
  have v: "local_view local_ids local_env pkg_jobs_universe_new"
  proof (rule local_view_new)
    show "env_ok local_ids local_env" using local_only_instance by (simp add: local_only_def)
  qed (auto simp: local_env_def sample_env_def local_zsh_def local_pcre_def split: if_splits)
  have q: "\<forall>jp \<in> set [''pcre'']. \<exists>ps. (\<lambda>n. Some [local_pcre]) jp = Some ps \<and> answers local_env ps"
    using p by (simp add: answers_def local_env_def)
  obtain rc ls reqs u' where "jobs_solve_deinstall 3 local_env (\<lambda>n. Some [local_pcre]) [''pcre''] [] [] pkg_jobs_universe_new = Some (rc, True, ls, reqs, u')"
    "accounted [local_pcre] ls reqs"
    using deinstall_complete [OF v f known_local q] by auto
  then show ?thesis using p by (intro exI conjI) (simp_all add: accounted_def)
qed

end
