(* ===== verification/Jobs_Order.thy ===== *)
theory Jobs_Order
  imports Solver_Jobs Priority
begin

text \<open>
  The order in which solved jobs are executed: \<open>pkg_jobs_set_execute_priority\<close>,
  \<open>pkg_jobs_sort_priority\<close> and \<open>pkg_jobs_set_priorities\<close> of \<^verbatim>\<open>libpkg/pkg_jobs.c\<close>. The priorities
  are those of the universe. An upgrade whose local package conflicts with a package that must be
  installed before it is split into a removal and an installation.
\<close>

section \<open>The steps\<close>

definition update_item :: "nat \<Rightarrow> universe \<Rightarrow> nat \<Rightarrow> priority_update \<Rightarrow> universe option" where
  "update_item n u i t = (if prio u i = 0 then pkg_jobs_update_universe_priority n u i t else Some u)"

definition split_upgrade :: "solved \<Rightarrow> solved" where
  "split_upgrade s = s\<lparr>sl_type := PKG_SOLVED_UPGRADE_INSTALL, sl_old := None, sl_already_deleted := True\<rparr>"

text \<open>
  The universe, the job, and the removal to append when the answer is \<^verbatim>\<open>EPKG_CONFLICT\<close>; \<open>None\<close> is
  an upgrade without an old package, which follows a null pointer, or a failure of the update.
\<close>

definition pkg_jobs_set_execute_priority ::
  "nat \<Rightarrow> universe \<Rightarrow> solved \<Rightarrow> (universe \<times> solved \<times> solved option) option" where
  "pkg_jobs_set_execute_priority n u s =
     (let i = sl_item s; keep = map_option (\<lambda>v. (v, s, None)) in
      if sl_type s = PKG_SOLVED_UPGRADE then
        (case sl_old s of
           None \<Rightarrow> None
         | Some old \<Rightarrow>
             if pkg_conflicts (item_pkg u old) = [] then keep (update_item n u i Update_request)
             else
               (case (if prio u i = 0 then pkg_jobs_update_conflict_priority n u i old else Some u) of
                  None \<Rightarrow> None
                | Some v \<Rightarrow>
                    if prio v old > prio v i \<and> \<not> sl_already_deleted s
                    then Some (v, split_upgrade s, Some (solved_job PKG_SOLVED_UPGRADE_REMOVE old None))
                    else Some (v, s, None)))
      else if sl_type s = PKG_SOLVED_DELETE then keep (update_item n u i Update_delete)
      else keep (update_item n u i Update_request))"

definition pkg_jobs_sort_priority :: "universe \<Rightarrow> solved \<Rightarrow> solved \<Rightarrow> int" where
  "pkg_jobs_sort_priority u r1 r2 =
     (if prio u (sl_item r1) = prio u (sl_item r2) then
        (if sl_type r1 = PKG_SOLVED_DELETE \<and> sl_type r2 \<noteq> PKG_SOLVED_DELETE then -1
         else if sl_type r2 = PKG_SOLVED_DELETE \<and> sl_type r1 \<noteq> PKG_SOLVED_DELETE then 1
         else 0)
      else prio u (sl_item r2) - prio u (sl_item r1))"

definition job_items :: "solved \<Rightarrow> nat list" where
  "job_items s = sl_item s # (case sl_old s of None \<Rightarrow> [] | Some old \<Rightarrow> [old])"

definition reset_priorities :: "solved list \<Rightarrow> universe \<Rightarrow> universe" where
  "reset_priorities js u = fold (\<lambda>s u. fold (\<lambda>i. set_prio i 0) (job_items s) u) js u"

text \<open>One pass over the jobs, and whether it was given up because a job was split.\<close>

fun priorities_pass :: "nat \<Rightarrow> universe \<Rightarrow> solved list \<Rightarrow> (universe \<times> solved list \<times> bool) option" where
  "priorities_pass n u [] = Some (u, [], False)"
| "priorities_pass n u (s # js) =
     (case pkg_jobs_set_execute_priority n u s of
        None \<Rightarrow> None
      | Some (v, s', Some ts) \<Rightarrow> Some (v, s' # js @ [ts], True)
      | Some (v, s', None) \<Rightarrow>
          (case priorities_pass n v js of
             None \<Rightarrow> None
           | Some (w, js', again) \<Rightarrow> Some (w, s' # js', again)))"

text \<open>A pass is repeated after a split, and every split leaves one upgrade less.\<close>

definition upgrades :: "solved list \<Rightarrow> nat" where
  "upgrades js = length (filter (\<lambda>s. sl_type s = PKG_SOLVED_UPGRADE) js)"

lemma set_execute_priority_result:
  assumes "pkg_jobs_set_execute_priority n u s = Some (v, s', r)"
  shows "case r of None \<Rightarrow> s' = s
    | Some ts \<Rightarrow> sl_type s = PKG_SOLVED_UPGRADE \<and>
        (\<exists>old. sl_old s = Some old \<and> s' = split_upgrade s \<and> ts = solved_job PKG_SOLVED_UPGRADE_REMOVE old None)"
  using assms by (auto simp: pkg_jobs_set_execute_priority_def Let_def split: if_splits option.splits)

lemma priorities_pass_upgrades:
  assumes "priorities_pass n u js = Some (w, js', again)"
  shows "upgrades js = upgrades js' + (if again then 1 else 0)"
  using assms
proof (induction n u js arbitrary: js' rule: priorities_pass.induct)
  case (2 n u s js)
  from 2(2) obtain v s' r where p: "pkg_jobs_set_execute_priority n u s = Some (v, s', r)" by (auto split: option.splits)
  show ?case
  proof (cases r)
    case None
    then obtain js1 where "priorities_pass n v js = Some (w, js1, again)" "js' = s # js1"
      using 2(2) p set_execute_priority_result [OF p] by (auto split: option.splits)
    then show ?thesis using 2(1) [OF p refl refl None] by (auto simp: upgrades_def)
  next
    case (Some ts)
    then show ?thesis
      using 2(2) p set_execute_priority_result [OF p] by (auto simp: upgrades_def split_upgrade_def solved_job_def)
  qed
qed (simp add: upgrades_def)

function priorities_loop :: "nat \<Rightarrow> universe \<Rightarrow> solved list \<Rightarrow> (universe \<times> solved list) option" where
  "priorities_loop n u js =
     (case priorities_pass n (reset_priorities js u) js of
        None \<Rightarrow> None
      | Some (v, js', again) \<Rightarrow> if again then priorities_loop n v js' else Some (v, js'))"
  by pat_completeness auto
termination
proof (relation "measure (\<lambda>(n, u, js). upgrades js)")
  show "\<And>n u js x v y js' again. priorities_pass n (reset_priorities js u) js = Some x \<Longrightarrow> (v, y) = x \<Longrightarrow> (js', again) = y \<Longrightarrow>
      again \<Longrightarrow> ((n, v, js'), n, u, js) \<in> measure (\<lambda>(n, u, js). upgrades js)"
    by (auto dest!: priorities_pass_upgrades)
qed simp

declare priorities_loop.simps [simp del]

definition pkg_jobs_set_priorities ::
  "((solved \<Rightarrow> solved \<Rightarrow> int) \<Rightarrow> solved list \<Rightarrow> solved list) \<Rightarrow> nat \<Rightarrow> universe \<Rightarrow> solved list \<Rightarrow> (universe \<times> solved list) option" where
  "pkg_jobs_set_priorities srt n u js =
     map_option (\<lambda>(v, js'). (v, srt (pkg_jobs_sort_priority v) js')) (priorities_loop n u js)"

section \<open>What the jobs add and remove\<close>

definition job_adds :: "solved \<Rightarrow> nat set" where
  "job_adds s = (if sl_type s \<in> {PKG_SOLVED_INSTALL, PKG_SOLVED_UPGRADE_INSTALL, PKG_SOLVED_UPGRADE} then {sl_item s} else {})"

definition job_dels :: "solved \<Rightarrow> nat set" where
  "job_dels s =
     (if sl_type s \<in> {PKG_SOLVED_DELETE, PKG_SOLVED_UPGRADE_REMOVE} then {sl_item s}
      else if sl_type s = PKG_SOLVED_UPGRADE then set_option (sl_old s) else {})"

definition all_adds :: "solved list \<Rightarrow> nat set" where
  "all_adds js = (\<Union>s \<in> set js. job_adds s)"

definition all_dels :: "solved list \<Rightarrow> nat set" where
  "all_dels js = (\<Union>s \<in> set js. job_dels s)"

lemma apply_job_eq: "job_adds s \<inter> job_dels s = {} \<Longrightarrow> apply_job s S = (S - job_dels s) \<union> job_adds s"
  by (cases "sl_type s") (auto simp: apply_job_def job_adds_def job_dels_def)

lemma apply_jobs_eq:
  assumes "all_adds js \<inter> all_dels js = {}"
  shows "apply_jobs js S = (S - all_dels js) \<union> all_adds js"
  using assms
proof (induction js arbitrary: S)
  case (Cons s js)
  have d: "job_adds s \<inter> job_dels s = {}" "all_adds js \<inter> all_dels js = {}" "job_adds s \<inter> all_dels js = {}"
    using Cons.prems by (auto simp: all_adds_def all_dels_def)
  show ?case
  proof -
    have "apply_jobs (s # js) S = ((S - job_dels s) \<union> job_adds s - all_dels js) \<union> all_adds js"
      using Cons.IH [OF d(2)] apply_job_eq [OF d(1)] by simp
    also have "\<dots> = (S - (job_dels s \<union> all_dels js)) \<union> (job_adds s \<union> all_adds js)" using d(3) by blast
    finally show ?thesis by (simp add: all_adds_def all_dels_def)
  qed
qed (simp add: all_adds_def all_dels_def)

lemma job_sets_split:
  assumes "pkg_jobs_set_execute_priority n u s = Some (v, s', r)"
  shows "job_adds s' \<union> all_adds (case r of None \<Rightarrow> [] | Some ts \<Rightarrow> [ts]) = job_adds s"
    and "job_dels s' \<union> all_dels (case r of None \<Rightarrow> [] | Some ts \<Rightarrow> [ts]) = job_dels s"
proof -
  have "job_adds s' \<union> all_adds (case r of None \<Rightarrow> [] | Some ts \<Rightarrow> [ts]) = job_adds s \<and>
    job_dels s' \<union> all_dels (case r of None \<Rightarrow> [] | Some ts \<Rightarrow> [ts]) = job_dels s"
  proof (cases r)
    case None
    then have "s' = s" using set_execute_priority_result [OF assms] by simp
    then show ?thesis using None by (simp add: all_adds_def all_dels_def)
  next
    case (Some ts)
    then obtain old where o: "sl_type s = PKG_SOLVED_UPGRADE" "sl_old s = Some old"
      and e: "s' = split_upgrade s" "ts = solved_job PKG_SOLVED_UPGRADE_REMOVE old None"
      using set_execute_priority_result [OF assms] by auto
    show ?thesis unfolding e Some
      by (simp add: job_adds_def job_dels_def all_adds_def all_dels_def split_upgrade_def solved_job_def o)
  qed
  then show "job_adds s' \<union> all_adds (case r of None \<Rightarrow> [] | Some ts \<Rightarrow> [ts]) = job_adds s"
    "job_dels s' \<union> all_dels (case r of None \<Rightarrow> [] | Some ts \<Rightarrow> [ts]) = job_dels s" by simp_all
qed

lemma priorities_pass_sets:
  assumes "priorities_pass n u js = Some (w, js', again)"
  shows "all_adds js' = all_adds js \<and> all_dels js' = all_dels js"
  using assms
proof (induction n u js arbitrary: js' rule: priorities_pass.induct)
  case (2 n u s js)
  from 2(2) obtain v s' r where p: "pkg_jobs_set_execute_priority n u s = Some (v, s', r)" by (auto split: option.splits)
  show ?case
  proof (cases r)
    case None
    then obtain js1 where "priorities_pass n v js = Some (w, js1, again)" "js' = s' # js1"
      using 2(2) p by (auto split: option.splits)
    then show ?thesis using 2(1) [OF p refl refl None] job_sets_split [OF p] None by (simp add: all_adds_def all_dels_def)
  next
    case (Some ts)
    then have "js' = s' # js @ [ts]" using 2(2) p by simp
    then show ?thesis using job_sets_split [OF p] Some by (auto simp: all_adds_def all_dels_def)
  qed
qed simp

lemma priorities_loop_sets:
  "priorities_loop n u js = Some (w, js') \<Longrightarrow> all_adds js' = all_adds js \<and> all_dels js' = all_dels js"
proof (induction n u js rule: priorities_loop.induct)
  case (1 n u js)
  from 1(2) obtain v js1 again where p: "priorities_pass n (reset_priorities js u) js = Some (v, js1, again)"
    by (subst (asm) priorities_loop.simps) (auto split: option.splits)
  show ?case
  proof (cases again)
    case True
    then have "priorities_loop n v js1 = Some (w, js')" using 1(2) p by (subst (asm) priorities_loop.simps) simp
    then show ?thesis using 1(1) [OF p refl refl True] priorities_pass_sets [OF p] by simp
  next
    case False
    then have "js' = js1" using 1(2) p by (subst (asm) priorities_loop.simps) simp
    then show ?thesis using priorities_pass_sets [OF p] by simp
  qed
qed

lemma sorts_sets: "sorts srt cmp \<Longrightarrow> all_adds (srt cmp js) = all_adds js \<and> all_dels (srt cmp js) = all_dels js"
  unfolding sorts_def all_adds_def all_dels_def by (metis set_mset_mset)

section \<open>The order\<close>

lemma sort_priority_range: "three_way (\<lambda>r1 r2. sgn (pkg_jobs_sort_priority u r1 r2))"
proof -
  let ?d = "\<lambda>s. if sl_type s = PKG_SOLVED_DELETE then 0 else 1 :: int"
  have "sgn (pkg_jobs_sort_priority u r1 r2) =
      lex_int (cmp_ord (- prio u (sl_item r1)) (- prio u (sl_item r2))) (cmp_ord (?d r1) (?d r2))" for r1 r2
    by (auto simp: pkg_jobs_sort_priority_def lex_int_def cmp_ord_def)
  then show ?thesis
    using three_way_lex [OF three_way_key [OF ord_cmp.three_way_axioms] three_way_key [OF ord_cmp.three_way_axioms],
        of "\<lambda>s. - prio u (sl_item s)" ?d] by simp
qed

lemma sgn_le_0: "(sgn (x::int) \<le> 0) = (x \<le> 0)"
  by (simp add: sgn_if)

lemma insertion_sort_sgn: "insertion_sort (\<lambda>x y. sgn (c x y)) xs = insertion_sort c xs"
proof -
  have "insert_by (\<lambda>x y. sgn (c x y)) x ys = insert_by c x ys" for x ys
    by (induction ys) (simp_all add: sgn_le_0)
  then show ?thesis by (induction xs) (simp_all add: insertion_sort_def)
qed

lemma insertion_sort_priority: "sorts insertion_sort (pkg_jobs_sort_priority u)"
  using three_way.insertion_sort_sorts [OF sort_priority_range [of u]] by (simp add: sorts_def insertion_sort_sgn sgn_le_0)

section \<open>The loop returns\<close>

text \<open>Priorities aside, the universe stays as it is.\<close>

definition repriced :: "universe \<Rightarrow> universe \<Rightarrow> bool" where
  "repriced u v \<longleftrightarrow> length (u_items v) = length (u_items u) \<and> u_chains v = u_chains u \<and> u_seen v = u_seen u \<and>
     u_nitems v = u_nitems u \<and> (\<forall>i < length (u_items u). item_pkg v i = item_pkg u i)"

definition nonneg :: "universe \<Rightarrow> bool" where
  "nonneg u \<longleftrightarrow> (\<forall>i < length (u_items u). 0 \<le> prio u i)"

definition good :: "pkg_id set \<Rightarrow> universe \<Rightarrow> universe \<Rightarrow> bool" where
  "good K u v \<longleftrightarrow> universe_ok K u \<and> repriced u v \<and> nonneg v"

lemma repriced_ids: "repriced u v \<Longrightarrow> uid_ids v = uid_ids u" "repriced u v \<Longrightarrow> digest_ids v = digest_ids u"
  unfolding uid_ids_def digest_ids_def repriced_def by (intro ext filter_cong; simp)+

lemma repriced_universe_ok: "repriced u v \<Longrightarrow> universe_ok K u \<Longrightarrow> universe_ok K v"
  using repriced_ids [of u v] by (simp add: universe_ok_def repriced_def)

lemma good_step:
  assumes "good K u v" "raised v w"
  shows "good K u w"
  using assms by (force simp: good_def repriced_def nonneg_def raised_def)

lemma good_ok: "good K u v \<Longrightarrow> universe_ok K v" "good K u v \<Longrightarrow> chains_ok v"
  unfolding good_def using repriced_universe_ok universe_chains_ok by blast+

lemma good_set_prio: "good K u v \<Longrightarrow> i < length (u_items u) \<Longrightarrow> good K u (set_prio i 0 v)"
  by (auto simp: good_def repriced_def nonneg_def set_prio_def prio_def item_pkg_def nth_list_update)

lemma update_priority_good:
  assumes "good K u v" "i < length (u_items u)" "0 \<le> p"
  shows "\<exists>w. pkg_jobs_update_universe_item_priority 1026 v (chain_from v i) p t = Some w \<and> good K u w"
proof -
  have i: "i < length (u_items v)" using assms by (simp add: good_def repriced_def)
  have "ids_ok v (chain_from v i)" using chain_from_eq [OF good_ok(1) [OF assms(1)] i] by (simp add: ids_ok_def)
  moreover have "update_ok 0 (pkg_jobs_update_universe_item_priority 1026)"
    using update_item_priority_ok [of 1026] by (simp add: RECURSION_LIMIT_def)
  ultimately obtain w where "pkg_jobs_update_universe_item_priority 1026 v (chain_from v i) p t = Some w" "raised v w"
    using good_ok(2) [OF assms(1)] assms(3) unfolding update_ok_def by blast
  then show ?thesis using good_step [OF assms(1)] by blast
qed

definition conflict_known :: "universe \<Rightarrow> pkg_conflict \<Rightarrow> bool" where
  "conflict_known u c \<longleftrightarrow> (\<exists>ch i. pkg_jobs_universe_find u (conflict_uid c) = Some ch \<and> i \<in> set ch \<and> \<not> installed (item_pkg u i))"

definition job_ok :: "universe \<Rightarrow> solved \<Rightarrow> bool" where
  "job_ok u s \<longleftrightarrow> (\<forall>i \<in> set (job_items s). i < length (u_items u)) \<and>
     (sl_type s = PKG_SOLVED_UPGRADE \<longrightarrow> (\<exists>old. sl_old s = Some old \<and> (\<forall>c \<in> set (pkg_conflicts (item_pkg u old)). conflict_known u c)))"

lemma universe_ok_find: "universe_ok K u \<Longrightarrow> pkg_jobs_universe_find u uid = Some c \<Longrightarrow> i \<in> set c \<Longrightarrow> i < length (u_items u)"
  by (auto simp: universe_ok_def pkg_jobs_universe_find_def uid_ids_def split: if_splits)

lemma update_conflicts_good:
  assumes "good K u v" "i0 < length (u_items u)" "i1 < length (u_items u)" "\<forall>c \<in> set cs. conflict_known u c"
  shows "\<exists>w. update_conflicts 1026 i0 i1 cs v = Some w \<and> good K u w"
  using assms
proof (induction cs arbitrary: v)
  case (Cons x xs)
  obtain ch i where ch: "pkg_jobs_universe_find u (conflict_uid x) = Some ch" "i \<in> set ch" "\<not> installed (item_pkg u i)"
    using Cons.prems(4) by (auto simp: conflict_known_def)
  have u: "universe_ok K u" and rp: "repriced u v" using Cons.prems(1) by (simp_all add: good_def)
  have same: "item_pkg v j = item_pkg u j" if "j \<in> set ch" for j
    using rp universe_ok_find [OF u ch(1) that] by (simp add: repriced_def)
  have fv: "pkg_jobs_universe_find v (conflict_uid x) = Some ch" using rp ch(1) by (simp add: repriced_def pkg_jobs_universe_find_def)
  obtain r where r: "find (\<lambda>i. \<not> installed (item_pkg v i)) ch = Some r"
    using ch same by (cases "find (\<lambda>i. \<not> installed (item_pkg v i)) ch") (auto simp: find_None_iff)
  then have "r < length (u_items u)" using universe_ok_find [OF u ch(1)] by (auto dest: find_SomeD)
  then have pr: "0 \<le> prio v r + 1" using Cons.prems(1) by (auto simp: good_def nonneg_def repriced_def)
  show ?case
  proof (cases "prio v r \<ge> prio v i1")
    case True
    obtain w where w: "pkg_jobs_update_universe_item_priority 1026 v (chain_from v i1) (prio v r + 1) Update_conflict = Some w" "good K u w"
      using update_priority_good [OF Cons.prems(1,3) pr] by blast
    have "0 \<le> prio w i0" using w(2) Cons.prems(2) by (simp add: good_def nonneg_def repriced_def)
    then obtain x where "pkg_jobs_update_universe_item_priority 1026 w (chain_from w i0) (prio w i0) Update_request = Some x" "good K u x"
      using update_priority_good [OF w(2) Cons.prems(2)] by blast
    then show ?thesis using Cons.IH [of x] Cons.prems w(1) fv r True by simp
  next
    case False
    then show ?thesis using Cons.IH [OF Cons.prems(1)] Cons.prems fv r by simp
  qed
qed simp

lemma execute_priority_good:
  assumes g: "good K u v" and s: "job_ok u s"
  obtains w s' r where "pkg_jobs_set_execute_priority 1026 v s = Some (w, s', r)" "good K u w" "job_ok u s'" "\<forall>ts. r = Some ts \<longrightarrow> job_ok u ts"
proof -
  let ?i = "sl_item s"
  have i: "?i < length (u_items u)" using s by (simp add: job_ok_def job_items_def)
  have up: "\<exists>w. update_item 1026 v ?i t = Some w \<and> good K u w" for t
    using update_priority_good [OF g i, of 0 t] g by (simp add: update_item_def pkg_jobs_update_universe_priority_def)
  show thesis
  proof (cases "sl_type s = PKG_SOLVED_UPGRADE")
    case False
    obtain w where "update_item 1026 v ?i (if sl_type s = PKG_SOLVED_DELETE then Update_delete else Update_request) = Some w" "good K u w"
      using up by blast
    then show ?thesis using that [of w s None] False s by (simp add: pkg_jobs_set_execute_priority_def Let_def split: if_splits)
  next
    case True
    then obtain old where old: "sl_old s = Some old" "\<forall>c \<in> set (pkg_conflicts (item_pkg u old)). conflict_known u c"
      using s by (auto simp: job_ok_def)
    have o: "old < length (u_items u)" using s old(1) by (simp add: job_ok_def job_items_def)
    then have pk: "item_pkg v old = item_pkg u old" using g by (simp add: good_def repriced_def)
    show ?thesis
    proof (cases "pkg_conflicts (item_pkg v old) = []")
      case ne: True
      obtain w where "update_item 1026 v ?i Update_request = Some w" "good K u w" using up by blast
      then show ?thesis using that [of w s None] True ne old(1) s by (simp add: pkg_jobs_set_execute_priority_def Let_def)
    next
      case False
      obtain w where w: "(if prio v ?i = 0 then pkg_jobs_update_conflict_priority 1026 v ?i old else Some v) = Some w" "good K u w"
        using update_conflicts_good [OF g i o old(2)] g pk that by (cases "prio v ?i = 0") (auto simp: pkg_jobs_update_conflict_priority_def)
      have "job_ok u (split_upgrade s)" "job_ok u (solved_job PKG_SOLVED_UPGRADE_REMOVE old None)"
        using i o by (simp_all add: job_ok_def job_items_def split_upgrade_def solved_job_def)
      then show ?thesis
        using that [of w s None] that [of w "split_upgrade s" "Some (solved_job PKG_SOLVED_UPGRADE_REMOVE old None)"] True False old(1) s w
        by (cases "prio w old > prio w ?i \<and> \<not> sl_already_deleted s") (simp_all add: pkg_jobs_set_execute_priority_def Let_def)
    qed
  qed
qed

lemma priorities_pass_good:
  assumes "good K u v" "\<forall>s \<in> set js. job_ok u s"
  shows "\<exists>w js' again. priorities_pass 1026 v js = Some (w, js', again) \<and> good K u w \<and> (\<forall>s \<in> set js'. job_ok u s)"
  using assms
proof (induction js arbitrary: v)
  case (Cons s js)
  then have "job_ok u s" by simp
  from execute_priority_good [OF Cons.prems(1) this] obtain w s' r where
    p: "pkg_jobs_set_execute_priority 1026 v s = Some (w, s', r)" "good K u w" "job_ok u s'" "\<forall>ts. r = Some ts \<longrightarrow> job_ok u ts" .
  show ?case
  proof (cases r)
    case None
    then show ?thesis using Cons.IH [OF p(2)] Cons.prems(2) p by auto
  next
    case (Some ts)
    then show ?thesis using p Cons.prems(2) by auto
  qed
qed (simp add: exI [of _ False])

lemma reset_good:
  assumes "good K u v" "\<forall>s \<in> set js. job_ok u s"
  shows "good K u (reset_priorities js v)"
proof -
  have f: "good K u (fold (\<lambda>i. set_prio i 0) is v)" if "good K u v" "\<forall>i \<in> set is. i < length (u_items u)" for "is" v
    using that by (induction "is" arbitrary: v) (auto intro: good_set_prio)
  show ?thesis
    using assms unfolding reset_priorities_def
    by (induction js arbitrary: v) (simp_all add: job_ok_def f)
qed

lemma priorities_loop_good:
  "good K u v \<Longrightarrow> \<forall>s \<in> set js. job_ok u s \<Longrightarrow> \<exists>w js'. priorities_loop 1026 v js = Some (w, js') \<and> good K u w"
proof (induction "1026 :: nat" v js rule: priorities_loop.induct)
  case (1 v js)
  obtain w js' again where p: "priorities_pass 1026 (reset_priorities js v) js = Some (w, js', again)"
    and w: "good K u w" "\<forall>s \<in> set js'. job_ok u s"
    using priorities_pass_good [OF reset_good [OF 1(2,3)] 1(3)] by blast
  show ?case
  proof (cases again)
    case True
    then have "priorities_loop 1026 v js = priorities_loop 1026 w js'" using p by (subst priorities_loop.simps) simp
    then show ?thesis using 1(1) [OF p refl refl True w] by simp
  next
    case False
    then have "priorities_loop 1026 v js = Some (w, js')" using p by (subst priorities_loop.simps) simp
    then show ?thesis using w by simp
  qed
qed

section \<open>Properties\<close>

lemma sat_to_jobs_disjoint:
  assumes "solves u p q" "chains_wf u"
  shows "all_adds (pkg_solve_sat_to_jobs t q) \<inter> all_dels (pkg_solve_sat_to_jobs t q) = {}"
proof -
  let ?unit = "\<lambda>v. sv_unit (sp_vars q ! v)"
  have li: "linked u p" using assms(1) by (simp add: solves_def complete_def)
  have len: "length (sp_vars q) = length (sp_vars p)" using assms(1) unfolding solves_def by (metis length_map)
  have unit: "?unit v = sv_unit (sp_vars p ! v)" if "v < length (sp_vars p)" for v
    using assms(1) that len unfolding solves_def by (metis nth_map)
  have bu: "sp_by_uid q = sp_by_uid p" using assms(1) by (simp add: solves_def)
  have less: "v < length (sp_vars p)" if "(uid, vs) \<in> set (sp_by_uid q)" "v \<in> set vs" for uid vs v
    using linked_vars_in [OF assms(2) li] that by (auto simp: vars_in_def bu)
  have last_in: "last (filter P vs) \<in> set vs \<and> P (last (filter P vs))" if "filter P vs \<noteq> []" for P and vs :: "nat list"
    using last_in_set [OF that] by simp
  have job: "(sl_item s \<in> ?unit ` {v. v < length (sp_vars p) \<and> (if sl_type s = PKG_SOLVED_DELETE then to_delete q v else to_add q v)}) \<and>
      sl_type s \<noteq> PKG_SOLVED_UPGRADE_REMOVE \<and> (sl_type s = PKG_SOLVED_UPGRADE \<longrightarrow> set_option (sl_old s) \<subseteq> ?unit ` {v. v < length (sp_vars p) \<and> to_delete q v})"
    if s: "s \<in> set (pkg_solve_sat_to_jobs t q)" for s
  proof -
    obtain uid vs where m: "(uid, vs) \<in> set (sp_by_uid q)" "s \<in> set (pkg_solve_insert_res_job t q vs)"
      using s by (auto simp: pkg_solve_sat_to_jobs_def)
    show ?thesis
      using m(2) less [OF m(1)] last_in [of "to_add q" vs] last_in [of "to_delete q" vs]
      by (auto simp: pkg_solve_insert_res_job_def Let_def solved_job_def split: if_splits)
  qed
  have "to_add q v \<Longrightarrow> to_delete q w \<Longrightarrow> v < length (sp_vars p) \<Longrightarrow> w < length (sp_vars p) \<Longrightarrow> ?unit v \<noteq> ?unit w" for v w
    using linked_unit_inj [OF assms(2) li] unit by (fastforce simp: to_add_def to_delete_def)
  moreover have "job_adds s \<subseteq> ?unit ` {v. v < length (sp_vars p) \<and> to_add q v}"
    "job_dels s \<subseteq> ?unit ` {v. v < length (sp_vars p) \<and> to_delete q v}" if "s \<in> set (pkg_solve_sat_to_jobs t q)" for s
    using job [OF that] by (auto simp: job_adds_def job_dels_def split: if_splits)
  ultimately show ?thesis unfolding all_adds_def all_dels_def by blast
qed

text \<open>C3. The jobs in the order of their execution, with conflicting upgrades split in two, lead from the
  installed packages to exactly the packages that the solution selects. They run by falling
  priority, deletions first among equals.\<close>

theorem execution_reaches_selection:
  assumes "chains_wf u" "pkg_solve_jobs_to_sat env u = Some (Some p)" "picosat_ok ps"
    "pkg_solve_sat_problem n env ps ask p = Some q" "se_type env \<noteq> PKG_JOBS_FETCH"
    "sorts srt (pkg_jobs_sort_priority w)"
    "pkg_jobs_set_priorities srt n0 v (pkg_solve_sat_to_jobs (se_type env) q) = Some (w, js)"
  shows "apply_jobs js (installed_items u) = selected q \<and>
    sorted_wrt (\<lambda>r1 r2. prio w (sl_item r2) \<le> prio w (sl_item r1) \<and>
      (prio w (sl_item r1) = prio w (sl_item r2) \<and> sl_type r2 = PKG_SOLVED_DELETE \<longrightarrow> sl_type r1 = PKG_SOLVED_DELETE)) js"
proof
  let ?js = "pkg_solve_sat_to_jobs (se_type env) q"
  obtain js' where js': "priorities_loop n0 v ?js = Some (w, js')" "js = srt (pkg_jobs_sort_priority w) js'"
    using assms(7) by (auto simp: pkg_jobs_set_priorities_def)
  have eq: "all_adds js = all_adds ?js" "all_dels js = all_dels ?js"
    using priorities_loop_sets [OF js'(1)] sorts_sets [OF assms(6), of js'] js'(2) by simp_all
  have dis: "all_adds ?js \<inter> all_dels ?js = {}"
    by (rule sat_to_jobs_disjoint [OF solution_solves [OF assms(1-4)] assms(1)])
  have "apply_jobs js (installed_items u) = apply_jobs ?js (installed_items u)"
    using dis by (simp add: apply_jobs_eq eq)
  then show "apply_jobs js (installed_items u) = selected q"
    using solves_apply_jobs [OF solution_solves [OF assms(1-4)] assms(1,5)] by simp
  have le: "prio w (sl_item r2) \<le> prio w (sl_item r1) \<and>
      (prio w (sl_item r1) = prio w (sl_item r2) \<and> sl_type r2 = PKG_SOLVED_DELETE \<longrightarrow> sl_type r1 = PKG_SOLVED_DELETE)"
    if "pkg_jobs_sort_priority w r1 r2 \<le> 0" for r1 r2 using that by (auto simp: pkg_jobs_sort_priority_def split: if_splits)
  have "sorted_wrt (\<lambda>r1 r2. pkg_jobs_sort_priority w r1 r2 \<le> 0) js" using assms(6) js'(2) by (simp add: sorts_def)
  then show "sorted_wrt (\<lambda>r1 r2. prio w (sl_item r2) \<le> prio w (sl_item r1) \<and>
      (prio w (sl_item r1) = prio w (sl_item r2) \<and> sl_type r2 = PKG_SOLVED_DELETE \<longrightarrow> sl_type r1 = PKG_SOLVED_DELETE)) js"
    by (rule sorted_wrt_mono_rel [rotated]) (use le in blast)
qed

lemma demo_priorities:
  "\<exists>w js. pkg_jobs_set_priorities insertion_sort 3 demo_universe (pkg_solve_sat_to_jobs (se_type demo_env) demo_solution) = Some (w, js) \<and>
     map sl_item js = [2, 1]"
proof -
  have "map_option (\<lambda>(w, js). map sl_item js)
      (pkg_jobs_set_priorities insertion_sort 3 demo_universe (pkg_solve_sat_to_jobs (se_type demo_env) demo_solution)) = Some [2, 1]"
    by code_simp
  then show ?thesis by (auto simp: map_option_case split: option.splits)
qed

theorem execution_reaches_selection_witness:
  "\<exists>js. map sl_item js = [2, 1] \<and> apply_jobs js (installed_items demo_universe) = selected demo_solution"
proof -
  obtain w js where r: "pkg_jobs_set_priorities insertion_sort 3 demo_universe (pkg_solve_sat_to_jobs (se_type demo_env) demo_solution) = Some (w, js)"
    and m: "map sl_item js = [2, 1]" using demo_priorities by (elim exE conjE)
  have e: "se_type demo_env \<noteq> PKG_JOBS_FETCH" by (simp add: demo_env_def)
  show ?thesis
    using m execution_reaches_selection [OF demo_chains_wf demo_jobs_to_sat fixed_solver_ok demo_run e insertion_sort_priority r, THEN conjunct1]
    by (intro exI conjI)
qed

text \<open>Ordering the jobs ends: the repetition after every split stops, in a valid universe whose
  priorities are not negative, when the items of the jobs are in the universe and the conflicts
  of the packages to replace have a remote package there.\<close>

theorem set_priorities_returns:
  assumes "universe_ok K u" "nonneg u" "\<forall>s \<in> set js. job_ok u s"
  shows "\<exists>w js'. pkg_jobs_set_priorities srt 1026 u js = Some (w, js') \<and> universe_ok K w"
proof -
  have "good K u u" using assms(1,2) by (simp add: good_def repriced_def)
  from priorities_loop_good [OF this assms(3)] show ?thesis
    using good_ok(1) by (fastforce simp: pkg_jobs_set_priorities_def)
qed

theorem set_priorities_returns_witness:
  "\<exists>w js'. pkg_jobs_set_priorities insertion_sort 1026 circle [solved_job PKG_SOLVED_INSTALL 0 None, solved_job PKG_SOLVED_INSTALL 1 None] = Some (w, js')"
proof -
  have n: "nonneg circle"
    by (auto simp: nonneg_def circle_def prio_def add_item_def new_item_def pkg_jobs_universe_new_def less_Suc_eq)
  have j: "\<forall>s \<in> set [solved_job PKG_SOLVED_INSTALL 0 None, solved_job PKG_SOLVED_INSTALL 1 None]. job_ok circle s"
    by (simp add: job_ok_def job_items_def solved_job_def circle_def)
  show ?thesis using set_priorities_returns [OF circle_ok n j] by blast
qed

end
