(* ===== verification/Pkg_Cudf.thy ===== *)
theory Pkg_Cudf
  imports Solver_Jobs Request C_Format
begin

text \<open>
  The exchange with external CUDF solvers of \<^verbatim>\<open>libpkg/pkg_cudf.c\<close>: the universe and the requests as
  text, and the jobs read from the answer. Writing to the pipe does not fail here.
\<close>

section \<open>Writing\<close>

definition INT_MIN :: int where
  "INT_MIN = - (2 ^ 31)"

text \<open>An underscore is written as an at sign; the function answers the number of characters.\<close>

definition cudf_print_package_name :: "string \<Rightarrow> string" where
  "cudf_print_package_name name = map (\<lambda>c. if c = CHR ''_'' then CHR ''@'' else c) name"

definition cudf_print :: "string \<Rightarrow> bool \<Rightarrow> nat \<Rightarrow> string \<times> nat" where
  "cudf_print body has_next column =
     (let col = (if column > 80 then 0 else column);
          t = (if column > 80 then [CHR 10, CHR '' ''] else []) @ body @ (if has_next then '', '' else [CHR 10])
      in (t, col + length t))"

definition cudf_print_element :: "string \<Rightarrow> bool \<Rightarrow> nat \<Rightarrow> string \<times> nat" where
  "cudf_print_element line has_next column = cudf_print (cudf_print_package_name line) has_next column"

definition cudf_print_conflict :: "string \<Rightarrow> nat \<Rightarrow> bool \<Rightarrow> nat \<Rightarrow> string \<times> nat" where
  "cudf_print_conflict uid ver has_next column =
     cudf_print (cudf_print_package_name uid @ ''='' @ format_d (int ver)) has_next column"

text \<open>The dependencies and the provided names: the column decides about the separator.\<close>

fun print_counted :: "nat \<Rightarrow> string list \<Rightarrow> nat \<Rightarrow> string" where
  "print_counted m [] column = []"
| "print_counted m (s # ss) column =
     (case cudf_print_element s (column + 1 = m) column of (t, column') \<Rightarrow> t @ print_counted m ss column')"

fun print_conflicts :: "string list \<Rightarrow> nat \<Rightarrow> string \<times> nat" where
  "print_conflicts [] column = ([], column)"
| "print_conflicts (s # ss) column =
     (case cudf_print_element s (ss \<noteq> []) column of
        (t, column') \<Rightarrow> (case print_conflicts ss column' of (t', column'') \<Rightarrow> (t @ t', column'')))"

definition ignored :: "universe \<Rightarrow> nat \<Rightarrow> bool" where
  "ignored u i \<longleftrightarrow> ui_priority (u_items u ! i) = INT_MIN"

fun print_rivals :: "universe \<Rightarrow> nat \<Rightarrow> nat list \<Rightarrow> nat \<Rightarrow> nat \<Rightarrow> string" where
  "print_rivals u i [] ver column = []"
| "print_rivals u i (j # js) ver column =
     (if j \<noteq> i \<and> \<not> ignored u j then
        (case cudf_print_conflict (pkg_uid (item_pkg u i)) ver (js \<noteq> [] \<and> hd js \<noteq> i) column of
           (t, column') \<Rightarrow> t @ print_rivals u i js (ver + 1) column')
      else print_rivals u i js (ver + 1) column)"

definition cudf_emit_pkg :: "universe \<Rightarrow> nat \<Rightarrow> nat \<Rightarrow> nat list \<Rightarrow> string" where
  "cudf_emit_pkg u i version c =
     (let p = item_pkg u i; deps = map dep_name (pkg_depends p) in
      ''package: '' @ cudf_print_package_name (pkg_uid p) @ [CHR 10] @ ''version: '' @ format_d (int version) @ [CHR 10] @
      (if deps \<noteq> [] then ''depends: '' @ print_counted (length deps) deps 0 else []) @
      (if pkg_provides p \<noteq> [] then ''provides: '' @ print_counted (length (pkg_provides p)) (pkg_provides p) 0 else []) @
      (if pkg_conflicts p \<noteq> [] \<or> tl c \<noteq> [] \<and> \<not> ignored u (hd (tl c)) then
         (case print_conflicts (map conflict_uid (pkg_conflicts p)) 0 of
            (t, column) \<Rightarrow> ''conflicts: '' @ t @ print_rivals u i c 1 column)
       else []) @
      ''installed: '' @ (if installed p then ''true'' else ''false'') @ [CHR 10, CHR 10])"

text \<open>Requests: the separator depends on whether another one follows, skipped or not.\<close>

fun print_requests :: "universe \<Rightarrow> requests \<Rightarrow> nat \<Rightarrow> string" where
  "print_requests u [] column = []"
| "print_requests u ((uid, req) # reqs) column =
     (if rq_skip req then print_requests u reqs column
      else (case cudf_print_element (pkg_uid (item_pkg u (hd (rq_items req)))) (reqs \<noteq> []) column of
              (t, column') \<Rightarrow> t @ print_requests u reqs column'))"

definition request_line :: "universe \<Rightarrow> string \<Rightarrow> requests \<Rightarrow> string" where
  "request_line u op reqs =
     op @ '': '' @ print_requests u reqs 0 @ (if \<forall>(uid, req) \<in> set reqs. rq_skip req then [CHR 10] else [])"

definition cudf_emit_request_packages :: "universe \<Rightarrow> string \<Rightarrow> requests \<Rightarrow> requests \<Rightarrow> string" where
  "cudf_emit_request_packages u op add del = request_line u op add @ request_line u ''remove'' del"

text \<open>
  The comparison that sorts a chain has an effect: of two packages of the same version, it marks
  a remote one to be ignored. So the sort threads the universe through its comparisons.
\<close>

type_synonym cudf_sort = "(nat \<Rightarrow> nat \<Rightarrow> universe \<Rightarrow> int \<times> universe) \<Rightarrow> nat list \<Rightarrow> universe \<Rightarrow> nat list \<times> universe"

definition ignore_item :: "nat \<Rightarrow> universe \<Rightarrow> universe" where
  "ignore_item i u = u\<lparr>u_items := (u_items u)[i := (u_items u ! i)\<lparr>ui_priority := INT_MIN\<rparr>]\<rparr>"

definition pkg_cudf_version_cmp :: "nat \<Rightarrow> nat \<Rightarrow> universe \<Rightarrow> int \<times> universe" where
  "pkg_cudf_version_cmp a b u =
     (let ret = pkg_version_cmp (pkg_version (item_pkg u a)) (pkg_version (item_pkg u b)) in
      (ret, if ret = 0 then
              (if \<not> installed (item_pkg u a) then ignore_item a u
               else if \<not> installed (item_pkg u b) then ignore_item b u
               else u)
            else u))"

fun emit_chain :: "universe \<Rightarrow> nat list \<Rightarrow> nat list \<Rightarrow> nat \<Rightarrow> string" where
  "emit_chain u c [] version = []"
| "emit_chain u c (i # is) version =
     (if ignored u i then emit_chain u c is version
      else cudf_emit_pkg u i version c @ emit_chain u c is (version + 1))"

fun emit_chains :: "cudf_sort \<Rightarrow> (string \<times> nat list) list \<Rightarrow> universe \<Rightarrow> string \<times> (string \<times> nat list) list \<times> universe" where
  "emit_chains srt [] u = ([], [], u)"
| "emit_chains srt ((uid, c) # cs) u =
     (case srt pkg_cudf_version_cmp c u of
        (c', v) \<Rightarrow>
          (case emit_chains srt cs v of
             (t, cs', w) \<Rightarrow> (emit_chain v c' c' 1 @ t, (uid, c') # cs', w)))"

definition pkg_jobs_cudf_emit_file :: "cudf_sort \<Rightarrow> pkg_jobs_type \<Rightarrow> requests \<Rightarrow> requests \<Rightarrow> universe \<Rightarrow> string \<times> universe" where
  "pkg_jobs_cudf_emit_file srt type add del u =
     (case emit_chains srt (u_chains u) u of
        (t, cs, v) \<Rightarrow>
          (''preamble: '' @ [CHR 10, CHR 10] @ t @ ''request: '' @ [CHR 10] @
             cudf_emit_request_packages v (if type = PKG_JOBS_UPGRADE then ''upgrade'' else ''install'') add del,
           v\<lparr>u_chains := cs\<rparr>))"

section \<open>Reading\<close>

definition cudf_strdup :: "string \<Rightarrow> string" where
  "cudf_strdup s = map (\<lambda>c. if c = CHR ''@'' then CHR ''_'' else c) (filter (\<lambda>c. \<not> isspace c) s)"

record cudf_entry =
  ce_uid :: string
  ce_was_installed :: bool
  ce_installed :: bool
  ce_version :: "string option"

text \<open>What an entry asks for; \<open>None\<close> is \<^verbatim>\<open>strtoul\<close> of a version that was not given.\<close>

definition set_old_version :: "nat \<Rightarrow> string \<Rightarrow> universe \<Rightarrow> universe" where
  "set_old_version i v u = u\<lparr>u_items := (u_items u)[i := (u_items u ! i)\<lparr>ui_pkg := (item_pkg u i)\<lparr>pkg_old_version := Some v\<rparr>\<rparr>]\<rparr>"

definition int32 :: "64 word \<Rightarrow> int" where
  "int32 w = sint (ucast w :: 32 word)"

type_synonym cudf_state = "solved list \<times> universe"

definition pkg_jobs_cudf_add_package :: "cudf_entry \<Rightarrow> cudf_state \<Rightarrow> (epkg \<times> cudf_state) option" where
  "pkg_jobs_cudf_add_package e st =
     (case st of (js, u) \<Rightarrow>
        (case pkg_jobs_universe_find u (ce_uid e) of
           None \<Rightarrow> Some (EPKG_FATAL, st)
         | Some c \<Rightarrow>
             (case ce_version e of
                None \<Rightarrow> None
              | Some s \<Rightarrow>
                  (let ver = int32 (strtoul s) in
                   if ver < 1 \<or> int (length c) < ver then Some (EPKG_FATAL, st)
                   else
                     (let selected = c ! nat (ver - 1); p = item_pkg u selected in
                      if ver = 1 then
                        (if ce_installed e \<and> \<not> installed p then Some (EPKG_OK, js @ [solved_job PKG_SOLVED_INSTALL selected None], u)
                         else if \<not> ce_installed e \<and> installed p then Some (EPKG_OK, js @ [solved_job PKG_SOLVED_DELETE selected None], u)
                         else Some (EPKG_OK, st))
                      else
                        (case find (\<lambda>i. i \<noteq> selected) c of
                           None \<Rightarrow> None
                         | Some old \<Rightarrow>
                             Some (EPKG_OK, js @ [solved_job PKG_SOLVED_UPGRADE selected (Some old)],
                               set_old_version selected (pkg_version (item_pkg u old)) u)))))))"

text \<open>
  A line is split at the first of colon, space and tab; its value is what follows the last space or
  tab. A line without a separator has no value, but then its name keeps the end of the line.
\<close>

definition split_line :: "string \<Rightarrow> string \<times> string" where
  "split_line line =
     (case port_strsep ('': '' @ [CHR 9]) line of
        (param, None) \<Rightarrow> (param, [])
      | (param, Some rest) \<Rightarrow> (param, last (tokens ('' '' @ [CHR 9]) rest)))"

definition add_current :: "cudf_entry option \<Rightarrow> cudf_state \<Rightarrow> (epkg \<times> cudf_state) option" where
  "add_current cur st = (case cur of None \<Rightarrow> Some (EPKG_OK, st) | Some e \<Rightarrow> pkg_jobs_cudf_add_package e st)"

definition update_current ::
  "(cudf_entry \<Rightarrow> cudf_entry) \<Rightarrow> cudf_entry option \<Rightarrow> cudf_state \<Rightarrow> (epkg \<times> cudf_entry option \<times> cudf_state) option" where
  "update_current f cur st = Some (case cur of None \<Rightarrow> (EPKG_FATAL, cur, st) | Some e \<Rightarrow> (EPKG_OK, Some (f e), st))"

definition cudf_line :: "string \<Rightarrow> cudf_entry option \<Rightarrow> cudf_state \<Rightarrow> (epkg \<times> cudf_entry option \<times> cudf_state) option" where
  "cudf_line line cur st =
     (case split_line line of (param, value) \<Rightarrow>
        let yes = (take 4 value = ''true'') in
        if param = ''package'' then
          (case add_current cur st of
             None \<Rightarrow> None
           | Some (rc, st') \<Rightarrow>
               Some (rc, Some \<lparr>ce_uid = cudf_strdup value, ce_was_installed = False, ce_installed = False, ce_version = None\<rparr>, st'))
        else if param = ''version'' then update_current (\<lambda>e. e\<lparr>ce_version := Some (cudf_strdup value)\<rparr>) cur st
        else if param = ''installed'' then update_current (\<lambda>e. if yes then e\<lparr>ce_installed := True\<rparr> else e) cur st
        else if param = ''was-installed'' then update_current (\<lambda>e. if yes then e\<lparr>ce_was_installed := True\<rparr> else e) cur st
        else Some (EPKG_OK, cur, st))"

fun cudf_lines :: "string list \<Rightarrow> cudf_entry option \<Rightarrow> cudf_state \<Rightarrow> (epkg \<times> cudf_state) option" where
  "cudf_lines [] cur st = add_current cur st"
| "cudf_lines (l # ls) cur st =
     (case cudf_line l cur st of
        None \<Rightarrow> None
      | Some (rc, cur', st') \<Rightarrow> if rc \<noteq> EPKG_OK then Some (EPKG_FATAL, st') else cudf_lines ls cur' st')"

definition pkg_jobs_cudf_parse_output :: "string list \<Rightarrow> cudf_state \<Rightarrow> (epkg \<times> cudf_state) option" where
  "pkg_jobs_cudf_parse_output ls st = cudf_lines ls None st"

section \<open>Properties\<close>

text \<open>
  A uid survives the way to the solver and back: the underscores that CUDF does not allow are
  written as at signs and turned back when the answer is read, provided that the uid has no at sign
  of its own and no white space.
\<close>

theorem cudf_name_roundtrip:
  assumes "CHR ''@'' \<notin> set uid" "\<forall>c \<in> set uid. \<not> isspace c"
  shows "cudf_strdup (cudf_print_package_name uid) = uid \<and> CHR ''_'' \<notin> set (cudf_print_package_name uid)"
proof -
  have "\<not> isspace (CHR ''@'')" by (simp add: isspace_def code_def)
  then have "filter (\<lambda>c. \<not> isspace c) (cudf_print_package_name uid) = cudf_print_package_name uid"
    using assms(2) by (auto simp: cudf_print_package_name_def filter_id_conv)
  then show ?thesis
    using assms(1) by (auto simp: cudf_strdup_def cudf_print_package_name_def intro!: map_idI)
qed

theorem cudf_name_roundtrip_witness:
  "cudf_strdup (cudf_print_package_name ''lib_x'') = ''lib_x'' \<and> cudf_print_package_name ''lib_x'' = ''lib@x''"
proof -
  have "\<forall>c \<in> set ''lib_x''. \<not> isspace c" by (simp add: isspace_def code_def)
  with cudf_name_roundtrip [of "''lib_x''"] show ?thesis by (simp add: cudf_print_package_name_def)
qed

text \<open>
  A universe with the installed version 1 of a package, the same version in a repository and
  version 2. The solver is told of two versions, the answer is read with three.
\<close>

definition cudf_pkg :: "pkg_type \<Rightarrow> string \<Rightarrow> pkg" where
  "cudf_pkg kind v = blank_pkg\<lparr>pkg_name := ''a'', pkg_uid := ''a'', pkg_version := v, pkg_kind := kind\<rparr>"

definition cudf_universe :: universe where
  "cudf_universe = \<lparr>u_items = map (\<lambda>p. \<lparr>ui_pkg = p, ui_priority = 0, ui_processed = True\<rparr>)
      [cudf_pkg PKG_REMOTE ''1'', cudf_pkg PKG_INSTALLED ''1'', cudf_pkg PKG_REMOTE ''2''],
    u_chains = [(''a'', [1, 0, 2])], u_seen = [], u_provides = [], u_replaces = [], u_nitems = 3\<rparr>"

text \<open>An insertion sort that threads the state.\<close>

fun insert_cudf :: "(nat \<Rightarrow> nat \<Rightarrow> universe \<Rightarrow> int \<times> universe) \<Rightarrow> nat \<Rightarrow> nat list \<Rightarrow> universe \<Rightarrow> nat list \<times> universe" where
  "insert_cudf cmp x [] u = ([x], u)"
| "insert_cudf cmp x (y # ys) u =
     (case cmp x y u of
        (r, v) \<Rightarrow> if r \<le> 0 then (x # y # ys, v)
                  else (case insert_cudf cmp x ys v of (zs, w) \<Rightarrow> (y # zs, w)))"

definition cudf_insertion :: cudf_sort where
  "cudf_insertion cmp xs u = foldr (\<lambda>x (ys, v). insert_cudf cmp x ys v) xs ([], u)"

definition nl :: string where
  "nl = [CHR 10]"

text \<open>The separators of dependencies: two are written on two lines, one without the end of its line.\<close>

lemma cudf_separators:
  "print_counted 2 [''a'', ''b''] 0 = ''a'' @ nl @ ''b'' @ nl" "print_counted 1 [''a''] 0 = ''a, ''"
  by code_simp+

text \<open>The versions in the answer of a CUDF solver are not the ones it was told. A remote package of
  the same version as the installed one is left out of the text, and the others are numbered
  without it, but the answer counts it: asked for version 2 of the package, which was written as
  the remote version 2, the job upgrades the installed package to the remote package of the same
  version.
\<close>

theorem cudf_version_shift:
  "fst (pkg_jobs_cudf_emit_file cudf_insertion PKG_JOBS_INSTALL [] [] cudf_universe) =
     ''preamble: '' @ nl @ nl @
     ''package: a'' @ nl @ ''version: 1'' @ nl @ ''installed: true'' @ nl @ nl @
     ''package: a'' @ nl @ ''version: 2'' @ nl @ ''installed: false'' @ nl @ nl @
     ''request: '' @ nl @ ''install: '' @ nl @ ''remove: '' @ nl \<and>
   map_option (\<lambda>(rc, js, u). (rc, map (\<lambda>s. (sl_type s, map_option (item_pkg u) (sl_old s), pkg_version (item_pkg u (sl_item s)))) js))
     (pkg_jobs_cudf_parse_output [''package: a'' @ nl, ''version: 2'' @ nl, ''installed: true'' @ nl]
       ([], snd (pkg_jobs_cudf_emit_file cudf_insertion PKG_JOBS_INSTALL [] [] cudf_universe))) =
     Some (EPKG_OK, [(PKG_SOLVED_UPGRADE, Some (cudf_pkg PKG_INSTALLED ''1''), ''1'')])"
  by code_simp

end
