(* ===== verification/Jobs_Solve.thy ===== *)
theory Jobs_Solve
  imports Install_Facts Jobs_Auto Jobs_Order Pkg_Cudf
begin

text \<open>
  \<open>pkg_jobs_solve\<close> of \<^verbatim>\<open>libpkg/pkg_jobs.c\<close>: the phases of a job from its requests to its list of
  jobs, and the repetition after conflicts between files. Locks of the database, messages and the
  picture for \<^verbatim>\<open>DOT_FILE\<close> are left out.
\<close>

section \<open>The job\<close>

text \<open>
  What changes in a job while it is solved; \<open>j_newpkg\<close> records that a new version of the package
  manager was found, and \<open>j_names\<close> are the names in the local database.
\<close>

record job =
  j_state :: job_state
  j_delete :: requests
  j_jobs :: "solved list"
  j_solved :: nat
  j_need_fetch :: bool
  j_conflicts :: nat
  j_hashed :: "64 word \<Rightarrow> nat option"
  j_locked :: "pkg list"
  j_newpkg :: bool
  j_names :: "string list"

text \<open>
  The rest of the configuration: the external solvers as functions from their input to the lines of
  their answer (the processes can be started); PicoSAT and the user; the queries of removal
  jobs; what the search for conflicts is given.
\<close>

record solve_opts =
  so_cudf :: "(string \<Rightarrow> string list) option"
  so_sat :: "(string \<Rightarrow> string list) option"
  so_picosat :: picosat
  so_ask :: "nat \<Rightarrow> string \<Rightarrow> bool"
  so_sort :: cudf_sort
  so_conservative :: bool
  so_automatic :: "pkg list option"
  so_matches :: "job_pattern \<Rightarrow> pkg list option"
  so_hash :: path_hash
  so_key :: sipkey
  so_owner :: "string \<Rightarrow> string option"

definition set_universe :: "universe \<Rightarrow> job \<Rightarrow> job" where
  "set_universe u j = j\<lparr>j_state := with_universe (j_state j) u\<rparr>"

abbreviation j_universe :: "job \<Rightarrow> universe" where
  "j_universe j \<equiv> js_universe (j_state j)"

definition job_install_env :: "install_env \<Rightarrow> job \<Rightarrow> install_env" where
  "job_install_env ienv j =
     (if j_newpkg j then
        ienv\<lparr>ie_version_test := False, ie_chains := (ie_chains ienv)\<lparr>ce_conservative := False, ce_pinning := False\<rparr>\<rparr>
      else ienv)"

section \<open>One attempt\<close>

definition solve_requests :: "nat \<Rightarrow> solve_opts \<Rightarrow> install_env \<Rightarrow> job \<Rightarrow> (epkg \<times> job) option" where
  "solve_requests n op ienv j =
     (let env = ie_env ienv in
      case je_type env of
        PKG_JOBS_AUTOREMOVE \<Rightarrow>
          map_option (\<lambda>(rc, r, u). (rc, (set_universe u j)\<lparr>j_delete := r, j_solved := (if rc = EPKG_OK then 1 else j_solved j)\<rparr>))
            (jobs_solve_autoremove n env (so_automatic op) (j_delete j) (j_universe j))
      | PKG_JOBS_DEINSTALL \<Rightarrow>
          map_option (\<lambda>(rc, s, ls, r, u).
              (rc, (set_universe u j)\<lparr>j_delete := r, j_locked := ls, j_solved := (if s then 1 else j_solved j)\<rparr>))
            (jobs_solve_deinstall n env (so_matches op) (ie_patterns ienv) (j_locked j) (j_delete j) (j_universe j))
      | PKG_JOBS_FETCH \<Rightarrow>
          map_option (\<lambda>(rc, s, st). (rc, j\<lparr>j_state := st, j_solved := s\<rparr>)) (jobs_solve_fetch n ienv (j_solved j) (j_state j))
      | _ \<Rightarrow>
          map_option (\<lambda>(rc, b, s, st). (rc, j\<lparr>j_state := st, j_solved := s, j_newpkg := j_newpkg j \<or> b\<rparr>))
            (jobs_solve_install_upgrade n (job_install_env ienv j) (j_solved j) (j_state j)))"

definition solve_env_of :: "solve_opts \<Rightarrow> install_env \<Rightarrow> job \<Rightarrow> solve_env" where
  "solve_env_of op ienv j =
     \<lparr>se_type = je_type (ie_env ienv), se_conservative = so_conservative op, se_repos = ce_repos (ie_chains ienv),
      se_request_add = js_add (j_state j), se_request_delete = j_delete j\<rparr>"

definition solve_cudf :: "(string \<Rightarrow> string list) \<Rightarrow> solve_opts \<Rightarrow> pkg_jobs_type \<Rightarrow> job \<Rightarrow> (epkg \<times> job) option" where
  "solve_cudf spawn op type j =
     (case pkg_jobs_cudf_emit_file (so_sort op) type (js_add (j_state j)) (j_delete j) (j_universe j) of
        (t, u) \<Rightarrow>
          map_option (\<lambda>(rc, js, v). (rc, (set_universe v j)\<lparr>j_jobs := js\<rparr>))
            (pkg_jobs_cudf_parse_output (spawn t) (j_jobs j, u)))"

text \<open>The solver of the library, given fuel, or an external one.\<close>

definition solve_problem :: "nat \<Rightarrow> solve_opts \<Rightarrow> solve_env \<Rightarrow> problem \<Rightarrow> job \<Rightarrow> (epkg \<times> job) option" where
  "solve_problem n op senv p j =
     (case so_sat op of
        Some spawn \<Rightarrow>
          (case pkg_solve_parse_sat_output (se_type senv) (spawn (pkg_solve_dimacs_export p)) p of
             (rc, js, q) \<Rightarrow> Some (rc, (set_universe (sp_universe q) j)\<lparr>j_jobs := j_jobs j @ js\<rparr>))
      | None \<Rightarrow>
          map_option (\<lambda>q. (EPKG_OK, (set_universe (sp_universe q) j)\<lparr>j_jobs := j_jobs j @ pkg_solve_sat_to_jobs (se_type senv) q\<rparr>))
            (pkg_solve_sat_problem n senv (so_picosat op) (so_ask op) p))"

definition solve_sat :: "nat \<Rightarrow> solve_opts \<Rightarrow> install_env \<Rightarrow> job \<Rightarrow> (epkg \<times> job) option" where
  "solve_sat n op ienv j =
     (let u = j_universe j in
      case pkg_jobs_universe_process_upgrade_chains (ie_chains (job_install_env ienv j)) u (js_add (j_state j)) of
        None \<Rightarrow> None
      | Some reqs \<Rightarrow>
          (let j' = j\<lparr>j_state := (j_state j)\<lparr>js_add := reqs\<rparr>\<rparr>; senv = solve_env_of op ienv j' in
           case pkg_solve_jobs_to_sat senv u of
             None \<Rightarrow> None
           | Some None \<Rightarrow> Some (EPKG_FATAL, j'\<lparr>j_solved := 0\<rparr>)
           | Some (Some p) \<Rightarrow> solve_problem n op senv p j'))"

definition solve_once :: "nat \<Rightarrow> solve_opts \<Rightarrow> install_env \<Rightarrow> job \<Rightarrow> (epkg \<times> job) option" where
  "solve_once n op ienv j =
     (let type = je_type (ie_env ienv) in
      case solve_requests n op ienv j of
        None \<Rightarrow> None
      | Some (rc, j1) \<Rightarrow>
          (case (if rc \<noteq> EPKG_OK then Some (rc, j1)
                 else case so_cudf op of Some spawn \<Rightarrow> solve_cudf spawn op type j1 | None \<Rightarrow> solve_sat n op ienv j1) of
             None \<Rightarrow> None
           | Some (rc, j2) \<Rightarrow>
               Some (rc, if type = PKG_JOBS_DEINSTALL \<and> j_solved j2 > 0 then
                           set_universe (pkg_jobs_set_deinstall_reasons (j_delete j2) (j_jobs j2) (j_universe j2)) j2
                         else j2)))"

section \<open>Afterwards\<close>

text \<open>
  The new names of replaced packages; the statement is taken to prepare. A uid is written for the
  name.
\<close>

definition pkg_jobs_apply_replacements :: "(string \<times> string) list \<Rightarrow> string list \<Rightarrow> string list" where
  "pkg_jobs_apply_replacements rs names = fold (\<lambda>(old, new). map (\<lambda>n. if n = old then new else n)) rs names"

definition needs_fetch :: "job_env \<Rightarrow> universe \<Rightarrow> solved \<Rightarrow> bool" where
  "needs_fetch env u s \<longleftrightarrow> pkg_kind (item_pkg u (sl_item s)) = PKG_REMOTE \<and> \<not> je_loads env (item_pkg u (sl_item s))"

definition after_solving :: "install_env \<Rightarrow> job \<Rightarrow> job" where
  "after_solving ienv j =
     j\<lparr>j_names := pkg_jobs_apply_replacements (u_replaces (j_universe j)) (j_names j),
       j_need_fetch := j_need_fetch j \<or> (\<exists>s \<in> set (j_jobs j). needs_fetch (ie_env ienv) (j_universe j) s)\<rparr>"

fun check_jobs :: "nat \<Rightarrow> solve_opts \<Rightarrow> job_env \<Rightarrow> solved list \<Rightarrow> epkg \<Rightarrow> conflict_state \<Rightarrow> (epkg \<times> conflict_state) option" where
  "check_jobs n op env [] rc st = Some (rc, st)"
| "check_jobs n op env (s # js) rc st =
     (if sl_type s \<in> {PKG_SOLVED_DELETE, PKG_SOLVED_UPGRADE_REMOVE} then check_jobs n op env js rc st
      else (case pkg_conflicts_append_chain n env (so_hash op) (so_key op) (so_owner op) (sl_item s) st of
              None \<Rightarrow> None
            | Some (res, st') \<Rightarrow> check_jobs n op env js (if res \<noteq> EPKG_OK then res else rc) st'))"

definition pkg_jobs_check_conflicts :: "nat \<Rightarrow> solve_opts \<Rightarrow> job_env \<Rightarrow> job \<Rightarrow> (epkg \<times> job) option" where
  "pkg_jobs_check_conflicts n op env j =
     map_option (\<lambda>(rc, st).
         (if cs_registered st > 0 then EPKG_CONFLICT else rc,
          (set_universe (cs_universe st) j)\<lparr>j_conflicts := cs_registered st, j_hashed := cs_items st\<rparr>))
       (check_jobs n op env (j_jobs j) EPKG_OK \<lparr>cs_universe = j_universe j, cs_items = j_hashed j, cs_registered = 0\<rparr>)"

definition conflicts_due :: "install_env \<Rightarrow> job \<Rightarrow> bool" where
  "conflicts_due ienv j \<longleftrightarrow> j_solved j = 1 \<and> \<not> j_need_fetch j \<and> je_type (ie_env ienv) \<noteq> PKG_JOBS_FETCH"

text \<open>
  The job is solved again after new conflicts, by a recursive call whose answer is dropped. Neither
  the recursion nor the loop is bounded, so the first number is the fuel.
\<close>

fun pkg_jobs_solve :: "nat \<Rightarrow> nat \<Rightarrow> solve_opts \<Rightarrow> install_env \<Rightarrow> job \<Rightarrow> (epkg \<times> job) option"
  and conflict_loop :: "nat \<Rightarrow> nat \<Rightarrow> solve_opts \<Rightarrow> install_env \<Rightarrow> bool \<Rightarrow> job \<Rightarrow> job option" where
  "pkg_jobs_solve 0 n op ienv j = None"
| "pkg_jobs_solve (Suc m) n op ienv j =
     (case solve_once n op ienv j of
        None \<Rightarrow> None
      | Some (rc, j1) \<Rightarrow>
          if rc \<noteq> EPKG_OK then Some (rc, j1)
          else
            (let j2 = after_solving ienv j1 in
             if conflicts_due ienv j2 then map_option (Pair rc) (conflict_loop m n op ienv False j2) else Some (rc, j2)))"
| "conflict_loop 0 n op ienv has j = None"
| "conflict_loop (Suc m) n op ienv has j =
     (case pkg_jobs_check_conflicts n op (ie_env ienv) (j\<lparr>j_conflicts := 0\<rparr>) of
        None \<Rightarrow> None
      | Some (rc, j1) \<Rightarrow>
          if rc = EPKG_CONFLICT then
            (case pkg_jobs_solve m n op ienv (j1\<lparr>j_jobs := []\<rparr>) of
               None \<Rightarrow> None
             | Some (_, j2) \<Rightarrow> if j_conflicts j2 > 0 then conflict_loop m n op ienv True j2 else Some j2)
          else if rc = EPKG_OK \<and> \<not> has then Some j1
          else if j_conflicts j1 > 0 then conflict_loop m n op ienv has j1
          else Some j1)"

section \<open>An attempt yields a consistent plan\<close>

text \<open>Two universes with the same items, up to the reasons recorded in their packages.\<close>

definition same_items :: "universe \<Rightarrow> universe \<Rightarrow> bool" where
  "same_items u v \<longleftrightarrow> length (u_items v) = length (u_items u) \<and>
     (\<forall>i < length (u_items u). same_pkg (item_pkg u i) (item_pkg v i))"

lemma install_ok_job: "install_ok K ienv \<Longrightarrow> install_ok K (job_install_env ienv j)"
  by (auto simp: install_ok_def job_install_env_def)

lemma solve_requests_ready:
  assumes ok: "install_ok K ienv" and st: "state_ok K (j_state j)" and n: "card K < n"
  shows "\<exists>rc j'. solve_requests n op ienv j = Some (rc, j') \<and> state_ok K (j_state j') \<and> j_jobs j' = j_jobs j"
proof -
  have t: "je_type (ie_env ienv) = PKG_JOBS_INSTALL \<or> je_type (ie_env ienv) = PKG_JOBS_UPGRADE" using ok by (simp add: install_ok_def)
  from install_good [OF install_ok_job [OF ok] st n] show ?thesis
    using t by (fastforce simp: solve_requests_def)
qed

lemma solve_sat_result:
  assumes "so_sat op = None" "solve_sat n op ienv j = Some (rc, j')" "rc = EPKG_OK"
  obtains reqs senv p q where
    "pkg_solve_jobs_to_sat senv (j_universe j) = Some (Some p)" "se_type senv = je_type (ie_env ienv)"
    "pkg_solve_sat_problem n senv (so_picosat op) (so_ask op) p = Some q"
    "j_universe j' = sp_universe q" "j_jobs j' = j_jobs j @ pkg_solve_sat_to_jobs (se_type senv) q"
  using assms
  by (auto simp: solve_sat_def solve_problem_def solve_env_of_def set_universe_def with_universe_def Let_def split: option.splits)

text \<open>C2. One attempt at an install or upgrade job with the solver of the library, from the patterns of
  the user to the list of jobs. If it succeeds, executing its jobs leads from the packages that are
  installed to a consistent set of packages: one per uid, each with its dependencies and
  requirements as far as there is a candidate in the universe, and without conflicts. The universe
  is the one that the requests of this attempt collected, whose items are those of the universe
  returned. The conditions: \<open>install_ok\<close>, every
  package of the databases, of a file and of a query has a valid digest that names one uid, there
  is a pattern for each entry, the user declines every replacement of a package by another and only
  vulnerable packages are not asked for; \<open>state_ok\<close>, what was collected before is well-formed and no
  item of it is locked; and the depth of the recursion exceeds the number of known packages.
\<close>

theorem attempt_consistent:
  assumes "install_ok K ienv" "state_ok K (j_state j)" "card K < n" "j_jobs j = []"
    "so_cudf op = None" "so_sat op = None" "picosat_ok (so_picosat op)"
    "solve_once n op ienv j = Some (EPKG_OK, j')"
  shows "\<exists>rc j1. solve_requests n op ienv j = Some (rc, j1) \<and> chains_wf (j_universe j1) \<and>
    same_items (j_universe j1) (j_universe j') \<and>
    plan_ok (j_universe j1) (apply_jobs (j_jobs j') (installed_items (j_universe j1)))"
proof -
  have t: "je_type (ie_env ienv) \<noteq> PKG_JOBS_FETCH" "je_type (ie_env ienv) \<noteq> PKG_JOBS_DEINSTALL"
    using install_okD(7,8) [OF assms(1)] .
  from solve_requests_ready [OF assms(1-3), of op] obtain rc j1 where
    r: "solve_requests n op ienv j = Some (rc, j1)" "state_ok K (j_state j1)" "j_jobs j1 = j_jobs j" by blast
  have s: "solve_sat n op ienv j1 = Some (EPKG_OK, j')"
    using assms(8) r(1) t(2) assms(5) by (auto simp: solve_once_def Let_def split: if_splits option.splits)
  have wf: "chains_wf (j_universe j1)" using r(2) universe_ok_chains_wf by (auto simp: state_ok_def)
  from solve_sat_result [OF assms(6) s refl] obtain senv p q where
    q: "pkg_solve_jobs_to_sat senv (j_universe j1) = Some (Some p)" "se_type senv = je_type (ie_env ienv)"
      "pkg_solve_sat_problem n senv (so_picosat op) (so_ask op) p = Some q"
      "j_universe j' = sp_universe q" "j_jobs j' = j_jobs j1 @ pkg_solve_sat_to_jobs (se_type senv) q" by metis
  note sol = solution_solves [OF wf q(1) assms(7) q(3)]
  have f: "se_type senv \<noteq> PKG_JOBS_FETCH" using t(1) q(2) by simp
  have "same_items (j_universe j1) (j_universe j')" using sol q(4) by (simp add: same_items_def solves_def)
  moreover have "apply_jobs (j_jobs j') (installed_items (j_universe j1)) = selected q"
    using solves_apply_jobs [OF sol wf f] q(5) r(3) assms(4) by simp
  moreover have "plan_ok (j_universe j1) (selected q)" by (rule solves_plan_ok [OF sol wf])
  ultimately show ?thesis using wf r(1) by (intro exI [of _ rc] exI [of _ j1]) simp
qed

definition zsh_opts :: solve_opts where
  "zsh_opts = \<lparr>so_cudf = None, so_sat = None, so_picosat = fixed_solver [1, 2], so_ask = (\<lambda>_ _. False),
     so_sort = cudf_insertion, so_conservative = False, so_automatic = None, so_matches = (\<lambda>_. None),
     so_hash = (\<lambda>_ _. 0), so_key = (0, 0), so_owner = (\<lambda>_. None)\<rparr>"

definition fresh_job :: job where
  "fresh_job = \<lparr>j_state = fresh_state, j_delete = [], j_jobs = [], j_solved = 0, j_need_fetch = False, j_conflicts = 0,
     j_hashed = (\<lambda>_. None), j_locked = [], j_newpkg = False, j_names = []\<rparr>"

lemma zsh_attempt:
  "map_option (\<lambda>(rc, j). (rc, map (\<lambda>s. (sl_type s, sl_item s)) (j_jobs j))) (solve_once 3 zsh_opts zsh_job fresh_job) =
    Some (EPKG_OK, [(PKG_SOLVED_INSTALL, 0), (PKG_SOLVED_INSTALL, 1)])"
  by code_simp

theorem attempt_consistent_witness:
  "\<exists>j' rc j1. solve_once 3 zsh_opts zsh_job fresh_job = Some (EPKG_OK, j') \<and>
    map (\<lambda>s. (sl_type s, sl_item s)) (j_jobs j') = [(PKG_SOLVED_INSTALL, 0), (PKG_SOLVED_INSTALL, 1)] \<and>
    solve_requests 3 zsh_opts zsh_job fresh_job = Some (rc, j1) \<and>
    plan_ok (j_universe j1) (apply_jobs (j_jobs j') (installed_items (j_universe j1)))"
proof -
  obtain j' where j': "solve_once 3 zsh_opts zsh_job fresh_job = Some (EPKG_OK, j')"
    "map (\<lambda>s. (sl_type s, sl_item s)) (j_jobs j') = [(PKG_SOLVED_INSTALL, 0), (PKG_SOLVED_INSTALL, 1)]"
    using zsh_attempt by auto
  have c: "card sample_ids < 3" by (simp add: sample_ids_def)
  have s: "state_ok sample_ids (j_state fresh_job)" using fresh_state_ok by (simp add: fresh_job_def)
  have o: "so_cudf zsh_opts = None" "so_sat zsh_opts = None" "picosat_ok (so_picosat zsh_opts)"
    using fixed_solver_ok by (simp_all add: zsh_opts_def)
  have e: "j_jobs fresh_job = []" by (simp add: fresh_job_def)
  from attempt_consistent [OF zsh_job_ok s c e o j'(1)] obtain rc j1 where
    u: "solve_requests 3 zsh_opts zsh_job fresh_job = Some (rc, j1)"
      "plan_ok (j_universe j1) (apply_jobs (j_jobs j') (installed_items (j_universe j1)))" by (elim exE conjE)
  show ?thesis by (intro exI conjI) (rule j' u)+
qed

end
