(* ===== verification/Jobs_Execute.thy ===== *)
theory Jobs_Execute
  imports Jobs_Solve
begin

text \<open>
  The ends of a job in \<^verbatim>\<open>libpkg/pkg_jobs.c\<close>: the patterns it is given, fetching, executing and
  applying it, and going through its list. The system that packages are added to and deleted from
  is a parameter; hooks of plugins are left out.
\<close>

section \<open>Patterns\<close>

definition blank_pattern :: job_pattern where
  "blank_pattern = \<lparr>jp_pattern = None, jp_path = [], jp_match = MATCH_ALL, jp_file = False\<rparr>"

text \<open>\<open>realpath\<close> answers NULL for a file that does not exist.\<close>

definition pkg_jobs_maybe_match_file :: "(string \<Rightarrow> string option) \<Rightarrow> job_pattern \<Rightarrow> string \<Rightarrow> bool \<times> job_pattern" where
  "pkg_jobs_maybe_match_file realpath jp pattern =
     (case strrchr pattern CHR ''.'' of
        Some dot \<Rightarrow>
          (if tl dot = ''tzst'' then
             (case realpath pattern of
                Some path \<Rightarrow> (True, jp\<lparr>jp_file := True, jp_path := path, jp_pattern := Some (take (length pattern - length dot) pattern)\<rparr>)
              | None \<Rightarrow> (False, jp))
           else (False, jp))
      | None \<Rightarrow>
          (False, if pattern = ''-'' then jp\<lparr>jp_file := True, jp_path := pattern, jp_pattern := Some pattern\<rparr> else jp))"

definition argument_pattern :: "(string \<Rightarrow> string option) \<Rightarrow> pkg_jobs_type \<Rightarrow> match \<Rightarrow> string \<Rightarrow> job_pattern" where
  "argument_pattern realpath type m arg =
     (case (if type = PKG_JOBS_DEINSTALL then (False, blank_pattern) else pkg_jobs_maybe_match_file realpath blank_pattern arg) of
        (True, jp) \<Rightarrow> jp
      | (False, jp) \<Rightarrow> jp\<lparr>jp_pattern := Some arg, jp_match := m\<rparr>)"

definition pkg_jobs_add ::
  "(string \<Rightarrow> string option) \<Rightarrow> pkg_jobs_type \<Rightarrow> nat \<Rightarrow> match \<Rightarrow> string list \<Rightarrow> job_pattern list \<Rightarrow> epkg \<times> job_pattern list" where
  "pkg_jobs_add realpath type solved m argv patterns =
     (if solved > 0 then (EPKG_FATAL, patterns)
      else (EPKG_OK, patterns @ map (argument_pattern realpath type m) argv @
        (if argv = [] \<and> m = MATCH_ALL then [blank_pattern\<lparr>jp_match := m\<rparr>] else [])))"

section \<open>Iterating\<close>

text \<open>
  The iterator is NULL at first, then the next job, and the first one again at the end: the call
  after that answers false.
\<close>

definition pkg_jobs_iter :: "solved list \<Rightarrow> nat option \<Rightarrow> (solved \<times> nat option) option" where
  "pkg_jobs_iter js iter =
     (let i = (case iter of None \<Rightarrow> 0 | Some i \<Rightarrow> i) in
      if js = [] \<or> iter = Some 0 then None
      else Some (js ! i, Some (if i + 1 < length js then i + 1 else 0)))"

fun iterate :: "nat \<Rightarrow> solved list \<Rightarrow> nat option \<Rightarrow> solved list option" where
  "iterate 0 js iter = None"
| "iterate (Suc n) js iter =
     (case pkg_jobs_iter js iter of None \<Rightarrow> Some [] | Some (s, iter') \<Rightarrow> map_option ((#) s) (iterate n js iter'))"

lemma iterate_from: "0 < i \<Longrightarrow> i < length js \<Longrightarrow> iterate (length js - i + 1) js (Some i) = Some (drop i js)"
proof (induction "length js - i" arbitrary: i)
  case (Suc d)
  then have js: "js \<noteq> []" "drop i js = js ! i # drop (Suc i) js" by (auto simp: Cons_nth_drop_Suc)
  show ?case
  proof (cases "Suc i < length js")
    case True
    moreover have "length js - i = length js - Suc i + 1" using Suc.prems by simp
    ultimately show ?thesis using Suc.hyps(1) [of "Suc i"] Suc.hyps(2) Suc.prems js by (simp add: pkg_jobs_iter_def)
  next
    case False
    then have "length js - i = Suc 0" using Suc.prems by simp
    then show ?thesis using False Suc.prems js by (simp add: pkg_jobs_iter_def)
  qed
qed simp

lemma iterate_all: "iterate (length js + 1) js None = Some js"
proof (cases js)
  case (Cons s ss)
  then show ?thesis
    using iterate_from [of 1 js] by (cases ss) (auto simp: pkg_jobs_iter_def)
qed (simp add: pkg_jobs_iter_def)

section \<open>Fetching\<close>

record job_flags =
  jf_force :: bool
  jf_noscript :: bool
  jf_force_missing :: bool
  jf_automatic :: bool
  jf_skip_install :: bool
  jf_dry_run :: bool

text \<open>
  Sizes of packages, of the files in the cache or in the destination directory, and of the free
  space (\<open>None\<close> when it cannot be found out); and the download of one package.
\<close>

record 's fetch_env =
  fe_pkgsize :: "pkg \<Rightarrow> int"
  fe_stat :: "pkg \<Rightarrow> int option"
  fe_avail :: "int option"
  fe_download :: "pkg \<Rightarrow> 's \<Rightarrow> epkg \<times> 's"

definition to_fetch :: "universe \<Rightarrow> solved list \<Rightarrow> pkg list" where
  "to_fetch u js =
     filter (\<lambda>p. pkg_kind p = PKG_REMOTE)
       (map (\<lambda>s. item_pkg u (sl_item s)) (filter (\<lambda>s. sl_type s \<notin> {PKG_SOLVED_DELETE, PKG_SOLVED_UPGRADE_REMOVE}) js))"

definition download_size :: "'s fetch_env \<Rightarrow> pkg list \<Rightarrow> int" where
  "download_size fe ps = sum_list (map (\<lambda>p. fe_pkgsize fe p - (case fe_stat fe p of None \<Rightarrow> 0 | Some n \<Rightarrow> n)) ps)"

fun download :: "'s fetch_env \<Rightarrow> pkg list \<Rightarrow> 's \<Rightarrow> epkg \<times> 's" where
  "download fe [] s = (EPKG_OK, s)"
| "download fe (p # ps) s =
     (case fe_download fe p s of (rc, s') \<Rightarrow> if rc \<noteq> EPKG_OK then (EPKG_FATAL, s') else download fe ps s')"

definition pkg_jobs_fetch :: "'s fetch_env \<Rightarrow> job_flags \<Rightarrow> universe \<Rightarrow> solved list \<Rightarrow> 's \<Rightarrow> epkg \<times> 's" where
  "pkg_jobs_fetch fe fl u js s =
     (let ps = to_fetch u js; dlsize = download_size fe ps in
      if dlsize = 0 then (EPKG_OK, s)
      else (case fe_avail fe of
              None \<Rightarrow> (EPKG_FATAL, s)
            | Some avail \<Rightarrow>
                if avail \<noteq> -1 \<and> dlsize > avail then (EPKG_FATAL, s)
                else if jf_dry_run fl then (EPKG_OK, s)
                else download fe ps s))"

section \<open>Executing\<close>

record add_flags =
  af_force :: bool
  af_noscript :: bool
  af_force_missing :: bool
  af_splitted_upgrade :: bool
  af_automatic :: bool

text \<open>
  The system: its lock, and adding and deleting a package, with the answers and effects of
  \<^verbatim>\<open>pkg_add_upgrade\<close> and \<^verbatim>\<open>pkg_add_from_remote\<close> (the target, the flags, the new package and the old
  one) and of \<^verbatim>\<open>pkg_delete\<close> (force, no scripts, conflict). The path that is printed for a package,
  its name in the cache, and the file a request was given as.
\<close>

record 's system =
  sy_lock :: "'s \<Rightarrow> epkg \<times> 's"
  sy_add :: "string \<Rightarrow> add_flags \<Rightarrow> pkg \<Rightarrow> pkg option \<Rightarrow> 's \<Rightarrow> epkg \<times> 's"
  sy_delete :: "bool \<Rightarrow> bool \<Rightarrow> bool \<Rightarrow> pkg \<Rightarrow> 's \<Rightarrow> epkg \<times> 's"
  sy_repopath :: "pkg \<Rightarrow> string"
  sy_cached :: "pkg \<Rightarrow> string"
  sy_file :: "string \<Rightarrow> string option"

definition install_target :: "'s system \<Rightarrow> requests \<Rightarrow> pkg \<Rightarrow> string \<times> pkg" where
  "install_target sy reqs p =
     (case (find_request reqs (pkg_uid p), sy_file sy (pkg_uid p)) of
        (Some _, Some path) \<Rightarrow> (path, p\<lparr>pkg_reponame := Some ''local file''\<rparr>)
      | _ \<Rightarrow> (let path = sy_repopath sy p in if deref path = CHR ''/'' then path else sy_cached sy p, p))"

definition pkg_jobs_handle_install ::
  "'s system \<Rightarrow> job_flags \<Rightarrow> requests \<Rightarrow> solved \<Rightarrow> universe \<Rightarrow> 's \<Rightarrow> epkg \<times> universe \<times> 's" where
  "pkg_jobs_handle_install sy fl reqs s u st =
     (case install_target sy reqs (item_pkg u (sl_item s)) of
        (target, p) \<Rightarrow>
          (let old = map_option (item_pkg u) (sl_old s);
               new = (case old of None \<Rightarrow> p | Some q \<Rightarrow> p\<lparr>pkg_old_version := Some (pkg_version q)\<rparr>);
               af = \<lparr>af_force = jf_force fl, af_noscript = jf_noscript fl, af_force_missing = jf_force_missing fl,
                     af_splitted_upgrade = (sl_type s = PKG_SOLVED_UPGRADE_INSTALL),
                     af_automatic = pkg_automatic new \<or> jf_automatic fl\<rparr>
           in case sy_add sy target af new old st of (rc, st') \<Rightarrow> (rc, put_pkg (sl_item s) new u, st')))"

text \<open>A vital package stops the job; the package manager itself is passed over.\<close>

definition is_self :: "pkg \<Rightarrow> bool" where
  "is_self p \<longleftrightarrow> pkg_origin p = ''ravensw:standard''"

fun execute_jobs ::
  "'s system \<Rightarrow> job_flags \<Rightarrow> pkg_jobs_type \<Rightarrow> job_pattern list \<Rightarrow> requests \<Rightarrow> solved list \<Rightarrow> epkg \<Rightarrow> universe \<Rightarrow> 's \<Rightarrow>
    (epkg \<times> universe \<times> 's) option" where
  "execute_jobs sy fl type pats reqs [] rc u st = Some (rc, u, st)"
| "execute_jobs sy fl type pats reqs (s # js) rc u st =
     (let p = item_pkg u (sl_item s); guarded = (sl_type s = PKG_SOLVED_DELETE \<and> \<not> jf_force fl) in
      if sl_type s = PKG_SOLVED_FETCH then Some (EPKG_FATAL, u, st)
      else if sl_type s \<in> {PKG_SOLVED_DELETE, PKG_SOLVED_UPGRADE_REMOVE} then
        (if guarded \<and> pkg_vital p then Some (EPKG_FATAL, u, st)
         else if guarded \<and> is_self p then
           (case pats of
              [] \<Rightarrow> None
            | jp # _ \<Rightarrow> execute_jobs sy fl type pats reqs js (if jp_match jp = MATCH_ALL then rc else EPKG_OK) u st)
         else (case sy_delete sy (jf_force fl) (jf_noscript fl) (type = PKG_JOBS_UPGRADE) p st of
                 (rc', st') \<Rightarrow> if rc' \<noteq> EPKG_OK then Some (rc', u, st') else execute_jobs sy fl type pats reqs js rc' u st'))
      else (case pkg_jobs_handle_install sy fl reqs s u st of
              (rc', u', st') \<Rightarrow> if rc' \<noteq> EPKG_OK then Some (rc', u', st') else execute_jobs sy fl type pats reqs js rc' u' st'))"

type_synonym job_sort = "(solved \<Rightarrow> solved \<Rightarrow> int) \<Rightarrow> solved list \<Rightarrow> solved list"

definition pkg_jobs_execute ::
  "job_sort \<Rightarrow> nat \<Rightarrow> 's system \<Rightarrow> job_flags \<Rightarrow> install_env \<Rightarrow> job \<Rightarrow> 's \<Rightarrow> (epkg \<times> job \<times> 's) option" where
  "pkg_jobs_execute srt n sy fl ienv j st =
     (if jf_skip_install fl then Some (EPKG_OK, j, st)
      else
        (case sy_lock sy st of
           (rc, st1) \<Rightarrow>
             if rc \<noteq> EPKG_OK then Some (rc, j, st1)
             else
               (case pkg_jobs_set_priorities srt n (j_universe j) (j_jobs j) of
                  None \<Rightarrow> None
                | Some (u, js) \<Rightarrow>
                    map_option (\<lambda>(rc', v, st'). (rc', (set_universe v j)\<lparr>j_jobs := js\<rparr>, st'))
                      (execute_jobs sy fl (je_type (ie_env ienv)) (ie_patterns ienv) (js_add (j_state j)) js rc u st1))))"

section \<open>Applying\<close>

text \<open>
  What a job is applied with: the number of attempts and the fuel of the parts, the order of the
  jobs, the solvers, the system and the downloads.
\<close>

record 's apply_env =
  ae_depth :: nat
  ae_fuel :: nat
  ae_sort :: job_sort
  ae_opts :: solve_opts
  ae_flags :: job_flags
  ae_system :: "'s system"
  ae_fetch :: "'s fetch_env"

definition execute_with :: "'s apply_env \<Rightarrow> install_env \<Rightarrow> job \<Rightarrow> 's \<Rightarrow> (epkg \<times> job \<times> 's) option" where
  "execute_with ae ienv j st = pkg_jobs_execute (ae_sort ae) (ae_fuel ae) (ae_system ae) (ae_flags ae) ienv j st"

text \<open>
  The first run after fetching looks for conflicts between files; a job that has any is solved
  again and not executed. \<open>None\<close> for the answer is the value left from the last attempt to
  solve it, after which \<open>EPKG_CONFLICT\<close> is answered anyway.
\<close>

fun fetched_loop :: "nat \<Rightarrow> 's apply_env \<Rightarrow> install_env \<Rightarrow> bool \<Rightarrow> job \<Rightarrow> 's \<Rightarrow> (bool \<times> epkg \<times> job \<times> 's) option" where
  "fetched_loop 0 ae ienv has j st = None"
| "fetched_loop (Suc m) ae ienv has j st =
     (case pkg_jobs_check_conflicts (ae_fuel ae) (ae_opts ae) (ie_env ienv) (j\<lparr>j_conflicts := 0\<rparr>) of
        None \<Rightarrow> None
      | Some (rc, j1) \<Rightarrow>
          if rc = EPKG_CONFLICT then
            (case pkg_jobs_solve m (ae_fuel ae) (ae_opts ae) ienv (j1\<lparr>j_jobs := []\<rparr>) of
               None \<Rightarrow> None
             | Some (rc', j2) \<Rightarrow> if j_conflicts j2 > 0 then fetched_loop m ae ienv True j2 st else Some (True, rc', j2, st))
          else if rc = EPKG_OK \<and> \<not> has then
            map_option (Pair False) (execute_with ae ienv j1 st)
          else if j_conflicts j1 > 0 then fetched_loop m ae ienv has j1 st
          else Some (has, rc, j1, st))"

definition apply_fetched :: "'s apply_env \<Rightarrow> install_env \<Rightarrow> job \<Rightarrow> 's \<Rightarrow> (epkg \<times> job \<times> 's) option" where
  "apply_fetched ae ienv j st =
     (if j_solved j = 1 then
        (case fetched_loop (ae_depth ae) ae ienv False j st of
           None \<Rightarrow> None
         | Some (has, rc, j', st') \<Rightarrow>
             if \<not> has then Some (rc, j', st')
             else if j_conflicts j' = 0 then
               map_option (\<lambda>(u, js). (EPKG_CONFLICT, (set_universe u j')\<lparr>j_jobs := js\<rparr>, st'))
                 (pkg_jobs_set_priorities (ae_sort ae) (ae_fuel ae) (j_universe j') (j_jobs j'))
             else Some (EPKG_CONFLICT, j', st'))
      else execute_with ae ienv j st)"

definition pkg_jobs_apply :: "'s apply_env \<Rightarrow> install_env \<Rightarrow> job \<Rightarrow> 's \<Rightarrow> (epkg \<times> job \<times> 's) option" where
  "pkg_jobs_apply ae ienv j st =
     (if j_solved j = 0 then Some (EPKG_FATAL, j, st)
      else if je_type (ie_env ienv) = PKG_JOBS_FETCH then
        (case pkg_jobs_fetch (ae_fetch ae) (ae_flags ae) (j_universe j) (j_jobs j) st of (rc, st') \<Rightarrow> Some (rc, j, st'))
      else if j_need_fetch j then
        (case pkg_jobs_fetch (ae_fetch ae) (ae_flags ae) (j_universe j) (j_jobs j) st of
           (rc, st') \<Rightarrow> if rc \<noteq> EPKG_OK then Some (rc, j, st') else apply_fetched ae ienv j st')
      else execute_with ae ienv j st)"

section \<open>What an execution does to the system\<close>

text \<open>
  An interface: an invariant of the system that locking, adding anything and deleting what may be
  deleted keep.
\<close>

locale system_invariant =
  fixes sy :: "'s system" and may_delete :: "pkg \<Rightarrow> bool" and I :: "'s \<Rightarrow> bool"
  assumes lock: "I st \<Longrightarrow> I (snd (sy_lock sy st))"
    and add: "I st \<Longrightarrow> I (snd (sy_add sy target af new old st))"
    and delete: "may_delete p \<Longrightarrow> I st \<Longrightarrow> I (snd (sy_delete sy force noscript conflict p st))"
begin

lemma add_result: "sy_add sy target af new old st = (rc, st') \<Longrightarrow> I st \<Longrightarrow> I st'"
  using add [of st target af new old] by simp

lemma delete_result: "sy_delete sy force noscript conflict p st = (rc, st') \<Longrightarrow> may_delete p \<Longrightarrow> I st \<Longrightarrow> I st'"
  using delete [of p st force noscript conflict] by simp

lemma handle_install:
  "pkg_jobs_handle_install sy fl reqs s u st = (rc, u', st') \<Longrightarrow> I st \<Longrightarrow> I st'"
  by (auto simp: pkg_jobs_handle_install_def Let_def split: prod.splits dest: add_result)

end

text \<open>Packages of a universe as they were, but for what an installation records in them.\<close>

definition recorded :: "pkg \<Rightarrow> pkg \<Rightarrow> bool" where
  "recorded p q \<longleftrightarrow> q\<lparr>pkg_reponame := None, pkg_old_version := None\<rparr> = p\<lparr>pkg_reponame := None, pkg_old_version := None\<rparr>"

lemma recorded_refl [simp]: "recorded p p"
  by (simp add: recorded_def)

lemma recorded_trans: "recorded p q \<Longrightarrow> recorded q r \<Longrightarrow> recorded p r"
  by (simp add: recorded_def)

lemma recorded_fields:
  assumes "recorded p q"
  shows "pkg_vital q = pkg_vital p" "pkg_origin q = pkg_origin p" "pkg_uid q = pkg_uid p"
proof -
  have e: "q\<lparr>pkg_reponame := None, pkg_old_version := None\<rparr> = p\<lparr>pkg_reponame := None, pkg_old_version := None\<rparr>"
    using assms by (simp add: recorded_def)
  from arg_cong [OF e, of pkg_vital] arg_cong [OF e, of pkg_origin] arg_cong [OF e, of pkg_uid]
  show "pkg_vital q = pkg_vital p" "pkg_origin q = pkg_origin p" "pkg_uid q = pkg_uid p" by simp_all
qed

lemma handle_install_recorded:
  assumes "pkg_jobs_handle_install sy fl reqs s u st = (rc, u', st')"
  shows "recorded (item_pkg u i) (item_pkg u' i)"
proof -
  obtain target p where p: "install_target sy reqs (item_pkg u (sl_item s)) = (target, p)" by fastforce
  then have "recorded (item_pkg u (sl_item s)) p"
    by (auto simp: install_target_def recorded_def split: option.splits)
  then have "recorded (item_pkg u (sl_item s)) (p\<lparr>pkg_old_version := v\<rparr>)" for v by (simp add: recorded_def)
  moreover note \<open>recorded (item_pkg u (sl_item s)) p\<close>
  moreover obtain new where "u' = put_pkg (sl_item s) new u" "new = p \<or> (\<exists>v. new = p\<lparr>pkg_old_version := v\<rparr>)"
    using assms p by (auto simp: pkg_jobs_handle_install_def Let_def split: prod.splits option.splits)
  ultimately show ?thesis by (auto simp: put_pkg_item)
qed

definition removes :: "solved \<Rightarrow> bool" where
  "removes s \<longleftrightarrow> sl_type s \<in> {PKG_SOLVED_DELETE, PKG_SOLVED_UPGRADE_REMOVE}"

text \<open>The deletions that are not carried out without the force flag.\<close>

definition spared :: "job_flags \<Rightarrow> solved \<Rightarrow> pkg \<Rightarrow> bool" where
  "spared fl s p \<longleftrightarrow> sl_type s = PKG_SOLVED_DELETE \<and> \<not> jf_force fl \<and> (pkg_vital p \<or> is_self p)"

context system_invariant
begin

lemma execute_jobs:
  "execute_jobs sy fl type pats reqs js rc u st = Some (rc', u', st') \<Longrightarrow> I st \<Longrightarrow>
    \<forall>s \<in> set js. removes s \<longrightarrow> (\<forall>p. recorded (item_pkg u (sl_item s)) p \<longrightarrow> spared fl s p \<or> may_delete p) \<Longrightarrow>
    I st' \<and> (\<forall>i. recorded (item_pkg u i) (item_pkg u' i))"
proof (induction js arbitrary: rc u st)
  case (Cons s js)
  let ?p = "item_pkg u (sl_item s)" and ?guarded = "sl_type s = PKG_SOLVED_DELETE \<and> \<not> jf_force fl"
  note run = Cons.prems(1)
  have rest: "\<forall>s \<in> set js. removes s \<longrightarrow> (\<forall>p. recorded (item_pkg u (sl_item s)) p \<longrightarrow> spared fl s p \<or> may_delete p)"
    using Cons.prems(3) by simp
  consider (fetch) "sl_type s = PKG_SOLVED_FETCH" | (remove) "removes s" | (install) "sl_type s \<noteq> PKG_SOLVED_FETCH" "\<not> removes s"
    by (auto simp: removes_def)
  then show ?case
  proof cases
    case fetch
    then show ?thesis using run Cons.prems(2) by simp
  next
    case remove
    then have nf: "sl_type s \<noteq> PKG_SOLVED_FETCH" "sl_type s \<in> {PKG_SOLVED_DELETE, PKG_SOLVED_UPGRADE_REMOVE}" by (auto simp: removes_def)
    show ?thesis
    proof (cases "?guarded \<and> (pkg_vital ?p \<or> is_self ?p)")
      case True
      then have "rc' = EPKG_FATAL \<and> u' = u \<and> st' = st \<or> (\<exists>rc1. execute_jobs sy fl type pats reqs js rc1 u st = Some (rc', u', st'))"
        using run nf by (auto simp: Let_def split: if_splits list.splits)
      then show ?thesis using Cons.IH [OF _ Cons.prems(2) rest] Cons.prems(2) by auto
    next
      case False
      have "spared fl s ?p \<or> may_delete ?p" using Cons.prems(3) remove by simp
      then have "may_delete ?p" using False by (auto simp: spared_def)
      moreover obtain rc1 st1 where d: "sy_delete sy (jf_force fl) (jf_noscript fl) (type = PKG_JOBS_UPGRADE) ?p st = (rc1, st1)" by fastforce
      ultimately have st1: "I st1" using delete_result Cons.prems(2) by blast
      have "u' = u \<and> st' = st1 \<or> execute_jobs sy fl type pats reqs js rc1 u st1 = Some (rc', u', st')"
        using run nf False d by (auto simp: Let_def split: if_splits)
      then show ?thesis using Cons.IH [OF _ st1 rest] st1 by auto
    qed
  next
    case install
    then have nr: "sl_type s \<notin> {PKG_SOLVED_DELETE, PKG_SOLVED_UPGRADE_REMOVE}" by (simp add: removes_def)
    obtain rc1 u1 st1 where h: "pkg_jobs_handle_install sy fl reqs s u st = (rc1, u1, st1)" by (metis prod_cases3)
    have st1: "I st1" by (rule handle_install [OF h Cons.prems(2)])
    have u1: "recorded (item_pkg u i) (item_pkg u1 i)" for i by (rule handle_install_recorded [OF h])
    have rest1: "\<forall>s \<in> set js. removes s \<longrightarrow> (\<forall>p. recorded (item_pkg u1 (sl_item s)) p \<longrightarrow> spared fl s p \<or> may_delete p)"
      using rest recorded_trans [OF u1] by blast
    have "u' = u1 \<and> st' = st1 \<or> execute_jobs sy fl type pats reqs js rc1 u1 st1 = Some (rc', u', st')"
      using run install nr h by (auto simp: Let_def split: if_splits)
    then show ?thesis using Cons.IH [OF _ st1 rest1] st1 u1 recorded_trans [OF u1] by blast
  qed
qed simp

end

section \<open>A system that keeps a log\<close>

text \<open>What is done to the system; the answers may depend on everything done so far.\<close>

datatype action = Added string pkg "pkg option" | Deleted pkg

type_synonym answers = "action list \<Rightarrow> action \<Rightarrow> epkg"

definition logging :: "answers \<Rightarrow> epkg \<Rightarrow> (pkg \<Rightarrow> string) \<Rightarrow> (pkg \<Rightarrow> string) \<Rightarrow> (string \<Rightarrow> string option) \<Rightarrow> action list system" where
  "logging answer lock path cached files =
     \<lparr>sy_lock = (\<lambda>log. (lock, log)),
      sy_add = (\<lambda>target af new old log. (answer log (Added target new old), log @ [Added target new old])),
      sy_delete = (\<lambda>force noscript conflict p log. (answer log (Deleted p), log @ [Deleted p])),
      sy_repopath = path, sy_cached = cached, sy_file = files\<rparr>"

interpretation logged: system_invariant "logging answer lock path cached files" may "\<lambda>log. \<forall>p. Deleted p \<in> set log \<longrightarrow> may p"
  for answer lock path cached files may
  by unfold_locales (auto simp: logging_def)

text \<open>C4. Without the force flag an execution never deletes a vital package or the package manager, only
  to replace it: whatever the answers of the system, every package that was deleted is neither, or
  it is the old version in an upgrade that was split in two.
\<close>

theorem execute_spares_vital:
  assumes "pkg_jobs_execute srt n (logging answer lock path cached files) fl ienv j [] = Some (rc, j', log)"
    "\<not> jf_force fl" "Deleted p \<in> set log"
  shows "\<not> pkg_vital p \<and> \<not> is_self p \<or>
    (\<exists>s \<in> set (j_jobs j'). sl_type s = PKG_SOLVED_UPGRADE_REMOVE \<and> recorded (item_pkg (j_universe j') (sl_item s)) p)"
proof -
  have "log \<noteq> []" using assms(3) by auto
  then obtain u js v where r: "execute_jobs (logging answer lock path cached files) fl (je_type (ie_env ienv)) (ie_patterns ienv)
      (js_add (j_state j)) js lock u [] = Some (rc, v, log)" "j_jobs j' = js" "j_universe j' = v"
    using assms(1)
    by (auto simp: pkg_jobs_execute_def logging_def set_universe_def with_universe_def split: if_splits option.splits prod.splits)
  let ?may = "\<lambda>p. \<not> pkg_vital p \<and> \<not> is_self p \<or>
    (\<exists>s \<in> set js. sl_type s = PKG_SOLVED_UPGRADE_REMOVE \<and> recorded (item_pkg u (sl_item s)) p)"
  have "\<forall>s \<in> set js. removes s \<longrightarrow> (\<forall>p. recorded (item_pkg u (sl_item s)) p \<longrightarrow> spared fl s p \<or> ?may p)"
    using assms(2) by (auto simp: removes_def spared_def)
  from logged.execute_jobs [where may = ?may, OF r(1) _ this] have
    l: "\<forall>p. Deleted p \<in> set log \<longrightarrow> ?may p" "\<forall>i. recorded (item_pkg u i) (item_pkg v i)" by simp_all
  have "recorded (item_pkg v i) p" if "recorded (item_pkg u i) p" for i
    using that l(2) unfolding recorded_def by metis
  then show ?thesis using l(1) assms(3) r(2,3) by blast
qed

text \<open>
  What the jobs are to do, one entry for each job in order: whether it deletes, the uid of its
  package, and that of the old version of an upgrade. \<open>None\<close> is a job that stops the execution, a
  vital package to delete without the force flag or a job that only fetches. The deletion of the
  package manager itself is passed over without the force flag.
\<close>

type_synonym entry = "bool \<times> string \<times> string option"

definition passed_over :: "job_flags \<Rightarrow> universe \<Rightarrow> solved \<Rightarrow> bool" where
  "passed_over fl u s \<longleftrightarrow> sl_type s = PKG_SOLVED_DELETE \<and> \<not> jf_force fl \<and> \<not> pkg_vital (item_pkg u (sl_item s)) \<and>
     is_self (item_pkg u (sl_item s))"

definition refused :: "job_flags \<Rightarrow> universe \<Rightarrow> solved \<Rightarrow> bool" where
  "refused fl u s \<longleftrightarrow> sl_type s = PKG_SOLVED_FETCH \<or>
     sl_type s = PKG_SOLVED_DELETE \<and> \<not> jf_force fl \<and> pkg_vital (item_pkg u (sl_item s))"

definition job_entry :: "universe \<Rightarrow> solved \<Rightarrow> entry" where
  "job_entry u s = (removes s, pkg_uid (item_pkg u (sl_item s)),
     if removes s then None else map_option (\<lambda>i. pkg_uid (item_pkg u i)) (sl_old s))"

definition planned :: "job_flags \<Rightarrow> universe \<Rightarrow> solved list \<Rightarrow> entry option list" where
  "planned fl u js =
     map (\<lambda>s. if refused fl u s then None else Some (job_entry u s)) (filter (\<lambda>s. \<not> passed_over fl u s) js)"

fun action_entry :: "action \<Rightarrow> entry" where
  "action_entry (Added t p old) = (False, pkg_uid p, map_option pkg_uid old)"
| "action_entry (Deleted p) = (True, pkg_uid p, None)"

lemma planned_recorded:
  assumes "\<And>i. recorded (item_pkg u i) (item_pkg v i)"
  shows "planned fl v js = planned fl u js"
  by (simp add: planned_def passed_over_def refused_def job_entry_def is_self_def recorded_fields [OF assms])

lemma handle_install_logged:
  assumes "pkg_jobs_handle_install (logging answer lock path cached files) fl reqs s u log = (rc, u', log')" "\<not> removes s"
  shows "\<exists>a. log' = log @ [a] \<and> rc = answer log a \<and> action_entry a = job_entry u s"
proof -
  obtain target p where p: "install_target (logging answer lock path cached files) reqs (item_pkg u (sl_item s)) = (target, p)" by fastforce
  then have "pkg_uid p = pkg_uid (item_pkg u (sl_item s))" by (auto simp: install_target_def split: option.splits)
  then show ?thesis
    using assms p by (auto simp: pkg_jobs_handle_install_def logging_def job_entry_def Let_def split: option.splits prod.splits)
qed

text \<open>What the system is asked to do after \<open>log\<close>, and the answer, for the entries of a plan.\<close>

fun carried_out :: "answers \<Rightarrow> entry option list \<Rightarrow> action list \<Rightarrow> epkg \<Rightarrow> action list \<Rightarrow> bool" where
  "carried_out answer [] log rc log' \<longleftrightarrow> rc = EPKG_OK \<and> log' = log"
| "carried_out answer (None # xs) log rc log' \<longleftrightarrow> rc = EPKG_FATAL \<and> log' = log"
| "carried_out answer (Some x # xs) log rc log' \<longleftrightarrow>
     (\<exists>a. action_entry a = x \<and>
        (if answer log a = EPKG_OK then carried_out answer xs (log @ [a]) rc log' else rc = answer log a \<and> log' = log @ [a]))"

lemma execute_jobs_logged:
  "execute_jobs (logging answer lock path cached files) fl type pats reqs js EPKG_OK u log = Some (rc, u', log') \<Longrightarrow>
    carried_out answer (planned fl u js) log rc log'"
proof (induction js arbitrary: u log)
  case Nil
  then show ?case by (auto simp: planned_def)
next
  case (Cons s js)
  let ?sy = "logging answer lock path cached files" and ?p = "item_pkg u (sl_item s)"
  let ?guarded = "sl_type s = PKG_SOLVED_DELETE \<and> \<not> jf_force fl"
  note run = Cons.prems
  consider (refused) "refused fl u s" | (self) "?guarded" "\<not> pkg_vital ?p" "is_self ?p"
    | (delete) "removes s" "\<not> (?guarded \<and> pkg_vital ?p)" "\<not> (?guarded \<and> is_self ?p)"
    | (install) "sl_type s \<noteq> PKG_SOLVED_FETCH" "\<not> removes s" by (auto simp: removes_def refused_def)
  then show ?case
  proof cases
    case refused
    then have "planned fl u (s # js) = None # planned fl u js" by (auto simp: planned_def passed_over_def refused_def)
    then show ?thesis using run refused by (auto simp: refused_def)
  next
    case self
    then have "execute_jobs ?sy fl type pats reqs js EPKG_OK u log = Some (rc, u', log')"
      using run by (auto split: list.splits if_splits)
    then show ?thesis using Cons.IH self by (simp add: planned_def passed_over_def)
  next
    case delete
    then have e: "planned fl u (s # js) = Some (job_entry u s) # planned fl u js" "action_entry (Deleted ?p) = job_entry u s"
      by (auto simp: planned_def passed_over_def refused_def job_entry_def removes_def)
    have "if answer log (Deleted ?p) = EPKG_OK
        then execute_jobs ?sy fl type pats reqs js EPKG_OK u (log @ [Deleted ?p]) = Some (rc, u', log')
        else rc = answer log (Deleted ?p) \<and> log' = log @ [Deleted ?p]"
      using run delete by (auto simp: logging_def Let_def removes_def split: if_splits)
    then show ?thesis unfolding e(1) carried_out.simps using Cons.IH e(2) by (metis (full_types))
  next
    case install
    then have nr: "sl_type s \<notin> {PKG_SOLVED_DELETE, PKG_SOLVED_UPGRADE_REMOVE}" by (simp add: removes_def)
    then have e: "planned fl u (s # js) = Some (job_entry u s) # planned fl u js"
      using install(1) by (auto simp: planned_def passed_over_def refused_def)
    obtain rc1 u1 log1 where h: "pkg_jobs_handle_install ?sy fl reqs s u log = (rc1, u1, log1)" by (metis prod_cases3)
    from handle_install_logged [OF h install(2)] obtain a where
      a: "log1 = log @ [a]" "rc1 = answer log a" "action_entry a = job_entry u s" by blast
    have "if rc1 = EPKG_OK then execute_jobs ?sy fl type pats reqs js EPKG_OK u1 log1 = Some (rc, u', log') else rc = rc1 \<and> log' = log1"
      using run install nr h by (auto simp: Let_def split: if_splits)
    moreover have "planned fl u1 js = planned fl u js" by (rule planned_recorded [OF handle_install_recorded [OF h]])
    ultimately show ?thesis unfolding e carried_out.simps using Cons.IH [of u1 log1] a by (metis (full_types))
  qed
qed

text \<open>The answers to what was logged, in order.\<close>

definition replies :: "answers \<Rightarrow> action list \<Rightarrow> epkg list" where
  "replies answer log = map (\<lambda>i. answer (take i log) (log ! i)) [0..<length log]"

lemma replies_snoc: "replies answer (log @ [a]) = replies answer log @ [answer log a]"
  by (simp add: replies_def nth_append)

definition all_ok :: "epkg list \<Rightarrow> bool" where
  "all_ok rs \<longleftrightarrow> set rs \<subseteq> {EPKG_OK}"

text \<open>A log that follows a plan, and the answer that it ends with.\<close>

definition follows :: "answers \<Rightarrow> entry option list \<Rightarrow> epkg \<Rightarrow> action list \<Rightarrow> bool" where
  "follows answer plan rc log \<longleftrightarrow>
     map (Some \<circ> action_entry) log = take (length log) plan \<and> all_ok (butlast (replies answer log)) \<and>
     (if all_ok (replies answer log)
      then if length log = length plan then rc = EPKG_OK else plan ! length log = None \<and> rc = EPKG_FATAL
      else rc = last (replies answer log))"

lemma all_ok_butlast: "all_ok rs \<Longrightarrow> all_ok (butlast rs)"
  unfolding all_ok_def by (meson in_set_butlastD subset_iff)

lemma carried_out_follows:
  "carried_out answer xs log rc log' \<Longrightarrow> all_ok (replies answer log) \<Longrightarrow> map (Some \<circ> action_entry) log = ys \<Longrightarrow>
    follows answer (ys @ xs) rc log'"
proof (induction answer xs log rc log' arbitrary: ys rule: carried_out.induct)
  case (1 answer log rc log')
  then have "rc = EPKG_OK" "log' = log" "length ys = length log" by auto
  then show ?case unfolding follows_def using 1(2) [THEN all_ok_butlast] 1(2,3) by (simp add: comp_def)
next
  case (2 answer xs log rc log')
  then have "rc = EPKG_FATAL" "log' = log" "length ys = length log" by auto
  then show ?case unfolding follows_def using 2(2) [THEN all_ok_butlast] 2(2,3) nth_append_length [of ys None xs] by (simp add: comp_def)
next
  case (3 answer x xs log rc log')
  from 3(2) obtain a where a: "action_entry a = x"
    "if answer log a = EPKG_OK then carried_out answer xs (log @ [a]) rc log' else rc = answer log a \<and> log' = log @ [a]" by auto
  show ?case
  proof (cases "answer log a = EPKG_OK")
    case True
    then have "follows answer ((ys @ [Some x]) @ xs) rc log'"
      using 3(1) [of a "ys @ [Some x]"] a 3(3,4) by (simp add: replies_snoc all_ok_def)
    then show ?thesis by simp
  next
    case False
    then have r: "rc = answer log a" "log' = log @ [a]" using a(2) by simp_all
    have ys: "ys = map (Some \<circ> action_entry) log" using 3(4) by (rule sym)
    then have "take (length log') (ys @ Some x # xs) = ys @ [Some x]" using r(2) by simp
    then have "map (Some \<circ> action_entry) log' = take (length log') (ys @ Some x # xs)" using r(2) ys a(1) by simp
    then show ?thesis using False 3(3) unfolding follows_def r replies_snoc by (simp add: all_ok_def)
  qed
qed

text \<open>C9. An execution that has the lock, and that is not told to skip the installation, carries out the ordered jobs one after the other and nothing
  else: what the system was asked to do is, in this order, the beginning of the plan. Every answer
  but the last was a success. If all were, the execution has come to the end of the plan and
  answers success, or the next job is one that it refuses, a vital package to delete without the
  force flag or a mere fetch, and it answers a fatal error; otherwise it stopped with the first
  failure and returns that answer. Only deletions of the package manager itself without the force
  flag are passed over.
\<close>

theorem execute_in_order:
  assumes "pkg_jobs_execute srt n (logging answer EPKG_OK path cached files) fl ienv j [] = Some (rc, j', log)"
    "\<not> jf_skip_install fl"
  shows "follows answer (planned fl (j_universe j') (j_jobs j')) rc log"
proof -
  obtain u js v where r: "execute_jobs (logging answer EPKG_OK path cached files) fl (je_type (ie_env ienv)) (ie_patterns ienv)
      (js_add (j_state j)) js EPKG_OK u [] = Some (rc, v, log)" "j_jobs j' = js" "j_universe j' = v"
    using assms
    by (auto simp: pkg_jobs_execute_def logging_def set_universe_def with_universe_def split: if_splits option.splits prod.splits)
  from logged.execute_jobs [where may = "\<lambda>_. True", OF r(1)] have "recorded (item_pkg u i) (item_pkg v i)" for i by simp
  then have "planned fl v js = planned fl u js" by (rule planned_recorded)
  moreover have "follows answer ([] @ planned fl u js) rc log"
    by (rule carried_out_follows [OF execute_jobs_logged [OF r(1)]]) (simp_all add: replies_def all_ok_def)
  ultimately show ?thesis unfolding r(2,3) by simp
qed

text \<open>Deleting the two packages of a system that fails on one of them, or not.\<close>

definition two_installed :: universe where
  "two_installed = \<lparr>u_items = map (\<lambda>p. \<lparr>ui_pkg = p, ui_priority = 0, ui_processed = True\<rparr>)
      [demo_pkg ''a'' ''1'' PKG_INSTALLED ''x'', demo_pkg ''b'' ''1'' PKG_INSTALLED ''y''],
     u_chains = [(''a'', [0]), (''b'', [1])], u_seen = [], u_provides = [], u_replaces = [], u_nitems = 2\<rparr>"

definition removal_job :: job where
  "removal_job = fresh_job\<lparr>j_state := \<lparr>js_universe = two_installed, js_add = []\<rparr>,
     j_jobs := [solved_job PKG_SOLVED_DELETE 0 None, solved_job PKG_SOLVED_DELETE 1 None]\<rparr>"

definition no_job_flags :: job_flags where
  "no_job_flags = \<lparr>jf_force = False, jf_noscript = False, jf_force_missing = False, jf_automatic = False,
     jf_skip_install = False, jf_dry_run = False\<rparr>"

definition fails_on :: "string \<Rightarrow> answers" where
  "fails_on uid log a = (if fst (snd (action_entry a)) = uid then EPKG_FATAL else EPKG_OK)"

abbreviation sample_system :: "string \<Rightarrow> action list system" where
  "sample_system uid \<equiv> logging (fails_on uid) EPKG_OK (\<lambda>_. []) pkg_name (\<lambda>_. None)"

lemma removal_run:
  "map_option (\<lambda>(rc, j, log). (rc, log, map sl_type (j_jobs j)))
    (pkg_jobs_execute insertion_sort 3 (sample_system ''b'') no_job_flags zsh_job removal_job []) =
    Some (EPKG_FATAL, [Deleted (item_pkg two_installed 0), Deleted (item_pkg two_installed 1)], [PKG_SOLVED_DELETE, PKG_SOLVED_DELETE])"
  by code_simp

theorem execute_spares_vital_witness:
  "\<not> pkg_vital (item_pkg two_installed 0) \<and> \<not> is_self (item_pkg two_installed 0)"
proof -
  obtain j' log where r: "pkg_jobs_execute insertion_sort 3 (sample_system ''b'') no_job_flags zsh_job removal_job [] =
      Some (EPKG_FATAL, j', log)" "log = [Deleted (item_pkg two_installed 0), Deleted (item_pkg two_installed 1)]"
    "map sl_type (j_jobs j') = [PKG_SOLVED_DELETE, PKG_SOLVED_DELETE]" using removal_run by auto
  have "\<forall>s \<in> set (j_jobs j'). sl_type s \<in> set [PKG_SOLVED_DELETE, PKG_SOLVED_DELETE]" using r(3) by (metis image_eqI list.set_map)
  moreover have "\<not> jf_force no_job_flags" "Deleted (item_pkg two_installed 0) \<in> set log" using r(2) by (simp_all add: no_job_flags_def)
  ultimately show ?thesis using execute_spares_vital [OF r(1)] by fastforce
qed

theorem execute_in_order_witness:
  "\<exists>rc j' log. pkg_jobs_execute insertion_sort 3 (sample_system ''b'') no_job_flags zsh_job removal_job [] = Some (rc, j', log) \<and>
    follows (fails_on ''b'') (planned no_job_flags (j_universe j') (j_jobs j')) rc log \<and> rc = EPKG_FATAL \<and>
    replies (fails_on ''b'') log = [EPKG_OK, EPKG_FATAL]"
proof -
  obtain j' log where r: "pkg_jobs_execute insertion_sort 3 (sample_system ''b'') no_job_flags zsh_job removal_job [] =
    Some (EPKG_FATAL, j', log)" "log = [Deleted (item_pkg two_installed 0), Deleted (item_pkg two_installed 1)]" using removal_run by auto
  have "\<not> jf_skip_install no_job_flags" by (simp add: no_job_flags_def)
  moreover have "replies (fails_on ''b'') log = [EPKG_OK, EPKG_FATAL]" unfolding r(2) by code_simp
  ultimately show ?thesis using execute_in_order [OF r(1)] r(1) by blast
qed

end
