(* ===== verification/Diff.thy ===== *)
theory Diff
  imports C_String "HOL-Library.Word"
begin

unbundle bit_operations_syntax

text \<open>
  The differences of two texts (\<^verbatim>\<open>libpkg/diff.c\<close>), as triples of lines to copy, to delete and to insert.
  The lines are looked up in a hash table whose chains run through the array of lines; a common segment in
  the middle is chosen by a score, and what is in front of it and behind it is compared in turn. Numbers
  of lines do not overflow.
\<close>

section \<open>Lines\<close>

definition LENGTH_MASK :: int where
  "LENGTH_MASK = 2 ^ 13 - 1"

definition newline :: char where
  "newline = CHR 10"

record dline =
  dl_z :: string
  dl_h :: "32 word"
  dl_n :: nat
  dl_iNext :: nat
  dl_iHash :: nat

text \<open>The number of lines, unless one is too long.\<close>

fun count_lines :: "string \<Rightarrow> nat \<Rightarrow> nat \<Rightarrow> nat option" where
  "count_lines [] j nLine = (if int j > LENGTH_MASK then None else Some nLine)"
| "count_lines (c # s) j nLine =
     (if c = NUL then None
      else if c = newline \<and> s \<noteq> [] then (if int j > LENGTH_MASK then None else count_lines s 1 (nLine + 1))
      else count_lines s (j + 1) nLine)"

text \<open>A plain \<^verbatim>\<open>char\<close> is signed.\<close>

definition signed_char :: "char \<Rightarrow> 32 word" where
  "signed_char c = (if code c < 128 then of_nat (code c) else of_int (int (code c) - 256))"

definition line_hash :: "string \<Rightarrow> 32 word" where
  "line_hash z = (let h = foldl (\<lambda>h c. (h XOR (push_bit 2 h)) XOR signed_char c) 0 z in push_bit 13 h OR of_nat (length z))"

definition no_dline :: dline where
  "no_dline = \<lparr>dl_z = [], dl_h = 0, dl_n = 0, dl_iNext = 0, dl_iHash = 0\<rparr>"

text \<open>Each line goes to the head of the chain of its bucket.\<close>

fun fill_lines :: "dline list \<Rightarrow> nat \<Rightarrow> nat \<Rightarrow> string \<Rightarrow> dline list" where
  "fill_lines a i 0 z = a"
| "fill_lines a i (Suc n) z =
     (let line = takeWhile (\<lambda>c. c \<noteq> newline) z;
          h = line_hash line;
          a1 = a[i := (a ! i)\<lparr>dl_z := line, dl_n := length line, dl_h := h\<rparr>];
          h2 = unat (h mod of_nat (length a));
          a2 = a1[i := (a1 ! i)\<lparr>dl_iNext := dl_iHash (a1 ! h2)\<rparr>];
          a3 = a2[h2 := (a2 ! h2)\<lparr>dl_iHash := i + 1\<rparr>]
      in fill_lines a3 (i + 1) n (tl (dropWhile (\<lambda>c. c \<noteq> newline) z)))"

definition break_into_lines :: "string \<Rightarrow> dline list option" where
  "break_into_lines z =
     (case count_lines z 0 1 of
        None \<Rightarrow> None
      | Some nLine \<Rightarrow> if z = [] then Some [] else Some (fill_lines (replicate nLine no_dline) 0 nLine z))"

definition same_dline :: "dline \<Rightarrow> dline \<Rightarrow> bool" where
  "same_dline pA pB \<longleftrightarrow> dl_h pA = dl_h pB \<and>
     (let n = unat (dl_h pA AND of_int LENGTH_MASK) in take n (dl_z pA) = take n (dl_z pB))"

section \<open>Common segments\<close>

text \<open>The lines of both files.\<close>

record dcontext =
  aFrom :: "dline list"
  aTo :: "dline list"

definition same :: "dcontext \<Rightarrow> nat \<Rightarrow> nat \<Rightarrow> bool" where
  "same p i j = same_dline (aFrom p ! i) (aTo p ! j)"

text \<open>How far \<open>P\<close> holds, starting with \<open>k\<close>, for at most \<open>n\<close> turns.\<close>

fun run :: "(nat \<Rightarrow> bool) \<Rightarrow> nat \<Rightarrow> nat \<Rightarrow> nat" where
  "run P k 0 = k"
| "run P k (Suc n) = (if P k then run P (k + 1) n else k)"

text \<open>A segment: start and end in the first file, and in the second.\<close>

type_synonym segment = "nat \<times> nat \<times> nat \<times> nat"

function optimal_j :: "dcontext \<Rightarrow> nat \<Rightarrow> nat \<Rightarrow> nat \<Rightarrow> nat \<Rightarrow> nat \<times> nat \<times> nat \<Rightarrow> nat \<times> nat \<times> nat" where
  "optimal_j p iE1 iE2 i j (mx, sx, sy) =
     (if j < iE2 - mx then
        optimal_j p iE1 iE2 i (j + 1)
          (if \<not> same p i j then (mx, sx, sy)
           else if mx \<noteq> 0 \<and> \<not> same p (i + mx) (j + mx) then (mx, sx, sy)
           else
             (let k = run (\<lambda>k. same p (i + k) (j + k)) 1 (min (iE1 - i) (iE2 - j) - 1)
              in if k > mx then (k, i, j) else (mx, sx, sy)))
      else (mx, sx, sy))"
  by pat_completeness auto
termination by (relation "measure (\<lambda>(p, iE1, iE2, i, j, st). iE2 - j)") auto

function optimal_i :: "dcontext \<Rightarrow> nat \<Rightarrow> nat \<Rightarrow> nat \<Rightarrow> nat \<Rightarrow> nat \<times> nat \<times> nat \<Rightarrow> nat \<times> nat \<times> nat" where
  "optimal_i p iE1 iS2 iE2 i st =
     (if i < iE1 - fst st then optimal_i p iE1 iS2 iE2 (i + 1) (optimal_j p iE1 iE2 i iS2 st) else st)"
  by pat_completeness auto
termination by (relation "measure (\<lambda>(p, iE1, iS2, iE2, i, st). iE1 - i)") auto

declare optimal_j.simps [simp del] optimal_i.simps [simp del]

definition optimalLCS :: "dcontext \<Rightarrow> nat \<Rightarrow> nat \<Rightarrow> nat \<Rightarrow> nat \<Rightarrow> segment" where
  "optimalLCS p iS1 iE1 iS2 iE2 =
     (case optimal_i p iE1 iS2 iE2 iS1 (0, iS1, iS2) of (mx, sx, sy) \<Rightarrow> (sx, sx + mx, sy, sy + mx))"

text \<open>The chain of a bucket is followed for a dozen lines at most; zero is the end.\<close>

function chain_line :: "dcontext \<Rightarrow> nat \<Rightarrow> nat \<Rightarrow> nat \<Rightarrow> nat \<Rightarrow> nat \<Rightarrow> nat" where
  "chain_line p i iS2 iE2 limit j =
     (if j > 0 \<and> (j - 1 < iS2 \<or> j \<ge> iE2 \<or> \<not> same p i (j - 1)) then
        (if limit > 10 then 0 else chain_line p i iS2 iE2 (limit + 1) (dl_iNext (aTo p ! (j - 1))))
      else j)"
  by pat_completeness auto
termination by (relation "measure (\<lambda>(p, i, iS2, iE2, limit, j). 12 - limit)") auto

declare chain_line.simps [simp del]

record lcs_state =
  ls_score :: int
  ls_best :: segment
  ls_prev :: segment

text \<open>The longest common segment around the lines \<open>i\<close> and \<open>j\<close>.\<close>

definition extend_match :: "dcontext \<Rightarrow> nat \<Rightarrow> nat \<Rightarrow> nat \<Rightarrow> nat \<Rightarrow> nat \<Rightarrow> nat \<Rightarrow> segment" where
  "extend_match p iS1 iE1 iS2 iE2 i j =
     (let b = run (\<lambda>k. same p (i - 1 - k) (j - 1 - k)) 0 (min (i - iS1) (j - iS2));
          f = run (\<lambda>k. same p (i + 1 + k) (j + 1 + k)) 0 (min (iE1 - (i + 1)) (iE2 - (j + 1)))
      in (i - b, i + 1 + f, j - b, j + 1 + f))"

definition match_score :: "nat \<Rightarrow> nat \<Rightarrow> nat \<Rightarrow> nat \<Rightarrow> segment \<Rightarrow> int" where
  "match_score iS1 iE1 iS2 iE2 seg =
     (case seg of
        (sx, ex, sy, ey) \<Rightarrow>
          (let span = int ((iE1 - iS1) + (iE2 - iS2));
               skew = \<bar>(int sx - int iS1) - (int sy - int iS2)\<bar>;
               dist = \<bar>int ((sx + ex) div 2) - int ((iE1 + iS1) div 2)\<bar>
           in (int ex - int sx) * span - (skew + dist)))"

text \<open>A match of line \<open>i\<close> is passed over when it lies in one of the segments that are kept.\<close>

definition covered :: "nat \<Rightarrow> nat \<Rightarrow> segment \<Rightarrow> bool" where
  "covered i j seg \<longleftrightarrow> (case seg of (sx, ex, sy, ey) \<Rightarrow> i < ex \<and> j \<ge> sy \<and> j < ey)"

definition lcs_step :: "dcontext \<Rightarrow> nat \<Rightarrow> nat \<Rightarrow> nat \<Rightarrow> nat \<Rightarrow> nat \<Rightarrow> lcs_state \<Rightarrow> lcs_state" where
  "lcs_step p iS1 iE1 iS2 iE2 i st =
     (let bucket = unat (dl_h (aFrom p ! i) mod of_nat (length (aTo p)));
          j = chain_line p i iS2 iE2 0 (dl_iHash (aTo p ! bucket))
      in if j = 0 then st
         else if covered i j (ls_best st) then st
         else if covered i j (ls_prev st) then st
         else
           (let seg = extend_match p iS1 iE1 iS2 iE2 i (j - 1); score = match_score iS1 iE1 iS2 iE2 seg
            in if score > ls_score st then st\<lparr>ls_score := score, ls_best := seg\<rparr>
               else if fst (snd seg) > fst (snd (ls_prev st)) then st\<lparr>ls_prev := seg\<rparr>
               else st))"

fun lcs_loop :: "dcontext \<Rightarrow> nat \<Rightarrow> nat \<Rightarrow> nat \<Rightarrow> nat \<Rightarrow> nat \<Rightarrow> nat \<Rightarrow> lcs_state \<Rightarrow> lcs_state" where
  "lcs_loop p iS1 iE1 iS2 iE2 i 0 st = st"
| "lcs_loop p iS1 iE1 iS2 iE2 i (Suc n) st = lcs_loop p iS1 iE1 iS2 iE2 (i + 1) n (lcs_step p iS1 iE1 iS2 iE2 i st)"

definition longestCommonSequence :: "dcontext \<Rightarrow> nat \<Rightarrow> nat \<Rightarrow> nat \<Rightarrow> nat \<Rightarrow> segment" where
  "longestCommonSequence p iS1 iE1 iS2 iE2 =
     (let st = lcs_loop p iS1 iE1 iS2 iE2 iS1 (iE1 - iS1)
            \<lparr>ls_score = -10000, ls_best = (iS1, iS1, iS2, iS2), ls_prev = (iS1, iS1, iS2, iS2)\<rparr>;
          b = ls_best st
      in if fst b = fst (snd b) \<and> (iE1 - iS1) * (iE2 - iS2) < 400 then optimalLCS p iS1 iE1 iS2 iE2 else b)"

section \<open>Edits\<close>

text \<open>Lines to copy, to delete and to insert.\<close>

type_synonym edit = "nat \<times> nat \<times> nat"

definition appendTriple :: "edit list \<Rightarrow> nat \<Rightarrow> nat \<Rightarrow> nat \<Rightarrow> edit list" where
  "appendTriple es nCopy nDel nIns =
     (if es = [] then [(nCopy, nDel, nIns)]
      else
        (case last es of
           (c, d, i) \<Rightarrow>
             if i = 0 \<and> d = 0 then butlast es @ [(c + nCopy, d + nDel, i + nIns)]
             else if i = 0 \<and> nCopy = 0 then butlast es @ [(c, d + nDel, i + nIns)]
             else if nCopy = 0 \<and> nDel = 0 then butlast es @ [(c, d, i + nIns)]
             else es @ [(nCopy, nDel, nIns)]))"

section \<open>The segment found lies in both ranges and is common\<close>

text \<open>
  What \<^verbatim>\<open>longestCommonSequence\<close> may return: a segment of each range, of one length, whose lines are the
  same one by one.
\<close>

definition common :: "dcontext \<Rightarrow> nat \<Rightarrow> nat \<Rightarrow> nat \<Rightarrow> nat \<Rightarrow> segment \<Rightarrow> bool" where
  "common p iS1 iE1 iS2 iE2 seg \<longleftrightarrow>
     (case seg of
        (sx, ex, sy, ey) \<Rightarrow>
          iS1 \<le> sx \<and> sx \<le> ex \<and> ex \<le> iE1 \<and> iS2 \<le> sy \<and> sy \<le> ey \<and> ey \<le> iE2 \<and> ex - sx = ey - sy \<and>
          (\<forall>k < ex - sx. same p (sx + k) (sy + k)))"

lemma run_range: "k \<le> run P k n \<and> run P k n \<le> k + n"
  by (induction P k n rule: run.induct) auto

lemma run_holds: "k \<le> m \<Longrightarrow> m < run P k n \<Longrightarrow> P m"
  by (induction P k n rule: run.induct) (auto simp: le_Suc_eq split: if_splits, metis Suc_leI le_neq_implies_less)

lemma common_empty: "iS1 \<le> iE1 \<Longrightarrow> iS2 \<le> iE2 \<Longrightarrow> common p iS1 iE1 iS2 iE2 (iS1, iS1, iS2, iS2)"
  by (simp add: common_def)

lemma optimal_j_common:
  "i < iE1 \<Longrightarrow> iS1 \<le> i \<Longrightarrow> iS2 \<le> j \<Longrightarrow> common p iS1 iE1 iS2 iE2 (sx, sx + mx, sy, sy + mx) \<Longrightarrow>
   (case optimal_j p iE1 iE2 i j (mx, sx, sy) of (mx', sx', sy') \<Rightarrow> common p iS1 iE1 iS2 iE2 (sx', sx' + mx', sy', sy' + mx'))"
proof (induction p iE1 iE2 i j "(mx, sx, sy)" arbitrary: mx sx sy rule: optimal_j.induct)
  case (1 p iE1 iE2 i j mx sx sy)
  define k where "k = run (\<lambda>k. same p (i + k) (j + k)) 1 (min (iE1 - i) (iE2 - j) - 1)"
  define st where "st = (if \<not> same p i j then (mx, sx, sy)
      else if mx \<noteq> 0 \<and> \<not> same p (i + mx) (j + mx) then (mx, sx, sy)
      else if k > mx then (k, i, j) else (mx, sx, sy))"
  obtain m1 x1 y1 where st: "st = (m1, x1, y1)" by (cases st) auto
  show ?case
  proof (cases "j < iE2 - mx")
    case True
    have k: "1 \<le> k" "k \<le> 1 + (min (iE1 - i) (iE2 - j) - 1)" unfolding k_def using run_range by blast+
    have holds: "same p (i + q) (j + q)" if "same p i j" "q < k" for q
      using run_holds [of 1 q "\<lambda>k. same p (i + k) (j + k)" "min (iE1 - i) (iE2 - j) - 1"] that
      by (cases "q = 0") (auto simp: k_def)
    have good: "common p iS1 iE1 iS2 iE2 (x1, x1 + m1, y1, y1 + m1)"
    proof (cases "st = (mx, sx, sy)")
      case True
      then show ?thesis using st "1.prems"(4) by simp
    next
      case False
      then have "st = (k, i, j)" "same p i j" by (auto simp: st_def split: if_splits)
      then show ?thesis using st k holds "1.prems" True by (auto simp: common_def)
    qed
    have "case optimal_j p iE1 iE2 i (j + 1) (m1, x1, y1) of
        (mx', sx', sy') \<Rightarrow> common p iS1 iE1 iS2 iE2 (sx', sx' + mx', sy', sy' + mx')"
      by (rule "1.hyps" [OF True, of m1 x1 y1, folded k_def, unfolded Let_def, folded k_def, folded st_def])
        (use "1.prems" st good in auto)
    moreover have "optimal_j p iE1 iE2 i j (mx, sx, sy) = optimal_j p iE1 iE2 i (j + 1) st"
      by (subst optimal_j.simps) (simp add: True st_def k_def Let_def)
    ultimately show ?thesis by (simp add: st)
  next
    case False
    then show ?thesis using "1.prems" by (simp add: optimal_j.simps)
  qed
qed

lemma optimal_i_common:
  "iS1 \<le> i \<Longrightarrow> common p iS1 iE1 iS2 iE2 (case st of (mx, sx, sy) \<Rightarrow> (sx, sx + mx, sy, sy + mx)) \<Longrightarrow>
   common p iS1 iE1 iS2 iE2 (case optimal_i p iE1 iS2 iE2 i st of (mx, sx, sy) \<Rightarrow> (sx, sx + mx, sy, sy + mx))"
proof (induction p iE1 iS2 iE2 i st rule: optimal_i.induct)
  case (1 p iE1 iS2 iE2 i st)
  obtain mx sx sy where st: "st = (mx, sx, sy)" by (cases st) auto
  obtain mx' sx' sy' where st': "optimal_j p iE1 iE2 i iS2 st = (mx', sx', sy')" by (cases "optimal_j p iE1 iE2 i iS2 st") auto
  show ?case
  proof (cases "i < iE1 - fst st")
    case True
    have "common p iS1 iE1 iS2 iE2 (sx', sx' + mx', sy', sy' + mx')"
      using optimal_j_common [of i iE1 iS1 iS2 iS2 p iE2 sx mx sy] "1.prems" st st' True by auto
    then have "common p iS1 iE1 iS2 iE2
        (case optimal_i p iE1 iS2 iE2 (i + 1) (optimal_j p iE1 iE2 i iS2 st) of (mx, sx, sy) \<Rightarrow> (sx, sx + mx, sy, sy + mx))"
      using "1.IH" [OF True] "1.prems" st' by simp
    then show ?thesis using True by (subst optimal_i.simps) (simp only: if_True)
  next
    case False
    then show ?thesis using "1.prems" by (subst optimal_i.simps) (simp only: if_False)
  qed
qed

lemma optimalLCS_common:
  assumes "iS1 \<le> iE1" "iS2 \<le> iE2"
  shows "common p iS1 iE1 iS2 iE2 (optimalLCS p iS1 iE1 iS2 iE2)"
  unfolding optimalLCS_def by (rule optimal_i_common) (use assms in \<open>simp_all add: common_empty\<close>)

lemma chain_line_found:
  "chain_line p i iS2 iE2 limit j = 0 \<or>
   (iS2 < chain_line p i iS2 iE2 limit j \<and> chain_line p i iS2 iE2 limit j < iE2 \<and> same p i (chain_line p i iS2 iE2 limit j - 1))"
proof (induction p i iS2 iE2 limit j rule: chain_line.induct)
  case (1 p i iS2 iE2 limit j)
  then show ?case by (subst (1 2 3 4) chain_line.simps) auto
qed

lemma extend_match_common:
  assumes "iS1 \<le> i" "i < iE1" "iS2 \<le> j" "j < iE2" "same p i j"
  shows "common p iS1 iE1 iS2 iE2 (extend_match p iS1 iE1 iS2 iE2 i j)"
proof -
  define b where "b = run (\<lambda>k. same p (i - 1 - k) (j - 1 - k)) 0 (min (i - iS1) (j - iS2))"
  define f where "f = run (\<lambda>k. same p (i + 1 + k) (j + 1 + k)) 0 (min (iE1 - (i + 1)) (iE2 - (j + 1)))"
  have b: "b \<le> i - iS1" "b \<le> j - iS2" using run_range [of 0 "\<lambda>k. same p (i - 1 - k) (j - 1 - k)" "min (i - iS1) (j - iS2)"]
    by (auto simp: b_def)
  have f: "f \<le> iE1 - (i + 1)" "f \<le> iE2 - (j + 1)"
    using run_range [of 0 "\<lambda>k. same p (i + 1 + k) (j + 1 + k)" "min (iE1 - (i + 1)) (iE2 - (j + 1))"] by (auto simp: f_def)
  have "same p (i - b + k) (j - b + k)" if "k < b + 1 + f" for k
  proof -
    consider "k < b" | "k = b" | "k > b" by linarith
    then show ?thesis
    proof cases
      case 1
      then have "same p (i - 1 - (b - 1 - k)) (j - 1 - (b - 1 - k))"
        using run_holds [of 0 "b - 1 - k" "\<lambda>k. same p (i - 1 - k) (j - 1 - k)" "min (i - iS1) (j - iS2)"] by (simp add: b_def)
      moreover have "i - 1 - (b - 1 - k) = i - b + k" "j - 1 - (b - 1 - k) = j - b + k" using 1 b by auto
      ultimately show ?thesis by simp
    next
      case 2
      then show ?thesis using assms b by simp
    next
      case 3
      then have "same p (i + 1 + (k - b - 1)) (j + 1 + (k - b - 1))"
        using run_holds [of 0 "k - b - 1" "\<lambda>k. same p (i + 1 + k) (j + 1 + k)" "min (iE1 - (i + 1)) (iE2 - (j + 1))"] that
        by (simp add: f_def)
      moreover have "i + 1 + (k - b - 1) = i - b + k" "j + 1 + (k - b - 1) = j - b + k" using 3 b assms by auto
      ultimately show ?thesis by simp
    qed
  qed
  moreover have "i + 1 + f - (i - b) = b + 1 + f" "j + 1 + f - (j - b) = b + 1 + f" using b assms by auto
  ultimately show ?thesis unfolding extend_match_def b_def [symmetric] f_def [symmetric] using b f assms
    by (auto simp: common_def Let_def)
qed

definition lcs_good :: "dcontext \<Rightarrow> nat \<Rightarrow> nat \<Rightarrow> nat \<Rightarrow> nat \<Rightarrow> lcs_state \<Rightarrow> bool" where
  "lcs_good p iS1 iE1 iS2 iE2 st \<longleftrightarrow> common p iS1 iE1 iS2 iE2 (ls_best st)"

lemma lcs_step_good:
  assumes "iS1 \<le> i" "i < iE1" "lcs_good p iS1 iE1 iS2 iE2 st"
  shows "lcs_good p iS1 iE1 iS2 iE2 (lcs_step p iS1 iE1 iS2 iE2 i st)"
proof -
  define j where "j = chain_line p i iS2 iE2 0 (dl_iHash (aTo p ! (unat (dl_h (aFrom p ! i) mod of_nat (length (aTo p))))))"
  have "common p iS1 iE1 iS2 iE2 (extend_match p iS1 iE1 iS2 iE2 i (j - 1))" if "j \<noteq> 0"
    using chain_line_found [of p i iS2 iE2 0 "dl_iHash (aTo p ! (unat (dl_h (aFrom p ! i) mod of_nat (length (aTo p)))))"] that
      assms extend_match_common [of iS1 i iE1 iS2 "j - 1" iE2 p]
    unfolding j_def [symmetric] by auto
  then show ?thesis using assms(3) unfolding lcs_step_def j_def [symmetric] Let_def
    by (auto simp: lcs_good_def)
qed

lemma lcs_loop_good:
  "iS1 \<le> i \<Longrightarrow> i + n \<le> iE1 \<Longrightarrow> lcs_good p iS1 iE1 iS2 iE2 st \<Longrightarrow>
   lcs_good p iS1 iE1 iS2 iE2 (lcs_loop p iS1 iE1 iS2 iE2 i n st)"
  by (induction p iS1 iE1 iS2 iE2 i n st rule: lcs_loop.induct) (simp_all add: lcs_step_good)

lemma longestCommonSequence_common:
  assumes "iS1 \<le> iE1" "iS2 \<le> iE2"
  shows "common p iS1 iE1 iS2 iE2 (longestCommonSequence p iS1 iE1 iS2 iE2)"
  unfolding longestCommonSequence_def Let_def
  using assms optimalLCS_common [OF assms, of p]
    lcs_loop_good [of iS1 iS1 "iE1 - iS1" iE1 p iS2 iE2
      "\<lparr>ls_score = -10000, ls_best = (iS1, iS1, iS2, iS2), ls_prev = (iS1, iS1, iS2, iS2)\<rparr>"]
  by (simp add: lcs_good_def common_empty)

section \<open>The steps\<close>

function diff_step :: "dcontext \<Rightarrow> nat \<Rightarrow> nat \<Rightarrow> nat \<Rightarrow> nat \<Rightarrow> edit list \<Rightarrow> edit list" where
  "diff_step p iS1 iE1 iS2 iE2 es =
     (if iE1 \<le> iS1 then (if iE2 > iS2 then appendTriple es 0 0 (iE2 - iS2) else es)
      else if iE2 \<le> iS2 then appendTriple es 0 (iE1 - iS1) 0
      else
        (case longestCommonSequence p iS1 iE1 iS2 iE2 of
           (iSX, iEX, iSY, iEY) \<Rightarrow>
             if iEX > iSX then
               diff_step p iEX iE1 iEY iE2 (appendTriple (diff_step p iS1 iSX iS2 iSY es) (iEX - iSX) 0 0)
             else appendTriple es 0 (iE1 - iS1) (iE2 - iS2)))"
  by pat_completeness auto
termination
proof (relation "measure (\<lambda>(p, iS1, iE1, iS2, iE2, es). (iE1 - iS1) + (iE2 - iS2))", goal_cases)
  case 1
  show ?case by simp
next
  case (2 p iS1 iE1 iS2 iE2)
  then show ?case using longestCommonSequence_common [of iS1 iE1 iS2 iE2 p] by (auto simp: common_def)
next
  case (3 p iS1 iE1 iS2 iE2)
  then show ?case using longestCommonSequence_common [of iS1 iE1 iS2 iE2 p] by (auto simp: common_def)
qed

declare diff_step.simps [simp del]

text \<open>The common footer and the common header.\<close>

fun common_footer :: "dcontext \<Rightarrow> nat \<Rightarrow> nat \<Rightarrow> nat \<times> nat" where
  "common_footer p (Suc i) (Suc j) = (if same p i j then common_footer p i j else (Suc i, Suc j))"
| "common_footer p i j = (i, j)"

definition diff_all :: "dcontext \<Rightarrow> edit list" where
  "diff_all p =
     (case common_footer p (length (aFrom p)) (length (aTo p)) of
        (iE1, iE2) \<Rightarrow>
          (let iS = run (\<lambda>k. same p k k) 0 (min iE1 iE2);
               es = (if iS > 0 then appendTriple [] iS 0 0 else []);
               es = diff_step p iS iE1 iS iE2 es;
               es = (if iE1 < length (aFrom p) then appendTriple es (length (aFrom p) - iE1) 0 0 else es)
           in es @ [(0, 0, 0)]))"

text \<open>Nothing is returned for a text with a line that is too long.\<close>

definition text_diff :: "string \<Rightarrow> string \<Rightarrow> edit list option" where
  "text_diff pA pB =
     (case (break_into_lines pA, break_into_lines pB) of
        (Some a, Some b) \<Rightarrow> Some (diff_all \<lparr>aFrom = a, aTo = b\<rparr>)
      | _ \<Rightarrow> None)"

section \<open>What a list of edits does\<close>

text \<open>
  The specification: each triple copies lines that both texts have, and puts lines of the second in the
  place of lines of the first.
\<close>

inductive transforms :: "edit list \<Rightarrow> 'a list \<Rightarrow> 'a list \<Rightarrow> bool" where
  transforms_Nil: "transforms [] [] []"
| transforms_Cons:
    "length C = c \<Longrightarrow> length D = d \<Longrightarrow> length I = n \<Longrightarrow> transforms es A B \<Longrightarrow>
     transforms ((c, d, n) # es) (C @ D @ A) (C @ I @ B)"

inductive_simps transforms_Nil_iff [simp]: "transforms [] A B"

inductive_cases transforms_ConsE: "transforms ((c, d, n) # es) A B"

lemma transforms_append:
  "transforms es A B \<Longrightarrow> transforms es' A' B' \<Longrightarrow> transforms (es @ es') (A @ A') (B @ B')"
proof (induction es A B rule: transforms.induct)
  case transforms_Nil
  then show ?case by simp
next
  case (transforms_Cons C c D d I n es A B)
  then show ?case using transforms.transforms_Cons [of C c D d I n "es @ es'" "A @ A'" "B @ B'"] by simp
qed

lemma transforms_appendE:
  assumes "transforms (es @ es') A B"
  obtains A1 A2 B1 B2 where "A = A1 @ A2" "B = B1 @ B2" "transforms es A1 B1" "transforms es' A2 B2"
proof -
  have "\<exists>A1 A2 B1 B2. A = A1 @ A2 \<and> B = B1 @ B2 \<and> transforms es A1 B1 \<and> transforms es' A2 B2"
    using assms
  proof (induction es arbitrary: A B)
    case Nil
    then show ?case by (metis append_Nil transforms_Nil)
  next
    case (Cons e es)
    obtain c d n where e: "e = (c, d, n)" by (cases e) auto
    from Cons.prems obtain C D I X Y where
      X: "A = C @ D @ X" "B = C @ I @ Y" "length C = c" "length D = d" "length I = n" "transforms (es @ es') X Y"
      unfolding e by (auto elim: transforms_ConsE)
    from Cons.IH [OF X(6)] obtain A1 A2 B1 B2 where
      Y: "X = A1 @ A2" "Y = B1 @ B2" "transforms es A1 B1" "transforms es' A2 B2" by blast
    have "transforms (e # es) (C @ D @ A1) (C @ I @ B1)" unfolding e by (rule transforms_Cons) (use X Y in auto)
    then show ?case using X Y by (metis append.assoc)
  qed
  then show thesis using that by blast
qed

lemma transforms_single: "length C = c \<Longrightarrow> length D = d \<Longrightarrow> length I = n \<Longrightarrow> transforms [(c, d, n)] (C @ D) (C @ I)"
  using transforms_Cons [of C c D d I n "[]" "[]" "[]"] by simp

lemma transforms_appendTriple:
  assumes "transforms es A B" "length C = c" "length D = d" "length I = n"
  shows "transforms (appendTriple es c d n) (A @ C @ D) (B @ C @ I)"
proof (cases es rule: rev_cases)
  case Nil
  then show ?thesis using assms by (simp add: appendTriple_def transforms_single)
next
  case (snoc es0 e)
  obtain c0 d0 n0 where e: "e = (c0, d0, n0)" by (cases e) auto
  from assms(1) snoc e obtain A1 A2 B1 B2 where
    s: "A = A1 @ A2" "B = B1 @ B2" "transforms es0 A1 B1" "transforms [(c0, d0, n0)] A2 B2"
    by (auto elim: transforms_appendE)
  from s(4) obtain C0 D0 I0 where l: "A2 = C0 @ D0" "B2 = C0 @ I0" "length C0 = c0" "length D0 = d0" "length I0 = n0"
    by (auto elim: transforms_ConsE)
  have one: "transforms (es0 @ [(c1, d1, n1)]) (A1 @ C1 @ D1) (B1 @ C1 @ I1)"
    if "length C1 = c1" "length D1 = d1" "length I1 = n1" for C1 D1 I1 :: "'a list" and c1 d1 n1
    by (rule transforms_append [OF s(3) transforms_single [OF that]])
  consider (a) "n0 = 0" "d0 = 0" | (b) "n0 = 0" "d0 \<noteq> 0" "c = 0" | (c) "\<not> (n0 = 0 \<and> d0 = 0)" "\<not> (n0 = 0 \<and> c = 0)" "c = 0" "d = 0"
    | (d) "\<not> (n0 = 0 \<and> d0 = 0)" "\<not> (n0 = 0 \<and> c = 0)" "\<not> (c = 0 \<and> d = 0)" by blast
  then show ?thesis
  proof cases
    case a
    then show ?thesis using one [of "C0 @ C" "c0 + c" D d I n] snoc e s l assms by (simp add: appendTriple_def)
  next
    case b
    then show ?thesis using one [of C0 c0 "D0 @ D" "d0 + d" I n] snoc e s l assms by (simp add: appendTriple_def)
  next
    case c
    then show ?thesis using one [of C0 c0 D0 d0 "I0 @ I" "n0 + n"] snoc e s l assms by (auto simp: appendTriple_def)
  next
    case d
    then show ?thesis
      using transforms_append [OF assms(1) transforms_single [OF assms(2-4)]] snoc e
      by (auto simp: appendTriple_def)
  qed
qed

lemma appendTriple_nonzero:
  "(0, 0, 0) \<notin> set es \<Longrightarrow> (c, d, n) \<noteq> (0, 0, 0) \<Longrightarrow> (0, 0, 0) \<notin> set (appendTriple es c d n)"
  by (cases es rule: rev_cases) (auto simp: appendTriple_def)

text \<open>
  All triples but the first copy a line: an insertion and a deletion go to the triple of the lines copied in front
  of them, and after them the steps copy lines.
\<close>

definition spaced :: "edit list \<Rightarrow> bool" where
  "spaced es \<longleftrightarrow> (\<forall>(c, d, n) \<in> set (tl es). c > 0)"

definition copied_last :: "edit list \<Rightarrow> bool" where
  "copied_last es \<longleftrightarrow> es = [] \<or> (\<exists>c. last es = (c, 0, 0))"

lemma appendTriple_spaced: "spaced es \<Longrightarrow> c > 0 \<or> copied_last es \<Longrightarrow> spaced (appendTriple es c d n)"
proof (cases es rule: rev_cases)
  case Nil
  then show ?thesis by (simp add: appendTriple_def spaced_def)
next
  case (snoc es0 e)
  moreover assume "spaced es" "c > 0 \<or> copied_last es"
  ultimately show ?thesis
    by (cases es0) (auto simp: appendTriple_def spaced_def copied_last_def split: prod.splits if_splits)
qed

lemma appendTriple_copied_last: "c > 0 \<Longrightarrow> copied_last (appendTriple es c 0 0)"
  by (cases es rule: rev_cases) (auto simp: appendTriple_def copied_last_def split: prod.splits)

section \<open>The steps transform one text into the other\<close>

definition slice :: "'a list \<Rightarrow> nat \<Rightarrow> nat \<Rightarrow> 'a list" where
  "slice xs i j = take (j - i) (drop i xs)"

lemma slice_length: "j \<le> length xs \<Longrightarrow> length (slice xs i j) = j - i"
  by (simp add: slice_def)

lemma slice_empty: "j \<le> i \<Longrightarrow> slice xs i j = []"
  by (simp add: slice_def)

lemma slice_all: "slice xs 0 (length xs) = xs"
  by (simp add: slice_def)

lemma slice_split: "i \<le> j \<Longrightarrow> j \<le> k \<Longrightarrow> slice xs i k = slice xs i j @ slice xs j k"
proof -
  assume a: "i \<le> j" "j \<le> k"
  then have "take (k - i) (drop i xs) = take ((j - i) + (k - j)) (drop i xs)" by simp
  also have "\<dots> = take (j - i) (drop i xs) @ take (k - j) (drop (j - i) (drop i xs))" by (rule take_add)
  finally show ?thesis using a by (simp add: slice_def)
qed

text \<open>The lines that are compared are the lines of the texts.\<close>

definition lines_of :: "dcontext \<Rightarrow> 'a list \<Rightarrow> 'a list \<Rightarrow> bool" where
  "lines_of p A B \<longleftrightarrow> length (aFrom p) = length A \<and> length (aTo p) = length B \<and>
     (\<forall>i < length A. \<forall>j < length B. same p i j \<longleftrightarrow> A ! i = B ! j)"

lemma common_slices:
  assumes "lines_of p A B" "common p iS1 iE1 iS2 iE2 (sx, ex, sy, ey)" "iE1 \<le> length A" "iE2 \<le> length B"
  shows "slice A sx ex = slice B sy ey"
proof (rule nth_equalityI)
  show "length (slice A sx ex) = length (slice B sy ey)" using assms by (simp add: common_def slice_length)
next
  fix k
  assume "k < length (slice A sx ex)"
  then have k: "k < ex - sx" using assms by (simp add: common_def slice_length)
  then have "same p (sx + k) (sy + k)" using assms(2) by (simp add: common_def)
  moreover have "sx + k < length A" "sy + k < length B" using k assms by (auto simp: common_def)
  ultimately have "A ! (sx + k) = B ! (sy + k)" using assms(1) by (simp add: lines_of_def)
  then show "slice A sx ex ! k = slice B sy ey ! k" using k assms by (simp add: slice_def common_def)
qed

text \<open>What holds of the list of triples at every step.\<close>

definition edits_good :: "edit list \<Rightarrow> 'a list \<Rightarrow> 'a list \<Rightarrow> bool" where
  "edits_good es X Y \<longleftrightarrow> transforms es X Y \<and> (0, 0, 0) \<notin> set es \<and> spaced es"

lemma edits_good_append:
  assumes "edits_good es X Y" "length C = c" "length D = d" "length I = n" "(c, d, n) \<noteq> (0, 0, 0)" "c > 0 \<or> copied_last es"
  shows "edits_good (appendTriple es c d n) (X @ C @ D) (Y @ C @ I)"
  using assms transforms_appendTriple [of es X Y C c D d I n] appendTriple_nonzero [of es c d n]
    appendTriple_spaced [of es c d n]
  by (simp add: edits_good_def)

lemma diff_step_good:
  assumes "lines_of p A B"
  shows "iS1 \<le> iE1 \<Longrightarrow> iE1 \<le> length A \<Longrightarrow> iS2 \<le> iE2 \<Longrightarrow> iE2 \<le> length B \<Longrightarrow> edits_good es X Y \<Longrightarrow> copied_last es \<Longrightarrow>
    edits_good (diff_step p iS1 iE1 iS2 iE2 es) (X @ slice A iS1 iE1) (Y @ slice B iS2 iE2)"
  using assms
proof (induction p iS1 iE1 iS2 iE2 es arbitrary: X Y rule: diff_step.induct)
  case (1 p iS1 iE1 iS2 iE2 es)
  have del: "length (slice A iS1 iE1) = iE1 - iS1" "length (slice B iS2 iE2) = iE2 - iS2"
    using "1.prems" by (auto simp: slice_length)
  obtain sx ex sy ey where seg: "longestCommonSequence p iS1 iE1 iS2 iE2 = (sx, ex, sy, ey)"
    by (cases "longestCommonSequence p iS1 iE1 iS2 iE2") auto
  consider (no1) "iE1 \<le> iS1" | (no2) "iS1 < iE1" "iE2 \<le> iS2" | (both) "iS1 < iE1" "iS2 < iE2" by linarith
  then show ?case
  proof cases
    case no1
    then show ?thesis using "1.prems" edits_good_append [of es X Y "[]" 0 "[]" 0 "slice B iS2 iE2" "iE2 - iS2"] del
      by (subst diff_step.simps) (auto simp: slice_empty)
  next
    case no2
    then show ?thesis using "1.prems" edits_good_append [of es X Y "[]" 0 "slice A iS1 iE1" "iE1 - iS1" "[]" 0] del
      by (subst diff_step.simps) (auto simp: slice_empty)
  next
    case both
    have c: "common p iS1 iE1 iS2 iE2 (sx, ex, sy, ey)"
      using longestCommonSequence_common [of iS1 iE1 iS2 iE2 p] both seg by simp
    then have b: "iS1 \<le> sx" "sx \<le> ex" "ex \<le> iE1" "iS2 \<le> sy" "sy \<le> ey" "ey \<le> iE2" "ex - sx = ey - sy"
      by (auto simp: common_def)
    show ?thesis
    proof (cases "sx < ex")
      case True
      have "edits_good (diff_step p iS1 sx iS2 sy es) (X @ slice A iS1 sx) (Y @ slice B iS2 sy)"
        by (rule "1.IH"(1) [OF _ _ seg [symmetric] refl refl True]) (use both b "1.prems" in auto)
      then have "edits_good (appendTriple (diff_step p iS1 sx iS2 sy es) (ex - sx) 0 0)
          ((X @ slice A iS1 sx) @ slice A sx ex @ []) ((Y @ slice B iS2 sy) @ slice A sx ex @ [])"
        by (rule edits_good_append) (use b True "1.prems" in \<open>auto simp: slice_length\<close>)
      then have "edits_good (diff_step p ex iE1 ey iE2 (appendTriple (diff_step p iS1 sx iS2 sy es) (ex - sx) 0 0))
          (((X @ slice A iS1 sx) @ slice A sx ex @ []) @ slice A ex iE1) (((Y @ slice B iS2 sy) @ slice A sx ex @ []) @ slice B ey iE2)"
        by - (rule "1.IH"(2) [OF _ _ seg [symmetric] refl refl True], use both b True "1.prems" in \<open>auto intro: appendTriple_copied_last\<close>)
      moreover have "slice A iS1 iE1 = slice A iS1 sx @ slice A sx ex @ slice A ex iE1"
        using b slice_split [of iS1 sx iE1 A] slice_split [of sx ex iE1 A] by simp
      moreover have "slice B iS2 iE2 = slice B iS2 sy @ slice A sx ex @ slice B ey iE2"
        using b slice_split [of iS2 sy iE2 B] slice_split [of sy ey iE2 B] common_slices [OF "1.prems"(7) c] "1.prems" by simp
      ultimately show ?thesis using both True seg by (subst diff_step.simps) simp
    next
      case False
      then show ?thesis using "1.prems" both seg del
          edits_good_append [of es X Y "[]" 0 "slice A iS1 iE1" "iE1 - iS1" "slice B iS2 iE2" "iE2 - iS2"]
        by (subst diff_step.simps) auto
    qed
  qed
qed

lemma common_footer_spec:
  assumes "lines_of p A B" "common_footer p i j = (i', j')" "i \<le> length A" "j \<le> length B"
  shows "i' \<le> i \<and> j' \<le> j \<and> i - i' = j - j' \<and> slice A i' i = slice B j' j"
  using assms
proof (induction p i j rule: common_footer.induct)
  case (1 p i j)
  show ?case
  proof (cases "same p i j")
    case True
    with 1 have ih: "i' \<le> i" "j' \<le> j" "i - i' = j - j'" "slice A i' i = slice B j' j" by auto
    have "A ! i = B ! j" using "1.prems" True by (simp add: lines_of_def)
    then have "slice A i (Suc i) = slice B j (Suc j)" using "1.prems" by (simp add: slice_def take_Suc hd_drop_conv_nth)
    then show ?thesis using ih slice_split [of i' i "Suc i" A] slice_split [of j' j "Suc j" B] by simp
  next
    case False
    then show ?thesis using "1.prems" by (auto simp: slice_empty)
  qed
qed (auto simp: slice_empty)

theorem diff_all_good:
  assumes "lines_of p A B"
  shows "\<exists>es. diff_all p = es @ [(0, 0, 0)] \<and> edits_good es A B"
proof -
  have len: "length (aFrom p) = length A" "length (aTo p) = length B" using assms by (auto simp: lines_of_def)
  obtain iE1 iE2 where f: "common_footer p (length A) (length B) = (iE1, iE2)"
    by (cases "common_footer p (length A) (length B)") auto
  then have e: "iE1 \<le> length A" "iE2 \<le> length B" "length A - iE1 = length B - iE2"
    "slice A iE1 (length A) = slice B iE2 (length B)"
    using common_footer_spec [OF assms f] by auto
  define iS where "iS = run (\<lambda>k. same p k k) 0 (min iE1 iE2)"
  have iS: "iS \<le> iE1" "iS \<le> iE2" using run_range [of 0 "\<lambda>k. same p k k" "min iE1 iE2"] by (auto simp: iS_def)
  have "A ! k = B ! k" if "k < iS" for k
    using run_holds [of 0 k "\<lambda>k. same p k k" "min iE1 iE2"] that iS e assms by (simp add: iS_def [symmetric] lines_of_def)
  then have head: "slice A 0 iS = slice B 0 iS"
    using iS e by (auto simp: slice_def intro: nth_take_lemma)
  define es0 where "es0 = (if iS > 0 then appendTriple [] iS 0 0 else [])"
  have es0: "edits_good es0 (slice A 0 iS) (slice B 0 iS)"
  proof (cases "iS > 0")
    case True
    have "edits_good (appendTriple [] iS 0 0) ([] @ slice A 0 iS @ []) ([] @ slice A 0 iS @ [])"
      by (rule edits_good_append) (use True iS e in \<open>auto simp: edits_good_def spaced_def slice_length\<close>)
    then show ?thesis using True head by (simp add: es0_def)
  next
    case False
    then show ?thesis by (simp add: es0_def edits_good_def spaced_def slice_empty)
  qed
  define es1 where "es1 = diff_step p iS iE1 iS iE2 es0"
  have "edits_good es1 (slice A 0 iS @ slice A iS iE1) (slice B 0 iS @ slice B iS iE2)"
    unfolding es1_def by (rule diff_step_good [OF assms iS(1) e(1) iS(2) e(2) es0])
      (simp add: es0_def appendTriple_def copied_last_def)
  then have es1: "edits_good es1 (slice A 0 iE1) (slice B 0 iE2)"
    using slice_split [of 0 iS iE1 A] slice_split [of 0 iS iE2 B] iS by simp
  define es2 where "es2 = (if iE1 < length A then appendTriple es1 (length A - iE1) 0 0 else es1)"
  have all: "A = slice A 0 iE1 @ slice A iE1 (length A)" "B = slice B 0 iE2 @ slice A iE1 (length A)"
    using slice_split [of 0 iE1 "length A" A] slice_split [of 0 iE2 "length B" B] e by (simp_all add: slice_all)
  have "edits_good es2 A B"
  proof (cases "iE1 < length A")
    case True
    have "edits_good (appendTriple es1 (length A - iE1) 0 0)
        (slice A 0 iE1 @ slice A iE1 (length A) @ []) (slice B 0 iE2 @ slice A iE1 (length A) @ [])"
      by (rule edits_good_append [OF es1]) (use True in \<open>auto simp: slice_length\<close>)
    then show ?thesis using True all by (simp add: es2_def)
  next
    case False
    then show ?thesis using es1 e by (simp add: es2_def slice_def)
  qed
  moreover have "diff_all p = es2 @ [(0, 0, 0)]"
    by (simp only: diff_all_def len f prod.case Let_def iS_def es0_def es1_def es2_def)
  ultimately show ?thesis by blast
qed

section \<open>The lines of a text\<close>

text \<open>The specification: a newline ends a line, and the last line needs none.\<close>

fun text_lines :: "string \<Rightarrow> string list" where
  "text_lines [] = []"
| "text_lines (c # s) =
     (if c = newline then [] # text_lines s
      else (case text_lines s of [] \<Rightarrow> [[c]] | l # ls \<Rightarrow> (c # l) # ls))"

fun take_lines :: "nat \<Rightarrow> string \<Rightarrow> string list" where
  "take_lines 0 z = []"
| "take_lines (Suc n) z = takeWhile (\<lambda>c. c \<noteq> newline) z # take_lines n (tl (dropWhile (\<lambda>c. c \<noteq> newline) z))"

lemma text_lines_Nil_iff [simp]: "text_lines z = [] \<longleftrightarrow> z = []"
  by (cases z) (auto split: list.splits)

lemma text_lines_unfold:
  "z \<noteq> [] \<Longrightarrow> text_lines z = takeWhile (\<lambda>c. c \<noteq> newline) z # text_lines (tl (dropWhile (\<lambda>c. c \<noteq> newline) z))"
proof (induction z)
  case (Cons c z)
  then show ?case by (cases "z = []") auto
qed simp

lemma take_lines_text_lines: "length (text_lines z) = n \<Longrightarrow> take_lines n z = text_lines z"
proof (induction n arbitrary: z)
  case (Suc n)
  then have "z \<noteq> []" by auto
  then show ?case using Suc text_lines_unfold [of z] by simp
qed simp

lemma count_lines_text_lines:
  "count_lines z j k = Some n \<Longrightarrow> z \<noteq> [] \<Longrightarrow> n + 1 = k + length (text_lines z) \<and>
     int (j + length (hd (text_lines z))) \<le> LENGTH_MASK \<and> (\<forall>l \<in> set (tl (text_lines z)). int (length l) \<le> LENGTH_MASK)"
proof (induction z j k rule: count_lines.induct)
  case (2 c s j k)
  show ?case
  proof (cases "s = []")
    case True
    then show ?thesis using 2 by (auto split: if_splits)
  next
    case False
    obtain l ls where s: "text_lines s = l # ls" using False by (cases "text_lines s") auto
    show ?thesis using 2 False s by (auto split: if_splits)
  qed
qed simp

text \<open>A hash of a line whose length fits the lower bits tells the length.\<close>

lemma line_hash_length: "int (length z) \<le> LENGTH_MASK \<Longrightarrow> unat (line_hash z AND of_int LENGTH_MASK) = length z"
proof -
  assume a: "int (length z) \<le> LENGTH_MASK"
  define h :: "32 word" where "h = foldl (\<lambda>h c. (h XOR (push_bit 2 h)) XOR signed_char c) 0 z"
  have "take_bit 13 (push_bit 13 h OR of_nat (length z)) = (of_nat (length z) :: 32 word)"
  proof (rule bit_eqI)
    fix n
    assume "possible_bit TYPE(32 word) n"
    then have n: "n < 32" by simp
    have "length z < 2 ^ 13" using a by (simp add: LENGTH_MASK_def)
    then have "\<not> bit (length z) n" if "n \<ge> 13"
      using that by (metis bit_take_bit_iff not_le take_bit_nat_eq_self)
    then show "bit (take_bit 13 (push_bit 13 h OR of_nat (length z))) n = bit (of_nat (length z) :: 32 word) n"
      using n by (auto simp: bit_simps)
  qed
  moreover have "(of_int LENGTH_MASK :: 32 word) = mask 13" by (simp add: LENGTH_MASK_def mask_eq_exp_minus_1)
  moreover have "unat (of_nat (length z) :: 32 word) = length z"
    using a by (simp add: unat_of_nat LENGTH_MASK_def)
  ultimately show ?thesis by (simp add: line_hash_def Let_def h_def take_bit_eq_mask)
qed

definition line_entry :: "dline \<Rightarrow> string \<times> 32 word" where
  "line_entry d = (dl_z d, dl_h d)"

lemma fill_lines_entries:
  "i + n = length a \<Longrightarrow>
   map line_entry (fill_lines a i n z) = take i (map line_entry a) @ map (\<lambda>l. (l, line_hash l)) (take_lines n z)"
proof (induction a i n z rule: fill_lines.induct)
  case (1 a i z)
  then show ?case by simp
next
  case (2 a i n z)
  define line where "line = takeWhile (\<lambda>c. c \<noteq> newline) z"
  define a1 where "a1 = a[i := (a ! i)\<lparr>dl_z := line, dl_n := length line, dl_h := line_hash line\<rparr>]"
  define h2 where "h2 = unat (line_hash line mod of_nat (length a))"
  define a2 where "a2 = a1[i := (a1 ! i)\<lparr>dl_iNext := dl_iHash (a1 ! h2)\<rparr>]"
  define a3 where "a3 = a2[h2 := (a2 ! h2)\<lparr>dl_iHash := i + 1\<rparr>]"
  have len: "length a1 = length a" "length a2 = length a" "length a3 = length a" by (simp_all add: a1_def a2_def a3_def)
  have keep: "map line_entry (b[m := (b ! m)\<lparr>dl_iNext := v\<rparr>]) = map line_entry b"
    "map line_entry (b[m := (b ! m)\<lparr>dl_iHash := w\<rparr>]) = map line_entry b" for b m v w
    by (simp_all add: map_update line_entry_def, (metis line_entry_def list_update_id list_update_beyond not_le nth_map length_map)+)
  have "map line_entry a3 = map line_entry a1" by (simp add: a3_def a2_def keep)
  also have "\<dots> = (map line_entry a)[i := (line, line_hash line)]" by (simp add: a1_def map_update line_entry_def)
  finally have "take (i + 1) (map line_entry a3) = take i (map line_entry a) @ [(line, line_hash line)]"
    using "2.prems" by (simp add: take_Suc_conv_app_nth)
  moreover have "map line_entry (fill_lines a3 (i + 1) n (tl (dropWhile (\<lambda>c. c \<noteq> newline) z))) =
      take (i + 1) (map line_entry a3) @ map (\<lambda>l. (l, line_hash l)) (take_lines n (tl (dropWhile (\<lambda>c. c \<noteq> newline) z)))"
    unfolding a3_def a2_def h2_def a1_def line_def
    by (rule "2.IH" [OF refl refl refl refl refl refl]) (use "2.prems" in simp)
  moreover have "fill_lines a i (Suc n) z = fill_lines a3 (i + 1) n (tl (dropWhile (\<lambda>c. c \<noteq> newline) z))"
    by (simp only: fill_lines.simps Let_def line_def a1_def h2_def a2_def a3_def)
  ultimately show ?case by (simp add: line_def)
qed

lemma break_into_lines_entries:
  assumes "break_into_lines z = Some a"
  shows "map line_entry a = map (\<lambda>l. (l, line_hash l)) (text_lines z) \<and> (\<forall>l \<in> set (text_lines z). int (length l) \<le> LENGTH_MASK)"
proof (cases "z = []")
  case True
  then show ?thesis using assms by (auto simp: break_into_lines_def split: option.splits)
next
  case False
  with assms obtain n where n: "count_lines z 0 1 = Some n" "a = fill_lines (replicate n no_dline) 0 n z"
    by (auto simp: break_into_lines_def split: option.splits)
  obtain l ls where l: "text_lines z = l # ls" using False by (cases "text_lines z") auto
  have "n = length (text_lines z)" "int (length l) \<le> LENGTH_MASK" "\<forall>l \<in> set ls. int (length l) \<le> LENGTH_MASK"
    using count_lines_text_lines [OF n(1) False] l by auto
  then show ?thesis using n(2) fill_lines_entries [of 0 n "replicate n no_dline" z] take_lines_text_lines [of z n] l by auto
qed

lemma same_dline_equal:
  assumes "line_entry d = (l, line_hash l)" "line_entry e = (m, line_hash m)" "int (length l) \<le> LENGTH_MASK" "int (length m) \<le> LENGTH_MASK"
  shows "same_dline d e \<longleftrightarrow> l = m"
proof
  have e: "dl_z d = l" "dl_h d = line_hash l" "dl_z e = m" "dl_h e = line_hash m"
    using assms by (auto simp: line_entry_def)
  assume "same_dline d e"
  then have h: "line_hash l = line_hash m" "take (length l) l = take (length l) m"
    using e line_hash_length [OF assms(3)] by (auto simp: same_dline_def Let_def)
  then show "l = m" using line_hash_length [OF assms(3)] line_hash_length [OF assms(4)] by simp
next
  assume "l = m"
  then show "same_dline d e" using assms by (auto simp: same_dline_def line_entry_def)
qed

lemma lines_of_break:
  assumes "break_into_lines z1 = Some a" "break_into_lines z2 = Some b"
  shows "lines_of \<lparr>aFrom = a, aTo = b\<rparr> (text_lines z1) (text_lines z2)"
proof -
  note A = break_into_lines_entries [OF assms(1)] and B = break_into_lines_entries [OF assms(2)]
  have la: "length a = length (text_lines z1)" and lb: "length b = length (text_lines z2)"
    using A B by (metis length_map)+
  moreover have "same_dline (a ! i) (b ! j) \<longleftrightarrow> text_lines z1 ! i = text_lines z2 ! j"
    if "i < length (text_lines z1)" "j < length (text_lines z2)" for i j
  proof (rule same_dline_equal)
    have "map line_entry a ! i = map (\<lambda>l. (l, line_hash l)) (text_lines z1) ! i" using A by simp
    then show "line_entry (a ! i) = (text_lines z1 ! i, line_hash (text_lines z1 ! i))" using that la by simp
    have "map line_entry b ! j = map (\<lambda>l. (l, line_hash l)) (text_lines z2) ! j" using B by simp
    then show "line_entry (b ! j) = (text_lines z2 ! j, line_hash (text_lines z2 ! j))" using that lb by simp
  qed (use A B that in auto)
  ultimately show ?thesis by (simp add: lines_of_def same_def)
qed

lemma text_diff_good:
  assumes "text_diff z1 z2 = Some es"
  shows "\<exists>es'. es = es' @ [(0, 0, 0)] \<and> edits_good es' (text_lines z1) (text_lines z2)"
proof -
  obtain a b where "break_into_lines z1 = Some a" "break_into_lines z2 = Some b" "es = diff_all \<lparr>aFrom = a, aTo = b\<rparr>"
    using assms by (auto simp: text_diff_def split: option.splits)
  then show ?thesis using diff_all_good [OF lines_of_break] by simp
qed

section \<open>The differences are correct\<close>

text \<open>C38. The triples that \<^verbatim>\<open>text_diff\<close> returns end in the first triple of three zeros, and the ones in
front of it turn the lines of the first text into the lines of the second: the lines copied are in both
texts, in order, and the other lines of the first text are deleted and those of the second inserted.\<close>

theorem diff_correct:
  assumes "text_diff z1 z2 = Some es"
  shows "\<exists>es'. es = es' @ [(0, 0, 0)] \<and> (0, 0, 0) \<notin> set es' \<and> transforms es' (text_lines z1) (text_lines z2)"
  using text_diff_good [OF assms] by (auto simp: edits_good_def)

theorem diff_correct_witness:
  "\<exists>es'. [(1, 1, 1), (1, 0, 0), (0, 0, 0)] = es' @ [(0, 0, 0)] \<and> (0, 0, 0) \<notin> set es' \<and>
     transforms es' (text_lines (''a'' @ [newline] @ ''b'' @ [newline] @ ''c'')) (text_lines (''a'' @ [newline] @ ''x'' @ [newline] @ ''c''))"
  by (rule diff_correct) code_simp

end
