(* ===== verification/Merge3.thy ===== *)
theory Merge3
  imports Diff
begin

text \<open>
  The three-way merge of configuration files (\<^verbatim>\<open>libpkg/merge3.c\<close>): the triples from the pivot to each version
  are gone through together, and what one version leaves as it was is taken from the other. A cursor into a
  text is the rest of the text.
\<close>

section \<open>Lines under the cursors\<close>

fun same_lines_from :: "string \<Rightarrow> string \<Rightarrow> nat \<Rightarrow> bool" where
  "same_lines_from [] [] n = True"
| "same_lines_from (c # s) (d # t) n =
     (if c \<noteq> d then False
      else if c = newline then (if n - 1 = 0 then True else same_lines_from s t (n - 1))
      else same_lines_from s t n)"
| "same_lines_from s t n = False"

definition sameLines :: "string \<Rightarrow> string \<Rightarrow> nat \<Rightarrow> bool" where
  "sameLines pV1 pV2 n = (if n = 0 then True else same_lines_from pV1 pV2 n)"

definition sameEdit :: "edit \<Rightarrow> edit \<Rightarrow> string \<Rightarrow> string \<Rightarrow> bool" where
  "sameEdit e1 e2 pV1 pV2 =
     (case (e1, e2) of
        ((c1, d1, n1), (c2, d2, n2)) \<Rightarrow>
          if c1 \<noteq> c2 then False else if d1 \<noteq> d2 then False else if n1 \<noteq> n2 then False else sameLines pV1 pV2 n1)"

text \<open>The lines in front of the cursor with their newlines, and the text behind them.\<close>

fun copied :: "string \<Rightarrow> nat \<Rightarrow> string" where
  "copied [] n = []"
| "copied (c # s) n = c # (if c = newline then (if n - 1 = 0 then [] else copied s (n - 1)) else copied s n)"

definition buf_copy_lines :: "string \<Rightarrow> nat \<Rightarrow> string \<times> string" where
  "buf_copy_lines z n = (let t = (if n = 0 then [] else copied z n) in (t, drop (length t) z))"

section \<open>The merge\<close>

fun finished_triple :: "edit list \<Rightarrow> edit list" where
  "finished_triple ((0, 0, 0) # es) = es"
| "finished_triple es = es"

text \<open>The loop ends because each turn takes copied lines or a whole triple.\<close>

definition copies :: "edit list \<Rightarrow> nat" where
  "copies es = sum_list (map (\<lambda>(c, d, n). c) es) + length es"

lemma copies_finished: "copies (finished_triple es) \<le> copies es"
  by (cases es rule: finished_triple.cases) (auto simp: copies_def)

lemma copies_Cons: "copies ((c, d, n) # es) = Suc (c + copies es)"
  by (simp add: copies_def)

text \<open>
  The loop over both lists of triples. A conflict is \<open>Inl\<close> with what has been written; at the end of one of
  the lists the result is what is left of both, with the cursors of the versions.
\<close>

function merge_loop ::
  "edit list \<Rightarrow> edit list \<Rightarrow> string \<Rightarrow> string \<Rightarrow> string \<Rightarrow> string \<Rightarrow> string + (edit list \<times> edit list \<times> string \<times> string \<times> string)" where
  "merge_loop ((c1, d1, n1) # r1) ((c2, d2, n2) # r2) pPivot pV1 pV2 out =
     (if c1 > 0 \<and> c2 > 0 then
        (let nCpy = min c1 c2
         in merge_loop (finished_triple ((c1 - nCpy, d1, n1) # r1)) (finished_triple ((c2 - nCpy, d2, n2) # r2))
              (snd (buf_copy_lines pPivot nCpy)) (snd (buf_copy_lines pV1 nCpy)) (snd (buf_copy_lines pV2 nCpy))
              (out @ fst (buf_copy_lines pPivot nCpy)))
      else if c1 \<ge> d2 \<and> c1 > 0 \<and> d2 + n2 > 0 then
        merge_loop (finished_triple ((c1 - d2, d1, n1) # r1)) (finished_triple r2)
          (snd (buf_copy_lines pPivot d2)) (snd (buf_copy_lines pV1 d2)) (snd (buf_copy_lines pV2 n2))
          (out @ fst (buf_copy_lines pV2 n2))
      else if c2 \<ge> d1 \<and> c2 > 0 \<and> d1 + n1 > 0 then
        merge_loop (finished_triple r1) (finished_triple ((c2 - d1, d2, n2) # r2))
          (snd (buf_copy_lines pPivot d1)) (snd (buf_copy_lines pV1 n1)) (snd (buf_copy_lines pV2 d1))
          (out @ fst (buf_copy_lines pV1 n1))
      else if sameEdit (c1, d1, n1) (c2, d2, n2) pV1 pV2 then
        merge_loop (finished_triple r1) (finished_triple r2)
          (snd (buf_copy_lines pPivot d1)) (snd (buf_copy_lines pV1 n1)) (snd (buf_copy_lines pV2 n1))
          (out @ fst (buf_copy_lines pV1 n1))
      else Inl out)"
| "merge_loop [] es2 pPivot pV1 pV2 out = Inr ([], es2, pV1, pV2, out)"
| "merge_loop es1 [] pPivot pV1 pV2 out = Inr (es1, [], pV1, pV2, out)"
  by pat_completeness auto

termination
proof (relation "measure (\<lambda>(es1, es2, x). copies es1 + copies es2)", goal_cases)
  case (2 c1 d1 n1 r1 c2 d2 n2 r2)
  then show ?case
    using copies_finished [of "(c1 - min c1 c2, d1, n1) # r1"] copies_finished [of "(c2 - min c1 c2, d2, n2) # r2"]
    by (cases "c1 \<le> c2") (auto simp: copies_Cons)
next
  case (3 c1 d1 n1 r1 c2 d2 n2 r2)
  then show ?case using copies_finished [of "(c1 - d2, d1, n1) # r1"] copies_finished [of r2] by (simp add: copies_Cons)
next
  case (4 c1 d1 n1 r1 c2 d2 n2 r2)
  then show ?case using copies_finished [of "(c2 - d1, d2, n2) # r2"] copies_finished [of r1] by (simp add: copies_Cons)
next
  case (5 c1 d1 n1 r1 c2 d2 n2 r2)
  then show ?case using copies_finished [of r1] copies_finished [of r2] by (simp add: copies_Cons)
qed simp

declare merge_loop.simps [simp del]

text \<open>What one list of triples still inserts when the other has come to its end.\<close>

definition last_insert :: "edit list \<Rightarrow> edit list \<Rightarrow> string \<Rightarrow> string \<Rightarrow> string" where
  "last_insert es1 es2 pV1 pV2 =
     (let ins = (\<lambda>es. case es of [] \<Rightarrow> 0 | (c, d, n) # _ \<Rightarrow> n)
      in if ins es1 > 0 then fst (buf_copy_lines pV1 (ins es1))
         else if ins es2 > 0 then fst (buf_copy_lines pV2 (ins es2))
         else [])"

text \<open>The triples in front of the first triple of three zeros.\<close>

definition up_to_end :: "edit list \<Rightarrow> edit list" where
  "up_to_end es = takeWhile (\<lambda>e. e \<noteq> (0, 0, 0)) es"

text \<open>The code returned, and the merged text.\<close>

definition buf_merge :: "string \<Rightarrow> string \<Rightarrow> string \<Rightarrow> int \<times> string" where
  "buf_merge pPivot pV1 pV2 =
     (case (text_diff pPivot pV1, text_diff pPivot pV2) of
        (Some aC1, Some aC2) \<Rightarrow>
          (case merge_loop (up_to_end aC1) (up_to_end aC2) pPivot pV1 pV2 [] of
             Inl out \<Rightarrow> (-1, out)
           | Inr (es1, es2, v1, v2, out) \<Rightarrow> (0, out @ last_insert es1 es2 v1 v2))
      | _ \<Rightarrow> (-1, []))"

definition merge_3way :: "string \<Rightarrow> string \<Rightarrow> string \<Rightarrow> int \<times> string" where
  "merge_3way pPivot pV1 pV2 = buf_merge pPivot pV1 pV2"

section \<open>What a merge is\<close>

text \<open>
  The specification goes line by line over the pivot. What a version does at a line is the pair of the lines it
  inserts in front of it and whether it drops the line; the end of the pivot counts as one more line. The
  triples of \<^verbatim>\<open>text_diff\<close> say it: after the lines copied come the insertion and the lines dropped.
\<close>

definition untouched :: "'a list \<times> bool" where
  "untouched = ([], False)"

fun change_of :: "edit list \<Rightarrow> 'a list \<Rightarrow> nat \<Rightarrow> 'a list \<times> bool" where
  "change_of [] V i = untouched"
| "change_of ((c, d, n) # es) V i =
     (if i < c then untouched
      else if i = c then (take n (drop c V), d > 0)
      else if i < c + d then ([], True)
      else change_of es (drop (c + n) V) (i - (c + d)))"

text \<open>The text that changes line by line make of the pivot.\<close>

fun woven :: "'a list \<Rightarrow> (nat \<Rightarrow> 'a list \<times> bool) \<Rightarrow> 'a list" where
  "woven [] h = fst (h 0)"
| "woven (p # P) h = fst (h 0) @ (if snd (h 0) then [] else [p]) @ woven P (\<lambda>i. h (Suc i))"

text \<open>
  Where both versions touch a line they do the same; the merge does at each line what the version does that
  touches it.
\<close>

definition agree :: "(nat \<Rightarrow> 'a list \<times> bool) \<Rightarrow> (nat \<Rightarrow> 'a list \<times> bool) \<Rightarrow> bool" where
  "agree h1 h2 \<longleftrightarrow> (\<forall>i. h1 i = untouched \<or> h2 i = untouched \<or> h1 i = h2 i)"

definition merged :: "(nat \<Rightarrow> 'a list \<times> bool) \<Rightarrow> (nat \<Rightarrow> 'a list \<times> bool) \<Rightarrow> nat \<Rightarrow> 'a list \<times> bool" where
  "merged h1 h2 i = (if h1 i = untouched then h2 i else h1 i)"

text \<open>A version that touches nothing leaves the other as it is, on either side.\<close>

lemma merged_untouched: "merged (\<lambda>i. untouched) h = h" "merged h (\<lambda>i. untouched) = h"
  by (auto simp: merged_def)

lemma agree_commute: "agree h1 h2 \<longleftrightarrow> agree h2 h1"
  by (auto simp: agree_def)

lemma merged_commute: "agree h1 h2 \<Longrightarrow> merged h1 h2 = merged h2 h1"
  by (rule ext) (force simp: agree_def merged_def)

lemma woven_copied: "(\<And>i. i < length K \<Longrightarrow> h i = untouched) \<Longrightarrow> woven (K @ P) h = K @ woven P (\<lambda>i. h (length K + i))"
proof (induction K arbitrary: h)
  case (Cons x K)
  have "h 0 = untouched" using Cons.prems [of 0] by simp
  moreover have "woven (K @ P) (\<lambda>i. h (Suc i)) = K @ woven P (\<lambda>i. h (Suc (length K + i)))"
    using Cons.IH [of "\<lambda>i. h (Suc i)"] Cons.prems by simp
  ultimately show ?case by (simp add: untouched_def)
qed simp

lemma woven_dropped: "(\<And>i. i < length D \<Longrightarrow> h i = ([], True)) \<Longrightarrow> woven (D @ P) h = woven P (\<lambda>i. h (length D + i))"
proof (induction D arbitrary: h)
  case (Cons x D)
  have "h 0 = ([], True)" using Cons.prems [of 0] by simp
  moreover have "woven (D @ P) (\<lambda>i. h (Suc i)) = woven P (\<lambda>i. h (Suc (length D + i)))"
    using Cons.IH [of "\<lambda>i. h (Suc i)"] Cons.prems by simp
  ultimately show ?case by simp
qed simp

text \<open>One edit at the cursor, and what comes behind it.\<close>

definition edit_then :: "'a list \<Rightarrow> nat \<Rightarrow> (nat \<Rightarrow> 'a list \<times> bool) \<Rightarrow> nat \<Rightarrow> 'a list \<times> bool" where
  "edit_then I d h i = (if i = 0 then (I, d > 0) else if i < d then ([], True) else h (i - d))"

lemma woven_edit:
  assumes "length D = d" "d = 0 \<Longrightarrow> h 0 = untouched"
  shows "woven (D @ P) (edit_then I d h) = I @ woven P h"
proof (cases D)
  case Nil
  then have "d = 0" "h 0 = untouched" using assms by auto
  then show ?thesis using Nil by (cases P) (simp_all add: edit_then_def untouched_def)
next
  case (Cons x D')
  have "woven (D' @ P) (\<lambda>i. edit_then I d h (Suc i)) = woven P (\<lambda>i. edit_then I d h (Suc (length D' + i)))"
    by (rule woven_dropped) (use Cons assms(1) in \<open>auto simp: edit_then_def\<close>)
  also have "(\<lambda>i. edit_then I d h (Suc (length D' + i))) = h" using Cons assms(1) by (auto simp: edit_then_def)
  finally show ?thesis using Cons assms(1) by (simp add: edit_then_def)
qed

lemma change_of_copied:
  assumes "k \<le> c" "length K = k"
  shows "i < k \<Longrightarrow> change_of ((c, d, n) # es) (K @ V) i = untouched"
    "change_of ((c, d, n) # es) (K @ V) (k + i) = change_of ((c - k, d, n) # es) V i"
  using assms by (auto simp: add.commute)

lemma spaced_next: "spaced (e # es) \<Longrightarrow> change_of es V 0 = untouched"
  by (cases es) (auto simp: spaced_def)

lemma change_of_edit:
  assumes "length I = n"
  shows "change_of ((0, d, n) # es) (I @ V) = edit_then I d (change_of es V)"
  using assms by (intro ext) (auto simp: edit_then_def)

lemma change_of_finished: "spaced es \<Longrightarrow> change_of (finished_triple es) V = change_of es V"
  by (cases es rule: finished_triple.cases) (auto simp: fun_eq_iff untouched_def dest: spaced_next)

lemma change_of_end: "change_of (es @ [(0, 0, 0)]) V = change_of es V"
proof (induction es arbitrary: V)
  case (Cons e es)
  then show ?case by (cases e) auto
qed (auto simp: fun_eq_iff untouched_def)

declare change_of.simps(2) [simp del]

text \<open>The text of lines that all end in a newline.\<close>

definition unlines :: "string list \<Rightarrow> string" where
  "unlines ls = concat (map (\<lambda>l. l @ [newline]) ls)"

definition terminated :: "string \<Rightarrow> bool" where
  "terminated z \<longleftrightarrow> z = [] \<or> last z = newline"

lemma unlines_simps [simp]: "unlines [] = []" "unlines (l # ls) = l @ newline # unlines ls" "unlines (xs @ ys) = unlines xs @ unlines ys"
  by (simp_all add: unlines_def)

lemma text_lines_no_newline: "l \<in> set (text_lines z) \<Longrightarrow> newline \<notin> set l"
  by (induction z arbitrary: l) (auto split: if_splits list.splits)

lemma unlines_text_lines: "terminated z \<Longrightarrow> unlines (text_lines z) = z"
proof (induction z)
  case (Cons c z)
  then show ?case by (cases "z = []") (auto simp: terminated_def split: list.splits if_splits)
qed simp

definition line_texts :: "string list \<Rightarrow> bool" where
  "line_texts ls \<longleftrightarrow> (\<forall>l \<in> set ls. newline \<notin> set l)"

lemma line_texts_append [simp]: "line_texts (xs @ ys) \<longleftrightarrow> line_texts xs \<and> line_texts ys"
  by (auto simp: line_texts_def)

lemma line_texts_Cons [simp]: "line_texts (l # ls) \<longleftrightarrow> newline \<notin> set l \<and> line_texts ls"
  by (auto simp: line_texts_def)

lemma copied_line: "newline \<notin> set l \<Longrightarrow> copied (l @ newline # s) n = l @ newline # (if n - 1 = 0 then [] else copied s (n - 1))"
  by (induction l) auto

lemma copied_unlines: "line_texts xs \<Longrightarrow> xs \<noteq> [] \<Longrightarrow> copied (unlines xs @ s) (length xs) = unlines xs"
proof (induction xs)
  case (Cons l xs)
  then show ?case by (cases xs) (auto simp: copied_line)
qed simp

lemma buf_copy_lines_unlines:
  "line_texts xs \<Longrightarrow> length xs = n \<Longrightarrow> buf_copy_lines (unlines (xs @ ys)) n = (unlines xs, unlines ys)"
  using copied_unlines [of xs "unlines ys"] by (cases xs) (auto simp: buf_copy_lines_def Let_def)

lemma same_lines_from_line:
  "newline \<notin> set l \<Longrightarrow> newline \<notin> set m \<Longrightarrow>
   same_lines_from (l @ newline # s) (m @ newline # t) n \<longleftrightarrow> l = m \<and> (n - 1 = 0 \<or> same_lines_from s t (n - 1))"
proof (induction l arbitrary: m)
  case Nil
  then show ?case by (cases m) auto
next
  case (Cons c l)
  then show ?case by (cases m) auto
qed

lemma same_lines_from_unlines:
  "line_texts xs \<Longrightarrow> line_texts ys \<Longrightarrow> length xs = n \<Longrightarrow> length ys = n \<Longrightarrow> n > 0 \<Longrightarrow>
   same_lines_from (unlines xs @ s) (unlines ys @ t) n \<longleftrightarrow> xs = ys"
proof (induction n arbitrary: xs ys)
  case (Suc n)
  obtain l xs' m ys' where e: "xs = l # xs'" "ys = m # ys'" using Suc.prems by (metis length_Suc_conv)
  show ?case using Suc e by (cases n) (auto simp: same_lines_from_line)
qed simp

lemma sameLines_unlines:
  "line_texts xs \<Longrightarrow> line_texts ys \<Longrightarrow> length xs = n \<Longrightarrow> length ys = n \<Longrightarrow>
   sameLines (unlines (xs @ us)) (unlines (ys @ vs)) n \<longleftrightarrow> xs = ys"
  using same_lines_from_unlines [of xs ys n "unlines us" "unlines vs"] by (auto simp: sameLines_def)

section \<open>A merge that succeeds is one\<close>

text \<open>A part of what a triple copies.\<close>

lemma transforms_copy:
  assumes "transforms ((c, d, n) # es) A B" "k \<le> c"
  shows "\<exists>K A' B'. A = K @ A' \<and> B = K @ B' \<and> length K = k \<and> transforms ((c - k, d, n) # es) A' B'"
proof -
  from assms(1) obtain C D I X Y where
    X: "A = C @ D @ X" "B = C @ I @ Y" "length C = c" "length D = d" "length I = n" "transforms es X Y"
    by (auto elim: transforms_ConsE)
  have t: "transforms ((c - k, d, n) # es) (drop k C @ D @ X) (drop k C @ I @ Y)"
    by (rule transforms_Cons) (use X assms(2) in auto)
  have "A = take k C @ drop k C @ D @ X" "B = take k C @ drop k C @ I @ Y" "length (take k C) = k"
    using X assms(2) by simp_all
  then show ?thesis using t by blast
qed

lemma transforms_edit:
  assumes "transforms ((0, d, n) # es) A B"
  shows "\<exists>D A' I B'. A = D @ A' \<and> B = I @ B' \<and> length D = d \<and> length I = n \<and> transforms es A' B'"
proof -
  from assms obtain C D I X Y where "A = C @ D @ X" "B = C @ I @ Y" "length C = 0" "length D = d" "length I = n" "transforms es X Y"
    by (auto elim: transforms_ConsE)
  then show ?thesis by (intro exI [of _ D] exI [of _ X] exI [of _ I] exI [of _ Y]) simp
qed

lemma transforms_finished: "transforms es A B \<Longrightarrow> transforms (finished_triple es) A B"
  by (cases es rule: finished_triple.cases) (auto elim: transforms_ConsE)

lemma spaced_head: "spaced ((c, d, n) # es) \<Longrightarrow> spaced ((c', d', n') # es)"
  by (simp add: spaced_def)

lemma spaced_tail: "spaced (e # es) \<Longrightarrow> spaced es"
  by (cases es) (simp_all add: spaced_def)

lemma spaced_finished: "spaced es \<Longrightarrow> spaced (finished_triple es)"
  by (cases es rule: finished_triple.cases) (auto dest: spaced_tail)

lemma transforms_Nil_spaced:
  assumes "transforms es [] B" "spaced es"
  shows "es = [] \<and> B = [] \<or> es = [(0, 0, length B)]"
proof (cases es)
  case Nil
  then show ?thesis using assms by simp
next
  case (Cons e r)
  obtain c d n where e: "e = (c, d, n)" by (cases e) auto
  obtain I Y where r: "c = 0" "d = 0" "length I = n" "B = I @ Y" "transforms r [] Y"
    using assms(1) Cons e by (auto elim: transforms_ConsE)
  have "r = []"
  proof (cases r)
    case (Cons e' r')
    obtain c' d' n' where e': "e' = (c', d', n')" by (cases e') auto
    have "c' = 0 \<and> d' = 0" using r(5) Cons e' by (auto elim: transforms_ConsE)
    then show ?thesis using assms(2) \<open>es = e # r\<close> Cons e' by (simp add: spaced_def)
  qed simp
  then show ?thesis using Cons e r by simp
qed

text \<open>A merge of what is left goes on behind copied lines and behind an edit.\<close>

definition merges :: "(nat \<Rightarrow> 'a list \<times> bool) \<Rightarrow> (nat \<Rightarrow> 'a list \<times> bool) \<Rightarrow> 'a list \<Rightarrow> 'a list \<Rightarrow> bool" where
  "merges h1 h2 P M \<longleftrightarrow> agree h1 h2 \<and> M = woven P (merged h1 h2)"

definition behind :: "nat \<Rightarrow> (nat \<Rightarrow> 'a list \<times> bool) \<Rightarrow> (nat \<Rightarrow> 'a list \<times> bool) \<Rightarrow> bool" where
  "behind k h h' \<longleftrightarrow> (\<forall>i < k. h i = untouched) \<and> (\<forall>i. h (k + i) = h' i)"

lemma agree_at: "agree h1 h2 \<Longrightarrow> h1 i = untouched \<or> h2 i = untouched \<or> h1 i = h2 i"
  by (simp add: agree_def)

lemma behind_at: "behind k h h' \<Longrightarrow> h i = (if i < k then untouched else h' (i - k))"
  by (auto simp: behind_def dest: spec [of _ "i - k"])

lemma merges_copied:
  assumes "merges h1' h2' P M" "behind (length K) h1 h1'" "behind (length K) h2 h2'"
  shows "merges h1 h2 (K @ P) (K @ M)"
proof -
  have a: "agree h1 h2" using assms agree_at [of h1' h2'] by (auto simp: merges_def agree_def behind_at [OF assms(2)] behind_at [OF assms(3)])
  have m: "(\<lambda>i. merged h1 h2 (length K + i)) = merged h1' h2'" by (rule ext) (simp add: merged_def behind_at [OF assms(2)] behind_at [OF assms(3)])
  have "woven (K @ P) (merged h1 h2) = K @ woven P (\<lambda>i. merged h1 h2 (length K + i))"
    by (rule woven_copied) (simp add: merged_def behind_at [OF assms(2)] behind_at [OF assms(3)])
  then show ?thesis using a m assms(1) by (simp add: merges_def)
qed

lemma merges_second:
  assumes "merges h1' h2' P M" "behind (length D) h1 h1'" "h1 0 = untouched" "length D = 0 \<Longrightarrow> h2' 0 = untouched"
  shows "merges h1 (edit_then I (length D) h2') (D @ P) (I @ M)"
proof -
  have a: "agree h1 (edit_then I (length D) h2')"
    using assms(1,3) agree_at [of h1' h2'] by (auto simp: merges_def agree_def edit_then_def behind_at [OF assms(2)])
  have m: "merged h1 (edit_then I (length D) h2') = edit_then I (length D) (merged h1' h2')"
    using assms(3) by (intro ext) (auto simp: merged_def edit_then_def behind_at [OF assms(2)])
  have "woven (D @ P) (edit_then I (length D) (merged h1' h2')) = I @ woven P (merged h1' h2')"
    by (rule woven_edit [OF refl]) (use assms(3,4) behind_at [OF assms(2), of 0] in \<open>auto simp: merged_def\<close>)
  then show ?thesis using a m assms(1) by (simp add: merges_def)
qed

lemma merges_both:
  assumes "merges h1' h2' P M" "length D = 0 \<Longrightarrow> h1' 0 = untouched \<and> h2' 0 = untouched"
  shows "merges (edit_then I (length D) h1') (edit_then I (length D) h2') (D @ P) (I @ M)"
proof -
  have a: "agree (edit_then I (length D) h1') (edit_then I (length D) h2')"
    using assms(1) agree_at [of h1' h2'] by (auto simp: merges_def agree_def edit_then_def)
  have m: "merged (edit_then I (length D) h1') (edit_then I (length D) h2') = edit_then I (length D) (merged h1' h2')"
    by (rule ext) (auto simp: merged_def edit_then_def)
  have "woven (D @ P) (edit_then I (length D) (merged h1' h2')) = I @ woven P (merged h1' h2')"
    by (rule woven_edit [OF refl]) (use assms(2) in \<open>auto simp: merged_def\<close>)
  then show ?thesis using a m assms(1) by (simp add: merges_def)
qed

lemma merges_swap: "merges h1 h2 P M \<longleftrightarrow> merges h2 h1 P M"
  using merged_commute [of h1 h2] agree_commute [of h1 h2] by (auto simp: merges_def)

lemma change_of_Nil: "change_of [] V = (\<lambda>i. untouched)"
  by (rule ext) simp

lemma behind_copied: "k \<le> c \<Longrightarrow> length K = k \<Longrightarrow> behind k (change_of ((c, d, n) # es) (K @ V)) (change_of ((c - k, d, n) # es) V)"
  by (simp add: behind_def change_of_copied)

lemma last_insert_merges:
  assumes "es1 = [] \<or> es2 = []" "transforms es1 P V1" "transforms es2 P V2" "spaced es1" "spaced es2"
    "line_texts V1" "line_texts V2"
  shows "\<exists>M. last_insert es1 es2 (unlines V1) (unlines V2) = unlines M \<and> merges (change_of es1 V1) (change_of es2 V2) P M"
proof -
  have cp: "fst (buf_copy_lines (unlines V) (length V)) = unlines V" if "line_texts V" for V
    using buf_copy_lines_unlines [OF that refl, of "[]"] by simp
  show ?thesis
  proof (cases "es1 = []")
    case True
    then have "P = []" "V1 = []" using assms(2) by auto
    moreover have "es2 = [] \<and> V2 = [] \<or> es2 = [(0, 0, length V2)]"
      using transforms_Nil_spaced assms(3,5) \<open>P = []\<close> by blast
    ultimately show ?thesis using True cp [OF assms(7)]
      by (intro exI [of _ V2]) (auto simp: last_insert_def Let_def merges_def agree_def merged_def untouched_def change_of.simps(2))
  next
    case False
    then have "P = []" "V2 = []" "es2 = []" using assms(1,3) by auto
    moreover have "es1 = [(0, 0, length V1)]"
      using transforms_Nil_spaced [of es1 V1] assms(2,4) \<open>P = []\<close> False by blast
    ultimately show ?thesis using cp [OF assms(6)]
      by (intro exI [of _ V1]) (auto simp: last_insert_def Let_def merges_def agree_def merged_def untouched_def change_of.simps(2))
  qed
qed

text \<open>What holds of the triples, of the pivot and of the versions that are left, at every turn of the loop.\<close>

definition in_step :: "edit list \<Rightarrow> edit list \<Rightarrow> string list \<Rightarrow> string list \<Rightarrow> string list \<Rightarrow> bool" where
  "in_step es1 es2 P V1 V2 \<longleftrightarrow> transforms es1 P V1 \<and> transforms es2 P V2 \<and> spaced es1 \<and> spaced es2 \<and>
     line_texts P \<and> line_texts V1 \<and> line_texts V2"

lemma in_step_finished: "in_step es1 es2 P V1 V2 \<Longrightarrow> in_step (finished_triple es1) (finished_triple es2) P V1 V2"
  by (simp add: in_step_def transforms_finished spaced_finished)

text \<open>A turn takes the same lines off the pivot and off the versions, and a merge of the rest goes on.\<close>

definition turn_ok :: "edit list \<Rightarrow> edit list \<Rightarrow> (nat \<Rightarrow> string list \<times> bool) \<Rightarrow> (nat \<Rightarrow> string list \<times> bool) \<Rightarrow> string list \<Rightarrow> string list \<Rightarrow> string list \<Rightarrow> nat \<Rightarrow> nat \<Rightarrow> nat \<Rightarrow> string list \<Rightarrow>
    string list \<Rightarrow> string list \<Rightarrow> string list \<Rightarrow> bool" where
  "turn_ok es1 es2 h1 h2 P V1 V2 np n1 n2 O1 P' V1' V2' \<longleftrightarrow>
     snd (buf_copy_lines (unlines P) np) = unlines P' \<and> snd (buf_copy_lines (unlines V1) n1) = unlines V1' \<and>
     snd (buf_copy_lines (unlines V2) n2) = unlines V2' \<and> in_step es1 es2 P' V1' V2' \<and>
     (\<forall>M. merges (change_of es1 V1') (change_of es2 V2') P' M \<longrightarrow> merges h1 h2 P (O1 @ M))"

lemma turn_copy:
  assumes "in_step ((c1, d1, n1) # r1) ((c2, d2, n2) # r2) P V1 V2" "k \<le> c1" "k \<le> c2"
  shows "\<exists>K P' V1' V2'. fst (buf_copy_lines (unlines P) k) = unlines K \<and>
    turn_ok ((c1 - k, d1, n1) # r1) ((c2 - k, d2, n2) # r2) (change_of ((c1, d1, n1) # r1) V1) (change_of ((c2, d2, n2) # r2) V2) P V1 V2 k k k K P' V1' V2'"
proof -
  from assms(1) have t: "transforms ((c1, d1, n1) # r1) P V1" "transforms ((c2, d2, n2) # r2) P V2" by (simp_all add: in_step_def)
  obtain K P' V1' where a: "P = K @ P'" "V1 = K @ V1'" "length K = k" "transforms ((c1 - k, d1, n1) # r1) P' V1'"
    using transforms_copy [OF t(1) assms(2)] by blast
  obtain K' P'' V2' where b: "P = K' @ P''" "V2 = K' @ V2'" "length K' = k" "transforms ((c2 - k, d2, n2) # r2) P'' V2'"
    using transforms_copy [OF t(2) assms(3)] by blast
  have same: "K' = K" "P'' = P'" using a b by (metis append_eq_append_conv)+
  have lt: "line_texts K" "line_texts P'" "line_texts V1'" "line_texts V2'" using assms(1) a b by (simp_all add: in_step_def)
  have "in_step ((c1 - k, d1, n1) # r1) ((c2 - k, d2, n2) # r2) P' V1' V2'"
    using assms(1) a(4) b(4) same lt spaced_head [of c1 d1 n1 r1 "c1 - k" d1 n1] spaced_head [of c2 d2 n2 r2 "c2 - k" d2 n2]
    by (simp add: in_step_def)
  then show ?thesis
    using a b same merges_copied [of _ _ P' _ K] behind_copied [OF assms(2) a(3), of d1 n1 r1 V1'] behind_copied [OF assms(3) a(3), of d2 n2 r2 V2']
      buf_copy_lines_unlines [OF lt(1) a(3)]
    by - (rule exI [of _ K], rule exI [of _ P'], rule exI [of _ V1'], rule exI [of _ V2'], simp add: turn_ok_def)
qed

lemma turn_second:
  assumes "in_step ((c1, d1, n1) # r1) ((0, d2, n2) # r2) P V1 V2" "d2 \<le> c1" "0 < c1"
  shows "\<exists>I P' V1' V2'. fst (buf_copy_lines (unlines V2) n2) = unlines I \<and>
    turn_ok ((c1 - d2, d1, n1) # r1) r2 (change_of ((c1, d1, n1) # r1) V1) (change_of ((0, d2, n2) # r2) V2) P V1 V2 d2 d2 n2 I P' V1' V2'"
proof -
  from assms(1) have t: "transforms ((c1, d1, n1) # r1) P V1" "transforms ((0, d2, n2) # r2) P V2" by (simp_all add: in_step_def)
  obtain D P' I V2' where a: "P = D @ P'" "V2 = I @ V2'" "length D = d2" "length I = n2" "transforms r2 P' V2'"
    using transforms_edit [OF t(2)] by blast
  obtain K P'' V1' where b: "P = K @ P''" "V1 = K @ V1'" "length K = d2" "transforms ((c1 - d2, d1, n1) # r1) P'' V1'"
    using transforms_copy [OF t(1) assms(2)] by blast
  have same: "K = D" "P'' = P'" using a b by (metis append_eq_append_conv)+
  have lt: "line_texts D" "line_texts I" "line_texts P'" "line_texts V1'" "line_texts V2'"
    using assms(1) a b same by (simp_all add: in_step_def)
  have "in_step ((c1 - d2, d1, n1) # r1) r2 P' V1' V2'"
    using assms(1) a(5) b(4) same lt spaced_head [of c1 d1 n1 r1 "c1 - d2" d1 n1] spaced_tail [of _ r2]
    by (auto simp: in_step_def)
  moreover have "behind d2 (change_of ((c1, d1, n1) # r1) (D @ V1')) (change_of ((c1 - d2, d1, n1) # r1) V1')"
    by (rule behind_copied [OF assms(2) a(3)])
  moreover have "change_of r2 V2' 0 = untouched" using assms(1) spaced_next by (auto simp: in_step_def)
  moreover have "change_of ((c1, d1, n1) # r1) (D @ V1') 0 = untouched" using assms(3) by (simp add: change_of.simps(2))
  ultimately show ?thesis
    using a b same merges_second [of _ _ P' _ D _ I] assms(3) change_of_edit [OF a(4), of d2 r2 V2'] buf_copy_lines_unlines [OF lt(1) a(3)] buf_copy_lines_unlines [OF lt(2) a(4)]
    by - (rule exI [of _ I], rule exI [of _ P'], rule exI [of _ V1'], rule exI [of _ V2'], simp add: turn_ok_def)
qed

text \<open>The versions change places.\<close>

lemma in_step_swap: "in_step es1 es2 P V1 V2 \<longleftrightarrow> in_step es2 es1 P V2 V1"
  by (auto simp: in_step_def)

lemma turn_ok_swap: "turn_ok es1 es2 h1 h2 P V1 V2 np n1 n2 O1 P' V1' V2' \<longleftrightarrow> turn_ok es2 es1 h2 h1 P V2 V1 np n2 n1 O1 P' V2' V1'"
  using merges_swap [of h1 h2 P] merges_swap [of "change_of es1 V1'" "change_of es2 V2'" P'] in_step_swap [of es1 es2 P' V1' V2']
  by (auto simp: turn_ok_def)

lemma turn_first:
  assumes "in_step ((0, d1, n1) # r1) ((c2, d2, n2) # r2) P V1 V2" "d1 \<le> c2" "0 < c2"
  shows "\<exists>I P' V1' V2'. fst (buf_copy_lines (unlines V1) n1) = unlines I \<and>
    turn_ok r1 ((c2 - d1, d2, n2) # r2) (change_of ((0, d1, n1) # r1) V1) (change_of ((c2, d2, n2) # r2) V2) P V1 V2 d1 n1 d1 I P' V1' V2'"
proof -
  have "in_step ((c2, d2, n2) # r2) ((0, d1, n1) # r1) P V2 V1" using assms(1) by (rule in_step_swap [THEN iffD1])
  then obtain I P' V2' V1' where "fst (buf_copy_lines (unlines V1) n1) = unlines I"
      "turn_ok ((c2 - d1, d2, n2) # r2) r1 (change_of ((c2, d2, n2) # r2) V2) (change_of ((0, d1, n1) # r1) V1) P V2 V1 d1 d1 n1 I P' V2' V1'"
    using turn_second assms(2,3) by blast
  then show ?thesis using turn_ok_swap [THEN iffD1] by blast
qed

lemma turn_both:
  assumes "in_step ((0, d, n) # r1) ((0, d, n) # r2) P V1 V2" "sameLines (unlines V1) (unlines V2) n"
  shows "\<exists>I P' V1' V2'. fst (buf_copy_lines (unlines V1) n) = unlines I \<and>
    turn_ok r1 r2 (change_of ((0, d, n) # r1) V1) (change_of ((0, d, n) # r2) V2) P V1 V2 d n n I P' V1' V2'"
proof -
  from assms(1) have t: "transforms ((0, d, n) # r1) P V1" "transforms ((0, d, n) # r2) P V2" by (simp_all add: in_step_def)
  obtain D P' I V1' where a: "P = D @ P'" "V1 = I @ V1'" "length D = d" "length I = n" "transforms r1 P' V1'"
    using transforms_edit [OF t(1)] by blast
  obtain D' P'' I' V2' where b: "P = D' @ P''" "V2 = I' @ V2'" "length D' = d" "length I' = n" "transforms r2 P'' V2'"
    using transforms_edit [OF t(2)] by blast
  have lt: "line_texts D" "line_texts I" "line_texts I'" "line_texts P'" "line_texts V1'" "line_texts V2'"
    using assms(1) a b by (simp_all add: in_step_def)
  have same: "D' = D" "P'' = P'" using a b by (metis append_eq_append_conv)+
  have i: "I' = I" using sameLines_unlines [OF lt(2,3) a(4) b(4), of V1' V2'] assms(2) a b by simp
  have "in_step r1 r2 P' V1' V2'"
    using assms(1) a(5) b(5) same lt spaced_tail [of _ r1] spaced_tail [of _ r2] by (auto simp: in_step_def)
  moreover have "change_of r1 V1' 0 = untouched" "change_of r2 V2' 0 = untouched"
    using assms(1) spaced_next by (auto simp: in_step_def)
  ultimately show ?thesis
    using a b same i merges_both [of _ _ P' _ D I] change_of_edit [OF a(4), of d r1 V1'] change_of_edit [OF a(4), of d r2 V2'] buf_copy_lines_unlines [OF lt(1) a(3)] buf_copy_lines_unlines [OF lt(2) a(4)]
    by - (rule exI [of _ I], rule exI [of _ P'], rule exI [of _ V1'], rule exI [of _ V2'], simp add: turn_ok_def)
qed

definition loop_result :: "(edit list \<times> edit list \<times> string \<times> string \<times> string) \<Rightarrow> string" where
  "loop_result r = (case r of (es1, es2, v1, v2, out) \<Rightarrow> out @ last_insert es1 es2 v1 v2)"

text \<open>The rest of the loop is a merge of what is left, and the turn in front of it one of all.\<close>

lemma turn_in_step: "turn_ok es1 es2 h1 h2 P V1 V2 np n1 n2 O1 P' V1' V2' \<Longrightarrow> in_step (finished_triple es1) (finished_triple es2) P' V1' V2'"
  by (simp add: turn_ok_def in_step_finished)

lemma turn_merges:
  assumes "turn_ok es1 es2 h1 h2 P V1 V2 np n1 n2 O1 P' V1' V2'"
    and "\<exists>M. loop_result r = (out @ unlines O1) @ unlines M \<and>
      merges (change_of (finished_triple es1) V1') (change_of (finished_triple es2) V2') P' M"
  shows "\<exists>M. loop_result r = out @ unlines M \<and> merges h1 h2 P M"
proof -
  have "spaced es1" "spaced es2" using assms(1) by (simp_all add: turn_ok_def in_step_def)
  then obtain M where "loop_result r = (out @ unlines O1) @ unlines M" "merges (change_of es1 V1') (change_of es2 V2') P' M"
    using assms(2) by (auto simp: change_of_finished)
  then have "loop_result r = out @ unlines (O1 @ M)" "merges h1 h2 P (O1 @ M)" using assms(1) by (simp_all add: turn_ok_def)
  then show ?thesis by blast
qed

lemma merge_loop_merges:
  "merge_loop es1 es2 p v1 v2 out = Inr r \<Longrightarrow> p = unlines P \<Longrightarrow> v1 = unlines V1 \<Longrightarrow> v2 = unlines V2 \<Longrightarrow>
   in_step es1 es2 P V1 V2 \<Longrightarrow>
   \<exists>M. loop_result r = out @ unlines M \<and> merges (change_of es1 V1) (change_of es2 V2) P M"
proof (induction es1 es2 p v1 v2 out arbitrary: P V1 V2 rule: merge_loop.induct)
  case (1 c1 d1 n1 r1 c2 d2 n2 r2 p v1 v2 out)
  note loop = "1.prems"(1) [unfolded merge_loop.simps(1) Let_def "1.prems"(2-4)] and p = "1.prems"(2-4)
  consider (copy) "c1 > 0 \<and> c2 > 0"
    | (second) "\<not> (c1 > 0 \<and> c2 > 0)" "c1 \<ge> d2 \<and> c1 > 0 \<and> d2 + n2 > 0"
    | (first) "\<not> (c1 > 0 \<and> c2 > 0)" "\<not> (c1 \<ge> d2 \<and> c1 > 0 \<and> d2 + n2 > 0)" "c2 \<ge> d1 \<and> c2 > 0 \<and> d1 + n1 > 0"
    | (both) "\<not> (c1 > 0 \<and> c2 > 0)" "\<not> (c1 \<ge> d2 \<and> c1 > 0 \<and> d2 + n2 > 0)" "\<not> (c2 \<ge> d1 \<and> c2 > 0 \<and> d1 + n1 > 0)"
        "sameEdit (c1, d1, n1) (c2, d2, n2) v1 v2"
    using loop p by (auto split: if_splits)
  then show ?case
  proof cases
    case copy
    obtain K P' V1' V2' where f: "fst (buf_copy_lines (unlines P) (min c1 c2)) = unlines K" and
      t: "turn_ok ((c1 - min c1 c2, d1, n1) # r1) ((c2 - min c1 c2, d2, n2) # r2)
        (change_of ((c1, d1, n1) # r1) V1) (change_of ((c2, d2, n2) # r2) V2) P V1 V2 (min c1 c2) (min c1 c2) (min c1 c2) K P' V1' V2'"
      using turn_copy [OF "1.prems"(5), of "min c1 c2"] by auto
    show ?thesis
      by (rule turn_merges [OF t], rule "1.IH"(1) [OF copy refl, unfolded p, unfolded f])
        (use loop copy t f turn_in_step [OF t] in \<open>auto simp: turn_ok_def\<close>)
  next
    case second
    then have c2: "c2 = 0" "d2 \<le> c1" "0 < c1" by auto
    obtain I P' V1' V2' where f: "fst (buf_copy_lines (unlines V2) n2) = unlines I" and
      t: "turn_ok ((c1 - d2, d1, n1) # r1) r2 (change_of ((c1, d1, n1) # r1) V1) (change_of ((c2, d2, n2) # r2) V2) P V1 V2 d2 d2 n2 I P' V1' V2'"
      using turn_second [OF "1.prems"(5) [unfolded c2(1)] c2(2,3)] c2(1) by blast
    show ?thesis
      by (rule turn_merges [OF t], rule "1.IH"(2) [OF second, unfolded p, unfolded f])
        (use loop second t f turn_in_step [OF t] in \<open>auto simp: turn_ok_def\<close>)
  next
    case first
    then have c1: "c1 = 0" "d1 \<le> c2" "0 < c2" by auto
    obtain I P' V1' V2' where f: "fst (buf_copy_lines (unlines V1) n1) = unlines I" and
      t: "turn_ok r1 ((c2 - d1, d2, n2) # r2) (change_of ((c1, d1, n1) # r1) V1) (change_of ((c2, d2, n2) # r2) V2) P V1 V2 d1 n1 d1 I P' V1' V2'"
      using turn_first [OF "1.prems"(5) [unfolded c1(1)] c1(2,3)] c1(1) by blast
    show ?thesis
      by (rule turn_merges [OF t], rule "1.IH"(3) [OF first, unfolded p, unfolded f])
        (use loop first t f turn_in_step [OF t] in \<open>auto simp: turn_ok_def\<close>)
  next
    case both
    then have e: "c1 = 0" "c2 = 0" "d2 = d1" "n2 = n1" "sameLines (unlines V1) (unlines V2) n1"
      using p by (auto simp: sameEdit_def split: if_splits)
    obtain I P' V1' V2' where f: "fst (buf_copy_lines (unlines V1) n1) = unlines I" and
      t: "turn_ok r1 r2 (change_of ((c1, d1, n1) # r1) V1) (change_of ((c2, d2, n2) # r2) V2) P V1 V2 d1 n1 n1 I P' V1' V2'"
      using turn_both [OF "1.prems"(5) [unfolded e(1-4)] e(5)] e(1-4) by blast
    show ?thesis
      by (rule turn_merges [OF t], rule "1.IH"(4) [OF both, unfolded p, unfolded f])
        (use loop both t f p turn_in_step [OF t] in \<open>auto simp: turn_ok_def\<close>)
  qed
next
  case (2 es2 p v1 v2 out)
  then show ?case using last_insert_merges [of "[]" es2 P V1 V2] by (auto simp: merge_loop.simps loop_result_def in_step_def change_of_Nil)
next
  case (3 es1 p v1 v2 out)
  then show ?case using last_insert_merges [of es1 "[]" P V1 V2] by (auto simp: merge_loop.simps loop_result_def in_step_def change_of_Nil)
qed

lemma up_to_end_edits: "(0, 0, 0) \<notin> set es \<Longrightarrow> up_to_end (es @ [(0, 0, 0)]) = es"
  by (induction es) (auto simp: up_to_end_def)

lemma line_texts_text_lines: "line_texts (text_lines z)"
  using text_lines_no_newline by (auto simp: line_texts_def)

lemma diffs_in_step:
  assumes "text_diff pPivot pV1 = Some aC1" "text_diff pPivot pV2 = Some aC2"
  shows "in_step (up_to_end aC1) (up_to_end aC2) (text_lines pPivot) (text_lines pV1) (text_lines pV2)"
proof -
  obtain es1 where 1: "aC1 = es1 @ [(0, 0, 0)]" "edits_good es1 (text_lines pPivot) (text_lines pV1)"
    using text_diff_good [OF assms(1)] by blast
  obtain es2 where 2: "aC2 = es2 @ [(0, 0, 0)]" "edits_good es2 (text_lines pPivot) (text_lines pV2)"
    using text_diff_good [OF assms(2)] by blast
  show ?thesis using 1 2 up_to_end_edits [of es1] up_to_end_edits [of es2] line_texts_text_lines
    by (simp add: in_step_def edits_good_def)
qed

text \<open>What the differences say of a version makes the version of the pivot.\<close>

lemma woven_transforms: "transforms es P V \<Longrightarrow> spaced es \<Longrightarrow> woven P (change_of es V) = V"
proof (induction es P V rule: transforms.induct)
  case transforms_Nil
  show ?case by (simp add: untouched_def)
next
  case (transforms_Cons C c D d I n es A B)
  have "woven (D @ A) (change_of ((0, d, n) # es) (I @ B)) = I @ woven A (change_of es B)"
    unfolding change_of_edit [OF transforms_Cons.hyps(3)]
    by (rule woven_edit [OF transforms_Cons.hyps(2)]) (rule spaced_next [OF transforms_Cons.prems])
  also have "\<dots> = I @ B" using transforms_Cons.IH spaced_tail [OF transforms_Cons.prems] by simp
  finally have e: "woven (D @ A) (change_of ((0, d, n) # es) (I @ B)) = I @ B" .
  have k: "behind c (change_of ((c, d, n) # es) (C @ I @ B)) (change_of ((0, d, n) # es) (I @ B))"
    using behind_copied [of c c C d n es "I @ B"] transforms_Cons.hyps(1) by simp
  have "woven (C @ D @ A) (change_of ((c, d, n) # es) (C @ I @ B)) = C @ woven (D @ A) (\<lambda>i. change_of ((c, d, n) # es) (C @ I @ B) (length C + i))"
    by (rule woven_copied) (use transforms_Cons.hyps(1) behind_at [OF k] in simp)
  also have "(\<lambda>i. change_of ((c, d, n) # es) (C @ I @ B) (length C + i)) = change_of ((0, d, n) # es) (I @ B)"
    using k transforms_Cons.hyps(1) by (auto simp: behind_def)
  finally show ?case using e by simp
qed

lemma change_of_diff:
  assumes "text_diff z1 z2 = Some aC"
  shows "change_of (up_to_end aC) (text_lines z2) = change_of aC (text_lines z2)"
    "woven (text_lines z1) (change_of aC (text_lines z2)) = text_lines z2"
proof -
  obtain es where e: "aC = es @ [(0, 0, 0)]" "edits_good es (text_lines z1) (text_lines z2)" using text_diff_good [OF assms] by blast
  then have up: "up_to_end aC = es" using up_to_end_edits by (simp add: edits_good_def)
  show "change_of (up_to_end aC) (text_lines z2) = change_of aC (text_lines z2)" unfolding up by (simp add: e(1) change_of_end)
  show "woven (text_lines z1) (change_of aC (text_lines z2)) = text_lines z2"
    using e woven_transforms [of es "text_lines z1"] by (simp add: change_of_end edits_good_def)
qed

text \<open>C39. Let the lines of a pivot and of two versions all end in a newline, and let \<open>h1\<close> and \<open>h2\<close> be what the
differences found by \<^verbatim>\<open>text_diff\<close> say that each version does at each line of the pivot: which lines it inserts in
front of it and whether it drops it (they make each version of the pivot). When \<^verbatim>\<open>merge_3way\<close> reports a merge as
successful, the versions do the same wherever both touch a line, and the result is exactly what becomes of
the pivot when at each line the change of the version that touches it is made: no insertion and no deletion
of either version is lost, and nothing else is changed.\<close>

theorem merge_is_a_merge:
  fixes h1 h2 :: "nat \<Rightarrow> string list \<times> bool"
  assumes "merge_3way pPivot pV1 pV2 = (0, out)" "terminated pPivot" "terminated pV1" "terminated pV2"
    and "text_diff pPivot pV1 = Some aC1" "text_diff pPivot pV2 = Some aC2"
    and "h1 = change_of aC1 (text_lines pV1)" "h2 = change_of aC2 (text_lines pV2)"
  shows "woven (text_lines pPivot) h1 = text_lines pV1 \<and> woven (text_lines pPivot) h2 = text_lines pV2 \<and>
    (\<forall>i. h1 i = ([], False) \<or> h2 i = ([], False) \<or> h1 i = h2 i) \<and>
    out = unlines (woven (text_lines pPivot) (\<lambda>i. if h1 i = ([], False) then h2 i else h1 i))"
proof -
  obtain r where r: "merge_loop (up_to_end aC1) (up_to_end aC2) pPivot pV1 pV2 [] = Inr r" "out = loop_result r"
    using assms(1,5,6) by (auto simp: merge_3way_def buf_merge_def loop_result_def split: sum.splits)
  have "\<exists>M. out = unlines M \<and> merges h1 h2 (text_lines pPivot) M"
    using merge_loop_merges [OF r(1) _ _ _ diffs_in_step [OF assms(5,6)]] r(2) assms(2-4,7,8)
    by (simp add: unlines_text_lines change_of_diff [OF assms(5)] change_of_diff [OF assms(6)])
  moreover have "merged h1 h2 = (\<lambda>i. if h1 i = ([], False) then h2 i else h1 i)"
    by (rule ext) (simp add: merged_def untouched_def)
  ultimately show ?thesis
    using change_of_diff(2) [OF assms(5)] change_of_diff(2) [OF assms(6)] assms(7,8)
    by (simp add: merges_def agree_def untouched_def)
qed

theorem merge_is_a_merge_witness:
  "(let P = ''a'' @ newline # ''b'' @ newline # ''c'' @ [newline]; V1 = ''x'' @ newline # ''b'' @ newline # ''c'' @ [newline];
        V2 = ''a'' @ newline # ''b'' @ [newline]; h1 = change_of [(0, 1, 1), (2, 0, 0), (0, 0, 0)] (text_lines V1);
        h2 = change_of [(2, 1, 0), (0, 0, 0)] (text_lines V2)
    in woven (text_lines P) h1 = text_lines V1 \<and> woven (text_lines P) h2 = text_lines V2 \<and>
       (\<forall>i. h1 i = ([], False) \<or> h2 i = ([], False) \<or> h1 i = h2 i) \<and>
       ''x'' @ newline # ''b'' @ [newline] = unlines (woven (text_lines P) (\<lambda>i. if h1 i = ([], False) then h2 i else h1 i)))"
  unfolding Let_def by (rule merge_is_a_merge [OF _ _ _ _ _ _ refl refl]) code_simp+

section \<open>A version that is unchanged\<close>

text \<open>The differences of a text to itself.\<close>

lemma common_footer_same: "lines_of p A A \<Longrightarrow> i \<le> length A \<Longrightarrow> common_footer p i i = (0, 0)"
proof (induction i)
  case (Suc i)
  then show ?case by (simp add: lines_of_def)
qed simp

lemma text_diff_same:
  assumes "text_diff z z' \<noteq> None"
  shows "text_diff z z = Some (if z = [] then [(0, 0, 0)] else [(length (text_lines z), 0, 0), (0, 0, 0)])"
proof -
  obtain a where a: "break_into_lines z = Some a" using assms by (auto simp: text_diff_def split: option.splits)
  define p where "p = \<lparr>aFrom = a, aTo = a\<rparr>"
  have l: "lines_of p (text_lines z) (text_lines z)" unfolding p_def by (rule lines_of_break [OF a a])
  then have len: "length a = length (text_lines z)" by (simp add: lines_of_def p_def)
  have "diff_all p = (if z = [] then [(0, 0, 0)] else [(length (text_lines z), 0, 0), (0, 0, 0)])"
    using common_footer_same [OF l, of "length (text_lines z)"] len
    by (simp add: diff_all_def p_def diff_step.simps appendTriple_def Let_def)
  then show ?thesis using a by (simp add: text_diff_def p_def)
qed

text \<open>The triples of an unchanged version: all lines are copied.\<close>

definition all_copied :: "'a list \<Rightarrow> edit list" where
  "all_copied P = (if P = [] then [] else [(length P, 0, 0)])"

lemma finished_copied: "P = K @ P' \<Longrightarrow> length K = k \<Longrightarrow> finished_triple [(length P - k, 0, 0)] = all_copied P'"
  by (cases P') (auto simp: all_copied_def)

lemma finished_nonzero: "(0, 0, 0) \<notin> set es \<Longrightarrow> finished_triple es = es"
  by (cases es rule: finished_triple.cases) auto

lemma finished_tail: "(0, 0, 0) \<notin> set r \<Longrightarrow> (0, 0, 0) \<notin> set (finished_triple (e # r))"
  by (cases "e # r" rule: finished_triple.cases) auto

lemma last_insert_alone:
  assumes "transforms es [] V" "spaced es" "line_texts V"
  shows "last_insert [] es u (unlines V) = unlines V" "last_insert es [] (unlines V) u = unlines V"
  using transforms_Nil_spaced [OF assms(1,2)] buf_copy_lines_unlines [OF assms(3) refl, of "[]"]
  by (auto simp: last_insert_def Let_def)

lemma edits_good_copy:
  assumes "edits_good ((c, d, n) # r) P V"
  shows "\<exists>K P' V'. P = K @ P' \<and> V = K @ V' \<and> length K = c \<and> edits_good (finished_triple ((0, d, n) # r)) P' V'"
proof -
  obtain K P' V' where k: "P = K @ P'" "V = K @ V'" "length K = c" "transforms ((c - c, d, n) # r) P' V'"
    using transforms_copy [of c d n r P V c] assms unfolding edits_good_def by blast
  then have "edits_good (finished_triple ((0, d, n) # r)) P' V'"
    using assms transforms_finished [OF k(4)] spaced_finished [OF spaced_head [of c d n r 0 d n]] finished_tail [of r "(0, d, n)"]
    by (simp add: edits_good_def)
  then show ?thesis using k by blast
qed

lemma edits_good_edit:
  assumes "edits_good ((0, d, n) # r) P V"
  shows "\<exists>D P' I V'. P = D @ P' \<and> V = I @ V' \<and> length D = d \<and> length I = n \<and> edits_good r P' V'"
  using transforms_edit [of d n r P V] assms spaced_tail [of "(0, d, n)" r] by (auto simp: edits_good_def)

lemma unchanged_first:
  "edits_good es P V \<Longrightarrow> line_texts P \<Longrightarrow> line_texts V \<Longrightarrow>
   \<exists>r. merge_loop (all_copied P) es (unlines P) (unlines P) (unlines V) out = Inr r \<and> loop_result r = out @ unlines V"
proof (induction "copies es" arbitrary: es P V out rule: less_induct)
  case less
  show ?case
  proof (cases "P = [] \<or> es = []")
    case True
    then have "P = []" using less.prems(1) by (auto simp: edits_good_def)
    then show ?thesis using last_insert_alone [of es V] less.prems
      by (simp add: all_copied_def merge_loop.simps loop_result_def edits_good_def)
  next
    case False
    then obtain c d n r where e: "es = (c, d, n) # r" by (cases es) auto
    have m: "all_copied P = [(length P, 0, 0)]" "length P > 0" using False by (auto simp: all_copied_def)
    show ?thesis
    proof (cases "c = 0")
      case True
      have "edits_good ((0, d, n) # r) P V" using less.prems(1) e True by simp
      from edits_good_edit [OF this] obtain D P' I V' where
        a: "P = D @ P'" "V = I @ V'" "length D = d" "length I = n" "edits_good r P' V'" by blast
      have "d + n > 0" using less.prems(1) e True by (auto simp: edits_good_def)
      then have "merge_loop (all_copied P) es (unlines P) (unlines P) (unlines V) out =
          merge_loop (all_copied P') r (unlines P') (unlines P') (unlines V') (out @ unlines I)"
        unfolding m(1) e using m(2) a less.prems(2,3) True finished_copied [OF a(1,3)] finished_nonzero [of r]
          buf_copy_lines_unlines [of D d P'] buf_copy_lines_unlines [of I n V']
        by (subst merge_loop.simps) (auto simp: edits_good_def)
      then show ?thesis using less.hyps [of r P' V' "out @ unlines I"] a less.prems(2,3) e by (simp add: copies_Cons)
    next
      case c: False
      have "edits_good ((c, d, n) # r) P V" using less.prems(1) e by simp
      from edits_good_copy [OF this] obtain K P' V' where
        a: "P = K @ P'" "V = K @ V'" "length K = c" "edits_good (finished_triple ((0, d, n) # r)) P' V'" by blast
      have cp: "buf_copy_lines (unlines P) c = (unlines K, unlines P')" "buf_copy_lines (unlines V) c = (unlines K, unlines V')"
        using a(1,2) less.prems(2) buf_copy_lines_unlines [OF _ a(3)] by simp_all
      have mn: "min (length P) c = c" "min c (length P) = c" using a(1,3) by simp_all
      note fin = finished_copied [OF a(1,3)]
      have "merge_loop (all_copied P) es (unlines P) (unlines P) (unlines V) out =
          merge_loop (all_copied P') (finished_triple ((0, d, n) # r)) (unlines P') (unlines P') (unlines V') (out @ unlines K)"
        unfolding m(1) e using m(2) c by (subst merge_loop.simps) (simp add: cp fin mn Let_def)
      moreover have "copies (finished_triple ((0, d, n) # r)) < copies es"
        using copies_finished [of "(0, d, n) # r"] c e by (simp add: copies_Cons)
      ultimately show ?thesis using less.hyps [of "finished_triple ((0, d, n) # r)" P' V' "out @ unlines K"] a less.prems(2,3) by simp
    qed
  qed
qed

lemma unchanged_second:
  "edits_good es P V \<Longrightarrow> line_texts P \<Longrightarrow> line_texts V \<Longrightarrow>
   \<exists>r. merge_loop es (all_copied P) (unlines P) (unlines V) (unlines P) out = Inr r \<and> loop_result r = out @ unlines V"
proof (induction "copies es" arbitrary: es P V out rule: less_induct)
  case less
  show ?case
  proof (cases "P = [] \<or> es = []")
    case True
    then have "P = []" using less.prems(1) by (auto simp: edits_good_def)
    then show ?thesis using last_insert_alone [of es V] less.prems
      by (simp add: all_copied_def merge_loop.simps loop_result_def edits_good_def)
  next
    case False
    then obtain c d n r where e: "es = (c, d, n) # r" by (cases es) auto
    have m: "all_copied P = [(length P, 0, 0)]" "length P > 0" using False by (auto simp: all_copied_def)
    show ?thesis
    proof (cases "c = 0")
      case True
      have "edits_good ((0, d, n) # r) P V" using less.prems(1) e True by simp
      from edits_good_edit [OF this] obtain D P' I V' where
        a: "P = D @ P'" "V = I @ V'" "length D = d" "length I = n" "edits_good r P' V'" by blast
      have "d + n > 0" using less.prems(1) e True by (auto simp: edits_good_def)
      then have "merge_loop es (all_copied P) (unlines P) (unlines V) (unlines P) out =
          merge_loop r (all_copied P') (unlines P') (unlines V') (unlines P') (out @ unlines I)"
        unfolding m(1) e using m(2) a less.prems(2,3) True finished_copied [OF a(1,3)] finished_nonzero [of r]
          buf_copy_lines_unlines [of D d P'] buf_copy_lines_unlines [of I n V']
        by (subst merge_loop.simps) (auto simp: edits_good_def)
      then show ?thesis using less.hyps [of r P' V' "out @ unlines I"] a less.prems(2,3) e by (simp add: copies_Cons)
    next
      case c: False
      have "edits_good ((c, d, n) # r) P V" using less.prems(1) e by simp
      from edits_good_copy [OF this] obtain K P' V' where
        a: "P = K @ P'" "V = K @ V'" "length K = c" "edits_good (finished_triple ((0, d, n) # r)) P' V'" by blast
      have cp: "buf_copy_lines (unlines P) c = (unlines K, unlines P')" "buf_copy_lines (unlines V) c = (unlines K, unlines V')"
        using a(1,2) less.prems(2) buf_copy_lines_unlines [OF _ a(3)] by simp_all
      have mn: "min (length P) c = c" "min c (length P) = c" using a(1,3) by simp_all
      note fin = finished_copied [OF a(1,3)]
      have "merge_loop es (all_copied P) (unlines P) (unlines V) (unlines P) out =
          merge_loop (finished_triple ((0, d, n) # r)) (all_copied P') (unlines P') (unlines V') (unlines P') (out @ unlines K)"
        unfolding m(1) e using m(2) c by (subst merge_loop.simps) (simp add: cp fin mn Let_def)
      moreover have "copies (finished_triple ((0, d, n) # r)) < copies es"
        using copies_finished [of "(0, d, n) # r"] c e by (simp add: copies_Cons)
      ultimately show ?thesis using less.hyps [of "finished_triple ((0, d, n) # r)" P' V' "out @ unlines K"] a less.prems(2,3) by simp
    qed
  qed
qed

lemma last_insert_same: "last_insert [] [] v1 v2 = []"
  by (simp add: last_insert_def)

lemma same_lines_from_refl: "same_lines_from s s n"
  by (induction s arbitrary: n) auto

lemma same_versions:
  "edits_good es P V \<Longrightarrow> line_texts P \<Longrightarrow> line_texts V \<Longrightarrow>
   \<exists>r. merge_loop es es (unlines P) (unlines V) (unlines V) out = Inr r \<and> loop_result r = out @ unlines V"
proof (induction "copies es" arbitrary: es P V out rule: less_induct)
  case less
  show ?case
  proof (cases es)
    case Nil
    then show ?thesis using less.prems by (simp add: merge_loop.simps loop_result_def edits_good_def last_insert_same)
  next
    case (Cons e r)
    obtain c d n where e: "es = (c, d, n) # r" using Cons by (cases e) auto
    show ?thesis
    proof (cases "c = 0")
      case True
      have "edits_good ((0, d, n) # r) P V" using less.prems(1) e True by simp
      from edits_good_edit [OF this] obtain D P' I V' where
        a: "P = D @ P'" "V = I @ V'" "length D = d" "length I = n" "edits_good r P' V'" by blast
      have cp: "buf_copy_lines (unlines P) d = (unlines D, unlines P')" "buf_copy_lines (unlines V) n = (unlines I, unlines V')"
        using a(1,2) less.prems(2,3) buf_copy_lines_unlines [OF _ a(3)] buf_copy_lines_unlines [OF _ a(4)] by simp_all
      have fin: "finished_triple r = r" using a(5) finished_nonzero by (simp add: edits_good_def)
      have "merge_loop es es (unlines P) (unlines V) (unlines V) out = merge_loop r r (unlines P') (unlines V') (unlines V') (out @ unlines I)"
        unfolding e True by (subst merge_loop.simps) (simp add: cp fin sameEdit_def sameLines_def same_lines_from_refl)
      then show ?thesis using less.hyps [of r P' V' "out @ unlines I"] a less.prems(2,3) e by (simp add: copies_Cons)
    next
      case c: False
      have "edits_good ((c, d, n) # r) P V" using less.prems(1) e by simp
      from edits_good_copy [OF this] obtain K P' V' where
        a: "P = K @ P'" "V = K @ V'" "length K = c" "edits_good (finished_triple ((0, d, n) # r)) P' V'" by blast
      have cp: "buf_copy_lines (unlines P) c = (unlines K, unlines P')" "buf_copy_lines (unlines V) c = (unlines K, unlines V')"
        using a(1,2) less.prems(2) buf_copy_lines_unlines [OF _ a(3)] by simp_all
      have "merge_loop es es (unlines P) (unlines V) (unlines V) out =
          merge_loop (finished_triple ((0, d, n) # r)) (finished_triple ((0, d, n) # r)) (unlines P') (unlines V') (unlines V') (out @ unlines K)"
        unfolding e using c by (subst merge_loop.simps) (simp add: cp Let_def)
      moreover have "copies (finished_triple ((0, d, n) # r)) < copies es"
        using copies_finished [of "(0, d, n) # r"] c e by (simp add: copies_Cons)
      ultimately show ?thesis using less.hyps [of "finished_triple ((0, d, n) # r)" P' V' "out @ unlines K"] a less.prems(2,3) by simp
    qed
  qed
qed

lemma up_to_end_same: "text_diff z z' \<noteq> None \<Longrightarrow> \<exists>aC. text_diff z z = Some aC \<and> up_to_end aC = all_copied (text_lines z)"
  by (drule text_diff_same) (auto simp: up_to_end_def all_copied_def)

lemma merge_3way_result:
  assumes "text_diff pPivot pV1 = Some aC1" "text_diff pPivot pV2 = Some aC2"
    "\<exists>r. merge_loop (up_to_end aC1) (up_to_end aC2) pPivot pV1 pV2 [] = Inr r \<and> loop_result r = [] @ out"
  shows "merge_3way pPivot pV1 pV2 = (0, out)"
  using assms by (auto simp: merge_3way_def buf_merge_def loop_result_def split: prod.splits)

text \<open>C40. A pivot and a version that can be compared, with a newline after every line, merge without a conflict
when only one side has changed: if the first version is the pivot the result is the second, if the second
is the pivot it is the first, and if both are one text it is that text.\<close>

theorem merge_unchanged:
  assumes "text_diff pPivot pV \<noteq> None" "terminated pPivot" "terminated pV"
  shows "merge_3way pPivot pPivot pV = (0, pV) \<and> merge_3way pPivot pV pPivot = (0, pV) \<and> merge_3way pPivot pV pV = (0, pV)"
proof -
  obtain aC where aC: "text_diff pPivot pV = Some aC" using assms(1) by blast
  obtain aP where aP: "text_diff pPivot pPivot = Some aP" "up_to_end aP = all_copied (text_lines pPivot)"
    using up_to_end_same [OF assms(1)] by blast
  have good: "edits_good (up_to_end aC) (text_lines pPivot) (text_lines pV)"
    using text_diff_good [OF aC] up_to_end_edits by (auto simp: edits_good_def)
  note rules = unchanged_first [OF good line_texts_text_lines line_texts_text_lines, of "[]"]
    unchanged_second [OF good line_texts_text_lines line_texts_text_lines, of "[]"]
    same_versions [OF good line_texts_text_lines line_texts_text_lines, of "[]"]
  show ?thesis
    using merge_3way_result [OF aP(1) aC] merge_3way_result [OF aC aP(1)] merge_3way_result [OF aC aC] rules
    unfolding aP(2) unlines_text_lines [OF assms(2)] unlines_text_lines [OF assms(3)] by blast
qed

theorem merge_unchanged_witness:
  "(let a = ''a'' @ [newline]; b = ''b'' @ [newline]
    in merge_3way a a b = (0, b) \<and> merge_3way a b a = (0, b) \<and> merge_3way a b b = (0, b))"
  unfolding Let_def by (rule merge_unchanged) code_simp+

section \<open>A last line without a newline\<close>

text \<open>
  When the last line of the pivot has no newline, the line that a version adds behind it comes out on the same
  line, although the other version has not changed.
\<close>

theorem merge_joins_lines:
  "merge_3way ''a'' (''a'' @ newline # ''b'' @ [newline]) ''a'' = (0, ''ab'' @ [newline])"
  by code_simp

text \<open>After a conflict the result is neither the number of conflicts nor a merge as good as possible.\<close>

theorem merge_conflict_result:
  "merge_3way (''a'' @ [newline] @ ''k'' @ [newline]) (''b'' @ [newline] @ ''k'' @ [newline]) (''c'' @ [newline] @ ''k'' @ [newline]) = (-1, [])"
  by code_simp

end
