(* ===== verification/Port_Mode.thy ===== *)
theory Port_Mode
  imports C_Format
begin

text \<open>
  \<^verbatim>\<open>libpkg/port_mode.c\<close> and \<^verbatim>\<open>libpkg/port_strmode.c\<close>: octal and symbolic file modes as commands on
  mode bits, their application, their compression, and the letters of \<^verbatim>\<open>ls -l\<close>. A mode has 16
  bits, as on the BSDs; the array of commands is a list, whose end is the terminating command.
\<close>

unbundle bit_operations_syntax

type_synonym mode = "16 word"

definition S_ISUID :: mode where "S_ISUID = 2048"
definition S_ISGID :: mode where "S_ISGID = 1024"
definition S_ISTXT :: mode where "S_ISTXT = 512"
definition S_IRWXU :: mode where "S_IRWXU = 448"
definition S_IRWXG :: mode where "S_IRWXG = 56"
definition S_IRWXO :: mode where "S_IRWXO = 7"

definition READ_BITS :: mode where "READ_BITS = 256 + 32 + 4"
definition WRITE_BITS :: mode where "WRITE_BITS = 128 + 16 + 2"
definition EXEC_BITS :: mode where "EXEC_BITS = 64 + 8 + 1"

definition STANDARD_BITS :: mode where
  "STANDARD_BITS = S_ISUID OR S_ISGID OR S_IRWXU OR S_IRWXG OR S_IRWXO"

lemmas mode_bits = S_ISUID_def S_ISGID_def S_ISTXT_def S_IRWXU_def S_IRWXG_def S_IRWXO_def
  READ_BITS_def WRITE_BITS_def EXEC_BITS_def STANDARD_BITS_def

section \<open>Applying commands\<close>

text \<open>The second byte of a command is only used by the commands that copy bits.\<close>

record bitcmd =
  bc_cmd :: char
  bc_clr :: bool
  bc_set :: bool
  bc_gbits :: bool
  bc_obits :: bool
  bc_ubits :: bool
  bc_bits :: mode

definition copy_bits :: "mode \<Rightarrow> bitcmd \<Rightarrow> mode \<Rightarrow> mode" where
  "copy_bits value c m =
     (let clrval = (if bc_set c then S_IRWXO else value);
          m1 = (if bc_clr c \<and> bc_ubits c then m AND NOT (push_bit 6 clrval AND bc_bits c) else m);
          m2 = (if bc_clr c \<and> bc_gbits c then m1 AND NOT (push_bit 3 clrval AND bc_bits c) else m1);
          m3 = (if bc_clr c \<and> bc_obits c then m2 AND NOT (clrval AND bc_bits c) else m2);
          m4 = (if bc_set c \<and> bc_ubits c then m3 OR (push_bit 6 value AND bc_bits c) else m3);
          m5 = (if bc_set c \<and> bc_gbits c then m4 OR (push_bit 3 value AND bc_bits c) else m4)
      in if bc_set c \<and> bc_obits c then m5 OR (value AND bc_bits c) else m5)"

definition executable :: "mode \<Rightarrow> bool" where
  "executable m \<longleftrightarrow> m AND (16384 OR EXEC_BITS) \<noteq> 0"

definition apply_cmd :: "mode \<Rightarrow> bitcmd \<Rightarrow> mode \<Rightarrow> mode" where
  "apply_cmd omode c m =
     (if bc_cmd c = CHR ''u'' then copy_bits (drop_bit 6 (m AND S_IRWXU)) c m
      else if bc_cmd c = CHR ''g'' then copy_bits (drop_bit 3 (m AND S_IRWXG)) c m
      else if bc_cmd c = CHR ''o'' then copy_bits (m AND S_IRWXO) c m
      else if bc_cmd c = CHR ''+'' then m OR bc_bits c
      else if bc_cmd c = CHR ''-'' then m AND NOT (bc_bits c)
      else if executable omode then m OR bc_bits c
      else m)"

fun getmode_loop :: "mode \<Rightarrow> bitcmd list \<Rightarrow> mode \<Rightarrow> mode" where
  "getmode_loop omode [] m = m"
| "getmode_loop omode (c # cs) m =
     (if bc_cmd c \<in> {CHR ''u'', CHR ''g'', CHR ''o'', CHR ''+'', CHR ''-'', CHR ''X''}
      then getmode_loop omode cs (apply_cmd omode c m) else m)"

definition port_getmode :: "bitcmd list \<Rightarrow> mode \<Rightarrow> mode" where
  "port_getmode bbox omode = getmode_loop omode bbox omode"

section \<open>Commands\<close>

definition plain_cmd :: "char \<Rightarrow> mode \<Rightarrow> bitcmd" where
  "plain_cmd c bits = \<lparr>bc_cmd = c, bc_clr = False, bc_set = False, bc_gbits = False, bc_obits = False, bc_ubits = False, bc_bits = bits\<rparr>"

text \<open>The commands that \<open>addcmd\<close> writes; \<open>oparg\<close> is a character for the copying ones.\<close>

definition masked :: "mode \<Rightarrow> mode \<Rightarrow> mode \<Rightarrow> mode" where
  "masked who msk oparg = (if who \<noteq> 0 then who else msk) AND oparg"

definition addcmd :: "char \<Rightarrow> mode \<Rightarrow> mode \<Rightarrow> mode \<Rightarrow> bitcmd list" where
  "addcmd op who oparg msk =
     (if op = CHR ''='' then
        [plain_cmd CHR ''-'' (if who \<noteq> 0 then who else STANDARD_BITS), plain_cmd CHR ''+'' (masked who msk oparg)]
      else [plain_cmd op (masked who msk oparg)])"

definition addcmd_copy :: "char \<Rightarrow> mode \<Rightarrow> char \<Rightarrow> mode \<Rightarrow> bitcmd list" where
  "addcmd_copy op who oparg msk =
     [\<lparr>bc_cmd = op, bc_clr = oparg \<in> {CHR ''-'', CHR ''=''}, bc_set = oparg \<in> {CHR ''+'', CHR ''=''},
       bc_gbits = who = 0 \<or> who AND 32 \<noteq> 0, bc_obits = who = 0 \<or> who AND 4 \<noteq> 0,
       bc_ubits = who = 0 \<or> who AND 256 \<noteq> 0, bc_bits = if who \<noteq> 0 then - 1 else msk\<rparr>]"

text \<open>
  The macro \<^verbatim>\<open>ADDCMD\<close> on the array and its size: it grows the array before the last two places are
  used. \<open>None\<close> is a command written behind the array.
\<close>

record cmd_array =
  ca_cmds :: "bitcmd list"
  ca_setlen :: nat

definition ADDCMD :: "bitcmd list \<Rightarrow> cmd_array \<Rightarrow> cmd_array option" where
  "ADDCMD cs a =
     (let a' = (if length (ca_cmds a) \<ge> ca_setlen a - 2 then a\<lparr>ca_setlen := ca_setlen a + 4\<rparr> else a) in
      if length (ca_cmds a') + length cs \<le> ca_setlen a' then Some (a'\<lparr>ca_cmds := ca_cmds a' @ cs\<rparr>) else None)"

definition terminate_array :: "cmd_array \<Rightarrow> bitcmd list option" where
  "terminate_array a = (if length (ca_cmds a) < ca_setlen a then Some (ca_cmds a) else None)"

definition new_array :: cmd_array where
  "new_array = \<lparr>ca_cmds = [], ca_setlen = 8\<rparr>"

section \<open>Compression\<close>

definition simple :: "bitcmd \<Rightarrow> bool" where
  "simple c \<longleftrightarrow> bc_cmd c \<in> {CHR ''+'', CHR ''-'', CHR ''X''}"

fun gather :: "mode \<Rightarrow> mode \<Rightarrow> mode \<Rightarrow> bitcmd list \<Rightarrow> mode \<times> mode \<times> mode" where
  "gather setbits clrbits Xbits [] = (setbits, clrbits, Xbits)"
| "gather setbits clrbits Xbits (c # cs) =
     (if bc_cmd c = CHR ''-'' then gather (setbits AND NOT (bc_bits c)) (clrbits OR bc_bits c) (Xbits AND NOT (bc_bits c)) cs
      else if bc_cmd c = CHR ''+'' then gather (setbits OR bc_bits c) (clrbits AND NOT (bc_bits c)) (Xbits AND NOT (bc_bits c)) cs
      else gather setbits clrbits (Xbits OR (bc_bits c AND NOT setbits)) cs)"

definition compact :: "bitcmd list \<Rightarrow> bitcmd list" where
  "compact cs =
     (case gather 0 0 0 cs of (setbits, clrbits, Xbits) \<Rightarrow>
        (if clrbits \<noteq> 0 then [plain_cmd CHR ''-'' clrbits] else []) @
        (if setbits \<noteq> 0 then [plain_cmd CHR ''+'' setbits] else []) @
        (if Xbits \<noteq> 0 then [plain_cmd CHR ''X'' Xbits] else []))"

function compress_mode :: "bitcmd list \<Rightarrow> bitcmd list" where
  "compress_mode [] = []"
| "compress_mode (c # cs) =
     (if simple c then compact (takeWhile simple (c # cs)) @ compress_mode (dropWhile simple (c # cs))
      else c # compress_mode cs)"
  by pat_completeness auto
termination
  by (relation "measure length") (auto simp: less_Suc_eq_le length_dropWhile_le)

section \<open>Parsing\<close>

fun parse_who :: "mode \<Rightarrow> string \<Rightarrow> mode \<times> string" where
  "parse_who who [] = (who, [])"
| "parse_who who (c # p) =
     (if c = CHR ''a'' then parse_who (who OR STANDARD_BITS) p
      else if c = CHR ''u'' then parse_who (who OR (S_ISUID OR S_IRWXU)) p
      else if c = CHR ''g'' then parse_who (who OR (S_ISGID OR S_IRWXG)) p
      else if c = CHR ''o'' then parse_who (who OR S_IRWXO) p
      else (who, c # p))"

text \<open>The end of a list of permissions.\<close>

definition flush_perm :: "mode \<Rightarrow> char \<Rightarrow> mode \<Rightarrow> mode \<Rightarrow> mode \<Rightarrow> bool \<Rightarrow> cmd_array \<Rightarrow> (bool \<times> cmd_array) option" where
  "flush_perm msk op who perm permXbits eqdone a =
     (let now = perm \<noteq> 0 \<or> (op = CHR ''='' \<and> \<not> eqdone) in
      case (if now then ADDCMD (addcmd op who perm msk) a else Some a) of
        None \<Rightarrow> None
      | Some a' \<Rightarrow>
          map_option (Pair (eqdone \<or> (now \<and> op = CHR ''='')))
            (if permXbits \<noteq> 0 then ADDCMD (addcmd CHR ''X'' who permXbits msk) a' else Some a'))"

text \<open>The set-id and sticky bits are ignored if only the other users are meant.\<close>

definition not_other :: "mode \<Rightarrow> bool" where
  "not_other who \<longleftrightarrow> who = 0 \<or> who AND NOT S_IRWXO \<noteq> 0"

definition perm_letter :: "char \<Rightarrow> mode \<times> mode \<times> mode \<Rightarrow> (mode \<times> mode \<times> mode) option" where
  "perm_letter c st =
     (case st of (who, perm, permXbits) \<Rightarrow>
        if c = CHR ''r'' then Some (who, perm OR READ_BITS, permXbits)
        else if c = CHR ''s'' then Some (who, if not_other who then perm OR (S_ISUID OR S_ISGID) else perm, permXbits)
        else if c = CHR ''t'' then Some (if not_other who then (who OR S_ISTXT, perm OR S_ISTXT, permXbits) else st)
        else if c = CHR ''w'' then Some (who, perm OR WRITE_BITS, permXbits)
        else if c = CHR ''X'' then Some (who, perm, EXEC_BITS)
        else if c = CHR ''x'' then Some (who, perm OR EXEC_BITS, permXbits)
        else None)"

text \<open>What a letter that copies permissions adds to the array.\<close>

definition copy_perm :: "mode \<Rightarrow> char \<Rightarrow> char \<Rightarrow> mode \<Rightarrow> mode \<Rightarrow> mode \<Rightarrow> cmd_array \<Rightarrow> cmd_array option" where
  "copy_perm msk op c who perm permXbits a =
     (case (if perm \<noteq> 0 then ADDCMD (addcmd op who perm msk) a else Some a) of
        None \<Rightarrow> None
      | Some a1 \<Rightarrow>
          (case (if op = CHR ''+'' \<and> permXbits \<noteq> 0 then ADDCMD (addcmd CHR ''X'' who permXbits msk) a1 else Some a1) of
             None \<Rightarrow> None
           | Some a2 \<Rightarrow> ADDCMD (addcmd_copy c who op msk) a2))"

fun parse_perm ::
  "mode \<Rightarrow> char \<Rightarrow> mode \<times> mode \<times> mode \<Rightarrow> bool \<Rightarrow> string \<Rightarrow> cmd_array \<Rightarrow> (mode \<times> bool \<times> cmd_array \<times> string) option" where
  "parse_perm msk op st eqdone [] a =
     (case st of (who, perm, permXbits) \<Rightarrow>
        map_option (\<lambda>(e, a'). (who, e, a', [])) (flush_perm msk op who perm permXbits eqdone a))"
| "parse_perm msk op st eqdone (c # p) a =
     (case perm_letter c st of
        Some st' \<Rightarrow> parse_perm msk op st' eqdone p a
      | None \<Rightarrow>
          (case st of (who, perm, permXbits) \<Rightarrow>
             if c \<in> {CHR ''u'', CHR ''g'', CHR ''o''} then
               (case copy_perm msk op c who perm permXbits a of
                  None \<Rightarrow> None
                | Some a' \<Rightarrow>
                    parse_perm msk op (who, 0, if op = CHR ''+'' then 0 else permXbits) (eqdone \<or> op = CHR ''='') p a')
             else map_option (\<lambda>(e, a'). (who, e, a', c # p)) (flush_perm msk op who perm permXbits eqdone a)))"

lemma parse_who_length: "length (snd (parse_who who p)) \<le> length p"
  by (induction who p rule: parse_who.induct) (auto intro: le_SucI)

lemma parse_perm_length: "parse_perm msk op st e p a = Some (w, e', a', p') \<Longrightarrow> length p' \<le> length p"
proof (induction p arbitrary: st e a)
  case (Cons c p)
  obtain who perm x where st: "st = (who, perm, x)" by (metis prod_cases3)
  show ?case
  proof (cases "perm_letter c st")
    case None
    then show ?thesis using Cons.prems Cons.IH st by (auto split: if_splits option.splits intro: le_SucI)
  next
    case (Some st')
    then have "parse_perm msk op st' e p a = Some (w, e', a', p')" using Cons.prems by simp
    from Cons.IH [OF this] show ?thesis by simp
  qed
qed (auto split: prod.splits)

text \<open>The clauses from an operator on; the inner \<open>None\<close> is \<^verbatim>\<open>EINVAL\<close>.\<close>

function parse_ops :: "mode \<Rightarrow> mode \<Rightarrow> bool \<Rightarrow> string \<Rightarrow> cmd_array \<Rightarrow> cmd_array option option" where
  "parse_ops msk who eqdone [] a = Some None"
| "parse_ops msk who eqdone (op # p) a =
     (if op \<notin> {CHR ''+'', CHR ''-'', CHR ''=''} then Some None
      else (case parse_perm msk op (who AND NOT S_ISTXT, 0, 0) (eqdone \<and> op \<noteq> CHR ''='') p a of
              None \<Rightarrow> None
            | Some (who', e, a', []) \<Rightarrow> Some (Some a')
            | Some (who', e, a', c # p') \<Rightarrow>
                if c = CHR '','' then parse_ops msk (fst (parse_who 0 p')) e (snd (parse_who 0 p')) a'
                else parse_ops msk who' e (c # p') a'))"
  by pat_completeness auto
termination
  by (relation "measure (\<lambda>(m, w, e, p, a). length p)")
    (auto dest!: parse_perm_length intro: le_less_trans [OF parse_who_length])

fun octal_value :: "nat \<Rightarrow> string \<Rightarrow> nat" where
  "octal_value n [] = n"
| "octal_value n (c # s) = octal_value (8 * n + (code c - 48)) s"

definition isodigit :: "char \<Rightarrow> bool" where
  "isodigit c \<longleftrightarrow> 48 \<le> code c \<and> code c \<le> 55"

text \<open>
  \<open>port_setmode\<close>, given the complement of the umask. An octal number that \<^verbatim>\<open>strtol\<close> cuts off has
  illegal bits as well.
\<close>

definition port_setmode :: "mode \<Rightarrow> string \<Rightarrow> bitcmd list option option" where
  "port_setmode msk p =
     (if p = [] then Some None
      else if isdigit (hd p) then
        (if \<exists>c \<in> set p. \<not> isodigit c then Some None
         else if octal_value 0 p \<ge> 4096 then Some None
         else (case ADDCMD (addcmd CHR ''='' (STANDARD_BITS OR S_ISTXT) (of_nat (octal_value 0 p)) msk) new_array of
                 None \<Rightarrow> None
               | Some a \<Rightarrow> map_option Some (terminate_array a)))
      else (case parse_ops msk (fst (parse_who 0 p)) False (snd (parse_who 0 p)) new_array of
              None \<Rightarrow> None
            | Some None \<Rightarrow> Some None
            | Some (Some a) \<Rightarrow> map_option (\<lambda>cs. Some (compress_mode cs)) (terminate_array a)))"

section \<open>The array is never overrun\<close>

definition array_ok :: "cmd_array \<Rightarrow> bool" where
  "array_ok a \<longleftrightarrow> 8 \<le> ca_setlen a \<and> length (ca_cmds a) < ca_setlen a"

lemma ADDCMD_ok: "array_ok a \<Longrightarrow> length cs \<le> 2 \<Longrightarrow> \<exists>a'. ADDCMD cs a = Some a' \<and> array_ok a'"
  by (auto simp: ADDCMD_def array_ok_def Let_def)

lemma length_addcmd: "length (addcmd op who oparg msk) \<le> 2" "length (addcmd_copy op who c msk) \<le> 2"
  by (simp_all add: addcmd_def addcmd_copy_def)

lemma add_if_ok: "array_ok a \<Longrightarrow> length cs \<le> 2 \<Longrightarrow> \<exists>a'. (if b then ADDCMD cs a else Some a) = Some a' \<and> array_ok a'"
  using ADDCMD_ok by simp

lemma flush_perm_ok:
  assumes "array_ok a"
  shows "\<exists>e a'. flush_perm msk op who perm x eqdone a = Some (e, a') \<and> array_ok a'"
proof -
  obtain a1 where 1: "(if perm \<noteq> 0 \<or> (op = CHR ''='' \<and> \<not> eqdone) then ADDCMD (addcmd op who perm msk) a else Some a) = Some a1" "array_ok a1"
    using add_if_ok [OF assms length_addcmd(1)] by blast
  obtain a2 where "(if x \<noteq> 0 then ADDCMD (addcmd CHR ''X'' who x msk) a1 else Some a1) = Some a2" "array_ok a2"
    using add_if_ok [OF 1(2) length_addcmd(1)] by blast
  then show ?thesis using 1(1) by (simp add: flush_perm_def Let_def)
qed

lemma copy_perm_ok:
  assumes "array_ok a"
  shows "\<exists>a'. copy_perm msk op c who perm x a = Some a' \<and> array_ok a'"
proof -
  obtain a1 where 1: "(if perm \<noteq> 0 then ADDCMD (addcmd op who perm msk) a else Some a) = Some a1" "array_ok a1"
    using add_if_ok [OF assms length_addcmd(1)] by blast
  obtain a2 where 2: "(if op = CHR ''+'' \<and> x \<noteq> 0 then ADDCMD (addcmd CHR ''X'' who x msk) a1 else Some a1) = Some a2" "array_ok a2"
    using add_if_ok [OF 1(2) length_addcmd(1)] by blast
  obtain a3 where "ADDCMD (addcmd_copy c who op msk) a2 = Some a3" "array_ok a3"
    using ADDCMD_ok [OF 2(2) length_addcmd(2)] by blast
  then show ?thesis using 1(1) 2(1) by (simp add: copy_perm_def)
qed

lemma parse_perm_ok:
  "array_ok a \<Longrightarrow> \<exists>w e' a' p'. parse_perm msk op st e p a = Some (w, e', a', p') \<and> array_ok a'"
proof (induction p arbitrary: st e a)
  case Nil
  obtain who perm x where st: "st = (who, perm, x)" by (metis prod_cases3)
  show ?case using flush_perm_ok [OF Nil, of msk op who perm x e] st by auto
next
  case (Cons c p)
  obtain who perm x where st: "st = (who, perm, x)" by (metis prod_cases3)
  show ?case
  proof (cases "perm_letter c st")
    case None
    show ?thesis
    proof (cases "c \<in> {CHR ''u'', CHR ''g'', CHR ''o''}")
      case True
      obtain a' where "copy_perm msk op c who perm x a = Some a'" "array_ok a'" using copy_perm_ok [OF Cons.prems] by blast
      then show ?thesis using Cons.IH [of a'] None True st by simp
    next
      case False
      then show ?thesis using flush_perm_ok [OF Cons.prems, of msk op who perm x e] None st by auto
    qed
  next
    case (Some st')
    then show ?thesis using Cons.IH [OF Cons.prems] by simp
  qed
qed

lemma parse_ops_ok:
  "array_ok a \<Longrightarrow> parse_ops msk who e p a = Some None \<or> (\<exists>a'. parse_ops msk who e p a = Some (Some a') \<and> array_ok a')"
proof (induction msk who e p a rule: parse_ops.induct)
  case (2 msk who e op p a)
  show ?case
  proof (cases "op \<in> {CHR ''+'', CHR ''-'', CHR ''=''}")
    case True
    then have op: "\<not> op \<notin> {CHR ''+'', CHR ''-'', CHR ''=''}" by simp
    obtain w e' a' p' where pp: "parse_perm msk op (who AND NOT S_ISTXT, 0, 0) (e \<and> op \<noteq> CHR ''='') p a = Some (w, e', a', p')" "array_ok a'"
      using parse_perm_ok [OF 2(3)] by blast
    show ?thesis
    proof (cases p')
      case Nil
      then show ?thesis using True pp by (subst (1 2) parse_ops.simps) simp
    next
      case (Cons c r)
      show ?thesis
      proof (cases "c = CHR '',''")
        case c: True
        then show ?thesis
          using 2(1) [OF op pp(1) refl refl refl Cons c pp(2)] True pp(1) Cons by (subst (1 2) parse_ops.simps) simp
      next
        case False
        then show ?thesis
          using 2(2) [OF op pp(1) refl refl refl Cons False pp(2)] True pp(1) Cons by (subst (1 2) parse_ops.simps) simp
      qed
    qed
  qed simp
qed simp

text \<open>Parsing a mode never writes behind its array of commands, whatever the mode says.\<close>

theorem setmode_in_bounds: "port_setmode msk p \<noteq> None"
proof -
  have n: "array_ok new_array" by (simp add: array_ok_def new_array_def)
  obtain a where a: "ADDCMD (addcmd CHR ''='' (STANDARD_BITS OR S_ISTXT) (of_nat (octal_value 0 p)) msk) new_array = Some a" "array_ok a"
    using ADDCMD_ok [OF n length_addcmd(1)] by blast
  have t: "terminate_array x \<noteq> None" if "array_ok x" for x using that by (simp add: terminate_array_def array_ok_def)
  show ?thesis
    using parse_ops_ok [OF n, of msk "fst (parse_who 0 p)" False "snd (parse_who 0 p)"] a t
    by (auto simp: port_setmode_def split: option.split)
qed

section \<open>Compression keeps the meaning\<close>

definition effect :: "mode \<Rightarrow> mode \<times> mode \<times> mode \<Rightarrow> mode \<Rightarrow> mode" where
  "effect omode st m =
     (case st of (setbits, clrbits, Xbits) \<Rightarrow> ((m AND NOT clrbits) OR setbits) OR (if executable omode then Xbits else 0))"

lemma gather_effect:
  assumes "\<forall>c \<in> set cs. simple c"
  shows "effect omode (gather s k x cs) m = fold (apply_cmd omode) cs (effect omode (s, k, x) m)"
  using assms
proof (induction cs arbitrary: s k x)
  case (Cons c cs)
  have step: "effect omode (s AND NOT b, k OR b, x AND NOT b) m = effect omode (s, k, x) m AND NOT b"
    "effect omode (s OR b, k AND NOT b, x AND NOT b) m = effect omode (s, k, x) m OR b"
    "effect omode (s, k, x OR (b AND NOT s)) m = (if executable omode then effect omode (s, k, x) m OR b else effect omode (s, k, x) m)" for b
    by (rule bit_word_eqI; auto simp: effect_def bit_simps)+
  have "bc_cmd c = CHR ''+'' \<or> bc_cmd c = CHR ''-'' \<or> bc_cmd c = CHR ''X''" using Cons.prems by (simp add: simple_def)
  then show ?case using Cons.IH Cons.prems step by (auto simp: apply_cmd_def)
qed simp

lemma getmode_simple:
  "\<forall>c \<in> set cs. simple c \<Longrightarrow> getmode_loop omode (cs @ ds) m = getmode_loop omode ds (fold (apply_cmd omode) cs m)"
  by (induction cs arbitrary: m) (auto simp: simple_def)

lemma compact_effect:
  assumes "\<forall>c \<in> set cs. simple c"
  shows "getmode_loop omode (compact cs @ ds) m = getmode_loop omode (cs @ ds) m"
proof -
  obtain s k x where g: "gather 0 0 0 cs = (s, k, x)" by (metis prod_cases3)
  have "\<forall>c \<in> set (compact cs). simple c" by (auto simp: compact_def g simple_def plain_cmd_def split: if_splits)
  moreover have "fold (apply_cmd omode) (compact cs) m = effect omode (s, k, x) m"
    by (auto simp: compact_def g effect_def apply_cmd_def plain_cmd_def)
  moreover have "effect omode (0, 0, 0) m = m" by (simp add: effect_def)
  ultimately show ?thesis
    using gather_effect [OF assms, of omode 0 0 0 m] getmode_simple assms by (simp add: g)
qed

text \<open>Each of the three commands that are left stands for one of its kind in the group.\<close>

lemma gather_set: "fst (gather s k x cs) \<noteq> 0 \<Longrightarrow> s \<noteq> 0 \<or> (\<exists>c \<in> set cs. bc_cmd c = CHR ''+'')"
proof (induction cs arbitrary: s k x)
  case (Cons c cs)
  have "s AND NOT (bc_bits c) \<noteq> 0 \<Longrightarrow> s \<noteq> 0" by auto
  with Cons show ?case by (fastforce split: if_splits)
qed simp

lemma gather_clear: "fst (snd (gather s k x cs)) \<noteq> 0 \<Longrightarrow> k \<noteq> 0 \<or> (\<exists>c \<in> set cs. bc_cmd c = CHR ''-'')"
proof (induction cs arbitrary: s k x)
  case (Cons c cs)
  have "k AND NOT (bc_bits c) \<noteq> 0 \<Longrightarrow> k \<noteq> 0" by auto
  with Cons show ?case by (fastforce split: if_splits)
qed simp

lemma gather_exec:
  "snd (snd (gather s k x cs)) \<noteq> 0 \<Longrightarrow> x \<noteq> 0 \<or> (\<exists>c \<in> set cs. bc_cmd c \<noteq> CHR ''+'' \<and> bc_cmd c \<noteq> CHR ''-'')"
proof (induction cs arbitrary: s k x)
  case (Cons c cs)
  have "x AND NOT (bc_bits c) \<noteq> 0 \<Longrightarrow> x \<noteq> 0" by auto
  with Cons show ?case by (fastforce split: if_splits)
qed simp

lemma length_ge_classes:
  "length (filter P cs) + length (filter Q cs) + length (filter (\<lambda>c. \<not> P c \<and> \<not> Q c) cs) \<le> length cs"
  if "\<And>c. \<not> (P c \<and> Q c)"
  using that by (induction cs) (auto intro: le_SucI)

lemma one_le_filter: "\<exists>c \<in> set cs. P c \<Longrightarrow> 1 \<le> length (filter P cs)"
  by (induction cs) auto

lemma length_compact: "length (compact cs) \<le> length cs"
proof -
  obtain s k x where g: "gather 0 0 0 cs = (s, k, x)" by (metis prod_cases3)
  let ?P = "\<lambda>c. bc_cmd c = CHR ''+''" and ?Q = "\<lambda>c. bc_cmd c = CHR ''-''"
  have "length (compact cs) \<le> (if k \<noteq> 0 then 1 else 0) + (if s \<noteq> 0 then 1 else 0) + (if x \<noteq> 0 then 1 else 0)"
    by (simp add: compact_def g)
  moreover have "(if s \<noteq> 0 then 1 else 0) \<le> length (filter ?P cs)" "(if k \<noteq> 0 then 1 else 0) \<le> length (filter ?Q cs)"
    "(if x \<noteq> 0 then 1 else 0) \<le> length (filter (\<lambda>c. \<not> ?P c \<and> \<not> ?Q c) cs)"
    using gather_set [of 0 0 0 cs] gather_clear [of 0 0 0 cs] gather_exec [of 0 0 0 cs] one_le_filter [of cs] by (auto simp: g)
  ultimately show ?thesis using length_ge_classes [of ?P ?Q cs] by (auto split: if_splits)
qed

lemma length_compress: "length (compress_mode cs) \<le> length cs"
proof (induction cs rule: compress_mode.induct)
  case (2 c cs)
  show ?case
  proof (cases "simple c")
    case True
    have "length (compact (takeWhile simple (c # cs))) + length (compress_mode (dropWhile simple (c # cs)))
      \<le> length (takeWhile simple (c # cs)) + length (dropWhile simple (c # cs))"
      using length_compact 2(1) [OF True] by (rule add_mono)
    also have "\<dots> = length (takeWhile simple (c # cs) @ dropWhile simple (c # cs))" by (simp only: length_append)
    finally have "length (compact (takeWhile simple (c # cs))) + length (compress_mode (dropWhile simple (c # cs))) \<le> length (c # cs)"
      by (simp only: takeWhile_dropWhile_id)
    with True show ?thesis by simp
  qed (use 2(2) in simp)
qed simp

text \<open>C26. Compressing the commands of a mode changes the result for no file, and needs no more room than
  the commands had, which is why it may work in place.
\<close>

theorem compress_mode_correct:
  "port_getmode (compress_mode cs) m = port_getmode cs m \<and> length (compress_mode cs) \<le> length cs"
proof -
  have "getmode_loop omode (compress_mode cs) m' = getmode_loop omode cs m'" for omode m'
  proof (induction cs arbitrary: m' rule: compress_mode.induct)
    case (2 c cs)
    show ?case
    proof (cases "simple c")
      case True
      let ?t = "takeWhile simple (c # cs)" and ?d = "dropWhile simple (c # cs)"
      have s: "\<forall>x \<in> set ?t. simple x" using set_takeWhileD by fast
      have "getmode_loop omode (compact ?t @ compress_mode ?d) m' = getmode_loop omode (compress_mode ?d) (fold (apply_cmd omode) ?t m')"
        using compact_effect [OF s] getmode_simple [OF s] by simp
      also have "\<dots> = getmode_loop omode (?t @ ?d) m'"
        using 2(1) [OF True] getmode_simple [OF s, of omode ?d] by simp
      finally show ?thesis using True by simp
    next
      case False
      then show ?thesis using 2(2) by simp
    qed
  qed simp
  then show ?thesis using length_compress by (simp add: port_getmode_def)
qed

section \<open>Octal modes\<close>

text \<open>The digits of \<^verbatim>\<open>%o\<close>.\<close>

fun oct_digits :: "nat \<Rightarrow> string" where
  "oct_digits n = (if n < 8 then [char_of (48 + n)] else oct_digits (n div 8) @ [char_of (48 + n mod 8)])"

declare oct_digits.simps [simp del]

lemma octal_value_append: "octal_value n (s @ t) = octal_value (octal_value n s) t"
  by (induction n s rule: octal_value.induct) simp_all

lemma code_octal_digit: "d < 8 \<Longrightarrow> code (char_of (48 + d)) = 48 + d"
  by (simp add: code_def)

lemma octal_value_oct_digits: "octal_value 0 (oct_digits n) = n"
proof (induction n rule: oct_digits.induct)
  case (1 n)
  then show ?case
    by (subst oct_digits.simps) (simp add: octal_value_append code_octal_digit)
qed

lemma isodigit_oct_digits: "c \<in> set (oct_digits n) \<Longrightarrow> isodigit c"
proof (induction n rule: oct_digits.induct)
  case (1 n)
  have "isodigit (char_of (48 + d))" if "d < 8" for d :: nat using that by (simp add: isodigit_def code_octal_digit)
  then show ?case using 1 by (subst (asm) (2) oct_digits.simps) (auto split: if_splits)
qed

lemma oct_digits_not_Nil [simp]: "oct_digits n \<noteq> []"
  by (subst oct_digits.simps) simp

lemma isodigit_isdigit: "isodigit c \<Longrightarrow> isdigit c"
  by (simp add: isodigit_def isdigit_def)

text \<open>An octal mode that is printed and read again sets exactly its twelve bits and keeps the type of
  the file; a number with more bits is refused.
\<close>

theorem octal_mode_roundtrip:
  "port_setmode msk (oct_digits n) =
     (if n < 4096 then Some (Some (addcmd CHR ''='' 4095 (of_nat n) msk)) else Some None)
   \<and> port_getmode (addcmd CHR ''='' 4095 (of_nat n) msk) m = (m AND NOT 4095) OR (of_nat n AND 4095)"
proof
  have h: "isdigit (hd (oct_digits n))" using isodigit_oct_digits [of "hd (oct_digits n)" n] by (simp add: isodigit_isdigit)
  have o: "\<not> (\<exists>c \<in> set (oct_digits n). \<not> isodigit c)" using isodigit_oct_digits by blast
  have b: "STANDARD_BITS OR S_ISTXT = 4095" by (simp add: mode_bits)
  have a: "ADDCMD (addcmd op who x msk) new_array = Some \<lparr>ca_cmds = addcmd op who x msk, ca_setlen = 8\<rparr>" for op who x
    using length_addcmd(1) [of op who x msk] by (simp add: ADDCMD_def new_array_def)
  have t: "terminate_array \<lparr>ca_cmds = addcmd op who x msk, ca_setlen = 8\<rparr> = Some (addcmd op who x msk)" for op who x
    using length_addcmd(1) [of op who x msk] by (simp add: terminate_array_def)
  show "port_setmode msk (oct_digits n) =
     (if n < 4096 then Some (Some (addcmd CHR ''='' 4095 (of_nat n) msk)) else Some None)"
    using h o by (simp add: port_setmode_def octal_value_oct_digits b a t)
  show "port_getmode (addcmd CHR ''='' 4095 (of_nat n) msk) m = (m AND NOT 4095) OR (of_nat n AND 4095)"
    by (simp add: port_getmode_def addcmd_def apply_cmd_def plain_cmd_def masked_def and.commute)
qed

section \<open>Letters\<close>

definition S_IFMT :: mode where "S_IFMT = 61440"

text \<open>The types of files with the values of the BSDs, where whiteouts have one.\<close>

definition type_letter :: "mode \<Rightarrow> char" where
  "type_letter m =
     (let t = m AND S_IFMT in
      if t = 16384 then CHR ''d'' else if t = 8192 then CHR ''c'' else if t = 24576 then CHR ''b''
      else if t = 32768 then CHR ''-'' else if t = 40960 then CHR ''l'' else if t = 49152 then CHR ''s''
      else if t = 4096 then CHR ''p'' else if t = 57344 then CHR ''w'' else CHR ''?'')"

definition bit_letter :: "mode \<Rightarrow> mode \<Rightarrow> char \<Rightarrow> char" where
  "bit_letter m b c = (if m AND b \<noteq> 0 then c else CHR ''-'')"

definition exec_letter :: "mode \<Rightarrow> mode \<Rightarrow> mode \<Rightarrow> char \<Rightarrow> char \<Rightarrow> char" where
  "exec_letter m x s upper lower =
     (let v = m AND (x OR s) in if v = 0 then CHR ''-'' else if v = x then CHR ''x'' else if v = s then upper else lower)"

definition port_strmode :: "mode \<Rightarrow> string" where
  "port_strmode m =
     [type_letter m,
      bit_letter m 256 CHR ''r'', bit_letter m 128 CHR ''w'', exec_letter m 64 S_ISUID CHR ''S'' CHR ''s'',
      bit_letter m 32 CHR ''r'', bit_letter m 16 CHR ''w'', exec_letter m 8 S_ISGID CHR ''S'' CHR ''s'',
      bit_letter m 4 CHR ''r'', bit_letter m 2 CHR ''w'', exec_letter m 1 S_ISTXT CHR ''T'' CHR ''t'',
      CHR '' '']"

lemma and_two_bits:
  fixes m :: mode
  assumes "i \<noteq> j"
  shows "m AND (push_bit i 1 OR push_bit j 1) = (if bit m i then push_bit i 1 else 0) OR (if bit m j then push_bit j 1 else 0)"
  by (rule bit_word_eqI) (auto simp: bit_simps)

lemma and_one_bit:
  fixes m :: mode
  shows "m AND push_bit i 1 = (if bit m i then push_bit i 1 else 0)"
  by (rule bit_word_eqI) (auto simp: bit_simps)

lemma bit_letter_eq:
  "bit_letter m 256 c = (if bit m 8 then c else CHR ''-'')" "bit_letter m 128 c = (if bit m 7 then c else CHR ''-'')"
  "bit_letter m 32 c = (if bit m 5 then c else CHR ''-'')" "bit_letter m 16 c = (if bit m 4 then c else CHR ''-'')"
  "bit_letter m 4 c = (if bit m 2 then c else CHR ''-'')" "bit_letter m 2 c = (if bit m 1 then c else CHR ''-'')"
  using and_one_bit [of m 8] and_one_bit [of m 7] and_one_bit [of m 5] and_one_bit [of m 4] and_one_bit [of m 2] and_one_bit [of m 1]
  by (simp_all add: bit_letter_def push_bit_eq_mult)

lemma exec_letter_eq:
  "exec_letter m 64 S_ISUID u l = (if bit m 6 then if bit m 11 then l else CHR ''x'' else if bit m 11 then u else CHR ''-'')"
  "exec_letter m 8 S_ISGID u l = (if bit m 3 then if bit m 10 then l else CHR ''x'' else if bit m 10 then u else CHR ''-'')"
  "exec_letter m 1 S_ISTXT u l = (if bit m 0 then if bit m 9 then l else CHR ''x'' else if bit m 9 then u else CHR ''-'')"
  using and_two_bits [of 6 11 m] and_two_bits [of 3 10 m] and_two_bits [of 0 9 m]
  by (simp_all add: exec_letter_def mode_bits push_bit_eq_mult Let_def)

lemma low_bits_eq:
  fixes a b :: mode
  shows "a AND 4095 = b AND 4095 \<longleftrightarrow> (\<forall>i < 12. bit a i = bit b i)"
proof -
  have lt: "\<forall>i :: nat. i < 12 \<longrightarrow> i < 16" by simp
  have m: "(4095 :: mode) = Bit_Operations.mask 12" by (simp add: mask_eq_exp_minus_1)
  show ?thesis unfolding m bit_eq_iff bit_and_iff bit_mask_iff by (simp add: possible_bit_def) (use lt in blast)
qed

lemma one_letter: "(if p then c else d) = (if q then c else d) \<longleftrightarrow> p = q" if "c \<noteq> d" for c d :: char
  using that by simp

lemma two_letters:
  assumes "distinct [c1, c2, c3, c4 :: char]"
  shows "(if p then if q then c1 else c2 else if q then c3 else c4) = (if p' then if q' then c1 else c2 else if q' then c3 else c4)
    \<longleftrightarrow> p = p' \<and> q = q'"
  using assms by (cases p; cases q; cases p'; cases q') auto

lemma exec_letters: "distinct (''sxS-'')" "distinct (''txT-'')"
  by simp_all

text \<open>Two files are listed alike exactly when they have the same twelve permission bits and the same
  letter for their type: no set-id or sticky bit is lost under an execute bit.
\<close>

theorem strmode_tells_permissions:
  "port_strmode a = port_strmode b \<longleftrightarrow> a AND 4095 = b AND 4095 \<and> type_letter a = type_letter b"
proof -
  have "i < 12 \<longleftrightarrow> i \<in> {0, 1, 2, 3, 4, 5, 6, 7, 8, 9, 10, 11}" for i :: nat by (auto; arith)
  then have "(\<forall>i < 12. bit a i = bit b i) \<longleftrightarrow> (\<forall>i \<in> {0, 1, 2, 3, 4, 5, 6, 7, 8, 9, 10, 11}. bit a i = bit b i)" by blast
  also have "\<dots> \<longleftrightarrow> tl (port_strmode a) = tl (port_strmode b)"
    unfolding port_strmode_def list.sel list.inject bit_letter_eq exec_letter_eq
    by (simp add: two_letters [OF exec_letters(1)] two_letters [OF exec_letters(2)] one_letter) blast
  finally show ?thesis by (auto simp: low_bits_eq port_strmode_def)
qed

end
