(* ===== verification/Printf_Value.thy ===== *)
theory Printf_Value
  imports Complex_Main C_Format Port_Mode
begin

text \<open>
  The values of \<^verbatim>\<open>libpkg/pkg_printf.c\<close>: an escape with its modifiers, the formats it builds for
  \<^verbatim>\<open>printf\<close>, and the texts of strings, integers, truth values, file modes and licences. The bits of
  the flags are truth values; a buffer is the text in it. A result is the buffer and whether the
  handler returns it (or NULL); \<open>None\<close> is undefined behaviour.
\<close>

section \<open>One conversion of printf\<close>

text \<open>
  A format of one conversion, with its width as an argument: the flags and what follows the star.
\<close>

definition directive :: "string \<Rightarrow> (string \<times> string) option" where
  "directive s =
     (let r = tl s; isflag = (\<lambda>c. c \<in> set ''#-0+ '' \<or> c = CHR 0x27); rest = dropWhile isflag r in
      if deref s = CHR ''%'' \<and> deref rest = CHR ''*'' then Some (takeWhile isflag r, tl rest) else None)"

definition blanks :: "int \<Rightarrow> string \<Rightarrow> string" where
  "blanks w s = replicate (nat w - length s) CHR '' ''"

definition pad :: "string \<Rightarrow> int \<Rightarrow> string \<Rightarrow> string" where
  "pad fl w s = (if CHR ''-'' \<in> set fl then s @ blanks w s else blanks w s @ s)"

definition pad_number :: "string \<Rightarrow> int \<Rightarrow> string \<Rightarrow> string \<Rightarrow> string" where
  "pad_number fl w sign ds =
     (if CHR ''0'' \<in> set fl \<and> CHR ''-'' \<notin> set fl then sign @ replicate (nat w - length (sign @ ds)) CHR ''0'' @ ds
      else pad fl w (sign @ ds))"

definition sign_text :: "string \<Rightarrow> bool \<Rightarrow> string" where
  "sign_text fl neg =
     (if neg then ''-'' else if CHR ''+'' \<in> set fl then ''+'' else if CHR '' '' \<in> set fl then '' '' else [])"

definition printf_s :: "string \<Rightarrow> int \<Rightarrow> string option \<Rightarrow> string option" where
  "printf_s format w s =
     (case directive format of
        Some (fl, tail) \<Rightarrow> if tail = ''s'' then Some (pad fl w (percent_s s)) else None
      | None \<Rightarrow> None)"

text \<open>The C locale groups no digits.\<close>

definition printf_d :: "string \<Rightarrow> int \<Rightarrow> int \<Rightarrow> string option" where
  "printf_d format w i =
     (case directive format of
        Some (fl, tail) \<Rightarrow>
          if tail = ''ld'' then Some (pad_number fl w (sign_text fl (i < 0)) (dec_digits (nat \<bar>i\<bar>))) else None
      | None \<Rightarrow> None)"

definition printf_o :: "string \<Rightarrow> int \<Rightarrow> nat \<Rightarrow> string option" where
  "printf_o format w n =
     (case directive format of
        Some (fl, tail) \<Rightarrow>
          if tail = ''o'' then
            Some (let ds = oct_digits n
                  in pad_number fl w [] (if CHR ''#'' \<in> set fl \<and> n \<noteq> 0 then CHR ''0'' # ds else ds))
          else None
      | None \<Rightarrow> None)"

text \<open>
  Doubles are rational numbers of 53 bits, rounded to the nearest, and to the even one of two.
\<close>

definition round_even :: "rat \<Rightarrow> int" where
  "round_even x =
     (let f = \<lfloor>x\<rfloor>; r = x - of_int f
      in if r < 1 / 2 then f else if r > 1 / 2 then f + 1 else if even f then f else f + 1)"

function bits :: "int \<Rightarrow> nat" where
  "bits n = (if n \<le> 0 then 0 else Suc (bits (n div 2)))"
  by pat_completeness auto
termination by (relation "measure nat") auto

declare bits.simps [simp del]

text \<open>Only zero and numbers from one on occur.\<close>

definition double :: "rat \<Rightarrow> rat" where
  "double x =
     (let e = bits \<lfloor>x\<rfloor>
      in if e \<le> 53 then of_int (round_even (x * 2 ^ (53 - e))) / 2 ^ (53 - e)
         else of_int (round_even (x / 2 ^ (e - 53))) * 2 ^ (e - 53))"

definition fixed_text :: "nat \<Rightarrow> rat \<Rightarrow> string" where
  "fixed_text prec x =
     (let n = nat (round_even (x * 10 ^ prec)); frac = dec_digits (n mod 10 ^ prec) in
      dec_digits (n div 10 ^ prec) @
      (if prec = 0 then [] else CHR ''.'' # replicate (prec - length frac) CHR ''0'' @ frac))"

definition printf_f :: "string \<Rightarrow> int \<Rightarrow> nat \<Rightarrow> bool \<Rightarrow> rat \<Rightarrow> string option" where
  "printf_f format w prec neg x =
     (case directive format of
        Some (fl, tail) \<Rightarrow> if tail = ''.*f'' then Some (pad_number fl w (sign_text fl neg) (fixed_text prec x)) else None
      | None \<Rightarrow> None)"

section \<open>Escapes\<close>

record percent_esc =
  pe_alt1 :: bool
  pe_alt2 :: bool
  pe_left :: bool
  pe_plus :: bool
  pe_space :: bool
  pe_zero :: bool
  pe_thousands :: bool
  pe_width :: int
  pe_item_set :: bool
  pe_sep_set :: bool
  pe_item_fmt :: string
  pe_sep_fmt :: string
  pe_code :: nat

definition new_percent_esc :: percent_esc where
  "new_percent_esc = \<lparr>pe_alt1 = False, pe_alt2 = False, pe_left = False, pe_plus = False, pe_space = False, pe_zero = False,
     pe_thousands = False, pe_width = 0, pe_item_set = False, pe_sep_set = False, pe_item_fmt = [], pe_sep_fmt = [], pe_code = 0\<rparr>"

definition clear_percent_esc :: "percent_esc \<Rightarrow> percent_esc" where
  "clear_percent_esc p = p\<lparr>pe_alt1 := False, pe_alt2 := False, pe_left := False, pe_plus := False, pe_space := False,
     pe_zero := False, pe_thousands := False, pe_width := 0, pe_item_set := False, pe_sep_set := False,
     pe_item_fmt := [], pe_sep_fmt := [], pe_code := 0\<rparr>"

section \<open>Formats\<close>

definition port_strlcat_text :: "string \<Rightarrow> string \<Rightarrow> nat \<Rightarrow> string" where
  "port_strlcat_text s t n = s @ take (n - length s - 1) t"

definition char_if :: "bool \<Rightarrow> char \<Rightarrow> string" where
  "char_if b c = (if b then [c] else [])"

definition gen_format :: "nat \<Rightarrow> percent_esc \<Rightarrow> string \<Rightarrow> string option" where
  "gen_format buflen p tail =
     (let tlen = length tail;
          space = (pe_space p \<and> \<not> pe_plus p);
          zero = (pe_zero p \<and> \<not> pe_left p);
          b1 = CHR ''%'' # char_if (pe_alt2 p) CHR ''#'' @ char_if (pe_left p) CHR ''-'' @ char_if zero CHR ''0'';
          b2 = b1 @ char_if (pe_plus p) CHR ''+'' @ char_if space CHR '' '' @ char_if (pe_thousands p) CHR 0x27
      in if buflen < tlen + 3 then None
         else if buflen - length b1 < tlen + 2 then None
         else if buflen - length b2 < tlen + 2 then None
         else Some (port_strlcat_text (b2 @ ''*'') tail buflen))"

section \<open>Values\<close>

type_synonym out = "(string \<times> bool) option"

text \<open>A format that does not fit makes the handler return NULL.\<close>

definition put_formatted :: "string \<Rightarrow> string option \<Rightarrow> (string \<Rightarrow> string option) \<Rightarrow> out" where
  "put_formatted buf format print =
     (case format of None \<Rightarrow> Some (buf, False) | Some fm \<Rightarrow> map_option (\<lambda>t. (buf @ t, True)) (print fm))"

text \<open>The number, how often it was divided, and the divisor.\<close>

fun scale_down :: "nat \<Rightarrow> nat \<Rightarrow> rat \<Rightarrow> nat \<Rightarrow> rat \<times> nat" where
  "scale_down 0 divisor num scale = (num, scale)"
| "scale_down (Suc n) divisor num scale =
     (if num < of_nat divisor then (num, scale) else scale_down n divisor (double (num / of_nat divisor)) (scale + 1))"

definition MAXSCALE :: nat where
  "MAXSCALE = 7"

definition bin_pfx :: "string list" where
  "bin_pfx = ['''', ''Ki'', ''Mi'', ''Gi'', ''Ti'', ''Pi'', ''Ei'']"

definition si_pfx :: "string list" where
  "si_pfx = ['''', ''k'', ''M'', ''G'', ''T'', ''P'', ''E'']"

definition human_precision :: "rat \<Rightarrow> int \<Rightarrow> nat" where
  "human_precision num width =
     (if num \<ge> 100 then 0
      else if num \<ge> 10 then (if width = 0 \<or> width > 3 then 1 else 0)
      else (if width = 0 \<or> width > 3 then 2 else if width = 3 then 1 else 0))"

text \<open>The least number has no opposite.\<close>

definition human_number :: "string \<Rightarrow> int \<Rightarrow> percent_esc \<Rightarrow> out" where
  "human_number buf number p =
     (let bin_scale = pe_alt2 p; p' = p\<lparr>pe_alt1 := False, pe_alt2 := False\<rparr>;
          (num, sc) = scale_down MAXSCALE (if bin_scale then 1024 else 1000) (double (of_int \<bar>number\<bar>)) 0;
          scale = (if sc = MAXSCALE then sc - 1 else sc);
          scale_width = (if scale = 0 then 0 else if bin_scale then 2 else 1);
          width = (if pe_width p = 0 then 0 else if pe_width p \<le> scale_width then 1 else pe_width p - scale_width)
      in if number = - (2 ^ 63) then None
         else map_option (\<lambda>(b, ok). (if ok \<and> scale > 0 then b @ (if bin_scale then bin_pfx else si_pfx) ! scale else b, ok))
           (put_formatted buf (gen_format 16 p' ''.*f'')
             (\<lambda>fm. printf_f fm width (human_precision num width) (number < 0) num)))"

definition string_val :: "string \<Rightarrow> string option \<Rightarrow> percent_esc \<Rightarrow> out" where
  "string_val buf str p =
     (let p' = p\<lparr>pe_alt1 := False, pe_alt2 := False, pe_plus := False, pe_space := False, pe_zero := False, pe_thousands := False\<rparr>
      in put_formatted buf (gen_format 16 p' ''s'') (\<lambda>fm. printf_s fm (pe_width p) str))"

definition int_val :: "string \<Rightarrow> int \<Rightarrow> percent_esc \<Rightarrow> out" where
  "int_val buf value p =
     (if pe_alt1 p \<or> pe_alt2 p then human_number buf value p
      else put_formatted buf (gen_format 16 p ''ld'') (\<lambda>fm. printf_d fm (pe_width p) value))"

definition alternate :: "percent_esc \<Rightarrow> nat" where
  "alternate p = (if pe_alt2 p then 2 else if pe_alt1 p then 1 else 0)"

definition bool_val :: "string \<Rightarrow> bool \<Rightarrow> percent_esc \<Rightarrow> out" where
  "bool_val buf value p =
     string_val buf (Some ((if value then [''true'', ''yes'', ''(*)''] else [''false'', ''no'', '''']) ! alternate p))
       (p\<lparr>pe_alt1 := False, pe_alt2 := False\<rparr>)"

definition mode_val :: "string \<Rightarrow> mode \<Rightarrow> percent_esc \<Rightarrow> out" where
  "mode_val buf mode p =
     (if pe_alt1 p then string_val buf (Some (port_strmode mode)) p
      else
        (let m = (if pe_plus p then mode else and mode 0xFFF); p' = p\<lparr>pe_alt1 := False, pe_plus := False\<rparr>
         in put_formatted buf (gen_format 16 p' ''o'') (\<lambda>fm. printf_o fm (pe_width p) (unat m))))"

datatype lic = LICENSE_OR | LICENSE_AND | LICENSE_SINGLE

definition liclog_val :: "string \<Rightarrow> lic \<Rightarrow> percent_esc \<Rightarrow> out" where
  "liclog_val buf l p =
     string_val buf (Some ((case l of
         LICENSE_SINGLE \<Rightarrow> [''single'', '''', ''=='']
       | LICENSE_OR \<Rightarrow> [''or'', ''|'', ''||'']
       | LICENSE_AND \<Rightarrow> [''and'', ''&'', ''&&'']) ! alternate p))
       (p\<lparr>pe_alt1 := False, pe_alt2 := False\<rparr>)"

definition list_count :: "string \<Rightarrow> nat \<Rightarrow> percent_esc \<Rightarrow> out" where
  "list_count buf n p =
     int_val buf (int (if pe_alt1 p then (if n > 0 then 1 else 0) else n)) (p\<lparr>pe_alt1 := False, pe_alt2 := False\<rparr>)"

end
