(* ===== verification/Pkg_Printf.thy ===== *)
theory Pkg_Printf
  imports Printf_Value
begin

text \<open>
  Printing packages (\<^verbatim>\<open>libpkg/pkg_printf.c\<close>): format strings with escapes for the fields and lists of a
  package, with formats of their own for the items of a list. A table gives for each escape its
  letters, the contexts it may stand in and its handler; handlers of lists print their items through
  a parameter, \<open>iterate_item\<close> in the end. \<^verbatim>\<open>strftime\<close>, with the time zone and the locale, is a parameter.
\<close>

section \<open>What is printed\<close>

text \<open>The fields of a package and of the items of its lists that are printed; the hash tables are lists.\<close>

record view_dep =
  vd_name :: "string option"
  vd_origin :: "string option"
  vd_version :: "string option"
  vd_locked :: bool

record view_file =
  vf_path :: string
  vf_sum :: "string option"
  vf_uname :: string
  vf_gname :: string
  vf_perm :: mode
  vf_fflags :: "64 word"

record view_dir =
  vr_path :: string
  vr_uname :: string
  vr_gname :: string
  vr_perm :: mode
  vr_fflags :: "64 word"

record view_option =
  vo_key :: "string option"
  vo_value :: "string option"
  vo_default_value :: "string option"
  vo_description :: "string option"

record view_kv =
  kv_key :: "string option"
  kv_value :: "string option"

datatype pkg_message_t = PKG_MESSAGE_ALWAYS | PKG_MESSAGE_INSTALL | PKG_MESSAGE_REMOVE | PKG_MESSAGE_UPGRADE

record pkg_message =
  msg_str :: "string option"
  msg_minimum :: "string option"
  msg_maximum :: "string option"
  msg_type :: pkg_message_t

record pkg_view =
  pv_locked :: bool
  pv_automatic :: bool
  pv_vital :: bool
  pv_name :: "string option"
  pv_origin :: "string option"
  pv_version :: "string option"
  pv_old_version :: "string option"
  pv_maintainer :: "string option"
  pv_www :: "string option"
  pv_arch :: "string option"
  pv_abi :: "string option"
  pv_prefix :: "string option"
  pv_comment :: "string option"
  pv_desc :: "string option"
  pv_sum :: "string option"
  pv_repopath :: "string option"
  pv_reponame :: "string option"
  pv_licenselogic :: lic
  pv_pkgsize :: int
  pv_flatsize :: int
  pv_timestamp :: int
  pv_message :: "pkg_message list"
  pv_depends :: "view_dep list"
  pv_rdepends :: "view_dep list"
  pv_categories :: "string list"
  pv_licenses :: "string list"
  pv_files :: "view_file list"
  pv_dirs :: "view_dir list"
  pv_options :: "view_option list"
  pv_users :: "string list"
  pv_groups :: "string list"
  pv_shlibs_required :: "string list"
  pv_shlibs_provided :: "string list"
  pv_provides :: "string list"
  pv_requires :: "string list"
  pv_annotations :: "view_kv list"

text \<open>What a \<^verbatim>\<open>void *\<close> points to.\<close>

datatype pkg_data = D_pkg pkg_view | D_string "string option" | D_kv view_kv | D_dir view_dir | D_file view_file
  | D_option view_option | D_dep view_dep | D_count int | D_null

text \<open>The contexts; the mask \<^verbatim>\<open>PP_ALL\<close> ends with the bit of \<open>PP_r\<close>, in front of that of \<open>PP_y\<close>.\<close>

datatype pp_context = PP_PKG | PP_A | PP_B | PP_C | PP_D | PP_F | PP_G | PP_L | PP_O | PP_U | PP_Y | PP_b | PP_d | PP_r | PP_y

definition PP_ALL :: "pp_context list" where
  "PP_ALL = [PP_PKG, PP_A, PP_B, PP_C, PP_D, PP_F, PP_G, PP_L, PP_O, PP_U, PP_Y, PP_b, PP_d, PP_r]"

definition PP_TRAILER :: "pp_context list" where
  "PP_TRAILER = [PP_A, PP_B, PP_C, PP_D, PP_F, PP_G, PP_L, PP_O, PP_U, PP_b, PP_d, PP_r]"

type_synonym iterate = "string \<Rightarrow> pkg_view \<Rightarrow> string \<Rightarrow> pkg_data \<Rightarrow> int \<Rightarrow> pp_context \<Rightarrow> string option"
type_synonym strftime = "string \<Rightarrow> int \<Rightarrow> string option"
type_synonym handler = "strftime \<Rightarrow> iterate \<Rightarrow> string \<Rightarrow> pkg_data \<Rightarrow> percent_esc \<Rightarrow> out"

section \<open>Handlers\<close>

definition of_pkg :: "(pkg_view \<Rightarrow> string \<Rightarrow> percent_esc \<Rightarrow> out) \<Rightarrow> handler" where
  "of_pkg f tm it buf d p = (case d of D_pkg v \<Rightarrow> f v buf p | _ \<Rightarrow> None)"

definition of_string :: handler where
  "of_string tm it buf d p = (case d of D_string s \<Rightarrow> string_val buf s p | _ \<Rightarrow> None)"

definition of_kv :: "(view_kv \<Rightarrow> string \<Rightarrow> percent_esc \<Rightarrow> out) \<Rightarrow> handler" where
  "of_kv f tm it buf d p = (case d of D_kv v \<Rightarrow> f v buf p | _ \<Rightarrow> None)"

definition of_dir :: "(view_dir \<Rightarrow> string \<Rightarrow> percent_esc \<Rightarrow> out) \<Rightarrow> handler" where
  "of_dir f tm it buf d p = (case d of D_dir v \<Rightarrow> f v buf p | _ \<Rightarrow> None)"

definition of_file :: "(view_file \<Rightarrow> string \<Rightarrow> percent_esc \<Rightarrow> out) \<Rightarrow> handler" where
  "of_file f tm it buf d p = (case d of D_file v \<Rightarrow> f v buf p | _ \<Rightarrow> None)"

definition of_option :: "(view_option \<Rightarrow> string \<Rightarrow> percent_esc \<Rightarrow> out) \<Rightarrow> handler" where
  "of_option f tm it buf d p = (case d of D_option v \<Rightarrow> f v buf p | _ \<Rightarrow> None)"

definition of_dep :: "(view_dep \<Rightarrow> string \<Rightarrow> percent_esc \<Rightarrow> out) \<Rightarrow> handler" where
  "of_dep f tm it buf d p = (case d of D_dep v \<Rightarrow> f v buf p | _ \<Rightarrow> None)"

definition set_list_defaults :: "percent_esc \<Rightarrow> string \<Rightarrow> string \<Rightarrow> percent_esc" where
  "set_list_defaults p item_fmt sep_fmt =
     (let p1 = (if pe_item_set p then p else p\<lparr>pe_item_fmt := pe_item_fmt p @ item_fmt, pe_item_set := True\<rparr>)
      in if pe_sep_set p1 then p1 else p1\<lparr>pe_sep_fmt := pe_sep_fmt p1 @ sep_fmt, pe_sep_set := True\<rparr>)"

text \<open>The items from the one with the number \<open>cnt\<close> on.\<close>

fun print_items :: "iterate \<Rightarrow> pkg_view \<Rightarrow> percent_esc \<Rightarrow> pp_context \<Rightarrow> pkg_data list \<Rightarrow> int \<Rightarrow> string \<Rightarrow> string option" where
  "print_items it v p ctx [] cnt buf = Some buf"
| "print_items it v p ctx (d # ds) cnt buf =
     (case (if cnt > 1 then it buf v (pe_sep_fmt p) d cnt ctx else Some buf) of
        None \<Rightarrow> None
      | Some buf1 \<Rightarrow>
          (case it buf1 v (pe_item_fmt p) d cnt ctx of
             None \<Rightarrow> None
           | Some buf2 \<Rightarrow> print_items it v p ctx ds (cnt + 1) buf2))"

definition format_list :: "pp_context \<Rightarrow> (pkg_view \<Rightarrow> pkg_data list) \<Rightarrow> string \<Rightarrow> string \<Rightarrow> handler" where
  "format_list ctx items item_fmt sep_fmt tm it buf d p =
     (case d of
        D_pkg v \<Rightarrow>
          if pe_alt1 p \<or> pe_alt2 p then list_count buf (length (items v)) p
          else map_option (\<lambda>b. (b, True))
            (print_items it v (set_list_defaults p item_fmt sep_fmt) ctx (items v) 1 buf)
      | _ \<Rightarrow> None)"

definition format_annotations :: handler where
  "format_annotations = format_list PP_A (\<lambda>v. map D_kv (pv_annotations v)) (''%An: %Av'' @ [CHR 10]) []"

definition format_shlibs_required :: handler where
  "format_shlibs_required = format_list PP_B (\<lambda>v. map (D_string \<circ> Some) (pv_shlibs_required v)) (''%Bn'' @ [CHR 10]) []"

definition format_categories :: handler where
  "format_categories = format_list PP_C (\<lambda>v. map (D_string \<circ> Some) (pv_categories v)) ''%Cn'' '', ''"

definition format_directories :: handler where
  "format_directories = format_list PP_D (\<lambda>v. map D_dir (pv_dirs v)) (''%Dn'' @ [CHR 10]) []"

definition format_files :: handler where
  "format_files = format_list PP_F (\<lambda>v. map D_file (pv_files v)) (''%Fn'' @ [CHR 10]) []"

definition format_groups :: handler where
  "format_groups = format_list PP_G (\<lambda>v. map (D_string \<circ> Some) (pv_groups v)) (''%Gn'' @ [CHR 10]) []"

definition format_licenses :: handler where
  "format_licenses = format_list PP_L (\<lambda>v. map (D_string \<circ> Some) (pv_licenses v)) ''%Ln'' '' %l ''"

definition format_options :: handler where
  "format_options = format_list PP_O (\<lambda>v. map D_option (pv_options v)) (''%On %Ov'' @ [CHR 10]) []"

definition format_users :: handler where
  "format_users = format_list PP_U (\<lambda>v. map (D_string \<circ> Some) (pv_users v)) (''%Un'' @ [CHR 10]) []"

definition format_required :: handler where
  "format_required = format_list PP_Y (\<lambda>v. map (D_string \<circ> Some) (pv_requires v)) (''%Yn'' @ [CHR 10]) []"

definition format_shlibs_provided :: handler where
  "format_shlibs_provided = format_list PP_b (\<lambda>v. map (D_string \<circ> Some) (pv_shlibs_provided v)) (''%bn'' @ [CHR 10]) []"

definition format_dependencies :: handler where
  "format_dependencies = format_list PP_d (\<lambda>v. map D_dep (pv_depends v)) (''%dn-%dv'' @ [CHR 10]) []"

definition format_requirements :: handler where
  "format_requirements = format_list PP_r (\<lambda>v. map D_dep (pv_rdepends v)) (''%rn-%rv'' @ [CHR 10]) []"

definition format_provided :: handler where
  "format_provided = format_list PP_y (\<lambda>v. map (D_string \<circ> Some) (pv_provides v)) (''%yn'' @ [CHR 10]) []"

definition format_group_name :: handler where
  "format_group_name = of_string"

definition format_license_name :: handler where
  "format_license_name = of_string"

definition format_char_string :: handler where
  "format_char_string = of_string"

definition format_user_name :: handler where
  "format_user_name = of_string"

definition format_provide_name :: handler where
  "format_provide_name = of_string"

definition format_shlib_name :: handler where
  "format_shlib_name = of_string"

definition format_category_name :: handler where
  "format_category_name = of_string"

definition format_annotation_name :: handler where
  "format_annotation_name = of_kv (\<lambda>v buf p. string_val buf (kv_key v) p)"

definition format_annotation_value :: handler where
  "format_annotation_value = of_kv (\<lambda>v buf p. string_val buf (kv_value v) p)"

definition format_directory_group :: handler where
  "format_directory_group = of_dir (\<lambda>v buf p. string_val buf (Some (vr_gname v)) p)"

definition format_directory_path :: handler where
  "format_directory_path = of_dir (\<lambda>v buf p. string_val buf (Some (vr_path v)) p)"

definition format_directory_perms :: handler where
  "format_directory_perms = of_dir (\<lambda>v buf p. mode_val buf (vr_perm v) p)"

definition format_directory_user :: handler where
  "format_directory_user = of_dir (\<lambda>v buf p. string_val buf (Some (vr_uname v)) p)"

definition format_file_group :: handler where
  "format_file_group = of_file (\<lambda>v buf p. string_val buf (Some (vf_gname v)) p)"

definition format_file_path :: handler where
  "format_file_path = of_file (\<lambda>v buf p. string_val buf (Some (vf_path v)) p)"

definition format_file_perms :: handler where
  "format_file_perms = of_file (\<lambda>v buf p. mode_val buf (vf_perm v) p)"

definition format_file_sha256 :: handler where
  "format_file_sha256 = of_file (\<lambda>v buf p. string_val buf (vf_sum v) p)"

definition format_file_user :: handler where
  "format_file_user = of_file (\<lambda>v buf p. string_val buf (Some (vf_uname v)) p)"

definition format_option_name :: handler where
  "format_option_name = of_option (\<lambda>v buf p. string_val buf (vo_key v) p)"

definition format_option_value :: handler where
  "format_option_value = of_option (\<lambda>v buf p. string_val buf (vo_value v) p)"

definition format_option_default :: handler where
  "format_option_default = of_option (\<lambda>v buf p. string_val buf (vo_value v) p)"

definition format_option_description :: handler where
  "format_option_description = of_option (\<lambda>v buf p. string_val buf (vo_description v) p)"

definition format_dependency_lock :: handler where
  "format_dependency_lock = of_dep (\<lambda>v buf p. bool_val buf (vd_locked v) p)"

definition format_dependency_name :: handler where
  "format_dependency_name = of_dep (\<lambda>v buf p. string_val buf (vd_name v) p)"

definition format_dependency_origin :: handler where
  "format_dependency_origin = of_dep (\<lambda>v buf p. string_val buf (vd_origin v) p)"

definition format_dependency_version :: handler where
  "format_dependency_version = of_dep (\<lambda>v buf p. string_val buf (vd_version v) p)"

definition format_altabi :: handler where
  "format_altabi = of_pkg (\<lambda>v buf p. string_val buf (pv_arch v) p)"

definition format_repo_path :: handler where
  "format_repo_path = of_pkg (\<lambda>v buf p. string_val buf (pv_repopath v) p)"

definition format_old_version :: handler where
  "format_old_version = of_pkg (\<lambda>v buf p. string_val buf (pv_old_version v) p)"

definition format_autoremove :: handler where
  "format_autoremove = of_pkg (\<lambda>v buf p. bool_val buf (pv_automatic v) p)"

definition format_comment :: handler where
  "format_comment = of_pkg (\<lambda>v buf p. string_val buf (pv_comment v) p)"

definition format_description :: handler where
  "format_description = of_pkg (\<lambda>v buf p. string_val buf (pv_desc v) p)"

definition format_lock_status :: handler where
  "format_lock_status = of_pkg (\<lambda>v buf p. bool_val buf (pv_locked v) p)"

definition format_license_logic :: handler where
  "format_license_logic = of_pkg (\<lambda>v buf p. liclog_val buf (pv_licenselogic v) p)"

definition format_maintainer :: handler where
  "format_maintainer = of_pkg (\<lambda>v buf p. string_val buf (pv_maintainer v) p)"

definition format_name :: handler where
  "format_name = of_pkg (\<lambda>v buf p. string_val buf (pv_name v) p)"

definition format_origin :: handler where
  "format_origin = of_pkg (\<lambda>v buf p. string_val buf (pv_origin v) p)"

definition format_prefix :: handler where
  "format_prefix = of_pkg (\<lambda>v buf p. string_val buf (pv_prefix v) p)"

definition format_architecture :: handler where
  "format_architecture = of_pkg (\<lambda>v buf p. string_val buf (pv_abi v) p)"

definition format_flatsize :: handler where
  "format_flatsize = of_pkg (\<lambda>v buf p. int_val buf (pv_flatsize v) p)"

definition format_version :: handler where
  "format_version = of_pkg (\<lambda>v buf p. string_val buf (pv_version v) p)"

definition format_checksum :: handler where
  "format_checksum = of_pkg (\<lambda>v buf p. string_val buf (pv_sum v) p)"

definition format_home_url :: handler where
  "format_home_url = of_pkg (\<lambda>v buf p. string_val buf (pv_www v) p)"

definition format_pkgsize :: handler where
  "format_pkgsize = of_pkg (\<lambda>v buf p. int_val buf (pv_pkgsize v) p)"

definition format_row_counter :: handler where
  "format_row_counter tm it buf d p = (case d of D_count n \<Rightarrow> int_val buf n p | _ \<Rightarrow> None)"

definition message_head :: "pkg_view \<Rightarrow> pkg_message \<Rightarrow> string" where
  "message_head v m =
     (case msg_type m of
        PKG_MESSAGE_ALWAYS \<Rightarrow> ''Always:'' @ [CHR 10]
      | PKG_MESSAGE_UPGRADE \<Rightarrow>
          ''On upgrade'' @
          (if msg_minimum m \<noteq> None \<or> msg_maximum m \<noteq> None then '' from '' @ percent_s (pv_name v) else []) @
          (case msg_minimum m of None \<Rightarrow> [] | Some s \<Rightarrow> CHR ''>'' # s) @
          (case msg_maximum m of None \<Rightarrow> [] | Some s \<Rightarrow> CHR ''<'' # s) @ '':'' @ [CHR 10]
      | PKG_MESSAGE_INSTALL \<Rightarrow> ''On install:'' @ [CHR 10]
      | PKG_MESSAGE_REMOVE \<Rightarrow> ''On remove:'' @ [CHR 10])"

definition message_text :: "pkg_view \<Rightarrow> string" where
  "message_text v =
     fold (\<lambda>m b. (if b = [] then b else b @ [CHR 10]) @ message_head v m @ percent_s (msg_str m) @ [CHR 10]) (pv_message v) []"

definition format_message :: handler where
  "format_message = of_pkg (\<lambda>v buf p. string_val buf (if message_text v = [] then None else Some (message_text v)) p)"

definition format_repo_ident :: handler where
  "format_repo_ident = of_pkg (\<lambda>v buf p.
     string_val buf
       (case pv_reponame v of
          Some r \<Rightarrow> Some r
        | None \<Rightarrow>
            (case find (\<lambda>e. kv_key e = Some ''repository'') (pv_annotations v) of
               Some e \<Rightarrow> (case kv_value e of Some r \<Rightarrow> Some r | None \<Rightarrow> Some ''unknown-repository'')
             | None \<Rightarrow> Some ''unknown-repository'')) p)"

text \<open>The buffer of \<^verbatim>\<open>strftime\<close> has 1024 bytes; what it holds after a text that is too long is not specified.\<close>

definition format_install_tstamp :: handler where
  "format_install_tstamp tm it buf d p =
     (case d of
        D_pkg v \<Rightarrow>
          if pe_item_fmt p = [] then int_val buf (pv_timestamp v) p
          else (case tm (pe_item_fmt p) (pv_timestamp v) of
                  None \<Rightarrow> None
                | Some t \<Rightarrow> if length t < 1024 then Some (buf @ t, True) else None)
      | _ \<Rightarrow> None)"

definition PKG_FILE_CKSUM_CHARS :: nat where
  "PKG_FILE_CKSUM_CHARS = 10"

definition format_short_checksum :: handler where
  "format_short_checksum = of_pkg (\<lambda>v buf p.
     string_val buf (Some (case pv_sum v of None \<Rightarrow> [] | Some s \<Rightarrow> take PKG_FILE_CKSUM_CHARS s)) p)"

definition format_literal_percent :: handler where
  "format_literal_percent tm it buf d p = Some (buf @ ''%'', True)"

definition format_unknown :: handler where
  "format_unknown tm it buf d p = Some (buf @ ''%'', False)"

section \<open>The table\<close>

record pkg_printf_fmt =
  fmt_main :: char
  fmt_sub :: char
  fmt_has_trailer :: bool
  fmt_struct_pkg :: bool
  fmt_context :: "pp_context list"
  fmt_handler :: handler

definition escape_entry :: "char \<Rightarrow> char \<Rightarrow> bool \<Rightarrow> bool \<Rightarrow> pp_context list \<Rightarrow> handler \<Rightarrow> pkg_printf_fmt" where
  "escape_entry m s tr sp ctx h =
     \<lparr>fmt_main = m, fmt_sub = s, fmt_has_trailer = tr, fmt_struct_pkg = sp, fmt_context = ctx, fmt_handler = h\<rparr>"

text \<open>In the order of the codes: each code is an index.\<close>

definition fmt :: "pkg_printf_fmt list" where
  "fmt = [
    escape_entry (CHR ''A'') (CHR ''n'') False False [PP_PKG, PP_A] format_annotation_name,
    escape_entry (CHR ''A'') (CHR ''v'') False False [PP_PKG, PP_A] format_annotation_value,
    escape_entry (CHR ''A'') (NUL) True True [PP_PKG] format_annotations,
    escape_entry (CHR ''B'') (CHR ''n'') False False [PP_PKG, PP_B] format_shlib_name,
    escape_entry (CHR ''B'') (NUL) True True [PP_PKG] format_shlibs_required,
    escape_entry (CHR ''C'') (CHR ''n'') False False [PP_PKG, PP_C] format_category_name,
    escape_entry (CHR ''C'') (NUL) True True [PP_PKG] format_categories,
    escape_entry (CHR ''D'') (CHR ''g'') False False [PP_PKG, PP_D] format_directory_group,
    escape_entry (CHR ''D'') (CHR ''n'') False False [PP_PKG, PP_D] format_directory_path,
    escape_entry (CHR ''D'') (CHR ''p'') False False [PP_PKG, PP_D] format_directory_perms,
    escape_entry (CHR ''D'') (CHR ''u'') False False [PP_PKG, PP_D] format_directory_user,
    escape_entry (CHR ''D'') (NUL) True True [PP_PKG] format_directories,
    escape_entry (CHR ''F'') (CHR ''g'') False False [PP_PKG, PP_F] format_file_group,
    escape_entry (CHR ''F'') (CHR ''n'') False False [PP_PKG, PP_F] format_file_path,
    escape_entry (CHR ''F'') (CHR ''p'') False False [PP_PKG, PP_F] format_file_perms,
    escape_entry (CHR ''F'') (CHR ''s'') False False [PP_PKG, PP_F] format_file_sha256,
    escape_entry (CHR ''F'') (CHR ''u'') False False [PP_PKG, PP_F] format_file_user,
    escape_entry (CHR ''F'') (NUL) True True [PP_PKG] format_files,
    escape_entry (CHR ''G'') (CHR ''n'') False False [PP_PKG, PP_G] format_group_name,
    escape_entry (CHR ''G'') (NUL) True True [PP_PKG] format_groups,
    escape_entry (CHR ''I'') (NUL) False False PP_TRAILER format_row_counter,
    escape_entry (CHR ''L'') (CHR ''n'') False False [PP_PKG, PP_L] format_license_name,
    escape_entry (CHR ''L'') (NUL) True True [PP_PKG] format_licenses,
    escape_entry (CHR ''M'') (NUL) False True PP_ALL format_message,
    escape_entry (CHR ''N'') (NUL) False True PP_ALL format_repo_ident,
    escape_entry (CHR ''O'') (CHR ''n'') False False [PP_PKG, PP_O] format_option_name,
    escape_entry (CHR ''O'') (CHR ''v'') False False [PP_PKG, PP_O] format_option_value,
    escape_entry (CHR ''O'') (CHR ''d'') False False [PP_PKG, PP_O] format_option_default,
    escape_entry (CHR ''O'') (CHR ''D'') False False [PP_PKG, PP_O] format_option_description,
    escape_entry (CHR ''O'') (NUL) True True [PP_PKG] format_options,
    escape_entry (CHR ''Q'') (NUL) False True PP_ALL format_altabi,
    escape_entry (CHR ''R'') (NUL) False True PP_ALL format_repo_path,
    escape_entry (CHR ''S'') (NUL) False False [PP_PKG] format_char_string,
    escape_entry (CHR ''U'') (CHR ''n'') False False [PP_PKG, PP_U] format_user_name,
    escape_entry (CHR ''U'') (NUL) True True [PP_PKG] format_users,
    escape_entry (CHR ''V'') (NUL) False True PP_ALL format_old_version,
    escape_entry (CHR ''a'') (NUL) False True PP_ALL format_autoremove,
    escape_entry (CHR ''b'') (CHR ''n'') False False [PP_PKG, PP_b] format_shlib_name,
    escape_entry (CHR ''b'') (NUL) True True [PP_PKG] format_shlibs_provided,
    escape_entry (CHR ''c'') (NUL) False True PP_ALL format_comment,
    escape_entry (CHR ''d'') (CHR ''k'') False False [PP_PKG, PP_d] format_dependency_lock,
    escape_entry (CHR ''d'') (CHR ''n'') False False [PP_PKG, PP_d] format_dependency_name,
    escape_entry (CHR ''d'') (CHR ''o'') False False [PP_PKG, PP_d] format_dependency_origin,
    escape_entry (CHR ''d'') (CHR ''v'') False False [PP_PKG, PP_d] format_dependency_version,
    escape_entry (CHR ''d'') (NUL) True True [PP_PKG] format_dependencies,
    escape_entry (CHR ''e'') (NUL) False True PP_ALL format_description,
    escape_entry (CHR ''k'') (NUL) False True PP_ALL format_lock_status,
    escape_entry (CHR ''l'') (NUL) False True PP_ALL format_license_logic,
    escape_entry (CHR ''m'') (NUL) False True PP_ALL format_maintainer,
    escape_entry (CHR ''n'') (NUL) False True PP_ALL format_name,
    escape_entry (CHR ''o'') (NUL) False True PP_ALL format_origin,
    escape_entry (CHR ''p'') (NUL) False True PP_ALL format_prefix,
    escape_entry (CHR ''q'') (NUL) False True PP_ALL format_architecture,
    escape_entry (CHR ''r'') (CHR ''k'') False False [PP_PKG, PP_r] format_dependency_lock,
    escape_entry (CHR ''r'') (CHR ''n'') False False [PP_PKG, PP_r] format_dependency_name,
    escape_entry (CHR ''r'') (CHR ''o'') False False [PP_PKG, PP_r] format_dependency_origin,
    escape_entry (CHR ''r'') (CHR ''v'') False False [PP_PKG, PP_r] format_dependency_version,
    escape_entry (CHR ''r'') (NUL) True True [PP_PKG] format_requirements,
    escape_entry (CHR ''s'') (NUL) False True PP_ALL format_flatsize,
    escape_entry (CHR ''t'') (NUL) True True PP_ALL format_install_tstamp,
    escape_entry (CHR ''u'') (NUL) False True PP_ALL format_checksum,
    escape_entry (CHR ''v'') (NUL) False True PP_ALL format_version,
    escape_entry (CHR ''w'') (NUL) False True PP_ALL format_home_url,
    escape_entry (CHR ''x'') (NUL) False True PP_ALL format_pkgsize,
    escape_entry (CHR ''Y'') (NUL) True True [PP_PKG] format_required,
    escape_entry (CHR ''Y'') (CHR ''n'') False False [PP_PKG, PP_Y] format_provide_name,
    escape_entry (CHR ''y'') (NUL) True True [PP_PKG] format_provided,
    escape_entry (CHR ''y'') (CHR ''n'') False False [PP_PKG, PP_y] format_provide_name,
    escape_entry (CHR ''z'') (NUL) False True PP_ALL format_short_checksum,
    escape_entry (CHR ''%'') (NUL) False False PP_ALL format_literal_percent,
    escape_entry (NUL) (NUL) False False PP_ALL format_unknown]"

definition PP_ROW_COUNTER :: nat where
  "PP_ROW_COUNTER = 20"

definition PP_LAST_FORMAT :: nat where
  "PP_LAST_FORMAT = 68"

definition PP_UNKNOWN :: nat where
  "PP_UNKNOWN = 70"

section \<open>Parsing an escape\<close>

text \<open>The modifiers; then the width, an \<^verbatim>\<open>int\<close> that must not overflow.\<close>

fun field_modifier :: "string \<Rightarrow> percent_esc \<Rightarrow> string \<times> percent_esc" where
  "field_modifier [] p = ([], p)"
| "field_modifier (c # f) p =
     (if c = CHR ''?'' then field_modifier f (p\<lparr>pe_alt1 := True\<rparr>)
      else if c = CHR ''#'' then field_modifier f (p\<lparr>pe_alt2 := True\<rparr>)
      else if c = CHR ''-'' then field_modifier f (p\<lparr>pe_left := True\<rparr>)
      else if c = CHR ''+'' then field_modifier f (p\<lparr>pe_plus := True\<rparr>)
      else if c = CHR '' '' then field_modifier f (p\<lparr>pe_space := True\<rparr>)
      else if c = CHR ''0'' then field_modifier f (p\<lparr>pe_zero := True\<rparr>)
      else if c = CHR 0x27 then field_modifier f (p\<lparr>pe_thousands := True\<rparr>)
      else (c # f, p))"

fun field_width :: "string \<Rightarrow> percent_esc \<Rightarrow> (string \<times> percent_esc) option" where
  "field_width [] p = Some ([], p)"
| "field_width (c # f) p =
     (if isdigit c then
        (let w = pe_width p * 10 + (int (code c) - 48) in if w < 2 ^ 31 then field_width f (p\<lparr>pe_width := w\<rparr>) else None)
      else Some (c # f, p))"

text \<open>The text in front of a percent sign with one of the characters \<open>st\<close>, this character and the rest.\<close>

fun trailer_text :: "string \<Rightarrow> string \<Rightarrow> string \<times> (char \<times> string) option" where
  "trailer_text st [] = ([], None)"
| "trailer_text st (c # f) =
     (if c = CHR ''%'' \<and> f \<noteq> [] \<and> hd f \<in> set st then ([], Some (hd f, tl f))
      else (case trailer_text st f of (t, r) \<Rightarrow> (c # t, r)))"

definition format_trailer :: "string \<Rightarrow> percent_esc \<Rightarrow> string \<times> percent_esc" where
  "format_trailer f p =
     (if take 2 f = ''%{'' then
        (case trailer_text ''}|'' (drop 2 f) of
           (item, r) \<Rightarrow>
             (let p1 = p\<lparr>pe_item_set := True, pe_item_fmt := pe_item_fmt p @ item\<rparr>;
                  clear = (\<lambda>p. p\<lparr>pe_item_fmt := [], pe_sep_fmt := []\<rparr>)
              in case r of
                   None \<Rightarrow> (f, clear p1)
                 | Some (c, f1) \<Rightarrow>
                     if c = CHR ''}'' then (f1, p1)
                     else
                       (case trailer_text ''}'' f1 of
                          (sep, r2) \<Rightarrow>
                            (let p2 = p1\<lparr>pe_sep_set := True, pe_sep_fmt := pe_sep_fmt p1 @ sep\<rparr>
                             in case r2 of None \<Rightarrow> (f, clear p2) | Some (_, f2) \<Rightarrow> (f2, p2)))))
      else (f, p))"

text \<open>
  The first entry that fits, from the one with the number \<open>i\<close> on. \<open>None\<close> reads the character behind the
  terminator, as the entry of unknown escapes makes it do at the end of the format.
\<close>

fun find_code :: "pkg_printf_fmt list \<Rightarrow> nat \<Rightarrow> string \<Rightarrow> pp_context \<Rightarrow> (string \<times> nat) option" where
  "find_code [] i f ctx = Some (f, PP_UNKNOWN)"
| "find_code (e # es) i f ctx =
     (if ctx \<notin> set (fmt_context e) then find_code es (i + 1) f ctx
      else if fmt_main e \<noteq> deref f then find_code es (i + 1) f ctx
      else if f = [] then None
      else if fmt_sub e = deref (tl f) \<and> tl f \<noteq> [] then Some (drop 2 f, i)
      else if fmt_sub e = NUL then Some (tl f, i)
      else find_code es (i + 1) f ctx)"

definition format_code :: "string \<Rightarrow> pp_context \<Rightarrow> percent_esc \<Rightarrow> (string \<times> percent_esc) option" where
  "format_code f ctx p = map_option (\<lambda>(f', i). (f', p\<lparr>pe_code := i\<rparr>)) (find_code fmt 0 f ctx)"

definition parse_format :: "string \<Rightarrow> pp_context \<Rightarrow> percent_esc \<Rightarrow> (string \<times> percent_esc) option" where
  "parse_format f ctx p =
     (case field_modifier (tl f) p of
        (f1, p1) \<Rightarrow>
          (case field_width f1 p1 of
             None \<Rightarrow> None
           | Some (f2, p2) \<Rightarrow>
               (case format_code f2 ctx p2 of
                  None \<Rightarrow> None
                | Some (f3, p3) \<Rightarrow>
                    Some (if ctx = PP_PKG \<and> fmt_has_trailer (fmt ! pe_code p3) \<and> \<not> pe_alt1 p3 \<and> \<not> pe_alt2 p3
                          then format_trailer f3 p3 else (f3, p3)))))"

section \<open>Escaped characters\<close>

definition isxdigit :: "char \<Rightarrow> bool" where
  "isxdigit c \<longleftrightarrow> isdigit c \<or> (65 \<le> code c \<and> code c \<le> 70) \<or> (97 \<le> code c \<and> code c \<le> 102)"

definition xdigit_val :: "char \<Rightarrow> nat" where
  "xdigit_val c = (if isdigit c then code c - 48 else if 97 \<le> code c then code c - 87 else code c - 55)"

text \<open>What is printed, and the rest of the format.\<close>

definition maybe_read_hex_byte :: "string \<Rightarrow> string \<times> string" where
  "maybe_read_hex_byte f =
     (let f1 = tl f in
      if isxdigit (deref f1) \<and> isxdigit (deref (tl f1))
      then ([char_of (16 * xdigit_val (deref f1) + xdigit_val (deref (tl f1)))], drop 2 f1)
      else (CHR 0x5C # ''x'', f1))"

fun oct_value :: "nat \<Rightarrow> nat \<Rightarrow> string \<Rightarrow> nat \<times> string" where
  "oct_value 0 val f = (val, f)"
| "oct_value (Suc n) val f =
     (if val < 32 \<and> isodigit (deref f) then oct_value n (val * 8 + (code (deref f) - 48)) (tl f) else (val, f))"

definition read_oct_byte :: "string \<Rightarrow> string \<times> string" where
  "read_oct_byte f = (case oct_value 3 0 f of (val, rest) \<Rightarrow> ([char_of val], rest))"

definition process_escape :: "string \<Rightarrow> string \<times> string" where
  "process_escape f =
     (let f1 = tl f; c = deref f1; simple = (\<lambda>d. ([d], tl f1)) in
      if c = CHR ''a'' then simple (CHR 7)
      else if c = CHR ''b'' then simple (CHR 8)
      else if c = CHR ''f'' then simple (CHR 12)
      else if c = CHR ''n'' then simple (CHR 10)
      else if c = CHR ''t'' then simple (CHR 9)
      else if c = CHR ''v'' then simple (CHR 11)
      else if c = CHR 0x27 then simple (CHR 0x27)
      else if c = CHR 0x22 then simple (CHR 0x22)
      else if c = CHR 0x5C then simple (CHR 0x5C)
      else if c = CHR ''x'' then maybe_read_hex_byte f1
      else if isodigit c then read_oct_byte f1
      else ([CHR 0x5C], f1))"

section \<open>The format of an item\<close>

text \<open>The new buffer and the rest of the format; an escape without a result loses its percent sign only.\<close>

definition process_format_trailer ::
  "strftime \<Rightarrow> iterate \<Rightarrow> string \<Rightarrow> percent_esc \<Rightarrow> string \<Rightarrow> pkg_view \<Rightarrow> pkg_data \<Rightarrow> int \<Rightarrow> pp_context \<Rightarrow> (string \<times> string) option" where
  "process_format_trailer tm it buf p f v d cnt ctx =
     (case parse_format f ctx p of
        None \<Rightarrow> None
      | Some (f1, p1) \<Rightarrow>
          (let e = fmt ! pe_code p1;
               arg = (if pe_code p1 = PP_ROW_COUNTER then D_count cnt
                      else if pe_code p1 > PP_LAST_FORMAT then D_null
                      else if fmt_struct_pkg e then D_pkg v
                      else d)
           in map_option (\<lambda>(buf', ok). (buf', if ok then f1 else tl f)) (fmt_handler e tm it buf arg p1)))"

text \<open>The escape is cleared after each use, so each one starts with a new one.\<close>

function iterate_item :: "strftime \<Rightarrow> iterate \<Rightarrow> iterate" where
  "iterate_item tm it buf v f d cnt ctx =
     (if f = [] then Some buf
      else if hd f = CHR ''%'' then
        (case process_format_trailer tm it buf new_percent_esc f v d cnt ctx of
           None \<Rightarrow> None
         | Some (buf', f') \<Rightarrow> if length f' < length f then iterate_item tm it buf' v f' d cnt ctx else None)
      else if hd f = CHR 0x5C then
        (case process_escape f of
           (t, f') \<Rightarrow> if length f' < length f then iterate_item tm it (buf @ t) v f' d cnt ctx else None)
      else iterate_item tm it (buf @ [hd f]) v (tl f) d cnt ctx)"
  by pat_completeness auto
termination by (relation "measure (\<lambda>(tm, it, buf, v, f, d, cnt, ctx). length f)") auto

declare iterate_item.simps [simp del]

text \<open>Items have no lists of their own, so one level is enough.\<close>

definition print_item :: "strftime \<Rightarrow> iterate" where
  "print_item tm = iterate_item tm (\<lambda>buf v f d cnt ctx. None)"

section \<open>The format of packages\<close>

definition process_format_main ::
  "strftime \<Rightarrow> string \<Rightarrow> percent_esc \<Rightarrow> string \<Rightarrow> string \<Rightarrow> pkg_data \<Rightarrow> (string \<times> string) option" where
  "process_format_main tm buf p fstart fend d =
     map_option (\<lambda>(buf', ok). (buf', if ok then fend else fstart)) (fmt_handler (fmt ! pe_code p) tm (print_item tm) buf d p)"

text \<open>One turn of the loop, on the rest of the format, the remaining arguments and the buffer.\<close>

type_synonym vprintf_state = "string \<times> pkg_data list \<times> string"

definition vprintf_step :: "strftime \<Rightarrow> vprintf_state \<Rightarrow> vprintf_state option" where
  "vprintf_step tm st =
     (case st of
        (f, ap, buf) \<Rightarrow>
          if hd f = CHR ''%'' then
            (case parse_format f PP_PKG new_percent_esc of
               None \<Rightarrow> None
             | Some (fend, p) \<Rightarrow>
                 if pe_code p \<le> PP_LAST_FORMAT then
                   (case ap of
                      [] \<Rightarrow> None
                    | d # ap' \<Rightarrow> map_option (\<lambda>(buf', f'). (f', ap', buf')) (process_format_main tm buf p f fend d))
                 else map_option (\<lambda>(buf', f'). (f', ap, buf')) (process_format_main tm buf p f fend D_null))
          else if hd f = CHR 0x5C then (case process_escape f of (t, f') \<Rightarrow> Some (f', ap, buf @ t))
          else Some (tl f, ap, buf @ [hd f]))"

fun vprintf_loop :: "nat \<Rightarrow> strftime \<Rightarrow> vprintf_state \<Rightarrow> string option" where
  "vprintf_loop 0 tm st = None"
| "vprintf_loop (Suc n) tm st =
     (case st of
        (f, ap, buf) \<Rightarrow>
          if f = [] then Some buf
          else (case vprintf_step tm (f, ap, buf) of None \<Rightarrow> None | Some st' \<Rightarrow> vprintf_loop n tm st'))"

definition pkg_utstring_vprintf :: "nat \<Rightarrow> strftime \<Rightarrow> string \<Rightarrow> string \<Rightarrow> pkg_data list \<Rightarrow> string option" where
  "pkg_utstring_vprintf n tm buf format ap = vprintf_loop n tm (format, ap, buf)"

text \<open>The text up to the first NUL, and how much was written.\<close>

definition c_body :: "string \<Rightarrow> string" where
  "c_body s = takeWhile (\<lambda>c. c \<noteq> NUL) s"

definition pkg_vprintf :: "nat \<Rightarrow> strftime \<Rightarrow> string \<Rightarrow> pkg_data list \<Rightarrow> (string \<times> int) option" where
  "pkg_vprintf n tm format ap =
     map_option (\<lambda>buf. if buf = [] then ([], -1) else (c_body buf, int (length (c_body buf)))) (pkg_utstring_vprintf n tm [] format ap)"

definition pkg_vsnprintf :: "nat \<Rightarrow> strftime \<Rightarrow> nat \<Rightarrow> string \<Rightarrow> pkg_data list \<Rightarrow> (string option \<times> int) option" where
  "pkg_vsnprintf n tm sz format ap =
     map_option (\<lambda>buf. if buf = [] then (None, -1)
       else (if sz = 0 then None else Some (take (sz - 1) (c_body buf)), int (length (c_body buf))))
       (pkg_utstring_vprintf n tm [] format ap)"

definition pkg_vasprintf :: "nat \<Rightarrow> strftime \<Rightarrow> string \<Rightarrow> pkg_data list \<Rightarrow> (string option \<times> int) option" where
  "pkg_vasprintf n tm format ap =
     map_option (\<lambda>buf. if buf = [] then (None, -1) else (Some (c_body buf), int (length (c_body buf))))
       (pkg_utstring_vprintf n tm [] format ap)"

end
