(* ===== verification/Port_Path.thy ===== *)
theory Port_Path
  imports C_Format
begin

text \<open>
  Paths as text: the last component and the rest (\<^verbatim>\<open>port_basename.c\<close>, \<^verbatim>\<open>port_dirname.c\<close>) and absolute paths
  without dots (\<open>pkg_absolutepath\<close> in \<^verbatim>\<open>utils.c\<close>). The size of the buffers, \<^verbatim>\<open>MAXPATHLEN\<close> of the
  system, is an argument; \<open>None\<close> is the null pointer that is returned for a path that does not fit.
\<close>

abbreviation slash :: char where
  "slash \<equiv> CHR ''/''"

section \<open>The last component and the rest\<close>

text \<open>Walks back from position \<open>n\<close>, not over the first character.\<close>

fun back_while :: "(char \<Rightarrow> bool) \<Rightarrow> string \<Rightarrow> nat \<Rightarrow> nat" where
  "back_while P s 0 = 0"
| "back_while P s (Suc n) = (if P (s ! Suc n) then back_while P s n else Suc n)"

fun base_start :: "string \<Rightarrow> nat \<Rightarrow> nat" where
  "base_start s 0 = 0"
| "base_start s (Suc n) = (if s ! n \<noteq> slash then base_start s n else Suc n)"

definition port_basename :: "nat \<Rightarrow> string \<Rightarrow> string option" where
  "port_basename maxlen path =
     (if path = [] then Some ''.''
      else
        (let endp = back_while (\<lambda>c. c = slash) path (length path - 1) in
         if endp = 0 \<and> path ! endp = slash then Some ''/''
         else
           (let startp = base_start path endp; len = endp - startp + 1
            in if len \<ge> maxlen then None else Some (take len (drop startp path)))))"

definition port_dirname :: "nat \<Rightarrow> string \<Rightarrow> string option" where
  "port_dirname maxlen path =
     (if path = [] then Some ''.''
      else
        (let end1 = back_while (\<lambda>c. c = slash) path (length path - 1);
             end2 = back_while (\<lambda>c. c \<noteq> slash) path end1
         in if end2 = 0 then Some (if path ! end2 = slash then ''/'' else ''.'')
            else
              (let end3 = back_while (\<lambda>c. c = slash) path (end2 - 1); len = end3 + 1
               in if len \<ge> maxlen then None else Some (take len path))))"

section \<open>Absolute paths\<close>

definition absolute_step :: "nat \<Rightarrow> string \<Rightarrow> string \<Rightarrow> string option" where
  "absolute_step bufsize dest cur =
     (if cur = [] then Some dest
      else if cur = ''.'' then Some dest
      else if cur = ''..'' then
        Some (case strrchr dest slash of None \<Rightarrow> dest | Some r \<Rightarrow> take (length dest - length r) dest)
      else if length dest + 1 + length cur \<ge> bufsize then None
      else Some (dest @ slash # cur))"

text \<open>The loop over the components: \<open>cur\<close> ends at the next slash.\<close>

function absolute_loop :: "nat \<Rightarrow> string \<Rightarrow> string \<Rightarrow> string option" where
  "absolute_loop bufsize dest cur =
     (case absolute_step bufsize dest (takeWhile (\<lambda>c. c \<noteq> slash) cur) of
        None \<Rightarrow> None
      | Some dest' \<Rightarrow>
          (case strchr cur slash of
             None \<Rightarrow> Some dest'
           | Some nxt \<Rightarrow> absolute_loop bufsize dest' (tl nxt)))"
  by pat_completeness auto
termination
  by (relation "measure (\<lambda>(bufsize, dest, cur). length cur)") (auto dest: strchr_Some)

declare absolute_loop.simps [simp del]

text \<open>The working directory is what \<^verbatim>\<open>getcwd\<close> answers.\<close>

definition pkg_absolutepath :: "string option \<Rightarrow> string \<Rightarrow> nat \<Rightarrow> bool \<Rightarrow> string option" where
  "pkg_absolutepath cwd src bufsize fromroot =
     (case (if src \<noteq> [] \<and> hd src \<noteq> slash then (if fromroot then Some ''/'' else cwd) else Some []) of
        None \<Rightarrow> None
      | Some start \<Rightarrow>
          (case absolute_loop bufsize start src of
             None \<Rightarrow> None
           | Some dest \<Rightarrow> if dest = [] then (if 1 \<ge> bufsize then None else Some ''/'') else Some dest))"

section \<open>Components\<close>

fun components_from :: "string \<Rightarrow> string \<Rightarrow> string list" where
  "components_from w [] = (if w = [] then [] else [w])"
| "components_from w (c # s) =
     (if c = slash then (if w = [] then [] else [w]) @ components_from [] s else components_from (w @ [c]) s)"

definition components :: "string \<Rightarrow> string list" where
  "components = components_from []"

lemma components_slash: "components (s @ slash # t) = components s @ components t"
proof -
  have "components_from w (s @ slash # t) = components_from w s @ components_from [] t" for w
    by (induction s arbitrary: w) auto
  then show ?thesis by (simp add: components_def)
qed

lemma components_plain: "slash \<notin> set s \<Longrightarrow> components s = (if s = [] then [] else [s])"
proof -
  have "slash \<notin> set s \<Longrightarrow> components_from w s = (if w @ s = [] then [] else [w @ s])" for w
    by (induction s arbitrary: w) auto
  then show "slash \<notin> set s \<Longrightarrow> components s = (if s = [] then [] else [s])" by (simp add: components_def)
qed

lemma components_all_slash: "set s \<subseteq> {slash} \<Longrightarrow> components s = []"
  unfolding components_def by (induction s) auto

lemma components_trailing: "set t \<subseteq> {slash} \<Longrightarrow> components (s @ t) = components s"
  by (cases t) (simp_all add: components_slash components_all_slash)

lemma components_parts: "c \<in> set (components s) \<Longrightarrow> c \<noteq> [] \<and> slash \<notin> set c"
proof -
  have "slash \<notin> set w \<Longrightarrow> list_all (\<lambda>c. c \<noteq> [] \<and> slash \<notin> set c) (components_from w s)" for w
    by (induction s arbitrary: w) simp_all
  from this [of "[]"] show "c \<in> set (components s) \<Longrightarrow> c \<noteq> [] \<and> slash \<notin> set c" by (simp add: components_def list_all_iff)
qed

lemma components_Nil [simp]: "components [] = []"
  by (simp add: components_def)

section \<open>The parts of a path\<close>

lemma back_while_all: "\<forall>i. 0 < i \<and> i \<le> n \<longrightarrow> P (s ! i) \<Longrightarrow> back_while P s n = 0"
  by (induction n) auto

lemma back_while_to: "m \<le> n \<Longrightarrow> \<forall>i. m < i \<and> i \<le> n \<longrightarrow> P (s ! i) \<Longrightarrow> \<not> P (s ! m) \<Longrightarrow> back_while P s n = m"
proof (induction n)
  case (Suc n)
  then show ?case by (cases "m = Suc n") auto
qed simp

lemma base_start_to:
  "m \<le> n \<Longrightarrow> \<forall>i. m \<le> i \<and> i < n \<longrightarrow> s ! i \<noteq> slash \<Longrightarrow> m = 0 \<or> s ! (m - 1) = slash \<Longrightarrow> base_start s n = m"
proof (induction n)
  case (Suc n)
  then show ?case by (cases "m = Suc n") auto
qed simp

text \<open>A path that is not only slashes: what is in front of the last component, that component, and slashes.\<close>

definition parts :: "string \<Rightarrow> string \<Rightarrow> string \<Rightarrow> string \<Rightarrow> bool" where
  "parts path dir base tail \<longleftrightarrow> path = dir @ base @ tail \<and> base \<noteq> [] \<and> slash \<notin> set base \<and> set tail \<subseteq> {slash} \<and>
     (dir = [] \<or> last dir = slash)"

lemma path_split:
  assumes "\<not> set path \<subseteq> {slash}"
  obtains dir base tail where "parts path dir base tail"
proof -
  let ?r = "rev path"
  let ?tail = "takeWhile (\<lambda>c. c = slash) ?r" and ?r1 = "dropWhile (\<lambda>c. c = slash) ?r"
  let ?base = "takeWhile (\<lambda>c. c \<noteq> slash) ?r1" and ?dir = "dropWhile (\<lambda>c. c \<noteq> slash) ?r1"
  have "?r = ?tail @ ?base @ ?dir" by simp
  then have "path = rev ?dir @ rev ?base @ rev ?tail"
    by (metis append.assoc rev_append rev_rev_ident)
  moreover have r1: "?r1 \<noteq> []" using assms by (auto simp: dropWhile_eq_Nil_conv)
  then have "?base \<noteq> []" using hd_dropWhile [OF r1] by (cases ?r1) auto
  moreover have "slash \<notin> set ?base" by (auto dest: set_takeWhileD)
  moreover have "set ?tail \<subseteq> {slash}" by (auto dest: set_takeWhileD)
  moreover have "?dir = [] \<or> hd ?dir = slash" using hd_dropWhile by blast
  ultimately show ?thesis using that [of "rev ?dir" "rev ?base" "rev ?tail"] by (auto simp: parts_def last_rev)
qed

lemma components_split:
  assumes "parts path dir base tail"
  shows "components path = components dir @ [base]"
proof -
  have "components path = components (dir @ base)"
    using assms by (metis append.assoc components_trailing parts_def)
  also have "\<dots> = components dir @ [base]"
  proof (cases dir rule: rev_cases)
    case (snoc d c)
    then have dir: "dir = d @ [slash]" using assms by (auto simp: parts_def)
    show ?thesis using assms components_slash [of d base] components_slash [of d "[]"]
      by (simp add: dir parts_def components_plain)
  qed (use assms in \<open>simp add: parts_def components_plain\<close>)
  finally show ?thesis .
qed

lemma parts_nth:
  assumes "parts path dir base tail"
  shows "i < length dir \<Longrightarrow> path ! i = dir ! i"
    "length dir \<le> i \<Longrightarrow> i < length dir + length base \<Longrightarrow> path ! i \<noteq> slash"
    "length dir + length base \<le> i \<Longrightarrow> i < length path \<Longrightarrow> path ! i = slash"
proof -
  note p = assms [unfolded parts_def]
  show "i < length dir \<Longrightarrow> path ! i = dir ! i" using p by (simp add: nth_append)
  show "length dir \<le> i \<Longrightarrow> i < length dir + length base \<Longrightarrow> path ! i \<noteq> slash"
  proof -
    assume i: "length dir \<le> i" "i < length dir + length base"
    then have "path ! i = base ! (i - length dir)" "i - length dir < length base" using p by (auto simp: nth_append)
    then show "path ! i \<noteq> slash" using p by (metis nth_mem)
  qed
  show "length dir + length base \<le> i \<Longrightarrow> i < length path \<Longrightarrow> path ! i = slash"
  proof -
    assume i: "length dir + length base \<le> i" "i < length path"
    then have "path ! i = tail ! (i - length dir - length base)" "i - length dir - length base < length tail"
      using p by (auto simp: nth_append)
    then show "path ! i = slash" using p nth_mem by fastforce
  qed
qed

lemma base_length: "parts path dir base tail \<Longrightarrow> 0 < length base \<and> length dir + length base \<le> length path \<and> path \<noteq> []"
  by (auto simp: parts_def)

lemma end_of_base:
  assumes "parts path dir base tail"
  shows "back_while (\<lambda>c. c = slash) path (length path - 1) = length dir + length base - 1"
proof (rule back_while_to)
  show "length dir + length base - 1 \<le> length path - 1" using base_length [OF assms] by linarith
  show "\<forall>i. length dir + length base - 1 < i \<and> i \<le> length path - 1 \<longrightarrow> path ! i = slash"
    using parts_nth(3) [OF assms] base_length [OF assms] by (metis Suc_pred add_gr_0 diff_Suc_1 le_imp_less_Suc length_greater_0_conv less_eq_Suc_le)
  show "path ! (length dir + length base - 1) \<noteq> slash"
    using base_length [OF assms] by (intro parts_nth(2) [OF assms]) linarith+
qed

lemma basename_split:
  assumes "parts path dir base tail" "length path < maxlen"
  shows "port_basename maxlen path = Some base"
proof -
  note p = assms(1) [unfolded parts_def]
  have "base_start path (length dir + length base - 1) = length dir"
  proof (rule base_start_to)
    show "length dir \<le> length dir + length base - 1" using base_length [OF assms(1)] by linarith
    show "\<forall>i. length dir \<le> i \<and> i < length dir + length base - 1 \<longrightarrow> path ! i \<noteq> slash"
      by (intro allI impI parts_nth(2) [OF assms(1)]) auto
    show "length dir = 0 \<or> path ! (length dir - 1) = slash"
      using p parts_nth(1) [OF assms(1), of "length dir - 1"] by (cases "dir = []") (auto simp: last_conv_nth)
  qed
  moreover have "length dir + length base - 1 - length dir + 1 = length base" using base_length [OF assms(1)] by linarith
  moreover have "path \<noteq> []" "length base < maxlen" using base_length [OF assms(1)] assms(2) by auto
  moreover have "take (length base) (drop (length dir) path) = base" using p by simp
  moreover have "path ! (length dir + length base - 1) \<noteq> slash"
    using base_length [OF assms(1)] by (intro parts_nth(2) [OF assms(1)]) linarith+
  ultimately show ?thesis unfolding port_basename_def Let_def end_of_base [OF assms(1)] by simp
qed

lemma end_of_dir:
  assumes "parts path dir base tail"
  shows "back_while (\<lambda>c. c \<noteq> slash) path (length dir + length base - 1) = length dir - 1"
proof (cases "dir = []")
  case True
  then show ?thesis by (simp, intro back_while_all allI impI parts_nth(2) [OF assms]) auto
next
  case False
  show ?thesis
  proof (rule back_while_to)
    show "\<forall>i. length dir - 1 < i \<and> i \<le> length dir + length base - 1 \<longrightarrow> path ! i \<noteq> slash"
      using base_length [OF assms] by (intro allI impI parts_nth(2) [OF assms]) auto
    show "\<not> path ! (length dir - 1) \<noteq> slash"
      using False assms parts_nth(1) [OF assms, of "length dir - 1"] by (simp add: parts_def last_conv_nth)
  qed simp
qed

text \<open>Slashes at the end of the first \<open>length dir\<close> characters are passed over.\<close>

lemma strip_slashes:
  assumes "parts path dir base tail" "dir = d @ rest" "set rest \<subseteq> {slash}" "rest \<noteq> []" "d \<noteq> []" "last d \<noteq> slash"
  shows "back_while (\<lambda>c. c = slash) path (length dir - 1 - 1) = length d - 1"
proof (rule back_while_to)
  have len: "length dir = length d + length rest" "0 < length rest" "0 < length d" using assms by auto
  then show "length d - 1 \<le> length dir - 1 - 1" by linarith
  show "\<forall>i. length d - 1 < i \<and> i \<le> length dir - 1 - 1 \<longrightarrow> path ! i = slash"
  proof (intro allI impI)
    fix i assume i: "length d - 1 < i \<and> i \<le> length dir - 1 - 1"
    then have "path ! i = rest ! (i - length d)" "i - length d < length rest"
      using len parts_nth(1) [OF assms(1), of i] by (auto simp: assms(2) nth_append)
    then show "path ! i = slash" using assms(3) nth_mem by fastforce
  qed
  have "length d - 1 < length dir" using len by linarith
  then have "path ! (length d - 1) = last d"
    using parts_nth(1) [OF assms(1), of "length d - 1"] assms(5) by (simp add: assms(2) nth_append last_conv_nth)
  then show "path ! (length d - 1) \<noteq> slash" using assms(6) by simp
qed

lemma dirname_value:
  assumes "parts path dir base tail"
  shows "port_dirname maxlen path =
    (if length dir - 1 = 0 then Some (if path ! 0 = slash then ''/'' else ''.'')
     else (let len = back_while (\<lambda>c. c = slash) path (length dir - 1 - 1) + 1 in if len \<ge> maxlen then None else Some (take len path)))"
  unfolding port_dirname_def Let_def end_of_base [OF assms] end_of_dir [OF assms]
  using base_length [OF assms] by (cases "length dir - 1 = 0") (simp_all only: if_True if_False simp_thms)

text \<open>The directory is \<open>dir\<close> without the slashes at its end, unless it has nothing else.\<close>

lemma dirname_root:
  assumes "parts path dir base tail" "dir \<noteq> []" "set dir \<subseteq> {slash}" "length path < maxlen"
  shows "port_dirname maxlen path = Some ''/''"
proof (cases "length dir - 1")
  case 0
  then have "path ! 0 = slash" using assms parts_nth(1) [OF assms(1), of 0] by (cases dir) auto
  then show ?thesis unfolding dirname_value [OF assms(1)] 0 by simp
next
  case (Suc k)
  have all: "path ! i = slash" if "i < length dir" for i
    using assms(3) that parts_nth(1) [OF assms(1) that] by (metis nth_mem singletonD subsetD)
  then have "back_while (\<lambda>c. c = slash) path k = 0" using Suc by (intro back_while_all allI impI all) auto
  moreover have "take (Suc 0) path = ''/''" using all [of 0] assms(2) base_length [OF assms(1)] by (cases path) auto
  moreover have "1 < maxlen" using assms(4) base_length [OF assms(1)] Suc by linarith
  ultimately show ?thesis unfolding dirname_value [OF assms(1)] Suc by (simp add: Let_def)
qed

lemma dirname_dir:
  assumes "parts path (d @ rest) base tail" "set rest \<subseteq> {slash}" "rest \<noteq> []" "d \<noteq> []" "last d \<noteq> slash" "length path < maxlen"
  shows "port_dirname maxlen path = Some d"
proof -
  have len: "0 < length rest" "0 < length d" "length d + length rest < maxlen"
    using assms base_length [OF assms(1)] by auto
  then have "length (d @ rest) - 1 \<noteq> 0" "length d - 1 + 1 = length d" "\<not> length d \<ge> maxlen"
    by (cases rest; cases d; simp)+
  moreover have "take (length d) path = d" using assms(1) by (simp add: parts_def)
  ultimately show ?thesis
    unfolding dirname_value [OF assms(1)] strip_slashes [OF assms(1) refl assms(2-5)] Let_def by simp
qed

lemma strip_dir:
  assumes "dir \<noteq> []" "last dir = slash" "\<not> set dir \<subseteq> {slash}"
  obtains d rest where "dir = d @ rest" "set rest \<subseteq> {slash}" "rest \<noteq> []" "d \<noteq> []" "last d \<noteq> slash"
proof -
  let ?rest = "takeWhile (\<lambda>c. c = slash) (rev dir)" and ?d = "dropWhile (\<lambda>c. c = slash) (rev dir)"
  have "rev dir = ?rest @ ?d" by simp
  then have "dir = rev ?d @ rev ?rest" by (metis rev_append rev_rev_ident)
  moreover have "set (rev ?rest) \<subseteq> {slash}" by (auto dest: set_takeWhileD)
  moreover have "rev ?rest \<noteq> []" using assms(1,2) by (cases dir rule: rev_cases) auto
  moreover have d: "?d \<noteq> []" using assms(3) by (auto simp: dropWhile_eq_Nil_conv)
  moreover have "last (rev ?d) \<noteq> slash" using hd_dropWhile [OF d] d by (simp add: last_rev)
  ultimately show ?thesis using that by simp
qed

text \<open>C35. For a path that fits and is not empty, the last component and the rest are those of its components: the rest has
  all components but the last, is absolute when the path is, and ends in no slash. A path of one
  component lies in the root or in the current directory; one of slashes only is the root, twice.
\<close>

theorem dirname_basename:
  assumes "path \<noteq> []" "length path < maxlen"
  shows "(components path = [] \<longrightarrow> port_basename maxlen path = Some ''/'' \<and> port_dirname maxlen path = Some ''/'') \<and>
    (components path \<noteq> [] \<longrightarrow> port_basename maxlen path = Some (last (components path)) \<and>
      (\<exists>d. port_dirname maxlen path = Some d \<and>
        (if butlast (components path) = [] then d = (if hd path = slash then ''/'' else ''.'')
         else components d = butlast (components path) \<and> (hd d = slash \<longleftrightarrow> hd path = slash) \<and> last d \<noteq> slash)))"
proof (cases "set path \<subseteq> {slash}")
  case True
  then have all: "path ! i = slash" if "i < length path" for i using that by (metis nth_mem singletonD subsetD)
  then have "back_while (\<lambda>c. c = slash) path (length path - 1) = 0" using assms(1) by (intro back_while_all allI impI all) (cases path; simp)
  then show ?thesis using assms(1) all [of 0] components_all_slash [OF True] by (simp add: port_basename_def port_dirname_def Let_def)
next
  case False
  then obtain dir base tail where p: "parts path dir base tail" by (rule path_split)
  have c: "components path = components dir @ [base]" by (rule components_split [OF p])
  have bn: "port_basename maxlen path = Some base" by (rule basename_split [OF p assms(2)])
  note pd = p [unfolded parts_def]
  consider (here) "dir = []" | (root) "dir \<noteq> []" "set dir \<subseteq> {slash}" | (sub) "dir \<noteq> []" "\<not> set dir \<subseteq> {slash}" by blast
  then show ?thesis
  proof cases
    case here
    then have "path ! 0 \<noteq> slash" using base_length [OF p] by (intro parts_nth(2) [OF p]) auto
    then show ?thesis using c bn here assms(1) by (simp add: dirname_value [OF p] hd_conv_nth)
  next
    case root
    then have "hd path = slash" using pd by (cases dir) auto
    then show ?thesis using c bn components_all_slash [OF root(2)] dirname_root [OF p root assms(2)] by simp
  next
    case sub
    obtain d rest where d: "dir = d @ rest" "set rest \<subseteq> {slash}" "rest \<noteq> []" "d \<noteq> []" "last d \<noteq> slash"
      using strip_dir [OF sub(1) _ sub(2)] pd sub(1) by blast
    have "port_dirname maxlen path = Some d" by (rule dirname_dir [OF p [unfolded d(1)] d(2-5) assms(2)])
    moreover have "components d = components dir" using components_trailing [OF d(2)] d(1) by simp
    moreover have "components d \<noteq> []"
    proof -
      have "\<not> set d \<subseteq> {slash}" using d(4,5) by (metis last_in_set singletonD subsetD)
      then obtain a b e where "parts d a b e" by (rule path_split)
      from components_split [OF this] show ?thesis by simp
    qed
    moreover have "hd d = hd path" using pd d(1,4) by simp
    ultimately show ?thesis using c bn d(5) by simp
  qed
qed

theorem dirname_basename_witness:
  "port_basename 20 ''/usr//local/'' = Some ''local'' \<and> (\<exists>d. port_dirname 20 ''/usr//local/'' = Some d \<and> components d = [''usr''])"
proof -
  have c: "components ''/usr//local/'' = [''usr'', ''local'']" by code_simp
  show ?thesis using dirname_basename [of "''/usr//local/''" 20] by (auto simp: c)
qed

section \<open>Absolute paths are canonical\<close>

definition path_text :: "string list \<Rightarrow> string" where
  "path_text cs = concat (map ((#) slash) cs)"

definition clean :: "string list \<Rightarrow> bool" where
  "clean cs \<longleftrightarrow> (\<forall>c \<in> set cs. c \<noteq> [] \<and> c \<noteq> ''.'' \<and> c \<noteq> ''..'' \<and> slash \<notin> set c)"

text \<open>What the components of a path mean, seen from a directory.\<close>

fun resolve :: "string list \<Rightarrow> string list \<Rightarrow> string list" where
  "resolve [] ds = ds"
| "resolve (c # cs) ds = resolve cs (if c = ''.'' then ds else if c = ''..'' then butlast ds else ds @ [c])"

lemma path_text_simps [simp]: "path_text [] = []" "path_text (c # cs) = slash # c @ path_text cs"
  "path_text (cs @ ds) = path_text cs @ path_text ds"
  by (simp_all add: path_text_def)

lemma clean_simps [simp]: "clean []" "clean (cs @ ds) \<longleftrightarrow> clean cs \<and> clean ds" "clean cs \<Longrightarrow> clean (butlast cs)"
  by (auto simp: clean_def dest: in_set_butlastD)

lemma components_path_text: "clean cs \<Longrightarrow> components (path_text cs) = cs"
proof (induction cs rule: rev_induct)
  case (snoc c cs)
  then show ?case
    using components_slash [of "path_text cs" c] by (simp add: clean_def components_plain)
qed simp

lemma resolve_append: "resolve (cs @ cs') ds = resolve cs' (resolve cs ds)"
  by (induction cs arbitrary: ds) auto

lemma resolve_clean: "clean cs \<Longrightarrow> resolve cs ds = ds @ cs"
  by (induction cs arbitrary: ds) (auto simp: clean_def)

lemma clean_snoc: "clean (ds @ [c]) \<longleftrightarrow> clean ds \<and> c \<noteq> [] \<and> c \<noteq> ''.'' \<and> c \<noteq> ''..'' \<and> slash \<notin> set c"
  unfolding clean_def by auto

lemma clean_resolve: "clean ds \<Longrightarrow> list_all (\<lambda>c. c \<noteq> [] \<and> slash \<notin> set c) cs \<Longrightarrow> clean (resolve cs ds)"
proof (induction cs arbitrary: ds)
  case (Cons c cs)
  let ?ds = "if c = ''.'' then ds else if c = ''..'' then butlast ds else ds @ [c]"
  have "clean ?ds" using clean_simps(3) [OF Cons.prems(1)] Cons.prems(1,2) clean_snoc [of ds c] by (simp only: list.pred_inject split: if_split) blast
  moreover have "list_all (\<lambda>c. c \<noteq> [] \<and> slash \<notin> set c) cs" using Cons.prems(2) by simp
  ultimately have "clean (resolve cs ?ds)" by (rule Cons.IH)
  then show ?case by (simp only: resolve.simps)
qed simp

lemma strrchr_no: "c \<notin> set s \<Longrightarrow> strrchr (c # s) c = Some (c # s)"
  using strrchr_None [of s c] by simp

lemma strrchr_append: "strrchr t c = Some r \<Longrightarrow> strrchr (s @ t) c = Some r"
  by (induction s) simp_all

lemma strrchr_path_text: "clean (es @ [e]) \<Longrightarrow> strrchr (path_text (es @ [e])) slash = Some (slash # e)"
  by (simp add: clean_def strrchr_append strrchr_no del: strrchr.simps)

lemma absolute_step_spec:
  assumes "clean ds" "slash \<notin> set cur"
  shows "absolute_step n (path_text ds) cur =
    (if cur \<noteq> [] \<and> cur \<noteq> ''.'' \<and> cur \<noteq> ''..'' \<and> length (path_text ds) + 1 + length cur \<ge> n then None
     else Some (path_text (resolve (components cur) ds)))"
proof (cases "cur = ''..''")
  case True
  show ?thesis
  proof (cases ds rule: rev_cases)
    case (snoc es e)
    then show ?thesis using True assms strrchr_path_text [of es e] by (simp add: absolute_step_def components_plain)
  qed (use True assms in \<open>simp add: absolute_step_def components_plain\<close>)
qed (use assms in \<open>auto simp: absolute_step_def components_plain\<close>)

lemma clean_step: "clean ds \<Longrightarrow> clean (resolve (components cur) ds)"
  using clean_resolve [of ds "components cur"] components_parts [of _ cur] unfolding list_all_iff by blast

text \<open>The loop splits off the first component.\<close>

lemma strchr_split:
  assumes "strchr s c = Some r"
  shows "s = takeWhile (\<lambda>d. d \<noteq> c) s @ c # tl r"
proof -
  obtain p u where p: "s = p @ r" "r = c # u" "c \<notin> set p" using strchr_Some [OF assms] by blast
  then have "takeWhile (\<lambda>d. d \<noteq> c) s = p" by (auto simp: takeWhile_append)
  then show ?thesis using p by simp
qed

lemma absolute_loop_spec:
  "clean ds \<Longrightarrow> absolute_loop n (path_text ds) cur = Some r \<Longrightarrow> length (path_text ds) < n \<Longrightarrow>
   r = path_text (resolve (components cur) ds) \<and> length r < n"
proof (induction cur arbitrary: ds rule: length_induct)
  case (1 cur)
  let ?seg = "takeWhile (\<lambda>c. c \<noteq> slash) cur"
  let ?ds = "resolve (components ?seg) ds"
  have seg: "slash \<notin> set ?seg" by (auto dest: set_takeWhileD)
  note step = absolute_step_spec [OF "1.prems"(1) seg, of n]
  have s: "absolute_step n (path_text ds) ?seg = Some (path_text ?ds)"
    using "1.prems"(2) step by (subst (asm) absolute_loop.simps) (auto split: if_splits)
  have len: "length (path_text ?ds) < n"
  proof (cases "?seg = [] \<or> ?seg = ''.'' \<or> ?seg = ''..''")
    case True
    have "length (path_text (butlast ds)) \<le> length (path_text ds)"
      by (cases ds rule: rev_cases) simp_all
    then show ?thesis using True "1.prems"(3) seg by (auto simp: components_plain)
  next
    case False
    then show ?thesis using s step seg by (auto simp: components_plain split: if_splits)
  qed
  show ?case
  proof (cases "strchr cur slash")
    case None
    then have "slash \<notin> set cur" by (simp add: strchr_None)
    then have all: "?seg = cur" by (simp add: takeWhile_eq_all_conv) blast
    have "r = path_text ?ds" using "1.prems"(2) s None by (subst (asm) absolute_loop.simps) simp
    then show ?thesis using len unfolding all by blast
  next
    case (Some nxt)
    note cur = strchr_split [OF Some]
    have parts: "components cur = components ?seg @ components (tl nxt)" by (subst cur) (rule components_slash)
    have rest: "absolute_loop n (path_text ?ds) (tl nxt) = Some r"
      using "1.prems"(2) s Some by (subst (asm) absolute_loop.simps) simp
    have "length (tl nxt) < length cur" using arg_cong [OF cur, of length] by simp
    from "1.IH" [rule_format, OF this clean_step [OF "1.prems"(1)] rest len]
    show ?thesis unfolding parts resolve_append .
  qed
qed

text \<open>Paths that are not too long are accepted.\<close>

lemma absolute_loop_returns:
  "clean ds \<Longrightarrow> length (path_text ds) + length cur + 1 < n \<Longrightarrow> absolute_loop n (path_text ds) cur \<noteq> None"
proof (induction cur arbitrary: ds rule: length_induct)
  case (1 cur)
  let ?seg = "takeWhile (\<lambda>c. c \<noteq> slash) cur"
  let ?ds = "resolve (components ?seg) ds"
  have seg: "slash \<notin> set ?seg" by (auto dest: set_takeWhileD)
  have le: "length ?seg \<le> length cur" by (rule length_takeWhile_le)
  have s: "absolute_step n (path_text ds) ?seg = Some (path_text ?ds)"
    using absolute_step_spec [OF "1.prems"(1) seg, of n] "1.prems"(2) le by (auto split: if_splits)
  have shorter: "length (path_text (butlast ds)) \<le> length (path_text ds)"
    by (cases ds rule: rev_cases) simp_all
  then have len: "length (path_text ?ds) \<le> length (path_text ds) + length ?seg + 1"
    using seg by (auto simp: components_plain)
  show ?case
  proof (cases "strchr cur slash")
    case None
    then show ?thesis by (subst absolute_loop.simps) (simp add: s)
  next
    case (Some nxt)
    have "length cur = length ?seg + 1 + length (tl nxt)" using arg_cong [OF strchr_split [OF Some], of length] by simp
    then have "length (tl nxt) < length cur" "length (path_text ?ds) + length (tl nxt) + 1 < n" using len "1.prems"(2) by linarith+
    then have "absolute_loop n (path_text ?ds) (tl nxt) \<noteq> None" using "1.IH" clean_step [OF "1.prems"(1)] by blast
    then show ?thesis by (subst absolute_loop.simps) (simp add: s Some)
  qed
qed

text \<open>
  A path that \<^verbatim>\<open>getcwd\<close> answers, absolute and without dots, but for the root directory: that one is
  the empty path here, since the answer \<^verbatim>\<open>/\<close> makes the function double the slash.
\<close>

definition canonical :: "string \<Rightarrow> bool" where
  "canonical p \<longleftrightarrow> p = path_text (components p) \<and> clean (components p)"

lemma canonical_path_text: "clean cs \<Longrightarrow> canonical (path_text cs)"
  by (simp add: canonical_def components_path_text)

lemma absolute_again:
  assumes "canonical p" "p \<noteq> []" "length p < n"
  shows "pkg_absolutepath cwd p n b = Some p"
proof -
  let ?cs = "components p"
  have p: "p = path_text ?cs" "clean ?cs" using assms(1) by (simp_all add: canonical_def)
  have "?cs \<noteq> []" using assms(2) p(1) by (metis path_text_simps(1))
  then obtain c cs where "?cs = c # cs" by (cases ?cs) auto
  then obtain q where hd: "p = slash # q" using p(1) by (metis path_text_simps(2))
  then have nxt: "strchr p slash = Some p" by simp
  have "length (path_text []) + length (tl p) + 1 < n" using assms(3) arg_cong [OF hd, of length] by simp
  then obtain r where r: "absolute_loop n (path_text []) (tl p) = Some r" using absolute_loop_returns [of "[]" "tl p" n] by auto
  have "takeWhile (\<lambda>c. c \<noteq> slash) p = []" using hd by simp
  then have loop: "absolute_loop n [] p = Some r"
    using r by (subst absolute_loop.simps) (simp add: nxt absolute_step_def)
  have "r = path_text (resolve (components p) [])"
    using absolute_loop_spec [of "[]" n p r] loop assms(2,3) by simp
  then have "r = p" using resolve_clean [OF p(2), of "[]"] p(1) by (metis append_Nil)
  then show ?thesis using loop assms(2) hd by (simp add: pkg_absolutepath_def)
qed

text \<open>C34. When a path can be made absolute the result is canonical, whatever dots and slashes the path was
  written with: its components are those the path names, seen from the working directory unless it
  is absolute itself, with the dots resolved. It fits into its buffer, and making it absolute again
  changes nothing. The working directory is a canonical path that fits into the buffer and is not
  the root directory, and the path is not to be taken from the root: there a relative path gets two
  slashes in front, see \<open>absolutepath_double_slash\<close>.
\<close>

theorem absolutepath_canonical:
  assumes "pkg_absolutepath cwd src n False = Some r" "cwd = Some wd" "canonical wd" "length wd < n"
  defines "cs \<equiv> resolve (components src) (if src \<noteq> [] \<and> hd src \<noteq> slash then components wd else [])"
  shows "components r = cs \<and> clean cs \<and> r = (if cs = [] then ''/'' else path_text cs) \<and> length r < n \<and>
    pkg_absolutepath cwd r n False = Some r"
proof -
  let ?ds = "if src \<noteq> [] \<and> hd src \<noteq> slash then components wd else []"
  have wd: "wd = path_text (components wd)" "clean (components wd)" using assms(3) by (simp_all add: canonical_def)
  have ds: "clean ?ds" using wd(2) by simp
  obtain dest where d: "absolute_loop n (path_text ?ds) src = Some dest" "r = (if dest = [] then ''/'' else dest)" "dest = [] \<longrightarrow> 1 < n"
    using assms(1,2) wd(1) by (auto simp: pkg_absolutepath_def split: option.splits if_splits)
  have "length (path_text ?ds) < n" using wd(1) assms(4) by (cases "src \<noteq> [] \<and> hd src \<noteq> slash") auto
  then have dest: "dest = path_text cs" "length dest < n" using absolute_loop_spec [OF ds d(1)] unfolding cs_def by blast+
  have cs: "clean cs" unfolding cs_def by (rule clean_step [OF ds])
  show ?thesis
  proof (cases cs)
    case Nil
    have "absolute_loop n [] ''/'' = Some []" by (subst absolute_loop.simps; simp add: absolute_step_def; subst absolute_loop.simps; simp add: absolute_step_def)
    then have "pkg_absolutepath cwd ''/'' n False = Some ''/''" using d(3) dest(1) Nil by (simp add: pkg_absolutepath_def)
    then show ?thesis using Nil d(2,3) dest(1) components_all_slash [of "''/''"] by simp
  next
    case (Cons c ds)
    then have "dest \<noteq> []" "canonical dest" using dest(1) canonical_path_text [OF cs] by auto
    then show ?thesis using absolute_again [of dest n] dest d(2) cs Cons components_path_text [OF cs] by simp
  qed
qed

theorem absolutepath_canonical_witness:
  "components ''/usr/ports/lang'' = [''usr'', ''ports'', ''lang''] \<and>
     pkg_absolutepath (Some ''/usr/ports/devel'') ''/usr/ports/lang'' 40 False = Some ''/usr/ports/lang''"
proof -
  have "pkg_absolutepath (Some ''/usr/ports/devel'') ''.././lang//'' 40 False = Some ''/usr/ports/lang''" by code_simp
  moreover have "canonical ''/usr/ports/devel''" by code_simp
  moreover have "resolve (components ''.././lang//'') (components ''/usr/ports/devel'') = [''usr'', ''ports'', ''lang'']" by code_simp
  ultimately show ?thesis using absolutepath_canonical [of _ "''.././lang//''" 40 "''/usr/ports/lang''" "''/usr/ports/devel''"] by simp
qed

text \<open>
  A relative path seen from the root, and one seen from the working directory \<^verbatim>\<open>/\<close>, starts with two
  slashes: the separator is written behind the slash that is there.
\<close>

lemma absolutepath_double_slash:
  "pkg_absolutepath cwd ''usr'' 40 True = Some ''//usr''" "pkg_absolutepath (Some ''/'') ''usr'' 40 False = Some ''//usr''"
  by (simp add: pkg_absolutepath_def, subst absolute_loop.simps, simp add: absolute_step_def)+

end
