(* ===== verification/Pkg_Object.thy ===== *)
theory Pkg_Object
  imports Pkg_Printf Pkg_Types Pkg_Version Port_Path "HOL-Library.Monad_Syntax"
begin

text \<open>
  Building package objects (\<^verbatim>\<open>libpkg/pkg.c\<close>, \<^verbatim>\<open>libpkg/pkg_attributes.c\<close>). An object keeps its dependencies, files,
  directories, options and conflicts twice, as lists and in hash tables; the operations add to both. A
  table may be null, or dangle after its list was freed: then, for a violated assertion, and for a null
  or freed pointer that is followed the result is \<open>None\<close>. The lists of strings, which are tables only,
  are lists here, in the order of insertion.
\<close>

section \<open>Hash tables\<close>

datatype 'v table = Null | Live "(string \<times> 'v) list" | Freed

fun kh_find :: "'v table \<Rightarrow> string \<Rightarrow> 'v option option" where
  "kh_find Null key = Some None"
| "kh_find (Live h) key = Some (map_of h key)"
| "kh_find Freed key = None"

definition kh_contains :: "'v table \<Rightarrow> string \<Rightarrow> bool option" where
  "kh_contains t key = map_option (\<lambda>r. r \<noteq> None) (kh_find t key)"

fun kh_count :: "'v table \<Rightarrow> nat option" where
  "kh_count Null = Some 0"
| "kh_count (Live h) = Some (length h)"
| "kh_count Freed = None"

text \<open>A key that is there keeps its value; whether the value was stored.\<close>

fun kh_put :: "'v table \<Rightarrow> string \<Rightarrow> 'v \<Rightarrow> ('v table \<times> bool) option" where
  "kh_put Null key v = Some (Live [(key, v)], True)"
| "kh_put (Live h) key v = Some (if map_of h key \<noteq> None then (Live h, False) else (Live (h @ [(key, v)]), True))"
| "kh_put Freed key v = None"

definition kh_safe_add :: "'v table \<Rightarrow> string \<Rightarrow> 'v \<Rightarrow> 'v table option" where
  "kh_safe_add t key v = map_option fst (kh_put t key v)"

text \<open>Destroying a table leaves the pointer to it as it is.\<close>

fun kh_destroy :: "'v table \<Rightarrow> 'v table option" where
  "kh_destroy Null = Some Null"
| "kh_destroy (Live h) = Some Freed"
| "kh_destroy Freed = None"

section \<open>Objects\<close>

datatype pkg_script = PKG_SCRIPT_PRE_INSTALL | PKG_SCRIPT_POST_INSTALL | PKG_SCRIPT_PRE_DEINSTALL | PKG_SCRIPT_POST_DEINSTALL
  | PKG_SCRIPT_PRE_UPGRADE | PKG_SCRIPT_POST_UPGRADE | PKG_SCRIPT_INSTALL | PKG_SCRIPT_DEINSTALL | PKG_SCRIPT_UPGRADE

record config_file =
  cf_path :: string
  cf_content :: "string option"

record pkg_object = pkg_view +
  po_uid :: "string option"
  po_digest :: "string option"
  po_old_digest :: "string option"
  po_repourl :: "string option"
  po_reason :: "string option"
  po_dep_formula :: "string option"
  po_id :: int
  po_old_flatsize :: int
  po_scripts :: "pkg_script \<Rightarrow> string option"
  po_depshash :: "view_dep table"
  po_rdepshash :: "view_dep table"
  po_filehash :: "view_file table"
  po_dirhash :: "view_dir table"
  po_optionshash :: "view_option table"
  po_conflicts :: "pkg_conflict list"
  po_conflictshash :: "pkg_conflict table"
  po_config_files :: "config_file table"
  po_flags :: "32 word"
  po_type :: pkg_type

text \<open>The settings of the library, the limits of the system, and the working directory.\<close>

record pkg_ctx =
  developer_mode :: bool
  ctx_cwd :: "string option"
  maxpathlen :: nat
  maxlogname :: nat

definition pkg_new :: "pkg_type \<Rightarrow> pkg_object" where
  "pkg_new t = \<lparr>pv_locked = False, pv_automatic = False, pv_vital = False, pv_name = None, pv_origin = None, pv_version = None,
     pv_old_version = None, pv_maintainer = None, pv_www = None, pv_arch = None, pv_abi = None, pv_prefix = None,
     pv_comment = None, pv_desc = None, pv_sum = None, pv_repopath = None, pv_reponame = None, pv_licenselogic = LICENSE_SINGLE,
     pv_pkgsize = 0, pv_flatsize = 0, pv_timestamp = 0, pv_message = [], pv_depends = [], pv_rdepends = [], pv_categories = [],
     pv_licenses = [], pv_files = [], pv_dirs = [], pv_options = [], pv_users = [], pv_groups = [], pv_shlibs_required = [],
     pv_shlibs_provided = [], pv_provides = [], pv_requires = [], pv_annotations = [],
     po_uid = None, po_digest = None, po_old_digest = None, po_repourl = None, po_reason = None, po_dep_formula = None,
     po_id = 0, po_old_flatsize = 0, po_scripts = (\<lambda>s. None), po_depshash = Null, po_rdepshash = Null, po_filehash = Null,
     po_dirhash = Null, po_optionshash = Null, po_conflicts = [], po_conflictshash = Null, po_config_files = Null,
     po_flags = 0, po_type = t\<rparr>"

definition pkg_is_valid :: "pkg_object option \<Rightarrow> epkg" where
  "pkg_is_valid pkg =
     (case pkg of
        None \<Rightarrow> EPKG_FATAL
      | Some p \<Rightarrow>
          if pv_origin p = None then EPKG_FATAL
          else if pv_name p = None then EPKG_FATAL
          else if pv_comment p = None then EPKG_FATAL
          else if pv_version p = None then EPKG_FATAL
          else if pv_desc p = None then EPKG_FATAL
          else if pv_maintainer p = None then EPKG_FATAL
          else if pv_www p = None then EPKG_FATAL
          else if pv_prefix p = None then EPKG_FATAL
          else EPKG_OK)"

text \<open>An operation returns its result and the object.\<close>

type_synonym added = "(epkg \<times> pkg_object) option"

text \<open>What is done with a duplicate that is reported: an error for developers only.\<close>

definition duplicate :: "pkg_ctx \<Rightarrow> pkg_object \<Rightarrow> added" where
  "duplicate ctx p = Some (if developer_mode ctx then EPKG_FATAL else EPKG_OK, p)"

section \<open>Users, groups and lists of strings\<close>

definition pkg_adduser :: "pkg_ctx \<Rightarrow> pkg_object \<Rightarrow> string \<Rightarrow> added" where
  "pkg_adduser ctx p name =
     (if name = [] then None
      else if name \<in> set (pv_users p) then duplicate ctx p
      else Some (EPKG_OK, p\<lparr>pv_users := pv_users p @ [name]\<rparr>))"

definition pkg_addgroup :: "pkg_ctx \<Rightarrow> pkg_object \<Rightarrow> string \<Rightarrow> added" where
  "pkg_addgroup ctx p name =
     (if name = [] then None
      else if name \<in> set (pv_groups p) then duplicate ctx p
      else Some (EPKG_OK, p\<lparr>pv_groups := pv_groups p @ [name]\<rparr>))"

definition pkg_addstring :: "pkg_ctx \<Rightarrow> string list \<Rightarrow> string \<Rightarrow> epkg \<times> string list" where
  "pkg_addstring ctx list val =
     (if val \<in> set list then (if developer_mode ctx then EPKG_FATAL else EPKG_OK, list) else (EPKG_OK, list @ [val]))"

definition pkg_addshlib_required :: "pkg_object \<Rightarrow> string \<Rightarrow> added" where
  "pkg_addshlib_required p name =
     (if name = [] then None
      else if name \<in> set (pv_shlibs_required p) then Some (EPKG_OK, p)
      else Some (EPKG_OK, p\<lparr>pv_shlibs_required := pv_shlibs_required p @ [name]\<rparr>))"

definition pkg_addshlib_provided :: "pkg_object \<Rightarrow> string \<Rightarrow> added" where
  "pkg_addshlib_provided p name =
     (if name = [] then None
      else if take 3 name \<noteq> ''lib'' then Some (EPKG_OK, p)
      else if name \<in> set (pv_shlibs_provided p) then Some (EPKG_OK, p)
      else Some (EPKG_OK, p\<lparr>pv_shlibs_provided := pv_shlibs_provided p @ [name]\<rparr>))"

definition pkg_addrequire :: "pkg_object \<Rightarrow> string \<Rightarrow> added" where
  "pkg_addrequire p name =
     (if name = [] then None
      else if name \<in> set (pv_requires p) then Some (EPKG_OK, p)
      else Some (EPKG_OK, p\<lparr>pv_requires := pv_requires p @ [name]\<rparr>))"

definition pkg_addprovide :: "pkg_object \<Rightarrow> string \<Rightarrow> added" where
  "pkg_addprovide p name =
     (if name = [] then None
      else if name \<in> set (pv_provides p) then Some (EPKG_OK, p)
      else Some (EPKG_OK, p\<lparr>pv_provides := pv_provides p @ [name]\<rparr>))"

section \<open>Dependencies\<close>

definition new_dep :: "string \<Rightarrow> string \<Rightarrow> string option \<Rightarrow> bool \<Rightarrow> view_dep" where
  "new_dep name origin version locked =
     \<lparr>vd_name = Some name, vd_origin = Some origin, vd_version = (if version = Some [] then None else version), vd_locked = locked\<rparr>"

text \<open>
  The chain of alternatives to add to is the one the function returned before: the head of the list of
  dependencies. Its \<^verbatim>\<open>alt_prev\<close> is null, and appending follows it. \<open>Some None\<close> is a null pointer.
\<close>

definition pkg_adddep_chain ::
  "bool \<Rightarrow> pkg_object \<Rightarrow> string \<Rightarrow> string \<Rightarrow> string option \<Rightarrow> bool \<Rightarrow> pkg_object option option" where
  "pkg_adddep_chain chain p name origin version locked =
     (if name = [] \<or> origin = [] then None
      else do {
        dup \<leftarrow> kh_contains (po_depshash p) name;
        if dup then Some None
        else do {
          let d = new_dep name origin version locked;
          (t, stored) \<leftarrow> kh_put (po_depshash p) name d;
          if chain then None else Some (Some (p\<lparr>po_depshash := t, pv_depends := pv_depends p @ [d]\<rparr>))
        }
      })"

definition pkg_adddep :: "pkg_object \<Rightarrow> string \<Rightarrow> string \<Rightarrow> string option \<Rightarrow> bool \<Rightarrow> added" where
  "pkg_adddep p name origin version locked = do {
     r \<leftarrow> pkg_adddep_chain False p name origin version locked;
     case r of None \<Rightarrow> Some (EPKG_FATAL, p) | Some p' \<Rightarrow> Some (EPKG_OK, p')
   }"

text \<open>A reverse dependency that the table has already is freed there, and linked into the list afterwards.\<close>

definition pkg_addrdep :: "pkg_object \<Rightarrow> string \<Rightarrow> string \<Rightarrow> string option \<Rightarrow> bool \<Rightarrow> added" where
  "pkg_addrdep p name origin version locked =
     (if name = [] \<or> origin = [] then None
      else do {
        let d = new_dep name origin version locked;
        (t, stored) \<leftarrow> kh_put (po_rdepshash p) name d;
        if \<not> stored then None else Some (EPKG_OK, p\<lparr>po_rdepshash := t, pv_rdepends := d # pv_rdepends p\<rparr>)
      })"

section \<open>Files and directories\<close>

text \<open>A duplicate is looked for when that is asked for.\<close>

definition known :: "bool \<Rightarrow> 'v table \<Rightarrow> string \<Rightarrow> bool option" where
  "known check t key = (if check then kh_contains t key else Some False)"

definition log_name :: "pkg_ctx \<Rightarrow> string option \<Rightarrow> string" where
  "log_name ctx name = (case name of None \<Rightarrow> [] | Some u \<Rightarrow> take (maxlogname ctx - 1) u)"

definition new_file :: "pkg_ctx \<Rightarrow> string \<Rightarrow> string option \<Rightarrow> string option \<Rightarrow> string option \<Rightarrow> mode \<Rightarrow> 64 word \<Rightarrow> view_file" where
  "new_file ctx path cksum uname gname perm fflags =
     \<lparr>vf_path = take (maxpathlen ctx - 1) path, vf_sum = cksum, vf_uname = log_name ctx uname, vf_gname = log_name ctx gname,
      vf_perm = perm, vf_fflags = fflags\<rparr>"

definition new_dir :: "pkg_ctx \<Rightarrow> string \<Rightarrow> string option \<Rightarrow> string option \<Rightarrow> mode \<Rightarrow> 64 word \<Rightarrow> view_dir" where
  "new_dir ctx path uname gname perm fflags =
     \<lparr>vr_path = take (maxpathlen ctx - 1) path, vr_uname = log_name ctx uname, vr_gname = log_name ctx gname, vr_perm = perm,
      vr_fflags = fflags\<rparr>"

definition pkg_addfile_attr ::
  "pkg_ctx \<Rightarrow> pkg_object \<Rightarrow> string \<Rightarrow> string option \<Rightarrow> string option \<Rightarrow> string option \<Rightarrow> mode \<Rightarrow> 64 word \<Rightarrow> bool \<Rightarrow> added" where
  "pkg_addfile_attr ctx p path cksum uname gname perm fflags check =
     (if path = [] then None
      else do {
        abspath \<leftarrow> pkg_absolutepath (ctx_cwd ctx) path (maxpathlen ctx) False;
        dup \<leftarrow> known check (po_filehash p) abspath;
        if dup then duplicate ctx p
        else do {
          let f = new_file ctx abspath cksum uname gname perm fflags;
          t \<leftarrow> kh_safe_add (po_filehash p) (vf_path f) f;
          Some (EPKG_OK, p\<lparr>po_filehash := t, pv_files := pv_files p @ [f]\<rparr>)
        }
      })"

definition pkg_addfile :: "pkg_ctx \<Rightarrow> pkg_object \<Rightarrow> string \<Rightarrow> string option \<Rightarrow> bool \<Rightarrow> added" where
  "pkg_addfile ctx p path cksum check = pkg_addfile_attr ctx p path cksum None None 0 0 check"

text \<open>A duplicate that is not an error is reported and then freed by the table, which has the first one.\<close>

definition pkg_addconfig_file :: "pkg_ctx \<Rightarrow> pkg_object \<Rightarrow> string \<Rightarrow> string option \<Rightarrow> added" where
  "pkg_addconfig_file ctx p path content = do {
     abspath \<leftarrow> pkg_absolutepath (ctx_cwd ctx) path (maxpathlen ctx) False;
     dup \<leftarrow> kh_contains (po_config_files p) abspath;
     if dup \<and> developer_mode ctx then Some (EPKG_FATAL, p)
     else do {
       let f = \<lparr>cf_path = take (maxpathlen ctx - 1) abspath, cf_content = content\<rparr>;
       (t, stored) \<leftarrow> kh_put (po_config_files p) (cf_path f) f;
       Some (EPKG_OK, p\<lparr>po_config_files := t\<rparr>)
     }
   }"

definition pkg_adddir_attr ::
  "pkg_ctx \<Rightarrow> pkg_object \<Rightarrow> string \<Rightarrow> string option \<Rightarrow> string option \<Rightarrow> mode \<Rightarrow> 64 word \<Rightarrow> bool \<Rightarrow> added" where
  "pkg_adddir_attr ctx p path uname gname perm fflags check =
     (if path = [] then None
      else if path = ''/'' then Some (EPKG_OK, p)
      else do {
        abspath \<leftarrow> pkg_absolutepath (ctx_cwd ctx) path (maxpathlen ctx) False;
        dup \<leftarrow> known check (po_dirhash p) abspath;
        if dup then duplicate ctx p
        else do {
          let d = new_dir ctx abspath uname gname perm fflags;
          t \<leftarrow> kh_safe_add (po_dirhash p) (vr_path d) d;
          Some (EPKG_OK, p\<lparr>po_dirhash := t, pv_dirs := pv_dirs p @ [d]\<rparr>)
        }
      })"

definition pkg_adddir :: "pkg_ctx \<Rightarrow> pkg_object \<Rightarrow> string \<Rightarrow> bool \<Rightarrow> added" where
  "pkg_adddir ctx p path check = pkg_adddir_attr ctx p path None None 0 0 check"

section \<open>Scripts\<close>

definition pkg_addscript :: "pkg_object \<Rightarrow> string \<Rightarrow> pkg_script \<Rightarrow> epkg \<times> pkg_object" where
  "pkg_addscript p data t = (EPKG_OK, p\<lparr>po_scripts := (po_scripts p)(t := Some data)\<rparr>)"

definition script_names :: "(string \<times> pkg_script) list" where
  "script_names =
     [(''pkg-pre-install'', PKG_SCRIPT_PRE_INSTALL), (''+PRE_INSTALL'', PKG_SCRIPT_PRE_INSTALL),
      (''pkg-post-install'', PKG_SCRIPT_POST_INSTALL), (''+POST_INSTALL'', PKG_SCRIPT_POST_INSTALL),
      (''pkg-install'', PKG_SCRIPT_INSTALL), (''+INSTALL'', PKG_SCRIPT_INSTALL),
      (''pkg-pre-deinstall'', PKG_SCRIPT_PRE_DEINSTALL), (''+PRE_DEINSTALL'', PKG_SCRIPT_PRE_DEINSTALL),
      (''pkg-post-deinstall'', PKG_SCRIPT_POST_DEINSTALL), (''+POST_DEINSTALL'', PKG_SCRIPT_POST_DEINSTALL),
      (''pkg-deinstall'', PKG_SCRIPT_DEINSTALL), (''+DEINSTALL'', PKG_SCRIPT_DEINSTALL),
      (''pkg-pre-upgrade'', PKG_SCRIPT_PRE_UPGRADE), (''+PRE_UPGRADE'', PKG_SCRIPT_PRE_UPGRADE),
      (''pkg-post-upgrade'', PKG_SCRIPT_POST_UPGRADE), (''+POST_UPGRADE'', PKG_SCRIPT_POST_UPGRADE),
      (''pkg-upgrade'', PKG_SCRIPT_UPGRADE), (''+UPGRADE'', PKG_SCRIPT_UPGRADE)]"

text \<open>The content of the file is \<open>None\<close> when it cannot be read.\<close>

definition pkg_addscript_fileat :: "string option \<Rightarrow> pkg_object \<Rightarrow> string \<Rightarrow> epkg \<times> pkg_object" where
  "pkg_addscript_fileat content p filename =
     (case content of
        None \<Rightarrow> (EPKG_FATAL, p)
      | Some data \<Rightarrow> (case map_of script_names filename of None \<Rightarrow> (EPKG_FATAL, p) | Some t \<Rightarrow> pkg_addscript p data t))"

text \<open>The name behind the last slash, without which a null pointer is followed.\<close>

definition pkg_addscript_file :: "string option \<Rightarrow> pkg_object \<Rightarrow> string \<Rightarrow> added" where
  "pkg_addscript_file content p path =
     (case content of
        None \<Rightarrow> Some (EPKG_FATAL, p)
      | Some data \<Rightarrow>
          (case strrchr path slash of
             None \<Rightarrow> None
           | Some r \<Rightarrow> Some (pkg_addscript_fileat content p (tl r))))"

definition pkg_appendscript :: "pkg_object \<Rightarrow> string \<Rightarrow> pkg_script \<Rightarrow> added" where
  "pkg_appendscript p cmd t =
     (if cmd = [] then None
      else Some (EPKG_OK, p\<lparr>po_scripts := (po_scripts p)(t := Some (case po_scripts p t of None \<Rightarrow> cmd | Some s \<Rightarrow> s @ cmd))\<rparr>))"

definition pkg_script_get :: "pkg_object \<Rightarrow> pkg_script \<Rightarrow> string option" where
  "pkg_script_get p t = po_scripts p t"

section \<open>Options, conflicts and annotations\<close>

text \<open>The three functions for options differ in the field that they set.\<close>

definition store_option :: "pkg_ctx \<Rightarrow> pkg_object \<Rightarrow> string \<Rightarrow> view_option \<Rightarrow> added" where
  "store_option ctx p key opt = do {
     dup \<leftarrow> kh_contains (po_optionshash p) key;
     if dup then duplicate ctx p
     else do {
       t \<leftarrow> kh_safe_add (po_optionshash p) key opt;
       Some (EPKG_OK, p\<lparr>po_optionshash := t, pv_options := pv_options p @ [opt]\<rparr>)
     }
   }"

definition pkg_addoption :: "pkg_ctx \<Rightarrow> pkg_object \<Rightarrow> string \<Rightarrow> string \<Rightarrow> added" where
  "pkg_addoption ctx p key value =
     (if key = [] \<or> value = [] then None
      else store_option ctx p key \<lparr>vo_key = Some key, vo_value = Some value, vo_default_value = None, vo_description = None\<rparr>)"

definition pkg_addoption_default :: "pkg_ctx \<Rightarrow> pkg_object \<Rightarrow> string \<Rightarrow> string \<Rightarrow> added" where
  "pkg_addoption_default ctx p key dflt =
     (if key = [] \<or> dflt = [] then None
      else store_option ctx p key \<lparr>vo_key = Some key, vo_value = None, vo_default_value = Some dflt, vo_description = None\<rparr>)"

definition pkg_addoption_description :: "pkg_ctx \<Rightarrow> pkg_object \<Rightarrow> string \<Rightarrow> string \<Rightarrow> added" where
  "pkg_addoption_description ctx p key description =
     (if key = [] \<or> description = [] then None
      else store_option ctx p key \<lparr>vo_key = Some key, vo_value = None, vo_default_value = None, vo_description = Some description\<rparr>)"

definition new_conflict :: "string \<Rightarrow> pkg_conflict" where
  "new_conflict uid = \<lparr>conflict_uid = uid, conflict_digest = None, conflict_type = PKG_CONFLICT_ALL\<rparr>"

definition pkg_addconflict :: "pkg_object \<Rightarrow> string \<Rightarrow> added" where
  "pkg_addconflict p uniqueid =
     (if uniqueid = [] then None
      else do {
        dup \<leftarrow> kh_contains (po_conflictshash p) uniqueid;
        if dup then Some (EPKG_OK, p)
        else do {
          let c = new_conflict uniqueid;
          t \<leftarrow> kh_safe_add (po_conflictshash p) uniqueid c;
          Some (EPKG_OK, p\<lparr>po_conflictshash := t, po_conflicts := po_conflicts p @ [c]\<rparr>)
        }
      })"

fun pkg_kv_get :: "view_kv list \<Rightarrow> string \<Rightarrow> string option" where
  "pkg_kv_get [] tag = None"
| "pkg_kv_get (kv # kvs) tag = (if kv_key kv = Some tag then kv_value kv else pkg_kv_get kvs tag)"

definition pkg_kv_new :: "string \<Rightarrow> string \<Rightarrow> view_kv" where
  "pkg_kv_new key val = \<lparr>kv_key = Some key, kv_value = Some val\<rparr>"

definition pkg_kv_add :: "pkg_ctx \<Rightarrow> view_kv list \<Rightarrow> string \<Rightarrow> string \<Rightarrow> epkg \<times> view_kv list" where
  "pkg_kv_add ctx list key val =
     (if list_ex (\<lambda>kv. kv_key kv = Some key) list then (if developer_mode ctx then EPKG_FATAL else EPKG_OK, list)
      else (EPKG_OK, list @ [pkg_kv_new key val]))"

section \<open>Lookups\<close>

definition pkg_is_config_file :: "pkg_object \<Rightarrow> string \<Rightarrow> (view_file \<times> config_file) option option" where
  "pkg_is_config_file p path = do {
     n \<leftarrow> kh_count (po_config_files p);
     if n = 0 then Some None
     else do {
       f \<leftarrow> kh_find (po_filehash p) path;
       case f of
         None \<Rightarrow> Some None
       | Some f \<Rightarrow> do {
           c \<leftarrow> kh_find (po_config_files p) path;
           Some (map_option (\<lambda>c. (f, c)) c)
         }
     }
   }"

definition pkg_get_dir :: "pkg_object \<Rightarrow> string \<Rightarrow> view_dir option option" where
  "pkg_get_dir p path = kh_find (po_dirhash p) path"

definition pkg_get_file :: "pkg_object \<Rightarrow> string \<Rightarrow> view_file option option" where
  "pkg_get_file p path = kh_find (po_filehash p) path"

definition pkg_has_file :: "pkg_object \<Rightarrow> string \<Rightarrow> bool option" where
  "pkg_has_file p path = kh_contains (po_filehash p) path"

definition pkg_has_dir :: "pkg_object \<Rightarrow> string \<Rightarrow> bool option" where
  "pkg_has_dir p path = kh_contains (po_dirhash p) path"

section \<open>Counting and freeing lists\<close>

datatype pkg_list = PKG_DEPS | PKG_RDEPS | PKG_OPTIONS | PKG_FILES | PKG_DIRS | PKG_USERS | PKG_GROUPS | PKG_SHLIBS_REQUIRED
  | PKG_SHLIBS_PROVIDED | PKG_CONFLICTS | PKG_PROVIDES | PKG_CONFIG_FILES | PKG_REQUIRES | PKG_CATEGORIES | PKG_LICENSES

fun pkg_list_count :: "pkg_object \<Rightarrow> pkg_list \<Rightarrow> nat option" where
  "pkg_list_count p PKG_DEPS = kh_count (po_depshash p)"
| "pkg_list_count p PKG_RDEPS = kh_count (po_rdepshash p)"
| "pkg_list_count p PKG_OPTIONS = kh_count (po_optionshash p)"
| "pkg_list_count p PKG_FILES = kh_count (po_filehash p)"
| "pkg_list_count p PKG_DIRS = kh_count (po_dirhash p)"
| "pkg_list_count p PKG_USERS = Some (length (pv_users p))"
| "pkg_list_count p PKG_GROUPS = Some (length (pv_groups p))"
| "pkg_list_count p PKG_SHLIBS_REQUIRED = Some (length (pv_shlibs_required p))"
| "pkg_list_count p PKG_SHLIBS_PROVIDED = Some (length (pv_shlibs_provided p))"
| "pkg_list_count p PKG_CONFLICTS = kh_count (po_conflictshash p)"
| "pkg_list_count p PKG_PROVIDES = Some (length (pv_provides p))"
| "pkg_list_count p PKG_REQUIRES = Some (length (pv_requires p))"
| "pkg_list_count p PKG_CONFIG_FILES = kh_count (po_config_files p)"
| "pkg_list_count p PKG_CATEGORIES = Some (length (pv_categories p))"
| "pkg_list_count p PKG_LICENSES = Some (length (pv_licenses p))"

definition clear_flag :: "32 word \<Rightarrow> pkg_object \<Rightarrow> pkg_object" where
  "clear_flag m p = p\<lparr>po_flags := and (po_flags p) (not m)\<rparr>"

text \<open>The tables of strings and of configuration files are null afterwards, the other ones dangle.\<close>

fun pkg_list_free :: "pkg_object \<Rightarrow> pkg_list \<Rightarrow> pkg_object option" where
  "pkg_list_free p PKG_DEPS =
     map_option (\<lambda>t. clear_flag 1 (p\<lparr>pv_depends := [], po_depshash := t\<rparr>)) (kh_destroy (po_depshash p))"
| "pkg_list_free p PKG_RDEPS =
     map_option (\<lambda>t. clear_flag 2 (p\<lparr>pv_rdepends := [], po_rdepshash := t\<rparr>)) (kh_destroy (po_rdepshash p))"
| "pkg_list_free p PKG_OPTIONS =
     map_option (\<lambda>t. clear_flag 0x10 (p\<lparr>pv_options := [], po_optionshash := t\<rparr>)) (kh_destroy (po_optionshash p))"
| "pkg_list_free p PKG_FILES =
     map_option (\<lambda>t. clear_flag 4 (p\<lparr>pv_files := [], po_filehash := t, po_config_files := Null\<rparr>)) (kh_destroy (po_filehash p))"
| "pkg_list_free p PKG_CONFIG_FILES =
     map_option (\<lambda>t. clear_flag 4 (p\<lparr>pv_files := [], po_filehash := t, po_config_files := Null\<rparr>)) (kh_destroy (po_filehash p))"
| "pkg_list_free p PKG_DIRS =
     map_option (\<lambda>t. clear_flag 0x20 (p\<lparr>pv_dirs := [], po_dirhash := t\<rparr>)) (kh_destroy (po_dirhash p))"
| "pkg_list_free p PKG_USERS = Some (clear_flag 0x100 (p\<lparr>pv_users := []\<rparr>))"
| "pkg_list_free p PKG_GROUPS = Some (clear_flag 0x200 (p\<lparr>pv_groups := []\<rparr>))"
| "pkg_list_free p PKG_SHLIBS_REQUIRED = Some (clear_flag 0x400 (p\<lparr>pv_shlibs_required := []\<rparr>))"
| "pkg_list_free p PKG_SHLIBS_PROVIDED = Some (clear_flag 0x800 (p\<lparr>pv_shlibs_provided := []\<rparr>))"
| "pkg_list_free p PKG_CONFLICTS =
     map_option (\<lambda>t. clear_flag 0x2000 (p\<lparr>po_conflicts := [], po_conflictshash := t\<rparr>)) (kh_destroy (po_conflictshash p))"
| "pkg_list_free p PKG_PROVIDES = Some (clear_flag 0x4000 (p\<lparr>pv_provides := []\<rparr>))"
| "pkg_list_free p PKG_REQUIRES = Some (clear_flag 0x8000 (p\<lparr>pv_requires := []\<rparr>))"
| "pkg_list_free p PKG_CATEGORIES = Some (clear_flag 0x40 (p\<lparr>pv_categories := []\<rparr>))"
| "pkg_list_free p PKG_LICENSES = Some (clear_flag 0x80 (p\<lparr>pv_licenses := []\<rparr>))"

section \<open>Messages\<close>

text \<open>
  The functions of libucl that are called, a library that is not under \<^verbatim>\<open>src/\<close>: the type and the text
  of an object, looking up a key, the objects that an iteration visits; making objects from strings,
  as they are or without the white space around them, empty objects and arrays, inserting and
  appending; and the parser.
\<close>

datatype ucl_type = UCL_STRING | UCL_ARRAY | UCL_OBJECT | UCL_OTHER

record 'u ucl_lib =
  ul_type :: "'u \<Rightarrow> ucl_type"
  ul_tostring :: "'u \<Rightarrow> string"
  ul_find_key :: "'u \<Rightarrow> string \<Rightarrow> 'u option"
  ul_iterate :: "'u \<Rightarrow> 'u list"
  ul_fromstring :: "string \<Rightarrow> 'u"
  ul_fromtrimmed :: "string \<Rightarrow> 'u"
  ul_new :: "ucl_type \<Rightarrow> 'u"
  ul_insert_key :: "'u \<Rightarrow> 'u \<Rightarrow> string \<Rightarrow> 'u"
  ul_append :: "'u \<Rightarrow> 'u \<Rightarrow> 'u"
  ul_parse :: "string \<Rightarrow> 'u option"

text \<open>The text of a key, if it is there and a string.\<close>

definition text_of_key :: "'u ucl_lib \<Rightarrow> 'u \<Rightarrow> string \<Rightarrow> string option" where
  "text_of_key L cur key =
     (case ul_find_key L cur key of
        None \<Rightarrow> None
      | Some elt \<Rightarrow> if ul_type L elt = UCL_STRING then Some (ul_tostring L elt) else None)"

definition message_type :: "'u ucl_lib \<Rightarrow> 'u \<Rightarrow> pkg_message_t" where
  "message_type L cur =
     (case text_of_key L cur ''type'' of
        None \<Rightarrow> PKG_MESSAGE_ALWAYS
      | Some t \<Rightarrow>
          if strcaseeq t ''install'' then PKG_MESSAGE_INSTALL
          else if strcaseeq t ''remove'' then PKG_MESSAGE_REMOVE
          else if strcaseeq t ''upgrade'' then PKG_MESSAGE_UPGRADE
          else PKG_MESSAGE_ALWAYS)"

definition message_of :: "'u ucl_lib \<Rightarrow> 'u \<Rightarrow> string \<Rightarrow> pkg_message" where
  "message_of L cur s =
     (let t = message_type L cur
      in \<lparr>msg_str = Some s,
          msg_minimum = (if t = PKG_MESSAGE_UPGRADE then text_of_key L cur ''minimum_version'' else None),
          msg_maximum = (if t = PKG_MESSAGE_UPGRADE then text_of_key L cur ''maximum_version'' else None),
          msg_type = t\<rparr>)"

text \<open>The messages in front of the first one without text are added.\<close>

fun messages_of :: "'u ucl_lib \<Rightarrow> 'u list \<Rightarrow> pkg_message list \<Rightarrow> epkg \<times> pkg_message list" where
  "messages_of L [] ms = (EPKG_OK, ms)"
| "messages_of L (cur # us) ms =
     (case text_of_key L cur ''message'' of
        None \<Rightarrow> (EPKG_FATAL, ms)
      | Some s \<Rightarrow> messages_of L us (ms @ [message_of L cur s]))"

text \<open>What is no array is complained about, and then treated like one.\<close>

definition pkg_message_from_ucl :: "'u ucl_lib \<Rightarrow> pkg_message list \<Rightarrow> 'u \<Rightarrow> epkg \<times> pkg_message list" where
  "pkg_message_from_ucl L ms obj =
     (if ul_type L obj = UCL_STRING then
        (EPKG_OK, ms @ [\<lparr>msg_str = Some (ul_tostring L obj), msg_minimum = None, msg_maximum = None, msg_type = PKG_MESSAGE_ALWAYS\<rparr>])
      else messages_of L (ul_iterate L obj) ms)"

definition pkg_message_from_str :: "'u ucl_lib \<Rightarrow> pkg_message list \<Rightarrow> string \<Rightarrow> epkg \<times> pkg_message list" where
  "pkg_message_from_str L ms str =
     (case ul_parse L str of None \<Rightarrow> (EPKG_FATAL, ms) | Some obj \<Rightarrow> pkg_message_from_ucl L ms obj)"

definition insert_type :: "'u ucl_lib \<Rightarrow> pkg_message_t \<Rightarrow> 'u \<Rightarrow> 'u" where
  "insert_type L t obj =
     (case t of
        PKG_MESSAGE_ALWAYS \<Rightarrow> obj
      | PKG_MESSAGE_INSTALL \<Rightarrow> ul_insert_key L obj (ul_fromstring L ''install'') ''type''
      | PKG_MESSAGE_UPGRADE \<Rightarrow> ul_insert_key L obj (ul_fromstring L ''upgrade'') ''type''
      | PKG_MESSAGE_REMOVE \<Rightarrow> ul_insert_key L obj (ul_fromstring L ''remove'') ''type'')"

definition insert_bound :: "'u ucl_lib \<Rightarrow> string \<Rightarrow> string option \<Rightarrow> 'u \<Rightarrow> 'u" where
  "insert_bound L key v obj = (case v of None \<Rightarrow> obj | Some s \<Rightarrow> ul_insert_key L obj (ul_fromstring L s) key)"

text \<open>Every message has a text.\<close>

definition message_object :: "'u ucl_lib \<Rightarrow> pkg_message \<Rightarrow> 'u" where
  "message_object L m =
     (let obj = ul_new L UCL_OBJECT;
          obj = ul_insert_key L obj (ul_fromtrimmed L (the (msg_str m))) ''message'';
          obj = insert_type L (msg_type m) obj;
          obj = insert_bound L ''maximum_version'' (msg_maximum m) obj
      in insert_bound L ''minimum_version'' (msg_minimum m) obj)"

definition pkg_message_to_ucl :: "'u ucl_lib \<Rightarrow> pkg_message list \<Rightarrow> 'u" where
  "pkg_message_to_ucl L ms = fold (\<lambda>m array. ul_append L array (message_object L m)) ms (ul_new L UCL_ARRAY)"

definition pkg_has_message :: "pkg_object \<Rightarrow> bool" where
  "pkg_has_message p \<longleftrightarrow> pv_message p \<noteq> []"

text \<open>The bounds of the first message, if an old package is given; there must be a message then.\<close>

definition pkg_need_message :: "pkg_object \<Rightarrow> string option \<Rightarrow> bool option" where
  "pkg_need_message p old =
     (case old of
        None \<Rightarrow> Some True
      | Some v \<Rightarrow>
          (case pv_message p of
             [] \<Rightarrow> None
           | m # _ \<Rightarrow>
               (let ret = (case msg_maximum m of None \<Rightarrow> True | Some mx \<Rightarrow> pkg_version_cmp v mx \<le> 0)
                in Some (if ret then (case msg_minimum m of None \<Rightarrow> True | Some mn \<Rightarrow> pkg_version_cmp v mn \<ge> 0) else False))))"

section \<open>Attributes\<close>

datatype pkg_attr = PKG_ORIGIN | PKG_NAME | PKG_VERSION | PKG_COMMENT | PKG_DESC | PKG_MTREE | PKG_MESSAGE | PKG_ARCH | PKG_ABI
  | PKG_MAINTAINER | PKG_WWW | PKG_PREFIX | PKG_REPOPATH | PKG_CKSUM | PKG_OLD_VERSION | PKG_REPONAME | PKG_REPOURL | PKG_DIGEST
  | PKG_REASON | PKG_FLATSIZE | PKG_OLD_FLATSIZE | PKG_PKGSIZE | PKG_LICENSE_LOGIC | PKG_AUTOMATIC | PKG_LOCKED | PKG_ROWID
  | PKG_TIME | PKG_ANNOTATIONS | PKG_UNIQUEID | PKG_OLD_DIGEST | PKG_DEP_FORMULA | PKG_VITAL | PKG_NUM_FIELDS

datatype attr_value = V_str "string option" | V_int int | V_bool bool | V_lic lic | V_kv "view_kv list"

text \<open>\<open>PKG_NUM_FIELDS\<close> stands for every number that is no attribute, which ends the loop with an error.\<close>

fun pkg_vget1 :: "pkg_object \<Rightarrow> pkg_attr \<Rightarrow> attr_value option" where
  "pkg_vget1 p PKG_ORIGIN = Some (V_str (pv_origin p))"
| "pkg_vget1 p PKG_NAME = Some (V_str (pv_name p))"
| "pkg_vget1 p PKG_VERSION = Some (V_str (pv_version p))"
| "pkg_vget1 p PKG_COMMENT = Some (V_str (pv_comment p))"
| "pkg_vget1 p PKG_DESC = Some (V_str (pv_desc p))"
| "pkg_vget1 p PKG_MTREE = Some (V_str None)"
| "pkg_vget1 p PKG_MESSAGE = Some (V_str (case pv_message p of [] \<Rightarrow> None | m # _ \<Rightarrow> msg_str m))"
| "pkg_vget1 p PKG_ARCH = Some (V_str (pv_arch p))"
| "pkg_vget1 p PKG_ABI = Some (V_str (pv_abi p))"
| "pkg_vget1 p PKG_MAINTAINER = Some (V_str (pv_maintainer p))"
| "pkg_vget1 p PKG_WWW = Some (V_str (pv_www p))"
| "pkg_vget1 p PKG_PREFIX = Some (V_str (pv_prefix p))"
| "pkg_vget1 p PKG_REPOPATH = Some (V_str (pv_repopath p))"
| "pkg_vget1 p PKG_CKSUM = Some (V_str (pv_sum p))"
| "pkg_vget1 p PKG_OLD_VERSION = Some (V_str (pv_old_version p))"
| "pkg_vget1 p PKG_REPONAME = Some (V_str (pv_reponame p))"
| "pkg_vget1 p PKG_REPOURL = Some (V_str (po_repourl p))"
| "pkg_vget1 p PKG_DIGEST = Some (V_str (po_digest p))"
| "pkg_vget1 p PKG_REASON = Some (V_str (po_reason p))"
| "pkg_vget1 p PKG_FLATSIZE = Some (V_int (pv_flatsize p))"
| "pkg_vget1 p PKG_OLD_FLATSIZE = Some (V_int (po_old_flatsize p))"
| "pkg_vget1 p PKG_PKGSIZE = Some (V_int (pv_pkgsize p))"
| "pkg_vget1 p PKG_LICENSE_LOGIC = Some (V_lic (pv_licenselogic p))"
| "pkg_vget1 p PKG_AUTOMATIC = Some (V_bool (pv_automatic p))"
| "pkg_vget1 p PKG_LOCKED = Some (V_bool (pv_locked p))"
| "pkg_vget1 p PKG_ROWID = Some (V_int (po_id p))"
| "pkg_vget1 p PKG_TIME = Some (V_int (pv_timestamp p))"
| "pkg_vget1 p PKG_ANNOTATIONS = Some (V_kv (pv_annotations p))"
| "pkg_vget1 p PKG_UNIQUEID = Some (V_str (po_uid p))"
| "pkg_vget1 p PKG_OLD_DIGEST = Some (V_str (po_old_digest p))"
| "pkg_vget1 p PKG_DEP_FORMULA = Some (V_str (po_dep_formula p))"
| "pkg_vget1 p PKG_VITAL = Some (V_bool (pv_vital p))"
| "pkg_vget1 p PKG_NUM_FIELDS = None"

fun pkg_get :: "pkg_object \<Rightarrow> pkg_attr list \<Rightarrow> epkg \<times> attr_value list" where
  "pkg_get p [] = (EPKG_OK, [])"
| "pkg_get p (a # as) =
     (case pkg_vget1 p a of
        None \<Rightarrow> (EPKG_FATAL, [])
      | Some v \<Rightarrow> (case pkg_get p as of (rc, vs) \<Rightarrow> (rc, v # vs)))"

text \<open>
  Setting the message frees the old ones and appends to them. The results of the functions called
  are not looked at.
\<close>

definition set_message :: "'u ucl_lib \<Rightarrow> pkg_object \<Rightarrow> string \<Rightarrow> pkg_object option" where
  "set_message L p buf =
     (if pv_message p \<noteq> [] then None
      else
        (let ms = (if deref buf = CHR ''['' then snd (pkg_message_from_str L [] buf)
                   else snd (pkg_message_from_ucl L [] (ul_fromtrimmed L buf)))
         in Some (p\<lparr>pv_message := ms\<rparr>)))"

text \<open>
  Attributes without a case do not take their value from the list of arguments, so that it is read as
  the next attribute; and a string must be there.
\<close>

fun set_str :: "pkg_object \<Rightarrow> pkg_attr \<Rightarrow> string \<Rightarrow> pkg_object option" where
  "set_str p PKG_NAME s = Some (p\<lparr>pv_name := Some s, po_uid := Some s\<rparr>)"
| "set_str p PKG_ORIGIN s = Some (p\<lparr>pv_origin := Some s\<rparr>)"
| "set_str p PKG_VERSION s = Some (p\<lparr>pv_version := Some s\<rparr>)"
| "set_str p PKG_COMMENT s = Some (p\<lparr>pv_comment := Some s\<rparr>)"
| "set_str p PKG_DESC s = Some (p\<lparr>pv_desc := Some s\<rparr>)"
| "set_str p PKG_ARCH s = Some (p\<lparr>pv_arch := Some s\<rparr>)"
| "set_str p PKG_ABI s = Some (p\<lparr>pv_abi := Some s\<rparr>)"
| "set_str p PKG_MAINTAINER s = Some (p\<lparr>pv_maintainer := Some s\<rparr>)"
| "set_str p PKG_WWW s = Some (p\<lparr>pv_www := Some s\<rparr>)"
| "set_str p PKG_PREFIX s = Some (p\<lparr>pv_prefix := Some s\<rparr>)"
| "set_str p PKG_REPOPATH s = Some (p\<lparr>pv_repopath := Some s\<rparr>)"
| "set_str p PKG_CKSUM s = Some (p\<lparr>pv_sum := Some s\<rparr>)"
| "set_str p PKG_OLD_VERSION s = Some (p\<lparr>pv_old_version := Some s\<rparr>)"
| "set_str p PKG_REPONAME s = Some (p\<lparr>pv_reponame := Some s\<rparr>)"
| "set_str p PKG_REPOURL s = Some (p\<lparr>po_repourl := Some s\<rparr>)"
| "set_str p PKG_DIGEST s = Some (p\<lparr>po_digest := Some s\<rparr>)"
| "set_str p PKG_REASON s = Some (p\<lparr>po_reason := Some s\<rparr>)"
| "set_str p PKG_DEP_FORMULA s = Some (p\<lparr>po_dep_formula := Some s\<rparr>)"
| "set_str p PKG_MTREE s = Some p"
| "set_str p a s = None"

fun set_int :: "pkg_object \<Rightarrow> pkg_attr \<Rightarrow> int \<Rightarrow> pkg_object option" where
  "set_int p PKG_FLATSIZE i = Some (p\<lparr>pv_flatsize := i\<rparr>)"
| "set_int p PKG_OLD_FLATSIZE i = Some (p\<lparr>po_old_flatsize := i\<rparr>)"
| "set_int p PKG_PKGSIZE i = Some (p\<lparr>pv_pkgsize := i\<rparr>)"
| "set_int p PKG_ROWID i = Some (p\<lparr>po_id := i\<rparr>)"
| "set_int p PKG_TIME i = Some (p\<lparr>pv_timestamp := i\<rparr>)"
| "set_int p a i = None"

fun set_bool :: "pkg_object \<Rightarrow> pkg_attr \<Rightarrow> bool \<Rightarrow> pkg_object option" where
  "set_bool p PKG_AUTOMATIC b = Some (p\<lparr>pv_automatic := b\<rparr>)"
| "set_bool p PKG_LOCKED b = Some (p\<lparr>pv_locked := b\<rparr>)"
| "set_bool p PKG_VITAL b = Some (p\<lparr>pv_vital := b\<rparr>)"
| "set_bool p a b = None"

definition pkg_vset1 :: "'u ucl_lib \<Rightarrow> pkg_object \<Rightarrow> pkg_attr \<Rightarrow> attr_value \<Rightarrow> pkg_object option" where
  "pkg_vset1 L p a v =
     (case v of
        V_str None \<Rightarrow> if a = PKG_MTREE then Some p else None
      | V_str (Some s) \<Rightarrow> if a = PKG_MESSAGE then set_message L p s else set_str p a s
      | V_int i \<Rightarrow> set_int p a i
      | V_bool b \<Rightarrow> set_bool p a b
      | V_lic l \<Rightarrow> if a = PKG_LICENSE_LOGIC then Some (p\<lparr>pv_licenselogic := l\<rparr>) else None
      | V_kv kvs \<Rightarrow> None)"

fun pkg_set :: "'u ucl_lib \<Rightarrow> pkg_object \<Rightarrow> (pkg_attr \<times> attr_value) list \<Rightarrow> added" where
  "pkg_set L p [] = Some (EPKG_OK, p)"
| "pkg_set L p ((a, v) # avs) =
     (if a = PKG_NUM_FIELDS then Some (EPKG_FATAL, p)
      else (case pkg_vset1 L p a v of None \<Rightarrow> None | Some p' \<Rightarrow> pkg_set L p' avs))"

text \<open>An attribute from a file, without the newlines at its end but for a first character.\<close>

definition trim_newlines :: "string \<Rightarrow> string" where
  "trim_newlines buf =
     (case buf of [] \<Rightarrow> [] | c # s \<Rightarrow> c # rev (dropWhile (\<lambda>d. d = CHR 10) (rev s)))"

definition pkg_set_from_file :: "'u ucl_lib \<Rightarrow> string option \<Rightarrow> pkg_object \<Rightarrow> pkg_attr \<Rightarrow> bool \<Rightarrow> added" where
  "pkg_set_from_file L content p a trimcr =
     (case content of
        None \<Rightarrow> Some (EPKG_FATAL, p)
      | Some buf \<Rightarrow> pkg_set L p [(a, V_str (Some (if trimcr then trim_newlines buf else buf)))])"

section \<open>Sizes and checksums\<close>

record file_stat =
  st_ino :: nat
  st_nlink :: nat
  st_size :: int
  st_islnk :: bool

text \<open>A hard link that was seen before.\<close>

definition check_for_hardlink :: "nat set \<Rightarrow> file_stat \<Rightarrow> bool \<times> nat set" where
  "check_for_hardlink hl st = (st_ino st \<in> hl, insert (st_ino st) hl)"

text \<open>
  The sizes and the checksums that change, for the files of the system. The total is an \<^verbatim>\<open>int64_t\<close> that
  must not overflow. A file without a checksum of its own is compared with a null pointer.
\<close>

fun recompute_loop ::
  "(string \<Rightarrow> file_stat option) \<Rightarrow> (string \<Rightarrow> string option) \<Rightarrow> view_file list \<Rightarrow> nat set \<Rightarrow> int \<Rightarrow> (string \<times> string) list
    \<Rightarrow> (epkg \<times> int \<times> (string \<times> string) list) option" where
  "recompute_loop lstat sum_of [] hl flatsize cks = Some (EPKG_OK, flatsize, cks)"
| "recompute_loop lstat sum_of (f # fs) hl flatsize cks =
     (case lstat (vf_path f) of
        None \<Rightarrow> recompute_loop lstat sum_of fs hl flatsize cks
      | Some st \<Rightarrow>
          (case sum_of (vf_path f) of
             None \<Rightarrow> Some (EPKG_FATAL, flatsize, cks)
           | Some cksum \<Rightarrow>
               (case (if st_nlink st > 1 then check_for_hardlink hl st else (st_islnk st, hl)) of
                  (skip, hl') \<Rightarrow>
                    (let flatsize' = (if skip then flatsize else flatsize + st_size st) in
                     if flatsize' < LLONG_MIN \<or> LLONG_MAX < flatsize' then None
                     else
                       (case vf_sum f of
                          None \<Rightarrow> None
                        | Some old \<Rightarrow>
                            recompute_loop lstat sum_of fs hl' flatsize'
                              (if cksum \<noteq> old then cks @ [(vf_path f, cksum)] else cks))))))"

definition pkg_recompute ::
  "(string \<Rightarrow> file_stat option) \<Rightarrow> (string \<Rightarrow> string option) \<Rightarrow> pkg_object \<Rightarrow> (epkg \<times> pkg_object \<times> (string \<times> string) list) option" where
  "pkg_recompute lstat sum_of p =
     map_option (\<lambda>(rc, flatsize, cks). (rc, p\<lparr>pv_flatsize := flatsize\<rparr>, cks))
       (recompute_loop lstat sum_of (pv_files p) {} 0 [])"

text \<open>Whether all files have their checksums; \<open>validate\<close> tells whether a file has it.\<close>

definition pkg_test_filesum :: "(string \<Rightarrow> string \<Rightarrow> bool) \<Rightarrow> pkg_object \<Rightarrow> epkg" where
  "pkg_test_filesum validate p =
     (if list_all (\<lambda>f. case vf_sum f of None \<Rightarrow> True | Some s \<Rightarrow> validate (vf_path f) s) (pv_files p) then EPKG_OK else EPKG_FATAL)"

end
