(* ===== verification/Object_Facts.thy ===== *)
theory Object_Facts
  imports Pkg_Object
begin

text \<open>
  What holds of objects however they are built: the hash tables agree with the lists. Then attributes and
  messages that read back, and the uses of the operations that follow freed memory.
\<close>

section \<open>Tables and lists\<close>

fun entries :: "'v table \<Rightarrow> (string \<times> 'v) list" where
  "entries Null = []"
| "entries (Live h) = h"
| "entries Freed = []"

definition synced :: "('x \<Rightarrow> string) \<Rightarrow> 'x list \<Rightarrow> 'x table \<Rightarrow> bool" where
  "synced key xs t \<longleftrightarrow> t \<noteq> Freed \<and> distinct (map fst (entries t)) \<and>
     (\<forall>k. map_of (entries t) k = find (\<lambda>x. key x = k) xs)"

lemma kh_find_entries: "t \<noteq> Freed \<Longrightarrow> kh_find t k = Some (map_of (entries t) k)"
  by (cases t) simp_all

lemma synced_find: "synced key xs t \<Longrightarrow> kh_find t k = Some (find (\<lambda>x. key x = k) xs)"
  by (simp add: synced_def kh_find_entries)

lemma synced_contains: "synced key xs t \<Longrightarrow> kh_contains t k = Some (k \<in> key ` set xs)"
proof -
  assume a: "synced key xs t"
  have "find (\<lambda>x. key x = k) xs \<noteq> None \<longleftrightarrow> k \<in> key ` set xs" by (auto simp: find_None_iff)
  then show ?thesis by (simp only: kh_contains_def synced_find [OF a] option.map)
qed

lemma synced_Null [simp]: "synced key [] Null"
  by (simp add: synced_def)

lemma find_append: "find P (xs @ ys) = (case find P xs of None \<Rightarrow> find P ys | Some x \<Rightarrow> Some x)"
  by (induction xs) auto

lemma kh_put_entries:
  "t \<noteq> Freed \<Longrightarrow> kh_put t k v =
    Some (if map_of (entries t) k \<noteq> None then (t, False) else (Live (entries t @ [(k, v)]), True))"
  by (cases t) simp_all

text \<open>Adding at the end of the list, with or without a duplicate.\<close>

lemma synced_append:
  assumes "synced key xs t" "kh_put t (key x) x = Some (t', b)"
  shows "synced key (xs @ [x]) t'"
proof -
  have t: "t \<noteq> Freed" "distinct (map fst (entries t))" "\<And>k. map_of (entries t) k = find (\<lambda>x. key x = k) xs"
    using assms(1) by (simp_all add: synced_def)
  show ?thesis
  proof (cases "map_of (entries t) (key x)")
    case None
    then have t': "t' = Live (entries t @ [(key x, x)])" using assms(2) t(1) by (simp add: kh_put_entries)
    have "key x \<notin> fst ` set (entries t)" using None by (simp add: map_of_eq_None_iff)
    then show ?thesis using t(2,3) unfolding t' synced_def
      by (auto simp: map_add_def find_append split: option.splits)
  next
    case (Some y)
    then have t': "t' = t" using assms(2) t(1) by (simp add: kh_put_entries)
    have "find (\<lambda>y. key y = key x) xs = Some y" using Some t(3) by metis
    then have "find (\<lambda>y. key y = k) (xs @ [x]) = find (\<lambda>y. key y = k) xs" for k
      by (cases "key x = k") (auto simp: find_append split: option.splits)
    then show ?thesis using t unfolding t' synced_def by simp
  qed
qed

text \<open>Adding at the front of the list a key that is new.\<close>

lemma synced_prepend:
  assumes "synced key xs t" "kh_put t (key x) x = Some (t', True)"
  shows "synced key (x # xs) t' \<and> key x \<notin> key ` set xs"
proof -
  have t: "t \<noteq> Freed" "distinct (map fst (entries t))" "\<And>k. map_of (entries t) k = find (\<lambda>x. key x = k) xs"
    using assms(1) by (simp_all add: synced_def)
  then have None: "map_of (entries t) (key x) = None" and t': "t' = Live (entries t @ [(key x, x)])"
    using assms(2) by (simp_all add: kh_put_entries split: if_splits)
  then have n: "find (\<lambda>y. key y = key x) xs = None" using t(3) by metis
  have "key x \<notin> fst ` set (entries t)" using None by (simp add: map_of_eq_None_iff)
  moreover have "map_of (entries t @ [(key x, x)]) k = find (\<lambda>y. key y = k) (x # xs)" for k
    using t(3) None by (cases "key x = k") (auto simp: map_add_def split: option.splits)
  moreover have "key x \<notin> key ` set xs" using n by (auto simp: find_None_iff)
  ultimately show ?thesis using t(2) unfolding t' synced_def by simp
qed

lemma synced_count: "synced key xs t \<Longrightarrow> kh_count t = Some (card (key ` set xs))"
proof -
  assume a: "synced key xs t"
  have "fst ` set (entries t) = key ` set xs"
  proof (rule set_eqI)
    fix k
    have "k \<notin> fst ` set (entries t) \<longleftrightarrow> find (\<lambda>x. key x = k) xs = None"
      using a by (metis map_of_eq_None_iff synced_def)
    then show "k \<in> fst ` set (entries t) \<longleftrightarrow> k \<in> key ` set xs" by (auto simp: find_None_iff)
  qed
  then have "card (key ` set xs) = length (entries t)"
    using a by (metis distinct_card length_map list.set_map synced_def)
  then show ?thesis using a by (cases t) (simp_all add: synced_def)
qed

lemma synced_length: "synced key xs t \<Longrightarrow> distinct (map key xs) \<Longrightarrow> kh_count t = Some (length xs)"
  using synced_count [of key xs t] distinct_card [of "map key xs"] by simp

section \<open>Objects in the making\<close>

definition object_ok :: "pkg_object \<Rightarrow> bool" where
  "object_ok p \<longleftrightarrow>
     synced (\<lambda>d. the (vd_name d)) (pv_depends p) (po_depshash p) \<and> distinct (map (\<lambda>d. the (vd_name d)) (pv_depends p)) \<and>
     synced (\<lambda>d. the (vd_name d)) (pv_rdepends p) (po_rdepshash p) \<and> distinct (map (\<lambda>d. the (vd_name d)) (pv_rdepends p)) \<and>
     synced vf_path (pv_files p) (po_filehash p) \<and> synced vr_path (pv_dirs p) (po_dirhash p) \<and>
     synced (\<lambda>d. the (vo_key d)) (pv_options p) (po_optionshash p) \<and> distinct (map (\<lambda>d. the (vo_key d)) (pv_options p)) \<and>
     synced conflict_uid (po_conflicts p) (po_conflictshash p) \<and> distinct (map conflict_uid (po_conflicts p)) \<and>
     distinct (pv_users p) \<and> distinct (pv_groups p) \<and> distinct (pv_shlibs_required p) \<and> distinct (pv_shlibs_provided p) \<and>
     distinct (pv_provides p) \<and> distinct (pv_requires p)"

lemma object_ok_new: "object_ok (pkg_new t)"
  by (simp add: object_ok_def pkg_new_def)

text \<open>The operations that a manifest, a database and a plist use.\<close>

datatype pkg_op = Add_user string | Add_group string | Add_dep string string "string option" bool
  | Add_rdep string string "string option" bool
  | Add_file string "string option" "string option" "string option" mode "64 word" bool
  | Add_dir string "string option" "string option" mode "64 word" bool
  | Add_config_file string "string option" | Add_option string string | Add_default string string | Add_description string string
  | Add_shlib_required string | Add_shlib_provided string | Add_conflict string | Add_require string | Add_provide string
  | Append_script string pkg_script | Add_script string pkg_script

fun run_op :: "pkg_ctx \<Rightarrow> pkg_object \<Rightarrow> pkg_op \<Rightarrow> added" where
  "run_op ctx p (Add_user n) = pkg_adduser ctx p n"
| "run_op ctx p (Add_group n) = pkg_addgroup ctx p n"
| "run_op ctx p (Add_dep n og v l) = pkg_adddep p n og v l"
| "run_op ctx p (Add_rdep n og v l) = pkg_addrdep p n og v l"
| "run_op ctx p (Add_file f s u g m fl c) = pkg_addfile_attr ctx p f s u g m fl c"
| "run_op ctx p (Add_dir f u g m fl c) = pkg_adddir_attr ctx p f u g m fl c"
| "run_op ctx p (Add_config_file f c) = pkg_addconfig_file ctx p f c"
| "run_op ctx p (Add_option key v) = pkg_addoption ctx p key v"
| "run_op ctx p (Add_default key v) = pkg_addoption_default ctx p key v"
| "run_op ctx p (Add_description key v) = pkg_addoption_description ctx p key v"
| "run_op ctx p (Add_shlib_required n) = pkg_addshlib_required p n"
| "run_op ctx p (Add_shlib_provided n) = pkg_addshlib_provided p n"
| "run_op ctx p (Add_conflict u) = pkg_addconflict p u"
| "run_op ctx p (Add_require n) = pkg_addrequire p n"
| "run_op ctx p (Add_provide n) = pkg_addprovide p n"
| "run_op ctx p (Append_script s t) = pkg_appendscript p s t"
| "run_op ctx p (Add_script s t) = Some (pkg_addscript p s t)"

fun run_ops :: "pkg_ctx \<Rightarrow> pkg_object \<Rightarrow> pkg_op list \<Rightarrow> pkg_object option" where
  "run_ops ctx p [] = Some p"
| "run_ops ctx p (op # ops) = (case run_op ctx p op of None \<Rightarrow> None | Some (rc, p') \<Rightarrow> run_ops ctx p' ops)"

lemma bind_Some: "x \<bind> f = Some z \<longleftrightarrow> (\<exists>y. x = Some y \<and> f y = Some z)"
  by (cases x) simp_all

lemma object_ok_adddep: "object_ok p \<Longrightarrow> pkg_adddep p n r v l = Some (rc, p') \<Longrightarrow> object_ok p'"
proof -
  assume ok: "object_ok p" and add: "pkg_adddep p n r v l = Some (rc, p')"
  have s: "synced (\<lambda>d. the (vd_name d)) (pv_depends p) (po_depshash p)" using ok by (simp add: object_ok_def)
  show ?thesis
  proof (cases "p' = p")
    case False
    obtain t b where t: "kh_put (po_depshash p) n (new_dep n r v l) = Some (t, b)" "n \<notin> (\<lambda>d. the (vd_name d)) ` set (pv_depends p)"
      "p' = p\<lparr>po_depshash := t, pv_depends := pv_depends p @ [new_dep n r v l]\<rparr>"
      using add False by (auto simp: pkg_adddep_def pkg_adddep_chain_def synced_contains [OF s] bind_Some Let_def split: if_splits)
    have "synced (\<lambda>d. the (vd_name d)) (pv_depends p @ [new_dep n r v l]) t"
      by (rule synced_append [OF s]) (use t(1) in \<open>simp add: new_dep_def\<close>)
    then show ?thesis using ok t(2) by (simp add: object_ok_def t(3)) (simp add: new_dep_def)
  qed (use ok in simp)
qed

lemma object_ok_addrdep: "object_ok p \<Longrightarrow> pkg_addrdep p n r v l = Some (rc, p') \<Longrightarrow> object_ok p'"
proof -
  assume ok: "object_ok p" and add: "pkg_addrdep p n r v l = Some (rc, p')"
  have s: "synced (\<lambda>d. the (vd_name d)) (pv_rdepends p) (po_rdepshash p)" using ok by (simp add: object_ok_def)
  obtain t where t: "kh_put (po_rdepshash p) n (new_dep n r v l) = Some (t, True)"
    "p' = p\<lparr>po_rdepshash := t, pv_rdepends := new_dep n r v l # pv_rdepends p\<rparr>"
    using add by (auto simp: pkg_addrdep_def bind_Some Let_def split: if_splits)
  have "synced (\<lambda>d. the (vd_name d)) (new_dep n r v l # pv_rdepends p) t \<and>
      the (vd_name (new_dep n r v l)) \<notin> (\<lambda>d. the (vd_name d)) ` set (pv_rdepends p)"
    by (rule synced_prepend [OF s]) (use t(1) in \<open>simp add: new_dep_def\<close>)
  then show ?thesis using ok by (simp add: object_ok_def t(2))
qed

lemma safe_add_put: "kh_safe_add t k v = Some t' \<Longrightarrow> \<exists>b. kh_put t k v = Some (t', b)"
  by (auto simp: kh_safe_add_def)

lemma object_ok_addfile: "object_ok p \<Longrightarrow> pkg_addfile_attr ctx p f s u g m fl c = Some (rc, p') \<Longrightarrow> object_ok p'"
proof -
  assume ok: "object_ok p" and add: "pkg_addfile_attr ctx p f s u g m fl c = Some (rc, p')"
  have s: "synced vf_path (pv_files p) (po_filehash p)" using ok by (simp add: object_ok_def)
  show ?thesis
  proof (cases "p' = p")
    case False
    obtain x t where t: "kh_safe_add (po_filehash p) (vf_path x) x = Some t" "p' = p\<lparr>po_filehash := t, pv_files := pv_files p @ [x]\<rparr>"
      using add False by (simp add: pkg_addfile_attr_def bind_Some duplicate_def Let_def split: if_splits) blast
    obtain b where "kh_put (po_filehash p) (vf_path x) x = Some (t, b)" using safe_add_put [OF t(1)] by blast
    then have "synced vf_path (pv_files p @ [x]) t" by (rule synced_append [OF s])
    then show ?thesis using ok by (simp add: object_ok_def t(2))
  qed (use ok in simp)
qed

lemma object_ok_adddir: "object_ok p \<Longrightarrow> pkg_adddir_attr ctx p f u g m fl c = Some (rc, p') \<Longrightarrow> object_ok p'"
proof -
  assume ok: "object_ok p" and add: "pkg_adddir_attr ctx p f u g m fl c = Some (rc, p')"
  have s: "synced vr_path (pv_dirs p) (po_dirhash p)" using ok by (simp add: object_ok_def)
  show ?thesis
  proof (cases "p' = p")
    case False
    obtain x t where t: "kh_safe_add (po_dirhash p) (vr_path x) x = Some t" "p' = p\<lparr>po_dirhash := t, pv_dirs := pv_dirs p @ [x]\<rparr>"
      using add False by (simp add: pkg_adddir_attr_def bind_Some duplicate_def Let_def split: if_splits) blast
    obtain b where "kh_put (po_dirhash p) (vr_path x) x = Some (t, b)" using safe_add_put [OF t(1)] by blast
    then have "synced vr_path (pv_dirs p @ [x]) t" by (rule synced_append [OF s])
    then show ?thesis using ok by (simp add: object_ok_def t(2))
  qed (use ok in simp)
qed

lemma object_ok_store_option:
  "object_ok p \<Longrightarrow> vo_key x = Some key \<Longrightarrow> store_option ctx p key x = Some (rc, p') \<Longrightarrow> object_ok p'"
proof -
  assume ok: "object_ok p" and k: "vo_key x = Some key" and add: "store_option ctx p key x = Some (rc, p')"
  have s: "synced (\<lambda>d. the (vo_key d)) (pv_options p) (po_optionshash p)" using ok by (simp add: object_ok_def)
  show ?thesis
  proof (cases "p' = p")
    case False
    obtain t where t: "kh_safe_add (po_optionshash p) key x = Some t" "key \<notin> (\<lambda>d. the (vo_key d)) ` set (pv_options p)"
      "p' = p\<lparr>po_optionshash := t, pv_options := pv_options p @ [x]\<rparr>"
      using add False by (auto simp: store_option_def duplicate_def synced_contains [OF s] bind_Some Let_def split: if_splits)
    obtain b where "kh_put (po_optionshash p) (the (vo_key x)) x = Some (t, b)" using safe_add_put [OF t(1)] k by auto
    then have "synced (\<lambda>d. the (vo_key d)) (pv_options p @ [x]) t" by (rule synced_append [OF s])
    then show ?thesis using ok t(2) k by (simp add: object_ok_def t(3))
  qed (use ok in simp)
qed

lemma object_ok_addconflict: "object_ok p \<Longrightarrow> pkg_addconflict p u = Some (rc, p') \<Longrightarrow> object_ok p'"
proof -
  assume ok: "object_ok p" and add: "pkg_addconflict p u = Some (rc, p')"
  have s: "synced conflict_uid (po_conflicts p) (po_conflictshash p)" using ok by (simp add: object_ok_def)
  show ?thesis
  proof (cases "p' = p")
    case False
    let ?x = "new_conflict u"
    have uid: "conflict_uid ?x = u" by (simp add: new_conflict_def)
    obtain t where t: "kh_safe_add (po_conflictshash p) u ?x = Some t" "u \<notin> conflict_uid ` set (po_conflicts p)"
      "p' = p\<lparr>po_conflictshash := t, po_conflicts := po_conflicts p @ [?x]\<rparr>"
      using add False by (auto simp: pkg_addconflict_def synced_contains [OF s] bind_Some Let_def split: if_splits)
    obtain b where "kh_put (po_conflictshash p) (conflict_uid ?x) ?x = Some (t, b)" using safe_add_put [OF t(1)] uid by auto
    then have "synced conflict_uid (po_conflicts p @ [?x]) t" by (rule synced_append [OF s])
    then show ?thesis using ok t(2) by (simp add: object_ok_def t(3) uid)
  qed (use ok in simp)
qed

lemma object_ok_strings:
  "object_ok p \<Longrightarrow> pkg_adduser ctx p n = Some (rc, p') \<Longrightarrow> object_ok p'"
  "object_ok p \<Longrightarrow> pkg_addgroup ctx p n = Some (rc, p') \<Longrightarrow> object_ok p'"
  "object_ok p \<Longrightarrow> pkg_addshlib_required p n = Some (rc, p') \<Longrightarrow> object_ok p'"
  "object_ok p \<Longrightarrow> pkg_addshlib_provided p n = Some (rc, p') \<Longrightarrow> object_ok p'"
  "object_ok p \<Longrightarrow> pkg_addrequire p n = Some (rc, p') \<Longrightarrow> object_ok p'"
  "object_ok p \<Longrightarrow> pkg_addprovide p n = Some (rc, p') \<Longrightarrow> object_ok p'"
  by (auto simp: pkg_adduser_def pkg_addgroup_def pkg_addshlib_required_def pkg_addshlib_provided_def pkg_addrequire_def
      pkg_addprovide_def duplicate_def object_ok_def split: if_splits)

lemma object_ok_others:
  "object_ok p \<Longrightarrow> pkg_appendscript p s t = Some (rc, p') \<Longrightarrow> object_ok p'"
  "object_ok p \<Longrightarrow> pkg_addconfig_file ctx p f c = Some (rc, p') \<Longrightarrow> object_ok p'"
  "object_ok p \<Longrightarrow> pkg_addscript p s t = (rc, p') \<Longrightarrow> object_ok p'"
  by (auto simp: pkg_appendscript_def pkg_addscript_def pkg_addconfig_file_def bind_Some Let_def object_ok_def split: if_splits)

lemma object_ok_options:
  "object_ok p \<Longrightarrow> pkg_addoption ctx p key v = Some (rc, p') \<Longrightarrow> object_ok p'"
  "object_ok p \<Longrightarrow> pkg_addoption_default ctx p key v = Some (rc, p') \<Longrightarrow> object_ok p'"
  "object_ok p \<Longrightarrow> pkg_addoption_description ctx p key v = Some (rc, p') \<Longrightarrow> object_ok p'"
  by (auto simp: pkg_addoption_def pkg_addoption_default_def pkg_addoption_description_def
      split: if_splits elim!: object_ok_store_option [rotated 2])

lemmas object_ok_step = object_ok_adddep object_ok_addrdep object_ok_addfile object_ok_adddir object_ok_addconflict
  object_ok_strings object_ok_others object_ok_options

lemma object_ok_run_op: "object_ok p \<Longrightarrow> run_op ctx p op = Some (rc, p') \<Longrightarrow> object_ok p'"
  by (cases op) (auto intro: object_ok_step)

lemma object_ok_run_ops: "object_ok p \<Longrightarrow> run_ops ctx p ops = Some p' \<Longrightarrow> object_ok p'"
  by (induction ops arbitrary: p) (auto split: option.splits intro: object_ok_run_op)

text \<open>C32. Whatever sequence of the operations that add to it a package is built with, its hash tables and its
  lists agree: a file or directory is found exactly when it is listed, the first one of that path;
  dependencies, options and conflicts are listed once, and the number of them is the length of the
  list. Freeing lists is not among the operations (it leaves tables that dangle), nor is handing a
  dependency to a caller that chains it.
\<close>

theorem built_object_consistent:
  assumes "run_ops ctx (pkg_new t) ops = Some p"
  shows "pkg_get_file p path = Some (find (\<lambda>f. vf_path f = path) (pv_files p)) \<and>
    pkg_get_dir p path = Some (find (\<lambda>d. vr_path d = path) (pv_dirs p)) \<and>
    pkg_list_count p PKG_DEPS = Some (length (pv_depends p)) \<and> distinct (map vd_name (pv_depends p)) \<and>
    pkg_list_count p PKG_OPTIONS = Some (length (pv_options p)) \<and> distinct (map vo_key (pv_options p)) \<and>
    pkg_list_count p PKG_CONFLICTS = Some (length (po_conflicts p)) \<and> distinct (pv_shlibs_required p)"
proof -
  have ok: "object_ok p" using object_ok_run_ops [OF object_ok_new assms] .
  have dist: "distinct (map f xs)" if "distinct (map (\<lambda>d. the (f d)) xs)" for f :: "'x \<Rightarrow> string option" and xs
    using that by (auto simp: distinct_map inj_on_def)
  note ok = ok [unfolded object_ok_def]
  have "kh_count (po_depshash p) = Some (length (pv_depends p))" using ok by (blast intro: synced_length)
  moreover have "kh_count (po_optionshash p) = Some (length (pv_options p))" using ok by (blast intro: synced_length)
  moreover have "kh_count (po_conflictshash p) = Some (length (po_conflicts p))" using ok by (blast intro: synced_length)
  ultimately show ?thesis using ok by (simp add: pkg_get_file_def pkg_get_dir_def synced_find dist)
qed

definition sample_ctx :: pkg_ctx where
  "sample_ctx = \<lparr>developer_mode = False, ctx_cwd = Some ''/usr'', maxpathlen = 1024, maxlogname = 33\<rparr>"

definition sample_ops :: "pkg_op list" where
  "sample_ops = [Add_dep ''pcre'' ''devel/pcre'' (Some ''8'') False, Add_file ''bin/zsh'' (Some ''abc'') None None 0 0 True,
     Add_file ''/usr/bin/zsh'' None None None 0 0 False, Add_option ''NLS'' ''on'', Add_conflict ''ksh'']"

theorem built_object_consistent_witness:
  "\<exists>p. run_ops sample_ctx (pkg_new PKG_FILE) sample_ops = Some p \<and>
     map_option (map_option vf_sum) (pkg_get_file p ''/usr/bin/zsh'') = Some (Some (Some ''abc'')) \<and> pkg_list_count p PKG_DEPS = Some 1"
proof -
  let ?p = "the (run_ops sample_ctx (pkg_new PKG_FILE) sample_ops)"
  have r: "run_ops sample_ctx (pkg_new PKG_FILE) sample_ops \<noteq> None" by code_simp
  then have s: "run_ops sample_ctx (pkg_new PKG_FILE) sample_ops = Some ?p" by simp
  have f: "map_option vf_sum (find (\<lambda>f. vf_path f = ''/usr/bin/zsh'') (pv_files ?p)) = Some (Some ''abc'')" "length (pv_depends ?p) = 1"
    by code_simp+
  show ?thesis using built_object_consistent [OF s, of "''/usr/bin/zsh''"] s f by (intro exI [of _ ?p]) simp
qed

section \<open>Attributes and messages\<close>

text \<open>An attribute that is set is read back, and all other attributes keep their values: setting the name
  sets the unique identifier, too. The tree is not kept at all and reads as null; for the messages see below.
\<close>

theorem attribute_roundtrip:
  assumes "pkg_set L p [(a, v)] = Some (rc, p')" "a \<notin> {PKG_MTREE, PKG_MESSAGE, PKG_NUM_FIELDS}"
  shows "rc = EPKG_OK \<and> pkg_vget1 p' a = Some v \<and>
    (\<forall>b. b \<noteq> a \<and> (a, b) \<noteq> (PKG_NAME, PKG_UNIQUEID) \<longrightarrow> pkg_vget1 p' b = pkg_vget1 p b)"
proof -
  have set: "pkg_vset1 L p a v = Some p'" and rc: "rc = EPKG_OK"
    using assms by (auto split: option.splits)
  have str: "set_str p a s = Some p' \<Longrightarrow> a \<noteq> PKG_MTREE \<Longrightarrow> pkg_vget1 p' a = Some (V_str (Some s)) \<and>
      (b \<noteq> a \<and> (a, b) \<noteq> (PKG_NAME, PKG_UNIQUEID) \<longrightarrow> pkg_vget1 p' b = pkg_vget1 p b)" for s b
    by (cases a; simp; cases b; auto)
  have int: "set_int p a i = Some p' \<Longrightarrow> pkg_vget1 p' a = Some (V_int i) \<and>
      (b \<noteq> a \<longrightarrow> pkg_vget1 p' b = pkg_vget1 p b)" for i b
    by (cases a; simp; cases b; auto)
  have bool: "set_bool p a i = Some p' \<Longrightarrow> pkg_vget1 p' a = Some (V_bool i) \<and>
      (b \<noteq> a \<longrightarrow> pkg_vget1 p' b = pkg_vget1 p b)" for i b
    by (cases a; simp; cases b; auto)
  have lic: "b \<noteq> PKG_LICENSE_LOGIC \<longrightarrow> pkg_vget1 (p\<lparr>pv_licenselogic := l\<rparr>) b = pkg_vget1 p b" for l b
    by (cases b) auto
  show ?thesis using set assms(2) str int bool lic rc
    by (cases v) (auto simp: pkg_vset1_def split: option.splits if_splits)
qed

text \<open>
  Texts that the functions of libucl keep as they are: texts that white space does not surround,
  for those that trim, and words of printable characters without quotes and backslashes, for the
  ones that escape.
\<close>

definition plain_text :: "string \<Rightarrow> bool" where
  "plain_text s \<longleftrightarrow> s \<noteq> [] \<and> \<not> isspace (hd s) \<and> \<not> isspace (last s) \<and> NUL \<notin> set s"

definition plain_word :: "string \<Rightarrow> bool" where
  "plain_word s \<longleftrightarrow> s \<noteq> [] \<and> (\<forall>c \<in> set s. 33 \<le> code c \<and> code c \<le> 126 \<and> c \<noteq> CHR 0x22 \<and> c \<noteq> CHR 0x5C)"

text \<open>What is documented of libucl and used here.\<close>

definition strings_kept :: "'u ucl_lib \<Rightarrow> bool" where
  "strings_kept L \<longleftrightarrow>
     (\<forall>s. plain_text s \<longrightarrow> ul_type L (ul_fromtrimmed L s) = UCL_STRING \<and> ul_tostring L (ul_fromtrimmed L s) = s) \<and>
     (\<forall>s. plain_word s \<longrightarrow> ul_type L (ul_fromstring L s) = UCL_STRING \<and> ul_tostring L (ul_fromstring L s) = s)"

definition keys_found :: "'u ucl_lib \<Rightarrow> bool" where
  "keys_found L \<longleftrightarrow> ul_type L (ul_new L UCL_OBJECT) = UCL_OBJECT \<and> (\<forall>k. ul_find_key L (ul_new L UCL_OBJECT) k = None) \<and>
     (\<forall>obj elt k. ul_type L obj = UCL_OBJECT \<longrightarrow> ul_find_key L obj k = None \<longrightarrow>
        ul_type L (ul_insert_key L obj elt k) = UCL_OBJECT \<and>
        (\<forall>k'. ul_find_key L (ul_insert_key L obj elt k) k' = (if k' = k then Some elt else ul_find_key L obj k')))"

definition elements_visited :: "'u ucl_lib \<Rightarrow> bool" where
  "elements_visited L \<longleftrightarrow> ul_type L (ul_new L UCL_ARRAY) = UCL_ARRAY \<and> ul_iterate L (ul_new L UCL_ARRAY) = [] \<and>
     (\<forall>a x. ul_type L a = UCL_ARRAY \<longrightarrow>
        ul_type L (ul_append L a x) = UCL_ARRAY \<and> ul_iterate L (ul_append L a x) = ul_iterate L a @ [x])"

definition ucl_ok :: "'u ucl_lib \<Rightarrow> bool" where
  "ucl_ok L \<longleftrightarrow> strings_kept L \<and> keys_found L \<and> elements_visited L"

text \<open>Messages with plain texts, and bounds, plain words, for upgrades only.\<close>

definition plain_message :: "pkg_message \<Rightarrow> bool" where
  "plain_message m \<longleftrightarrow> (case msg_str m of None \<Rightarrow> False | Some s \<Rightarrow> plain_text s) \<and>
     pred_option plain_word (msg_minimum m) \<and> pred_option plain_word (msg_maximum m) \<and>
     (msg_type m \<noteq> PKG_MESSAGE_UPGRADE \<longrightarrow> msg_minimum m = None \<and> msg_maximum m = None)"

lemma strcaseeq_words:
  "strcaseeq ''install'' ''install''" "\<not> strcaseeq ''remove'' ''install''" "strcaseeq ''remove'' ''remove''"
  "\<not> strcaseeq ''upgrade'' ''install''" "\<not> strcaseeq ''upgrade'' ''remove''" "strcaseeq ''upgrade'' ''upgrade''"
  by code_simp+

lemma plain_words: "plain_word ''install''" "plain_word ''remove''" "plain_word ''upgrade''"
  by code_simp+

text \<open>The keys of an object in the making, and their texts.\<close>

definition texts :: "'u ucl_lib \<Rightarrow> 'u \<Rightarrow> (string \<rightharpoonup> string) \<Rightarrow> bool" where
  "texts L obj m \<longleftrightarrow> ul_type L obj = UCL_OBJECT \<and> (\<forall>k. text_of_key L obj k = m k) \<and> (\<forall>k. m k = None \<longrightarrow> ul_find_key L obj k = None)"

lemma texts_new: "keys_found L \<Longrightarrow> texts L (ul_new L UCL_OBJECT) Map.empty"
  by (simp add: texts_def keys_found_def text_of_key_def)

lemma texts_insert:
  assumes "keys_found L" "texts L obj m" "m k = None" "ul_type L elt = UCL_STRING" "ul_tostring L elt = s"
  shows "texts L (ul_insert_key L obj elt k) (m(k \<mapsto> s))"
proof -
  have "ul_type L obj = UCL_OBJECT" "ul_find_key L obj k = None" using assms(2,3) by (simp_all add: texts_def)
  then have i: "ul_type L (ul_insert_key L obj elt k) = UCL_OBJECT"
    "\<And>k'. ul_find_key L (ul_insert_key L obj elt k) k' = (if k' = k then Some elt else ul_find_key L obj k')"
    using assms(1) by (simp_all add: keys_found_def)
  then have "text_of_key L (ul_insert_key L obj elt k) k' = (if k' = k then Some s else text_of_key L obj k')" for k'
    using assms(4,5) by (simp add: text_of_key_def)
  then show ?thesis using assms(2) i by (auto simp: texts_def)
qed

lemma texts_bound:
  assumes "ucl_ok L" "texts L obj m" "m key = None" "pred_option plain_word v"
  shows "texts L (insert_bound L key v obj) (m(key := v))"
proof (cases v)
  case None
  then show ?thesis using assms(2,3) by (simp add: insert_bound_def fun_upd_idem)
next
  case (Some s)
  then show ?thesis using assms texts_insert [of L obj m key "ul_fromstring L s" s]
    by (simp add: insert_bound_def ucl_ok_def strings_kept_def)
qed

definition type_text :: "pkg_message_t \<Rightarrow> string option" where
  "type_text t = (case t of PKG_MESSAGE_ALWAYS \<Rightarrow> None | PKG_MESSAGE_INSTALL \<Rightarrow> Some ''install''
     | PKG_MESSAGE_UPGRADE \<Rightarrow> Some ''upgrade'' | PKG_MESSAGE_REMOVE \<Rightarrow> Some ''remove'')"

lemma insert_type_bound: "insert_type L t = insert_bound L ''type'' (type_text t)"
  by (cases t) (simp_all add: insert_type_def insert_bound_def type_text_def fun_eq_iff)

lemma message_object_texts:
  assumes "ucl_ok L" "plain_message m"
  shows "texts L (message_object L m) (Map.empty(''message'' \<mapsto> the (msg_str m), ''type'' := type_text (msg_type m),
    ''maximum_version'' := msg_maximum m, ''minimum_version'' := msg_minimum m))"
proof -
  have L: "keys_found L" "strings_kept L" using assms(1) by (simp_all add: ucl_ok_def)
  have m: "plain_text (the (msg_str m))" "pred_option plain_word (msg_minimum m)" "pred_option plain_word (msg_maximum m)"
    using assms(2) by (auto simp: plain_message_def split: option.splits)
  have "pred_option plain_word (type_text (msg_type m))" using plain_words by (cases "msg_type m") (simp_all add: type_text_def)
  moreover have "texts L (ul_insert_key L (ul_new L UCL_OBJECT) (ul_fromtrimmed L (the (msg_str m))) ''message'') [''message'' \<mapsto> the (msg_str m)]"
    using texts_insert [OF L(1) texts_new [OF L(1)]] L(2) m(1) by (simp add: strings_kept_def)
  ultimately show ?thesis
    unfolding message_object_def Let_def insert_type_bound by (intro texts_bound [OF assms(1)] m) simp_all
qed

lemma message_read_back:
  assumes "ucl_ok L" "plain_message m"
  shows "text_of_key L (message_object L m) ''message'' = Some (the (msg_str m))"
    "message_of L (message_object L m) (the (msg_str m)) = m"
proof -
  let ?o = "message_object L m"
  have k: "text_of_key L ?o ''message'' = Some (the (msg_str m))" "text_of_key L ?o ''type'' = type_text (msg_type m)"
    "text_of_key L ?o ''maximum_version'' = msg_maximum m" "text_of_key L ?o ''minimum_version'' = msg_minimum m"
    using message_object_texts [OF assms] by (simp_all add: texts_def)
  show "text_of_key L ?o ''message'' = Some (the (msg_str m))" by (rule k(1))
  have "message_type L ?o = msg_type m"
    by (cases "msg_type m") (simp_all add: message_type_def k(2) type_text_def strcaseeq_words)
  then show "message_of L ?o (the (msg_str m)) = m"
    using assms(2) by (auto simp: message_of_def Let_def k plain_message_def split: option.splits)
qed

lemma array_visited:
  assumes "ucl_ok L"
  shows "ul_type L (pkg_message_to_ucl L ms) = UCL_ARRAY \<and> ul_iterate L (pkg_message_to_ucl L ms) = map (message_object L) ms"
proof -
  have "ul_type L (fold (\<lambda>m array. ul_append L array (message_object L m)) ms a) = UCL_ARRAY \<and>
      ul_iterate L (fold (\<lambda>m array. ul_append L array (message_object L m)) ms a) = ul_iterate L a @ map (message_object L) ms"
    if "ul_type L a = UCL_ARRAY" for a
    using that assms by (induction ms arbitrary: a) (simp_all add: ucl_ok_def elements_visited_def)
  then show ?thesis using assms by (simp add: pkg_message_to_ucl_def ucl_ok_def elements_visited_def)
qed

lemma messages_read_back:
  "ucl_ok L \<Longrightarrow> \<forall>m \<in> set ms. plain_message m \<Longrightarrow> messages_of L (map (message_object L) ms) old = (EPKG_OK, old @ ms)"
  by (induction ms arbitrary: old) (simp_all add: message_read_back)

text \<open>C37. The messages of a package that are written as UCL are read back behind those that are there,
  with their types and the versions they are for, and a text that is set as the message of a
  package without one is its message. The texts are not empty, without white space around them
  (which writing removes, also a newline at the end), and a text that is set does not start with a
  bracket; only messages for upgrades have bounds, which are words without characters that are
  escaped. Of libucl its documented behaviour is assumed.
\<close>

theorem message_roundtrip:
  assumes "ucl_ok L" "\<forall>m \<in> set ms. plain_message m" "plain_text s" "hd s \<noteq> CHR ''[''" "pv_message p = []"
  shows "pkg_message_from_ucl L old (pkg_message_to_ucl L ms) = (EPKG_OK, old @ ms) \<and>
    (\<exists>p'. pkg_set L p [(PKG_MESSAGE, V_str (Some s))] = Some (EPKG_OK, p') \<and> pkg_vget1 p' PKG_MESSAGE = Some (V_str (Some s)))"
proof -
  have "pkg_message_from_ucl L old (pkg_message_to_ucl L ms) = (EPKG_OK, old @ ms)"
    using array_visited [OF assms(1), of ms] messages_read_back [OF assms(1,2)] by (simp add: pkg_message_from_ucl_def)
  moreover have "ul_type L (ul_fromtrimmed L s) = UCL_STRING \<and> ul_tostring L (ul_fromtrimmed L s) = s"
    using assms(1,3) by (simp add: ucl_ok_def strings_kept_def)
  moreover have "deref s \<noteq> CHR ''[''" using assms(3,4) by (cases s) (simp_all add: plain_text_def)
  ultimately show ?thesis
    using assms(5) by (simp add: pkg_vset1_def set_message_def Let_def pkg_message_from_ucl_def)
qed

text \<open>A library of which this holds: objects as trees.\<close>

datatype tree = Text string | Elements "tree list" | Fields "(string \<times> tree) list"

definition strip :: "string \<Rightarrow> string" where
  "strip s = rev (dropWhile isspace (rev (dropWhile isspace s)))"

definition sample_ucl :: "tree ucl_lib" where
  "sample_ucl =
     \<lparr>ul_type = (\<lambda>u. case u of Text s \<Rightarrow> UCL_STRING | Elements us \<Rightarrow> UCL_ARRAY | Fields kvs \<Rightarrow> UCL_OBJECT),
      ul_tostring = (\<lambda>u. case u of Text s \<Rightarrow> s | _ \<Rightarrow> []),
      ul_find_key = (\<lambda>u k. case u of Fields kvs \<Rightarrow> map_of kvs k | _ \<Rightarrow> None),
      ul_iterate = (\<lambda>u. case u of Elements us \<Rightarrow> us | Fields kvs \<Rightarrow> map snd kvs | Text s \<Rightarrow> [Text s]),
      ul_fromstring = Text, ul_fromtrimmed = (\<lambda>s. Text (strip s)),
      ul_new = (\<lambda>t. if t = UCL_ARRAY then Elements [] else Fields []),
      ul_insert_key = (\<lambda>u elt k. case u of Fields kvs \<Rightarrow> Fields (kvs @ [(k, elt)]) | _ \<Rightarrow> u),
      ul_append = (\<lambda>u x. case u of Elements us \<Rightarrow> Elements (us @ [x]) | _ \<Rightarrow> u),
      ul_parse = (\<lambda>s. None)\<rparr>"

lemma strip_plain: "plain_text s \<Longrightarrow> strip s = s"
proof -
  assume p: "plain_text s"
  have "dropWhile isspace s = s" using p by (cases s) (simp_all add: plain_text_def)
  moreover have "dropWhile isspace (rev s) = rev s" using p by (cases s rule: rev_cases) (simp_all add: plain_text_def)
  ultimately show "strip s = s" by (simp add: strip_def)
qed

lemma sample_ucl_ok: "ucl_ok sample_ucl"
  using strip_plain
  by (auto simp: ucl_ok_def strings_kept_def keys_found_def elements_visited_def sample_ucl_def map_add_def split: tree.splits option.splits)

theorem message_roundtrip_witness:
  "pkg_message_from_ucl sample_ucl [] (Elements [Fields [(''message'', Text ''read UPDATING''), (''type'', Text ''upgrade''),
     (''maximum_version'', Text ''2'')]]) =
   (EPKG_OK, [\<lparr>msg_str = Some ''read UPDATING'', msg_minimum = None, msg_maximum = Some ''2'', msg_type = PKG_MESSAGE_UPGRADE\<rparr>])"
proof -
  let ?m = "\<lparr>msg_str = Some ''read UPDATING'', msg_minimum = None, msg_maximum = Some ''2'', msg_type = PKG_MESSAGE_UPGRADE\<rparr>"
  have w: "plain_text ''read UPDATING''" "plain_word ''2''" by code_simp+
  then have m: "\<forall>m \<in> set [?m]. plain_message m" by (simp add: plain_message_def)
  have s: "plain_text ''hello''" "hd ''hello'' \<noteq> CHR ''[''" by code_simp+
  have "pkg_message_to_ucl sample_ucl [?m] = Elements [Fields [(''message'', Text ''read UPDATING''),
      (''type'', Text ''upgrade''), (''maximum_version'', Text ''2'')]]" by code_simp
  then show ?thesis using message_roundtrip [OF sample_ucl_ok m s, of "pkg_new PKG_FILE" "[]"] by (simp add: pkg_new_def)
qed

theorem attribute_roundtrip_witness:
  "pkg_vget1 ((pkg_new PKG_FILE)\<lparr>pv_name := Some ''zsh'', po_uid := Some ''zsh''\<rparr>) PKG_NAME = Some (V_str (Some ''zsh''))"
  using attribute_roundtrip [of sample_ucl "pkg_new PKG_FILE" PKG_NAME "V_str (Some ''zsh'')"]
  by (simp add: pkg_vset1_def)

section \<open>Lost values and freed memory\<close>

text \<open>
  The default value and the description of an option that has a value are lost: the option counts
  as a duplicate, although the comments promise that only the same field twice is one.
\<close>

theorem option_default_lost:
  assumes "pkg_addoption ctx p key value = Some (EPKG_OK, p')" "\<not> developer_mode ctx" "text \<noteq> []"
  shows "pkg_addoption_default ctx p' key text = Some (EPKG_OK, p') \<and> pkg_addoption_description ctx p' key text = Some (EPKG_OK, p')"
proof -
  have key: "key \<noteq> []" using assms(1) by (auto simp: pkg_addoption_def)
  have "kh_contains (po_optionshash p') key = Some True"
  proof (cases "po_optionshash p")
    case (Live h)
    then show ?thesis using assms(1)
      by (auto simp: pkg_addoption_def store_option_def duplicate_def kh_contains_def kh_safe_add_def bind_Some map_add_def
          split: if_splits option.splits)
  qed (use assms(1) in \<open>auto simp: pkg_addoption_def store_option_def kh_contains_def kh_safe_add_def bind_Some split: if_splits\<close>)
  then show ?thesis using assms(2,3) key
    by (simp add: pkg_addoption_default_def pkg_addoption_description_def store_option_def duplicate_def)
qed

theorem option_default_lost_witness:
  "\<exists>p. pkg_addoption sample_ctx (pkg_new PKG_FILE) ''NLS'' ''on'' = Some (EPKG_OK, p) \<and>
     pkg_addoption_default sample_ctx p ''NLS'' ''off'' = Some (EPKG_OK, p)"
proof -
  let ?p = "snd (the (pkg_addoption sample_ctx (pkg_new PKG_FILE) ''NLS'' ''on''))"
  have a: "pkg_addoption sample_ctx (pkg_new PKG_FILE) ''NLS'' ''on'' = Some (EPKG_OK, ?p)"
    by (simp add: pkg_addoption_def store_option_def pkg_new_def sample_ctx_def kh_contains_def kh_safe_add_def)
  have "\<not> developer_mode sample_ctx" by (simp add: sample_ctx_def)
  from option_default_lost [OF a this, of "''off''"] a show ?thesis by auto
qed

text \<open>Three uses of the operations follow memory that they freed before: a reverse dependency that is
  added twice, a list that is filled again after it was freed, and a message that is set when the package
  has one.
\<close>

theorem freed_memory_followed:
  assumes "pkg_addrdep p name origin v l = Some (rc, p1)"
  shows "pkg_addrdep p1 name origin' v' l' = None \<and>
    (\<forall>p2. pkg_list_free p1 PKG_RDEPS = Some p2 \<longrightarrow> pkg_addrdep p2 name' origin' v' l' = None \<and> pkg_list_free p2 PKG_RDEPS = None) \<and>
    (pv_message p \<noteq> [] \<longrightarrow> pkg_set L p [(PKG_MESSAGE, V_str (Some s))] = None)"
proof -
  obtain t where t: "kh_put (po_rdepshash p) name (new_dep name origin v l) = Some (t, True)" "po_rdepshash p1 = t"
    using assms by (auto simp: pkg_addrdep_def bind_Some Let_def split: if_splits)
  have "\<exists>h. t = Live h \<and> map_of h name \<noteq> None"
    using t(1) by (cases "po_rdepshash p") (auto simp: map_add_def split: if_splits)
  then obtain h where h: "t = Live h" "map_of h name \<noteq> None" by blast
  have "pkg_addrdep p1 name origin' v' l' = None"
    using h by (simp add: pkg_addrdep_def t(2))
  moreover have "pkg_addrdep p2 name' origin' v' l' = None \<and> pkg_list_free p2 PKG_RDEPS = None"
    if "pkg_list_free p1 PKG_RDEPS = Some p2" for p2
    using that h(1) by (auto simp: t(2) clear_flag_def pkg_addrdep_def)
  ultimately show ?thesis by (simp add: pkg_vset1_def set_message_def)
qed

theorem freed_memory_followed_witness:
  "\<exists>p. pkg_addrdep (pkg_new PKG_FILE) ''zsh'' ''shells/zsh'' None False = Some (EPKG_OK, p) \<and>
     pkg_addrdep p ''zsh'' ''shells/zsh'' None False = None"
proof -
  let ?p = "snd (the (pkg_addrdep (pkg_new PKG_FILE) ''zsh'' ''shells/zsh'' None False))"
  have a: "pkg_addrdep (pkg_new PKG_FILE) ''zsh'' ''shells/zsh'' None False = Some (EPKG_OK, ?p)"
    by (simp add: pkg_addrdep_def pkg_new_def Let_def)
  from freed_memory_followed [OF a, of "''shells/zsh''" None False] a show ?thesis by blast
qed

section \<open>The size of a package\<close>

definition stats_of :: "(string \<Rightarrow> file_stat option) \<Rightarrow> view_file list \<Rightarrow> file_stat list" where
  "stats_of lstat fs = List.map_filter (\<lambda>f. lstat (vf_path f)) fs"

definition linked_inodes :: "file_stat list \<Rightarrow> nat set" where
  "linked_inodes sts = st_ino ` {st \<in> set sts. st_nlink st > 1}"

definition single_sizes :: "file_stat list \<Rightarrow> int" where
  "single_sizes sts = sum_list (map st_size (filter (\<lambda>st. st_nlink st \<le> 1 \<and> \<not> st_islnk st) sts))"

lemma stats_of_simps [simp]:
  "stats_of lstat [] = []"
  "stats_of lstat (f # fs) = (case lstat (vf_path f) of None \<Rightarrow> stats_of lstat fs | Some st \<Rightarrow> st # stats_of lstat fs)"
  by (simp_all add: stats_of_def List.map_filter_simps split: option.splits)

lemma inodes_simps [simp]:
  "linked_inodes [] = {}" "linked_inodes (st # sts) = (if st_nlink st > 1 then insert (st_ino st) (linked_inodes sts) else linked_inodes sts)"
  "single_sizes [] = 0" "single_sizes (st # sts) = (if st_nlink st \<le> 1 \<and> \<not> st_islnk st then st_size st + single_sizes sts else single_sizes sts)"
  by (auto simp: linked_inodes_def single_sizes_def)

lemma finite_inodes [simp]: "finite (linked_inodes sts)"
  by (simp add: linked_inodes_def)

lemma single_sizes_nonneg: "\<forall>st \<in> set sts. 0 \<le> st_size st \<Longrightarrow> 0 \<le> single_sizes sts"
  unfolding single_sizes_def by (intro sum_list_nonneg) auto

text \<open>The checksums to record: those of the files that exist which differ from the recorded ones.\<close>

definition changed_sums :: "(string \<Rightarrow> file_stat option) \<Rightarrow> (string \<Rightarrow> string option) \<Rightarrow> view_file list \<Rightarrow> (string \<times> string) list" where
  "changed_sums lstat sum_of fs =
     map (\<lambda>f. (vf_path f, the (sum_of (vf_path f))))
       (filter (\<lambda>f. lstat (vf_path f) \<noteq> None \<and> sum_of (vf_path f) \<noteq> vf_sum f) fs)"

lemma recompute_step:
  assumes "lstat (vf_path f) = Some st" "sum_of (vf_path f) = Some ck" "vf_sum f = Some old"
    "(if st_nlink st > 1 then check_for_hardlink hl st else (st_islnk st, hl)) = (skip, hl')"
    "m = (if skip then n else n + st_size st)" "\<not> m < LLONG_MIN" "m \<le> LLONG_MAX"
  shows "recompute_loop lstat sum_of (f # fs) hl n cks =
    recompute_loop lstat sum_of fs hl' m (if ck \<noteq> old then cks @ [(vf_path f, ck)] else cks)"
  unfolding recompute_loop.simps assms(1-4) option.case prod.case Let_def assms(5) [symmetric] using assms(6,7) by simp

lemma recompute_loop_sizes:
  "\<forall>f \<in> set fs. lstat (vf_path f) \<noteq> None \<longrightarrow> sum_of (vf_path f) \<noteq> None \<and> vf_sum f \<noteq> None \<Longrightarrow>
   \<forall>st \<in> set (stats_of lstat fs). 0 \<le> st_size st \<and> (st_nlink st > 1 \<longrightarrow> st_size st = sz (st_ino st)) \<Longrightarrow>
   0 \<le> n \<Longrightarrow> n + single_sizes (stats_of lstat fs) + sum sz (linked_inodes (stats_of lstat fs) - hl) \<le> LLONG_MAX \<Longrightarrow>
   recompute_loop lstat sum_of fs hl n cks =
     Some (EPKG_OK, n + single_sizes (stats_of lstat fs) + sum sz (linked_inodes (stats_of lstat fs) - hl),
       cks @ changed_sums lstat sum_of fs)"
proof (induction fs arbitrary: hl n cks)
  case (Cons f fs)
  show ?case
  proof (cases "lstat (vf_path f)")
    case None
    then show ?thesis using Cons by (simp add: changed_sums_def)
  next
    case (Some st)
    then obtain ck old where s: "sum_of (vf_path f) = Some ck" "vf_sum f = Some old" using Cons.prems(1) by auto
    have prems: "\<forall>f \<in> set fs. lstat (vf_path f) \<noteq> None \<longrightarrow> sum_of (vf_path f) \<noteq> None \<and> vf_sum f \<noteq> None"
      "\<forall>st \<in> set (stats_of lstat fs). 0 \<le> st_size st \<and> (st_nlink st > 1 \<longrightarrow> st_size st = sz (st_ino st))"
      using Cons.prems(1,2) Some by simp_all
    have sz: "0 \<le> st_size st" "st_nlink st > 1 \<Longrightarrow> st_size st = sz (st_ino st)" using Cons.prems(2) Some by simp_all
    let ?I = "linked_inodes (stats_of lstat fs)"
    let ?skip = "if st_nlink st > 1 then st_ino st \<in> hl else st_islnk st"
    let ?hl = "if st_nlink st > 1 then insert (st_ino st) hl else hl"
    let ?n = "if ?skip then n else n + st_size st"
    let ?cks = "if ck \<noteq> old then cks @ [(vf_path f, ck)] else cks"
    have "0 \<le> sz i" if "i \<in> ?I" for i using that prems(2) by (force simp: linked_inodes_def)
    then have rest: "0 \<le> single_sizes (stats_of lstat fs) + sum sz (?I - h)" for h
      using single_sizes_nonneg [of "stats_of lstat fs"] prems(2) by (intro add_nonneg_nonneg sum_nonneg) auto
    have total: "?n + single_sizes (stats_of lstat fs) + sum sz (?I - ?hl) =
        n + single_sizes (stats_of lstat (f # fs)) + sum sz (linked_inodes (stats_of lstat (f # fs)) - hl)"
    proof (cases "st_nlink st > 1")
      case True
      have "?n + sum sz (?I - insert (st_ino st) hl) = n + sum sz (insert (st_ino st) ?I - hl)"
      proof (cases "st_ino st \<in> hl")
        case False
        then have "insert (st_ino st) ?I - hl = insert (st_ino st) (?I - insert (st_ino st) hl)" by auto
        then show ?thesis using False True sz(2) by simp
      next
        case seen: True
        then have "insert (st_ino st) ?I - hl = ?I - insert (st_ino st) hl" by auto
        then show ?thesis using seen True by (simp only: if_True)
      qed
      then show ?thesis using True Some by simp
    qed (use Some in simp)
    have n: "0 \<le> ?n" "?n \<le> LLONG_MAX" "\<not> ?n < LLONG_MIN"
      using Cons.prems(3,4) sz(1) rest [of ?hl] total by (auto simp: LLONG_MIN_def)
    have "recompute_loop lstat sum_of (f # fs) hl n cks = recompute_loop lstat sum_of fs ?hl ?n ?cks"
      by (rule recompute_step [where lstat = lstat and sum_of = sum_of and f = f and st = st and hl = hl and n = n and skip = ?skip,
            OF Some s _ refl n(3,2)]) (simp add: check_for_hardlink_def)
    also have "\<dots> = Some (EPKG_OK, ?n + single_sizes (stats_of lstat fs) + sum sz (?I - ?hl), ?cks @ changed_sums lstat sum_of fs)"
      by (rule Cons.IH [OF prems n(1)]) (use Cons.prems(4) total in simp)
    also have "?cks @ changed_sums lstat sum_of fs = cks @ changed_sums lstat sum_of (f # fs)"
      using Some s by (simp add: changed_sums_def)
    finally show ?thesis unfolding total .
  qed
qed (simp add: changed_sums_def)

text \<open>C33. The size of a package is computed from the files that exist, each time that a file is listed:
  those with one link count unless they are symbolic links; of those with more links each inode
  counts once, also when it is that of a symbolic link. The checksums that changed are recorded.
  Every file that exists has a recorded checksum and its new one can be computed, the files of an
  inode have the same size, no size is negative, and the total is within 64 bits.
\<close>

theorem recompute_sizes:
  assumes "\<forall>f \<in> set (pv_files p). lstat (vf_path f) \<noteq> None \<longrightarrow> sum_of (vf_path f) \<noteq> None \<and> vf_sum f \<noteq> None"
    "\<forall>st \<in> set (stats_of lstat (pv_files p)). 0 \<le> st_size st \<and> (st_nlink st > 1 \<longrightarrow> st_size st = sz (st_ino st))"
    "single_sizes (stats_of lstat (pv_files p)) + sum sz (linked_inodes (stats_of lstat (pv_files p))) \<le> LLONG_MAX"
  shows "pkg_recompute lstat sum_of p = Some (EPKG_OK, p\<lparr>pv_flatsize := single_sizes (stats_of lstat (pv_files p)) +
     sum sz (linked_inodes (stats_of lstat (pv_files p)))\<rparr>, changed_sums lstat sum_of (pv_files p))"
  using recompute_loop_sizes [OF assms(1,2), of 0 "{}" "[]"] assms(3) by (simp add: pkg_recompute_def)

text \<open>Two names of one inode, a symbolic link and a file that is gone; one checksum has changed.\<close>

definition sized_pkg :: pkg_object where
  "sized_pkg = (pkg_new PKG_FILE)\<lparr>pv_files := map (\<lambda>f. new_file sample_ctx f (Some ''ab'') None None 0 0) [''/a'', ''/b'', ''/l'', ''/x'']\<rparr>"

definition sized_stat :: "string \<Rightarrow> file_stat option" where
  "sized_stat f = (if f = ''/x'' then None
     else Some \<lparr>st_ino = (if f = ''/l'' then 8 else 7), st_nlink = (if f = ''/l'' then 1 else 2), st_size = 10, st_islnk = (f = ''/l'')\<rparr>)"

theorem recompute_sizes_witness:
  "pkg_recompute sized_stat (\<lambda>f. Some (if f = ''/l'' then ''cd'' else ''ab'')) sized_pkg =
    Some (EPKG_OK, sized_pkg\<lparr>pv_flatsize := 10\<rparr>, [(''/l'', ''cd'')])"
proof -
  let ?sum = "\<lambda>f. Some (if f = ''/l'' then ''cd'' else ''ab'')"
  have st: "stats_of sized_stat (pv_files sized_pkg) =
      [\<lparr>st_ino = 7, st_nlink = 2, st_size = 10, st_islnk = False\<rparr>, \<lparr>st_ino = 7, st_nlink = 2, st_size = 10, st_islnk = False\<rparr>,
       \<lparr>st_ino = 8, st_nlink = 1, st_size = 10, st_islnk = True\<rparr>]"
    by (simp add: sized_pkg_def new_file_def sample_ctx_def sized_stat_def)
  have ch: "changed_sums sized_stat ?sum (pv_files sized_pkg) = [(''/l'', ''cd'')]"
    by (simp add: sized_pkg_def new_file_def sample_ctx_def sized_stat_def changed_sums_def)
  have t: "single_sizes (stats_of sized_stat (pv_files sized_pkg)) + sum (\<lambda>_. 10) (linked_inodes (stats_of sized_stat (pv_files sized_pkg))) = 10"
    unfolding st by simp
  have 1: "\<forall>f \<in> set (pv_files sized_pkg). sized_stat (vf_path f) \<noteq> None \<longrightarrow> ?sum (vf_path f) \<noteq> None \<and> vf_sum f \<noteq> None"
    by (simp add: sized_pkg_def new_file_def sample_ctx_def)
  have 2: "\<forall>st \<in> set (stats_of sized_stat (pv_files sized_pkg)). 0 \<le> st_size st \<and> (st_nlink st > 1 \<longrightarrow> st_size st = 10)"
    unfolding st by simp
  have 3: "single_sizes (stats_of sized_stat (pv_files sized_pkg)) + sum (\<lambda>_. 10) (linked_inodes (stats_of sized_stat (pv_files sized_pkg))) \<le> LLONG_MAX"
    unfolding t by (simp add: LLONG_MAX_def)
  from recompute_sizes [where sz = "\<lambda>_. 10", OF 1 2 3] show ?thesis unfolding t ch .
qed

end
