(* ===== verification/Port_String.thy ===== *)
theory Port_String
  imports C_Format
begin

text \<open>
  The string functions that \<^verbatim>\<open>libpkg\<close> brings along (\<^verbatim>\<open>port_strlcpy.c\<close>, \<^verbatim>\<open>port_strlcat.c\<close>,
  \<^verbatim>\<open>port_strcasestr.c\<close>, \<^verbatim>\<open>port_strndup.c\<close>, \<^verbatim>\<open>port_strtonum.c\<close>). A destination is a
  buffer, whose length is the room it has: a store behind it is \<open>None\<close>. A source is a string
  without its terminator.
\<close>

section \<open>Buffers\<close>

definition store :: "string \<Rightarrow> nat \<Rightarrow> char \<Rightarrow> string option" where
  "store m i c = (if i < length m then Some (m[i := c]) else None)"

text \<open>The string in a buffer: up to the first NUL, which has to be there.\<close>

definition text_in :: "string \<Rightarrow> string" where
  "text_in m = takeWhile (\<lambda>c. c \<noteq> NUL) m"

definition terminated :: "string \<Rightarrow> bool" where
  "terminated m \<longleftrightarrow> NUL \<in> set m"

section \<open>port_strlcpy\<close>

text \<open>The loop returns the number left, the buffer and the position in it.\<close>

fun strlcpy_loop :: "nat \<Rightarrow> string \<Rightarrow> nat \<Rightarrow> string \<Rightarrow> (nat \<times> string \<times> nat) option" where
  "strlcpy_loop 0 m d src = None"
| "strlcpy_loop (Suc nleft) m d src =
     (if nleft = 0 then Some (0, m, d)
      else
        (case store m d (deref src) of
           None \<Rightarrow> None
         | Some m' \<Rightarrow> if src = [] then Some (nleft, m', d + 1) else strlcpy_loop nleft m' (d + 1) (tl src)))"

definition port_strlcpy :: "string \<Rightarrow> string \<Rightarrow> nat \<Rightarrow> (string \<times> nat) option" where
  "port_strlcpy dst src dsize =
     (case (if dsize \<noteq> 0 then strlcpy_loop dsize dst 0 src else Some (0, dst, 0)) of
        None \<Rightarrow> None
      | Some (nleft, m, d) \<Rightarrow>
          (case (if nleft = 0 \<and> dsize \<noteq> 0 then store m d NUL else Some m) of
             None \<Rightarrow> None
           | Some m' \<Rightarrow> Some (m', length src)))"

section \<open>port_strlcat\<close>

text \<open>The end of the destination, which is looked for in \<open>n\<close> characters; reading behind the buffer fails.\<close>

fun strlcat_end :: "nat \<Rightarrow> string \<Rightarrow> nat \<Rightarrow> nat option" where
  "strlcat_end 0 m d = Some d"
| "strlcat_end (Suc n) m d =
     (if d \<ge> length m then None else if m ! d \<noteq> NUL then strlcat_end n m (d + 1) else Some d)"

fun strlcat_loop :: "nat \<Rightarrow> string \<Rightarrow> nat \<Rightarrow> string \<Rightarrow> (string \<times> nat) option" where
  "strlcat_loop n m d [] = Some (m, d)"
| "strlcat_loop 0 m d (c # src) = strlcat_loop 0 m d src"
| "strlcat_loop (Suc n) m d (c # src) =
     (case store m d c of None \<Rightarrow> None | Some m' \<Rightarrow> strlcat_loop n m' (d + 1) src)"

definition port_strlcat :: "string \<Rightarrow> string \<Rightarrow> nat \<Rightarrow> (string \<times> nat) option" where
  "port_strlcat dst src dsize =
     (case strlcat_end dsize dst 0 of
        None \<Rightarrow> None
      | Some dlen \<Rightarrow>
          if dsize - dlen = 0 then Some (dst, dlen + length src)
          else
            (case strlcat_loop (dsize - dlen - 1) dst dlen src of
               None \<Rightarrow> None
             | Some (m, d) \<Rightarrow> map_option (\<lambda>m'. (m', dlen + length src)) (store m d NUL)))"

section \<open>port_strcasestr\<close>

fun strcasestr_loop :: "char \<Rightarrow> string \<Rightarrow> string \<Rightarrow> string option" where
  "strcasestr_loop c needle [] = None"
| "strcasestr_loop c needle (sc # s) =
     (if tolower sc \<noteq> c then strcasestr_loop c needle s
      else if \<not> strncaseeq s needle (length needle) then strcasestr_loop c needle s
      else Some (sc # s))"

fun port_strcasestr :: "string \<Rightarrow> string \<Rightarrow> string option" where
  "port_strcasestr s [] = Some s"
| "port_strcasestr s (c # needle) = strcasestr_loop (tolower c) needle s"

section \<open>port_strndup and port_strtonum\<close>

definition port_strndup :: "string \<Rightarrow> nat \<Rightarrow> string" where
  "port_strndup str n = (let len = (if length str > n then n else length str) in take len str)"

datatype strtonum_error = INVALID | TOOSMALL | TOOLARGE

text \<open>The error numbers that the function leaves in \<^verbatim>\<open>errno\<close>.\<close>

datatype errno = EINVAL | ERANGE

fun errval :: "strtonum_error \<Rightarrow> string \<times> errno" where
  "errval INVALID = (''invalid'', EINVAL)"
| "errval TOOSMALL = (''too small'', ERANGE)"
| "errval TOOLARGE = (''too large'', ERANGE)"

definition strtonum_check :: "string \<Rightarrow> int \<Rightarrow> int \<Rightarrow> int \<times> strtonum_error option" where
  "strtonum_check numstr minval maxval =
     (if minval > maxval then (0, Some INVALID)
      else
        (case strtoll numstr of
           (ll, erange, ep) \<Rightarrow>
             if ep = numstr \<or> ep \<noteq> [] then (ll, Some INVALID)
             else if (ll = LLONG_MIN \<and> erange) \<or> ll < minval then (ll, Some TOOSMALL)
             else if (ll = LLONG_MAX \<and> erange) \<or> ll > maxval then (ll, Some TOOLARGE)
             else (ll, None)))"

text \<open>The number, the text of the error, and \<^verbatim>\<open>errno\<close>, which is kept without an error.\<close>

definition port_strtonum :: "string \<Rightarrow> int \<Rightarrow> int \<Rightarrow> int \<times> (string \<times> errno) option" where
  "port_strtonum numstr minval maxval =
     (case strtonum_check numstr minval maxval of
        (ll, error) \<Rightarrow> (if error \<noteq> None then 0 else ll, map_option errval error))"

section \<open>Copies stay within the destination\<close>

definition overwrite :: "string \<Rightarrow> nat \<Rightarrow> string \<Rightarrow> string" where
  "overwrite m d xs = take d m @ xs @ drop (d + length xs) m"

lemma overwrite_Nil [simp]: "overwrite m d [] = m"
  by (simp add: overwrite_def)

lemma length_overwrite: "d + length xs \<le> length m \<Longrightarrow> length (overwrite m d xs) = length m"
  by (simp add: overwrite_def)

lemma store_overwrite: "d < length m \<Longrightarrow> store m d c = Some (overwrite m d [c])"
  by (simp add: store_def overwrite_def upd_conv_take_nth_drop)

lemma put_overwrite:
  "d + length xs + length ys \<le> length m \<Longrightarrow> overwrite (overwrite m d xs) (d + length xs) ys = overwrite m d (xs @ ys)"
  by (simp add: overwrite_def ac_simps)

lemma overwrite_cons: "d + 1 + length ys \<le> length m \<Longrightarrow> overwrite (overwrite m d [c]) (Suc d) ys = overwrite m d (c # ys)"
  using put_overwrite [of d "[c]" ys m] by simp

lemma strlcpy_loop_spec:
  "d + n < length m \<Longrightarrow>
   strlcpy_loop (Suc n) m d src =
     Some (if length src < n then (n - length src, overwrite m d (src @ [NUL]), d + length src + 1)
           else (0, overwrite m d (take n src), d + n))"
proof (induction n arbitrary: m d src)
  case (Suc n)
  show ?case
  proof (cases src)
    case (Cons c s)
    let ?m = "overwrite m d [c]"
    have len: "length ?m = length m" using Suc.prems by (simp add: length_overwrite)
    have "strlcpy_loop (Suc (Suc n)) m d src = strlcpy_loop (Suc n) ?m (Suc d) s"
      using Suc.prems by (simp add: Cons store_overwrite)
    also have "\<dots> = Some (if length s < n then (n - length s, overwrite ?m (Suc d) (s @ [NUL]), Suc d + length s + 1)
           else (0, overwrite ?m (Suc d) (take n s), Suc d + n))"
      using Suc.prems by (intro Suc.IH) (simp add: len)
    finally show ?thesis using Suc.prems by (simp add: Cons overwrite_cons)
  qed (use Suc.prems in \<open>simp add: store_overwrite\<close>)
qed simp

lemma port_strlcpy_spec:
  assumes "dsize \<le> length dst"
  shows "port_strlcpy dst src dsize =
    Some (if dsize = 0 then dst else overwrite dst 0 (take (dsize - 1) src @ [NUL]), length src)"
proof (cases dsize)
  case (Suc n)
  let ?k = "overwrite dst 0 (take n src)"
  have loop: "strlcpy_loop (Suc n) dst 0 src =
     Some (if length src < n then (n - length src, overwrite dst 0 (src @ [NUL]), length src + 1) else (0, ?k, n))"
    using strlcpy_loop_spec [of 0 n dst src] assms Suc by simp
  show ?thesis
  proof (cases "length src < n")
    case False
    then have "n < length ?k" "overwrite ?k n [NUL] = overwrite dst 0 (take n src @ [NUL])"
      using assms Suc put_overwrite [of 0 "take n src" "[NUL]" dst] by (simp_all add: length_overwrite)
    then show ?thesis using False by (simp add: port_strlcpy_def Suc loop store_overwrite del: strlcpy_loop.simps)
  qed (simp add: port_strlcpy_def Suc loop del: strlcpy_loop.simps)
qed (simp add: port_strlcpy_def)

lemma text_in_overwrite: "NUL \<notin> set xs \<Longrightarrow> text_in (overwrite m 0 (xs @ [NUL])) = xs"
  unfolding text_in_def overwrite_def by (simp, subst takeWhile_append2) auto

lemma strlcat_end_spec:
  "d + n \<le> length m \<Longrightarrow> strlcat_end n m d = Some (d + length (takeWhile (\<lambda>c. c \<noteq> NUL) (take n (drop d m))))"
proof (induction n arbitrary: d)
  case (Suc n)
  then have "drop d m = m ! d # drop (Suc d) m" by (simp add: Cons_nth_drop_Suc)
  then show ?case using Suc by simp
qed simp

lemma strlcat_loop_spec:
  "d + n < length m \<Longrightarrow> strlcat_loop n m d src = Some (overwrite m d (take n src), d + length (take n src))"
proof (induction n m d src rule: strlcat_loop.induct)
  case (3 n m d c src)
  then show ?case by (simp add: store_overwrite length_overwrite overwrite_cons)
qed simp_all

lemma port_strlcat_spec:
  assumes "dsize \<le> length dst" "old = text_in (take dsize dst)"
  shows "port_strlcat dst src dsize =
    Some (if length old = dsize then dst else overwrite dst (length old) (take (dsize - length old - 1) src @ [NUL]),
      length old + length src)"
proof -
  have le: "length old \<le> dsize"
    using assms by (simp add: text_in_def) (metis length_take length_takeWhile_le min.bounded_iff min_def)
  have e: "strlcat_end dsize dst 0 = Some (length old)"
    using strlcat_end_spec [of 0 dsize dst] assms by (simp add: text_in_def)
  show ?thesis
  proof (cases "length old = dsize")
    case False
    let ?n = "dsize - length old - 1"
    have room: "length old + ?n < length dst" using le False assms(1) by simp
    let ?m = "overwrite dst (length old) (take ?n src)"
    have "store ?m (length old + length (take ?n src)) NUL = Some (overwrite dst (length old) (take ?n src @ [NUL]))"
      using room put_overwrite [of "length old" "take ?n src" "[NUL]" dst] by (simp add: store_overwrite length_overwrite)
    then show ?thesis
      using le False strlcat_loop_spec [OF room, of src] by (simp add: port_strlcat_def e)
  qed (simp add: port_strlcat_def e)
qed

lemma drop_overwrite: "d + length xs \<le> n \<Longrightarrow> n \<le> length m \<Longrightarrow> drop n (overwrite m d xs) = drop n m"
  by (simp add: overwrite_def)

lemma text_in_prefix: "take (length (text_in (take n m))) m = text_in (take n m)" "length (text_in (take n m)) \<le> n"
proof -
  have "length (text_in (take n m)) \<le> length (take n m)" unfolding text_in_def by (rule length_takeWhile_le)
  then show le: "length (text_in (take n m)) \<le> n" by simp
  have "take (length (text_in (take n m))) (take n m) = text_in (take n m)"
    unfolding text_in_def by (rule takeWhile_eq_take [symmetric])
  then show "take (length (text_in (take n m))) m = text_in (take n m)" using le by (simp add: min_def)
qed

lemma strlcpy_safe:
  assumes "0 < dsize" "dsize \<le> length dst" "NUL \<notin> set src"
  shows "\<exists>m. port_strlcpy dst src dsize = Some (m, length src) \<and> text_in m = take (dsize - 1) src \<and> terminated m \<and>
      length m = length dst \<and> drop dsize m = drop dsize dst"
proof (intro exI conjI)
  let ?m = "overwrite dst 0 (take (dsize - 1) src @ [NUL])"
  show "port_strlcpy dst src dsize = Some (?m, length src)" using assms by (simp add: port_strlcpy_spec)
  show "text_in ?m = take (dsize - 1) src" using assms(3) by (intro text_in_overwrite) (meson in_set_takeD)
  show "terminated ?m" by (simp add: terminated_def overwrite_def)
  show "length ?m = length dst" using assms by (simp add: length_overwrite)
  show "drop dsize ?m = drop dsize dst" using assms by (intro drop_overwrite) auto
qed

lemma strlcat_safe:
  assumes "0 < dsize" "dsize \<le> length dst" "NUL \<notin> set src" "old = text_in (take dsize dst)"
  shows "\<exists>m. port_strlcat dst src dsize = Some (m, length old + length src) \<and> length m = length dst \<and> drop dsize m = drop dsize dst \<and>
      (length old < dsize \<longrightarrow> text_in m = take (dsize - 1) (old @ src) \<and> terminated m)"
proof (cases "length old = dsize")
  case False
  let ?k = "dsize - length old - 1"
  let ?m = "overwrite dst (length old) (take ?k src @ [NUL])"
  have le: "length old < dsize" using text_in_prefix(2) [of dsize dst] assms(4) False by simp
  have m: "?m = overwrite dst 0 ((old @ take ?k src) @ [NUL])"
    using text_in_prefix(1) [of dsize dst] assms(4) by (simp add: overwrite_def)
  have "NUL \<notin> set old" unfolding assms(4) by (auto simp: text_in_def dest: set_takeWhileD)
  moreover have "NUL \<notin> set (take ?k src)" using assms(3) by (meson in_set_takeD)
  ultimately have "text_in ?m = old @ take ?k src" unfolding m by (intro text_in_overwrite) auto
  moreover have "old @ take ?k src = take (dsize - 1) (old @ src)" using le by simp
  moreover have "port_strlcat dst src dsize = Some (?m, length old + length src)"
    using False port_strlcat_spec [OF assms(2,4)] by simp
  moreover have "length ?m = length dst" using assms(2) le by (intro length_overwrite) auto
  moreover have "drop dsize ?m = drop dsize dst" using assms(2) le by (intro drop_overwrite) auto
  moreover have "terminated ?m" by (simp add: terminated_def overwrite_def)
  ultimately show ?thesis by metis
qed (use port_strlcat_spec [OF assms(2,4)] in simp)

text \<open>C36. With a size that is not greater than the room of the destination, copying and appending write
  nothing behind it. The text is the longest part that leaves room for the terminator, the rest of the
  buffer is kept, and the result tells whether it was truncated.
\<close>

theorem string_copies_safe:
  assumes "0 < dsize" "dsize \<le> length dst" "NUL \<notin> set src" "old = text_in (take dsize dst)"
  shows "(\<exists>m. port_strlcpy dst src dsize = Some (m, length src) \<and> text_in m = take (dsize - 1) src \<and> terminated m \<and>
      length m = length dst \<and> drop dsize m = drop dsize dst) \<and>
    (\<exists>m. port_strlcat dst src dsize = Some (m, length old + length src) \<and> length m = length dst \<and> drop dsize m = drop dsize dst \<and>
      (length old < dsize \<longrightarrow> text_in m = take (dsize - 1) (old @ src) \<and> terminated m))"
  using strlcpy_safe [OF assms(1-3)] strlcat_safe [OF assms] by blast

theorem string_copies_safe_witness:
  "(\<exists>m. port_strlcpy (replicate 6 NUL) ''package'' 4 = Some (m, 7) \<and> text_in m = ''pac'' \<and> terminated m \<and>
      length m = 6 \<and> drop 4 m = [NUL, NUL]) \<and>
    (\<exists>m. port_strlcat (''ab'' @ replicate 4 NUL) ''package'' 4 = Some (m, 9) \<and> length m = 6 \<and> drop 4 m = [NUL, NUL] \<and>
      ((2::nat) < 4 \<longrightarrow> text_in m = ''abp'' \<and> terminated m))"
proof -
  have n: "NUL \<notin> set ''package''" by (simp add: NUL_def)
  have o: "''ab'' = text_in (take 4 (''ab'' @ replicate 4 NUL))" by code_simp
  have p: "[] = text_in (take 4 (replicate 6 NUL))" by code_simp
  show ?thesis
    using string_copies_safe [of 4 "replicate 6 NUL" "''package''" "[]", OF _ _ n p]
      string_copies_safe [of 4 "''ab'' @ replicate 4 NUL" "''package''" "''ab''", OF _ _ n o] by (simp add: numeral_eq_Suc)
qed

section \<open>Search and numbers\<close>

fun tails :: "string \<Rightarrow> string list" where
  "tails [] = [[]]"
| "tails (c # s) = (c # s) # tails s"

lemma strncaseeq_Cons: "strncaseeq (c # s) (d # t) (Suc n) \<longleftrightarrow> tolower c = tolower d \<and> strncaseeq s t n"
  by (simp add: strncaseeq_def)

text \<open>
  The search that ignores case returns the first suffix that starts with the text searched for:
  the loop that compares the first character on its own misses none.
\<close>

theorem strcasestr_first:
  "port_strcasestr s needle = find (\<lambda>t. strncaseeq t needle (length needle)) (tails s)"
proof (cases needle)
  case Nil
  then show ?thesis by (cases s) (simp_all add: strncaseeq_def)
next
  case (Cons d t)
  have "strcasestr_loop (tolower d) t s = find (\<lambda>u. strncaseeq u (d # t) (Suc (length t))) (tails s)"
    by (induction s) (auto simp: strncaseeq_Cons, simp add: strncaseeq_def)
  then show ?thesis by (simp add: Cons)
qed

text \<open>
  A number is accepted exactly when it is what the whole text says and is in the range asked for; the
  errors tell which bound is violated. So a printed number reads back within its range only.
\<close>

theorem strtonum_format_d:
  assumes "LLONG_MIN \<le> n" "n \<le> LLONG_MAX"
  shows "port_strtonum (format_d n) minval maxval =
    (if maxval < minval then (0, Some (errval INVALID)) else if n < minval then (0, Some (errval TOOSMALL))
     else if maxval < n then (0, Some (errval TOOLARGE)) else (n, None))"
proof -
  have "format_d n \<noteq> []" by (simp add: format_d_def)
  then show ?thesis using assms strtoll_format_d [of n "[]"]
    by (auto simp: port_strtonum_def strtonum_check_def)
qed

lemma strtonum_bounds:
  assumes "port_strtonum s minval maxval = (n, None)"
  shows "minval \<le> n \<and> n \<le> maxval \<and> (\<exists>e. strtoll s = (n, e, []))"
  using assms by (auto simp: port_strtonum_def strtonum_check_def split: prod.splits if_splits)

end
