(* ===== verification/Query_Condition.thy ===== *)
theory Query_Condition
  imports C_String
begin

text \<open>
  The conditions of \<^verbatim>\<open>pkg query -e\<close> (\<open>format_sql_condition\<close> in \<^verbatim>\<open>src/query.c\<close>): a state machine that reads a
  condition and writes a clause of SQL. What it writes is well-formed SQL whatever it reads, with
  the text of the user inside of literals only, and it understands every condition of the grammar.
\<close>

section \<open>The state machine\<close>

datatype query_state = NONE | NEXT_IS_INT | OPERATOR_INT | INTEGER | NEXT_IS_STRING | OPERATOR_STRING | STRING
  | QUOTEDSTRING | SQUOTEDSTRING | POST_EXPR

text \<open>The columns: name, whether it holds strings, and whether it is in the local database only.\<close>

definition column :: "char \<Rightarrow> (string \<times> bool \<times> bool) option" where
  "column = map_of
     [(CHR ''n'', ''name'', True, False), (CHR ''o'', ''origin'', True, False), (CHR ''p'', ''prefix'', True, False),
      (CHR ''m'', ''maintainer'', True, False), (CHR ''c'', ''comment'', True, False), (CHR ''w'', ''www'', True, False),
      (CHR ''s'', ''flatsize'', False, False), (CHR ''a'', ''automatic'', False, True), (CHR ''q'', ''arch'', True, False),
      (CHR ''k'', ''locked'', False, True), (CHR ''M'', ''message'', True, True), (CHR ''t'', ''time'', False, True),
      (CHR ''e'', ''desc'', True, False), (CHR ''V'', ''vital'', False, True)]"

text \<open>The lists that can be counted: the rest of the subquery, and whether it is local only.\<close>

definition by_package :: "string \<Rightarrow> string" where
  "by_package table = table @ '' AS d WHERE d.package_id=p.id)''"

definition counted :: "char \<Rightarrow> (string \<times> bool) option" where
  "counted = map_of
     [(CHR ''d'', by_package ''deps'', False), (CHR ''r'', ''deps AS d WHERE d.origin=p.origin)'', False),
      (CHR ''C'', by_package ''pkg_categories'', False), (CHR ''F'', by_package ''files'', True),
      (CHR ''O'', by_package ''pkg_option'', False), (CHR ''D'', by_package ''pkg_directories'', True),
      (CHR ''L'', by_package ''pkg_licenses'', False), (CHR ''U'', by_package ''pkg_users'', True),
      (CHR ''G'', by_package ''pkg_groups'', True), (CHR ''B'', by_package ''pkg_shlibs_required'', False),
      (CHR ''b'', by_package ''pkg_shlibs_provided'', False), (CHR ''A'', by_package ''pkg_annotation'', False)]"

definition count_sql :: "char \<Rightarrow> string \<Rightarrow> string" where
  "count_sql q rest = ''(SELECT '' @ (if q = CHR ''#'' then ''COUNT(*)'' else ''COUNT(*) > 0'') @ '' FROM '' @ rest"

definition blank :: "char \<Rightarrow> bool" where
  "blank c \<longleftrightarrow> c = CHR '' '' \<or> c = CHR 9"

text \<open>
  One turn of the loop at the character \<open>c\<close>, with \<open>s\<close> behind it: the new state, the open brackets, what
  is written, and the rest of the condition. \<open>None\<close> is an error.
\<close>

type_synonym turn = "(query_state \<times> nat \<times> string \<times> string) option"

definition at_operand :: "bool \<Rightarrow> nat \<Rightarrow> char \<Rightarrow> string \<Rightarrow> turn" where
  "at_operand for_remote lvl c s =
     (if c = CHR ''%'' then
        (case column (deref s) of
           Some (name, str, loc) \<Rightarrow>
             if loc \<and> for_remote then None else Some (if str then OPERATOR_STRING else OPERATOR_INT, lvl, name, tl s)
         | None \<Rightarrow>
             if deref s = CHR ''#'' \<or> deref s = CHR ''?'' then
               (case counted (deref (tl s)) of
                  Some (rest, loc) \<Rightarrow>
                    if loc \<and> for_remote then None else Some (OPERATOR_INT, lvl, count_sql (deref s) rest, drop 2 s)
                | None \<Rightarrow> None)
             else None)
      else if c = CHR ''('' then Some (NONE, lvl + 1, [c], s)
      else if blank c then Some (NONE, lvl, [], s)
      else None)"

definition after_operand :: "nat \<Rightarrow> char \<Rightarrow> string \<Rightarrow> turn" where
  "after_operand lvl c s =
     (if c = CHR '')'' then (if lvl = 0 then None else Some (POST_EXPR, lvl - 1, [c], s))
      else if blank c then Some (POST_EXPR, lvl, [], s)
      else if c = CHR ''|'' then (if deref s = CHR ''|'' then Some (NONE, lvl, '' OR '', tl s) else None)
      else if c = CHR ''&'' then (if deref s = CHR ''&'' then Some (NONE, lvl, '' AND '', tl s) else None)
      else None)"

definition at_operator :: "query_state \<Rightarrow> nat \<Rightarrow> char \<Rightarrow> string \<Rightarrow> turn" where
  "at_operator st lvl c s =
     (let nxt = (if st = OPERATOR_STRING then NEXT_IS_STRING else NEXT_IS_INT);
          eq = (if deref s = CHR ''='' then ([c, CHR ''=''], tl s) else ([c], s))
      in if isspace c then Some (st, lvl, [], s)
         else if c = CHR ''~'' then (if st \<noteq> OPERATOR_STRING then None else Some (NEXT_IS_STRING, lvl, '' GLOB '', s))
         else if c = CHR ''>'' \<or> c = CHR ''<'' then
           (if st \<noteq> OPERATOR_INT then None else Some (NEXT_IS_INT, lvl, fst eq, snd eq))
         else if c = CHR ''='' then Some (nxt, lvl, fst eq, snd eq)
         else if c = CHR ''!'' then
           (if deref s = CHR ''='' then Some (nxt, lvl, ''!='', tl s)
            else if deref s = CHR ''~'' then Some (nxt, lvl, '' NOT GLOB '', tl s)
            else None)
         else None)"

text \<open>A string without quotes starts with the character itself, which is read again.\<close>

definition at_value :: "query_state \<Rightarrow> nat \<Rightarrow> char \<Rightarrow> string \<Rightarrow> turn" where
  "at_value st lvl c s =
     (if isspace c then Some (st, lvl, [], s)
      else if st = NEXT_IS_STRING then
        (if c = CHR 0x22 then Some (QUOTEDSTRING, lvl, [CHR 0x27], s)
         else if c = CHR 0x27 then Some (SQUOTEDSTRING, lvl, [CHR 0x27], s)
         else Some (STRING, lvl, [CHR 0x27], c # s))
      else if \<not> isdigit c then None
      else Some (INTEGER, lvl, [c], s))"

definition ends_string :: "query_state \<Rightarrow> char \<Rightarrow> bool" where
  "ends_string st c \<longleftrightarrow> (st = STRING \<and> isspace c) \<or> (st = QUOTEDSTRING \<and> c = CHR 0x22) \<or> (st = SQUOTEDSTRING \<and> c = CHR 0x27)"

definition sql_char :: "bool \<Rightarrow> char \<Rightarrow> string" where
  "sql_char for_remote c = (if c = CHR 0x27 \<or> (c = CHR ''%'' \<and> for_remote) then [c, c] else [c])"

definition in_string :: "bool \<Rightarrow> query_state \<Rightarrow> nat \<Rightarrow> char \<Rightarrow> string \<Rightarrow> turn" where
  "in_string for_remote st lvl c s =
     (if ends_string st c then Some (POST_EXPR, lvl, [CHR 0x27], s) else Some (st, lvl, sql_char for_remote c, s))"

fun condition_turn :: "bool \<Rightarrow> query_state \<Rightarrow> nat \<Rightarrow> char \<Rightarrow> string \<Rightarrow> turn" where
  "condition_turn r NONE lvl c s = at_operand r lvl c s"
| "condition_turn r POST_EXPR lvl c s = after_operand lvl c s"
| "condition_turn r OPERATOR_STRING lvl c s = at_operator OPERATOR_STRING lvl c s"
| "condition_turn r OPERATOR_INT lvl c s = at_operator OPERATOR_INT lvl c s"
| "condition_turn r NEXT_IS_STRING lvl c s = at_value NEXT_IS_STRING lvl c s"
| "condition_turn r NEXT_IS_INT lvl c s = at_value NEXT_IS_INT lvl c s"
| "condition_turn r INTEGER lvl c s = (if isdigit c then Some (INTEGER, lvl, [c], s) else Some (POST_EXPR, lvl, [], c # s))"
| "condition_turn r st lvl c s = in_string r st lvl c s"

text \<open>What is written at the end of the condition.\<close>

definition condition_end :: "query_state \<Rightarrow> nat \<Rightarrow> string option" where
  "condition_end st lvl =
     (let (st', out) = (if st = STRING then (POST_EXPR, [CHR 0x27]) else (st, []))
      in if st' \<noteq> POST_EXPR \<and> st' \<noteq> INTEGER then None else if lvl > 0 then None else Some out)"

text \<open>Two turns read no character; the state they lead to does.\<close>

definition reads_later :: "query_state \<Rightarrow> nat" where
  "reads_later st = (if st = NEXT_IS_STRING \<or> st = INTEGER then 1 else 0)"

lemma condition_turn_progress:
  "condition_turn r st lvl c s = Some (st', lvl', out, s') \<Longrightarrow>
    length s' < length (c # s) \<or> (length s' = length (c # s) \<and> reads_later st' < reads_later st)"
  by (cases st)
    (auto simp: at_operand_def after_operand_def at_operator_def at_value_def in_string_def reads_later_def Let_def
      le_imp_less_Suc less_Suc_eq_le split: if_splits option.splits)

function condition_loop :: "bool \<Rightarrow> query_state \<Rightarrow> nat \<Rightarrow> string \<Rightarrow> string option" where
  "condition_loop r st lvl [] = condition_end st lvl"
| "condition_loop r st lvl (c # s) =
     (case condition_turn r st lvl c s of
        None \<Rightarrow> None
      | Some (st', lvl', out, s') \<Rightarrow> map_option ((@) out) (condition_loop r st' lvl' s'))"
  by pat_completeness auto
termination
  by (relation "inv_image (less_than <*lex*> less_than) (\<lambda>(r, st, lvl, s). (length s, reads_later st))")
    (auto dest!: condition_turn_progress)

definition format_sql_condition :: "string \<Rightarrow> bool \<Rightarrow> string option" where
  "format_sql_condition str for_remote = map_option ((@) '' WHERE '') (condition_loop for_remote NONE 0 str)"

section \<open>Conditions and clauses\<close>

text \<open>The words of a condition, as the user writes them and as SQL.\<close>

datatype word_of_condition = Open | Close | Or | And | Column char | Counted char char | Operator string | Number string | Text string

definition string_operators :: "string list" where
  "string_operators = [''~'', ''='', ''=='', ''!='', ''!~'']"

definition integer_operators :: "string list" where
  "integer_operators = [''<'', ''<='', ''>'', ''>='', ''='', ''=='', ''!='', ''!~'']"

definition operator_sql :: "string \<Rightarrow> string" where
  "operator_sql op = (if op = ''~'' then '' GLOB '' else if op = ''!~'' then '' NOT GLOB '' else op)"

fun sql_of :: "bool \<Rightarrow> word_of_condition \<Rightarrow> string" where
  "sql_of r Open = ''(''"
| "sql_of r Close = '')''"
| "sql_of r Or = '' OR ''"
| "sql_of r And = '' AND ''"
| "sql_of r (Column c) = fst (the (column c))"
| "sql_of r (Counted q c) = count_sql q (fst (the (counted c)))"
| "sql_of r (Operator op) = operator_sql op"
| "sql_of r (Number ds) = ds"
| "sql_of r (Text t) = CHR 0x27 # concat (map (sql_char r) t) @ [CHR 0x27]"

fun source_of :: "word_of_condition \<Rightarrow> string" where
  "source_of Open = ''(''"
| "source_of Close = '')''"
| "source_of Or = ''||''"
| "source_of And = ''&&''"
| "source_of (Column c) = [CHR ''%'', c]"
| "source_of (Counted q c) = [CHR ''%'', q, c]"
| "source_of (Operator op) = op"
| "source_of (Number ds) = ds"
| "source_of (Text t) = CHR 0x22 # t @ [CHR 0x22]"

text \<open>
  The grammar: comparisons of a column or a count with a value of its type, with brackets, AND and OR
  between them. The number counts the open brackets.
\<close>

fun is_string_column :: "bool \<Rightarrow> word_of_condition \<Rightarrow> bool" where
  "is_string_column r (Column c) = (case column c of None \<Rightarrow> False | Some (name, str, loc) \<Rightarrow> str \<and> \<not> (loc \<and> r))"
| "is_string_column r w = False"

fun is_integer_column :: "bool \<Rightarrow> word_of_condition \<Rightarrow> bool" where
  "is_integer_column r (Column c) = (case column c of None \<Rightarrow> False | Some (name, str, loc) \<Rightarrow> \<not> str \<and> \<not> (loc \<and> r))"
| "is_integer_column r (Counted q c) =
     ((q = CHR ''#'' \<or> q = CHR ''?'') \<and> (case counted c of None \<Rightarrow> False | Some (rest, loc) \<Rightarrow> \<not> (loc \<and> r)))"
| "is_integer_column r w = False"

definition comparison :: "bool \<Rightarrow> word_of_condition \<Rightarrow> word_of_condition \<Rightarrow> word_of_condition \<Rightarrow> bool" where
  "comparison r col op val \<longleftrightarrow>
     (is_string_column r col \<and> op \<in> Operator ` set string_operators \<and> (\<exists>t. val = Text t)) \<or>
     (is_integer_column r col \<and> op \<in> Operator ` set integer_operators \<and>
        (\<exists>ds. val = Number ds \<and> ds \<noteq> [] \<and> (\<forall>d \<in> set ds. isdigit d)))"

inductive operand_of :: "bool \<Rightarrow> nat \<Rightarrow> word_of_condition list \<Rightarrow> bool"
  and rest_of :: "bool \<Rightarrow> nat \<Rightarrow> word_of_condition list \<Rightarrow> bool" for r where
  operand_open: "operand_of r (Suc n) ws \<Longrightarrow> operand_of r n (Open # ws)"
| operand_comparison: "comparison r col op val \<Longrightarrow> rest_of r n ws \<Longrightarrow> operand_of r n (col # op # val # ws)"
| rest_end: "rest_of r 0 []"
| rest_close: "rest_of r n ws \<Longrightarrow> rest_of r (Suc n) (Close # ws)"
| rest_or: "operand_of r n ws \<Longrightarrow> rest_of r n (Or # ws)"
| rest_and: "operand_of r n ws \<Longrightarrow> rest_of r n (And # ws)"

section \<open>What is written is well-formed\<close>

definition sql_words :: "bool \<Rightarrow> word_of_condition list \<Rightarrow> string" where
  "sql_words r ws = concat (map (sql_of r) ws)"

lemma sql_words_simps [simp]: "sql_words r [] = []" "sql_words r (w # ws) = sql_of r w @ sql_words r ws"
  by (simp_all add: sql_words_def)

text \<open>What each state still writes.\<close>

fun completes :: "bool \<Rightarrow> query_state \<Rightarrow> nat \<Rightarrow> string \<Rightarrow> bool" where
  "completes r NONE n out = (\<exists>ws. out = sql_words r ws \<and> operand_of r n ws)"
| "completes r POST_EXPR n out = (\<exists>ws. out = sql_words r ws \<and> rest_of r n ws)"
| "completes r OPERATOR_STRING n out =
     (\<exists>op t ws. out = operator_sql op @ sql_of r (Text t) @ sql_words r ws \<and> op \<in> set string_operators \<and> rest_of r n ws)"
| "completes r OPERATOR_INT n out =
     (\<exists>op ds ws. out = operator_sql op @ ds @ sql_words r ws \<and> op \<in> set integer_operators \<and> ds \<noteq> [] \<and> (\<forall>d \<in> set ds. isdigit d) \<and> rest_of r n ws)"
| "completes r NEXT_IS_STRING n out = (\<exists>t ws. out = sql_of r (Text t) @ sql_words r ws \<and> rest_of r n ws)"
| "completes r NEXT_IS_INT n out =
     (\<exists>ds ws. out = ds @ sql_words r ws \<and> ds \<noteq> [] \<and> (\<forall>d \<in> set ds. isdigit d) \<and> rest_of r n ws)"
| "completes r INTEGER n out = (\<exists>ds ws. out = ds @ sql_words r ws \<and> (\<forall>d \<in> set ds. isdigit d) \<and> rest_of r n ws)"
| "completes r st n out =
     (\<exists>t ws. out = concat (map (sql_char r) t) @ CHR 0x27 # sql_words r ws \<and> rest_of r n ws)"

lemma completes_end: "condition_end st n = Some out \<Longrightarrow> completes r st n out"
  by (cases st) (auto simp: condition_end_def split: if_splits
      intro: rest_end exI [of _ "[]"] intro!: exI [of "\<lambda>t. \<exists>ws. _ t ws" "[]"])

lemma completes_operand:
  assumes "at_operand r n c s = Some (st', n', out, s')" "completes r st' n' rest"
  shows "completes r NONE n (out @ rest)"
proof -
  have col: "completes r NONE n (sql_of r col @ rest)"
    if col: "is_string_column r col" and val: "completes r OPERATOR_STRING n rest" for col
  proof -
    obtain op t ws where o: "rest = operator_sql op @ sql_of r (Text t) @ sql_words r ws" "op \<in> set string_operators" "rest_of r n ws"
      using val by auto
    then have "operand_of r n (col # Operator op # Text t # ws)"
      using col by (intro operand_comparison) (auto simp: comparison_def)
    then show ?thesis using o by (auto intro!: exI [of _ "col # Operator op # Text t # ws"])
  qed
  have int: "completes r NONE n (sql_of r col @ rest)"
    if col: "is_integer_column r col" and val: "completes r OPERATOR_INT n rest" for col
  proof -
    obtain op ds ws where o: "rest = operator_sql op @ ds @ sql_words r ws" "op \<in> set integer_operators"
        "ds \<noteq> []" "\<forall>d \<in> set ds. isdigit d" "rest_of r n ws"
      using val by auto
    then have "operand_of r n (col # Operator op # Number ds # ws)"
      using col by (intro operand_comparison) (auto simp: comparison_def)
    then show ?thesis using o by (auto intro!: exI [of _ "col # Operator op # Number ds # ws"])
  qed
  consider (column) name str loc where "column (deref s) = Some (name, str, loc)" "c = CHR ''%''" "\<not> (loc \<and> r)"
      "st' = (if str then OPERATOR_STRING else OPERATOR_INT)" "n' = n" "out = name"
    | (counted) sub loc where "column (deref s) = None" "deref s = CHR ''#'' \<or> deref s = CHR ''?''" "c = CHR ''%''"
      "counted (deref (tl s)) = Some (sub, loc)" "\<not> (loc \<and> r)" "st' = OPERATOR_INT" "n' = n" "out = count_sql (deref s) sub"
    | (bracket) "c = CHR ''(''" "st' = NONE" "n' = n + 1" "out = ''(''"
    | (blank) "st' = NONE" "n' = n" "out = []"
    using assms(1) by (auto simp: at_operand_def split: if_splits option.splits prod.splits)
  then show ?thesis
  proof cases
    case column
    then show ?thesis using col [of "Column (deref s)"] int [of "Column (deref s)"] assms(2) by (cases str) auto
  next
    case counted
    then show ?thesis using int [of "Counted (deref s) (deref (tl s))"] assms(2) by auto
  next
    case bracket
    then obtain ws where "rest = sql_words r ws" "operand_of r (Suc n) ws" using assms(2) by auto
    then show ?thesis using bracket by (auto intro!: exI [of _ "Open # ws"] operand_open)
  next
    case blank
    then show ?thesis using assms(2) by simp
  qed
qed

lemma completes_after:
  assumes "after_operand n c s = Some (st', n', out, s')" "completes r st' n' rest"
  shows "completes r POST_EXPR n (out @ rest)"
proof -
  consider (close) "st' = POST_EXPR" "n = Suc n'" "out = '')''" | (blank) "st' = POST_EXPR" "n' = n" "out = []"
    | (or) "st' = NONE" "n' = n" "out = '' OR ''" | (and_) "st' = NONE" "n' = n" "out = '' AND ''"
    using assms(1) by (cases n) (auto simp: after_operand_def split: if_splits)
  then show ?thesis
  proof cases
    case close
    then obtain ws where "rest = sql_words r ws" "rest_of r n' ws" using assms(2) by auto
    then show ?thesis using close by (auto intro!: exI [of _ "Close # ws"] rest_close)
  next
    case or
    then obtain ws where "rest = sql_words r ws" "operand_of r n ws" using assms(2) by auto
    then show ?thesis using or by (auto intro!: exI [of _ "Or # ws"] rest_or)
  next
    case and_
    then obtain ws where "rest = sql_words r ws" "operand_of r n ws" using assms(2) by auto
    then show ?thesis using and_ by (auto intro!: exI [of _ "And # ws"] rest_and)
  qed (use assms(2) in simp)
qed

lemma completes_operator:
  assumes "at_operator st n c s = Some (st', n', out, s')" "completes r st' n' rest" "st = OPERATOR_STRING \<or> st = OPERATOR_INT"
  shows "completes r st n (out @ rest)"
proof -
  have str: "completes r OPERATOR_STRING n (operator_sql op @ rest)"
    if "op \<in> set string_operators" "completes r NEXT_IS_STRING n rest" for op
    using that by (auto simp del: sql_of.simps)
  have int: "completes r OPERATOR_INT n (operator_sql op @ rest)"
    if "op \<in> set integer_operators" "completes r NEXT_IS_INT n rest" for op
    using that by auto
  have "st' = st \<and> n' = n \<and> out = [] \<or>
      (st = OPERATOR_STRING \<and> st' = NEXT_IS_STRING \<and> n' = n \<and> out \<in> operator_sql ` set string_operators) \<or>
      (st = OPERATOR_INT \<and> st' = NEXT_IS_INT \<and> n' = n \<and> out \<in> operator_sql ` set integer_operators)"
    using assms(1,3) by (auto simp: at_operator_def Let_def string_operators_def integer_operators_def operator_sql_def split: if_splits)
  then show ?thesis using str int assms(2) by auto
qed

lemma completes_value:
  assumes "at_value st n c s = Some (st', n', out, s')" "completes r st' n' rest" "st = NEXT_IS_STRING \<or> st = NEXT_IS_INT"
  shows "completes r st n (out @ rest)"
proof -
  consider (blank) "st' = st" "n' = n" "out = []"
    | (str) "st = NEXT_IS_STRING" "st' \<in> {STRING, QUOTEDSTRING, SQUOTEDSTRING}" "n' = n" "out = [CHR 0x27]"
    | (int) "st = NEXT_IS_INT" "st' = INTEGER" "n' = n" "out = [c]" "isdigit c"
    using assms(1,3) by (auto simp: at_value_def split: if_splits)
  then show ?thesis
  proof cases
    case str
    then obtain t ws where "rest = concat (map (sql_char r) t) @ CHR 0x27 # sql_words r ws" "rest_of r n ws"
      using assms(2) by auto
    then show ?thesis using str by (auto intro!: exI [of _ t])
  next
    case int
    then obtain ds ws where "rest = ds @ sql_words r ws" "\<forall>d \<in> set ds. isdigit d" "rest_of r n ws"
      using assms(2) by auto
    then show ?thesis using int by (auto intro!: exI [of _ "c # ds"])
  qed (use assms(2) in simp)
qed

lemma completes_in_string:
  "st \<in> {STRING, QUOTEDSTRING, SQUOTEDSTRING} \<Longrightarrow> completes r st n out =
    (\<exists>t ws. out = concat (map (sql_char r) t) @ CHR 0x27 # sql_words r ws \<and> rest_of r n ws)"
  by (elim insertE emptyE) (simp_all only: completes.simps)

lemma completes_string:
  assumes "in_string r st n c s = Some (st', n', out, s')" "completes r st' n' rest" "st \<in> {STRING, QUOTEDSTRING, SQUOTEDSTRING}"
  shows "completes r st n (out @ rest)"
proof (cases "ends_string st c")
  case True
  then obtain ws where "rest = sql_words r ws" "rest_of r n ws" "out = [CHR 0x27]" using assms by (auto simp: in_string_def)
  then have "out @ rest = concat (map (sql_char r) []) @ CHR 0x27 # sql_words r ws \<and> rest_of r n ws" by simp
  then have "\<exists>t ws. out @ rest = concat (map (sql_char r) t) @ CHR 0x27 # sql_words r ws \<and> rest_of r n ws" by blast
  then show ?thesis using completes_in_string [OF assms(3)] by blast
next
  case False
  then have st: "st' = st" "n' = n" "out = sql_char r c" using assms(1) by (auto simp: in_string_def)
  then obtain t ws where "rest = concat (map (sql_char r) t) @ CHR 0x27 # sql_words r ws" "rest_of r n ws"
    using assms(2,3) by auto
  then have "out @ rest = concat (map (sql_char r) (c # t)) @ CHR 0x27 # sql_words r ws \<and> rest_of r n ws" using st by simp
  then have "\<exists>t ws. out @ rest = concat (map (sql_char r) t) @ CHR 0x27 # sql_words r ws \<and> rest_of r n ws" by blast
  then show ?thesis using completes_in_string [OF assms(3)] by blast
qed

lemma completes_turn:
  assumes "condition_turn r st n c s = Some (st', n', out, s')" "completes r st' n' rest"
  shows "completes r st n (out @ rest)"
proof (cases st)
  case INTEGER
  show ?thesis
  proof (cases "isdigit c")
    case True
    then obtain ds ws where "rest = ds @ sql_words r ws" "\<forall>d \<in> set ds. isdigit d" "rest_of r n ws" "out = [c]"
      using assms INTEGER by auto
    then show ?thesis using True INTEGER by (auto intro!: exI [of _ "c # ds"])
  next
    case False
    then obtain ws where "rest = sql_words r ws" "rest_of r n ws" "out = []" using assms INTEGER by auto
    then have "out @ rest = [] @ sql_words r ws \<and> (\<forall>d \<in> set []. isdigit d) \<and> rest_of r n ws" by simp
    then show ?thesis unfolding INTEGER completes.simps by blast
  qed
next
  case NONE
  then show ?thesis using assms completes_operand by simp
next
  case POST_EXPR
  then show ?thesis using assms completes_after by simp
next
  case OPERATOR_STRING
  then show ?thesis using assms completes_operator [of OPERATOR_STRING n c s st' n' out s' r rest] by (simp del: completes.simps)
next
  case OPERATOR_INT
  then show ?thesis using assms completes_operator [of OPERATOR_INT n c s st' n' out s' r rest] by (simp del: completes.simps)
next
  case NEXT_IS_STRING
  then show ?thesis using assms completes_value [of NEXT_IS_STRING n c s st' n' out s' r rest] by (simp del: completes.simps)
next
  case NEXT_IS_INT
  then show ?thesis using assms completes_value [of NEXT_IS_INT n c s st' n' out s' r rest] by (simp del: completes.simps)
next
  case STRING
  then show ?thesis using assms completes_string [of r STRING n c s st' n' out s' rest] by (simp del: completes.simps)
next
  case QUOTEDSTRING
  then show ?thesis using assms completes_string [of r QUOTEDSTRING n c s st' n' out s' rest] by (simp del: completes.simps)
next
  case SQUOTEDSTRING
  then show ?thesis using assms completes_string [of r SQUOTEDSTRING n c s st' n' out s' rest] by (simp del: completes.simps)
qed

lemma completes_loop: "condition_loop r st n s = Some out \<Longrightarrow> completes r st n out"
proof (induction r st n s arbitrary: out rule: condition_loop.induct)
  case (1 r st n)
  then show ?case using completes_end by simp
next
  case (2 r st n c s)
  then obtain st' n' o' s' rest where t: "condition_turn r st n c s = Some (st', n', o', s')"
    "condition_loop r st' n' s' = Some rest" "out = o' @ rest" by (auto split: option.splits)
  have "completes r st' n' rest" using "2.IH" t by blast
  then show ?case using completes_turn [OF t(1)] t(3) by simp
qed

text \<open>
  How SQL reads a literal behind its opening quote: a quote is written as two. A remote clause is a
  format, too, in which a percent sign is written as two.
\<close>

fun read_literal :: "string \<Rightarrow> (string \<times> string) option" where
  "read_literal [] = None"
| "read_literal (c # s) =
     (if c \<noteq> CHR 0x27 then map_option (\<lambda>(t, r). (c # t, r)) (read_literal s)
      else if s \<noteq> [] \<and> hd s = CHR 0x27 then map_option (\<lambda>(t, r). (c # t, r)) (read_literal (tl s))
      else Some ([], s))"

definition in_format :: "bool \<Rightarrow> string \<Rightarrow> string" where
  "in_format r t = concat (map (\<lambda>c. if c = CHR ''%'' \<and> r then [c, c] else [c]) t)"

lemma in_format_simps [simp]: "in_format r [] = []" "in_format r (c # t) = (if c = CHR ''%'' \<and> r then [c, c] else [c]) @ in_format r t"
  by (simp_all add: in_format_def)

lemma read_literal_text:
  "(rest \<noteq> [] \<longrightarrow> hd rest \<noteq> CHR 0x27) \<Longrightarrow>
   read_literal (concat (map (sql_char r) t) @ CHR 0x27 # rest) = Some (in_format r t, rest)"
proof (induction t)
  case (Cons c t)
  then show ?case by (cases r) (auto simp: sql_char_def)
qed (cases rest, simp_all)

text \<open>C29. Whatever condition the user gives, what is handed to SQL is a well-formed clause: comparisons of
  known columns with values of their type, with balanced brackets. All text of the user is inside of
  literals, which SQL reads as exactly that text, so no condition can smuggle in SQL of its own.
\<close>

theorem condition_no_injection:
  assumes "format_sql_condition str for_remote = Some sql"
  shows "\<exists>ws. sql = '' WHERE '' @ sql_words for_remote ws \<and> operand_of for_remote 0 ws \<and>
    (\<forall>t rest. Text t \<in> set ws \<and> (rest \<noteq> [] \<longrightarrow> hd rest \<noteq> CHR 0x27) \<longrightarrow>
       read_literal (tl (sql_of for_remote (Text t)) @ rest) = Some (in_format for_remote t, rest))"
proof -
  obtain out where "condition_loop for_remote NONE 0 str = Some out" "sql = '' WHERE '' @ out"
    using assms by (auto simp: format_sql_condition_def)
  then show ?thesis using completes_loop [of for_remote NONE 0 str out] read_literal_text by fastforce
qed

theorem condition_no_injection_witness:
  "\<exists>ws. '' WHERE name='' @ [CHR 0x27] @ ''x'' @ [CHR 0x27, CHR 0x27] @ '';DROP'' @ [CHR 0x27] = '' WHERE '' @ sql_words False ws \<and>
     operand_of False 0 ws \<and>
    (\<forall>t rest. Text t \<in> set ws \<and> (rest \<noteq> [] \<longrightarrow> hd rest \<noteq> CHR 0x27) \<longrightarrow>
       read_literal (tl (sql_of False (Text t)) @ rest) = Some (in_format False t, rest))"
proof -
  have "format_sql_condition (''%n=x'' @ [CHR 0x27] @ '';DROP'') False =
      Some ('' WHERE name='' @ [CHR 0x27] @ ''x'' @ [CHR 0x27, CHR 0x27] @ '';DROP'' @ [CHR 0x27])" by code_simp
  then show ?thesis by (rule condition_no_injection)
qed

section \<open>Every condition is understood\<close>

definition source_words :: "word_of_condition list \<Rightarrow> string" where
  "source_words ws = concat (map source_of ws)"

lemma source_words_simps [simp]: "source_words [] = []" "source_words (w # ws) = source_of w @ source_words ws"
  by (simp_all add: source_words_def)

lemma map_append:
  "map_option ((@) s) (map_option ((@) t) x) = map_option ((@) (s @ t)) x" "map_option ((@) []) x = x"
  by (cases x; simp)+

lemma loop_operator:
  "op \<in> set string_operators \<Longrightarrow> c \<noteq> CHR ''='' \<Longrightarrow>
    condition_loop r OPERATOR_STRING n (op @ c # s) = map_option ((@) (operator_sql op)) (condition_loop r NEXT_IS_STRING n (c # s))"
  "op \<in> set integer_operators \<Longrightarrow> c \<noteq> CHR ''='' \<Longrightarrow>
    condition_loop r OPERATOR_INT n (op @ c # s) = map_option ((@) (operator_sql op)) (condition_loop r NEXT_IS_INT n (c # s))"
  by (auto simp: string_operators_def integer_operators_def at_operator_def operator_sql_def isspace_def code_def)

lemma loop_text:
  "CHR 0x22 \<notin> set t \<Longrightarrow> condition_loop r QUOTEDSTRING n (t @ CHR 0x22 # s) =
    map_option ((@) (concat (map (sql_char r) t) @ [CHR 0x27])) (condition_loop r POST_EXPR n s)"
proof (induction t)
  case (Cons c t)
  then have "c \<noteq> CHR 0x22" by auto
  then show ?case using Cons by (cases "condition_loop r POST_EXPR n s") (simp_all add: in_string_def ends_string_def)
qed (simp add: in_string_def ends_string_def)

lemma loop_digits:
  "\<forall>d \<in> set ds. isdigit d \<Longrightarrow> \<not> isdigit (deref s) \<Longrightarrow>
    condition_loop r INTEGER n (ds @ s) = map_option ((@) ds) (condition_loop r POST_EXPR n s)"
proof (induction ds)
  case Nil
  show ?case
  proof (cases s)
    case (Cons c t)
    then have "condition_loop r INTEGER n s = map_option ((@) []) (condition_loop r POST_EXPR n s)"
      using Nil.prems(2) by (simp del: condition_loop.simps(2) add: condition_loop.simps(2) [of r INTEGER])
    then show ?thesis by (cases "condition_loop r POST_EXPR n s") simp_all
  qed (simp add: condition_end_def)
next
  case (Cons d ds)
  then show ?case by (cases "condition_loop r POST_EXPR n s") simp_all
qed

lemma rest_not_digit: "rest_of r n ws \<Longrightarrow> \<not> isdigit (deref (source_words ws))"
  by (erule rest_of.cases) (simp_all add: isdigit_def code_def NUL_def)

lemma loop_string_column:
  assumes "is_string_column r col"
  shows "condition_loop r NONE n (source_of col @ s) = map_option ((@) (sql_of r col)) (condition_loop r OPERATOR_STRING n s)"
proof (cases col)
  case (Column c)
  then obtain name loc where "column c = Some (name, True, loc)" "\<not> (loc \<and> r)" using assms by (auto split: option.splits)
  then show ?thesis using Column by (cases loc; cases r) (simp_all add: at_operand_def)
qed (use assms in simp_all)

lemma loop_integer_column:
  assumes "is_integer_column r col"
  shows "condition_loop r NONE n (source_of col @ s) = map_option ((@) (sql_of r col)) (condition_loop r OPERATOR_INT n s)"
proof (cases col)
  case (Column c)
  then obtain name loc where "column c = Some (name, False, loc)" "\<not> (loc \<and> r)" using assms by (auto split: option.splits)
  then show ?thesis using Column by (cases loc; cases r) (simp_all add: at_operand_def)
next
  case (Counted q c)
  then obtain sub loc where "counted c = Some (sub, loc)" "\<not> (loc \<and> r)" "q = CHR ''#'' \<or> q = CHR ''?''"
    using assms by (auto split: option.splits)
  note c = this
  have none: "column (CHR ''#'') = None" "column (CHR ''?'') = None" by (simp_all add: column_def)
  have "at_operand r n (CHR ''%'') (q # [c] @ s) = Some (OPERATOR_INT, n, count_sql q sub, s)"
    using c(3)
  proof
    assume q: "q = CHR ''#''"
    show ?thesis using c(1,2) none by (simp add: at_operand_def q)
  next
    assume q: "q = CHR ''?''"
    show ?thesis using c(1,2) none by (simp add: at_operand_def q)
  qed
  then show ?thesis using Counted c(1) by simp
qed (use assms in simp_all)

definition quotable :: "word_of_condition list \<Rightarrow> bool" where
  "quotable ws \<longleftrightarrow> (\<forall>t. Text t \<in> set ws \<longrightarrow> CHR 0x22 \<notin> set t)"

lemma loop_words:
  "operand_of r n ws \<Longrightarrow> quotable ws \<Longrightarrow> condition_loop r NONE n (source_words ws) = Some (sql_words r ws)"
  "rest_of r n ws \<Longrightarrow> quotable ws \<Longrightarrow> condition_loop r POST_EXPR n (source_words ws) = Some (sql_words r ws)"
proof (induction rule: operand_of_rest_of.inducts)
  case (operand_open n ws)
  then show ?case by (simp add: at_operand_def quotable_def)
next
  case (operand_comparison col op val n ws)
  have q: "quotable ws" using operand_comparison.prems by (simp add: quotable_def)
  have cmp: "comparison r col op val" and more: "rest_of r n ws"
    and rest: "condition_loop r POST_EXPR n (source_words ws) = Some (sql_words r ws)"
    using operand_comparison q by blast+
  from cmp consider
    (str) o' t where "is_string_column r col" "op = Operator o'" "o' \<in> set string_operators" "val = Text t"
    | (int) o' d ds where "is_integer_column r col" "op = Operator o'" "o' \<in> set integer_operators" "val = Number (d # ds)"
        "\<forall>d \<in> set (d # ds). isdigit d"
    unfolding comparison_def
  proof (elim disjE conjE exE imageE)
    fix o' t assume "is_string_column r col" "op = Operator o'" "o' \<in> set string_operators" "val = Text t"
    then show thesis by (rule str)
  next
    fix o' ds assume "is_integer_column r col" "op = Operator o'" "o' \<in> set integer_operators" "val = Number ds" "ds \<noteq> []"
      "\<forall>d \<in> set ds. isdigit d"
    then show thesis using int by (cases ds) simp_all
  qed
  then show ?case
  proof cases
    case str
    then have t: "CHR 0x22 \<notin> set t" using operand_comparison.prems by (simp add: quotable_def)
    have "condition_loop r NEXT_IS_STRING n (CHR 0x22 # t @ CHR 0x22 # source_words ws) =
        Some (sql_of r (Text t) @ sql_words r ws)"
      using loop_text [OF t] rest by (simp add: at_value_def isspace_def code_def)
    then show ?thesis using str loop_string_column loop_operator(1) by simp
  next
    case int
    then have d: "d \<noteq> CHR ''=''" "\<not> isspace d" by (auto simp: isdigit_def isspace_def code_def)
    have "condition_loop r NEXT_IS_INT n (d # ds @ source_words ws) = Some (d # ds @ sql_words r ws)"
      using loop_digits [of ds "source_words ws" r n] rest rest_not_digit [OF more] int d
      by (simp add: at_value_def)
    then show ?thesis using int d loop_integer_column loop_operator(2) by simp
  qed
next
  case rest_end
  then show ?case by (simp add: condition_end_def)
next
  case (rest_close n ws)
  then show ?case by (simp add: after_operand_def quotable_def)
next
  case (rest_or n ws)
  then show ?case by (simp add: after_operand_def quotable_def blank_def)
next
  case (rest_and n ws)
  then show ?case by (simp add: after_operand_def quotable_def blank_def)
qed

text \<open>C30. Every condition of the grammar, written with its strings in double quotes, is accepted and
  translated word by word.
\<close>

theorem condition_translated:
  assumes "operand_of for_remote 0 ws" "\<forall>t. Text t \<in> set ws \<longrightarrow> CHR 0x22 \<notin> set t"
  shows "format_sql_condition (source_words ws) for_remote = Some ('' WHERE '' @ sql_words for_remote ws)"
  using loop_words(1) [OF assms(1)] assms(2) by (simp add: format_sql_condition_def quotable_def)

theorem condition_translated_witness:
  "format_sql_condition ''(%n~\"z*\"||%s>=100)&&%?d=1'' False =
   Some '' WHERE (name GLOB 'z*' OR flatsize>=100) AND (SELECT COUNT(*) > 0 FROM deps AS d WHERE d.package_id=p.id)=1''"
proof -
  let ?ws = "[Open, Column (CHR ''n''), Operator ''~'', Text ''z*'', Or, Column (CHR ''s''), Operator ''>='', Number ''100'', Close,
    And, Counted (CHR ''?'') (CHR ''d''), Operator ''='', Number ''1'']"
  have "operand_of False 0 ?ws"
    by (intro operand_open operand_comparison rest_or rest_close rest_and rest_end)
      (simp_all add: comparison_def column_def counted_def string_operators_def integer_operators_def isdigit_def code_def)
  from condition_translated [OF this] show ?thesis
    by (simp add: column_def counted_def operator_sql_def sql_char_def count_sql_def by_package_def)
qed

text \<open>An integer may be tested with a pattern, which the operator \<^verbatim>\<open>~\<close> refuses.\<close>

lemma integer_not_glob: "format_sql_condition ''%s!~5'' False = Some '' WHERE flatsize NOT GLOB 5''"
  "format_sql_condition ''%s~5'' False = None"
  by code_simp+

end
