(* ===== verification/Printf_Facts.thy ===== *)
theory Printf_Facts
  imports Pkg_Printf
begin

text \<open>
  Facts about printing packages: each turn of the loops shortens the format, unless the escape is
  unknown; what escapes and list formats print.
\<close>

section \<open>Progress\<close>

lemma field_modifier_length: "field_modifier f p = (f', p') \<Longrightarrow> length f' \<le> length f"
  by (induction f p rule: field_modifier.induct) (auto split: if_splits)

lemma field_width_length: "field_width f p = Some (f', p') \<Longrightarrow> length f' \<le> length f"
  by (induction f p rule: field_width.induct) (auto simp: Let_def split: if_splits)

lemma find_code_length: "find_code es i f ctx = Some (f', c) \<Longrightarrow> length f' \<le> length f"
  by (induction es i f ctx rule: find_code.induct) (auto split: if_splits)

lemma trailer_text_length: "trailer_text st f = (t, Some (c, r)) \<Longrightarrow> length r \<le> length f"
proof (induction f arbitrary: t)
  case (Cons a f)
  then show ?case by (cases "trailer_text st f") (auto split: if_splits)
qed simp

lemma format_trailer_length: "format_trailer f p = (f', p') \<Longrightarrow> length f' \<le> length f"
  by (auto simp: format_trailer_def Let_def split: if_splits prod.splits option.splits dest!: trailer_text_length)

lemma parse_format_length: "parse_format f ctx p = Some (f', p') \<Longrightarrow> length f' \<le> length (tl f)"
  by (auto simp: parse_format_def format_code_def split: prod.splits option.splits if_splits
      dest!: field_modifier_length field_width_length find_code_length format_trailer_length)

lemma process_format_trailer_length:
  "process_format_trailer tm it buf p f v d cnt ctx = Some (buf', f') \<Longrightarrow> length f' \<le> length (tl f)"
  by (auto simp: process_format_trailer_def Let_def split: option.splits prod.splits if_splits dest: parse_format_length)

lemma oct_value_length: "oct_value n val f = (val', f') \<Longrightarrow> length f' \<le> length f"
  by (induction n val f rule: oct_value.induct) (force split: if_splits)+

lemma process_escape_length: "process_escape f = (t, f') \<Longrightarrow> length f' \<le> length (tl f)"
  by (auto simp: process_escape_def maybe_read_hex_byte_def read_oct_byte_def Let_def
      split: if_splits prod.splits dest!: oct_value_length)

text \<open>So the loop over the format of an item ends without the test of progress.\<close>

lemma iterate_item_Nil: "iterate_item tm it buf v [] d cnt ctx = Some buf"
  by (subst iterate_item.simps) simp

lemma iterate_item_percent:
  "iterate_item tm it buf v (CHR ''%'' # f) d cnt ctx =
     (case process_format_trailer tm it buf new_percent_esc (CHR ''%'' # f) v d cnt ctx of
        None \<Rightarrow> None
      | Some (buf', f') \<Rightarrow> iterate_item tm it buf' v f' d cnt ctx)"
proof (cases "process_format_trailer tm it buf new_percent_esc (CHR ''%'' # f) v d cnt ctx")
  case None
  then show ?thesis by (subst iterate_item.simps) simp
next
  case (Some r)
  obtain buf' f' where r: "r = (buf', f')" by (cases r)
  have "length f' \<le> length f" using process_format_trailer_length Some r by fastforce
  then show ?thesis using Some r by (subst iterate_item.simps) simp
qed

lemma iterate_item_escape:
  "iterate_item tm it buf v (CHR 0x5C # f) d cnt ctx =
     (case process_escape (CHR 0x5C # f) of (t, f') \<Rightarrow> iterate_item tm it (buf @ t) v f' d cnt ctx)"
proof -
  obtain t f' where r: "process_escape (CHR 0x5C # f) = (t, f')" by fastforce
  have "length f' \<le> length f" using process_escape_length [OF r] by simp
  then show ?thesis using r by (subst iterate_item.simps) simp
qed

lemma iterate_item_char:
  "c \<noteq> CHR ''%'' \<Longrightarrow> c \<noteq> CHR 0x5C \<Longrightarrow>
    iterate_item tm it buf v (c # f) d cnt ctx = iterate_item tm it (buf @ [c]) v f d cnt ctx"
  by (subst iterate_item.simps) simp

lemmas iterate_item_simps = iterate_item_Nil iterate_item_percent iterate_item_escape iterate_item_char

lemma clear_percent_esc: "clear_percent_esc p = new_percent_esc"
  by (simp add: clear_percent_esc_def new_percent_esc_def)

section \<open>Formats for printf\<close>

text \<open>The buffer of 16 bytes is enough.\<close>

lemma gen_format_fits:
  "length tail \<le> 3 \<Longrightarrow> \<exists>fl. gen_format 16 p tail = Some (CHR ''%'' # fl @ CHR ''*'' # tail) \<and> length fl \<le> 5 \<and>
    set fl \<subseteq> set ''#-0+ '' \<union> {CHR 0x27}"
  by (intro exI [of _ "char_if (pe_alt2 p) CHR ''#'' @ char_if (pe_left p) CHR ''-'' @ char_if (pe_zero p \<and> \<not> pe_left p) CHR ''0'' @
      char_if (pe_plus p) CHR ''+'' @ char_if (pe_space p \<and> \<not> pe_plus p) CHR '' '' @ char_if (pe_thousands p) CHR 0x27"])
    (auto simp: gen_format_def Let_def port_strlcat_text_def char_if_def)

lemma directive_gen_format:
  assumes "length tail \<le> 3"
  obtains fm fl where "gen_format 16 p tail = Some fm" "directive fm = Some (fl, tail)"
    "fl = char_if (pe_alt2 p) CHR ''#'' @ char_if (pe_left p) CHR ''-'' @ char_if (pe_zero p \<and> \<not> pe_left p) CHR ''0'' @
      char_if (pe_plus p) CHR ''+'' @ char_if (pe_space p \<and> \<not> pe_plus p) CHR '' '' @ char_if (pe_thousands p) CHR 0x27"
proof
  let ?fl = "char_if (pe_alt2 p) CHR ''#'' @ char_if (pe_left p) CHR ''-'' @ char_if (pe_zero p \<and> \<not> pe_left p) CHR ''0'' @
      char_if (pe_plus p) CHR ''+'' @ char_if (pe_space p \<and> \<not> pe_plus p) CHR '' '' @ char_if (pe_thousands p) CHR 0x27"
  show "gen_format 16 p tail = Some (CHR ''%'' # ?fl @ CHR ''*'' # tail)"
    using assms by (auto simp: gen_format_def Let_def port_strlcat_text_def char_if_def)
  show "directive (CHR ''%'' # ?fl @ CHR ''*'' # tail) = Some (?fl, tail)"
    by (auto simp: directive_def Let_def char_if_def)
qed rule

lemma string_val_text:
  "string_val buf s p = Some (buf @ (if pe_left p then percent_s s @ blanks (pe_width p) (percent_s s)
     else blanks (pe_width p) (percent_s s) @ percent_s s), True)"
proof -
  let ?p = "p\<lparr>pe_alt1 := False, pe_alt2 := False, pe_plus := False, pe_space := False, pe_zero := False, pe_thousands := False\<rparr>"
  obtain fm fl where "gen_format 16 ?p ''s'' = Some fm" "directive fm = Some (fl, ''s'')" "fl = char_if (pe_left p) CHR ''-''"
    using directive_gen_format [of "''s''" ?p] by (auto simp: char_if_def)
  then show ?thesis by (simp add: string_val_def put_formatted_def printf_s_def pad_def char_if_def)
qed

lemma blanks_0 [simp]: "blanks 0 s = []"
  by (simp add: blanks_def)

section \<open>Literal text\<close>

definition quote_format :: "string \<Rightarrow> string" where
  "quote_format s = concat (map (\<lambda>c. if c = CHR ''%'' then ''%%'' else if c = CHR 0x5C then [CHR 0x5C, CHR 0x5C] else [c]) s)"

lemma find_code_skip:
  "f \<noteq> [] \<Longrightarrow> \<forall>e \<in> set es. fmt_main e \<noteq> hd f \<Longrightarrow> find_code (es @ fs) i f ctx = find_code fs (i + length es) f ctx"
  by (induction es arbitrary: i) (auto simp: neq_Nil_conv)

lemma nth_percent: "fmt ! 69 = escape_entry (CHR ''%'') NUL False False PP_ALL format_literal_percent"
  by (simp add: fmt_def)

lemma nth_unknown: "fmt ! 70 = escape_entry NUL NUL False False PP_ALL format_unknown"
  by (simp add: fmt_def)

lemma length_fmt: "length fmt = 71"
  by (simp add: fmt_def)

lemma parse_percent:
  assumes "NUL \<notin> set r" "ctx \<in> set PP_ALL"
  shows "parse_format (CHR ''%'' # CHR ''%'' # r) ctx p = Some (r, p\<lparr>pe_code := 69\<rparr>)"
proof -
  let ?es = "take 69 fmt" and ?last = "[escape_entry (CHR ''%'') NUL False False PP_ALL format_literal_percent, escape_entry NUL NUL False False PP_ALL format_unknown]"
  have fm: "fmt = ?es @ ?last" by (simp add: fmt_def)
  have len: "length ?es = 69" by (simp add: fmt_def)
  have "\<forall>e \<in> set ?es. fmt_main e \<noteq> CHR ''%''" by (simp add: fmt_def escape_entry_def)
  then have "find_code fmt 0 (CHR ''%'' # r) ctx = find_code ?last 69 (CHR ''%'' # r) ctx"
    using find_code_skip [of "CHR ''%'' # r" ?es ?last 0 ctx] fm len by simp
  moreover have "find_code ?last 69 (CHR ''%'' # r) ctx = Some (r, 69)"
    using assms by (cases r) (auto simp: escape_entry_def)
  ultimately have "find_code fmt 0 (CHR ''%'' # r) ctx = Some (r, 69)" by simp
  then show ?thesis by (simp add: parse_format_def format_code_def nth_percent escape_entry_def isdigit_def code_def)
qed

lemma step_percent:
  "NUL \<notin> set r \<Longrightarrow> vprintf_step tm (CHR ''%'' # CHR ''%'' # r, ap, buf) = Some (r, ap, buf @ ''%'')"
  by (simp add: vprintf_step_def parse_percent PP_ALL_def PP_LAST_FORMAT_def process_format_main_def nth_percent escape_entry_def
      format_literal_percent_def)

lemma step_backslash:
  "vprintf_step tm (CHR 0x5C # CHR 0x5C # r, ap, buf) = Some (r, ap, buf @ [CHR 0x5C])"
  by (simp add: vprintf_step_def process_escape_def)

lemma step_char:
  "c \<noteq> CHR ''%'' \<Longrightarrow> c \<noteq> CHR 0x5C \<Longrightarrow> vprintf_step tm (c # r, ap, buf) = Some (r, ap, buf @ [c])"
  by (simp add: vprintf_step_def)

lemma quote_no_NUL: "NUL \<notin> set s \<Longrightarrow> NUL \<notin> set (quote_format s)"
  by (auto simp: quote_format_def NUL_def)

text \<open>Quoting makes text literal: a format with doubled percent signs and backslashes prints the
  text itself, needs no argument, and leaves the rest of the arguments to what follows.
\<close>

theorem literal_roundtrip:
  assumes "NUL \<notin> set s" "length s < n"
  shows "pkg_utstring_vprintf n tm buf (quote_format s) ap = Some (buf @ s)"
proof -
  have "vprintf_loop n tm (quote_format s, ap, buf) = Some (buf @ s)"
    using assms
  proof (induction s arbitrary: n buf)
    case Nil
    then show ?case by (cases n) (simp_all add: quote_format_def)
  next
    case (Cons c s)
    then obtain m where n: "n = Suc m" "length s < m" by (cases n) auto
    have nul: "NUL \<notin> set (quote_format s)" using quote_no_NUL Cons.prems(1) by simp
    have q: "quote_format (c # s) =
        (if c = CHR ''%'' then ''%%'' else if c = CHR 0x5C then [CHR 0x5C, CHR 0x5C] else [c]) @ quote_format s"
      by (simp add: quote_format_def)
    show ?case using Cons.IH [OF _ n(2)] Cons.prems(1) n(1)
      by (simp add: q step_percent [OF nul] step_backslash step_char)
  qed
  then show ?thesis by (simp add: pkg_utstring_vprintf_def)
qed

theorem literal_roundtrip_witness:
  "quote_format ''5%'' = ''5%%'' \<and> pkg_utstring_vprintf 3 (\<lambda>f t. None) [] (quote_format ''5%'') [] = Some ''5%''"
  using literal_roundtrip [of "''5%''" 3 "\<lambda>f t. None" "[]" "[]"] by (simp add: quote_format_def NUL_def)

section \<open>What handlers do to the buffer\<close>

text \<open>A value is printed behind the buffer, and the handler does not answer NULL.\<close>

definition prints :: "(string \<Rightarrow> percent_esc \<Rightarrow> out) \<Rightarrow> bool" where
  "prints f \<longleftrightarrow> (\<forall>buf p. f buf p = map_option (\<lambda>(t, ok). (buf @ t, True)) (f [] p))"

definition item_printer :: "iterate \<Rightarrow> bool" where
  "item_printer it \<longleftrightarrow> (\<forall>buf v f d cnt ctx. it buf v f d cnt ctx = map_option ((@) buf) (it [] v f d cnt ctx))"

definition handler_prints :: "handler \<Rightarrow> bool" where
  "handler_prints h \<longleftrightarrow> (\<forall>tm it d. item_printer it \<longrightarrow> prints (\<lambda>buf. h tm it buf d))"

lemma prints_formatted:
  assumes "\<And>p. gen_format 16 (g p) tail \<noteq> None"
  shows "prints (\<lambda>buf p. put_formatted buf (gen_format 16 (g p) tail) (pr p))"
  using assms by (auto simp: prints_def put_formatted_def option.map_comp comp_def split: option.splits)

lemma gen_format_some: "length tail \<le> 3 \<Longrightarrow> gen_format 16 p tail \<noteq> None"
  using gen_format_fits [of tail p] by auto

lemma prints_string [simp]: "prints (\<lambda>buf. string_val buf s)"
  by (simp add: prints_def string_val_text)

lemma prints_human: "prints (\<lambda>buf. human_number buf n)"
  unfolding prints_def
proof (intro allI)
  fix buf p
  obtain fm where "gen_format 16 (p\<lparr>pe_alt1 := False, pe_alt2 := False\<rparr>) ''.*f'' = Some fm"
    using gen_format_some [of "''.*f''"] by auto
  then show "human_number buf n p = map_option (\<lambda>(t, ok). (buf @ t, True)) (human_number [] n p)"
    by (simp add: human_number_def put_formatted_def Let_def option.map_comp comp_def split: prod.splits)
qed

lemma prints_int: "prints (\<lambda>buf p. int_val buf (n p) (g p))"
proof -
  have h: "human_number buf i q = map_option (\<lambda>(t, ok). (buf @ t, True)) (human_number [] i q)" for buf i q
    using prints_human [of i] unfolding prints_def by blast
  show ?thesis unfolding prints_def
  proof (intro allI)
    fix buf p
    obtain fm where "gen_format 16 (g p) ''ld'' = Some fm" using gen_format_some [of "''ld''" "g p"] by auto
    then show "int_val buf (n p) (g p) = map_option (\<lambda>(t, ok). (buf @ t, True)) (int_val [] (n p) (g p))"
      using h [of buf "n p" "g p"] by (simp add: int_val_def put_formatted_def option.map_comp comp_def)
  qed
qed

lemma prints_values [simp]:
  "prints (\<lambda>buf. int_val buf n)" "prints (\<lambda>buf. bool_val buf b)" "prints (\<lambda>buf. liclog_val buf l)"
proof -
  show "prints (\<lambda>buf. int_val buf n)" using prints_int [of "\<lambda>p. n" "\<lambda>p. p"] .
  show "prints (\<lambda>buf. bool_val buf b)" "prints (\<lambda>buf. liclog_val buf l)"
    by (simp_all add: prints_def bool_val_def liclog_val_def string_val_text)
qed

lemma prints_count [simp]: "prints (\<lambda>buf. list_count buf m)"
  using prints_int [of "\<lambda>p. int (if pe_alt1 p then (if m > 0 then 1 else 0) else m)" "\<lambda>p. p\<lparr>pe_alt1 := False, pe_alt2 := False\<rparr>"]
  unfolding prints_def list_count_def .

lemma prints_mode [simp]: "prints (\<lambda>buf. mode_val buf m)"
proof -
  have s: "string_val buf t q = map_option (\<lambda>(t, ok). (buf @ t, True)) (string_val [] t q)" for buf t q
    by (simp add: string_val_text)
  show ?thesis unfolding prints_def
  proof (intro allI)
    fix buf p
    obtain fm where "gen_format 16 (p\<lparr>pe_alt1 := False, pe_plus := False\<rparr>) ''o'' = Some fm"
      using gen_format_some [of "''o''"] by auto
    then show "mode_val buf m p = map_option (\<lambda>(t, ok). (buf @ t, True)) (mode_val [] m p)"
      using s [of buf "Some (port_strmode m)" p] by (simp add: mode_val_def put_formatted_def option.map_comp comp_def)
  qed
qed

lemma print_items_prints:
  "item_printer it \<Longrightarrow> print_items it v p ctx ds cnt buf = map_option ((@) buf) (print_items it v p ctx ds cnt [])"
proof (induction ds arbitrary: cnt buf)
  case (Cons d ds)
  note it = Cons.prems [unfolded item_printer_def, rule_format]
  define sep where "sep = (if cnt > 1 then it [] v (pe_sep_fmt p) d cnt ctx else Some [])"
  have s: "(if cnt > 1 then it buf v (pe_sep_fmt p) d cnt ctx else Some buf) = map_option ((@) buf) sep" for buf
    using it [of buf] by (simp add: sep_def)
  show ?case
  proof (cases sep)
    case (Some t)
    show ?thesis
    proof (cases "it [] v (pe_item_fmt p) d cnt ctx")
      case None
      then have "it b v (pe_item_fmt p) d cnt ctx = None" for b using it [of b] by simp
      then show ?thesis using s [of buf] s [of "[]"] Some by simp
    next
      case (Some u)
      then have u: "it b v (pe_item_fmt p) d cnt ctx = Some (b @ u)" for b using it [of b] by simp
      have "print_items it v p ctx ds (cnt + 1) (buf @ t @ u) =
          map_option ((@) buf) (print_items it v p ctx ds (cnt + 1) (t @ u))"
        using Cons.IH [OF Cons.prems, of "cnt + 1" "buf @ t @ u"] Cons.IH [OF Cons.prems, of "cnt + 1" "t @ u"]
        by (simp add: option.map_comp comp_def)
      then show ?thesis using s [of buf] s [of "[]"] \<open>sep = Some t\<close> u by simp
    qed
  qed (use s [of buf] s [of "[]"] in simp)
qed simp

lemma handler_prints_list: "handler_prints (format_list ctx items i s)"
  unfolding handler_prints_def prints_def
proof (intro allI impI)
  fix tm :: strftime and it :: iterate and d buf p
  assume it: "item_printer it"
  have c: "list_count buf n p = map_option (\<lambda>(t, ok). (buf @ t, True)) (list_count [] n p)" for n
    using prints_count [of n] unfolding prints_def by blast
  show "format_list ctx items i s tm it buf d p = map_option (\<lambda>(t, ok). (buf @ t, True)) (format_list ctx items i s tm it [] d p)"
    using c print_items_prints [OF it, of _ _ _ _ _ buf]
    by (cases d) (simp_all add: format_list_def option.map_comp comp_def)
qed

lemma prints_none: "prints (\<lambda>buf p. None)"
  by (simp add: prints_def)

lemma handler_printsI: "(\<And>tm it d. prints (\<lambda>buf p. h tm it buf d p)) \<Longrightarrow> handler_prints h"
  by (simp add: handler_prints_def)

lemma handler_prints_of_string: "handler_prints of_string"
proof (rule handler_printsI)
  show "prints (\<lambda>buf p. of_string tm it buf d p)" for tm it d
    by (cases d) (simp_all add: of_string_def prints_none)
qed

lemma handler_prints_of_pkg: "(\<And>v. prints (f v)) \<Longrightarrow> handler_prints (of_pkg f)"
proof (rule handler_printsI)
  show "prints (\<lambda>buf p. of_pkg f tm it buf d p)" if "\<And>v. prints (f v)" for tm it d
    using that by (cases d) (simp_all add: of_pkg_def prints_none)
qed

lemma handler_prints_of_kv: "(\<And>v. prints (f v)) \<Longrightarrow> handler_prints (of_kv f)"
proof (rule handler_printsI)
  show "prints (\<lambda>buf p. of_kv f tm it buf d p)" if "\<And>v. prints (f v)" for tm it d
    using that by (cases d) (simp_all add: of_kv_def prints_none)
qed

lemma handler_prints_of_dir: "(\<And>v. prints (f v)) \<Longrightarrow> handler_prints (of_dir f)"
proof (rule handler_printsI)
  show "prints (\<lambda>buf p. of_dir f tm it buf d p)" if "\<And>v. prints (f v)" for tm it d
    using that by (cases d) (simp_all add: of_dir_def prints_none)
qed

lemma handler_prints_of_file: "(\<And>v. prints (f v)) \<Longrightarrow> handler_prints (of_file f)"
proof (rule handler_printsI)
  show "prints (\<lambda>buf p. of_file f tm it buf d p)" if "\<And>v. prints (f v)" for tm it d
    using that by (cases d) (simp_all add: of_file_def prints_none)
qed

lemma handler_prints_of_option: "(\<And>v. prints (f v)) \<Longrightarrow> handler_prints (of_option f)"
proof (rule handler_printsI)
  show "prints (\<lambda>buf p. of_option f tm it buf d p)" if "\<And>v. prints (f v)" for tm it d
    using that by (cases d) (simp_all add: of_option_def prints_none)
qed

lemma handler_prints_of_dep: "(\<And>v. prints (f v)) \<Longrightarrow> handler_prints (of_dep f)"
proof (rule handler_printsI)
  show "prints (\<lambda>buf p. of_dep f tm it buf d p)" if "\<And>v. prints (f v)" for tm it d
    using that by (cases d) (simp_all add: of_dep_def prints_none)
qed

lemmas handler_prints_of = handler_prints_of_string handler_prints_of_pkg handler_prints_of_kv handler_prints_of_dir
  handler_prints_of_file handler_prints_of_option handler_prints_of_dep

lemmas handlers_of_lists =
  format_annotations_def format_shlibs_required_def format_categories_def format_directories_def format_files_def
  format_groups_def format_licenses_def format_options_def format_users_def format_required_def
  format_shlibs_provided_def format_dependencies_def format_requirements_def format_provided_def

lemmas handlers_of_values =
  format_group_name_def format_license_name_def format_char_string_def format_user_name_def format_provide_name_def
  format_shlib_name_def format_category_name_def format_annotation_name_def format_annotation_value_def
  format_directory_group_def format_directory_path_def format_directory_perms_def format_directory_user_def
  format_file_group_def format_file_path_def format_file_perms_def format_file_sha256_def format_file_user_def
  format_option_name_def format_option_value_def format_option_default_def format_option_description_def
  format_dependency_lock_def format_dependency_name_def format_dependency_origin_def format_dependency_version_def
  format_altabi_def format_repo_path_def format_old_version_def format_autoremove_def format_comment_def
  format_description_def format_lock_status_def format_license_logic_def format_maintainer_def format_name_def
  format_origin_def format_prefix_def format_architecture_def format_flatsize_def format_version_def
  format_checksum_def format_home_url_def format_pkgsize_def format_message_def format_repo_ident_def
  format_short_checksum_def

lemma list_handlers_print:
  "handler_prints format_annotations" "handler_prints format_shlibs_required" "handler_prints format_categories"
  "handler_prints format_directories" "handler_prints format_files" "handler_prints format_groups"
  "handler_prints format_licenses" "handler_prints format_options" "handler_prints format_users"
  "handler_prints format_required" "handler_prints format_shlibs_provided" "handler_prints format_dependencies"
  "handler_prints format_requirements" "handler_prints format_provided"
  by (simp_all only: handlers_of_lists handler_prints_list)

lemma value_handlers_print:
  "handler_prints format_group_name" "handler_prints format_license_name" "handler_prints format_char_string"
  "handler_prints format_user_name" "handler_prints format_provide_name" "handler_prints format_shlib_name"
  "handler_prints format_category_name" "handler_prints format_annotation_name"
  "handler_prints format_annotation_value" "handler_prints format_directory_group"
  "handler_prints format_directory_path" "handler_prints format_directory_perms"
  "handler_prints format_directory_user" "handler_prints format_file_group" "handler_prints format_file_path"
  "handler_prints format_file_perms" "handler_prints format_file_sha256" "handler_prints format_file_user"
  "handler_prints format_option_name" "handler_prints format_option_value" "handler_prints format_option_default"
  "handler_prints format_option_description" "handler_prints format_dependency_lock"
  "handler_prints format_dependency_name" "handler_prints format_dependency_origin"
  "handler_prints format_dependency_version" "handler_prints format_altabi" "handler_prints format_repo_path"
  "handler_prints format_old_version" "handler_prints format_autoremove" "handler_prints format_comment"
  "handler_prints format_description" "handler_prints format_lock_status" "handler_prints format_license_logic"
  "handler_prints format_maintainer" "handler_prints format_name" "handler_prints format_origin"
  "handler_prints format_prefix" "handler_prints format_architecture" "handler_prints format_flatsize"
  "handler_prints format_version" "handler_prints format_checksum" "handler_prints format_home_url"
  "handler_prints format_pkgsize" "handler_prints format_message" "handler_prints format_repo_ident"
  "handler_prints format_short_checksum"
  unfolding handlers_of_values
  by (rule handler_prints_of; simp)+

lemma other_handlers_print:
  "handler_prints format_row_counter" "handler_prints format_install_tstamp" "handler_prints format_literal_percent"
proof -
  have i: "int_val buf n p = map_option (\<lambda>(t, ok). (buf @ t, True)) (int_val [] n p)" for buf n p
    using prints_values(1) [of n] unfolding prints_def by blast
  show "handler_prints format_row_counter" unfolding handler_prints_def prints_def
  proof (intro allI impI)
    fix tm :: strftime and it :: iterate and d buf p
    show "format_row_counter tm it buf d p = map_option (\<lambda>(t, ok). (buf @ t, True)) (format_row_counter tm it [] d p)"
      using i [of buf _ p] by (cases d) (simp_all add: format_row_counter_def)
  qed
  show "handler_prints format_install_tstamp" unfolding handler_prints_def prints_def
  proof (intro allI impI)
    fix tm :: strftime and it :: iterate and d buf p
    show "format_install_tstamp tm it buf d p = map_option (\<lambda>(t, ok). (buf @ t, True)) (format_install_tstamp tm it [] d p)"
      using i [of buf _ p] by (cases d) (simp_all add: format_install_tstamp_def split: option.splits)
  qed
  show "handler_prints format_literal_percent"
    by (simp add: handler_prints_def prints_def format_literal_percent_def)
qed

lemmas handlers_print = list_handlers_print value_handlers_print other_handlers_print

lemma fmt_prints:
  assumes "i < PP_UNKNOWN"
  shows "handler_prints (fmt_handler (fmt ! i))"
proof -
  have "\<forall>e \<in> set (butlast fmt). handler_prints (fmt_handler e)"
    by (simp add: fmt_def escape_entry_def handlers_print)
  moreover have "i < length (butlast fmt)" using assms by (simp add: PP_UNKNOWN_def length_fmt)
  ultimately show ?thesis using nth_mem [of i "butlast fmt"] by (simp add: nth_butlast)
qed

lemma handler_appends:
  assumes "i \<le> PP_UNKNOWN" "item_printer it"
  shows "fmt_handler (fmt ! i) tm it buf d p = map_option (\<lambda>(t, ok). (buf @ t, ok)) (fmt_handler (fmt ! i) tm it [] d p)"
proof (cases "i = PP_UNKNOWN")
  case True
  then show ?thesis by (simp add: PP_UNKNOWN_def nth_unknown escape_entry_def format_unknown_def)
next
  case False
  then have "i < PP_UNKNOWN" using assms(1) by simp
  from fmt_prints [OF this] have h: "fmt_handler (fmt ! i) tm it b d p = map_option (\<lambda>(t, ok). (b @ t, True)) (fmt_handler (fmt ! i) tm it [] d p)" for b
    using assms(2) unfolding handler_prints_def prints_def by blast
  show ?thesis
  proof (cases "fmt_handler (fmt ! i) tm it [] d p")
    case (Some r)
    obtain t ok where r: "r = (t, ok)" by (cases r)
    then have "ok" using h [of "[]", unfolded Some] by simp
    then show ?thesis using h [of buf] Some r by simp
  qed (use h [of buf] in simp)
qed

lemma handler_answers:
  assumes "i < PP_UNKNOWN" "item_printer it" "fmt_handler (fmt ! i) tm it buf d p = Some (b, ok)"
  shows "ok"
proof -
  have "fmt_handler (fmt ! i) tm it buf d p = map_option (\<lambda>(t, ok). (buf @ t, True)) (fmt_handler (fmt ! i) tm it [] d p)"
    using fmt_prints [OF assms(1)] assms(2) unfolding handler_prints_def prints_def by blast
  then show ?thesis using assms(3) by (cases "fmt_handler (fmt ! i) tm it [] d p") auto
qed

lemma find_code_bound: "find_code es i f ctx = Some (f', c) \<Longrightarrow> c < i + length es \<or> c = PP_UNKNOWN"
  by (induction es i f ctx rule: find_code.induct) (auto split: if_splits)

lemma parse_format_code: "parse_format f ctx p = Some (f', p') \<Longrightarrow> pe_code p' \<le> PP_UNKNOWN"
proof -
  have t: "format_trailer g q = (g', q') \<Longrightarrow> pe_code q' = pe_code q" for g g' q q'
    by (auto simp: format_trailer_def Let_def split: if_splits prod.splits option.splits)
  assume "parse_format f ctx p = Some (f', p')"
  then show ?thesis
    by (auto simp: parse_format_def format_code_def length_fmt PP_UNKNOWN_def split: prod.splits option.splits if_splits
        dest!: find_code_bound t)
qed

text \<open>The loop over the format of an item only adds to the buffer.\<close>

lemma process_format_trailer_appends:
  assumes "item_printer it"
  shows "process_format_trailer tm it buf p f v d cnt ctx =
    map_option (\<lambda>(t, f'). (buf @ t, f')) (process_format_trailer tm it [] p f v d cnt ctx)"
proof (cases "parse_format f ctx p")
  case (Some r)
  obtain f1 p1 where r: "r = (f1, p1)" by (cases r)
  have code: "pe_code p1 \<le> PP_UNKNOWN" using parse_format_code Some r by blast
  define arg where "arg = (if pe_code p1 = PP_ROW_COUNTER then D_count cnt else if pe_code p1 > PP_LAST_FORMAT then D_null
    else if fmt_struct_pkg (fmt ! pe_code p1) then D_pkg v else d)"
  have e: "process_format_trailer tm it b p f v d cnt ctx =
      map_option (\<lambda>(buf', ok). (buf', if ok then f1 else tl f)) (fmt_handler (fmt ! pe_code p1) tm it b arg p1)" for b
    using Some r by (simp add: process_format_trailer_def arg_def Let_def)
  show ?thesis unfolding e [of buf] e [of "[]"] handler_appends [OF code assms, of tm buf arg p1]
    by (simp add: option.map_comp comp_def case_prod_beta)
qed (simp add: process_format_trailer_def)

lemma append_fun: "(@) (s @ t) = (\<lambda>x. s @ t @ x)"
  by (simp add: fun_eq_iff)

lemma iterate_item_appends:
  assumes "item_printer it"
  shows "iterate_item tm it buf v f d cnt ctx = map_option ((@) buf) (iterate_item tm it [] v f d cnt ctx)"
proof (induction "length f" arbitrary: f buf rule: less_induct)
  case less
  show ?case
  proof (cases f)
    case (Cons c g)
    consider "c = CHR ''%''" | "c = CHR 0x5C" | "c \<noteq> CHR ''%''" "c \<noteq> CHR 0x5C" by blast
    then show ?thesis
    proof cases
      case 1
      note ap = process_format_trailer_appends [OF assms, of tm _ new_percent_esc f v d cnt ctx]
      show ?thesis
      proof (cases "process_format_trailer tm it [] new_percent_esc f v d cnt ctx")
        case None
        then show ?thesis using 1 Cons ap [of buf] by (simp add: iterate_item_percent)
      next
        case (Some r)
        obtain t f' where r: "r = (t, f')" by (cases r)
        have "length f' < length f" using process_format_trailer_length Some r Cons by fastforce
        from less [OF this, of "buf @ t"] less [OF this, of t] show ?thesis
          using 1 Cons ap [of buf] Some r by (simp add: iterate_item_percent option.map_comp comp_def append_fun)
      qed
    next
      case 2
      obtain t f' where r: "process_escape f = (t, f')" by fastforce
      have "length f' < length f" using process_escape_length [OF r] Cons by simp
      from less [OF this, of "buf @ t"] less [OF this, of t] show ?thesis
        using 2 Cons r by (simp add: iterate_item_escape option.map_comp comp_def append_fun)
    next
      case 3
      have "length g < length f" using Cons by simp
      from less [OF this, of "buf @ [c]"] less [OF this, of "[c]"] show ?thesis
        using 3 Cons by (simp add: iterate_item_char option.map_comp comp_def append_fun)
    qed
  qed (simp add: iterate_item_Nil)
qed

lemma item_printer_print_item: "item_printer (print_item tm)"
  unfolding item_printer_def print_item_def
  by (intro allI iterate_item_appends) (simp add: item_printer_def)

section \<open>How the loop ends\<close>

definition unknown_escape :: "string \<Rightarrow> bool" where
  "unknown_escape f \<longleftrightarrow> deref f = CHR ''%'' \<and>
     (case parse_format f PP_PKG new_percent_esc of None \<Rightarrow> False | Some (fend, p) \<Rightarrow> pe_code p = PP_UNKNOWN)"

lemma unknown_escapeD:
  assumes "unknown_escape f"
  obtains g fend p where "f = CHR ''%'' # g" "parse_format f PP_PKG new_percent_esc = Some (fend, p)" "pe_code p = PP_UNKNOWN"
  using assms by (cases f) (auto simp: unknown_escape_def NUL_def split: option.splits)

lemma unknown_step:
  assumes "unknown_escape f"
  shows "vprintf_step tm (f, ap, buf) = Some (f, ap, buf @ ''%'')"
proof -
  from unknown_escapeD [OF assms] obtain g fend p where
    f: "f = CHR ''%'' # g" and p: "parse_format f PP_PKG new_percent_esc = Some (fend, p)" "pe_code p = PP_UNKNOWN" .
  have "process_format_main tm buf p f fend D_null = Some (buf @ ''%'', f)"
    using p(2) by (simp add: process_format_main_def PP_UNKNOWN_def nth_unknown escape_entry_def format_unknown_def)
  then show ?thesis using f p by (simp add: vprintf_step_def PP_LAST_FORMAT_def PP_UNKNOWN_def)
qed

lemma unknown_loop:
  assumes "unknown_escape f"
  shows "vprintf_loop n tm (f, ap, buf) = None"
proof (induction n arbitrary: buf)
  case (Suc n)
  have "f \<noteq> []" using unknown_escapeD [OF assms] by blast
  then show ?case using Suc unknown_step [OF assms] by simp
qed simp

lemma known_step:
  assumes "\<not> unknown_escape f" "f \<noteq> []" "vprintf_step tm (f, ap, buf) = Some (f', ap', buf')"
  shows "length f' < length f"
proof (cases "hd f = CHR ''%''")
  case True
  then obtain fend p where p: "parse_format f PP_PKG new_percent_esc = Some (fend, p)"
    using assms(3) by (auto simp: vprintf_step_def split: option.splits)
  have code: "pe_code p < PP_UNKNOWN"
    using assms(1,2) p True parse_format_code [OF p] by (cases f) (auto simp: unknown_escape_def)
  have len: "length fend < length f" using parse_format_length [OF p] assms(2) by (cases f) auto
  have m: "process_format_main tm buf p f fend d = Some (b, g) \<Longrightarrow> g = fend" for d b g
    using handler_answers [OF code item_printer_print_item, of tm tm buf d p] by (auto simp: process_format_main_def split: if_splits)
  show ?thesis using assms(3) p True len m
    by (auto simp: vprintf_step_def split: if_splits list.splits)
next
  case False
  show ?thesis
  proof (cases "hd f = CHR 0x5C")
    case True
    obtain t g where r: "process_escape f = (t, g)" by fastforce
    then show ?thesis using False True assms(2,3) process_escape_length [OF r]
      by (cases f) (auto simp: vprintf_step_def)
  qed (use False assms(2,3) in \<open>cases f; auto simp: vprintf_step_def\<close>)
qed

text \<open>
  What a format means for a list of arguments, piece by piece: each field takes the next argument
  and stands for the text that its handler gives; two percent signs and the escapes of backslashes
  take none. There is no rule for an unknown escape, for a missing argument and for one that the
  handler cannot print.
\<close>

definition PP_LITERAL_PERCENT :: nat where
  "PP_LITERAL_PERCENT = 69"

inductive renders :: "strftime \<Rightarrow> string \<Rightarrow> pkg_data list \<Rightarrow> string \<Rightarrow> bool" for tm where
  nothing: "renders tm [] ap []"
| plain: "c \<noteq> CHR ''%'' \<Longrightarrow> c \<noteq> CHR 0x5C \<Longrightarrow> renders tm f ap t \<Longrightarrow> renders tm (c # f) ap (c # t)"
| escape: "process_escape (CHR 0x5C # f) = (s, f') \<Longrightarrow> renders tm f' ap t \<Longrightarrow> renders tm (CHR 0x5C # f) ap (s @ t)"
| percent: "parse_format (CHR ''%'' # f) PP_PKG new_percent_esc = Some (f', p) \<Longrightarrow> pe_code p = PP_LITERAL_PERCENT \<Longrightarrow>
    renders tm f' ap t \<Longrightarrow> renders tm (CHR ''%'' # f) ap (CHR ''%'' # t)"
| field: "parse_format (CHR ''%'' # f) PP_PKG new_percent_esc = Some (f', p) \<Longrightarrow> pe_code p \<le> PP_LAST_FORMAT \<Longrightarrow>
    fmt_handler (fmt ! pe_code p) tm (print_item tm) [] d p = Some (s, ok) \<Longrightarrow> renders tm f' ap t \<Longrightarrow>
    renders tm (CHR ''%'' # f) (d # ap) (s @ t)"

lemma handler_text:
  assumes "i < PP_UNKNOWN"
  shows "fmt_handler (fmt ! i) tm (print_item tm) buf d p =
    map_option (\<lambda>(t, ok). (buf @ t, True)) (fmt_handler (fmt ! i) tm (print_item tm) [] d p)"
  using fmt_prints [OF assms] item_printer_print_item unfolding handler_prints_def prints_def by blast

lemma field_step:
  assumes "parse_format (CHR ''%'' # f) PP_PKG new_percent_esc = Some (f', p)" "pe_code p \<le> PP_LAST_FORMAT"
  shows "vprintf_step tm (CHR ''%'' # f, ap, buf) =
    (case ap of [] \<Rightarrow> None
     | d # ap' \<Rightarrow> map_option (\<lambda>(t, ok). (f', ap', buf @ t)) (fmt_handler (fmt ! pe_code p) tm (print_item tm) [] d p))"
proof (cases ap)
  case (Cons d ap')
  have "pe_code p < PP_UNKNOWN" using assms(2) by (simp add: PP_LAST_FORMAT_def PP_UNKNOWN_def)
  from handler_text [OF this, of tm buf d p] show ?thesis
    using assms Cons by (cases "fmt_handler (fmt ! pe_code p) tm (print_item tm) [] d p") (auto simp: vprintf_step_def process_format_main_def)
qed (use assms in \<open>simp add: vprintf_step_def\<close>)

lemma percent_step:
  assumes "parse_format (CHR ''%'' # f) PP_PKG new_percent_esc = Some (f', p)" "pe_code p = PP_LITERAL_PERCENT"
  shows "vprintf_step tm (CHR ''%'' # f, ap, buf) = Some (f', ap, buf @ ''%'')"
  using assms
  by (simp add: vprintf_step_def process_format_main_def PP_LITERAL_PERCENT_def PP_LAST_FORMAT_def nth_percent escape_entry_def
      format_literal_percent_def)

lemma renders_printed:
  "renders tm f ap t \<Longrightarrow> length f < n \<Longrightarrow> vprintf_loop n tm (f, ap, buf) = Some (buf @ t)"
proof (induction arbitrary: n buf rule: renders.induct)
  case (nothing ap)
  then show ?case by (cases n) simp_all
next
  case (plain c f ap t)
  then obtain k where k: "n = Suc k" "length f < k" by (cases n) auto
  have "vprintf_step tm (c # f, ap, buf) = Some (f, ap, buf @ [c])" using plain(1,2) by (simp add: vprintf_step_def)
  then show ?case using plain.IH [OF k(2)] k(1) by simp
next
  case (escape f s f' ap t)
  then obtain k where k: "n = Suc k" "length f < k" by (cases n) auto
  have "length f' < k" using process_escape_length [OF escape(1)] k(2) by simp
  moreover have "vprintf_step tm (CHR 0x5C # f, ap, buf) = Some (f', ap, buf @ s)" using escape(1) by (simp add: vprintf_step_def)
  ultimately show ?case using escape.IH k(1) by simp
next
  case (percent f f' p ap t)
  then obtain k where k: "n = Suc k" "length f < k" by (cases n) auto
  have "length f' < k" using parse_format_length [OF percent(1)] k(2) by simp
  then show ?case using percent.IH percent_step [OF percent(1,2)] k(1) by simp
next
  case (field f f' p d s ok ap t)
  then obtain k where k: "n = Suc k" "length f < k" by (cases n) auto
  have "length f' < k" using parse_format_length [OF field(1)] k(2) by simp
  then show ?case using field.IH field_step [OF field(1,2)] field(3) k(1) by simp
qed

lemma printed_renders:
  "vprintf_loop n tm (f, ap, buf) = Some r \<Longrightarrow> \<exists>t. renders tm f ap t \<and> r = buf @ t"
proof (induction n arbitrary: f ap buf)
  case (Suc n)
  show ?case
  proof (cases f)
    case Nil
    then show ?thesis using Suc.prems renders.nothing by auto
  next
    case (Cons c g)
    have step: "vprintf_step tm (f, ap, buf) = Some (f', ap', buf') \<Longrightarrow> \<exists>t. renders tm f' ap' t \<and> r = buf' @ t" for f' ap' buf'
      using Suc.prems Cons Suc.IH by simp
    have some: "vprintf_step tm (f, ap, buf) \<noteq> None" using Suc.prems Cons by (auto split: option.splits)
    consider (plain) "c \<noteq> CHR ''%''" "c \<noteq> CHR 0x5C" | (escape) "c = CHR 0x5C" | (percent) "c = CHR ''%''" by blast
    then show ?thesis
    proof cases
      case plain
      then have "vprintf_step tm (f, ap, buf) = Some (g, ap, buf @ [c])" using Cons by (simp add: vprintf_step_def)
      from step [OF this] show ?thesis using renders.plain [OF plain] Cons by auto
    next
      case escape
      obtain s f' where e: "process_escape (CHR 0x5C # g) = (s, f')" by fastforce
      then have "vprintf_step tm (f, ap, buf) = Some (f', ap, buf @ s)" using Cons escape by (simp add: vprintf_step_def)
      from step [OF this] show ?thesis using renders.escape [OF e] Cons escape by auto
    next
      case percent
      then obtain f' p where p: "parse_format (CHR ''%'' # g) PP_PKG new_percent_esc = Some (f', p)"
        using some Cons by (auto simp: vprintf_step_def split: option.splits)
      have known: "\<not> unknown_escape f" using unknown_loop Suc.prems by (metis option.distinct(1))
      then have "pe_code p < PP_UNKNOWN" using parse_format_code [OF p] p Cons percent by (simp add: unknown_escape_def)
      then consider "pe_code p \<le> PP_LAST_FORMAT" | "pe_code p = PP_LITERAL_PERCENT"
        unfolding PP_LAST_FORMAT_def PP_UNKNOWN_def PP_LITERAL_PERCENT_def by linarith
      then show ?thesis
      proof cases
        case 1
        note fs = field_step [OF p 1, of tm ap buf]
        then obtain d ap' s ok where d: "ap = d # ap'" "fmt_handler (fmt ! pe_code p) tm (print_item tm) [] d p = Some (s, ok)"
          using some Cons percent by (auto split: list.splits)
        then have "vprintf_step tm (f, ap, buf) = Some (f', ap', buf @ s)" using fs Cons percent by simp
        from step [OF this] show ?thesis using renders.field [OF p 1 d(2)] Cons percent d(1) by auto
      next
        case 2
        have "vprintf_step tm (f, ap, buf) = Some (f', ap, buf @ ''%'')" using percent_step [OF p 2] Cons percent by simp
        from step [OF this] show ?thesis using renders.percent [OF p 2] Cons percent by auto
      qed
    qed
  qed
qed simp

text \<open>C19. The printing loop prints what the format means for its arguments, behind what the buffer
  holds, and within as many turns as the format has characters and one to see the end. However long
  it runs, it does not return if the format has no meaning: at an unknown escape, where it stays for
  ever, or at a field whose argument is missing or cannot be printed.
\<close>

theorem vprintf_renders:
  "((\<exists>n. pkg_utstring_vprintf n tm buf format ap = Some text) \<longleftrightarrow> (\<exists>t. renders tm format ap t \<and> text = buf @ t)) \<and>
   (pkg_utstring_vprintf (length format + 1 + k) tm buf format ap = Some text \<longleftrightarrow> (\<exists>t. renders tm format ap t \<and> text = buf @ t))"
proof -
  have "vprintf_loop (length format + 1 + k) tm (format, ap, buf) = Some (buf @ t)" if "renders tm format ap t" for t
    by (rule renders_printed [OF that]) simp
  then show ?thesis unfolding pkg_utstring_vprintf_def using printed_renders by blast
qed

text \<open>A format with an unknown escape makes the printing loop run for ever: the turn prints a percent
  sign and leaves the format where it is.
\<close>

theorem unknown_escape_never_returns:
  assumes "unknown_escape f"
  shows "pkg_utstring_vprintf n tm buf f ap = None \<and> vprintf_step tm (f, ap, buf) = Some (f, ap, buf @ ''%'')"
  using unknown_loop [OF assms] unknown_step [OF assms] by (simp add: pkg_utstring_vprintf_def)

theorem unknown_escape_never_returns_witness:
  "unknown_escape ''%j'' \<and> pkg_utstring_vprintf 1000 (\<lambda>f t. None) [] ''%j'' [] = None"
proof -
  have "unknown_escape ''%j''" by code_simp
  then show ?thesis using unknown_escape_never_returns by blast
qed

section \<open>Lists\<close>

definition list_text :: "(nat \<Rightarrow> string) \<Rightarrow> (nat \<Rightarrow> string) \<Rightarrow> nat \<Rightarrow> string" where
  "list_text t s n = concat (map (\<lambda>i. (if i = 0 then [] else s i) @ t i) [0..<n])"

lemma print_items_text:
  assumes "item_printer it"
    and "\<forall>i < length ds. it [] v (pe_item_fmt p) (ds ! i) (int (j + i) + 1) ctx = Some (t (j + i))"
    and "\<forall>i < length ds. 0 < j + i \<longrightarrow> it [] v (pe_sep_fmt p) (ds ! i) (int (j + i) + 1) ctx = Some (s (j + i))"
  shows "print_items it v p ctx ds (int j + 1) buf =
    Some (buf @ concat (map (\<lambda>i. (if i = 0 then [] else s i) @ t i) [j..<j + length ds]))"
  using assms(2,3)
proof (induction ds arbitrary: j buf)
  case (Cons d ds)
  have it: "it b v f x cnt ctx = Some (b @ u)" if "it [] v f x cnt ctx = Some u" for b f x cnt u
  proof -
    have "it b v f x cnt ctx = map_option ((@) b) (it [] v f x cnt ctx)"
      using assms(1) unfolding item_printer_def by blast
    then show ?thesis unfolding that by simp
  qed
  have item: "it [] v (pe_item_fmt p) d (int j + 1) ctx = Some (t j)" using Cons.prems(1) by force
  have sep: "0 < j \<Longrightarrow> it [] v (pe_sep_fmt p) d (int j + 1) ctx = Some (s j)" using Cons.prems(2) by force
  have up: "[j..<j + length (d # ds)] = j # [Suc j..<Suc j + length ds]" by (simp add: upt_rec)
  have "print_items it v p ctx ds (int (Suc j) + 1) b =
      Some (b @ concat (map (\<lambda>i. (if i = 0 then [] else s i) @ t i) [Suc j..<Suc j + length ds]))" for b
  proof (rule Cons.IH)
    show "\<forall>i < length ds. it [] v (pe_item_fmt p) (ds ! i) (int (Suc j + i) + 1) ctx = Some (t (Suc j + i))"
      using Cons.prems(1) by force
    show "\<forall>i < length ds. 0 < Suc j + i \<longrightarrow> it [] v (pe_sep_fmt p) (ds ! i) (int (Suc j + i) + 1) ctx = Some (s (Suc j + i))"
      using Cons.prems(2) by force
  qed
  note rest = this [unfolded of_nat_Suc add.commute [of 1]]
  show ?case
  proof (cases "j = 0")
    case True
    then show ?thesis unfolding up using it [OF item] rest by simp
  next
    case False
    then have "0 < j" by simp
    then show ?thesis unfolding up using it [OF item] it [OF sep [OF \<open>0 < j\<close>]] rest by simp
  qed
qed simp

text \<open>C18. A list is printed item by item: each item in the format for items, in front of every item but the
  first the separator in its own format, both with the number of the item as the row counter; the
  default formats are used where none is given.
\<close>

theorem list_format_spec:
  assumes "\<not> pe_alt1 p" "\<not> pe_alt2 p"
    and "\<forall>i < length (items v). print_item tm [] v (if pe_item_set p then pe_item_fmt p else pe_item_fmt p @ item)
      (items v ! i) (int i + 1) ctx = Some (t i)"
    and "\<forall>i < length (items v). 0 < i \<longrightarrow> print_item tm [] v (if pe_sep_set p then pe_sep_fmt p else pe_sep_fmt p @ sep)
      (items v ! i) (int i + 1) ctx = Some (s i)"
  shows "format_list ctx items item sep tm (print_item tm) buf (D_pkg v) p = Some (buf @ list_text t s (length (items v)), True)"
proof -
  let ?p = "set_list_defaults p item sep"
  have "pe_item_fmt ?p = (if pe_item_set p then pe_item_fmt p else pe_item_fmt p @ item)"
    "pe_sep_fmt ?p = (if pe_sep_set p then pe_sep_fmt p else pe_sep_fmt p @ sep)"
    by (simp_all add: set_list_defaults_def)
  then show ?thesis
    using print_items_text [OF item_printer_print_item, of "items v" tm v ?p 0 ctx t s buf] assms
    by (simp add: format_list_def list_text_def)
qed

definition sample_view :: pkg_view where
  "sample_view = \<lparr>pv_locked = False, pv_automatic = False, pv_vital = False, pv_name = Some ''zsh'', pv_origin = None, pv_version = Some ''5'',
     pv_old_version = None, pv_maintainer = None, pv_www = None, pv_arch = None, pv_abi = None, pv_prefix = None,
     pv_comment = None, pv_desc = None, pv_sum = None, pv_repopath = None, pv_reponame = None, pv_licenselogic = LICENSE_SINGLE,
     pv_pkgsize = 0, pv_flatsize = 0, pv_timestamp = 0, pv_message = [],
     pv_depends = [\<lparr>vd_name = Some ''pcre'', vd_origin = None, vd_version = Some ''8'', vd_locked = False\<rparr>,
       \<lparr>vd_name = Some ''gdbm'', vd_origin = None, vd_version = Some ''1'', vd_locked = False\<rparr>],
     pv_rdepends = [], pv_categories = [], pv_licenses = [], pv_files = [], pv_dirs = [], pv_options = [], pv_users = [],
     pv_groups = [], pv_shlibs_required = [], pv_shlibs_provided = [], pv_provides = [''vi''], pv_requires = [], pv_annotations = []\<rparr>"

theorem list_format_spec_witness:
  "format_dependencies (\<lambda>f t. None) (print_item (\<lambda>f t. None)) [] (D_pkg sample_view)
     (new_percent_esc\<lparr>pe_item_set := True, pe_item_fmt := ''%I:%dn'', pe_sep_set := True, pe_sep_fmt := '', ''\<rparr>) =
   Some (''1:pcre, 2:gdbm'', True)"
proof -
  let ?p = "new_percent_esc\<lparr>pe_item_set := True, pe_item_fmt := ''%I:%dn'', pe_sep_set := True, pe_sep_fmt := '', ''\<rparr>"
  let ?t = "\<lambda>i. if i = 0 then ''1:pcre'' else ''2:gdbm''"
  have item: "print_item (\<lambda>f t. None) [] sample_view ''%I:%dn'' (D_dep (pv_depends sample_view ! 0)) 1 PP_d = Some ''1:pcre''"
    "print_item (\<lambda>f t. None) [] sample_view ''%I:%dn'' (D_dep (pv_depends sample_view ! 1)) 2 PP_d = Some ''2:gdbm''"
    "print_item (\<lambda>f t. None) [] sample_view '', '' (D_dep (pv_depends sample_view ! 1)) 2 PP_d = Some '', ''"
    by code_simp+
  have len: "length (pv_depends sample_view) = 2" by (simp add: sample_view_def)
  have "format_list PP_d (\<lambda>v. map D_dep (pv_depends v)) (''%dn-%dv'' @ [CHR 10]) [] (\<lambda>f t. None) (print_item (\<lambda>f t. None)) []
      (D_pkg sample_view) ?p = Some ([] @ list_text ?t (\<lambda>i. '', '') (length (map D_dep (pv_depends sample_view))), True)"
    by (rule list_format_spec) (use item in \<open>auto simp: len new_percent_esc_def less_2_cases_iff\<close>)
  then show ?thesis by (simp add: format_dependencies_def list_text_def len numeral_2_eq_2)
qed

section \<open>Bytes\<close>

definition octal_digits :: "char \<Rightarrow> string" where
  "octal_digits c = map (\<lambda>d. char_of (48 + d)) [code c div 64, code c div 8 mod 8, code c mod 8]"

definition hex_digit_char :: "nat \<Rightarrow> char" where
  "hex_digit_char d = char_of (if d < 10 then 48 + d else 87 + d)"

definition hex_digits :: "char \<Rightarrow> string" where
  "hex_digits c = [hex_digit_char (code c div 16), hex_digit_char (code c mod 16)]"

lemma octal_char: "d < 8 \<Longrightarrow> isodigit (char_of (48 + d)) \<and> code (char_of (48 + d)) = 48 + d"
  by (simp add: isodigit_def code_def)

lemma hex_char: "d < 16 \<Longrightarrow> isxdigit (hex_digit_char d) \<and> xdigit_val (hex_digit_char d) = d"
  by (auto simp: isxdigit_def xdigit_val_def hex_digit_char_def isdigit_def code_def)

text \<open>
  Every byte can be written as an escape, with three octal digits or two hexadecimal ones, and
  is read back as itself, whatever follows.
\<close>

theorem byte_escapes:
  "process_escape (CHR 0x5C # octal_digits c @ rest) = ([c], rest) \<and>
   process_escape (CHR 0x5C # CHR ''x'' # hex_digits c @ rest) = ([c], rest)"
proof
  have l: "code c div 64 < 8" "code c div 8 mod 8 < 8" "code c mod 8 < 8" "code c div 16 < 16" "code c mod 16 < 16"
    using code_less [of c] by auto
  have c: "char_of (code c) = c" by (simp add: code_def)
  let ?a = "code c div 64" and ?b = "code c div 8 mod 8" and ?d = "code c mod 8"
  have "code c div 8 div 8 * 8 + code c div 8 mod 8 = code c div 8" by (rule div_mult_mod_eq)
  then have s: "?a * 8 + ?b = code c div 8" by (simp add: div_mult2_eq [symmetric])
  have s': "code c div 8 * 8 + ?d = code c" "code c div 8 < 32" "?a < 32" using l by simp_all
  have sum: "16 * (code c div 16) + code c mod 16 = code c" by simp
  have "isodigit x \<Longrightarrow> x \<notin> {CHR ''a'', CHR ''b'', CHR ''f'', CHR ''n'', CHR ''t'', CHR ''v'', CHR 0x27, CHR 0x22, CHR 0x5C, CHR ''x''}"
    for x by (auto simp: isodigit_def code_def)
  from this [of "char_of (48 + ?a)"] octal_char [OF l(1)]
  have "char_of (48 + ?a) \<notin> {CHR ''a'', CHR ''b'', CHR ''f'', CHR ''n'', CHR ''t'', CHR ''v'', CHR 0x27, CHR 0x22, CHR 0x5C, CHR ''x''}"
    by blast
  then show "process_escape (CHR 0x5C # octal_digits c @ rest) = ([c], rest)"
    using octal_char [OF l(1)] octal_char [OF l(2)] octal_char [OF l(3)] s s' c
    by (simp add: process_escape_def octal_digits_def read_oct_byte_def numeral_3_eq_3)
  show "process_escape (CHR 0x5C # CHR ''x'' # hex_digits c @ rest) = ([c], rest)"
    using hex_char [OF l(4)] hex_char [OF l(5)] sum c
    by (simp add: process_escape_def hex_digits_def maybe_read_hex_byte_def)
qed

text \<open>
  The escapes of provided and required patterns do not work as documented: at the top level
  \<^verbatim>\<open>%yn\<close> and \<^verbatim>\<open>%Yn\<close> are read as the whole list with a letter behind it, and the format of a
  provided pattern knows no escape but \<^verbatim>\<open>%yn\<close>, neither a field of the package nor the row counter
  nor \<^verbatim>\<open>%%\<close>. A list that is printed as an empty text counts as an error.
\<close>

theorem provides_escapes:
  "map_option (\<lambda>(f, p). (f, fmt_sub (fmt ! pe_code p))) (parse_format ''%yn'' PP_PKG new_percent_esc) = Some (''n'', NUL) \<and>
   map_option (\<lambda>(f, p). (f, fmt_sub (fmt ! pe_code p))) (parse_format ''%Yn'' PP_PKG new_percent_esc) = Some (''n'', NUL) \<and>
   (\<forall>e \<in> set fmt. PP_y \<in> set (fmt_context e) \<longrightarrow> fmt_main e = CHR ''y'' \<and> fmt_sub e = CHR ''n'') \<and>
   map_option snd (pkg_vprintf 3 (\<lambda>f t. None) ''%b'' [D_pkg sample_view]) = Some (-1)"
proof (intro conjI)
  show "map_option (\<lambda>(f, p). (f, fmt_sub (fmt ! pe_code p))) (parse_format ''%yn'' PP_PKG new_percent_esc) = Some (''n'', NUL)"
    by code_simp
  show "map_option (\<lambda>(f, p). (f, fmt_sub (fmt ! pe_code p))) (parse_format ''%Yn'' PP_PKG new_percent_esc) = Some (''n'', NUL)"
    by code_simp
  show "\<forall>e \<in> set fmt. PP_y \<in> set (fmt_context e) \<longrightarrow> fmt_main e = CHR ''y'' \<and> fmt_sub e = CHR ''n''"
    by code_simp
  show "map_option snd (pkg_vprintf 3 (\<lambda>f t. None) ''%b'' [D_pkg sample_view]) = Some (-1)"
    by code_simp
qed

end
