(* ===== verification/Query_Format.thy ===== *)
theory Query_Format
  imports Printf_Facts
begin

text \<open>
  The formats of \<^verbatim>\<open>pkg query\<close> (\<^verbatim>\<open>src/query.c\<close>): the check of a query string and its output for a package,
  line by line for the list it asks for. It prints through \<open>Pkg_Printf\<close>.
\<close>

section \<open>The check\<close>

record query_flags =
  qf_flag :: char
  qf_options :: string
  qf_multiline :: bool
  qf_dbflags :: "32 word"

definition flag_entry :: "char \<Rightarrow> string \<Rightarrow> bool \<Rightarrow> 32 word \<Rightarrow> query_flags" where
  "flag_entry c opts m db = \<lparr>qf_flag = c, qf_options = opts, qf_multiline = m, qf_dbflags = db\<rparr>"

definition PKG_LOAD_ANNOTATIONS :: "32 word" where
  "PKG_LOAD_ANNOTATIONS = 0x1000"

text \<open>The bits \<^verbatim>\<open>PKG_LOAD_DEPS\<close> to \<^verbatim>\<open>PKG_LOAD_ANNOTATIONS\<close>; \<^verbatim>\<open>PKG_LOAD_BASIC\<close> is zero.\<close>

definition accepted_query_flags :: "query_flags list" where
  "accepted_query_flags =
     [flag_entry (CHR ''d'') ''nov'' True 1,
      flag_entry (CHR ''r'') ''nov'' True 2,
      flag_entry (CHR ''C'') [] True 0x40,
      flag_entry (CHR ''F'') ''ps'' True 4,
      flag_entry (CHR ''O'') ''kvdD'' True 0x10,
      flag_entry (CHR ''D'') [] True 0x20,
      flag_entry (CHR ''L'') [] True 0x80,
      flag_entry (CHR ''U'') [] True 0x100,
      flag_entry (CHR ''G'') [] True 0x200,
      flag_entry (CHR ''B'') [] True 0x400,
      flag_entry (CHR ''b'') [] True 0x800,
      flag_entry (CHR ''A'') ''tv'' True PKG_LOAD_ANNOTATIONS,
      flag_entry (CHR ''?'') ''drCFODLUGBbA'' True 0,
      flag_entry (CHR ''#'') ''drCFODLUGBbA'' True 0,
      flag_entry (CHR ''s'') ''hb'' False 0] @
     map (\<lambda>c. flag_entry c [] False 0) ''Qnvopmcewlqak'' @
     [flag_entry (CHR ''M'') [] False 0,
      flag_entry (CHR ''t'') [] False 0,
      flag_entry (CHR ''R'') [] False PKG_LOAD_ANNOTATIONS,
      flag_entry (CHR ''V'') [] False 0]"

text \<open>
  The database flags of a list, those of the option behind a question mark or a hash. The multiline
  flag is NUL at first.
\<close>

definition flags_of :: "query_flags list \<Rightarrow> query_flags \<Rightarrow> char \<Rightarrow> 32 word" where
  "flags_of qfs e opt =
     (if qf_flag e = CHR ''?'' \<or> qf_flag e = CHR ''#''
      then (case find (\<lambda>k. qf_flag k = opt) qfs of None \<Rightarrow> 0 | Some k \<Rightarrow> qf_dbflags k)
      else qf_dbflags e)"

definition new_multiline :: "query_flags \<Rightarrow> char \<Rightarrow> char option" where
  "new_multiline e m =
     (if \<not> qf_multiline e then Some m else if m \<noteq> NUL \<and> m \<noteq> qf_flag e then None else Some (qf_flag e))"

fun analyse_loop :: "query_flags list \<Rightarrow> string \<Rightarrow> 32 word \<Rightarrow> char \<Rightarrow> (32 word \<times> char) option" where
  "analyse_loop qfs [] fl m = Some (fl, m)"
| "analyse_loop qfs (c # s) fl m =
     (if c \<noteq> CHR ''%'' then analyse_loop qfs s fl m
      else
        (case find (\<lambda>e. qf_flag e = deref s) qfs of
           None \<Rightarrow> None
         | Some e \<Rightarrow>
             if qf_options e \<noteq> [] \<and> deref (tl s) \<notin> set (qf_options e) then None
             else
               (case new_multiline e m of
                  None \<Rightarrow> None
                | Some m' \<Rightarrow>
                    analyse_loop qfs (drop (if qf_options e = [] then 1 else 2) s) (or fl (flags_of qfs e (deref (tl s)))) m')))"

definition analyse_query_string :: "string \<Rightarrow> query_flags list \<Rightarrow> 32 word \<Rightarrow> char \<Rightarrow> (32 word \<times> char) option" where
  "analyse_query_string qstr qfs fl m = (if strchr qstr (CHR ''%'') = None then None else analyse_loop qfs qstr fl m)"

section \<open>Output\<close>

text \<open>One more turn than the format has characters is enough.\<close>

definition pkg_utstring_printf :: "strftime \<Rightarrow> string \<Rightarrow> string \<Rightarrow> pkg_data \<Rightarrow> string option" where
  "pkg_utstring_printf tm dest format d = pkg_utstring_vprintf (length format + 1) tm dest format [d]"

text \<open>The formats for a field of the package, and for the item with one letter or two.\<close>

definition field_format :: "char \<Rightarrow> string option" where
  "field_format = map_of
     [(CHR ''n'', ''%n''), (CHR ''v'', ''%v''), (CHR ''o'', ''%o''), (CHR ''R'', ''%N''), (CHR ''p'', ''%p''),
      (CHR ''m'', ''%m''), (CHR ''c'', ''%c''), (CHR ''w'', ''%w''), (CHR ''t'', ''%t''), (CHR ''e'', ''%e''),
      (CHR ''Q'', ''%Q''), (CHR ''q'', ''%q''), (CHR ''l'', ''%l'')]"

definition item_format :: "char \<Rightarrow> string option" where
  "item_format = map_of
     [(CHR ''C'', ''%Cn''), (CHR ''D'', ''%Dn''), (CHR ''L'', ''%Ln''), (CHR ''U'', ''%Un''), (CHR ''G'', ''%Gn''),
      (CHR ''B'', ''%Bn''), (CHR ''b'', ''%bn'')]"

definition part_format :: "char \<Rightarrow> char \<Rightarrow> string option" where
  "part_format c e = map_of
     [(''dn'', ''%dn''), (''do'', ''%do''), (''dv'', ''%dv''), (''rn'', ''%rn''), (''ro'', ''%ro''), (''rv'', ''%rv''),
      (''Fp'', ''%Fn''), (''Fs'', ''%Fs''), (''Ok'', ''%On''), (''Ov'', ''%Ov''), (''Od'', ''%Od''), (''OD'', ''%OD''),
      (''At'', ''%An''), (''Av'', ''%Av'')] [c, e]"

definition truth_digit :: "bool \<Rightarrow> string" where
  "truth_digit b = (if b then ''1'' else ''0'')"

text \<open>What an escape does to the buffer; escapes that are not known do nothing.\<close>

definition format_escape :: "strftime \<Rightarrow> pkg_view \<Rightarrow> pkg_data \<Rightarrow> char \<Rightarrow> char \<Rightarrow> string \<Rightarrow> string option" where
  "format_escape tm v d c e dest =
     (case field_format c of
        Some f \<Rightarrow> pkg_utstring_printf tm dest f (D_pkg v)
      | None \<Rightarrow>
     (case item_format c of
        Some f \<Rightarrow> pkg_utstring_printf tm dest f d
      | None \<Rightarrow>
     (case part_format c e of
        Some f \<Rightarrow> pkg_utstring_printf tm dest f d
      | None \<Rightarrow>
        if c = CHR ''a'' then Some (dest @ truth_digit (pv_automatic v))
        else if c = CHR ''k'' then Some (dest @ truth_digit (pv_locked v))
        else if c = CHR ''V'' then Some (dest @ truth_digit (pv_vital v))
        else if c = CHR ''s'' then
          (if e = CHR ''h'' then pkg_utstring_printf tm dest ''%#sB'' (D_pkg v)
           else if e = CHR ''b'' then pkg_utstring_printf tm dest ''%s'' (D_pkg v)
           else Some dest)
        else if c = CHR ''?'' \<or> c = CHR ''#'' then
          (if e \<in> set ''drCFODLUGBbA'' then pkg_utstring_printf tm dest [CHR ''%'', c, e] (D_pkg v) else Some dest)
        else if c = CHR ''M'' then (if pv_message v \<noteq> [] then pkg_utstring_printf tm dest ''%M'' (D_pkg v) else Some dest)
        else if c = CHR ''%'' then Some (dest @ ''%'')
        else Some dest)))"

definition backslash_char :: "char \<Rightarrow> string" where
  "backslash_char c =
     (if c = CHR ''n'' then [CHR 10] else if c = CHR ''a'' then [CHR 7] else if c = CHR ''b'' then [CHR 8]
      else if c = CHR ''f'' then [CHR 12] else if c = CHR ''r'' then [CHR 13] else if c = CHR 0x5C then [CHR 0x5C]
      else if c = CHR ''t'' then [CHR 9] else [])"

text \<open>
  The loop; \<open>None\<close> steps behind the terminator, where an escape at the end of the string makes it go.
\<close>

function format_loop :: "strftime \<Rightarrow> pkg_view \<Rightarrow> pkg_data \<Rightarrow> string \<Rightarrow> string \<Rightarrow> string option" where
  "format_loop tm v d [] dest = Some dest"
| "format_loop tm v d (c # s) dest =
     (if c = CHR ''%'' then
        (let r = (if deref s \<in> set ''s?#drFOA'' then tl s else s) in
         case format_escape tm v d (deref s) (deref r) dest of
           None \<Rightarrow> None
         | Some dest' \<Rightarrow> if r = [] then None else format_loop tm v d (tl r) dest')
      else if c = CHR 0x5C then
        (if s = [] then None else format_loop tm v d (tl s) (dest @ backslash_char (deref s)))
      else format_loop tm v d s (dest @ [c]))"
  by pat_completeness auto
termination by (relation "measure (\<lambda>(tm, v, d, s, dest). length s)") (auto simp: Let_def split: if_splits)

definition format_str :: "strftime \<Rightarrow> pkg_view \<Rightarrow> string \<Rightarrow> pkg_data \<Rightarrow> string option" where
  "format_str tm v qstr d = format_loop tm v d qstr []"

text \<open>What a query prints lines for.\<close>

definition query_items :: "pkg_view \<Rightarrow> char \<Rightarrow> pkg_data list" where
  "query_items v m =
     (if m = CHR ''d'' then map D_dep (pv_depends v)
      else if m = CHR ''r'' then map D_dep (pv_rdepends v)
      else if m = CHR ''C'' then map (D_string \<circ> Some) (pv_categories v)
      else if m = CHR ''O'' then map D_option (pv_options v)
      else if m = CHR ''F'' then map D_file (pv_files v)
      else if m = CHR ''D'' then map D_dir (pv_dirs v)
      else if m = CHR ''L'' then map (D_string \<circ> Some) (pv_licenses v)
      else if m = CHR ''U'' then map (D_string \<circ> Some) (pv_users v)
      else if m = CHR ''G'' then map (D_string \<circ> Some) (pv_groups v)
      else if m = CHR ''B'' then map (D_string \<circ> Some) (pv_shlibs_required v)
      else if m = CHR ''b'' then map (D_string \<circ> Some) (pv_shlibs_provided v)
      else if m = CHR ''A'' then map D_kv (pv_annotations v)
      else [D_null])"

fun print_lines :: "strftime \<Rightarrow> pkg_view \<Rightarrow> string \<Rightarrow> pkg_data list \<Rightarrow> string option" where
  "print_lines tm v qstr [] = Some []"
| "print_lines tm v qstr (d # ds) =
     (case format_str tm v qstr d of
        None \<Rightarrow> None
      | Some t \<Rightarrow> map_option (\<lambda>out. c_body t @ CHR 10 # out) (print_lines tm v qstr ds))"

definition print_query :: "strftime \<Rightarrow> pkg_view \<Rightarrow> string \<Rightarrow> char \<Rightarrow> string option" where
  "print_query tm v qstr m = print_lines tm v qstr (query_items v m)"

end
