(* ===== verification/Query_Facts.thy ===== *)
theory Query_Facts
  imports Query_Format
begin

text \<open>
  A query that passes the check prints: every escape it contains has an item of the right type.
\<close>

section \<open>Handlers that always print\<close>

definition no_alternate :: "percent_esc \<Rightarrow> bool" where
  "no_alternate p \<longleftrightarrow> \<not> pe_alt1 p \<and> \<not> pe_alt2 p \<and> pe_item_fmt p = []"

definition total_on :: "('x \<Rightarrow> pkg_data) \<Rightarrow> (percent_esc \<Rightarrow> bool) \<Rightarrow> handler \<Rightarrow> bool" where
  "total_on K ok h \<longleftrightarrow> (\<forall>tm it buf x p. ok p \<longrightarrow> h tm it buf (K x) p \<noteq> None)"

lemma int_val_total: "\<not> pe_alt1 p \<Longrightarrow> \<not> pe_alt2 p \<Longrightarrow> int_val buf n p \<noteq> None"
proof -
  assume a: "\<not> pe_alt1 p" "\<not> pe_alt2 p"
  obtain fm fl where "gen_format 16 p ''ld'' = Some fm" "directive fm = Some (fl, ''ld'')"
    by (rule directive_gen_format [of "''ld''" p]) simp_all
  then show ?thesis using a by (simp add: int_val_def put_formatted_def printf_d_def)
qed

lemma list_count_total: "list_count buf n p \<noteq> None"
  unfolding list_count_def by (rule int_val_total) simp_all

lemma string_handlers_total:
  "total_on D_string no_alternate format_shlib_name" "total_on D_string no_alternate format_category_name"
  "total_on D_string no_alternate format_license_name" "total_on D_string no_alternate format_user_name"
  "total_on D_string no_alternate format_group_name"
  by (simp_all add: total_on_def handlers_of_values of_string_def string_val_text)

lemma item_handlers_total:
  "total_on D_dir no_alternate format_directory_path"
  "total_on D_dep no_alternate format_dependency_name" "total_on D_dep no_alternate format_dependency_origin"
  "total_on D_dep no_alternate format_dependency_version"
  "total_on D_file no_alternate format_file_path" "total_on D_file no_alternate format_file_sha256"
  "total_on D_option no_alternate format_option_name" "total_on D_option no_alternate format_option_value"
  "total_on D_option no_alternate format_option_default" "total_on D_option no_alternate format_option_description"
  "total_on D_kv no_alternate format_annotation_name" "total_on D_kv no_alternate format_annotation_value"
  by (simp_all add: total_on_def handlers_of_values of_dir_def of_dep_def of_file_def of_option_def of_kv_def string_val_text)

lemma field_handlers_total:
  "total_on D_pkg no_alternate format_name" "total_on D_pkg no_alternate format_version"
  "total_on D_pkg no_alternate format_origin" "total_on D_pkg no_alternate format_repo_ident"
  "total_on D_pkg no_alternate format_prefix" "total_on D_pkg no_alternate format_maintainer"
  "total_on D_pkg no_alternate format_comment" "total_on D_pkg no_alternate format_home_url"
  "total_on D_pkg no_alternate format_description" "total_on D_pkg no_alternate format_altabi"
  "total_on D_pkg no_alternate format_architecture" "total_on D_pkg no_alternate format_license_logic"
  "total_on D_pkg no_alternate format_message"
  by (simp_all add: total_on_def handlers_of_values of_pkg_def string_val_text liclog_val_def)

lemma number_handlers_total:
  "total_on D_pkg no_alternate format_flatsize" "total_on D_pkg no_alternate format_install_tstamp"
  using int_val_total
  by (simp_all add: total_on_def no_alternate_def handlers_of_values of_pkg_def format_install_tstamp_def)

lemma list_handler_total: "total_on D_pkg (\<lambda>p. pe_alt1 p \<or> pe_alt2 p) (format_list ctx items i s)"
  using list_count_total by (simp add: total_on_def format_list_def)

lemmas handlers_total = string_handlers_total item_handlers_total field_handlers_total number_handlers_total

text \<open>What a format of one escape is parsed to.\<close>

definition parses_to :: "(percent_esc \<Rightarrow> bool) \<Rightarrow> nat list \<Rightarrow> string \<Rightarrow> bool" where
  "parses_to ok codes f \<longleftrightarrow> f \<noteq> [] \<and> hd f = CHR ''%'' \<and>
     (case parse_format f PP_PKG new_percent_esc of None \<Rightarrow> False | Some (r, p) \<Rightarrow> r = [] \<and> ok p \<and> pe_code p \<in> set codes)"

lemma put_total:
  assumes "parses_to ok codes f" "\<forall>i \<in> set codes. i \<le> PP_LAST_FORMAT \<and> total_on K ok (fmt_handler (fmt ! i))"
  shows "pkg_utstring_printf tm dest f (K x) \<noteq> None"
proof -
  from assms(1) obtain p where p: "f \<noteq> []" "hd f = CHR ''%''" "parse_format f PP_PKG new_percent_esc = Some ([], p)" "ok p"
    "pe_code p \<in> set codes" by (auto simp: parses_to_def split: option.splits)
  then have code: "pe_code p \<le> PP_LAST_FORMAT" using assms(2) by blast
  then have less: "pe_code p < PP_UNKNOWN" by (simp add: PP_LAST_FORMAT_def PP_UNKNOWN_def)
  obtain b k where h: "fmt_handler (fmt ! pe_code p) tm (print_item tm) dest (K x) p = Some (b, k)"
    using assms(2) p(4,5) unfolding total_on_def by fastforce
  have "k" by (rule handler_answers [OF less item_printer_print_item h])
  then have "vprintf_step tm (f, [K x], dest) = Some ([], [], b)"
    using p code h by (simp add: vprintf_step_def process_format_main_def)
  then show ?thesis using p(1) by (cases f) (simp_all add: pkg_utstring_printf_def pkg_utstring_vprintf_def)
qed

section \<open>The formats of each group\<close>

lemma answers:
  "total_on K ok h \<Longrightarrow> ok p \<Longrightarrow> h tm it buf (K x) p \<noteq> None"
  by (simp add: total_on_def)

lemma fields_total:
  assumes "field_format c = Some f"
  shows "pkg_utstring_printf tm dest f (D_pkg v) \<noteq> None"
proof -
  let ?codes = "[23, 24, 30, 39, 45, 47, 48, 49, 50, 51, 52, 58, 59, 61, 62]"
  have all: "list_all (parses_to no_alternate ?codes)
      [''%n'', ''%v'', ''%o'', ''%N'', ''%p'', ''%m'', ''%c'', ''%w'', ''%t'', ''%e'', ''%Q'', ''%q'', ''%l'']"
    by code_simp
  have "parses_to no_alternate ?codes f"
    using map_of_SomeD [OF assms [unfolded field_format_def]] all by auto
  moreover have "\<forall>i \<in> set ?codes. i \<le> PP_LAST_FORMAT \<and> total_on D_pkg no_alternate (fmt_handler (fmt ! i))"
    by (simp add: fmt_def escape_entry_def PP_LAST_FORMAT_def handlers_total)
  ultimately show ?thesis by (rule put_total [where K = D_pkg])
qed

lemma strings_total:
  assumes "f \<in> {''%Cn'', ''%Ln'', ''%Un'', ''%Gn'', ''%Bn'', ''%bn''}"
  shows "pkg_utstring_printf tm dest f (D_string x) \<noteq> None"
proof -
  let ?codes = "[3, 5, 18, 21, 33, 37]"
  have all: "list_all (parses_to no_alternate ?codes) [''%Cn'', ''%Ln'', ''%Un'', ''%Gn'', ''%Bn'', ''%bn'']"
    by code_simp
  have "parses_to no_alternate ?codes f" using assms all by auto
  moreover have "\<forall>i \<in> set ?codes. i \<le> PP_LAST_FORMAT \<and> total_on D_string no_alternate (fmt_handler (fmt ! i))"
    by (simp add: fmt_def escape_entry_def PP_LAST_FORMAT_def handlers_total)
  ultimately show ?thesis by (rule put_total [where K = D_string])
qed

lemma deps_total:
  assumes "f \<in> {''%dn'', ''%do'', ''%dv'', ''%rn'', ''%ro'', ''%rv''}"
  shows "pkg_utstring_printf tm dest f (D_dep x) \<noteq> None"
proof -
  let ?codes = "[41, 42, 43, 54, 55, 56]"
  have all: "list_all (parses_to no_alternate ?codes) [''%dn'', ''%do'', ''%dv'', ''%rn'', ''%ro'', ''%rv'']"
    by code_simp
  have "parses_to no_alternate ?codes f" using assms all by auto
  moreover have "\<forall>i \<in> set ?codes. i \<le> PP_LAST_FORMAT \<and> total_on D_dep no_alternate (fmt_handler (fmt ! i))"
    by (simp add: fmt_def escape_entry_def PP_LAST_FORMAT_def handlers_total)
  ultimately show ?thesis by (rule put_total [where K = D_dep])
qed

lemma options_total:
  assumes "f \<in> {''%On'', ''%Ov'', ''%Od'', ''%OD''}"
  shows "pkg_utstring_printf tm dest f (D_option x) \<noteq> None"
proof -
  let ?codes = "[25, 26, 27, 28]"
  have all: "list_all (parses_to no_alternate ?codes) [''%On'', ''%Ov'', ''%Od'', ''%OD'']"
    by code_simp
  have "parses_to no_alternate ?codes f" using assms all by auto
  moreover have "\<forall>i \<in> set ?codes. i \<le> PP_LAST_FORMAT \<and> total_on D_option no_alternate (fmt_handler (fmt ! i))"
    by (simp add: fmt_def escape_entry_def PP_LAST_FORMAT_def handlers_total)
  ultimately show ?thesis by (rule put_total [where K = D_option])
qed

lemma files_total:
  assumes "f \<in> {''%Fn'', ''%Fs''}"
  shows "pkg_utstring_printf tm dest f (D_file x) \<noteq> None"
proof -
  have all: "list_all (parses_to no_alternate [13, 15]) [''%Fn'', ''%Fs'']"
    by code_simp
  have "parses_to no_alternate [13, 15] f" using assms all by auto
  moreover have "\<forall>i \<in> set [13, 15]. i \<le> PP_LAST_FORMAT \<and> total_on D_file no_alternate (fmt_handler (fmt ! i))"
    by (simp add: fmt_def escape_entry_def PP_LAST_FORMAT_def handlers_total)
  ultimately show ?thesis by (rule put_total [where K = D_file])
qed

lemma notes_total:
  assumes "f \<in> {''%An'', ''%Av''}"
  shows "pkg_utstring_printf tm dest f (D_kv x) \<noteq> None"
proof -
  have all: "list_all (parses_to no_alternate [0, 1]) [''%An'', ''%Av'']"
    by code_simp
  have "parses_to no_alternate [0, 1] f" using assms all by auto
  moreover have "\<forall>i \<in> set [0, 1]. i \<le> PP_LAST_FORMAT \<and> total_on D_kv no_alternate (fmt_handler (fmt ! i))"
    by (simp add: fmt_def escape_entry_def PP_LAST_FORMAT_def handlers_total)
  ultimately show ?thesis by (rule put_total [where K = D_kv])
qed

lemma dirs_total: "pkg_utstring_printf tm dest ''%Dn'' (D_dir x) \<noteq> None"
proof -
  have "parses_to no_alternate [8] ''%Dn''" by code_simp
  moreover have "\<forall>i \<in> set [8]. i \<le> PP_LAST_FORMAT \<and> total_on D_dir no_alternate (fmt_handler (fmt ! i))"
    by (simp add: fmt_def escape_entry_def PP_LAST_FORMAT_def handlers_total)
  ultimately show ?thesis by (rule put_total [where K = D_dir])
qed

lemma size_message_total:
  "pkg_utstring_printf tm dest ''%s'' (D_pkg v) \<noteq> None" "pkg_utstring_printf tm dest ''%M'' (D_pkg v) \<noteq> None"
proof -
  have f: "parses_to no_alternate [23, 58] ''%s''" "parses_to no_alternate [23, 58] ''%M''" by code_simp+
  have c: "\<forall>i \<in> set [23, 58]. i \<le> PP_LAST_FORMAT \<and> total_on D_pkg no_alternate (fmt_handler (fmt ! i))"
    by (simp add: fmt_def escape_entry_def PP_LAST_FORMAT_def handlers_total)
  show "pkg_utstring_printf tm dest ''%s'' (D_pkg v) \<noteq> None" by (rule put_total [where K = D_pkg, OF f(1) c])
  show "pkg_utstring_printf tm dest ''%M'' (D_pkg v) \<noteq> None" by (rule put_total [where K = D_pkg, OF f(2) c])
qed

lemma counts_total:
  assumes "c = CHR ''?'' \<or> c = CHR ''#''" "e \<in> set ''drCFODLUGBbA''"
  shows "pkg_utstring_printf tm dest [CHR ''%'', c, e] (D_pkg v) \<noteq> None"
proof -
  let ?ok = "\<lambda>p. pe_alt1 p \<or> pe_alt2 p"
  let ?codes = "[44, 57, 6, 17, 29, 11, 22, 34, 19, 4, 38, 2]"
  have one: "list_all (\<lambda>e. parses_to ?ok ?codes [CHR ''%'', CHR ''?'', e]) ''drCFODLUGBbA''"
    by code_simp
  have two: "list_all (\<lambda>e. parses_to ?ok ?codes [CHR ''%'', CHR ''#'', e]) ''drCFODLUGBbA''"
    by code_simp
  have "parses_to ?ok ?codes [CHR ''%'', c, e]" using assms one two unfolding list_all_iff by blast
  moreover have "\<forall>i \<in> set ?codes. i \<le> PP_LAST_FORMAT \<and> total_on D_pkg ?ok (fmt_handler (fmt ! i))"
    by (simp add: fmt_def escape_entry_def PP_LAST_FORMAT_def format_annotations_def format_shlibs_required_def
      format_categories_def format_directories_def format_files_def format_groups_def format_licenses_def format_options_def
      format_users_def format_shlibs_provided_def format_dependencies_def format_requirements_def list_handler_total)
  ultimately show ?thesis by (rule put_total [where K = D_pkg])
qed

text \<open>The human-readable size: the trailing \<^verbatim>\<open>B\<close> is text.\<close>

lemma human_number_total:
  assumes "number \<noteq> - (2 ^ 63)"
  shows "human_number buf number p \<noteq> None"
proof -
  let ?p = "p\<lparr>pe_alt1 := False, pe_alt2 := False\<rparr>"
  obtain fm fl where "gen_format 16 ?p ''.*f'' = Some fm" "directive fm = Some (fl, ''.*f'')"
    by (rule directive_gen_format [of "''.*f''" ?p]) simp_all
  then show ?thesis using assms
    by (auto simp: human_number_def put_formatted_def printf_f_def Let_def split: prod.splits)
qed

lemma human_size_total:
  assumes "pv_flatsize v \<noteq> - (2 ^ 63)"
  shows "pkg_utstring_printf tm dest ''%#sB'' (D_pkg v) \<noteq> None"
proof -
  obtain p where p: "parse_format ''%#sB'' PP_PKG new_percent_esc = Some (''B'', p)" "pe_code p = 58" "pe_alt1 p \<or> pe_alt2 p"
  proof
    let ?p = "snd (the (parse_format ''%#sB'' PP_PKG new_percent_esc))"
    show "parse_format ''%#sB'' PP_PKG new_percent_esc = Some (''B'', ?p)" by code_simp
    show "pe_code ?p = 58" by code_simp
    show "pe_alt1 ?p \<or> pe_alt2 ?p" by code_simp
  qed
  have code: "fmt_handler (fmt ! pe_code p) = format_flatsize" by (simp add: p(2) fmt_def escape_entry_def)
  obtain b k where h: "format_flatsize tm (print_item tm) dest (D_pkg v) p = Some (b, k)"
    using human_number_total [OF assms, of dest p] p(3)
    by (auto simp: format_flatsize_def of_pkg_def int_val_def)
  have "pe_code p < PP_UNKNOWN" by (simp add: p(2) PP_UNKNOWN_def)
  then have "k" using handler_answers item_printer_print_item h unfolding code [symmetric] by blast
  then have "vprintf_step tm (''%#sB'', [D_pkg v], dest) = Some (''B'', [], b)"
    using p h code by (simp add: vprintf_step_def process_format_main_def PP_LAST_FORMAT_def)
  then show ?thesis by (simp add: pkg_utstring_printf_def pkg_utstring_vprintf_def vprintf_step_def)
qed

section \<open>Queries\<close>

lemma accepted_flags:
  assumes "e \<in> set accepted_query_flags"
  shows "(let c = qf_flag e in
     c \<in> set ''nvoRpmcwteQql'' \<or> c \<in> set ''CDLUGBb'' \<and> qf_multiline e
       \<or> c \<in> set ''drFOA'' \<and> qf_multiline e \<and> qf_options e \<noteq> [] \<and> list_all (\<lambda>a. part_format c a \<noteq> None) (qf_options e)
       \<or> c = CHR ''s'' \<and> qf_options e = ''hb''
       \<or> (c = CHR ''?'' \<or> c = CHR ''#'') \<and> qf_options e = ''drCFODLUGBbA'' \<or> c \<in> set ''akVM'')"
proof -
  have "list_all (\<lambda>e. let c = qf_flag e in
     c \<in> set ''nvoRpmcwteQql'' \<or> c \<in> set ''CDLUGBb'' \<and> qf_multiline e
       \<or> c \<in> set ''drFOA'' \<and> qf_multiline e \<and> qf_options e \<noteq> [] \<and> list_all (\<lambda>a. part_format c a \<noteq> None) (qf_options e)
       \<or> c = CHR ''s'' \<and> qf_options e = ''hb''
       \<or> (c = CHR ''?'' \<or> c = CHR ''#'') \<and> qf_options e = ''drCFODLUGBbA'' \<or> c \<in> set ''akVM'') accepted_query_flags"
    by code_simp
  then show ?thesis using assms by (auto simp: list_all_iff)
qed

lemma field_escape:
  assumes "c \<in> set ''nvoRpmcwteQql''" shows "format_escape tm v d c a dest \<noteq> None"
proof -
  have "list_all (\<lambda>c. field_format c \<noteq> None) ''nvoRpmcwteQql''" by code_simp
  then obtain f where "field_format c = Some f" using assms by (auto simp: list_all_iff)
  then show ?thesis using fields_total [of c f] by (simp add: format_escape_def)
qed

lemma item_escape:
  assumes "c \<in> set ''CDLUGBb''" "d \<in> set (query_items v c)"
  shows "format_escape tm v d c a dest \<noteq> None"
proof -
  have "list_all (\<lambda>c. field_format c = None \<and> item_format c = Some [CHR ''%'', c, CHR ''n'']) ''CDLUGBb''" by code_simp
  then have f: "field_format c = None" "item_format c = Some [CHR ''%'', c, CHR ''n'']" using assms(1) by (auto simp: list_all_iff)
  have "c = CHR ''D'' \<and> (\<exists>x. d = D_dir x) \<or> c \<noteq> CHR ''D'' \<and> (\<exists>x. d = D_string x)"
    using assms by (auto simp: query_items_def)
  then have "pkg_utstring_printf tm dest [CHR ''%'', c, CHR ''n''] d \<noteq> None"
    using assms(1) dirs_total [of tm dest] strings_total [of "[CHR ''%'', c, CHR ''n'']" tm dest] by auto
  then show ?thesis by (simp add: format_escape_def f)
qed

lemma part_format_cases:
  assumes "part_format c a = Some g"
  shows "c \<in> set ''dr'' \<and> g \<in> {''%dn'', ''%do'', ''%dv'', ''%rn'', ''%ro'', ''%rv''}
      \<or> c = CHR ''F'' \<and> g \<in> {''%Fn'', ''%Fs''} \<or> c = CHR ''O'' \<and> g \<in> {''%On'', ''%Ov'', ''%Od'', ''%OD''}
      \<or> c = CHR ''A'' \<and> g \<in> {''%An'', ''%Av''}"
  using map_of_SomeD [OF assms [unfolded part_format_def]]
  by (simp only: list.set insert_iff empty_iff prod.inject list.inject) (elim disjE conjE; simp)

lemma part_escape:
  assumes "c \<in> set ''drFOA''" "part_format c a \<noteq> None" "d \<in> set (query_items v c)"
  shows "format_escape tm v d c a dest \<noteq> None"
proof -
  have "list_all (\<lambda>c. field_format c = None \<and> item_format c = None) ''drFOA''" by code_simp
  then have f: "field_format c = None" "item_format c = None" using assms(1) by (auto simp: list_all_iff)
  obtain g where g: "part_format c a = Some g" using assms(2) by blast
  note part_format_cases [OF g]
  then have "pkg_utstring_printf tm dest g d \<noteq> None"
  proof (elim disjE conjE)
    assume "c \<in> set ''dr''" and h: "g \<in> {''%dn'', ''%do'', ''%dv'', ''%rn'', ''%ro'', ''%rv''}"
    then obtain x where "d = D_dep x" using assms(3) by (auto simp: query_items_def)
    then show ?thesis using deps_total [OF h] by simp
  next
    assume "c = CHR ''F''" and h: "g \<in> {''%Fn'', ''%Fs''}"
    then obtain x where "d = D_file x" using assms(3) by (auto simp: query_items_def)
    then show ?thesis using files_total [OF h] by simp
  next
    assume "c = CHR ''O''" and h: "g \<in> {''%On'', ''%Ov'', ''%Od'', ''%OD''}"
    then obtain x where "d = D_option x" using assms(3) by (auto simp: query_items_def)
    then show ?thesis using options_total [OF h] by simp
  next
    assume "c = CHR ''A''" and h: "g \<in> {''%An'', ''%Av''}"
    then obtain x where "d = D_kv x" using assms(3) by (auto simp: query_items_def)
    then show ?thesis using notes_total [OF h] by simp
  qed
  then show ?thesis by (simp add: format_escape_def f g)
qed

lemma other_escape:
  assumes "c = CHR ''s'' \<and> a \<in> set ''hb'' \<or> (c = CHR ''?'' \<or> c = CHR ''#'') \<and> a \<in> set ''drCFODLUGBbA'' \<or> c \<in> set ''akVM''"
    "pv_flatsize v \<noteq> - (2 ^ 63)"
  shows "format_escape tm v d c a dest \<noteq> None"
proof -
  have "list_all (\<lambda>c. field_format c = None \<and> item_format c = None) ''s?#akVM''" by code_simp
  then have f: "field_format c = None" "item_format c = None" using assms(1) by (auto simp: list_all_iff)
  have g: "part_format c a = None"
  proof (rule ccontr)
    assume "part_format c a \<noteq> None"
    then have "c \<in> set ''drFOA''" using part_format_cases by fastforce
    then show False using assms(1) by (elim disjE conjE) auto
  qed
  have "pkg_utstring_printf tm dest ''%#sB'' (D_pkg v) \<noteq> None" by (rule human_size_total [OF assms(2)])
  moreover have "(c = CHR ''?'' \<or> c = CHR ''#'') \<and> a \<in> set ''drCFODLUGBbA'' \<Longrightarrow> ?thesis"
    using counts_total [of c a tm dest v] unfolding format_escape_def f g option.case by (elim conjE disjE) simp_all
  ultimately show ?thesis using assms(1) size_message_total [of tm dest v]
    unfolding format_escape_def f g option.case by (elim disjE conjE) auto
qed

lemma escape_total:
  assumes "e \<in> set accepted_query_flags" "qf_options e \<noteq> [] \<longrightarrow> a \<in> set (qf_options e)" "qf_multiline e \<longrightarrow> m = qf_flag e"
    "d \<in> set (query_items v m)" "pv_flatsize v \<noteq> - (2 ^ 63)"
  shows "format_escape tm v d (qf_flag e) a dest \<noteq> None"
  using accepted_flags [OF assms(1)] assms(2-) field_escape item_escape part_escape other_escape
  unfolding Let_def by (elim disjE conjE) (auto simp: list_all_iff)

text \<open>The walk of a query: a backslash must have a character behind it.\<close>

fun no_lone_backslash :: "string \<Rightarrow> bool" where
  "no_lone_backslash [] = True"
| "no_lone_backslash [c] = (c \<noteq> CHR 0x5C)"
| "no_lone_backslash (c # b # s) = (if c = CHR 0x5C then no_lone_backslash s else no_lone_backslash (b # s))"

lemma no_lone_plain: "c \<noteq> CHR 0x5C \<Longrightarrow> no_lone_backslash (c # s) \<longleftrightarrow> no_lone_backslash s"
  by (cases s) simp_all

lemma analyse_loop_keeps:
  "analyse_loop qfs s fl m = Some (fl', m') \<Longrightarrow> m \<noteq> NUL \<Longrightarrow> m' = m"
proof (induction qfs s fl m rule: analyse_loop.induct)
  case (2 qfs c s fl m)
  then show ?case
    by (auto simp: new_multiline_def split: if_splits option.splits)
qed simp

text \<open>An escape that passes is its letters, and those of no other meaning.\<close>

lemma accepted_letters:
  assumes "e \<in> set accepted_query_flags"
  shows "qf_flag e \<notin> {NUL, CHR ''%'', CHR 0x5C}" "set (qf_options e) \<inter> {NUL, CHR ''%'', CHR 0x5C} = {}"
    "qf_options e \<noteq> [] \<longleftrightarrow> qf_flag e \<in> set ''s?#drFOA''"
proof -
  have "list_all (\<lambda>e. qf_flag e \<noteq> NUL \<and> qf_flag e \<noteq> CHR ''%'' \<and> qf_flag e \<noteq> CHR 0x5C
      \<and> NUL \<notin> set (qf_options e) \<and> CHR ''%'' \<notin> set (qf_options e) \<and> CHR 0x5C \<notin> set (qf_options e)
      \<and> ((qf_options e \<noteq> []) = (qf_flag e \<in> set ''s?#drFOA''))) accepted_query_flags"
    by code_simp
  then have "qf_flag e \<noteq> NUL \<and> qf_flag e \<noteq> CHR ''%'' \<and> qf_flag e \<noteq> CHR 0x5C
      \<and> NUL \<notin> set (qf_options e) \<and> CHR ''%'' \<notin> set (qf_options e) \<and> CHR 0x5C \<notin> set (qf_options e)
      \<and> ((qf_options e \<noteq> []) = (qf_flag e \<in> set ''s?#drFOA''))"
    using assms unfolding list_all_iff by blast
  then show "qf_flag e \<notin> {NUL, CHR ''%'', CHR 0x5C}" "set (qf_options e) \<inter> {NUL, CHR ''%'', CHR 0x5C} = {}"
    "qf_options e \<noteq> [] \<longleftrightarrow> qf_flag e \<in> set ''s?#drFOA''" by blast+
qed

lemma analyse_escape:
  assumes "analyse_loop accepted_query_flags (CHR ''%'' # s) fl m = Some (fl', m')"
  obtains e letters rest fl1 m1 where "e \<in> set accepted_query_flags" "s = letters @ rest"
    "letters = qf_flag e # (if qf_options e = [] then [] else [deref (tl s)])"
    "qf_options e \<noteq> [] \<longrightarrow> deref (tl s) \<in> set (qf_options e)" "qf_multiline e \<longrightarrow> m' = qf_flag e"
    "analyse_loop accepted_query_flags rest fl1 m1 = Some (fl', m')"
    "\<forall>a \<in> set letters. a \<noteq> CHR ''%'' \<and> a \<noteq> CHR 0x5C"
proof -
  obtain e m1 where e: "find (\<lambda>e. qf_flag e = deref s) accepted_query_flags = Some e"
    "qf_options e \<noteq> [] \<longrightarrow> deref (tl s) \<in> set (qf_options e)" "new_multiline e m = Some m1"
    "analyse_loop accepted_query_flags (drop (if qf_options e = [] then 1 else 2) s)
       (or fl (flags_of accepted_query_flags e (deref (tl s)))) m1 = Some (fl', m')"
    using assms by (auto split: option.splits if_splits)
  have e1: "e \<in> set accepted_query_flags" "qf_flag e = deref s"
    using e(1) by (auto simp: find_Some_iff)
  note L = accepted_letters [OF e1(1)]
  obtain s1 where s: "s = qf_flag e # s1" using e1(2) L(1) by (cases s) (auto simp: deref_def)
  have s2: "qf_options e \<noteq> [] \<longrightarrow> (\<exists>s2. s1 = deref (tl s) # s2)" using e(2) L(2) s by (cases s1) (auto simp: deref_def)
  have "qf_multiline e \<longrightarrow> m' = qf_flag e"
    using e(3,4) analyse_loop_keeps [OF e(4)] L(1) by (auto simp: new_multiline_def split: if_splits)
  moreover have "s = (qf_flag e # (if qf_options e = [] then [] else [deref (tl s)])) @ drop (if qf_options e = [] then 1 else 2) s"
    using s s2 by (cases s1; cases "qf_options e = []") auto
  moreover have "\<forall>a \<in> set (qf_flag e # (if qf_options e = [] then [] else [deref (tl s)])). a \<noteq> CHR ''%'' \<and> a \<noteq> CHR 0x5C"
    using L(1,2) e(2) by auto
  ultimately show ?thesis using that [OF e1(1) _ refl e(2) _ e(4)] by blast
qed

lemma format_loop_plain:
  "\<forall>a \<in> set l. a \<noteq> CHR ''%'' \<and> a \<noteq> CHR 0x5C \<Longrightarrow> format_loop tm v d (l @ r) dest = format_loop tm v d r (dest @ l)"
  by (induction l arbitrary: dest) auto

lemma no_lone_plain_all:
  "\<forall>a \<in> set l. a \<noteq> CHR ''%'' \<and> a \<noteq> CHR 0x5C \<Longrightarrow> no_lone_backslash (l @ r) \<longleftrightarrow> no_lone_backslash r"
  by (induction l) (simp_all add: no_lone_plain)

lemma format_loop_escape:
  assumes "analyse_loop accepted_query_flags (CHR ''%'' # s) fl m = Some (fl', m')" "d \<in> set (query_items v m')"
    "pv_flatsize v \<noteq> - (2 ^ 63)"
  obtains letters rest fl1 m1 dest' where "s = letters @ rest" "letters \<noteq> []"
    "\<forall>a \<in> set letters. a \<noteq> CHR ''%'' \<and> a \<noteq> CHR 0x5C"
    "analyse_loop accepted_query_flags rest fl1 m1 = Some (fl', m')"
    "format_loop tm v d (CHR ''%'' # s) dest = format_loop tm v d rest dest'"
proof -
  obtain e letters rest fl1 m1 where e: "e \<in> set accepted_query_flags" "s = letters @ rest"
    "letters = qf_flag e # (if qf_options e = [] then [] else [deref (tl s)])"
    "qf_options e \<noteq> [] \<longrightarrow> deref (tl s) \<in> set (qf_options e)" "qf_multiline e \<longrightarrow> m' = qf_flag e"
    "analyse_loop accepted_query_flags rest fl1 m1 = Some (fl', m')"
    "\<forall>a \<in> set letters. a \<noteq> CHR ''%'' \<and> a \<noteq> CHR 0x5C"
    using analyse_escape [OF assms(1)] by blast
  let ?r = "if deref s \<in> set ''s?#drFOA'' then tl s else s"
  have flag: "deref s = qf_flag e" using e(2,3) by (metis append_Cons deref_simps(2))
  have r: "?r = deref ?r # rest"
  proof (cases "qf_options e = []")
    case True
    then have "?r = s" using accepted_letters(3) [OF e(1)] flag by simp
    moreover have "s = deref s # rest" using e(2,3) True flag by simp
    ultimately show ?thesis by simp
  next
    case False
    then have "?r = tl s" using accepted_letters(3) [OF e(1)] flag by simp
    moreover have "s = qf_flag e # deref (tl s) # rest" using e(2,3) False by simp
    then have "tl s = deref (tl s) # rest" by (metis list.sel(3))
    ultimately show ?thesis by simp
  qed
  have "qf_options e \<noteq> [] \<longrightarrow> deref ?r \<in> set (qf_options e)"
    using e(4) accepted_letters(3) [OF e(1)] flag by simp
  then obtain dest' where "format_escape tm v d (deref s) (deref ?r) dest = Some dest'"
    using escape_total [OF e(1) _ e(5) assms(2,3)] unfolding flag by blast
  then have "format_loop tm v d (CHR ''%'' # s) dest = format_loop tm v d rest dest'"
    using r by (simp add: Let_def) (metis list.distinct(1) list.sel(3))
  then show ?thesis using that [OF e(2) _ e(7,6)] e(3) by blast
qed

lemma format_loop_prints:
  "analyse_loop accepted_query_flags q fl m = Some (fl', m') \<Longrightarrow> d \<in> set (query_items v m') \<Longrightarrow> pv_flatsize v \<noteq> - (2 ^ 63) \<Longrightarrow>
   format_loop tm v d q dest \<noteq> None \<longleftrightarrow> no_lone_backslash q"
proof (induction q arbitrary: fl m dest rule: length_induct)
  case less: (1 q)
  note p = less.prems
  note ih = less.IH [rule_format, OF _ _ p(2,3)]
  show ?case
  proof (cases q)
    case (Cons c s)
    consider (esc) "c = CHR ''%''" | (slash) "c = CHR 0x5C" | (plain) "c \<noteq> CHR ''%''" "c \<noteq> CHR 0x5C" by blast
    then show ?thesis
    proof cases
      case esc
      obtain letters rest fl1 m1 dest' where l: "s = letters @ rest" "letters \<noteq> []"
        "\<forall>a \<in> set letters. a \<noteq> CHR ''%'' \<and> a \<noteq> CHR 0x5C" "analyse_loop accepted_query_flags rest fl1 m1 = Some (fl', m')"
        "format_loop tm v d (CHR ''%'' # s) dest = format_loop tm v d rest dest'"
        by (rule format_loop_escape [where tm = tm and dest = dest, OF p(1) [unfolded Cons esc] p(2,3)])
      have "no_lone_backslash q \<longleftrightarrow> no_lone_backslash rest"
        unfolding Cons esc l(1) using l(3) by (simp add: no_lone_plain no_lone_plain_all)
      moreover have "length rest < length q" by (simp add: Cons l(1))
      ultimately show ?thesis using ih [OF _ l(4)] l(5) Cons esc by metis
    next
      case slash
      show ?thesis
      proof (cases s)
        case s: (Cons b t)
        show ?thesis
        proof (cases "b = CHR ''%''")
          case True
          have pass: "analyse_loop accepted_query_flags (CHR ''%'' # t) fl m = Some (fl', m')"
            using p(1) by (simp add: Cons slash s True)
          obtain letters rest fl1 m1 where l: "t = letters @ rest"
            "\<forall>a \<in> set letters. a \<noteq> CHR ''%'' \<and> a \<noteq> CHR 0x5C" "analyse_loop accepted_query_flags rest fl1 m1 = Some (fl', m')"
            using format_loop_escape [OF pass p(2,3)] by metis
          have "length rest < length q" by (simp add: Cons s l(1))
          then show ?thesis using ih [OF _ l(3)] l(2) by (simp add: Cons slash s l(1) format_loop_plain no_lone_plain_all)
        next
          case False
          then have "analyse_loop accepted_query_flags t fl m = Some (fl', m')"
            using p(1) by (simp add: Cons slash s)
          then show ?thesis using ih [of t] by (simp add: Cons slash s)
        qed
      qed (use Cons slash in simp)
    next
      case plain
      then show ?thesis using ih [of s] p(1) by (simp add: Cons no_lone_plain)
    qed
  qed simp
qed

lemma print_lines_None: "print_lines tm v q ds = None \<longleftrightarrow> (\<exists>d \<in> set ds. format_str tm v q d = None)"
  by (induction ds) (auto split: option.splits)

text \<open>C31. A query that passes the check prints for every package: each escape has an item of its type and
  no format is refused, whatever the package holds. The one exception is a query with a lone backslash
  at its end, which makes the loop step over the terminator. The package does not have the least
  64-bit number for its size, which the printing of numbers would negate.
\<close>

theorem query_prints:
  assumes "analyse_query_string q accepted_query_flags fl NUL = Some (fl', m)" "pv_flatsize v \<noteq> - (2 ^ 63)"
  shows "print_query tm v q m = None \<longleftrightarrow> query_items v m \<noteq> [] \<and> \<not> no_lone_backslash q"
proof -
  have "analyse_loop accepted_query_flags q fl NUL = Some (fl', m)"
    using assms(1) by (simp add: analyse_query_string_def split: if_splits)
  then have "format_str tm v q d = None \<longleftrightarrow> \<not> no_lone_backslash q" if "d \<in> set (query_items v m)" for d
    using format_loop_prints [OF _ that assms(2), where dest = "[]"] unfolding format_str_def by blast
  then show ?thesis unfolding print_query_def print_lines_None by (metis hd_in_set length_pos_if_in_set list.size(3) less_irrefl)
qed

lemma query_prints_witness:
  "analyse_query_string ''%n needs %dn'' accepted_query_flags 0 NUL = Some (1, CHR ''d'')
     \<and> print_query (\<lambda>f t. None) sample_view ''%n needs %dn'' (CHR ''d'') \<noteq> None
     \<and> print_query (\<lambda>f t. None) sample_view (''%n'' @ [CHR 0x5C]) NUL = None"
proof -
  have a: "analyse_query_string ''%n needs %dn'' accepted_query_flags 0 NUL = Some (1, CHR ''d'')"
    "analyse_query_string (''%n'' @ [CHR 0x5C]) accepted_query_flags 0 NUL = Some (0, NUL)" by code_simp+
  have b: "pv_flatsize sample_view \<noteq> - (2 ^ 63)" by (simp add: sample_view_def)
  have c: "query_items sample_view NUL \<noteq> []" "no_lone_backslash ''%n needs %dn''" "\<not> no_lone_backslash (''%n'' @ [CHR 0x5C])"
    by code_simp+
  show ?thesis using query_prints [OF a(1) b] query_prints [OF a(2) b] a(1) c by blast
qed

end
