(* ===== verification/Vulnxml.thy ===== *)
theory Vulnxml
  imports Prelude C_String Pkg_Types
begin

text \<open>
  Reading a vulnerability database (\<^verbatim>\<open>libpkg/pkg_audit.c\<close>): the callbacks of the XML parser as a
  state machine over its events. The parser itself is a library; its answer is the sequence of
  events and whether the text was well-formed.
\<close>

section \<open>Entries\<close>

text \<open>The types of versions are the numbers \<^verbatim>\<open>EQ\<close> to \<^verbatim>\<open>GTE\<close>, and zero.\<close>

datatype audit_op = No_op | EQ | LT | LTE | GT | GTE

record audit_version =
  av_version :: "string option"
  av_type :: audit_op

record versions_range =
  vr_v1 :: audit_version
  vr_v2 :: audit_version

record audit_package =
  ap_names :: "string option list"
  ap_versions :: "versions_range list"

record audit_entry =
  ae_pkgname :: "string option"
  ae_packages :: "audit_package list"
  ae_versions :: "versions_range list"
  ae_cve :: "string list"
  ae_url :: "string option"
  ae_desc :: "string option"
  ae_id :: "string option"
  ae_ref :: bool

definition no_version :: audit_version where
  "no_version = \<lparr>av_version = None, av_type = No_op\<rparr>"

definition no_range :: versions_range where
  "no_range = \<lparr>vr_v1 = no_version, vr_v2 = no_version\<rparr>"

definition no_entry :: audit_entry where
  "no_entry = \<lparr>ae_pkgname = None, ae_packages = [], ae_versions = [], ae_cve = [], ae_url = None, ae_desc = None,
     ae_id = None, ae_ref = False\<rparr>"

text \<open>One entry for each name, pushed in front of the list, and the full one; without a name in the
  package read last, nothing.\<close>

definition named_entry :: "audit_entry \<Rightarrow> audit_package \<Rightarrow> string option \<Rightarrow> audit_entry" where
  "named_entry e p name =
     no_entry\<lparr>ae_pkgname := name, ae_ref := True, ae_cve := ae_cve e, ae_desc := ae_desc e, ae_versions := ap_versions p,
       ae_url := ae_url e, ae_id := ae_id e\<rparr>"

definition pkg_audit_expand_entry :: "audit_entry \<Rightarrow> audit_entry list \<Rightarrow> audit_entry list" where
  "pkg_audit_expand_entry e head =
     (if ae_packages e = [] \<or> ap_names (hd (ae_packages e)) = [] then head
      else e # fold (\<lambda>p h. fold (\<lambda>name h. named_entry e p name # h) (ap_names p) h) (ae_packages e) head)"

section \<open>The state machine\<close>

datatype vulnxml_state = PARSE_INIT | PARSE_VULN | PARSE_TOPIC | PARSE_PACKAGE | PARSE_PACKAGE_NAME | PARSE_RANGE
  | PARSE_RANGE_GT | PARSE_RANGE_GE | PARSE_RANGE_LT | PARSE_RANGE_LE | PARSE_RANGE_EQ | PARSE_CVE

datatype xml_event = Start string "(string \<times> string) list" | End string | Data string

record vulnxml_userdata =
  ud_cur :: audit_entry
  ud_entries :: "audit_entry list"
  ud_state :: vulnxml_state
  ud_range_num :: nat

fun on_head :: "('a \<Rightarrow> 'a) \<Rightarrow> 'a list \<Rightarrow> 'a list" where
  "on_head f [] = []"
| "on_head f (x # xs) = f x # xs"

definition on_package :: "(audit_package \<Rightarrow> audit_package) \<Rightarrow> vulnxml_userdata \<Rightarrow> vulnxml_userdata" where
  "on_package f ud = ud\<lparr>ud_cur := (ud_cur ud)\<lparr>ae_packages := on_head f (ae_packages (ud_cur ud))\<rparr>\<rparr>"

fun range_state :: "string \<Rightarrow> vulnxml_state option" where
  "range_state el =
     (if strcaseeq el ''gt'' then Some PARSE_RANGE_GT
      else if strcaseeq el ''ge'' then Some PARSE_RANGE_GE
      else if strcaseeq el ''lt'' then Some PARSE_RANGE_LT
      else if strcaseeq el ''le'' then Some PARSE_RANGE_LE
      else if strcaseeq el ''eq'' then Some PARSE_RANGE_EQ
      else None)"

definition attribute :: "string \<Rightarrow> (string \<times> string) list \<Rightarrow> string option" where
  "attribute a ats = map_option snd (find (\<lambda>(k, v). strcaseeq k a) ats)"

definition vulnxml_start_element :: "string \<Rightarrow> (string \<times> string) list \<Rightarrow> vulnxml_userdata \<Rightarrow> vulnxml_userdata" where
  "vulnxml_start_element el ats ud =
     (case ud_state ud of
        PARSE_INIT \<Rightarrow>
          if strcaseeq el ''vuln''
          then ud\<lparr>ud_cur := no_entry\<lparr>ae_id := attribute ''vid'' ats\<rparr>, ud_state := PARSE_VULN\<rparr> else ud
      | PARSE_VULN \<Rightarrow>
          if strcaseeq el ''topic'' then ud\<lparr>ud_state := PARSE_TOPIC\<rparr>
          else if strcaseeq el ''package'' then
            ud\<lparr>ud_cur := (ud_cur ud)\<lparr>ae_packages := \<lparr>ap_names = [], ap_versions = []\<rparr> # ae_packages (ud_cur ud)\<rparr>, ud_state := PARSE_PACKAGE\<rparr>
          else if strcaseeq el ''cvename'' then ud\<lparr>ud_state := PARSE_CVE\<rparr>
          else ud
      | PARSE_PACKAGE \<Rightarrow>
          if strcaseeq el ''name'' then
            (on_package (\<lambda>p. p\<lparr>ap_names := None # ap_names p\<rparr>) ud)\<lparr>ud_state := PARSE_PACKAGE_NAME\<rparr>
          else if strcaseeq el ''range'' then
            (on_package (\<lambda>p. p\<lparr>ap_versions := no_range # ap_versions p\<rparr>) ud)\<lparr>ud_state := PARSE_RANGE, ud_range_num := 0\<rparr>
          else ud
      | PARSE_RANGE \<Rightarrow>
          (case range_state el of
             Some s \<Rightarrow> ud\<lparr>ud_range_num := ud_range_num ud + 1, ud_state := s\<rparr>
           | None \<Rightarrow> ud)
      | _ \<Rightarrow> ud)"

definition vulnxml_end_element :: "string \<Rightarrow> vulnxml_userdata \<Rightarrow> vulnxml_userdata" where
  "vulnxml_end_element el ud =
     (let back = (\<lambda>name s. if strcaseeq el name then ud\<lparr>ud_state := s\<rparr> else ud) in
      case ud_state ud of
        PARSE_VULN \<Rightarrow>
          if strcaseeq el ''vuln''
          then ud\<lparr>ud_entries := pkg_audit_expand_entry (ud_cur ud) (ud_entries ud), ud_state := PARSE_INIT\<rparr> else ud
      | PARSE_TOPIC \<Rightarrow> back ''topic'' PARSE_VULN
      | PARSE_CVE \<Rightarrow> back ''cvename'' PARSE_VULN
      | PARSE_PACKAGE \<Rightarrow> back ''package'' PARSE_VULN
      | PARSE_PACKAGE_NAME \<Rightarrow> back ''name'' PARSE_PACKAGE
      | PARSE_RANGE \<Rightarrow> back ''range'' PARSE_PACKAGE
      | PARSE_RANGE_GT \<Rightarrow> back ''gt'' PARSE_RANGE
      | PARSE_RANGE_GE \<Rightarrow> back ''ge'' PARSE_RANGE
      | PARSE_RANGE_LT \<Rightarrow> back ''lt'' PARSE_RANGE
      | PARSE_RANGE_LE \<Rightarrow> back ''le'' PARSE_RANGE
      | PARSE_RANGE_EQ \<Rightarrow> back ''eq'' PARSE_RANGE
      | PARSE_INIT \<Rightarrow> ud)"

fun range_type :: "vulnxml_state \<Rightarrow> audit_op" where
  "range_type PARSE_RANGE_GT = GT"
| "range_type PARSE_RANGE_GE = GTE"
| "range_type PARSE_RANGE_LT = LT"
| "range_type PARSE_RANGE_LE = LTE"
| "range_type PARSE_RANGE_EQ = EQ"
| "range_type _ = No_op"

definition set_version :: "nat \<Rightarrow> audit_version \<Rightarrow> versions_range \<Rightarrow> versions_range" where
  "set_version n v r = (if n = 1 then r\<lparr>vr_v1 := v\<rparr> else if n = 2 then r\<lparr>vr_v2 := v\<rparr> else r)"

definition vulnxml_handle_data :: "string \<Rightarrow> vulnxml_userdata \<Rightarrow> vulnxml_userdata" where
  "vulnxml_handle_data s ud =
     (case ud_state ud of
        PARSE_TOPIC \<Rightarrow> ud\<lparr>ud_cur := (ud_cur ud)\<lparr>ae_desc := Some s\<rparr>\<rparr>
      | PARSE_PACKAGE_NAME \<Rightarrow> on_package (\<lambda>p. p\<lparr>ap_names := on_head (\<lambda>_. Some s) (ap_names p)\<rparr>) ud
      | PARSE_CVE \<Rightarrow> ud\<lparr>ud_cur := (ud_cur ud)\<lparr>ae_cve := s # ae_cve (ud_cur ud)\<rparr>\<rparr>
      | st \<Rightarrow>
          if range_type st = No_op then ud
          else on_package (\<lambda>p. p\<lparr>ap_versions :=
              on_head (set_version (ud_range_num ud) \<lparr>av_version = Some s, av_type = range_type st\<rparr>) (ap_versions p)\<rparr>) ud)"

fun vulnxml_event :: "xml_event \<Rightarrow> vulnxml_userdata \<Rightarrow> vulnxml_userdata" where
  "vulnxml_event (Start el ats) ud = vulnxml_start_element el ats ud"
| "vulnxml_event (End el) ud = vulnxml_end_element el ud"
| "vulnxml_event (Data s) ud = vulnxml_handle_data s ud"

definition vulnxml_init :: "audit_entry list \<Rightarrow> vulnxml_userdata" where
  "vulnxml_init entries = \<lparr>ud_cur = no_entry, ud_entries = entries, ud_state = PARSE_INIT, ud_range_num = 0\<rparr>"

definition pkg_audit_parse_vulnxml :: "xml_event list \<times> bool \<Rightarrow> audit_entry list \<Rightarrow> epkg \<times> audit_entry list" where
  "pkg_audit_parse_vulnxml xml entries =
     (case xml of (evs, proper) \<Rightarrow>
        (if proper then EPKG_OK else EPKG_FATAL, ud_entries (fold vulnxml_event evs (vulnxml_init entries))))"

section \<open>Reading back a database\<close>

text \<open>
  A database as it is meant: entries with their topics, packages and CVE names, in any order, among
  elements that do not concern the reader. White space \<open>ws\<close> may surround the parts of a package.
\<close>

datatype vuln_item = Topic string | Package "string list" "(audit_op \<times> string) list list" | Cve string | Other xml_event

fun op_element :: "audit_op \<Rightarrow> string" where
  "op_element GT = ''gt''"
| "op_element GTE = ''ge''"
| "op_element LT = ''lt''"
| "op_element LTE = ''le''"
| "op_element EQ = ''eq''"
| "op_element No_op = []"

definition element :: "string \<Rightarrow> xml_event list \<Rightarrow> xml_event list" where
  "element el evs = Start el [] # evs @ [End el]"

definition bound_events :: "string \<Rightarrow> audit_op \<times> string \<Rightarrow> xml_event list" where
  "bound_events ws b = element (op_element (fst b)) [Data (snd b)] @ [Data ws]"

definition range_events :: "string \<Rightarrow> (audit_op \<times> string) list \<Rightarrow> xml_event list" where
  "range_events ws bs = element ''range'' (Data ws # concat (map (bound_events ws) bs)) @ [Data ws]"

definition name_events :: "string \<Rightarrow> string \<Rightarrow> xml_event list" where
  "name_events ws n = element ''name'' [Data n] @ [Data ws]"

definition package_events :: "string \<Rightarrow> string list \<Rightarrow> (audit_op \<times> string) list list \<Rightarrow> xml_event list" where
  "package_events ws names rs =
     element ''package'' (Data ws # concat (map (name_events ws) names) @ concat (map (range_events ws) rs))"

fun item_events :: "string \<Rightarrow> vuln_item \<Rightarrow> xml_event list" where
  "item_events ws (Topic t) = element ''topic'' [Data t]"
| "item_events ws (Package names rs) = package_events ws names rs"
| "item_events ws (Cve c) = element ''cvename'' [Data c]"
| "item_events ws (Other ev) = [ev]"

text \<open>What may stand inside an entry and between entries without a meaning for the reader.\<close>

fun passes :: "string set \<Rightarrow> string set \<Rightarrow> xml_event \<Rightarrow> bool" where
  "passes starts ends (Start el ats) = (\<forall>s \<in> starts. \<not> strcaseeq el s)"
| "passes starts ends (End el) = (\<forall>s \<in> ends. \<not> strcaseeq el s)"
| "passes starts ends (Data s) = True"

fun item_ok :: "vuln_item \<Rightarrow> bool" where
  "item_ok (Other ev) = passes {''topic'', ''package'', ''cvename''} {''vuln''} ev"
| "item_ok (Package names rs) = (\<forall>r \<in> set rs. length r \<le> 2 \<and> (\<forall>b \<in> set r. fst b \<noteq> No_op))"
| "item_ok _ = True"

definition vuln_events :: "string \<Rightarrow> string \<Rightarrow> vuln_item list \<Rightarrow> xml_event list" where
  "vuln_events ws vid its = Start ''vuln'' [(''vid'', vid)] # concat (map (item_events ws) its) @ [End ''vuln'']"

text \<open>And what it means.\<close>

definition bound :: "audit_op \<times> string \<Rightarrow> audit_version" where
  "bound b = \<lparr>av_version = Some (snd b), av_type = fst b\<rparr>"

fun range_meant :: "(audit_op \<times> string) list \<Rightarrow> versions_range" where
  "range_meant [] = no_range"
| "range_meant [b] = no_range\<lparr>vr_v1 := bound b\<rparr>"
| "range_meant (b # c # _) = \<lparr>vr_v1 = bound b, vr_v2 = bound c\<rparr>"

fun item_meant :: "vuln_item \<Rightarrow> audit_entry \<Rightarrow> audit_entry" where
  "item_meant (Topic t) e = e\<lparr>ae_desc := Some t\<rparr>"
| "item_meant (Package names rs) e =
     e\<lparr>ae_packages := \<lparr>ap_names = rev (map Some names), ap_versions = rev (map range_meant rs)\<rparr> # ae_packages e\<rparr>"
| "item_meant (Cve c) e = e\<lparr>ae_cve := c # ae_cve e\<rparr>"
| "item_meant (Other ev) e = e"

definition vuln_meant :: "string \<Rightarrow> vuln_item list \<Rightarrow> audit_entry" where
  "vuln_meant vid its = fold item_meant its (no_entry\<lparr>ae_id := Some vid\<rparr>)"

lemma strcaseeq_refl [simp]: "strcaseeq s s"
  by (simp add: strcaseeq_def)

lemmas machine = vulnxml_start_element_def vulnxml_end_element_def vulnxml_handle_data_def element_def

text \<open>Each part of a package leaves the machine in the state it found.\<close>

definition on_version :: "(versions_range \<Rightarrow> versions_range) \<Rightarrow> vulnxml_userdata \<Rightarrow> vulnxml_userdata" where
  "on_version f = on_package (\<lambda>p. p\<lparr>ap_versions := on_head f (ap_versions p)\<rparr>)"

lemma on_head_comp [simp]: "on_head f (on_head g xs) = on_head (\<lambda>x. f (g x)) xs"
  by (cases xs) simp_all

lemma on_package_simps [simp]:
  "ud_state (on_package f ud) = ud_state ud" "ud_range_num (on_package f ud) = ud_range_num ud"
  "ud_entries (on_package f ud) = ud_entries ud"
  "on_package f (on_package g ud) = on_package (\<lambda>x. f (g x)) ud"
  "on_package f (ud\<lparr>ud_range_num := n\<rparr>) = (on_package f ud)\<lparr>ud_range_num := n\<rparr>"
  "on_package f (ud\<lparr>ud_state := s\<rparr>) = (on_package f ud)\<lparr>ud_state := s\<rparr>"
  by (simp_all add: on_package_def)

lemma state_same: "ud_state ud = s \<Longrightarrow> ud\<lparr>ud_state := s\<rparr> = ud"
  by (cases ud) simp

lemma fold_bound:
  assumes "ud_state ud = PARSE_RANGE" "fst b \<noteq> No_op"
  shows "fold vulnxml_event (bound_events ws b) ud =
    on_version (set_version (ud_range_num ud + 1) (bound b)) (ud\<lparr>ud_range_num := ud_range_num ud + 1\<rparr>)"
  using assms
  by (cases "fst b")
    (simp_all add: machine bound_events_def bound_def on_version_def strcaseeq_def tolower_def isupper_def code_def state_same)

lemma range_meant_set:
  "length bs \<le> 2 \<Longrightarrow> range_meant bs = fold (\<lambda>(i, b). set_version i (bound b)) (zip [1, 2] bs) no_range"
  by (cases bs rule: range_meant.cases) (auto simp: set_version_def no_range_def)

lemma fold_range:
  assumes "ud_state ud = PARSE_PACKAGE" "length bs \<le> 2" "\<forall>b \<in> set bs. fst b \<noteq> No_op"
  shows "fold vulnxml_event (range_events ws bs) ud =
    on_package (\<lambda>p. p\<lparr>ap_versions := range_meant bs # ap_versions p\<rparr>) (ud\<lparr>ud_range_num := length bs\<rparr>)"
proof -
  let ?ud = "(on_package (\<lambda>p. p\<lparr>ap_versions := no_range # ap_versions p\<rparr>) ud)\<lparr>ud_state := PARSE_RANGE, ud_range_num := 0\<rparr>"
  have "fold vulnxml_event (concat (map (bound_events ws) bs)) ?ud =
      on_package (\<lambda>p. p\<lparr>ap_versions := range_meant bs # ap_versions p\<rparr>) (ud\<lparr>ud_range_num := length bs, ud_state := PARSE_RANGE\<rparr>)"
    using assms(2,3)
    by (cases bs rule: range_meant.cases)
      (auto simp: fold_bound on_version_def set_version_def no_range_def numeral_2_eq_2)
  then show ?thesis using assms(1)
    by (simp add: range_events_def machine strcaseeq_def tolower_def isupper_def code_def state_same)
qed

lemma fold_name:
  "ud_state ud = PARSE_PACKAGE \<Longrightarrow> fold vulnxml_event (name_events ws n) ud = on_package (\<lambda>p. p\<lparr>ap_names := Some n # ap_names p\<rparr>) ud"
  by (simp add: name_events_def machine strcaseeq_def tolower_def isupper_def code_def state_same)

lemma fold_names:
  "ud_state ud = PARSE_PACKAGE \<Longrightarrow> fold vulnxml_event (concat (map (name_events ws) ns)) ud =
    on_package (\<lambda>p. p\<lparr>ap_names := rev (map Some ns) @ ap_names p\<rparr>) ud"
proof (induction ns arbitrary: ud)
  case Nil
  have "on_head (\<lambda>p. p) xs = xs" for xs :: "audit_package list" by (cases xs) simp_all
  then show ?case by (simp add: on_package_def)
qed (simp add: fold_name)

lemma fold_ranges:
  "ud_state ud = PARSE_PACKAGE \<Longrightarrow> \<forall>r \<in> set rs. length r \<le> 2 \<and> (\<forall>b \<in> set r. fst b \<noteq> No_op) \<Longrightarrow>
    \<exists>m. fold vulnxml_event (concat (map (range_events ws) rs)) ud =
      (on_package (\<lambda>p. p\<lparr>ap_versions := rev (map range_meant rs) @ ap_versions p\<rparr>) ud)\<lparr>ud_range_num := m\<rparr>"
proof (induction rs arbitrary: ud)
  case Nil
  have "on_head (\<lambda>p. p) xs = xs" for xs :: "audit_package list" by (cases xs) simp_all
  then show ?case by (intro exI [of _ "ud_range_num ud"]) (simp add: on_package_def)
next
  case (Cons r rs)
  let ?ud = "on_package (\<lambda>p. p\<lparr>ap_versions := range_meant r # ap_versions p\<rparr>) (ud\<lparr>ud_range_num := length r\<rparr>)"
  have "ud_state ?ud = PARSE_PACKAGE" using Cons.prems(1) by simp
  from Cons.IH [OF this] Cons.prems(2) obtain m where
    m: "fold vulnxml_event (concat (map (range_events ws) rs)) ?ud =
      (on_package (\<lambda>p. p\<lparr>ap_versions := rev (map range_meant rs) @ ap_versions p\<rparr>) ?ud)\<lparr>ud_range_num := m\<rparr>" by auto
  show ?case using m Cons.prems by (intro exI [of _ m]) (simp add: fold_range)
qed

lemma fold_item:
  assumes "ud_state ud = PARSE_VULN" "item_ok it"
  shows "\<exists>m. fold vulnxml_event (item_events ws it) ud = ud\<lparr>ud_cur := item_meant it (ud_cur ud), ud_range_num := m\<rparr>"
proof (cases it)
  case (Package ns rs)
  let ?ud = "ud\<lparr>ud_cur := (ud_cur ud)\<lparr>ae_packages := \<lparr>ap_names = [], ap_versions = []\<rparr> # ae_packages (ud_cur ud)\<rparr>, ud_state := PARSE_PACKAGE\<rparr>"
  let ?vd = "on_package (\<lambda>p. p\<lparr>ap_names := rev (map Some ns) @ ap_names p\<rparr>) ?ud"
  have "ud_state ?vd = PARSE_PACKAGE" by simp
  from fold_ranges [OF this, of rs ws] assms(2) Package obtain m where
    m: "fold vulnxml_event (concat (map (range_events ws) rs)) ?vd =
      (on_package (\<lambda>p. p\<lparr>ap_versions := rev (map range_meant rs) @ ap_versions p\<rparr>) ?vd)\<lparr>ud_range_num := m\<rparr>" by auto
  show ?thesis using assms(1) Package m
    by (intro exI [of _ m])
      (simp add: package_events_def machine fold_names strcaseeq_def tolower_def isupper_def code_def on_package_def state_same)
next
  case (Other ev)
  have "vulnxml_event ev ud = ud" using assms Other by (cases ev) (auto simp: machine)
  then show ?thesis using Other by (intro exI [of _ "ud_range_num ud"]) simp
qed (use assms in \<open>auto simp: machine strcaseeq_def tolower_def isupper_def code_def state_same intro!: exI [of _ "ud_range_num ud"]\<close>)

lemma fold_items:
  "ud_state ud = PARSE_VULN \<Longrightarrow> \<forall>it \<in> set its. item_ok it \<Longrightarrow>
    \<exists>m. fold vulnxml_event (concat (map (item_events ws) its)) ud = ud\<lparr>ud_cur := fold item_meant its (ud_cur ud), ud_range_num := m\<rparr>"
proof (induction its arbitrary: ud)
  case (Cons it its)
  from fold_item [of ud it ws] Cons.prems obtain m where
    m: "fold vulnxml_event (item_events ws it) ud = ud\<lparr>ud_cur := item_meant it (ud_cur ud), ud_range_num := m\<rparr>" by auto
  let ?ud = "ud\<lparr>ud_cur := item_meant it (ud_cur ud), ud_range_num := m\<rparr>"
  from Cons.IH [of ?ud] Cons.prems obtain k where
    "fold vulnxml_event (concat (map (item_events ws) its)) ?ud = ?ud\<lparr>ud_cur := fold item_meant its (ud_cur ?ud), ud_range_num := k\<rparr>" by auto
  then show ?case using m by (intro exI [of _ k]) simp
qed (simp, metis vulnxml_userdata.surjective vulnxml_userdata.update_convs(4))

lemma fold_vuln:
  assumes "ud_state ud = PARSE_INIT" "\<forall>it \<in> set its. item_ok it"
  shows "\<exists>c m. fold vulnxml_event (vuln_events ws vid its) ud =
    ud\<lparr>ud_cur := c, ud_entries := pkg_audit_expand_entry (vuln_meant vid its) (ud_entries ud), ud_range_num := m\<rparr>"
proof -
  let ?ud = "ud\<lparr>ud_cur := no_entry\<lparr>ae_id := Some vid\<rparr>, ud_state := PARSE_VULN\<rparr>"
  from fold_items [of ?ud its ws] assms(2) obtain m where
    "fold vulnxml_event (concat (map (item_events ws) its)) ?ud = ?ud\<lparr>ud_cur := vuln_meant vid its, ud_range_num := m\<rparr>"
    by (auto simp: vuln_meant_def)
  then show ?thesis using assms(1)
    by (intro exI [of _ "vuln_meant vid its"] exI [of _ m])
      (simp add: vuln_events_def machine attribute_def strcaseeq_def state_same)
qed

lemma passes_init: "ud_state ud = PARSE_INIT \<Longrightarrow> passes {''vuln''} {} ev \<Longrightarrow> vulnxml_event ev ud = ud"
  by (cases ev) (auto simp: machine)

lemma passes_inits: "ud_state ud = PARSE_INIT \<Longrightarrow> \<forall>ev \<in> set evs. passes {''vuln''} {} ev \<Longrightarrow> fold vulnxml_event evs ud = ud"
  by (induction evs) (auto simp: passes_init)

text \<open>
  What a reader of the database is told, in terms of the document alone: the last topic, the CVE
  names, latest first, and the packages; for each name of a package an entry with the version
  ranges of this package, latest first; and in front of these one entry that holds it all. An entry
  without a package, or whose last package has no name, says nothing.
\<close>

definition topics_of :: "vuln_item list \<Rightarrow> string list" where
  "topics_of its = concat (map (\<lambda>it. case it of Topic t \<Rightarrow> [t] | _ \<Rightarrow> []) its)"

definition cves_of :: "vuln_item list \<Rightarrow> string list" where
  "cves_of its = concat (map (\<lambda>it. case it of Cve c \<Rightarrow> [c] | _ \<Rightarrow> []) its)"

definition packages_of :: "vuln_item list \<Rightarrow> (string list \<times> (audit_op \<times> string) list list) list" where
  "packages_of its = concat (map (\<lambda>it. case it of Package ns rs \<Rightarrow> [(ns, rs)] | _ \<Rightarrow> []) its)"

definition topic_said :: "vuln_item list \<Rightarrow> string option" where
  "topic_said its = (if topics_of its = [] then None else Some (last (topics_of its)))"

definition name_said :: "string \<Rightarrow> vuln_item list \<Rightarrow> (audit_op \<times> string) list list \<Rightarrow> string \<Rightarrow> audit_entry" where
  "name_said vid its rs name =
     \<lparr>ae_pkgname = Some name, ae_packages = [], ae_versions = rev (map range_meant rs), ae_cve = rev (cves_of its),
      ae_url = None, ae_desc = topic_said its, ae_id = Some vid, ae_ref = True\<rparr>"

definition all_said :: "string \<Rightarrow> vuln_item list \<Rightarrow> audit_entry" where
  "all_said vid its =
     \<lparr>ae_pkgname = None,
      ae_packages = rev (map (\<lambda>(ns, rs). \<lparr>ap_names = rev (map Some ns), ap_versions = rev (map range_meant rs)\<rparr>) (packages_of its)),
      ae_versions = [], ae_cve = rev (cves_of its), ae_url = None, ae_desc = topic_said its, ae_id = Some vid, ae_ref = False\<rparr>"

definition entries_said :: "string \<Rightarrow> vuln_item list \<Rightarrow> audit_entry list" where
  "entries_said vid its =
     (let ps = packages_of its in
      if ps = [] \<or> fst (last ps) = [] then []
      else all_said vid its # concat (map (\<lambda>(ns, rs). map (name_said vid its rs) ns) ps))"

lemma parts_of_snoc [simp]:
  "topics_of (its @ [it]) = topics_of its @ (case it of Topic t \<Rightarrow> [t] | _ \<Rightarrow> [])"
  "cves_of (its @ [it]) = cves_of its @ (case it of Cve c \<Rightarrow> [c] | _ \<Rightarrow> [])"
  "packages_of (its @ [it]) = packages_of its @ (case it of Package ns rs \<Rightarrow> [(ns, rs)] | _ \<Rightarrow> [])"
  by (simp_all add: topics_of_def cves_of_def packages_of_def)

lemma vuln_meant_said: "vuln_meant vid its = all_said vid its"
proof (induction its rule: rev_induct)
  case Nil
  then show ?case
    by (simp add: vuln_meant_def all_said_def no_entry_def topic_said_def topics_of_def cves_of_def packages_of_def)
next
  case (snoc it its)
  then have "vuln_meant vid (its @ [it]) = item_meant it (all_said vid its)" by (simp add: vuln_meant_def)
  then show ?case by (cases it) (simp_all add: all_said_def topic_said_def)
qed

lemma fold_Cons: "fold (\<lambda>x. (#) (f x)) xs ys = rev (map f xs) @ ys"
  by (induction xs arbitrary: ys) simp_all

lemma fold_append: "fold (\<lambda>x. (@) (f x)) xs ys = concat (rev (map f xs)) @ ys"
  by (induction xs arbitrary: ys) simp_all

lemma expand_said: "pkg_audit_expand_entry (vuln_meant vid its) head = entries_said vid its @ head"
proof -
  let ?e = "all_said vid its" and ?ps = "packages_of its"
  let ?p = "\<lambda>(ns, rs). \<lparr>ap_names = rev (map Some ns), ap_versions = rev (map range_meant rs)\<rparr>"
  have ps: "ae_packages ?e = rev (map ?p ?ps)" by (simp add: all_said_def)
  have one: "rev (map (named_entry ?e (?p (ns, rs))) (ap_names (?p (ns, rs)))) = map (name_said vid its rs) ns" for ns rs
    by (simp add: rev_map named_entry_def name_said_def no_entry_def all_said_def comp_def)
  have "fold (\<lambda>p h. fold (\<lambda>name h. named_entry ?e p name # h) (ap_names p) h) (ae_packages ?e) head =
      concat (map (\<lambda>p. rev (map (named_entry ?e p) (ap_names p))) (map ?p ?ps)) @ head"
    unfolding ps fold_Cons fold_append by (simp add: rev_map)
  also have "map (\<lambda>p. rev (map (named_entry ?e p) (ap_names p))) (map ?p ?ps) = map (\<lambda>(ns, rs). map (name_said vid its rs) ns) ?ps"
    using one by (auto simp: comp_def split_beta)
  finally have f: "fold (\<lambda>p h. fold (\<lambda>name h. named_entry ?e p name # h) (ap_names p) h) (ae_packages ?e) head =
      concat (map (\<lambda>(ns, rs). map (name_said vid its rs) ns) ?ps) @ head" .
  have "ap_names (hd (ae_packages ?e)) = [] \<longleftrightarrow> fst (last ?ps) = []" if "?ps \<noteq> []"
    using that by (simp add: ps hd_rev last_map split_beta)
  moreover have "ae_packages ?e = [] \<longleftrightarrow> ?ps = []" by (simp add: ps)
  ultimately show ?thesis unfolding vuln_meant_said pkg_audit_expand_entry_def f by (auto simp: entries_said_def Let_def)
qed

text \<open>C17. The reader of vulnerability databases recovers what a well-formed database says: of each
  entry, with what stands between the entries ignored, it puts one audit entry for every name of
  every package in front of the entries that were there, in the order of the document, with the
  version ranges of this package and the CVE names, topic and id of the entry; and before them one
  with all of its packages. Of an entry whose last package has no name nothing is recovered, also
  when other packages of it have names. The parser hands over each text in one piece, a range has
  at most two bounds, and nothing is nested in the parts that are read.
\<close>

theorem vulnxml_roundtrip:
  assumes "\<forall>(noise, vid, its) \<in> set vulns. (\<forall>ev \<in> set noise. passes {''vuln''} {} ev) \<and> (\<forall>it \<in> set its. item_ok it)"
  shows "pkg_audit_parse_vulnxml (concat (map (\<lambda>(noise, vid, its). noise @ vuln_events ws vid its) vulns), True) entries =
    (EPKG_OK, concat (rev (map (\<lambda>(noise, vid, its). entries_said vid its) vulns)) @ entries)"
proof -
  have "ud_entries (fold vulnxml_event (concat (map (\<lambda>(noise, vid, its). noise @ vuln_events ws vid its) vulns)) ud) =
      concat (rev (map (\<lambda>(noise, vid, its). entries_said vid its) vulns)) @ ud_entries ud"
    if "ud_state ud = PARSE_INIT" for ud
    using assms that
  proof (induction vulns arbitrary: ud)
    case (Cons v vulns)
    obtain noise vid its where v: "v = (noise, vid, its)" by (metis prod_cases3)
    from fold_vuln [of ud its ws vid] Cons.prems v obtain c m where
      "fold vulnxml_event (vuln_events ws vid its) ud =
        ud\<lparr>ud_cur := c, ud_entries := entries_said vid its @ ud_entries ud, ud_range_num := m\<rparr>" by (auto simp: expand_said)
    then show ?case using Cons v passes_inits [of ud noise] by simp
  qed simp
  from this [of "vulnxml_init entries"] show ?thesis by (simp add: pkg_audit_parse_vulnxml_def vulnxml_init_def)
qed

definition sample_vulns :: "(xml_event list \<times> string \<times> vuln_item list) list" where
  "sample_vulns = [([Start ''vuxml'' [], Data '' ''], ''id1'',
     [Topic ''zsh -- overflow'', Other (Start ''affects'' []), Package [''zsh'', ''zsh-devel''] [[(GTE, ''5''), (LT, ''5.8'')]],
      Other (End ''affects''), Cve ''CVE-1''])]"

theorem vulnxml_roundtrip_witness:
  "map (\<lambda>e. (ae_pkgname e, ae_versions e))
     (snd (pkg_audit_parse_vulnxml (concat (map (\<lambda>(noise, vid, its). noise @ vuln_events '' '' vid its) sample_vulns), True) [])) =
   [(None, []), (Some ''zsh'', [\<lparr>vr_v1 = bound (GTE, ''5''), vr_v2 = bound (LT, ''5.8'')\<rparr>]),
    (Some ''zsh-devel'', [\<lparr>vr_v1 = bound (GTE, ''5''), vr_v2 = bound (LT, ''5.8'')\<rparr>])]"
proof -
  have "\<forall>(noise, vid, its) \<in> set sample_vulns. (\<forall>ev \<in> set noise. passes {''vuln''} {} ev) \<and> (\<forall>it \<in> set its. item_ok it)"
    by (simp add: sample_vulns_def strcaseeq_def tolower_def isupper_def code_def)
  from vulnxml_roundtrip [OF this, of "'' ''" "[]"] show ?thesis
    by (simp add: sample_vulns_def entries_said_def packages_of_def all_said_def name_said_def)
qed

text \<open>Text that the parser hands over in two pieces replaces itself instead of growing.\<close>

lemma data_replaced:
  "ud_state ud = PARSE_TOPIC \<Longrightarrow> vulnxml_event (Data s) (vulnxml_event (Data t) ud) = vulnxml_event (Data s) ud"
  by (simp add: vulnxml_handle_data_def)

end
