(* ===== verification/Vuln_Search.thy ===== *)
theory Vuln_Search
  imports Vulnxml Pkg_Version C_Format
begin

text \<open>
  The search of \<^verbatim>\<open>libpkg/pkg_audit.c\<close> for the vulnerabilities of a package: the entries are sorted by
  the part of their patterns in front of the first wildcard, and most of them are skipped.
  \<^verbatim>\<open>fnmatch\<close> and \<^verbatim>\<open>qsort\<close> are parameters.
\<close>

section \<open>Preprocessing\<close>

definition globbing :: "char \<Rightarrow> bool" where
  "globbing c \<longleftrightarrow> c \<in> {CHR ''*'', CHR ''?'', CHR ''['', CHR ''{'', CHR 0x5C}"

definition pkg_audit_str_noglob_len :: "string \<Rightarrow> nat" where
  "pkg_audit_str_noglob_len s = length (takeWhile (\<lambda>c. \<not> globbing c) s)"

text \<open>An item of the array; the name is the one of its entry, which is not NULL here.\<close>

record audit_item =
  ai_name :: string
  ai_entry :: audit_entry
  ai_noglob_len :: nat
  ai_next_pfx_incr :: nat

definition strncmp :: "string \<Rightarrow> string \<Rightarrow> nat \<Rightarrow> int" where
  "strncmp s t n = strcmp (take n s) (take n t)"

definition pkg_audit_entry_cmp :: "audit_item \<Rightarrow> audit_item \<Rightarrow> int" where
  "pkg_audit_entry_cmp e1 e2 =
     (let m = (if ai_noglob_len e1 < ai_noglob_len e2 then ai_noglob_len e1 else ai_noglob_len e2);
          result = strncmp (ai_name e1) (ai_name e2) m
      in if result = 0 then
           (if ai_noglob_len e1 < ai_noglob_len e2 then -1 else if ai_noglob_len e1 > ai_noglob_len e2 then 1 else result)
         else result)"

definition new_items :: "audit_entry list \<Rightarrow> audit_item list" where
  "new_items es = concat (map (\<lambda>e. case ae_pkgname e of None \<Rightarrow> []
     | Some name \<Rightarrow> [\<lparr>ai_name = name, ai_entry = e, ai_noglob_len = pkg_audit_str_noglob_len name, ai_next_pfx_incr = 1\<rparr>]) es)"

text \<open>
  The increments: a run of items with the same name is written down when an item with a prefix of
  another length follows. The run counts from zero at the start.
\<close>

fun fill :: "nat \<Rightarrow> nat \<Rightarrow> audit_item list \<Rightarrow> audit_item list" where
  "fill base 0 its = its"
| "fill base (Suc t) its =
     (if Suc t > 1 then fill (base + 1) t (its[base := (its ! base)\<lparr>ai_next_pfx_incr := Suc t\<rparr>]) else its)"

lemma length_fill [simp]: "length (fill base t its) = length its"
  by (induction base t its rule: fill.induct) auto

function jumps :: "nat \<Rightarrow> nat \<Rightarrow> audit_item list \<Rightarrow> audit_item list" where
  "jumps n tofill its =
     (if length its \<le> n then its
      else if ai_noglob_len (its ! (n - 1)) \<noteq> ai_noglob_len (its ! n) then jumps (n + 1) 1 (fill (n - tofill) tofill its)
      else if ai_name (its ! (n - 1)) = ai_name (its ! n) then jumps (n + 1) (tofill + 1) its
      else jumps (n + 1) 1 its)"
  by pat_completeness auto
termination by (relation "measure (\<lambda>(n, t, its). length its - n)") auto

declare jumps.simps [simp del]

text \<open>
  The table of first bytes. A \<^verbatim>\<open>char\<close> is signed and its conversion to \<^verbatim>\<open>size_t\<close> makes the upper half
  of the characters huge.
\<close>

definition byte_index :: "char \<Rightarrow> nat" where
  "byte_index c = (if code c < 128 then code c else 2 ^ 64 - 256 + code c)"

function skip_bytes :: "nat \<Rightarrow> nat \<Rightarrow> audit_item list \<Rightarrow> nat" where
  "skip_bytes n i its =
     (if i < length its \<and> byte_index (deref (ai_name (its ! i))) < n then skip_bytes n (i + 1) its else i)"
  by pat_completeness auto
termination by (relation "measure (\<lambda>(n, i, its). length its - i)") auto

declare skip_bytes.simps [simp del]

primrec first_byte_idx :: "audit_item list \<Rightarrow> nat \<Rightarrow> nat" where
  "first_byte_idx its 0 = 0"
| "first_byte_idx its (Suc n) = skip_bytes (Suc n) (first_byte_idx its n) its"

type_synonym item_sort = "(audit_item \<Rightarrow> audit_item \<Rightarrow> int) \<Rightarrow> audit_item list \<Rightarrow> audit_item list"

text \<open>\<open>None\<close> reads behind the array, which has one element when there is no entry at all.\<close>

definition pkg_audit_preprocess :: "item_sort \<Rightarrow> audit_entry list \<Rightarrow> audit_item list option" where
  "pkg_audit_preprocess srt es = (if es = [] then None else Some (jumps 1 0 (srt pkg_audit_entry_cmp (new_items es))))"

section \<open>Versions\<close>

definition pkg_audit_version_match :: "string \<Rightarrow> audit_version \<Rightarrow> bool" where
  "pkg_audit_version_match pkgversion v =
     (case av_version v of
        None \<Rightarrow> True
      | Some w \<Rightarrow>
          (let r = pkg_version_cmp pkgversion w; t = av_type v in
           if r = -1 then t = LT \<or> t = LTE
           else if r = 0 then t = EQ \<or> t = LTE \<or> t = GTE
           else if r = 1 then t = GT \<or> t = GTE
           else False))"

definition in_range :: "string \<Rightarrow> versions_range \<Rightarrow> bool" where
  "in_range v r \<longleftrightarrow> pkg_audit_version_match v (vr_v1 r) \<and> pkg_audit_version_match v (vr_v2 r)"

section \<open>Printing\<close>

fun vop_name :: "audit_op \<Rightarrow> string" where
  "vop_name No_op = []"
| "vop_name EQ = ''=''"
| "vop_name LT = ''<''"
| "vop_name LTE = ''<=''"
| "vop_name GT = ''>''"
| "vop_name GTE = ''>=''"

definition print_version :: "audit_version \<Rightarrow> string" where
  "print_version v = vop_name (av_type v) @ '' '' @ percent_s (av_version v)"

definition pkg_audit_print_versions :: "audit_entry \<Rightarrow> string" where
  "pkg_audit_print_versions e =
     ''Affected versions:'' @ [CHR 10] @
     concat (map (\<lambda>r. (if av_type (vr_v1 r) \<noteq> No_op \<and> av_type (vr_v2 r) \<noteq> No_op
                       then print_version (vr_v1 r) @ '' : '' @ print_version (vr_v2 r)
                       else if av_type (vr_v1 r) \<noteq> No_op then print_version (vr_v1 r)
                       else print_version (vr_v2 r)) @ [CHR 10]) (ae_versions e))"

definition pkg_audit_print_entry :: "audit_entry \<Rightarrow> string \<Rightarrow> string option \<Rightarrow> bool \<Rightarrow> string" where
  "pkg_audit_print_entry e name version quiet =
     (if quiet then (case version of Some v \<Rightarrow> name @ ''-'' @ v | None \<Rightarrow> name) @ [CHR 10]
      else
        (case version of
           Some v \<Rightarrow> name @ ''-'' @ v @ '' is vulnerable:'' @ [CHR 10]
         | None \<Rightarrow> name @ '' is vulnerable:'' @ [CHR 10] @ pkg_audit_print_versions e) @
        percent_s (ae_desc e) @ [CHR 10] @
        concat (map (\<lambda>c. ''CVE: '' @ c @ [CHR 10]) (ae_cve e)) @
        (case (ae_url e, ae_id e) of
           (Some url, _) \<Rightarrow> ''WWW: '' @ url @ [CHR 10, CHR 10]
         | (None, Some vid) \<Rightarrow> ''WWW: https://vuxml.FreeBSD.org/freebsd/'' @ vid @ ''.html'' @ [CHR 10, CHR 10]
         | (None, None) \<Rightarrow> []))"

section \<open>The search\<close>

type_synonym fnmatch = "string \<Rightarrow> string \<Rightarrow> bool"

definition reported :: "fnmatch \<Rightarrow> string \<Rightarrow> string option \<Rightarrow> audit_item \<Rightarrow> bool" where
  "reported fnm name version it \<longleftrightarrow>
     fnm (ai_name it) name \<and> (case version of None \<Rightarrow> True | Some v \<Rightarrow> \<exists>r \<in> set (ae_versions (ai_entry it)). in_range v r)"

text \<open>
  The entries of a run, from \<open>i\<close> on, \<open>m\<close> of them; the answer lists those reported and whether the
  search is over. \<open>None\<close> follows the null entry at the end of the array.
\<close>

fun search_run ::
  "fnmatch \<Rightarrow> string \<Rightarrow> string option \<Rightarrow> bool \<Rightarrow> audit_item list \<Rightarrow> nat \<Rightarrow> nat \<Rightarrow> audit_item list \<Rightarrow> (audit_item list \<times> bool) option" where
  "search_run fnm name version quiet its i 0 found = Some (found, False)"
| "search_run fnm name version quiet its i (Suc m) found =
     (if length its \<le> i then None
      else
        (let hit = reported fnm name version (its ! i); found' = (if hit then found @ [its ! i] else found) in
         if fnm (ai_name (its ! i)) name \<and> found' \<noteq> [] \<and> quiet then Some (found', True)
         else search_run fnm name version quiet its (i + 1) m found'))"

fun search ::
  "nat \<Rightarrow> fnmatch \<Rightarrow> string \<Rightarrow> string option \<Rightarrow> bool \<Rightarrow> audit_item list \<Rightarrow> nat \<Rightarrow> audit_item list \<Rightarrow> audit_item list option" where
  "search 0 fnm name version quiet its a found = None"
| "search (Suc n) fnm name version quiet its a found =
     (if length its \<le> a then Some found
      else
        (let it = its ! a; c = strncmp name (ai_name it) (ai_noglob_len it); next = a + ai_next_pfx_incr it in
         if c > 0 then search n fnm name version quiet its next found
         else if c < 0 then Some found
         else (case search_run fnm name version quiet its a (ai_next_pfx_incr it) found of
                 None \<Rightarrow> None
               | Some (found', over) \<Rightarrow>
                   if over then Some found' else search n fnm name version quiet its next found')))"

text \<open>
  The answer: whether the package is vulnerable, the text, and how many entries affect it. The table
  of first bytes has 256 elements.
\<close>

definition pkg_audit_is_vulnerable ::
  "nat \<Rightarrow> fnmatch \<Rightarrow> audit_item list option \<Rightarrow> string \<Rightarrow> string option \<Rightarrow> bool \<Rightarrow> (bool \<times> string \<times> nat) option" where
  "pkg_audit_is_vulnerable n fnm items name version quiet =
     (case items of
        None \<Rightarrow> Some (False, [], 0)
      | Some its \<Rightarrow>
          if byte_index (deref name) \<ge> 256 then None
          else
            map_option (\<lambda>found. (found \<noteq> [],
                concat (map (\<lambda>it. pkg_audit_print_entry (ai_entry it) name version quiet) found), length found))
              (search n fnm name version quiet its (first_byte_idx its (byte_index (deref name))) []))"

text \<open>A database is loaded and processed by an unprivileged user.\<close>

definition pkg_audit_process :: "item_sort \<Rightarrow> nat \<Rightarrow> (xml_event list \<times> bool) option \<Rightarrow> (epkg \<times> audit_item list option) option" where
  "pkg_audit_process srt euid loaded =
     (if euid = 0 then Some (EPKG_FATAL, None)
      else (case loaded of
              None \<Rightarrow> Some (EPKG_FATAL, None)
            | Some xml \<Rightarrow>
                (case pkg_audit_parse_vulnxml xml [] of
                   (rc, es) \<Rightarrow>
                     if rc = EPKG_FATAL then Some (EPKG_FATAL, None)
                     else map_option (\<lambda>its. (EPKG_OK, Some its)) (pkg_audit_preprocess srt es))))"

section \<open>The order of the items\<close>

definition literal :: "audit_item \<Rightarrow> string" where
  "literal it = take (ai_noglob_len it) (ai_name it)"

definition item_wf :: "audit_item \<Rightarrow> bool" where
  "item_wf it \<longleftrightarrow> ai_noglob_len it = pkg_audit_str_noglob_len (ai_name it)"

lemma strcmp_take:
  "m \<le> length s \<Longrightarrow> m \<le> length t \<Longrightarrow> strcmp (take m s) (take m t) \<noteq> 0 \<Longrightarrow> strcmp s t = strcmp (take m s) (take m t)"
proof (induction s t arbitrary: m rule: strcmp.induct)
  case (4 c s d t)
  then show ?case by (cases m) auto
qed auto

lemma strcmp_append: "strcmp s (s @ t) = (if t = [] then 0 else -1)"
  by (induction s) (cases t; simp)+

lemma literal_length: "item_wf it \<Longrightarrow> length (literal it) = ai_noglob_len it"
  unfolding literal_def item_wf_def pkg_audit_str_noglob_len_def by (simp add: length_takeWhile_le min_absorb2)

lemma strcmp_shorter: "length s < length t \<Longrightarrow> take (length s) t = s \<Longrightarrow> strcmp s t = -1"
  using strcmp_append [of s "drop (length s) t"] by (metis append_take_drop_id drop_eq_Nil2 not_le)

lemma entry_cmp_literal:
  assumes "item_wf a" "item_wf b"
  shows "pkg_audit_entry_cmp a b = strcmp (literal a) (literal b)"
proof -
  let ?s = "literal a" and ?t = "literal b" and ?m = "min (ai_noglob_len a) (ai_noglob_len b)"
  note len = literal_length [OF assms(1)] literal_length [OF assms(2)]
  have tk: "take ?m (ai_name a) = take ?m ?s" "take ?m (ai_name b) = take ?m ?t"
    by (simp_all add: literal_def min.commute)
  have m: "(if ai_noglob_len a < ai_noglob_len b then ai_noglob_len a else ai_noglob_len b) = ?m" by simp
  have c: "pkg_audit_entry_cmp a b = (let r = strcmp (take ?m ?s) (take ?m ?t) in
      if r = 0 then (if length ?s < length ?t then -1 else if length ?s > length ?t then 1 else r) else r)"
    unfolding pkg_audit_entry_cmp_def m strncmp_def tk len Let_def ..
  show ?thesis
  proof (cases "strcmp (take ?m ?s) (take ?m ?t) = 0")
    case False
    then show ?thesis using c strcmp_take [of ?m ?s ?t] len by (simp add: Let_def)
  next
    case True
    then have eq: "take ?m ?s = take ?m ?t" by simp
    consider "length ?s < length ?t" | "length ?t < length ?s" | "length ?s = length ?t" by linarith
    then show ?thesis
    proof cases
      case 1
      then have "take (length ?s) ?t = ?s" using eq len by simp
      then show ?thesis using 1 c True strcmp_shorter [OF 1] by (simp add: Let_def)
    next
      case 2
      then have "take (length ?t) ?s = ?t" using eq len by simp
      then show ?thesis using 2 c True strcmp_shorter [OF 2] str_cmp.sym [of ?s ?t] by (simp add: Let_def)
    next
      case 3
      then show ?thesis using c True eq len by (simp add: Let_def)
    qed
  qed
qed

text \<open>Behind an item that is greater than a name, no item has a literal part that the name starts with.\<close>

lemma greater_items:
  assumes "strncmp name (literal a) (length (literal a)) < 0" "strcmp (literal a) (literal b) \<le> 0"
  shows "take (length (literal b)) name \<noteq> literal b"
proof
  let ?p = "literal a" and ?q = "literal b"
  let ?l = "length ?p" and ?k = "length ?q"
  assume q: "take ?k name = ?q"
  have lt: "strcmp (take ?l name) ?p < 0" using assms(1) by (simp add: strncmp_def)
  show False
  proof (cases "?l \<le> ?k")
    case True
    have "?l \<le> length name" using q True by (metis length_take min.bounded_iff order_refl)
    then have t: "take ?l ?q = take ?l name" "?l \<le> length ?q" using q True by (metis min.absorb1 take_take, simp)
    have "take ?l name \<noteq> ?p" using lt by auto
    then have "strcmp ?q ?p = strcmp (take ?l name) ?p"
      using strcmp_take [of ?l ?q ?p] t by simp
    then show False using lt assms(2) str_cmp.less_iff by metis
  next
    case False
    then have "take ?k (take ?l name) = ?q" using q by simp
    then have "strcmp ?q (take ?l name) \<le> 0" using strcmp_append [of ?q "drop ?k (take ?l name)"]
      by (metis append_take_drop_id order.refl zero_le_one neg_le_0_iff_le)
    then have "strcmp ?q ?p < 0" using lt str_cmp.le_less_trans by blast
    then show False using assms(2) str_cmp.less_iff by metis
  qed
qed

section \<open>The increments\<close>

text \<open>An increment stays inside the array and inside a run of the same name.\<close>

definition jump_ok :: "audit_item list \<Rightarrow> nat \<Rightarrow> nat \<Rightarrow> bool" where
  "jump_ok its i m \<longleftrightarrow> 1 \<le> m \<and> i + m \<le> length its \<and> (\<forall>j. i \<le> j \<and> j < i + m \<longrightarrow> ai_name (its ! j) = ai_name (its ! i))"

definition jumps_ok :: "audit_item list \<Rightarrow> bool" where
  "jumps_ok its \<longleftrightarrow> (\<forall>i < length its. jump_ok its i (ai_next_pfx_incr (its ! i)))"

definition stripped :: "audit_item \<Rightarrow> audit_item" where
  "stripped it = it\<lparr>ai_next_pfx_incr := 0\<rparr>"

lemma stripped_fields:
  "stripped a = stripped b \<Longrightarrow> ai_name a = ai_name b \<and> ai_entry a = ai_entry b \<and> ai_noglob_len a = ai_noglob_len b"
  by (simp add: stripped_def) (metis audit_item.select_convs(1-3) audit_item.surjective audit_item.update_convs(4))

lemma stripped_update: "b < length its \<Longrightarrow> map stripped (its[b := (its ! b)\<lparr>ai_next_pfx_incr := m\<rparr>]) = map stripped its"
  by (simp add: map_update stripped_def list_update_same_conv)

lemma stripped_name: "map stripped xs = map stripped ys \<Longrightarrow> j < length ys \<Longrightarrow> ai_name (xs ! j) = ai_name (ys ! j)"
  by (metis length_map nth_map stripped_fields)

lemma jumps_ok_update:
  assumes "jumps_ok its" "jump_ok its b m" "b < length its"
  shows "jumps_ok (its[b := (its ! b)\<lparr>ai_next_pfx_incr := m\<rparr>])"
proof -
  let ?its = "its[b := (its ! b)\<lparr>ai_next_pfx_incr := m\<rparr>]"
  have n: "ai_name (?its ! j) = ai_name (its ! j)" for j using assms(3) by (cases "j = b") simp_all
  have ok: "jump_ok ?its i = jump_ok its i" for i unfolding fun_eq_iff jump_ok_def n length_list_update by blast
  show ?thesis unfolding jumps_ok_def ok
  proof (intro allI impI)
    fix i assume i: "i < length ?its"
    show "jump_ok its i (ai_next_pfx_incr (?its ! i))"
    proof (cases "i = b")
      case True
      then show ?thesis using assms(2,3) by simp
    next
      case False
      have "jump_ok its i (ai_next_pfx_incr (its ! i))" using assms(1) i by (simp add: jumps_ok_def)
      then show ?thesis using False by simp
    qed
  qed
qed

lemma fill_ok:
  assumes "jumps_ok its" "base + t \<le> length its" "\<forall>j. base \<le> j \<and> j < base + t \<longrightarrow> ai_name (its ! j) = nm"
  shows "jumps_ok (fill base t its) \<and> map stripped (fill base t its) = map stripped its"
  using assms
proof (induction base t its rule: fill.induct)
  case (2 base t its)
  let ?its = "its[base := (its ! base)\<lparr>ai_next_pfx_incr := Suc t\<rparr>]"
  have b: "base < length its" using "2.prems"(2) by simp
  have nm: "ai_name (its ! base) = nm" using "2.prems"(3) by simp
  have n: "ai_name (?its ! j) = ai_name (its ! j)" for j by (cases "j = base") (simp_all add: b)
  have "jump_ok its base (Suc t)" using "2.prems" nm by (auto simp: jump_ok_def)
  then have j: "jumps_ok ?its" using jumps_ok_update b "2.prems"(1) by blast
  show ?case
  proof (cases "Suc t > 1")
    case True
    have "\<forall>j. base + 1 \<le> j \<and> j < base + 1 + t \<longrightarrow> ai_name (?its ! j) = nm" unfolding n using "2.prems"(3) by simp
    then show ?thesis using "2.IH" [OF True j] "2.prems"(2) stripped_update [OF b] True by simp
  qed (use "2.prems" in simp)
qed simp

definition run_before :: "audit_item list \<Rightarrow> nat \<Rightarrow> nat \<Rightarrow> bool" where
  "run_before its n t \<longleftrightarrow> t \<le> n \<and> (\<forall>j. n - t \<le> j \<and> j < n \<longrightarrow> ai_name (its ! j) = ai_name (its ! (n - 1)))"

lemma jumps_keep:
  assumes "jumps_ok its" "run_before its n t" "1 \<le> n"
  shows "jumps_ok (jumps n t its) \<and> map stripped (jumps n t its) = map stripped its"
  using assms
proof (induction n t its rule: jumps.induct)
  case (1 n t its)
  show ?case
  proof (cases "length its \<le> n")
    case True
    then show ?thesis using "1.prems" by (simp add: jumps.simps [of n t its])
  next
    case False
    have one: "run_before xs (n + 1) 1" for xs by (auto simp: run_before_def less_Suc_eq)
    let ?f = "fill (n - t) t its"
    have "n - t + t \<le> length its" using False "1.prems"(2) by (simp add: run_before_def)
    from fill_ok [OF "1.prems"(1) this, of "ai_name (its ! (n - 1))"] "1.prems"(2)
    have f: "jumps_ok ?f" "map stripped ?f = map stripped its" by (auto simp: run_before_def)
    consider "ai_noglob_len (its ! (n - 1)) \<noteq> ai_noglob_len (its ! n)"
      | "ai_noglob_len (its ! (n - 1)) = ai_noglob_len (its ! n)" "ai_name (its ! (n - 1)) = ai_name (its ! n)"
      | "ai_noglob_len (its ! (n - 1)) = ai_noglob_len (its ! n)" "ai_name (its ! (n - 1)) \<noteq> ai_name (its ! n)" by blast
    then show ?thesis
    proof cases
      case 1
      show ?thesis using "1.IH"(1) [OF False 1 f(1) one] f(2) False 1 by (simp add: jumps.simps [of n t its])
    next
      case 2
      have "run_before its (n + 1) (t + 1)" using "1.prems"(2) 2(2) by (auto simp: run_before_def less_Suc_eq)
      then show ?thesis using "1.IH"(2) [OF False _ 2(2)] 2 False "1.prems" by (simp add: jumps.simps [of n t its])
    next
      case 3
      show ?thesis using "1.IH"(3) [OF False _ 3(2) "1.prems"(1) one] 3 False by (simp add: jumps.simps [of n t its])
    qed
  qed
qed

section \<open>The table of first bytes\<close>

lemma skip_bytes_spec:
  "i \<le> length its \<Longrightarrow> i \<le> skip_bytes n i its \<and> skip_bytes n i its \<le> length its \<and>
    (\<forall>j. i \<le> j \<and> j < skip_bytes n i its \<longrightarrow> byte_index (deref (ai_name (its ! j))) < n)"
proof (induction n i its rule: skip_bytes.induct)
  case (1 n i its)
  show ?case
  proof (cases "i < length its \<and> byte_index (deref (ai_name (its ! i))) < n")
    case True
    then have "i + 1 \<le> length its" by simp
    note ih = "1.IH" [OF True this]
    have e: "skip_bytes n i its = skip_bytes n (i + 1) its" using True by (subst skip_bytes.simps) simp
    have "byte_index (deref (ai_name (its ! j))) < n" if "i \<le> j" "j < skip_bytes n (i + 1) its" for j
      using ih that True by (cases "j = i") auto
    then show ?thesis using ih unfolding e by simp
  next
    case False
    then show ?thesis using "1.prems" by (subst (1 2 3) skip_bytes.simps) auto
  qed
qed

lemma first_byte_spec:
  "first_byte_idx its n \<le> length its \<and> (\<forall>j < first_byte_idx its n. byte_index (deref (ai_name (its ! j))) < n)"
proof (induction n)
  case (Suc n)
  from skip_bytes_spec [of "first_byte_idx its n" its "Suc n"] Suc show ?case
    by (simp add: less_Suc_eq) (metis not_le less_Suc_eq)
qed simp

section \<open>The search\<close>

text \<open>
  What the search relies on: characters that are not special to \<^verbatim>\<open>fnmatch\<close> match themselves.
\<close>

definition literal_prefix :: "fnmatch \<Rightarrow> bool" where
  "literal_prefix fnm \<longleftrightarrow>
     (\<forall>p name. fnm p name \<longrightarrow> take (pkg_audit_str_noglob_len p) name = take (pkg_audit_str_noglob_len p) p)"

lemma reported_literal:
  assumes "literal_prefix fnm" "item_wf it" "reported fnm name version it"
  shows "strncmp name (ai_name it) (ai_noglob_len it) = 0"
  using assms by (simp add: literal_prefix_def item_wf_def reported_def strncmp_def)

lemma reported_deref:
  assumes "literal_prefix fnm" "item_wf it" "0 < ai_noglob_len it" "reported fnm name version it"
  shows "deref name = deref (ai_name it)"
proof -
  have "take (ai_noglob_len it) name = literal it"
    using assms(1,2,4) by (simp add: literal_prefix_def item_wf_def reported_def literal_def)
  moreover have "ai_name it \<noteq> []" using assms(2,3) by (auto simp: item_wf_def pkg_audit_str_noglob_len_def)
  ultimately show ?thesis using assms(3) by (cases name; cases "ai_name it"; cases "ai_noglob_len it") (auto simp: literal_def)
qed

definition limit :: "bool \<Rightarrow> 'a list \<Rightarrow> 'a list" where
  "limit quiet xs = (if quiet then take 1 xs else xs)"

lemma search_run_spec:
  assumes "i + m \<le> length its" "quiet \<Longrightarrow> found = []"
  shows "search_run fnm name version quiet its i m found =
    (let hits = filter (reported fnm name version) (take m (drop i its))
     in Some (found @ limit quiet hits, quiet \<and> hits \<noteq> []))"
  using assms
proof (induction m arbitrary: i found)
  case (Suc m)
  have d: "take (Suc m) (drop i its) = its ! i # take m (drop (i + 1) its)"
    using Suc.prems(1) by (simp add: Cons_nth_drop_Suc [symmetric])
  have "i + 1 + m \<le> length its" "\<not> length its \<le> i" using Suc.prems(1) by simp_all
  note ih = Suc.IH [OF this(1)] and le = this(2)
  show ?case
  proof (cases "reported fnm name version (its ! i)")
    case True
    then have "fnm (ai_name (its ! i)) name" by (simp add: reported_def)
    then show ?thesis using True ih [of "found @ [its ! i]"] le Suc.prems(2)
      by (cases quiet) (simp_all add: d limit_def Let_def)
  next
    case False
    then have "\<not> (fnm (ai_name (its ! i)) name \<and> found \<noteq> [] \<and> quiet)" using Suc.prems(2) by auto
    then show ?thesis using False ih [of found] le Suc.prems(2) by (cases quiet) (simp_all add: d Let_def)
  qed
qed (simp add: limit_def)

definition ordered :: "audit_item list \<Rightarrow> bool" where
  "ordered its \<longleftrightarrow> sorted_wrt (\<lambda>a b. strcmp (literal a) (literal b) \<le> 0) its \<and> (\<forall>it \<in> set its. item_wf it)"

lemma search_spec:
  assumes "jumps_ok its" "ordered its" "literal_prefix fnm" "length its - a < n" "quiet \<Longrightarrow> found = []"
  shows "search n fnm name version quiet its a found =
    Some (found @ limit quiet (filter (reported fnm name version) (drop a its)))"
  using assms(4,5)
proof (induction n arbitrary: a found)
  case 0
  then show ?case by simp
next
  case (Suc n)
  let ?rep = "reported fnm name version"
  show ?case
  proof (cases "length its \<le> a")
    case True
    then show ?thesis by (simp add: limit_def)
  next
    case False
    let ?it = "its ! a" and ?c = "strncmp name (ai_name (its ! a)) (ai_noglob_len (its ! a))"
    let ?m = "ai_next_pfx_incr (its ! a)"
    have jo: "jump_ok its a ?m" using assms(1) False by (simp add: jumps_ok_def)
    have split: "drop a its = take ?m (drop a its) @ drop (a + ?m) its" by (metis append_take_drop_id drop_drop add.commute)
    have wfs: "item_wf (its ! j)" if "j < length its" for j using assms(2) that by (simp add: ordered_def)
    have next_: "length its - (a + ?m) < n" using Suc.prems(1) jo by (auto simp: jump_ok_def)
    note ih = Suc.IH [OF next_]
    consider "?c > 0" | "?c < 0" | "?c = 0" by linarith
    then show ?thesis
    proof cases
      case 1
      have "\<not> ?rep it" if mem: "it \<in> set (take ?m (drop a its))" for it
      proof -
        obtain j where j: "j < ?m" "a + j < length its" "it = its ! (a + j)"
          using mem by (auto simp: in_set_conv_nth)
        then have "ai_name it = ai_name ?it" using jo [unfolded jump_ok_def, THEN conjunct2, THEN conjunct2, rule_format, of "a + j"] by simp
        moreover have "ai_noglob_len it = ai_noglob_len ?it"
          using wfs [of "a + j"] wfs [of a] False j calculation by (simp add: item_wf_def)
        moreover have "item_wf it" using wfs [OF j(2)] j(3) by simp
        ultimately show ?thesis using 1 reported_literal [OF assms(3), of it name version] by fastforce
      qed
      then have "filter ?rep (drop a its) = filter ?rep (drop (a + ?m) its)"
        by (subst split) (simp add: filter_empty_conv)
      then show ?thesis using 1 False ih Suc.prems(2) by simp
    next
      case 2
      have "\<not> ?rep it" if mem: "it \<in> set (drop a its)" for it
      proof
        assume r: "?rep it"
        obtain j where j: "a \<le> j" "j < length its" "it = its ! j"
          using mem by (auto simp: in_set_conv_nth) (metis le_add1 less_diff_conv add.commute)
        have le: "strcmp (literal ?it) (literal it) \<le> 0"
          using assms(2) j by (cases "a = j") (auto simp: ordered_def sorted_wrt_iff_nth_less)
        have lt: "strncmp name (literal ?it) (length (literal ?it)) < 0"
          using 2 wfs [of a] False literal_length by (simp add: literal_def strncmp_def)
        have "take (length (literal it)) name = literal it"
          using reported_literal [OF assms(3) _ r] wfs j literal_length [of it]
          by (simp add: strncmp_def literal_def)
        then show False using greater_items [OF lt le] by blast
      qed
      then show ?thesis using 2 False by (simp add: filter_False limit_def)
    next
      case 3
      have "a + ?m \<le> length its" using jo by (simp add: jump_ok_def)
      let ?hits = "filter ?rep (take ?m (drop a its))"
      have run: "search_run fnm name version quiet its a ?m found = Some (found @ limit quiet ?hits, quiet \<and> ?hits \<noteq> [])"
        using search_run_spec [OF \<open>a + ?m \<le> length its\<close>] Suc.prems(2) by (simp add: Let_def)
      have all: "filter ?rep (drop a its) = ?hits @ filter ?rep (drop (a + ?m) its)"
        by (subst split) simp
      show ?thesis
      proof (cases "quiet \<and> ?hits \<noteq> []")
        case True
        then show ?thesis using 3 False run by (simp add: all limit_def Suc_le_eq)
      next
        case over: False
        then have "quiet \<Longrightarrow> found @ limit quiet ?hits = []" using Suc.prems(2) by (simp add: limit_def)
        from ih [OF this] over 3 False run show ?thesis
          by (cases quiet) (simp_all add: all limit_def Let_def)
      qed
    qed
  qed
qed

section \<open>The answer\<close>

definition affects :: "fnmatch \<Rightarrow> string \<Rightarrow> string option \<Rightarrow> audit_entry \<Rightarrow> bool" where
  "affects fnm name version e \<longleftrightarrow>
     (case ae_pkgname e of
        None \<Rightarrow> False
      | Some p \<Rightarrow> fnm p name \<and> (case version of None \<Rightarrow> True | Some v \<Rightarrow> \<exists>r \<in> set (ae_versions e). in_range v r))"

lemma items_of_entries:
  "it \<in> set (new_items es) \<Longrightarrow> item_wf it \<and> ai_next_pfx_incr it = 1 \<and> ae_pkgname (ai_entry it) = Some (ai_name it) \<and> ai_entry it \<in> set es"
  by (auto simp: new_items_def item_wf_def split: option.splits)

lemma count_items:
  "length (filter (reported fnm name version) (new_items es)) = length (filter (affects fnm name version) es)"
  by (induction es) (auto simp: new_items_def reported_def affects_def split: option.splits)

text \<open>What the preparation gives: the same entries, in order, with increments that stay in a run.\<close>

lemma prepared:
  assumes perm: "mset its = mset (new_items es)" and ord: "sorted_wrt (\<lambda>a b. pkg_audit_entry_cmp a b \<le> 0) its"
  shows "jumps_ok (jumps 1 0 its)" "ordered (jumps 1 0 its)" "map stripped (jumps 1 0 its) = map stripped its"
proof -
  have mem: "item_wf it \<and> ai_next_pfx_incr it = 1" if "it \<in> set its" for it
    using items_of_entries that mset_eq_setD [OF perm] by blast
  then have "jumps_ok its" by (auto simp: jumps_ok_def jump_ok_def less_Suc_eq)
  from jumps_keep [OF this, of 1 0]
  show "jumps_ok (jumps 1 0 its)" and eq: "map stripped (jumps 1 0 its) = map stripped its"
    by (simp_all add: run_before_def)
  let ?its = "jumps 1 0 its"
  have len: "length ?its = length its" using eq by (metis length_map)
  have "stripped (?its ! j) = stripped (its ! j)" if "j < length its" for j
    using eq that len by (metis nth_map)
  from stripped_fields [OF this]
  have f: "literal (?its ! j) = literal (its ! j)" "item_wf (?its ! j) = item_wf (its ! j)" if "j < length its" for j
    using that by (simp_all add: literal_def item_wf_def)
  have wfs: "item_wf (its ! j)" if "j < length its" for j using mem that by simp
  show "ordered ?its" unfolding ordered_def sorted_wrt_iff_nth_less
  proof (intro conjI allI impI ballI)
    fix i j assume ij: "i < j" "j < length ?its"
    then have "pkg_audit_entry_cmp (its ! i) (its ! j) \<le> 0" using ord len by (simp add: sorted_wrt_iff_nth_less)
    then show "strcmp (literal (?its ! i)) (literal (?its ! j)) \<le> 0"
      using ij f(1) [of i] f(1) [of j] entry_cmp_literal [OF wfs wfs, of i j] len by simp
  next
    fix it assume "it \<in> set ?its"
    then show "item_wf it" using f(2) wfs len by (auto simp: in_set_conv_nth)
  qed
qed

lemma filter_stripped:
  assumes "map stripped xs = map stripped ys"
  shows "length (filter (reported fnm name version) xs) = length (filter (reported fnm name version) ys)"
proof -
  have "(reported fnm name version \<circ> stripped) = reported fnm name version"
    by (auto simp: reported_def stripped_def fun_eq_iff split: option.splits)
  then have "length (filter (reported fnm name version) (map stripped zs)) = length (filter (reported fnm name version) zs)" for zs
    by (simp add: filter_map)
  then show ?thesis using assms by metis
qed

text \<open>C16. The search of the vulnerability database, which sorts the entries, starts behind those whose
  first byte is smaller, skips runs of the same pattern at once and stops at the first pattern that
  is greater, gives the same answer as looking at every entry: the package is vulnerable just if some
  entry affects it, and every entry that affects it is reported, or one of them in quiet mode. This
  holds if no pattern starts with a wildcard and the name starts with an ASCII character.
\<close>

theorem audit_search_correct:
  assumes "literal_prefix fnm"
    and "mset (srt pkg_audit_entry_cmp (new_items es)) = mset (new_items es)"
    and "sorted_wrt (\<lambda>a b. pkg_audit_entry_cmp a b \<le> 0) (srt pkg_audit_entry_cmp (new_items es))"
    and "es \<noteq> []" "\<forall>e \<in> set es. \<forall>p. ae_pkgname e = Some p \<longrightarrow> 0 < pkg_audit_str_noglob_len p"
    and "code (deref name) < 128" "length (new_items es) < n"
  shows "map_option (\<lambda>(vulnerable, text, affected). (vulnerable, affected))
      (pkg_audit_is_vulnerable n fnm (pkg_audit_preprocess srt es) name version quiet) =
    Some (\<exists>e \<in> set es. affects fnm name version e,
      (let count = length (filter (affects fnm name version) es) in if quiet then min 1 count else count))"
proof -
  let ?rep = "reported fnm name version" and ?its = "jumps 1 0 (srt pkg_audit_entry_cmp (new_items es))"
  let ?n = "code (deref name)"
  let ?a = "first_byte_idx ?its ?n"
  note prep = prepared [OF assms(2,3)]
  have len: "length ?its = length (new_items es)" using prep(3) assms(2) by (metis length_map size_mset)
  have skipped: "\<not> ?rep it" if mem: "it \<in> set (take ?a ?its)" for it
  proof
    assume r: "?rep it"
    obtain j where j: "j < ?a" "j < length ?its" "it = ?its ! j" using mem by (auto simp: in_set_conv_nth)
    then have less: "byte_index (deref (ai_name it)) < ?n" using first_byte_spec [of ?its ?n] by simp
    have "stripped it \<in> set (map stripped (srt pkg_audit_entry_cmp (new_items es)))"
      using j prep(3) by (metis list.set_map imageI nth_mem)
    then obtain it' where it': "it' \<in> set (new_items es)" "stripped it = stripped it'"
      using mset_eq_setD [OF assms(2)] by auto
    then have "0 < ai_noglob_len it" "item_wf it"
      using items_of_entries [OF it'(1)] stripped_fields [OF it'(2)] assms(5) by (auto simp: item_wf_def)
    then have "deref name = deref (ai_name it)" using reported_deref [OF assms(1)] r by blast
    then show False using less assms(6) by (simp add: byte_index_def)
  qed
  have "filter ?rep ?its = filter ?rep (take ?a ?its) @ filter ?rep (drop ?a ?its)"
    by (simp flip: filter_append)
  then have all: "filter ?rep (drop ?a ?its) = filter ?rep ?its" using skipped by (simp add: filter_empty_conv)
  have count: "length (filter ?rep ?its) = length (filter (affects fnm name version) es)"
    using filter_stripped [OF prep(3)] count_items assms(2) by (metis mset_filter size_mset)
  have "length ?its - ?a < n" using len assms(7) by simp
  from search_spec [OF prep(1,2) assms(1) this, of quiet "[]" name version]
  have run: "search n fnm name version quiet ?its ?a [] = Some (limit quiet (filter ?rep ?its))"
    unfolding all by simp
  have "(\<exists>e \<in> set es. affects fnm name version e) \<longleftrightarrow> filter ?rep ?its \<noteq> []"
    using count by (metis filter_empty_conv length_0_conv)
  then show ?thesis using run assms(4,6) count
    by (auto simp: pkg_audit_is_vulnerable_def pkg_audit_preprocess_def byte_index_def limit_def Let_def min_def take_Suc
        split: list.splits)
qed

text \<open>A matcher with the wildcard \<open>*\<close> alone, for the examples.\<close>

function star_match :: "string \<Rightarrow> string \<Rightarrow> bool" where
  "star_match [] s = (s = [])"
| "star_match (p # ps) s =
     (if p = CHR ''*'' then star_match ps s \<or> (if s = [] then False else star_match (p # ps) (tl s))
      else s \<noteq> [] \<and> hd s = p \<and> star_match ps (tl s))"
  by pat_completeness auto
termination by (relation "measure (\<lambda>(p, s). length p + length s)") (auto simp: neq_Nil_conv)

declare star_match.simps(2) [simp del]

lemma star_match_cons:
  "p \<noteq> CHR ''*'' \<Longrightarrow> star_match (p # ps) s = (s \<noteq> [] \<and> hd s = p \<and> star_match ps (tl s))"
  by (simp add: star_match.simps(2))

lemma star_match_literal: "literal_prefix star_match"
proof -
  have "star_match p s \<Longrightarrow> take (pkg_audit_str_noglob_len p) s = take (pkg_audit_str_noglob_len p) p" for p s
  proof (induction p arbitrary: s)
    case (Cons c p)
    show ?case
    proof (cases "globbing c")
      case True
      then show ?thesis by (simp add: pkg_audit_str_noglob_len_def)
    next
      case False
      then have "c \<noteq> CHR ''*''" by (auto simp: globbing_def)
      then have "s \<noteq> []" "hd s = c" "star_match p (tl s)" using Cons.prems by (simp_all add: star_match_cons)
      then show ?thesis using Cons.IH [of "tl s"] False by (cases s) (simp_all add: pkg_audit_str_noglob_len_def)
    qed
  qed (simp add: pkg_audit_str_noglob_len_def)
  then show ?thesis by (simp add: literal_prefix_def)
qed

definition entry_for :: "string \<Rightarrow> audit_op \<Rightarrow> string \<Rightarrow> audit_entry" where
  "entry_for p t v = no_entry\<lparr>ae_pkgname := Some p, ae_versions := [no_range\<lparr>vr_v1 := \<lparr>av_version = Some v, av_type = t\<rparr>\<rparr>]\<rparr>"

definition sample_audit :: "audit_entry list" where
  "sample_audit = [entry_for ''zsh'' LT ''5'', entry_for ''bash*'' LT ''4'', no_entry, entry_for ''bash'' GTE ''4'',
     entry_for ''bash*'' LTE ''5'']"

theorem audit_search_correct_witness:
  "map_option (\<lambda>(vulnerable, text, affected). (vulnerable, affected))
     (pkg_audit_is_vulnerable 9 star_match (pkg_audit_preprocess insertion_sort sample_audit) ''bash'' (Some ''5'') False) =
   Some (True, 2)"
proof -
  have sorted: "insertion_sort pkg_audit_entry_cmp (new_items sample_audit) =
      (let its = new_items sample_audit in [its ! 1, its ! 2, its ! 3, its ! 0])" by code_simp
  have len: "length (new_items sample_audit) = 4" by code_simp
  have perm: "mset (insertion_sort pkg_audit_entry_cmp (new_items sample_audit)) = mset (new_items sample_audit)"
    unfolding sorted by code_simp
  have ord: "sorted_wrt (\<lambda>a b. pkg_audit_entry_cmp a b \<le> 0) (insertion_sort pkg_audit_entry_cmp (new_items sample_audit))"
    by code_simp
  have lit: "\<forall>e \<in> set sample_audit. \<forall>p. ae_pkgname e = Some p \<longrightarrow> 0 < pkg_audit_str_noglob_len p"
    by (simp add: sample_audit_def entry_for_def no_entry_def pkg_audit_str_noglob_len_def globbing_def)
  have ascii: "code (deref ''bash'') < 128" by (simp add: code_def)
  have "sample_audit \<noteq> []" by (simp add: sample_audit_def)
  from audit_search_correct [where srt = insertion_sort and es = sample_audit, OF star_match_literal perm ord this lit ascii, of 9 "Some ''5''" False] len
  have "map_option (\<lambda>(vulnerable, text, affected). (vulnerable, affected))
     (pkg_audit_is_vulnerable 9 star_match (pkg_audit_preprocess insertion_sort sample_audit) ''bash'' (Some ''5'') False) =
     Some (\<exists>e \<in> set sample_audit. affects star_match ''bash'' (Some ''5'') e,
       length (filter (affects star_match ''bash'' (Some ''5'')) sample_audit))" by simp
  moreover have "length (filter (affects star_match ''bash'' (Some ''5'')) sample_audit) = 2" by code_simp
  moreover have "\<exists>e \<in> set sample_audit. affects star_match ''bash'' (Some ''5'') e" by code_simp
  ultimately show ?thesis by simp
qed

text \<open>A pattern that starts with a wildcard is missed: the table of first bytes counts it under
  the byte of the wildcard, so that the search for a name with a greater first byte starts behind
  it, although the pattern matches the name and every version is affected. An empty database makes
  the preparation read behind its array.
\<close>

theorem leading_wildcard_missed:
  "affects star_match ''zsh'' (Some ''5'') (entry_for ''*sh'' GT ''0'') \<and>
   map_option fst (pkg_audit_is_vulnerable 9 star_match
     (pkg_audit_preprocess insertion_sort [entry_for ''*sh'' GT ''0'']) ''zsh'' (Some ''5'') quiet) = Some False \<and>
   pkg_audit_preprocess srt [] = None"
proof -
  have "\<forall>quiet. map_option fst (pkg_audit_is_vulnerable 9 star_match
     (pkg_audit_preprocess insertion_sort [entry_for ''*sh'' GT ''0'']) ''zsh'' (Some ''5'') quiet) = Some False"
    by code_simp
  moreover have "affects star_match ''zsh'' (Some ''5'') (entry_for ''*sh'' GT ''0'')" by code_simp
  ultimately show ?thesis by (simp add: pkg_audit_preprocess_def)
qed

end
