(* ===== verification/Spec2Isabelle.thy ===== *)
theory Spec2Isabelle
  imports Deps_Formula Jobs_Execute Merge3 Object_Facts Port_Mode Port_String Query_Condition Query_Facts Vuln_Search
begin

text \<open>
  A verification library for the package manager library of ravensw (\<^verbatim>\<open>libpkg/\<close>). A job (install,
  upgrade, delete, autoremove) collects the packages it may touch in a \<^bold>\<open>universe\<close>, keeps what the
  user asked for as \<^bold>\<open>requests\<close>, resolves conflicts among them, translates both to clauses for the
  SAT solver PicoSAT, reads a list of solved \<^bold>\<open>jobs\<close> off the assignment and orders them by
  priority. Versions, digests and dependency formulas are the values it works on.

  Foundations.
  \<^item> \<open>Prelude\<close>, \<open>C_String\<close>, \<open>C_Format\<close>, \<open>Pkg_Types\<close>: the contract of comparison functions
    (\<open>three_way\<close>, \<open>sort_callback\<close>) and of the sorts of the list macros, C strings as lists of
    characters with a terminator read past the end, decimal output and tokens, the package record
    and the enumerations of \<^verbatim>\<open>private/pkg.h\<close> and \<^verbatim>\<open>pkg.h.in\<close>.

  Packages.
  \<^item> \<open>Pkg_Object\<close>, \<open>Object_Facts\<close> (\<^verbatim>\<open>pkg.c\<close>, \<^verbatim>\<open>pkg_attributes.c\<close>): building objects, with their lists and hash
    tables, attributes and messages. UCL objects, which messages are read from and written to, belong
    to libucl, a parameter (\<open>ucl_lib\<close>) with its contract (\<open>ucl_ok\<close>). The objects that jobs work on (\<open>Pkg_Types\<close>) and that are printed
    (\<open>Pkg_Printf\<close>) are views of them with the fields these parts read.

  Values.
  \<^item> \<open>Pkg_Version\<close> (\<^verbatim>\<open>pkg_version.c\<close>): the interleaved comparison of versions equals the comparison
    of a key, so it is a total preorder.
  \<^item> \<open>Deps_Formula\<close> (\<^verbatim>\<open>pkg_deps.c\<close>): the state machine that parses dependency formulas ends on every
    input; the printed formula reads back; the buffer sizes computed for the two printers.
  \<^item> \<open>Sha256\<close>, \<open>Checksum\<close> (\<^verbatim>\<open>sha256.c\<close>, \<^verbatim>\<open>pkg_checksum.c\<close>): the streaming digest refines the digest
    of the whole message, padded (the transform of a block is that of the code); digests of packages and files, their encodings and checks.
  \<^item> \<open>Upgrade\<close> (\<open>pkg_jobs_need_upgrade\<close> in \<^verbatim>\<open>pkg_jobs.c\<close>): when a remote package replaces a local one.

  Jobs.
  \<^item> \<open>Universe\<close>, \<open>Universe_Facts\<close>, \<open>Priority\<close> (\<^verbatim>\<open>pkg_jobs_universe.c\<close>): items in the order of their
    creation, chains of items with one uid, the tables of digests and provides. Processing a
    package ends, keeps the invariant \<open>universe_ok\<close> and collects what the package needs. The
    recursion takes one unit of fuel per call; one more than the number of packages in the
    databases is enough, and 1026 for priorities, which the code limits to 1024.
    \<open>Universe_Invariant\<close> states which predicates all operations keep.
  \<^item> \<open>Request\<close>, \<open>Jobs_Delete\<close>, \<open>Jobs_Auto\<close> (\<^verbatim>\<open>pkg_jobs.c\<close>): the tables of requests; delete requests are
    closed under reverse dependencies, in at most as many rounds as there are uids; what
    autoremove and deinstall jobs request.
  \<^item> \<open>Jobs_Flags\<close> (\<^verbatim>\<open>pkg_jobs.c\<close>, \<^verbatim>\<open>pkg_jobs_universe.c\<close>): the choice among the candidates of a request,
    automatic flags, reasons of deletions.
  \<^item> \<open>Jobs_Install\<close>, \<open>Install_Facts\<close> (\<^verbatim>\<open>pkg_jobs.c\<close>): install, upgrade and fetch jobs from the patterns of
    the user; they return and keep the invariant \<open>state_ok\<close>, for consistent databases and a user
    who accepts no replacement of a package by another (\<open>install_ok\<close>: a replacement that is accepted
    breaks the chains). The fuel is that of the universe.
  \<^item> \<open>Conflicts\<close> (\<^verbatim>\<open>pkg_jobs_conflicts.c\<close>): which of several conflicting requests survives, and the
    search for files that two packages install.
  \<^item> \<open>Solver\<close>, \<open>Solver_Rules\<close>, \<open>Solver_Plan\<close>, \<open>Solver_Jobs\<close> (\<^verbatim>\<open>pkg_solve.c\<close>): the clauses of a universe and
    its requests, the initial assumptions, the loop around PicoSAT, the jobs, the exchange with
    external solvers. \<open>Solver_Rules\<close> shows that the problem has all the rules, \<open>Solver_Plan\<close> that an
    assignment satisfying them is a consistent plan, \<open>Solver_Jobs\<close> that the jobs lead to it. The
    loop has no bound in the code and takes fuel; answers that stay unsatisfiable keep it going.
  \<^item> \<open>Jobs_Order\<close> (\<^verbatim>\<open>pkg_jobs.c\<close>): priorities of the jobs, the split of conflicting upgrades, the sort.
  \<^item> \<open>Pkg_Cudf\<close> (\<^verbatim>\<open>pkg_cudf.c\<close>): the universe as text for a CUDF solver, and its answer.
  \<^item> \<open>Jobs_Solve\<close> (\<open>pkg_jobs_solve\<close>): one attempt composes the phases above, from the requests to a
    list of jobs, and leads to a consistent plan; conflicts between files start it again. The
    repetition has no bound in the code and takes fuel.
  \<^item> \<open>Jobs_Execute\<close> (\<^verbatim>\<open>pkg_jobs.c\<close>): fetching, executing and applying a job. The system that packages
    are added to and deleted from is a parameter (\<open>system\<close>), and what is done to it is shown with one
    that keeps a log.

  Others.
  \<^item> \<open>Vulnxml\<close>, \<open>Vuln_Search\<close> (\<^verbatim>\<open>pkg_audit.c\<close>): the reader of vulnerability databases as a machine over the events
    of an XML parser, and the search for the entries that affect a package. The search takes one
    unit of fuel for each run of entries; one more than there are entries is enough.
  \<^item> \<open>Printf_Value\<close>, \<open>Pkg_Printf\<close>, \<open>Printf_Facts\<close> (\<^verbatim>\<open>pkg_printf.c\<close>): format strings for packages, with the table
    of escapes and a handler for each. The loop over a format takes a unit of fuel for each turn; one
    more than the format has characters is enough for every format whose printing ends, and those are
    the formats with a meaning (\<open>renders\<close>).
  \<^item> \<open>Query_Condition\<close>, \<open>Query_Format\<close>, \<open>Query_Facts\<close> (\<^verbatim>\<open>src/query.c\<close>): the conditions of \<^verbatim>\<open>pkg query\<close> as SQL, the
    check of a query and its output for a package. A condition adds no SQL of the user's; a query that
    passes the check prints.
  \<^item> \<open>Port_String\<close>, \<open>Port_Path\<close> (\<^verbatim>\<open>port_strlcpy.c\<close>, \<^verbatim>\<open>port_basename.c\<close> and others, \<open>pkg_absolutepath\<close> in
    \<^verbatim>\<open>utils.c\<close>): strings in buffers, which are not overrun, and paths as their components.
  \<^item> \<open>Diff\<close>, \<open>Merge3\<close> (\<^verbatim>\<open>diff.c\<close>, \<^verbatim>\<open>merge3.c\<close>): the differences of two texts turn the one into the other,
    and a merge of configuration files without conflicts has the changes of both, line by line of the
    pivot, and no others.
  \<^item> \<open>Port_Mode\<close> (\<^verbatim>\<open>port_mode.c\<close>, \<^verbatim>\<open>port_strmode.c\<close>): file modes as text, as commands and as bits.

  A result of type \<open>option\<close> is \<open>None\<close> for a run that fails an assertion, follows a null pointer,
  overruns a buffer or exhausts the fuel of a recursion. Parameters stand for what is not in the
  repository or not code: PicoSAT (\<open>picosat\<close>, with its contract \<open>picosat_ok\<close>), SipHash, BLAKE2, the
  sorts of the list macros, libucl, the file system, and the answers of the package databases
  (\<open>job_env\<close>). File modes have 16 bits as on the BSDs; the length of a printed dependency formula is
  not bounded to an \<^verbatim>\<open>int\<close>.

  Not modelled: the SQL statements of \<^verbatim>\<open>pkgdb.c\<close> and the repositories, archives, scripts and file
  system operations (\<^verbatim>\<open>pkg_add.c\<close>, \<^verbatim>\<open>pkg_delete.c\<close>, \<^verbatim>\<open>pkg_create.c\<close>), network and configuration, the
  command line, memory management, hooks of plugins, and messages to the user.
\<close>

end
